(* ===== verification/Prelude.thy ===== *)
theory Prelude
  imports Main "HOL-Library.Word" "HOL-Library.Monad_Syntax" "HOL-Library.Signed_Division"
begin

text \<open>
  The vocabulary every component shares.

  \<^item> C integers. The builds pass \<open>-fwrapv\<close>, so an \<open>int32_t\<close> is an \<open>int\<close> that every
    addition, subtraction and cast brings back into range with \<open>i32\<close>; \<open>u32\<close>, \<open>i16\<close>,
    \<open>u16\<close> and \<open>u8\<close> are the other casts the sources write.
  \<^item> Bytes are \<open>8 word\<close>, memory blocks are byte lists. Reads and writes go through
    \<open>peek\<close>, \<open>poke\<close>, \<open>copy_in\<close> and \<open>copy_out\<close>, which return \<open>None\<close> for an access outside
    the block. \<open>None\<close> is therefore the undefined behaviour of the C program: that an
    operation returns \<open>Some\<close> is its memory safety.
  \<^item> A C string is the list of its characters before the NUL. A \<open>char\<close> is signed, as the
    i386 targets and \<open>-fsigned-char\<close> have it: \<open>schar\<close>.
\<close>

unbundle bit_operations_syntax

section \<open>Collections of simplification rules\<close>

named_theorems i32_simps \<open>wrap-around of the C integer types\<close>
named_theorems mem_simps \<open>checked access to memory blocks\<close>

section \<open>C integers\<close>

definition i32 :: "int \<Rightarrow> int" where
  "i32 x = (x + 2147483648) mod 4294967296 - 2147483648"

definition u32 :: "int \<Rightarrow> int" where
  "u32 x = x mod 4294967296"

definition i16 :: "int \<Rightarrow> int" where
  "i16 x = (x + 32768) mod 65536 - 32768"

definition u16 :: "int \<Rightarrow> int" where
  "u16 x = x mod 65536"

definition u8 :: "int \<Rightarrow> int" where
  "u8 x = x mod 256"

definition int32_range :: "int \<Rightarrow> bool" where
  "int32_range x \<longleftrightarrow> -2147483648 \<le> x \<and> x < 2147483648"

lemma i32_id [i32_simps]: "-2147483648 \<le> x \<Longrightarrow> x < 2147483648 \<Longrightarrow> i32 x = x"
  by (simp add: i32_def)

lemma i32_range: "-2147483648 \<le> i32 x" "i32 x < 2147483648"
  by (simp_all add: i32_def)

lemma int32_range_i32 [simp]: "int32_range (i32 x)"
  by (simp add: int32_range_def i32_range)

lemma i32_idem [simp]: "i32 (i32 x) = i32 x"
  by (rule i32_id) (rule i32_range)+

lemma u32_i32 [simp]: "u32 (i32 x) = u32 x"
  by (simp add: u32_def i32_def mod_diff_left_eq)

lemma i32_u32 [simp]: "i32 (u32 x) = i32 x"
  by (simp add: u32_def i32_def mod_add_left_eq)

lemma u32_id [i32_simps]: "0 \<le> x \<Longrightarrow> x < 4294967296 \<Longrightarrow> u32 x = x"
  by (simp add: u32_def)

lemma i16_id [i32_simps]: "-32768 \<le> x \<Longrightarrow> x < 32768 \<Longrightarrow> i16 x = x"
  by (simp add: i16_def)

lemma i16_range: "-32768 \<le> i16 x" "i16 x < 32768"
  by (simp_all add: i16_def)

lemma u16_id [i32_simps]: "0 \<le> x \<Longrightarrow> x < 65536 \<Longrightarrow> u16 x = x"
  by (simp add: u16_def)

lemma u8_id [i32_simps]: "0 \<le> x \<Longrightarrow> x < 256 \<Longrightarrow> u8 x = x"
  by (simp add: u8_def)

lemma i32_mod: "i32 x mod 4294967296 = x mod 4294967296"
  using u32_i32 [of x] by (simp add: u32_def)

lemma i32_cong: "x mod 4294967296 = y mod 4294967296 \<Longrightarrow> i32 x = i32 y"
  by (metis i32_u32 u32_def)

lemma i16_cong: "x mod 65536 = y mod 65536 \<Longrightarrow> i16 x = i16 y"
  unfolding i16_def by (metis mod_add_left_eq)

lemma and_7 [simp]: "(x::int) AND 7 = x mod 8"
  using take_bit_eq_mask [of 3 x] by (simp add: mask_eq_exp_minus_1 take_bit_eq_mod)

lemma drop_bit_3 [simp]: "drop_bit 3 (x::int) = x div 8"
  by (simp add: drop_bit_eq_div)

text \<open>C's \<open>/\<close> and \<open>%\<close> truncate; on the non-negative operands they are \<open>div\<close> and \<open>mod\<close>.\<close>

lemma smod_pos [i32_simps]: "0 \<le> k \<Longrightarrow> 0 < n \<Longrightarrow> k smod n = k mod n" for k n :: int
  by (simp add: signed_modulo_int_def signed_divide_int_def sgn_if minus_mult_div_eq_mod mult.commute)

lemma sdiv_pos [i32_simps]: "0 \<le> k \<Longrightarrow> 0 < n \<Longrightarrow> k sdiv n = k div n" for k n :: int
  by (simp add: signed_divide_int_def sgn_if)

section \<open>Memory blocks\<close>

definition peek :: "'a list \<Rightarrow> int \<Rightarrow> 'a option" where
  "peek xs i = (if 0 \<le> i \<and> i < int (length xs) then Some (xs ! nat i) else None)"

definition poke :: "'a list \<Rightarrow> int \<Rightarrow> 'a \<Rightarrow> 'a list option" where
  "poke xs i v = (if 0 \<le> i \<and> i < int (length xs) then Some (xs[nat i := v]) else None)"

definition copy_in :: "'a list \<Rightarrow> int \<Rightarrow> 'a list \<Rightarrow> 'a list option" where
  "copy_in xs off src =
     (if 0 \<le> off \<and> off + int (length src) \<le> int (length xs)
      then Some (take (nat off) xs @ src @ drop (nat off + length src) xs) else None)"

definition copy_out :: "'a list \<Rightarrow> int \<Rightarrow> int \<Rightarrow> 'a list option" where
  "copy_out xs off n =
     (if 0 \<le> off \<and> 0 \<le> n \<and> off + n \<le> int (length xs)
      then Some (take (nat n) (drop (nat off) xs)) else None)"

text \<open>The pointer \<open>xs + off\<close>; it may point one past the block, not further.\<close>

definition from_offset :: "'a list \<Rightarrow> int \<Rightarrow> 'a list option" where
  "from_offset xs off = (if 0 \<le> off \<and> off \<le> int (length xs) then Some (drop (nat off) xs) else None)"

lemma from_offset_Some [mem_simps]:
  "0 \<le> off \<Longrightarrow> off \<le> int (length xs) \<Longrightarrow> from_offset xs off = Some (drop (nat off) xs)"
  by (simp add: from_offset_def)

lemma peek_Some [mem_simps]: "0 \<le> i \<Longrightarrow> i < int (length xs) \<Longrightarrow> peek xs i = Some (xs ! nat i)"
  by (simp add: peek_def)

lemma poke_Some [mem_simps]: "0 \<le> i \<Longrightarrow> i < int (length xs) \<Longrightarrow> poke xs i v = Some (xs[nat i := v])"
  by (simp add: poke_def)

lemma copy_in_Some [mem_simps]:
  "0 \<le> off \<Longrightarrow> off + int (length src) \<le> int (length xs) \<Longrightarrow>
   copy_in xs off src = Some (take (nat off) xs @ src @ drop (nat off + length src) xs)"
  by (simp add: copy_in_def)

lemma copy_out_Some [mem_simps]:
  "0 \<le> off \<Longrightarrow> 0 \<le> n \<Longrightarrow> off + n \<le> int (length xs) \<Longrightarrow>
   copy_out xs off n = Some (take (nat n) (drop (nat off) xs))"
  by (simp add: copy_out_def)

lemma peek_eq_Some: "peek xs i = Some v \<longleftrightarrow> 0 \<le> i \<and> i < int (length xs) \<and> v = xs ! nat i"
  by (auto simp: peek_def)

lemma poke_eq_Some: "poke xs i v = Some ys \<longleftrightarrow> 0 \<le> i \<and> i < int (length xs) \<and> ys = xs[nat i := v]"
  by (auto simp: poke_def)

lemma copy_in_length: "copy_in xs off src = Some ys \<Longrightarrow> length ys = length xs"
  by (auto simp: copy_in_def split: if_splits)

lemma copy_in_nth:
  assumes "copy_in xs off src = Some ys" "i < length xs"
  shows "ys ! i = (if off \<le> int i \<and> int i < off + int (length src) then src ! (i - nat off) else xs ! i)"
  using assms by (auto simp: copy_in_def nth_append split: if_splits)

lemma copy_out_length: "copy_out xs off n = Some ys \<Longrightarrow> length ys = nat n"
  by (auto simp: copy_out_def split: if_splits)

lemma copy_out_in:
  assumes "copy_in xs off src = Some ys"
  shows "copy_out ys off (int (length src)) = Some src"
  using assms by (auto simp: copy_in_def copy_out_def split: if_splits)

section \<open>Characters and strings\<close>

definition schar :: "char \<Rightarrow> int" where
  "schar c = (let n = of_char c in if n < (128::int) then n else n - 256)"

definition byte_of :: "char \<Rightarrow> 8 word" where
  "byte_of c = word_of_int (of_char c)"

definition char_of_byte :: "8 word \<Rightarrow> char" where
  "char_of_byte b = char_of (uint b)"

lemma of_char_bounds: "0 \<le> (of_char c :: int)" "(of_char c :: int) < 256"
  using of_char_mod_256 [of c, where 'a = int]
  by (metis pos_mod_sign zero_less_numeral, metis pos_mod_bound zero_less_numeral)

lemma char_of_byte_of [simp]: "char_of_byte (byte_of c) = c"
  using of_char_bounds [of c] by (simp add: char_of_byte_def byte_of_def uint_word_of_int)

lemma byte_of_char_of [simp]: "byte_of (char_of_byte b) = b"
  using uint_lt2p [of b] by (simp add: char_of_byte_def byte_of_def)

abbreviation NUL :: char where
  "NUL \<equiv> CHR 0x00"

lemma byte_of_eq_iff [simp]: "byte_of c = byte_of d \<longleftrightarrow> c = d"
  by (metis char_of_byte_of)

lemma byte_of_NUL [simp]: "byte_of NUL = 0"
  by (simp add: byte_of_def)

lemma byte_of_eq_0_iff [simp]: "byte_of c = 0 \<longleftrightarrow> c = NUL"
  by (metis byte_of_NUL byte_of_eq_iff)

definition nulfree :: "string \<Rightarrow> bool" where
  "nulfree s \<longleftrightarrow> NUL \<notin> set s"

lemma nulfree_simps [simp]:
  "nulfree []" "nulfree (c # s) \<longleftrightarrow> c \<noteq> NUL \<and> nulfree s" "nulfree (s @ t) \<longleftrightarrow> nulfree s \<and> nulfree t"
  by (auto simp: nulfree_def)

definition cstr_of :: "string \<Rightarrow> string" where
  "cstr_of buf = takeWhile (\<lambda>c. c \<noteq> NUL) buf"

lemma nulfree_cstr_of [simp]: "nulfree (cstr_of buf)"
  by (auto simp: nulfree_def cstr_of_def dest: set_takeWhileD)

lemma cstr_of_append_NUL: "nulfree s \<Longrightarrow> cstr_of (s @ NUL # t) = s"
  by (simp add: cstr_of_def nulfree_def takeWhile_tail takeWhile_append)

lemma nulfree_take [simp]: "nulfree s \<Longrightarrow> nulfree (take n s)"
  by (auto simp: nulfree_def dest: in_set_takeD)

section \<open>Fatal errors\<close>

text \<open>
  \<open>Com_Error\<close> leaves the caller through \<open>longjmp\<close> and never returns, so it is a result of
  the operation that raises it; its text is kept without the \<open>\x15\<close> marker the engine puts
  in front and, where the format takes arguments, as the format. \<open>Fault\<close> is again an access
  outside a block. \<open>Com_Printf\<close> diagnostics are not part of any result.
\<close>

datatype errorParm_t = ERR_FATAL | ERR_DROP

datatype 'a run = Fault | Raise errorParm_t string | Done 'a

fun run_bind :: "'a run \<Rightarrow> ('a \<Rightarrow> 'b run) \<Rightarrow> 'b run" where
  "run_bind Fault f = Fault"
| "run_bind (Raise e s) f = Raise e s"
| "run_bind (Done x) f = f x"

definition checked :: "'a option \<Rightarrow> 'a run" where
  "checked x = (case x of None \<Rightarrow> Fault | Some v \<Rightarrow> Done v)"

lemma checked_simps [simp]: "checked (Some v) = Done v" "checked None = Fault"
  by (simp_all add: checked_def)

lemma run_bind_eq_Done: "run_bind m f = Done y \<longleftrightarrow> (\<exists>x. m = Done x \<and> f x = Done y)"
  by (cases m) auto

end
