(* ===== verification/QString.thy ===== *)
theory QString
  imports Prelude
begin

text \<open>
  \<open>src/qcommon/q_string.c\<close>: the engine's own string and character routines. A
  \<open>const char *\<close> argument is the list of characters up to its NUL; a destination array is
  a list of characters of the array's length, so that a store past its end is \<open>None\<close>.
\<close>

section \<open>Character classes\<close>

definition Q_isprint :: "int \<Rightarrow> bool" where
  "Q_isprint character \<longleftrightarrow> 32 \<le> character \<and> character \<le> 126"

definition Q_islower :: "int \<Rightarrow> bool" where
  "Q_islower character \<longleftrightarrow> 97 \<le> character \<and> character \<le> 122"

definition Q_isupper :: "int \<Rightarrow> bool" where
  "Q_isupper character \<longleftrightarrow> 65 \<le> character \<and> character \<le> 90"

definition Q_isalpha :: "int \<Rightarrow> bool" where
  "Q_isalpha character \<longleftrightarrow>
     (97 \<le> character \<and> character \<le> 122) \<or> (65 \<le> character \<and> character \<le> 90)"

definition Q_isnumeric :: "int \<Rightarrow> bool" where
  "Q_isnumeric character \<longleftrightarrow> 48 \<le> character \<and> character \<le> 57"

definition Q_isalphanumeric :: "int \<Rightarrow> bool" where
  "Q_isalphanumeric character \<longleftrightarrow>
     (97 \<le> character \<and> character \<le> 122) \<or> (65 \<le> character \<and> character \<le> 90) \<or>
     (48 \<le> character \<and> character \<le> 57)"

definition Q_isforfilename :: "int \<Rightarrow> bool" where
  "Q_isforfilename character \<longleftrightarrow>
     (Q_isalphanumeric character \<or> character = 95 \<or> character = 45) \<and> character \<noteq> 32"

definition Q_CleanCharacter :: "8 word \<Rightarrow> 8 word" where
  "Q_CleanCharacter character =
     (if character = 146 then 39 else if character > 127 then 46 else character)"

section \<open>Copying\<close>

definition Q_strncpyz :: "string \<Rightarrow> string \<Rightarrow> int \<Rightarrow> string option" where
  "Q_strncpyz destination source sz =
     (if sz \<le> 0 then Some destination
      else copy_in destination 0
             (take (nat (sz - 1)) source @
              replicate (nat (sz - 1) - length source) NUL @ [NUL]))"

definition Q_strcat :: "string \<Rightarrow> int \<Rightarrow> string \<Rightarrow> string run" where
  "Q_strcat destination sz source =
     (let destinationLength = int (length (cstr_of destination))
      in if destinationLength \<ge> sz
         then Raise ERR_FATAL ''Q_strcat: already overflowed''
         else checked (do {
           tail \<leftarrow> Q_strncpyz (drop (nat destinationLength) destination) source
                     (sz - destinationLength);
           Some (take (nat destinationLength) destination @ tail) }))"

fun Q_strrchr :: "string \<Rightarrow> char \<Rightarrow> nat option" where
  "Q_strrchr [] target = (if target = NUL then Some 0 else None)"
| "Q_strrchr (c # cs) target =
     (case Q_strrchr cs target of
        Some k \<Rightarrow> Some (Suc k)
      | None \<Rightarrow> (if c = target then Some 0 else None))"

section \<open>Comparison\<close>

definition fold_lower :: "int \<Rightarrow> int" where
  "fold_lower ch = (if 97 \<le> ch \<and> ch \<le> 122 then ch - 32 else ch)"

definition first_char :: "string \<Rightarrow> int" where
  "first_char s = (case s of [] \<Rightarrow> 0 | c # _ \<Rightarrow> schar c)"

fun Q_stricmpn_loop :: "nat \<Rightarrow> string \<Rightarrow> string \<Rightarrow> int" where
  "Q_stricmpn_loop remaining left right =
     (if remaining = 0 then 0
      else let leftCharacter = first_char left; rightCharacter = first_char right
           in if leftCharacter \<noteq> rightCharacter \<and>
                 fold_lower leftCharacter \<noteq> fold_lower rightCharacter
              then (if fold_lower leftCharacter < fold_lower rightCharacter then -1 else 1)
              else if (if leftCharacter \<noteq> rightCharacter then fold_lower leftCharacter
                       else leftCharacter) = 0 then 0
              else Q_stricmpn_loop (remaining - 1) (tl left) (tl right))"

declare Q_stricmpn_loop.simps [simp del]

definition Q_stricmpn :: "string \<Rightarrow> string \<Rightarrow> int \<Rightarrow> int" where
  "Q_stricmpn left right count = Q_stricmpn_loop (nat (u32 count)) left right"

definition Q_stricmp :: "string option \<Rightarrow> string option \<Rightarrow> int" where
  "Q_stricmp left right =
     (case (left, right) of (Some l, Some r) \<Rightarrow> Q_stricmpn l r 99999 | _ \<Rightarrow> -1)"

fun Q_strncmp_loop :: "nat \<Rightarrow> string \<Rightarrow> string \<Rightarrow> int" where
  "Q_strncmp_loop remaining left right =
     (if remaining = 0 then 0
      else let leftCharacter = first_char left; rightCharacter = first_char right
           in if leftCharacter \<noteq> rightCharacter
              then (if leftCharacter < rightCharacter then -1 else 1)
              else if leftCharacter = 0 then 0
              else Q_strncmp_loop (remaining - 1) (tl left) (tl right))"

declare Q_strncmp_loop.simps [simp del]

definition Q_strncmp :: "string \<Rightarrow> string \<Rightarrow> int \<Rightarrow> int" where
  "Q_strncmp left right count = Q_strncmp_loop (nat (u32 count)) left right"

fun Q_strncasecmp_loop :: "nat \<Rightarrow> string \<Rightarrow> string \<Rightarrow> int" where
  "Q_strncasecmp_loop remaining left right =
     (if remaining = 0 then 0
      else let leftCharacter = first_char left; rightCharacter = first_char right
           in if leftCharacter \<noteq> rightCharacter \<and>
                 fold_lower leftCharacter \<noteq> fold_lower rightCharacter
              then -1
              else if (if leftCharacter \<noteq> rightCharacter then fold_lower leftCharacter
                       else leftCharacter) = 0 then 0
              else Q_strncasecmp_loop (remaining - 1) (tl left) (tl right))"

declare Q_strncasecmp_loop.simps [simp del]

definition Q_strncasecmp :: "string \<Rightarrow> string \<Rightarrow> int \<Rightarrow> int" where
  "Q_strncasecmp left right count = Q_strncasecmp_loop (nat (u32 count)) left right"

definition Q_strcasecmp :: "string \<Rightarrow> string \<Rightarrow> int" where
  "Q_strcasecmp left right = Q_strncasecmp left right 99999"

section \<open>Case, color codes and cleaning\<close>

definition Q_strlwr :: "string \<Rightarrow> string" where
  "Q_strlwr s = map (\<lambda>c. if 65 \<le> schar c \<and> schar c \<le> 90 then char_of (schar c + 32) else c) s"

definition Q_strupr :: "string \<Rightarrow> string" where
  "Q_strupr s = map (\<lambda>c. if 97 \<le> schar c \<and> schar c \<le> 122 then char_of (schar c - 32) else c) s"

definition color_code :: "string \<Rightarrow> bool" where
  "color_code s = (case s of
     a # b # _ \<Rightarrow> a = CHR ''^'' \<and> b \<noteq> NUL \<and> b \<noteq> CHR ''^'' \<and> 48 \<le> schar b \<and> schar b \<le> 57
   | _ \<Rightarrow> False)"

fun draw_length :: "string \<Rightarrow> int" where
  "draw_length [] = 0"
| "draw_length (c # cs) =
     (if color_code (c # cs) then draw_length (drop 2 (c # cs)) else 1 + draw_length cs)"

definition Q_DrawStrlen :: "string \<Rightarrow> int" where
  "Q_DrawStrlen s = i32 (draw_length s)"

fun Q_CleanStr :: "string \<Rightarrow> string" where
  "Q_CleanStr [] = []"
| "Q_CleanStr (c # cs) =
     (if color_code (c # cs) then Q_CleanStr (drop 2 (c # cs))
      else if 32 \<le> schar c \<and> schar c \<le> 126 then c # Q_CleanStr cs
      else Q_CleanStr cs)"

end
