(* ===== verification/Msg.thy ===== *)
theory Msg
  imports QString
begin

text \<open>
  \<open>src/qcommon/msg_base.c\<close> and \<open>msg.h\<close>: the message cursor \<open>msg_t\<close> and its primitive
  codecs. A message holds two interleaved streams in one buffer: whole bytes are appended at
  \<open>cursize\<close>, single bits fill the byte opened last by a bit operation (\<open>bit\<close> is the absolute
  bit position, a multiple of 8 when the next bit operation opens a byte of its own). The
  reader keeps the same two cursors, \<open>readcount\<close> and \<open>bit\<close>.

  \<open>None\<close> is an access outside \<open>data\<close>. The float codecs (\<open>MSG_WriteAngle\<close>,
  \<open>MSG_WriteAngle16\<close>, \<open>MSG_ReadAngle16\<close>) go through x87 arithmetic and are not modelled.
  \<open>MSG_Init\<close> is the cursor part; the Huffman latch it also tests is modelled in theory
  Huffman. The static result buffers of the string readers are their results.
\<close>

section \<open>State\<close>

record msg_t =
  m_overflowed :: bool
  m_data :: "8 word list"
  m_maxsize :: int
  m_cursize :: int
  m_readcount :: int
  m_bit :: int

abbreviation MAX_STRING_CHARS :: int where "MAX_STRING_CHARS \<equiv> 1024"
abbreviation BIG_INFO_STRING :: int where "BIG_INFO_STRING \<equiv> 8192"

definition MSG_Init :: "8 word list \<Rightarrow> int \<Rightarrow> msg_t" where
  "MSG_Init data maxsize =
     \<lparr>m_overflowed = False, m_data = data, m_maxsize = maxsize, m_cursize = 0,
      m_readcount = 0, m_bit = 0\<rparr>"

definition MSG_BeginReading :: "msg_t \<Rightarrow> msg_t" where
  "MSG_BeginReading message = message\<lparr>m_readcount := 0, m_bit := 0\<rparr>"

section \<open>Bits\<close>

text \<open>The block every bit writer runs when \<open>(bit & 7) == 0\<close>: open the byte at \<open>cursize\<close>.\<close>

definition open_byte :: "msg_t \<Rightarrow> msg_t option" where
  "open_byte message = do {
     data \<leftarrow> poke (m_data message) (m_cursize message) 0;
     Some (message\<lparr>m_bit := i32 (8 * m_cursize message), m_data := data,
                   m_cursize := m_cursize message + 1\<rparr>) }"

definition set_bit_at :: "msg_t \<Rightarrow> int \<Rightarrow> msg_t option" where
  "set_bit_at message bitInByte = do {
     b \<leftarrow> peek (m_data message) (drop_bit 3 (m_bit message));
     data \<leftarrow> poke (m_data message) (drop_bit 3 (m_bit message)) (b OR push_bit (nat bitInByte) 1);
     Some (message\<lparr>m_data := data\<rparr>) }"

fun MSG_WriteBits_loop :: "nat \<Rightarrow> 32 word \<Rightarrow> msg_t \<Rightarrow> msg_t option" where
  "MSG_WriteBits_loop 0 valueBits message = Some message"
| "MSG_WriteBits_loop (Suc n) valueBits message =
     (let bitInByte = m_bit message AND 7 in do {
        message1 \<leftarrow> (if bitInByte = 0 then open_byte message else Some message);
        message2 \<leftarrow> (if valueBits AND 1 \<noteq> 0 then set_bit_at message1 bitInByte else Some message1);
        MSG_WriteBits_loop n (drop_bit 1 valueBits OR (valueBits AND 0x80000000))
          (message2\<lparr>m_bit := i32 (m_bit message2 + 1)\<rparr>) })"

definition MSG_WriteBits :: "msg_t \<Rightarrow> int \<Rightarrow> int \<Rightarrow> msg_t option" where
  "MSG_WriteBits message value bitCount =
     (if i32 (m_maxsize message - m_cursize message) < 4
      then Some (message\<lparr>m_overflowed := True\<rparr>)
      else MSG_WriteBits_loop (nat (u32 bitCount)) (word_of_int value) message)"

definition MSG_WriteBit0 :: "msg_t \<Rightarrow> msg_t option" where
  "MSG_WriteBit0 message =
     (if m_cursize message \<ge> m_maxsize message
      then Some (message\<lparr>m_overflowed := True\<rparr>)
      else do {
        message1 \<leftarrow> (if m_bit message AND 7 = 0 then open_byte message else Some message);
        Some (message1\<lparr>m_bit := i32 (m_bit message1 + 1)\<rparr>) })"

definition MSG_WriteBit1 :: "msg_t \<Rightarrow> msg_t option" where
  "MSG_WriteBit1 message =
     (if m_cursize message \<ge> m_maxsize message
      then Some (message\<lparr>m_overflowed := True\<rparr>)
      else let bitInByte = m_bit message AND 7 in do {
        message1 \<leftarrow> (if bitInByte = 0 then open_byte message else Some message);
        message2 \<leftarrow> set_bit_at message1 bitInByte;
        Some (message2\<lparr>m_bit := i32 (m_bit message2 + 1)\<rparr>) })"

text \<open>One bit of a reader: \<open>None\<close> inside is the branch that publishes the overflow cursor.\<close>

definition read_overflow :: "msg_t \<Rightarrow> msg_t" where
  "read_overflow message = message\<lparr>m_readcount := i32 (m_cursize message + 1)\<rparr>"

definition next_read_byte :: "msg_t \<Rightarrow> msg_t option" where
  "next_read_byte message =
     (if m_readcount message < 0 \<or> m_readcount message \<ge> m_cursize message then None
      else Some (message\<lparr>m_bit := i32 (8 * m_readcount message),
                         m_readcount := m_readcount message + 1\<rparr>))"

definition MSG_ReadBit :: "msg_t \<Rightarrow> (int \<times> msg_t) option" where
  "MSG_ReadBit message =
     (let bitInByte = m_bit message AND 7 in
      case (if bitInByte = 0 then next_read_byte message else Some message) of
        None \<Rightarrow> Some (0, read_overflow message)
      | Some message1 \<Rightarrow>
          (if m_bit message1 < 0 \<or> drop_bit 3 (m_bit message1) \<ge> m_cursize message1
           then Some (0, read_overflow message1)
           else do {
             b \<leftarrow> peek (m_data message1) (drop_bit 3 (m_bit message1));
             Some (uint (drop_bit (nat bitInByte) b AND 1),
                   message1\<lparr>m_bit := i32 (m_bit message1 + 1)\<rparr>) }))"

fun MSG_ReadBits_loop ::
    "nat \<Rightarrow> nat \<Rightarrow> 32 word \<Rightarrow> msg_t \<Rightarrow> (int \<times> msg_t) option" where
  "MSG_ReadBits_loop 0 outputBit valueBits message = Some (sint valueBits, message)"
| "MSG_ReadBits_loop (Suc n) outputBit valueBits message =
     (let bitInByte = m_bit message AND 7 in
      case (if bitInByte = 0 then next_read_byte message else Some message) of
        None \<Rightarrow> Some (0, read_overflow message)
      | Some message1 \<Rightarrow>
          (if m_bit message1 < 0 \<or> drop_bit 3 (m_bit message1) \<ge> m_cursize message1
           then Some (0, read_overflow message1)
           else do {
             b \<leftarrow> peek (m_data message1) (drop_bit 3 (m_bit message1));
             MSG_ReadBits_loop n (Suc outputBit)
               (valueBits OR push_bit (outputBit mod 32) (ucast (drop_bit (nat bitInByte) b AND 1)))
               (message1\<lparr>m_bit := i32 (m_bit message1 + 1)\<rparr>) }))"

definition MSG_ReadBits :: "msg_t \<Rightarrow> int \<Rightarrow> (int \<times> msg_t) option" where
  "MSG_ReadBits message bitCount = MSG_ReadBits_loop (nat bitCount) 0 0 message"

section \<open>Bytes, words and blocks\<close>

definition MSG_WriteByte :: "msg_t \<Rightarrow> int \<Rightarrow> msg_t option" where
  "MSG_WriteByte message value =
     (if m_cursize message < m_maxsize message then do {
        data \<leftarrow> poke (m_data message) (m_cursize message) (word_of_int value);
        Some (message\<lparr>m_data := data, m_cursize := m_cursize message + 1\<rparr>) }
      else Some (message\<lparr>m_overflowed := True\<rparr>))"

definition MSG_WriteData :: "msg_t \<Rightarrow> 8 word list \<Rightarrow> int \<Rightarrow> msg_t option" where
  "MSG_WriteData message data len =
     (if len < 0 \<or> m_cursize message < 0 \<or> m_cursize message > m_maxsize message \<or>
         len > m_maxsize message - m_cursize message
      then Some (message\<lparr>m_overflowed := True\<rparr>)
      else do {
        src \<leftarrow> copy_out data 0 len;
        data' \<leftarrow> copy_in (m_data message) (m_cursize message) src;
        Some (message\<lparr>m_data := data', m_cursize := m_cursize message + len\<rparr>) })"

definition MSG_WriteShort :: "msg_t \<Rightarrow> int \<Rightarrow> msg_t option" where
  "MSG_WriteShort message value =
     (let end' = i32 (m_cursize message + 2); stored = (word_of_int value :: 16 word) in
      if end' > m_maxsize message then Some (message\<lparr>m_overflowed := True\<rparr>)
      else do {
        d0 \<leftarrow> poke (m_data message) (m_cursize message) (ucast stored);
        d1 \<leftarrow> poke d0 (m_cursize message + 1) (ucast (drop_bit 8 stored));
        Some (message\<lparr>m_data := d1, m_cursize := end'\<rparr>) })"

definition MSG_WriteLong :: "msg_t \<Rightarrow> int \<Rightarrow> msg_t option" where
  "MSG_WriteLong message value =
     (let end' = i32 (m_cursize message + 4); stored = (word_of_int value :: 32 word) in
      if end' > m_maxsize message then Some (message\<lparr>m_overflowed := True\<rparr>)
      else do {
        d0 \<leftarrow> poke (m_data message) (m_cursize message) (ucast stored);
        d1 \<leftarrow> poke d0 (m_cursize message + 1) (ucast (drop_bit 8 stored));
        d2 \<leftarrow> poke d1 (m_cursize message + 2) (ucast (drop_bit 16 stored));
        d3 \<leftarrow> poke d2 (m_cursize message + 3) (ucast (drop_bit 24 stored));
        Some (message\<lparr>m_data := d3, m_cursize := end'\<rparr>) })"

definition MSG_ReadByte :: "msg_t \<Rightarrow> (int \<times> msg_t) option" where
  "MSG_ReadByte message =
     (if m_readcount message \<ge> m_cursize message then Some (-1, message)
      else do {
        b \<leftarrow> peek (m_data message) (m_readcount message);
        Some (uint b, message\<lparr>m_readcount := m_readcount message + 1\<rparr>) })"

definition MSG_ReadShort :: "msg_t \<Rightarrow> (int \<times> msg_t) option" where
  "MSG_ReadShort message =
     (let end' = i32 (m_readcount message + 2) in
      if end' > m_cursize message then Some (-1, message)
      else do {
        b0 \<leftarrow> peek (m_data message) (m_readcount message);
        b1 \<leftarrow> peek (m_data message) (m_readcount message + 1);
        let stored = (ucast b0 OR push_bit 8 (ucast b1) :: 16 word) in
        Some (sint stored, message\<lparr>m_readcount := end'\<rparr>) })"

definition MSG_ReadLong :: "msg_t \<Rightarrow> (int \<times> msg_t) option" where
  "MSG_ReadLong message =
     (let end' = i32 (m_readcount message + 4) in
      if end' > m_cursize message then Some (-1, message)
      else do {
        b0 \<leftarrow> peek (m_data message) (m_readcount message);
        b1 \<leftarrow> peek (m_data message) (m_readcount message + 1);
        b2 \<leftarrow> peek (m_data message) (m_readcount message + 2);
        b3 \<leftarrow> peek (m_data message) (m_readcount message + 3);
        let stored = (ucast b0 OR push_bit 8 (ucast b1) OR push_bit 16 (ucast b2) OR
                      push_bit 24 (ucast b3) :: 32 word) in
        Some (sint stored, message\<lparr>m_readcount := end'\<rparr>) })"

definition MSG_ReadData :: "msg_t \<Rightarrow> 8 word list \<Rightarrow> int \<Rightarrow> (8 word list \<times> msg_t) option" where
  "MSG_ReadData message data len =
     (if len < 0 then Some (data, message)
      else let end' = i32 (m_readcount message + len) in
      if end' > m_cursize message
      then do { data' \<leftarrow> copy_in data 0 (replicate (nat len) 255); Some (data', message) }
      else do {
        src \<leftarrow> copy_out (m_data message) (m_readcount message) len;
        data' \<leftarrow> copy_in data 0 src;
        Some (data', message\<lparr>m_readcount := end'\<rparr>) })"

section \<open>Strings\<close>

definition clean_string :: "string \<Rightarrow> 8 word list" where
  "clean_string s = map (Q_CleanCharacter \<circ> byte_of) s"

definition MSG_WriteString :: "msg_t \<Rightarrow> string option \<Rightarrow> msg_t option" where
  "MSG_WriteString message s =
     (case s of
        None \<Rightarrow> MSG_WriteData message [0] 1
      | Some str \<Rightarrow>
          let len = i32 (int (length str)) in
          if len \<ge> MAX_STRING_CHARS then MSG_WriteData message [0] 1
          else MSG_WriteData message (clean_string str @ [0]) (len + 1))"

definition MSG_WriteBigString :: "msg_t \<Rightarrow> string option \<Rightarrow> msg_t option" where
  "MSG_WriteBigString message s =
     (case s of
        None \<Rightarrow> MSG_WriteData message [0] 1
      | Some str \<Rightarrow>
          let len = i32 (int (length str)) in
          if len \<ge> BIG_INFO_STRING then MSG_WriteData message [0] 1
          else do {
            sanitized \<leftarrow> Q_strncpyz (replicate (nat BIG_INFO_STRING) NUL) str BIG_INFO_STRING;
            MSG_WriteData message
              (clean_string (take (nat len) sanitized) @
               map byte_of (drop (nat len) sanitized)) (len + 1) })"

text \<open>
  The three string readers share their loop up to three choices: the capacity, whether a
  newline ends the string, and whether \<open>%\<close> becomes \<open>.\<close>.
\<close>

function read_string_loop ::
    "int \<Rightarrow> bool \<Rightarrow> bool \<Rightarrow> msg_t \<Rightarrow> 8 word list \<Rightarrow> (8 word list \<times> msg_t) option" where
  "read_string_loop capacity stopAtNewline dotPercent message out =
     (if m_readcount message < m_cursize message then
        (case MSG_ReadByte message of
           None \<Rightarrow> None
         | Some (character, message1) \<Rightarrow>
             (if character = -1 \<or> character = 0 \<or> (stopAtNewline \<and> character = 10)
              then Some (out, message1)
              else let c = (if dotPercent \<and> character = 37 then 46 else character) in
                read_string_loop capacity stopAtNewline dotPercent message1
                  (if int (length out) < capacity - 1
                   then out @ [Q_CleanCharacter (word_of_int c)] else out)))
      else Some (out, message))"
  by pat_completeness auto
termination
  by (relation "measure (\<lambda>(_, _, _, m, _). nat (m_cursize m - m_readcount m))")
     (auto simp: MSG_ReadByte_def bind_eq_Some_conv split: if_splits)

declare read_string_loop.simps [simp del]

definition MSG_ReadString :: "msg_t \<Rightarrow> (8 word list \<times> msg_t) option" where
  "MSG_ReadString message = read_string_loop MAX_STRING_CHARS False False message []"

definition MSG_ReadBigString :: "msg_t \<Rightarrow> (8 word list \<times> msg_t) option" where
  "MSG_ReadBigString message = read_string_loop BIG_INFO_STRING False True message []"

definition MSG_ReadStringLine :: "msg_t \<Rightarrow> (8 word list \<times> msg_t) option" where
  "MSG_ReadStringLine message = read_string_loop MAX_STRING_CHARS True True message []"

end
