(* ===== verification/Msg_Correct.thy ===== *)
theory Msg_Correct
  imports Msg
begin

text \<open>
  Correctness of the message cursor: every writer keeps a well-formed message well formed and
  never leaves its buffer, and a message written by any sequence of operations is read back by
  the same sequence of reads. The two interleaved streams are related by a lockstep argument:
  after the same operations the reader's \<open>(readcount, bit)\<close> equals the writer's
  \<open>(cursize, bit)\<close>, and the finished buffer agrees with every intermediate one on what that one
  had already written.
\<close>

section \<open>Well-formed messages\<close>

definition msg_wf :: "msg_t \<Rightarrow> bool" where
  "msg_wf m \<longleftrightarrow>
     0 \<le> m_cursize m \<and> m_cursize m \<le> m_maxsize m \<and> m_maxsize m \<le> int (length (m_data m)) \<and>
     m_maxsize m < 268435456 \<and> 0 \<le> m_bit m \<and> m_bit m \<le> 8 * m_cursize m"

text \<open>The bits of the open byte that no operation has written yet are zero.\<close>

definition free_bits_clear :: "msg_t \<Rightarrow> bool" where
  "free_bits_clear m \<longleftrightarrow>
     (m_bit m mod 8 \<noteq> 0 \<longrightarrow>
        take_bit (nat (m_bit m mod 8)) (m_data m ! nat (m_bit m div 8)) = m_data m ! nat (m_bit m div 8))"

definition free_bits :: "msg_t \<Rightarrow> int" where
  "free_bits m = (- m_bit m) mod 8 + 8 * (m_maxsize m - m_cursize m)"

definition same_frame :: "msg_t \<Rightarrow> msg_t \<Rightarrow> bool" where
  "same_frame m m' \<longleftrightarrow>
     length (m_data m') = length (m_data m) \<and> m_maxsize m' = m_maxsize m \<and>
     m_readcount m' = m_readcount m \<and> m_cursize m \<le> m_cursize m'"

text \<open>The finished buffer \<open>d\<close> keeps everything \<open>m\<close> has written.\<close>

definition agree :: "msg_t \<Rightarrow> 8 word list \<Rightarrow> bool" where
  "agree m d \<longleftrightarrow> length d = length (m_data m) \<and>
     (\<forall>p < nat (m_cursize m).
        if m_bit m mod 8 \<noteq> 0 \<and> p = nat (m_bit m div 8)
        then take_bit (nat (m_bit m mod 8)) (d ! p) = m_data m ! p
        else d ! p = m_data m ! p)"

lemma msg_wf_Init:
  "0 \<le> maxsize \<Longrightarrow> maxsize \<le> int (length data) \<Longrightarrow> maxsize < 268435456 \<Longrightarrow>
   msg_wf (MSG_Init data maxsize)"
  by (simp add: msg_wf_def MSG_Init_def)

lemma same_frame_refl [simp]: "same_frame m m"
  by (simp add: same_frame_def)

lemma same_frame_trans: "same_frame m m' \<Longrightarrow> same_frame m' m'' \<Longrightarrow> same_frame m m''"
  by (auto simp: same_frame_def)

lemma agree_self: "agree m (m_data m) \<longleftrightarrow> free_bits_clear m \<or> nat (m_cursize m) \<le> nat (m_bit m div 8)"
  by (auto simp: agree_def free_bits_clear_def not_le)

lemma open_byte_bound: "msg_wf m \<Longrightarrow> m_bit m mod 8 \<noteq> 0 \<Longrightarrow> m_bit m div 8 < m_cursize m"
  unfolding msg_wf_def by presburger

section \<open>One bit\<close>

definition write_bit :: "bool \<Rightarrow> msg_t \<Rightarrow> msg_t option" where
  "write_bit v m = do {
     m1 \<leftarrow> (if m_bit m mod 8 = 0 then open_byte m else Some m);
     m2 \<leftarrow> (if v then set_bit_at m1 (m_bit m mod 8) else Some m1);
     Some (m2\<lparr>m_bit := i32 (m_bit m2 + 1)\<rparr>) }"

lemma WriteBits_loop_Suc:
  "MSG_WriteBits_loop (Suc n) w m =
     do { m' \<leftarrow> write_bit (bit w 0) m;
          MSG_WriteBits_loop n (drop_bit 1 w OR (w AND 0x80000000)) m' }"
proof -
  have "(w AND 1 \<noteq> 0) = bit w 0"
    by (simp add: and_one_eq bit_0 mod_2_eq_odd)
  then show ?thesis
    by (simp add: write_bit_def Let_def Option.bind_assoc split: Option.bind_split)
qed

lemma WriteBit0_eq:
  "\<not> m_cursize m \<ge> m_maxsize m \<Longrightarrow> MSG_WriteBit0 m = write_bit False m"
  by (simp add: MSG_WriteBit0_def write_bit_def)

lemma WriteBit1_eq:
  "\<not> m_cursize m \<ge> m_maxsize m \<Longrightarrow> MSG_WriteBit1 m = write_bit True m"
  by (simp add: MSG_WriteBit1_def write_bit_def Let_def)

lemma neg_mod_8: "(- b) mod 8 = (if b mod 8 = 0 then 0 else 8 - b mod 8)" for b :: int
  by (simp add: zmod_zminus1_eq_if)

text \<open>Where the bit goes, and in which byte.\<close>

definition bit_place :: "msg_t \<Rightarrow> nat" where
  "bit_place m = nat (if m_bit m mod 8 = 0 then m_cursize m else m_bit m div 8)"

lemma write_bit_eq:
  assumes "msg_wf m" "0 < free_bits m"
  defines "p \<equiv> bit_place m" and "k \<equiv> nat (m_bit m mod 8)"
  shows "write_bit v m =
    Some (m\<lparr>m_data := (m_data m)[p := (if m_bit m mod 8 = 0 then 0 else m_data m ! p) OR
                                        (if v then push_bit k 1 else 0)],
            m_cursize := (if m_bit m mod 8 = 0 then m_cursize m + 1 else m_cursize m),
            m_bit := (if m_bit m mod 8 = 0 then 8 * m_cursize m else m_bit m) + 1\<rparr>)"
proof (cases "m_bit m mod 8 = 0")
  case True
  with assms have "m_cursize m < m_maxsize m"
    by (simp add: msg_wf_def free_bits_def neg_mod_8)
  with True assms show ?thesis
    by (auto simp: write_bit_def open_byte_def set_bit_at_def msg_wf_def i32_simps mem_simps
        bit_place_def)
next
  case False
  with assms(1) have "m_bit m div 8 < m_cursize m"
    by (rule open_byte_bound)
  with False assms show ?thesis
    by (auto simp: write_bit_def set_bit_at_def msg_wf_def i32_simps mem_simps bit_place_def
        list_update_id)
qed

lemma bit_place_bounds:
  assumes "msg_wf m" "0 < free_bits m"
  shows "int (bit_place m) < m_maxsize m" "bit_place m < length (m_data m)"
    "m_bit m mod 8 \<noteq> 0 \<Longrightarrow> int (bit_place m) < m_cursize m"
    "m_bit m mod 8 \<noteq> 0 \<Longrightarrow> int (bit_place m) = m_bit m div 8"
    "m_bit m mod 8 = 0 \<Longrightarrow> int (bit_place m) = m_cursize m"
proof -
  have *: "m_bit m mod 8 \<noteq> 0 \<Longrightarrow> m_bit m div 8 < m_cursize m"
    using open_byte_bound [OF assms(1)] .
  show "int (bit_place m) < m_maxsize m" "bit_place m < length (m_data m)"
    "m_bit m mod 8 \<noteq> 0 \<Longrightarrow> int (bit_place m) < m_cursize m"
    "m_bit m mod 8 \<noteq> 0 \<Longrightarrow> int (bit_place m) = m_bit m div 8"
    "m_bit m mod 8 = 0 \<Longrightarrow> int (bit_place m) = m_cursize m"
    using assms * by (auto simp: bit_place_def msg_wf_def free_bits_def neg_mod_8 split: if_splits)
qed

lemma low_bits_set:
  fixes b :: "8 word"
  assumes "take_bit k b = b" "k < 8"
  shows "take_bit (Suc k) (b OR (if v then push_bit k 1 else 0)) = b OR (if v then push_bit k 1 else 0)"
    and "take_bit k (b OR (if v then push_bit k 1 else 0)) = b"
    and "bit (b OR (if v then push_bit k 1 else 0)) k = v"
proof -
  have hi: "bit b i \<Longrightarrow> i < k" for i
    using assms(1) by (metis bit_take_bit_iff)
  show "take_bit (Suc k) (b OR (if v then push_bit k 1 else 0)) = b OR (if v then push_bit k 1 else 0)"
    by (rule bit_eqI) (auto simp: bit_simps dest: hi)
  show "take_bit k (b OR (if v then push_bit k 1 else 0)) = b"
    by (rule bit_eqI) (auto simp: bit_simps dest: hi)
  show "bit (b OR (if v then push_bit k 1 else 0)) k = v"
    using assms(2) by (auto simp: bit_simps dest: hi)
qed

text \<open>
  The step of the simulation for one bit. \<open>m'\<close> is the message after the bit; every finished
  buffer that agrees with \<open>m'\<close> agrees with \<open>m\<close> and holds the bit at its place.
\<close>

lemma write_bit_step:
  assumes wf: "msg_wf m" and room: "0 < free_bits m" and clear: "free_bits_clear m"
  shows "\<exists>m'. write_bit v m = Some m' \<and> msg_wf m' \<and> free_bits m' = free_bits m - 1 \<and>
     free_bits_clear m' \<and> same_frame m m' \<and> m_overflowed m' = m_overflowed m \<and>
     m_bit m' = 8 * int (bit_place m) + m_bit m mod 8 + 1 \<and>
     m_cursize m' = (if m_bit m mod 8 = 0 then m_cursize m + 1 else m_cursize m) \<and>
     (\<forall>d. agree m' d \<longrightarrow> agree m d \<and> bit (d ! bit_place m) (nat (m_bit m mod 8)) = v)"
proof -
  define p where "p = bit_place m"
  define k where "k = nat (m_bit m mod 8)"
  define b where "b = (if m_bit m mod 8 = 0 then 0 else m_data m ! p)"
  define b' where "b' = b OR (if v then push_bit k 1 else 0)"
  define m' where "m' = m\<lparr>m_data := (m_data m)[p := b'],
     m_cursize := (if m_bit m mod 8 = 0 then m_cursize m + 1 else m_cursize m),
     m_bit := (if m_bit m mod 8 = 0 then 8 * m_cursize m else m_bit m) + 1\<rparr>"
  note pb = bit_place_bounds [OF wf room, folded p_def]
  have k8: "k < 8" and kint: "int k = m_bit m mod 8"
    by (simp_all add: k_def nat_less_iff)
  have peq: "m_bit m mod 8 \<noteq> 0 \<Longrightarrow> nat (m_bit m div 8) = p"
    using pb(4) by simp
  have low: "take_bit k b = b"
    using clear peq by (auto simp: b_def k_def free_bits_clear_def)
  note lb = low_bits_set [OF low k8, of v, folded b'_def]
  have eq: "write_bit v m = Some m'"
    using write_bit_eq [OF wf room, of v] by (simp add: m'_def b'_def b_def p_def k_def)
  have bit': "m_bit m' = 8 * int p + int k + 1"
    using pb kint by (auto simp: m'_def mult.commute)
  have mod': "m_bit m' mod 8 = (if k = 7 then 0 else int k + 1)"
    using k8 unfolding bit' by presburger
  have div': "k \<noteq> 7 \<Longrightarrow> m_bit m' div 8 = int p"
    using k8 unfolding bit' by presburger
  have cur': "m_cursize m' = (if m_bit m mod 8 = 0 then m_cursize m + 1 else m_cursize m)"
    by (simp add: m'_def)
  have data': "m_data m' = (m_data m)[p := b']" "m_maxsize m' = m_maxsize m"
    "m_readcount m' = m_readcount m" "m_overflowed m' = m_overflowed m"
    by (simp_all add: m'_def)
  have pcur: "int p < m_cursize m'"
    using pb by (auto simp: cur')
  have wf': "msg_wf m'"
    using wf pb pcur k8 by (auto simp: msg_wf_def data' bit' cur' split: if_splits)
  have free': "free_bits m' = free_bits m - 1"
    unfolding free_bits_def neg_mod_8 mod' cur' data' using kint k8 by auto
  have clear': "free_bits_clear m'"
    using pb lb k8 by (auto simp: free_bits_clear_def mod' div' data' nat_add_distrib split: if_splits)
  have frame': "same_frame m m'"
    by (auto simp: same_frame_def data' cur')
  have ag: "agree m d \<and> bit (d ! p) k = v" if "agree m' d" for d
  proof -
    have dp: "take_bit (Suc k) (d ! p) = b'"
    proof (cases "k = 7")
      case True
      with that pcur pb show ?thesis
        by (auto simp: agree_def mod' data' take_bit_word_eq_self dest!: spec [of _ p])
    next
      case False
      with that pcur pb show ?thesis
        by (auto simp: agree_def mod' div' data' nat_add_distrib dest!: spec [of _ p])
    qed
    have bitd: "bit (d ! p) k = v"
      using lb(3) dp by (metis bit_take_bit_iff lessI)
    have "take_bit k (d ! p) = b"
      using lb(2) dp by (metis take_bit_take_bit min.absorb1 le_SucI order_refl)
    note tk = this
    have len: "length d = length (m_data m)"
      using that by (simp add: agree_def data')
    have other: "d ! q = m_data m ! q" if "q < nat (m_cursize m)" "q \<noteq> p" for q
      using \<open>agree m' d\<close> that mod' div' by (auto simp: agree_def data' cur' split: if_splits)
    have open': "take_bit k (d ! p) = m_data m ! p" if "m_bit m mod 8 \<noteq> 0"
      using tk that by (simp add: b_def)
    have fresh: "q \<noteq> p" if "m_bit m mod 8 = 0" "q < nat (m_cursize m)" for q
      using pb(5) that by auto
    have "agree m d"
    proof (cases "m_bit m mod 8 = 0")
      case True
      with len other fresh show ?thesis by (auto simp: agree_def)
    next
      case False
      with len other open' peq show ?thesis by (auto simp: agree_def k_def)
    qed
    with bitd show ?thesis by simp
  qed
  show ?thesis
    using eq wf' free' clear' frame' data'(4) bit' cur' ag kint
    by (auto simp: p_def [symmetric] k_def [symmetric])
qed

section \<open>Reading the bit back\<close>

definition at_cursor :: "msg_t \<Rightarrow> msg_t \<Rightarrow> msg_t" where
  "at_cursor m r = r\<lparr>m_readcount := m_cursize m, m_bit := m_bit m\<rparr>"

lemma at_cursor_simps [simp]:
  "m_readcount (at_cursor m r) = m_cursize m" "m_bit (at_cursor m r) = m_bit m"
  "m_data (at_cursor m r) = m_data r" "m_cursize (at_cursor m r) = m_cursize r"
  "m_maxsize (at_cursor m r) = m_maxsize r"
  by (simp_all add: at_cursor_def)

definition readable :: "msg_t \<Rightarrow> bool" where
  "readable r \<longleftrightarrow> m_cursize r \<le> int (length (m_data r)) \<and> m_cursize r < 268435456"

lemma low_bit_word: "drop_bit k (b :: 8 word) AND 1 = of_bool (bit b k)"
  by (simp add: and_one_eq mod_2_eq_odd bit_iff_odd_drop_bit)

lemma read_bit_frame:
  assumes wf: "msg_wf m" and room: "0 < free_bits m" and clear: "free_bits_clear m"
    and w: "write_bit v m = Some m'" and ag: "agree m' (m_data r)"
    and C: "m_cursize m' \<le> m_cursize r" and rd: "readable r"
  shows "\<exists>r1. (if m_bit m mod 8 = 0 then next_read_byte (at_cursor m r) else Some (at_cursor m r)) = Some r1 \<and>
     0 \<le> m_bit r1 \<and> m_bit r1 div 8 < m_cursize r1 \<and> m_data r1 = m_data r \<and>
     nat (m_bit r1 div 8) = bit_place m \<and> bit_place m < length (m_data r) \<and>
     bit (m_data r ! bit_place m) (nat (m_bit m mod 8)) = v \<and>
     r1\<lparr>m_bit := i32 (m_bit r1 + 1)\<rparr> = at_cursor m' r"
proof -
  from write_bit_step [OF wf room clear, of v] w ag
  have m': "m_bit m' = 8 * int (bit_place m) + m_bit m mod 8 + 1"
    "m_cursize m' = (if m_bit m mod 8 = 0 then m_cursize m + 1 else m_cursize m)"
    and v: "bit (m_data r ! bit_place m) (nat (m_bit m mod 8)) = v" by auto
  note pb = bit_place_bounds [OF wf room]
  have lim: "m_bit m < 2147483647" "0 \<le> m_bit m" "0 \<le> m_cursize m"
    using wf by (auto simp: msg_wf_def)
  show ?thesis
  proof (cases "m_bit m mod 8 = 0")
    case True
    with C rd m' pb lim v show ?thesis
      by (auto simp: next_read_byte_def readable_def i32_simps at_cursor_def)
  next
    case False
    then have b: "m_bit m + 1 = m_bit m'"
      using m' pb(4) by simp
    have "bit_place m < length (m_data r)" "m_bit m div 8 < m_cursize r"
      using False pb(3,4) C rd m'(2) by (auto simp: readable_def)
    moreover have "nat (m_bit m div 8) = bit_place m"
      using pb(4) [OF False] by simp
    ultimately show ?thesis
      using False m' lim v b by (auto simp: at_cursor_def i32_simps)
  qed
qed

lemma ReadBit_step:
  assumes "msg_wf m" "0 < free_bits m" "free_bits_clear m" "write_bit v m = Some m'"
    "agree m' (m_data r)" "m_cursize m' \<le> m_cursize r" "readable r"
  shows "MSG_ReadBit (at_cursor m r) = Some (of_bool v, at_cursor m' r)"
proof -
  obtain r1 where r1: "(if m_bit m mod 8 = 0 then next_read_byte (at_cursor m r)
      else Some (at_cursor m r)) = Some r1"
    "0 \<le> m_bit r1" "m_bit r1 div 8 < m_cursize r1" "m_data r1 = m_data r"
    "nat (m_bit r1 div 8) = bit_place m" "bit_place m < length (m_data r)"
    "bit (m_data r ! bit_place m) (nat (m_bit m mod 8)) = v"
    "r1\<lparr>m_bit := i32 (m_bit r1 + 1)\<rparr> = at_cursor m' r"
    using read_bit_frame [OF assms] by blast
  have "m_bit r1 div 8 < int (length (m_data r))"
    using r1(5,6) by (simp add: nat_less_iff r1(2))
  then have "peek (m_data r1) (m_bit r1 div 8) = Some (m_data r ! bit_place m)"
    using r1 by (simp add: peek_def)
  with r1 show ?thesis
    by (simp add: MSG_ReadBit_def low_bit_word)
qed

lemma ReadBits_loop_step:
  assumes "msg_wf m" "0 < free_bits m" "free_bits_clear m" "write_bit v m = Some m'"
    "agree m' (m_data r)" "m_cursize m' \<le> m_cursize r" "readable r"
  shows "MSG_ReadBits_loop (Suc n) j acc (at_cursor m r) =
     MSG_ReadBits_loop n (Suc j) (acc OR push_bit (j mod 32) (of_bool v)) (at_cursor m' r)"
proof -
  obtain r1 where r1: "(if m_bit m mod 8 = 0 then next_read_byte (at_cursor m r)
      else Some (at_cursor m r)) = Some r1"
    "0 \<le> m_bit r1" "m_bit r1 div 8 < m_cursize r1" "m_data r1 = m_data r"
    "nat (m_bit r1 div 8) = bit_place m" "bit_place m < length (m_data r)"
    "bit (m_data r ! bit_place m) (nat (m_bit m mod 8)) = v"
    "r1\<lparr>m_bit := i32 (m_bit r1 + 1)\<rparr> = at_cursor m' r"
    using read_bit_frame [OF assms] by blast
  have "m_bit r1 div 8 < int (length (m_data r))"
    using r1(5,6) by (simp add: nat_less_iff r1(2))
  then have "peek (m_data r1) (m_bit r1 div 8) = Some (m_data r ! bit_place m)"
    using r1 by (simp add: peek_def)
  with r1 show ?thesis
    by (simp add: low_bit_word of_bool_def)
qed

section \<open>Bit fields\<close>

lemma sar_bits:
  fixes w :: "32 word"
  shows "bit (drop_bit 1 w OR (w AND 0x80000000)) i = (if i < 31 then bit w (Suc i) else i = 31 \<and> bit w 31)"
proof -
  have m: "(0x80000000 :: 32 word) = 2 ^ 31" by simp
  have "bit (0x80000000 :: 32 word) i = (i = 31)"
    unfolding m bit_exp_iff by auto
  then show ?thesis
    by (cases "i < 31") (auto simp: bit_simps dest: bit_imp_le_length)
qed

lemma take_bit_shifted:
  fixes w s :: "32 word"
  assumes "Suc n \<le> 32" and s: "\<And>i. bit s i = (if i < 31 then bit w (Suc i) else i = 31 \<and> bit w 31)"
  shows "push_bit j (of_bool (bit w 0)) OR push_bit (Suc j) (take_bit n s) = push_bit j (take_bit (Suc n) w)"
proof (rule bit_eqI)
  fix i assume i: "possible_bit TYPE(32 word) i"
  note rules = bit_or_iff bit_push_bit_iff bit_take_bit_iff bit_of_bool_iff
  show "bit (push_bit j (of_bool (bit w 0)) OR push_bit (Suc j) (take_bit n s)) i =
      bit (push_bit j (take_bit (Suc n) w)) i"
  proof (cases "i \<le> j")
    case True
    then show ?thesis by (auto simp: rules bit_0 simp del: push_bit_Suc)
  next
    case False
    then obtain q where q: "i = Suc (j + q)"
      using less_natE [of j i] by auto
    have "n \<le> 31" using assms by simp
    with q i show ?thesis by (auto simp: rules s simp del: push_bit_Suc)
  qed
qed

lemmas take_bit_sar = take_bit_shifted [OF _ sar_bits]

text \<open>
  A run of \<open>n\<close> bits: the writer shifts its value right, the reader collects the bits from
  position \<open>j\<close> on, so it ends with the low \<open>n\<close> bits of the value in place.
\<close>

definition msg_inv :: "msg_t \<Rightarrow> bool" where
  "msg_inv m \<longleftrightarrow> msg_wf m \<and> free_bits_clear m"

lemma WriteBits_loop_step:
  assumes "msg_inv m" "int n \<le> free_bits m"
  shows "\<exists>m'. MSG_WriteBits_loop n w m = Some m' \<and> msg_inv m' \<and> same_frame m m' \<and>
     m_overflowed m' = m_overflowed m \<and> free_bits m' = free_bits m - int n \<and>
     (\<forall>d. agree m' d \<longrightarrow> agree m d)"
  using assms
proof (induction n arbitrary: w m)
  case 0
  then show ?case by simp
next
  case (Suc n)
  then have pre: "msg_wf m" "0 < free_bits m" "free_bits_clear m"
    by (auto simp: msg_inv_def)
  obtain m1 where m1: "write_bit (bit w 0) m = Some m1" "msg_inv m1" "free_bits m1 = free_bits m - 1"
      "same_frame m m1" "m_overflowed m1 = m_overflowed m" "\<forall>d. agree m1 d \<longrightarrow> agree m d"
    using write_bit_step [OF pre, of "bit w 0"] by (auto simp: msg_inv_def)
  have "int n \<le> free_bits m1" using Suc.prems m1(3) by simp
  from Suc.IH [OF m1(2) this, of "drop_bit 1 w OR (w AND 0x80000000)"] m1 show ?case
    by (fastforce simp del: MSG_WriteBits_loop.simps simp add: WriteBits_loop_Suc intro: same_frame_trans)
qed

lemma WriteBits_ReadBits_loop:
  assumes "msg_inv m" "int n \<le> free_bits m" "j + n \<le> 32"
    "MSG_WriteBits_loop n w m = Some m'" "agree m' (m_data r)" "m_cursize m' \<le> m_cursize r" "readable r"
  shows "MSG_ReadBits_loop n j acc (at_cursor m r) =
     Some (sint (acc OR push_bit j (take_bit n w)), at_cursor m' r)"
  using assms
proof (induction n arbitrary: w m j acc)
  case 0
  then show ?case by simp
next
  case (Suc n)
  then have pre: "msg_wf m" "0 < free_bits m" "free_bits_clear m"
    by (auto simp: msg_inv_def)
  obtain m1 where m1: "write_bit (bit w 0) m = Some m1" "msg_inv m1" "free_bits m1 = free_bits m - 1"
    using write_bit_step [OF pre, of "bit w 0"] by (auto simp: msg_inv_def)
  let ?w = "drop_bit 1 w OR (w AND 0x80000000)"
  have rest: "MSG_WriteBits_loop n ?w m1 = Some m'"
    using Suc.prems(4) m1(1) by (simp del: MSG_WriteBits_loop.simps add: WriteBits_loop_Suc)
  have room1: "int n \<le> free_bits m1" using Suc.prems(2) m1(3) by simp
  from WriteBits_loop_step [OF m1(2) room1, of ?w] rest
  have m1': "agree m1 (m_data r)" "m_cursize m1 \<le> m_cursize m'"
    using Suc.prems(5) by (auto simp: same_frame_def)
  have j: "j mod 32 = j" "Suc j + n \<le> 32" using Suc.prems(3) by simp_all
  have "MSG_ReadBits_loop (Suc n) j acc (at_cursor m r) =
      MSG_ReadBits_loop n (Suc j) (acc OR push_bit j (of_bool (bit w 0))) (at_cursor m1 r)"
    using ReadBits_loop_step [OF pre m1(1) m1'(1) _ Suc.prems(7)] m1'(2) Suc.prems(6) j(1) by simp
  also have "\<dots> = Some (sint ((acc OR push_bit j (of_bool (bit w 0))) OR push_bit (Suc j) (take_bit n ?w)),
      at_cursor m' r)"
    by (rule Suc.IH [OF m1(2) room1 j(2) rest Suc.prems(5-7)])
  also have "(acc OR push_bit j (of_bool (bit w 0))) OR push_bit (Suc j) (take_bit n ?w)
      = acc OR push_bit j (take_bit (Suc n) w)"
    using take_bit_sar [of n j w] j(2) by (simp only: or.assoc)
  finally show ?case .
qed

section \<open>Appended bytes\<close>

definition put_bytes :: "8 word list \<Rightarrow> msg_t \<Rightarrow> msg_t" where
  "put_bytes bs m = m\<lparr>m_data := take (nat (m_cursize m)) (m_data m) @ bs @
       drop (nat (m_cursize m) + length bs) (m_data m),
     m_cursize := m_cursize m + int (length bs)\<rparr>"

lemma put_bytes_fields [simp]:
  "m_maxsize (put_bytes bs m) = m_maxsize m" "m_bit (put_bytes bs m) = m_bit m"
  "m_readcount (put_bytes bs m) = m_readcount m" "m_overflowed (put_bytes bs m) = m_overflowed m"
  "m_cursize (put_bytes bs m) = m_cursize m + int (length bs)"
  by (simp_all add: put_bytes_def)

lemma put_bytes_nth:
  assumes "msg_wf m" "m_cursize m + int (length bs) \<le> m_maxsize m"
  shows "length (m_data (put_bytes bs m)) = length (m_data m)"
    and "q < nat (m_cursize m) \<Longrightarrow> m_data (put_bytes bs m) ! q = m_data m ! q"
    and "i < length bs \<Longrightarrow> m_data (put_bytes bs m) ! (nat (m_cursize m) + i) = bs ! i"
  using assms by (auto simp: put_bytes_def msg_wf_def nth_append)

lemma put_bytes_step:
  assumes inv: "msg_inv m" and fits: "m_cursize m + int (length bs) \<le> m_maxsize m"
  shows "msg_inv (put_bytes bs m)" "same_frame m (put_bytes bs m)"
    "agree (put_bytes bs m) d \<Longrightarrow>
       agree m d \<and> take (length bs) (drop (nat (m_cursize m)) d) = bs \<and>
       length d = length (m_data m)"
proof -
  have wf: "msg_wf m" and clear: "free_bits_clear m" using inv by (auto simp: msg_inv_def)
  note nth = put_bytes_nth [OF wf fits]
  have opened: "nat (m_bit m div 8) < nat (m_cursize m)" if "m_bit m mod 8 \<noteq> 0"
  proof -
    have "0 \<le> m_bit m div 8" using wf unfolding msg_wf_def by presburger
    with open_byte_bound [OF wf that] show ?thesis by simp
  qed
  show "same_frame m (put_bytes bs m)"
    using nth by (simp add: same_frame_def)
  show "msg_inv (put_bytes bs m)"
    using wf clear fits nth opened
    by (auto simp: msg_inv_def msg_wf_def free_bits_clear_def)
  assume ag: "agree (put_bytes bs m) d"
  then have len: "length d = length (m_data m)" by (simp add: agree_def nth)
  have "agree m d"
    unfolding agree_def
  proof (intro conjI allI impI)
    show "length d = length (m_data m)" by (rule len)
    fix p assume p: "p < nat (m_cursize m)"
    then have "p < nat (m_cursize (put_bytes bs m))" by simp
    with ag have "if m_bit m mod 8 \<noteq> 0 \<and> p = nat (m_bit m div 8)
        then take_bit (nat (m_bit m mod 8)) (d ! p) = m_data (put_bytes bs m) ! p
        else d ! p = m_data (put_bytes bs m) ! p"
      unfolding agree_def put_bytes_fields by blast
    then show "if m_bit m mod 8 \<noteq> 0 \<and> p = nat (m_bit m div 8)
        then take_bit (nat (m_bit m mod 8)) (d ! p) = m_data m ! p else d ! p = m_data m ! p"
      by (simp only: nth(2) [OF p])
  qed
  moreover have "take (length bs) (drop (nat (m_cursize m)) d) = bs"
  proof (rule nth_equalityI)
    show "length (take (length bs) (drop (nat (m_cursize m)) d)) = length bs"
      using fits wf len by (auto simp: msg_wf_def)
    fix i assume "i < length (take (length bs) (drop (nat (m_cursize m)) d))"
    then have i: "i < length bs" by simp
    have "nat (m_cursize m) + i < nat (m_cursize (put_bytes bs m))"
      using i wf by (auto simp: msg_wf_def)
    moreover have "\<not> (m_bit m mod 8 \<noteq> 0 \<and> nat (m_cursize m) + i = nat (m_bit m div 8))"
      using opened by auto
    ultimately have "d ! (nat (m_cursize m) + i) = bs ! i"
      using ag nth(3) [OF i] unfolding agree_def put_bytes_fields by metis
    then show "take (length bs) (drop (nat (m_cursize m)) d) ! i = bs ! i"
      using i len fits wf by (auto simp: msg_wf_def)
  qed
  ultimately show "agree m d \<and> take (length bs) (drop (nat (m_cursize m)) d) = bs \<and>
       length d = length (m_data m)" using len by simp
qed

section \<open>The byte writers append\<close>

definition le16 :: "int \<Rightarrow> 8 word list" where
  "le16 v = (let st = (word_of_int v :: 16 word) in [ucast st, ucast (drop_bit 8 st)])"

definition le32 :: "int \<Rightarrow> 8 word list" where
  "le32 v = (let st = (word_of_int v :: 32 word) in
     [ucast st, ucast (drop_bit 8 st), ucast (drop_bit 16 st), ucast (drop_bit 24 st)])"

lemma length_le [simp]: "length (le16 v) = 2" "length (le32 v) = 4"
  by (simp_all add: le16_def le32_def Let_def)

definition append_or_overflow :: "8 word list \<Rightarrow> msg_t \<Rightarrow> msg_t" where
  "append_or_overflow bs m =
     (if m_cursize m + int (length bs) \<le> m_maxsize m then put_bytes bs m
      else m\<lparr>m_overflowed := True\<rparr>)"

lemma upd_2: "Suc n < length xs \<Longrightarrow>
    xs[n := a, Suc n := b] = take n xs @ a # b # drop (Suc (Suc n)) xs"
  by (rule nth_equalityI)
    (auto simp: nth_append nth_list_update nth_Cons' not_less intro!: arg_cong [where f = "nth xs"])

lemma upd_4: "Suc (Suc (Suc n)) < length xs \<Longrightarrow>
    xs[n := a, Suc n := b, Suc (Suc n) := c, Suc (Suc (Suc n)) := e] =
    take n xs @ a # b # c # e # drop (Suc (Suc (Suc (Suc n)))) xs"
  by (rule nth_equalityI)
    (auto simp: nth_append nth_list_update nth_Cons' not_less intro!: arg_cong [where f = "nth xs"])

lemma WriteByte_eq:
  assumes "msg_wf m"
  shows "MSG_WriteByte m v = Some (append_or_overflow [word_of_int v] m)"
proof -
  obtain n where "m_cursize m = int n"
    using assms by (auto simp: msg_wf_def elim: nonneg_int_cases)
  with assms show ?thesis
    by (auto simp: MSG_WriteByte_def append_or_overflow_def put_bytes_def msg_wf_def mem_simps
        upd_conv_take_nth_drop)
qed

lemma WriteShort_eq:
  assumes "msg_wf m"
  shows "MSG_WriteShort m v = Some (append_or_overflow (le16 v) m)"
proof -
  obtain n where n: "m_cursize m = int n"
    using assms by (auto simp: msg_wf_def elim: nonneg_int_cases)
  have "nat (int n + 1) = Suc n" by simp
  with assms n show ?thesis
    by (auto simp: MSG_WriteShort_def append_or_overflow_def put_bytes_def msg_wf_def mem_simps
        i32_simps le16_def Let_def upd_2)
qed

lemma WriteLong_eq:
  assumes "msg_wf m"
  shows "MSG_WriteLong m v = Some (append_or_overflow (le32 v) m)"
proof -
  obtain n where n: "m_cursize m = int n"
    using assms by (auto simp: msg_wf_def elim: nonneg_int_cases)
  have s: "nat (int n + 1) = Suc n" "nat (int n + 2) = Suc (Suc n)" "nat (int n + 3) = Suc (Suc (Suc n))"
    by simp_all
  with assms n show ?thesis
    by (auto simp: MSG_WriteLong_def append_or_overflow_def put_bytes_def msg_wf_def mem_simps
        i32_simps le32_def Let_def upd_4)
qed

lemma WriteData_eq:
  assumes "msg_wf m"
  shows "MSG_WriteData m bs (int (length bs)) = Some (append_or_overflow bs m)"
  using assms
  by (auto simp: MSG_WriteData_def append_or_overflow_def put_bytes_def msg_wf_def mem_simps)

lemma WriteData_eq_len:
  assumes "msg_wf m" "len = int (length bs)"
  shows "MSG_WriteData m bs len = Some (append_or_overflow bs m)"
  using WriteData_eq [OF assms(1)] assms(2) by simp

lemma WriteString_eq:
  assumes "msg_wf m" "length s < 1024"
  shows "MSG_WriteString m (Some s) = Some (append_or_overflow (clean_string s @ [0]) m)"
  using assms by (simp add: MSG_WriteString_def i32_simps Let_def clean_string_def WriteData_eq_len)

lemma WriteBigString_eq:
  assumes "msg_wf m" "length s < 8192"
  shows "MSG_WriteBigString m (Some s) = Some (append_or_overflow (clean_string s @ [0]) m)"
proof -
  have sz: "nat 8191 = 8191" "nat 8192 = 8192" by simp_all
  let ?san = "s @ replicate (8191 - length s) NUL @ [NUL]"
  have san: "Q_strncpyz (replicate 8192 NUL) s 8192 = Some ?san"
    using assms(2) by (simp add: Q_strncpyz_def copy_in_def sz)
  define rest where "rest = replicate (8191 - length s) (0 :: 8 word)"
  have "MSG_WriteBigString m (Some s) =
      MSG_WriteData m (clean_string s @ rest @ [0]) (int (length s) + 1)"
    using assms(2) san by (simp add: MSG_WriteBigString_def i32_simps Let_def rest_def sz)
  also have "\<dots> = MSG_WriteData m (clean_string s @ [0]) (int (length s) + 1)"
  proof -
    have hd0: "take (Suc (length s)) (clean_string s @ rest @ [0]) = clean_string s @ [0]"
      by (cases "8191 - length s") (simp_all add: clean_string_def rest_def)
    have "copy_out (clean_string s @ rest @ [0]) 0 (int (length s) + 1) = Some (clean_string s @ [0])"
      using hd0 by (simp add: copy_out_def clean_string_def nat_add_distrib)
    moreover have "copy_out (clean_string s @ [0]) 0 (int (length s) + 1) = Some (clean_string s @ [0])"
      by (simp add: copy_out_def clean_string_def nat_add_distrib)
    ultimately show ?thesis by (simp add: MSG_WriteData_def)
  qed
  also have "\<dots> = Some (append_or_overflow (clean_string s @ [0]) m)"
    using assms(1) by (simp add: WriteData_eq_len clean_string_def)
  finally show ?thesis .
qed

section \<open>The byte readers consume\<close>

lemma taken_nth:
  assumes "take (length bs) (drop n d) = bs" "i < length bs"
  shows "n + i < length d" "d ! (n + i) = bs ! i"
proof -
  have len: "length (take (length bs) (drop n d)) = length bs" using assms(1) by simp
  then show "n + i < length d" using assms(2) by auto
  then show "d ! (n + i) = bs ! i"
    using assms by (metis nth_take nth_drop less_imp_le add_leD1)
qed

lemma join_16: "(ucast (ucast st :: 8 word) OR push_bit 8 (ucast (ucast (drop_bit 8 st) :: 8 word)) :: 16 word) = st"
  for st :: "16 word"
  by (rule bit_word_eqI) (auto simp: bit_simps)

lemma join_32: "(ucast (ucast st :: 8 word) OR push_bit 8 (ucast (ucast (drop_bit 8 st) :: 8 word)) OR
    push_bit 16 (ucast (ucast (drop_bit 16 st) :: 8 word)) OR
    push_bit 24 (ucast (ucast (drop_bit 24 st) :: 8 word)) :: 32 word) = st"
  for st :: "32 word"
proof (rule bit_word_eqI)
  fix n assume "n < LENGTH(32)"
  then have "n < 32" by simp
  then have "n < 8 \<or> (\<exists>q<8. n = 8 + q) \<or> (\<exists>q<8. n = 16 + q) \<or> (\<exists>q<8. n = 24 + q)"
    by presburger
  then consider "n < 8" | q where "n = 8 + q" "q < 8" | q where "n = 16 + q" "q < 8"
    | q where "n = 24 + q" "q < 8" by blast
  then show "bit (ucast (ucast st :: 8 word) OR push_bit 8 (ucast (ucast (drop_bit 8 st) :: 8 word)) OR
    push_bit 16 (ucast (ucast (drop_bit 16 st) :: 8 word)) OR
    push_bit 24 (ucast (ucast (drop_bit 24 st) :: 8 word)) :: 32 word) n = bit st n"
    by cases (auto simp: bit_simps)
qed

lemma sint_word_of_int_16: "sint (word_of_int v :: 16 word) = i16 v"
  by (simp add: sint_sbintrunc' signed_take_bit_eq_take_bit_shift take_bit_eq_mod i16_def)

lemma sint_word_of_int_32: "sint (word_of_int v :: 32 word) = i32 v"
  by (simp add: sint_sbintrunc' signed_take_bit_eq_take_bit_shift take_bit_eq_mod i32_def)

lemma at_cursor_put_bytes:
  "at_cursor (put_bytes bs m) r =
     (at_cursor m r)\<lparr>m_readcount := m_cursize m + int (length bs)\<rparr>"
  by (simp add: at_cursor_def)

lemma peek_taken:
  assumes "take (length bs) (drop (nat c) d) = bs" "0 \<le> c" "i < length bs"
  shows "peek d (c + int i) = Some (bs ! i)"
  using taken_nth [OF assms(1,3)] assms(2) by (auto simp: peek_def nat_add_distrib)

lemma ReadByte_back:
  assumes "msg_wf m" "take 1 (drop (nat (m_cursize m)) (m_data r)) = [b]"
    "m_cursize m + 1 \<le> m_cursize r"
  shows "MSG_ReadByte (at_cursor m r) = Some (uint b, at_cursor (put_bytes [b] m) r)"
  using assms peek_taken [of "[b]" "m_cursize m" "m_data r" 0]
  by (simp add: MSG_ReadByte_def at_cursor_put_bytes msg_wf_def)

lemma ReadShort_back:
  assumes "msg_wf m" "take (length (le16 v)) (drop (nat (m_cursize m)) (m_data r)) = le16 v"
    "m_cursize m + 2 \<le> m_cursize r" "readable r"
  shows "MSG_ReadShort (at_cursor m r) = Some (i16 v, at_cursor (put_bytes (le16 v) m) r)"
proof -
  have c: "0 \<le> m_cursize m" using assms(1) by (simp add: msg_wf_def)
  note pk = peek_taken [OF assms(2) c]
  show ?thesis
    using assms(3,4) c pk [of 0] pk [of 1]
    by (simp add: MSG_ReadShort_def at_cursor_put_bytes readable_def i32_simps le16_def Let_def
        join_16 sint_word_of_int_16)
qed

lemma ReadLong_back:
  assumes "msg_wf m" "take (length (le32 v)) (drop (nat (m_cursize m)) (m_data r)) = le32 v"
    "m_cursize m + 4 \<le> m_cursize r" "readable r"
  shows "MSG_ReadLong (at_cursor m r) = Some (i32 v, at_cursor (put_bytes (le32 v) m) r)"
proof -
  have c: "0 \<le> m_cursize m" using assms(1) by (simp add: msg_wf_def)
  note pk = peek_taken [OF assms(2) c]
  show ?thesis
    using assms(3,4) c pk [of 0] pk [of 1] pk [of 2] pk [of 3]
    by (simp add: MSG_ReadLong_def at_cursor_put_bytes readable_def i32_simps le32_def Let_def
        join_32 sint_word_of_int_32 numeral_2_eq_2 numeral_3_eq_3)
qed

lemma ReadData_back:
  assumes "msg_wf m" "take (length bs) (drop (nat (m_cursize m)) (m_data r)) = bs"
    "m_cursize m + int (length bs) \<le> m_cursize r" "readable r"
  shows "MSG_ReadData (at_cursor m r) (replicate (length bs) 0) (int (length bs)) =
     Some (bs, at_cursor (put_bytes bs m) r)"
proof -
  have "copy_out (m_data r) (m_cursize m) (int (length bs)) = Some bs"
    using assms by (simp add: copy_out_def readable_def msg_wf_def)
  moreover have "copy_in (replicate (length bs) (0 :: 8 word)) 0 bs = Some bs"
    by (simp add: copy_in_def)
  ultimately show ?thesis
    using assms by (simp add: MSG_ReadData_def at_cursor_put_bytes readable_def msg_wf_def i32_simps)
qed

definition read_char :: "bool \<Rightarrow> 8 word \<Rightarrow> 8 word" where
  "read_char dotPercent b = Q_CleanCharacter (if dotPercent \<and> b = 37 then 46 else b)"

lemma uint_byte_eq:
  "uint (b :: 8 word) = 37 \<longleftrightarrow> b = 37" "uint (b :: 8 word) = 0 \<longleftrightarrow> b = 0"
  by (auto simp: word_uint_eq_iff)

lemma uint_byte_nonneg: "uint (b :: 8 word) \<noteq> -1"
  using uint_ge_0 [of b] by linarith

lemma read_string_loop_back:
  assumes "take (length bs + 1) (drop (nat (m_readcount r)) (m_data r)) = bs @ [0]" "0 \<notin> set bs"
    "0 \<le> m_readcount r" "m_readcount r + int (length bs) + 1 \<le> m_cursize r"
    "int (length out) + int (length bs) \<le> capacity - 1"
  shows "read_string_loop capacity False dot r out =
     Some (out @ map (read_char dot) bs, r\<lparr>m_readcount := m_readcount r + int (length bs) + 1\<rparr>)"
  using assms
proof (induction bs arbitrary: r out)
  case Nil
  then have "peek (m_data r) (m_readcount r) = Some 0"
    using peek_taken [of "[0]" "m_readcount r" "m_data r" 0] by simp
  with Nil show ?case
    by (subst read_string_loop.simps) (simp add: MSG_ReadByte_def)
next
  case (Cons b bs)
  let ?r = "r\<lparr>m_readcount := m_readcount r + 1\<rparr>"
  have pk: "peek (m_data r) (m_readcount r) = Some b"
    using peek_taken [of "b # bs @ [0]" "m_readcount r" "m_data r" 0] Cons.prems(1,3) by simp
  have dr: "take (length bs + 1) (drop (nat (m_readcount ?r)) (m_data ?r)) = bs @ [0]"
  proof -
    have "drop (nat (m_readcount r + 1)) (m_data r) = tl (drop (nat (m_readcount r)) (m_data r))"
      using Cons.prems(3) by (simp add: nat_add_distrib drop_Suc tl_drop)
    then show ?thesis
      using Cons.prems(1) by (cases "drop (nat (m_readcount r)) (m_data r)") simp_all
  qed
  have "read_string_loop capacity False dot ?r (out @ [read_char dot b]) =
      Some ((out @ [read_char dot b]) @ map (read_char dot) bs,
        ?r\<lparr>m_readcount := m_readcount ?r + int (length bs) + 1\<rparr>)"
    by (rule Cons.IH) (use Cons.prems dr in auto)
  moreover have "read_string_loop capacity False dot r out =
      read_string_loop capacity False dot ?r (out @ [read_char dot b])"
    using Cons.prems pk
    by (subst read_string_loop.simps)
      (auto simp: MSG_ReadByte_def read_char_def Let_def uint_byte_eq uint_byte_nonneg)
  ultimately show ?case by (simp add: algebra_simps)
qed

lemma Q_CleanCharacter_eq_0 [simp]: "Q_CleanCharacter b = 0 \<longleftrightarrow> b = 0"
  by (auto simp: Q_CleanCharacter_def)

lemma Q_CleanCharacter_idem [simp]: "Q_CleanCharacter (Q_CleanCharacter b) = Q_CleanCharacter b"
  by (auto simp: Q_CleanCharacter_def)

lemma clean_string_nonzero: "nulfree s \<Longrightarrow> 0 \<notin> set (clean_string s)"
  by (auto simp: clean_string_def nulfree_def)

lemma length_clean_string [simp]: "length (clean_string s) = length s"
  by (simp add: clean_string_def)

section \<open>Operations on the wire\<close>

datatype wire_op =
    WBits int int
  | WBit bool
  | WByte int
  | WShort int
  | WLong int
  | WData "8 word list"
  | WString string
  | WBigString string

datatype wire_val = VInt int | VBytes "8 word list"

fun write_op :: "wire_op \<Rightarrow> msg_t \<Rightarrow> msg_t option" where
  "write_op (WBits value bitCount) m = MSG_WriteBits m value bitCount"
| "write_op (WBit b) m = (if b then MSG_WriteBit1 m else MSG_WriteBit0 m)"
| "write_op (WByte value) m = MSG_WriteByte m value"
| "write_op (WShort value) m = MSG_WriteShort m value"
| "write_op (WLong value) m = MSG_WriteLong m value"
| "write_op (WData bs) m = MSG_WriteData m bs (int (length bs))"
| "write_op (WString s) m = MSG_WriteString m (Some s)"
| "write_op (WBigString s) m = MSG_WriteBigString m (Some s)"

definition v_int :: "(int \<times> msg_t) option \<Rightarrow> (wire_val \<times> msg_t) option" where
  "v_int x = map_option (map_prod VInt id) x"

definition v_bytes :: "(8 word list \<times> msg_t) option \<Rightarrow> (wire_val \<times> msg_t) option" where
  "v_bytes x = map_option (map_prod VBytes id) x"

fun read_op :: "wire_op \<Rightarrow> msg_t \<Rightarrow> (wire_val \<times> msg_t) option" where
  "read_op (WBits value bitCount) r = v_int (MSG_ReadBits r bitCount)"
| "read_op (WBit b) r = v_int (MSG_ReadBit r)"
| "read_op (WByte value) r = v_int (MSG_ReadByte r)"
| "read_op (WShort value) r = v_int (MSG_ReadShort r)"
| "read_op (WLong value) r = v_int (MSG_ReadLong r)"
| "read_op (WData bs) r = v_bytes (MSG_ReadData r (replicate (length bs) 0) (int (length bs)))"
| "read_op (WString s) r = v_bytes (MSG_ReadString r)"
| "read_op (WBigString s) r = v_bytes (MSG_ReadBigString r)"

text \<open>What a value has become when it is read: cut to its width and read as the reader's type.\<close>

fun wire_value :: "wire_op \<Rightarrow> wire_val" where
  "wire_value (WBits value bitCount) =
     VInt (if bitCount = 32 then i32 value else value mod 2 ^ nat bitCount)"
| "wire_value (WBit b) = VInt (of_bool b)"
| "wire_value (WByte value) = VInt (u8 value)"
| "wire_value (WShort value) = VInt (i16 value)"
| "wire_value (WLong value) = VInt (i32 value)"
| "wire_value (WData bs) = VBytes bs"
| "wire_value (WString s) = VBytes (clean_string s)"
| "wire_value (WBigString s) = VBytes (map (read_char True) (clean_string s))"

fun op_ok :: "wire_op \<Rightarrow> bool" where
  "op_ok (WBits value bitCount) = (0 \<le> bitCount \<and> bitCount \<le> 32)"
| "op_ok (WString s) = (nulfree s \<and> length s < 1024)"
| "op_ok (WBigString s) = (nulfree s \<and> length s < 8192)"
| "op_ok _ = True"

fun write_ops :: "wire_op list \<Rightarrow> msg_t \<Rightarrow> msg_t option" where
  "write_ops [] m = Some m"
| "write_ops (x # xs) m = do { m' \<leftarrow> write_op x m; write_ops xs m' }"

fun read_ops :: "wire_op list \<Rightarrow> msg_t \<Rightarrow> (wire_val list \<times> msg_t) option" where
  "read_ops [] r = Some ([], r)"
| "read_ops (x # xs) r = do {
     (v, r') \<leftarrow> read_op x r;
     (vs, r'') \<leftarrow> read_ops xs r';
     Some (v # vs, r'') }"

text \<open>
  The one-step simulation every operation satisfies: either it only raises the overflow flag,
  or any finished buffer that agrees with the new message gives the value back.
\<close>

definition op_step :: "wire_op \<Rightarrow> msg_t \<Rightarrow> msg_t \<Rightarrow> bool" where
  "op_step x m m' \<longleftrightarrow> msg_inv m' \<and> same_frame m m' \<and>
     (m' = m\<lparr>m_overflowed := True\<rparr> \<or>
      m_overflowed m' = m_overflowed m \<and>
      (\<forall>r. agree m' (m_data r) \<and> m_cursize m' \<le> m_cursize r \<and> readable r \<longrightarrow>
           agree m (m_data r) \<and> read_op x (at_cursor m r) = Some (wire_value x, at_cursor m' r)))"

lemma overflow_inv: "msg_inv m \<Longrightarrow> msg_inv (m\<lparr>m_overflowed := True\<rparr>)"
  by (simp add: msg_inv_def msg_wf_def free_bits_clear_def)

lemma op_step_overflow: "msg_inv m \<Longrightarrow> op_step x m (m\<lparr>m_overflowed := True\<rparr>)"
  by (simp add: op_step_def overflow_inv same_frame_def)

lemma op_step_append:
  assumes inv: "msg_inv m"
    and rback: "\<And>r. take (length bs) (drop (nat (m_cursize m)) (m_data r)) = bs \<Longrightarrow>
       m_cursize m + int (length bs) \<le> m_cursize r \<Longrightarrow> readable r \<Longrightarrow>
       read_op x (at_cursor m r) = Some (wire_value x, at_cursor (put_bytes bs m) r)"
  shows "op_step x m (append_or_overflow bs m)"
proof (cases "m_cursize m + int (length bs) \<le> m_maxsize m")
  case True
  note st = put_bytes_step [OF inv True]
  show ?thesis
    unfolding op_step_def append_or_overflow_def using True st(1,2)
    by (auto dest!: st(3) intro!: rback)
next
  case False
  then show ?thesis by (simp add: append_or_overflow_def op_step_overflow inv)
qed

lemma bits_value:
  assumes "0 \<le> n" "n \<le> 32"
  shows "sint (take_bit (nat n) (word_of_int v :: 32 word)) = (if n = 32 then i32 v else v mod 2 ^ nat n)"
proof (cases "n = 32")
  case True
  then show ?thesis by (simp add: take_bit_word_eq_self sint_word_of_int_32)
next
  case False
  with assms have n: "nat n \<le> 31" by simp
  have "take_bit (nat n) (word_of_int v :: 32 word) = word_of_int (take_bit (nat n) v)"
    using n by (auto intro!: bit_word_eqI simp: bit_simps)
  moreover have "0 \<le> take_bit (nat n) v" "take_bit (nat n) v < 2147483648"
  proof -
    have "take_bit (nat n) v < 2 ^ nat n" by (rule take_bit_int_less_exp)
    also have "(2 :: int) ^ nat n \<le> 2 ^ 31" using n by (intro power_increasing) auto
    finally show "take_bit (nat n) v < 2147483648" by simp
  qed simp
  moreover have "i32 u = u" if "0 \<le> u" "u < 2147483648" for u
    using that by (intro i32_id) linarith+
  ultimately show ?thesis
    using False by (simp add: sint_word_of_int_32 flip: take_bit_eq_mod)
qed

lemma free_bits_word:
  assumes "msg_inv m" "\<not> i32 (m_maxsize m - m_cursize m) < 4" "n \<le> 32"
  shows "n \<le> free_bits m"
proof -
  have "m_maxsize m - m_cursize m \<ge> 4"
    using assms(1,2) by (simp add: msg_inv_def msg_wf_def i32_simps)
  moreover have "0 \<le> (- m_bit m) mod 8" by simp
  ultimately show ?thesis using assms(3) by (simp add: free_bits_def)
qed

lemma op_step_WBits:
  assumes inv: "msg_inv m" and ok: "op_ok (WBits v n)"
  shows "\<exists>m'. write_op (WBits v n) m = Some m' \<and> op_step (WBits v n) m m'"
proof (cases "i32 (m_maxsize m - m_cursize m) < 4")
  case True
  then show ?thesis by (simp add: MSG_WriteBits_def op_step_overflow inv)
next
  case False
  have n: "0 \<le> n" "n \<le> 32" using ok by auto
  then have room: "int (nat n) \<le> free_bits m"
    using free_bits_word [OF inv False] by simp
  obtain m' where m': "MSG_WriteBits_loop (nat n) (word_of_int v) m = Some m'" "msg_inv m'"
    "same_frame m m'" "m_overflowed m' = m_overflowed m" "\<forall>d. agree m' d \<longrightarrow> agree m d"
    using WriteBits_loop_step [OF inv room, of "word_of_int v"] by blast
  have w: "write_op (WBits v n) m = Some m'"
    using False m'(1) n by (simp add: MSG_WriteBits_def i32_simps)
  have "read_op (WBits v n) (at_cursor m r) = Some (wire_value (WBits v n), at_cursor m' r)"
    if "agree m' (m_data r)" "m_cursize m' \<le> m_cursize r" "readable r" for r
    using WriteBits_ReadBits_loop [OF inv room _ m'(1) that, of 0 0] n
    by (simp add: MSG_ReadBits_def v_int_def bits_value [OF n])
  with w m' show ?thesis by (auto simp: op_step_def)
qed

lemma op_step_WBit:
  assumes inv: "msg_inv m"
  shows "\<exists>m'. write_op (WBit b) m = Some m' \<and> op_step (WBit b) m m'"
proof (cases "m_cursize m \<ge> m_maxsize m")
  case True
  then show ?thesis
    by (auto simp: MSG_WriteBit0_def MSG_WriteBit1_def op_step_overflow inv)
next
  case False
  have pre: "msg_wf m" "0 < free_bits m" "free_bits_clear m"
  proof -
    have "0 \<le> (- m_bit m) mod 8" by simp
    then show "0 < free_bits m" using False by (simp add: free_bits_def)
  qed (use inv in \<open>auto simp: msg_inv_def\<close>)
  obtain m' where m': "write_bit b m = Some m'" "msg_inv m'" "same_frame m m'"
    "m_overflowed m' = m_overflowed m" "\<forall>d. agree m' d \<longrightarrow> agree m d"
    using write_bit_step [OF pre, of b] by (auto simp: msg_inv_def)
  have "write_op (WBit b) m = Some m'"
    using False m'(1) by (cases b) (simp_all add: WriteBit0_eq WriteBit1_eq)
  moreover have "read_op (WBit b) (at_cursor m r) = Some (wire_value (WBit b), at_cursor m' r)"
    if "agree m' (m_data r)" "m_cursize m' \<le> m_cursize r" "readable r" for r
    using ReadBit_step [OF pre m'(1) that] by (simp add: v_int_def)
  ultimately show ?thesis using m' by (auto simp: op_step_def)
qed

lemma op_step_strings:
  assumes inv: "msg_inv m"
  shows "op_ok (WString s) \<Longrightarrow> op_step (WString s) m (append_or_overflow (clean_string s @ [0]) m)"
    and "op_ok (WBigString s) \<Longrightarrow> op_step (WBigString s) m (append_or_overflow (clean_string s @ [0]) m)"
proof -
  have c: "0 \<le> m_cursize m" using inv by (simp add: msg_inv_def msg_wf_def)
  have plain: "map (read_char False) (clean_string s) = clean_string s"
    by (simp add: read_char_def clean_string_def)
  show "op_step (WString s) m (append_or_overflow (clean_string s @ [0]) m)" if ok: "op_ok (WString s)"
  proof (rule op_step_append [OF inv])
    fix r :: msg_t assume r: "take (length (clean_string s @ [0])) (drop (nat (m_cursize m)) (m_data r)) = clean_string s @ [0]"
      "m_cursize m + int (length (clean_string s @ [0])) \<le> m_cursize r"
    have "MSG_ReadString (at_cursor m r) =
        Some (clean_string s, (at_cursor m r)\<lparr>m_readcount := m_cursize m + int (length s) + 1\<rparr>)"
      unfolding MSG_ReadString_def
      using read_string_loop_back [of "clean_string s" "at_cursor m r" "[]" MAX_STRING_CHARS False]
        r c ok clean_string_nonzero [of s] plain by simp
    then show "read_op (WString s) (at_cursor m r) =
        Some (wire_value (WString s), at_cursor (put_bytes (clean_string s @ [0]) m) r)"
      by (simp add: v_bytes_def at_cursor_put_bytes algebra_simps)
  qed
  show "op_step (WBigString s) m (append_or_overflow (clean_string s @ [0]) m)" if ok: "op_ok (WBigString s)"
  proof (rule op_step_append [OF inv])
    fix r :: msg_t assume r: "take (length (clean_string s @ [0])) (drop (nat (m_cursize m)) (m_data r)) = clean_string s @ [0]"
      "m_cursize m + int (length (clean_string s @ [0])) \<le> m_cursize r"
    have "MSG_ReadBigString (at_cursor m r) =
        Some (map (read_char True) (clean_string s),
          (at_cursor m r)\<lparr>m_readcount := m_cursize m + int (length s) + 1\<rparr>)"
      unfolding MSG_ReadBigString_def
      using read_string_loop_back [of "clean_string s" "at_cursor m r" "[]" BIG_INFO_STRING True]
        r c ok clean_string_nonzero [of s] by simp
    then show "read_op (WBigString s) (at_cursor m r) =
        Some (wire_value (WBigString s), at_cursor (put_bytes (clean_string s @ [0]) m) r)"
      by (simp add: v_bytes_def at_cursor_put_bytes algebra_simps)
  qed
qed

lemma write_op_step:
  assumes inv: "msg_inv m" and ok: "op_ok x"
  shows "\<exists>m'. write_op x m = Some m' \<and> op_step x m m'"
proof -
  have wf: "msg_wf m" using inv by (simp add: msg_inv_def)
  show ?thesis
  proof (cases x)
    case (WBits v n)
    then show ?thesis using op_step_WBits [OF inv] ok by blast
  next
    case (WBit b)
    then show ?thesis using op_step_WBit [OF inv] by blast
  next
    case (WByte v)
    have "op_step (WByte v) m (append_or_overflow [word_of_int v] m)"
      by (rule op_step_append [OF inv])
        (simp add: ReadByte_back [OF wf] v_int_def u8_def uint_word_of_int)
    then show ?thesis by (simp add: WByte WriteByte_eq wf)
  next
    case (WShort v)
    have "op_step (WShort v) m (append_or_overflow (le16 v) m)"
      by (rule op_step_append [OF inv]) (simp add: ReadShort_back [OF wf] v_int_def)
    then show ?thesis by (simp add: WShort WriteShort_eq wf)
  next
    case (WLong v)
    have "op_step (WLong v) m (append_or_overflow (le32 v) m)"
      by (rule op_step_append [OF inv]) (simp add: ReadLong_back [OF wf] v_int_def)
    then show ?thesis by (simp add: WLong WriteLong_eq wf)
  next
    case (WData bs)
    have "op_step (WData bs) m (append_or_overflow bs m)"
      by (rule op_step_append [OF inv]) (simp add: ReadData_back [OF wf] v_bytes_def)
    then show ?thesis by (simp add: WData WriteData_eq wf)
  next
    case (WString s)
    then show ?thesis using op_step_strings(1) [OF inv] ok by (auto simp: WriteString_eq wf)
  next
    case (WBigString s)
    then show ?thesis using op_step_strings(2) [OF inv] ok by (auto simp: WriteBigString_eq wf)
  qed
qed

lemma write_ops_step:
  assumes "msg_inv m" "list_all op_ok xs"
  shows "\<exists>m'. write_ops xs m = Some m' \<and> msg_inv m' \<and> same_frame m m' \<and>
    (m_overflowed m \<longrightarrow> m_overflowed m') \<and>
    (\<not> m_overflowed m' \<longrightarrow>
      (\<forall>r. agree m' (m_data r) \<and> m_cursize m' \<le> m_cursize r \<and> readable r \<longrightarrow>
         agree m (m_data r) \<and> read_ops xs (at_cursor m r) = Some (map wire_value xs, at_cursor m' r)))"
  using assms
proof (induction xs arbitrary: m)
  case Nil
  then show ?case by simp
next
  case (Cons x xs)
  then obtain m1 where m1: "write_op x m = Some m1" "op_step x m m1"
    using write_op_step [of m x] by auto
  then have "msg_inv m1" by (simp add: op_step_def)
  with Cons obtain m' where m': "write_ops xs m1 = Some m'" "msg_inv m'" "same_frame m1 m'"
    "m_overflowed m1 \<longrightarrow> m_overflowed m'"
    "\<not> m_overflowed m' \<Longrightarrow> agree m' (m_data r) \<Longrightarrow> m_cursize m' \<le> m_cursize r \<Longrightarrow> readable r \<Longrightarrow>
       agree m1 (m_data r) \<and> read_ops xs (at_cursor m1 r) = Some (map wire_value xs, at_cursor m' r)" for r
    by fastforce
  have frame: "same_frame m m'" using m1(2) m'(3) by (auto simp: op_step_def intro: same_frame_trans)
  have flag: "m_overflowed m \<Longrightarrow> m_overflowed m1" using m1(2) by (auto simp: op_step_def)
  have "agree m (m_data r) \<and> read_ops (x # xs) (at_cursor m r) = Some (map wire_value (x # xs), at_cursor m' r)"
    if "\<not> m_overflowed m'" "agree m' (m_data r)" "m_cursize m' \<le> m_cursize r" "readable r" for r
  proof -
    note rest = m'(5) [OF that]
    have "\<not> m_overflowed m1" using that(1) m'(4) by blast
    moreover have "m_cursize m1 \<le> m_cursize r" using m'(3) that(3) by (simp add: same_frame_def)
    ultimately have "agree m (m_data r) \<and> read_op x (at_cursor m r) = Some (wire_value x, at_cursor m1 r)"
      using m1(2) rest that(4) by (auto simp: op_step_def)
    with rest show ?thesis by simp
  qed
  with m1(1) m' frame flag show ?case by auto
qed

section \<open>Reading hostile messages\<close>

text \<open>
  A received message promises nothing about its bytes or its cursors beyond the length the
  network layer wrote. The readers stay inside the buffer on every one of them.
\<close>

definition read_inv :: "msg_t \<Rightarrow> bool" where
  "read_inv r \<longleftrightarrow> m_cursize r \<le> int (length (m_data r)) \<and> m_cursize r < 268435456 \<and>
     0 \<le> m_cursize r \<and> 0 \<le> m_readcount r \<and> m_readcount r \<le> m_cursize r + 1"

text \<open>How many bits the two cursors of a reader leave, the rest of the current byte included.\<close>

definition bits_left :: "msg_t \<Rightarrow> int" where
  "bits_left r = 8 * (m_cursize r + 1 - m_readcount r) + (- m_bit r) mod 8"

definition same_buffer :: "msg_t \<Rightarrow> msg_t \<Rightarrow> bool" where
  "same_buffer r r' \<longleftrightarrow> m_data r' = m_data r \<and> m_cursize r' = m_cursize r \<and>
     m_maxsize r' = m_maxsize r \<and> m_overflowed r' = m_overflowed r \<and>
     m_readcount r \<le> m_readcount r' \<and> bits_left r' \<le> bits_left r"

lemma same_buffer_refl [simp]: "same_buffer r r"
  by (simp add: same_buffer_def)

lemma same_buffer_trans: "same_buffer a b \<Longrightarrow> same_buffer b c \<Longrightarrow> same_buffer a c"
  by (simp add: same_buffer_def)

definition reads_ok :: "msg_t \<Rightarrow> ('a \<times> msg_t) option \<Rightarrow> bool" where
  "reads_ok r x \<longleftrightarrow> (\<exists>v r'. x = Some (v, r') \<and> read_inv r' \<and> same_buffer r r')"

lemma reads_okI: "read_inv r' \<Longrightarrow> same_buffer r r' \<Longrightarrow> reads_ok r (Some (v, r'))"
  by (auto simp: reads_ok_def)

lemma read_overflow_ok: "read_inv r \<Longrightarrow> read_inv (read_overflow r) \<and> same_buffer r (read_overflow r)"
  by (auto simp: read_inv_def read_overflow_def same_buffer_def i32_simps bits_left_def)

lemma next_read_byte_ok:
  "next_read_byte r = Some r' \<Longrightarrow> read_inv r \<Longrightarrow> read_inv r' \<and> same_buffer r r'"
  by (auto simp: next_read_byte_def read_inv_def same_buffer_def bits_left_def i32_simps split: if_splits)

lemma i32_bit: "(- i32 x) mod 8 = (- x) mod 8"
proof -
  have "i32 x mod 4294967296 mod 8 = x mod 4294967296 mod 8" by (simp add: i32_mod)
  then have "i32 x mod 8 = x mod 8" by (simp add: mod_mod_cancel)
  then show ?thesis by (metis mod_minus_eq)
qed

lemma next_bit: "\<not> 8 dvd x \<Longrightarrow> (- (x + 1)) mod 8 = (- x) mod 8 - 1" for x :: int
  by presburger

text \<open>One bit is taken from the byte the bit cursor is in, or from the next one.\<close>

lemma bit_taken:
  assumes "(if m_bit r mod 8 = 0 then next_read_byte r else Some r) = Some r1" "read_inv r"
  shows "read_inv (r1\<lparr>m_bit := i32 (m_bit r1 + 1)\<rparr>)" "same_buffer r (r1\<lparr>m_bit := i32 (m_bit r1 + 1)\<rparr>)"
    "bits_left (r1\<lparr>m_bit := i32 (m_bit r1 + 1)\<rparr>) < bits_left r"
proof -
  show "read_inv (r1\<lparr>m_bit := i32 (m_bit r1 + 1)\<rparr>)"
    using assms next_read_byte_ok [of r r1] by (auto simp: read_inv_def split: if_splits)
  show less: "bits_left (r1\<lparr>m_bit := i32 (m_bit r1 + 1)\<rparr>) < bits_left r"
  proof (cases "m_bit r mod 8 = 0")
    case True
    then have r1: "m_cursize r1 = m_cursize r" "m_readcount r1 = m_readcount r + 1"
      using assms(1) by (auto simp: next_read_byte_def split: if_splits)
    have "(- i32 (m_bit r1 + 1)) mod 8 < 8" "0 \<le> (- m_bit r) mod 8" by simp_all
    then show ?thesis by (simp add: bits_left_def r1)
  next
    case False
    then show ?thesis using assms(1) next_bit [of "m_bit r"]
      by (simp add: bits_left_def i32_bit dvd_eq_mod_eq_0)
  qed
  show "same_buffer r (r1\<lparr>m_bit := i32 (m_bit r1 + 1)\<rparr>)"
    using less assms next_read_byte_ok [of r r1] by (auto simp: same_buffer_def split: if_splits)
qed

lemma peek_bit_ok: "read_inv r \<Longrightarrow> \<not> m_bit r < 0 \<Longrightarrow> \<not> m_bit r div 8 \<ge> m_cursize r \<Longrightarrow>
  peek (m_data r) (m_bit r div 8) = Some (m_data r ! nat (m_bit r div 8))"
  by (simp add: read_inv_def peek_def)

lemma MSG_ReadBit_ok: "read_inv r \<Longrightarrow> reads_ok r (MSG_ReadBit r)"
proof (cases "if m_bit r mod 8 = 0 then next_read_byte r else Some r")
  case None
  then show ?thesis if "read_inv r"
    using read_overflow_ok [OF that] by (simp add: MSG_ReadBit_def reads_okI)
next
  case (Some r1)
  assume "read_inv r"
  with Some have r1: "read_inv r1" "same_buffer r r1"
    using next_read_byte_ok [of r r1] by (auto split: if_splits)
  then show ?thesis
    using Some peek_bit_ok [OF r1(1)] read_overflow_ok [OF r1(1)] bit_taken [OF Some \<open>read_inv r\<close>]
    by (auto simp: MSG_ReadBit_def intro!: reads_okI intro: same_buffer_trans)
qed

lemma MSG_ReadBits_loop_ok: "read_inv r \<Longrightarrow> reads_ok r (MSG_ReadBits_loop n k w r)"
proof (induction n arbitrary: k w r)
  case 0
  then show ?case by (simp add: reads_okI)
next
  case (Suc n)
  show ?case
  proof (cases "if m_bit r mod 8 = 0 then next_read_byte r else Some r")
    case None
    then show ?thesis using read_overflow_ok [OF Suc.prems] by (simp add: reads_okI)
  next
    case (Some r1)
    then have r1: "read_inv r1" "same_buffer r r1"
      using next_read_byte_ok [of r r1] Suc.prems by (auto split: if_splits)
    note taken = bit_taken [OF Some Suc.prems]
    show ?thesis
    proof (cases "m_bit r1 < 0 \<or> m_bit r1 div 8 \<ge> m_cursize r1")
      case True
      then show ?thesis
        using Some read_overflow_ok [OF r1(1)] r1(2) by (auto intro!: reads_okI intro: same_buffer_trans)
    next
      case False
      have "reads_ok r (MSG_ReadBits_loop n k' w' (r1\<lparr>m_bit := i32 (m_bit r1 + 1)\<rparr>))" for k' w'
        using Suc.IH [OF taken(1), where k = k' and w = w'] same_buffer_trans [OF taken(2)]
        by (auto simp: reads_ok_def)
      then show ?thesis using Some False peek_bit_ok [OF r1(1)] by simp
    qed
  qed
qed

lemma MSG_ReadByte_ok: "read_inv r \<Longrightarrow> reads_ok r (MSG_ReadByte r)"
  by (auto simp: MSG_ReadByte_def reads_ok_def read_inv_def same_buffer_def bits_left_def mem_simps)

lemma MSG_ReadShort_ok: "read_inv r \<Longrightarrow> reads_ok r (MSG_ReadShort r)"
  by (auto simp: MSG_ReadShort_def reads_ok_def read_inv_def same_buffer_def bits_left_def Let_def i32_id mem_simps)

lemma MSG_ReadLong_ok: "read_inv r \<Longrightarrow> reads_ok r (MSG_ReadLong r)"
  by (auto simp: MSG_ReadLong_def reads_ok_def read_inv_def same_buffer_def bits_left_def Let_def i32_id mem_simps)

lemma MSG_ReadData_ok:
  assumes "read_inv r" "len < 1073741824" "len \<le> int (length data)"
  shows "reads_ok r (MSG_ReadData r data len)"
  using assms
  by (auto simp: MSG_ReadData_def reads_ok_def read_inv_def same_buffer_def bits_left_def Let_def i32_id mem_simps)

lemma read_string_loop_ok:
  "read_inv r \<Longrightarrow> 0 < cap \<Longrightarrow> int (length out) < cap \<Longrightarrow>
   \<exists>out' r'. read_string_loop cap nl pc r out = Some (out', r') \<and> int (length out') < cap \<and>
     read_inv r' \<and> same_buffer r r'"
proof (induction cap nl pc r out rule: read_string_loop.induct)
  case (1 cap nl pc r out)
  obtain c r1 where c: "MSG_ReadByte r = Some (c, r1)" and r1: "read_inv r1" "same_buffer r r1"
    using MSG_ReadByte_ok [OF "1.prems"(1)] by (auto simp: reads_ok_def)
  show ?case
  proof (cases "m_readcount r < m_cursize r \<and> \<not> (c = -1 \<or> c = 0 \<or> (nl \<and> c = 10))")
    case True
    let ?c = "if pc \<and> c = 37 then 46 else c"
    let ?out = "if int (length out) < cap - 1 then out @ [Q_CleanCharacter (word_of_int ?c)] else out"
    have "\<exists>out' r'. read_string_loop cap nl pc r1 ?out = Some (out', r') \<and> int (length out') < cap \<and>
        read_inv r' \<and> same_buffer r1 r'"
      by (rule "1.IH" [OF _ c refl]) (use True r1 "1.prems" in auto)
    then obtain out' r' where
      "read_string_loop cap nl pc r1 ?out = Some (out', r')" "int (length out') < cap"
      "read_inv r'" "same_buffer r1 r'" by blast
    moreover from this True have "read_string_loop cap nl pc r out = Some (out', r')"
      by (subst read_string_loop.simps) (auto simp: c Let_def)
    ultimately show ?thesis using r1(2) by (blast intro: same_buffer_trans)
  next
    case False
    then have "read_string_loop cap nl pc r out = Some (out, if m_readcount r < m_cursize r then r1 else r)"
      by (subst read_string_loop.simps) (auto simp: c)
    then show ?thesis using "1.prems" r1 by auto
  qed
qed

section \<open>What the codec promises\<close>

lemma MSG_Init_inv:
  "0 \<le> maxsize \<Longrightarrow> maxsize \<le> int (length data) \<Longrightarrow> maxsize < 268435456 \<Longrightarrow>
   msg_inv (MSG_Init data maxsize)"
  by (simp add: msg_inv_def msg_wf_def free_bits_clear_def MSG_Init_def)

lemma readable_self: "msg_inv m \<Longrightarrow> readable m"
  by (simp add: readable_def msg_inv_def msg_wf_def)

text \<open>
  C6: what a sequence of writers puts into a fresh message, the readers of the same sequence
  take out again, whatever mixture of bit runs, single bits, bytes, shorts, longs, data blocks
  and strings it is: each value comes back cut to its width, and the reader ends exactly at
  the end of what was written.
\<close>

theorem msg_roundtrip:
  assumes "0 \<le> maxsize" "maxsize \<le> int (length data)" "maxsize < 268435456"
    and "list_all op_ok xs"
    and "write_ops xs (MSG_Init data maxsize) = Some m" "\<not> m_overflowed m"
  shows "\<exists>r. read_ops xs (MSG_BeginReading m) = Some (map wire_value xs, r) \<and>
             m_readcount r = m_cursize m \<and> m_data r = m_data m"
proof -
  have inv0: "msg_inv (MSG_Init data maxsize)" using assms(1-3) by (rule MSG_Init_inv)
  from write_ops_step [OF inv0 assms(4)] assms(5,6)
  have "msg_inv m" and "\<forall>r. agree m (m_data r) \<and> m_cursize m \<le> m_cursize r \<and> readable r \<longrightarrow>
      read_ops xs (at_cursor (MSG_Init data maxsize) r) = Some (map wire_value xs, at_cursor m r)"
    by auto
  then have "read_ops xs (at_cursor (MSG_Init data maxsize) m) = Some (map wire_value xs, at_cursor m m)"
    using agree_self [of m] readable_self [of m] by (simp add: msg_inv_def)
  moreover have "at_cursor (MSG_Init data maxsize) m = MSG_BeginReading m"
    by (simp add: at_cursor_def MSG_BeginReading_def MSG_Init_def)
  ultimately show ?thesis by simp
qed

definition sample_ops :: "wire_op list" where
  "sample_ops = [WBits 5 3, WByte 200, WBit True, WString ''hi'', WShort (-7)]"

definition sample_msg :: msg_t where
  "sample_msg = MSG_Init [9, 9, 9, 9, 9, 9, 9, 9] 8"

lemma sample_writes: "map_option m_overflowed (write_ops sample_ops sample_msg) = Some False"
  by (simp add: sample_ops_def sample_msg_def MSG_Init_def MSG_WriteBits_def numeral_3_eq_3 open_byte_def
      set_bit_at_def MSG_WriteByte_def MSG_WriteBit1_def MSG_WriteString_def MSG_WriteData_def
      MSG_WriteShort_def clean_string_def mem_simps i32_simps Let_def)

lemma msg_roundtrip_witness:
  "\<exists>m r. write_ops sample_ops sample_msg = Some m \<and>
     read_ops sample_ops (MSG_BeginReading m) = Some (map wire_value sample_ops, r)"
proof -
  obtain m where m: "write_ops sample_ops sample_msg = Some m" "\<not> m_overflowed m"
    using sample_writes by auto
  have "list_all op_ok sample_ops" by (simp add: sample_ops_def nulfree_def)
  then show ?thesis
    using msg_roundtrip [of 8 "[9, 9, 9, 9, 9, 9, 9, 9]" sample_ops m] m by (auto simp: sample_msg_def)
qed





end
