(* ===== verification/Msg_Stream.thy ===== *)
theory Msg_Stream
  imports Msg_Correct
begin

text \<open>
  The byte-stream view of a message that the components above \<open>msg_base.c\<close> rest on: a message
  under construction is the list of bytes written so far, a message being read is the list of
  bytes still unread. Each primitive is one equation on these lists.
\<close>

section \<open>Writing\<close>

definition builds :: "msg_t \<Rightarrow> 8 word list \<Rightarrow> bool" where
  "builds m bs \<longleftrightarrow> msg_wf m \<and> \<not> m_overflowed m \<and> take (nat (m_cursize m)) (m_data m) = bs"

lemma builds_cursize: "builds m bs \<Longrightarrow> m_cursize m = int (length bs)"
  by (auto simp: builds_def msg_wf_def)

lemma builds_packet: "builds m bs \<Longrightarrow> take (nat (m_cursize m)) (m_data m) = bs"
  by (simp add: builds_def)

lemma builds_Init:
  "0 \<le> maxsize \<Longrightarrow> maxsize \<le> int (length data) \<Longrightarrow> maxsize < 268435456 \<Longrightarrow>
   builds (MSG_Init data maxsize) []"
  by (simp add: builds_def msg_wf_def MSG_Init_def)

lemma builds_put:
  assumes "builds m bs" "int (length bs) + int (length cs) \<le> m_maxsize m"
  shows "builds (put_bytes cs m) (bs @ cs)"
proof -
  have c: "m_cursize m = int (length bs)" by (rule builds_cursize [OF assms(1)])
  have wf: "msg_wf m" and pre: "take (length bs) (m_data m) = bs"
    using assms(1) c by (auto simp: builds_def)
  have len: "length (m_data (put_bytes cs m)) = length (m_data m)"
    using wf assms(2) c by (simp add: put_bytes_nth(1))
  have "m_data (put_bytes cs m) = bs @ cs @ drop (length bs + length cs) (m_data m)"
    by (simp add: put_bytes_def c pre)
  then have "take (length bs + length cs) (m_data (put_bytes cs m)) = bs @ cs" by simp
  then show ?thesis
    using wf assms c len by (simp add: builds_def msg_wf_def nat_add_distrib)
qed

lemma builds_append:
  assumes "builds m bs" "int (length bs) + int (length cs) \<le> m_maxsize m"
  shows "append_or_overflow cs m = put_bytes cs m"
  using assms by (simp add: append_or_overflow_def builds_cursize)

lemma builds_WriteByte:
  assumes "builds m bs" "int (length bs) + 1 \<le> m_maxsize m"
  shows "MSG_WriteByte m v = Some (put_bytes [word_of_int v] m)"
  using assms by (simp add: WriteByte_eq builds_append [of m bs] builds_def)

lemma builds_WriteShort:
  assumes "builds m bs" "int (length bs) + 2 \<le> m_maxsize m"
  shows "MSG_WriteShort m v = Some (put_bytes (le16 v) m)"
  using assms by (simp add: WriteShort_eq builds_append [of m bs] builds_def)

lemma builds_WriteLong:
  assumes "builds m bs" "int (length bs) + 4 \<le> m_maxsize m"
  shows "MSG_WriteLong m v = Some (put_bytes (le32 v) m)"
  using assms by (simp add: WriteLong_eq builds_append [of m bs] builds_def)

lemma WriteData_take:
  assumes "0 \<le> len" "len \<le> int (length cs)"
  shows "MSG_WriteData m cs len = MSG_WriteData m (take (nat len) cs) len"
  using assms by (simp add: MSG_WriteData_def copy_out_def)

lemma builds_WriteData:
  assumes "builds m bs" "0 \<le> len" "len \<le> int (length cs)" "int (length bs) + len \<le> m_maxsize m"
  shows "MSG_WriteData m cs len = Some (put_bytes (take (nat len) cs) m)"
proof -
  have len: "int (length (take (nat len) cs)) = len" using assms(2,3) by simp
  have "MSG_WriteData m (take (nat len) cs) len = Some (append_or_overflow (take (nat len) cs) m)"
    using assms(1) len by (intro WriteData_eq_len) (simp_all add: builds_def)
  also have "append_or_overflow (take (nat len) cs) m = put_bytes (take (nat len) cs) m"
    using assms(1,4) len by (intro builds_append [of m bs]) simp_all
  finally show ?thesis using WriteData_take [OF assms(2,3)] by simp
qed

section \<open>Reading\<close>

definition unread :: "msg_t \<Rightarrow> 8 word list" where
  "unread r = take (nat (m_cursize r - m_readcount r)) (drop (nat (m_readcount r)) (m_data r))"

definition stream :: "msg_t \<Rightarrow> 8 word list \<Rightarrow> bool" where
  "stream r bs \<longleftrightarrow> read_inv r \<and> m_readcount r \<le> m_cursize r \<and> unread r = bs"

definition skip :: "int \<Rightarrow> msg_t \<Rightarrow> msg_t" where
  "skip n r = r\<lparr>m_readcount := m_readcount r + n\<rparr>"

lemma skip_fields [simp]:
  "m_data (skip n r) = m_data r" "m_cursize (skip n r) = m_cursize r"
  "m_maxsize (skip n r) = m_maxsize r" "m_readcount (skip n r) = m_readcount r + n"
  "m_overflowed (skip n r) = m_overflowed r" "m_bit (skip n r) = m_bit r"
  by (simp_all add: skip_def)

lemma skip_skip [simp]: "skip n (skip k r) = skip (k + n) r"
  by (simp add: skip_def algebra_simps)

lemma stream_length: "stream r bs \<Longrightarrow> m_readcount r + int (length bs) = m_cursize r"
  by (auto simp: stream_def unread_def read_inv_def)

lemma stream_skip:
  assumes "stream r (bs @ cs)"
  shows "stream (skip (int (length bs)) r) cs"
proof -
  have len: "m_readcount r + int (length bs) + int (length cs) = m_cursize r"
    using stream_length [OF assms] by simp
  have "nat (m_cursize r - (m_readcount r + int (length bs))) = nat (m_cursize r - m_readcount r) - length bs"
    by simp
  moreover have "nat (m_readcount r + int (length bs)) = length bs + nat (m_readcount r)"
    using assms by (simp add: stream_def read_inv_def nat_add_distrib)
  ultimately have "unread (skip (int (length bs)) r) = drop (length bs) (unread r)"
    by (simp add: unread_def drop_take)
  then show ?thesis using assms len by (simp add: stream_def read_inv_def)
qed

lemma stream_taken:
  assumes "stream r (bs @ cs)"
  shows "take (length bs) (drop (nat (m_readcount r)) (m_data r)) = bs"
proof -
  have "take (length bs) (unread r) = bs" using assms by (simp add: stream_def)
  moreover have "length bs \<le> nat (m_cursize r - m_readcount r)"
    using stream_length [OF assms] by simp
  ultimately show ?thesis by (simp add: unread_def min_def)
qed

lemma stream_peek:
  assumes "stream r (bs @ cs)" "i < length bs"
  shows "peek (m_data r) (m_readcount r + int i) = Some (bs ! i)"
  using peek_taken [OF stream_taken [OF assms(1)] _ assms(2)] assms(1)
  by (simp add: stream_def read_inv_def)

lemma stream_bounds:
  assumes "stream r (bs @ cs)"
  shows "0 \<le> m_readcount r" "m_readcount r + int (length bs) \<le> m_cursize r" "m_cursize r < 268435456"
  using stream_length [OF assms] assms by (simp_all add: stream_def read_inv_def)

lemma stream_ReadByte: "stream r (b # cs) \<Longrightarrow> MSG_ReadByte r = Some (uint b, skip 1 r)"
  using stream_bounds [of r "[b]" cs] stream_peek [of r "[b]" cs 0]
  by (simp add: MSG_ReadByte_def skip_def)

lemma stream_ReadShort: "stream r (le16 v @ cs) \<Longrightarrow> MSG_ReadShort r = Some (i16 v, skip 2 r)"
  using stream_bounds [of r "le16 v" cs] stream_peek [of r "le16 v" cs 0] stream_peek [of r "le16 v" cs 1]
  by (simp add: MSG_ReadShort_def skip_def i32_simps le16_def Let_def join_16 sint_word_of_int_16)

lemma stream_ReadLong: "stream r (le32 v @ cs) \<Longrightarrow> MSG_ReadLong r = Some (i32 v, skip 4 r)"
  using stream_bounds [of r "le32 v" cs] stream_peek [of r "le32 v" cs 0] stream_peek [of r "le32 v" cs 1]
    stream_peek [of r "le32 v" cs 2] stream_peek [of r "le32 v" cs 3]
  by (simp add: MSG_ReadLong_def skip_def i32_simps le32_def Let_def join_32 sint_word_of_int_32
      numeral_2_eq_2 numeral_3_eq_3)

lemma stream_copy_out:
  assumes "stream r (bs @ cs)"
  shows "copy_out (m_data r) (m_readcount r) (int (length bs)) = Some bs"
  using stream_bounds [OF assms] stream_taken [OF assms] assms
  by (simp add: copy_out_def stream_def read_inv_def)

lemma stream_start:
  assumes "take (length bs) (m_data r) = bs" "m_cursize r = int (length bs)" "length bs < 268435456"
  shows "stream (MSG_BeginReading r) bs"
proof -
  have "length bs \<le> length (m_data r)" by (metis assms(1) length_take min.cobounded1)
  then show ?thesis
    using assms by (auto simp: stream_def MSG_BeginReading_def read_inv_def unread_def)
qed

end
