(* ===== verification/Netchan.thy ===== *)
theory Netchan
  imports Msg_Stream
begin

text \<open>
  The reliable packet channel: \<open>src/qcommon/netchan.c\<close>, its records in \<open>net_types.h\<close>, and
  the profiling hooks of \<open>net_profile.c\<close> it calls. The channel is a record threaded through
  its operations; the globals they read (the cvars, the clock, whether the next \<open>malloc\<close>
  succeeds) and the one they write, \<open>net_profileActiveMode\<close>, are a second record. A packet
  handed to \<open>NET_SendPacket\<close> is a result of the operation that sends it.
\<close>

section \<open>State\<close>

datatype netadrtype_t = NA_BAD | NA_BOT | NA_LOOPBACK | NA_BROADCAST | NA_IP | NA_IPX | NA_BROADCAST_IPX
datatype netsrc_t = NS_CLIENT | NS_SERVER
datatype netProfileMode_t = NET_PROFILE_OFF | NET_PROFILE_CLIENT | NET_PROFILE_SERVER

record netadr_t =
  a_type :: netadrtype_t
  a_ip :: "8 word list"
  a_ipx :: "8 word list"
  a_port :: int

record netProfileSample_t =
  s_time :: int
  s_bytes :: int
  s_fragmented :: bool

record netProfileStream_t =
  p_samples :: "netProfileSample_t list"
  p_ringIndex :: int
  p_bytesPerSecond :: int
  p_lastRateCalcTime :: int
  p_sampleCount :: int
  p_fragmentSampleCount :: int
  p_fragmentPercent :: int
  p_maxBytes :: int
  p_minBytes :: int

record netProfileInfo_t =
  p_send :: netProfileStream_t
  p_receive :: netProfileStream_t

record netchan_t =
  n_sock :: netsrc_t
  n_dropped :: int
  n_remoteAddress :: netadr_t
  n_qport :: int
  n_incomingSequence :: int
  n_outgoingSequence :: int
  n_fragmentSequence :: int
  n_fragmentLength :: int
  n_fragmentBuffer :: "8 word list"
  n_unsentFragments :: bool
  n_unsentFragmentStart :: int
  n_unsentLength :: int
  n_unsentBuffer :: "8 word list"
  n_profile :: "netProfileInfo_t option"

record net_env =
  e_net_profile :: int
  e_sv_running :: int
  e_cl_running :: int
  e_net_qport :: int
  e_memory :: bool
  e_milliseconds :: int
  e_activeMode :: netProfileMode_t

abbreviation NET_PROFILE_SAMPLE_COUNT :: int where "NET_PROFILE_SAMPLE_COUNT \<equiv> 60"
abbreviation NETCHAN_FRAGMENT_SIZE :: int where "NETCHAN_FRAGMENT_SIZE \<equiv> 1300"
abbreviation NETCHAN_PACKET_BUFFER_SIZE :: int where "NETCHAN_PACKET_BUFFER_SIZE \<equiv> 1400"
abbreviation MAX_MSGLEN :: int where "MAX_MSGLEN \<equiv> 32768"

section \<open>Profiling\<close>

definition zero_sample :: netProfileSample_t where
  "zero_sample = \<lparr>s_time = 0, s_bytes = 0, s_fragmented = False\<rparr>"

definition zero_stream :: netProfileStream_t where
  "zero_stream = \<lparr>p_samples = replicate 60 zero_sample, p_ringIndex = 0, p_bytesPerSecond = 0,
     p_lastRateCalcTime = 0, p_sampleCount = 0, p_fragmentSampleCount = 0,
     p_fragmentPercent = 0, p_maxBytes = 0, p_minBytes = 0\<rparr>"

definition zero_info :: netProfileInfo_t where
  "zero_info = \<lparr>p_send = zero_stream, p_receive = zero_stream\<rparr>"

text \<open>\<open>Sys_OutOfMemory\<close> ends the process.\<close>

definition NetProf_PrepProfiling ::
    "net_env \<Rightarrow> netProfileInfo_t option \<Rightarrow> (net_env \<times> netProfileInfo_t option) run" where
  "NetProf_PrepProfiling env profile =
     (if e_net_profile env \<noteq> 0 then
        let env1 =
          (if e_activeMode env = NET_PROFILE_OFF then
             env\<lparr>e_activeMode :=
               (if e_sv_running env = 0 \<or> (e_cl_running env \<noteq> 0 \<and> e_net_profile env = 2)
                then NET_PROFILE_CLIENT else NET_PROFILE_SERVER)\<rparr>
           else env)
        in case profile of
             None \<Rightarrow> (if e_memory env then Done (env1, Some zero_info)
                      else Raise ERR_FATAL ''OUT OF MEMORY! ABORTING!!!'')
           | Some info \<Rightarrow> Done (env1, profile)
      else Done (env\<lparr>e_activeMode := NET_PROFILE_OFF\<rparr>, None))"

definition NetProf_AddPacket ::
    "net_env \<Rightarrow> netProfileStream_t \<Rightarrow> int \<Rightarrow> bool \<Rightarrow> netProfileStream_t option" where
  "NetProf_AddPacket env profile len fragmented =
     (let ringIndex = i32 (p_ringIndex profile + 1) smod NET_PROFILE_SAMPLE_COUNT in do {
        samples \<leftarrow> poke (p_samples profile) ringIndex
          \<lparr>s_time = e_milliseconds env, s_bytes = len, s_fragmented = fragmented\<rparr>;
        Some (profile\<lparr>p_ringIndex := ringIndex, p_samples := samples\<rparr>) })"

definition NetProf_NewSendPacket :: "net_env \<Rightarrow> netchan_t \<Rightarrow> int \<Rightarrow> bool \<Rightarrow> netchan_t option" where
  "NetProf_NewSendPacket env channel len fragmented =
     (if e_activeMode env = NET_PROFILE_OFF then Some channel
      else do {
        info \<leftarrow> n_profile channel;
        strm \<leftarrow> NetProf_AddPacket env (p_send info) len fragmented;
        Some (channel\<lparr>n_profile := Some (info\<lparr>p_send := strm\<rparr>)\<rparr>) })"

definition NetProf_NewRecievePacket :: "net_env \<Rightarrow> netchan_t \<Rightarrow> int \<Rightarrow> bool \<Rightarrow> netchan_t option" where
  "NetProf_NewRecievePacket env channel len fragmented =
     (if e_activeMode env = NET_PROFILE_OFF then Some channel
      else do {
        info \<leftarrow> n_profile channel;
        strm \<leftarrow> NetProf_AddPacket env (p_receive info) len fragmented;
        Some (channel\<lparr>n_profile := Some (info\<lparr>p_receive := strm\<rparr>)\<rparr>) })"

section \<open>Channel\<close>

definition Netchan_Setup ::
    "net_env \<Rightarrow> netsrc_t \<Rightarrow> netadr_t \<Rightarrow> int \<Rightarrow> (net_env \<times> netchan_t) run" where
  "Netchan_Setup env source address qport =
     run_bind (NetProf_PrepProfiling env None) (\<lambda>(env1, profile).
       Done (env1,
         \<lparr>n_sock = source, n_dropped = 0, n_remoteAddress = address, n_qport = qport,
          n_incomingSequence = 0, n_outgoingSequence = 1, n_fragmentSequence = 0,
          n_fragmentLength = 0, n_fragmentBuffer = replicate 32768 0, n_unsentFragments = False,
          n_unsentFragmentStart = 0, n_unsentLength = 0, n_unsentBuffer = replicate 32768 0,
          n_profile = profile\<rparr>))"

definition packet_bytes :: "msg_t \<Rightarrow> 8 word list" where
  "packet_bytes message = take (nat (m_cursize message)) (m_data message)"

definition fragment_size :: "netchan_t \<Rightarrow> int" where
  "fragment_size channel =
     (if i32 (n_unsentFragmentStart channel + NETCHAN_FRAGMENT_SIZE) > n_unsentLength channel
      then i32 (n_unsentLength channel - n_unsentFragmentStart channel)
      else NETCHAN_FRAGMENT_SIZE)"

definition fragment_message :: "net_env \<Rightarrow> netchan_t \<Rightarrow> msg_t option" where
  "fragment_message env channel =
     (let fragmentLength = fragment_size channel;
          message = MSG_Init (replicate 1400 0) NETCHAN_PACKET_BUFFER_SIZE in do {
        m1 \<leftarrow> MSG_WriteLong message (i32 (u32 (n_outgoingSequence channel) OR 0x80000000));
        m2 \<leftarrow> (if n_sock channel = NS_CLIENT then MSG_WriteShort m1 (e_net_qport env) else Some m1);
        m3 \<leftarrow> MSG_WriteShort m2 (n_unsentFragmentStart channel);
        m4 \<leftarrow> MSG_WriteShort m3 fragmentLength;
        src \<leftarrow> from_offset (n_unsentBuffer channel) (n_unsentFragmentStart channel);
        MSG_WriteData m4 src fragmentLength })"

definition Netchan_TransmitNextFragment ::
    "net_env \<Rightarrow> netchan_t \<Rightarrow> (net_env \<times> netchan_t \<times> 8 word list) run" where
  "Netchan_TransmitNextFragment env channel =
     run_bind (NetProf_PrepProfiling env (n_profile channel)) (\<lambda>(env1, profile).
       let channel1 = channel\<lparr>n_profile := profile\<rparr>; fragmentLength = fragment_size channel1 in
       checked (do {
         message \<leftarrow> fragment_message env1 channel1;
         channel2 \<leftarrow> NetProf_NewSendPacket env1 channel1 (m_cursize message) True;
         let channel3 = channel2\<lparr>n_unsentFragmentStart :=
               i32 (n_unsentFragmentStart channel2 + fragmentLength)\<rparr> in
         Some (env1,
           (if n_unsentFragmentStart channel3 = n_unsentLength channel3 \<and>
               fragmentLength \<noteq> NETCHAN_FRAGMENT_SIZE
            then channel3\<lparr>n_outgoingSequence := i32 (n_outgoingSequence channel3 + 1),
                          n_unsentFragments := False\<rparr>
            else channel3),
           packet_bytes message) }))"

definition Netchan_Transmit ::
    "net_env \<Rightarrow> netchan_t \<Rightarrow> int \<Rightarrow> 8 word list \<Rightarrow> (net_env \<times> netchan_t \<times> 8 word list) run" where
  "Netchan_Transmit env channel len data =
     (if len < 0 \<or> len > MAX_MSGLEN then Raise ERR_DROP ''Netchan_Transmit: length = %i''
      else let channel0 = channel\<lparr>n_unsentFragmentStart := 0\<rparr> in
      if len \<ge> NETCHAN_FRAGMENT_SIZE then
        run_bind (checked (do {
          src \<leftarrow> copy_out data 0 len;
          buffer \<leftarrow> copy_in (n_unsentBuffer channel0) 0 src;
          Some (channel0\<lparr>n_unsentFragments := True, n_unsentLength := len, n_unsentBuffer := buffer\<rparr>) }))
        (Netchan_TransmitNextFragment env)
      else
        run_bind (NetProf_PrepProfiling env (n_profile channel0)) (\<lambda>(env1, profile).
          let channel1 = channel0\<lparr>n_profile := profile\<rparr> in
          checked (do {
            m1 \<leftarrow> MSG_WriteLong (MSG_Init (replicate 1400 0) NETCHAN_PACKET_BUFFER_SIZE)
                   (n_outgoingSequence channel1);
            let channel2 = channel1\<lparr>n_outgoingSequence := i32 (n_outgoingSequence channel1 + 1)\<rparr> in
            do {
              m2 \<leftarrow> (if n_sock channel2 = NS_CLIENT then MSG_WriteShort m1 (e_net_qport env1) else Some m1);
              message \<leftarrow> MSG_WriteData m2 data len;
              channel3 \<leftarrow> NetProf_NewSendPacket env1 channel2 (m_cursize message) False;
              Some (env1, channel3, packet_bytes message) } })))"

text \<open>The last part of \<open>Netchan_Process\<close>: a fragment that continues the pending message.\<close>

definition accept_fragment ::
    "netchan_t \<Rightarrow> msg_t \<Rightarrow> int \<Rightarrow> int \<Rightarrow> (netchan_t \<times> msg_t \<times> bool) option" where
  "accept_fragment channel message sequence fragmentLength =
     (if fragmentLength < 0 \<or> i32 (m_readcount message + fragmentLength) > m_cursize message \<or>
         u32 (n_fragmentLength channel + fragmentLength) > MAX_MSGLEN
      then Some (channel, message, False)
      else do {
        src \<leftarrow> copy_out (m_data message) (m_readcount message) fragmentLength;
        buffer \<leftarrow> copy_in (n_fragmentBuffer channel) (n_fragmentLength channel) src;
        let channel1 = channel\<lparr>n_fragmentBuffer := buffer,
                               n_fragmentLength := i32 (n_fragmentLength channel + fragmentLength)\<rparr> in
        if fragmentLength = NETCHAN_FRAGMENT_SIZE then Some (channel1, message, False)
        else if n_fragmentLength channel1 > m_maxsize message then Some (channel1, message, False)
        else do {
          header \<leftarrow> copy_in (m_data message) 0 (le32 sequence);
          body \<leftarrow> copy_out buffer 0 (n_fragmentLength channel1);
          data \<leftarrow> copy_in header 4 body;
          (_, message1) \<leftarrow> MSG_ReadLong (MSG_BeginReading
             (message\<lparr>m_data := data, m_cursize := n_fragmentLength channel1 + 4\<rparr>));
          Some (channel1\<lparr>n_fragmentLength := 0, n_incomingSequence := sequence\<rparr>, message1, True) } })"

definition receive_packet ::
    "netchan_t \<Rightarrow> msg_t \<Rightarrow> int \<Rightarrow> bool \<Rightarrow> int \<Rightarrow> int \<Rightarrow> (netchan_t \<times> msg_t \<times> bool) option" where
  "receive_packet channel message sequence fragmented fragmentStart fragmentLength =
     (if sequence \<le> n_incomingSequence channel then Some (channel, message, False)
      else let channel1 = channel\<lparr>n_dropped := i32 (i32 (sequence - n_incomingSequence channel) - 1)\<rparr> in
      if \<not> fragmented then Some (channel1\<lparr>n_incomingSequence := sequence\<rparr>, message, True)
      else let channel2 =
        (if sequence \<noteq> n_fragmentSequence channel1
         then channel1\<lparr>n_fragmentSequence := sequence, n_fragmentLength := 0\<rparr> else channel1) in
      if fragmentStart \<noteq> n_fragmentLength channel2 then Some (channel2, message, False)
      else accept_fragment channel2 message sequence fragmentLength)"

definition Netchan_Process ::
    "net_env \<Rightarrow> netchan_t \<Rightarrow> msg_t \<Rightarrow> (net_env \<times> netchan_t \<times> msg_t \<times> bool) run" where
  "Netchan_Process env channel message =
     run_bind (NetProf_PrepProfiling env (n_profile channel)) (\<lambda>(env1, profile).
       checked (do {
         (raw, m1) \<leftarrow> MSG_ReadLong (MSG_BeginReading message);
         let fragmented = raw < 0;
             sequence = (if fragmented then u32 raw AND 0x7FFFFFFF else raw) in
         do {
           (_, m2) \<leftarrow> (if n_sock channel = NS_SERVER then MSG_ReadShort m1 else Some (0, m1));
           (fragmentStart, m3) \<leftarrow> (if fragmented then MSG_ReadShort m2 else Some (0, m2));
           (fragmentLength, m4) \<leftarrow> (if fragmented then MSG_ReadShort m3 else Some (0, m3));
           channel1 \<leftarrow> NetProf_NewRecievePacket env1 (channel\<lparr>n_profile := profile\<rparr>)
                         (m_cursize message) fragmented;
           (channel2, m5, result) \<leftarrow>
             receive_packet channel1 m4 sequence fragmented fragmentStart fragmentLength;
           Some (env1, channel2, m5, result) } }))"

section \<open>Carrying packets\<close>

text \<open>
  What stands between the two channels: the sender's loop, which in the client and the server
  calls \<open>Netchan_TransmitNextFragment\<close> until \<open>unsentFragments\<close> is clear, and the event loop,
  which stores a packet in the one message buffer it reuses and hands it to \<open>Netchan_Process\<close>.
\<close>

fun transmit_rest :: "nat \<Rightarrow> net_env \<Rightarrow> netchan_t \<Rightarrow> (net_env \<times> netchan_t \<times> 8 word list list) run" where
  "transmit_rest n env s =
     (if \<not> n_unsentFragments s then Done (env, s, [])
      else case n of 0 \<Rightarrow> Fault | Suc k \<Rightarrow>
        run_bind (Netchan_TransmitNextFragment env s) (\<lambda>(env1, s1, p).
          run_bind (transmit_rest k env1 s1) (\<lambda>(env2, s2, ps). Done (env2, s2, p # ps))))"

declare transmit_rest.simps [simp del]

definition transmit_all :: "net_env \<Rightarrow> netchan_t \<Rightarrow> 8 word list \<Rightarrow> (net_env \<times> netchan_t \<times> 8 word list list) run" where
  "transmit_all env s data =
     run_bind (Netchan_Transmit env s (int (length data)) data) (\<lambda>(env1, s1, p).
       run_bind (transmit_rest 26 env1 s1) (\<lambda>(env2, s2, ps). Done (env2, s2, p # ps)))"

definition load_packet :: "msg_t \<Rightarrow> 8 word list \<Rightarrow> msg_t option" where
  "load_packet message packet =
     (if int (length packet) > m_maxsize message then None
      else do {
        data \<leftarrow> copy_in (m_data message) 0 packet;
        Some (message\<lparr>m_data := data, m_cursize := int (length packet)\<rparr>) })"

fun process_packets ::
    "net_env \<Rightarrow> netchan_t \<Rightarrow> msg_t \<Rightarrow> 8 word list list \<Rightarrow> (net_env \<times> netchan_t \<times> msg_t \<times> bool list) run" where
  "process_packets env c m [] = Done (env, c, m, [])"
| "process_packets env c m (p # ps) =
     run_bind (checked (load_packet m p)) (\<lambda>m1.
     run_bind (Netchan_Process env c m1) (\<lambda>(env2, c2, m2, b).
     run_bind (process_packets env2 c2 m2 ps) (\<lambda>(env3, c3, m3, bs). Done (env3, c3, m3, b # bs))))"

end
