(* ===== verification/ServerTypes.thy ===== *)
theory ServerTypes
  imports Netchan
begin

text \<open>
  \<open>src/qcommon/server_runtime_types.h\<close>: the server's client slot, with the fields the
  modelled operations use. A \<open>char\<close> array is the list of all its characters, what stands behind
  the NUL included, because the channel ciphers read it by index; \<open>cstr_of\<close> is its string.
  A block of a download is an owned heap block of 2048 bytes or \<open>NULL\<close>.
\<close>

datatype serverClientState_t = CS_FREE | CS_ZOMBIE | CS_CONNECTED | CS_PRIMED | CS_ACTIVE

fun state_value :: "serverClientState_t \<Rightarrow> int" where
  "state_value CS_FREE = 0"
| "state_value CS_ZOMBIE = 1"
| "state_value CS_CONNECTED = 2"
| "state_value CS_PRIMED = 3"
| "state_value CS_ACTIVE = 4"

record serverReliableCommand_t =
  rc_commandText :: string
  rc_enqueueTime :: int
  rc_reliable :: bool

record serverClientDownload_t =
  dl_fileName :: string
  dl_fileHandle :: int
  dl_fileSize :: int
  dl_bytesRead :: int
  dl_nextAcknowledgmentBlock :: int
  dl_nextBufferedBlock :: int
  dl_nextTransmitBlock :: int
  dl_blockData :: "8 word list option list"
  dl_blockByteCounts :: "int list"
  dl_eofBlockQueued :: bool
  dl_lastBlockActivityTime :: int
  dl_redirectAllowedByClient :: bool
  dl_redirectUrl :: string
  dl_redirectActive :: bool
  dl_redirectAcknowledged :: bool
  dl_redirectFailed :: bool

record client_t =
  c_state :: serverClientState_t
  c_deferredDropReason :: "string option"
  c_reliableCommands :: "serverReliableCommand_t list"
  c_reliableSequence :: int
  c_reliableAcknowledge :: int
  c_reliableSent :: int
  c_messageAcknowledge :: int
  c_challenge :: int
  c_lastClientCommandString :: string
  c_download :: serverClientDownload_t
  c_lastPacketTime :: int
  c_rate :: int
  c_snapshotMsec :: int
  c_netchan :: netchan_t
  c_isTestClient :: bool
  c_serverId :: int

abbreviation MAX_RELIABLE_COMMANDS :: int where "MAX_RELIABLE_COMMANDS \<equiv> 64"
abbreviation MAX_DOWNLOAD_WINDOW :: int where "MAX_DOWNLOAD_WINDOW \<equiv> 8"
abbreviation SERVER_SVC_SERVER_COMMAND :: int where "SERVER_SVC_SERVER_COMMAND \<equiv> 5"
abbreviation SERVER_SVC_DOWNLOAD :: int where "SERVER_SVC_DOWNLOAD \<equiv> 6"

text \<open>The ring slot of a sequence number, \<open>sequence & (MAX_RELIABLE_COMMANDS - 1)\<close>.\<close>

definition ring_slot :: "int \<Rightarrow> nat" where
  "ring_slot sequence = nat (sequence AND 63)"

lemma and_63 [simp]: "(x::int) AND 63 = x mod 64"
  using take_bit_eq_mask [of 6 x] by (simp add: mask_eq_exp_minus_1 take_bit_eq_mod)

lemma ring_slot_less: "ring_slot s < 64"
  by (simp add: ring_slot_def)

lemma ring_slot_eq: "a \<le> b \<Longrightarrow> b < a + 64 \<Longrightarrow> ring_slot a = ring_slot b \<longleftrightarrow> a = b"
proof
  assume eq: "ring_slot a = ring_slot b"
  assume ab: "a \<le> b" "b < a + 64"
  have "b mod 64 = a mod 64" using eq by (simp add: ring_slot_def)
  then have dvd: "64 dvd b - a" by (simp only: mod_eq_dvd_iff)
  show "a = b"
  proof (rule ccontr)
    assume "a \<noteq> b"
    then have "0 < b - a" using ab by simp
    with dvd have "64 \<le> b - a" by (rule zdvd_imp_le)
    then show False using ab by simp
  qed
qed simp

end
