(* ===== verification/FloatBits.thy ===== *)
theory FloatBits
  imports Prelude
begin

text \<open>
  What the codecs do with \<open>float\<close> values, on their bit patterns. A pattern is the \<open>int32_t\<close> the
  sources copy it to. The operations here are exact, so no rounding is involved: the conversion
  to an integer of \<open>src/compat/coduo_fp_conversion.h\<close>, applied to the pattern's value times a
  constant of 24 bits (the product fits the 64-bit mantissa of a \<open>long double\<close>), and the
  conversion of an integer of up to 24 bits, scaled by a power of two, back to a pattern.
\<close>

definition float_sign :: "int \<Rightarrow> bool" where
  "float_sign v \<longleftrightarrow> u32 v div 2147483648 = 1"

definition float_exponent :: "int \<Rightarrow> int" where
  "float_exponent v = u32 v div 8388608 mod 256"

definition float_fraction :: "int \<Rightarrow> int" where
  "float_fraction v = u32 v mod 8388608"

text \<open>\<open>x == 0.0f\<close>: both zeros; a NaN equals nothing.\<close>

definition float_is_zero :: "int \<Rightarrow> bool" where
  "float_is_zero v \<longleftrightarrow> u32 v mod 2147483648 = 0"

definition float_is_nan :: "int \<Rightarrow> bool" where
  "float_is_nan v \<longleftrightarrow> float_exponent v = 255 \<and> float_fraction v \<noteq> 0"

definition float_eq :: "int \<Rightarrow> int \<Rightarrow> bool" where
  "float_eq v w \<longleftrightarrow> \<not> float_is_nan v \<and> \<not> float_is_nan w \<and>
     (u32 v = u32 w \<or> float_is_zero v \<and> float_is_zero w)"

definition float_positive :: "int \<Rightarrow> bool" where
  "float_positive v \<longleftrightarrow> \<not> float_is_nan v \<and> \<not> float_is_zero v \<and> \<not> float_sign v"

definition float_negative :: "int \<Rightarrow> bool" where
  "float_negative v \<longleftrightarrow> \<not> float_is_nan v \<and> \<not> float_is_zero v \<and> float_sign v"

text \<open>
  \<open>coduo_fp_to_i32_extended\<close> of the value times \<open>k / 2 ^ s\<close>: the low dword of the value cut
  towards zero, and 0 when that leaves the range of a signed qword or is no number.
\<close>

definition scaled_magnitude :: "int \<Rightarrow> int \<Rightarrow> nat \<Rightarrow> int" where
  "scaled_magnitude v k s =
     (let e = float_exponent v;
          m = (if e = 0 then float_fraction v else 8388608 + float_fraction v) * k;
          p = max e 1 - 150 - int s in
      if 0 \<le> p then m * 2 ^ nat p else m div 2 ^ nat (- p))"

definition float_to_i32 :: "int \<Rightarrow> int \<Rightarrow> nat \<Rightarrow> int" where
  "float_to_i32 v k s =
     (if float_exponent v = 255 \<or> scaled_magnitude v k s \<ge> 9223372036854775808 then 0
      else if float_sign v then i32 (- scaled_magnitude v k s) else i32 (scaled_magnitude v k s))"

text \<open>The number of binary digits behind the first one.\<close>

fun binary_log :: "nat \<Rightarrow> nat" where
  "binary_log n = (if n < 2 then 0 else Suc (binary_log (n div 2)))"

declare binary_log.simps [simp del]

text \<open>\<open>(float)i / 2 ^ s\<close> for \<open>|i| < 2 ^ 24\<close>.\<close>

definition small_float :: "int \<Rightarrow> nat \<Rightarrow> int" where
  "small_float i s =
     (if i = 0 then 0
      else let n = nat \<bar>i\<bar>; l = binary_log n;
               bits = (127 + int l - int s) * 8388608 + (int n * 2 ^ (23 - l) - 8388608) in
      i32 (if i < 0 then 2147483648 + bits else bits))"

end
