(* ===== verification/Delta.thy ===== *)
theory Delta
  imports Msg FloatBits
begin

text \<open>
  The delta codec of \<open>src/qcommon/msg_delta.c\<close>, up to the player state (theory
  \<open>DeltaPlayer\<close>), and the angle codecs of \<open>src/qcommon/msg_base.c\<close> it uses. The records a
  descriptor table describes are blocks of \<open>int32_t\<close> members, the member at byte offset \<open>o\<close> of a
  descriptor being element \<open>o div 4\<close>; a \<open>float\<close> member is its bit pattern. The offsets are the
  ones the layout assertions of the type headers fix. \<open>cl_shownet\<close> prints are left out.
\<close>

section \<open>Angles\<close>

definition MSG_WriteAngle :: "msg_t \<Rightarrow> int \<Rightarrow> msg_t option" where
  "MSG_WriteAngle message angle =
     (if m_cursize message \<ge> m_maxsize message then Some (message\<lparr>m_overflowed := True\<rparr>)
      else do {
        data \<leftarrow> poke (m_data message) (m_cursize message) (word_of_int (float_to_i32 angle 11930465 24));
        Some (message\<lparr>m_data := data, m_cursize := m_cursize message + 1\<rparr>) })"

definition MSG_WriteAngle16 :: "msg_t \<Rightarrow> int \<Rightarrow> msg_t option" where
  "MSG_WriteAngle16 message angle =
     (let end' = i32 (m_cursize message + 2); packed = float_to_i32 angle 11930465 16 in
      if end' > m_maxsize message then Some (message\<lparr>m_overflowed := True\<rparr>)
      else do {
        d0 \<leftarrow> poke (m_data message) (m_cursize message) (word_of_int packed);
        d1 \<leftarrow> poke d0 (m_cursize message + 1) (word_of_int (packed div 256));
        Some (message\<lparr>m_data := d1, m_cursize := end'\<rparr>) })"

definition MSG_ReadAngle16 :: "msg_t \<Rightarrow> (int \<times> msg_t) option" where
  "MSG_ReadAngle16 message = do {
     (v, message1) \<leftarrow> MSG_ReadShort message;
     Some (small_float (v * 45) 13, message1) }"

section \<open>Keyed values\<close>

definition msg_bitmaskTable :: "int list" where
  "msg_bitmaskTable = map (\<lambda>n. 2 ^ n - 1) [0..<33]"

definition MSG_WriteDeltaValue :: "msg_t \<Rightarrow> int \<Rightarrow> int \<Rightarrow> int \<Rightarrow> msg_t option" where
  "MSG_WriteDeltaValue message oldValue newValue bitCount =
     (if oldValue = newValue then MSG_WriteBit0 message
      else do { m1 \<leftarrow> MSG_WriteBit1 message; MSG_WriteBits m1 newValue bitCount })"

definition MSG_ReadDeltaValue :: "msg_t \<Rightarrow> int \<Rightarrow> int \<Rightarrow> (int \<times> msg_t) option" where
  "MSG_ReadDeltaValue message oldValue bitCount = do {
     (changed, m1) \<leftarrow> MSG_ReadBit message;
     if changed = 0 then Some (oldValue, m1) else MSG_ReadBits m1 bitCount }"

definition MSG_WriteDeltaKey :: "msg_t \<Rightarrow> int \<Rightarrow> int \<Rightarrow> int \<Rightarrow> int \<Rightarrow> msg_t option" where
  "MSG_WriteDeltaKey message key oldValue newValue bitCount =
     (if oldValue = newValue then MSG_WriteBit0 message
      else do { m1 \<leftarrow> MSG_WriteBit1 message; MSG_WriteBits m1 (xor key newValue) bitCount })"

definition keyed_bits :: "int \<Rightarrow> int \<Rightarrow> msg_t \<Rightarrow> (int \<times> msg_t) option" where
  "keyed_bits key bitCount message = do {
     (v, m1) \<leftarrow> MSG_ReadBits message bitCount;
     mask \<leftarrow> peek msg_bitmaskTable bitCount;
     Some (xor v (i32 (mask AND key)), m1) }"

definition MSG_ReadDeltaKey :: "msg_t \<Rightarrow> int \<Rightarrow> int \<Rightarrow> int \<Rightarrow> (int \<times> msg_t) option" where
  "MSG_ReadDeltaKey message key oldValue bitCount = do {
     (changed, m1) \<leftarrow> MSG_ReadBit message;
     if changed = 0 then Some (oldValue, m1) else keyed_bits key bitCount m1 }"

definition MSG_WriteKey :: "msg_t \<Rightarrow> int \<Rightarrow> int \<Rightarrow> int \<Rightarrow> msg_t option" where
  "MSG_WriteKey message key v bitCount = MSG_WriteBits message (xor key v) bitCount"

definition MSG_ReadKey :: "msg_t \<Rightarrow> int \<Rightarrow> int \<Rightarrow> (int \<times> msg_t) option" where
  "MSG_ReadKey message key bitCount = keyed_bits key bitCount message"

text \<open>\<open>(int8_t)v\<close>.\<close>

definition i8 :: "int \<Rightarrow> int" where
  "i8 x = (x + 128) mod 256 - 128"

definition MSG_WriteDeltaKeyByte :: "msg_t \<Rightarrow> int \<Rightarrow> int \<Rightarrow> int \<Rightarrow> msg_t option" where
  "MSG_WriteDeltaKeyByte message key oldValue newValue =
     (if oldValue = i8 newValue then MSG_WriteBit0 message
      else do { m1 \<leftarrow> MSG_WriteBit1 message; MSG_WriteByte m1 (xor key newValue) })"

definition MSG_ReadDeltaKeyByte :: "msg_t \<Rightarrow> int \<Rightarrow> int \<Rightarrow> (int \<times> msg_t) option" where
  "MSG_ReadDeltaKeyByte message key oldValue = do {
     (changed, m1) \<leftarrow> MSG_ReadBit message;
     if changed = 0 then Some (oldValue, m1)
     else do { (v, m2) \<leftarrow> MSG_ReadByte m1; Some (u8 (xor v key), m2) } }"

definition MSG_WriteDeltaKeyShort :: "msg_t \<Rightarrow> int \<Rightarrow> int \<Rightarrow> int \<Rightarrow> msg_t option" where
  "MSG_WriteDeltaKeyShort message key oldValue newValue =
     (if oldValue = i16 newValue then MSG_WriteBit0 message
      else do { m1 \<leftarrow> MSG_WriteBit1 message; MSG_WriteShort m1 (xor key newValue) })"

definition MSG_ReadDeltaKeyShort :: "msg_t \<Rightarrow> int \<Rightarrow> int \<Rightarrow> (int \<times> msg_t) option" where
  "MSG_ReadDeltaKeyShort message key oldValue = do {
     (changed, m1) \<leftarrow> MSG_ReadBit message;
     if changed = 0 then Some (oldValue, m1)
     else do { (v, m2) \<leftarrow> MSG_ReadShort m1; Some (i16 (xor key (u16 v)), m2) } }"

section \<open>User commands\<close>

record usercmd_t =
  uc_commandTime :: int
  uc_buttons :: int
  uc_wbuttons :: int
  uc_weapon :: int
  uc_angles :: "int list"
  uc_forwardmove :: int
  uc_rightmove :: int
  uc_upmove :: int

definition MSG_HorMoveFrom :: "int \<Rightarrow> int \<Rightarrow> int" where
  "MSG_HorMoveFrom forwardMove rightMove =
     (if forwardMove > 10 then 1 else if forwardMove < -10 then 2 else 0) +
     (if rightMove > 10 then 4 else if rightMove < -10 then 8 else 0)"

definition MSG_VertMoveFrom :: "int \<Rightarrow> int" where
  "MSG_VertMoveFrom upMove = (if upMove > 10 then 1 else if upMove < -10 then 2 else 0)"

definition MSG_HorMoveTo :: "int \<Rightarrow> int \<times> int" where
  "MSG_HorMoveTo packedMove =
     (if packedMove AND 1 \<noteq> 0 then 127 else if packedMove AND 2 \<noteq> 0 then -127 else 0,
      if packedMove AND 4 \<noteq> 0 then 127 else if packedMove AND 8 \<noteq> 0 then -127 else 0)"

definition MSG_VertMoveTo :: "int \<Rightarrow> int" where
  "MSG_VertMoveTo packedMove =
     (if packedMove AND 1 \<noteq> 0 then 127 else if packedMove AND 2 \<noteq> 0 then -127 else 0)"

definition horizontal_move :: "usercmd_t \<Rightarrow> int" where
  "horizontal_move c = MSG_HorMoveFrom (uc_forwardmove c) (uc_rightmove c)"

text \<open>The fire button, the two view angles and the horizontal move, under a key.\<close>

definition write_aim :: "msg_t \<Rightarrow> int \<Rightarrow> usercmd_t \<Rightarrow> usercmd_t \<Rightarrow> msg_t option" where
  "write_aim message key from' to' = do {
     a0 \<leftarrow> peek (uc_angles from') 0;
     b0 \<leftarrow> peek (uc_angles to') 0;
     a1 \<leftarrow> peek (uc_angles from') 1;
     b1 \<leftarrow> peek (uc_angles to') 1;
     m1 \<leftarrow> MSG_WriteKey message key (uc_buttons to' AND 1) 1;
     m2 \<leftarrow> MSG_WriteDeltaKeyShort m1 key (i16 a0) b0;
     m3 \<leftarrow> MSG_WriteDeltaKeyShort m2 key (i16 a1) b1;
     MSG_WriteDeltaKey m3 key (horizontal_move from') (horizontal_move to') 4 }"

definition command_common :: "usercmd_t \<Rightarrow> usercmd_t \<Rightarrow> bool" where
  "command_common from' to' \<longleftrightarrow>
     uc_buttons from' div 2 = uc_buttons to' div 2 \<and> uc_wbuttons from' = uc_wbuttons to' \<and>
     uc_weapon from' = uc_weapon to' \<and> uc_angles from' ! 2 = uc_angles to' ! 2 \<and>
     MSG_VertMoveFrom (uc_upmove from') = MSG_VertMoveFrom (uc_upmove to')"

definition command_same :: "usercmd_t \<Rightarrow> usercmd_t \<Rightarrow> bool" where
  "command_same from' to' \<longleftrightarrow>
     uc_angles from' ! 0 = uc_angles to' ! 0 \<and> uc_angles from' ! 1 = uc_angles to' ! 1 \<and>
     uc_buttons from' AND 1 = uc_buttons to' AND 1 \<and> horizontal_move from' = horizontal_move to'"

definition write_command_time :: "msg_t \<Rightarrow> usercmd_t \<Rightarrow> usercmd_t \<Rightarrow> msg_t option" where
  "write_command_time message from' to' =
     (let commandTimeDelta = u32 (uc_commandTime to' - uc_commandTime from') in
      if commandTimeDelta < 256
      then do { m1 \<leftarrow> MSG_WriteBit1 message; MSG_WriteByte m1 commandTimeDelta }
      else do { m1 \<leftarrow> MSG_WriteBit0 message; MSG_WriteLong m1 (uc_commandTime to') })"

definition MSG_WriteDeltaUsercmdKey :: "msg_t \<Rightarrow> int \<Rightarrow> usercmd_t \<Rightarrow> usercmd_t \<Rightarrow> msg_t option" where
  "MSG_WriteDeltaUsercmdKey message key from' to' = do {
     m0 \<leftarrow> write_command_time message from' to';
     let key2 = xor key (u32 (uc_commandTime to')) in
     if command_common from' to' \<and> command_same from' to' then MSG_WriteKey m0 key 0 1
     else do {
       m1 \<leftarrow> MSG_WriteKey m0 key 1 1;
       if command_common from' to'
       then do {
         m2 \<leftarrow> MSG_WriteKey m1 key 0 1;
         write_aim m2 key2 from' to' }
       else do {
         m2 \<leftarrow> MSG_WriteKey m1 key 1 1;
         m3 \<leftarrow> write_aim m2 key from' to';
         a2 \<leftarrow> peek (uc_angles from') 2;
         b2 \<leftarrow> peek (uc_angles to') 2;
         m4 \<leftarrow> MSG_WriteDeltaKeyShort m3 key2 (i16 a2) b2;
         m5 \<leftarrow> MSG_WriteDeltaKey m4 key2 (uc_buttons from' div 2) (uc_buttons to' div 2) 6;
         m6 \<leftarrow> MSG_WriteDeltaKeyByte m5 key2 (i8 (uc_wbuttons from')) (uc_wbuttons to');
         m7 \<leftarrow> MSG_WriteDeltaKey m6 key2 (MSG_VertMoveFrom (uc_upmove from')) (MSG_VertMoveFrom (uc_upmove to')) 2;
         MSG_WriteDeltaKey m7 key2 (uc_weapon from') (uc_weapon to') 7 } } }"

definition read_aim :: "msg_t \<Rightarrow> int \<Rightarrow> usercmd_t \<Rightarrow> usercmd_t \<Rightarrow> (usercmd_t \<times> msg_t) option" where
  "read_aim message key from' to' = do {
     a0 \<leftarrow> peek (uc_angles from') 0;
     a1 \<leftarrow> peek (uc_angles from') 1;
     (fire, m1) \<leftarrow> MSG_ReadKey message key 1;
     (b0, m2) \<leftarrow> MSG_ReadDeltaKeyShort m1 (u16 key) a0;
     (b1, m3) \<leftarrow> MSG_ReadDeltaKeyShort m2 (u16 key) a1;
     (move, m4) \<leftarrow> MSG_ReadDeltaKey m3 key (horizontal_move from') 4;
     Some (to'\<lparr>uc_buttons := uc_buttons to' OR u8 fire,
              uc_angles := (uc_angles to')[0 := b0 AND 65535, 1 := b1 AND 65535],
              uc_forwardmove := fst (MSG_HorMoveTo (u32 move)), uc_rightmove := snd (MSG_HorMoveTo (u32 move))\<rparr>, m4) }"

definition MSG_ReadDeltaUsercmdKey :: "msg_t \<Rightarrow> int \<Rightarrow> usercmd_t \<Rightarrow> (usercmd_t \<times> msg_t) option" where
  "MSG_ReadDeltaUsercmdKey message key from' = do {
     (near, m0) \<leftarrow> MSG_ReadBit message;
     (time, m1) \<leftarrow> (if near = 0 then MSG_ReadLong m0
                    else do { (delta, m) \<leftarrow> MSG_ReadByte m0; Some (i32 (uc_commandTime from' + delta), m) });
     let to1 = from'\<lparr>uc_commandTime := time\<rparr>; key2 = xor key (u32 time) in do {
     (changed, m2) \<leftarrow> MSG_ReadKey m1 key 1;
     if changed = 0 then Some (to1, m2)
     else let to2 = to1\<lparr>uc_buttons := uc_buttons to1 AND 254\<rparr> in do {
       (complete, m3) \<leftarrow> MSG_ReadKey m2 key 1;
       if complete = 0 then read_aim m3 key2 from' to2
       else do {
         (to3, m4) \<leftarrow> read_aim m3 key from' to2;
         a2 \<leftarrow> peek (uc_angles from') 2;
         (b2, m5) \<leftarrow> MSG_ReadDeltaKeyShort m4 (u16 key2) a2;
         (high, m6) \<leftarrow> MSG_ReadDeltaKey m5 key2 (uc_buttons from' div 2) 6;
         (wb, m7) \<leftarrow> MSG_ReadDeltaKeyByte m6 (u8 key2) (uc_wbuttons from');
         (up, m8) \<leftarrow> MSG_ReadDeltaKey m7 key2 (MSG_VertMoveFrom (uc_upmove from')) 2;
         (weapon, m9) \<leftarrow> MSG_ReadDeltaKey m8 key2 (uc_weapon from') 7;
         Some (to3\<lparr>uc_angles := (uc_angles to3)[2 := b2 AND 65535],
                  uc_buttons := u8 (high * 2 OR (uc_buttons to3 AND 1)),
                  uc_wbuttons := u8 wb, uc_upmove := MSG_VertMoveTo (u32 up), uc_weapon := u8 weapon\<rparr>, m9) } } } }"

section \<open>One member of a record\<close>

datatype netField_t = NetField (nf_name: string) (nf_offset: int) (nf_bits: int)

type_synonym block = "int list"

definition member :: "block \<Rightarrow> netField_t \<Rightarrow> int option" where
  "member b field = peek b (nf_offset field div 4)"

definition set_member :: "block \<Rightarrow> netField_t \<Rightarrow> int \<Rightarrow> block option" where
  "set_member b field v = poke b (nf_offset field div 4) v"

fun write_value_bytes :: "nat \<Rightarrow> int \<Rightarrow> msg_t \<Rightarrow> msg_t option" where
  "write_value_bytes 0 v message = Some message"
| "write_value_bytes (Suc n) v message = do {
     m1 \<leftarrow> MSG_WriteByte message v;
     write_value_bytes n (v div 256) m1 }"

text \<open>An integer of \<open>|bits|\<close> bits: the odd bits first, then whole bytes.\<close>

definition write_integer :: "msg_t \<Rightarrow> int \<Rightarrow> int \<Rightarrow> msg_t option" where
  "write_integer message bits v =
     (let bitCount = \<bar>bits\<bar>; lowBits = bitCount AND 7 in
      if lowBits \<noteq> 0 then do {
        m1 \<leftarrow> MSG_WriteBits message v lowBits;
        write_value_bytes (nat (bitCount - lowBits) div 8) (v div 2 ^ nat lowBits) m1 }
      else write_value_bytes (nat bitCount div 8) v message)"

text \<open>
  A float: a biased integer of 13 bits if it is one, else its pattern. The conversion back to
  float is compared last here, where it is exact; the three conditions have no effects.
\<close>

definition small_integer :: "int \<Rightarrow> bool" where
  "small_integer v \<longleftrightarrow> (let rounded = float_to_i32 v 1 0; biased = i32 (rounded + 4096) in
     0 \<le> biased \<and> biased < 8192 \<and> float_eq (small_float rounded 0) v)"

definition write_float :: "msg_t \<Rightarrow> int \<Rightarrow> msg_t option" where
  "write_float message v =
     (let biased = i32 (float_to_i32 v 1 0 + 4096) in
      if small_integer v then do {
        m1 \<leftarrow> MSG_WriteBit0 message;
        m2 \<leftarrow> MSG_WriteBits m1 biased 5;
        MSG_WriteByte m2 (biased div 32) }
      else do {
        m1 \<leftarrow> MSG_WriteBit1 message;
        MSG_WriteLong m1 v })"

definition write_changed :: "msg_t \<Rightarrow> int \<Rightarrow> int \<Rightarrow> msg_t option" where
  "write_changed message bits v =
     (if bits = 0 then
        (if float_is_zero v then MSG_WriteBit0 message
         else do { m1 \<leftarrow> MSG_WriteBit1 message; write_float m1 v })
      else if v = 0 then MSG_WriteBit0 message
      else do {
        m1 \<leftarrow> MSG_WriteBit1 message;
        if bits = -100 then MSG_WriteAngle16 m1 v else write_integer m1 bits v })"

definition MSG_WriteDeltaField :: "msg_t \<Rightarrow> block \<Rightarrow> block \<Rightarrow> netField_t \<Rightarrow> msg_t option" where
  "MSG_WriteDeltaField message from' to' field = do {
     oldValue \<leftarrow> member from' field;
     newValue \<leftarrow> member to' field;
     if oldValue = newValue then MSG_WriteBit0 message
     else do {
       m1 \<leftarrow> MSG_WriteBit1 message;
       write_changed m1 (nf_bits field) newValue } }"

fun read_value_bytes :: "nat \<Rightarrow> nat \<Rightarrow> 32 word \<Rightarrow> msg_t \<Rightarrow> (32 word \<times> msg_t) option" where
  "read_value_bytes 0 shift v message = Some (v, message)"
| "read_value_bytes (Suc n) shift v message = do {
     (b, m1) \<leftarrow> MSG_ReadByte message;
     read_value_bytes n (shift + 8) (v OR push_bit (shift mod 32) (word_of_int b)) m1 }"

definition read_integer :: "msg_t \<Rightarrow> int \<Rightarrow> (int \<times> msg_t) option" where
  "read_integer message bits =
     (let bitCount = \<bar>bits\<bar>; lowBits = bitCount AND 7 in do {
      (low, m1) \<leftarrow> (if lowBits = 0 then Some (0, message) else MSG_ReadBits message lowBits);
      (v, m2) \<leftarrow> read_value_bytes (nat (bitCount - lowBits) div 8) (nat lowBits) (word_of_int low) m1;
      Some (sint v, m2) })"

definition read_float :: "msg_t \<Rightarrow> (int \<times> msg_t) option" where
  "read_float message = do {
     (large, m1) \<leftarrow> MSG_ReadBit message;
     if large = 0 then do {
       (low, m2) \<leftarrow> MSG_ReadBits m1 5;
       (high, m3) \<leftarrow> MSG_ReadByte m2;
       Some (small_float (low + (high - 128) * 32) 0, m3) }
     else MSG_ReadLong m1 }"

definition read_changed :: "msg_t \<Rightarrow> int \<Rightarrow> (int \<times> msg_t) option" where
  "read_changed message bits = do {
     (nonzero, m1) \<leftarrow> MSG_ReadBit message;
     if nonzero = 0 then Some (0, m1)
     else if bits = 0 then read_float m1
     else if bits = -100 then MSG_ReadAngle16 m1
     else read_integer m1 bits }"

definition MSG_ReadDeltaField :: "msg_t \<Rightarrow> block \<Rightarrow> block \<Rightarrow> netField_t \<Rightarrow> (block \<times> msg_t) option" where
  "MSG_ReadDeltaField message from' to' field = do {
     (changed, m1) \<leftarrow> MSG_ReadBit message;
     (v, m2) \<leftarrow> (if changed = 0 then do { old \<leftarrow> member from' field; Some (old, m1) }
                 else read_changed m1 (nf_bits field));
     to2 \<leftarrow> set_member to' field v;
     Some (to2, m2) }"

section \<open>Records\<close>

fun write_fields :: "msg_t \<Rightarrow> block \<Rightarrow> block \<Rightarrow> netField_t list \<Rightarrow> msg_t option" where
  "write_fields message from' to' [] = Some message"
| "write_fields message from' to' (f # fs) = do {
     m1 \<leftarrow> MSG_WriteDeltaField message from' to' f;
     write_fields m1 from' to' fs }"

fun read_fields :: "msg_t \<Rightarrow> block \<Rightarrow> block \<Rightarrow> netField_t list \<Rightarrow> (block \<times> msg_t) option" where
  "read_fields message from' to' [] = Some (to', message)"
| "read_fields message from' to' (f # fs) = do {
     (to1, m1) \<leftarrow> MSG_ReadDeltaField message from' to' f;
     read_fields m1 from' to1 fs }"

fun keep_fields :: "block \<Rightarrow> block \<Rightarrow> netField_t list \<Rightarrow> block option" where
  "keep_fields from' to' [] = Some to'"
| "keep_fields from' to' (f # fs) = do {
     v \<leftarrow> member from' f;
     to1 \<leftarrow> set_member to' f v;
     keep_fields from' to1 fs }"

text \<open>One more than the index of the last field that differs, 0 if none does.\<close>

fun last_changed :: "nat \<Rightarrow> block \<Rightarrow> block \<Rightarrow> netField_t list \<Rightarrow> nat \<Rightarrow> nat option" where
  "last_changed i from' to' [] n = Some n"
| "last_changed i from' to' (f # fs) n = do {
     oldValue \<leftarrow> member from' f;
     newValue \<leftarrow> member to' f;
     last_changed (Suc i) from' to' fs (if oldValue \<noteq> newValue then Suc i else n) }"

definition MSG_WriteDeltaFields ::
    "msg_t \<Rightarrow> block \<Rightarrow> block \<Rightarrow> bool \<Rightarrow> netField_t list \<Rightarrow> msg_t option" where
  "MSG_WriteDeltaFields message from' to' force fields' = do {
     n \<leftarrow> last_changed 0 from' to' fields' 0;
     if \<not> force \<and> n = 0 then MSG_WriteBit0 message
     else do {
       m1 \<leftarrow> MSG_WriteBit1 message;
       write_fields m1 from' to' fields' } }"

definition MSG_ReadDeltaFields :: "msg_t \<Rightarrow> block \<Rightarrow> block \<Rightarrow> netField_t list \<Rightarrow> (block \<times> msg_t) option" where
  "MSG_ReadDeltaFields message from' to' fields' = do {
     (changed, m1) \<leftarrow> MSG_ReadBit message;
     if changed \<noteq> 0 then read_fields m1 from' to' fields'
     else do {
       to1 \<leftarrow> keep_fields from' to' fields';
       Some (to1, m1) } }"

text \<open>
  \<open>to'\<close> is \<open>None\<close> for a record that is gone. \<open>extraWriter\<close> is \<open>NULL\<close> or writes what the caller
  puts behind the record's number.
\<close>

definition write_number ::
    "msg_t \<Rightarrow> block \<Rightarrow> int \<Rightarrow> bool \<Rightarrow> msg_t option" where
  "write_number message record' numberBits writeForceBit = do {
     m1 \<leftarrow> (if writeForceBit then MSG_WriteBit1 message else Some message);
     recordNumber \<leftarrow> peek record' 0;
     MSG_WriteBits m1 recordNumber numberBits }"

definition MSG_WriteDeltaStruct ::
    "msg_t \<Rightarrow> block \<Rightarrow> block option \<Rightarrow> bool \<Rightarrow> int \<Rightarrow> netField_t list \<Rightarrow>
     (msg_t \<Rightarrow> block option \<Rightarrow> msg_t option) option \<Rightarrow> bool \<Rightarrow> msg_t option" where
  "MSG_WriteDeltaStruct message from' to' force numberBits fields' extraWriter writeForceBit =
     (let extra = (\<lambda>m. case extraWriter of None \<Rightarrow> Some m | Some w \<Rightarrow> w m to') in
      case to' of
        None \<Rightarrow> do {
          m1 \<leftarrow> write_number message from' numberBits writeForceBit;
          m2 \<leftarrow> extra m1;
          MSG_WriteBit1 m2 }
      | Some record' \<Rightarrow> do {
          lastChanged \<leftarrow> last_changed 0 from' record' fields' 0;
          if lastChanged = 0 \<and> \<not> force then Some message
          else do {
            m1 \<leftarrow> write_number message record' numberBits writeForceBit;
            m2 \<leftarrow> extra m1;
            m3 \<leftarrow> MSG_WriteBit0 m2;
            if lastChanged = 0 then MSG_WriteBit0 m3
            else do {
              m4 \<leftarrow> MSG_WriteBit1 m3;
              m5 \<leftarrow> MSG_WriteByte m4 (int lastChanged);
              write_fields m5 from' record' (take lastChanged fields') } } })"

text \<open>The result is whether the record is gone, and the record.\<close>

definition MSG_ReadDeltaStruct ::
    "msg_t \<Rightarrow> block \<Rightarrow> block \<Rightarrow> int \<Rightarrow> netField_t list \<Rightarrow> (bool \<times> block \<times> msg_t) run" where
  "MSG_ReadDeltaStruct message from' to' number fields' =
     run_bind (checked (MSG_ReadBit message)) (\<lambda>(gone, m1).
       if gone \<noteq> 0 then Done (True, to', m1)
       else run_bind (checked (MSG_ReadBit m1)) (\<lambda>(changed, m2).
         if changed = 0
         then checked (do {
           bytes \<leftarrow> copy_out from' 0 (int (length fields') + 1);
           to1 \<leftarrow> copy_in to' 0 bytes;
           Some (False, to1, m2) })
         else run_bind (checked (MSG_ReadByte m2)) (\<lambda>(count, m3).
           if count < 0 then Raise ERR_DROP ''MSG_ReadDeltaStruct: truncated field count''
           else checked (do {
             to1 \<leftarrow> poke to' 0 number;
             (to2, m4) \<leftarrow> read_fields m3 from' to1 (take (nat count) fields');
             to3 \<leftarrow> keep_fields from' to2 (drop (nat count) fields');
             Some (False, to3, m4) }))))"

section \<open>Entities and clients\<close>

definition msg_defaultEntityNetFields :: "netField_t list" where
  "msg_defaultEntityNetFields = [
    NetField ''pos.trTime'' 16 32, NetField ''pos.trBase[0]'' 24 0, NetField ''pos.trBase[1]'' 28 0,
    NetField ''pos.trDelta[1]'' 40 0, NetField ''pos.trDelta[0]'' 36 0, NetField ''angles2[1]'' 108 0,
    NetField ''apos.trBase[1]'' 64 (-100), NetField ''apos.trBase[0]'' 60 (-100),
    NetField ''pos.trBase[2]'' 32 0, NetField ''pos.trDelta[2]'' 44 0, NetField ''eventSequence'' 168 8,
    NetField ''eType'' 4 8, NetField ''eFlags'' 8 24, NetField ''groundEntityNum'' 124 10,
    NetField ''legsAnim'' 208 10, NetField ''clientNum'' 148 8, NetField ''apos.trBase[2]'' 68 (-100),
    NetField ''events[0]'' 172 8, NetField ''index'' 140 9, NetField ''events[1]'' 176 8,
    NetField ''events[2]'' 180 8, NetField ''events[3]'' 184 8, NetField ''eventParm'' 164 8,
    NetField ''torsoAnim'' 212 10, NetField ''surfType'' 136 8, NetField ''scale'' 220 8,
    NetField ''otherEntityNum'' 116 10, NetField ''fWaistPitch'' 240 0, NetField ''pos.trType'' 12 8,
    NetField ''xmodel'' 144 9, NetField ''angles2[0]'' 104 0, NetField ''fTorsoHeight'' 232 0,
    NetField ''fTorsoPitch'' 236 0, NetField ''apos.trType'' 48 8, NetField ''solid'' 160 24,
    NetField ''weapon'' 204 7, NetField ''apos.trTime'' 52 32, NetField ''apos.trDelta[0]'' 72 0,
    NetField ''eventParms[0]'' 188 8, NetField ''pos.trDuration'' 20 32, NetField ''animMovetype'' 228 4,
    NetField ''eventParms[1]'' 192 8, NetField ''apos.trDelta[2]'' 80 0, NetField ''eventParms[2]'' 196 8,
    NetField ''eventParms[3]'' 200 8, NetField ''leanf'' 216 0, NetField ''apos.trDelta[1]'' 76 0,
    NetField ''loopSound'' 132 8, NetField ''attackerEntityNum'' 120 10, NetField ''iHeadIcon'' 152 4,
    NetField ''iHeadIconTeam'' 156 2, NetField ''apos.trDuration'' 56 32, NetField ''time'' 84 32,
    NetField ''time2'' 88 32, NetField ''origin2[0]'' 92 0, NetField ''origin2[1]'' 96 0,
    NetField ''origin2[2]'' 100 0, NetField ''angles2[2]'' 112 0, NetField ''constantLight'' 128 32,
    NetField ''dmgFlags'' 224 32]"

definition msg_vehicleEntityNetFields :: "netField_t list" where
  "msg_vehicleEntityNetFields = [
    NetField ''pos.trBase[2]'' 32 0, NetField ''pos.trBase[0]'' 24 0, NetField ''pos.trBase[1]'' 28 0,
    NetField ''apos.trBase[2]'' 68 (-100), NetField ''apos.trBase[1]'' 64 (-100),
    NetField ''apos.trBase[0]'' 60 (-100), NetField ''angles2[1]'' 108 (-100), NetField ''time'' 84 (-16),
    NetField ''time2'' 88 6, NetField ''origin2[0]'' 92 8, NetField ''origin2[2]'' 100 8,
    NetField ''angles2[0]'' 104 (-100), NetField ''origin2[1]'' 96 (-100),
    NetField ''angles2[2]'' 112 (-100), NetField ''leanf'' 216 (-100), NetField ''loopSound'' 132 8,
    NetField ''eType'' 4 8, NetField ''eFlags'' 8 24, NetField ''eventSequence'' 168 8,
    NetField ''events[0]'' 172 8, NetField ''events[1]'' 176 8, NetField ''events[2]'' 180 8,
    NetField ''events[3]'' 184 8, NetField ''eventParm'' 164 8, NetField ''eventParms[0]'' 188 8,
    NetField ''eventParms[1]'' 192 8, NetField ''eventParms[2]'' 196 8, NetField ''eventParms[3]'' 200 8,
    NetField ''iHeadIcon'' 152 6, NetField ''iHeadIconTeam'' 156 2, NetField ''animMovetype'' 228 8,
    NetField ''index'' 140 9, NetField ''torsoAnim'' 212 10, NetField ''surfType'' 136 8,
    NetField ''scale'' 220 8, NetField ''otherEntityNum'' 116 10, NetField ''fWaistPitch'' 240 0,
    NetField ''pos.trType'' 12 8, NetField ''xmodel'' 144 9, NetField ''fTorsoHeight'' 232 0,
    NetField ''fTorsoPitch'' 236 0, NetField ''apos.trType'' 48 8, NetField ''solid'' 160 24,
    NetField ''weapon'' 204 7, NetField ''apos.trTime'' 52 32, NetField ''apos.trDelta[0]'' 72 0,
    NetField ''apos.trDelta[2]'' 80 0, NetField ''apos.trDelta[1]'' 76 0,
    NetField ''attackerEntityNum'' 120 10, NetField ''apos.trDuration'' 56 32,
    NetField ''constantLight'' 128 32, NetField ''dmgFlags'' 224 32, NetField ''pos.trTime'' 16 32,
    NetField ''pos.trDuration'' 20 32, NetField ''groundEntityNum'' 124 10, NetField ''legsAnim'' 208 10,
    NetField ''clientNum'' 148 8, NetField ''pos.trDelta[1]'' 40 0, NetField ''pos.trDelta[0]'' 36 0,
    NetField ''pos.trDelta[2]'' 44 0]"

definition msg_archivedEntityNetFields :: "netField_t list" where
  "msg_archivedEntityNetFields = [
    NetField ''absmin[1]'' 256 0, NetField ''absmax[1]'' 268 0, NetField ''absmin[0]'' 252 0,
    NetField ''absmax[0]'' 264 0, NetField ''absmin[2]'' 260 0, NetField ''absmax[2]'' 272 0,
    NetField ''pos.trBase[1]'' 28 0, NetField ''pos.trBase[0]'' 24 0, NetField ''eType'' 4 8,
    NetField ''eFlags'' 8 24, NetField ''pos.trBase[2]'' 32 0, NetField ''svFlags'' 244 32,
    NetField ''groundEntityNum'' 124 10, NetField ''apos.trBase[1]'' 64 0, NetField ''clientNum'' 148 8,
    NetField ''apos.trBase[0]'' 60 0, NetField ''index'' 140 9, NetField ''apos.trBase[2]'' 68 0,
    NetField ''eventSequence'' 168 8, NetField ''events[0]'' 172 8, NetField ''legsAnim'' 208 10,
    NetField ''events[1]'' 176 8, NetField ''events[2]'' 180 8, NetField ''events[3]'' 184 8,
    NetField ''weapon'' 204 7, NetField ''pos.trType'' 12 8, NetField ''xmodel'' 144 9,
    NetField ''pos.trTime'' 16 32, NetField ''apos.trType'' 48 8, NetField ''solid'' 160 24,
    NetField ''pos.trDuration'' 20 32, NetField ''eventParms[0]'' 188 8, NetField ''torsoAnim'' 212 10,
    NetField ''pos.trDelta[0]'' 36 0, NetField ''pos.trDelta[1]'' 40 0, NetField ''angles2[1]'' 108 0,
    NetField ''angles2[0]'' 104 0, NetField ''animMovetype'' 228 4, NetField ''pos.trDelta[2]'' 44 0,
    NetField ''otherEntityNum'' 116 10, NetField ''eventParms[1]'' 192 8, NetField ''surfType'' 136 8,
    NetField ''eventParm'' 164 8, NetField ''eventParms[2]'' 196 8, NetField ''scale'' 220 8,
    NetField ''eventParms[3]'' 200 8, NetField ''fTorsoHeight'' 232 0, NetField ''fWaistPitch'' 240 0,
    NetField ''fTorsoPitch'' 236 0, NetField ''apos.trTime'' 52 32, NetField ''apos.trDelta[0]'' 72 0,
    NetField ''apos.trDelta[2]'' 80 0, NetField ''singleClient'' 248 6, NetField ''leanf'' 216 0,
    NetField ''apos.trDelta[1]'' 76 0, NetField ''loopSound'' 132 8, NetField ''attackerEntityNum'' 120 10,
    NetField ''iHeadIcon'' 152 4, NetField ''iHeadIconTeam'' 156 2, NetField ''apos.trDuration'' 56 32,
    NetField ''time'' 84 32, NetField ''time2'' 88 32, NetField ''origin2[0]'' 92 0,
    NetField ''origin2[1]'' 96 0, NetField ''origin2[2]'' 100 0, NetField ''angles2[2]'' 112 0,
    NetField ''constantLight'' 128 32, NetField ''dmgFlags'' 224 32]"

definition msg_clientNetFields :: "netField_t list" where
  "msg_clientNetFields = [
    NetField ''team'' 4 2, NetField ''name[0]'' 60 32, NetField ''name[4]'' 64 32,
    NetField ''attachModelIndex[0]'' 12 8, NetField ''attachModelIndex[2]'' 20 8,
    NetField ''attachModelIndex[3]'' 24 8, NetField ''modelindex'' 8 8,
    NetField ''attachModelIndex[1]'' 16 8, NetField ''name[8]'' 68 32, NetField ''name[12]'' 72 32,
    NetField ''attachModelIndex[4]'' 28 8, NetField ''name[16]'' 76 32, NetField ''attachTagIndex[0]'' 36 5,
    NetField ''attachTagIndex[1]'' 40 5, NetField ''attachTagIndex[2]'' 44 5,
    NetField ''attachTagIndex[3]'' 48 5, NetField ''attachTagIndex[4]'' 52 5,
    NetField ''attachModelIndex[5]'' 32 8, NetField ''attachTagIndex[5]'' 56 5, NetField ''name[20]'' 80 32,
    NetField ''name[24]'' 84 32, NetField ''name[28]'' 88 32]"

abbreviation ET_VEHICLE :: int where "ET_VEHICLE \<equiv> 12"
abbreviation MSG_ENTITY_NUMBER_BITS :: int where "MSG_ENTITY_NUMBER_BITS \<equiv> 10"
abbreviation MSG_CLIENT_NUMBER_BITS :: int where "MSG_CLIENT_NUMBER_BITS \<equiv> 6"

definition is_vehicle :: "block option \<Rightarrow> bool option" where
  "is_vehicle to' = (case to' of None \<Rightarrow> Some False
     | Some record' \<Rightarrow> map_option (\<lambda>eType. eType = ET_VEHICLE) (peek record' 1))"

definition MSG_WriteDeltaEntity_ChangedCallback :: "msg_t \<Rightarrow> block option \<Rightarrow> msg_t option" where
  "MSG_WriteDeltaEntity_ChangedCallback message entityState = do {
     vehicle \<leftarrow> is_vehicle entityState;
     if vehicle then MSG_WriteBit1 message else MSG_WriteBit0 message }"

definition MSG_WriteDeltaEntity :: "msg_t \<Rightarrow> block \<Rightarrow> block option \<Rightarrow> bool \<Rightarrow> msg_t option" where
  "MSG_WriteDeltaEntity message from' to' force = do {
     vehicle \<leftarrow> is_vehicle to';
     MSG_WriteDeltaStruct message from' to' force MSG_ENTITY_NUMBER_BITS
       (if vehicle then msg_vehicleEntityNetFields else msg_defaultEntityNetFields)
       (Some MSG_WriteDeltaEntity_ChangedCallback) False }"

definition MSG_WriteDeltaArchivedEntity :: "msg_t \<Rightarrow> block \<Rightarrow> block option \<Rightarrow> bool \<Rightarrow> msg_t option" where
  "MSG_WriteDeltaArchivedEntity message from' to' force =
     MSG_WriteDeltaStruct message from' to' force MSG_ENTITY_NUMBER_BITS msg_archivedEntityNetFields None False"

definition client_base :: "block option \<Rightarrow> block" where
  "client_base from' = (case from' of None \<Rightarrow> replicate 23 0 | Some b \<Rightarrow> b)"

definition MSG_WriteDeltaClient :: "msg_t \<Rightarrow> block option \<Rightarrow> block option \<Rightarrow> bool \<Rightarrow> msg_t option" where
  "MSG_WriteDeltaClient message from' to' force =
     MSG_WriteDeltaStruct message (client_base from') to' force MSG_CLIENT_NUMBER_BITS msg_clientNetFields None True"

definition MSG_ReadDeltaEntity :: "msg_t \<Rightarrow> block \<Rightarrow> block \<Rightarrow> int \<Rightarrow> (bool \<times> block \<times> msg_t) run" where
  "MSG_ReadDeltaEntity message from' to' number =
     run_bind (checked (MSG_ReadBit message)) (\<lambda>(vehicle, m1).
       MSG_ReadDeltaStruct m1 from' to' number
         (if vehicle \<noteq> 0 then msg_vehicleEntityNetFields else msg_defaultEntityNetFields))"

definition MSG_ReadDeltaArchivedEntity :: "msg_t \<Rightarrow> block \<Rightarrow> block \<Rightarrow> int \<Rightarrow> (bool \<times> block \<times> msg_t) run" where
  "MSG_ReadDeltaArchivedEntity message from' to' number =
     MSG_ReadDeltaStruct message from' to' number msg_archivedEntityNetFields"

definition MSG_ReadDeltaClient :: "msg_t \<Rightarrow> block option \<Rightarrow> block \<Rightarrow> int \<Rightarrow> (bool \<times> block \<times> msg_t) run" where
  "MSG_ReadDeltaClient message from' to' clientNum =
     MSG_ReadDeltaStruct message (client_base from') to' clientNum msg_clientNetFields"

end
