(* ===== verification/DeltaPlayer.thy ===== *)
theory DeltaPlayer
  imports Delta
begin

text \<open>
  The player state part of \<open>src/qcommon/msg_delta.c\<close>: the head-up display elements, the player
  state with its statistics, ammunition, objectives and display, and the command the engine
  starts a player with. A player state is kept in the parts its layout of
  \<open>src/qcommon/player_state_types.h\<close> has: the dwords before \<open>objectives\<close> (a member at byte offset
  \<open>o\<close> is dword \<open>o div 4\<close>), the 16 objectives of 7 dwords, the two arrays of 63 display elements of
  31 dwords, and \<open>deltaTime\<close>.
\<close>

section \<open>Descriptors\<close>

definition msg_hudElemNetFields :: "netField_t list" where
  "msg_hudElemNetFields = [
    NetField ''color.rgba'' 28 32, NetField ''type'' 0 4, NetField ''fontScale'' 12 0, NetField ''y'' 8 10,
    NetField ''x'' 4 10, NetField ''alignY'' 24 2, NetField ''alignX'' 20 2, NetField ''time'' 92 32,
    NetField ''font'' 16 4, NetField ''text'' 104 8, NetField ''shaderIndex'' 56 8,
    NetField ''width'' 48 10, NetField ''height'' 52 10, NetField ''sort'' 108 0,
    NetField ''fromColor.rgba'' 32 32, NetField ''fadeStartTime'' 36 32, NetField ''fadeTime'' 40 16,
    NetField ''scaleStartTime'' 68 32, NetField ''scaleTime'' 72 16, NetField ''fromHeight'' 64 10,
    NetField ''value'' 100 0, NetField ''label'' 44 8, NetField ''fromWidth'' 60 10,
    NetField ''moveStartTime'' 84 32, NetField ''moveTime'' 88 16, NetField ''fromX'' 76 10,
    NetField ''fromY'' 80 10, NetField ''duration'' 96 32, NetField ''SCOORD'' 112 32,
    NetField ''TCOORD'' 116 32]"

definition msg_playerStateNetFields :: "netField_t list" where
  "msg_playerStateNetFields = [
    NetField ''commandTime'' 0 32, NetField ''origin[1]'' 24 0, NetField ''origin[0]'' 20 0,
    NetField ''origin[2]'' 28 0, NetField ''viewangles[1]'' 236 (-100),
    NetField ''viewangles[0]'' 232 (-100), NetField ''iCompassFriendInfo'' 1536 32,
    NetField ''eFlags'' 132 24, NetField ''bobCycle'' 8 8, NetField ''viewHeightCurrent'' 248 0,
    NetField ''eventSequence'' 136 8, NetField ''legsAnim'' 116 10, NetField ''pm_flags'' 12 24,
    NetField ''delta_angles[1]'' 80 16, NetField ''velocity[1]'' 36 0, NetField ''velocity[0]'' 32 0,
    NetField ''iCompassTankInfo'' 1540 32, NetField ''speed'' 72 16, NetField ''mins[0]'' 1372 0,
    NetField ''mins[1]'' 1376 0, NetField ''maxs[0]'' 1384 0, NetField ''maxs[1]'' 1388 0,
    NetField ''maxs[2]'' 1392 0, NetField ''proneViewHeight'' 1396 (-8),
    NetField ''crouchViewHeight'' 1400 (-8), NetField ''standViewHeight'' 1404 (-8),
    NetField ''deadViewHeight'' 1408 (-8), NetField ''walkSpeedScale'' 1412 0,
    NetField ''runSpeedScale'' 1416 0, NetField ''sprintSpeedScale'' 1420 0,
    NetField ''proneSpeedScale'' 1424 0, NetField ''crouchSpeedScale'' 1428 0,
    NetField ''strafeSpeedScale'' 1432 0, NetField ''backSpeedScale'' 1436 0,
    NetField ''leanSpeedScale'' 1440 0, NetField ''fatigueScale'' 1456 0,
    NetField ''lastSprintTime'' 1460 0, NetField ''friction'' 1472 0, NetField ''groundEntityNum'' 88 10,
    NetField ''viewHeightTarget'' 244 (-8), NetField ''events[0]'' 140 8, NetField ''weapons[0]'' 1332 32,
    NetField ''weaponslots[0]'' 1348 32, NetField ''gravity'' 64 16,
    NetField ''serverCursorHintString'' 1484 (-8), NetField ''viewmodelIndex'' 228 8,
    NetField ''events[1]'' 144 8, NetField ''events[2]'' 148 8, NetField ''events[3]'' 152 8,
    NetField ''delta_angles[0]'' 76 16, NetField ''weapon'' 216 7, NetField ''movementDir'' 128 8,
    NetField ''viewHeightLerpTarget'' 256 (-8), NetField ''weaponslots[4]'' 1352 32,
    NetField ''proneDirection'' 1444 0, NetField ''aimSpreadScale'' 1576 0, NetField ''weapAnim'' 1572 10,
    NetField ''jumpTime'' 104 32, NetField ''velocity[2]'' 40 0, NetField ''weaponTime'' 44 (-16),
    NetField ''proneTorsoPitch'' 1452 0, NetField ''proneDirectionPitch'' 1448 0,
    NetField ''fTorsoPitch'' 1548 0, NetField ''fWaistPitch'' 1552 0, NetField ''fTorsoHeight'' 1544 0,
    NetField ''weaponstate'' 220 4, NetField ''torsoTimer'' 120 16, NetField ''torsoAnim'' 124 10,
    NetField ''eventParms[0]'' 156 8, NetField ''vLadderVec[0]'' 92 0, NetField ''eventParms[3]'' 168 8,
    NetField ''viewHeightLerpDown'' 260 1, NetField ''weaponDelay'' 48 (-16),
    NetField ''eventParms[1]'' 160 8, NetField ''viewHeightLerpTime'' 252 32,
    NetField ''eventParms[2]'' 164 8, NetField ''vLadderVec[1]'' 96 0, NetField ''fWeaponPosFrac'' 224 0,
    NetField ''pm_type'' 4 8, NetField ''legsTimer'' 112 16, NetField ''fJumpOriginZ'' 108 0,
    NetField ''leanf'' 68 0, NetField ''damageEvent'' 268 8, NetField ''damageYaw'' 272 8,
    NetField ''damagePitch'' 276 8, NetField ''damageCount'' 280 7, NetField ''weaponrechamber[0]'' 1356 32,
    NetField ''grenadeTimeLeft'' 52 (-16), NetField ''pm_time'' 16 (-16),
    NetField ''iFoliageSoundTime'' 56 32, NetField ''iFatigueSoundTime'' 60 32,
    NetField ''deltaTime'' 17664 32, NetField ''serverCursorHint'' 1476 8,
    NetField ''serverCursorHintVal'' 1480 8, NetField ''shellshockIndex'' 1580 4,
    NetField ''shellshockTime'' 1584 32, NetField ''shellshockDuration'' 1588 16,
    NetField ''delta_angles[2]'' 84 16, NetField ''vLadderVec[2]'' 100 0, NetField ''clientNum'' 212 8,
    NetField ''weapons[1]'' 1336 32, NetField ''weaponrechamber[1]'' 1360 32,
    NetField ''viewangles[2]'' 240 (-100), NetField ''viewHeightLerpPosAdj'' 264 0,
    NetField ''mins[2]'' 1380 0, NetField ''viewlocked'' 1464 8, NetField ''viewlocked_entNum'' 1468 16,
    NetField ''vehPos'' 1556 4, NetField ''vehType'' 1560 4, NetField ''vehMotion'' 1564 2,
    NetField ''weapons[2]'' 1340 32, NetField ''weapons[3]'' 1344 32,
    NetField ''weaponrechamber[2]'' 1364 32, NetField ''weaponrechamber[3]'' 1368 32]"

definition msg_objectiveNetFields :: "netField_t list" where
  "msg_objectiveNetFields = [
    NetField ''origin[0]'' 4 0, NetField ''origin[1]'' 8 0, NetField ''origin[2]'' 12 0,
    NetField ''icon'' 24 12, NetField ''entNum'' 16 10, NetField ''teamNum'' 20 4]"

section \<open>Head-up display elements\<close>

abbreviation HUD_FIELDS :: int where "HUD_FIELDS \<equiv> 30"
abbreviation HUD_DWORDS :: nat where "HUD_DWORDS \<equiv> 31"
abbreviation PLAYERSTATE_HUD_ELEM_COUNT :: nat where "PLAYERSTATE_HUD_ELEM_COUNT \<equiv> 63"

text \<open>The elements before the first of type \<open>HE_TYPE_NONE\<close>; the type is the first dword.\<close>

fun hud_count :: "nat \<Rightarrow> block list \<Rightarrow> nat option" where
  "hud_count 0 es = Some 0"
| "hud_count (Suc n) [] = None"
| "hud_count (Suc n) (e # es) = do {
     type' \<leftarrow> peek e 0;
     if type' = 0 then Some 0 else map_option Suc (hud_count n es) }"

text \<open>The index of the last field that differs, 0 also if none does.\<close>

definition write_hud_elem :: "msg_t \<Rightarrow> block \<Rightarrow> block \<Rightarrow> msg_t option" where
  "write_hud_elem message from' to' = do {
     n \<leftarrow> last_changed 0 from' to' msg_hudElemNetFields 0;
     let lastChanged = n - 1 in do {
     m1 \<leftarrow> MSG_WriteBits message (int lastChanged) 5;
     write_fields m1 from' to' (take (lastChanged + 1) msg_hudElemNetFields) } }"

fun write_hud_elems :: "msg_t \<Rightarrow> nat \<Rightarrow> block list \<Rightarrow> block list \<Rightarrow> msg_t option" where
  "write_hud_elems message 0 from' to' = Some message"
| "write_hud_elems message (Suc n) (f # from') (t # to') = do {
     m1 \<leftarrow> write_hud_elem message f t;
     write_hud_elems m1 n from' to' }"
| "write_hud_elems message (Suc n) _ _ = None"

definition MSG_WriteDeltaHudElems :: "msg_t \<Rightarrow> block list \<Rightarrow> block list \<Rightarrow> nat \<Rightarrow> msg_t option" where
  "MSG_WriteDeltaHudElems message from' to' maxHudElems = do {
     hudElemCount \<leftarrow> hud_count maxHudElems to';
     m1 \<leftarrow> MSG_WriteBits message (int hudElemCount) 6;
     write_hud_elems m1 hudElemCount from' to' }"

definition read_hud_elem :: "msg_t \<Rightarrow> block \<Rightarrow> block \<Rightarrow> (block \<times> msg_t) run" where
  "read_hud_elem message from' to' =
     run_bind (checked (MSG_ReadBits message 5)) (\<lambda>(lastChanged, m1).
       if lastChanged \<ge> HUD_FIELDS then Raise ERR_DROP ''MSG_ReadDeltaHudElems: invalid field index %i''
       else checked (do {
         (to1, m2) \<leftarrow> read_fields m1 from' to' (take (nat lastChanged + 1) msg_hudElemNetFields);
         to2 \<leftarrow> keep_fields from' to1 (drop (nat lastChanged + 1) msg_hudElemNetFields);
         Some (to2, m2) }))"

text \<open>The first \<open>n\<close> elements are read, the rest is left to the caller.\<close>

fun read_hud_elems :: "msg_t \<Rightarrow> nat \<Rightarrow> block list \<Rightarrow> block list \<Rightarrow> (block list \<times> msg_t) run" where
  "read_hud_elems message 0 from' to' = Done ([], message)"
| "read_hud_elems message (Suc n) (f # from') (t # to') =
     run_bind (read_hud_elem message f t) (\<lambda>(t1, m1).
     run_bind (read_hud_elems m1 n from' to') (\<lambda>(ts, m2). Done (t1 # ts, m2)))"
| "read_hud_elems message (Suc n) _ _ = Fault"

definition MSG_ReadDeltaHudElems ::
    "msg_t \<Rightarrow> block list \<Rightarrow> block list \<Rightarrow> nat \<Rightarrow> (block list \<times> msg_t) run" where
  "MSG_ReadDeltaHudElems message from' to' maxHudElems =
     run_bind (checked (MSG_ReadBits message 6)) (\<lambda>(hudElemCount, m1).
     run_bind (read_hud_elems m1 (nat hudElemCount) from' to') (\<lambda>(es, m2).
       if nat hudElemCount \<le> maxHudElems \<and> maxHudElems \<le> length to'
       then Done (es @ replicate (maxHudElems - nat hudElemCount) (replicate HUD_DWORDS 0) @
                  drop maxHudElems to', m2)
       else Fault))"

section \<open>The player state\<close>

record playerState_t =
  ps_head :: block
  ps_objectives :: "block list"
  ps_hudCurrent :: "block list"
  ps_hudArchival :: "block list"
  ps_deltaTime :: int

definition null_state :: playerState_t where
  "null_state = \<lparr>ps_head = replicate 398 0, ps_objectives = replicate 16 (replicate 7 0),
     ps_hudCurrent = replicate PLAYERSTATE_HUD_ELEM_COUNT (replicate HUD_DWORDS 0),
     ps_hudArchival = replicate PLAYERSTATE_HUD_ELEM_COUNT (replicate HUD_DWORDS 0), ps_deltaTime = 0\<rparr>"

abbreviation DELTA_TIME_OFFSET :: int where "DELTA_TIME_OFFSET \<equiv> 17664"

definition ps_member :: "playerState_t \<Rightarrow> netField_t \<Rightarrow> int option" where
  "ps_member ps field =
     (if nf_offset field = DELTA_TIME_OFFSET then Some (ps_deltaTime ps) else member (ps_head ps) field)"

definition set_ps_member :: "playerState_t \<Rightarrow> netField_t \<Rightarrow> int \<Rightarrow> playerState_t option" where
  "set_ps_member ps field v =
     (if nf_offset field = DELTA_TIME_OFFSET then Some (ps\<lparr>ps_deltaTime := v\<rparr>)
      else do { head \<leftarrow> set_member (ps_head ps) field v; Some (ps\<lparr>ps_head := head\<rparr>) })"

text \<open>Unlike \<open>write_changed\<close>, a float and an integer have no bit that says they are zero.\<close>

definition write_ps_changed :: "msg_t \<Rightarrow> int \<Rightarrow> int \<Rightarrow> msg_t option" where
  "write_ps_changed message bits v =
     (if bits = 0 then write_float message v
      else if bits = -100 then
        (if v = 0 then MSG_WriteBit0 message
         else do { m1 \<leftarrow> MSG_WriteBit1 message; MSG_WriteAngle16 m1 v })
      else write_integer message bits v)"

definition coduomp_msg_write_delta_playerstate_field ::
    "msg_t \<Rightarrow> playerState_t \<Rightarrow> playerState_t \<Rightarrow> netField_t \<Rightarrow> msg_t option" where
  "coduomp_msg_write_delta_playerstate_field message from' to' field = do {
     oldValue \<leftarrow> ps_member from' field;
     newValue \<leftarrow> ps_member to' field;
     if oldValue = newValue then MSG_WriteBit0 message
     else do {
       m1 \<leftarrow> MSG_WriteBit1 message;
       write_ps_changed m1 (nf_bits field) newValue } }"

definition read_ps_changed :: "msg_t \<Rightarrow> int \<Rightarrow> (int \<times> msg_t) option" where
  "read_ps_changed message bits =
     (if bits = 0 then read_float message
      else if bits = -100 then do {
        (nonzero, m1) \<leftarrow> MSG_ReadBit message;
        if nonzero = 0 then Some (0, m1) else MSG_ReadAngle16 m1 }
      else read_integer message bits)"

definition coduomp_msg_read_delta_playerstate_field ::
    "msg_t \<Rightarrow> playerState_t \<Rightarrow> playerState_t \<Rightarrow> netField_t \<Rightarrow> (playerState_t \<times> msg_t) option" where
  "coduomp_msg_read_delta_playerstate_field message from' to' field = do {
     (changed, m1) \<leftarrow> MSG_ReadBit message;
     (v, m2) \<leftarrow> (if changed = 0 then do { old \<leftarrow> ps_member from' field; Some (old, m1) }
                 else read_ps_changed m1 (nf_bits field));
     to2 \<leftarrow> set_ps_member to' field v;
     Some (to2, m2) }"

fun ps_last_changed :: "nat \<Rightarrow> playerState_t \<Rightarrow> playerState_t \<Rightarrow> netField_t list \<Rightarrow> nat \<Rightarrow> nat option" where
  "ps_last_changed i from' to' [] n = Some n"
| "ps_last_changed i from' to' (f # fs) n = do {
     oldValue \<leftarrow> ps_member from' f;
     newValue \<leftarrow> ps_member to' f;
     ps_last_changed (Suc i) from' to' fs (if oldValue \<noteq> newValue then Suc i else n) }"

fun write_ps_fields :: "msg_t \<Rightarrow> playerState_t \<Rightarrow> playerState_t \<Rightarrow> netField_t list \<Rightarrow> msg_t option" where
  "write_ps_fields message from' to' [] = Some message"
| "write_ps_fields message from' to' (f # fs) = do {
     m1 \<leftarrow> coduomp_msg_write_delta_playerstate_field message from' to' f;
     write_ps_fields m1 from' to' fs }"

fun read_ps_fields ::
    "msg_t \<Rightarrow> playerState_t \<Rightarrow> playerState_t \<Rightarrow> netField_t list \<Rightarrow> (playerState_t \<times> msg_t) option" where
  "read_ps_fields message from' to' [] = Some (to', message)"
| "read_ps_fields message from' to' (f # fs) = do {
     (to1, m1) \<leftarrow> coduomp_msg_read_delta_playerstate_field message from' to' f;
     read_ps_fields m1 from' to1 fs }"

section \<open>Statistics, ammunition and clips\<close>

text \<open>Bit \<open>i\<close> of the mask is set when element \<open>i\<close> differs.\<close>

fun change_mask :: "int list \<Rightarrow> int list \<Rightarrow> int" where
  "change_mask (a # as) (b # bs) = of_bool (a \<noteq> b) + 2 * change_mask as bs"
| "change_mask _ _ = 0"

abbreviation STATS :: int where "STATS \<equiv> 71"
abbreviation AMMO :: int where "AMMO \<equiv> 77"
abbreviation CLIPS :: int where "CLIPS \<equiv> 205"

definition write_stat :: "nat \<Rightarrow> msg_t \<Rightarrow> int \<Rightarrow> msg_t option" where
  "write_stat statIndex message v =
     (if statIndex = 3 then MSG_WriteBits message v 6
      else if statIndex = 5 then MSG_WriteByte message v
      else MSG_WriteShort message v)"

definition read_stat :: "nat \<Rightarrow> msg_t \<Rightarrow> (int \<times> msg_t) option" where
  "read_stat statIndex message =
     (if statIndex = 3 then MSG_ReadBits message 6
      else if statIndex = 5 then MSG_ReadByte message
      else MSG_ReadShort message)"

text \<open>The elements a mask marks, each with the codec of its index.\<close>

fun write_marked ::
    "(nat \<Rightarrow> msg_t \<Rightarrow> int \<Rightarrow> msg_t option) \<Rightarrow> nat \<Rightarrow> int \<Rightarrow> int list \<Rightarrow> msg_t \<Rightarrow> msg_t option" where
  "write_marked wr i marks [] message = Some message"
| "write_marked wr i marks (v # vs) message = do {
     m1 \<leftarrow> (if odd marks then wr i message v else Some message);
     write_marked wr (Suc i) (marks div 2) vs m1 }"

fun read_marked ::
    "(nat \<Rightarrow> msg_t \<Rightarrow> (int \<times> msg_t) option) \<Rightarrow> nat \<Rightarrow> int \<Rightarrow> int list \<Rightarrow> msg_t \<Rightarrow> (int list \<times> msg_t) option" where
  "read_marked rd i marks [] message = Some ([], message)"
| "read_marked rd i marks (old # olds) message = do {
     (v, m1) \<leftarrow> (if odd marks then rd i message else Some (old, message));
     (vs, m2) \<leftarrow> read_marked rd (Suc i) (marks div 2) olds m1;
     Some (v # vs, m2) }"

definition write_stats :: "msg_t \<Rightarrow> block \<Rightarrow> block \<Rightarrow> msg_t option" where
  "write_stats message from' to' = do {
     olds \<leftarrow> copy_out from' STATS 6;
     news \<leftarrow> copy_out to' STATS 6;
     let statBits = change_mask olds news in
     if statBits = 0 then MSG_WriteBit0 message
     else do {
       m1 \<leftarrow> MSG_WriteBit1 message;
       m2 \<leftarrow> MSG_WriteBits m1 statBits 6;
       write_marked write_stat 0 statBits news m2 } }"

definition read_stats :: "msg_t \<Rightarrow> block \<Rightarrow> (block \<times> msg_t) option" where
  "read_stats message to' = do {
     (changed, m1) \<leftarrow> MSG_ReadBit message;
     if changed = 0 then Some (to', m1)
     else do {
       (statBits, m2) \<leftarrow> MSG_ReadBits m1 6;
       olds \<leftarrow> copy_out to' STATS 6;
       (vs, m3) \<leftarrow> read_marked read_stat 0 statBits olds m2;
       to1 \<leftarrow> copy_in to' STATS vs;
       Some (to1, m3) } }"

text \<open>One group of 16 counters at dword \<open>base\<close>: ammunition and clips have four each.\<close>

definition write_group :: "msg_t \<Rightarrow> int \<Rightarrow> block \<Rightarrow> block \<Rightarrow> msg_t option" where
  "write_group message base from' to' = do {
     olds \<leftarrow> copy_out from' base 16;
     news \<leftarrow> copy_out to' base 16;
     let bits = change_mask olds news in
     if bits = 0 then MSG_WriteBit0 message
     else do {
       m1 \<leftarrow> MSG_WriteBit1 message;
       m2 \<leftarrow> MSG_WriteShort m1 bits;
       write_marked (\<lambda>_. MSG_WriteShort) 0 bits news m2 } }"

definition read_group :: "msg_t \<Rightarrow> int \<Rightarrow> block \<Rightarrow> (block \<times> msg_t) option" where
  "read_group message base to' = do {
     (changed, m1) \<leftarrow> MSG_ReadBit message;
     if changed = 0 then Some (to', m1)
     else do {
       (bits, m2) \<leftarrow> MSG_ReadShort m1;
       olds \<leftarrow> copy_out to' base 16;
       (vs, m3) \<leftarrow> read_marked (\<lambda>_. MSG_ReadShort) 0 bits olds m2;
       to1 \<leftarrow> copy_in to' base vs;
       Some (to1, m3) } }"

fun write_groups :: "msg_t \<Rightarrow> int list \<Rightarrow> block \<Rightarrow> block \<Rightarrow> msg_t option" where
  "write_groups message [] from' to' = Some message"
| "write_groups message (base # bases) from' to' = do {
     m1 \<leftarrow> write_group message base from' to';
     write_groups m1 bases from' to' }"

fun read_groups :: "msg_t \<Rightarrow> int list \<Rightarrow> block \<Rightarrow> (block \<times> msg_t) option" where
  "read_groups message [] to' = Some (to', message)"
| "read_groups message (base # bases) to' = do {
     (to1, m1) \<leftarrow> read_group message base to';
     read_groups m1 bases to1 }"

definition group_bases :: "int \<Rightarrow> int list" where
  "group_bases base = [base, base + 16, base + 32, base + 48]"

text \<open>The ammunition has one more bit in front, clear when none of its 64 counters changed.\<close>

definition write_ammo :: "msg_t \<Rightarrow> block \<Rightarrow> block \<Rightarrow> msg_t option" where
  "write_ammo message from' to' = do {
     olds \<leftarrow> copy_out from' AMMO 64;
     news \<leftarrow> copy_out to' AMMO 64;
     if change_mask olds news = 0 then MSG_WriteBit0 message
     else do {
       m1 \<leftarrow> MSG_WriteBit1 message;
       write_groups m1 (group_bases AMMO) from' to' } }"

definition read_ammo :: "msg_t \<Rightarrow> block \<Rightarrow> (block \<times> msg_t) option" where
  "read_ammo message to' = do {
     (changed, m1) \<leftarrow> MSG_ReadBit message;
     if changed = 0 then Some (to', m1) else read_groups m1 (group_bases AMMO) to' }"

section \<open>Objectives\<close>

fun write_objectives :: "msg_t \<Rightarrow> block list \<Rightarrow> block list \<Rightarrow> msg_t option" where
  "write_objectives message (f # from') (t # to') = do {
     state \<leftarrow> peek t 0;
     m1 \<leftarrow> MSG_WriteBits message state 3;
     m2 \<leftarrow> MSG_WriteDeltaFields m1 f t False msg_objectiveNetFields;
     write_objectives m2 from' to' }"
| "write_objectives message _ _ = Some message"

fun read_objectives :: "msg_t \<Rightarrow> block list \<Rightarrow> block list \<Rightarrow> (block list \<times> msg_t) option" where
  "read_objectives message (f # from') (t # to') = do {
     (state, m1) \<leftarrow> MSG_ReadBits message 3;
     t1 \<leftarrow> poke t 0 state;
     (t2, m2) \<leftarrow> MSG_ReadDeltaFields m1 f t1 msg_objectiveNetFields;
     (ts, m3) \<leftarrow> read_objectives m2 from' to';
     Some (t2 # ts, m3) }"
| "read_objectives message _ to' = Some (to', message)"

section \<open>The whole state\<close>

definition state_base :: "playerState_t option \<Rightarrow> playerState_t" where
  "state_base from' = (case from' of None \<Rightarrow> null_state | Some ps \<Rightarrow> ps)"

definition write_display :: "msg_t \<Rightarrow> playerState_t \<Rightarrow> playerState_t \<Rightarrow> msg_t option" where
  "write_display message from' to' =
     (if ps_hudCurrent from' = ps_hudCurrent to' \<and> ps_hudArchival from' = ps_hudArchival to'
      then MSG_WriteBit0 message
      else do {
        m1 \<leftarrow> MSG_WriteBit1 message;
        m2 \<leftarrow> MSG_WriteDeltaHudElems m1 (ps_hudArchival from') (ps_hudArchival to') PLAYERSTATE_HUD_ELEM_COUNT;
        MSG_WriteDeltaHudElems m2 (ps_hudCurrent from') (ps_hudCurrent to') PLAYERSTATE_HUD_ELEM_COUNT })"

definition MSG_WriteDeltaPlayerstate ::
    "msg_t \<Rightarrow> playerState_t option \<Rightarrow> playerState_t \<Rightarrow> msg_t option" where
  "MSG_WriteDeltaPlayerstate message base to' = (let from' = state_base base in do {
     lastChanged \<leftarrow> ps_last_changed 0 from' to' msg_playerStateNetFields 0;
     m1 \<leftarrow> MSG_WriteByte message (int lastChanged);
     m2 \<leftarrow> write_ps_fields m1 from' to' (take lastChanged msg_playerStateNetFields);
     m3 \<leftarrow> write_stats m2 (ps_head from') (ps_head to');
     m4 \<leftarrow> write_ammo m3 (ps_head from') (ps_head to');
     m5 \<leftarrow> write_groups m4 (group_bases CLIPS) (ps_head from') (ps_head to');
     m6 \<leftarrow> (if ps_objectives from' = ps_objectives to' then MSG_WriteBit0 m5
            else do { m \<leftarrow> MSG_WriteBit1 m5; write_objectives m (ps_objectives from') (ps_objectives to') });
     write_display m6 from' to' })"

text \<open>The eight slot bytes lie in two dwords, the least significant byte first.\<close>

definition dword_bytes :: "int \<Rightarrow> int list" where
  "dword_bytes v = map (\<lambda>k. i8 (v div 256 ^ k)) [0..<4]"

definition check_state :: "playerState_t \<Rightarrow> msg_t \<Rightarrow> (playerState_t \<times> msg_t) run" where
  "check_state ps message =
     run_bind (checked (peek (ps_head ps) 367)) (\<lambda>viewLockedEntityNum.
       if u32 viewLockedEntityNum \<ge> 1024
       then Raise ERR_DROP ''MSG_ReadDeltaPlayerstate: invalid view-lock entity %i''
       else run_bind (checked (copy_out (ps_head ps) 337 2)) (\<lambda>weaponSlots.
         if list_ex (\<lambda>slot. slot < 0) (concat (map dword_bytes weaponSlots))
         then Raise ERR_DROP ''MSG_ReadDeltaPlayerstate: invalid weapon %i in slot %i''
         else run_bind (checked (peek (ps_head ps) 389)) (\<lambda>vehiclePosition.
           if vehiclePosition < 0 \<or> vehiclePosition \<ge> 7
           then Raise ERR_DROP ''MSG_ReadDeltaPlayerstate: invalid vehicle position %i''
           else Done (ps, message))))"

definition read_display :: "msg_t \<Rightarrow> playerState_t \<Rightarrow> playerState_t \<Rightarrow> (playerState_t \<times> msg_t) run" where
  "read_display message from' to' =
     run_bind (checked (MSG_ReadBit message)) (\<lambda>(changed, m1).
       if changed = 0 then Done (to', m1)
       else run_bind (MSG_ReadDeltaHudElems m1 (ps_hudArchival from') (ps_hudArchival to')
                        PLAYERSTATE_HUD_ELEM_COUNT) (\<lambda>(archival, m2).
            run_bind (MSG_ReadDeltaHudElems m2 (ps_hudCurrent from') (ps_hudCurrent to')
                        PLAYERSTATE_HUD_ELEM_COUNT) (\<lambda>(current, m3).
              Done (to'\<lparr>ps_hudArchival := archival, ps_hudCurrent := current\<rparr>, m3))))"

text \<open>The counters and the objectives, which no check interrupts.\<close>

definition read_arrays :: "msg_t \<Rightarrow> playerState_t \<Rightarrow> playerState_t \<Rightarrow> (playerState_t \<times> msg_t) option" where
  "read_arrays message from' to' = do {
     (head1, m1) \<leftarrow> read_stats message (ps_head to');
     (head2, m2) \<leftarrow> read_ammo m1 head1;
     (head3, m3) \<leftarrow> read_groups m2 (group_bases CLIPS) head2;
     (changed, m4) \<leftarrow> MSG_ReadBit m3;
     (objectives, m5) \<leftarrow> (if changed = 0 then Some (ps_objectives to', m4)
                          else read_objectives m4 (ps_objectives from') (ps_objectives to'));
     Some (to'\<lparr>ps_head := head3, ps_objectives := objectives\<rparr>, m5) }"

definition MSG_ReadDeltaPlayerstate :: "msg_t \<Rightarrow> playerState_t option \<Rightarrow> (playerState_t \<times> msg_t) run" where
  "MSG_ReadDeltaPlayerstate message base = (let from' = state_base base in
     run_bind (checked (MSG_ReadByte message)) (\<lambda>(lastChanged, m1).
       if lastChanged < 0 \<or> lastChanged > int (length msg_playerStateNetFields)
       then Raise ERR_DROP ''MSG_ReadDeltaPlayerstate: invalid field count %i''
       else run_bind (checked (do {
              (to1, m2) \<leftarrow> read_ps_fields m1 from' from' (take (nat lastChanged) msg_playerStateNetFields);
              read_arrays m2 from' to1 })) (\<lambda>(to2, m3).
            run_bind (read_display m3 from' to2) (\<lambda>(to3, m4).
            check_state to3 m4))))"

section \<open>The command a player starts with\<close>

abbreviation PM_BUTTON_SPRINT :: int where "PM_BUTTON_SPRINT \<equiv> 8"
abbreviation PM_BUTTON_ADS :: int where "PM_BUTTON_ADS \<equiv> 16"
abbreviation PM_WBUTTON_LEAN_LEFT :: int where "PM_WBUTTON_LEAN_LEFT \<equiv> 16"
abbreviation PM_WBUTTON_LEAN_RIGHT :: int where "PM_WBUTTON_LEAN_RIGHT \<equiv> 32"
abbreviation PM_WBUTTON_PRONE :: int where "PM_WBUTTON_PRONE \<equiv> 64"
abbreviation PM_WBUTTON_CROUCH :: int where "PM_WBUTTON_CROUCH \<equiv> 128"

definition default_angle :: "block \<Rightarrow> int \<Rightarrow> int option" where
  "default_angle head axis = do {
     viewAngle \<leftarrow> peek head (58 + axis);
     deltaAngle \<leftarrow> peek head (19 + axis);
     let negativeEncodedAngle = i32 (- float_to_i32 viewAngle 11930465 16) in
     Some (i32 (- deltaAngle - negativeEncodedAngle) AND 65535) }"

definition default_buttons :: "int \<Rightarrow> int \<Rightarrow> int" where
  "default_buttons flags adsFraction =
     (if float_eq adsFraction 0 then 0 else PM_BUTTON_ADS) OR
     (if flags AND 0x10000 \<noteq> 0 then PM_BUTTON_SPRINT else 0)"

definition default_wbuttons :: "int \<Rightarrow> int \<Rightarrow> int" where
  "default_wbuttons entityFlags leanFraction =
     (if entityFlags AND 0x40 \<noteq> 0 then PM_WBUTTON_PRONE
      else if entityFlags AND 0x20 \<noteq> 0 then PM_WBUTTON_CROUCH else 0) OR
     (if float_positive leanFraction then PM_WBUTTON_LEAN_RIGHT
      else if float_negative leanFraction then PM_WBUTTON_LEAN_LEFT else 0)"

definition MSG_SetDefaultUserCmd :: "playerState_t \<Rightarrow> usercmd_t option" where
  "MSG_SetDefaultUserCmd playerState = (let head = ps_head playerState in do {
     weapon \<leftarrow> peek head 54;
     a0 \<leftarrow> default_angle head 0;
     a1 \<leftarrow> default_angle head 1;
     flags \<leftarrow> peek head 3;
     entityFlags \<leftarrow> peek head 33;
     leanFraction \<leftarrow> peek head 17;
     adsFraction \<leftarrow> peek head 56;
     let command = \<lparr>uc_commandTime = 0, uc_buttons = 0, uc_wbuttons = 0, uc_weapon = u8 weapon,
                    uc_angles = [a0, a1, 0], uc_forwardmove = 0, uc_rightmove = 0, uc_upmove = 0\<rparr> in
     Some (if flags AND 0x80000 = 0 then command
           else command\<lparr>uc_buttons := default_buttons flags adsFraction,
                        uc_wbuttons := default_wbuttons entityFlags leanFraction,
                        uc_upmove := (if entityFlags AND 0x60 \<noteq> 0 then -127 else 0)\<rparr>) })"

end
