(* ===== verification/SvSnapshot.thy ===== *)
theory SvSnapshot
  imports ServerTypes DeltaPlayer
begin

text \<open>
  \<open>src/server/engine/server_snapshot_send.c\<close>: a snapshot is the difference between two frames of
  a client. A frame keeps its player state and two windows, (first, count), into rings that all
  clients share, one of entity states and one of client states; both windows are sorted by number.
  The fields of \<open>client_t\<close> that only this file uses stand beside the client in
  \<open>snapshot_client\<close>.
\<close>

record clientSnapshot_t =
  sf_playerState :: playerState_t
  sf_numEntities :: int
  sf_numClients :: int
  sf_firstEntity :: int
  sf_firstClient :: int
  sf_messageSentTime :: int
  sf_messageAcknowledgedTime :: int
  sf_messageSize :: int

record snapshot_client =
  sn_client :: client_t
  sn_sendAsActive :: bool
  sn_lastClientCommand :: int
  sn_deltaMessage :: int
  sn_nextSnapshotTime :: int
  sn_rateDelayed :: bool
  sn_snapshotFrames :: "clientSnapshot_t list"

text \<open>\<open>svs\<close>, the baselines of \<open>sv_entities\<close>, and the cvars.\<close>

record serverStatic_t =
  svs_time :: int
  svs_realTime :: int
  svs_snapFlagServerBit :: int
  svs_numEntityStateSnapshots :: int
  svs_numClientSnapshots :: int
  svs_nextEntityStateSnapshot :: int
  svs_nextClientSnapshot :: int
  svs_entityStateSnapshots :: "block list"
  svs_clientSnapshots :: "block list"
  sv_baselines :: "block list"
  sv_padPackets :: int
  sv_maxRate :: int

abbreviation SERVER_CLIENT_SNAPSHOT_FRAME_COUNT :: int where "SERVER_CLIENT_SNAPSHOT_FRAME_COUNT \<equiv> 32"
abbreviation SV_PACKET_END_SORT_KEY :: int where "SV_PACKET_END_SORT_KEY \<equiv> 9999"
abbreviation SV_SNAPSHOT_ENTITY_NUMBER_BITS :: int where "SV_SNAPSHOT_ENTITY_NUMBER_BITS \<equiv> 10"
abbreviation SV_SNAPSHOT_ENTITY_END_NUMBER :: int where "SV_SNAPSHOT_ENTITY_END_NUMBER \<equiv> 1023"
abbreviation SV_SNAPSHOT_MAX_DELTA_FRAMES :: int where "SV_SNAPSHOT_MAX_DELTA_FRAMES \<equiv> 28"
abbreviation SERVER_SVC_SNAPSHOT :: int where "SERVER_SVC_SNAPSHOT \<equiv> 7"

section \<open>The merge of two windows\<close>

text \<open>
  \<open>ring[index % size]\<close>, and the loop that both emitters have: it walks the old and the new window
  by number and calls one of three writers, for a record in both, a new one and one that is gone.
  The number is the first dword of a record; a window that is exhausted has the sort key, and its
  record is \<open>NULL\<close>. The loop ends when both are exhausted, which it only reaches if every number
  is below the sort key, so it is a partial function.
\<close>

definition ring_at :: "block list \<Rightarrow> int \<Rightarrow> int \<Rightarrow> block option" where
  "ring_at ring size' index = (if size' = 0 then None else peek ring (index smod size'))"

definition window_record :: "block list \<Rightarrow> int \<Rightarrow> int \<Rightarrow> int \<Rightarrow> int \<Rightarrow> block option option" where
  "window_record ring size' number first index =
     (if index < number then map_option Some (ring_at ring size' (i32 (index + first))) else Some None)"

definition sort_key :: "block option \<Rightarrow> int option" where
  "sort_key record' = (case record' of None \<Rightarrow> Some SV_PACKET_END_SORT_KEY | Some b \<Rightarrow> peek b 0)"

record record_writers =
  rw_changed :: "block option \<Rightarrow> block option \<Rightarrow> msg_t \<Rightarrow> msg_t option"
  rw_new :: "int \<Rightarrow> block option \<Rightarrow> msg_t \<Rightarrow> msg_t option"
  rw_gone :: "block option \<Rightarrow> msg_t \<Rightarrow> msg_t option"

partial_function (option) emit_records ::
    "record_writers \<Rightarrow> (int \<Rightarrow> block option option) \<Rightarrow> int \<Rightarrow> (int \<Rightarrow> block option option) \<Rightarrow> int \<Rightarrow>
     int \<Rightarrow> int \<Rightarrow> msg_t \<Rightarrow> msg_t option" where
  "emit_records writers oldAt oldNumber newAt newNumber oldIndex newIndex message =
     (if newIndex < newNumber \<or> oldIndex < oldNumber then do {
        new \<leftarrow> newAt newIndex;
        newKey \<leftarrow> sort_key new;
        old \<leftarrow> oldAt oldIndex;
        oldKey \<leftarrow> sort_key old;
        if newKey = oldKey then do {
          m1 \<leftarrow> rw_changed writers old new message;
          emit_records writers oldAt oldNumber newAt newNumber (oldIndex + 1) (newIndex + 1) m1 }
        else if newKey < oldKey then do {
          m1 \<leftarrow> rw_new writers newKey new message;
          emit_records writers oldAt oldNumber newAt newNumber oldIndex (newIndex + 1) m1 }
        else do {
          m1 \<leftarrow> rw_gone writers old message;
          emit_records writers oldAt oldNumber newAt newNumber (oldIndex + 1) newIndex m1 } }
      else Some message)"

definition entity_writers :: "block list \<Rightarrow> record_writers" where
  "entity_writers baselines = \<lparr>
     rw_changed = (\<lambda>old new message. do { a \<leftarrow> old; MSG_WriteDeltaEntity message a new False }),
     rw_new = (\<lambda>number new message. do { a \<leftarrow> peek baselines number; MSG_WriteDeltaEntity message a new True }),
     rw_gone = (\<lambda>old message. do { a \<leftarrow> old; MSG_WriteDeltaEntity message a None True })\<rparr>"

definition SV_EmitPacketEntities :: "serverStatic_t \<Rightarrow> int \<Rightarrow> int \<Rightarrow> int \<Rightarrow> int \<Rightarrow> msg_t \<Rightarrow> msg_t option" where
  "SV_EmitPacketEntities svs oldNumEntities oldFirstEntity newNumEntities newFirstEntity message =
     (let at = window_record (svs_entityStateSnapshots svs) (svs_numEntityStateSnapshots svs) in do {
      m1 \<leftarrow> emit_records (entity_writers (sv_baselines svs)) (at oldNumEntities oldFirstEntity) oldNumEntities
             (at newNumEntities newFirstEntity) newNumEntities 0 0 message;
      MSG_WriteBits m1 SV_SNAPSHOT_ENTITY_END_NUMBER SV_SNAPSHOT_ENTITY_NUMBER_BITS })"

definition client_writers :: record_writers where
  "client_writers = \<lparr>
     rw_changed = (\<lambda>old new message. MSG_WriteDeltaClient message old new False),
     rw_new = (\<lambda>number new message. MSG_WriteDeltaClient message None new True),
     rw_gone = (\<lambda>old message. MSG_WriteDeltaClient message old None True)\<rparr>"

definition SV_EmitPacketClients :: "serverStatic_t \<Rightarrow> int \<Rightarrow> int \<Rightarrow> int \<Rightarrow> int \<Rightarrow> msg_t \<Rightarrow> msg_t option" where
  "SV_EmitPacketClients svs oldNumClients oldFirstClient newNumClients newFirstClient message =
     (let at = window_record (svs_clientSnapshots svs) (svs_numClientSnapshots svs) in do {
      m1 \<leftarrow> emit_records client_writers (at oldNumClients oldFirstClient) oldNumClients
             (at newNumClients newFirstClient) newNumClients 0 0 message;
      MSG_WriteBit0 m1 })"

section \<open>A snapshot\<close>

definition frame_slot :: "int \<Rightarrow> int" where
  "frame_slot sequence = sequence AND (SERVER_CLIENT_SNAPSHOT_FRAME_COUNT - 1)"

text \<open>The frame the snapshot is a difference from, and how many messages ago it was sent.\<close>

definition delta_base :: "serverStatic_t \<Rightarrow> snapshot_client \<Rightarrow> (clientSnapshot_t option \<times> int) option" where
  "delta_base svs client =
     (if sn_deltaMessage client > 0 \<and> c_state (sn_client client) = CS_ACTIVE then
        let requested = i32 (n_outgoingSequence (c_netchan (sn_client client)) - sn_deltaMessage client) in
        if requested \<le> SV_SNAPSHOT_MAX_DELTA_FRAMES then do {
          oldFrame \<leftarrow> peek (sn_snapshotFrames client) (frame_slot (sn_deltaMessage client));
          if sf_firstEntity oldFrame < i32 (svs_nextEntityStateSnapshot svs - svs_numEntityStateSnapshots svs)
          then Some (None, 0) else Some (Some oldFrame, requested) }
        else Some (None, 0)
      else Some (None, 0))"

definition send_as_active :: "snapshot_client \<Rightarrow> bool" where
  "send_as_active client =
     (if c_state (sn_client client) = CS_ACTIVE then True
      else if c_state (sn_client client) \<noteq> CS_ZOMBIE then False
      else sn_sendAsActive client)"

definition snapshot_flags :: "serverStatic_t \<Rightarrow> snapshot_client \<Rightarrow> int" where
  "snapshot_flags svs client =
     (let flags = (if sn_rateDelayed client then svs_snapFlagServerBit svs OR 1 else svs_snapFlagServerBit svs) in
      if sn_sendAsActive client then flags else flags OR 2)"

fun pad_packets :: "nat \<Rightarrow> msg_t \<Rightarrow> msg_t option" where
  "pad_packets 0 message = Some message"
| "pad_packets (Suc n) message = do {
     m1 \<leftarrow> MSG_WriteByte message 1;
     pad_packets n m1 }"

definition write_frame ::
    "serverStatic_t \<Rightarrow> clientSnapshot_t option \<Rightarrow> clientSnapshot_t \<Rightarrow> msg_t \<Rightarrow> msg_t option" where
  "write_frame svs oldFrame newFrame message = do {
     m1 \<leftarrow> MSG_WriteDeltaPlayerstate message (map_option sf_playerState oldFrame) (sf_playerState newFrame);
     m2 \<leftarrow> (case oldFrame of
              None \<Rightarrow> SV_EmitPacketEntities svs 0 0 (sf_numEntities newFrame) (sf_firstEntity newFrame) m1
            | Some f \<Rightarrow> SV_EmitPacketEntities svs (sf_numEntities f) (sf_firstEntity f)
                (sf_numEntities newFrame) (sf_firstEntity newFrame) m1);
     (case oldFrame of
        None \<Rightarrow> SV_EmitPacketClients svs 0 0 (sf_numClients newFrame) (sf_firstClient newFrame) m2
      | Some f \<Rightarrow> SV_EmitPacketClients svs (sf_numClients f) (sf_firstClient f)
          (sf_numClients newFrame) (sf_firstClient newFrame) m2) }"

definition SV_WriteSnapshotToClient ::
    "serverStatic_t \<Rightarrow> snapshot_client \<Rightarrow> msg_t \<Rightarrow> (snapshot_client \<times> msg_t) option" where
  "SV_WriteSnapshotToClient svs client message = do {
     newFrame \<leftarrow> peek (sn_snapshotFrames client) (frame_slot (n_outgoingSequence (c_netchan (sn_client client))));
     (oldFrame, deltaFrame) \<leftarrow> delta_base svs client;
     m1 \<leftarrow> MSG_WriteByte message SERVER_SVC_SNAPSHOT;
     m2 \<leftarrow> MSG_WriteLong m1 (svs_time svs);
     m3 \<leftarrow> MSG_WriteByte m2 deltaFrame;
     let client1 = client\<lparr>sn_sendAsActive := send_as_active client\<rparr>;
     m4 \<leftarrow> MSG_WriteByte m3 (snapshot_flags svs client1);
     m5 \<leftarrow> write_frame svs oldFrame newFrame m4;
     m6 \<leftarrow> pad_packets (nat (sv_padPackets svs)) m5;
     Some (client1, m6) }"

end
