(* ===== verification/SvCommands.thy ===== *)
theory SvCommands
  imports ServerTypes
begin

text \<open>
  The server's reliable commands: \<open>src/server/engine/server_commands.c\<close> and
  \<open>MSG_WriteReliableCommandToBuffer\<close> of \<open>qcommon/msg_delta.c\<close>. A client holds 64 command slots;
  sequence numbers up to \<open>reliableAcknowledge\<close> have been received, those up to \<open>reliableSent\<close>
  have been sent, those up to \<open>reliableSequence\<close> wait. The variadic entry point is modelled from
  its formatted text on. A string function that would read behind a terminator is \<open>None\<close>.
\<close>

section \<open>Text\<close>

fun expand_newlines :: "string \<Rightarrow> string \<Rightarrow> string" where
  "expand_newlines [] out = out"
| "expand_newlines (c # cs) out =
     (if \<not> length out < 1021 then out
      else if c = CHR 0x0A then expand_newlines cs (out @ [CHR 0x5C, CHR ''n''])
      else if c = CHR 0x14 \<or> c = CHR 0x15 then expand_newlines cs out
      else expand_newlines cs (out @ [c]))"

definition SV_ExpandNewlines :: "string \<Rightarrow> string" where
  "SV_ExpandNewlines input = expand_newlines input []"

fun SV_IsFirstTokenEqual :: "string \<Rightarrow> string \<Rightarrow> bool" where
  "SV_IsFirstTokenEqual (l # left) (r # right) =
     (if r \<noteq> CHR '' '' \<and> l \<noteq> CHR '' '' then
        (if r \<noteq> l then False else SV_IsFirstTokenEqual left right)
      else r = CHR '' '' \<and> l = CHR '' '')"
| "SV_IsFirstTokenEqual [] (r # right) \<longleftrightarrow> r = CHR '' ''"
| "SV_IsFirstTokenEqual (l # left) [] \<longleftrightarrow> l = CHR '' ''"
| "SV_IsFirstTokenEqual [] [] = True"

definition command_character :: "char \<Rightarrow> char" where
  "command_character c =
     (let b = uint (byte_of c);
          b1 = (if b = 146 then 39 else if b > 127 then 46 else b) in
      char_of (if b1 = 37 then 46 else b1))"

definition MSG_WriteReliableCommandToBuffer :: "string \<Rightarrow> string \<Rightarrow> int \<Rightarrow> string option" where
  "MSG_WriteReliableCommandToBuffer input output outputSize =
     (if outputSize \<le> 0 then Some output
      else let text = map command_character (take (nat outputSize) input) in
      if int (length input) < outputSize then copy_in output 0 (text @ [NUL])
      else do {
        o1 \<leftarrow> copy_in output 0 text;
        poke o1 (outputSize - 1) NUL })"

section \<open>Replacing a waiting command\<close>

definition behind :: "string \<Rightarrow> nat \<Rightarrow> string option" where
  "behind s n = (if n \<le> length s then Some (drop n s) else None)"

text \<open>Whether the command replaces the pending one, \<open>None\<close> if the comparison leaves a string.\<close>

definition replaces :: "string \<Rightarrow> serverReliableCommand_t \<Rightarrow> bool option" where
  "replaces command pending =
     (let text = cstr_of (rc_commandText pending); commandType = first_char command in
      if \<not> rc_reliable pending \<or> commandType \<noteq> first_char text \<or>
         (120 \<le> commandType \<and> commandType \<le> 122)
      then Some False
      else do {
        c1 \<leftarrow> behind command 1;
        p1 \<leftarrow> behind text 1;
        if c1 = p1 then Some True
        else if commandType \<in> {97, 98, 111, 112, 113, 114, 116} then Some True
        else if commandType \<in> {100, 118} then do {
          p2 \<leftarrow> behind text 2;
          c2 \<leftarrow> behind command 2;
          Some (SV_IsFirstTokenEqual p2 c2) }
        else Some False })"

fun find_replaceable :: "serverReliableCommand_t list \<Rightarrow> string \<Rightarrow> int list \<Rightarrow> int option" where
  "find_replaceable commands command [] = Some (-1)"
| "find_replaceable commands command (sequence # rest) = do {
     r \<leftarrow> replaces command (commands ! ring_slot sequence);
     if r then Some sequence else find_replaceable commands command rest }"

definition SV_CanReplaceServerCommand :: "client_t \<Rightarrow> string \<Rightarrow> int option" where
  "SV_CanReplaceServerCommand client command =
     find_replaceable (c_reliableCommands client) command
       [c_reliableSent client + 1 .. c_reliableSequence client]"

section \<open>Culling\<close>

fun cull_commands :: "int list \<Rightarrow> serverReliableCommand_t list \<Rightarrow> int \<Rightarrow> serverReliableCommand_t list \<times> int" where
  "cull_commands [] commands compact = (commands, compact)"
| "cull_commands (read # rest) commands compact =
     (let source = commands ! ring_slot read in
      if \<not> rc_reliable source then cull_commands rest commands compact
      else cull_commands rest (commands[ring_slot compact := source]) (compact + 1))"

definition SV_CullIgnorableServerCommands :: "client_t \<Rightarrow> client_t" where
  "SV_CullIgnorableServerCommands client =
     (case cull_commands [c_reliableSent client + 1 .. c_reliableSequence client]
             (c_reliableCommands client) (c_reliableSent client + 1) of
        (commands, compact) \<Rightarrow>
          client\<lparr>c_reliableCommands := commands, c_reliableSequence := compact - 1\<rparr>)"

section \<open>Adding a command\<close>

fun shift_commands :: "int list \<Rightarrow> serverReliableCommand_t list \<Rightarrow> serverReliableCommand_t list" where
  "shift_commands [] commands = commands"
| "shift_commands (next' # rest) commands =
     shift_commands rest (commands[ring_slot (next' - 1) := commands ! ring_slot next'])"

definition make_room :: "client_t \<Rightarrow> int \<Rightarrow> client_t" where
  "make_room client sequence =
     (if sequence < 0 then client\<lparr>c_reliableSequence := i32 (c_reliableSequence client + 1)\<rparr>
      else client\<lparr>c_reliableCommands :=
             shift_commands [sequence + 1 .. c_reliableSequence client] (c_reliableCommands client)\<rparr>)"

text \<open>Whether a \<open>disconnect\<close> packet goes out is the second result.\<close>

definition store_command :: "int \<Rightarrow> bool \<Rightarrow> string \<Rightarrow> client_t \<Rightarrow> (client_t \<times> bool) option" where
  "store_command realTime reliable command client =
     (let overflow = (i32 (c_reliableSequence client - c_reliableAcknowledge client) = 65);
          client1 = (if overflow \<and> c_state client \<noteq> CS_ZOMBIE \<and> c_deferredDropReason client = None
                     then client\<lparr>c_deferredDropReason := Some ''EXE_SERVERCOMMANDOVERFLOW''\<rparr> else client);
          slot = ring_slot (c_reliableSequence client1) in do {
        buffer \<leftarrow> MSG_WriteReliableCommandToBuffer
            (if overflow then ''w \"EXE_SERVERCOMMANDOVERFLOW\"'' else command)
            (rc_commandText (c_reliableCommands client1 ! slot)) MAX_STRING_CHARS;
        Some (client1\<lparr>c_reliableCommands := (c_reliableCommands client1)[slot :=
                \<lparr>rc_commandText = buffer, rc_enqueueTime = realTime, rc_reliable = reliable \<or> overflow\<rparr>]\<rparr>,
              overflow) })"

definition SV_AddServerCommand :: "int \<Rightarrow> client_t \<Rightarrow> bool \<Rightarrow> string \<Rightarrow> (client_t \<times> bool) option" where
  "SV_AddServerCommand realTime client reliable command =
     (if c_isTestClient client then Some (client, False)
      else let
        busy = (i32 (c_reliableSequence client - c_reliableAcknowledge client) \<ge> 32 \<or> c_state client \<noteq> CS_ACTIVE);
        client1 = (if busy then SV_CullIgnorableServerCommands client else client) in
      if busy \<and> \<not> reliable then Some (client1, False)
      else do {
        sequence \<leftarrow> SV_CanReplaceServerCommand client1 command;
        store_command realTime reliable command (make_room client1 sequence) })"

text \<open>
  \<open>SV_SendServerCommand\<close> on the formatted command; \<open>None\<close> as the client index is the broadcast
  to everyone past \<open>CS_PRIMED\<close>.
\<close>

fun broadcast :: "int \<Rightarrow> bool \<Rightarrow> string \<Rightarrow> client_t list \<Rightarrow> (client_t list \<times> bool list) option" where
  "broadcast realTime reliable command [] = Some ([], [])"
| "broadcast realTime reliable command (c # cs) = do {
     (c', d) \<leftarrow> (if state_value (c_state c) \<ge> state_value CS_PRIMED
                then SV_AddServerCommand realTime c reliable command else Some (c, False));
     (cs', ds) \<leftarrow> broadcast realTime reliable command cs;
     Some (c' # cs', d # ds) }"

definition SV_SendServerCommand ::
    "int \<Rightarrow> client_t list \<Rightarrow> nat option \<Rightarrow> bool \<Rightarrow> string \<Rightarrow> (client_t list \<times> bool list) option" where
  "SV_SendServerCommand realTime clients target reliable command =
     (if length command \<ge> 32768 then Some (clients, map (\<lambda>_. False) clients)
      else case target of
        Some n \<Rightarrow> do {
          client \<leftarrow> peek clients (int n);
          (client', d) \<leftarrow> SV_AddServerCommand realTime client reliable command;
          Some (clients[n := client'], (map (\<lambda>_. False) clients)[n := d]) }
      | None \<Rightarrow> broadcast realTime reliable command clients)"

section \<open>Sending\<close>

definition write_command :: "client_t \<Rightarrow> int \<Rightarrow> msg_t \<Rightarrow> msg_t option" where
  "write_command client sequence message = do {
     m1 \<leftarrow> MSG_WriteByte message SERVER_SVC_SERVER_COMMAND;
     m2 \<leftarrow> MSG_WriteLong m1 sequence;
     MSG_WriteString m2 (Some (cstr_of (rc_commandText (c_reliableCommands client ! ring_slot sequence)))) }"

fun write_commands :: "client_t \<Rightarrow> int list \<Rightarrow> msg_t \<Rightarrow> msg_t option" where
  "write_commands client [] message = Some message"
| "write_commands client (sequence # rest) message = do {
     m1 \<leftarrow> write_command client sequence message;
     write_commands client rest m1 }"

definition SV_UpdateServerCommandsToClient :: "client_t \<Rightarrow> msg_t \<Rightarrow> (client_t \<times> msg_t) option" where
  "SV_UpdateServerCommandsToClient client message = do {
     m1 \<leftarrow> write_commands client [c_reliableAcknowledge client + 1 .. c_reliableSequence client] message;
     Some (client\<lparr>c_reliableSent := c_reliableSequence client\<rparr>, m1) }"

text \<open>The loop returns the last sequence number it has written.\<close>

fun write_fitting :: "client_t \<Rightarrow> int \<Rightarrow> int list \<Rightarrow> int \<Rightarrow> msg_t \<Rightarrow> (int \<times> msg_t) option" where
  "write_fitting client maxBytes [] written message = Some (written, message)"
| "write_fitting client maxBytes (sequence # rest) written message =
     (let command = cstr_of (rc_commandText (c_reliableCommands client ! ring_slot sequence));
          commandBytes = int (length command) + 6 in
      if i32 (m_cursize message + commandBytes) \<ge> maxBytes then Some (written, message)
      else do {
        m1 \<leftarrow> write_command client sequence message;
        write_fitting client maxBytes rest sequence m1 })"

definition SV_UpdateServerCommandsToClient_PreventOverflow ::
    "client_t \<Rightarrow> msg_t \<Rightarrow> int \<Rightarrow> (client_t \<times> msg_t) option" where
  "SV_UpdateServerCommandsToClient_PreventOverflow client message maxBytes = do {
     (sequence, m1) \<leftarrow> write_fitting client maxBytes
        [c_reliableAcknowledge client + 1 .. c_reliableSequence client] (c_reliableAcknowledge client) message;
     Some (if sequence > c_reliableSent client then client\<lparr>c_reliableSent := sequence\<rparr> else client, m1) }"

end
