(* ===== verification/FsPath.thy ===== *)
theory FsPath
  imports QString
begin

text \<open>
  Names and paths of the file system: \<open>filesystem_path_security.c\<close>, \<open>filesystem_path_build.c\<close>,
  \<open>filesystem_path_order.c\<close>, the name functions of \<open>filesystem_compare.c\<close>,
  \<open>filesystem_lookup.c\<close> and the pak names of \<open>filesystem_pure.c\<close>. Paths are nulfree character
  lists; \<open>hostSeparator\<close> is \<open>FS_HOST_PATH_SEPARATOR\<close>, a slash or, on Windows, a backslash.
\<close>

abbreviation slash :: char where "slash \<equiv> CHR ''/''"
abbreviation back_slash :: char where "back_slash \<equiv> CHR 0x5C"
abbreviation MAX_QPATH :: int where "MAX_QPATH \<equiv> 64"
abbreviation MAX_OSPATH :: int where "MAX_OSPATH \<equiv> 1024"

section \<open>Confinement\<close>

definition coduo_compat_is_path_separator :: "char \<Rightarrow> bool" where
  "coduo_compat_is_path_separator character \<longleftrightarrow> character = slash \<or> character = back_slash"

definition dot_component :: "string \<Rightarrow> bool" where
  "dot_component component \<longleftrightarrow> component = ''.'' \<or> component = ''..''"

text \<open>The loop over the characters; \<open>component\<close> is the text since the last separator.\<close>

fun safe_components :: "string \<Rightarrow> string \<Rightarrow> bool" where
  "safe_components component [] = (if component = [] then True else \<not> dot_component component)"
| "safe_components component (character # rest) =
     (if character = CHR '':'' then False
      else if \<not> coduo_compat_is_path_separator character then safe_components (component @ [character]) rest
      else if component = [] then False
      else if dot_component component then False
      else safe_components [] rest)"

text \<open>At the NUL an empty component is accepted behind the first character: the path is not empty.\<close>

definition coduo_compat_path_is_safe_relative :: "string option \<Rightarrow> bool" where
  "coduo_compat_path_is_safe_relative path =
     (case path of
        None \<Rightarrow> False
      | Some [] \<Rightarrow> False
      | Some (c # cs) \<Rightarrow> if coduo_compat_is_path_separator c then False else safe_components [] (c # cs))"

definition coduo_compat_path_is_pk3 :: "string option \<Rightarrow> bool" where
  "coduo_compat_path_is_pk3 path =
     (case path of
        None \<Rightarrow> False
      | Some p \<Rightarrow>
          if length p < 4 then False
          else let extension = drop (length p - 4) p in
            extension ! 0 = CHR ''.'' \<and> extension ! 1 \<in> {CHR ''p'', CHR ''P''} \<and>
            extension ! 2 \<in> {CHR ''k'', CHR ''K''} \<and> extension ! 3 = CHR ''3'')"

section \<open>Building host paths\<close>

definition FS_ReplaceSeparators :: "char \<Rightarrow> string \<Rightarrow> string" where
  "FS_ReplaceSeparators hostSeparator path =
     map (\<lambda>c. if c = slash \<or> c = back_slash then hostSeparator else c) path"

definition FS_ConvertPath :: "string \<Rightarrow> string" where
  "FS_ConvertPath path = map (\<lambda>c. if c = back_slash \<or> c = CHR '':'' then slash else c) path"

definition FS_BuildOSPath_Internal ::
    "char \<Rightarrow> string \<Rightarrow> string \<Rightarrow> string option \<Rightarrow> string \<Rightarrow> bool \<Rightarrow> string run" where
  "FS_BuildOSPath_Internal hostSeparator fs_currentGameDir base game qpath quiet =
     (let gameDir = (case game of None \<Rightarrow> fs_currentGameDir | Some [] \<Rightarrow> fs_currentGameDir | Some g \<Rightarrow> g);
          pathLength = i32 (int (length base) + int (length gameDir) + int (length qpath) + 2) in
      if pathLength \<ge> MAX_OSPATH
      then (if quiet then Done [] else Raise ERR_FATAL ''FS_BuildOSPath: os path length exceeded'')
      else Done (base @ FS_ReplaceSeparators hostSeparator (slash # gameDir @ slash # qpath)))"

definition FS_BuildOSPath :: "char \<Rightarrow> string \<Rightarrow> string \<Rightarrow> string option \<Rightarrow> string \<Rightarrow> string run" where
  "FS_BuildOSPath hostSeparator fs_currentGameDir base game qpath =
     FS_BuildOSPath_Internal hostSeparator fs_currentGameDir base game qpath False"

fun strstr :: "string \<Rightarrow> string \<Rightarrow> string option" where
  "strstr haystack needle =
     (if take (length needle) haystack = needle then Some haystack
      else case haystack of [] \<Rightarrow> None | _ # rest \<Rightarrow> strstr rest needle)"

declare strstr.simps [simp del]

text \<open>
  The directories made are the second result, the path itself is restored. The first character
  is skipped; on the empty path that leaves the string.
\<close>

fun created_prefixes :: "char \<Rightarrow> string \<Rightarrow> string \<Rightarrow> string list" where
  "created_prefixes hostSeparator prefix [] = []"
| "created_prefixes hostSeparator prefix (c # cs) =
     (if c = hostSeparator then [prefix] else []) @ created_prefixes hostSeparator (prefix @ [c]) cs"

definition FS_CreatePath :: "char \<Rightarrow> string \<Rightarrow> (bool \<times> string list) option" where
  "FS_CreatePath hostSeparator osPath =
     (if strstr osPath ''..'' \<noteq> None \<or> strstr osPath ''::'' \<noteq> None then Some (True, [])
      else case osPath of
        [] \<Rightarrow> None
      | c # cs \<Rightarrow> Some (False, created_prefixes hostSeparator [c] cs))"

section \<open>Comparing names\<close>

definition path_character :: "char \<Rightarrow> int" where
  "path_character c =
     (let v = schar c; u = (if 97 \<le> v \<and> v \<le> 122 then v - 32 else v) in
      if u = 92 \<or> u = 58 then 47 else u)"

definition path_head :: "string \<Rightarrow> int" where
  "path_head s = (case s of [] \<Rightarrow> 0 | c # _ \<Rightarrow> path_character c)"

function FS_FilenameCompare :: "string \<Rightarrow> string \<Rightarrow> int" where
  "FS_FilenameCompare left right =
     (if path_head left \<noteq> path_head right then -1
      else if path_head left = 0 then 0
      else FS_FilenameCompare (tl left) (tl right))"
  by pat_completeness auto
termination
  by (relation "measure (length \<circ> fst)") (auto simp: path_head_def split: list.splits)

declare FS_FilenameCompare.simps [simp del]

function FS_PathCmp :: "string \<Rightarrow> string \<Rightarrow> int" where
  "FS_PathCmp left right =
     (if path_head right < path_head left then -1
      else if path_head right > path_head left then 1
      else if path_head right = 0 then 0
      else FS_PathCmp (tl left) (tl right))"
  by pat_completeness auto
termination
  by (relation "measure (length \<circ> fst)") (auto simp: path_head_def split: list.splits)

declare FS_PathCmp.simps [simp del]

fun insert_index :: "string list \<Rightarrow> string \<Rightarrow> nat" where
  "insert_index [] path = 0"
| "insert_index (s # ss) path = (if FS_PathCmp s path \<ge> 0 then Suc (insert_index ss path) else 0)"

definition insert_sorted :: "string \<Rightarrow> string list \<Rightarrow> string list" where
  "insert_sorted path sortedList =
     (let insertIndex = insert_index sortedList path in
      take insertIndex sortedList @ [path] @ drop insertIndex sortedList)"

definition FS_SortFileList :: "string list \<Rightarrow> string list" where
  "FS_SortFileList list = fold insert_sorted list []"

text \<open>\<open>isalpha\<close> of the C locale on a signed character.\<close>

definition fs_compat_isalpha :: "char \<Rightarrow> bool" where
  "fs_compat_isalpha c \<longleftrightarrow> 65 \<le> schar c \<and> schar c \<le> 90 \<or> 97 \<le> schar c \<and> schar c \<le> 122"

text \<open>The copy stops before index 64, so that at most 54 letters are stored.\<close>

definition PakFileLanguage :: "string \<Rightarrow> string" where
  "PakFileLanguage text =
     (if length text < 10 then [] else takeWhile fs_compat_isalpha (take 54 (drop 10 text)))"

definition localized_prefix :: string where
  "localized_prefix = replicate 10 (CHR '' '')"

definition paksort :: "string \<Rightarrow> string \<Rightarrow> int" where
  "paksort leftPath rightPath =
     (let leftEnglish = (Q_stricmp (Some (PakFileLanguage leftPath)) (Some ''english'') = 0);
          rightEnglish = (Q_stricmp (Some (PakFileLanguage rightPath)) (Some ''english'') = 0) in
      if take 10 leftPath = localized_prefix \<and> take 10 rightPath = localized_prefix \<and>
         leftEnglish \<and> \<not> rightEnglish then -1
      else if take 10 leftPath = localized_prefix \<and> take 10 rightPath = localized_prefix \<and>
         \<not> leftEnglish \<and> rightEnglish then 1
      else FS_PathCmp rightPath leftPath)"

section \<open>Hashing and encoding names\<close>

text \<open>\<open>tolower\<close> of the C locale, on the sign-extended character.\<close>

definition tolower :: "int \<Rightarrow> int" where
  "tolower c = (if 65 \<le> c \<and> c \<le> 90 then c + 32 else c)"

fun hash_characters :: "int \<Rightarrow> string \<Rightarrow> 32 word \<Rightarrow> 32 word" where
  "hash_characters index [] hash = hash"
| "hash_characters index (c # cs) hash =
     (let character = tolower (schar c) in
      if character = 46 then hash
      else let character1 = (if character = 92 then 47 else character) in
        hash_characters (i32 (index + 1)) cs
          (hash + word_of_int (i32 (index + 119)) * word_of_int character1))"

definition FS_HashFileName :: "string \<Rightarrow> int \<Rightarrow> nat" where
  "FS_HashFileName name hashSize =
     (let hash = hash_characters 0 name 0;
          mixed = xor (xor (signed_drop_bit 20 hash) (signed_drop_bit 10 hash)) hash in
      unat (mixed AND (word_of_int hashSize - 1)))"

definition FS_ShiftStr :: "string \<Rightarrow> int \<Rightarrow> string" where
  "FS_ShiftStr text shift = map (\<lambda>c. char_of (schar c + shift)) text"

definition FS_ShiftedStrStr :: "string \<Rightarrow> string \<Rightarrow> int \<Rightarrow> string option" where
  "FS_ShiftedStrStr haystack encodedNeedle shift = strstr haystack (cstr_of (FS_ShiftStr encodedNeedle shift))"

fun extension_from :: "string \<Rightarrow> string \<Rightarrow> string" where
  "extension_from extension [] = extension"
| "extension_from extension (c # cs) =
     (if c = CHR ''.'' then extension_from cs cs
      else if c = slash \<or> c = back_slash then extension_from [] cs
      else extension_from extension cs)"

definition FS_GetExtensionSubString :: "string \<Rightarrow> string" where
  "FS_GetExtensionSubString path = extension_from [] path"

section \<open>The names of the game's own paks\<close>

definition hex_digit :: "nat \<Rightarrow> char" where
  "hex_digit n = ''0123456789abcdef'' ! n"

text \<open>\<open>%x\<close> of a number below 256.\<close>

definition hex_text :: "nat \<Rightarrow> string" where
  "hex_text n = (if n < 16 then [hex_digit n] else [hex_digit (n div 16), hex_digit (n mod 16)])"

definition game_pak_names :: "string \<Rightarrow> string \<Rightarrow> nat \<Rightarrow> string list" where
  "game_pak_names mainGame baseGame pakIndex =
     [mainGame @ ''/pak'' @ hex_text pakIndex, baseGame @ ''/pakuo'' @ hex_text pakIndex,
      baseGame @ ''/pakuo0'' @ hex_text pakIndex, mainGame @ ''/mp_pak'' @ hex_text pakIndex,
      mainGame @ ''/sp_pak'' @ hex_text pakIndex]"

definition localized_id_pak :: "string \<Rightarrow> string \<Rightarrow> string \<Rightarrow> string \<Rightarrow> bool" where
  "localized_id_pak path mainGame baseGame localized =
     (if int (length path) \<ge> MAX_QPATH then False
      else let localPath = take (length path - length localized + 10) path in
      if FS_FilenameCompare localPath (mainGame @ ''/localized_'') \<noteq> 0 \<and>
         FS_FilenameCompare localPath (baseGame @ ''/localized_'') \<noteq> 0 then False
      else let name = Q_strlwr (drop 10 localized) in
        list_ex (\<lambda>pakIndex. strstr name (''_pak'' @ hex_text pakIndex) \<noteq> None \<or>
                            strstr name (''_pakuo'' @ hex_text pakIndex) \<noteq> None \<or>
                            strstr name (''_pakuo0'' @ hex_text pakIndex) \<noteq> None) [0..<24])"

definition FS_idPak :: "string \<Rightarrow> string \<Rightarrow> string \<Rightarrow> bool" where
  "FS_idPak path mainGame baseGame =
     (if FS_FilenameCompare path (mainGame @ ''/mp_bin'') = 0 then True
      else if list_ex (\<lambda>pakIndex. list_ex (\<lambda>name. FS_FilenameCompare path name = 0)
                (game_pak_names mainGame baseGame pakIndex)) [0..<24] then True
      else case strstr path ''localized_'' of
        None \<Rightarrow> False
      | Some localized \<Rightarrow> localized_id_pak path mainGame baseGame localized)"

definition FS_serverPak :: "string \<Rightarrow> bool" where
  "FS_serverPak pakName =
     (if int (length pakName) \<ge> MAX_QPATH then False else strstr (Q_strlwr pakName) ''_svr_'' \<noteq> None)"

end
