(* ===== verification/FsHandles.thy ===== *)
theory FsHandles
  imports FsPath
begin

text \<open>
  File handles: \<open>filesystem_handles.c\<close>, \<open>filesystem_read.c\<close>, \<open>filesystem_write.c\<close>,
  \<open>filesystem_open_write.c\<close> and the existence tests of \<open>filesystem_host_files.c\<close>, as the dedicated
  server builds them (\<open>server/standalone/bindings/filesystem_services.h\<close>: paths go to \<open>fopen\<close> as
  they are). The host is a map from paths to contents and the set of paths it lets be written;
  a \<open>FILE\<close> is a path, a position and whether it was opened
  for writing. Entries of archives are read by services that are not
  under \<open>src/\<close>; a handle carries their state, of any type \<open>'z\<close>.
\<close>

record FILE =
  f_path :: string
  f_position :: int
  f_writing :: bool

datatype ioObject_t = Stream FILE | ArchiveObject

record 'z fileHandleData_t =
  fh_ioObject :: "ioObject_t option"
  fh_uniqueObject :: bool
  fh_sync :: bool
  fh_zipArchive :: "'z option"
  fh_name :: string

record 'z archive_services =
  as_tell :: "'z \<Rightarrow> int"
  as_length :: "'z \<Rightarrow> int"
  as_read :: "'z \<Rightarrow> int \<Rightarrow> int \<times> 8 word list \<times> 'z"

record 'z fs_state =
  h_files :: "string \<Rightarrow> 8 word list option"
  h_writable :: "string \<Rightarrow> bool"
  fs_handleFiles :: "'z fileHandleData_t list"
  fs_homepath :: string
  fs_basepath :: string
  fs_cdpath :: string
  fs_currentGameDir :: string

definition zero_handle :: "'z fileHandleData_t" where
  "zero_handle = \<lparr>fh_ioObject = None, fh_uniqueObject = False, fh_sync = False, fh_zipArchive = None, fh_name = []\<rparr>"

abbreviation handle_at :: "'z fs_state \<Rightarrow> int \<Rightarrow> 'z fileHandleData_t option" where
  "handle_at fs handle \<equiv> peek (fs_handleFiles fs) handle"

definition set_handle :: "'z fs_state \<Rightarrow> int \<Rightarrow> 'z fileHandleData_t \<Rightarrow> 'z fs_state" where
  "set_handle fs handle data = fs\<lparr>fs_handleFiles := (fs_handleFiles fs)[nat handle := data]\<rparr>"

section \<open>The C library\<close>

definition fopen_read :: "'z fs_state \<Rightarrow> string \<Rightarrow> FILE option" where
  "fopen_read fs path = (case h_files fs path of None \<Rightarrow> None | Some _ \<Rightarrow> Some \<lparr>f_path = path, f_position = 0, f_writing = False\<rparr>)"

definition fopen_write :: "'z fs_state \<Rightarrow> string \<Rightarrow> FILE option \<times> 'z fs_state" where
  "fopen_write fs path =
     (if h_writable fs path
      then (Some \<lparr>f_path = path, f_position = 0, f_writing = True\<rparr>, fs\<lparr>h_files := (h_files fs)(path \<mapsto> [])\<rparr>)
      else (None, fs))"

definition contents :: "'z fs_state \<Rightarrow> FILE \<Rightarrow> 8 word list" where
  "contents fs file = (case h_files fs (f_path file) of None \<Rightarrow> [] | Some bytes \<Rightarrow> bytes)"

text \<open>Bytes up to the end of the file, a short count only there; none from a stream for writing.\<close>

definition fread :: "'z fs_state \<Rightarrow> FILE \<Rightarrow> nat \<Rightarrow> 8 word list \<times> FILE" where
  "fread fs file n =
     (let bytes = (if f_writing file then [] else take n (drop (nat (f_position file)) (contents fs file))) in
      (bytes, file\<lparr>f_position := f_position file + int (length bytes)\<rparr>))"

definition fwrite :: "'z fs_state \<Rightarrow> FILE \<Rightarrow> 8 word list \<Rightarrow> FILE \<times> 'z fs_state" where
  "fwrite fs file bytes =
     (let old = contents fs file; at = nat (f_position file);
          new = take at old @ replicate (at - length old) 0 @ bytes @ drop (at + length bytes) old in
      (file\<lparr>f_position := f_position file + int (length bytes)\<rparr>,
       fs\<lparr>h_files := (h_files fs)(f_path file \<mapsto> new)\<rparr>))"

section \<open>Handles\<close>

definition FS_HandleForFile :: "'z fs_state \<Rightarrow> bool \<Rightarrow> int run" where
  "FS_HandleForFile fs uniqueFile =
     (let handles = (if uniqueFile then [51..63] else [1..50]) in
      case find (\<lambda>h. fh_ioObject (fs_handleFiles fs ! nat h) = None) handles of
        Some handle \<Rightarrow> Done handle
      | None \<Rightarrow> Raise ERR_DROP ''FS_HandleForFile: none free'')"

definition FS_FileForHandle :: "'z fs_state \<Rightarrow> int \<Rightarrow> FILE option" where
  "FS_FileForHandle fs handle = do {
     data \<leftarrow> handle_at fs handle;
     (case fh_ioObject data of Some (Stream file) \<Rightarrow> Some file | _ \<Rightarrow> None) }"

definition FS_FTell :: "'z archive_services \<Rightarrow> 'z fs_state \<Rightarrow> int \<Rightarrow> int option" where
  "FS_FTell services fs handle = do {
     data \<leftarrow> handle_at fs handle;
     (case fh_zipArchive data of
        Some z \<Rightarrow> Some (as_tell services z)
      | None \<Rightarrow> do { file \<leftarrow> FS_FileForHandle fs handle; Some (i32 (f_position file)) }) }"

text \<open>The position is saved and restored around the seek to the end.\<close>

definition FS_filelength :: "'z archive_services \<Rightarrow> 'z fs_state \<Rightarrow> int \<Rightarrow> int option" where
  "FS_filelength services fs handle = do {
     data \<leftarrow> handle_at fs handle;
     (case fh_zipArchive data of
        Some z \<Rightarrow> Some (as_length services z)
      | None \<Rightarrow> do { file \<leftarrow> FS_FileForHandle fs handle; Some (i32 (int (length (contents fs file)))) }) }"

definition FS_FCloseFile :: "'z fs_state \<Rightarrow> int \<Rightarrow> 'z fs_state option" where
  "FS_FCloseFile fs handle = do {
     data \<leftarrow> handle_at fs handle;
     Some (set_handle fs handle zero_handle) }"

section \<open>Reading\<close>

text \<open>The loop over a stream: \<open>offset\<close> is the cursor's place in the caller's buffer.\<close>

function read_stream ::
    "'z fs_state \<Rightarrow> FILE \<Rightarrow> bool \<Rightarrow> nat \<Rightarrow> int \<Rightarrow> 8 word list \<Rightarrow> (nat \<times> FILE \<times> 8 word list) option" where
  "read_stream fs file sawZeroByteRead remaining offset buffer =
     (if remaining = 0 then Some (0, file, buffer)
      else case fread fs file remaining of (bytes, file1) \<Rightarrow>
        if bytes = [] then
          (if sawZeroByteRead then Some (remaining, file1, buffer)
           else read_stream fs file1 True remaining offset buffer)
        else case copy_in buffer offset bytes of
          None \<Rightarrow> None
        | Some buffer1 \<Rightarrow> read_stream fs file1 sawZeroByteRead (remaining - length bytes)
            (offset + int (length bytes)) buffer1)"
  by pat_completeness auto
termination
  by (relation "measure (\<lambda>(_, _, saw, remaining, _). 2 * remaining + (if saw then 0 else 1))")
     (auto simp: fread_def Let_def)

declare read_stream.simps [simp del]

definition read_archive ::
    "'z archive_services \<Rightarrow> 'z fs_state \<Rightarrow> int \<Rightarrow> 'z fileHandleData_t \<Rightarrow> 'z \<Rightarrow> int \<Rightarrow> 8 word list \<Rightarrow>
     (int \<times> 8 word list \<times> 'z fs_state) run" where
  "read_archive services fs handle data z byteCount buffer =
     (let currentPosition = as_tell services z; fileLength = as_length services z in
      if currentPosition < 0 \<or> fileLength < currentPosition
      then Raise ERR_DROP ''FS_Read: invalid archive state for %s''
      else let expectedByteCount = min byteCount (fileLength - currentPosition);
               (bytesRead, bytes, z1) = as_read services z byteCount;
               positionAfter = as_tell services z1;
               completed0 = (if bytesRead > 0 then bytesRead else 0);
               completed1 = (if positionAfter \<ge> currentPosition \<and> positionAfter - currentPosition > completed0
                             then positionAfter - currentPosition else completed0);
               completed = min completed1 expectedByteCount;
               fs1 = set_handle fs handle (data\<lparr>fh_zipArchive := Some z1\<rparr>) in
        checked (do {
          buffer1 \<leftarrow> copy_in buffer 0 bytes;
          buffer2 \<leftarrow> (if bytesRead < 0 \<or> bytesRead \<noteq> expectedByteCount
                     then copy_in buffer1 completed (replicate (nat (expectedByteCount - completed)) 0)
                     else Some buffer1);
          Some (bytesRead, buffer2, fs1) }))"

definition FS_Read ::
    "'z archive_services \<Rightarrow> 'z fs_state \<Rightarrow> 8 word list \<Rightarrow> int \<Rightarrow> int \<Rightarrow> (int \<times> 8 word list \<times> 'z fs_state) run" where
  "FS_Read services fs buffer byteCount handle =
     (if byteCount < 0 \<or> handle = 0 then Done (0, buffer, fs)
      else run_bind (checked (handle_at fs handle)) (\<lambda>data.
        case fh_zipArchive data of
          Some z \<Rightarrow> read_archive services fs handle data z byteCount buffer
        | None \<Rightarrow> checked (do {
            file \<leftarrow> FS_FileForHandle fs handle;
            (remaining, file1, buffer1) \<leftarrow> read_stream fs file False (nat byteCount) 0 buffer;
            Some (byteCount - int remaining, buffer1,
                  set_handle fs handle (data\<lparr>fh_ioObject := Some (Stream file1)\<rparr>)) })))"

section \<open>Writing\<close>

text \<open>
  \<open>fwrite\<close> writes all it is given, so its loop runs once, or nothing to a stream for reading;
  nothing is buffered.
\<close>

definition FS_Write :: "'z fs_state \<Rightarrow> 8 word list \<Rightarrow> int \<Rightarrow> int \<Rightarrow> (int \<times> 'z fs_state) option" where
  "FS_Write fs buffer byteCount handle =
     (if byteCount < 0 \<or> handle = 0 then Some (0, fs)
      else do {
        data \<leftarrow> handle_at fs handle;
        file \<leftarrow> FS_FileForHandle fs handle;
        bytes \<leftarrow> copy_out buffer 0 byteCount;
        let (file1, fs1) = fwrite fs file bytes in
        if byteCount > 0 \<and> \<not> f_writing file then Some (0, fs)
        else Some (byteCount, set_handle fs1 handle (data\<lparr>fh_ioObject := Some (Stream file1)\<rparr>)) })"

section \<open>Opening\<close>

text \<open>\<open>FS_BuildOSPath(root, qpath, "", osPath)\<close> without its last separator.\<close>

definition root_path :: "'z fs_state \<Rightarrow> string \<Rightarrow> string \<Rightarrow> string run" where
  "root_path fs root qpath =
     run_bind (FS_BuildOSPath slash (fs_currentGameDir fs) root (Some qpath) []) (\<lambda>osPath. Done (butlast osPath))"

text \<open>The part every writer ends with; \<open>FS_CreatePath\<close> only makes directories.\<close>

definition open_for_writing ::
    "(string \<Rightarrow> 'z fs_state \<Rightarrow> FILE option \<times> 'z fs_state) \<Rightarrow> 'z fs_state \<Rightarrow> int \<Rightarrow> string \<Rightarrow> string \<Rightarrow>
     (int \<times> 'z fs_state) run" where
  "open_for_writing fopen fs handle qpath osPath =
     run_bind (checked (FS_CreatePath slash osPath)) (\<lambda>(refused, directories).
       if refused then Done (0, set_handle fs handle ((fs_handleFiles fs ! nat handle)\<lparr>fh_zipArchive := None\<rparr>))
       else case fopen osPath fs of (file, fs1) \<Rightarrow>
         Done (if file = None then 0 else handle,
               set_handle fs1 handle ((fs_handleFiles fs1 ! nat handle)
                 \<lparr>fh_zipArchive := None, fh_ioObject := map_option Stream file,
                  fh_name := take 255 qpath, fh_sync := False\<rparr>)))"

definition coduomp_fs_root_fopen_file_write ::
    "'z fs_state \<Rightarrow> string option \<Rightarrow> string \<Rightarrow> (int \<times> 'z fs_state) run" where
  "coduomp_fs_root_fopen_file_write fs root qpath =
     (case root of
        None \<Rightarrow> Done (0, fs)
      | Some r \<Rightarrow>
          if r = [] \<or> \<not> coduo_compat_path_is_safe_relative (Some qpath) then Done (0, fs)
          else run_bind (root_path fs r qpath) (\<lambda>osPath.
               run_bind (FS_HandleForFile fs False) (\<lambda>handle.
               open_for_writing (\<lambda>p s. fopen_write s p) fs handle qpath osPath)))"

definition FS_SV_FOpenFileWrite :: "'z fs_state \<Rightarrow> string \<Rightarrow> (int \<times> 'z fs_state) run" where
  "FS_SV_FOpenFileWrite fs qpath = coduomp_fs_root_fopen_file_write fs (Some (fs_homepath fs)) qpath"

definition FS_FOpenFileWrite :: "'z fs_state \<Rightarrow> string \<Rightarrow> (int \<times> 'z fs_state) run" where
  "FS_FOpenFileWrite fs qpath =
     (if \<not> coduo_compat_path_is_safe_relative (Some qpath) then Done (0, fs)
      else if take 12 qpath = ''screenshots/''
      then coduomp_fs_root_fopen_file_write fs (Some (fs_homepath fs)) qpath
      else run_bind (FS_HandleForFile fs False) (\<lambda>handle.
           run_bind (FS_BuildOSPath slash (fs_currentGameDir fs) (fs_homepath fs) (Some (fs_currentGameDir fs)) qpath)
             (\<lambda>osPath. open_for_writing (\<lambda>p s. fopen_write s p) fs handle qpath osPath)))"

definition FS_WriteFile :: "'z fs_state \<Rightarrow> string option \<Rightarrow> 8 word list option \<Rightarrow> int \<Rightarrow> 'z fs_state run" where
  "FS_WriteFile fs qpath buffer byteCount =
     (case (qpath, buffer) of
        (Some q, Some b) \<Rightarrow> run_bind (FS_FOpenFileWrite fs q) (\<lambda>(handle, fs1).
          if handle = 0 then Done fs1
          else checked (do {
            (written, fs2) \<leftarrow> FS_Write fs1 b byteCount handle;
            FS_FCloseFile fs2 handle }))
      | _ \<Rightarrow> Raise ERR_FATAL ''FS_WriteFile: NULL parameter'')"

text \<open>One of the three roots; a \<open>NULL\<close> stream leaves the handle empty.\<close>

definition try_root :: "'z fs_state \<Rightarrow> int \<Rightarrow> string \<Rightarrow> string \<Rightarrow> 'z fs_state run" where
  "try_root fs handle root qpath =
     run_bind (root_path fs root qpath) (\<lambda>osPath.
       Done (set_handle fs handle ((fs_handleFiles fs ! nat handle)
         \<lparr>fh_ioObject := map_option Stream (fopen_read fs osPath), fh_sync := False\<rparr>)))"

definition FS_SV_FOpenFileRead ::
    "'z archive_services \<Rightarrow> 'z fs_state \<Rightarrow> string \<Rightarrow> (int \<times> int \<times> 'z fs_state) run" where
  "FS_SV_FOpenFileRead services fs qpath =
     (if \<not> coduo_compat_path_is_safe_relative (Some qpath) then Done (0, 0, fs)
      else run_bind (FS_HandleForFile fs False) (\<lambda>handle.
        let isopen = (\<lambda>s. fh_ioObject (fs_handleFiles s ! nat handle) \<noteq> None);
            fs1 = set_handle fs handle ((fs_handleFiles fs ! nat handle)\<lparr>fh_zipArchive := None, fh_name := take 255 qpath\<rparr>) in
        run_bind (try_root fs1 handle (fs_homepath fs1) qpath) (\<lambda>fs2.
        run_bind (if \<not> isopen fs2 \<and> Q_stricmp (Some (fs_homepath fs2)) (Some (fs_basepath fs2)) \<noteq> 0
                  then try_root fs2 handle (fs_basepath fs2) qpath else Done fs2) (\<lambda>fs3.
        run_bind (if \<not> isopen fs3 then try_root fs3 handle (fs_cdpath fs3) qpath else Done fs3) (\<lambda>fs4.
          if \<not> isopen fs4 then Done (0, 0, fs4)
          else run_bind (checked (FS_filelength services fs4 handle)) (\<lambda>len. Done (len, handle, fs4)))))))"

definition coduomp_fs_root_file_exists :: "'z fs_state \<Rightarrow> string option \<Rightarrow> string option \<Rightarrow> bool run" where
  "coduomp_fs_root_file_exists fs root qpath =
     (case (root, qpath) of
        (Some r, Some q) \<Rightarrow>
          if r = [] \<or> \<not> coduo_compat_path_is_safe_relative qpath then Done False
          else run_bind (root_path fs r q) (\<lambda>osPath. Done (fopen_read fs osPath \<noteq> None))
      | _ \<Rightarrow> Done False)"

definition FS_SV_FileExists :: "'z fs_state \<Rightarrow> string option \<Rightarrow> bool run" where
  "FS_SV_FileExists fs qpath = coduomp_fs_root_file_exists fs (Some (fs_homepath fs)) qpath"

end
