(* ===== verification/Info.thy ===== *)
theory Info
  imports QString
begin

text \<open>
  Info strings, \<open>src/qcommon/info.c\<close>: \<open>\key\value\key\value\<close> texts that carry cvars, user
  infos and configstrings. An info string in a caller's array of \<open>MAX_INFO_STRING\<close> or
  \<open>BIG_INFO_STRING\<close> characters is the list up to its NUL; the two limits are the parameter
  \<open>limit\<close> of the code the plain and the \<open>_Big\<close> variants share.
\<close>

abbreviation backslash :: char where "backslash \<equiv> CHR 0x5C"
abbreviation MAX_INFO_STRING :: nat where "MAX_INFO_STRING \<equiv> 1024"
abbreviation BIG_INFO_STRING :: nat where "BIG_INFO_STRING \<equiv> 8192"

text \<open>One scan \<open>while (*info != '\\' && *info != '\0')\<close>: what it copies and where it stops.\<close>

definition token :: "string \<Rightarrow> string" where
  "token s = takeWhile (\<lambda>c. c \<noteq> backslash) s"

definition behind_token :: "string \<Rightarrow> string" where
  "behind_token s = dropWhile (\<lambda>c. c \<noteq> backslash) s"

definition skip_backslash :: "string \<Rightarrow> string" where
  "skip_backslash s = (case s of c # cs \<Rightarrow> if c = backslash then cs else s | [] \<Rightarrow> s)"

lemma length_behind_token: "length (behind_token s) \<le> length s"
  by (simp add: behind_token_def length_dropWhile_le)

lemma length_skip_backslash: "length (skip_backslash s) \<le> length s"
  by (simp add: skip_backslash_def split: list.split)

section \<open>Looking a value up\<close>

text \<open>
  The two static result buffers and the index of the one used last. A result points to the
  empty literal or to a buffer.
\<close>

record info_state =
  infoValueBuffers :: "string list"
  infoValueBufferIndex :: nat

datatype info_pointer = Literal_empty | Value_buffer nat

definition pointed :: "info_state \<Rightarrow> info_pointer \<Rightarrow> string" where
  "pointed st p = (case p of Literal_empty \<Rightarrow> [] | Value_buffer n \<Rightarrow> infoValueBuffers st ! n)"

text \<open>The scan keeps the last value in the buffer also when no key matches.\<close>

function find_value :: "string \<Rightarrow> string \<Rightarrow> string \<Rightarrow> string \<times> bool" where
  "find_value info key value =
     (case behind_token info of
        [] \<Rightarrow> (value, False)
      | _ # rest \<Rightarrow>
          if Q_stricmpn (token info) key 99999 = 0 then (token rest, True)
          else case behind_token rest of
            [] \<Rightarrow> (token rest, False)
          | _ # rest' \<Rightarrow> find_value rest' key (token rest))"
  by pat_completeness auto
termination
proof (relation "measure (\<lambda>(info, key, old). length info)", simp)
  fix info key old :: string and a rest b rest'
  assume "behind_token info = a # rest" "behind_token rest = b # rest'"
  then show "((rest', key, token rest), (info, key, old)) \<in> measure (\<lambda>(info, key, old). length info)"
    using length_behind_token [of info] length_behind_token [of rest] by simp
qed

declare find_value.simps [simp del]

definition Info_ValueForKey ::
    "info_state \<Rightarrow> string option \<Rightarrow> string option \<Rightarrow> (info_state \<times> info_pointer) run" where
  "Info_ValueForKey st info key =
     (case (info, key) of
        (Some i, Some k) \<Rightarrow>
          if length i \<ge> BIG_INFO_STRING then Raise ERR_DROP ''Info_ValueForKey: oversize infostring''
          else let n = (if infoValueBufferIndex st = 0 then 1 else 0);
                   (value, found) = find_value (skip_backslash i) k (infoValueBuffers st ! n) in
          Done (st\<lparr>infoValueBufferIndex := n, infoValueBuffers := (infoValueBuffers st)[n := value]\<rparr>,
                if found then Value_buffer n else Literal_empty)
      | _ \<Rightarrow> Done (st, Literal_empty))"

definition Info_NextPair :: "string \<Rightarrow> string \<times> string \<times> string" where
  "Info_NextPair head =
     (let cursor = skip_backslash head; key = token cursor in
      case behind_token cursor of
        [] \<Rightarrow> ([], key, [])
      | _ # rest \<Rightarrow> (behind_token rest, key, token rest))"

definition Info_Validate :: "string \<Rightarrow> bool" where
  "Info_Validate info \<longleftrightarrow> CHR 0x22 \<notin> set info \<and> CHR '';'' \<notin> set info"

section \<open>Removing a key\<close>

function remove_key :: "string \<Rightarrow> string \<Rightarrow> string" where
  "remove_key key cursor =
     (let start = skip_backslash cursor in
      case behind_token start of
        [] \<Rightarrow> cursor
      | _ # rest \<Rightarrow>
          let next' = behind_token rest in
          if key = token start then next'
          else if next' = [] then cursor
          else take (length cursor - length next') cursor @ remove_key key next')"
  by pat_completeness auto
termination
proof (relation "measure (\<lambda>(key, cursor). length cursor)", simp)
  fix key cursor :: string and x y a rest
  assume "x = skip_backslash cursor" "behind_token x = a # rest" "y = behind_token rest"
  then show "((key, y), (key, cursor)) \<in> measure (\<lambda>(key, cursor). length cursor)"
    using length_behind_token [of x] length_behind_token [of rest] length_skip_backslash [of cursor] by simp
qed

declare remove_key.simps [simp del]

definition remove_sized :: "nat \<Rightarrow> string \<Rightarrow> string \<Rightarrow> string \<Rightarrow> string run" where
  "remove_sized limit message info key =
     (if length info \<ge> limit then Raise ERR_DROP message
      else Done (if backslash \<in> set key then info else remove_key key info))"

definition Info_RemoveKey :: "string \<Rightarrow> string \<Rightarrow> string run" where
  "Info_RemoveKey = remove_sized MAX_INFO_STRING ''Info_RemoveKey: oversize infostring''"

definition Info_RemoveKey_Big :: "string \<Rightarrow> string \<Rightarrow> string run" where
  "Info_RemoveKey_Big = remove_sized BIG_INFO_STRING ''Info_RemoveKey_Big: oversize infostring''"

section \<open>Setting a key\<close>

definition info_special :: "char set" where
  "info_special = {backslash, CHR '';'', CHR 0x22}"

definition cleaned_value :: "nat \<Rightarrow> string \<Rightarrow> string" where
  "cleaned_value limit value = filter (\<lambda>c. c \<notin> info_special) (take (limit - 1) value)"

text \<open>
  \<open>Com_sprintf(pair, limit, "\\%s\\%s", key, cleaned)\<close>: the text and the result, -1 where the
  formatted text is longer than the array.
\<close>

definition format_pair :: "nat \<Rightarrow> string \<Rightarrow> string \<Rightarrow> string \<times> int" where
  "format_pair limit key value =
     (let text = [backslash] @ key @ [backslash] @ value in
      (take (limit - 1) text, if length text > limit then -1 else int (length text)))"

definition set_value :: "nat \<Rightarrow> (string \<Rightarrow> string \<Rightarrow> string run) \<Rightarrow> string \<Rightarrow> string \<Rightarrow> string \<Rightarrow> string run" where
  "set_value limit remove info key value =
     (if length info \<ge> limit then Done info
      else let cleaned = cleaned_value limit value in
      if \<exists>c \<in> set key. c \<in> info_special then Done info
      else run_bind (remove info key) (\<lambda>info1.
        if cleaned = [] then Done info1
        else let (pair, result) = format_pair limit key cleaned in
          if result \<le> 0 then Done info1
          else if length info1 + length pair \<ge> limit then Done info1
          else Done (info1 @ pair)))"

definition Info_SetValueForKey :: "string \<Rightarrow> string \<Rightarrow> string \<Rightarrow> string run" where
  "Info_SetValueForKey = set_value MAX_INFO_STRING Info_RemoveKey"

definition Info_SetValueForKey_Big :: "string \<Rightarrow> string \<Rightarrow> string \<Rightarrow> string run" where
  "Info_SetValueForKey_Big = set_value BIG_INFO_STRING Info_RemoveKey_Big"

section \<open>Numbers and printing\<close>

definition atoi_space :: "char \<Rightarrow> bool" where
  "atoi_space c \<longleftrightarrow> c = CHR '' '' \<or> (9 \<le> (of_char c :: int) \<and> (of_char c :: int) \<le> 13)"

definition digit_value :: "char \<Rightarrow> int option" where
  "digit_value c = (let n = of_char c :: int in if 48 \<le> n \<and> n \<le> 57 then Some (n - 48) else None)"

fun magnitude :: "string \<Rightarrow> int \<Rightarrow> int" where
  "magnitude [] m = m"
| "magnitude (c # cs) m =
     (case digit_value c of None \<Rightarrow> m | Some d \<Rightarrow> magnitude cs (u32 (m * 10 + d)))"

text \<open>The \<open>PARSE_FIELD_INT\<close> and \<open>PARSE_FIELD_BOOL\<close> conversion of \<open>ParseConfigStringToStruct\<close>.\<close>

definition parse_int :: "string \<Rightarrow> int" where
  "parse_int value =
     (let s = dropWhile atoi_space value in
      case s of
        [] \<Rightarrow> 0
      | c # cs \<Rightarrow>
          if c = CHR ''-'' then i32 (u32 (0 - magnitude cs 0))
          else if c = CHR ''+'' then i32 (magnitude cs 0)
          else i32 (magnitude s 0))"

text \<open>
  \<open>ParseConfigStringToStruct\<close> writes the fields of a struct, a block of bytes, at the offsets a
  table gives. The callbacks of the caller and the two x87 conversions are parameters:
  \<open>pe_set_string\<close> stores an allocated string, \<open>pe_custom\<close> is the caller's parser, \<open>pe_float\<close>
  and \<open>pe_msec\<close> are the four bytes a \<open>float\<close> or a millisecond field gets.
\<close>

record parse_env =
  pe_set_string :: "8 word list \<Rightarrow> int \<Rightarrow> string \<Rightarrow> 8 word list"
  pe_custom :: "8 word list \<Rightarrow> string \<Rightarrow> int \<Rightarrow> 8 word list \<times> bool"
  pe_float :: "string \<Rightarrow> 8 word list"
  pe_msec :: "string \<Rightarrow> 8 word list"

record parseField_t =
  pf_key :: string
  pf_offset :: int
  pf_type :: int

definition int_bytes :: "int \<Rightarrow> 8 word list" where
  "int_bytes n = (let st = (word_of_int n :: 32 word) in
     [ucast st, ucast (drop_bit 8 st), ucast (drop_bit 16 st), ucast (drop_bit 24 st)])"

text \<open>\<open>strncpy(destination, value, capacity - 1)\<close> with the final NUL.\<close>

definition string_bytes :: "nat \<Rightarrow> string \<Rightarrow> 8 word list" where
  "string_bytes capacity text =
     (let kept = take (capacity - 1) text in
      map byte_of kept @ replicate (capacity - 1 - length kept) 0 @ [0])"

definition store_field :: "parse_env \<Rightarrow> 8 word list \<Rightarrow> parseField_t \<Rightarrow> string \<Rightarrow> 8 word list option" where
  "store_field env base field text =
     (let type = pf_type field; offset = pf_offset field in
      if type = 0 then Some (pe_set_string env base offset text)
      else if type = 1 then copy_in base offset (string_bytes 1024 text)
      else if type = 2 then copy_in base offset (string_bytes 64 text)
      else if type = 3 then copy_in base offset (string_bytes 256 text)
      else if type = 4 then copy_in base offset (int_bytes (parse_int text))
      else if type = 5 then copy_in base offset (int_bytes (if parse_int text \<noteq> 0 then 1 else 0))
      else if type = 6 then copy_in base offset (pe_float env text)
      else if type = 7 then copy_in base offset (pe_msec env text)
      else Some base)"

fun parse_fields ::
    "parse_env \<Rightarrow> int \<Rightarrow> string \<Rightarrow> parseField_t list \<Rightarrow> info_state \<Rightarrow> 8 word list \<Rightarrow>
     (info_state \<times> 8 word list \<times> bool) run" where
  "parse_fields env customTypeLimit info [] st base = Done (st, base, True)"
| "parse_fields env customTypeLimit info (field # others) st base =
     run_bind (Info_ValueForKey st (Some info) (Some (pf_key field))) (\<lambda>(st1, p).
       let text = pointed st1 p in
       if text = [] then parse_fields env customTypeLimit info others st1 base
       else if pf_type field \<ge> 8 then
         (if customTypeLimit \<le> 0 \<or> pf_type field \<ge> customTypeLimit then Raise ERR_DROP ''Bad field type %i''
          else let (base1, ok) = pe_custom env base text (pf_type field) in
            if \<not> ok then Done (st1, base1, False)
            else parse_fields env customTypeLimit info others st1 base1)
       else if pf_type field < 0 then parse_fields env customTypeLimit info others st1 base
       else run_bind (checked (store_field env base field text))
         (parse_fields env customTypeLimit info others st1))"

definition ParseConfigStringToStruct ::
    "parse_env \<Rightarrow> info_state \<Rightarrow> 8 word list \<Rightarrow> parseField_t list \<Rightarrow> string \<Rightarrow> int \<Rightarrow>
     (info_state \<times> 8 word list \<times> bool) run" where
  "ParseConfigStringToStruct env st base table info customTypeLimit =
     parse_fields env customTypeLimit info table st base"

text \<open>The pieces \<open>Info_Print\<close> prints, key padded to 20 columns.\<close>

function print_pairs :: "string \<Rightarrow> string list" where
  "print_pairs info =
     (if info = [] then []
      else let key = token info @ replicate (20 - length (token info)) CHR '' '' in
      case behind_token info of
        [] \<Rightarrow> [key, ''MISSING VALUE'']
      | _ # rest \<Rightarrow> key # token rest # print_pairs (skip_backslash (behind_token rest)))"
  by pat_completeness auto
termination
proof (relation "measure length", simp)
  fix info :: string and key a rest
  assume "behind_token info = a # rest"
  then show "(skip_backslash (behind_token rest), info) \<in> measure length"
    using length_behind_token [of info] length_behind_token [of rest] length_skip_backslash [of "behind_token rest"]
    by simp
qed

declare print_pairs.simps [simp del]

definition Info_Print :: "string \<Rightarrow> string list" where
  "Info_Print info =
     (if length info \<ge> MAX_INFO_STRING then [''Info_Print: oversize infostring'']
      else print_pairs (skip_backslash info))"

end
