(* ===== verification/SvDownload.thy ===== *)
theory SvDownload
  imports ServerTypes FsHandles Info
begin

text \<open>
  \<open>src/server/engine/server_download.c\<close>: sending a pak to a client in numbered blocks of 2048
  bytes, at most eight of them unacknowledged, or redirecting it to a web server. Blocks are read
  from the file into a window of eight slots; an empty block ends the file. The arguments of a
  client's command are the strings \<open>Cmd_Argv\<close> returns. A handler that ends in
  \<open>SV_DropClient\<close> or \<open>SV_SendClientGameState\<close> says so in its result: both are its last call.
\<close>

record download_vars =
  dv_allowDownload :: int
  dv_maxRate :: int
  dv_pure :: int
  dv_wwwDownload :: int
  dv_wwwDlDisconnected :: int
  dv_wwwBaseURL :: string
  dv_fs_basegame :: string
  dv_realTime :: int

datatype handler_end = Handled | DropClient string | SendGameState

abbreviation SERVER_DOWNLOAD_BLOCK_SIZE :: int where "SERVER_DOWNLOAD_BLOCK_SIZE \<equiv> 2048"

section \<open>The client's commands\<close>

text \<open>A block that is freed is \<open>NULL\<close> afterwards.\<close>

definition SV_CloseDownload :: "'z fs_state \<Rightarrow> serverClientDownload_t \<Rightarrow> ('z fs_state \<times> serverClientDownload_t) option" where
  "SV_CloseDownload fs dl = do {
     fs1 \<leftarrow> (if dl_fileHandle dl \<noteq> 0 then FS_FCloseFile fs (dl_fileHandle dl) else Some fs);
     Some (fs1, dl\<lparr>dl_fileHandle := 0, dl_fileName := [], dl_blockData := replicate 8 None\<rparr>) }"

definition SV_StopDownload_f :: "'z fs_state \<Rightarrow> serverClientDownload_t \<Rightarrow> ('z fs_state \<times> serverClientDownload_t) option" where
  "SV_StopDownload_f fs dl = SV_CloseDownload fs dl"

definition SV_DoneDownload_f :: handler_end where
  "SV_DoneDownload_f = SendGameState"

definition SV_RetransmitDownload_f :: "string \<Rightarrow> serverClientDownload_t \<Rightarrow> serverClientDownload_t" where
  "SV_RetransmitDownload_f argument dl =
     (if parse_int argument = dl_nextAcknowledgmentBlock dl
      then dl\<lparr>dl_nextTransmitBlock := dl_nextAcknowledgmentBlock dl\<rparr> else dl)"

definition block_slot :: "int \<Rightarrow> int" where
  "block_slot block = block smod MAX_DOWNLOAD_WINDOW"

definition SV_NextDownload_f ::
    "int \<Rightarrow> 'z fs_state \<Rightarrow> string \<Rightarrow> serverClientDownload_t \<Rightarrow> ('z fs_state \<times> serverClientDownload_t \<times> handler_end) option" where
  "SV_NextDownload_f realTime fs argument dl =
     (if parse_int argument \<noteq> dl_nextAcknowledgmentBlock dl then Some (fs, dl, DropClient ''broken download'')
      else do {
        count \<leftarrow> peek (dl_blockByteCounts dl) (block_slot (dl_nextAcknowledgmentBlock dl));
        if count = 0 then do {
          (fs1, dl1) \<leftarrow> SV_CloseDownload fs dl;
          Some (fs1, dl1, Handled) }
        else Some (fs, dl\<lparr>dl_lastBlockActivityTime := realTime,
                          dl_nextAcknowledgmentBlock := i32 (dl_nextAcknowledgmentBlock dl + 1)\<rparr>, Handled) })"

definition SV_BeginDownload_f ::
    "'z fs_state \<Rightarrow> string \<Rightarrow> serverClientDownload_t \<Rightarrow> ('z fs_state \<times> serverClientDownload_t \<times> handler_end) option" where
  "SV_BeginDownload_f fs fileName dl = do {
     (fs1, dl1) \<leftarrow> SV_CloseDownload fs dl;
     if \<not> coduo_compat_path_is_safe_relative (Some fileName) \<or> \<not> coduo_compat_path_is_pk3 (Some fileName)
     then Some (fs1, dl1, DropClient ''invalid download path'')
     else Some (fs1, dl1\<lparr>dl_fileName := take 63 fileName\<rparr>, Handled) }"

definition redirect_over :: "serverClientDownload_t \<Rightarrow> serverClientDownload_t" where
  "redirect_over dl = dl\<lparr>dl_fileHandle := 0, dl_fileName := [], dl_redirectAcknowledged := False\<rparr>"

definition subcommand_is :: "string \<Rightarrow> string \<Rightarrow> bool" where
  "subcommand_is subcommand text = (Q_stricmp (Some subcommand) (Some text) = 0)"

definition SV_WWWDownload_f :: "string \<Rightarrow> serverClientDownload_t \<Rightarrow> serverClientDownload_t \<times> handler_end" where
  "SV_WWWDownload_f subcommand dl =
     (if \<not> dl_redirectActive dl then (dl, DropClient ''GMI_EXE_UNEXPECTEDWWWDOWLOADMESSAGE'')
      else if subcommand_is subcommand ''ack'' then (dl\<lparr>dl_redirectAcknowledged := True\<rparr>, Handled)
      else if subcommand_is subcommand ''bbl8r'' then (dl, DropClient ''GMI_EXE_DOWNLOADDISCONNECTED'')
      else if \<not> dl_redirectAcknowledged dl then (dl, DropClient ''GMI_EXE_UNEXPECTEDWWWDOWLOADMESSAGE'')
      else if subcommand_is subcommand ''done'' then (redirect_over dl, Handled)
      else if subcommand_is subcommand ''fail'' then ((redirect_over dl)\<lparr>dl_redirectFailed := True\<rparr>, SendGameState)
      else if subcommand_is subcommand ''chkfail'' then ((redirect_over dl)\<lparr>dl_redirectFailed := True\<rparr>, SendGameState)
      else (dl, DropClient ''GMI_EXE_UNEXPECTEDWWWDOWLOADMESSAGE''))"

section \<open>Refusals and redirection\<close>

definition write_refusal :: "msg_t \<Rightarrow> msg_t option" where
  "write_refusal message = do {
     m1 \<leftarrow> MSG_WriteByte message SERVER_SVC_DOWNLOAD;
     m2 \<leftarrow> MSG_WriteShort m1 0;
     MSG_WriteLong m2 (-1) }"

definition SV_BadDownload :: "serverClientDownload_t \<Rightarrow> msg_t \<Rightarrow> (serverClientDownload_t \<times> msg_t) option" where
  "SV_BadDownload dl message = do {
     m1 \<leftarrow> write_refusal message;
     Some (dl\<lparr>dl_fileName := []\<rparr>, m1) }"

definition SV_CheckFallbackURL :: bool where
  "SV_CheckFallbackURL = True"

definition is_separator :: "char \<Rightarrow> bool" where
  "is_separator c \<longleftrightarrow> c = slash \<or> c = back_slash"

text \<open>The buffer's new string when the URL is refused is empty.\<close>

definition coduomp_www_build_redirect_url :: "string \<Rightarrow> string \<Rightarrow> nat \<Rightarrow> bool \<times> string option" where
  "coduomp_www_build_redirect_url baseUrl pakName outSize =
     (if outSize = 0 then (False, None)
      else let base = rev (dropWhile is_separator (rev baseUrl));
               pak = dropWhile is_separator pakName in
      if base = [] \<or> pak = [] \<or> length base \<ge> outSize \<or> length pak \<ge> outSize - length base - 1
      then (False, Some [])
      else (True, Some (base @ slash # map (\<lambda>c. if c = back_slash then slash else c) pak)))"

text \<open>\<open>Com_sprintf\<close> into a buffer of 1024 characters; \<open>\x15\<close> stands between key and name.\<close>

definition error_text :: "string \<Rightarrow> string \<Rightarrow> string" where
  "error_text key name = take 1023 (key @ CHR 0x15 # name)"

text \<open>What an attempt to open the file comes to: the message is complete, or blocks can follow.\<close>

datatype 'z opened =
    Finished serverClientDownload_t msg_t "'z fs_state"
  | Opened serverClientDownload_t msg_t "'z fs_state"

definition open_direct ::
    "'z archive_services \<Rightarrow> 'z fs_state \<Rightarrow> serverClientDownload_t \<Rightarrow> msg_t \<Rightarrow> 'z opened run" where
  "open_direct services fs dl message =
     run_bind (FS_SV_FOpenFileRead services fs (dl_fileName dl)) (\<lambda>(fileSize, handle, fs1).
       let dl1 = dl\<lparr>dl_redirectActive := False, dl_fileSize := fileSize, dl_fileHandle := handle\<rparr> in
       if fileSize \<le> 0 then checked (do {
         (dl2, m1) \<leftarrow> SV_BadDownload dl1 message;
         m2 \<leftarrow> MSG_WriteString m1 (Some (error_text ''EXE_AUTODL_FILENOTONSERVER'' (dl_fileName dl1)));
         Some (Finished dl2 m2 fs1) })
       else Done (Opened (dl1\<lparr>dl_nextTransmitBlock := 0, dl_nextAcknowledgmentBlock := 0, dl_nextBufferedBlock := 0,
                              dl_bytesRead := 0, dl_eofBlockQueued := False\<rparr>) message fs1))"

definition write_redirect :: "download_vars \<Rightarrow> serverClientDownload_t \<Rightarrow> int \<Rightarrow> msg_t \<Rightarrow> msg_t option" where
  "write_redirect vars dl redirectSize message = do {
     m1 \<leftarrow> MSG_WriteByte message SERVER_SVC_DOWNLOAD;
     m2 \<leftarrow> MSG_WriteShort m1 (-1);
     m3 \<leftarrow> MSG_WriteString m2 (Some (dl_redirectUrl dl));
     m4 \<leftarrow> MSG_WriteLong m3 redirectSize;
     MSG_WriteLong m4 (if dv_wwwDlDisconnected vars \<noteq> 0 then 1 else 0) }"

definition open_redirected ::
    "download_vars \<Rightarrow> 'z archive_services \<Rightarrow> 'z fs_state \<Rightarrow> serverClientDownload_t \<Rightarrow> msg_t \<Rightarrow> 'z opened run" where
  "open_redirected vars services fs dl message =
     (case coduomp_www_build_redirect_url (dv_wwwBaseURL vars) (dl_fileName dl) 256 of (usable, url) \<Rightarrow>
      let dl1 = (case url of None \<Rightarrow> dl | Some u \<Rightarrow> dl\<lparr>dl_redirectUrl := u\<rparr>) in
      if \<not> usable then open_direct services fs dl1 message
      else if \<not> dl_redirectAllowedByClient dl1 then
        (if SV_CheckFallbackURL then Done (Finished dl1 message fs) else open_direct services fs dl1 message)
      else if \<not> dl_redirectFailed dl1 then
        run_bind (FS_SV_FOpenFileRead services fs (dl_fileName dl1)) (\<lambda>(redirectSize, handle, fs1).
          if redirectSize \<noteq> 0 then checked (do {
            fs2 \<leftarrow> FS_FCloseFile fs1 handle;
            m1 \<leftarrow> write_redirect vars dl1 redirectSize message;
            Some (Finished (dl1\<lparr>dl_redirectActive := True\<rparr>) m1 fs2) })
          else open_direct services fs1 dl1 message)
      else let dl2 = dl1\<lparr>dl_redirectFailed := False\<rparr> in
        (if SV_CheckFallbackURL then Done (Finished dl2 message fs) else open_direct services fs dl2 message))"

definition open_download ::
    "download_vars \<Rightarrow> 'z archive_services \<Rightarrow> 'z fs_state \<Rightarrow> serverClientDownload_t \<Rightarrow> msg_t \<Rightarrow> 'z opened run" where
  "open_download vars services fs dl message =
     (let idPak = FS_idPak (dl_fileName dl) ''main'' (dv_fs_basegame vars) in
      if dv_allowDownload vars = 0 \<or> idPak then checked (do {
        m1 \<leftarrow> write_refusal message;
        m2 \<leftarrow> MSG_WriteString m1 (Some (error_text
             (if idPak then ''EXE_CANTAUTODLGAMEPAK''
              else if dv_pure vars = 0 then ''EXE_AUTODL_SERVERDISABLED'' else ''EXE_AUTODL_SERVERDISABLED_PURE'')
             (dl_fileName dl)));
        Some (Finished (dl\<lparr>dl_fileName := []\<rparr>) m2 fs) })
      else if dv_wwwDownload vars \<noteq> 0 then open_redirected vars services fs dl message
      else open_direct services fs dl message)"

section \<open>The window\<close>

definition window_open :: "serverClientDownload_t \<Rightarrow> bool" where
  "window_open dl \<longleftrightarrow> i32 (dl_nextBufferedBlock dl - dl_nextAcknowledgmentBlock dl) < MAX_DOWNLOAD_WINDOW"

lemma i32_step: "i32 (a - b) < 2147483647 \<Longrightarrow> i32 (i32 (a + 1) - b) = i32 (a - b) + 1"
proof -
  assume less: "i32 (a - b) < 2147483647"
  have "i32 (i32 (a + 1) - b) = i32 (i32 (a - b) + 1)"
    by (rule i32_cong) (simp add: i32_def mod_simps algebra_simps)
  also have "\<dots> = i32 (a - b) + 1" using less i32_range [of "a - b"] by (intro i32_id) simp_all
  finally show ?thesis .
qed

text \<open>One block; a read error ends the file where it is. The second result stops the loop.\<close>

definition buffer_block ::
    "'z archive_services \<Rightarrow> 'z fs_state \<Rightarrow> serverClientDownload_t \<Rightarrow> ('z fs_state \<times> serverClientDownload_t \<times> bool) run" where
  "buffer_block services fs dl =
     (let slot = block_slot (dl_nextBufferedBlock dl) in
      run_bind (checked (peek (dl_blockData dl) slot)) (\<lambda>data.
      let block = (case data of None \<Rightarrow> replicate 2048 0 | Some b \<Rightarrow> b) in
      run_bind (FS_Read services fs block SERVER_DOWNLOAD_BLOCK_SIZE (dl_fileHandle dl)) (\<lambda>(n, block1, fs1).
      run_bind (checked (poke (dl_blockByteCounts dl) slot n)) (\<lambda>counts.
      let dl1 = dl\<lparr>dl_blockData := (dl_blockData dl)[nat slot := Some block1], dl_blockByteCounts := counts\<rparr> in
      if n < 0 then Done (fs1, dl1\<lparr>dl_bytesRead := dl_fileSize dl1\<rparr>, True)
      else Done (fs1, dl1\<lparr>dl_bytesRead := i32 (dl_bytesRead dl1 + n),
                         dl_nextBufferedBlock := i32 (dl_nextBufferedBlock dl1 + 1)\<rparr>, False)))))"

lemma buffer_block_next:
  assumes "buffer_block services fs dl = Done (fs', dl', False)"
  shows "dl_nextBufferedBlock dl' = i32 (dl_nextBufferedBlock dl + 1) \<and>
    dl_nextAcknowledgmentBlock dl' = dl_nextAcknowledgmentBlock dl"
  using assms by (auto simp: buffer_block_def Let_def run_bind_eq_Done split: if_splits)

function fill_window ::
    "'z archive_services \<Rightarrow> 'z fs_state \<Rightarrow> serverClientDownload_t \<Rightarrow> ('z fs_state \<times> serverClientDownload_t) run" where
  "fill_window services fs dl =
     (if window_open dl \<and> dl_fileSize dl \<noteq> dl_bytesRead dl then
        (case buffer_block services fs dl of
           Fault \<Rightarrow> Fault
         | Raise e s \<Rightarrow> Raise e s
         | Done (fs1, dl1, stop) \<Rightarrow> if stop then Done (fs1, dl1) else fill_window services fs1 dl1)
      else Done (fs, dl))"
  by pat_completeness auto
termination
proof (relation "measure (\<lambda>(_, _, dl). nat (8 - i32 (dl_nextBufferedBlock dl - dl_nextAcknowledgmentBlock dl)))")
  fix services :: "'z archive_services" and fs fs1 :: "'z fs_state" and dl dl1 and x y and stop
  assume "window_open dl \<and> dl_fileSize dl \<noteq> dl_bytesRead dl"
    and block: "buffer_block services fs dl = Done x" "(fs1, y) = x" "(dl1, stop) = y" "\<not> stop"
  then have "i32 (dl_nextBufferedBlock dl - dl_nextAcknowledgmentBlock dl) < 8" by (simp add: window_open_def)
  then show "((services, fs1, dl1), services, fs, dl) \<in>
      measure (\<lambda>(_, _, dl). nat (8 - i32 (dl_nextBufferedBlock dl - dl_nextAcknowledgmentBlock dl)))"
    using block buffer_block_next [of services fs dl fs1 dl1] i32_step [of "dl_nextBufferedBlock dl"]
    by auto
qed simp

declare fill_window.simps [simp del]

definition queue_eof :: "serverClientDownload_t \<Rightarrow> serverClientDownload_t option" where
  "queue_eof dl =
     (if dl_bytesRead dl = dl_fileSize dl \<and> \<not> dl_eofBlockQueued dl \<and> window_open dl then do {
        counts \<leftarrow> poke (dl_blockByteCounts dl) (block_slot (dl_nextBufferedBlock dl)) 0;
        Some (dl\<lparr>dl_blockByteCounts := counts, dl_nextBufferedBlock := i32 (dl_nextBufferedBlock dl + 1),
                 dl_eofBlockQueued := True\<rparr>) }
      else Some dl)"

text \<open>\<open>Cvar_Set\<close> stores 1000 in \<open>sv_maxRate\<close> before it is compared.\<close>

definition download_rate :: "download_vars \<Rightarrow> int \<Rightarrow> int \<times> download_vars" where
  "download_rate vars rate =
     (if dv_maxRate vars \<noteq> 0 then
        let vars1 = (if dv_maxRate vars < 1000 then vars\<lparr>dv_maxRate := 1000\<rparr> else vars) in
        (if dv_maxRate vars1 < rate then dv_maxRate vars1 else rate, vars1)
      else (rate, vars))"

definition block_budget :: "int \<Rightarrow> int \<Rightarrow> int" where
  "block_budget rate snapshotMsec =
     (let budget = (if rate = 0 then 1
        else let bytesPerSnapshot = i32 (rate * snapshotMsec) sdiv 1000;
                 rounded0 = i32 (bytesPerSnapshot + SERVER_DOWNLOAD_BLOCK_SIZE);
                 roundedBytes = (if rounded0 < 0 then i32 (bytesPerSnapshot + SERVER_DOWNLOAD_BLOCK_SIZE * 2 - 1)
                                 else rounded0) in
          roundedBytes sdiv SERVER_DOWNLOAD_BLOCK_SIZE) in
      if budget < 0 then 1 else budget)"

definition write_block :: "int \<Rightarrow> serverClientDownload_t \<Rightarrow> msg_t \<Rightarrow> (serverClientDownload_t \<times> msg_t) option" where
  "write_block realTime dl message =
     (let slot = block_slot (dl_nextTransmitBlock dl) in do {
        m1 \<leftarrow> MSG_WriteByte message SERVER_SVC_DOWNLOAD;
        m2 \<leftarrow> MSG_WriteShort m1 (dl_nextTransmitBlock dl);
        m3 \<leftarrow> (if dl_nextTransmitBlock dl = 0 then MSG_WriteLong m2 (dl_fileSize dl) else Some m2);
        count \<leftarrow> peek (dl_blockByteCounts dl) slot;
        m4 \<leftarrow> MSG_WriteShort m3 count;
        m5 \<leftarrow> (if count \<noteq> 0 then do {
                 data \<leftarrow> peek (dl_blockData dl) slot;
                 MSG_WriteData m4 (case data of None \<Rightarrow> [] | Some b \<Rightarrow> b) count }
               else Some m4);
        Some (dl\<lparr>dl_nextTransmitBlock := i32 (dl_nextTransmitBlock dl + 1),
                 dl_lastBlockActivityTime := realTime\<rparr>, m5) })"

fun transmit_blocks :: "nat \<Rightarrow> int \<Rightarrow> serverClientDownload_t \<Rightarrow> msg_t \<Rightarrow> (serverClientDownload_t \<times> msg_t) option" where
  "transmit_blocks 0 realTime dl message = Some (dl, message)"
| "transmit_blocks (Suc budget) realTime dl message =
     (if dl_nextAcknowledgmentBlock dl = dl_nextBufferedBlock dl then Some (dl, message)
      else if dl_nextTransmitBlock dl = dl_nextBufferedBlock dl \<and>
              i32 (realTime - dl_lastBlockActivityTime dl) \<le> 1000
      then Some (dl, message)
      else let dl1 = (if dl_nextTransmitBlock dl = dl_nextBufferedBlock dl
                      then dl\<lparr>dl_nextTransmitBlock := dl_nextAcknowledgmentBlock dl\<rparr> else dl) in do {
        (dl2, m1) \<leftarrow> write_block realTime dl1 message;
        transmit_blocks budget realTime dl2 m1 })"

definition send_window ::
    "download_vars \<Rightarrow> 'z archive_services \<Rightarrow> client_t \<Rightarrow> 'z fs_state \<Rightarrow> serverClientDownload_t \<Rightarrow> msg_t \<Rightarrow>
     (client_t \<times> msg_t \<times> 'z fs_state \<times> download_vars) run" where
  "send_window vars services client fs dl message =
     run_bind (fill_window services fs dl) (\<lambda>(fs1, dl1).
     run_bind (checked (queue_eof dl1)) (\<lambda>dl2.
       case download_rate vars (c_rate client) of (rate, vars1) \<Rightarrow>
     run_bind (checked (transmit_blocks (nat (block_budget rate (c_snapshotMsec client))) (dv_realTime vars) dl2 message))
       (\<lambda>(dl3, m1). Done (client\<lparr>c_download := dl3\<rparr>, m1, fs1, vars1))))"

definition SV_WriteDownloadToClient ::
    "download_vars \<Rightarrow> 'z archive_services \<Rightarrow> 'z fs_state \<Rightarrow> client_t \<Rightarrow> msg_t \<Rightarrow>
     (client_t \<times> msg_t \<times> 'z fs_state \<times> download_vars) run" where
  "SV_WriteDownloadToClient vars services fs client message =
     (let dl = c_download client in
      if dl_fileName dl = [] \<or> dl_redirectAcknowledged dl then Done (client, message, fs, vars)
      else if dl_fileHandle dl = 0 then
        run_bind (open_download vars services fs dl message) (\<lambda>outcome. case outcome of
          Finished dl1 m1 fs1 \<Rightarrow> Done (client\<lparr>c_download := dl1\<rparr>, m1, fs1, vars)
        | Opened dl1 m1 fs1 \<Rightarrow> send_window vars services client fs1 dl1 m1)
      else send_window vars services client fs dl message)"

end
