(* ===== verification/ClDownload.thy ===== *)
theory ClDownload
  imports Msg_Stream FsPath
begin

text \<open>
  The client's side of a download: \<open>CL_ParseDownload\<close> of
  \<open>src/client/engine/client/server_message_entities.c\<close> and \<open>CL_BeginDownload\<close>,
  \<open>CL_NextDownload\<close> and \<open>CL_WWWBadChecksum\<close> of \<open>download_protocol.c\<close>. The state gathers the fields
  of \<open>clc\<close>, \<open>cls\<close> and \<open>cls.staticDownload\<close> these use. The file being written is its bytes, as
  \<open>FS_Write\<close> has appended them; \<open>cd_commands\<close> are the texts given to \<open>CL_AddReliableCommand\<close>
  (theory \<open>Cipher\<close> stores and sends them), \<open>cd_requests\<close> the calls that leave the engine core.
\<close>

datatype cl_request =
    OpenURL string
  | CommandText string
  | RenameDownload string string "8 word list"
  | DownloadsComplete

record cl_download =
  cd_downloadFile :: "8 word list option"
  cd_downloadBlock :: int
  cd_downloadCount :: int
  cd_downloadSize :: int
  cd_downloadFlags :: int
  cd_downloadList :: string
  cd_wwwDownloadActive :: bool
  cd_wwwDownloadAborting :: bool
  cd_redirectedList :: string
  cd_badChecksumList :: string
  cd_downloadName :: string
  cd_downloadTempName :: string
  cd_originalDownloadName :: string
  cd_downloadRestart :: bool
  cd_wwwDownloadDisconnected :: bool
  cd_commands :: "string list"
  cd_requests :: "cl_request list"

text \<open>
  What surrounds the client: whether the update server is the one connected to, the local path of
  a redirected file, whether a web download starts, whether a temporary file can be created.
\<close>

record cl_services =
  sv_is_update :: bool
  sv_build_path :: "string \<Rightarrow> string option"
  sv_begin_www :: "string \<Rightarrow> string \<Rightarrow> bool"
  sv_create :: "string \<Rightarrow> bool"

definition add_command :: "string \<Rightarrow> cl_download \<Rightarrow> cl_download" where
  "add_command text cd = cd\<lparr>cd_commands := cd_commands cd @ [text]\<rparr>"

definition add_request :: "cl_request \<Rightarrow> cl_download \<Rightarrow> cl_download" where
  "add_request request cd = cd\<lparr>cd_requests := cd_requests cd @ [request]\<rparr>"

section \<open>Decimal numbers\<close>

fun digits :: "nat \<Rightarrow> string" where
  "digits n = (if n < 10 then [char_of (48 + n)] else digits (n div 10) @ [char_of (48 + n mod 10)])"

declare digits.simps [simp del]

text \<open>\<open>%d\<close>.\<close>

definition decimal :: "int \<Rightarrow> string" where
  "decimal v = (if v < 0 then CHR ''-'' # digits (nat (- v)) else digits (nat v))"

section \<open>Asking for a file\<close>

definition strchr_split :: "char \<Rightarrow> string \<Rightarrow> (string \<times> string) option" where
  "strchr_split c s = (if c \<in> set s then Some (takeWhile (\<lambda>d. d \<noteq> c) s, tl (dropWhile (\<lambda>d. d \<noteq> c) s)) else None)"

definition CL_BeginDownload :: "cl_services \<Rightarrow> cl_download \<Rightarrow> string \<Rightarrow> string \<Rightarrow> cl_download run" where
  "CL_BeginDownload services cd localName remoteName =
     (if \<not> coduo_compat_path_is_safe_relative (Some localName) \<or>
         (\<not> sv_is_update services \<and> \<not> coduo_compat_path_is_pk3 (Some localName))
      then Raise ERR_DROP ''Refusing invalid download path''
      else if \<not> coduo_compat_path_is_safe_relative (Some remoteName) \<or>
         (\<not> sv_is_update services \<and> \<not> coduo_compat_path_is_pk3 (Some remoteName))
      then Raise ERR_DROP ''Refusing invalid download path''
      else Done (add_command (''download '' @ remoteName)
        (cd\<lparr>cd_downloadName := take 255 localName, cd_downloadTempName := take 255 (localName @ ''.tmp''),
            cd_downloadBlock := 0, cd_downloadCount := 0\<rparr>)))"

definition CL_NextDownload :: "cl_services \<Rightarrow> cl_download \<Rightarrow> cl_download run" where
  "CL_NextDownload services cd =
     (let remoteName = (case cd_downloadList cd of c # cs \<Rightarrow> if c = CHR ''@'' then cs else c # cs | [] \<Rightarrow> []) in
      case strchr_split (CHR ''@'') remoteName of
        None \<Rightarrow> Done (add_request DownloadsComplete cd)
      | Some (remote, rest) \<Rightarrow>
          let (local, remaining) = (case strchr_split (CHR ''@'') rest of None \<Rightarrow> (rest, []) | Some s \<Rightarrow> s) in
          run_bind (CL_BeginDownload services cd local remote) (\<lambda>cd1.
            Done (cd1\<lparr>cd_downloadRestart := True, cd_downloadList := remaining\<rparr>)))"

definition CL_WWWBadChecksum :: "cl_download \<Rightarrow> string \<Rightarrow> bool \<times> cl_download" where
  "CL_WWWBadChecksum cd pakName =
     (if strstr (cd_redirectedList cd) (CHR ''@'' # pakName) = None then (False, cd)
      else if length (cd_badChecksumList cd) + length pakName + 1 \<ge> 1024 then (False, cd)
      else (True, cd\<lparr>cd_badChecksumList := cd_badChecksumList cd @ CHR ''@'' # pakName\<rparr>))"

section \<open>Receiving\<close>

definition read_text :: "msg_t \<Rightarrow> (string \<times> msg_t) option" where
  "read_text message = do {
     (text, m1) \<leftarrow> MSG_ReadString message;
     Some (map char_of_byte text, m1) }"

text \<open>The record of a redirect, block number -1.\<close>

definition parse_redirect :: "cl_services \<Rightarrow> cl_download \<Rightarrow> msg_t \<Rightarrow> (cl_download \<times> msg_t) run" where
  "parse_redirect services cd message =
     (if cd_wwwDownloadActive cd then checked (do {
        (text, m1) \<leftarrow> read_text message;
        (size', m2) \<leftarrow> MSG_ReadLong m1;
        (flags, m3) \<leftarrow> MSG_ReadLong m2;
        Some (cd, m3) })
      else checked (do {
        (redirectedUrl, m1) \<leftarrow> read_text message;
        (size', m2) \<leftarrow> MSG_ReadLong m1;
        (flags, m3) \<leftarrow> MSG_ReadLong m2;
        let cd1 = cd\<lparr>cd_originalDownloadName := take 63 (cd_downloadName cd),
                     cd_downloadName := take 255 redirectedUrl, cd_downloadSize := size', cd_downloadFlags := flags\<rparr>;
            failed = (\<lambda>c. (add_command ''wwwdl fail'' c)\<lparr>cd_wwwDownloadAborting := True\<rparr>) in
        if flags AND 2 \<noteq> 0 then
          (if \<not> sv_is_update services then Some (failed cd1, m3)
           else Some ((add_command ''wwwdl bbl8r'' (add_request (CommandText ''quit'')
                  (add_request (OpenURL (cd_downloadName cd1)) cd1)))\<lparr>cd_wwwDownloadAborting := True\<rparr>, m3))
        else let cd2 = add_command ''wwwdl ack'' (cd1\<lparr>cd_wwwDownloadActive := True\<rparr>) in
        if strstr (cd_badChecksumList cd2) (CHR ''@'' # cd_originalDownloadName cd2) \<noteq> None
        then Some (failed cd2, m3)
        else case sv_build_path services (cd_downloadTempName cd2) of
          None \<Rightarrow> Some (failed cd2, m3)
        | Some localTempPath \<Rightarrow>
            let cd3 = cd2\<lparr>cd_downloadTempName := take 255 localTempPath\<rparr>;
                cd4 = (if sv_begin_www services (cd_downloadTempName cd3) (cd_downloadName cd3) then cd3 else failed cd3) in
            Some (if flags AND 1 \<noteq> 0
                  then (add_command ''wwwdl bbl8r'' cd4)\<lparr>cd_wwwDownloadDisconnected := True\<rparr> else cd4, m3) }))"

text \<open>What is left to do with a block of the file itself.\<close>

definition finish_download :: "cl_services \<Rightarrow> cl_download \<Rightarrow> cl_download run" where
  "finish_download services cd =
     (let cd1 = (case cd_downloadFile cd of
                   None \<Rightarrow> cd
                 | Some bytes \<Rightarrow> add_request (RenameDownload (cd_downloadTempName cd) (cd_downloadName cd) bytes)
                     (cd\<lparr>cd_downloadFile := None\<rparr>)) in
      CL_NextDownload services (cd1\<lparr>cd_downloadName := [], cd_downloadTempName := []\<rparr>))"

definition accept_block :: "cl_services \<Rightarrow> cl_download \<Rightarrow> 8 word list \<Rightarrow> cl_download run" where
  "accept_block services cd block =
     (let cd1 = add_command (''nextdl '' @ decimal (cd_downloadBlock cd))
                 (cd\<lparr>cd_downloadFile := map_option (\<lambda>f. f @ block) (cd_downloadFile cd)\<rparr>);
          cd2 = cd1\<lparr>cd_downloadCount := i32 (cd_downloadCount cd1 + int (length block)),
                    cd_downloadBlock := i32 (cd_downloadBlock cd1 + 1)\<rparr> in
      if block \<noteq> [] then Done cd2 else finish_download services cd2)"

definition store_block :: "cl_services \<Rightarrow> cl_download \<Rightarrow> int \<Rightarrow> 8 word list \<Rightarrow> cl_download run" where
  "store_block services cd blockNumber block =
     (if cd_downloadBlock cd \<noteq> blockNumber then
        (if blockNumber \<le> cd_downloadBlock cd then Done cd
         else Done (add_command (''retransdl '' @ decimal (cd_downloadBlock cd)) cd))
      else if cd_downloadFile cd = None then
        (if cd_downloadTempName cd = [] then Done (add_command ''stopdl'' cd)
         else if \<not> sv_create services (cd_downloadTempName cd)
         then CL_NextDownload services (add_command ''stopdl'' cd)
         else accept_block services (cd\<lparr>cd_downloadFile := Some []\<rparr>) block)
      else accept_block services cd block)"

text \<open>\<open>blockData\<close> is the caller's stack array of 32768 bytes.\<close>

definition read_block :: "cl_services \<Rightarrow> 8 word list \<Rightarrow> cl_download \<Rightarrow> int \<Rightarrow> msg_t \<Rightarrow> (cl_download \<times> msg_t) run" where
  "read_block services blockData cd blockNumber message =
     run_bind (checked (MSG_ReadShort message)) (\<lambda>(blockLength, m1).
       if blockLength < 0 then Raise ERR_DROP ''CL_ParseDownload: invalid block length %i''
       else run_bind (checked (if blockLength > 0 then MSG_ReadData m1 blockData blockLength else Some (blockData, m1)))
         (\<lambda>(blockData1, m2).
            run_bind (store_block services cd blockNumber (take (nat blockLength) blockData1)) (\<lambda>cd1. Done (cd1, m2))))"

definition CL_ParseDownload :: "cl_services \<Rightarrow> 8 word list \<Rightarrow> cl_download \<Rightarrow> msg_t \<Rightarrow> (cl_download \<times> msg_t) run" where
  "CL_ParseDownload services blockData cd message =
     run_bind (checked (MSG_ReadShort message)) (\<lambda>(blockNumber, m1).
       if blockNumber = -1 then parse_redirect services cd m1
       else if blockNumber = 0 then
         run_bind (checked (MSG_ReadLong m1)) (\<lambda>(downloadSize, m2).
         let cd1 = cd\<lparr>cd_downloadSize := downloadSize\<rparr> in
         if downloadSize < 0 then
           run_bind (checked (read_text m2)) (\<lambda>(errorMessage, m3). Raise ERR_DROP errorMessage)
         else read_block services blockData cd1 blockNumber m2)
       else read_block services blockData cd blockNumber m1)"

end
