(* ===== verification/Checksum.thy ===== *)
theory Checksum
  imports Prelude
begin

text \<open>
  \<open>src/qcommon/q_checksum.c\<close>: the embedded MD4 with its incremental context, the two block
  checksums made from it and the hash of a text. Words are \<open>32 word\<close>. An index into the data
  stays below its length, so it is not reduced; the clearing of the context and of the scratch
  words at the end has no reader and is left out.
\<close>

record MD4_CTX =
  md_state :: "32 word list"
  md_count0 :: "32 word"
  md_count1 :: "32 word"
  md_buffer :: "8 word list"

section \<open>Little-endian words\<close>

fun Encode :: "32 word list \<Rightarrow> 8 word list" where
  "Encode [] = []"
| "Encode (w # ws) =
     ucast w # ucast (drop_bit 8 w) # ucast (drop_bit 16 w) # ucast (drop_bit 24 w) # Encode ws"

fun Decode :: "8 word list \<Rightarrow> 32 word list" where
  "Decode (b0 # b1 # b2 # b3 # bs) =
     (ucast b0 OR (push_bit 8 (ucast b1) OR (push_bit 16 (ucast b2) OR push_bit 24 (ucast b3)))) # Decode bs"
| "Decode _ = []"

section \<open>The compression function\<close>

definition MD4_ROTATE_LEFT :: "32 word \<Rightarrow> nat \<Rightarrow> 32 word" where
  "MD4_ROTATE_LEFT value' bits = push_bit bits value' OR drop_bit (32 - bits) value'"

type_synonym registers = "32 word \<times> 32 word \<times> 32 word \<times> 32 word"

text \<open>One step; the result lists the registers in the order the next step names them.\<close>

definition MD4_ROUND1 :: "32 word list \<Rightarrow> nat \<times> nat \<Rightarrow> registers \<Rightarrow> registers" where
  "MD4_ROUND1 x = (\<lambda>(i, s) (a, b, c, d).
     (d, MD4_ROTATE_LEFT (a + ((((NOT b) AND d) OR (b AND c)) + x ! i)) s, b, c))"

definition MD4_ROUND2 :: "32 word list \<Rightarrow> nat \<times> nat \<Rightarrow> registers \<Rightarrow> registers" where
  "MD4_ROUND2 x = (\<lambda>(i, s) (a, b, c, d).
     (d, MD4_ROTATE_LEFT (a + (((b AND c) OR ((b OR c) AND d)) + x ! i + 0x5a827999)) s, b, c))"

definition MD4_ROUND3 :: "32 word list \<Rightarrow> nat \<times> nat \<Rightarrow> registers \<Rightarrow> registers" where
  "MD4_ROUND3 x = (\<lambda>(i, s) (a, b, c, d).
     (d, MD4_ROTATE_LEFT (a + ((xor b (xor c d)) + x ! i + 0x6ed9eba1)) s, b, c))"

definition round1_steps :: "(nat \<times> nat) list" where
  "round1_steps = [(0,3),(1,7),(2,11),(3,19),(4,3),(5,7),(6,11),(7,19),
                   (8,3),(9,7),(10,11),(11,19),(12,3),(13,7),(14,11),(15,19)]"

definition round2_steps :: "(nat \<times> nat) list" where
  "round2_steps = [(0,3),(4,5),(8,9),(12,13),(1,3),(5,5),(9,9),(13,13),
                   (2,3),(6,5),(10,9),(14,13),(3,3),(7,5),(11,9),(15,13)]"

definition round3_steps :: "(nat \<times> nat) list" where
  "round3_steps = [(0,3),(8,9),(4,11),(12,15),(2,3),(10,9),(6,11),(14,15),
                   (1,3),(9,9),(5,11),(13,15),(3,3),(11,9),(7,11),(15,15)]"

definition compress :: "32 word list \<Rightarrow> 8 word list \<Rightarrow> 32 word list" where
  "compress state block =
     (let x = Decode block;
          start = (state ! 0, state ! 1, state ! 2, state ! 3);
          (a, b, c, d) = fold (MD4_ROUND3 x) round3_steps
             (fold (MD4_ROUND2 x) round2_steps (fold (MD4_ROUND1 x) round1_steps start)) in
      [state ! 0 + a, state ! 1 + b, state ! 2 + c, state ! 3 + d])"

definition MD4Transform :: "MD4_CTX \<Rightarrow> 8 word list \<Rightarrow> MD4_CTX" where
  "MD4Transform context' block = context'\<lparr>md_state := compress (md_state context') block\<rparr>"

section \<open>The incremental interface\<close>

definition md4_start :: "32 word list" where
  "md4_start = [0x67452301, 0xefcdab89, 0x98badcfe, 0x10325476]"

definition MD4Init :: "MD4_CTX \<Rightarrow> MD4_CTX" where
  "MD4Init context' = context'\<lparr>md_count1 := 0, md_count0 := 0, md_state := md4_start\<rparr>"

definition MD4_BLOCK_SIZE :: int where "MD4_BLOCK_SIZE = 64"

function md4_blocks :: "8 word list \<Rightarrow> int \<Rightarrow> int \<Rightarrow> MD4_CTX \<Rightarrow> (int \<times> MD4_CTX) option" where
  "md4_blocks input len copyIndex context' =
     (if copyIndex + MD4_BLOCK_SIZE - 1 < len then
        case copy_out input copyIndex MD4_BLOCK_SIZE of
          None \<Rightarrow> None
        | Some block \<Rightarrow> md4_blocks input len (copyIndex + MD4_BLOCK_SIZE) (MD4Transform context' block)
      else Some (copyIndex, context'))"
  by pat_completeness auto
termination
  by (relation "measure (\<lambda>(_, len, copyIndex, _). nat (len - copyIndex))") (auto simp: MD4_BLOCK_SIZE_def)

declare md4_blocks.simps [simp del]

definition input_index :: "MD4_CTX \<Rightarrow> int" where
  "input_index context' = uint (drop_bit 3 (md_count0 context') AND 63)"

definition count_bytes :: "MD4_CTX \<Rightarrow> int \<Rightarrow> MD4_CTX" where
  "count_bytes context' len =
     (let lengthBits = push_bit 3 (word_of_int len);
          count0 = md_count0 context' + lengthBits;
          carry = (if count0 < lengthBits then md_count1 context' + 1 else md_count1 context') in
      context'\<lparr>md_count0 := count0, md_count1 := carry + drop_bit 29 (word_of_int len)\<rparr>)"

definition MD4Update :: "MD4_CTX \<Rightarrow> 8 word list \<Rightarrow> int \<Rightarrow> MD4_CTX option" where
  "MD4Update context' input len =
     (let inputIndex = input_index context';
          context1 = count_bytes context' len;
          partLength = MD4_BLOCK_SIZE - inputIndex in
      if len < partLength then do {
        rest \<leftarrow> copy_out input 0 len;
        buffer \<leftarrow> copy_in (md_buffer context1) inputIndex rest;
        Some (context1\<lparr>md_buffer := buffer\<rparr>) }
      else do {
        part \<leftarrow> copy_out input 0 partLength;
        full \<leftarrow> copy_in (md_buffer context1) inputIndex part;
        (copyIndex, context2) \<leftarrow> md4_blocks input len partLength
            (MD4Transform (context1\<lparr>md_buffer := full\<rparr>) full);
        rest \<leftarrow> copy_out input copyIndex (len - copyIndex);
        buffer \<leftarrow> copy_in (md_buffer context2) 0 rest;
        Some (context2\<lparr>md_buffer := buffer\<rparr>) })"

definition md4_padding :: "8 word list" where
  "md4_padding = 0x80 # replicate 63 0"

definition MD4Final :: "MD4_CTX \<Rightarrow> 8 word list option" where
  "MD4Final context' =
     (let bits = Encode [md_count0 context', md_count1 context'];
          inputIndex = input_index context';
          padLength = (if inputIndex < 56 then 56 - inputIndex else 120 - inputIndex) in do {
        context1 \<leftarrow> MD4Update context' md4_padding padLength;
        context2 \<leftarrow> MD4Update context1 bits 8;
        Some (Encode (md_state context2)) })"

section \<open>Checksums\<close>

definition fold_digest :: "8 word list \<Rightarrow> 32 word" where
  "fold_digest digest =
     (let digestWords = Decode digest in
      xor (xor (xor (digestWords ! 1) (digestWords ! 0)) (digestWords ! 2)) (digestWords ! 3))"

text \<open>The context is a local variable: \<open>uninitialized\<close> is what the stack holds.\<close>

definition Com_BlockChecksum :: "MD4_CTX \<Rightarrow> 8 word list \<Rightarrow> int \<Rightarrow> 32 word option" where
  "Com_BlockChecksum uninitialized buffer len = do {
     context1 \<leftarrow> MD4Update (MD4Init uninitialized) buffer (u32 len);
     digest \<leftarrow> MD4Final context1;
     Some (fold_digest digest) }"

definition Com_BlockChecksumKey :: "MD4_CTX \<Rightarrow> 8 word list \<Rightarrow> int \<Rightarrow> int \<Rightarrow> 32 word option" where
  "Com_BlockChecksumKey uninitialized buffer len key =
     (let keyBytes = Encode [word_of_int key] in do {
        context1 \<leftarrow> MD4Update (MD4Init uninitialized) keyBytes 4;
        context2 \<leftarrow> MD4Update context1 buffer (u32 len);
        digest \<leftarrow> MD4Final context2;
        Some (fold_digest digest) })"

fun hash_key_loop :: "nat \<Rightarrow> int \<Rightarrow> string \<Rightarrow> 32 word \<Rightarrow> 32 word" where
  "hash_key_loop remaining index [] hash = hash"
| "hash_key_loop 0 index text hash = hash"
| "hash_key_loop (Suc n) index (c # cs) hash =
     hash_key_loop n (index + 1) cs (hash + (word_of_int index + 119) * word_of_int (schar c))"

definition Com_HashKey :: "string \<Rightarrow> int \<Rightarrow> 32 word" where
  "Com_HashKey text len =
     (let hash = hash_key_loop (nat len) 0 text 0;
          signFill = 0 - drop_bit 31 hash;
          shifted10 = drop_bit 10 hash OR push_bit 22 signFill;
          shifted20 = drop_bit 20 hash OR push_bit 12 signFill in
      xor (xor hash shifted10) shifted20)"

end
