(* ===== verification/FsPack.thy ===== *)
theory FsPack
  imports FsPath Checksum
begin

text \<open>
  Mounted paks: \<open>filesystem_pack.c\<close> builds a pak's catalog from the central directory of its
  archive, \<open>FS_PakIsPure\<close> and \<open>FS_FileIsInPAK\<close> of \<open>filesystem_pure.c\<close>, \<open>FS_UseSearchPath\<close> and
  \<open>FS_LanguageHasAssets\<close> of \<open>filesystem_catalog_core.c\<close> and the existence branch of
  \<open>FS_FOpenFileRead_Internal\<close> look names up in it. The archive library is not under \<open>src/\<close>: each
  of the two passes over an archive reads a list of rows, \<open>None\<close> being a row that cannot be
  selected or read, and nothing makes the two lists agree. A chain of the hash table is the list
  of its entries, the head first.
\<close>

record archive_row =
  ar_filename :: string
  ar_filenameLength :: int
  ar_uncompressedSize :: int
  ar_crc :: "32 word"
  ar_position :: int

record fileInPack_t =
  fp_zipPosition :: int
  fp_name :: string
  fp_data_name :: string

record pack_t =
  pk_pakFilename :: string
  pk_pakBasename :: string
  pk_checksum :: int
  pk_pureChecksum :: int
  pk_numFiles :: int
  pk_hashSize :: int
  pk_hashTable :: "fileInPack_t list list"
  pk_fileList :: "fileInPack_t list"

record directory_t =
  di_path :: string
  di_gamedir :: string

record searchpath_t =
  sp_pack :: "pack_t option"
  sp_dir :: "directory_t option"
  sp_localized :: bool
  sp_language :: int

abbreviation FS_MAX_PAK_ARCHIVE_BYTES :: int where "FS_MAX_PAK_ARCHIVE_BYTES \<equiv> 536870912"
abbreviation FS_MAX_PAK_ENTRY_BYTES :: int where "FS_MAX_PAK_ENTRY_BYTES \<equiv> 536870912"
abbreviation FS_MAX_PAK_ENTRIES :: nat where "FS_MAX_PAK_ENTRIES \<equiv> 32768"
abbreviation FS_PACK_NAME_SIZE :: int where "FS_PACK_NAME_SIZE \<equiv> 256"

section \<open>Building a catalog\<close>

definition row_accepted :: "archive_row \<Rightarrow> bool" where
  "row_accepted row \<longleftrightarrow>
     ar_filenameLength row < FS_PACK_NAME_SIZE \<and>
     (ar_filenameLength row = int (length (ar_filename row)) \<or>
      ar_filenameLength row = int (length (ar_filename row)) + 1) \<and>
     ar_uncompressedSize row \<le> FS_MAX_PAK_ENTRY_BYTES \<and>
     coduo_compat_path_is_safe_relative (Some (ar_filename row))"

text \<open>The first pass measures the names of \<open>n\<close> rows.\<close>

fun measure_names :: "nat \<Rightarrow> archive_row option list \<Rightarrow> int option" where
  "measure_names 0 rows = Some 0"
| "measure_names (Suc n) (Some row # rows) =
     (if row_accepted row then do {
        rest \<leftarrow> measure_names n rows;
        Some (int (length (ar_filename row)) + 1 + rest) }
      else None)"
| "measure_names (Suc n) _ = None"

text \<open>\<open>hashSize\<close> starts at 1 and doubles, so it is a power of two.\<close>

function pack_hash_bits :: "nat \<Rightarrow> nat \<Rightarrow> nat" where
  "pack_hash_bits entryCount k =
     (if 2 ^ k \<le> entryCount \<and> 2 ^ k < (2048 :: nat) then pack_hash_bits entryCount (Suc k) else k)"
  by pat_completeness auto
termination
proof (relation "measure (\<lambda>(_, k). 2048 - k)")
  fix entryCount k :: nat
  assume "2 ^ k \<le> entryCount \<and> 2 ^ k < (2048 :: nat)"
  then have "k < 2048" using less_exp [of k] by linarith
  then show "((entryCount, Suc k), entryCount, k) \<in> measure (\<lambda>(_, k). 2048 - k)" by simp
qed simp

declare pack_hash_bits.simps [simp del]

definition path_basename :: "string \<Rightarrow> string" where
  "path_basename name = rev (takeWhile (\<lambda>c. c \<noteq> slash \<and> c \<noteq> back_slash) (rev name))"

definition pack_entry :: "archive_row \<Rightarrow> fileInPack_t" where
  "pack_entry row =
     (let filename = Q_strlwr (ar_filename row) in
      \<lparr>fp_zipPosition = ar_position row, fp_name = filename, fp_data_name = path_basename filename\<rparr>)"

definition push_entry :: "int \<Rightarrow> fileInPack_t \<Rightarrow> fileInPack_t list list \<Rightarrow> fileInPack_t list list" where
  "push_entry hashSize packFile hashTable =
     (let hash = FS_HashFileName (fp_name packFile) hashSize in
      hashTable[hash := packFile # hashTable ! hash])"

text \<open>The second pass: the names left in the pool, the checksums, the table and the list so far.\<close>

fun publish_rows ::
    "nat \<Rightarrow> archive_row option list \<Rightarrow> int \<Rightarrow> int \<Rightarrow>
     32 word list \<times> fileInPack_t list list \<times> fileInPack_t list \<Rightarrow>
     (32 word list \<times> fileInPack_t list list \<times> fileInPack_t list) option" where
  "publish_rows 0 rows hashSize remainingNameBytes state = Some state"
| "publish_rows (Suc n) (Some row # rows) hashSize remainingNameBytes (checksums, hashTable, packFiles) =
     (let publishedNameBytes = int (length (ar_filename row)) + 1 in
      if \<not> row_accepted row \<or> publishedNameBytes > remainingNameBytes \<or> ar_position row < 0 then None
      else publish_rows n rows hashSize (remainingNameBytes - publishedNameBytes)
        (if ar_uncompressedSize row \<noteq> 0 then checksums @ [ar_crc row] else checksums,
         push_entry hashSize (pack_entry row) hashTable, packFiles @ [pack_entry row]))"
| "publish_rows (Suc n) _ hashSize remainingNameBytes state = None"

definition without_pk3 :: "string \<Rightarrow> string" where
  "without_pk3 basename =
     (if length basename > 4 \<and> Q_stricmp (Some (drop (length basename - 4) basename)) (Some ''.pk3'') = 0
      then take (length basename - 4) basename else basename)"

text \<open>
  \<open>archiveSize\<close> is the size \<open>stat\<close> reports of a regular file, \<open>catalog\<close> what the archive library
  opens: its entry count and the rows of the two passes. The result pairs the pak with
  \<open>fs_packFiles\<close>; \<open>None\<close> is a \<open>NULL\<close> return, which leaves that count alone.
\<close>

definition FS_LoadZipFile ::
    "MD4_CTX \<Rightarrow> int \<Rightarrow> int \<Rightarrow> int option \<Rightarrow> (nat \<times> archive_row option list \<times> archive_row option list) option \<Rightarrow>
     string \<Rightarrow> string \<Rightarrow> (pack_t \<times> int) option" where
  "FS_LoadZipFile uninitialized fs_checksumFeed fs_packFiles archiveSize catalog zipFile basename = do {
     archiveBytes \<leftarrow> archiveSize;
     if archiveBytes < 0 \<or> archiveBytes > FS_MAX_PAK_ARCHIVE_BYTES then None
     else do {
       (entryCount, firstPass, secondPass) \<leftarrow> catalog;
       if entryCount > FS_MAX_PAK_ENTRIES then None
       else do {
         namesByteCount \<leftarrow> measure_names entryCount firstPass;
         let hashSize = 2 ^ pack_hash_bits entryCount 0;
         (checksums, hashTable, packFiles) \<leftarrow>
            publish_rows entryCount secondPass (int hashSize) namesByteCount ([], replicate hashSize [], []);
         checksum \<leftarrow> Com_BlockChecksum uninitialized (Encode checksums) (4 * int (length checksums));
         pureChecksum \<leftarrow> Com_BlockChecksumKey uninitialized (Encode checksums) (4 * int (length checksums)) fs_checksumFeed;
         Some (\<lparr>pk_pakFilename = take 255 zipFile, pk_pakBasename = without_pk3 (take 255 basename),
                pk_checksum = sint checksum, pk_pureChecksum = sint pureChecksum,
                pk_numFiles = int entryCount, pk_hashSize = int hashSize, pk_hashTable = hashTable,
                pk_fileList = packFiles\<rparr>,
               i32 (fs_packFiles + int entryCount)) } } }"

section \<open>Looking names up\<close>

definition FS_PakIsPure :: "int list \<Rightarrow> pack_t \<Rightarrow> bool" where
  "FS_PakIsPure fs_serverPaks pack = (if fs_serverPaks = [] then True else pk_checksum pack \<in> set fs_serverPaks)"

text \<open>
  \<open>in_scope\<close> is \<open>filesystem_compat_server_scope_allows_searchpath\<close>, \<open>ignore\<close> the variable
  \<open>fs_ignoreLocalized\<close>, \<open>language\<close> the client's language.
\<close>

definition FS_UseSearchPath :: "(searchpath_t \<Rightarrow> bool) \<Rightarrow> int \<Rightarrow> int \<Rightarrow> searchpath_t \<Rightarrow> bool" where
  "FS_UseSearchPath in_scope ignore language searchpath =
     (if \<not> in_scope searchpath then False
      else if \<not> sp_localized searchpath then True
      else if ignore \<noteq> 0 then False
      else sp_language searchpath = language)"

definition FS_LanguageHasAssets :: "(searchpath_t \<Rightarrow> bool) \<Rightarrow> searchpath_t list \<Rightarrow> int \<Rightarrow> bool" where
  "FS_LanguageHasAssets in_scope fs_searchpaths language =
     list_ex (\<lambda>s. in_scope s \<and> sp_localized s \<and> sp_language s = language) fs_searchpaths"

definition pack_chain :: "pack_t \<Rightarrow> string \<Rightarrow> fileInPack_t list option" where
  "pack_chain pack path = peek (pk_hashTable pack) (int (FS_HashFileName path (pk_hashSize pack)))"

text \<open>The result is the code's 1 with the checksum it stores, \<open>Some None\<close> its -1.\<close>

fun find_in_paks :: "(searchpath_t \<Rightarrow> bool) \<Rightarrow> int list \<Rightarrow> string \<Rightarrow> searchpath_t list \<Rightarrow> int option option" where
  "find_in_paks in_scope fs_serverPaks path [] = Some None"
| "find_in_paks in_scope fs_serverPaks path (search # rest) =
     (if \<not> in_scope search then find_in_paks in_scope fs_serverPaks path rest
      else case sp_pack search of
        None \<Rightarrow> find_in_paks in_scope fs_serverPaks path rest
      | Some pack \<Rightarrow> do {
          chain \<leftarrow> pack_chain pack path;
          if chain = [] then find_in_paks in_scope fs_serverPaks path rest
          else if \<not> sp_localized search \<and> \<not> FS_PakIsPure fs_serverPaks pack
          then find_in_paks in_scope fs_serverPaks path rest
          else if list_ex (\<lambda>file. FS_FilenameCompare path (fp_name file) = 0) chain
          then Some (Some (pk_pureChecksum pack))
          else find_in_paks in_scope fs_serverPaks path rest })"

definition FS_FileIsInPAK ::
    "(searchpath_t \<Rightarrow> bool) \<Rightarrow> int list \<Rightarrow> searchpath_t list \<Rightarrow> string \<Rightarrow> int option option" where
  "FS_FileIsInPAK in_scope fs_serverPaks fs_searchpaths path =
     (let path1 = (case path of c # cs \<Rightarrow> if c = slash \<or> c = back_slash then cs else path | [] \<Rightarrow> []) in
      if strstr path1 ''..'' \<noteq> None \<or> strstr path1 ''::'' \<noteq> None then Some None
      else find_in_paks in_scope fs_serverPaks path1 fs_searchpaths)"

text \<open>
  \<open>FS_FOpenFileRead_Internal\<close> with a \<open>NULL\<close> handle: whether the file exists. \<open>opens\<close> tells
  whether the host opens a path below a directory. A pak whose chain is not empty is the last
  word of its search path.
\<close>

fun file_exists ::
    "char \<Rightarrow> string \<Rightarrow> (searchpath_t \<Rightarrow> bool) \<Rightarrow> (string \<Rightarrow> string \<Rightarrow> bool) \<Rightarrow> string \<Rightarrow> bool \<Rightarrow>
     searchpath_t list \<Rightarrow> bool run" where
  "file_exists hostSeparator gameDir useSearchPath opens qpath quiet [] = Done False"
| "file_exists hostSeparator gameDir useSearchPath opens qpath quiet (search # rest) =
     (let next_path = file_exists hostSeparator gameDir useSearchPath opens qpath quiet rest;
          in_directory = (case sp_dir search of
            None \<Rightarrow> next_path
          | Some directory \<Rightarrow> run_bind
              (FS_BuildOSPath_Internal hostSeparator gameDir (di_path directory) (Some (di_gamedir directory)) qpath quiet)
              (\<lambda>osPath. if opens (di_path directory) osPath then Done True else next_path)) in
      if \<not> useSearchPath search then next_path
      else case sp_pack search of
        None \<Rightarrow> in_directory
      | Some pack \<Rightarrow> run_bind (checked (pack_chain pack qpath)) (\<lambda>chain.
          if chain = [] then in_directory
          else if list_ex (\<lambda>file. FS_FilenameCompare (fp_name file) qpath = 0) chain then Done True
          else next_path))"

definition FS_FileExistsInPaths ::
    "char \<Rightarrow> string \<Rightarrow> (searchpath_t \<Rightarrow> bool) \<Rightarrow> (string \<Rightarrow> string \<Rightarrow> bool) \<Rightarrow> searchpath_t list \<Rightarrow>
     string \<Rightarrow> bool \<Rightarrow> bool run" where
  "FS_FileExistsInPaths hostSeparator gameDir useSearchPath opens fs_searchpaths qpath quiet =
     (if \<not> coduo_compat_path_is_safe_relative (Some qpath) then Done False
      else file_exists hostSeparator gameDir useSearchPath opens qpath quiet fs_searchpaths)"

end
