(* ===== verification/Huffman.thy ===== *)
theory Huffman
  imports Msg
begin

text \<open>
  The adaptive Huffman coder, \<open>src/qcommon/huffman.c\<close>, and the fixed tree of
  \<open>src/qcommon/msg_huffman.c\<close>. A \<open>node_t *\<close> is \<open>NULL\<close> or the index of a node of the
  state's pool, a \<open>node_t **\<close> is \<open>NULL\<close> or the index of a leader slot; the free list threads
  slots through the slots themselves, so a slot holds a node or a slot pointer. Using a null
  pointer, an index outside a pool, or a slot's content at the wrong type is \<open>None\<close>. The two
  recursions that climb to the root and the loop that walks down carry a fuel of the pool's size.
\<close>

section \<open>State\<close>

record node_t =
  nd_left :: "nat option"
  nd_right :: "nat option"
  nd_parent :: "nat option"
  nd_next :: "nat option"
  nd_prev :: "nat option"
  nd_head :: "nat option"
  nd_weight :: int
  nd_symbol :: int

datatype huff_slot = Slot_null | Slot_node nat | Slot_link nat

record huff_t =
  hf_blocNode :: nat
  hf_blocPtrs :: nat
  hf_tree :: "nat option"
  hf_lhead :: "nat option"
  hf_ltail :: "nat option"
  hf_loc :: "nat option list"
  hf_freelist :: "nat option"
  hf_nodeList :: "node_t list"
  hf_nodePtrs :: "huff_slot list"

record huffman_t =
  hm_compressor :: huff_t
  hm_decompressor :: huff_t

abbreviation NYT :: int where "NYT \<equiv> 256"
abbreviation INTERNAL_NODE :: int where "INTERNAL_NODE \<equiv> 257"
abbreviation HUFFMAN_NODE_POOL_COUNT :: nat where "HUFFMAN_NODE_POOL_COUNT \<equiv> 768"
abbreviation HUFFMAN_TRANSFORM_ERROR :: int where "HUFFMAN_TRANSFORM_ERROR \<equiv> -1"

definition zero_node :: node_t where
  "zero_node = \<lparr>nd_left = None, nd_right = None, nd_parent = None, nd_next = None, nd_prev = None,
     nd_head = None, nd_weight = 0, nd_symbol = 0\<rparr>"

definition zero_huff :: huff_t where
  "zero_huff = \<lparr>hf_blocNode = 0, hf_blocPtrs = 0, hf_tree = None, hf_lhead = None, hf_ltail = None,
     hf_loc = replicate 257 None, hf_freelist = None,
     hf_nodeList = replicate HUFFMAN_NODE_POOL_COUNT zero_node,
     hf_nodePtrs = replicate HUFFMAN_NODE_POOL_COUNT Slot_null\<rparr>"

text \<open>The state with the NYT leaf alone, as three functions set it up.\<close>

definition initial_huff :: "nat option \<Rightarrow> huff_t" where
  "initial_huff ltail = zero_huff\<lparr>hf_blocNode := 1, hf_tree := Some 0, hf_lhead := Some 0, hf_ltail := ltail,
     hf_loc := (replicate 257 None)[256 := Some 0],
     hf_nodeList := (replicate HUFFMAN_NODE_POOL_COUNT zero_node)[0 := zero_node\<lparr>nd_symbol := NYT\<rparr>]\<rparr>"

definition Huff_Init :: huffman_t where
  "Huff_Init = \<lparr>hm_compressor = initial_huff None, hm_decompressor = initial_huff (Some 0)\<rparr>"

section \<open>Pointers\<close>

definition deref :: "huff_t \<Rightarrow> nat option \<Rightarrow> node_t option" where
  "deref st p = (case p of None \<Rightarrow> None | Some n \<Rightarrow> peek (hf_nodeList st) (int n))"

definition set_node :: "huff_t \<Rightarrow> nat option \<Rightarrow> (node_t \<Rightarrow> node_t) \<Rightarrow> huff_t option" where
  "set_node st p f = (case p of None \<Rightarrow> None | Some n \<Rightarrow> do {
     a \<leftarrow> peek (hf_nodeList st) (int n);
     ns \<leftarrow> poke (hf_nodeList st) (int n) (f a);
     Some (st\<lparr>hf_nodeList := ns\<rparr>) })"

definition get_slot :: "huff_t \<Rightarrow> nat option \<Rightarrow> huff_slot option" where
  "get_slot st h = (case h of None \<Rightarrow> None | Some i \<Rightarrow> peek (hf_nodePtrs st) (int i))"

definition set_slot :: "huff_t \<Rightarrow> nat option \<Rightarrow> huff_slot \<Rightarrow> huff_t option" where
  "set_slot st h v = (case h of None \<Rightarrow> None | Some i \<Rightarrow> do {
     ss \<leftarrow> poke (hf_nodePtrs st) (int i) v;
     Some (st\<lparr>hf_nodePtrs := ss\<rparr>) })"

fun as_node :: "huff_slot \<Rightarrow> nat option option" where
  "as_node Slot_null = Some None"
| "as_node (Slot_node n) = Some (Some n)"
| "as_node (Slot_link i) = None"

fun as_link :: "huff_slot \<Rightarrow> nat option option" where
  "as_link Slot_null = Some None"
| "as_link (Slot_node n) = None"
| "as_link (Slot_link i) = Some (Some i)"

fun node_slot :: "nat option \<Rightarrow> huff_slot" where
  "node_slot None = Slot_null"
| "node_slot (Some n) = Slot_node n"

fun link_slot :: "nat option \<Rightarrow> huff_slot" where
  "link_slot None = Slot_null"
| "link_slot (Some i) = Slot_link i"

definition get_ppnode :: "huff_t \<Rightarrow> (nat option \<times> huff_t) option" where
  "get_ppnode st =
     (if hf_freelist st = None
      then Some (Some (hf_blocPtrs st), st\<lparr>hf_blocPtrs := hf_blocPtrs st + 1\<rparr>)
      else do {
        content \<leftarrow> get_slot st (hf_freelist st);
        link \<leftarrow> as_link content;
        Some (hf_freelist st, st\<lparr>hf_freelist := link\<rparr>) })"

definition free_ppnode :: "huff_t \<Rightarrow> nat option \<Rightarrow> huff_t option" where
  "free_ppnode st head = do {
     st1 \<leftarrow> set_slot st head (link_slot (hf_freelist st));
     Some (st1\<lparr>hf_freelist := head\<rparr>) }"

section \<open>The tree and the list\<close>

text \<open>Makes \<open>new\<close> the child of \<open>parent\<close> that \<open>old\<close> was, or the root.\<close>

definition replace_child :: "huff_t \<Rightarrow> nat option \<Rightarrow> nat option \<Rightarrow> nat option \<Rightarrow> huff_t option" where
  "replace_child st parent old new =
     (if parent = None then Some (st\<lparr>hf_tree := new\<rparr>)
      else do {
        p \<leftarrow> deref st parent;
        if nd_left p = old then set_node st parent (\<lambda>a. a\<lparr>nd_left := new\<rparr>)
        else set_node st parent (\<lambda>a. a\<lparr>nd_right := new\<rparr>) })"

definition huff_swap :: "huff_t \<Rightarrow> nat option \<Rightarrow> nat option \<Rightarrow> huff_t option" where
  "huff_swap st first second = do {
     f \<leftarrow> deref st first;
     s \<leftarrow> deref st second;
     st1 \<leftarrow> replace_child st (nd_parent f) first second;
     st2 \<leftarrow> replace_child st1 (nd_parent s) second first;
     st3 \<leftarrow> set_node st2 first (\<lambda>a. a\<lparr>nd_parent := nd_parent s\<rparr>);
     set_node st3 second (\<lambda>a. a\<lparr>nd_parent := nd_parent f\<rparr>) }"

text \<open>\<open>if (p != NULL) p->field = v\<close>.\<close>

definition set_if :: "huff_t \<Rightarrow> nat option \<Rightarrow> (node_t \<Rightarrow> node_t) \<Rightarrow> huff_t option" where
  "set_if st p f = (if p = None then Some st else set_node st p f)"

definition swaplist :: "huff_t \<Rightarrow> nat option \<Rightarrow> nat option \<Rightarrow> huff_t option" where
  "swaplist st first second = do {
     f \<leftarrow> deref st first;
     s \<leftarrow> deref st second;
     st1 \<leftarrow> set_node st first (\<lambda>a. a\<lparr>nd_next := nd_next s\<rparr>);
     st2 \<leftarrow> set_node st1 second (\<lambda>a. a\<lparr>nd_next := nd_next f\<rparr>);
     f2 \<leftarrow> deref st2 first;
     s2 \<leftarrow> deref st2 second;
     st3 \<leftarrow> set_node st2 first (\<lambda>a. a\<lparr>nd_prev := nd_prev s2\<rparr>);
     st4 \<leftarrow> set_node st3 second (\<lambda>a. a\<lparr>nd_prev := nd_prev f2\<rparr>);
     f4 \<leftarrow> deref st4 first;
     st5 \<leftarrow> (if nd_next f4 = first then set_node st4 first (\<lambda>a. a\<lparr>nd_next := second\<rparr>) else Some st4);
     s5 \<leftarrow> deref st5 second;
     st6 \<leftarrow> (if nd_next s5 = second then set_node st5 second (\<lambda>a. a\<lparr>nd_next := first\<rparr>) else Some st5);
     f6 \<leftarrow> deref st6 first;
     st7 \<leftarrow> set_if st6 (nd_next f6) (\<lambda>a. a\<lparr>nd_prev := first\<rparr>);
     s7 \<leftarrow> deref st7 second;
     st8 \<leftarrow> set_if st7 (nd_next s7) (\<lambda>a. a\<lparr>nd_prev := second\<rparr>);
     f8 \<leftarrow> deref st8 first;
     st9 \<leftarrow> set_if st8 (nd_prev f8) (\<lambda>a. a\<lparr>nd_next := first\<rparr>);
     s9 \<leftarrow> deref st9 second;
     set_if st9 (nd_prev s9) (\<lambda>a. a\<lparr>nd_next := second\<rparr>) }"

text \<open>\<open>p != NULL && p->weight == weight\<close>.\<close>

definition same_weight :: "huff_t \<Rightarrow> nat option \<Rightarrow> int \<Rightarrow> bool option" where
  "same_weight st p weight =
     (if p = None then Some False else do { a \<leftarrow> deref st p; Some (nd_weight a = weight) })"

section \<open>Counting a symbol\<close>

text \<open>The node trades places with the leader of its weight block.\<close>

definition to_leader :: "huff_t \<Rightarrow> nat option \<Rightarrow> huff_t option" where
  "to_leader st node = do {
     a \<leftarrow> deref st node;
     same \<leftarrow> same_weight st (nd_next a) (nd_weight a);
     if \<not> same then Some st
     else do {
       content \<leftarrow> get_slot st (nd_head a);
       leader \<leftarrow> as_node content;
       st1 \<leftarrow> (if leader \<noteq> nd_parent a then huff_swap st leader node else Some st);
       swaplist st1 leader node } }"

definition leave_block :: "huff_t \<Rightarrow> nat option \<Rightarrow> huff_t option" where
  "leave_block st node = do {
     a \<leftarrow> deref st node;
     same \<leftarrow> same_weight st (nd_prev a) (nd_weight a);
     if same then set_slot st (nd_head a) (node_slot (nd_prev a))
     else do {
       st1 \<leftarrow> set_slot st (nd_head a) Slot_null;
       free_ppnode st1 (nd_head a) } }"

definition enter_block :: "huff_t \<Rightarrow> nat option \<Rightarrow> huff_t option" where
  "enter_block st node = do {
     st1 \<leftarrow> set_node st node (\<lambda>a. a\<lparr>nd_weight := i32 (nd_weight a + 1)\<rparr>);
     a \<leftarrow> deref st1 node;
     same \<leftarrow> same_weight st1 (nd_next a) (nd_weight a);
     if same then do {
       b \<leftarrow> deref st1 (nd_next a);
       set_node st1 node (\<lambda>a. a\<lparr>nd_head := nd_head b\<rparr>) }
     else do {
       (head, st2) \<leftarrow> get_ppnode st1;
       st3 \<leftarrow> set_node st2 node (\<lambda>a. a\<lparr>nd_head := head\<rparr>);
       set_slot st3 head (node_slot node) } }"

definition behind_parent :: "huff_t \<Rightarrow> nat option \<Rightarrow> huff_t option" where
  "behind_parent st node = do {
     a \<leftarrow> deref st node;
     if nd_prev a \<noteq> nd_parent a then Some st
     else do {
       st1 \<leftarrow> swaplist st node (nd_parent a);
       a1 \<leftarrow> deref st1 node;
       content \<leftarrow> get_slot st1 (nd_head a1);
       leader \<leftarrow> as_node content;
       if leader = node then set_slot st1 (nd_head a1) (node_slot (nd_parent a1)) else Some st1 } }"

fun increment :: "nat \<Rightarrow> huff_t \<Rightarrow> nat option \<Rightarrow> huff_t option" where
  "increment 0 st node = (if node = None then Some st else None)"
| "increment (Suc fuel) st node =
     (if node = None then Some st
      else do {
        st1 \<leftarrow> to_leader st node;
        st2 \<leftarrow> leave_block st1 node;
        st3 \<leftarrow> enter_block st2 node;
        a \<leftarrow> deref st3 node;
        if nd_parent a = None then Some st3
        else do {
          st4 \<leftarrow> increment fuel st3 (nd_parent a);
          behind_parent st4 node } })"

text \<open>The leader slot of a new node that goes in front of the list behind \<open>lhead\<close>.\<close>

definition new_head :: "huff_t \<Rightarrow> nat option \<Rightarrow> nat option \<Rightarrow> nat option \<Rightarrow> nat option \<Rightarrow> huff_t option" where
  "new_head st node following content alone =
     (if following \<noteq> None then do {
        st1 \<leftarrow> set_node st following (\<lambda>a. a\<lparr>nd_prev := node\<rparr>);
        b \<leftarrow> deref st1 following;
        if nd_weight b = 1 then set_node st1 node (\<lambda>a. a\<lparr>nd_head := nd_head b\<rparr>)
        else do {
          (head, st2) \<leftarrow> get_ppnode st1;
          st3 \<leftarrow> set_node st2 node (\<lambda>a. a\<lparr>nd_head := head\<rparr>);
          set_slot st3 head (node_slot content) } }
      else do {
        (head, st2) \<leftarrow> get_ppnode st;
        st3 \<leftarrow> set_node st2 node (\<lambda>a. a\<lparr>nd_head := head\<rparr>);
        set_slot st3 head (node_slot alone) })"

definition list_next :: "huff_t \<Rightarrow> (nat option) option" where
  "list_next st = map_option nd_next (deref st (hf_lhead st))"

text \<open>Puts a node of weight 1 right behind \<open>lhead\<close> in the list.\<close>

definition push_front :: "huff_t \<Rightarrow> nat option \<Rightarrow> int \<Rightarrow> nat option \<Rightarrow> nat option \<Rightarrow> huff_t option" where
  "push_front st node symbol content alone = do {
     following \<leftarrow> list_next st;
     st1 \<leftarrow> set_node st node (\<lambda>a. a\<lparr>nd_symbol := symbol, nd_weight := 1, nd_next := following\<rparr>);
     st2 \<leftarrow> new_head st1 node following content alone;
     st3 \<leftarrow> set_node st2 (hf_lhead st2) (\<lambda>a. a\<lparr>nd_next := node\<rparr>);
     set_node st3 node (\<lambda>a. a\<lparr>nd_prev := hf_lhead st3\<rparr>) }"

definition Huff_addRef :: "huff_t \<Rightarrow> 8 word \<Rightarrow> huff_t option" where
  "Huff_addRef st symbol = do {
     known \<leftarrow> peek (hf_loc st) (uint symbol);
     if known \<noteq> None then increment HUFFMAN_NODE_POOL_COUNT st known
     else do {
       let leaf = Some (hf_blocNode st); internal = Some (hf_blocNode st + 1);
           st0 = st\<lparr>hf_blocNode := hf_blocNode st + 2\<rparr> in do {
       st1 \<leftarrow> push_front st0 internal INTERNAL_NODE internal internal;
       st2 \<leftarrow> push_front st1 leaf (uint symbol) internal leaf;
       st3 \<leftarrow> set_node st2 leaf (\<lambda>a. a\<lparr>nd_left := None, nd_right := None\<rparr>);
       nyt \<leftarrow> deref st3 (hf_lhead st3);
       st4 \<leftarrow> replace_child st3 (nd_parent nyt) (hf_lhead st3) internal;
       st5 \<leftarrow> set_node st4 internal (\<lambda>a. a\<lparr>nd_right := leaf, nd_left := hf_lhead st4, nd_parent := nd_parent nyt\<rparr>);
       st6 \<leftarrow> set_node st5 leaf (\<lambda>a. a\<lparr>nd_parent := internal\<rparr>);
       st7 \<leftarrow> set_node st6 (hf_lhead st6) (\<lambda>a. a\<lparr>nd_parent := internal\<rparr>);
       loc \<leftarrow> poke (hf_loc st7) (uint symbol) leaf;
       increment HUFFMAN_NODE_POOL_COUNT (st7\<lparr>hf_loc := loc\<rparr>) (nd_parent nyt) } } }"

section \<open>Bits\<close>

text \<open>
  A bit cursor and the block it points into. The file's global \<open>bloc\<close> is the first component:
  every entry point sets it before use and hands it back to its caller's offset.
\<close>

type_synonym bit_cursor = "int \<times> 8 word list"

definition add_bit :: "int \<Rightarrow> bit_cursor \<Rightarrow> bit_cursor option" where
  "add_bit b = (\<lambda>(bloc, output). do {
     o1 \<leftarrow> (if bloc mod 8 = 0 then poke output (bloc div 8) 0 else Some output);
     old \<leftarrow> peek o1 (bloc div 8);
     o2 \<leftarrow> poke o1 (bloc div 8) (old OR push_bit (nat (bloc mod 8)) (word_of_int b));
     Some (i32 (bloc + 1), o2) })"

definition get_bit :: "8 word list \<Rightarrow> int \<Rightarrow> (int \<times> int) option" where
  "get_bit input bloc = do {
     b \<leftarrow> peek input (bloc div 8);
     Some (uint (drop_bit (nat (bloc mod 8)) b AND 1), i32 (bloc + 1)) }"

definition Huff_putBit :: "int \<Rightarrow> 8 word list \<Rightarrow> int \<Rightarrow> (8 word list \<times> int) option" where
  "Huff_putBit b output offset = do {
     (bloc, o1) \<leftarrow> add_bit b (offset, output);
     Some (o1, bloc) }"

definition Huff_getBit :: "8 word list \<Rightarrow> int \<Rightarrow> (int \<times> int) option" where
  "Huff_getBit input offset = get_bit input offset"

section \<open>Walking the tree\<close>

text \<open>
  The loops that follow bits from a node to a leaf, with their bit source: the next bit and the
  source behind it, or \<open>None\<close> at the end of the input.
\<close>

datatype walk = At_leaf nat | At_null | No_bits

fun walk_down :: "nat \<Rightarrow> huff_t \<Rightarrow> ('c \<Rightarrow> (int \<times> 'c) option) \<Rightarrow> nat option \<Rightarrow> 'c \<Rightarrow> (walk \<times> 'c) option" where
  "walk_down fuel st source None c = Some (At_null, c)"
| "walk_down fuel st source (Some n) c = do {
     a \<leftarrow> deref st (Some n);
     if nd_symbol a \<noteq> INTERNAL_NODE then Some (At_leaf n, c)
     else case fuel of
       0 \<Rightarrow> None
     | Suc k \<Rightarrow> (case source c of
           None \<Rightarrow> Some (No_bits, c)
         | Some (b, c1) \<Rightarrow> walk_down k st source (if b \<noteq> 0 then nd_right a else nd_left a) c1) }"

text \<open>The result, the symbol stored through the pointer, and the cursor.\<close>

definition Huff_Receive ::
    "huff_t \<Rightarrow> nat option \<Rightarrow> int \<Rightarrow> 8 word list \<Rightarrow> int \<Rightarrow> (int \<times> int \<times> int) option" where
  "Huff_Receive st node symbol input bloc = do {
     (w, bloc1) \<leftarrow> walk_down HUFFMAN_NODE_POOL_COUNT st (get_bit input) node bloc;
     case w of
       At_null \<Rightarrow> Some (0, symbol, bloc1)
     | At_leaf n \<Rightarrow> do { a \<leftarrow> deref st (Some n); Some (nd_symbol a, nd_symbol a, bloc1) }
     | No_bits \<Rightarrow> None }"

definition Huff_offsetReceive ::
    "huff_t \<Rightarrow> nat option \<Rightarrow> 8 word list \<Rightarrow> int \<Rightarrow> (int \<times> int) option" where
  "Huff_offsetReceive st node input offset = do {
     (w, bloc) \<leftarrow> walk_down HUFFMAN_NODE_POOL_COUNT st (get_bit input) node offset;
     case w of
       At_null \<Rightarrow> Some (0, offset)
     | At_leaf n \<Rightarrow> do { a \<leftarrow> deref st (Some n); Some (nd_symbol a, bloc) }
     | No_bits \<Rightarrow> None }"

text \<open>Climbing to the root and writing the edges on the way back.\<close>

fun huffman_send :: "nat \<Rightarrow> huff_t \<Rightarrow> nat option \<Rightarrow> nat option \<Rightarrow> bit_cursor \<Rightarrow> bit_cursor option" where
  "huffman_send fuel st node child c = do {
     a \<leftarrow> deref st node;
     c1 \<leftarrow> (if nd_parent a \<noteq> None
            then (case fuel of 0 \<Rightarrow> None | Suc k \<Rightarrow> huffman_send k st (nd_parent a) node c)
            else Some c);
     if child \<noteq> None then add_bit (if nd_right a = child then 1 else 0) c1 else Some c1 }"

declare huffman_send.simps [simp del]

definition send_code :: "huff_t \<Rightarrow> nat option \<Rightarrow> bit_cursor \<Rightarrow> bit_cursor option" where
  "send_code st node c = do {
     a \<leftarrow> deref st node;
     if nd_parent a \<noteq> None then huffman_send (HUFFMAN_NODE_POOL_COUNT - 1) st (nd_parent a) node c else Some c }"

fun add_literal :: "nat \<Rightarrow> int \<Rightarrow> bit_cursor \<Rightarrow> bit_cursor option" where
  "add_literal 0 symbol c = Some c"
| "add_literal (Suc n) symbol c = do {
     c1 \<leftarrow> add_bit ((symbol div 2 ^ n) mod 2) c;
     add_literal n symbol c1 }"

text \<open>Without an NYT leaf the function would call itself for NYT forever.\<close>

definition Huff_transmit :: "huff_t \<Rightarrow> int \<Rightarrow> bit_cursor \<Rightarrow> bit_cursor option" where
  "Huff_transmit st symbol c = do {
     node \<leftarrow> peek (hf_loc st) symbol;
     if node = None then do {
       nyt \<leftarrow> peek (hf_loc st) NYT;
       if nyt = None then None
       else do {
         c1 \<leftarrow> send_code st nyt c;
         add_literal 8 symbol c1 } }
     else send_code st node c }"

definition Huff_offsetTransmit :: "huff_t \<Rightarrow> int \<Rightarrow> 8 word list \<Rightarrow> int \<Rightarrow> (8 word list \<times> int) option" where
  "Huff_offsetTransmit st symbol output offset = do {
     node \<leftarrow> peek (hf_loc st) symbol;
     (bloc, o1) \<leftarrow> send_code st node (offset, output);
     Some (o1, bloc) }"

section \<open>Whole messages, adaptively\<close>

fun compress_bytes :: "huff_t \<Rightarrow> 8 word list \<Rightarrow> bit_cursor \<Rightarrow> bit_cursor option" where
  "compress_bytes st [] c = Some c"
| "compress_bytes st (symbol # rest) c = do {
     c1 \<leftarrow> Huff_transmit st (uint symbol) c;
     st1 \<leftarrow> Huff_addRef st symbol;
     compress_bytes st1 rest c1 }"

text \<open>\<open>scratch\<close> is what the uninitialised output array on the stack holds.\<close>

definition Huff_Compress :: "8 word list \<Rightarrow> msg_t \<Rightarrow> int \<Rightarrow> msg_t option" where
  "Huff_Compress scratch message offset =
     (let inputLength = i32 (m_cursize message - offset) in
      if inputLength \<le> 0 then Some message
      else do {
        input \<leftarrow> copy_out (m_data message) offset inputLength;
        o1 \<leftarrow> poke scratch 0 (word_of_int (inputLength div 256));
        o2 \<leftarrow> poke o1 1 (word_of_int inputLength);
        (bloc, output) \<leftarrow> compress_bytes (initial_huff None) input (16, o2);
        let outputLength = i32 (bloc + 8) div 8 in do {
          packed \<leftarrow> copy_out output 0 outputLength;
          data \<leftarrow> copy_in (m_data message) offset packed;
          Some (message\<lparr>m_cursize := offset + outputLength, m_data := data\<rparr>) } })"

definition bounded_bit :: "8 word list \<Rightarrow> int \<Rightarrow> int \<Rightarrow> (int \<times> int) option" where
  "bounded_bit input inputBitCount bitOffset =
     (if bitOffset \<ge> inputBitCount then None else Huff_getBit input bitOffset)"

fun read_literal :: "8 word list \<Rightarrow> nat \<Rightarrow> int \<Rightarrow> int \<Rightarrow> (int \<times> int) option" where
  "read_literal input 0 symbol bitOffset = Some (symbol, bitOffset)"
| "read_literal input (Suc n) symbol bitOffset = do {
     (b, o1) \<leftarrow> Huff_getBit input bitOffset;
     read_literal input n (symbol * 2 + b) o1 }"

text \<open>
  The loop of \<open>Huff_Decompress\<close>: \<open>None\<close> inside is \<open>qfalse\<close>, an access outside a block is
  the outer \<open>None\<close>.
\<close>

fun decompress_bytes ::
    "nat \<Rightarrow> huff_t \<Rightarrow> 8 word list \<Rightarrow> int \<Rightarrow> int \<Rightarrow> 8 word list \<Rightarrow> 8 word list option option" where
  "decompress_bytes 0 st input inputBitCount bitOffset out = Some (Some out)"
| "decompress_bytes (Suc n) st input inputBitCount bitOffset out = do {
     (w, b1) \<leftarrow> walk_down HUFFMAN_NODE_POOL_COUNT st (bounded_bit input inputBitCount) (hf_tree st) bitOffset;
     case w of
       No_bits \<Rightarrow> Some None
     | At_null \<Rightarrow> Some None
     | At_leaf k \<Rightarrow> do {
         a \<leftarrow> deref st (Some k);
         if nd_symbol a = NYT \<and> inputBitCount - b1 < 8 then Some None
         else do {
           (symbol, b2) \<leftarrow> (if nd_symbol a = NYT then read_literal input 8 0 b1 else Some (nd_symbol a, b1));
           st1 \<leftarrow> Huff_addRef st (word_of_int symbol);
           decompress_bytes n st1 input inputBitCount b2 (out @ [word_of_int symbol]) } } }"

definition Huff_Decompress :: "msg_t \<Rightarrow> int \<Rightarrow> (bool \<times> msg_t) option" where
  "Huff_Decompress message offset =
     (if offset < 0 \<or> m_cursize message > m_maxsize message \<or>
         offset > m_cursize message \<or> offset > m_maxsize message
      then Some (False, message)
      else let compressedLength = m_cursize message - offset in
      if compressedLength \<le> 0 then Some (True, message)
      else if compressedLength < 2 then Some (False, message)
      else do {
        input \<leftarrow> from_offset (m_data message) offset;
        high \<leftarrow> peek input 0;
        low \<leftarrow> peek input 1;
        let stored = uint high * 256 + uint low;
            outputLength = min stored (m_maxsize message - offset) in do {
          result \<leftarrow> decompress_bytes (nat outputLength) (initial_huff (Some 0)) input (compressedLength * 8) 16 [];
          case result of
            None \<Rightarrow> Some (False, message)
          | Some output \<Rightarrow> do {
              data \<leftarrow> copy_in (m_data message) offset output;
              Some (True, message\<lparr>m_cursize := offset + outputLength, m_data := data\<rparr>) } } })"

section \<open>The fixed tree of the message stream\<close>

fun train :: "huffman_t \<Rightarrow> 8 word list \<Rightarrow> huffman_t option" where
  "train h [] = Some h"
| "train h (symbol # rest) = do {
     compressor \<leftarrow> Huff_addRef (hm_compressor h) symbol;
     decompressor \<leftarrow> Huff_addRef (hm_decompressor h) symbol;
     train \<lparr>hm_compressor = compressor, hm_decompressor = decompressor\<rparr> rest }"

definition msg_hData :: "int list" where
  "msg_hData = [
    250315, 41193, 6292, 7106, 3730, 3750, 6110, 23283, 33317, 6950, 7838, 9714,
    9257, 17259, 3949, 1778, 8288, 1604, 1590, 1663, 1100, 1213, 1238, 1134,
    1749, 1059, 1246, 1149, 1273, 4486, 2805, 3472, 21819, 1159, 1670, 1066,
    1043, 1012, 1053, 1070, 1726, 888, 1180, 850, 960, 780, 1752, 3296,
    10630, 4514, 5881, 2685, 4650, 3837, 2093, 1867, 2584, 1949, 1972, 940,
    1134, 1788, 1670, 1206, 5719, 6128, 7222, 6654, 3710, 3795, 1492, 1524,
    2215, 1140, 1355, 971, 2180, 1248, 1328, 1195, 1770, 1078, 1264, 1266,
    1168, 965, 1155, 1186, 1347, 1228, 1529, 1600, 2617, 2048, 2546, 3275,
    2410, 3585, 2504, 2800, 2675, 6146, 3663, 2840, 14253, 3164, 2221, 1687,
    3208, 2739, 3512, 4796, 4091, 3515, 5288, 4016, 7937, 6031, 5360, 3924,
    4892, 3743, 4566, 4807, 5852, 6400, 6225, 8291, 23243, 7838, 7073, 8935,
    5437, 4483, 3641, 5256, 5312, 5328, 5370, 3492, 2458, 1694, 1821, 2121,
    1916, 1149, 1516, 1367, 1236, 1029, 1258, 1104, 1245, 1006, 1149, 1025,
    1241, 952, 1287, 997, 1713, 1009, 1187, 879, 1099, 929, 1078, 951,
    1656, 930, 1153, 1030, 1262, 1062, 1214, 1060, 1621, 930, 1106, 912,
    1034, 892, 1158, 990, 1175, 850, 1121, 903, 1087, 920, 1144, 1056,
    3462, 2240, 4397, 12136, 7758, 1345, 1307, 3278, 1950, 886, 1023, 1112,
    1077, 1042, 1061, 1071, 1484, 1001, 1096, 915, 1052, 995, 1070, 876,
    1111, 851, 1059, 805, 1112, 923, 1103, 817, 1899, 1872, 976, 841,
    1127, 956, 1159, 950, 7791, 954, 1289, 933, 1127, 3207, 1020, 927,
    1355, 768, 1040, 745, 952, 805, 1073, 740, 1013, 805, 1008, 796,
    996, 1057, 11457, 13504]"

definition MSG_initHuffman :: "huffman_t option" where
  "MSG_initHuffman =
     train Huff_Init (concat (map (\<lambda>(symbol, count). replicate (nat count) (word_of_int symbol))
       (zip [0 .. 255] msg_hData)))"

fun write_compressed :: "huff_t \<Rightarrow> 8 word list \<Rightarrow> 8 word list \<Rightarrow> int \<Rightarrow> (8 word list \<times> int) option" where
  "write_compressed st [] output bitOffset = Some (output, bitOffset)"
| "write_compressed st (symbol # rest) output bitOffset = do {
     (o1, b1) \<leftarrow> Huff_offsetTransmit st (uint symbol) output bitOffset;
     write_compressed st rest o1 b1 }"

text \<open>A negative length counts up to \<open>2 ^ 32\<close> and leaves every input block.\<close>

definition MSG_WriteBitsCompress ::
    "huffman_t \<Rightarrow> 8 word list \<Rightarrow> 8 word list \<Rightarrow> int \<Rightarrow> (int \<times> 8 word list) option" where
  "MSG_WriteBitsCompress msgHuff input output inputLength = do {
     bytes \<leftarrow> copy_out input 0 inputLength;
     (o1, bitOffset) \<leftarrow> write_compressed (hm_compressor msgHuff) bytes output 0;
     Some (i32 (bitOffset + 7) div 8, o1) }"

text \<open>Behind the last byte the reader goes on with zero bits.\<close>

definition padded_bit :: "8 word list \<Rightarrow> int \<Rightarrow> int \<Rightarrow> (int \<times> int) option" where
  "padded_bit input inputBits bitOffset =
     (if bitOffset < inputBits then Huff_getBit input bitOffset else Some (0, i32 (bitOffset + 1)))"

text \<open>\<open>room\<close> is \<open>outputCapacity - outputLength\<close>.\<close>

fun read_compressed ::
    "nat \<Rightarrow> huff_t \<Rightarrow> (int \<Rightarrow> (int \<times> int) option) \<Rightarrow> int \<Rightarrow> 8 word list \<Rightarrow> int \<Rightarrow> int \<Rightarrow> (int \<times> 8 word list) option" where
  "read_compressed room st source inputBits output outputLength bitOffset =
     (if bitOffset \<ge> inputBits then Some (outputLength, output)
      else do {
        (w, b1) \<leftarrow> walk_down HUFFMAN_NODE_POOL_COUNT st source (hf_tree st) bitOffset;
        case w of
          At_leaf k \<Rightarrow>
            (case room of
               0 \<Rightarrow> Some (HUFFMAN_TRANSFORM_ERROR, output)
             | Suc r \<Rightarrow> do {
                 a \<leftarrow> deref st (Some k);
                 o1 \<leftarrow> poke output outputLength (word_of_int (nd_symbol a));
                 read_compressed r st source inputBits o1 (outputLength + 1) b1 })
        | _ \<Rightarrow> Some (HUFFMAN_TRANSFORM_ERROR, output) })"

declare read_compressed.simps [simp del]

definition MSG_ReadBitsCompress ::
    "huffman_t \<Rightarrow> 8 word list \<Rightarrow> 8 word list \<Rightarrow> int \<Rightarrow> int \<Rightarrow> (int \<times> 8 word list) option" where
  "MSG_ReadBitsCompress msgHuff input output inputLength outputCapacity =
     (if inputLength < 0 \<or> outputCapacity < 0 \<or> inputLength > 2147483647 div 8
      then Some (HUFFMAN_TRANSFORM_ERROR, output)
      else read_compressed (nat outputCapacity) (hm_decompressor msgHuff)
             (padded_bit input (inputLength * 8)) (inputLength * 8) output 0 0)"

end
