(* ===== verification/Ring.thy ===== *)
theory Ring
  imports Prelude
begin

text \<open>
  The interface of the engine's ring buffers. Four of them (the two loopback queues, the pushed
  events of \<open>com_event_queue.c\<close>, the system events of the dedicated server and of the client)
  share one contract: a first-in first-out queue of bounded capacity whose oldest element gives
  way to a new one. The cursors are \<open>int32_t\<close> counters that only grow; \<open>spare\<close> is how many more
  elements fit before a counter wraps.
\<close>

locale ring_queue =
  fixes inv :: "'s \<Rightarrow> bool"
    and model :: "'s \<Rightarrow> 'a list"
    and put :: "'a \<Rightarrow> 's \<Rightarrow> 's"
    and pop :: "'s \<Rightarrow> ('a \<times> 's) option"
    and cap :: nat
    and spare :: "'s \<Rightarrow> nat"
  assumes put_inv: "inv s \<Longrightarrow> 0 < spare s \<Longrightarrow> inv (put x s) \<and> spare (put x s) = spare s - 1"
    and put_model: "inv s \<Longrightarrow> 0 < spare s \<Longrightarrow>
      model (put x s) = drop (Suc (length (model s)) - cap) (model s @ [x])"
    and model_length: "inv s \<Longrightarrow> length (model s) \<le> cap"
    and pop_empty: "inv s \<Longrightarrow> model s = [] \<Longrightarrow> pop s = None"
    and pop_head: "inv s \<Longrightarrow> model s = x # xs \<Longrightarrow>
      \<exists>s'. pop s = Some (x, s') \<and> inv s' \<and> model s' = xs \<and> spare s' = spare s"
begin

primrec put_all :: "'a list \<Rightarrow> 's \<Rightarrow> 's" where
  "put_all [] s = s"
| "put_all (x # xs) s = put_all xs (put x s)"

primrec pop_all :: "nat \<Rightarrow> 's \<Rightarrow> 'a list \<times> 's" where
  "pop_all 0 s = ([], s)"
| "pop_all (Suc n) s = (case pop s of None \<Rightarrow> ([], s)
     | Some (x, s') \<Rightarrow> (case pop_all n s' of (xs, s'') \<Rightarrow> (x # xs, s'')))"

lemma put_all_model:
  "inv s \<Longrightarrow> length xs \<le> spare s \<Longrightarrow>
   inv (put_all xs s) \<and> spare (put_all xs s) = spare s - length xs \<and>
   model (put_all xs s) = drop (length (model s) + length xs - cap) (model s @ xs)"
proof (induction xs arbitrary: s)
  case Nil
  then show ?case using model_length [of s] by simp
next
  case (Cons x xs)
  have p: "inv (put x s)" "spare (put x s) = spare s - 1"
    "model (put x s) = drop (Suc (length (model s)) - cap) (model s @ [x])"
    using Cons.prems put_inv [of s x] put_model [of s x] by auto
  have IH: "inv (put_all xs (put x s)) \<and> spare (put_all xs (put x s)) = spare (put x s) - length xs \<and>
      model (put_all xs (put x s)) = drop (length (model (put x s)) + length xs - cap) (model (put x s) @ xs)"
    by (rule Cons.IH) (use Cons.prems p(1,2) in auto)
  let ?a = "Suc (length (model s)) - cap"
  have "drop (length (model (put x s)) + length xs - cap) (model (put x s) @ xs) =
      drop (length (model s) + length (x # xs) - cap) (model s @ x # xs)"
  proof -
    have "?a \<le> length (model s @ [x])" using model_length [OF Cons.prems(1)] by simp
    then have "drop ?a (model s @ [x]) @ xs = drop ?a ((model s @ [x]) @ xs)" by (simp only: drop_append) simp
    then have "model (put x s) @ xs = drop ?a (model s @ x # xs)" by (simp add: p(3))
    moreover have "length (model (put x s)) + length xs - cap + ?a = length (model s) + length (x # xs) - cap"
      using model_length [OF Cons.prems(1)] by (auto simp: p(3))
    ultimately show ?thesis by (simp only: drop_drop)
  qed
  with IH p(2) show ?case by simp
qed

lemma pop_all_model:
  "inv s \<Longrightarrow> length (model s) \<le> n \<Longrightarrow> \<exists>s'. pop_all n s = (model s, s') \<and> inv s' \<and> model s' = []"
proof (induction n arbitrary: s)
  case 0
  then show ?case by simp
next
  case (Suc n)
  show ?case
  proof (cases "model s")
    case Nil
    then show ?thesis using Suc.prems pop_empty [of s] by simp
  next
    case (Cons x xs)
    obtain s1 where s1: "pop s = Some (x, s1)" "inv s1" "model s1 = xs"
      using pop_head [OF Suc.prems(1) Cons] by blast
    then obtain s' where "pop_all n s1 = (xs, s')" "inv s'" "model s' = []"
      using Suc.IH [of s1] Suc.prems(2) Cons by auto
    then show ?thesis using s1 Cons by simp
  qed
qed

text \<open>Whatever is put in comes out in order; of more than \<open>cap\<close> elements, the last \<open>cap\<close>.\<close>

lemma fifo:
  assumes "inv s" "model s = []" "length xs \<le> spare s" "cap \<le> n"
  shows "fst (pop_all n (put_all xs s)) = drop (length xs - cap) xs"
proof -
  have p: "inv (put_all xs s)" "model (put_all xs s) = drop (length xs - cap) xs"
    using put_all_model [OF assms(1,3)] assms(2) by simp_all
  have "length (model (put_all xs s)) \<le> n" using model_length [OF p(1)] assms(4) by simp
  with p show ?thesis using pop_all_model [of "put_all xs s" n] by (metis fst_conv)
qed

end

text \<open>
  A ring that owns heap blocks: a put that pushes the oldest element out frees exactly the
  blocks of that element.
\<close>

locale owning_ring = ring_queue inv model put pop cap spare
  for inv :: "'s \<Rightarrow> bool" and model :: "'s \<Rightarrow> 'a list" and put :: "'a \<Rightarrow> 's \<Rightarrow> 's"
    and pop :: "'s \<Rightarrow> ('a \<times> 's) option" and cap :: nat and spare :: "'s \<Rightarrow> nat" +
  fixes owned :: "'a \<Rightarrow> 'b list"
    and freed :: "'a \<Rightarrow> 's \<Rightarrow> 'b list"
  assumes cap_pos: "0 < cap"
    and freed_eq: "inv s \<Longrightarrow> 0 < spare s \<Longrightarrow>
      freed x s = (if length (model s) < cap then [] else owned (hd (model s)))"
begin

primrec freed_all :: "'a list \<Rightarrow> 's \<Rightarrow> 'b list" where
  "freed_all [] s = []"
| "freed_all (x # xs) s = freed x s @ freed_all xs (put x s)"

abbreviation owns :: "'a list \<Rightarrow> 'b list" where
  "owns xs \<equiv> concat (map owned xs)"

text \<open>Blocks are conserved: what was owned and what came in is either freed or still owned.\<close>

lemma conserved:
  assumes "inv s" "0 < spare s"
  shows "freed x s @ owns (model (put x s)) = owns (model s) @ owned x"
proof (cases "length (model s) < cap")
  case True
  then show ?thesis using assms by (simp add: freed_eq put_model)
next
  case False
  then have len: "length (model s) = cap" using model_length [OF assms(1)] by simp
  then obtain y ys where ys: "model s = y # ys" using cap_pos by (cases "model s") auto
  then show ?thesis using assms len by (simp add: freed_eq put_model)
qed

lemma all_conserved:
  "inv s \<Longrightarrow> length xs \<le> spare s \<Longrightarrow>
   freed_all xs s @ owns (model (put_all xs s)) = owns (model s) @ owns xs"
proof (induction xs arbitrary: s)
  case Nil
  then show ?case by simp
next
  case (Cons x xs)
  have p: "inv (put x s)" "spare (put x s) = spare s - 1"
    using Cons.prems put_inv [of s x] by auto
  have "freed_all xs (put x s) @ owns (model (put_all xs (put x s))) = owns (model (put x s)) @ owns xs"
    by (rule Cons.IH) (use Cons.prems p in auto)
  moreover have "freed x s @ owns (model (put x s)) = owns (model s) @ owned x"
    by (rule conserved) (use Cons.prems in auto)
  ultimately show ?case by (metis append.assoc concat.simps(2) freed_all.simps(2) list.simps(9) put_all.simps(2))
qed

end

section \<open>Windows of a circular array\<close>

definition window :: "'a list \<Rightarrow> nat \<Rightarrow> nat \<Rightarrow> 'a list" where
  "window slots r w = map (\<lambda>i. slots ! (i mod length slots)) [r..<w]"

lemma length_window [simp]: "length (window slots r w) = w - r"
  by (simp add: window_def)

lemma window_empty [simp]: "w \<le> r \<Longrightarrow> window slots r w = []"
  by (simp add: window_def)

lemma window_head: "r < w \<Longrightarrow> window slots r w = slots ! (r mod length slots) # window slots (Suc r) w"
  by (simp add: window_def upt_conv_Cons)

lemma window_drop: "r + k \<le> w \<Longrightarrow> drop k (window slots r w) = window slots (r + k) w"
  by (simp add: window_def drop_map)

lemma mod_distinct: "r \<le> i \<Longrightarrow> i < w \<Longrightarrow> w < r + n \<Longrightarrow> i mod n \<noteq> w mod n" for n :: nat
proof
  assume a: "r \<le> i" "i < w" "w < r + n" "i mod n = w mod n"
  then have "n dvd w - i" by (metis less_imp_le_nat mod_eq_dvd_iff_nat)
  moreover have "0 < w - i" "w - i < n" using a by auto
  ultimately show False by (auto dest: dvd_imp_le)
qed

lemma window_put:
  assumes "w < r + length slots" "r \<le> w"
  shows "window (slots[w mod length slots := x]) r (Suc w) = window slots r w @ [x]"
proof -
  have "0 < length slots" using assms by auto
  moreover have "slots[w mod length slots := x] ! (i mod length slots) = slots ! (i mod length slots)"
    if "i \<in> set [r..<w]" for i
    using that mod_distinct [of r i w "length slots"] assms(1) by auto
  ultimately show ?thesis using assms(2) by (simp add: window_def)
qed

lemma window_put_full:
  assumes "0 < length slots" "w = r + length slots"
  shows "window (slots[w mod length slots := x]) (Suc r) (Suc w) = tl (window slots r w) @ [x]"
proof -
  have "window (slots[w mod length slots := x]) (Suc r) (Suc w) = window slots (Suc r) w @ [x]"
    using assms by (intro window_put) (auto simp: Suc_le_eq)
  moreover have "r < w" using assms by simp
  ultimately show ?thesis by (simp add: window_head [of r w])
qed

lemma and_15 [simp]: "(x::int) AND 15 = x mod 16"
  using take_bit_eq_mask [of 4 x] by (simp add: mask_eq_exp_minus_1 take_bit_eq_mod)

lemma and_4095 [simp]: "(x::int) AND 4095 = x mod 4096"
  using take_bit_eq_mask [of 12 x] by (simp add: mask_eq_exp_minus_1 take_bit_eq_mod)

end
