(* ===== verification/Loopback.thy ===== *)
theory Loopback
  imports Netchan Ring
begin

text \<open>
  Addresses and the in-process transport: \<open>net_compare.c\<close>, \<open>net_loopback.c\<close>, the dispatch
  \<open>NET_SendPacket\<close> of the dedicated server (\<open>server/standalone/networking/netchan.c\<close>) and the
  statistics window of \<open>net_profile.c\<close>. The array of the two loopback queues is a function of
  the endpoint; \<open>source ^ 1\<close> is the other endpoint.
\<close>

section \<open>Address comparison\<close>

fun adrtype_value :: "netadrtype_t \<Rightarrow> int" where
  "adrtype_value NA_BAD = 0"
| "adrtype_value NA_BOT = 1"
| "adrtype_value NA_LOOPBACK = 2"
| "adrtype_value NA_BROADCAST = 3"
| "adrtype_value NA_IP = 4"
| "adrtype_value NA_IPX = 5"
| "adrtype_value NA_BROADCAST_IPX = 6"

text \<open>The byte loops run over the four bytes of \<open>ip\<close> or the ten bytes of \<open>ipx\<close>.\<close>

fun compare_bytes :: "8 word list \<Rightarrow> 8 word list \<Rightarrow> int" where
  "compare_bytes (a # as) (b # bs) =
     (if a < b then -1 else if a > b then 1 else compare_bytes as bs)"
| "compare_bytes _ _ = 0"

definition NET_CompareBaseAdrSigned :: "netadr_t \<Rightarrow> netadr_t \<Rightarrow> int" where
  "NET_CompareBaseAdrSigned left right =
     (if a_type left \<noteq> a_type right then adrtype_value (a_type left) - adrtype_value (a_type right)
      else if a_type left = NA_LOOPBACK then 0
      else if a_type left = NA_BAD then a_port left - a_port right
      else if a_type left = NA_IP then compare_bytes (a_ip left) (a_ip right)
      else if a_type left = NA_IPX then compare_bytes (a_ipx left) (a_ipx right)
      else 0)"

definition NET_CompareBaseAdr :: "netadr_t \<Rightarrow> netadr_t \<Rightarrow> bool" where
  "NET_CompareBaseAdr left right \<longleftrightarrow> NET_CompareBaseAdrSigned left right = 0"

definition NET_CompareAdrSigned :: "netadr_t \<Rightarrow> netadr_t \<Rightarrow> int" where
  "NET_CompareAdrSigned left right =
     (if a_type left \<noteq> a_type right then adrtype_value (a_type left) - adrtype_value (a_type right)
      else if a_type left = NA_LOOPBACK then 0
      else if a_type left = NA_IP then
        (if a_port left \<noteq> a_port right then a_port left - a_port right
         else compare_bytes (a_ip left) (a_ip right))
      else if a_type left = NA_IPX then
        (if a_port left \<noteq> a_port right then a_port left - a_port right
         else compare_bytes (a_ipx left) (a_ipx right))
      else 0)"

definition NET_CompareAdr :: "netadr_t \<Rightarrow> netadr_t \<Rightarrow> bool" where
  "NET_CompareAdr left right \<longleftrightarrow> NET_CompareAdrSigned left right = 0"

definition NET_IsLocalAddress :: "netadr_t \<Rightarrow> bool" where
  "NET_IsLocalAddress address \<longleftrightarrow> a_type address = NA_LOOPBACK \<or> a_type address = NA_BAD"

section \<open>The loopback queues\<close>

record loopmsg_t =
  l_data :: "8 word list"
  l_datalen :: int

record loopback_t =
  l_msgs :: "loopmsg_t list"
  l_get :: int
  l_send :: int

abbreviation NET_LOOPBACK_MESSAGE_COUNT :: int where "NET_LOOPBACK_MESSAGE_COUNT \<equiv> 16"
abbreviation NET_LOOPBACK_MESSAGE_BYTES :: int where "NET_LOOPBACK_MESSAGE_BYTES \<equiv> 1400"

fun other_end :: "netsrc_t \<Rightarrow> netsrc_t" where
  "other_end NS_CLIENT = NS_SERVER"
| "other_end NS_SERVER = NS_CLIENT"

text \<open>The ring steps of the two functions: what they do before they look at the payload.\<close>

definition loop_clamp :: "loopback_t \<Rightarrow> loopback_t" where
  "loop_clamp loop =
     (if i32 (l_send loop - l_get loop) > NET_LOOPBACK_MESSAGE_COUNT
      then loop\<lparr>l_get := i32 (l_send loop - NET_LOOPBACK_MESSAGE_COUNT)\<rparr> else loop)"

definition loop_take :: "loopback_t \<Rightarrow> (loopmsg_t \<times> loopback_t) option" where
  "loop_take loop =
     (let loop1 = loop_clamp loop in
      if l_get loop1 \<ge> l_send loop1 then None
      else Some (l_msgs loop1 ! nat (l_get loop1 AND 15), loop1\<lparr>l_get := i32 (l_get loop1 + 1)\<rparr>))"

definition loop_put :: "loopmsg_t \<Rightarrow> loopback_t \<Rightarrow> loopback_t" where
  "loop_put message loop =
     loop\<lparr>l_msgs := (l_msgs loop)[nat (l_send loop AND 15) := message],
          l_send := i32 (l_send loop + 1)\<rparr>"

definition loop_slot :: "loopback_t \<Rightarrow> loopmsg_t" where
  "loop_slot loop = l_msgs loop ! nat (l_send loop AND 15)"

definition NET_GetLoopPacket ::
    "(netsrc_t \<Rightarrow> loopback_t) \<Rightarrow> netsrc_t \<Rightarrow> netadr_t \<Rightarrow> msg_t \<Rightarrow>
     ((netsrc_t \<Rightarrow> loopback_t) \<times> netadr_t \<times> msg_t \<times> bool) option" where
  "NET_GetLoopPacket loops source address message =
     (case loop_take (loops source) of
        None \<Rightarrow> Some (loops(source := loop_clamp (loops source)), address, message, False)
      | Some (loopMessage, loop1) \<Rightarrow>
          let loops1 = loops(source := loop1) in
          if l_datalen loopMessage < 0 \<or> l_datalen loopMessage > NET_LOOPBACK_MESSAGE_BYTES \<or>
             l_datalen loopMessage > m_maxsize message
          then Some (loops1, address, message, False)
          else do {
            src \<leftarrow> copy_out (l_data loopMessage) 0 (l_datalen loopMessage);
            data \<leftarrow> copy_in (m_data message) 0 src;
            Some (loops1,
              \<lparr>a_type = NA_LOOPBACK, a_ip = replicate 4 0, a_ipx = replicate 10 0, a_port = 0\<rparr>,
              message\<lparr>m_data := data, m_cursize := l_datalen loopMessage\<rparr>, True) })"

definition NET_SendLoopPacket ::
    "(netsrc_t \<Rightarrow> loopback_t) \<Rightarrow> netsrc_t \<Rightarrow> int \<Rightarrow> 8 word list \<Rightarrow> (netsrc_t \<Rightarrow> loopback_t) option" where
  "NET_SendLoopPacket loops source len data =
     (if len < 0 \<or> len > NET_LOOPBACK_MESSAGE_BYTES then Some loops
      else let loop = loops (other_end source) in do {
        src \<leftarrow> copy_out data 0 len;
        slot \<leftarrow> copy_in (l_data (loop_slot loop)) 0 src;
        Some (loops(other_end source := loop_put \<lparr>l_data = slot, l_datalen = len\<rparr> loop)) })"

text \<open>The platform's socket is the list of packets handed to \<open>Sys_SendPacket\<close>.\<close>

definition NET_SendPacket ::
    "(netsrc_t \<Rightarrow> loopback_t) \<Rightarrow> (8 word list \<times> netadr_t) list \<Rightarrow> netsrc_t \<Rightarrow> int \<Rightarrow> 8 word list \<Rightarrow> netadr_t \<Rightarrow>
     ((netsrc_t \<Rightarrow> loopback_t) \<times> (8 word list \<times> netadr_t) list) option" where
  "NET_SendPacket loops sent sock len data to =
     (if len < 0 then Some (loops, sent)
      else if a_type to = NA_LOOPBACK then
        map_option (\<lambda>l. (l, sent)) (NET_SendLoopPacket loops sock len data)
      else if a_type to \<noteq> NA_BOT \<and> a_type to \<noteq> NA_BAD then
        map_option (\<lambda>src. (loops, sent @ [(src, to)])) (copy_out data 0 len)
      else Some (loops, sent))"

text \<open>The loop of \<open>Com_EventLoop\<close> that empties a queue, delivering the bytes of each message.\<close>

fun drain_loop :: "nat \<Rightarrow> (netsrc_t \<Rightarrow> loopback_t) \<Rightarrow> netsrc_t \<Rightarrow> netadr_t \<Rightarrow> msg_t \<Rightarrow>
    ((netsrc_t \<Rightarrow> loopback_t) \<times> 8 word list list) option" where
  "drain_loop 0 loops source from' message = Some (loops, [])"
| "drain_loop (Suc n) loops source from' message = do {
     (loops1, from1, message1, more) \<leftarrow> NET_GetLoopPacket loops source from' message;
     if \<not> more then Some (loops1, [])
     else do {
       (loops2, ps) \<leftarrow> drain_loop n loops1 source from1 message1;
       Some (loops2, packet_bytes message1 # ps) } }"

section \<open>The profiling window\<close>

text \<open>
  One sample of the loop of \<open>NetProf_UpdateStatistics\<close>. The clock is read again for every
  comparison; within one call the model reads it once. The byte rate is x87 arithmetic and a
  parameter of the bytes and the milliseconds.
\<close>

record profile_scan =
  c_samples :: int
  c_fragments :: int
  c_oldestIndex :: int
  c_oldestTime :: int
  c_total :: int
  c_min :: int
  c_max :: int

definition scan_sample :: "int \<Rightarrow> profile_scan \<Rightarrow> int \<times> netProfileSample_t \<Rightarrow> profile_scan" where
  "scan_sample now s ix =
     (case ix of (index, sample) \<Rightarrow>
        if s_time sample = 0 \<or> now > i32 (s_time sample + 1000) then s
        else s\<lparr>c_samples := c_samples s + 1,
               c_fragments := (if s_fragmented sample then c_fragments s + 1 else c_fragments s),
               c_oldestIndex := (if s_time sample < c_oldestTime s then index else c_oldestIndex s),
               c_oldestTime := (if s_time sample < c_oldestTime s then s_time sample else c_oldestTime s),
               c_total := i32 (c_total s + s_bytes sample),
               c_min := (if s_bytes sample < c_min s then s_bytes sample else c_min s),
               c_max := (if s_bytes sample > c_max s then s_bytes sample else c_max s)\<rparr>)"

definition scan_samples :: "int \<Rightarrow> netProfileSample_t list \<Rightarrow> profile_scan" where
  "scan_samples now samples =
     fold (\<lambda>ix s. scan_sample now s ix) (zip (map int [0..<60]) samples)
       \<lparr>c_samples = 0, c_fragments = 0, c_oldestIndex = -1, c_oldestTime = now, c_total = 0,
        c_min = 9999, c_max = 0\<rparr>"

definition NetProf_UpdateStatistics ::
    "(int \<Rightarrow> int \<Rightarrow> int) \<Rightarrow> int \<Rightarrow> netProfileStream_t \<Rightarrow> netProfileStream_t option" where
  "NetProf_UpdateStatistics rate now profile =
     (let s = scan_samples now (p_samples profile) in
      if c_samples s = 0 then
        Some (profile\<lparr>p_bytesPerSecond := 0, p_lastRateCalcTime := 0, p_sampleCount := 0,
                      p_fragmentSampleCount := 0, p_fragmentPercent := 0, p_maxBytes := 0, p_minBytes := 0\<rparr>)
      else let profile1 = profile\<lparr>
          p_fragmentPercent := (if c_fragments s \<noteq> 0 then (c_fragments s * 100) sdiv c_samples s else 0),
          p_maxBytes := c_max s, p_minBytes := c_min s\<rparr> in
      if i32 (p_lastRateCalcTime profile1 + 100) < now then do {
        (total, count, fragments) \<leftarrow>
          (if c_oldestIndex s \<noteq> -1 then do {
             oldest \<leftarrow> peek (p_samples profile) (c_oldestIndex s);
             Some (i32 (c_total s - s_bytes oldest), c_samples s - 1,
                   if s_fragmented oldest then c_fragments s - 1 else c_fragments s) }
           else Some (c_total s, c_samples s, c_fragments s));
        let elapsed = i32 (now - c_oldestTime s) in
        Some (profile1\<lparr>
          p_bytesPerSecond := (if elapsed < 1 \<or> count = 0 \<or> total = 0 then 0 else rate total elapsed),
          p_lastRateCalcTime := now, p_sampleCount := count, p_fragmentSampleCount := fragments\<rparr>) }
      else Some (profile1\<lparr>p_sampleCount := c_samples s, p_fragmentSampleCount := c_fragments s\<rparr>))"

end
