(* ===== verification/Command.thy ===== *)
theory Command
  imports Info
begin

text \<open>
  \<open>src/qcommon/q_command.c\<close>: the command buffer, the tokenizer and the list of commands. The
  arguments of a command are offsets into one token buffer. What a registered function, the
  anti-cheat client, the cvars, the game modules and the connection do with a command is the
  argument \<open>host\<close>; each may change the command state and a world of its own. \<open>exec\<close>, the
  two printing commands and completion are left out.
\<close>

section \<open>State\<close>

record cbuf_t =
  cb_data :: string
  cb_maxsize :: int
  cb_cursize :: int

datatype xcommand_t = Cmd_Wait | Cmd_Vstr | Host_function nat

record cmd_function_t =
  fn_name :: string
  fn_function :: "xcommand_t option"

record command_state =
  cmd_text :: cbuf_t
  cmd_wait :: int
  cmd_argc :: int
  cmd_argv :: "int list"
  cmd_tokenBuffer :: string
  cmd_args :: string
  cmd_functions :: "cmd_function_t list"

abbreviation CBUF_TEXT_CAPACITY :: int where "CBUF_TEXT_CAPACITY \<equiv> 65536"
abbreviation CBUF_COMMAND_CAPACITY :: int where "CBUF_COMMAND_CAPACITY \<equiv> 4096"
abbreviation CMD_ARGUMENT_CAPACITY :: int where "CMD_ARGUMENT_CAPACITY \<equiv> 512"
abbreviation CMD_TOKEN_BUFFER_CAPACITY :: int where "CMD_TOKEN_BUFFER_CAPACITY \<equiv> 8704"
abbreviation CMD_ARGS_CAPACITY :: int where "CMD_ARGS_CAPACITY \<equiv> 8704"

abbreviation QUOTE :: char where "QUOTE \<equiv> CHR 0x22"
abbreviation NEWLINE :: char where "NEWLINE \<equiv> CHR 0x0A"
abbreviation RETURN :: char where "RETURN \<equiv> CHR 0x0D"

section \<open>The command buffer\<close>

definition Cbuf_Init :: "command_state \<Rightarrow> command_state" where
  "Cbuf_Init st = st\<lparr>cmd_text := (cmd_text st)\<lparr>cb_maxsize := CBUF_TEXT_CAPACITY, cb_cursize := 0\<rparr>\<rparr>"

definition text_fits :: "cbuf_t \<Rightarrow> string \<Rightarrow> bool" where
  "text_fits b text \<longleftrightarrow> \<not> (cb_cursize b < 0 \<or> cb_maxsize b \<le> cb_cursize b \<or>
     int (length text) \<ge> cb_maxsize b - cb_cursize b)"

definition Cbuf_AddText :: "command_state \<Rightarrow> string \<Rightarrow> command_state option" where
  "Cbuf_AddText st text =
     (let b = cmd_text st in
      if \<not> text_fits b text then Some st
      else do {
        data \<leftarrow> copy_in (cb_data b) (cb_cursize b) text;
        Some (st\<lparr>cmd_text := b\<lparr>cb_data := data, cb_cursize := cb_cursize b + int (length text)\<rparr>\<rparr>) })"

fun move_up :: "nat \<Rightarrow> int \<Rightarrow> string \<Rightarrow> string option" where
  "move_up 0 insertLength data = Some data"
| "move_up (Suc k) insertLength data = do {
     c \<leftarrow> peek data (int k);
     data1 \<leftarrow> poke data (insertLength + int k) c;
     move_up k insertLength data1 }"

definition Cbuf_InsertText :: "command_state \<Rightarrow> string \<Rightarrow> command_state option" where
  "Cbuf_InsertText st text =
     (let b = cmd_text st in
      if \<not> text_fits b text then Some st
      else let insertLength = int (length text) + 1 in do {
        data1 \<leftarrow> move_up (nat (cb_cursize b)) insertLength (cb_data b);
        data2 \<leftarrow> copy_in data1 0 text;
        data3 \<leftarrow> poke data2 (insertLength - 1) NEWLINE;
        Some (st\<lparr>cmd_text := b\<lparr>cb_data := data3, cb_cursize := cb_cursize b + insertLength\<rparr>\<rparr>) })"

section \<open>The tokenizer\<close>

text \<open>A text is what stands before its NUL, so \<open>[]\<close> is the end of the text.\<close>

definition blank :: "char \<Rightarrow> bool" where
  "blank c \<longleftrightarrow> schar c \<le> 32"

definition starts :: "string \<Rightarrow> string \<Rightarrow> bool" where
  "starts pattern text \<longleftrightarrow> take (length pattern) text = pattern"

fun skip_comment :: "string \<Rightarrow> string option" where
  "skip_comment [] = None"
| "skip_comment (c # cs) = (if starts ''*/'' (c # cs) then Some (tl cs) else skip_comment cs)"

lemma skip_comment_shorter: "skip_comment s = Some rest \<Longrightarrow> length rest < length s"
  by (induction s) (auto split: if_splits)

text \<open>Where the next token starts, \<open>None\<close> if there is none.\<close>

function next_token :: "string \<Rightarrow> string option" where
  "next_token text =
     (let t = dropWhile blank text in
      if t = [] \<or> starts ''//'' t then None
      else if \<not> starts ''/*'' t then Some t
      else case skip_comment t of None \<Rightarrow> None | Some rest \<Rightarrow> next_token rest)"
  by pat_completeness auto
termination
proof (relation "measure length", goal_cases)
  case (2 s t rest)
  then show ?case
    using skip_comment_shorter [of t rest] length_dropWhile_le [of blank s] by auto
qed simp

declare next_token.simps [simp del]

text \<open>\<open>*token++ = *text++\<close>, while the condition holds of the text that is left.\<close>

fun put_while :: "(string \<Rightarrow> bool) \<Rightarrow> string \<Rightarrow> string \<Rightarrow> int \<Rightarrow> (string \<times> string \<times> int) option" where
  "put_while going [] buffer tok = Some ([], buffer, tok)"
| "put_while going (c # cs) buffer tok =
     (if going (c # cs) then do {
        buffer1 \<leftarrow> poke buffer tok c;
        put_while going cs buffer1 (tok + 1) }
      else Some (c # cs, buffer, tok))"

definition put_token :: "(string \<Rightarrow> bool) \<Rightarrow> string \<Rightarrow> string \<Rightarrow> int \<Rightarrow> (string \<times> string \<times> int) option" where
  "put_token going text buffer tok = do {
     (rest, buffer1, tok1) \<leftarrow> put_while going text buffer tok;
     buffer2 \<leftarrow> poke buffer1 tok1 NUL;
     Some (rest, buffer2, tok1 + 1) }"

definition in_quotes :: "string \<Rightarrow> bool" where
  "in_quotes text \<longleftrightarrow> hd text \<noteq> QUOTE"

definition in_word :: "string \<Rightarrow> bool" where
  "in_word text \<longleftrightarrow> schar (hd text) > 32 \<and> hd text \<noteq> QUOTE \<and> \<not> starts ''//'' text \<and> \<not> starts ''/*'' text"

definition skip_blank :: "string \<Rightarrow> string" where
  "skip_blank text = (if text \<noteq> [] \<and> blank (hd text) then tl text else text)"

definition add_argument :: "command_state \<Rightarrow> int \<Rightarrow> command_state option" where
  "add_argument st tok = do {
     argv \<leftarrow> poke (cmd_argv st) (cmd_argc st) tok;
     Some (st\<lparr>cmd_argv := argv, cmd_argc := cmd_argc st + 1\<rparr>) }"

text \<open>
  The outer loop; its first argument is how many arguments still fit, \<open>CMD_ARGUMENT_CAPACITY\<close>
  minus \<open>cmd_argc\<close>, so that the loop condition is that it is not 0.
\<close>

fun tokenize_loop :: "nat \<Rightarrow> int \<Rightarrow> string \<Rightarrow> int \<Rightarrow> command_state \<Rightarrow> command_state option" where
  "tokenize_loop 0 maxTokens text tok st = Some st"
| "tokenize_loop (Suc n) maxTokens text tok st =
     (let maxTokens1 = i32 (maxTokens - 1) in
      if maxTokens1 = 0 then
        (if text = [] then Some st
         else do {
           st1 \<leftarrow> add_argument st tok;
           (rest, buffer, tok1) \<leftarrow> put_token (\<lambda>t. True) text (cmd_tokenBuffer st1) tok;
           Some (st1\<lparr>cmd_tokenBuffer := buffer\<rparr>) })
      else case next_token text of
        None \<Rightarrow> Some st
      | Some t \<Rightarrow> do {
          st1 \<leftarrow> add_argument st tok;
          (rest, buffer, tok1) \<leftarrow>
            (if hd t = QUOTE then put_token in_quotes (tl t) (cmd_tokenBuffer st1) tok
             else put_token in_word t (cmd_tokenBuffer st1) tok);
          let st2 = st1\<lparr>cmd_tokenBuffer := buffer\<rparr>;
          if rest = [] then Some st2
          else tokenize_loop n maxTokens1 (skip_blank (if hd t = QUOTE then tl rest else rest)) tok1 st2 })"

definition Cmd_TokenizeString2 :: "command_state \<Rightarrow> string option \<Rightarrow> int \<Rightarrow> command_state option" where
  "Cmd_TokenizeString2 st text maxTokens =
     (let st1 = st\<lparr>cmd_argc := 0\<rparr> in
      case text of
        None \<Rightarrow> Some st1
      | Some t \<Rightarrow>
          if int (length t) \<ge> CMD_TOKEN_BUFFER_CAPACITY then Some st1
          else tokenize_loop (nat CMD_ARGUMENT_CAPACITY) maxTokens t 0 st1)"

definition Cmd_TokenizeString :: "command_state \<Rightarrow> string option \<Rightarrow> command_state option" where
  "Cmd_TokenizeString st text = Cmd_TokenizeString2 st text 0"

section \<open>Arguments\<close>

definition token_at :: "command_state \<Rightarrow> int \<Rightarrow> string option" where
  "token_at st argumentIndex = do {
     tok \<leftarrow> peek (cmd_argv st) argumentIndex;
     s \<leftarrow> from_offset (cmd_tokenBuffer st) tok;
     if NUL \<in> set s then Some (cstr_of s) else None }"

definition Cmd_Argc :: "command_state \<Rightarrow> int" where
  "Cmd_Argc st = cmd_argc st"

definition Cmd_Argv :: "command_state \<Rightarrow> int \<Rightarrow> string option" where
  "Cmd_Argv st argumentIndex =
     (if u32 argumentIndex < u32 (cmd_argc st) then token_at st argumentIndex else Some [])"

definition Cmd_ArgvBuffer :: "command_state \<Rightarrow> int \<Rightarrow> string \<Rightarrow> int \<Rightarrow> string option" where
  "Cmd_ArgvBuffer st argumentIndex buffer bufferLength = do {
     s \<leftarrow> Cmd_Argv st argumentIndex;
     Q_strncpyz buffer s bufferLength }"

fun args_fit :: "string list \<Rightarrow> int \<Rightarrow> bool" where
  "args_fit [] requiredCapacity = True"
| "args_fit (a # as) requiredCapacity =
     (if int (length a) > CMD_ARGS_CAPACITY - requiredCapacity then False
      else let requiredCapacity1 = requiredCapacity + int (length a) in
        if as \<noteq> [] then requiredCapacity1 \<noteq> CMD_ARGS_CAPACITY \<and> args_fit as (requiredCapacity1 + 1)
        else True)"

fun copy_args :: "string list \<Rightarrow> int \<Rightarrow> string \<Rightarrow> string option" where
  "copy_args [] output' buffer = poke buffer output' NUL"
| "copy_args (a # as) output' buffer = do {
     buffer1 \<leftarrow> copy_in buffer output' a;
     let output1 = output' + int (length a);
     if as \<noteq> [] then do {
       buffer2 \<leftarrow> poke buffer1 output1 (CHR '' '');
       copy_args as (output1 + 1) buffer2 }
     else copy_args as output1 buffer1 }"

fun tokens_at :: "command_state \<Rightarrow> int list \<Rightarrow> string list option" where
  "tokens_at st [] = Some []"
| "tokens_at st (i # is) = do {
     a \<leftarrow> token_at st i;
     as \<leftarrow> tokens_at st is;
     Some (a # as) }"

definition Cmd_Args :: "command_state \<Rightarrow> int \<Rightarrow> command_state option" where
  "Cmd_Args st firstArgument = do {
     buffer \<leftarrow> poke (cmd_args st) 0 NUL;
     as \<leftarrow> tokens_at st [firstArgument..cmd_argc st - 1];
     buffer1 \<leftarrow> (if args_fit as 1 then copy_args as 0 buffer else Some buffer);
     Some (st\<lparr>cmd_args := buffer1\<rparr>) }"

section \<open>The list of commands\<close>

fun registered :: "string \<Rightarrow> cmd_function_t list \<Rightarrow> bool" where
  "registered name [] = False"
| "registered name (f # fs) = (fn_name f = name \<or> registered name fs)"

definition Cmd_AddCommand :: "command_state \<Rightarrow> string \<Rightarrow> xcommand_t option \<Rightarrow> command_state" where
  "Cmd_AddCommand st name function' =
     (if registered name (cmd_functions st) then st
      else st\<lparr>cmd_functions := \<lparr>fn_name = name, fn_function = function'\<rparr> # cmd_functions st\<rparr>)"

fun remove_function :: "string \<Rightarrow> cmd_function_t list \<Rightarrow> cmd_function_t list" where
  "remove_function name [] = []"
| "remove_function name (f # fs) = (if fn_name f = name then fs else f # remove_function name fs)"

definition Cmd_RemoveCommand :: "command_state \<Rightarrow> string \<Rightarrow> command_state" where
  "Cmd_RemoveCommand st name = st\<lparr>cmd_functions := remove_function name (cmd_functions st)\<rparr>"

definition Cmd_Shutdown :: "command_state \<Rightarrow> command_state" where
  "Cmd_Shutdown st = st\<lparr>cmd_functions := []\<rparr>"

text \<open>The first command with the name of the first token, and the list without it.\<close>

fun take_function :: "string \<Rightarrow> cmd_function_t list \<Rightarrow> (cmd_function_t \<times> cmd_function_t list) option" where
  "take_function name [] = None"
| "take_function name (f # fs) =
     (if Q_stricmp (Some name) (Some (fn_name f)) = 0 then Some (f, fs)
      else map_option (map_prod id (Cons f)) (take_function name fs))"

section \<open>Execution\<close>

type_synonym 'w machine = "command_state \<times> 'w"

record 'w command_host =
  ho_client_trap :: "string \<Rightarrow> 'w machine \<Rightarrow> bool \<times> 'w machine"
  ho_function :: "nat \<Rightarrow> 'w machine \<Rightarrow> 'w machine"
  ho_cvar_string :: "string \<Rightarrow> 'w \<Rightarrow> string"
  ho_punkbuster :: "bool \<Rightarrow> string \<Rightarrow> 'w machine \<Rightarrow> 'w machine"
  ho_cvar_command :: "'w machine \<Rightarrow> bool \<times> 'w machine"
  ho_cl_running :: "'w \<Rightarrow> bool"
  ho_sv_running :: "'w \<Rightarrow> bool"
  ho_cl_game :: "'w machine \<Rightarrow> bool \<times> 'w machine"
  ho_sv_game :: "'w machine \<Rightarrow> bool \<times> 'w machine"
  ho_ui_game :: "'w machine \<Rightarrow> bool \<times> 'w machine"
  ho_forward :: "string \<Rightarrow> 'w machine \<Rightarrow> 'w machine"

definition Cmd_Wait_f :: "command_state \<Rightarrow> command_state option" where
  "Cmd_Wait_f st =
     (if Cmd_Argc st = 2 then do {
        s \<leftarrow> Cmd_Argv st 1;
        Some (st\<lparr>cmd_wait := parse_int s\<rparr>) }
      else Some (st\<lparr>cmd_wait := 1\<rparr>))"

definition Cmd_Vstr_f :: "'w command_host \<Rightarrow> 'w machine \<Rightarrow> 'w machine option" where
  "Cmd_Vstr_f host m = (case m of (st, w) \<Rightarrow>
     if Cmd_Argc st = 2 then do {
       s \<leftarrow> Cmd_Argv st 1;
       st1 \<leftarrow> Cbuf_InsertText st (ho_cvar_string host s w @ [NEWLINE]);
       Some (st1, w) }
     else Some (st, w))"

definition run_function :: "'w command_host \<Rightarrow> xcommand_t \<Rightarrow> 'w machine \<Rightarrow> 'w machine option" where
  "run_function host f m = (case f of
     Cmd_Wait \<Rightarrow> map_option (\<lambda>st. (st, snd m)) (Cmd_Wait_f (fst m))
   | Cmd_Vstr \<Rightarrow> Cmd_Vstr_f host m
   | Host_function n \<Rightarrow> Some (ho_function host n m))"

text \<open>What is asked when no registered function has the name, in this order.\<close>

definition run_unregistered :: "'w command_host \<Rightarrow> string \<Rightarrow> 'w machine \<Rightarrow> 'w machine" where
  "run_unregistered host text m =
     (if Q_stricmpn text ''pb_'' 3 = 0
      then ho_punkbuster host (Q_stricmpn (drop 3 text) ''sv_'' 3 = 0) text m
      else case ho_cvar_command host m of
        (True, m1) \<Rightarrow> m1
      | (False, m1) \<Rightarrow> (case (if ho_cl_running host (snd m1) then ho_cl_game host m1 else (False, m1)) of
          (True, m2) \<Rightarrow> m2
        | (False, m2) \<Rightarrow> (case (if ho_sv_running host (snd m2) then ho_sv_game host m2 else (False, m2)) of
            (True, m3) \<Rightarrow> m3
          | (False, m3) \<Rightarrow> (case (if ho_cl_running host (snd m3) then ho_ui_game host m3 else (False, m3)) of
              (True, m4) \<Rightarrow> m4
            | (False, m4) \<Rightarrow> ho_forward host text m4))))"

definition Cmd_ExecuteString :: "'w command_host \<Rightarrow> string \<Rightarrow> 'w machine \<Rightarrow> 'w machine option" where
  "Cmd_ExecuteString host text m =
     (case ho_client_trap host text m of
        (True, m1) \<Rightarrow> Some m1
      | (False, (st, w)) \<Rightarrow> do {
          st1 \<leftarrow> Cmd_TokenizeString st (Some text);
          if cmd_argc st1 = 0 then Some (st1, w)
          else do {
            name \<leftarrow> token_at st1 0;
            case take_function name (cmd_functions st1) of
              None \<Rightarrow> Some (run_unregistered host text (st1, w))
            | Some (f, fs) \<Rightarrow>
                let st2 = st1\<lparr>cmd_functions := f # fs\<rparr> in
                (case fn_function f of
                   Some g \<Rightarrow> run_function host g (st2, w)
                 | None \<Rightarrow> Some (run_unregistered host text (st2, w))) } })"

text \<open>How long the first command in the buffer is.\<close>

fun command_length :: "string \<Rightarrow> int \<Rightarrow> nat" where
  "command_length [] quoteCount = 0"
| "command_length (c # cs) quoteCount =
     (let quoteCount1 = (if c = QUOTE then quoteCount + 1 else quoteCount) in
      if quoteCount1 AND 1 = 0 \<and> c = CHR '';'' \<or> c = NEWLINE \<or> c = RETURN then 0
      else Suc (command_length cs quoteCount1))"

definition take_command :: "cbuf_t \<Rightarrow> (string \<times> cbuf_t) option" where
  "take_command b = do {
     text \<leftarrow> copy_out (cb_data b) 0 (cb_cursize b);
     let found = int (command_length text 0);
     let commandLength = (if found > CBUF_COMMAND_CAPACITY - 2 then CBUF_COMMAND_CAPACITY - 1 else found);
     command \<leftarrow> copy_out (cb_data b) 0 commandLength;
     if commandLength = cb_cursize b then Some (cstr_of command, b\<lparr>cb_cursize := 0\<rparr>)
     else let size' = cb_cursize b - (commandLength + 1) in do {
       rest \<leftarrow> copy_out (cb_data b) (commandLength + 1) size';
       data \<leftarrow> copy_in (cb_data b) 0 rest;
       Some (cstr_of command, b\<lparr>cb_data := data, cb_cursize := size'\<rparr>) } }"

text \<open>A command may put text in front of the buffer again, so the loop need not end.\<close>

partial_function (option) Cbuf_Execute :: "'w command_host \<Rightarrow> 'w machine \<Rightarrow> 'w machine option" where
  "Cbuf_Execute host m =
     (if cb_cursize (cmd_text (fst m)) = 0 then Some m
      else if cmd_wait (fst m) \<noteq> 0 then Some ((fst m)\<lparr>cmd_wait := i32 (cmd_wait (fst m) - 1)\<rparr>, snd m)
      else do {
        (command, b) \<leftarrow> take_command (cmd_text (fst m));
        m1 \<leftarrow> Cmd_ExecuteString host command ((fst m)\<lparr>cmd_text := b\<rparr>, snd m);
        Cbuf_Execute host m1 })"

datatype cbufExec_t = EXEC_NOW | EXEC_INSERT | EXEC_APPEND

definition Cbuf_ExecuteText :: "'w command_host \<Rightarrow> cbufExec_t \<Rightarrow> string option \<Rightarrow> 'w machine \<Rightarrow> 'w machine option" where
  "Cbuf_ExecuteText host executionMode text m = (case executionMode of
     EXEC_NOW \<Rightarrow> (case text of Some (c # cs) \<Rightarrow> Cmd_ExecuteString host (c # cs) m | _ \<Rightarrow> Cbuf_Execute host m)
   | EXEC_INSERT \<Rightarrow> (case text of None \<Rightarrow> None
       | Some t \<Rightarrow> map_option (\<lambda>st. (st, snd m)) (Cbuf_InsertText (fst m) t))
   | EXEC_APPEND \<Rightarrow> (case text of None \<Rightarrow> None
       | Some t \<Rightarrow> map_option (\<lambda>st. (st, snd m)) (Cbuf_AddText (fst m) t)))"

end
