(* ===== verification/SvClients.thy ===== *)
theory SvClients
  imports SvSnapshot SvCommands SvDownload ClDownload FsPack Huffman Loopback Command
begin

text \<open>
  The server with its client slots: \<open>svs\<close> and \<open>sv\<close> of \<open>src/qcommon/server_runtime_types.h\<close>, the end
  of a client (\<open>server_client_release.c\<close>, \<open>SV_DropClient\<close> of \<open>server_client_message.c\<close>), its
  userinfo (\<open>server_game_bridge.c\<close>) and the periodic maintenance (\<open>server_client_maintenance.c\<close>).
  \<open>s_clients\<close> is the array of \<open>sv_maxclients\<close> slots. The game module, the script variables and the
  player states they keep are a world \<open>'g\<close> of their own behind \<open>server_services\<close>: a call into the game
  may change the whole server. The connectionless texts
  and the packets that leave for the network are listed in \<open>s_sent\<close> and \<open>s_packets\<close>.
\<close>

section \<open>State\<close>

datatype serverState_t = SS_DEAD | SS_LOADING | SS_GAME

record challenge_t =
  ch_address :: netadr_t
  ch_challengeNumber :: int
  ch_slotTimestamp :: int
  ch_pingStartTime :: int
  ch_authorizeStartTime :: int
  ch_firstPingMsec :: int
  ch_connected :: bool
  ch_numericGuid :: int
  ch_authGuidString :: string

text \<open>The rest of \<open>client_t\<close>; \<open>sc_gentity\<close> says that the pointer is not \<open>NULL\<close>.\<close>

record server_client =
  sc_snap :: snapshot_client
  sc_userinfo :: string
  sc_name :: string
  sc_gamestateMessageNum :: int
  sc_lastUsercmd :: usercmd_t
  sc_gentity :: bool
  sc_nextReliableTime :: int
  sc_lastConnectTime :: int
  sc_timeoutCount :: int
  sc_ping :: int
  sc_pureAuthState :: int
  sc_guid :: int
  sc_scriptId :: int

record server_cvars =
  cv_dedicated :: int
  cv_cl_running :: int
  cv_cl_paused :: int
  cv_sv_paused :: int
  cv_floodProtect :: int
  cv_pure :: int
  cv_timeout :: int
  cv_zombietime :: int
  cv_reconnectlimit :: int
  cv_minPing :: int
  cv_maxPing :: int
  cv_privateClients :: int
  cv_privatePassword :: string
  cv_onlyVisibleClients :: int
  cv_kickBanTime :: int
  cv_timescale :: int
  cv_allowDownload :: int
  cv_wwwDownload :: int
  cv_wwwDlDisconnected :: int
  cv_wwwBaseURL :: string
  cv_fs_basegame :: string

record ('g, 'z) server =
  s_static :: serverStatic_t
  s_clients :: "server_client list"
  s_challenges :: "challenge_t list"
  s_guidCache :: "(int \<times> int) list"
  s_masterAddress :: netadr_t
  s_nextHeartbeatTime :: int
  s_state :: serverState_t
  s_gamestateChecksumFeed :: int
  s_serverId :: int
  s_reconnectSequence :: int
  s_randomState :: "32 word"
  s_configstrings :: "string list"
  s_totalBytesSentThisFrame :: int
  s_cvars :: server_cvars
  s_net :: net_env
  s_info :: info_state
  s_command :: command_state
  s_fs :: "'z fs_state"
  s_searchpaths :: "searchpath_t list"
  s_serverPaks :: "int list"
  s_sent :: "(netadr_t \<times> string) list"
  s_packets :: "(netadr_t \<times> 8 word list) list"
  s_game :: 'g

datatype game_call =
    GAME_CLIENT_CONNECT int int
  | GAME_CLIENT_BEGIN int
  | GAME_CLIENT_USERINFO_CHANGED int
  | GAME_CLIENT_DISCONNECT int
  | GAME_CLIENT_COMMAND int
  | GAME_CLIENT_THINK int
  | GAME_IS_VALID_WEAPON int

text \<open>
  What the server relies on: the game's answer to a call (for \<open>GAME_CLIENT_CONNECT\<close> a text or \<open>NULL\<close>,
  and a number otherwise), the player state it keeps for a client, the script variables, the number
  of the client's entity in the game's memory, the local
  IP addresses of the host, PunkBuster's answer to a connect request, the fixed Huffman tree, what a
  message array on the stack holds before it is written, which search paths
  count (see theory FsPack), \<open>SV_BuildClientSnapshot\<close> and the archive library.
\<close>

record ('g, 'z) server_services =
  sv_vm :: "game_call \<Rightarrow> ('g, 'z) server \<Rightarrow> ((int \<times> string option) \<times> ('g, 'z) server) run"
  sv_player :: "'g \<Rightarrow> int \<Rightarrow> playerState_t option"
  sv_freeScript :: "int \<Rightarrow> 'g \<Rightarrow> 'g"
  sv_allocScript :: "'g \<Rightarrow> int \<times> 'g"
  sv_numberEntity :: "int \<Rightarrow> 'g \<Rightarrow> 'g"
  sv_localIP :: "8 word list list"
  sv_punkbuster :: "netadr_t \<Rightarrow> int \<Rightarrow> string \<Rightarrow> string option"
  sv_huffman :: huffman_t
  sv_stack :: "8 word list"
  sv_inScope :: "searchpath_t \<Rightarrow> bool"
  sv_build :: "int \<Rightarrow> ('g, 'z) server \<Rightarrow> ('g, 'z) server run"
  sv_archive :: "'z archive_services"

abbreviation MAX_NAME_LENGTH :: nat where "MAX_NAME_LENGTH \<equiv> 32"
abbreviation INT32_MIN :: int where "INT32_MIN \<equiv> -2147483648"
abbreviation SERVER_CLIENT_PURE_STATE_PENDING :: int where "SERVER_CLIENT_PURE_STATE_PENDING \<equiv> 0"
abbreviation SERVER_CLIENT_PURE_STATE_VALID :: int where "SERVER_CLIENT_PURE_STATE_VALID \<equiv> 1"
abbreviation SERVER_CLIENT_PURE_STATE_INVALID :: int where "SERVER_CLIENT_PURE_STATE_INVALID \<equiv> 2"

abbreviation slot_of :: "server_client \<Rightarrow> client_t" where
  "slot_of client \<equiv> sn_client (sc_snap client)"

abbreviation slot_state :: "server_client \<Rightarrow> serverClientState_t" where
  "slot_state client \<equiv> c_state (slot_of client)"

abbreviation client_address :: "server_client \<Rightarrow> netadr_t" where
  "client_address client \<equiv> n_remoteAddress (c_netchan (slot_of client))"

definition with_snap :: "(snapshot_client \<Rightarrow> snapshot_client) \<Rightarrow> server_client \<Rightarrow> server_client" where
  "with_snap f client = client\<lparr>sc_snap := f (sc_snap client)\<rparr>"

definition with_slot :: "(client_t \<Rightarrow> client_t) \<Rightarrow> server_client \<Rightarrow> server_client" where
  "with_slot f = with_snap (\<lambda>c. c\<lparr>sn_client := f (sn_client c)\<rparr>)"

text \<open>\<open>&svs.clients[clientNum]\<close>, and an assignment through that pointer.\<close>

definition client_at :: "int \<Rightarrow> ('g, 'z) server \<Rightarrow> server_client run" where
  "client_at clientNum st = checked (peek (s_clients st) clientNum)"

definition change_client :: "int \<Rightarrow> (server_client \<Rightarrow> server_client) \<Rightarrow> ('g, 'z) server \<Rightarrow> ('g, 'z) server run" where
  "change_client clientNum f st =
     run_bind (client_at clientNum st) (\<lambda>client.
       Done (st\<lparr>s_clients := (s_clients st)[nat clientNum := f client]\<rparr>))"

abbreviation connected :: "server_client \<Rightarrow> bool" where
  "connected client \<equiv> state_value (slot_state client) \<ge> state_value CS_CONNECTED"

abbreviation real_time :: "('g, 'z) server \<Rightarrow> int" where
  "real_time st \<equiv> svs_realTime (s_static st)"

section \<open>Userinfo\<close>

text \<open>\<open>Info_ValueForKey\<close> and the string its result points to.\<close>

definition info_value :: "string \<Rightarrow> string \<Rightarrow> ('g, 'z) server \<Rightarrow> (string \<times> ('g, 'z) server) run" where
  "info_value info key st =
     run_bind (Info_ValueForKey (s_info st) (Some info) (Some key)) (\<lambda>(i, p).
       Done (pointed i p, st\<lparr>s_info := i\<rparr>))"

definition SV_SetUserinfo :: "int \<Rightarrow> string \<Rightarrow> ('g, 'z) server \<Rightarrow> ('g, 'z) server run" where
  "SV_SetUserinfo clientNum userinfo st =
     (if clientNum < 0 \<or> clientNum \<ge> int (length (s_clients st)) then Raise ERR_DROP ''SV_SetUserinfo: bad index %i''
      else run_bind (info_value userinfo ''name'' st) (\<lambda>(name, st1).
        change_client clientNum (\<lambda>c. c\<lparr>sc_userinfo := take 1023 userinfo, sc_name := take 31 name\<rparr>) st1))"

definition SV_GetUserinfo :: "int \<Rightarrow> int \<Rightarrow> ('g, 'z) server \<Rightarrow> string run" where
  "SV_GetUserinfo clientNum bufferSize st =
     (if bufferSize < 1 then Raise ERR_DROP ''SV_GetUserinfo: bufferSize == %i''
      else if clientNum < 0 \<or> clientNum \<ge> int (length (s_clients st)) then Raise ERR_DROP ''SV_GetUserinfo: bad index %i''
      else run_bind (client_at clientNum st) (\<lambda>c. Done (take (nat (bufferSize - 1)) (sc_userinfo c))))"

definition SV_GetUsercmd :: "int \<Rightarrow> ('g, 'z) server \<Rightarrow> usercmd_t run" where
  "SV_GetUsercmd clientNum st =
     (if clientNum < 0 \<or> clientNum \<ge> int (length (s_clients st)) then Raise ERR_DROP ''SV_GetUsercmd: bad clientNum:%i''
      else run_bind (client_at clientNum st) (\<lambda>c. Done (sc_lastUsercmd c)))"

text \<open>\<open>Sys_IsLANAddress\<close> of \<open>sys_network_runtime.c\<close>.\<close>

definition Sys_IsLANAddress :: "8 word list list \<Rightarrow> netadr_t \<Rightarrow> bool" where
  "Sys_IsLANAddress localIP adr =
     (if a_type adr = NA_LOOPBACK \<or> a_type adr = NA_IPX then True
      else if a_type adr \<noteq> NA_IP then False
      else let ip = a_ip adr in
        ip ! 0 = 10 \<or> ip ! 0 = 127 \<or> (ip ! 0 = 172 \<and> (ip ! 1 AND 240) = 16) \<or> (ip ! 0 = 192 \<and> ip ! 1 = 168) \<or>
        list_ex (\<lambda>own. take 3 ip = take 3 own) localIP)"

definition clamp_to :: "int \<Rightarrow> int \<Rightarrow> int \<Rightarrow> int" where
  "clamp_to low high v = (if v < low then low else if v > high then high else v)"

definition client_rate :: "bool \<Rightarrow> string \<Rightarrow> int" where
  "client_rate lan value' =
     (if lan then 99999 else if value' = [] then 5000 else clamp_to 1000 90000 (parse_int value'))"

definition handicap_refused :: "string \<Rightarrow> bool" where
  "handicap_refused value' \<longleftrightarrow>
     value' \<noteq> [] \<and> (parse_int value' < 1 \<or> parse_int value' > 100 \<or> length value' > 4)"

definition snapshot_msec :: "string \<Rightarrow> int" where
  "snapshot_msec value' = (if value' = [] then 50 else 1000 div clamp_to 1 30 (parse_int value'))"

text \<open>Which keys are looked up matters for the two result buffers of \<open>Info_ValueForKey\<close>.\<close>

definition SV_UserinfoChanged :: "('g, 'z) server_services \<Rightarrow> int \<Rightarrow> ('g, 'z) server \<Rightarrow> ('g, 'z) server run" where
  "SV_UserinfoChanged sv clientNum st =
     run_bind (client_at clientNum st) (\<lambda>client.
     let userinfo = sc_userinfo client;
         lan = (Sys_IsLANAddress (sv_localIP sv) (client_address client) \<and> cv_dedicated (s_cvars st) \<noteq> 2) in
     run_bind (info_value userinfo ''name'' st) (\<lambda>(name, st1).
     run_bind (if lan then Done ([], st1) else info_value userinfo ''rate'' st1) (\<lambda>(rate, st2).
     run_bind (info_value userinfo ''handicap'' st2) (\<lambda>(handicap, st3).
     run_bind (if handicap_refused handicap then Info_SetValueForKey userinfo ''handicap'' ''100'' else Done userinfo)
       (\<lambda>userinfo1.
     run_bind (info_value userinfo1 ''snaps'' st3) (\<lambda>(snaps, st4).
     run_bind (info_value userinfo1 ''cl_wwwDownload'' st4) (\<lambda>(www, st5).
       change_client clientNum (\<lambda>c. (with_slot (\<lambda>slot. slot\<lparr>c_rate := client_rate lan rate,
             c_snapshotMsec := snapshot_msec snaps,
             c_download := (c_download slot)\<lparr>dl_redirectAllowedByClient := (www \<noteq> [] \<and> parse_int www \<noteq> 0)\<rparr>\<rparr>) c)
           \<lparr>sc_name := take 31 name, sc_userinfo := userinfo1\<rparr>) st5)))))))"

end
