(* ===== verification/SvConnect.thy ===== *)
theory SvConnect
  imports SvClients
begin

text \<open>
  The end of a client: \<open>server_client_release.c\<close>, \<open>SV_DropClient\<close> of
  \<open>server_client_message.c\<close>, the commands the game sends and the periodic maintenance of
  \<open>server_client_maintenance.c\<close>, as the dedicated server builds them. Joining is in theory SvJoin.
\<close>

section \<open>Leaving\<close>

definition SV_FreeClientScriptId :: "('g, 'z) server_services \<Rightarrow> int \<Rightarrow> ('g, 'z) server \<Rightarrow> ('g, 'z) server run" where
  "SV_FreeClientScriptId sv clientNum st =
     run_bind (client_at clientNum st) (\<lambda>client.
       change_client clientNum (\<lambda>c. c\<lparr>sc_scriptId := 0\<rparr>)
         (st\<lparr>s_game := sv_freeScript sv (sc_scriptId client) (s_game st)\<rparr>))"

definition close_download :: "int \<Rightarrow> ('g, 'z) server \<Rightarrow> ('g, 'z) server run" where
  "close_download clientNum st =
     run_bind (client_at clientNum st) (\<lambda>client.
     run_bind (checked (SV_CloseDownload (s_fs st) (c_download (slot_of client)))) (\<lambda>(fs, dl).
       change_client clientNum (with_slot (\<lambda>slot. slot\<lparr>c_download := dl\<rparr>)) (st\<lparr>s_fs := fs\<rparr>)))"

text \<open>A call into the game whose result is not looked at.\<close>

definition tell_game :: "('g, 'z) server_services \<Rightarrow> game_call \<Rightarrow> ('g, 'z) server \<Rightarrow> ('g, 'z) server run" where
  "tell_game sv call st = run_bind (sv_vm sv call st) (\<lambda>(_, st1). Done st1)"

definition SV_FreeClient :: "('g, 'z) server_services \<Rightarrow> int \<Rightarrow> ('g, 'z) server \<Rightarrow> ('g, 'z) server run" where
  "SV_FreeClient sv clientNum st =
     run_bind (close_download clientNum st) (\<lambda>st1.
     run_bind (if s_state st1 = SS_GAME then tell_game sv (GAME_CLIENT_DISCONNECT clientNum) st1 else Done st1) (\<lambda>st2.
     run_bind (SV_SetUserinfo clientNum [] st2) (\<lambda>st3.
       SV_FreeClientScriptId sv clientNum st3)))"

fun release_challenge :: "netadr_t \<Rightarrow> challenge_t list \<Rightarrow> challenge_t list" where
  "release_challenge address [] = []"
| "release_challenge address (c # cs) =
     (if NET_CompareAdr address (ch_address c) then c\<lparr>ch_connected := False\<rparr> # cs
      else c # release_challenge address cs)"

text \<open>\<open>SV_SendServerCommand\<close> on the slots; a client whose ring is full is sent \<open>disconnect\<close>.\<close>

definition send_command :: "int option \<Rightarrow> bool \<Rightarrow> string \<Rightarrow> ('g, 'z) server \<Rightarrow> ('g, 'z) server run" where
  "send_command target reliable command st = checked (do {
     (slots, disconnects) \<leftarrow> SV_SendServerCommand (real_time st) (map slot_of (s_clients st)) (map_option nat target)
        reliable command;
     Some (st\<lparr>s_clients := map2 (\<lambda>client slot. with_slot (\<lambda>_. slot) client) (s_clients st) slots,
              s_sent := s_sent st @ [(n_remoteAddress (c_netchan slot), ''disconnect''). (slot, d) \<leftarrow> zip slots disconnects, d]\<rparr>) })"

definition drop_messages :: "int \<Rightarrow> string \<Rightarrow> string \<Rightarrow> ('g, 'z) server \<Rightarrow> ('g, 'z) server run" where
  "drop_messages clientNum name dropReason st =
     run_bind (if Q_stricmp (Some dropReason) (Some ''EXE_DISCONNECTED'') \<noteq> 0
               then send_command None False (''e \"'' @ CHR 0x15 # name @ ''^7 '' @ CHR 0x14 # dropReason @ ''\"'') st
               else Done st) (\<lambda>st1.
       send_command (Some clientNum) True (''w \"'' @ dropReason @ ''\"'') st1)"

definition SV_Heartbeat_f :: "('g, 'z) server \<Rightarrow> ('g, 'z) server" where
  "SV_Heartbeat_f st = st\<lparr>s_nextHeartbeatTime := INT32_MIN\<rparr>"

definition set_state :: "serverClientState_t \<Rightarrow> server_client \<Rightarrow> server_client" where
  "set_state new = with_slot (\<lambda>slot. slot\<lparr>c_state := new\<rparr>)"

definition SV_DropClient ::
    "('g, 'z) server_services \<Rightarrow> int \<Rightarrow> string option \<Rightarrow> ('g, 'z) server \<Rightarrow> ('g, 'z) server run" where
  "SV_DropClient sv clientNum dropReason st =
     run_bind (client_at clientNum st) (\<lambda>client.
     if slot_state client = CS_ZOMBIE then Done st
     else let reason = (case dropReason of None \<Rightarrow> [] | Some s \<Rightarrow> s); name = sc_name client in
     run_bind (change_client clientNum (with_slot (\<lambda>slot. slot\<lparr>c_deferredDropReason := None\<rparr>)) st) (\<lambda>st1.
     run_bind (SV_FreeClient sv clientNum st1) (\<lambda>st2.
     run_bind (change_client clientNum (set_state CS_ZOMBIE) st2) (\<lambda>st3.
     run_bind (client_at clientNum st3) (\<lambda>client3.
     let st4 = (if \<not> sc_gentity client3
                then st3\<lparr>s_challenges := release_challenge (client_address client3) (s_challenges st3)\<rparr> else st3) in
     run_bind (drop_messages clientNum name reason st4) (\<lambda>st5.
       Done (if list_ex connected (s_clients st5) then st5 else SV_Heartbeat_f st5)))))))"

definition PB_DropClient ::
    "('g, 'z) server_services \<Rightarrow> int \<Rightarrow> string option \<Rightarrow> ('g, 'z) server \<Rightarrow> ('g, 'z) server run" where
  "PB_DropClient sv clientNum dropReason st = SV_DropClient sv clientNum dropReason st"

definition SV_GameDropClient ::
    "('g, 'z) server_services \<Rightarrow> int \<Rightarrow> string option \<Rightarrow> ('g, 'z) server \<Rightarrow> ('g, 'z) server run" where
  "SV_GameDropClient sv clientNum reason st =
     (if clientNum \<ge> 0 \<and> clientNum < int (length (s_clients st)) then SV_DropClient sv clientNum reason st else Done st)"

definition SV_GameSendServerCommand :: "int \<Rightarrow> bool \<Rightarrow> string \<Rightarrow> ('g, 'z) server \<Rightarrow> ('g, 'z) server run" where
  "SV_GameSendServerCommand clientNum reliable command st =
     (if clientNum = -1 then send_command None reliable command st
      else if clientNum \<ge> 0 \<and> clientNum < int (length (s_clients st)) then send_command (Some clientNum) reliable command st
      else Done st)"

text \<open>The loops over all slots stop at an error. \<open>free(svs.clients)\<close> leaves no slot.\<close>

fun for_slots :: "(int \<Rightarrow> ('g, 'z) server \<Rightarrow> ('g, 'z) server run) \<Rightarrow> int list \<Rightarrow> ('g, 'z) server \<Rightarrow> ('g, 'z) server run" where
  "for_slots step [] st = Done st"
| "for_slots step (n # ns) st = run_bind (step n st) (for_slots step ns)"

abbreviation all_slots :: "('g, 'z) server \<Rightarrow> int list" where
  "all_slots st \<equiv> [0..int (length (s_clients st)) - 1]"

definition SV_FreeClients :: "('g, 'z) server_services \<Rightarrow> ('g, 'z) server \<Rightarrow> ('g, 'z) server run" where
  "SV_FreeClients sv st =
     run_bind (for_slots (\<lambda>n st1. run_bind (client_at n st1) (\<lambda>client.
         if connected client then SV_FreeClient sv n st1 else Done st1)) (all_slots st) st) (\<lambda>st1.
       Done (st1\<lparr>s_clients := []\<rparr>))"

definition SV_FreeClientScriptPers :: "('g, 'z) server_services \<Rightarrow> ('g, 'z) server \<Rightarrow> ('g, 'z) server run" where
  "SV_FreeClientScriptPers sv st =
     for_slots (\<lambda>n st1. run_bind (client_at n st1) (\<lambda>client.
       if connected client then
         run_bind (SV_FreeClientScriptId sv n st1) (\<lambda>st2.
           case sv_allocScript sv (s_game st2) of (scriptId, game) \<Rightarrow>
             change_client n (\<lambda>c. c\<lparr>sc_scriptId := scriptId\<rparr>) (st2\<lparr>s_game := game\<rparr>))
       else Done st1)) (all_slots st) st"

section \<open>Maintenance\<close>

text \<open>The sum and the number of the frames that have been acknowledged; \<open>/\<close> truncates.\<close>

definition frame_ping :: "clientSnapshot_t list \<Rightarrow> int" where
  "frame_ping frames =
     (let acknowledged = filter (\<lambda>f. sf_messageAcknowledgedTime f > 0) frames;
          total = fold (\<lambda>f sum. i32 (sum + (sf_messageAcknowledgedTime f - sf_messageSentTime f))) acknowledged 0 in
      if acknowledged = [] then 999 else min 999 (total sdiv int (length acknowledged)))"

definition SV_CalcPings :: "('g, 'z) server \<Rightarrow> ('g, 'z) server" where
  "SV_CalcPings st = st\<lparr>s_clients := map (\<lambda>c. c\<lparr>sc_ping :=
     (if slot_state c \<noteq> CS_ACTIVE \<or> \<not> sc_gentity c then 999 else frame_ping (sn_snapshotFrames (sc_snap c)))\<rparr>)
     (s_clients st)\<rparr>"

definition check_timeout ::
    "('g, 'z) server_services \<Rightarrow> int \<Rightarrow> int \<Rightarrow> int \<Rightarrow> ('g, 'z) server \<Rightarrow> ('g, 'z) server run" where
  "check_timeout sv timeoutLimit zombieLimit clientNum st =
     run_bind (change_client clientNum (with_slot (\<lambda>slot.
        slot\<lparr>c_lastPacketTime := min (c_lastPacketTime slot) (real_time st)\<rparr>)) st) (\<lambda>st1.
     run_bind (client_at clientNum st1) (\<lambda>client.
     let slot = slot_of client in
     if c_isTestClient slot then Done st1
     else if c_state slot = CS_ZOMBIE \<and> c_lastPacketTime slot < zombieLimit
     then change_client clientNum (set_state CS_FREE) st1
     else if connected client \<and> c_lastPacketTime slot < timeoutLimit then
       run_bind (change_client clientNum (\<lambda>c. c\<lparr>sc_timeoutCount := i32 (sc_timeoutCount c + 1)\<rparr>) st1) (\<lambda>st2.
       if i32 (sc_timeoutCount client + 1) > 5 then
         run_bind (SV_DropClient sv clientNum (Some ''EXE_TIMEDOUT'') st2) (change_client clientNum (set_state CS_FREE))
       else Done st2)
     else change_client clientNum (\<lambda>c. c\<lparr>sc_timeoutCount := 0\<rparr>) st1))"

definition SV_CheckTimeouts :: "('g, 'z) server_services \<Rightarrow> ('g, 'z) server \<Rightarrow> ('g, 'z) server run" where
  "SV_CheckTimeouts sv st =
     (let timeoutLimit = i32 (real_time st - cv_timeout (s_cvars st) * 1000);
          zombieLimit = i32 (real_time st - cv_zombietime (s_cvars st) * 1000) in
      for_slots (check_timeout sv timeoutLimit zombieLimit) (all_slots st) st)"

definition SV_CheckPaused :: "('g, 'z) server \<Rightarrow> bool \<times> ('g, 'z) server" where
  "SV_CheckPaused st =
     (if cv_cl_paused (s_cvars st) = 0 then (False, st)
      else let more = (length (filter connected (s_clients st)) > 1) in
      (\<not> more, st\<lparr>s_cvars := (s_cvars st)\<lparr>cv_sv_paused := (if more then 0 else 1)\<rparr>\<rparr>))"

end
