(* ===== verification/SvJoin.thy ===== *)
theory SvJoin
  imports SvConnect
begin

text \<open>
  Joining the server: the challenges of \<open>server_authorize.c\<close>, the direct connect of \<open>server_connect.c\<close>
  and the cache of recently seen GUIDs. A client first asks for a challenge, a number bound to its
  address, and then connects with it. The CD-key authorization of joining clients is disabled
  (\<open>CODUO_DISABLE_SERVER_AUTH\<close>); what the master server asks for is not modelled. \<open>s_masterAddress\<close>
  is the address \<open>SV_MasterAddress\<close> has resolved.
\<close>

section \<open>Random numbers and floating point cvars\<close>

text \<open>\<open>coduo_crt_rand\<close> of \<open>src/compat/crt/random_compat.c\<close>.\<close>

definition coduo_crt_rand :: "32 word \<Rightarrow> int \<times> 32 word" where
  "coduo_crt_rand state = (let next' = state * 214013 + 2531011 in (uint (drop_bit 16 next' AND 32767), next'))"

text \<open>
  The comparison of an integer with a \<open>float\<close> in extended precision is exact. The value of a finite
  pattern is \<open>mantissa * 2 ^ scale\<close>.
\<close>

definition float_mantissa :: "int \<Rightarrow> int" where
  "float_mantissa v =
     (let m = (if float_exponent v = 0 then float_fraction v else 8388608 + float_fraction v) in
      if float_sign v then - m else m)"

definition float_scale :: "int \<Rightarrow> int" where
  "float_scale v = max (float_exponent v) 1 - 150"

definition int_less_float :: "int \<Rightarrow> int \<Rightarrow> bool" where
  "int_less_float n v =
     (if float_exponent v = 255 then float_fraction v = 0 \<and> \<not> float_sign v
      else if 0 \<le> float_scale v then n < float_mantissa v * 2 ^ nat (float_scale v)
      else n * 2 ^ nat (- float_scale v) < float_mantissa v)"

definition float_less_int :: "int \<Rightarrow> int \<Rightarrow> bool" where
  "float_less_int v n =
     (if float_exponent v = 255 then float_fraction v = 0 \<and> float_sign v
      else if 0 \<le> float_scale v then float_mantissa v * 2 ^ nat (float_scale v) < n
      else float_mantissa v < n * 2 ^ nat (- float_scale v))"

section \<open>Challenges\<close>

definition oob_print :: "netadr_t \<Rightarrow> string \<Rightarrow> ('g, 'z) server \<Rightarrow> ('g, 'z) server" where
  "oob_print address text' st = st\<lparr>s_sent := s_sent st @ [(address, text')]\<rparr>"

definition refuse :: "netadr_t \<Rightarrow> string \<Rightarrow> ('g, 'z) server \<Rightarrow> ('g, 'z) server" where
  "refuse address reason = oob_print address (''error'' @ NEWLINE # reason)"

text \<open>
  The slot of an address that is not connected yet, or the oldest slot. The loop starts at slot 0
  with the oldest time \<open>INT32_MAX\<close>.
\<close>

fun scan_challenges :: "netadr_t \<Rightarrow> challenge_t list \<Rightarrow> nat \<Rightarrow> nat \<Rightarrow> int \<Rightarrow> bool \<times> nat" where
  "scan_challenges from [] slot oldestSlot oldestTime = (False, oldestSlot)"
| "scan_challenges from (c # cs) slot oldestSlot oldestTime =
     (if \<not> ch_connected c \<and> NET_CompareAdr from (ch_address c) then (True, slot)
      else if ch_slotTimestamp c < oldestTime
      then scan_challenges from cs (Suc slot) slot (ch_slotTimestamp c)
      else scan_challenges from cs (Suc slot) oldestSlot oldestTime)"

definition new_challenge :: "netadr_t \<Rightarrow> int \<Rightarrow> int \<Rightarrow> challenge_t \<Rightarrow> challenge_t" where
  "new_challenge from number realTime c = c\<lparr>ch_challengeNumber := number, ch_address := from,
     ch_authorizeStartTime := realTime, ch_firstPingMsec := 0, ch_slotTimestamp := realTime, ch_connected := False\<rparr>"

definition challenge_number :: "int \<Rightarrow> 32 word \<Rightarrow> int \<times> 32 word" where
  "challenge_number time state =
     (case coduo_crt_rand state of (high, state1) \<Rightarrow>
      case coduo_crt_rand state1 of (low, state2) \<Rightarrow>
        (sint (xor (xor (push_bit 16 (word_of_int high)) (word_of_int low)) (word_of_int time) :: 32 word), state2))"

definition challenge_response :: "int \<Rightarrow> int \<Rightarrow> string" where
  "challenge_response number onlyVisible =
     ''challengeResponse '' @ decimal number @ (if onlyVisible \<noteq> 0 then CHR '' '' # decimal onlyVisible else [])"

text \<open>The second result says that the master server asked, which is not modelled further.\<close>

definition SV_GetChallenge :: "netadr_t \<Rightarrow> ('g, 'z) server \<Rightarrow> ('g, 'z) server \<times> bool" where
  "SV_GetChallenge from st =
     (let (found, slot) = scan_challenges from (s_challenges st) 0 0 2147483647;
          (number, state) = challenge_number (svs_time (s_static st)) (s_randomState st);
          st1 = (if found then st
                 else st\<lparr>s_randomState := state,
                        s_challenges := (s_challenges st)[slot := new_challenge from number (real_time st) (s_challenges st ! slot)]\<rparr>) in
      if NET_CompareAdr from (s_masterAddress st) then (st1, True)
      else let challenge = (s_challenges st1 ! slot)\<lparr>ch_pingStartTime := real_time st\<rparr> in
        (oob_print from (challenge_response (ch_challengeNumber challenge) (cv_onlyVisibleClients (s_cvars st)))
           (st1\<lparr>s_challenges := (s_challenges st1)[slot := challenge]\<rparr>), False))"

section \<open>Connecting\<close>

definition same_peer :: "netadr_t \<Rightarrow> int \<Rightarrow> server_client \<Rightarrow> bool" where
  "same_peer from qport client \<longleftrightarrow>
     NET_CompareBaseAdr from (client_address client) \<and>
     (n_qport (c_netchan (slot_of client)) = qport \<or> a_port from = a_port (client_address client))"

fun index_of :: "('a \<Rightarrow> bool) \<Rightarrow> 'a list \<Rightarrow> nat option" where
  "index_of P [] = None"
| "index_of P (x # xs) = (if P x then Some 0 else map_option Suc (index_of P xs))"

definition too_soon :: "netadr_t \<Rightarrow> int \<Rightarrow> ('g, 'z) server \<Rightarrow> bool" where
  "too_soon from qport st =
     (case index_of (same_peer from qport) (s_clients st) of
        None \<Rightarrow> False
      | Some n \<Rightarrow> i32 (real_time st - sc_lastConnectTime (s_clients st ! n)) < i32 (cv_reconnectlimit (s_cvars st) * 1000))"

definition answers :: "netadr_t \<Rightarrow> int \<Rightarrow> challenge_t \<Rightarrow> bool" where
  "answers from number c \<longleftrightarrow> NET_CompareAdr from (ch_address c) \<and> number = ch_challengeNumber c"

text \<open>The GUID of the challenge the client answers, or \<open>None\<close> after a refusal.\<close>

definition check_ping :: "('g, 'z) server_services \<Rightarrow> netadr_t \<Rightarrow> int \<Rightarrow> ('g, 'z) server \<Rightarrow> bool \<times> ('g, 'z) server" where
  "check_ping sv from ping st =
     (let low = cv_minPing (s_cvars st); high = cv_maxPing (s_cvars st) in
      if Sys_IsLANAddress (sv_localIP sv) from then (True, st)
      else if \<not> float_is_zero low \<and> int_less_float ping low
      then (False, refuse from ''EXE_ERR_HIGH_PING_ONLY'' st)
      else if \<not> float_is_zero high \<and> float_less_int high ping
      then (False, refuse from ''EXE_ERR_LOW_PING_ONLY'' st)
      else (True, st))"

definition check_challenge ::
    "('g, 'z) server_services \<Rightarrow> netadr_t \<Rightarrow> int \<Rightarrow> ('g, 'z) server \<Rightarrow> int option \<times> ('g, 'z) server" where
  "check_challenge sv from number st =
     (if NET_IsLocalAddress from then (Some 0, st)
      else case index_of (answers from number) (s_challenges st) of
        None \<Rightarrow> (None, refuse from ''EXE_BAD_CHALLENGE'' st)
      | Some k \<Rightarrow>
          let challenge = s_challenges st ! k;
              ping = (if ch_firstPingMsec challenge = 0 then i32 (real_time st - ch_pingStartTime challenge)
                      else ch_firstPingMsec challenge);
              st1 = st\<lparr>s_challenges := (s_challenges st)[k :=
                challenge\<lparr>ch_firstPingMsec := ping, ch_connected := True\<rparr>]\<rparr> in
          case check_ping sv from ping st1 of (passed, st2) \<Rightarrow>
            (if passed then Some (ch_numericGuid challenge) else None, st2))"

definition punkbuster_allows ::
    "('g, 'z) server_services \<Rightarrow> netadr_t \<Rightarrow> string \<Rightarrow> ('g, 'z) server \<Rightarrow> (bool \<times> ('g, 'z) server) run" where
  "punkbuster_allows sv from userinfo st =
     run_bind (info_value userinfo ''cl_punkbuster'' st) (\<lambda>(enabled, st1).
     run_bind (info_value userinfo ''cl_guid'' st1) (\<lambda>(guid, st2).
       case sv_punkbuster sv from (parse_int enabled) guid of
         None \<Rightarrow> Done (True, st2)
       | Some text' \<Rightarrow>
           Done (False, if Q_stricmpn text' (''error'' @ [NEWLINE]) 6 = 0 then oob_print from text' st2 else st2)))"

fun first_free :: "int list \<Rightarrow> ('g, 'z) server \<Rightarrow> int option run" where
  "first_free [] st = Done None"
| "first_free (n # ns) st =
     run_bind (client_at n st) (\<lambda>client. if slot_state client = CS_FREE then Done (Some n) else first_free ns st)"

text \<open>The slot of the same client, which is given up, or a free one; the first are for the password.\<close>

definition take_slot ::
    "('g, 'z) server_services \<Rightarrow> netadr_t \<Rightarrow> int \<Rightarrow> string \<Rightarrow> ('g, 'z) server \<Rightarrow> (int option \<times> ('g, 'z) server) run" where
  "take_slot sv from qport userinfo st =
     (case index_of (\<lambda>c. slot_state c \<noteq> CS_FREE \<and> same_peer from qport c) (s_clients st) of
        Some n \<Rightarrow>
          run_bind (if connected (s_clients st ! n) then SV_FreeClient sv (int n) st else Done st) (\<lambda>st1.
            Done (Some (int n), st1))
      | None \<Rightarrow>
          run_bind (info_value userinfo ''password'' st) (\<lambda>(password, st1).
          let first = (if password = cv_privatePassword (s_cvars st1) then 0 else cv_privateClients (s_cvars st1)) in
          run_bind (first_free [first..int (length (s_clients st1)) - 1] st1) (\<lambda>slot. Done (slot, st1))))"

definition zero_frame :: clientSnapshot_t where
  "zero_frame = \<lparr>sf_playerState = null_state, sf_numEntities = 0, sf_numClients = 0, sf_firstEntity = 0,
     sf_firstClient = 0, sf_messageSentTime = 0, sf_messageAcknowledgedTime = 0, sf_messageSize = 0\<rparr>"

definition zero_download :: serverClientDownload_t where
  "zero_download = \<lparr>dl_fileName = [], dl_fileHandle = 0, dl_fileSize = 0, dl_bytesRead = 0,
     dl_nextAcknowledgmentBlock = 0, dl_nextBufferedBlock = 0, dl_nextTransmitBlock = 0,
     dl_blockData = replicate 8 None, dl_blockByteCounts = replicate 8 0, dl_eofBlockQueued = False,
     dl_lastBlockActivityTime = 0, dl_redirectAllowedByClient = False, dl_redirectUrl = [], dl_redirectActive = False,
     dl_redirectAcknowledged = False, dl_redirectFailed = False\<rparr>"

definition zero_command :: usercmd_t where
  "zero_command = \<lparr>uc_commandTime = 0, uc_buttons = 0, uc_wbuttons = 0, uc_weapon = 0, uc_angles = [0, 0, 0],
     uc_forwardmove = 0, uc_rightmove = 0, uc_upmove = 0\<rparr>"

text \<open>A slot that is all zero but for its channel.\<close>

definition empty_slot :: "netchan_t \<Rightarrow> client_t" where
  "empty_slot channel = \<lparr>c_state = CS_FREE, c_deferredDropReason = None,
     c_reliableCommands = replicate 64 \<lparr>rc_commandText = replicate 1024 NUL, rc_enqueueTime = 0, rc_reliable = False\<rparr>,
     c_reliableSequence = 0, c_reliableAcknowledge = 0, c_reliableSent = 0, c_messageAcknowledge = 0, c_challenge = 0,
     c_lastClientCommandString = replicate 1024 NUL, c_download = zero_download, c_lastPacketTime = 0, c_rate = 0,
     c_snapshotMsec = 0, c_netchan = channel, c_isTestClient = False, c_serverId = 0\<rparr>"

definition empty_client :: "netchan_t \<Rightarrow> server_client" where
  "empty_client channel = \<lparr>sc_snap = \<lparr>sn_client = empty_slot channel, sn_sendAsActive = False, sn_lastClientCommand = 0,
       sn_deltaMessage = 0, sn_nextSnapshotTime = 0, sn_rateDelayed = False, sn_snapshotFrames = replicate 32 zero_frame\<rparr>,
     sc_userinfo = [], sc_name = [], sc_gamestateMessageNum = 0, sc_lastUsercmd = zero_command, sc_gentity = False,
     sc_nextReliableTime = 0, sc_lastConnectTime = 0, sc_timeoutCount = 0, sc_ping = 0, sc_pureAuthState = 0, sc_guid = 0,
     sc_scriptId = 0\<rparr>"

text \<open>The record of the new client; the slot is still \<open>CS_FREE\<close>.\<close>

definition start_client ::
    "('g, 'z) server_services \<Rightarrow> int \<Rightarrow> netadr_t \<Rightarrow> int \<Rightarrow> int \<Rightarrow> int \<Rightarrow> string \<Rightarrow> ('g, 'z) server \<Rightarrow> ('g, 'z) server run" where
  "start_client sv n from qport number guid userinfo st =
     (case sv_allocScript sv (s_game st) of (scriptId, game) \<Rightarrow>
      run_bind (Netchan_Setup (s_net st) NS_SERVER from qport) (\<lambda>(env, channel).
        change_client n (\<lambda>_. with_slot (\<lambda>slot. slot\<lparr>c_challenge := number\<rparr>)
            ((empty_client channel)\<lparr>sc_gentity := True, sc_scriptId := scriptId, sc_guid := guid,
              sc_userinfo := take 1023 userinfo\<rparr>))
          (st\<lparr>s_game := game, s_net := env\<rparr>)))"

definition admit_client ::
    "('g, 'z) server_services \<Rightarrow> int \<Rightarrow> netadr_t \<Rightarrow> ('g, 'z) server \<Rightarrow> ('g, 'z) server run" where
  "admit_client sv n from st =
     run_bind (SV_UserinfoChanged sv n st) (\<lambda>st1.
     run_bind (checked (peek (s_challenges st1) n)) (\<lambda>challenge.
     let st2 = oob_print from ''connectResponse''
           (st1\<lparr>s_challenges := (s_challenges st1)[nat n := challenge\<lparr>ch_firstPingMsec := 0\<rparr>]\<rparr>) in
     run_bind (change_client n (\<lambda>c. (with_snap (\<lambda>s. s\<lparr>sn_nextSnapshotTime := real_time st2\<rparr>)
         (with_slot (\<lambda>slot. slot\<lparr>c_state := CS_CONNECTED, c_lastPacketTime := real_time st2\<rparr>) c))
       \<lparr>sc_lastConnectTime := real_time st2, sc_gamestateMessageNum := -1\<rparr>) st2) (\<lambda>st3.
     let count = length (filter connected (s_clients st3)) in
       Done (if count = 1 \<or> count = length (s_clients st3) then SV_Heartbeat_f st3 else st3))))"

definition enter_slot ::
    "('g, 'z) server_services \<Rightarrow> int \<Rightarrow> netadr_t \<Rightarrow> int \<Rightarrow> int \<Rightarrow> int \<Rightarrow> string \<Rightarrow> ('g, 'z) server \<Rightarrow> ('g, 'z) server run" where
  "enter_slot sv n from qport number guid userinfo st =
     run_bind (start_client sv n from qport number guid userinfo st) (\<lambda>st1.
     run_bind (client_at n st1) (\<lambda>client.
     run_bind (sv_vm sv (GAME_CLIENT_CONNECT n (sc_scriptId client)) st1) (\<lambda>((_, reject), st2).
       case reject of
         Some reason \<Rightarrow> SV_FreeClientScriptId sv n (refuse from reason st2)
       | None \<Rightarrow> admit_client sv n from st2)))"

definition SV_DirectConnect :: "('g, 'z) server_services \<Rightarrow> netadr_t \<Rightarrow> ('g, 'z) server \<Rightarrow> ('g, 'z) server run" where
  "SV_DirectConnect sv from st =
     run_bind (checked (Cmd_Argv (s_command st) 1)) (\<lambda>argument.
     let userinfo = take 1023 argument in
     run_bind (info_value userinfo ''protocol'' st) (\<lambda>(protocol, st1).
     if parse_int protocol \<noteq> 22
     then Done (refuse from (''EXE_SERVER_IS_DIFFERENT_VER'' @ CHR 0x15 # ''1.51'' @ [NEWLINE]) st1)
     else
     run_bind (info_value userinfo ''challenge'' st1) (\<lambda>(challenge, st2).
     run_bind (info_value userinfo ''qport'' st2) (\<lambda>(port, st3).
     let number = parse_int challenge; qport = parse_int port in
     if too_soon from qport st3 then Done st3
     else case check_challenge sv from number st3 of
       (None, st4) \<Rightarrow> Done st4
     | (Some guid, st4) \<Rightarrow>
         run_bind (punkbuster_allows sv from userinfo st4) (\<lambda>(allowed, st5).
         if \<not> allowed then Done st5
         else run_bind (take_slot sv from qport userinfo st5) (\<lambda>(slot, st6).
           case slot of
             None \<Rightarrow> Done (refuse from ''EXE_SERVERISFULL'' st6)
           | Some n \<Rightarrow> enter_slot sv n from qport number guid userinfo st6))))))"

section \<open>Recently seen GUIDs\<close>

text \<open>The entries are (GUID, time). The age is compared with a \<open>float\<close> number of seconds, unordered included.\<close>

definition too_old :: "int \<Rightarrow> int \<Rightarrow> bool" where
  "too_old age seconds =
     (if float_exponent seconds = 255 then float_fraction seconds = 0 \<and> float_sign seconds
      else if 0 \<le> float_scale seconds then float_mantissa seconds * 1000 * 2 ^ nat (float_scale seconds) < age
      else float_mantissa seconds * 1000 < age * 2 ^ nat (- float_scale seconds))"

definition SV_AuthorizeGuidRecentlySeen :: "int \<Rightarrow> ('g, 'z) server \<Rightarrow> bool" where
  "SV_AuthorizeGuidRecentlySeen guid st \<longleftrightarrow>
     guid \<noteq> 0 \<and> list_ex (\<lambda>(seen, time). seen = guid \<and>
       \<not> too_old (i32 (svs_time (s_static st) - time)) (cv_kickBanTime (s_cvars st))) (s_guidCache st)"

fun oldest_entry :: "(int \<times> int) list \<Rightarrow> nat \<Rightarrow> nat \<Rightarrow> (int \<times> int) list \<Rightarrow> nat" where
  "oldest_entry cache slot oldest [] = oldest"
| "oldest_entry cache slot oldest (entry # rest) =
     (if fst entry = 0 then slot
      else oldest_entry cache (Suc slot) (if snd entry < snd (cache ! oldest) then slot else oldest) rest)"

definition SV_AuthorizeGuidCacheSelectSlot :: "('g, 'z) server \<Rightarrow> nat" where
  "SV_AuthorizeGuidCacheSelectSlot st = oldest_entry (s_guidCache st) 0 0 (s_guidCache st)"

definition SV_AuthorizeGuidCacheStore :: "int \<Rightarrow> ('g, 'z) server \<Rightarrow> ('g, 'z) server" where
  "SV_AuthorizeGuidCacheStore guid st =
     st\<lparr>s_guidCache := (s_guidCache st)[SV_AuthorizeGuidCacheSelectSlot st := (guid, svs_time (s_static st))]\<rparr>"

end
