(* ===== verification/Cipher.thy ===== *)
theory Cipher
  imports SvCommands Loopback
begin

text \<open>
  Sequenced messages between client and server: the channel ciphers and the senders of
  \<open>src/server/engine/server_netchan.c\<close> and \<open>src/client/engine/client/client_netchan.c\<close>, the
  receivers \<open>SV_PacketEvent\<close> (\<open>server_packet.c\<close>) and \<open>CL_PacketEvent\<close> (\<open>cgame_frame.c\<close>) up to the
  decoded message, and the client's reliable commands (\<open>reliable_commands.c\<close>,
  \<open>CL_ParseCommandString\<close>). A message is ciphered in place with a key stream made of sequence
  numbers and of the last reliable command the other side has acknowledged.
\<close>

section \<open>The key stream\<close>

text \<open>
  The loop shared by the four cipher functions. The command array is read by index, also behind
  its NUL when it is empty.
\<close>

fun apply_key :: "string \<Rightarrow> int \<Rightarrow> 8 word \<Rightarrow> nat \<Rightarrow> 8 word list \<Rightarrow> 8 word list option" where
  "apply_key command index key n [] = Some []"
| "apply_key command index key n (d # ds) = do {
     c \<leftarrow> peek command index;
     let start = (if c = NUL then 0 else index) in do {
       k \<leftarrow> peek command start;
       let key' = xor key (push_bit (n mod 2) (byte_of k)) in do {
         rest \<leftarrow> apply_key command (start + 1) key' (Suc n) ds;
         Some (xor d key' # rest) } } }"

definition in_place ::
    "(8 word list \<Rightarrow> 8 word list option) \<Rightarrow> 8 word list \<Rightarrow> int \<Rightarrow> int \<Rightarrow> 8 word list option" where
  "in_place f data offset len =
     (if len \<le> 0 then Some data
      else do {
        old \<leftarrow> copy_out data offset len;
        new \<leftarrow> f old;
        copy_in data offset new })"

definition cipher :: "string \<Rightarrow> 8 word \<Rightarrow> 8 word list \<Rightarrow> int \<Rightarrow> int \<Rightarrow> 8 word list option" where
  "cipher command key = in_place (apply_key command 0 key 0)"

abbreviation key_byte :: "int \<Rightarrow> 8 word" where
  "key_byte \<equiv> word_of_int"

section \<open>The server's channel\<close>

definition SV_Netchan_Encode :: "client_t \<Rightarrow> 8 word list \<Rightarrow> int \<Rightarrow> int \<Rightarrow> 8 word list option" where
  "SV_Netchan_Encode client data offset len =
     cipher (c_lastClientCommandString client)
       (xor (key_byte (n_outgoingSequence (c_netchan client))) (key_byte (c_challenge client)))
       data offset len"

definition SV_Netchan_Decode :: "client_t \<Rightarrow> 8 word list \<Rightarrow> int \<Rightarrow> int \<Rightarrow> 8 word list option" where
  "SV_Netchan_Decode client data offset len =
     cipher (rc_commandText (c_reliableCommands client ! ring_slot (c_reliableAcknowledge client)))
       (xor (xor (key_byte (c_challenge client)) (key_byte (c_serverId client)))
            (key_byte (c_messageAcknowledge client)))
       data offset len"

definition SV_Netchan_Transmit ::
    "net_env \<Rightarrow> client_t \<Rightarrow> 8 word list \<Rightarrow> int \<Rightarrow> (net_env \<times> client_t \<times> 8 word list) run" where
  "SV_Netchan_Transmit env client data len =
     run_bind (checked (SV_Netchan_Encode client data 4 (i32 (len - 4)))) (\<lambda>encoded.
     run_bind (Netchan_Transmit env (c_netchan client) len encoded) (\<lambda>(env1, channel, packet).
       Done (env1, client\<lparr>c_netchan := channel\<rparr>, packet)))"

section \<open>The client's connection\<close>

record clientConnection_t =
  cl_serverId :: int
  clc_challenge :: int
  clc_reliableSequence :: int
  clc_reliableAcknowledge :: int
  clc_reliableCommands :: "string list"
  clc_serverMessageSequence :: int
  clc_serverCommandSequence :: int
  clc_serverCommands :: "string list"
  clc_lastPacketTime :: int
  clc_netchan :: netchan_t

abbreviation CODUO_RELIABLE_COMMAND_COUNT :: int where "CODUO_RELIABLE_COMMAND_COUNT \<equiv> 64"
abbreviation CODUO_RELIABLE_COMMAND_CAPACITY :: int where "CODUO_RELIABLE_COMMAND_CAPACITY \<equiv> 1024"
abbreviation CL_NETCHAN_ENCODE_START :: int where "CL_NETCHAN_ENCODE_START \<equiv> 9"

definition CL_Netchan_Encode :: "clientConnection_t \<Rightarrow> 8 word list \<Rightarrow> int \<Rightarrow> int \<Rightarrow> 8 word list option" where
  "CL_Netchan_Encode clc data offset len =
     cipher (clc_serverCommands clc ! ring_slot (clc_serverCommandSequence clc))
       (xor (xor (key_byte (cl_serverId clc)) (key_byte (clc_challenge clc)))
            (key_byte (clc_serverMessageSequence clc)))
       data offset len"

definition CL_Netchan_Decode :: "clientConnection_t \<Rightarrow> 8 word list \<Rightarrow> int \<Rightarrow> int \<Rightarrow> 8 word list option" where
  "CL_Netchan_Decode clc data offset len =
     cipher (clc_reliableCommands clc ! ring_slot (clc_reliableAcknowledge clc))
       (xor (key_byte (clc_challenge clc)) (key_byte (clc_serverMessageSequence clc)))
       data offset len"

definition CL_Netchan_Transmit ::
    "net_env \<Rightarrow> clientConnection_t \<Rightarrow> 8 word list \<Rightarrow> int \<Rightarrow> (net_env \<times> clientConnection_t \<times> 8 word list) run" where
  "CL_Netchan_Transmit env clc data len =
     run_bind (checked (CL_Netchan_Encode clc data CL_NETCHAN_ENCODE_START (i32 (len - CL_NETCHAN_ENCODE_START))))
       (\<lambda>encoded.
     run_bind (Netchan_Transmit env (clc_netchan clc) len encoded) (\<lambda>(env1, channel, packet).
       Done (env1, clc\<lparr>clc_netchan := channel\<rparr>, packet)))"

section \<open>The client's reliable commands\<close>

definition CL_AddReliableCommand :: "clientConnection_t \<Rightarrow> string \<Rightarrow> clientConnection_t run" where
  "CL_AddReliableCommand clc command =
     (if i32 (clc_reliableSequence clc - clc_reliableAcknowledge clc) > CODUO_RELIABLE_COMMAND_COUNT
      then Raise ERR_DROP ''EXE_ERR_CLIENT_CMD_OVERFLOW''
      else let sequence = i32 (clc_reliableSequence clc + 1); slot = ring_slot sequence in
      checked (do {
        buffer \<leftarrow> MSG_WriteReliableCommandToBuffer command (clc_reliableCommands clc ! slot)
                   CODUO_RELIABLE_COMMAND_CAPACITY;
        Some (clc\<lparr>clc_reliableSequence := sequence,
                  clc_reliableCommands := (clc_reliableCommands clc)[slot := buffer]\<rparr>) }))"

definition CL_ParseCommandString :: "clientConnection_t \<Rightarrow> msg_t \<Rightarrow> (clientConnection_t \<times> msg_t) option" where
  "CL_ParseCommandString clc message = do {
     (sequence, m1) \<leftarrow> MSG_ReadLong message;
     (command, m2) \<leftarrow> MSG_ReadString m1;
     if sequence \<le> clc_serverCommandSequence clc then Some (clc, m2)
     else let slot = ring_slot sequence in do {
       buffer \<leftarrow> Q_strncpyz (clc_serverCommands clc ! slot) (map char_of_byte command)
                  CODUO_RELIABLE_COMMAND_CAPACITY;
       Some (clc\<lparr>clc_serverCommandSequence := sequence,
                 clc_serverCommands := (clc_serverCommands clc)[slot := buffer]\<rparr>, m2) } }"

section \<open>Receiving\<close>

text \<open>The 32-bit integer stored at the head of a packet, \<open>memcpy(&x, data, 4)\<close>.\<close>

definition long_at :: "8 word list \<Rightarrow> int option" where
  "long_at data = do {
     b0 \<leftarrow> peek data 0;
     b1 \<leftarrow> peek data 1;
     b2 \<leftarrow> peek data 2;
     b3 \<leftarrow> peek data 3;
     Some (sint (ucast b0 OR push_bit 8 (ucast b1) OR push_bit 16 (ucast b2) OR
       push_bit 24 (ucast b3) :: 32 word)) }"

text \<open>What a receiver does next with a packet, as a value; \<open>Parse\<close> carries the decoded message.\<close>

datatype packet_action =
    Connectionless
  | Disconnect
  | Parse nat msg_t
  | Clear_temp

datatype client_outcome = CL_Connectionless | CL_Ignored | CL_Parse msg_t

definition CL_receive_message :: "clientConnection_t \<Rightarrow> msg_t \<Rightarrow> (clientConnection_t \<times> client_outcome) option" where
  "CL_receive_message clc message = do {
     sequence \<leftarrow> long_at (m_data message);
     (acknowledge, m1) \<leftarrow> MSG_ReadLong message;
     let clc1 = clc\<lparr>clc_serverMessageSequence := sequence, clc_reliableAcknowledge := acknowledge\<rparr>;
         oldest = i32 (clc_reliableSequence clc1 - CODUO_RELIABLE_COMMAND_COUNT) in
     if acknowledge < oldest
     then Some (clc1\<lparr>clc_reliableAcknowledge := clc_reliableSequence clc1\<rparr>, CL_Ignored)
     else do {
       data \<leftarrow> CL_Netchan_Decode clc1 (m_data m1) (m_readcount m1) (i32 (m_cursize m1 - m_readcount m1));
       Some (clc1, CL_Parse (m1\<lparr>m_data := data\<rparr>)) } }"

definition CL_PacketEvent ::
    "net_env \<Rightarrow> bool \<Rightarrow> int \<Rightarrow> clientConnection_t \<Rightarrow> netadr_t \<Rightarrow> msg_t \<Rightarrow>
     (net_env \<times> clientConnection_t \<times> client_outcome) run" where
  "CL_PacketEvent env connected realTime clc from message =
     run_bind (checked (if m_cursize message \<ge> 4 then map_option Some (long_at (m_data message)) else Some None))
       (\<lambda>marker.
     if marker = Some (-1) then Done (env, clc, CL_Connectionless)
     else if \<not> connected \<or> m_cursize message < 4 \<or>
             \<not> NET_CompareAdr from (n_remoteAddress (clc_netchan clc))
     then Done (env, clc, CL_Ignored)
     else let clc1 = clc\<lparr>clc_lastPacketTime := realTime\<rparr> in
     run_bind (Netchan_Process env (clc_netchan clc1) message) (\<lambda>(env1, channel, m1, accepted).
       let clc2 = clc1\<lparr>clc_netchan := channel\<rparr> in
       if \<not> accepted then Done (env1, clc2, CL_Ignored)
       else run_bind (checked (CL_receive_message clc2 m1)) (\<lambda>(clc3, outcome). Done (env1, clc3, outcome))))"

section \<open>The server's packets\<close>

record server_state =
  sv_clients :: "client_t list"
  sv_skelCacheKey :: int
  sv_realTime :: int

fun find_client :: "netadr_t \<Rightarrow> int \<Rightarrow> client_t list \<Rightarrow> nat option" where
  "find_client from qport [] = None"
| "find_client from qport (c # cs) =
     (if c_state c = CS_FREE \<or> \<not> NET_CompareBaseAdr from (n_remoteAddress (c_netchan c)) \<or>
         n_qport (c_netchan c) \<noteq> qport
      then map_option Suc (find_client from qport cs)
      else Some 0)"

text \<open>The message of a known client, once its channel has accepted it.\<close>

definition SV_receive_message :: "int \<Rightarrow> client_t \<Rightarrow> msg_t \<Rightarrow> (client_t \<times> msg_t option) option" where
  "SV_receive_message realTime client message = do {
     (serverId, m1) \<leftarrow> MSG_ReadByte message;
     (acknowledge, m2) \<leftarrow> MSG_ReadLong m1;
     let client1 = client\<lparr>c_serverId := serverId, c_messageAcknowledge := acknowledge\<rparr> in
     if acknowledge < 0 then Some (client1, None)
     else do {
       (reliable, m3) \<leftarrow> MSG_ReadLong m2;
       let client2 = client1\<lparr>c_reliableAcknowledge := reliable\<rparr>;
           backlog = i32 (c_reliableSequence client2 - reliable) in
       if backlog < MAX_RELIABLE_COMMANDS then do {
         data \<leftarrow> SV_Netchan_Decode client2 (m_data m3) (m_readcount m3) (i32 (m_cursize m3 - m_readcount m3));
         if c_state client2 \<noteq> CS_ZOMBIE
         then Some (client2\<lparr>c_lastPacketTime := realTime\<rparr>, Some (m3\<lparr>m_data := data\<rparr>))
         else Some (client2, None) }
       else Some (client2\<lparr>c_reliableAcknowledge := c_reliableSequence client2\<rparr>, None) } }"

definition fix_port :: "netadr_t \<Rightarrow> client_t \<Rightarrow> client_t" where
  "fix_port from client = client\<lparr>c_netchan := (c_netchan client)\<lparr>n_remoteAddress :=
     (n_remoteAddress (c_netchan client))\<lparr>a_port := a_port from\<rparr>\<rparr>\<rparr>"

definition next_skel_key :: "int \<Rightarrow> int" where
  "next_skel_key key = (let key1 = i32 (key + 1) in if key1 = 0 then 1 else key1)"

definition SV_client_packet ::
    "net_env \<Rightarrow> server_state \<Rightarrow> netadr_t \<Rightarrow> nat \<Rightarrow> msg_t \<Rightarrow> (net_env \<times> server_state \<times> packet_action list) run" where
  "SV_client_packet env sv from n message =
     (let client = fix_port from (sv_clients sv ! n);
          store = (\<lambda>client. sv\<lparr>sv_clients := (sv_clients sv)[n := client]\<rparr>) in
      run_bind (Netchan_Process env (c_netchan client) message) (\<lambda>(env1, channel, message1, accepted).
        let client1 = client\<lparr>c_netchan := channel\<rparr> in
        if \<not> accepted then Done (env1, store client1, [Clear_temp])
        else run_bind (checked (SV_receive_message (sv_realTime sv) client1 message1)) (\<lambda>(client2, parsed).
          Done (env1, store client2, (case parsed of None \<Rightarrow> [] | Some m \<Rightarrow> [Parse n m]) @ [Clear_temp]))))"

text \<open>
  The actions are those of the function in its order. \<open>SV_ExecuteClientMessage\<close> runs where
  \<open>Parse\<close> stands, on the state as returned.
\<close>

definition SV_PacketEvent ::
    "net_env \<Rightarrow> server_state \<Rightarrow> netadr_t \<Rightarrow> msg_t \<Rightarrow> (net_env \<times> server_state \<times> packet_action list) run" where
  "SV_PacketEvent env sv from message =
     run_bind (checked (if m_cursize message \<ge> 4 then map_option Some (long_at (m_data message)) else Some None))
       (\<lambda>marker.
     if marker = Some (-1) then Done (env, sv, [Connectionless])
     else let sv1 = sv\<lparr>sv_skelCacheKey := next_skel_key (sv_skelCacheKey sv)\<rparr>;
              message1 = message\<lparr>m_bit := 0, m_readcount := (if m_cursize message \<ge> 4 then 4 else 0)\<rparr> in
     run_bind (checked (MSG_ReadShort message1)) (\<lambda>(short, message2).
       case find_client from (u16 short) (sv_clients sv1) of
         None \<Rightarrow> Done (env, sv1, [Disconnect, Clear_temp])
       | Some n \<Rightarrow> SV_client_packet env sv1 from n message2))"

end
