(* ===== verification/SvSend.thy ===== *)
theory SvSend
  imports SvConnect Cipher
begin

text \<open>
  Sending to a client: \<open>SV_RateMsec\<close>, \<open>SV_SendMessageToClient\<close>, \<open>SV_SendClientSnapshot\<close> and
  \<open>SV_SendClientMessages\<close> of \<open>server_snapshot_send.c\<close>, and \<open>server_client_gamestate.c\<close>. The bandwidth
  report of the last is left out; the snapshot a message carries is built by \<open>sv_build\<close>.
\<close>

abbreviation SERVER_SVC_GAMESTATE :: int where "SERVER_SVC_GAMESTATE \<equiv> 2"
abbreviation SERVER_SVC_CONFIGSTRING :: int where "SERVER_SVC_CONFIGSTRING \<equiv> 3"
abbreviation SERVER_SVC_BASELINE :: int where "SERVER_SVC_BASELINE \<equiv> 4"
abbreviation SERVER_SVC_EOF :: int where "SERVER_SVC_EOF \<equiv> 8"
abbreviation SERVER_DELTA_MESSAGE_NONE :: int where "SERVER_DELTA_MESSAGE_NONE \<equiv> -1"

section \<open>One message\<close>

text \<open>
  The packet of a message: its first \<open>head\<close> bytes as they are and the rest compressed, in an array
  that held \<open>stack\<close>. Also \<open>CL_WritePacket\<close> does this.
\<close>

definition compress_behind :: "huffman_t \<Rightarrow> int \<Rightarrow> msg_t \<Rightarrow> 8 word list \<Rightarrow> (int \<times> 8 word list) option" where
  "compress_behind msgHuff head message stack = do {
     first \<leftarrow> copy_out (m_data message) 0 head;
     packet \<leftarrow> copy_in stack 0 first;
     input \<leftarrow> from_offset (m_data message) head;
     output \<leftarrow> from_offset packet head;
     (size', packed) \<leftarrow> MSG_WriteBitsCompress msgHuff input output (m_cursize message - head);
     Some (i32 (size' + head), first @ packed) }"

text \<open>\<open>Cvar_Set2\<close> stores 1000 in \<open>sv_maxRate\<close> before it is compared. A division by 0 is \<open>None\<close>.\<close>

definition SV_RateMsec :: "int \<Rightarrow> int \<Rightarrow> serverStatic_t \<Rightarrow> (int \<times> serverStatic_t) option" where
  "SV_RateMsec clientRate messageSize svs =
     (let size' = (if messageSize > 1500 then 1500 else messageSize);
          svs1 = (if sv_maxRate svs \<noteq> 0 \<and> sv_maxRate svs < 1000 then svs\<lparr>sv_maxRate := 1000\<rparr> else svs);
          rate = (if sv_maxRate svs \<noteq> 0 \<and> sv_maxRate svs1 < clientRate then sv_maxRate svs1 else clientRate) in
      if rate = 0 then None else Some (i32 (i32 (size' + 48) * 1000) sdiv rate, svs1))"

definition mark_sent :: "int \<Rightarrow> int \<Rightarrow> snapshot_client \<Rightarrow> snapshot_client option" where
  "mark_sent packetSize realTime client =
     (let slot = frame_slot (n_outgoingSequence (c_netchan (sn_client client))) in do {
      frame \<leftarrow> peek (sn_snapshotFrames client) slot;
      frames \<leftarrow> poke (sn_snapshotFrames client) slot
        (frame\<lparr>sf_messageSize := packetSize, sf_messageSentTime := realTime, sf_messageAcknowledgedTime := -1\<rparr>);
      Some (client\<lparr>sn_snapshotFrames := frames\<rparr>) })"

definition put_snap :: "int \<Rightarrow> snapshot_client \<Rightarrow> ('g, 'z) server \<Rightarrow> ('g, 'z) server run" where
  "put_snap clientNum client = change_client clientNum (with_snap (\<lambda>_. client))"

text \<open>When the next snapshot is due, from the rate of the client and the size of this message.\<close>

definition schedule :: "int \<Rightarrow> int \<Rightarrow> snapshot_client \<Rightarrow> snapshot_client" where
  "schedule realTime rateMsec client =
     (let slot = sn_client client;
          msec = (if rateMsec < c_snapshotMsec slot then c_snapshotMsec slot else rateMsec);
          due = i32 (realTime + msec);
          held = (c_state slot \<noteq> CS_ACTIVE \<and> dl_fileName (c_download slot) = [] \<and> due < i32 (realTime + 1000)) in
      client\<lparr>sn_rateDelayed := \<not> rateMsec < c_snapshotMsec slot,
             sn_nextSnapshotTime := (if held then i32 (realTime + 1000) else due)\<rparr>)"

definition charge_rate ::
    "('g, 'z) server_services \<Rightarrow> int \<Rightarrow> int \<Rightarrow> ('g, 'z) server \<Rightarrow> ('g, 'z) server run" where
  "charge_rate sv clientNum packetSize st =
     run_bind (client_at clientNum st) (\<lambda>client.
     if a_type (client_address client) = NA_LOOPBACK \<or> Sys_IsLANAddress (sv_localIP sv) (client_address client)
     then change_client clientNum (with_snap (\<lambda>s. s\<lparr>sn_nextSnapshotTime := i32 (real_time st - 1)\<rparr>)) st
     else run_bind (checked (SV_RateMsec (c_rate (slot_of client)) packetSize (s_static st))) (\<lambda>(rateMsec, svs).
       change_client clientNum (with_snap (schedule (real_time st) rateMsec))
         (st\<lparr>s_static := svs, s_totalBytesSentThisFrame := i32 (s_totalBytesSentThisFrame st + packetSize)\<rparr>)))"

definition transmit ::
    "int \<Rightarrow> 8 word list \<Rightarrow> int \<Rightarrow> ('g, 'z) server \<Rightarrow> ('g, 'z) server run" where
  "transmit clientNum packet packetSize st =
     run_bind (client_at clientNum st) (\<lambda>client.
     run_bind (SV_Netchan_Transmit (s_net st) (slot_of client) packet packetSize) (\<lambda>(env, slot, sent).
       change_client clientNum (with_slot (\<lambda>_. slot))
         (st\<lparr>s_net := env, s_packets := s_packets st @ [(client_address client, sent)]\<rparr>)))"

definition SV_SendMessageToClient ::
    "('g, 'z) server_services \<Rightarrow> int \<Rightarrow> msg_t \<Rightarrow> ('g, 'z) server \<Rightarrow> ('g, 'z) server run" where
  "SV_SendMessageToClient sv clientNum message st =
     run_bind (checked (compress_behind (sv_huffman sv) 4 message (sv_stack sv))) (\<lambda>(packetSize, packet).
     run_bind (client_at clientNum st) (\<lambda>client.
     run_bind (case c_deferredDropReason (slot_of client) of
                 None \<Rightarrow> Done st
               | Some reason \<Rightarrow> SV_DropClient sv clientNum (Some reason) st) (\<lambda>st1.
     run_bind (client_at clientNum st1) (\<lambda>client1.
     run_bind (checked (mark_sent packetSize (real_time st1) (sc_snap client1))) (\<lambda>snap.
     run_bind (put_snap clientNum snap st1) (\<lambda>st2.
     run_bind (transmit clientNum packet packetSize st2) (charge_rate sv clientNum packetSize)))))))"

definition send_fragment :: "int \<Rightarrow> ('g, 'z) server \<Rightarrow> ('g, 'z) server run" where
  "send_fragment clientNum st =
     run_bind (client_at clientNum st) (\<lambda>client.
     run_bind (Netchan_TransmitNextFragment (s_net st) (c_netchan (slot_of client))) (\<lambda>(env, channel, sent).
       change_client clientNum (with_slot (\<lambda>slot. slot\<lparr>c_netchan := channel\<rparr>))
         (st\<lparr>s_net := env, s_packets := s_packets st @ [(client_address client, sent)]\<rparr>)))"

section \<open>The game state\<close>

text \<open>
  The loop that sends what is left of the last message. A message has at most 26 fragments, so fuel
  27 is enough; running out of it is a fault.
\<close>

fun send_fragments :: "nat \<Rightarrow> int \<Rightarrow> ('g, 'z) server \<Rightarrow> ('g, 'z) server run" where
  "send_fragments fuel clientNum st =
     run_bind (client_at clientNum st) (\<lambda>client.
     if slot_state client \<noteq> CS_FREE \<and> n_unsentFragments (c_netchan (slot_of client))
     then (case fuel of 0 \<Rightarrow> Fault | Suc n \<Rightarrow> run_bind (send_fragment clientNum st) (send_fragments n clientNum))
     else Done st)"

declare send_fragments.simps [simp del]

fun write_configstrings :: "string list \<Rightarrow> int \<Rightarrow> msg_t \<Rightarrow> msg_t option" where
  "write_configstrings [] n message = Some message"
| "write_configstrings (s # ss) n message = do {
     m1 \<leftarrow> (if s \<noteq> [] then do {
              a \<leftarrow> MSG_WriteByte message SERVER_SVC_CONFIGSTRING;
              b \<leftarrow> MSG_WriteShort a n;
              MSG_WriteBigString b (Some s) }
            else Some message);
     write_configstrings ss (n + 1) m1 }"

fun write_baselines :: "block list \<Rightarrow> msg_t \<Rightarrow> msg_t option" where
  "write_baselines [] message = Some message"
| "write_baselines (b # bs) message = do {
     number \<leftarrow> peek b 0;
     m1 \<leftarrow> (if number \<noteq> 0 then do {
              a \<leftarrow> MSG_WriteByte message SERVER_SVC_BASELINE;
              MSG_WriteDeltaEntity a (replicate (length b) 0) (Some b) True }
            else Some message);
     write_baselines bs m1 }"

text \<open>Everything behind the reliable commands.\<close>

definition write_gamestate :: "int \<Rightarrow> int \<Rightarrow> int \<Rightarrow> string list \<Rightarrow> block list \<Rightarrow> msg_t \<Rightarrow> msg_t option" where
  "write_gamestate clientNum checksumFeed reliableSequence configstrings baselines message = do {
     m1 \<leftarrow> MSG_WriteByte message SERVER_SVC_GAMESTATE;
     m2 \<leftarrow> MSG_WriteLong m1 reliableSequence;
     m3 \<leftarrow> write_configstrings configstrings 0 m2;
     m4 \<leftarrow> write_baselines baselines m3;
     m5 \<leftarrow> MSG_WriteByte m4 SERVER_SVC_EOF;
     m6 \<leftarrow> MSG_WriteLong m5 clientNum;
     m7 \<leftarrow> MSG_WriteLong m6 checksumFeed;
     MSG_WriteByte m7 SERVER_SVC_EOF }"

definition SV_SendClientGameState :: "('g, 'z) server_services \<Rightarrow> int \<Rightarrow> ('g, 'z) server \<Rightarrow> ('g, 'z) server run" where
  "SV_SendClientGameState sv clientNum st =
     run_bind (send_fragments 27 clientNum st) (\<lambda>st1.
     run_bind (change_client clientNum (\<lambda>c. (set_state CS_PRIMED c)\<lparr>sc_pureAuthState := SERVER_CLIENT_PURE_STATE_PENDING,
         sc_gamestateMessageNum := n_outgoingSequence (c_netchan (slot_of c))\<rparr>) st1) (\<lambda>st2.
     run_bind (client_at clientNum st2) (\<lambda>client.
     run_bind (checked (do {
         m1 \<leftarrow> MSG_WriteLong (MSG_Init (sv_stack sv) MAX_MSGLEN) (sn_lastClientCommand (sc_snap client));
         (slot, m2) \<leftarrow> SV_UpdateServerCommandsToClient (slot_of client) m1;
         m3 \<leftarrow> write_gamestate clientNum (s_gamestateChecksumFeed st2) (c_reliableSequence slot) (s_configstrings st2)
                 (sv_baselines (s_static st2)) m2;
         Some (slot, m3) })) (\<lambda>(slot, message).
     run_bind (change_client clientNum (with_slot (\<lambda>_. slot)) st2) (\<lambda>st3.
     run_bind (SV_SendMessageToClient sv clientNum message st3) (\<lambda>st4.
     run_bind (client_at clientNum st4) (\<lambda>client4.
       if cv_timescale (s_cvars st4) = 0 \<and> slot_state client4 \<noteq> CS_FREE \<and>
          n_unsentFragments (c_netchan (slot_of client4))
       then send_fragment clientNum st4 else Done st4)))))))"

definition SV_ClientEnterWorld ::
    "('g, 'z) server_services \<Rightarrow> int \<Rightarrow> usercmd_t \<Rightarrow> ('g, 'z) server \<Rightarrow> ('g, 'z) server run" where
  "SV_ClientEnterWorld sv clientNum command st =
     run_bind (change_client clientNum (\<lambda>c. (with_snap (\<lambda>s. s\<lparr>sn_deltaMessage := SERVER_DELTA_MESSAGE_NONE,
         sn_nextSnapshotTime := real_time st\<rparr>) (set_state CS_ACTIVE c))
       \<lparr>sc_gentity := True, sc_lastUsercmd := command\<rparr>) (st\<lparr>s_game := sv_numberEntity sv clientNum (s_game st)\<rparr>))
       (tell_game sv (GAME_CLIENT_BEGIN clientNum))"

section \<open>A snapshot\<close>

definition serving :: "server_client \<Rightarrow> bool" where
  "serving client \<longleftrightarrow> slot_state client = CS_ACTIVE \<or> slot_state client = CS_ZOMBIE"

definition download_cvars :: "('g, 'z) server \<Rightarrow> download_vars" where
  "download_cvars st = (let cv = s_cvars st in
     \<lparr>dv_allowDownload = cv_allowDownload cv, dv_maxRate = sv_maxRate (s_static st), dv_pure = cv_pure cv,
      dv_wwwDownload = cv_wwwDownload cv, dv_wwwDlDisconnected = cv_wwwDlDisconnected cv,
      dv_wwwBaseURL = cv_wwwBaseURL cv, dv_fs_basegame = cv_fs_basegame cv, dv_realTime = real_time st\<rparr>)"

definition add_download ::
    "('g, 'z) server_services \<Rightarrow> int \<Rightarrow> msg_t \<Rightarrow> ('g, 'z) server \<Rightarrow> (msg_t \<times> ('g, 'z) server) run" where
  "add_download sv clientNum message st =
     run_bind (client_at clientNum st) (\<lambda>client.
     run_bind (SV_WriteDownloadToClient (download_cvars st) (sv_archive sv) (s_fs st) (slot_of client) message)
       (\<lambda>(slot, m1, fs, vars).
     run_bind (change_client clientNum (with_slot (\<lambda>_. slot))
         (st\<lparr>s_fs := fs, s_static := (s_static st)\<lparr>sv_maxRate := dv_maxRate vars\<rparr>\<rparr>)) (\<lambda>st1. Done (m1, st1))))"

definition snapshot_message ::
    "('g, 'z) server_services \<Rightarrow> int \<Rightarrow> ('g, 'z) server \<Rightarrow> (msg_t \<times> ('g, 'z) server) run" where
  "snapshot_message sv clientNum st =
     run_bind (client_at clientNum st) (\<lambda>client.
     run_bind (checked (MSG_WriteLong (MSG_Init (sv_stack sv) MAX_MSGLEN) (sn_lastClientCommand (sc_snap client)))) (\<lambda>m0.
     run_bind (if serving client then checked (do {
                 (slot, m1) \<leftarrow> SV_UpdateServerCommandsToClient (slot_of client) m0;
                 (snap, m2) \<leftarrow> SV_WriteSnapshotToClient (s_static st) ((sc_snap client)\<lparr>sn_client := slot\<rparr>) m1;
                 Some (snap, m2) })
               else Done (sc_snap client, m0)) (\<lambda>(snap, m2).
     run_bind (put_snap clientNum snap st) (\<lambda>st1.
     run_bind (if slot_state client \<noteq> CS_ZOMBIE then add_download sv clientNum m2 st1 else Done (m2, st1)) (\<lambda>(m3, st2).
     run_bind (checked (MSG_WriteByte m3 SERVER_SVC_EOF)) (\<lambda>m4. Done (m4, st2)))))))"

text \<open>A message that overflowed is written again with the commands that fit alone.\<close>

definition retry_message ::
    "int \<Rightarrow> msg_t \<Rightarrow> ('g, 'z) server \<Rightarrow> (msg_t \<times> ('g, 'z) server) run" where
  "retry_message clientNum message st =
     run_bind (client_at clientNum st) (\<lambda>client.
     if \<not> serving client then Done (message, st)
     else run_bind (checked (do {
         m1 \<leftarrow> MSG_WriteLong (MSG_Init (m_data message) MAX_MSGLEN) (sn_lastClientCommand (sc_snap client));
         (slot, m2) \<leftarrow> SV_UpdateServerCommandsToClient_PreventOverflow (slot_of client) m1 MAX_MSGLEN;
         m3 \<leftarrow> MSG_WriteByte m2 SERVER_SVC_EOF;
         Some (slot, m3) })) (\<lambda>(slot, m3).
       run_bind (change_client clientNum (with_slot (\<lambda>_. slot)) st) (\<lambda>st1. Done (m3, st1))))"

definition recover_overflow ::
    "('g, 'z) server_services \<Rightarrow> int \<Rightarrow> msg_t \<Rightarrow> ('g, 'z) server \<Rightarrow> (msg_t \<times> ('g, 'z) server) run" where
  "recover_overflow sv clientNum message st =
     (if \<not> m_overflowed message then Done (message, st)
      else run_bind (retry_message clientNum message st) (\<lambda>(m1, st1).
        if \<not> m_overflowed m1 then Done (m1, st1)
        else run_bind (client_at clientNum st1) (\<lambda>client.
          run_bind (SV_DropClient sv clientNum (Some ''EXE_SERVERMESSAGEOVERFLOW'')
              (st1\<lparr>s_sent := s_sent st1 @ [(client_address client, ''disconnect'')]\<rparr>)) (\<lambda>st2. Done (m1, st2)))))"

definition SV_SendClientSnapshot :: "('g, 'z) server_services \<Rightarrow> int \<Rightarrow> ('g, 'z) server \<Rightarrow> ('g, 'z) server run" where
  "SV_SendClientSnapshot sv clientNum st =
     run_bind (client_at clientNum st) (\<lambda>client.
     run_bind (if serving client then sv_build sv clientNum st else Done st) (\<lambda>st1.
     run_bind (snapshot_message sv clientNum st1) (\<lambda>(m1, st2).
     run_bind (recover_overflow sv clientNum m1 st2) (\<lambda>(m2, st3).
       SV_SendMessageToClient sv clientNum m2 st3))))"

definition send_due ::
    "('g, 'z) server_services \<Rightarrow> int \<Rightarrow> ('g, 'z) server \<Rightarrow> ('g, 'z) server run" where
  "send_due sv clientNum st =
     run_bind (client_at clientNum st) (\<lambda>client.
     let channel = c_netchan (slot_of client) in
     if slot_state client = CS_FREE \<or> sn_nextSnapshotTime (sc_snap client) > real_time st then Done st
     else if \<not> n_unsentFragments channel then SV_SendClientSnapshot sv clientNum st
     else run_bind (checked (SV_RateMsec (c_rate (slot_of client))
            (i32 (n_unsentLength channel - n_unsentFragmentStart channel)) (s_static st))) (\<lambda>(rateMsec, svs).
          run_bind (change_client clientNum (with_snap (\<lambda>s. s\<lparr>sn_nextSnapshotTime := i32 (real_time st + rateMsec)\<rparr>))
              (st\<lparr>s_static := svs\<rparr>)) (send_fragment clientNum)))"

definition SV_SendClientMessages :: "('g, 'z) server_services \<Rightarrow> ('g, 'z) server \<Rightarrow> ('g, 'z) server run" where
  "SV_SendClientMessages sv st =
     for_slots (send_due sv) (all_slots st) (st\<lparr>s_totalBytesSentThisFrame := 0\<rparr>)"

end
