(* ===== verification/SvMessage.thy ===== *)
theory SvMessage
  imports SvJoin SvSend Checksum
begin

text \<open>
  The messages of clients: \<open>src/server/engine/server_client_message.c\<close>. A decoded message is a
  sequence of numbered client commands followed by the user commands of the last frames. Console
  output is left out, and so is the choice of the animation user.
\<close>

section \<open>Pure clients\<close>

abbreviation FS_PURE_CHECKSUM_TEXT_SIZE :: nat where "FS_PURE_CHECKSUM_TEXT_SIZE \<equiv> 8192"

text \<open>\<open>FS_LoadedPakPureChecksums\<close> of \<open>src/filesystem/filesystem_pure.c\<close>.\<close>

fun append_checksums :: "(searchpath_t \<Rightarrow> bool) \<Rightarrow> searchpath_t list \<Rightarrow> string \<Rightarrow> string run" where
  "append_checksums in_scope [] text' = Done (cstr_of text')"
| "append_checksums in_scope (search # rest) text' =
     (case (if in_scope search \<and> \<not> sp_localized search then sp_pack search else None) of
        None \<Rightarrow> append_checksums in_scope rest text'
      | Some pack \<Rightarrow> run_bind (Q_strcat text' (int FS_PURE_CHECKSUM_TEXT_SIZE) (decimal (pk_pureChecksum pack) @ '' ''))
          (append_checksums in_scope rest))"

definition FS_LoadedPakPureChecksums :: "(searchpath_t \<Rightarrow> bool) \<Rightarrow> searchpath_t list \<Rightarrow> string run" where
  "FS_LoadedPakPureChecksums in_scope fs_searchpaths =
     append_checksums in_scope fs_searchpaths (replicate FS_PURE_CHECKSUM_TEXT_SIZE NUL)"

definition argv :: "('g, 'z) server \<Rightarrow> int \<Rightarrow> string run" where
  "argv st n = checked (Cmd_Argv (s_command st) n)"

fun argv_numbers :: "('g, 'z) server \<Rightarrow> int list \<Rightarrow> int list run" where
  "argv_numbers st [] = Done []"
| "argv_numbers st (n # ns) =
     run_bind (argv st n) (\<lambda>a. run_bind (argv_numbers st ns) (\<lambda>vs. Done (parse_int a # vs)))"

definition tokenize :: "string \<Rightarrow> ('g, 'z) server \<Rightarrow> ('g, 'z) server run" where
  "tokenize text' st =
     run_bind (checked (Cmd_TokenizeString (s_command st) (Some text'))) (\<lambda>cmd. Done (st\<lparr>s_command := cmd\<rparr>))"

text \<open>The three loops over the first \<open>count\<close> checksums of the client.\<close>

definition repeats :: "int list \<Rightarrow> bool" where
  "repeats sums \<longleftrightarrow> list_ex (\<lambda>i. list_ex (\<lambda>j. i \<noteq> j \<and> sums ! i = sums ! j) [0..<length sums]) [0..<length sums]"

definition all_loaded :: "int list \<Rightarrow> int list \<Rightarrow> bool" where
  "all_loaded loaded sums \<longleftrightarrow> list_all (\<lambda>s. list_ex (\<lambda>l. s = l) loaded) sums"

definition combined :: "int \<Rightarrow> int list \<Rightarrow> int" where
  "combined feed sums = i32 (fold (\<lambda>s sum. xor sum s) sums feed)"

definition is_at :: "string \<Rightarrow> bool" where
  "is_at argument \<longleftrightarrow> first_char argument = 64"

definition check_heads :: "int \<Rightarrow> int \<Rightarrow> ('g, 'z) server \<Rightarrow> bool run" where
  "check_heads expectedA expectedB st =
     run_bind (argv st 1) (\<lambda>a.
     if is_at a \<or> parse_int a \<noteq> expectedA then Done False
     else run_bind (argv st 2) (\<lambda>b.
     if is_at b \<or> parse_int b \<noteq> expectedB then Done False
     else run_bind (argv st 3) (\<lambda>c. Done (is_at c))))"

definition check_sums ::
    "('g, 'z) server_services \<Rightarrow> int list \<Rightarrow> ('g, 'z) server \<Rightarrow> (bool \<times> ('g, 'z) server) run" where
  "check_sums sv sums st =
     (let count = length sums - 1; own = take count sums in
      if repeats own then Done (False, st)
      else run_bind (FS_LoadedPakPureChecksums (sv_inScope sv) (s_searchpaths st)) (\<lambda>text'.
        run_bind (tokenize text' st) (\<lambda>st1.
        run_bind (argv_numbers st1 [0..min 1024 (Cmd_Argc (s_command st1)) - 1]) (\<lambda>loaded.
          Done (all_loaded loaded own \<and>
                xor (combined (s_gamestateChecksumFeed st1) own) (int count) = sums ! count, st1)))))"

definition verify_paks :: "('g, 'z) server_services \<Rightarrow> ('g, 'z) server \<Rightarrow> (bool \<times> ('g, 'z) server) run" where
  "verify_paks sv st =
     (let look = FS_FileIsInPAK (sv_inScope sv) (s_serverPaks st) (s_searchpaths st) in
      run_bind (checked (look (FS_ShiftStr ''wqaeicogaoraz:80fnn'' (-2)))) (\<lambda>a. case a of
        None \<Rightarrow> Done (False, st)
      | Some expectedA \<Rightarrow> run_bind (checked (look (FS_ShiftStr ''ztdzndrud}=;3iqq'' (-5)))) (\<lambda>b. case b of
          None \<Rightarrow> Done (False, st)
        | Some expectedB \<Rightarrow>
            if Cmd_Argc (s_command st) < 6 then Done (False, st)
            else run_bind (check_heads expectedA expectedB st) (\<lambda>valid.
              if \<not> valid then Done (False, st)
              else run_bind (argv_numbers st [4..Cmd_Argc (s_command st) - 1]) (\<lambda>sums. check_sums sv sums st)))))"

definition SV_VerifyPaks_f :: "('g, 'z) server_services \<Rightarrow> int \<Rightarrow> ('g, 'z) server \<Rightarrow> ('g, 'z) server run" where
  "SV_VerifyPaks_f sv clientNum st =
     run_bind (verify_paks sv st) (\<lambda>(valid, st1).
       change_client clientNum (\<lambda>c. c\<lparr>sc_pureAuthState :=
         (if valid then SERVER_CLIENT_PURE_STATE_VALID else SERVER_CLIENT_PURE_STATE_INVALID)\<rparr>) st1)"

definition SV_ResetPureClient_f :: "int \<Rightarrow> ('g, 'z) server \<Rightarrow> ('g, 'z) server run" where
  "SV_ResetPureClient_f clientNum = change_client clientNum (\<lambda>c. c\<lparr>sc_pureAuthState := SERVER_CLIENT_PURE_STATE_PENDING\<rparr>)"

section \<open>Client commands\<close>

definition SV_Disconnect_f :: "('g, 'z) server_services \<Rightarrow> int \<Rightarrow> ('g, 'z) server \<Rightarrow> ('g, 'z) server run" where
  "SV_Disconnect_f sv clientNum st = SV_DropClient sv clientNum (Some ''EXE_DISCONNECTED'') st"

definition SV_UpdateUserinfo_f :: "('g, 'z) server_services \<Rightarrow> int \<Rightarrow> ('g, 'z) server \<Rightarrow> ('g, 'z) server run" where
  "SV_UpdateUserinfo_f sv clientNum st =
     run_bind (argv st 1) (\<lambda>a.
     run_bind (change_client clientNum (\<lambda>c. c\<lparr>sc_userinfo := take 1023 a\<rparr>) st) (\<lambda>st1.
     run_bind (SV_UserinfoChanged sv clientNum st1) (tell_game sv (GAME_CLIENT_USERINFO_CHANGED clientNum))))"

text \<open>The handlers of \<open>server_download.c\<close>, with what they end in.\<close>

definition finish_handler ::
    "('g, 'z) server_services \<Rightarrow> int \<Rightarrow> handler_end \<Rightarrow> ('g, 'z) server \<Rightarrow> ('g, 'z) server run" where
  "finish_handler sv clientNum ending st =
     (case ending of
        Handled \<Rightarrow> Done st
      | DropClient reason \<Rightarrow> SV_DropClient sv clientNum (Some reason) st
      | SendGameState \<Rightarrow> SV_SendClientGameState sv clientNum st)"

definition run_download ::
    "('g, 'z) server_services \<Rightarrow> int \<Rightarrow>
     ('z fs_state \<Rightarrow> serverClientDownload_t \<Rightarrow> ('z fs_state \<times> serverClientDownload_t \<times> handler_end) option) \<Rightarrow>
     ('g, 'z) server \<Rightarrow> ('g, 'z) server run" where
  "run_download sv clientNum f st =
     run_bind (client_at clientNum st) (\<lambda>client.
     run_bind (checked (f (s_fs st) (c_download (slot_of client)))) (\<lambda>(fs, dl, ending).
     run_bind (change_client clientNum (with_slot (\<lambda>slot. slot\<lparr>c_download := dl\<rparr>)) (st\<lparr>s_fs := fs\<rparr>))
       (finish_handler sv clientNum ending)))"

datatype client_command = Userinfo | Disconnect_command | Cp | Vdr | Download | Nextdl | Stopdl | Donedl | Retransdl | Wwwdl

definition sv_clientCommandHandlers :: "(string \<times> client_command) list" where
  "sv_clientCommandHandlers =
     [(''userinfo'', Userinfo), (''disconnect'', Disconnect_command), (''cp'', Cp), (''vdr'', Vdr), (''download'', Download),
      (''nextdl'', Nextdl), (''stopdl'', Stopdl), (''donedl'', Donedl), (''retransdl'', Retransdl), (''wwwdl'', Wwwdl)]"

definition handle_command ::
    "('g, 'z) server_services \<Rightarrow> int \<Rightarrow> client_command \<Rightarrow> ('g, 'z) server \<Rightarrow> ('g, 'z) server run" where
  "handle_command sv n handler st =
     (case handler of
        Userinfo \<Rightarrow> SV_UpdateUserinfo_f sv n st
      | Disconnect_command \<Rightarrow> SV_Disconnect_f sv n st
      | Cp \<Rightarrow> SV_VerifyPaks_f sv n st
      | Vdr \<Rightarrow> SV_ResetPureClient_f n st
      | Download \<Rightarrow> run_bind (argv st 1) (\<lambda>a. run_download sv n (\<lambda>fs dl. SV_BeginDownload_f fs a dl) st)
      | Nextdl \<Rightarrow> run_bind (argv st 1) (\<lambda>a. run_download sv n (\<lambda>fs dl. SV_NextDownload_f (real_time st) fs a dl) st)
      | Stopdl \<Rightarrow> run_download sv n (\<lambda>fs dl. map_option (\<lambda>(fs1, dl1). (fs1, dl1, Handled)) (SV_StopDownload_f fs dl)) st
      | Donedl \<Rightarrow> finish_handler sv n SV_DoneDownload_f st
      | Retransdl \<Rightarrow> run_bind (argv st 1) (\<lambda>a. run_download sv n (\<lambda>fs dl. Some (fs, SV_RetransmitDownload_f a dl, Handled)) st)
      | Wwwdl \<Rightarrow> run_bind (argv st 1) (\<lambda>a. run_download sv n (\<lambda>fs dl. Some (fs, SV_WWWDownload_f a dl)) st))"

definition SV_ExecuteClientCommand ::
    "('g, 'z) server_services \<Rightarrow> int \<Rightarrow> string \<Rightarrow> bool \<Rightarrow> ('g, 'z) server \<Rightarrow> ('g, 'z) server run" where
  "SV_ExecuteClientCommand sv clientNum text' clientOK st =
     run_bind (tokenize text' st) (\<lambda>st1.
     run_bind (argv st1 0) (\<lambda>name.
       case map_of sv_clientCommandHandlers name of
         Some handler \<Rightarrow> handle_command sv clientNum handler st1
       | None \<Rightarrow>
           if clientOK \<and> s_state st1 = SS_GAME then tell_game sv (GAME_CLIENT_COMMAND clientNum) st1 else Done st1))"

text \<open>Commands that are not counted as flooding.\<close>

definition flood_counts :: "string \<Rightarrow> bool" where
  "flood_counts command \<longleftrightarrow>
     \<not> (Q_strncmp ''team '' command 5 = 0 \<or> Q_strncmp ''score '' command 6 = 0 \<or> Q_strncmp ''mr '' command 3 = 0)"

definition command_allowed :: "string \<Rightarrow> server_client \<Rightarrow> ('g, 'z) server \<Rightarrow> bool" where
  "command_allowed command client st \<longleftrightarrow>
     \<not> (cv_cl_running (s_cvars st) = 0 \<and> state_value (slot_state client) > state_value CS_PRIMED \<and>
        cv_floodProtect (s_cvars st) \<noteq> 0 \<and> real_time st < sc_nextReliableTime client \<and> flood_counts command)"

definition remember_command :: "int \<Rightarrow> string \<Rightarrow> server_client \<Rightarrow> server_client option" where
  "remember_command sequence command client = do {
     last \<leftarrow> copy_in (c_lastClientCommandString (slot_of client)) 0 (take 1023 command @ [NUL]);
     Some (with_slot (\<lambda>slot. slot\<lparr>c_lastClientCommandString := last\<rparr>)
       (with_snap (\<lambda>s. s\<lparr>sn_lastClientCommand := sequence\<rparr>) client)) }"

text \<open>What \<open>SV_ClientCommand\<close> does with the command it has read; the first result is the code's.\<close>

definition obey_command ::
    "('g, 'z) server_services \<Rightarrow> int \<Rightarrow> int \<Rightarrow> string \<Rightarrow> ('g, 'z) server \<Rightarrow> (bool \<times> ('g, 'z) server) run" where
  "obey_command sv clientNum sequence command st =
     run_bind (client_at clientNum st) (\<lambda>client.
     if sequence \<le> sn_lastClientCommand (sc_snap client) then Done (True, st)
     else if sequence > i32 (sn_lastClientCommand (sc_snap client) + 1) then
       run_bind (SV_DropClient sv clientNum (Some ''EXE_LOSTRELIABLECOMMANDS'') st) (\<lambda>st1. Done (False, st1))
     else
       run_bind (if flood_counts command
                 then change_client clientNum (\<lambda>c. c\<lparr>sc_nextReliableTime := i32 (real_time st + 800)\<rparr>) st else Done st) (\<lambda>st1.
       run_bind (SV_ExecuteClientCommand sv clientNum command (command_allowed command client st) st1) (\<lambda>st2.
       run_bind (client_at clientNum st2) (\<lambda>client2.
       run_bind (checked (remember_command sequence command client2)) (\<lambda>client3.
       run_bind (change_client clientNum (\<lambda>_. client3) st2) (\<lambda>st3. Done (True, st3)))))))"

definition SV_ClientCommand ::
    "('g, 'z) server_services \<Rightarrow> int \<Rightarrow> msg_t \<Rightarrow> ('g, 'z) server \<Rightarrow> (bool \<times> msg_t \<times> ('g, 'z) server) run" where
  "SV_ClientCommand sv clientNum message st =
     run_bind (checked (MSG_ReadLong message)) (\<lambda>(sequence, m1).
     run_bind (checked (MSG_ReadString m1)) (\<lambda>(command, m2).
     run_bind (obey_command sv clientNum sequence (map char_of_byte command) st) (\<lambda>(ok, st1). Done (ok, m2, st1))))"

section \<open>User commands\<close>

definition SV_ClientThink ::
    "('g, 'z) server_services \<Rightarrow> int \<Rightarrow> usercmd_t \<Rightarrow> ('g, 'z) server \<Rightarrow> ('g, 'z) server run" where
  "SV_ClientThink sv clientNum command st =
     run_bind (change_client clientNum (\<lambda>c. c\<lparr>sc_lastUsercmd := command\<rparr>) st) (\<lambda>st1.
     run_bind (client_at clientNum st1) (\<lambda>client.
       if slot_state client = CS_ACTIVE then tell_game sv (GAME_CLIENT_THINK clientNum) st1 else Done st1))"

text \<open>\<open>SV_GameClientNum\<close>: the player state in the game's memory.\<close>

definition game_player :: "('g, 'z) server_services \<Rightarrow> int \<Rightarrow> ('g, 'z) server \<Rightarrow> playerState_t run" where
  "game_player sv clientNum st = checked (sv_player sv (s_game st) clientNum)"

text \<open>A weapon the game does not know is replaced by the current one.\<close>

definition check_weapon ::
    "('g, 'z) server_services \<Rightarrow> int \<Rightarrow> usercmd_t \<Rightarrow> ('g, 'z) server \<Rightarrow> (usercmd_t \<times> ('g, 'z) server) run" where
  "check_weapon sv clientNum command st =
     run_bind (sv_vm sv (GAME_IS_VALID_WEAPON (uc_weapon command)) st) (\<lambda>((valid, _), st1).
     if valid \<noteq> 0 then Done (command, st1)
     else run_bind (game_player sv clientNum st1) (\<lambda>player.
       run_bind (checked (peek (ps_head player) 54)) (\<lambda>weapon. Done (command\<lparr>uc_weapon := u8 weapon\<rparr>, st1))))"

fun read_commands ::
    "('g, 'z) server_services \<Rightarrow> int \<Rightarrow> int \<Rightarrow> nat \<Rightarrow> usercmd_t \<Rightarrow> msg_t \<Rightarrow> ('g, 'z) server \<Rightarrow>
     (usercmd_t list \<times> msg_t \<times> ('g, 'z) server) run" where
  "read_commands sv clientNum key 0 from' message st = Done ([], message, st)"
| "read_commands sv clientNum key (Suc n) from' message st =
     run_bind (checked (MSG_ReadDeltaUsercmdKey message key from')) (\<lambda>(command, m1).
     run_bind (check_weapon sv clientNum command st) (\<lambda>(checked', st1).
     run_bind (read_commands sv clientNum key n checked' m1 st1) (\<lambda>(rest, m2, st2). Done (checked' # rest, m2, st2))))"

definition command_key :: "int \<Rightarrow> int \<Rightarrow> string \<Rightarrow> int" where
  "command_key acknowledge feed command = xor (xor (u32 acknowledge) (u32 feed)) (uint (Com_HashKey command 32))"

definition move_key :: "server_client \<Rightarrow> ('g, 'z) server \<Rightarrow> int" where
  "move_key client st = (let slot = slot_of client in
     command_key (c_messageAcknowledge slot) (s_gamestateChecksumFeed st)
       (cstr_of (rc_commandText (c_reliableCommands slot ! ring_slot (c_reliableAcknowledge slot)))))"

fun think_all ::
    "('g, 'z) server_services \<Rightarrow> int \<Rightarrow> int \<Rightarrow> usercmd_t list \<Rightarrow> ('g, 'z) server \<Rightarrow> ('g, 'z) server run" where
  "think_all sv clientNum newest [] st = Done st"
| "think_all sv clientNum newest (c # cs) st =
     run_bind (client_at clientNum st) (\<lambda>client.
     run_bind (if uc_commandTime c \<le> newest \<and> uc_commandTime c > uc_commandTime (sc_lastUsercmd client)
               then SV_ClientThink sv clientNum c st else Done st) (think_all sv clientNum newest cs))"

definition acknowledge_frame :: "int \<Rightarrow> snapshot_client \<Rightarrow> snapshot_client option" where
  "acknowledge_frame realTime client =
     (let slot = frame_slot (c_messageAcknowledge (sn_client client)) in do {
      frame \<leftarrow> peek (sn_snapshotFrames client) slot;
      frames \<leftarrow> poke (sn_snapshotFrames client) slot (frame\<lparr>sf_messageAcknowledgedTime := realTime\<rparr>);
      Some (client\<lparr>sn_snapshotFrames := frames\<rparr>) })"

definition no_delta :: "int \<Rightarrow> ('g, 'z) server \<Rightarrow> ('g, 'z) server run" where
  "no_delta clientNum = change_client clientNum (with_snap (\<lambda>s. s\<lparr>sn_deltaMessage := SERVER_DELTA_MESSAGE_NONE\<rparr>))"

text \<open>What \<open>SV_UserMove\<close> does with the commands it has read.\<close>

definition apply_moves ::
    "('g, 'z) server_services \<Rightarrow> int \<Rightarrow> usercmd_t list \<Rightarrow> ('g, 'z) server \<Rightarrow> ('g, 'z) server run" where
  "apply_moves sv clientNum commands st =
     run_bind (client_at clientNum st) (\<lambda>client0.
     run_bind (checked (acknowledge_frame (real_time st) (sc_snap client0))) (\<lambda>snap.
     run_bind (put_snap clientNum snap st) (\<lambda>st1.
     run_bind (if slot_state client0 = CS_PRIMED then SV_ClientEnterWorld sv clientNum (hd commands) st1 else Done st1) (\<lambda>st2.
     run_bind (client_at clientNum st2) (\<lambda>client.
     if cv_pure (s_cvars st2) \<noteq> 0 \<and> sc_pureAuthState client = SERVER_CLIENT_PURE_STATE_PENDING
     then SV_DropClient sv clientNum (Some ''EXE_CANNOTVALIDATEPURECLIENT'') st2
     else if slot_state client \<noteq> CS_ACTIVE then no_delta clientNum st2
     else think_all sv clientNum (uc_commandTime (last commands)) commands st2)))))"

definition SV_UserMove ::
    "('g, 'z) server_services \<Rightarrow> int \<Rightarrow> msg_t \<Rightarrow> bool \<Rightarrow> ('g, 'z) server \<Rightarrow> ('g, 'z) server run" where
  "SV_UserMove sv clientNum message delta st =
     run_bind (change_client clientNum (with_snap (\<lambda>s. s\<lparr>sn_deltaMessage :=
         (if delta then c_messageAcknowledge (sn_client s) else SERVER_DELTA_MESSAGE_NONE)\<rparr>)) st) (\<lambda>st1.
     run_bind (client_at clientNum st1) (\<lambda>client.
     if i32 (c_reliableSequence (slot_of client) - c_reliableAcknowledge (slot_of client)) \<ge> MAX_RELIABLE_COMMANDS
     then Done st1
     else run_bind (checked (MSG_ReadByte message)) (\<lambda>(count, m1).
     if count < 1 \<or> count > 32 then Done st1
     else run_bind (game_player sv clientNum st1) (\<lambda>player.
     run_bind (checked (MSG_SetDefaultUserCmd player)) (\<lambda>nullCommand.
     run_bind (read_commands sv clientNum (move_key client st1) (nat count) nullCommand m1 st1) (\<lambda>(commands, m2, st2).
     if m_readcount m2 > m_cursize m2 then SV_DropClient sv clientNum (Some ''malformed user command'') st2
     else apply_moves sv clientNum commands st2))))))"

section \<open>A message\<close>

abbreviation SERVER_CLC_MOVE :: int where "SERVER_CLC_MOVE \<equiv> 0"
abbreviation SERVER_CLC_MOVE_NO_DELTA :: int where "SERVER_CLC_MOVE_NO_DELTA \<equiv> 1"
abbreviation SERVER_CLC_CLIENT_COMMAND :: int where "SERVER_CLC_CLIENT_COMMAND \<equiv> 2"
abbreviation SERVER_CLC_EOF :: int where "SERVER_CLC_EOF \<equiv> 3"

text \<open>
  The loop over the client commands, which ends with the selector that is not one, or with \<open>None\<close>
  where the function returns. Each turn reads at least a bit, so the fuel \<open>8 * cursize + 16\<close> of the
  caller is enough.
\<close>

fun client_commands ::
    "('g, 'z) server_services \<Rightarrow> int \<Rightarrow> nat \<Rightarrow> msg_t \<Rightarrow> ('g, 'z) server \<Rightarrow>
     ((int \<times> msg_t) option \<times> ('g, 'z) server) run" where
  "client_commands sv clientNum 0 message st = Fault"
| "client_commands sv clientNum (Suc fuel) message st =
     run_bind (checked (MSG_ReadBits message 2)) (\<lambda>(command, m1).
     if command \<noteq> SERVER_CLC_CLIENT_COMMAND then Done (Some (command, m1), st)
     else run_bind (SV_ClientCommand sv clientNum m1 st) (\<lambda>(ok, m2, st1).
       if \<not> ok then Done (None, st1)
       else run_bind (client_at clientNum st1) (\<lambda>client.
         if slot_state client = CS_ZOMBIE then Done (None, st1)
         else client_commands sv clientNum fuel m2 st1)))"

definition drop_unpure ::
    "('g, 'z) server_services \<Rightarrow> int \<Rightarrow> ('g, 'z) server \<Rightarrow> ('g, 'z) server run" where
  "drop_unpure sv clientNum st =
     run_bind (client_at clientNum st) (\<lambda>client.
     if cv_pure (s_cvars st) \<noteq> 0 \<and> sc_pureAuthState client = SERVER_CLIENT_PURE_STATE_INVALID then
       run_bind (change_client clientNum (\<lambda>c. set_state CS_ACTIVE (with_snap (\<lambda>s. s\<lparr>sn_nextSnapshotTime := -1\<rparr>) c)) st) (\<lambda>st1.
       run_bind (SV_SendClientSnapshot sv clientNum st1)
         (SV_DropClient sv clientNum (Some ''EXE_UNPURECLIENTDETECTED'')))
     else Done st)"

definition client_message ::
    "('g, 'z) server_services \<Rightarrow> int \<Rightarrow> msg_t \<Rightarrow> ('g, 'z) server \<Rightarrow> ('g, 'z) server run" where
  "client_message sv clientNum decoded st =
     run_bind (client_commands sv clientNum (nat (8 * m_cursize decoded + 16)) decoded st) (\<lambda>(outcome, st1).
     case outcome of
       None \<Rightarrow> Done st1
     | Some (command, m1) \<Rightarrow>
         if m_readcount m1 > m_cursize m1 then SV_DropClient sv clientNum (Some ''malformed client message'') st1
         else run_bind (drop_unpure sv clientNum st1) (\<lambda>st2.
           if command = SERVER_CLC_MOVE then SV_UserMove sv clientNum m1 True st2
           else if command = SERVER_CLC_MOVE_NO_DELTA then SV_UserMove sv clientNum m1 False st2
           else Done st2))"

text \<open>A client that answers for another game state; the high bits of the id change with the map.\<close>

definition stale_message ::
    "('g, 'z) server_services \<Rightarrow> int \<Rightarrow> server_client \<Rightarrow> ('g, 'z) server \<Rightarrow> ('g, 'z) server run" where
  "stale_message sv clientNum client st =
     (let slot = slot_of client in
      if xor (u32 (c_serverId slot)) (u32 (s_serverId st)) AND 240 \<noteq> 0
      then (if c_messageAcknowledge slot \<le> sc_gamestateMessageNum client then Done st
            else SV_SendClientGameState sv clientNum st)
      else if c_state slot = CS_PRIMED then SV_ClientEnterWorld sv clientNum (sc_lastUsercmd client) st
      else Done st)"

definition SV_ExecuteClientMessage ::
    "('g, 'z) server_services \<Rightarrow> int \<Rightarrow> msg_t \<Rightarrow> ('g, 'z) server \<Rightarrow> ('g, 'z) server run" where
  "SV_ExecuteClientMessage sv clientNum message st =
     run_bind (checked (do {
       input \<leftarrow> from_offset (m_data message) (m_readcount message);
       MSG_ReadBitsCompress (sv_huffman sv) input (sv_stack sv) (m_cursize message - m_readcount message) MAX_MSGLEN }))
     (\<lambda>(decodedSize, decodedData).
     if decodedSize = HUFFMAN_TRANSFORM_ERROR then Done st
     else run_bind (client_at clientNum st) (\<lambda>client.
       if c_serverId (slot_of client) \<noteq> s_serverId st \<and> dl_fileName (c_download (slot_of client)) = []
       then stale_message sv clientNum client st
       else client_message sv clientNum ((MSG_Init decodedData MAX_MSGLEN)\<lparr>m_cursize := decodedSize\<rparr>) st))"

section \<open>A test client\<close>

definition test_client_command :: "int \<Rightarrow> string" where
  "test_client_command number = ''connect '' @ QUOTE # concat (map (\<lambda>(key, v). back_slash # key @ back_slash # v)
     [(''cl_guid'', ''unknown''), (''cg_predictItems'', ''1''), (''cl_punkbuster'', ''0''), (''cl_anonymous'', ''0''),
      (''handicap'', ''100''), (''color'', ''4''), (''head'', ''default''), (''model'', ''multi''), (''snaps'', ''20''),
      (''rate'', ''5000''), (''name'', ''bot'' @ decimal number), (''protocol'', ''22'')]) @ [QUOTE]"

definition test_address :: "int \<Rightarrow> netadr_t" where
  "test_address number = \<lparr>a_type = NA_BAD, a_ip = replicate 4 0, a_ipx = replicate 10 0, a_port = u16 number\<rparr>"

definition SV_AddTestClient :: "('g, 'z) server_services \<Rightarrow> ('g, 'z) server \<Rightarrow> (int \<times> ('g, 'z) server) run" where
  "SV_AddTestClient sv st =
     (if \<not> list_ex (\<lambda>c. slot_state c = CS_FREE) (s_clients st) then Done (-1, st)
      else let number = s_reconnectSequence st; address = test_address number in
      run_bind (tokenize (test_client_command number) st) (\<lambda>st1.
      run_bind (SV_DirectConnect sv address (st1\<lparr>s_reconnectSequence := i32 (number + 1)\<rparr>)) (\<lambda>st2.
        case index_of (\<lambda>c. slot_state c \<noteq> CS_FREE \<and> NET_CompareBaseAdr (client_address c) address) (s_clients st2) of
          None \<Rightarrow> Done (-1, st2)
        | Some n \<Rightarrow>
            run_bind (change_client (int n) (with_slot (\<lambda>slot. slot\<lparr>c_isTestClient := True\<rparr>)) st2) (\<lambda>st3.
            run_bind (SV_SendClientGameState sv (int n) st3) (\<lambda>st4.
            run_bind (SV_ClientEnterWorld sv (int n) zero_command st4) (\<lambda>st5. Done (int n, st5)))))))"

end
