(* ===== verification/ClSnapshot.thy ===== *)
theory ClSnapshot
  imports DeltaPlayer Ring
begin

text \<open>
  \<open>src/client/engine/client/server_message_entities.c\<close>: the client rebuilds each snapshot from
  one it already has. Its entity and client states live in two rings of 2048 slots, a frame names
  its window by (first sequence, count), and 32 frames are kept by message number.
  \<open>isEntVisible\<close>, which traces lines through the world's collision model, is the argument
  \<open>visible\<close> of the operations that call it.
\<close>

record clSnapshot_t =
  cf_valid :: bool
  cf_snapFlags :: int
  cf_serverTime :: int
  cf_messageNum :: int
  cf_deltaNum :: int
  cf_ping :: int
  cf_ps :: playerState_t
  cf_numEntities :: int
  cf_numClients :: int
  cf_firstEntitySequence :: int
  cf_firstClientSequence :: int
  cf_serverCommandSequence :: int

record clOutPacket_t =
  op_lastCommandNumber :: int
  op_lastCommandTime :: int
  op_sendRealTime :: int

text \<open>The members of \<open>cl\<close>, \<open>clc\<close> and \<open>cls\<close> that parsing a snapshot uses.\<close>

record clientActive_t =
  ca_parseEntities :: "block list"
  ca_parseEntitySequence :: int
  ca_parseClients :: "block list"
  ca_parseClientSequence :: int
  ca_entityBaselines :: "block list"
  ca_entityLastVisibleTime :: "int list"
  ca_snapshots :: "clSnapshot_t list"
  ca_snap :: clSnapshot_t
  ca_previousSnapshotServerTime :: int
  ca_outPackets :: "clOutPacket_t list"
  ca_newSnapshots :: bool
  ca_onlyVisibleClients :: bool
  ca_demoWaiting :: bool
  ca_serverMessageSequence :: int
  ca_serverCommandSequence :: int
  ca_outgoingSequence :: int
  ca_realTime :: int

abbreviation CODUO_SNAPSHOT_BACKUP_COUNT :: int where "CODUO_SNAPSHOT_BACKUP_COUNT \<equiv> 32"
abbreviation CODUO_PARSE_RING_COUNT :: int where "CODUO_PARSE_RING_COUNT \<equiv> 2048"
abbreviation CL_PACKET_ENTITY_NUMBER_BITS :: int where "CL_PACKET_ENTITY_NUMBER_BITS \<equiv> 10"
abbreviation CL_PACKET_CLIENT_NUMBER_BITS :: int where "CL_PACKET_CLIENT_NUMBER_BITS \<equiv> 6"
abbreviation CL_PACKET_ENTITY_END :: int where "CL_PACKET_ENTITY_END \<equiv> 1023"
abbreviation CL_PARSE_OLD_NUMBER_END :: int where "CL_PARSE_OLD_NUMBER_END \<equiv> 99999"
abbreviation CL_SNAPSHOT_PARSE_SAFETY_MARGIN :: int where "CL_SNAPSHOT_PARSE_SAFETY_MARGIN \<equiv> 128"
abbreviation CL_SNAPSHOT_DEFAULT_PING :: int where "CL_SNAPSHOT_DEFAULT_PING \<equiv> 999"
abbreviation CL_ENTITY_RECENTLY_VISIBLE_MSEC :: int where "CL_ENTITY_RECENTLY_VISIBLE_MSEC \<equiv> 600"
abbreviation CL_ENTITY_FLAG_NODRAW :: int where "CL_ENTITY_FLAG_NODRAW \<equiv> 128"
abbreviation ET_PLAYER :: int where "ET_PLAYER \<equiv> 1"
abbreviation ET_PLAYER_CORPSE :: int where "ET_PLAYER_CORPSE \<equiv> 2"
abbreviation MAX_CLIENTS :: int where "MAX_CLIENTS \<equiv> 64"

definition parse_slot :: "int \<Rightarrow> int" where
  "parse_slot sequence = u32 sequence AND (CODUO_PARSE_RING_COUNT - 1)"

definition snapshot_slot :: "int \<Rightarrow> int" where
  "snapshot_slot number = u32 number AND (CODUO_SNAPSHOT_BACKUP_COUNT - 1)"

section \<open>One record\<close>

text \<open>
  The state a parse runs on: the client, the new frame and the message. The record read into the
  ring slot may be the very slot of the old record, once the ring is full; every member is then
  read before it is written, as in the source.
\<close>

type_synonym parse_state = "clientActive_t \<times> clSnapshot_t \<times> msg_t"

text \<open>The visibility filter of the players' entities; \<open>entity\<close> is changed in its slot.\<close>

definition filter_visible ::
    "(clientActive_t \<Rightarrow> block \<Rightarrow> bool) \<Rightarrow> int \<Rightarrow> clientActive_t \<Rightarrow> block \<Rightarrow> (block \<times> int list) option" where
  "filter_visible visible serverTime cl entity = do {
     number \<leftarrow> peek entity 0;
     eFlags \<leftarrow> peek entity 2;
     if ca_onlyVisibleClients cl \<and> number < MAX_CLIENTS then
       if visible cl entity then do {
         times \<leftarrow> poke (ca_entityLastVisibleTime cl) number serverTime;
         entity1 \<leftarrow> poke entity 2 (eFlags AND NOT CL_ENTITY_FLAG_NODRAW);
         Some (entity1, times) }
       else do {
         lastVisible \<leftarrow> peek (ca_entityLastVisibleTime cl) number;
         if lastVisible < i32 (u32 serverTime - CL_ENTITY_RECENTLY_VISIBLE_MSEC) then do {
           entity1 \<leftarrow> poke entity 2 (eFlags OR CL_ENTITY_FLAG_NODRAW);
           Some (entity1, ca_entityLastVisibleTime cl) }
         else Some (entity, ca_entityLastVisibleTime cl) }
     else Some (entity, ca_entityLastVisibleTime cl) }"

definition invalid_entity :: "block \<Rightarrow> bool option" where
  "invalid_entity entity = do {
     eType \<leftarrow> peek entity 1;
     clientNum \<leftarrow> peek entity 37;
     Some ((eType = ET_PLAYER \<or> eType = ET_PLAYER_CORPSE) \<and> u32 clientNum \<ge> u32 MAX_CLIENTS) }"

definition CL_DeltaEntity ::
    "(clientActive_t \<Rightarrow> block \<Rightarrow> bool) \<Rightarrow> int \<Rightarrow> block \<Rightarrow> bool \<Rightarrow> parse_state \<Rightarrow> parse_state run" where
  "CL_DeltaEntity visible newNumber oldEntity unchanged' st = (case st of (cl, frame, message) \<Rightarrow>
     (let slot = parse_slot (ca_parseEntitySequence cl) in
      run_bind (checked (peek (ca_parseEntities cl) slot)) (\<lambda>entity.
      run_bind (if unchanged' then Done (False, oldEntity, message)
                else MSG_ReadDeltaEntity message oldEntity entity newNumber) (\<lambda>(gone, entity1, m1).
        if gone then Done (cl, frame, m1)
        else run_bind (checked (invalid_entity entity1)) (\<lambda>invalid.
          if invalid then Raise ERR_DROP ''CL_DeltaEntity: invalid client number %i''
          else checked (do {
            ring1 \<leftarrow> poke (ca_parseEntities cl) slot entity1;
            (entity2, times) \<leftarrow> filter_visible visible (cf_serverTime frame) (cl\<lparr>ca_parseEntities := ring1\<rparr>) entity1;
            ring2 \<leftarrow> poke ring1 slot entity2;
            Some (cl\<lparr>ca_parseEntities := ring2, ca_entityLastVisibleTime := times,
                     ca_parseEntitySequence := i32 (ca_parseEntitySequence cl + 1)\<rparr>,
                  frame\<lparr>cf_numEntities := i32 (cf_numEntities frame + 1)\<rparr>, m1) }))))))"

definition CL_DeltaClient :: "int \<Rightarrow> block \<Rightarrow> bool \<Rightarrow> parse_state \<Rightarrow> parse_state run" where
  "CL_DeltaClient newNumber oldClient unchanged' st = (case st of (cl, frame, message) \<Rightarrow>
     (let slot = parse_slot (ca_parseClientSequence cl) in
      run_bind (checked (peek (ca_parseClients cl) slot)) (\<lambda>client.
      run_bind (if unchanged' then Done (False, oldClient, message)
                else MSG_ReadDeltaClient message (Some oldClient) client newNumber) (\<lambda>(gone, client1, m1).
        if gone then Done (cl, frame, m1)
        else checked (do {
          ring1 \<leftarrow> poke (ca_parseClients cl) slot client1;
          Some (cl\<lparr>ca_parseClients := ring1, ca_parseClientSequence := i32 (ca_parseClientSequence cl + 1)\<rparr>,
                frame\<lparr>cf_numClients := i32 (cf_numClients frame + 1)\<rparr>, m1) })))))"

section \<open>The packet loops\<close>

text \<open>
  The two packet parsers have one loop. It is given how the next number is read (\<open>None\<close> ends the
  packet), the number of an old record by its index, and what is done with a record; the source of
  a record is the index of an old one or \<open>None\<close> for the baseline. \<open>oldNumber\<close> is cached, as in the
  code, while the old record itself is looked up when it is used.
\<close>

record packet_parser =
  pp_next :: "parse_state \<Rightarrow> (int option \<times> parse_state) run"
  pp_count :: int
  pp_number :: "parse_state \<Rightarrow> int \<Rightarrow> int run"
  pp_delta :: "int \<Rightarrow> int option \<Rightarrow> bool \<Rightarrow> parse_state \<Rightarrow> parse_state run"

definition old_number :: "packet_parser \<Rightarrow> parse_state \<Rightarrow> int \<Rightarrow> int run" where
  "old_number parser st index =
     (if index \<ge> pp_count parser then Done CL_PARSE_OLD_NUMBER_END else pp_number parser st index)"

text \<open>The old records that are kept, as long as their number satisfies the loop condition.\<close>

function copy_old ::
    "packet_parser \<Rightarrow> (int \<Rightarrow> bool) \<Rightarrow> int \<Rightarrow> int \<Rightarrow> parse_state \<Rightarrow> (int \<times> int \<times> parse_state) run" where
  "copy_old parser going oldIndex oldNumber st =
     (if \<not> going oldNumber then Done (oldIndex, oldNumber, st)
      else if oldIndex \<ge> pp_count parser then Fault
      else run_bind (pp_delta parser oldNumber (Some oldIndex) True st) (\<lambda>st1.
           run_bind (old_number parser st1 (oldIndex + 1)) (\<lambda>number1.
             copy_old parser going (oldIndex + 1) number1 st1)))"
  by pat_completeness auto
termination
  by (relation "measure (\<lambda>(parser, going, oldIndex, oldNumber, st). nat (pp_count parser - oldIndex))") auto

declare copy_old.simps [simp del]

fun parse_records :: "nat \<Rightarrow> packet_parser \<Rightarrow> int \<Rightarrow> int \<Rightarrow> parse_state \<Rightarrow> parse_state run" where
  "parse_records 0 parser oldIndex oldNumber st = Fault"
| "parse_records (Suc fuel) parser oldIndex oldNumber st =
     run_bind (pp_next parser st) (\<lambda>(next', st1). case next' of
       None \<Rightarrow>
         run_bind (copy_old parser (\<lambda>n. n \<noteq> CL_PARSE_OLD_NUMBER_END) oldIndex oldNumber st1) (\<lambda>(_, _, st2). Done st2)
     | Some newNumber \<Rightarrow>
         run_bind (copy_old parser (\<lambda>n. n < newNumber) oldIndex oldNumber st1) (\<lambda>(index, number, st2).
           if number = newNumber
           then run_bind (pp_delta parser newNumber (Some index) False st2) (\<lambda>st3.
                run_bind (old_number parser st3 (index + 1)) (\<lambda>number1.
                  parse_records fuel parser (index + 1) number1 st3))
           else run_bind (pp_delta parser newNumber None False st2) (\<lambda>st3.
                  parse_records fuel parser index number st3)))"

definition parse_packet :: "packet_parser \<Rightarrow> parse_state \<Rightarrow> parse_state run" where
  "parse_packet parser st = (case st of (cl, frame, message) \<Rightarrow>
     run_bind (old_number parser st 0) (\<lambda>number.
       parse_records (nat (8 * m_cursize message + 16)) parser 0 number st))"

text \<open>The window of an old frame, \<open>parseEntities[(first + index) & mask]\<close>.\<close>

definition old_record :: "block list \<Rightarrow> int \<Rightarrow> int \<Rightarrow> block option" where
  "old_record ring first index = peek ring (parse_slot (u32 first + u32 index))"

definition CL_OldPacketEntity :: "clSnapshot_t option \<Rightarrow> clientActive_t \<Rightarrow> int \<Rightarrow> block option" where
  "CL_OldPacketEntity oldFrame cl oldIndex = (case oldFrame of None \<Rightarrow> None | Some f \<Rightarrow>
     if oldIndex \<ge> cf_numEntities f then None
     else old_record (ca_parseEntities cl) (cf_firstEntitySequence f) oldIndex)"

definition next_entity :: "parse_state \<Rightarrow> (int option \<times> parse_state) run" where
  "next_entity st = (case st of (cl, frame, message) \<Rightarrow>
     run_bind (checked (MSG_ReadBits message CL_PACKET_ENTITY_NUMBER_BITS)) (\<lambda>(newNumber, m1).
       if newNumber = CL_PACKET_ENTITY_END then Done (None, cl, frame, m1)
       else if m_readcount m1 > m_cursize m1 then Raise ERR_DROP ''CL_ParsePacketEntities: end of message''
       else Done (Some newNumber, cl, frame, m1)))"

definition entity_parser ::
    "(clientActive_t \<Rightarrow> block \<Rightarrow> bool) \<Rightarrow> clSnapshot_t option \<Rightarrow> packet_parser" where
  "entity_parser visible oldFrame = \<lparr>
     pp_next = next_entity,
     pp_count = (case oldFrame of None \<Rightarrow> 0 | Some f \<Rightarrow> cf_numEntities f),
     pp_number = (\<lambda>(cl, frame, message) index. checked (do {
        e \<leftarrow> CL_OldPacketEntity oldFrame cl index;
        peek e 0 })),
     pp_delta = (\<lambda>newNumber source unchanged' (cl, frame, message).
        run_bind (checked (case source of
            None \<Rightarrow> peek (ca_entityBaselines cl) newNumber
          | Some index \<Rightarrow> CL_OldPacketEntity oldFrame cl index)) (\<lambda>old.
          CL_DeltaEntity visible newNumber old unchanged' (cl, frame, message)))\<rparr>"

definition CL_ParsePacketEntities ::
    "(clientActive_t \<Rightarrow> block \<Rightarrow> bool) \<Rightarrow> clSnapshot_t option \<Rightarrow> parse_state \<Rightarrow> parse_state run" where
  "CL_ParsePacketEntities visible oldFrame st = (case st of (cl, newFrame, message) \<Rightarrow>
     parse_packet (entity_parser visible oldFrame)
       (cl, newFrame\<lparr>cf_firstEntitySequence := ca_parseEntitySequence cl, cf_numEntities := 0\<rparr>, message))"

definition CL_OldPacketClient :: "clSnapshot_t option \<Rightarrow> clientActive_t \<Rightarrow> int \<Rightarrow> block option" where
  "CL_OldPacketClient oldFrame cl oldIndex = (case oldFrame of None \<Rightarrow> None | Some f \<Rightarrow>
     if oldIndex \<ge> cf_numClients f then None
     else old_record (ca_parseClients cl) (cf_firstClientSequence f) oldIndex)"

definition next_client :: "parse_state \<Rightarrow> (int option \<times> parse_state) run" where
  "next_client st = (case st of (cl, frame, message) \<Rightarrow>
     run_bind (checked (MSG_ReadBit message)) (\<lambda>(going, m1).
       if going = 0 then Done (None, cl, frame, m1)
       else run_bind (checked (MSG_ReadBits m1 CL_PACKET_CLIENT_NUMBER_BITS)) (\<lambda>(newNumber, m2).
         if m_readcount m2 > m_cursize m2 then Raise ERR_DROP ''CL_ParsePacketClients: end of message''
         else Done (Some newNumber, cl, frame, m2))))"

definition client_parser :: "clSnapshot_t option \<Rightarrow> packet_parser" where
  "client_parser oldFrame = \<lparr>
     pp_next = next_client,
     pp_count = (case oldFrame of None \<Rightarrow> 0 | Some f \<Rightarrow> cf_numClients f),
     pp_number = (\<lambda>(cl, frame, message) index. checked (do {
        c \<leftarrow> CL_OldPacketClient oldFrame cl index;
        peek c 0 })),
     pp_delta = (\<lambda>newNumber source unchanged' (cl, frame, message).
        run_bind (checked (case source of
            None \<Rightarrow> Some (replicate 23 0)
          | Some index \<Rightarrow> CL_OldPacketClient oldFrame cl index)) (\<lambda>old.
          CL_DeltaClient newNumber old unchanged' (cl, frame, message)))\<rparr>"

definition CL_ParsePacketClients :: "clSnapshot_t option \<Rightarrow> parse_state \<Rightarrow> parse_state run" where
  "CL_ParsePacketClients oldFrame st = (case st of (cl, newFrame, message) \<Rightarrow>
     parse_packet (client_parser oldFrame)
       (cl, newFrame\<lparr>cf_firstClientSequence := ca_parseClientSequence cl, cf_numClients := 0\<rparr>, message))"

section \<open>A snapshot\<close>

definition zero_snapshot :: clSnapshot_t where
  "zero_snapshot = \<lparr>cf_valid = False, cf_snapFlags = 0, cf_serverTime = 0, cf_messageNum = 0, cf_deltaNum = 0,
     cf_ping = 0, cf_ps = null_state, cf_numEntities = 0, cf_numClients = 0, cf_firstEntitySequence = 0,
     cf_firstClientSequence = 0, cf_serverCommandSequence = 0\<rparr>"

text \<open>The delta parent, and whether a frame built on it is to be kept.\<close>

definition parent_usable :: "clientActive_t \<Rightarrow> clSnapshot_t \<Rightarrow> int \<Rightarrow> bool" where
  "parent_usable cl old deltaNum \<longleftrightarrow> cf_valid old \<and> cf_messageNum old = deltaNum \<and>
     \<not> i32 (u32 (ca_parseEntitySequence cl) - u32 (cf_firstEntitySequence old))
         > CODUO_PARSE_RING_COUNT - CL_SNAPSHOT_PARSE_SAFETY_MARGIN \<and>
     \<not> i32 (u32 (ca_parseClientSequence cl) - u32 (cf_firstClientSequence old))
         > CODUO_PARSE_RING_COUNT - CL_SNAPSHOT_PARSE_SAFETY_MARGIN"

definition read_header :: "clientActive_t \<Rightarrow> msg_t \<Rightarrow> (clSnapshot_t \<times> msg_t) option" where
  "read_header cl message = do {
     (serverTime, m1) \<leftarrow> MSG_ReadLong message;
     (deltaDistance, m2) \<leftarrow> MSG_ReadByte m1;
     (snapFlags, m3) \<leftarrow> MSG_ReadByte m2;
     let messageNum = ca_serverMessageSequence cl;
     Some (zero_snapshot\<lparr>
       cf_serverCommandSequence := ca_serverCommandSequence cl, cf_serverTime := serverTime,
       cf_messageNum := messageNum,
       cf_deltaNum := (if deltaDistance = 0 then -1 else i32 (u32 messageNum - u32 deltaDistance)),
       cf_snapFlags := u32 snapFlags\<rparr>, m3) }"

definition choose_parent ::
    "clientActive_t \<Rightarrow> clSnapshot_t \<Rightarrow> (clSnapshot_t option \<times> clientActive_t \<times> clSnapshot_t) option" where
  "choose_parent cl frame =
     (if cf_deltaNum frame \<le> 0 then Some (None, cl\<lparr>ca_demoWaiting := False\<rparr>, frame\<lparr>cf_valid := True\<rparr>)
      else do {
        old \<leftarrow> peek (ca_snapshots cl) (snapshot_slot (cf_deltaNum frame));
        Some (Some old, cl, frame\<lparr>cf_valid := parent_usable cl old (cf_deltaNum frame)\<rparr>) })"

text \<open>The frames between the last one received and the new one were lost.\<close>

function invalidate_frames :: "int \<Rightarrow> int \<Rightarrow> clSnapshot_t list \<Rightarrow> clSnapshot_t list option" where
  "invalidate_frames number messageNum snapshots =
     (if number < messageNum then do {
        frame \<leftarrow> peek snapshots (snapshot_slot number);
        snapshots1 \<leftarrow> poke snapshots (snapshot_slot number) (frame\<lparr>cf_valid := False\<rparr>);
        invalidate_frames (number + 1) messageNum snapshots1 }
      else Some snapshots)"
  by pat_completeness auto
termination
  by (relation "measure (\<lambda>(number, messageNum, snapshots). nat (messageNum - number))") auto

declare invalidate_frames.simps [simp del]

definition first_lost :: "int \<Rightarrow> int \<Rightarrow> int" where
  "first_lost lastNumber messageNum =
     (let number = i32 (lastNumber + 1) in
      if i32 (u32 messageNum - u32 number) \<ge> CODUO_SNAPSHOT_BACKUP_COUNT
      then i32 (messageNum - (CODUO_SNAPSHOT_BACKUP_COUNT - 1)) else number)"

fun find_ping :: "nat \<Rightarrow> int \<Rightarrow> int \<Rightarrow> clientActive_t \<Rightarrow> int option" where
  "find_ping 0 packetSequence commandTime cl = Some CL_SNAPSHOT_DEFAULT_PING"
| "find_ping (Suc n) packetSequence commandTime cl = do {
     packet \<leftarrow> peek (ca_outPackets cl) (snapshot_slot packetSequence);
     if commandTime \<ge> op_lastCommandTime packet
     then Some (i32 (u32 (ca_realTime cl) - u32 (op_sendRealTime packet)))
     else find_ping n (i32 (packetSequence - 1)) commandTime cl }"

text \<open>
  \<open>commandTime\<close> is the first dword of the player state and \<open>psClientNum\<close> the dword 53.
\<close>

definition keep_snapshot :: "clientActive_t \<Rightarrow> clSnapshot_t \<Rightarrow> clientActive_t option" where
  "keep_snapshot cl frame =
     (if \<not> cf_valid frame then Some cl
      else do {
        snapshots1 \<leftarrow> invalidate_frames (first_lost (cf_messageNum (ca_snap cl)) (cf_messageNum frame))
                       (cf_messageNum frame) (ca_snapshots cl);
        commandTime \<leftarrow> peek (ps_head (cf_ps frame)) 0;
        ping \<leftarrow> find_ping (nat CODUO_SNAPSHOT_BACKUP_COUNT) (i32 (ca_outgoingSequence cl - 1)) commandTime cl;
        let snap = frame\<lparr>cf_ping := ping\<rparr>;
        snapshots2 \<leftarrow> poke snapshots1 (snapshot_slot (cf_messageNum snap)) snap;
        Some (cl\<lparr>ca_previousSnapshotServerTime := cf_serverTime (ca_snap cl), ca_snap := snap,
                 ca_snapshots := snapshots2, ca_newSnapshots := True\<rparr>) })"

definition CL_ParseSnapshot ::
    "(clientActive_t \<Rightarrow> block \<Rightarrow> bool) \<Rightarrow> clientActive_t \<Rightarrow> msg_t \<Rightarrow> (clientActive_t \<times> msg_t) run" where
  "CL_ParseSnapshot visible cl message =
     run_bind (checked (read_header cl message)) (\<lambda>(frame0, m1).
     run_bind (checked (choose_parent cl frame0)) (\<lambda>(oldFrame, cl1, frame1).
     run_bind (MSG_ReadDeltaPlayerstate m1 (map_option cf_ps oldFrame)) (\<lambda>(ps, m2).
     run_bind (checked (peek (ps_head ps) 53)) (\<lambda>psClientNum.
       if u32 psClientNum \<ge> u32 MAX_CLIENTS
       then Raise ERR_DROP ''CL_ParseSnapshot: invalid player client number %i''
       else run_bind (CL_ParsePacketEntities visible oldFrame (cl1, frame1\<lparr>cf_ps := ps\<rparr>, m2)) (\<lambda>st1.
            run_bind (CL_ParsePacketClients oldFrame st1) (\<lambda>(cl2, frame2, m3).
            run_bind (checked (keep_snapshot cl2 frame2)) (\<lambda>cl3. Done (cl3, m3))))))))"

end
