(* ===== verification/ClPacket.thy ===== *)
theory ClPacket
  imports ClSnapshot Cipher SvSend Checksum
begin

text \<open>
  The client's packets: \<open>CL_CreateNewCommands\<close>, \<open>CL_ReadyToSendPacket\<close>, \<open>CL_WritePacket\<close> and
  \<open>CL_SendCmd\<close> of \<open>src/client/engine/client/cgame_frame.c\<close>. A packet carries the reliable commands
  the server has not acknowledged and the user commands of the last frames, of which each is sent
  with several packets. The command of a frame, made by \<open>CL_CreateCmd\<close> from the input devices, is
  an argument.
\<close>

datatype connstate_t = CA_DISCONNECTED | CA_CONNECTING | CA_CHALLENGING | CA_CONNECTED | CA_LOADING
  | CA_PRIMED | CA_ACTIVE | CA_CINEMATIC | CA_LOGO

fun connstate_value :: "connstate_t \<Rightarrow> int" where
  "connstate_value CA_DISCONNECTED = 0"
| "connstate_value CA_CONNECTING = 1"
| "connstate_value CA_CHALLENGING = 2"
| "connstate_value CA_CONNECTED = 3"
| "connstate_value CA_LOADING = 4"
| "connstate_value CA_PRIMED = 5"
| "connstate_value CA_ACTIVE = 6"
| "connstate_value CA_CINEMATIC = 7"
| "connstate_value CA_LOGO = 8"

text \<open>The members of \<open>cl\<close>, \<open>clc\<close> and \<open>cls\<close> that sending uses, beside those of the connection, and the cvars.\<close>

record packet_sender =
  ws_clc :: clientConnection_t
  ws_state :: connstate_t
  ws_demoPlayback :: bool
  ws_demoWaiting :: bool
  ws_snap :: clSnapshot_t
  ws_cmds :: "usercmd_t list"
  ws_cmdNumber :: int
  ws_outPackets :: "clOutPacket_t list"
  ws_checksumFeed :: int
  ws_realTime :: int
  ws_lastPacketSentTime :: int
  ws_downloading :: bool
  ws_commandFrameMsec :: int
  ws_previousCommandFrameTime :: int
  ws_packetdup :: int
  ws_maxpackets :: int
  ws_nodelta :: int
  ws_sv_running :: int
  ws_sv_paused :: int
  ws_cl_paused :: int

abbreviation CL_CLIENT_COMMAND_MOVE :: int where "CL_CLIENT_COMMAND_MOVE \<equiv> 0"
abbreviation CL_CLIENT_COMMAND_MOVE_NO_DELTA :: int where "CL_CLIENT_COMMAND_MOVE_NO_DELTA \<equiv> 1"
abbreviation CL_CLIENT_COMMAND_RELIABLE :: int where "CL_CLIENT_COMMAND_RELIABLE \<equiv> 2"
abbreviation CL_CLIENT_COMMAND_EOF :: int where "CL_CLIENT_COMMAND_EOF \<equiv> 3"
abbreviation CL_PACKET_HEADER_BYTES :: int where "CL_PACKET_HEADER_BYTES \<equiv> 9"

definition command_slot :: "int \<Rightarrow> int" where
  "command_slot number = u32 number AND 127"

section \<open>Making commands\<close>

definition CL_CreateNewCommands :: "int \<Rightarrow> usercmd_t \<Rightarrow> packet_sender \<Rightarrow> packet_sender option" where
  "CL_CreateNewCommands com_frameTime command w =
     (if connstate_value (ws_state w) < connstate_value CA_PRIMED then Some w
      else let number = i32 (ws_cmdNumber w + 1);
               msec = u32 (com_frameTime - ws_previousCommandFrameTime w) in do {
        cmds \<leftarrow> poke (ws_cmds w) (command_slot number) command;
        Some (w\<lparr>ws_commandFrameMsec := (if msec > 200 then 200 else msec),
                ws_previousCommandFrameTime := u32 com_frameTime, ws_cmdNumber := number, ws_cmds := cmds\<rparr>) })"

text \<open>A cvar out of its range is set to the nearest value.\<close>

definition CL_ReadyToSendPacket :: "8 word list list \<Rightarrow> packet_sender \<Rightarrow> (bool \<times> packet_sender) option" where
  "CL_ReadyToSendPacket localIP w =
     (let elapsed = i32 (ws_realTime w - ws_lastPacketSentTime w);
          address = n_remoteAddress (clc_netchan (ws_clc w)) in
      if ws_demoPlayback w \<or> ws_state w = CA_CINEMATIC \<or> ws_state w = CA_LOGO then Some (False, w)
      else if ws_downloading w \<and> elapsed < 50 then Some (False, w)
      else if ws_state w \<noteq> CA_ACTIVE \<and> ws_state w \<noteq> CA_PRIMED \<and> \<not> ws_downloading w \<and> elapsed < 1000 then Some (False, w)
      else if a_type address = NA_LOOPBACK \<or> Sys_IsLANAddress localIP address then Some (True, w)
      else let w1 = w\<lparr>ws_maxpackets := clamp_to 15 125 (ws_maxpackets w)\<rparr> in do {
        packet \<leftarrow> peek (ws_outPackets w) (snapshot_slot (n_outgoingSequence (clc_netchan (ws_clc w)) - 1));
        Some (i32 (ws_realTime w - op_sendRealTime packet) \<ge> 1000 div ws_maxpackets w1, w1) })"

section \<open>The message\<close>

definition write_reliable :: "clientConnection_t \<Rightarrow> int \<Rightarrow> msg_t \<Rightarrow> msg_t option" where
  "write_reliable clc sequence message = do {
     m1 \<leftarrow> MSG_WriteBits message CL_CLIENT_COMMAND_RELIABLE 2;
     m2 \<leftarrow> MSG_WriteLong m1 sequence;
     MSG_WriteString m2 (Some (cstr_of (clc_reliableCommands clc ! ring_slot sequence))) }"

fun write_reliables :: "clientConnection_t \<Rightarrow> int list \<Rightarrow> msg_t \<Rightarrow> msg_t option" where
  "write_reliables clc [] message = Some message"
| "write_reliables clc (sequence # rest) message = do {
     m1 \<leftarrow> write_reliable clc sequence message;
     write_reliables clc rest m1 }"

fun write_moves :: "int \<Rightarrow> usercmd_t \<Rightarrow> usercmd_t list \<Rightarrow> msg_t \<Rightarrow> msg_t option" where
  "write_moves key last' [] message = Some message"
| "write_moves key last' (c # cs) message = do {
     m1 \<leftarrow> MSG_WriteDeltaUsercmdKey message key last' c;
     write_moves key c cs m1 }"

text \<open>The newest \<open>count\<close> commands of the ring, in the order they were made.\<close>

definition recent_commands :: "packet_sender \<Rightarrow> int \<Rightarrow> usercmd_t list option" where
  "recent_commands w count =
     those (map (\<lambda>index. peek (ws_cmds w) (command_slot (ws_cmdNumber w - count + index + 1))) [0..count - 1])"

definition commands_due :: "packet_sender \<Rightarrow> int option" where
  "commands_due w = do {
     packet \<leftarrow> peek (ws_outPackets w) (snapshot_slot (n_outgoingSequence (clc_netchan (ws_clc w)) - ws_packetdup w - 1));
     let count = i32 (ws_cmdNumber w - op_lastCommandNumber packet) in
     Some (if count > 32 then 32 else count) }"

definition wants_delta :: "packet_sender \<Rightarrow> bool" where
  "wants_delta w \<longleftrightarrow> ws_nodelta w = 0 \<and> cf_valid (ws_snap w) \<and> \<not> ws_demoWaiting w \<and>
     clc_serverMessageSequence (ws_clc w) = cf_messageNum (ws_snap w)"

definition sender_key :: "packet_sender \<Rightarrow> int" where
  "sender_key w = (let clc = ws_clc w in
     xor (xor (u32 (ws_checksumFeed w)) (u32 (clc_serverMessageSequence clc)))
       (uint (Com_HashKey (cstr_of (clc_serverCommands clc ! ring_slot (clc_serverCommandSequence clc))) 32)))"

definition write_head :: "packet_sender \<Rightarrow> msg_t \<Rightarrow> msg_t option" where
  "write_head w message = (let clc = ws_clc w in do {
     m1 \<leftarrow> MSG_WriteByte message (cl_serverId clc);
     m2 \<leftarrow> MSG_WriteLong m1 (clc_serverMessageSequence clc);
     MSG_WriteLong m2 (clc_serverCommandSequence clc) })"

text \<open>What follows the nine bytes of the head.\<close>

definition write_body :: "packet_sender \<Rightarrow> usercmd_t \<Rightarrow> usercmd_t list \<Rightarrow> msg_t \<Rightarrow> msg_t option" where
  "write_body w defaultCommand commands message = (let clc = ws_clc w in do {
     m1 \<leftarrow> write_reliables clc [i32 (clc_reliableAcknowledge clc + 1) .. clc_reliableSequence clc] message;
     m2 \<leftarrow> (if commands \<noteq> [] then do {
              a \<leftarrow> MSG_WriteBits m1 (if wants_delta w then CL_CLIENT_COMMAND_MOVE else CL_CLIENT_COMMAND_MOVE_NO_DELTA) 2;
              b \<leftarrow> MSG_WriteByte a (int (length commands));
              write_moves (sender_key w) defaultCommand commands b }
            else Some m1);
     MSG_WriteBits m2 CL_CLIENT_COMMAND_EOF 2 })"

definition packet_message ::
    "8 word list \<Rightarrow> packet_sender \<Rightarrow> (msg_t \<times> usercmd_t) option" where
  "packet_message stack w = do {
     defaultCommand \<leftarrow> MSG_SetDefaultUserCmd (cf_ps (ws_snap w));
     count \<leftarrow> commands_due w;
     commands \<leftarrow> recent_commands w count;
     m1 \<leftarrow> write_head w (MSG_Init stack MAX_MSGLEN);
     m2 \<leftarrow> write_body w defaultCommand commands m1;
     Some (m2, if commands = [] then defaultCommand else last commands) }"

definition note_packet :: "usercmd_t \<Rightarrow> packet_sender \<Rightarrow> packet_sender option" where
  "note_packet lastCommand w = do {
     packets \<leftarrow> poke (ws_outPackets w) (snapshot_slot (n_outgoingSequence (clc_netchan (ws_clc w))))
       \<lparr>op_lastCommandNumber = ws_cmdNumber w, op_lastCommandTime = uc_commandTime lastCommand,
        op_sendRealTime = ws_realTime w\<rparr>;
     Some (w\<lparr>ws_outPackets := packets, ws_lastPacketSentTime := ws_realTime w\<rparr>) }"

text \<open>The fragments of a long packet follow at once; there are at most 25 of them, so fuel 27 is enough.\<close>

fun send_rest :: "nat \<Rightarrow> net_env \<Rightarrow> netchan_t \<Rightarrow> 8 word list list \<Rightarrow> (net_env \<times> netchan_t \<times> 8 word list list) run" where
  "send_rest fuel env channel sent =
     (if \<not> n_unsentFragments channel then Done (env, channel, sent)
      else case fuel of 0 \<Rightarrow> Fault
      | Suc n \<Rightarrow> run_bind (Netchan_TransmitNextFragment env channel) (\<lambda>(env1, channel1, packet).
          send_rest n env1 channel1 (sent @ [packet])))"

declare send_rest.simps [simp del]

definition CL_WritePacket ::
    "huffman_t \<Rightarrow> 8 word list \<Rightarrow> net_env \<Rightarrow> packet_sender \<Rightarrow> (net_env \<times> packet_sender \<times> 8 word list list) run" where
  "CL_WritePacket msgHuff stack env w =
     (if ws_demoPlayback w \<or> ws_state w = CA_CINEMATIC \<or> ws_state w = CA_LOGO then Done (env, w, [])
      else let w1 = w\<lparr>ws_packetdup := clamp_to 0 5 (ws_packetdup w)\<rparr> in
      run_bind (checked (do {
        (message, lastCommand) \<leftarrow> packet_message stack w1;
        (packetSize, packet) \<leftarrow> compress_behind msgHuff CL_PACKET_HEADER_BYTES message stack;
        w2 \<leftarrow> note_packet lastCommand w1;
        Some (packetSize, packet, w2) })) (\<lambda>(packetSize, packet, w2).
      run_bind (CL_Netchan_Transmit env (ws_clc w2) packet packetSize) (\<lambda>(env1, clc, sent).
      run_bind (send_rest 27 env1 (clc_netchan clc) [sent]) (\<lambda>(env2, channel, packets).
        Done (env2, w2\<lparr>ws_clc := clc\<lparr>clc_netchan := channel\<rparr>\<rparr>, packets)))))"

definition CL_SendCmd ::
    "huffman_t \<Rightarrow> 8 word list \<Rightarrow> 8 word list list \<Rightarrow> int \<Rightarrow> usercmd_t \<Rightarrow> net_env \<Rightarrow> packet_sender \<Rightarrow>
     (net_env \<times> packet_sender \<times> 8 word list list) run" where
  "CL_SendCmd msgHuff stack localIP com_frameTime command env w =
     (if connstate_value (ws_state w) < connstate_value CA_CONNECTED then Done (env, w, [])
      else if ws_sv_running w \<noteq> 0 \<and> ws_sv_paused w = 1 \<and> ws_cl_paused w = 1 then Done (env, w, [])
      else run_bind (checked (do {
        w1 \<leftarrow> CL_CreateNewCommands com_frameTime command w;
        CL_ReadyToSendPacket localIP w1 })) (\<lambda>(ready, w2).
        if ready then CL_WritePacket msgHuff stack env w2 else Done (env, w2, [])))"

end
