(* ===== verification/Delta_Correct.thy ===== *)
theory Delta_Correct
  imports Delta Msg_Correct
begin

text \<open>
  Correctness of the delta codec. Every writer is a sequence of the wire operations of
  \<open>Msg_Correct\<close>, computed here from the two records, and every reader is described by what it
  returns on a message that holds such a sequence (\<open>sees\<close>); \<open>received\<close> is what a member has
  become on its way. The round trips follow from these for whole records, and the readers stay
  inside their blocks on any message at all.
\<close>

section \<open>Sequences of wire operations\<close>

lemma write_ops_fun [simp]:
  "write_ops [] = Some" "write_ops (x # xs) = (\<lambda>m. do { m1 \<leftarrow> write_op x m; write_ops xs m1 })"
  by (simp_all add: fun_eq_iff)

lemma write_ops_append [simp]:
  "write_ops (xs @ ys) = (\<lambda>m. do { m1 \<leftarrow> write_ops xs m; write_ops ys m1 })"
  by (induction xs) (simp_all add: Option.bind_assoc fun_eq_iff)

lemma read_ops_append:
  "read_ops (xs @ ys) r = Some (map wire_value (xs @ ys), r'') \<longleftrightarrow>
     (\<exists>r'. read_ops xs r = Some (map wire_value xs, r') \<and> read_ops ys r' = Some (map wire_value ys, r''))"
  by (induction xs arbitrary: r) (auto simp: bind_eq_Some_conv split: prod.splits)

text \<open>The message holds what the operations wrote, and reading it ends at \<open>r'\<close>.\<close>

definition sees :: "msg_t \<Rightarrow> wire_op list \<Rightarrow> msg_t \<Rightarrow> bool" where
  "sees r xs r' \<longleftrightarrow> read_ops xs r = Some (map wire_value xs, r')"

lemma v_int_eq [simp]: "v_int x = Some (VInt v, r) \<longleftrightarrow> x = Some (v, r)"
  by (cases x) (auto simp: v_int_def)

lemma v_int_Some: "v_int x = Some y \<longleftrightarrow> (\<exists>v r. x = Some (v, r) \<and> y = (VInt v, r))"
  by (cases x) (auto simp: v_int_def)

lemma sees_Cons: "sees r (x # xs) r' \<longleftrightarrow> (\<exists>r1. read_op x r = Some (wire_value x, r1) \<and> sees r1 xs r')"
  by (auto simp: sees_def bind_eq_Some_conv split: prod.splits)

lemma sees_simps [simp]:
  "sees r [] r' \<longleftrightarrow> r' = r"
  "sees r (xs @ ys) r' \<longleftrightarrow> (\<exists>r1. sees r xs r1 \<and> sees r1 ys r')"
  "sees r (WBits v n # xs) r' \<longleftrightarrow>
     (\<exists>r1. MSG_ReadBits r n = Some (if n = 32 then i32 v else v mod 2 ^ nat n, r1) \<and> sees r1 xs r')"
  "sees r (WBit b # xs) r' \<longleftrightarrow> (\<exists>r1. MSG_ReadBit r = Some (of_bool b, r1) \<and> sees r1 xs r')"
  "sees r (WByte v # xs) r' \<longleftrightarrow> (\<exists>r1. MSG_ReadByte r = Some (u8 v, r1) \<and> sees r1 xs r')"
  "sees r (WShort v # xs) r' \<longleftrightarrow> (\<exists>r1. MSG_ReadShort r = Some (i16 v, r1) \<and> sees r1 xs r')"
  "sees r (WLong v # xs) r' \<longleftrightarrow> (\<exists>r1. MSG_ReadLong r = Some (i32 v, r1) \<and> sees r1 xs r')"
  using read_ops_append [of xs ys r r'] by (auto simp: sees_Cons) (auto simp: sees_def)

text \<open>What a finished message holds.\<close>

lemma written_seen:
  assumes "msg_inv m" "list_all op_ok xs" "write_ops xs m = Some m'" "\<not> m_overflowed m'"
    and "agree m' (m_data r)" "m_cursize m' \<le> m_cursize r" "readable r"
  shows "sees (at_cursor m r) xs (at_cursor m' r)"
  using write_ops_step [OF assms(1,2)] assms(3-7) by (auto simp: sees_def)

lemma fresh_seen:
  assumes "0 \<le> maxsize" "maxsize \<le> int (length data)" "maxsize < 268435456" "list_all op_ok xs"
    and "write_ops xs (MSG_Init data maxsize) = Some m" "\<not> m_overflowed m"
  shows "\<exists>r. sees (MSG_BeginReading m) xs r \<and> m_readcount r = m_cursize m"
proof -
  have inv: "msg_inv (MSG_Init data maxsize)" using assms(1-3) by (rule MSG_Init_inv)
  have "msg_inv m" using write_ops_step [OF inv assms(4)] assms(5) by auto
  then have "sees (at_cursor (MSG_Init data maxsize) m) xs (at_cursor m m)"
    using written_seen [OF inv assms(4-6), of m] agree_self [of m] readable_self [of m]
    by (simp add: msg_inv_def)
  moreover have "at_cursor (MSG_Init data maxsize) m = MSG_BeginReading m"
    by (simp add: at_cursor_def MSG_BeginReading_def MSG_Init_def)
  ultimately show ?thesis by auto
qed

section \<open>One value\<close>

lemma WriteAngle16_eq: "MSG_WriteAngle16 m v = MSG_WriteShort m (float_to_i32 v 11930465 16)"
proof -
  have "(ucast (word_of_int p :: 16 word) :: 8 word) = word_of_int p" for p :: int
    by (rule bit_word_eqI) (simp add: bit_simps)
  moreover have "(ucast (drop_bit 8 (word_of_int p :: 16 word)) :: 8 word) = word_of_int (p div 256)" for p :: int
    unfolding drop_bit_eq_div [of 8 p, simplified, symmetric] by (rule bit_word_eqI) (simp add: bit_simps)
  ultimately show ?thesis
    by (simp add: MSG_WriteAngle16_def MSG_WriteShort_def Let_def)
qed

fun byte_ops :: "nat \<Rightarrow> int \<Rightarrow> wire_op list" where
  "byte_ops 0 v = []"
| "byte_ops (Suc n) v = WByte v # byte_ops n (v div 256)"

definition integer_ops :: "int \<Rightarrow> int \<Rightarrow> wire_op list" where
  "integer_ops bits v = (let c = \<bar>bits\<bar>; low = c mod 8 in
     (if low \<noteq> 0 then [WBits v low] else []) @ byte_ops (nat (c - low) div 8) (v div 2 ^ nat low))"

definition float_ops :: "int \<Rightarrow> wire_op list" where
  "float_ops v = (let biased = i32 (float_to_i32 v 1 0 + 4096) in
     if small_integer v then [WBit False, WBits biased 5, WByte (biased div 32)]
     else [WBit True, WLong v])"

definition changed_ops :: "int \<Rightarrow> int \<Rightarrow> wire_op list" where
  "changed_ops bits v =
     (if (if bits = 0 then float_is_zero v else v = 0) then [WBit False]
      else WBit True #
        (if bits = 0 then float_ops v
         else if bits = -100 then [WShort (float_to_i32 v 11930465 16)] else integer_ops bits v))"

text \<open>
  What a value has become: a float is kept, but for the sign of a zero; an angle is cut to 16
  bits of a turn; an integer loses what is above its width, the sign included.
\<close>

definition received :: "int \<Rightarrow> int \<Rightarrow> int" where
  "received bits v =
     (if bits = 0 then (if float_is_zero v then 0 else v)
      else if bits = -100 then (if v = 0 then 0 else small_float (i16 (float_to_i32 v 11930465 16) * 45) 13)
      else i32 (v mod 2 ^ nat \<bar>bits\<bar>))"

lemma write_value_bytes_ops: "write_value_bytes n v = write_ops (byte_ops n v)"
  by (induction n arbitrary: v) (auto intro!: ext)

lemma write_integer_ops: "write_integer m bits v = write_ops (integer_ops bits v) m"
  by (auto simp: write_integer_def integer_ops_def Let_def write_value_bytes_ops)

lemma write_float_ops: "write_float m v = write_ops (float_ops v) m"
  by (simp add: write_float_def float_ops_def Let_def)

lemma write_changed_ops: "write_changed m bits v = write_ops (changed_ops bits v) m"
  by (auto simp: write_changed_def changed_ops_def write_float_ops write_integer_ops WriteAngle16_eq
      float_is_zero_def u32_def)

lemma byte_ops_ok: "list_all op_ok (byte_ops n v)"
  by (induction n arbitrary: v) simp_all

lemma integer_ops_ok: "list_all op_ok (integer_ops bits v)"
proof -
  have "\<bar>bits\<bar> mod 8 < 8" by simp
  then have "\<bar>bits\<bar> mod 8 \<le> 32" by linarith
  then show ?thesis by (simp add: integer_ops_def Let_def byte_ops_ok)
qed

lemma float_ops_ok: "list_all op_ok (float_ops v)"
  by (simp add: float_ops_def Let_def)

lemma changed_ops_ok: "list_all op_ok (changed_ops bits v)"
  by (simp add: changed_ops_def integer_ops_ok float_ops_ok)

lemma read_value_bytes_seen:
  "sees r (byte_ops n v) r' \<Longrightarrow> shift + 8 * n \<le> 32 \<Longrightarrow>
   read_value_bytes n shift w r = Some (w OR push_bit shift (word_of_int (take_bit (8 * n) v)), r')"
proof (induction n arbitrary: r v w shift)
  case 0
  then show ?case by simp
next
  case (Suc n)
  from Suc.prems obtain r1 where r1: "MSG_ReadByte r = Some (u8 v, r1)" "sees r1 (byte_ops n (v div 256)) r'"
    by auto
  have "(w OR push_bit shift (word_of_int (u8 v))) OR
      push_bit (shift + 8) (word_of_int (take_bit (8 * n) (v div 256))) =
    w OR push_bit shift (word_of_int (take_bit (8 * Suc n) v))" (is "?l = ?r")
  proof (rule bit_word_eqI)
    fix i assume "i < LENGTH(32)"
    have u8: "u8 v = take_bit 8 v" by (simp add: u8_def take_bit_eq_mod)
    have div: "v div 256 = drop_bit 8 v" by (simp add: drop_bit_eq_div)
    show "bit ?l i = bit ?r i"
      unfolding u8 div using \<open>i < LENGTH(32)\<close>
      by (cases "i < shift + 8") (auto simp: bit_simps not_less le_iff_add algebra_simps)
  qed
  moreover have "shift < 32" using Suc.prems(2) by simp
  ultimately show ?case using r1 Suc.IH [OF r1(2), of "shift + 8"] Suc.prems(2) by simp
qed

lemma read_integer_seen:
  assumes "sees r (integer_ops bits v) r'" "\<bar>bits\<bar> \<le> 32"
  shows "read_integer r bits = Some (i32 (v mod 2 ^ nat \<bar>bits\<bar>), r')"
proof -
  define low where "low = nat (\<bar>bits\<bar> mod 8)"
  define n where "n = nat (\<bar>bits\<bar> - \<bar>bits\<bar> mod 8) div 8"
  have low: "low < 8" "int low = \<bar>bits\<bar> mod 8" by (simp_all add: low_def nat_less_iff)
  have "\<bar>bits\<bar> = 8 * int n + int low"
    unfolding low n_def by (simp add: zdiv_int)
  then have tot: "nat \<bar>bits\<bar> = low + 8 * n" "low + 8 * n \<le> 32" using assms(2) by linarith+
  obtain r1 where r1: "(if low = 0 then Some (0, r) else MSG_ReadBits r (int low)) = Some (v mod 2 ^ low, r1)"
      "sees r1 (byte_ops n (v div 2 ^ low)) r'"
  proof (cases "low = 0")
    case True
    then show ?thesis
      using assms(1) low that by (auto simp: integer_ops_def Let_def n_def)
  next
    case False
    then have "sees r (WBits v (int low) # byte_ops n (v div 2 ^ low)) r'"
      using assms(1) low(2) by (simp add: integer_ops_def Let_def n_def low_def)
    then show ?thesis using False low(1) that by auto
  qed
  have "sint ((word_of_int (v mod 2 ^ low) :: 32 word) OR push_bit low (word_of_int (take_bit (8 * n) (v div 2 ^ low)))) =
      i32 (v mod 2 ^ nat \<bar>bits\<bar>)"
  proof -
    have "(word_of_int (v mod 2 ^ low) :: 32 word) OR push_bit low (word_of_int (take_bit (8 * n) (v div 2 ^ low))) =
        word_of_int (v mod 2 ^ (low + 8 * n))"
      unfolding take_bit_eq_mod [symmetric] drop_bit_eq_div [symmetric]
    proof (rule bit_word_eqI)
      fix i assume "i < LENGTH(32)"
      then show "bit ((word_of_int (take_bit low v) :: 32 word) OR push_bit low (word_of_int (take_bit (8 * n) (drop_bit low v)))) i =
          bit (word_of_int (take_bit (low + 8 * n) v) :: 32 word) i"
        by (cases "i < low") (auto simp: bit_simps not_less)
    qed
    then show ?thesis using tot(1) by (simp add: sint_word_of_int_32)
  qed
  moreover have "read_integer r bits = do {
     (l, m1) \<leftarrow> (if low = 0 then Some (0, r) else MSG_ReadBits r (int low));
     (w, m2) \<leftarrow> read_value_bytes n low (word_of_int l) m1;
     Some (sint w, m2) }"
    unfolding n_def using low by (auto simp: read_integer_def Let_def low_def)
  ultimately show ?thesis
    using r1(1) read_value_bytes_seen [OF r1(2) tot(2)] by simp
qed

lemma float_zero_cases: "float_is_zero v \<Longrightarrow> u32 v = 0 \<or> u32 v = 2147483648"
proof -
  assume "float_is_zero v"
  then have "u32 v = 2147483648 * (u32 v div 2147483648)"
    using mult_div_mod_eq [of 2147483648 "u32 v"] by (simp add: float_is_zero_def)
  moreover have "u32 v div 2147483648 = 0 \<or> u32 v div 2147483648 = 1"
    using pos_mod_bound [of 4294967296 v] by (simp add: u32_def) linarith
  ultimately show ?thesis by auto
qed

lemma float_zero_no_integer: "float_is_zero v \<Longrightarrow> float_to_i32 v 1 0 = 0"
  using float_zero_cases [of v]
  by (auto simp: float_to_i32_def scaled_magnitude_def float_exponent_def float_fraction_def i32_def)

lemma float_zero_small: "float_is_zero v \<Longrightarrow> small_integer v"
proof -
  assume z: "float_is_zero v"
  have "\<not> float_is_nan v" "\<not> float_is_nan 0" "float_is_zero 0"
    using float_zero_cases [OF z]
    by (auto simp: float_is_nan_def float_exponent_def float_is_zero_def u32_def [of 0])
  then show ?thesis
    using z float_zero_no_integer [OF z]
    by (simp add: small_integer_def small_float_def float_eq_def i32_id)
qed

lemma small_float_range: "i32 (small_float i s) = small_float i s"
  by (simp add: small_float_def Let_def i32_id)

lemma read_float_seen:
  assumes "sees r (float_ops v) r'" "int32_range v"
  shows "read_float r = Some (if float_is_zero v then 0 else v, r')"
proof (cases "small_integer v")
  case True
  define k where "k = float_to_i32 v 1 0"
  define b where "b = i32 (k + 4096)"
  have k: "- 2147483648 \<le> k" "k < 2147483648"
    using i32_range by (auto simp: k_def float_to_i32_def)
  have b: "0 \<le> b" "b < 8192" "float_eq (small_float k 0) v"
    using True by (auto simp: small_integer_def Let_def b_def k_def)
  have kb: "k = b - 4096"
  proof (cases "k + 4096 < 2147483648")
    case True
    then show ?thesis using k by (simp add: b_def i32_id)
  next
    case False
    have "b = i32 (k + 4096 - 4294967296)" unfolding b_def
      using mod_add_self2 [of "k - 4294963200" 4294967296] by (intro i32_cong) (simp add: add.commute)
    also have "\<dots> = k + 4096 - 4294967296" using False k by (intro i32_id) auto
    finally show ?thesis using b(1) k by simp
  qed
  obtain r1 r2 where r: "MSG_ReadBit r = Some (0, r1)" "MSG_ReadBits r1 5 = Some (b mod 32, r2)"
      "MSG_ReadByte r2 = Some (b div 32, r')"
    using assms(1) True b by (auto simp: float_ops_def Let_def b_def k_def u8_def)
  have sum: "b mod 32 + (b div 32 - 128) * 32 = k"
    using kb mult_div_mod_eq [of 32 b] by simp
  have "small_float k 0 = (if float_is_zero v then 0 else v)"
  proof (cases "float_is_zero v")
    case True
    then show ?thesis using float_zero_no_integer [OF True] by (simp add: k_def small_float_def)
  next
    case False
    then have "u32 (small_float k 0) = u32 v" using b(3) by (auto simp: float_eq_def)
    then have "i32 (small_float k 0) = i32 v" by (metis i32_u32)
    moreover have "i32 (small_float k 0) = small_float k 0" by (rule small_float_range)
    ultimately show ?thesis using False assms(2) by (simp add: int32_range_def i32_id)
  qed
  with r sum show ?thesis by (simp add: read_float_def)
next
  case False
  then show ?thesis
    using assms float_zero_small [of v]
    by (auto simp: float_ops_def Let_def read_float_def int32_range_def i32_id)
qed

lemma read_changed_seen:
  assumes "sees r (changed_ops bits v) r'" "int32_range v" "\<bar>bits\<bar> \<le> 32 \<or> bits = -100"
  shows "read_changed r bits = Some (received bits v, r')"
  using assms read_integer_seen [of _ bits v r'] read_float_seen [of _ v r']
  by (auto simp: changed_ops_def read_changed_def received_def MSG_ReadAngle16_def i32_def split: if_splits)

section \<open>The members of a record\<close>

definition place :: "netField_t \<Rightarrow> nat" where
  "place f = nat (nf_offset f div 4)"

definition table_ok :: "nat \<Rightarrow> netField_t list \<Rightarrow> bool" where
  "table_ok n fs \<longleftrightarrow> list_all (\<lambda>f. 0 \<le> nf_offset f \<and> nf_offset f div 4 < int n \<and>
     (\<bar>nf_bits f\<bar> \<le> 32 \<or> nf_bits f = -100)) fs"

definition field_ops :: "int \<Rightarrow> int \<Rightarrow> int \<Rightarrow> wire_op list" where
  "field_ops bits old new = (if old = new then [WBit False] else WBit True # changed_ops bits new)"

definition delivered :: "int \<Rightarrow> int \<Rightarrow> int \<Rightarrow> int" where
  "delivered bits old new = (if old = new then old else received bits new)"

fun fields_ops :: "block \<Rightarrow> block \<Rightarrow> netField_t list \<Rightarrow> wire_op list" where
  "fields_ops a b [] = []"
| "fields_ops a b (f # fs) = field_ops (nf_bits f) (a ! place f) (b ! place f) @ fields_ops a b fs"

text \<open>The receiver's record \<open>c\<close> after the fields were read, and after they were kept.\<close>

fun deliver :: "block \<Rightarrow> block \<Rightarrow> netField_t list \<Rightarrow> block \<Rightarrow> block" where
  "deliver a b [] c = c"
| "deliver a b (f # fs) c =
     deliver a b fs (c[place f := delivered (nf_bits f) (a ! place f) (b ! place f)])"

definition unchanged :: "block \<Rightarrow> block \<Rightarrow> netField_t list \<Rightarrow> bool" where
  "unchanged a b fs \<longleftrightarrow> (\<forall>f\<in>set fs. a ! place f = b ! place f)"

lemma table_ok_simps [simp]:
  "table_ok n []"
  "table_ok n (f # fs) \<longleftrightarrow> 0 \<le> nf_offset f \<and> nf_offset f div 4 < int n \<and>
     (\<bar>nf_bits f\<bar> \<le> 32 \<or> nf_bits f = -100) \<and> table_ok n fs"
  "table_ok n (fs @ gs) \<longleftrightarrow> table_ok n fs \<and> table_ok n gs"
  by (simp_all add: table_ok_def)

lemma table_ok_take [simp]: "table_ok n fs \<Longrightarrow> table_ok n (take k fs)"
  by (metis append_take_drop_id table_ok_simps(3))

lemma table_ok_drop [simp]: "table_ok n fs \<Longrightarrow> table_ok n (drop k fs)"
  by (metis append_take_drop_id table_ok_simps(3))

lemma table_ok_place: "table_ok n fs \<Longrightarrow> f \<in> set fs \<Longrightarrow> place f < n"
  by (induction fs) (auto simp: place_def)

lemma member_Some: "0 \<le> nf_offset f \<Longrightarrow> nf_offset f div 4 < int (length b) \<Longrightarrow> member b f = Some (b ! place f)"
  by (simp add: member_def place_def mem_simps pos_imp_zdiv_nonneg_iff)

lemma set_member_Some:
  "0 \<le> nf_offset f \<Longrightarrow> nf_offset f div 4 < int (length b) \<Longrightarrow> set_member b f v = Some (b[place f := v])"
  by (simp add: set_member_def place_def mem_simps pos_imp_zdiv_nonneg_iff)

lemmas member_simps = member_Some set_member_Some

lemma field_ops_ok: "list_all op_ok (field_ops bits old new)"
  by (simp add: field_ops_def changed_ops_ok)

lemma fields_ops_ok: "list_all op_ok (fields_ops a b fs)"
  by (induction fs) (simp_all add: field_ops_ok)

lemma write_field_ops:
  assumes "table_ok (length a) [f]" "length b = length a"
  shows "MSG_WriteDeltaField m a b f = write_ops (field_ops (nf_bits f) (a ! place f) (b ! place f)) m"
  using assms by (auto simp: MSG_WriteDeltaField_def field_ops_def member_simps write_changed_ops)

lemma write_fields_ops:
  "table_ok (length a) fs \<Longrightarrow> length b = length a \<Longrightarrow> write_fields m a b fs = write_ops (fields_ops a b fs) m"
  by (induction fs arbitrary: m) (simp_all add: write_field_ops)

lemma read_field_seen:
  assumes "sees r (field_ops (nf_bits f) (a ! place f) (b ! place f)) r'" "table_ok (length a) [f]"
    "length c = length a" "int32_range (b ! place f)"
  shows "MSG_ReadDeltaField r a c f =
    Some (c[place f := delivered (nf_bits f) (a ! place f) (b ! place f)], r')"
  using assms read_changed_seen [of _ "nf_bits f" "b ! place f" r']
  by (auto simp: MSG_ReadDeltaField_def field_ops_def delivered_def member_simps split: if_splits)

lemma read_fields_seen:
  "sees r (fields_ops a b fs) r' \<Longrightarrow> table_ok (length a) fs \<Longrightarrow> length b = length a \<Longrightarrow> length c = length a \<Longrightarrow>
   list_all int32_range b \<Longrightarrow> read_fields r a c fs = Some (deliver a b fs c, r')"
proof (induction fs arbitrary: r c)
  case Nil
  then show ?case by simp
next
  case (Cons f fs)
  have "place f < length b" using table_ok_place [OF Cons.prems(2), of f] Cons.prems(3) by simp
  then have "int32_range (b ! place f)" using Cons.prems(5) by (simp add: list_all_length)
  with Cons show ?case
    by (auto simp: read_field_seen)
qed

lemma length_deliver [simp]: "length (deliver a b fs c) = length c"
  by (induction fs arbitrary: c) simp_all

lemma deliver_append: "deliver a b (fs @ gs) c = deliver a b gs (deliver a b fs c)"
  by (induction fs arbitrary: c) simp_all

lemma deliver_take_drop: "deliver a b (drop k fs) (deliver a b (take k fs) c) = deliver a b fs c"
  by (metis append_take_drop_id deliver_append)

lemma keep_fields_deliver:
  "unchanged a b fs \<Longrightarrow> table_ok (length a) fs \<Longrightarrow> length c = length a \<Longrightarrow>
   keep_fields a c fs = Some (deliver a b fs c)"
  by (induction fs arbitrary: c) (auto simp: unchanged_def member_simps delivered_def)

lemma deliver_other: "i \<notin> place ` set fs \<Longrightarrow> deliver a b fs c ! i = c ! i"
  by (induction fs arbitrary: c) auto

lemma deliver_member:
  "distinct (map place fs) \<Longrightarrow> f \<in> set fs \<Longrightarrow> table_ok (length c) fs \<Longrightarrow>
   deliver a b fs c ! place f = delivered (nf_bits f) (a ! place f) (b ! place f)"
proof (induction fs arbitrary: c)
  case Nil
  then show ?case by simp
next
  case (Cons g gs)
  show ?case
  proof (cases "f \<in> set gs")
    case True
    then show ?thesis using Cons by simp
  next
    case False
    then have "f = g" using Cons.prems(2) by simp
    then show ?thesis
      using Cons.prems table_ok_place [OF Cons.prems(3), of f] by (simp add: deliver_other)
  qed
qed

text \<open>The fields a record's members survive: they are unchanged, or fit their descriptor.\<close>

definition carried :: "block \<Rightarrow> block \<Rightarrow> netField_t list \<Rightarrow> bool" where
  "carried a b fs \<longleftrightarrow> list_all (\<lambda>f. delivered (nf_bits f) (a ! place f) (b ! place f) = b ! place f) fs"

lemma last_changed_spec:
  "table_ok (length a) fs \<Longrightarrow> length b = length a \<Longrightarrow>
   \<exists>k. last_changed i a b fs n = Some k \<and>
     (k = n \<and> unchanged a b fs \<or>
      i < k \<and> k \<le> i + length fs \<and> unchanged a b (drop (k - i) fs) \<and> \<not> unchanged a b fs)"
proof (induction fs arbitrary: i n)
  case Nil
  then show ?case by (simp add: unchanged_def)
next
  case (Cons f fs)
  define n' where "n' = (if a ! place f \<noteq> b ! place f then Suc i else n)"
  obtain k where k: "last_changed (Suc i) a b fs n' = Some k"
    "k = n' \<and> unchanged a b fs \<or>
     Suc i < k \<and> k \<le> Suc i + length fs \<and> unchanged a b (drop (k - Suc i) fs) \<and> \<not> unchanged a b fs"
    using Cons.IH [of "Suc i" n'] Cons.prems by auto
  have eq: "last_changed i a b (f # fs) n = Some k"
    using k(1) Cons.prems by (simp add: member_simps n'_def)
  have cons: "unchanged a b (f # fs) \<longleftrightarrow> a ! place f = b ! place f \<and> unchanged a b fs"
    by (simp add: unchanged_def)
  from k(2) show ?case
  proof
    assume "k = n' \<and> unchanged a b fs"
    then show ?thesis using eq cons by (auto simp: n'_def)
  next
    assume far: "Suc i < k \<and> k \<le> Suc i + length fs \<and> unchanged a b (drop (k - Suc i) fs) \<and> \<not> unchanged a b fs"
    then have "drop (k - i) (f # fs) = drop (k - Suc i) fs" by (simp add: drop_Cons' Suc_diff_le)
    with far eq cons show ?thesis by auto
  qed
qed

section \<open>Whole records\<close>

definition changed_count :: "block \<Rightarrow> block \<Rightarrow> netField_t list \<Rightarrow> nat" where
  "changed_count a b fs = the (last_changed 0 a b fs 0)"

definition record_ops :: "block \<Rightarrow> block \<Rightarrow> netField_t list \<Rightarrow> wire_op list" where
  "record_ops a b fs =
     (if unchanged a b fs then [WBit False]
      else WBit True # WByte (int (changed_count a b fs)) # fields_ops a b (take (changed_count a b fs) fs))"

lemma changed_count_spec:
  assumes "table_ok (length a) fs" "length b = length a"
  shows "last_changed 0 a b fs 0 = Some (changed_count a b fs)" "changed_count a b fs \<le> length fs"
    "unchanged a b (drop (changed_count a b fs) fs)" "changed_count a b fs = 0 \<longleftrightarrow> unchanged a b fs"
  using last_changed_spec [OF assms, of 0 0] by (auto simp: changed_count_def)

lemma record_ops_ok [simp]: "list_all op_ok (record_ops a b fs)"
  by (simp add: record_ops_def fields_ops_ok)

lemma write_struct_ops:
  assumes "table_ok (length a) fs" "length b = length a" "0 < length a" "force \<or> \<not> unchanged a b fs"
    and "\<And>m. (case extra of None \<Rightarrow> Some m | Some w \<Rightarrow> w m (Some b)) = write_ops xs m"
  shows "MSG_WriteDeltaStruct m a (Some b) force nb fs extra fb =
    write_ops ((if fb then [WBit True] else []) @ WBits (b ! 0) nb # xs @ WBit False # record_ops a b fs) m"
proof -
  have "peek b 0 = Some (b ! 0)" using assms(2,3) by (simp add: peek_eq_Some flip: length_greater_0_conv)
  then show ?thesis
    using assms changed_count_spec [OF assms(1,2)]
    by (auto simp: MSG_WriteDeltaStruct_def write_number_def record_ops_def write_fields_ops Let_def
        Option.bind_assoc)
qed

definition struct_result :: "block \<Rightarrow> block \<Rightarrow> netField_t list \<Rightarrow> block \<Rightarrow> int \<Rightarrow> block" where
  "struct_result a b fs c number = (if unchanged a b fs then a else deliver a b fs (c[0 := number]))"

lemma read_struct_seen:
  assumes seen: "sees r (WBit False # record_ops a b fs) r'"
    and tab: "table_ok (length a) fs" "length a = length fs + 1" "length fs < 256"
    and len: "length b = length a" "length c = length a" and rng: "list_all int32_range b"
  shows "MSG_ReadDeltaStruct r a c number fs = Done (False, struct_result a b fs c number, r')"
proof -
  note cc = changed_count_spec [OF tab(1) len(1)]
  obtain r1 where r1: "MSG_ReadBit r = Some (0, r1)" "sees r1 (record_ops a b fs) r'"
    using seen by auto
  show ?thesis
  proof (cases "unchanged a b fs")
    case True
    then have "MSG_ReadBit r1 = Some (0, r')" using r1(2) by (simp add: record_ops_def)
    moreover have "copy_out a 0 (int (length fs) + 1) = Some a" "copy_in c 0 a = Some a"
      using tab(2) len(2) by (simp_all add: mem_simps nat_add_distrib)
    ultimately show ?thesis
      using r1(1) True by (simp add: MSG_ReadDeltaStruct_def struct_result_def)
  next
    case False
    define k where "k = changed_count a b fs"
    obtain r2 r3 where r: "MSG_ReadBit r1 = Some (1, r2)" "MSG_ReadByte r2 = Some (int k, r3)"
        "sees r3 (fields_ops a b (take k fs)) r'"
      using r1(2) False cc(2) tab(3) by (auto simp: record_ops_def k_def u8_id)
    have "poke c 0 number = Some (c[0 := number])" using len(2) tab(2) by (simp add: poke_eq_Some)
    moreover have "read_fields r3 a (c[0 := number]) (take k fs) =
        Some (deliver a b (take k fs) (c[0 := number]), r')"
      using read_fields_seen [OF r(3) _ len(1) _ rng, of "c[0 := number]"] tab(1) len(2) by simp
    moreover have "keep_fields a (deliver a b (take k fs) (c[0 := number])) (drop k fs) =
        Some (deliver a b fs (c[0 := number]))"
      using keep_fields_deliver [OF cc(3)] tab(1) len(2) by (simp add: deliver_take_drop k_def)
    ultimately show ?thesis
      using r1(1) r(1,2) False by (simp add: MSG_ReadDeltaStruct_def struct_result_def)
  qed
qed

text \<open>A table that describes every dword of its record but the number, each once.\<close>

definition table_complete :: "netField_t list \<Rightarrow> bool" where
  "table_complete fs \<longleftrightarrow> table_ok (length fs + 1) fs \<and> length fs < 256 \<and>
     sort (map place fs) = [1..<length fs + 1]"

lemma tables_complete:
  "table_complete msg_defaultEntityNetFields" "table_complete msg_vehicleEntityNetFields"
  "table_complete msg_archivedEntityNetFields" "table_complete msg_clientNetFields"
  by code_simp+

lemma table_complete_places:
  assumes "table_complete fs"
  shows "place ` set fs = {1..<length fs + 1}" "distinct (map place fs)"
proof -
  have "sort (map place fs) = [1..<length fs + 1]" using assms by (simp add: table_complete_def)
  then have "set (map place fs) = set [1..<length fs + 1]" "distinct (map place fs)"
    by (metis set_sort, metis distinct_sort distinct_upt)
  then show "place ` set fs = {1..<length fs + 1}" "distinct (map place fs)" by auto
qed

lemma struct_result_members:
  assumes "table_complete fs" "length a = length fs + 1" "length b = length a" "length c = length a"
  shows "\<forall>f\<in>set fs. struct_result a b fs c number ! place f =
      delivered (nf_bits f) (a ! place f) (b ! place f)"
    and "struct_result a b fs c number ! 0 = (if unchanged a b fs then a ! 0 else number)"
    and "length (struct_result a b fs c number) = length b"
    and "carried a b fs \<Longrightarrow> struct_result a b fs c number ! 0 = b ! 0 \<Longrightarrow>
      struct_result a b fs c number = b"
proof -
  have tab: "table_ok (length c) fs" using assms by (simp add: table_complete_def)
  note pl = table_complete_places [OF assms(1)]
  have zero: "0 \<notin> place ` set fs" unfolding pl(1) by simp
  show mem: "\<forall>f\<in>set fs. struct_result a b fs c number ! place f =
      delivered (nf_bits f) (a ! place f) (b ! place f)"
    using deliver_member [OF pl(2) _ , of _ "c[0 := number]" a b] tab
    by (auto simp: struct_result_def unchanged_def delivered_def)
  show "struct_result a b fs c number ! 0 = (if unchanged a b fs then a ! 0 else number)"
    using deliver_other [OF zero] assms(2,4) by (simp add: struct_result_def)
  show len: "length (struct_result a b fs c number) = length b"
    using assms(3,4) by (simp add: struct_result_def)
  show "struct_result a b fs c number = b" if "carried a b fs" "struct_result a b fs c number ! 0 = b ! 0"
  proof (rule nth_equalityI)
    fix i assume "i < length (struct_result a b fs c number)"
    then have i: "i < length fs + 1" using len assms(2,3) by simp
    show "struct_result a b fs c number ! i = b ! i"
    proof (cases "i = 0")
      case False
      then have "i \<in> place ` set fs" unfolding pl(1) using i by simp
      then show ?thesis using mem that(1) by (auto simp: carried_def list_all_iff)
    qed (use that(2) in simp)
  qed (rule len)
qed

text \<open>A record that is gone is its number and a set bit.\<close>

lemma write_removed_ops:
  assumes "0 < length a" "\<And>m. (case extra of None \<Rightarrow> Some m | Some w \<Rightarrow> w m None) = write_ops xs m"
  shows "MSG_WriteDeltaStruct m a None force nb fs extra fb =
    write_ops ((if fb then [WBit True] else []) @ WBits (a ! 0) nb # xs @ [WBit True]) m"
proof -
  have "peek a 0 = Some (a ! 0)" using assms(1) by (simp add: peek_eq_Some)
  then show ?thesis
    using assms(2) by (auto simp: MSG_WriteDeltaStruct_def write_number_def Let_def Option.bind_assoc)
qed

lemma read_removed_seen:
  "sees r [WBit True] r' \<Longrightarrow> MSG_ReadDeltaStruct r a c number fs = Done (True, c, r')"
  by (simp add: MSG_ReadDeltaStruct_def)

definition entity_table :: "block \<Rightarrow> netField_t list" where
  "entity_table b = (if b ! 1 = ET_VEHICLE then msg_vehicleEntityNetFields else msg_defaultEntityNetFields)"

lemma length_tables [simp]:
  "length msg_defaultEntityNetFields = 60" "length msg_vehicleEntityNetFields = 60"
  "length msg_archivedEntityNetFields = 68" "length msg_clientNetFields = 22" "length (entity_table b) = 60"
  by (simp_all add: msg_defaultEntityNetFields_def msg_vehicleEntityNetFields_def
      msg_archivedEntityNetFields_def msg_clientNetFields_def entity_table_def)

lemma entity_table_complete: "table_complete (entity_table b)"
  by (simp add: entity_table_def tables_complete)

definition entity_ops :: "block \<Rightarrow> block \<Rightarrow> wire_op list" where
  "entity_ops a b = WBits (b ! 0) 10 # [WBit (b ! 1 = ET_VEHICLE)] @ WBit False # record_ops a b (entity_table b)"

lemma table_complete_ok: "table_complete fs \<Longrightarrow> length a = length fs + 1 \<Longrightarrow> table_ok (length a) fs"
  by (simp add: table_complete_def)

lemma write_entity_ops:
  assumes "length a = 61" "length b = 61" "force \<or> \<not> unchanged a b (entity_table b)"
  shows "MSG_WriteDeltaEntity m a (Some b) force = write_ops (entity_ops a b) m"
proof -
  have v: "is_vehicle (Some b) = Some (b ! 1 = ET_VEHICLE)"
    using assms(2) by (simp add: is_vehicle_def mem_simps)
  have "MSG_WriteDeltaStruct m a (Some b) force 10 (entity_table b) (Some MSG_WriteDeltaEntity_ChangedCallback) False =
      write_ops (entity_ops a b) m"
    using write_struct_ops [of a "entity_table b" b force "Some MSG_WriteDeltaEntity_ChangedCallback"
        "[WBit (b ! 1 = ET_VEHICLE)]" m 10 False] assms table_complete_ok [OF entity_table_complete, of a b] v
    by (simp add: entity_ops_def MSG_WriteDeltaEntity_ChangedCallback_def)
  then show ?thesis by (simp add: MSG_WriteDeltaEntity_def v entity_table_def)
qed

lemma read_entity_seen:
  assumes "sees r (WBit (b ! 1 = ET_VEHICLE) # WBit False # record_ops a b (entity_table b)) r'"
    "length a = 61" "length b = 61" "length c = 61" "list_all int32_range b"
  shows "MSG_ReadDeltaEntity r a c number = Done (False, struct_result a b (entity_table b) c number, r')"
proof -
  obtain r1 where r1: "MSG_ReadBit r = Some (of_bool (b ! 1 = ET_VEHICLE), r1)"
      "sees r1 (WBit False # record_ops a b (entity_table b)) r'"
    using assms(1) by auto
  have "MSG_ReadDeltaStruct r1 a c number (entity_table b) =
      Done (False, struct_result a b (entity_table b) c number, r')"
    using read_struct_seen [OF r1(2), of c number] table_complete_ok [OF entity_table_complete, of a b] assms by simp
  then show ?thesis
    using r1(1) by (simp add: MSG_ReadDeltaEntity_def entity_table_def)
qed

lemma number_seen:
  assumes "sees r (WBits n bits # xs) r'" "0 \<le> n" "n < 2 ^ nat bits" "0 \<le> bits" "bits < 32"
  shows "\<exists>r1. MSG_ReadBits r bits = Some (n, r1) \<and> sees r1 xs r'"
  using assms by auto

text \<open>
  C33: an entity state written as the difference from another, and read back with that other one,
  arrives with the number written, every member it describes as \<open>delivered\<close> says, and the reader
  at the end of what was written; when every changed member fits its descriptor, it is the entity
  state that was sent. The number comes from the base when no member changed, so only then the
  two numbers have to agree.
\<close>

theorem delta_entity_roundtrip:
  assumes "0 \<le> maxsize" "maxsize \<le> int (length data)" "maxsize < 268435456"
    and "length a = 61" "length b = 61" "length c = 61" "list_all int32_range b" "0 \<le> b ! 0" "b ! 0 < 1024"
    and "force \<or> \<not> unchanged a b (entity_table b)"
    and "MSG_WriteDeltaEntity (MSG_Init data maxsize) a (Some b) force = Some m" "\<not> m_overflowed m"
  shows "\<exists>r1 r2 d. MSG_ReadBits (MSG_BeginReading m) 10 = Some (b ! 0, r1) \<and>
     MSG_ReadDeltaEntity r1 a c (b ! 0) = Done (False, d, r2) \<and> m_readcount r2 = m_cursize m \<and>
     (\<forall>f\<in>set (entity_table b). d ! place f = delivered (nf_bits f) (a ! place f) (b ! place f)) \<and>
     d ! 0 = (if unchanged a b (entity_table b) then a ! 0 else b ! 0) \<and>
     (carried a b (entity_table b) \<and> (unchanged a b (entity_table b) \<longrightarrow> a ! 0 = b ! 0) \<longrightarrow> d = b)"
proof -
  have "list_all op_ok (entity_ops a b)" by (simp add: entity_ops_def)
  from fresh_seen [OF assms(1-3) this] obtain r where
    r: "sees (MSG_BeginReading m) (entity_ops a b) r" "m_readcount r = m_cursize m"
    using assms(11,12) write_entity_ops [OF assms(4,5,10)] by auto
  obtain r1 where r1: "MSG_ReadBits (MSG_BeginReading m) 10 = Some (b ! 0, r1)"
    "sees r1 (WBit (b ! 1 = ET_VEHICLE) # WBit False # record_ops a b (entity_table b)) r"
    using number_seen [OF r(1) [unfolded entity_ops_def], of] assms(8,9) by auto
  note res = struct_result_members [OF entity_table_complete, of a b b c "b ! 0"]
  show ?thesis
    using r1(1) read_entity_seen [OF r1(2) assms(4-7)] r(2) res assms(4-6)
    by (intro exI [of _ r1] exI [of _ r] exI [of _ "struct_result a b (entity_table b) c (b ! 0)"]) auto
qed

definition sample_entity :: "int \<Rightarrow> block" where
  "sample_entity x = [7, 0, x] @ replicate 58 0"

lemma delta_entity_roundtrip_witness:
  "\<exists>m r1 r2. MSG_WriteDeltaEntity (MSG_Init (replicate 64 0) 64) (sample_entity 0) (Some (sample_entity 5)) False = Some m \<and>
     MSG_ReadBits (MSG_BeginReading m) 10 = Some (7, r1) \<and>
     MSG_ReadDeltaEntity r1 (sample_entity 0) (replicate 61 0) 7 = Done (False, sample_entity 5, r2)"
proof -
  have "map_option m_overflowed (MSG_WriteDeltaEntity (MSG_Init (replicate 64 0) 64)
      (sample_entity 0) (Some (sample_entity 5)) False) = Some False"
    by code_simp
  then obtain m where m: "MSG_WriteDeltaEntity (MSG_Init (replicate 64 0) 64) (sample_entity 0)
      (Some (sample_entity 5)) False = Some m" "\<not> m_overflowed m" by auto
  have "\<not> unchanged (sample_entity 0) (sample_entity 5) (entity_table (sample_entity 5))"
    "carried (sample_entity 0) (sample_entity 5) (entity_table (sample_entity 5))"
    "list_all int32_range (sample_entity 5)" by code_simp+
  then show ?thesis
    using delta_entity_roundtrip [of 64 "replicate 64 0" "sample_entity 0" "sample_entity 5" "replicate 61 0" False m] m
    by (auto simp: sample_entity_def)
qed

section \<open>User commands\<close>

definition command_ok :: "usercmd_t \<Rightarrow> bool" where
  "command_ok c \<longleftrightarrow> int32_range (uc_commandTime c) \<and> 0 \<le> uc_buttons c \<and> uc_buttons c < 128 \<and>
     0 \<le> uc_wbuttons c \<and> uc_wbuttons c < 256 \<and> 0 \<le> uc_weapon c \<and> uc_weapon c < 128 \<and>
     length (uc_angles c) = 3"

text \<open>What of a command survives: angles of 16 bits, moves as full speed, none or full reverse.\<close>

definition wire_command :: "usercmd_t \<Rightarrow> usercmd_t" where
  "wire_command c = c\<lparr>uc_angles := map (\<lambda>a. a mod 65536) (uc_angles c),
     uc_forwardmove := fst (MSG_HorMoveTo (horizontal_move c)),
     uc_rightmove := snd (MSG_HorMoveTo (horizontal_move c)),
     uc_upmove := MSG_VertMoveTo (MSG_VertMoveFrom (uc_upmove c))\<rparr>"

definition key_ops :: "int \<Rightarrow> int \<Rightarrow> int \<Rightarrow> int \<Rightarrow> wire_op list" where
  "key_ops key old new n = (if old = new then [WBit False] else [WBit True, WBits (xor key new) n])"

definition key_byte_ops :: "int \<Rightarrow> int \<Rightarrow> int \<Rightarrow> wire_op list" where
  "key_byte_ops key old new = (if i8 old = i8 new then [WBit False] else [WBit True, WByte (xor key new)])"

definition key_short_ops :: "int \<Rightarrow> int \<Rightarrow> int \<Rightarrow> wire_op list" where
  "key_short_ops key old new = (if i16 old = i16 new then [WBit False] else [WBit True, WShort (xor key new)])"

definition aim_ops :: "int \<Rightarrow> usercmd_t \<Rightarrow> usercmd_t \<Rightarrow> wire_op list" where
  "aim_ops key a b = WBits (xor key (uc_buttons b AND 1)) 1 #
     key_short_ops key (uc_angles a ! 0) (uc_angles b ! 0) @ key_short_ops key (uc_angles a ! 1) (uc_angles b ! 1) @
     key_ops key (horizontal_move a) (horizontal_move b) 4"

definition rest_ops :: "int \<Rightarrow> usercmd_t \<Rightarrow> usercmd_t \<Rightarrow> wire_op list" where
  "rest_ops key a b = key_short_ops key (uc_angles a ! 2) (uc_angles b ! 2) @
     key_ops key (uc_buttons a div 2) (uc_buttons b div 2) 6 @ key_byte_ops key (uc_wbuttons a) (uc_wbuttons b) @
     key_ops key (MSG_VertMoveFrom (uc_upmove a)) (MSG_VertMoveFrom (uc_upmove b)) 2 @
     key_ops key (uc_weapon a) (uc_weapon b) 7"

definition usercmd_ops :: "int \<Rightarrow> usercmd_t \<Rightarrow> usercmd_t \<Rightarrow> wire_op list" where
  "usercmd_ops key a b = (let delta = u32 (uc_commandTime b - uc_commandTime a);
       key2 = xor key (u32 (uc_commandTime b)) in
     (if delta < 256 then [WBit True, WByte delta] else [WBit False, WLong (uc_commandTime b)]) @
     (if command_common a b \<and> command_same a b then [WBits (xor key 0) 1]
      else WBits (xor key 1) 1 #
        (if command_common a b then WBits (xor key 0) 1 # aim_ops key2 a b
         else WBits (xor key 1) 1 # aim_ops key a b @ rest_ops key2 a b)))"

lemma i16_i16 [simp]: "i16 (i16 x) = i16 x"
  by (rule i16_id) (rule i16_range)+

lemma i8_i8 [simp]: "i8 (i8 x) = i8 x"
  by (simp add: i8_def)

lemma write_key_ops:
  "MSG_WriteDeltaKey m key old new n = write_ops (key_ops key old new n) m"
  "MSG_WriteDeltaKeyByte m key (i8 old) new = write_ops (key_byte_ops key old new) m"
  "MSG_WriteDeltaKeyShort m key (i16 old) new = write_ops (key_short_ops key old new) m"
  "MSG_WriteKey m key v n = write_ops [WBits (xor key v) n] m"
  by (simp_all add: MSG_WriteDeltaKey_def MSG_WriteDeltaKeyByte_def MSG_WriteDeltaKeyShort_def MSG_WriteKey_def
      key_ops_def key_byte_ops_def key_short_ops_def)

lemma write_aim_ops:
  "length (uc_angles a) = 3 \<Longrightarrow> length (uc_angles b) = 3 \<Longrightarrow> write_aim m key a b = write_ops (aim_ops key a b) m"
  by (simp add: write_aim_def aim_ops_def write_key_ops mem_simps Option.bind_assoc)

lemma usercmd_ops_ok: "list_all op_ok (usercmd_ops key a b)"
  by (simp add: usercmd_ops_def Let_def aim_ops_def rest_ops_def key_ops_def key_short_ops_def key_byte_ops_def)

lemma write_usercmd_ops:
  assumes "command_ok a" "command_ok b"
  shows "MSG_WriteDeltaUsercmdKey m key a b = write_ops (usercmd_ops key a b) m"
proof -
  have len: "length (uc_angles a) = 3" "length (uc_angles b) = 3" using assms by (simp_all add: command_ok_def)
  have time: "write_command_time m a b = write_ops
     (if u32 (uc_commandTime b - uc_commandTime a) < 256
      then [WBit True, WByte (u32 (uc_commandTime b - uc_commandTime a))]
      else [WBit False, WLong (uc_commandTime b)]) m"
    by (simp add: write_command_time_def Let_def)
  show ?thesis
    by (simp add: MSG_WriteDeltaUsercmdKey_def time usercmd_ops_def Let_def write_aim_ops [OF len]
        rest_ops_def write_key_ops len mem_simps Option.bind_assoc)
qed

lemma keyed_bits_seen:
  assumes "MSG_ReadBits r n = Some (xor key v mod 2 ^ nat n, r')" "0 \<le> n" "n < 32"
  shows "keyed_bits key n r = Some (v mod 2 ^ nat n, r')"
proof -
  have n: "nat n < 32" using assms(2,3) by simp
  have m: "(2 ^ nat n - 1) AND key = take_bit (nat n) key"
    by (simp add: take_bit_eq_mask mask_eq_exp_minus_1 and.commute)
  have "take_bit (nat n) key < 2 ^ nat n" by simp
  also have "(2 :: int) ^ nat n \<le> 2 ^ 31" using n by (intro power_increasing) auto
  finally have "take_bit (nat n) key < 2147483648" by simp
  moreover have "0 \<le> take_bit (nat n) key" by simp
  ultimately have "i32 (take_bit (nat n) key) = take_bit (nat n) key" by (intro i32_id) linarith+
  moreover have "peek msg_bitmaskTable n = Some (2 ^ nat n - 1)"
    using assms(2) n by (simp add: msg_bitmaskTable_def peek_eq_Some)
  moreover have "xor (take_bit (nat n) (xor key v)) (take_bit (nat n) key) = take_bit (nat n) v"
    by (rule bit_eqI) (auto simp: bit_simps)
  ultimately show ?thesis
    using assms(1) m by (simp add: keyed_bits_def flip: take_bit_eq_mod)
qed

lemma read_key_seen:
  assumes "sees r (key_ops key old new n) r'" "0 \<le> n" "n < 32" "0 \<le> new" "new < 2 ^ nat n"
  shows "MSG_ReadDeltaKey r key old n = Some (new, r')"
  using assms keyed_bits_seen [of _ n key new r']
  by (auto simp: key_ops_def MSG_ReadDeltaKey_def split: if_splits)

lemma read_key_short_seen:
  assumes "sees r (key_short_ops key old new) r'"
  shows "\<exists>v. MSG_ReadDeltaKeyShort r (u16 key) old = Some (v, r') \<and> v mod 65536 = new mod 65536"
proof (cases "i16 old = i16 new")
  case True
  then have "old mod 65536 = new mod 65536"
    using mod_diff_left_eq [of "old + 32768" 65536 32768] mod_diff_left_eq [of "new + 32768" 65536 32768]
    by (simp add: i16_def)
  with True assms show ?thesis by (simp add: key_short_ops_def MSG_ReadDeltaKeyShort_def)
next
  case False
  have x: "i16 x mod 65536 = x mod 65536" for x
    by (simp add: i16_def mod_diff_left_eq)
  have "xor (u16 key) (u16 (i16 (xor key new))) = u16 new"
    unfolding u16_def x using take_bit_eq_mod [of 16, symmetric, where 'a = int, simplified]
    by (intro bit_eqI) (auto simp: bit_simps)
  with False assms x [of new] show ?thesis
    by (auto simp: key_short_ops_def MSG_ReadDeltaKeyShort_def u16_def x)
qed

lemma read_key_byte_seen:
  assumes "sees r (key_byte_ops key old new) r'" "0 \<le> old" "old < 256" "0 \<le> new" "new < 256"
  shows "\<exists>v. MSG_ReadDeltaKeyByte r (u8 key) old = Some (v, r') \<and> u8 v = new"
proof (cases "i8 old = i8 new")
  case True
  then have "old mod 256 = new mod 256"
    using mod_diff_left_eq [of "old + 128" 256 128] mod_diff_left_eq [of "new + 128" 256 128]
    by (simp add: i8_def)
  then have "old = new" using assms(2-5) by simp
  with True assms show ?thesis by (simp add: key_byte_ops_def MSG_ReadDeltaKeyByte_def u8_id)
next
  case False
  have "xor (u8 (xor key new)) (u8 key) = u8 new"
    unfolding u8_def using take_bit_eq_mod [of 8, symmetric, where 'a = int, simplified]
    by (intro bit_eqI) (auto simp: bit_simps)
  with False assms show ?thesis
    by (auto simp: key_byte_ops_def MSG_ReadDeltaKeyByte_def u8_id)
qed

lemma move_codes:
  "0 \<le> horizontal_move c" "horizontal_move c < 16" "0 \<le> MSG_VertMoveFrom x" "MSG_VertMoveFrom x < 4"
  "u32 (horizontal_move c) = horizontal_move c" "u32 (MSG_VertMoveFrom x) = MSG_VertMoveFrom x"
  by (simp_all add: horizontal_move_def MSG_HorMoveFrom_def MSG_VertMoveFrom_def u32_def)

lemma move_codes_back:
  "MSG_HorMoveFrom (fst (MSG_HorMoveTo (horizontal_move c))) (snd (MSG_HorMoveTo (horizontal_move c))) =
     horizontal_move c"
  "MSG_VertMoveFrom (MSG_VertMoveTo (MSG_VertMoveFrom x)) = MSG_VertMoveFrom x"
  by (simp_all add: horizontal_move_def MSG_HorMoveFrom_def MSG_HorMoveTo_def MSG_VertMoveFrom_def MSG_VertMoveTo_def)

text \<open>Clearing the fire button, putting it back, and reading it.\<close>

lemma fire_button:
  fixes v f :: int
  assumes "0 \<le> v" "v < 256" "f = 0 \<or> f = 1"
  shows "(v AND 254) OR f = 2 * (v div 2) + f" "(2 * k) OR f = 2 * k + f" "((v AND 254) OR f) AND 1 = f"
proof -
  have even: "(2 * k) OR f = 2 * k + f" for k
    using assms(3) by (auto simp: or_one_eq)
  have "v AND 254 = 2 * (v div 2)"
  proof -
    have "list_all (\<lambda>v. v AND 254 = 2 * (v div 2)) (map int [0..<256])" by code_simp
    moreover have "v \<in> set (map int [0..<256])"
      using assms(1,2) by (auto intro!: image_eqI [of _ _ "nat v"])
    ultimately show ?thesis unfolding list_all_iff by blast
  qed
  then show "(v AND 254) OR f = 2 * (v div 2) + f" "(2 * k) OR f = 2 * k + f" "((v AND 254) OR f) AND 1 = f"
    using even assms(3) by (auto simp: and_one_eq)
qed

lemma read_aim_seen:
  assumes "sees r (aim_ops key a b) r'" "command_ok a" "command_ok b"
    "uc_buttons c = v AND 254" "0 \<le> v" "v < 256" "length (uc_angles c) = 3"
  shows "\<exists>x y. read_aim r key a c = Some (c\<lparr>uc_buttons := 2 * (v div 2) + uc_buttons b mod 2,
      uc_angles := (uc_angles c)[0 := x, 1 := y],
      uc_forwardmove := fst (MSG_HorMoveTo (horizontal_move b)),
      uc_rightmove := snd (MSG_HorMoveTo (horizontal_move b))\<rparr>, r') \<and>
    x = uc_angles b ! 0 mod 65536 \<and> y = uc_angles b ! 1 mod 65536"
proof -
  obtain r1 r2 r3 where r: "MSG_ReadBits r 1 = Some (xor key (uc_buttons b AND 1) mod 2 ^ nat 1, r1)"
      "sees r1 (key_short_ops key (uc_angles a ! 0) (uc_angles b ! 0)) r2"
      "sees r2 (key_short_ops key (uc_angles a ! 1) (uc_angles b ! 1)) r3"
      "sees r3 (key_ops key (horizontal_move a) (horizontal_move b) 4) r'"
    using assms(1) by (auto simp: aim_ops_def)
  obtain x y where xy: "MSG_ReadDeltaKeyShort r1 (u16 key) (uc_angles a ! 0) = Some (x, r2)"
      "MSG_ReadDeltaKeyShort r2 (u16 key) (uc_angles a ! 1) = Some (y, r3)"
      "x mod 65536 = uc_angles b ! 0 mod 65536" "y mod 65536 = uc_angles b ! 1 mod 65536"
    using read_key_short_seen [OF r(2)] read_key_short_seen [OF r(3)] by auto
  have h: "MSG_ReadDeltaKey r3 key (horizontal_move a) 4 = Some (horizontal_move b, r')"
    using read_key_seen [OF r(4)] move_codes(1,2) [of b] by simp
  have f: "keyed_bits key 1 r = Some (uc_buttons b mod 2, r1)"
    using keyed_bits_seen [OF r(1)] by (simp add: and_one_eq)
  have bit: "uc_buttons b mod 2 = 0 \<or> uc_buttons b mod 2 = 1" by auto
  then have fire: "uc_buttons c OR u8 (uc_buttons b mod 2) = 2 * (v div 2) + uc_buttons b mod 2"
    using fire_button(1) [OF assms(5,6) bit] assms(4) by (auto simp: u8_def)
  have m: "x AND 65535 = x mod 65536" for x :: int
    using take_bit_eq_mask [of 16 x] by (simp add: take_bit_eq_mod mask_eq_exp_minus_1)
  have "length (uc_angles a) = 3" using assms(2) by (simp add: command_ok_def)
  then have p: "peek (uc_angles a) 0 = Some (uc_angles a ! 0)" "peek (uc_angles a) 1 = Some (uc_angles a ! 1)"
    by (simp_all add: mem_simps)
  show ?thesis
    by (rule exI [of _ "x mod 65536"], rule exI [of _ "y mod 65536"])
      (simp add: read_aim_def p MSG_ReadKey_def f xy h m fire move_codes(5) del: One_nat_def)
qed

lemma wire_command_eqI:
  assumes "command_ok b" "length (uc_angles c) = 3" "uc_commandTime c = uc_commandTime b"
    "uc_buttons c = uc_buttons b" "uc_wbuttons c = uc_wbuttons b" "uc_weapon c = uc_weapon b"
    "\<And>i. i < 3 \<Longrightarrow> uc_angles c ! i mod 65536 = uc_angles b ! i mod 65536"
    "horizontal_move c = horizontal_move b" "MSG_VertMoveFrom (uc_upmove c) = MSG_VertMoveFrom (uc_upmove b)"
  shows "wire_command c = wire_command b"
proof -
  have "map (\<lambda>a. a mod 65536) (uc_angles c) = map (\<lambda>a. a mod 65536) (uc_angles b)"
    using assms(1,2,7) by (intro nth_equalityI) (auto simp: command_ok_def)
  then show ?thesis using assms by (simp add: wire_command_def)
qed

lemma read_rest_seen:
  assumes "sees r (rest_ops key a b) r'" "command_ok a" "command_ok b"
  shows "\<exists>x w r1 r2 r3 r4. MSG_ReadDeltaKeyShort r (u16 key) (uc_angles a ! 2) = Some (x, r1) \<and>
    x mod 65536 = uc_angles b ! 2 mod 65536 \<and>
    MSG_ReadDeltaKey r1 key (uc_buttons a div 2) 6 = Some (uc_buttons b div 2, r2) \<and>
    MSG_ReadDeltaKeyByte r2 (u8 key) (uc_wbuttons a) = Some (w, r3) \<and> u8 w = uc_wbuttons b \<and>
    MSG_ReadDeltaKey r3 key (MSG_VertMoveFrom (uc_upmove a)) 2 = Some (MSG_VertMoveFrom (uc_upmove b), r4) \<and>
    MSG_ReadDeltaKey r4 key (uc_weapon a) 7 = Some (uc_weapon b, r')"
proof -
  obtain r1 r2 r3 r4 where r: "sees r (key_short_ops key (uc_angles a ! 2) (uc_angles b ! 2)) r1"
      "sees r1 (key_ops key (uc_buttons a div 2) (uc_buttons b div 2) 6) r2"
      "sees r2 (key_byte_ops key (uc_wbuttons a) (uc_wbuttons b)) r3"
      "sees r3 (key_ops key (MSG_VertMoveFrom (uc_upmove a)) (MSG_VertMoveFrom (uc_upmove b)) 2) r4"
      "sees r4 (key_ops key (uc_weapon a) (uc_weapon b) 7) r'"
    using assms(1) by (auto simp: rest_ops_def)
  have rng: "0 \<le> uc_buttons b div 2" "uc_buttons b div 2 < 64" "0 \<le> uc_weapon b" "uc_weapon b < 128"
    "0 \<le> uc_wbuttons a" "uc_wbuttons a < 256" "0 \<le> uc_wbuttons b" "uc_wbuttons b < 256"
    using assms(2,3) by (auto simp: command_ok_def)
  show ?thesis
    using read_key_short_seen [OF r(1)] read_key_seen [OF r(2)] read_key_byte_seen [OF r(3) rng(5-8)]
      read_key_seen [OF r(4)] read_key_seen [OF r(5)] rng move_codes(3,4) [of "uc_upmove b"] by auto
qed

text \<open>The time, and the two control bits under the key.\<close>

lemma read_time_seen:
  assumes "sees r (if u32 (uc_commandTime b - uc_commandTime a) < 256
      then [WBit True, WByte (u32 (uc_commandTime b - uc_commandTime a))]
      else [WBit False, WLong (uc_commandTime b)]) r'" "int32_range (uc_commandTime b)"
  shows "do { (near, m0) \<leftarrow> MSG_ReadBit r;
     (if near = 0 then MSG_ReadLong m0
      else do { (delta, m) \<leftarrow> MSG_ReadByte m0; Some (i32 (uc_commandTime a + delta), m) }) } =
    Some (uc_commandTime b, r')"
proof -
  have id: "i32 (uc_commandTime b) = uc_commandTime b"
    using assms(2) by (simp add: int32_range_def i32_id)
  have "i32 (uc_commandTime a + u32 (uc_commandTime b - uc_commandTime a)) = i32 (uc_commandTime b)"
    by (rule i32_cong) (simp add: u32_def mod_add_right_eq)
  then show ?thesis
    using assms(1) id by (auto simp: u8_id u32_def split: if_splits)
qed

lemma control_bit_seen:
  "sees r (WBits (xor key v) 1 # xs) r' \<Longrightarrow>
   \<exists>r1. MSG_ReadKey r key 1 = Some (v mod 2, r1) \<and> sees r1 xs r'"
  using keyed_bits_seen [of r 1 key v] by (auto simp: MSG_ReadKey_def)

lemma half_eq: "x div 2 = y div 2 \<Longrightarrow> x mod 2 = y mod 2 \<Longrightarrow> x = y" for x y :: int
  by (metis mult_div_mod_eq)

lemma command_common_angle: "command_common a b \<Longrightarrow> uc_angles a ! 2 = uc_angles b ! 2"
  by (simp add: command_common_def)

lemma read_usercmd_seen:
  assumes "sees r (usercmd_ops key a b) r'" and ok: "command_ok a" "command_ok b"
  shows "\<exists>c. MSG_ReadDeltaUsercmdKey r key a = Some (c, r') \<and> wire_command c = wire_command b"
proof -
  define t where "t = uc_commandTime b"
  define key2 where "key2 = xor key (u32 t)"
  obtain r1 where r1: "sees r (if u32 (uc_commandTime b - uc_commandTime a) < 256
      then [WBit True, WByte (u32 (uc_commandTime b - uc_commandTime a))]
      else [WBit False, WLong (uc_commandTime b)]) r1"
      "sees r1 (if command_common a b \<and> command_same a b then [WBits (xor key 0) 1]
      else WBits (xor key 1) 1 #
        (if command_common a b then WBits (xor key 0) 1 # aim_ops key2 a b
         else WBits (xor key 1) 1 # aim_ops key a b @ rest_ops key2 a b)) r'"
    using assms(1) unfolding usercmd_ops_def Let_def sees_simps(2) key2_def t_def by blast
  have "int32_range t" using ok(2) by (simp add: command_ok_def t_def)
  from read_time_seen [OF r1(1)] this obtain near m0 where time: "MSG_ReadBit r = Some (near, m0)"
      "(if near = 0 then MSG_ReadLong m0
        else do { (delta, m) \<leftarrow> MSG_ReadByte m0; Some (i32 (uc_commandTime a + delta), m) }) = Some (t, r1)"
    by (auto simp: bind_eq_Some_conv t_def)
  note start = MSG_ReadDeltaUsercmdKey_def time Let_def key2_def [symmetric]
  have la: "length (uc_angles a) = 3" "length (uc_angles b) = 3" and rng: "0 \<le> uc_buttons a" "uc_buttons a < 256"
    "0 \<le> uc_buttons b" "uc_buttons b < 128" using ok by (simp_all add: command_ok_def)
  consider (same) "command_common a b" "command_same a b" | (aim) "command_common a b" "\<not> command_same a b"
    | (full) "\<not> command_common a b" by blast
  then show ?thesis
  proof cases
    case same
    then obtain "MSG_ReadKey r1 key 1 = Some (0, r')"
      using r1(2) control_bit_seen [of r1 key 0 "[]" r'] by auto
    moreover have "uc_buttons a = uc_buttons b"
      using same unfolding command_common_def command_same_def and_one_eq by (elim conjE) (rule half_eq)
    moreover have "uc_angles a ! i = uc_angles b ! i" if "i < 3" for i
      using same that by (auto simp: command_common_def command_same_def less_Suc_eq numeral_3_eq_3 numeral_2_eq_2)
    ultimately show ?thesis
      using same ok by (intro exI [of _ "a\<lparr>uc_commandTime := t\<rparr>"])
        (auto simp: start command_common_def command_same_def t_def horizontal_move_def la intro!: wire_command_eqI)
  next
    case aim
    then have "sees r1 (WBits (xor key 1) 1 # WBits (xor key 0) 1 # aim_ops key2 a b) r'"
      using r1(2) by (simp del: sees_simps)
    from control_bit_seen [OF this] obtain r2 where r2: "MSG_ReadKey r1 key 1 = Some (1, r2)"
        "sees r2 (WBits (xor key 0) 1 # aim_ops key2 a b) r'" by (auto simp del: sees_simps)
    from control_bit_seen [OF r2(2)] obtain r3 where r3: "MSG_ReadKey r2 key 1 = Some (0, r3)"
        "sees r3 (aim_ops key2 a b) r'" by auto
    define c where "c = a\<lparr>uc_commandTime := t, uc_buttons := uc_buttons a AND 254\<rparr>"
    obtain x y where xy: "read_aim r3 key2 a c = Some (c\<lparr>uc_buttons := 2 * (uc_buttons a div 2) + uc_buttons b mod 2,
        uc_angles := (uc_angles c)[0 := x, 1 := y],
        uc_forwardmove := fst (MSG_HorMoveTo (horizontal_move b)),
        uc_rightmove := snd (MSG_HorMoveTo (horizontal_move b))\<rparr>, r')" (is "_ = Some (?d, _)")
      "x = uc_angles b ! 0 mod 65536" "y = uc_angles b ! 1 mod 65536"
      using read_aim_seen [OF r3(2) ok, of c "uc_buttons a"] rng la(1) by (auto simp: c_def)
    have "uc_buttons a div 2 = uc_buttons b div 2" using aim by (simp add: command_common_def)
    then have "uc_buttons ?d = uc_buttons b" by simp
    moreover have "uc_angles ?d ! i mod 65536 = uc_angles b ! i mod 65536" if "i < 3" for i
      using that xy(2,3) command_common_angle [OF aim(1)] la(1)
      by (auto simp: c_def less_Suc_eq numeral_3_eq_3 numeral_2_eq_2)
    moreover have "horizontal_move ?d = horizontal_move b"
      using move_codes_back(1) [of b] by (simp add: horizontal_move_def)
    ultimately have "wire_command ?d = wire_command b"
      using aim(1) la ok(2) by (intro wire_command_eqI) (auto simp: c_def t_def command_common_def)
    moreover have "MSG_ReadDeltaUsercmdKey r key a = Some (?d, r')"
      using r2(1) r3(1) xy(1) by (simp add: start c_def)
    ultimately show ?thesis by blast
  next
    case full
    then have "sees r1 (WBits (xor key 1) 1 # WBits (xor key 1) 1 # aim_ops key a b @ rest_ops key2 a b) r'"
      using r1(2) by (simp del: sees_simps)
    from control_bit_seen [OF this] obtain r2 where r2: "MSG_ReadKey r1 key 1 = Some (1, r2)"
        "sees r2 (WBits (xor key 1) 1 # aim_ops key a b @ rest_ops key2 a b) r'" by (auto simp del: sees_simps)
    from control_bit_seen [OF r2(2)] obtain r3 r4 where r3: "MSG_ReadKey r2 key 1 = Some (1, r3)"
        "sees r3 (aim_ops key a b) r4" and r4: "sees r4 (rest_ops key2 a b) r'" by auto
    define c where "c = a\<lparr>uc_commandTime := t, uc_buttons := uc_buttons a AND 254\<rparr>"
    obtain x y where xy: "read_aim r3 key a c = Some (c\<lparr>uc_buttons := 2 * (uc_buttons a div 2) + uc_buttons b mod 2,
        uc_angles := (uc_angles c)[0 := x, 1 := y],
        uc_forwardmove := fst (MSG_HorMoveTo (horizontal_move b)),
        uc_rightmove := snd (MSG_HorMoveTo (horizontal_move b))\<rparr>, r4)" (is "_ = Some (?d, _)")
      "x = uc_angles b ! 0 mod 65536" "y = uc_angles b ! 1 mod 65536"
      using read_aim_seen [OF r3(2) ok, of c "uc_buttons a"] rng la(1) by (auto simp: c_def)
    obtain z w s1 s2 s3 s4 where rest: "MSG_ReadDeltaKeyShort r4 (u16 key2) (uc_angles a ! 2) = Some (z, s1)"
        "z mod 65536 = uc_angles b ! 2 mod 65536"
        "MSG_ReadDeltaKey s1 key2 (uc_buttons a div 2) 6 = Some (uc_buttons b div 2, s2)"
        "MSG_ReadDeltaKeyByte s2 (u8 key2) (uc_wbuttons a) = Some (w, s3)" "u8 w = uc_wbuttons b"
        "MSG_ReadDeltaKey s3 key2 (MSG_VertMoveFrom (uc_upmove a)) 2 = Some (MSG_VertMoveFrom (uc_upmove b), s4)"
        "MSG_ReadDeltaKey s4 key2 (uc_weapon a) 7 = Some (uc_weapon b, r')"
      using read_rest_seen [OF r4 ok] by blast
    let ?e = "?d\<lparr>uc_angles := (uc_angles ?d)[2 := z AND 65535],
      uc_buttons := u8 (uc_buttons b div 2 * 2 OR (uc_buttons ?d AND 1)), uc_wbuttons := u8 w,
      uc_upmove := MSG_VertMoveTo (u32 (MSG_VertMoveFrom (uc_upmove b))), uc_weapon := u8 (uc_weapon b)\<rparr>"
    have "peek (uc_angles a) 2 = Some (uc_angles a ! 2)" using la(1) by (simp add: mem_simps)
    then have run: "MSG_ReadDeltaUsercmdKey r key a = Some (?e, r')"
      using r2(1) r3(1) xy(1) rest(1,3,4,6,7) by (simp add: start c_def)
    have bit: "uc_buttons b mod 2 = 0 \<or> uc_buttons b mod 2 = 1" by auto
    have "(uc_buttons b div 2 * 2) OR (uc_buttons ?d AND 1) = uc_buttons b"
      using fire_button(2) [of 0 "uc_buttons b mod 2" "uc_buttons b div 2"] bit
      by (simp add: and_one_eq mult.commute)
    then have "uc_buttons ?e = uc_buttons b" using rng(3,4) by (simp add: u8_id)
    moreover have m: "v AND 65535 = v mod 65536" for v :: int
      using take_bit_eq_mask [of 16 v] by (simp add: take_bit_eq_mod mask_eq_exp_minus_1)
    have "uc_angles ?e ! i mod 65536 = uc_angles b ! i mod 65536" if "i < 3" for i
      using that xy(2,3) rest(2) la(1) m by (auto simp: c_def less_Suc_eq numeral_3_eq_3 numeral_2_eq_2)
    moreover have "horizontal_move ?e = horizontal_move b"
      using move_codes_back(1) [of b] by (simp add: horizontal_move_def)
    moreover have "MSG_VertMoveFrom (uc_upmove ?e) = MSG_VertMoveFrom (uc_upmove b)"
      using move_codes(6) move_codes_back(2) by simp
    moreover have "u8 (uc_weapon b) = uc_weapon b" using ok(2) by (simp add: command_ok_def u8_id)
    ultimately have "wire_command ?e = wire_command b"
      using la ok(2) rest(5) by (intro wire_command_eqI) (auto simp: c_def t_def)
    with run show ?thesis by blast
  qed
qed

text \<open>
  C35: a user command written under a key against the previous one, and read under the same key
  against the same one, arrives as the same command: its time, buttons, weapon and weapon
  buttons exactly, its angles to 16 bits and its moves to their direction. Only the eighth
  button bit, which no button uses, is outside the six bits sent for the high buttons.
\<close>

theorem usercmd_roundtrip:
  assumes "0 \<le> maxsize" "maxsize \<le> int (length data)" "maxsize < 268435456"
    and "command_ok a" "command_ok b"
    and "MSG_WriteDeltaUsercmdKey (MSG_Init data maxsize) key a b = Some m" "\<not> m_overflowed m"
  shows "\<exists>c r. MSG_ReadDeltaUsercmdKey (MSG_BeginReading m) key a = Some (c, r) \<and>
     m_readcount r = m_cursize m \<and> wire_command c = wire_command b"
proof -
  obtain r where "sees (MSG_BeginReading m) (usercmd_ops key a b) r" "m_readcount r = m_cursize m"
    using fresh_seen [OF assms(1-3) usercmd_ops_ok, of key a b m] assms(6,7)
      write_usercmd_ops [OF assms(4,5), of "MSG_Init data maxsize" key] by auto
  then show ?thesis using read_usercmd_seen [OF _ assms(4,5)] by blast
qed

definition sample_command :: "int \<Rightarrow> usercmd_t" where
  "sample_command x = \<lparr>uc_commandTime = 1000 + x, uc_buttons = 65, uc_wbuttons = 8, uc_weapon = 9,
     uc_angles = [70000, x, 3], uc_forwardmove = 127, uc_rightmove = - x, uc_upmove = 0\<rparr>"

lemma usercmd_roundtrip_witness:
  "\<exists>m c r. MSG_WriteDeltaUsercmdKey (MSG_Init (replicate 64 0) 64) 305419896 (sample_command 5) (sample_command 50) = Some m \<and>
     MSG_ReadDeltaUsercmdKey (MSG_BeginReading m) 305419896 (sample_command 5) = Some (c, r) \<and>
     wire_command c = wire_command (sample_command 50)"
proof -
  have "map_option m_overflowed (MSG_WriteDeltaUsercmdKey (MSG_Init (replicate 64 0) 64) 305419896
      (sample_command 5) (sample_command 50)) = Some False"
    by code_simp
  then obtain m where m: "MSG_WriteDeltaUsercmdKey (MSG_Init (replicate 64 0) 64) 305419896
      (sample_command 5) (sample_command 50) = Some m" "\<not> m_overflowed m" by auto
  have "command_ok (sample_command 5)" "command_ok (sample_command 50)"
    by (simp_all add: command_ok_def sample_command_def int32_range_def)
  then show ?thesis
    using usercmd_roundtrip [of 64 "replicate 64 0" "sample_command 5" "sample_command 50" 305419896 m] m by auto
qed

section \<open>Hostile messages\<close>

lemma reads_ok_bind:
  assumes "reads_ok r x" "\<And>v r'. x = Some (v, r') \<Longrightarrow> read_inv r' \<Longrightarrow> same_buffer r r' \<Longrightarrow> reads_ok r' (f (v, r'))"
  shows "reads_ok r (Option.bind x f)"
  using assms by (fastforce simp: reads_ok_def intro: same_buffer_trans)

lemma reads_ok_Some: "read_inv r \<Longrightarrow> reads_ok r (Some (v, r))"
  by (simp add: reads_ok_def)

lemma MSG_ReadBits_ok: "read_inv r \<Longrightarrow> reads_ok r (MSG_ReadBits r n)"
  by (simp add: MSG_ReadBits_def MSG_ReadBits_loop_ok)

lemmas reads_ok_intros = reads_ok_bind reads_ok_Some MSG_ReadBit_ok MSG_ReadBits_ok MSG_ReadByte_ok
  MSG_ReadShort_ok MSG_ReadLong_ok

lemma read_value_bytes_ok: "read_inv r \<Longrightarrow> reads_ok r (read_value_bytes n s w r)"
  by (induction n arbitrary: s w r) (auto intro!: reads_ok_intros)

lemma read_integer_ok: "read_inv r \<Longrightarrow> reads_ok r (read_integer r bits)"
  by (auto simp: read_integer_def Let_def intro!: reads_ok_intros read_value_bytes_ok)

lemma read_float_ok: "read_inv r \<Longrightarrow> reads_ok r (read_float r)"
  by (auto simp: read_float_def intro!: reads_ok_intros)

lemma ReadAngle16_ok: "read_inv r \<Longrightarrow> reads_ok r (MSG_ReadAngle16 r)"
  by (auto simp: MSG_ReadAngle16_def intro!: reads_ok_intros)

lemma read_changed_ok: "read_inv r \<Longrightarrow> reads_ok r (read_changed r bits)"
  by (auto simp: read_changed_def intro!: reads_ok_intros read_integer_ok read_float_ok ReadAngle16_ok)

definition reads_to :: "('a \<Rightarrow> bool) \<Rightarrow> msg_t \<Rightarrow> ('a \<times> msg_t) option \<Rightarrow> bool" where
  "reads_to P r x \<longleftrightarrow> (\<exists>v r'. x = Some (v, r') \<and> P v \<and> read_inv r' \<and> same_buffer r r')"

text \<open>The same for the readers that may raise: no fault, and what is returned is well formed.\<close>

definition runs_to :: "('a \<Rightarrow> bool) \<Rightarrow> msg_t \<Rightarrow> ('a \<times> msg_t) run \<Rightarrow> bool" where
  "runs_to P r x \<longleftrightarrow> (case x of Fault \<Rightarrow> False | Raise e s \<Rightarrow> True
     | Done (v, r') \<Rightarrow> P v \<and> read_inv r' \<and> same_buffer r r')"

lemma reads_ok_to: "reads_ok r x \<Longrightarrow> reads_to (\<lambda>_. True) r x"
  by (simp add: reads_ok_def reads_to_def)

lemma reads_to_ok: "reads_to P r x \<Longrightarrow> reads_ok r x"
  by (auto simp: reads_ok_def reads_to_def)

lemma reads_to_bind:
  assumes "reads_to Q r x" "\<And>v r'. Q v \<Longrightarrow> read_inv r' \<Longrightarrow> reads_to P r' (f (v, r'))"
  shows "reads_to P r (Option.bind x f)"
  using assms by (fastforce simp: reads_to_def intro: same_buffer_trans)

lemma reads_to_Some: "P v \<Longrightarrow> read_inv r \<Longrightarrow> reads_to P r (Some (v, r))"
  by (simp add: reads_to_def)

lemma runs_to_bind:
  assumes "runs_to Q r x" "\<And>v r'. Q v \<Longrightarrow> read_inv r' \<Longrightarrow> runs_to P r' (f (v, r'))"
  shows "runs_to P r (run_bind x f)"
proof (cases x)
  case (Done y)
  obtain v r' where y: "y = (v, r')" by (cases y)
  with assms(1) Done have "Q v" "read_inv r'" "same_buffer r r'" by (simp_all add: runs_to_def)
  with assms(2) [of v r'] show ?thesis
    unfolding Done y run_bind.simps
    by (auto simp: runs_to_def intro: same_buffer_trans split: run.splits)
qed (use assms(1) in \<open>auto simp: runs_to_def\<close>)

lemma runs_to_checked: "reads_to P r x \<Longrightarrow> runs_to P r (checked x)"
  by (auto simp: reads_to_def runs_to_def)

lemma runs_to_simps [simp]: "runs_to P r (Raise e s)"
  "runs_to P r (Done (v, r')) \<longleftrightarrow> P v \<and> read_inv r' \<and> same_buffer r r'"
  by (simp_all add: runs_to_def)

lemma read_field_to:
  assumes "read_inv r" "table_ok (length a) [f]" "length c = length a"
  shows "reads_to (\<lambda>d. length d = length c) r (MSG_ReadDeltaField r a c f)"
proof -
  have val: "reads_to (\<lambda>_. True) r' (if changed = 0 then do { old \<leftarrow> member a f; Some (old, r') }
      else read_changed r' (nf_bits f))" if "read_inv r'" for r' changed
    using that assms(2) by (auto simp: member_simps intro!: reads_ok_to read_changed_ok reads_ok_Some)
  show ?thesis
    unfolding MSG_ReadDeltaField_def
    using assms by (auto simp: member_simps intro!: reads_to_bind [OF reads_ok_to] MSG_ReadBit_ok
        reads_to_bind [OF val] reads_to_Some)
qed

lemma read_fields_to:
  "read_inv r \<Longrightarrow> table_ok (length a) fs \<Longrightarrow> length c = length a \<Longrightarrow>
   reads_to (\<lambda>d. length d = length a) r (read_fields r a c fs)"
proof (induction fs arbitrary: r c)
  case Nil
  then show ?case by (simp add: reads_to_Some)
next
  case (Cons f fs)
  then show ?case
    by (auto intro!: reads_to_bind [OF read_field_to])
qed

lemma keep_fields_length:
  "table_ok (length a) fs \<Longrightarrow> length c = length a \<Longrightarrow> \<exists>d. keep_fields a c fs = Some d \<and> length d = length a"
  by (induction fs arbitrary: c) (auto simp: member_simps)

lemma read_struct_to:
  assumes r: "read_inv r" and tab: "table_ok (length a) fs" "length a = length fs + 1" and len: "length c = length a"
  shows "case MSG_ReadDeltaStruct r a c number fs of Fault \<Rightarrow> False | Raise e s \<Rightarrow> True
     | Done (gone, d, r') \<Rightarrow> length d = length a \<and> read_inv r' \<and> same_buffer r r'"
proof -
  obtain gone m1 where 1: "MSG_ReadBit r = Some (gone, m1)" "read_inv m1" "same_buffer r m1"
    using MSG_ReadBit_ok [OF r] by (auto simp: reads_ok_def)
  obtain changed m2 where 2: "MSG_ReadBit m1 = Some (changed, m2)" "read_inv m2" "same_buffer m1 m2"
    using MSG_ReadBit_ok [OF 1(2)] by (auto simp: reads_ok_def)
  obtain count m3 where 3: "MSG_ReadByte m2 = Some (count, m3)" "read_inv m3" "same_buffer m2 m3"
    using MSG_ReadByte_ok [OF 2(2)] by (auto simp: reads_ok_def)
  have copy: "copy_out a 0 (int (length fs) + 1) = Some a" "copy_in c 0 a = Some a"
      "poke c 0 number = Some (c[0 := number])"
    using tab(2) len by (simp_all add: mem_simps nat_add_distrib poke_eq_Some)
  obtain d m4 where 4: "read_fields m3 a (c[0 := number]) (take (nat count) fs) = Some (d, m4)"
      "length d = length a" "read_inv m4" "same_buffer m3 m4"
    using read_fields_to [OF 3(2), of a "take (nat count) fs" "c[0 := number]"] tab(1) len
    by (auto simp: reads_to_def)
  obtain e where "keep_fields a d (drop (nat count) fs) = Some e" "length e = length a"
    using keep_fields_length [of a "drop (nat count) fs" d] tab(1) 4(2) by auto
  then show ?thesis
    using 1 2 3 4 copy len by (auto simp: MSG_ReadDeltaStruct_def intro: same_buffer_trans)
qed

lemma keyed_bits_ok:
  assumes "read_inv r" "0 \<le> n" "n < 33"
  shows "reads_ok r (keyed_bits key n r)"
proof -
  have "\<exists>v. peek msg_bitmaskTable n = Some v"
    using assms(2,3) by (simp add: msg_bitmaskTable_def peek_eq_Some)
  then show ?thesis
    using assms(1) by (auto simp: keyed_bits_def intro!: reads_ok_intros)
qed

lemma read_keys_ok:
  "read_inv r \<Longrightarrow> 0 \<le> n \<Longrightarrow> n < 33 \<Longrightarrow> reads_ok r (MSG_ReadKey r key n)"
  "read_inv r \<Longrightarrow> 0 \<le> n \<Longrightarrow> n < 33 \<Longrightarrow> reads_ok r (MSG_ReadDeltaKey r key old n)"
  "read_inv r \<Longrightarrow> reads_ok r (MSG_ReadDeltaKeyByte r key old)"
  "read_inv r \<Longrightarrow> reads_ok r (MSG_ReadDeltaKeyShort r key old)"
  by (auto simp: MSG_ReadKey_def MSG_ReadDeltaKey_def MSG_ReadDeltaKeyByte_def MSG_ReadDeltaKeyShort_def
      intro!: reads_ok_intros keyed_bits_ok)

lemmas read_keys_to = read_keys_ok [THEN reads_ok_to, THEN reads_to_bind]

lemma read_aim_to:
  assumes "read_inv r" "length (uc_angles a) = 3" "length (uc_angles c) = 3"
  shows "reads_to (\<lambda>d. length (uc_angles d) = 3) r (read_aim r key a c)"
  using assms
  by (auto simp: read_aim_def mem_simps intro!: reads_to_bind [OF reads_ok_to] read_keys_ok reads_to_Some)

lemma read_usercmd_to:
  assumes "read_inv r" "length (uc_angles a) = 3"
  shows "reads_to (\<lambda>d. length (uc_angles d) = 3) r (MSG_ReadDeltaUsercmdKey r key a)"
proof -
  have time: "reads_to (\<lambda>_. True) r' (if near = 0 then MSG_ReadLong r'
      else do { (delta, m) \<leftarrow> MSG_ReadByte r'; Some (i32 (uc_commandTime a + delta), m) })"
    if "read_inv r'" for r' near
    using that by (auto intro!: reads_ok_to reads_ok_intros)
  show ?thesis
    unfolding MSG_ReadDeltaUsercmdKey_def
    using assms by (auto simp: Let_def mem_simps
        intro!: reads_to_bind [OF time] reads_to_bind [OF read_aim_to] read_keys_to
          reads_to_bind [OF MSG_ReadBit_ok [THEN reads_ok_to]] read_aim_to reads_to_Some)
qed

end
