(* ===== verification/Usercmd_Chain.thy ===== *)
theory Usercmd_Chain
  imports Delta_Correct
begin

text \<open>
  A packet holds several user commands, each written against the one before. The writer's base is the
  command as it was made, the reader's base what has arrived of it, so the two bases only agree on
  what the wire carries. This is enough: what arrives is the wire form of every command.
\<close>

section \<open>The base of the reader\<close>

lemma wire_fields:
  "uc_commandTime (wire_command a) = uc_commandTime a" "uc_buttons (wire_command a) = uc_buttons a"
  "uc_wbuttons (wire_command a) = uc_wbuttons a" "uc_weapon (wire_command a) = uc_weapon a"
  "uc_angles (wire_command a) = map (\<lambda>v. v mod 65536) (uc_angles a)"
  "horizontal_move (wire_command a) = horizontal_move a"
  "MSG_VertMoveFrom (uc_upmove (wire_command a)) = MSG_VertMoveFrom (uc_upmove a)"
  using move_codes_back(1) [of a] by (simp_all add: wire_command_def horizontal_move_def move_codes_back)

lemma move_to_back:
  "MSG_HorMoveTo (MSG_HorMoveFrom (fst (MSG_HorMoveTo k)) (snd (MSG_HorMoveTo k))) = MSG_HorMoveTo k"
  "MSG_VertMoveTo (MSG_VertMoveFrom (MSG_VertMoveTo k)) = MSG_VertMoveTo k"
  by (simp_all add: MSG_HorMoveTo_def MSG_HorMoveFrom_def MSG_VertMoveTo_def MSG_VertMoveFrom_def)

lemma mask_16: "v AND 65535 = v mod 65536" for v :: int
  using take_bit_eq_mask [of 16 v] by (simp add: take_bit_eq_mod mask_eq_exp_minus_1)

lemma key_short_base:
  assumes "MSG_ReadDeltaKeyShort m key old = Some (v, r)"
  shows "\<exists>v'. MSG_ReadDeltaKeyShort m key (old mod 65536) = Some (v', r) \<and> v' mod 65536 = v mod 65536"
  using assms by (auto simp: MSG_ReadDeltaKeyShort_def bind_eq_Some_conv split: if_splits)

lemma read_aim_base:
  assumes "read_aim m key a c = Some (x, r)" "length (uc_angles a) = 3" "length (uc_angles c) = 3"
  shows "read_aim m key (wire_command a) (wire_command c) = Some (wire_command x, r) \<and> length (uc_angles x) = 3"
proof -
  have p: "peek (uc_angles a) 0 = Some (uc_angles a ! 0)" "peek (uc_angles a) 1 = Some (uc_angles a ! 1)"
    using assms(2) by (simp_all add: mem_simps)
  obtain f m1 b0 m2 b1 m3 k where r: "MSG_ReadKey m key 1 = Some (f, m1)"
      "MSG_ReadDeltaKeyShort m1 (u16 key) (uc_angles a ! 0) = Some (b0, m2)"
      "MSG_ReadDeltaKeyShort m2 (u16 key) (uc_angles a ! 1) = Some (b1, m3)"
      "MSG_ReadDeltaKey m3 key (horizontal_move a) 4 = Some (k, r)"
      "x = c\<lparr>uc_buttons := uc_buttons c OR u8 f, uc_angles := (uc_angles c)[0 := b0 AND 65535, 1 := b1 AND 65535],
         uc_forwardmove := fst (MSG_HorMoveTo (u32 k)), uc_rightmove := snd (MSG_HorMoveTo (u32 k))\<rparr>"
    using assms(1) by (auto simp: read_aim_def p bind_eq_Some_conv simp del: One_nat_def)
  obtain c0 c1 where c: "MSG_ReadDeltaKeyShort m1 (u16 key) (uc_angles a ! 0 mod 65536) = Some (c0, m2)" "c0 mod 65536 = b0 mod 65536"
      "MSG_ReadDeltaKeyShort m2 (u16 key) (uc_angles a ! 1 mod 65536) = Some (c1, m3)" "c1 mod 65536 = b1 mod 65536"
    using key_short_base [OF r(2)] key_short_base [OF r(3)] by auto
  have q: "peek (uc_angles (wire_command a)) 0 = Some (uc_angles a ! 0 mod 65536)"
      "peek (uc_angles (wire_command a)) 1 = Some (uc_angles a ! 1 mod 65536)"
    using assms(2) by (simp_all add: wire_fields mem_simps)
  have "read_aim m key (wire_command a) (wire_command c) = Some ((wire_command c)\<lparr>uc_buttons := uc_buttons c OR u8 f,
      uc_angles := (uc_angles (wire_command c))[0 := c0 AND 65535, 1 := c1 AND 65535],
      uc_forwardmove := fst (MSG_HorMoveTo (u32 k)), uc_rightmove := snd (MSG_HorMoveTo (u32 k))\<rparr>, r)"
    by (simp add: read_aim_def q r(1,4) c(1,3) wire_fields(2,6) del: One_nat_def)
  also have "\<dots> = Some (wire_command x, r)"
    by (simp add: r(5) wire_command_def horizontal_move_def mask_16 c(2,4) map_update move_to_back)
  finally show ?thesis using assms(3) by (simp add: r(5))
qed

definition read_time :: "msg_t \<Rightarrow> usercmd_t \<Rightarrow> (int \<times> msg_t) option" where
  "read_time message from' = do {
     (near, m0) \<leftarrow> MSG_ReadBit message;
     if near = 0 then MSG_ReadLong m0
     else do { (delta, m) \<leftarrow> MSG_ReadByte m0; Some (i32 (uc_commandTime from' + delta), m) } }"

definition read_rest :: "int \<Rightarrow> usercmd_t \<Rightarrow> usercmd_t \<Rightarrow> msg_t \<Rightarrow> (usercmd_t \<times> msg_t) option" where
  "read_rest key2 from' to3 m4 = do {
     a2 \<leftarrow> peek (uc_angles from') 2;
     (b2, m5) \<leftarrow> MSG_ReadDeltaKeyShort m4 (u16 key2) a2;
     (high, m6) \<leftarrow> MSG_ReadDeltaKey m5 key2 (uc_buttons from' div 2) 6;
     (wb, m7) \<leftarrow> MSG_ReadDeltaKeyByte m6 (u8 key2) (uc_wbuttons from');
     (up, m8) \<leftarrow> MSG_ReadDeltaKey m7 key2 (MSG_VertMoveFrom (uc_upmove from')) 2;
     (weapon, m9) \<leftarrow> MSG_ReadDeltaKey m8 key2 (uc_weapon from') 7;
     Some (to3\<lparr>uc_angles := (uc_angles to3)[2 := b2 AND 65535],
              uc_buttons := u8 (high * 2 OR (uc_buttons to3 AND 1)),
              uc_wbuttons := u8 wb, uc_upmove := MSG_VertMoveTo (u32 up), uc_weapon := u8 weapon\<rparr>, m9) }"

definition read_changes :: "int \<Rightarrow> usercmd_t \<Rightarrow> int \<Rightarrow> msg_t \<Rightarrow> (usercmd_t \<times> msg_t) option" where
  "read_changes key from' time m1 = do {
     (changed, m2) \<leftarrow> MSG_ReadKey m1 key 1;
     if changed = 0 then Some (from'\<lparr>uc_commandTime := time\<rparr>, m2)
     else let to2 = from'\<lparr>uc_commandTime := time, uc_buttons := uc_buttons from' AND 254\<rparr>; key2 = xor key (u32 time) in do {
       (complete, m3) \<leftarrow> MSG_ReadKey m2 key 1;
       if complete = 0 then read_aim m3 key2 from' to2
       else do { (to3, m4) \<leftarrow> read_aim m3 key from' to2; read_rest key2 from' to3 m4 } } }"

lemma read_usercmd_parts:
  "MSG_ReadDeltaUsercmdKey m key a = do { (time, m1) \<leftarrow> read_time m a; read_changes key a time m1 }"
  by (simp add: MSG_ReadDeltaUsercmdKey_def read_time_def read_changes_def read_rest_def Let_def Option.bind_assoc
      case_prod_unfold cong: if_cong)

lemma read_rest_base:
  assumes "read_rest key2 a x m4 = Some (c, r)" "length (uc_angles a) = 3" "length (uc_angles x) = 3"
  shows "read_rest key2 (wire_command a) (wire_command x) m4 = Some (wire_command c, r) \<and> length (uc_angles c) = 3"
proof -
  have p: "peek (uc_angles a) 2 = Some (uc_angles a ! 2)" "peek (uc_angles (wire_command a)) 2 = Some (uc_angles a ! 2 mod 65536)"
    using assms(2) by (simp_all add: mem_simps wire_fields)
  obtain b2 m5 high m6 wb m7 up m8 weapon where rest: "MSG_ReadDeltaKeyShort m4 (u16 key2) (uc_angles a ! 2) = Some (b2, m5)"
      "MSG_ReadDeltaKey m5 key2 (uc_buttons a div 2) 6 = Some (high, m6)"
      "MSG_ReadDeltaKeyByte m6 (u8 key2) (uc_wbuttons a) = Some (wb, m7)"
      "MSG_ReadDeltaKey m7 key2 (MSG_VertMoveFrom (uc_upmove a)) 2 = Some (up, m8)"
      "MSG_ReadDeltaKey m8 key2 (uc_weapon a) 7 = Some (weapon, r)"
      "c = x\<lparr>uc_angles := (uc_angles x)[2 := b2 AND 65535], uc_buttons := u8 (high * 2 OR (uc_buttons x AND 1)),
             uc_wbuttons := u8 wb, uc_upmove := MSG_VertMoveTo (u32 up), uc_weapon := u8 weapon\<rparr>"
    using assms(1) by (auto simp: read_rest_def p(1) bind_eq_Some_conv)
  obtain b2' where b2: "MSG_ReadDeltaKeyShort m4 (u16 key2) (uc_angles a ! 2 mod 65536) = Some (b2', m5)"
      "b2' mod 65536 = b2 mod 65536" using key_short_base [OF rest(1)] by auto
  have "read_rest key2 (wire_command a) (wire_command x) m4 = Some ((wire_command x)\<lparr>
      uc_angles := (uc_angles (wire_command x))[2 := b2' AND 65535], uc_buttons := u8 (high * 2 OR (uc_buttons x AND 1)),
      uc_wbuttons := u8 wb, uc_upmove := MSG_VertMoveTo (u32 up), uc_weapon := u8 weapon\<rparr>, r)"
    by (simp add: read_rest_def p(2) b2(1) rest(2-5) wire_fields(2,3,4,7))
  also have "\<dots> = Some (wire_command c, r)"
    by (simp add: rest(6) wire_command_def horizontal_move_def mask_16 b2(2) map_update move_to_back)
  finally show ?thesis using assms(3) by (simp add: rest(6))
qed

lemma read_changes_base:
  assumes "read_changes key a time m1 = Some (c, r)" "length (uc_angles a) = 3"
  shows "read_changes key (wire_command a) time m1 = Some (wire_command c, r) \<and> length (uc_angles c) = 3"
proof -
  let ?a2 = "a\<lparr>uc_commandTime := time, uc_buttons := uc_buttons a AND 254\<rparr>" and ?key2 = "xor key (u32 time)"
  have w: "(wire_command a)\<lparr>uc_commandTime := time\<rparr> = wire_command (a\<lparr>uc_commandTime := time\<rparr>)"
      "(wire_command a)\<lparr>uc_commandTime := time, uc_buttons := uc_buttons a AND 254\<rparr> = wire_command ?a2"
    by (simp_all add: wire_command_def horizontal_move_def)
  obtain changed m2 where t: "MSG_ReadKey m1 key 1 = Some (changed, m2)"
    using assms(1) by (auto simp: read_changes_def bind_eq_Some_conv)
  show ?thesis
  proof (cases "changed = 0")
    case True
    then show ?thesis using assms t w(1) by (auto simp: read_changes_def)
  next
    case changed: False
    obtain complete m3 where u: "MSG_ReadKey m2 key 1 = Some (complete, m3)"
      using assms(1) t changed by (auto simp: read_changes_def Let_def bind_eq_Some_conv)
    note start = read_changes_def t u Let_def
    show ?thesis
    proof (cases "complete = 0")
      case True
      have "read_aim m3 ?key2 a ?a2 = Some (c, r)" using assms(1) changed True by (simp add: start)
      from read_aim_base [OF this assms(2)] show ?thesis
        using assms(2) changed True by (simp add: start w(2) wire_fields(2))
    next
      case False
      obtain x m4 where x: "read_aim m3 key a ?a2 = Some (x, m4)" "read_rest ?key2 a x m4 = Some (c, r)"
        using assms(1) changed False by (auto simp: start bind_eq_Some_conv)
      have aim: "read_aim m3 key (wire_command a) (wire_command ?a2) = Some (wire_command x, m4)" "length (uc_angles x) = 3"
        using read_aim_base [OF x(1) assms(2)] assms(2) by simp_all
      show ?thesis
        using read_rest_base [OF x(2) assms(2) aim(2)] aim(1) changed False by (simp add: start w(2) wire_fields(2))
    qed
  qed
qed

lemma read_usercmd_base:
  assumes "MSG_ReadDeltaUsercmdKey m key a = Some (c, r)" "length (uc_angles a) = 3"
  shows "MSG_ReadDeltaUsercmdKey m key (wire_command a) = Some (wire_command c, r) \<and> length (uc_angles c) = 3"
proof -
  obtain time m1 where t: "read_time m a = Some (time, m1)" "read_changes key a time m1 = Some (c, r)"
    using assms(1) by (auto simp: read_usercmd_parts bind_eq_Some_conv)
  have "read_time m (wire_command a) = read_time m a" by (simp add: read_time_def wire_fields(1) cong: if_cong)
  then show ?thesis using read_changes_base [OF t(2) assms(2)] t(1) by (simp add: read_usercmd_parts)
qed

text \<open>What is read against the wire form of the writer's base is the wire form of the command.\<close>

lemma usercmd_arrives:
  assumes "sees r (usercmd_ops key a b) r'" "command_ok a" "command_ok b"
  shows "MSG_ReadDeltaUsercmdKey r key (wire_command a) = Some (wire_command b, r')"
  using read_usercmd_seen [OF assms] read_usercmd_base assms(2) by (fastforce simp: command_ok_def)

end
