(* ===== verification/Msg_Shift.thy ===== *)
theory Msg_Shift
  imports Delta_Correct
begin

text \<open>
  A message behind a head. \<open>CL_WritePacket\<close> and \<open>SV_SendMessageToClient\<close> compress a message behind its
  first bytes, so the receiver reads the rest from a buffer of its own. What operations write behind
  a head is what they write at the start of such a buffer: the two messages stay \<open>shifted\<close>.
\<close>

section \<open>Two messages apart by a head\<close>

definition shifted :: "nat \<Rightarrow> 8 word list \<Rightarrow> msg_t \<Rightarrow> msg_t \<Rightarrow> bool" where
  "shifted n tail m d \<longleftrightarrow> msg_inv m \<and> msg_inv d \<and> m_overflowed d = m_overflowed m \<and>
     n \<le> length (m_data m) \<and> m_data d = drop n (m_data m) @ tail \<and>
     m_maxsize m = m_maxsize d + int n \<and> m_cursize m = m_cursize d + int n \<and>
     (m_bit m mod 8 = 0 \<and> m_bit d mod 8 = 0 \<or> m_bit m = m_bit d + 8 * int n)"

lemma shifted_mod: "shifted n tail m d \<Longrightarrow> m_bit d mod 8 = m_bit m mod 8"
  by (auto simp: shifted_def)

lemma shifted_free: "shifted n tail m d \<Longrightarrow> free_bits d = free_bits m"
  using shifted_mod [of n tail m d] by (simp add: free_bits_def neg_mod_8) (simp add: shifted_def)

lemma shifted_bounds:
  assumes "shifted n tail m d"
  shows "0 \<le> m_cursize d" "m_maxsize d \<le> int (length (m_data m)) - int n" "m_cursize d \<le> m_maxsize d"
  using assms by (auto simp: shifted_def msg_inv_def msg_wf_def)

lemma shifted_place:
  assumes "shifted n tail m d" "0 < free_bits m"
  shows "bit_place m = bit_place d + n" "bit_place d + n < length (m_data m)"
proof -
  have wf: "msg_wf m" "msg_wf d" using assms(1) by (simp_all add: shifted_def msg_inv_def)
  show place: "bit_place m = bit_place d + n"
  proof (cases "m_bit m mod 8 = 0")
    case True
    then show ?thesis
      using assms(1) shifted_bounds(1) [OF assms(1)] shifted_mod [OF assms(1)]
      by (simp add: bit_place_def shifted_def nat_add_distrib)
  next
    case False
    then have "m_bit m = m_bit d + 8 * int n" using assms(1) by (auto simp: shifted_def)
    moreover have "0 \<le> m_bit d" using wf(2) by (simp add: msg_wf_def)
    ultimately show ?thesis using False by (simp add: bit_place_def nat_add_distrib)
  qed
  have "int (bit_place m) < m_maxsize m" "m_maxsize m \<le> int (length (m_data m))"
    using bit_place_bounds [OF wf(1) assms(2)] wf(1) by (auto simp: msg_wf_def)
  then show "bit_place d + n < length (m_data m)" using place by simp
qed

lemma write_bit_shifted:
  assumes "shifted n tail m d" "0 < free_bits m" "write_bit v m = Some m'" "write_bit v d = Some d'"
  shows "shifted n tail m' d'"
proof -
  have inv: "msg_inv m" "msg_inv d" using assms(1) by (simp_all add: shifted_def)
  have free: "0 < free_bits d" using shifted_free [OF assms(1)] assms(2) by simp
  have wf: "msg_wf m" "free_bits_clear m" "msg_wf d" "free_bits_clear d" using inv by (simp_all add: msg_inv_def)
  have inv': "msg_inv m'" "msg_inv d'"
    using write_bit_step [OF wf(1) assms(2) wf(2), of v] write_bit_step [OF wf(3) free wf(4), of v] assms(3,4)
    by (auto simp: msg_inv_def)
  note place = shifted_place [OF assms(1,2)] and mod = shifted_mod [OF assms(1)]
  have data: "m_data d = drop n (m_data m) @ tail" and n: "n \<le> length (m_data m)" using assms(1) by (simp_all add: shifted_def)
  have less: "bit_place d < length (m_data m) - n" using place(2) by simp
  have old: "m_data d ! bit_place d = m_data m ! bit_place m"
    using place(1) data less n by (simp add: nth_append add.commute)
  have upd: "(m_data d)[bit_place d := x] = drop n ((m_data m)[bit_place m := x]) @ tail" for x
    using place(1) data less by (simp add: list_update_append drop_update_swap)
  have bits: "m_bit m mod 8 \<noteq> 0 \<Longrightarrow> m_bit m = m_bit d + 8 * int n" using assms(1) by (auto simp: shifted_def)
  show ?thesis
    using write_bit_eq [OF wf(1) assms(2), of v] write_bit_eq [OF wf(3) free, of v] assms(1,3,4) inv' upd mod old bits n
    by (auto simp: shifted_def split: if_splits)
qed

lemma WriteBits_loop_shifted:
  "shifted n tail m d \<Longrightarrow> int k \<le> free_bits m \<Longrightarrow> MSG_WriteBits_loop k w m = Some m' \<Longrightarrow>
   MSG_WriteBits_loop k w d = Some d' \<Longrightarrow> shifted n tail m' d'"
proof (induction k arbitrary: w m d)
  case 0
  then show ?case by simp
next
  case (Suc k)
  obtain m1 d1 where b: "write_bit (bit w 0) m = Some m1" "write_bit (bit w 0) d = Some d1"
      "MSG_WriteBits_loop k (drop_bit 1 w OR (w AND 0x80000000)) m1 = Some m'"
      "MSG_WriteBits_loop k (drop_bit 1 w OR (w AND 0x80000000)) d1 = Some d'"
    using Suc.prems(3,4) by (auto simp: WriteBits_loop_Suc bind_eq_Some_conv simp del: MSG_WriteBits_loop.simps)
  have room: "0 < free_bits m" using Suc.prems(2) by simp
  have inv: "msg_wf m" "free_bits_clear m" using Suc.prems(1) by (simp_all add: shifted_def msg_inv_def)
  have "free_bits m1 = free_bits m - 1" using write_bit_step [OF inv(1) room inv(2), of "bit w 0"] b(1) by auto
  then have "int k \<le> free_bits m1" using Suc.prems(2) by simp
  then show ?case
    using write_bit_shifted [OF Suc.prems(1) room b(1,2)] Suc.IH b(3,4) by blast
qed

lemma append_shifted:
  assumes s: "shifted n tail m d" and inv: "msg_inv (append_or_overflow bs m)" "msg_inv (append_or_overflow bs d)"
  shows "shifted n tail (append_or_overflow bs m) (append_or_overflow bs d)"
proof (cases "m_cursize m + int (length bs) \<le> m_maxsize m")
  case True
  then have fit: "m_cursize d + int (length bs) \<le> m_maxsize d" using s by (simp add: shifted_def)
  obtain c where c: "m_cursize d = int c" using shifted_bounds(1) [OF s] nonneg_int_cases by blast
  have cm: "nat (m_cursize m) = c + n" using s c by (simp add: shifted_def nat_add_distrib)
  have data: "m_data d = drop n (m_data m) @ tail" using s by (simp add: shifted_def)
  have le: "c + length bs + n \<le> length (m_data m)" using fit shifted_bounds(2) [OF s] c by simp
  have "m_data (put_bytes bs d) = drop n (m_data (put_bytes bs m)) @ tail"
    using le by (simp add: put_bytes_def data c cm drop_take algebra_simps)
  moreover have "n \<le> length (m_data (put_bytes bs m))" using le by (simp add: put_bytes_def cm)
  ultimately show ?thesis
    using s inv True fit by (auto simp: append_or_overflow_def shifted_def)
next
  case False
  then have "\<not> m_cursize d + int (length bs) \<le> m_maxsize d" using s by (simp add: shifted_def)
  then show ?thesis using s inv False by (auto simp: append_or_overflow_def shifted_def)
qed

section \<open>Operations\<close>

lemma write_op_inv: "msg_inv m \<Longrightarrow> op_ok x \<Longrightarrow> write_op x m = Some m' \<Longrightarrow> msg_inv m'"
  using write_op_step [of m x] by (auto simp: op_step_def)

lemma overflow_shifted:
  "shifted n tail m d \<Longrightarrow> shifted n tail (m\<lparr>m_overflowed := True\<rparr>) (d\<lparr>m_overflowed := True\<rparr>)"
  by (auto simp: shifted_def overflow_inv)

lemma write_op_shifted:
  assumes s: "shifted n tail m d" and ok: "op_ok x" and w: "write_op x m = Some m'" "write_op x d = Some d'"
  shows "shifted n tail m' d'"
proof -
  have inv: "msg_inv m" "msg_inv d" and wf: "msg_wf m" "msg_wf d" using s by (simp_all add: shifted_def msg_inv_def)
  have inv': "msg_inv m'" "msg_inv d'" using write_op_inv inv ok w by blast+
  have size: "m_maxsize d - m_cursize d = m_maxsize m - m_cursize m" using s by (simp add: shifted_def)
  show ?thesis
  proof (cases x)
    case (WBits v k)
    show ?thesis
    proof (cases "i32 (m_maxsize m - m_cursize m) < 4")
      case True
      then show ?thesis using w WBits size overflow_shifted [OF s] by (simp add: MSG_WriteBits_def)
    next
      case False
      have k: "u32 k = k" "0 \<le> k" "k \<le> 32" using ok WBits by (simp_all add: u32_id)
      then have "int (nat k) \<le> free_bits m" using free_bits_word [OF inv(1) False] by simp
      then show ?thesis
        using w WBits size False k WriteBits_loop_shifted [OF s, of "nat k" "word_of_int v" m' d']
        by (simp add: MSG_WriteBits_def)
    qed
  next
    case (WBit b)
    show ?thesis
    proof (cases "m_cursize m \<ge> m_maxsize m")
      case True
      then have "m_cursize d \<ge> m_maxsize d" using size by simp
      then show ?thesis using True w WBit overflow_shifted [OF s]
        by (auto simp: MSG_WriteBit0_def MSG_WriteBit1_def split: if_splits)
    next
      case False
      then have d: "\<not> m_cursize d \<ge> m_maxsize d" using size by simp
      have "0 < free_bits m" using False by (simp add: free_bits_def add_nonneg_pos)
      then show ?thesis
        using w WBit False d write_bit_shifted [OF s]
        by (cases b) (auto simp: WriteBit0_eq WriteBit1_eq)
    qed
  qed (use w ok wf inv' append_shifted [OF s] in
    \<open>auto simp: WriteByte_eq WriteShort_eq WriteLong_eq WriteData_eq WriteString_eq WriteBigString_eq\<close>)
qed

lemma write_ops_shifted:
  "shifted n tail m d \<Longrightarrow> list_all op_ok xs \<Longrightarrow> write_ops xs m = Some m' \<Longrightarrow> write_ops xs d = Some d' \<Longrightarrow>
   shifted n tail m' d'"
proof (induction xs arbitrary: m d)
  case (Cons x xs)
  then show ?case by (auto simp: bind_eq_Some_conv intro: write_op_shifted)
qed simp

text \<open>
  A buffer that holds, from its start, what was written behind a head of whole bytes shows a reader
  the operations, whatever follows.
\<close>

lemma behind_head_seen:
  assumes m0: "msg_inv m0" "m_bit m0 = 0" "m_cursize m0 = int n" "\<not> m_overflowed m0"
    and ops: "list_all op_ok xs" "write_ops xs m0 = Some m" "\<not> m_overflowed m"
    and r: "take (nat (m_cursize m - int n)) (m_data r) = take (nat (m_cursize m - int n)) (drop n (m_data m))"
      "m_cursize m - int n \<le> m_cursize r" "readable r" "length (m_data m) \<le> length (m_data r) + n"
  shows "\<exists>r'. sees (MSG_BeginReading r) xs r' \<and> m_readcount r' = m_cursize m - int n \<and> m_cursize r' = m_cursize r"
proof -
  have wf: "msg_wf m0" "free_bits_clear m0" using m0(1) by (simp_all add: msg_inv_def)
  have n: "n \<le> length (m_data m0)" using wf(1) m0(3) by (simp add: msg_wf_def)
  have frame: "same_frame m0 m" using write_ops_step [OF m0(1) ops(1)] ops(2) by auto
  then have len: "length (m_data m) = length (m_data m0)" by (simp add: same_frame_def)
  define tail where "tail = replicate (length (m_data r) + n - length (m_data m)) (0 :: 8 word)"
  define d0 where "d0 = MSG_Init (drop n (m_data m0) @ tail) (m_maxsize m0 - int n)"
  have init: "msg_inv d0"
    unfolding d0_def using wf(1) m0(3) n by (intro MSG_Init_inv) (auto simp: msg_wf_def)
  have s0: "shifted n tail m0 d0"
    using m0 init n by (simp add: shifted_def d0_def MSG_Init_def)
  obtain d where d: "write_ops xs d0 = Some d" "msg_inv d" "same_frame d0 d"
    using write_ops_step [OF init ops(1)] by auto
  have s: "shifted n tail m d" by (rule write_ops_shifted [OF s0 ops(1,2) d(1)])
  have cur: "m_cursize d = m_cursize m - int n" "m_overflowed d = m_overflowed m"
    "m_data d = drop n (m_data m) @ tail" using s by (simp_all add: shifted_def)
  have le: "nat (m_cursize d) \<le> length (drop n (m_data m))" using shifted_bounds [OF s] by simp
  have same: "take (nat (m_cursize d)) (m_data r) = take (nat (m_cursize d)) (m_data d)"
    using r(1) le by (simp add: cur)
  have "agree d (m_data d)" using d(2) agree_self by (simp add: msg_inv_def)
  moreover have "length (m_data r) = length (m_data d)"
    using r(4) n len by (simp add: cur(3) tail_def)
  moreover have "m_data r ! p = m_data d ! p" if "p < nat (m_cursize d)" for p
    using same that by (metis nth_take)
  ultimately have "agree d (m_data r)" by (simp add: agree_def)
  then have "sees (at_cursor d0 r) xs (at_cursor d r)"
    using written_seen [OF init ops(1) d(1)] ops(3) r(2,3) cur by simp
  moreover have "at_cursor d0 r = MSG_BeginReading r"
    by (simp add: at_cursor_def MSG_BeginReading_def d0_def MSG_Init_def)
  ultimately show ?thesis using cur by (intro exI [of _ "at_cursor d r"]) simp
qed

end
