(* ===== verification/Netchan_Correct.thy ===== *)
theory Netchan_Correct
  imports Netchan
begin

text \<open>
  What the packet channel promises: no packet makes it leave its buffers, a message sent on one
  channel is what the other delivers, whether or not it was cut into fragments, and sequence
  numbers only grow.
\<close>

section \<open>The invariant of a channel\<close>

definition stream_ok :: "netProfileStream_t \<Rightarrow> bool" where
  "stream_ok s \<longleftrightarrow> length (p_samples s) = 60 \<and> 0 \<le> p_ringIndex s \<and> p_ringIndex s < 60"

definition profile_ok :: "netProfileInfo_t option \<Rightarrow> bool" where
  "profile_ok p \<longleftrightarrow> (case p of None \<Rightarrow> True | Some i \<Rightarrow> stream_ok (p_send i) \<and> stream_ok (p_receive i))"

definition chan_ok :: "netchan_t \<Rightarrow> bool" where
  "chan_ok c \<longleftrightarrow> profile_ok (n_profile c) \<and> length (n_fragmentBuffer c) = 32768 \<and>
     length (n_unsentBuffer c) = 32768 \<and> 0 \<le> n_fragmentLength c \<and> n_fragmentLength c \<le> 32768 \<and>
     int32_range (n_incomingSequence c)"

lemma profile_ok_simps [simp]:
  "profile_ok None" "profile_ok (Some i) \<longleftrightarrow> stream_ok (p_send i) \<and> stream_ok (p_receive i)"
  by (simp_all add: profile_ok_def)

lemma stream_ok_zero [simp]: "stream_ok zero_stream"
  by (simp add: stream_ok_def zero_stream_def)

lemma Prep_Done:
  assumes "profile_ok p" "e_memory env"
  obtains mode p1 where
    "NetProf_PrepProfiling env p = Done (env\<lparr>e_activeMode := mode\<rparr>, p1)" "profile_ok p1"
    "mode = NET_PROFILE_OFF \<or> p1 \<noteq> None"
proof (cases "e_net_profile env = 0")
  case True
  then show ?thesis using that [of NET_PROFILE_OFF None] by (simp add: NetProf_PrepProfiling_def)
next
  case False
  define p1 where "p1 = (case p of None \<Rightarrow> Some zero_info | Some i \<Rightarrow> p)"
  define mode where "mode = (if e_activeMode env = NET_PROFILE_OFF then
    (if e_sv_running env = 0 \<or> (e_cl_running env \<noteq> 0 \<and> e_net_profile env = 2)
     then NET_PROFILE_CLIENT else NET_PROFILE_SERVER) else e_activeMode env)"
  have "NetProf_PrepProfiling env p = Done (env\<lparr>e_activeMode := mode\<rparr>, p1)"
    using False assms(2) by (cases p) (auto simp: NetProf_PrepProfiling_def mode_def p1_def)
  moreover have "profile_ok p1" "p1 \<noteq> None"
    using assms(1) by (cases p; simp add: p1_def zero_info_def)+
  ultimately show ?thesis using that by blast
qed

lemma AddPacket_Some:
  assumes "stream_ok s"
  obtains s1 where "NetProf_AddPacket env s len f = Some s1" "stream_ok s1"
proof -
  let ?k = "i32 (p_ringIndex s + 1) smod 60"
  have "?k = (p_ringIndex s + 1) mod 60"
    using assms by (simp add: stream_ok_def i32_simps)
  then have "0 \<le> ?k" "?k < 60" by simp_all
  then show ?thesis
    using assms that by (simp add: NetProf_AddPacket_def stream_ok_def mem_simps Let_def)
qed

lemma NewSend_Some:
  assumes "profile_ok (n_profile c)" "e_activeMode env = NET_PROFILE_OFF \<or> n_profile c \<noteq> None"
  obtains p where "NetProf_NewSendPacket env c len f = Some (c\<lparr>n_profile := p\<rparr>)" "profile_ok p"
proof (cases "e_activeMode env = NET_PROFILE_OFF")
  case True
  then show ?thesis using that [of "n_profile c"] assms by (simp add: NetProf_NewSendPacket_def)
next
  case False
  then obtain i where i: "n_profile c = Some i" using assms(2) by blast
  then obtain s where "NetProf_AddPacket env (p_send i) len f = Some s" "stream_ok s"
    using AddPacket_Some [of "p_send i" env len f] assms(1) by auto
  then show ?thesis
    using that [of "Some (i\<lparr>p_send := s\<rparr>)"] False i assms(1) by (simp add: NetProf_NewSendPacket_def)
qed

lemma NewRecieve_Some:
  assumes "profile_ok (n_profile c)" "e_activeMode env = NET_PROFILE_OFF \<or> n_profile c \<noteq> None"
  obtains p where "NetProf_NewRecievePacket env c len f = Some (c\<lparr>n_profile := p\<rparr>)" "profile_ok p"
proof (cases "e_activeMode env = NET_PROFILE_OFF")
  case True
  then show ?thesis using that [of "n_profile c"] assms by (simp add: NetProf_NewRecievePacket_def)
next
  case False
  then obtain i where i: "n_profile c = Some i" using assms(2) by blast
  then obtain s where "NetProf_AddPacket env (p_receive i) len f = Some s" "stream_ok s"
    using AddPacket_Some [of "p_receive i" env len f] assms(1) by auto
  then show ?thesis
    using that [of "Some (i\<lparr>p_receive := s\<rparr>)"] False i assms(1) by (simp add: NetProf_NewRecievePacket_def)
qed

section \<open>Receiving\<close>

definition got :: "netProfileInfo_t option \<Rightarrow> (netchan_t \<times> msg_t \<times> bool) option \<Rightarrow>
    (netchan_t \<times> msg_t \<times> bool) option" where
  "got p x = map_option (\<lambda>(c, m, b). (c\<lparr>n_profile := p\<rparr>, m, b)) x"

lemma got_simps [simp]: "got p (Some (c, m, b)) = Some (c\<lparr>n_profile := p\<rparr>, m, b)" "got p None = None"
  by (simp_all add: got_def)

lemma accept_fragment_profile:
  "accept_fragment (c\<lparr>n_profile := p\<rparr>) m q n = got p (accept_fragment c m q n)"
  by (auto simp: accept_fragment_def got_def Let_def split: bind_splits prod.splits)

lemma receive_packet_profile:
  "receive_packet (c\<lparr>n_profile := p\<rparr>) m q f st n = got p (receive_packet c m q f st n)"
proof -
  have swap: "c\<lparr>n_profile := p, n_dropped := d\<rparr> = c\<lparr>n_dropped := d, n_profile := p\<rparr>"
    "c\<lparr>n_profile := p, n_fragmentSequence := q\<rparr> = c\<lparr>n_fragmentSequence := q, n_profile := p\<rparr>"
    "c\<lparr>n_profile := p, n_fragmentLength := 0\<rparr> = c\<lparr>n_fragmentLength := 0, n_profile := p\<rparr>"
    "c\<lparr>n_profile := p, n_incomingSequence := q\<rparr> = c\<lparr>n_incomingSequence := q, n_profile := p\<rparr>"
    for c :: netchan_t and d
    by simp_all
  show ?thesis
    by (simp add: receive_packet_def Let_def swap accept_fragment_profile)
qed

text \<open>
  The header as \<open>Netchan_Process\<close> reads it. The profile is all its hooks change.
\<close>

lemma Netchan_Process_header:
  assumes "profile_ok (n_profile c)" "e_memory env"
    and "MSG_ReadLong (MSG_BeginReading m) = Some (raw, m1)"
    and "(if n_sock c = NS_SERVER then MSG_ReadShort m1 else Some (0, m1)) = Some (z, m2)"
    and "(if raw < 0 then MSG_ReadShort m2 else Some (0, m2)) = Some (st, m3)"
    and "(if raw < 0 then MSG_ReadShort m3 else Some (0, m3)) = Some (n, m4)"
  obtains mode p where "profile_ok p"
    "Netchan_Process env c m = checked (map_option (Pair (env\<lparr>e_activeMode := mode\<rparr>))
       (got p (receive_packet c m4 (if raw < 0 then u32 raw AND 0x7FFFFFFF else raw) (raw < 0) st n)))"
proof -
  obtain mode p1 where p1: "NetProf_PrepProfiling env (n_profile c) = Done (env\<lparr>e_activeMode := mode\<rparr>, p1)"
      "profile_ok p1" "mode = NET_PROFILE_OFF \<or> p1 \<noteq> None"
    using Prep_Done [OF assms(1,2)] by metis
  obtain p where p: "NetProf_NewRecievePacket (env\<lparr>e_activeMode := mode\<rparr>) (c\<lparr>n_profile := p1\<rparr>)
      (m_cursize m) (raw < 0) = Some (c\<lparr>n_profile := p\<rparr>)" "profile_ok p"
    using NewRecieve_Some [of "c\<lparr>n_profile := p1\<rparr>" "env\<lparr>e_activeMode := mode\<rparr>"] p1(2,3) by auto
  have "Netchan_Process env c m = checked (map_option (Pair (env\<lparr>e_activeMode := mode\<rparr>))
       (got p (receive_packet c m4 (if raw < 0 then u32 raw AND 0x7FFFFFFF else raw) (raw < 0) st n)))"
    unfolding Netchan_Process_def p1(1) run_bind.simps prod.case assms(3) bind.bind_lunit Let_def
      assms(4-6) p(1) receive_packet_profile
    by (auto simp: got_def split: bind_splits)
  with p(2) that show ?thesis by blast
qed

definition big_enough :: "msg_t \<Rightarrow> bool" where
  "big_enough m \<longleftrightarrow> read_inv m \<and> 32772 \<le> m_maxsize m \<and> m_maxsize m \<le> int (length (m_data m)) \<and>
     m_maxsize m < 268435456"

definition received_ok :: "netchan_t \<Rightarrow> int \<Rightarrow> netchan_t \<times> msg_t \<times> bool \<Rightarrow> bool" where
  "received_ok c q x = (case x of (c', m', b) \<Rightarrow>
     chan_ok c' \<and> big_enough m' \<and> n_incomingSequence c \<le> n_incomingSequence c' \<and>
     (b \<longrightarrow> n_incomingSequence c < n_incomingSequence c' \<and> n_incomingSequence c' = q) \<and>
     (\<not> b \<longrightarrow> n_incomingSequence c' = n_incomingSequence c))"

lemma big_enough_BeginReading [simp]:
  "read_inv m \<Longrightarrow> read_inv (MSG_BeginReading m)" "big_enough m \<Longrightarrow> big_enough (MSG_BeginReading m)"
  by (auto simp: big_enough_def MSG_BeginReading_def read_inv_def)

lemma big_enough_read:
  "reads_ok m x \<Longrightarrow> big_enough m \<Longrightarrow> \<exists>v m'. x = Some (v, m') \<and> big_enough m' \<and> same_buffer m m'"
  by (auto simp: reads_ok_def big_enough_def same_buffer_def)

lemma accept_fragment_ok:
  assumes c: "chan_ok c" and m: "big_enough m" and n: "n < 32768" and q: "int32_range q"
    and new: "n_incomingSequence c < q"
  shows "\<exists>x. accept_fragment c m q n = Some x \<and> received_ok c q x"
proof (cases "n < 0 \<or> i32 (m_readcount m + n) > m_cursize m \<or> u32 (n_fragmentLength c + n) > 32768")
  case True
  then have "accept_fragment c m q n = Some (c, m, False)" by (auto simp: accept_fragment_def)
  then show ?thesis using c m by (simp add: received_ok_def)
next
  case False
  let ?len = "n_fragmentLength c + n"
  have fl: "0 \<le> n_fragmentLength c" "n_fragmentLength c \<le> 32768"
      "length (n_fragmentBuffer c) = 32768" using c by (auto simp: chan_ok_def)
  have n0: "0 \<le> n" and rd: "0 \<le> m_readcount m" "m_readcount m + n \<le> m_cursize m"
    using False m n by (auto simp: big_enough_def read_inv_def i32_simps)
  have len: "?len \<le> 32768" using False fl n n0 by (simp add: i32_simps)
  obtain src where src: "copy_out (m_data m) (m_readcount m) n = Some src"
    using rd n0 m by (simp add: copy_out_def big_enough_def read_inv_def)
  have lsrc: "int (length src) = n" using copy_out_length [OF src] n0 by simp
  then obtain buffer where buffer: "copy_in (n_fragmentBuffer c) (n_fragmentLength c) src = Some buffer"
    using fl len by (simp add: copy_in_def)
  have lbuf: "length buffer = 32768" using copy_in_length [OF buffer] fl by simp
  let ?c1 = "c\<lparr>n_fragmentBuffer := buffer, n_fragmentLength := ?len\<rparr>"
  have c1: "chan_ok ?c1" using c lbuf fl n0 len by (simp add: chan_ok_def)
  have i32_len: "i32 ?len = ?len" using fl n0 len by (simp add: i32_simps)
  have step: "accept_fragment c m q n =
      (if n = 1300 \<or> ?len > m_maxsize m then Some (?c1, m, False)
       else do {
         header \<leftarrow> copy_in (m_data m) 0 (le32 q);
         body \<leftarrow> copy_out buffer 0 ?len;
         data \<leftarrow> copy_in header 4 body;
         (_, m1) \<leftarrow> MSG_ReadLong (MSG_BeginReading (m\<lparr>m_data := data, m_cursize := ?len + 4\<rparr>));
         Some (?c1\<lparr>n_fragmentLength := 0, n_incomingSequence := q\<rparr>, m1, True) })"
    using False by (simp add: accept_fragment_def src buffer i32_len Let_def)
  show ?thesis
  proof (cases "n = 1300 \<or> ?len > m_maxsize m")
    case True
    then show ?thesis using step c1 m by (simp add: received_ok_def)
  next
    case fin: False
    obtain header where header: "copy_in (m_data m) 0 (le32 q) = Some header"
      using m by (simp add: copy_in_def big_enough_def)
    obtain body where body: "copy_out buffer 0 ?len = Some body"
      using fl n0 len lbuf by (simp add: copy_out_def)
    have lbody: "int (length body) = ?len" using copy_out_length [OF body] fl n0 by simp
    have lhead: "length header = length (m_data m)" by (rule copy_in_length [OF header])
    obtain data where data: "copy_in header 4 body = Some data"
      using m lhead lbody len by (simp add: copy_in_def big_enough_def)
    let ?m1 = "m\<lparr>m_data := data, m_cursize := ?len + 4\<rparr>"
    have "length data = length (m_data m)" using copy_in_length [OF data] lhead by simp
    then have "big_enough (MSG_BeginReading ?m1)"
      using m len fl n0 by (simp add: big_enough_def read_inv_def MSG_BeginReading_def)
    moreover from this have "reads_ok (MSG_BeginReading ?m1) (MSG_ReadLong (MSG_BeginReading ?m1))"
      by (intro MSG_ReadLong_ok) (simp add: big_enough_def)
    ultimately obtain v m1 where "MSG_ReadLong (MSG_BeginReading ?m1) = Some (v, m1)" "big_enough m1"
      using big_enough_read by blast
    then show ?thesis
      using step fin header body data c1 q new by (simp add: received_ok_def chan_ok_def)
  qed
qed

lemma receive_packet_ok:
  assumes c: "chan_ok c" and m: "big_enough m" and n: "n < 32768" and q: "int32_range q"
  shows "\<exists>x. receive_packet c m q f st n = Some x \<and> received_ok c q x"
proof (cases "q \<le> n_incomingSequence c")
  case True
  then show ?thesis using c m by (simp add: receive_packet_def received_ok_def)
next
  case False
  define c1 where "c1 = c\<lparr>n_dropped := i32 (i32 (q - n_incomingSequence c) - 1)\<rparr>"
  define c2 where "c2 = (if q \<noteq> n_fragmentSequence c1
    then c1\<lparr>n_fragmentSequence := q, n_fragmentLength := 0\<rparr> else c1)"
  have c1: "chan_ok c1" "n_incomingSequence c1 = n_incomingSequence c"
    using c by (simp_all add: c1_def chan_ok_def)
  have c2: "chan_ok c2" "n_incomingSequence c2 = n_incomingSequence c"
    using c1 by (simp_all add: c2_def chan_ok_def)
  have "receive_packet c m q f st n =
      (if \<not> f then Some (c1\<lparr>n_incomingSequence := q\<rparr>, m, True)
       else if st \<noteq> n_fragmentLength c2 then Some (c2, m, False)
       else accept_fragment c2 m q n)"
    using False by (simp add: receive_packet_def Let_def flip: c1_def c2_def)
  moreover have "\<exists>x. accept_fragment c2 m q n = Some x \<and> received_ok c2 q x"
    using False c2 by (intro accept_fragment_ok m n q) simp_all
  ultimately show ?thesis
    using False c1 c2 m q by (auto simp: received_ok_def chan_ok_def)
qed

lemma received_ok_profile:
  "received_ok c q (c', m, b) \<Longrightarrow> profile_ok p \<Longrightarrow> received_ok c q (c'\<lparr>n_profile := p\<rparr>, m, b)"
  by (auto simp: received_ok_def chan_ok_def)

lemma MSG_ReadLong_range: "MSG_ReadLong r = Some (v, r') \<Longrightarrow> int32_range v"
  by (auto simp: MSG_ReadLong_def int32_range_def Let_def bind_eq_Some_conv sint_word_of_int_32 i32_range
      split: if_splits intro: sint_ge [where 'a = 32, simplified] sint_lt [where 'a = 32, simplified])

lemma MSG_ReadShort_range: "MSG_ReadShort r = Some (v, r') \<Longrightarrow> v < 32768"
  by (auto simp: MSG_ReadShort_def Let_def bind_eq_Some_conv
      split: if_splits intro: sint_lt [where 'a = 16, simplified])

lemma and_31: "(x :: int) AND 0x7FFFFFFF = x mod 2147483648"
  using take_bit_eq_mask [of 31 x] by (simp add: mask_eq_exp_minus_1 take_bit_eq_mod)

lemma sequence_range: "int32_range raw \<Longrightarrow> int32_range (if raw < 0 then u32 raw AND 0x7FFFFFFF else raw)"
  by (auto simp: int32_range_def and_31 intro: order_less_trans [OF pos_mod_bound] order_trans [OF _ pos_mod_sign])

section \<open>Safety\<close>

lemma Netchan_Process_ok:
  assumes c: "chan_ok c" and env: "e_memory env" and m: "big_enough m"
  shows "\<exists>mode q x. Netchan_Process env c m = Done (env\<lparr>e_activeMode := mode\<rparr>, x) \<and> received_ok c q x"
proof -
  let ?m0 = "MSG_BeginReading m"
  have read: "big_enough r \<Longrightarrow> read_inv r" for r by (simp add: big_enough_def)
  obtain raw m1 where m1: "MSG_ReadLong ?m0 = Some (raw, m1)" "big_enough m1"
    using big_enough_read [OF MSG_ReadLong_ok] m by (metis big_enough_BeginReading(2) read)
  have short: "\<exists>v m'. (if b then MSG_ReadShort r else Some (0, r)) = Some (v, m') \<and> big_enough m' \<and> v < 32768"
    if "big_enough r" for b r
    using big_enough_read [OF MSG_ReadShort_ok that] that by (auto simp: read dest: MSG_ReadShort_range)
  obtain z m2 where m2: "(if n_sock c = NS_SERVER then MSG_ReadShort m1 else Some (0, m1)) = Some (z, m2)"
      "big_enough m2" using short [OF m1(2)] by blast
  obtain st m3 where m3: "(if raw < 0 then MSG_ReadShort m2 else Some (0, m2)) = Some (st, m3)"
      "big_enough m3" using short [OF m2(2)] by blast
  obtain n m4 where m4: "(if raw < 0 then MSG_ReadShort m3 else Some (0, m3)) = Some (n, m4)"
      "big_enough m4" "n < 32768" using short [OF m3(2)] by blast
  let ?q = "if raw < 0 then u32 raw AND 0x7FFFFFFF else raw"
  obtain mode p where p: "profile_ok p" "Netchan_Process env c m = checked (map_option (Pair (env\<lparr>e_activeMode := mode\<rparr>)) (got p (receive_packet c m4 ?q (raw < 0) st n)))"
    using Netchan_Process_header [OF _ env m1(1) m2(1) m3(1) m4(1)] c unfolding chan_ok_def by metis
  obtain c' m' b where "receive_packet c m4 ?q (raw < 0) st n = Some (c', m', b)" "received_ok c ?q (c', m', b)"
    using receive_packet_ok [OF c m4(2,3) sequence_range [OF MSG_ReadLong_range [OF m1(1)]]] by (metis prod_cases3)
  moreover from this(2) p(1) have "received_ok c ?q (c'\<lparr>n_profile := p\<rparr>, m', b)"
    by (rule received_ok_profile)
  ultimately show ?thesis using p(2) by auto
qed

section \<open>Sending\<close>

definition qport_bytes :: "net_env \<Rightarrow> netsrc_t \<Rightarrow> 8 word list" where
  "qport_bytes env sock = (if sock = NS_CLIENT then le16 (e_net_qport env) else [])"

definition fragment :: "8 word list \<Rightarrow> nat \<Rightarrow> 8 word list" where
  "fragment data k = take 1300 (drop (1300 * k) data)"

definition fragment_packet :: "net_env \<Rightarrow> netsrc_t \<Rightarrow> int \<Rightarrow> 8 word list \<Rightarrow> nat \<Rightarrow> 8 word list" where
  "fragment_packet env sock q data k =
     le32 (q - 2147483648) @ qport_bytes env sock @ le16 (int (1300 * k)) @
     le16 (int (length (fragment data k))) @ fragment data k"

lemma qport_bytes_mode [simp]: "qport_bytes (env\<lparr>e_activeMode := mode\<rparr>) sock = qport_bytes env sock"
  by (simp add: qport_bytes_def)

lemma fragment_packet_mode [simp]:
  "fragment_packet (env\<lparr>e_activeMode := mode\<rparr>) = fragment_packet env"
  by (intro ext) (simp add: fragment_packet_def)

lemma length_qport_bytes: "length (qport_bytes env sock) \<le> 2"
  by (simp add: qport_bytes_def)

lemma length_fragment: "length (fragment data k) = min 1300 (length data - 1300 * k)"
  by (simp add: fragment_def)

lemma builds_qport:
  assumes "builds m bs" "int (length bs) + 2 \<le> m_maxsize m"
  shows "\<exists>m'. (if sock = NS_CLIENT then MSG_WriteShort m (e_net_qport env) else Some m) = Some m' \<and>
    builds m' (bs @ qport_bytes env sock) \<and> m_maxsize m' = m_maxsize m"
  using assms by (auto simp: qport_bytes_def builds_WriteShort intro!: builds_put)

text \<open>A channel in the middle of sending \<open>data\<close> as sequence \<open>q\<close>: \<open>k\<close> fragments are out.\<close>

definition sending :: "netchan_t \<Rightarrow> 8 word list \<Rightarrow> nat \<Rightarrow> bool" where
  "sending s data k \<longleftrightarrow> profile_ok (n_profile s) \<and> n_unsentFragments s \<and>
     n_unsentLength s = int (length data) \<and> take (length data) (n_unsentBuffer s) = data \<and>
     n_unsentFragmentStart s = int (1300 * k) \<and> 1300 * k \<le> length data \<and> length data \<le> 32768 \<and>
     0 \<le> n_outgoingSequence s \<and> n_outgoingSequence s < 2147483647"

lemma sending_size:
  "sending s data k \<Longrightarrow> fragment_size s = int (length (fragment data k))"
  by (auto simp: sending_def fragment_size_def length_fragment i32_simps min_def)

lemma or_sign: "0 \<le> q \<Longrightarrow> q < 2147483648 \<Longrightarrow> i32 (u32 q OR 0x80000000) = q - 2147483648"
proof -
  assume q: "0 \<le> q" "q < 2147483648"
  have "q OR 0x80000000 = q + 2147483648"
  proof (rule disjunctive_add [symmetric])
    fix n
    have "\<not> bit q n" if "n = 31" using q that by (simp add: bit_iff_odd)
    moreover have "bit (2147483648 :: int) n \<longleftrightarrow> n = 31"
      using bit_exp_iff [where 'a = int, of 31 n] by simp
    ultimately show "\<not> bit q n \<or> \<not> bit (2147483648 :: int) n" by blast
  qed
  then show ?thesis using q by (simp add: u32_id i32_def)
qed

lemma fragment_message_eq:
  assumes s: "sending s data k"
  shows "\<exists>m. fragment_message env s = Some m \<and>
     packet_bytes m = fragment_packet env (n_sock s) (n_outgoingSequence s) data k"
proof -
  let ?f = "fragment data k"
  let ?h = "le32 (n_outgoingSequence s - 2147483648)"
  have lens: "length ?f \<le> 1300" "1300 * k + length ?f \<le> length data"
    using s by (auto simp: sending_def length_fragment)
  define m0 where "m0 = MSG_Init (replicate 1400 0) 1400"
  have b0: "builds m0 []" and max: "m_maxsize m0 = 1400"
    unfolding m0_def by (rule builds_Init; simp) (simp add: MSG_Init_def)
  define m1 where "m1 = put_bytes ?h m0"
  have w1: "MSG_WriteLong m0 (n_outgoingSequence s - 2147483648) = Some m1"
    unfolding m1_def by (rule builds_WriteLong [OF b0]) (simp add: max)
  have b1: "builds m1 ?h" "m_maxsize m1 = 1400"
    using builds_put [OF b0, of ?h] max by (simp_all add: m1_def)
  obtain m2 where w2: "(if n_sock s = NS_CLIENT then MSG_WriteShort m1 (e_net_qport env) else Some m1) = Some m2"
      and b2: "builds m2 (?h @ qport_bytes env (n_sock s))" "m_maxsize m2 = 1400"
    using builds_qport [OF b1(1), where sock = "n_sock s" and env = env] b1(2) by auto
  note qb = length_qport_bytes [of env "n_sock s"]
  define m3 where "m3 = put_bytes (le16 (int (1300 * k))) m2"
  have w3: "MSG_WriteShort m2 (int (1300 * k)) = Some m3"
    unfolding m3_def by (rule builds_WriteShort [OF b2(1)]) (use qb b2(2) in simp)
  have b3: "builds m3 ((?h @ qport_bytes env (n_sock s)) @ le16 (int (1300 * k)))" "m_maxsize m3 = 1400"
    unfolding m3_def using qb b2(2) builds_put [OF b2(1), of "le16 (int (1300 * k))"] by simp_all
  define m4 where "m4 = put_bytes (le16 (int (length ?f))) m3"
  have w4: "MSG_WriteShort m3 (int (length ?f)) = Some m4"
    unfolding m4_def by (rule builds_WriteShort [OF b3(1)]) (use qb b3(2) in simp)
  have b4: "builds m4 (((?h @ qport_bytes env (n_sock s)) @ le16 (int (1300 * k))) @ le16 (int (length ?f)))"
      "m_maxsize m4 = 1400"
    unfolding m4_def using qb b3(2) builds_put [OF b3(1), of "le16 (int (length ?f))"] by simp_all
  define src where "src = drop (1300 * k) (n_unsentBuffer s)"
  have lb: "length data \<le> length (n_unsentBuffer s)"
    using s by (metis sending_def length_take min.cobounded1)
  have src: "from_offset (n_unsentBuffer s) (int (1300 * k)) = Some src"
    using s lb by (simp add: src_def from_offset_def sending_def nat_mult_distrib)
  have tk: "take (length ?f) src = ?f"
  proof -
    have "take (length ?f) (drop (1300 * k) (take (length data) (n_unsentBuffer s))) = ?f"
      using s by (simp add: sending_def fragment_def min_def)
    moreover have "length ?f \<le> length data - 1300 * k" using lens by linarith
    ultimately show ?thesis by (simp add: src_def drop_take min_def)
  qed
  have lsrc: "int (length ?f) \<le> int (length src)" using lb lens by (simp add: src_def)
  have w5: "MSG_WriteData m4 src (int (length ?f)) = Some (put_bytes ?f m4)"
    using builds_WriteData [OF b4(1) _ lsrc] b4(2) qb lens(1) tk by simp
  have b5: "builds (put_bytes ?f m4) ((((?h @ qport_bytes env (n_sock s)) @ le16 (int (1300 * k))) @
      le16 (int (length ?f))) @ ?f)"
    using qb b4(2) lens(1) builds_put [OF b4(1), of ?f] by simp
  have start: "n_unsentFragmentStart s = int (1300 * k)" and q: "0 \<le> n_outgoingSequence s" "n_outgoingSequence s < 2147483648"
    using s by (auto simp: sending_def)
  have "fragment_message env s = Some (put_bytes ?f m4)"
    unfolding fragment_message_def Let_def sending_size [OF s] start or_sign [OF q]
    by (simp only: m0_def [symmetric] w1 w2 w3 w4 src w5 bind.bind_lunit)
  moreover have "packet_bytes (put_bytes ?f m4) = fragment_packet env (n_sock s) (n_outgoingSequence s) data k"
    using builds_packet [OF b5] by (simp add: packet_bytes_def fragment_packet_def)
  ultimately show ?thesis by blast
qed

definition after_fragment :: "netchan_t \<Rightarrow> 8 word list \<Rightarrow> nat \<Rightarrow> netProfileInfo_t option \<Rightarrow> netchan_t" where
  "after_fragment s data k p =
     (if length (fragment data k) < 1300
      then s\<lparr>n_profile := p, n_unsentFragmentStart := int (length data),
             n_outgoingSequence := n_outgoingSequence s + 1, n_unsentFragments := False\<rparr>
      else s\<lparr>n_profile := p, n_unsentFragmentStart := int (1300 * Suc k)\<rparr>)"

lemma TransmitNextFragment_step:
  assumes s: "sending s data k" and env: "e_memory env"
  obtains mode p where "profile_ok p"
    "Netchan_TransmitNextFragment env s =
       Done (env\<lparr>e_activeMode := mode\<rparr>, after_fragment s data k p,
             fragment_packet env (n_sock s) (n_outgoingSequence s) data k)"
proof -
  let ?f = "fragment data k"
  have ok: "profile_ok (n_profile s)" using s by (simp add: sending_def)
  obtain mode p1 where p1: "NetProf_PrepProfiling env (n_profile s) = Done (env\<lparr>e_activeMode := mode\<rparr>, p1)"
      "profile_ok p1" "mode = NET_PROFILE_OFF \<or> p1 \<noteq> None"
    using Prep_Done [OF ok env] by metis
  let ?s1 = "s\<lparr>n_profile := p1\<rparr>" and ?env1 = "env\<lparr>e_activeMode := mode\<rparr>"
  have s1: "sending ?s1 data k" using s p1(2) by (simp add: sending_def)
  obtain m where m: "fragment_message ?env1 ?s1 = Some m"
      "packet_bytes m = fragment_packet env (n_sock s) (n_outgoingSequence s) data k"
    using fragment_message_eq [OF s1, of ?env1] by auto
  obtain p where p: "NetProf_NewSendPacket ?env1 ?s1 (m_cursize m) True = Some (?s1\<lparr>n_profile := p\<rparr>)"
      "profile_ok p"
    using NewSend_Some [of ?s1 ?env1] p1(2,3) by auto
  have st: "n_unsentFragmentStart s = int (1300 * k)" "n_unsentLength s = int (length data)"
      "1300 * k \<le> length data" "length data \<le> 32768"
      "0 \<le> n_outgoingSequence s" "n_outgoingSequence s < 2147483647"
    using s by (auto simp: sending_def)
  have next': "i32 (int (1300 * k) + int (length ?f)) = int (1300 * k + length ?f)"
    using st by (simp add: length_fragment i32_simps)
  have fin: "int (1300 * k + length ?f) = int (length data) \<and> int (length ?f) \<noteq> 1300 \<longleftrightarrow> length ?f < 1300"
    using st by (auto simp: length_fragment)
  have inc: "i32 (n_outgoingSequence s + 1) = n_outgoingSequence s + 1"
    using st by (simp add: i32_simps)
  have "Netchan_TransmitNextFragment env s =
       Done (?env1, after_fragment s data k p,
             fragment_packet env (n_sock s) (n_outgoingSequence s) data k)"
  proof (cases "length ?f < 1300")
    case True
    then have "1300 * k + length ?f = length data" using st by (auto simp: length_fragment)
    with True st p(1) inc next' show ?thesis
      by (simp add: Netchan_TransmitNextFragment_def p1(1) m Let_def sending_size [OF s1] after_fragment_def)
  next
    case False
    then have "length ?f = 1300" by (simp add: length_fragment)
    with st p(1) next' show ?thesis
      by (simp add: Netchan_TransmitNextFragment_def p1(1) m Let_def sending_size [OF s1] after_fragment_def)
  qed
  with p(2) that show ?thesis by blast
qed

lemma sending_next:
  assumes "sending s data k" "profile_ok p" "\<not> length (fragment data k) < 1300"
  shows "sending (after_fragment s data k p) data (Suc k)"
  using assms by (auto simp: sending_def after_fragment_def length_fragment)

definition packets_from :: "net_env \<Rightarrow> netsrc_t \<Rightarrow> int \<Rightarrow> 8 word list \<Rightarrow> nat \<Rightarrow> 8 word list list" where
  "packets_from env sock q data k = map (fragment_packet env sock q data) [k..<length data div 1300 + 1]"

lemma packets_from_mode [simp]: "packets_from (env\<lparr>e_activeMode := mode\<rparr>) = packets_from env"
  by (intro ext) (simp add: packets_from_def)

lemma packets_from_step:
  "k \<le> length data div 1300 \<Longrightarrow>
   packets_from env sock q data k = fragment_packet env sock q data k # packets_from env sock q data (Suc k)"
  using upt_conv_Cons [of k "length data div 1300 + 1"] by (simp add: packets_from_def del: upt_Suc)

lemma full_fragment: "length (fragment data k) < 1300 \<longleftrightarrow> length data div 1300 \<le> k"
proof -
  have "length data div 1300 \<le> k \<longleftrightarrow> length data < Suc k * 1300"
    using div_less_iff_less_mult [of 1300 "length data" "Suc k"] by (simp add: less_Suc_eq_le)
  then show ?thesis by (auto simp: length_fragment min_def)
qed

lemma sending_count: "sending s data k \<Longrightarrow> k \<le> length data div 1300"
  by (simp add: sending_def less_eq_div_iff_mult_less_eq mult.commute)

lemma transmit_rest_eq:
  assumes "sending s data k" "e_memory env" "length data div 1300 + 1 - k \<le> n"
  shows "\<exists>mode s'. transmit_rest n env s =
     Done (env\<lparr>e_activeMode := mode\<rparr>, s', packets_from env (n_sock s) (n_outgoingSequence s) data k) \<and>
     \<not> n_unsentFragments s' \<and> n_outgoingSequence s' = n_outgoingSequence s + 1 \<and>
     profile_ok (n_profile s') \<and> n_sock s' = n_sock s"
  using assms
proof (induction n arbitrary: s env k)
  case 0
  then show ?case using sending_count [OF "0.prems"(1)] by simp
next
  case (Suc n)
  have uf: "n_unsentFragments s" using Suc.prems(1) by (simp add: sending_def)
  have k: "k \<le> length data div 1300" by (rule sending_count [OF Suc.prems(1)])
  obtain mode p where p: "profile_ok p" "Netchan_TransmitNextFragment env s =
       Done (env\<lparr>e_activeMode := mode\<rparr>, after_fragment s data k p,
             fragment_packet env (n_sock s) (n_outgoingSequence s) data k)"
    using TransmitNextFragment_step [OF Suc.prems(1,2)] by blast
  let ?s1 = "after_fragment s data k p" and ?env1 = "env\<lparr>e_activeMode := mode\<rparr>"
  show ?case
  proof (cases "length (fragment data k) < 1300")
    case True
    then have last: "length data div 1300 = k" using k full_fragment [of data k] by simp
    have "transmit_rest n ?env1 ?s1 = Done (?env1, ?s1, [])"
      using True by (subst transmit_rest.simps) (simp add: after_fragment_def)
    then have "transmit_rest (Suc n) env s = Done (?env1, ?s1,
        packets_from env (n_sock s) (n_outgoingSequence s) data k)"
      by (subst transmit_rest.simps) (simp add: uf p(2) packets_from_def last)
    then show ?thesis using True p(1) by (auto simp: after_fragment_def)
  next
    case False
    have fuel: "length data div 1300 + 1 - Suc k \<le> n" and env1: "e_memory ?env1"
      using Suc.prems(2,3) by simp_all
    obtain mode2 s2 where s2: "transmit_rest n ?env1 ?s1 =
        Done (?env1\<lparr>e_activeMode := mode2\<rparr>, s2, packets_from ?env1 (n_sock ?s1) (n_outgoingSequence ?s1) data (Suc k))"
        "\<not> n_unsentFragments s2" "n_outgoingSequence s2 = n_outgoingSequence ?s1 + 1"
        "profile_ok (n_profile s2)" "n_sock s2 = n_sock ?s1"
      using Suc.IH [OF sending_next [OF Suc.prems(1) p(1) False] env1 fuel] by blast
    have keep: "n_sock ?s1 = n_sock s" "n_outgoingSequence ?s1 = n_outgoingSequence s"
      using False by (simp_all add: after_fragment_def)
    have "transmit_rest (Suc n) env s = Done (env\<lparr>e_activeMode := mode2\<rparr>, s2,
        packets_from env (n_sock s) (n_outgoingSequence s) data k)"
      by (subst transmit_rest.simps) (simp add: uf p(2) s2(1) keep packets_from_step [OF k])
    then show ?thesis using s2(2-5) keep by auto
  qed
qed

section \<open>Reassembling\<close>

definition pending :: "netchan_t \<Rightarrow> int \<Rightarrow> int" where
  "pending c q = (if n_fragmentSequence c = q then n_fragmentLength c else 0)"

definition receiving :: "netchan_t \<Rightarrow> int \<Rightarrow> 8 word list \<Rightarrow> nat \<Rightarrow> bool" where
  "receiving c q data k \<longleftrightarrow> chan_ok c \<and> pending c q = int (1300 * k) \<and> n_incomingSequence c < q \<and>
     take (1300 * k) (n_fragmentBuffer c) = take (1300 * k) data \<and>
     1300 * k \<le> length data \<and> length data \<le> 32768 \<and> 0 < q \<and> q < 2147483648"

definition room :: "msg_t \<Rightarrow> nat \<Rightarrow> bool" where
  "room m n \<longleftrightarrow> int n \<le> m_maxsize m \<and> m_maxsize m \<le> int (length (m_data m)) \<and> m_maxsize m < 268435456"

definition opened :: "netchan_t \<Rightarrow> int \<Rightarrow> netchan_t" where
  "opened c q = c\<lparr>n_dropped := i32 (i32 (q - n_incomingSequence c) - 1), n_fragmentSequence := q,
     n_fragmentLength := pending c q\<rparr>"

lemma receive_packet_fragment:
  assumes "n_incomingSequence c < q" "st = pending c q"
  shows "receive_packet c m q True st n = accept_fragment (opened c q) m q n"
proof -
  have "c\<lparr>n_dropped := d, n_fragmentLength := n_fragmentLength c\<rparr> = c\<lparr>n_dropped := d\<rparr>"
    "c\<lparr>n_dropped := d, n_fragmentSequence := n_fragmentSequence c, n_fragmentLength := n_fragmentLength c\<rparr> =
     c\<lparr>n_dropped := d\<rparr>" for d by simp_all
  with assms show ?thesis
    by (auto simp: receive_packet_def opened_def pending_def Let_def)
qed

definition joined :: "netchan_t \<Rightarrow> int \<Rightarrow> 8 word list \<Rightarrow> netchan_t" where
  "joined c q f = (opened c q)\<lparr>n_fragmentBuffer := take (nat (pending c q)) (n_fragmentBuffer c) @ f @
       drop (nat (pending c q) + length f) (n_fragmentBuffer c),
     n_fragmentLength := pending c q + int (length f)\<rparr>"

lemma receiving_opened:
  assumes "receiving c q data k"
  shows "n_fragmentLength (opened c q) = int (1300 * k)" "n_fragmentBuffer (opened c q) = n_fragmentBuffer c"
    "length (n_fragmentBuffer c) = 32768" "pending c q = int (1300 * k)"
  using assms by (auto simp: receiving_def opened_def chan_ok_def)

lemma fragment_fits: "1300 * k \<le> length data \<Longrightarrow> 1300 * k + length (fragment data k) \<le> length data"
  by (simp add: length_fragment)

lemma joined_buffer:
  assumes r: "receiving c q data k"
  shows "take (1300 * k + length (fragment data k)) (n_fragmentBuffer (joined c q (fragment data k))) =
           take (1300 * k + length (fragment data k)) data"
    and "length (n_fragmentBuffer (joined c q (fragment data k))) = 32768"
proof -
  let ?f = "fragment data k"
  note ro = receiving_opened [OF r]
  have pre: "take (1300 * k) (n_fragmentBuffer c) = take (1300 * k) data" and le: "1300 * k \<le> length data"
    and max: "length data \<le> 32768"
    using r by (auto simp: receiving_def)
  have buf: "n_fragmentBuffer (joined c q ?f) =
      take (1300 * k) data @ ?f @ drop (1300 * k + length ?f) (n_fragmentBuffer c)"
    by (simp add: joined_def ro(4) pre nat_mult_distrib)
  have "take (length ?f) (drop (1300 * k) data) = ?f"
    by (simp add: fragment_def length_fragment min_def)
  then show "take (1300 * k + length ?f) (n_fragmentBuffer (joined c q ?f)) = take (1300 * k + length ?f) data"
    using le by (simp add: buf take_add)
  show "length (n_fragmentBuffer (joined c q ?f)) = 32768"
    using fragment_fits [OF le] max ro(3) le by (simp add: buf)
qed

lemma accept_step:
  assumes r: "receiving c q data k" and m: "stream m (fragment data k)"
  shows "accept_fragment (opened c q) m q (int (length (fragment data k))) =
    (let c1 = joined c q (fragment data k); n = n_fragmentLength c1 in
     if length (fragment data k) = 1300 \<or> n > m_maxsize m then Some (c1, m, False)
     else do {
       header \<leftarrow> copy_in (m_data m) 0 (le32 q);
       body \<leftarrow> copy_out (n_fragmentBuffer c1) 0 n;
       data' \<leftarrow> copy_in header 4 body;
       (_, m1) \<leftarrow> MSG_ReadLong (MSG_BeginReading (m\<lparr>m_data := data', m_cursize := n + 4\<rparr>));
       Some (c1\<lparr>n_fragmentLength := 0, n_incomingSequence := q\<rparr>, m1, True) })"
proof -
  let ?f = "fragment data k"
  note ro = receiving_opened [OF r]
  have le: "1300 * k + length ?f \<le> length data" "length data \<le> 32768"
    using r fragment_fits [of k data] by (auto simp: receiving_def)
  have sb: "0 \<le> m_readcount m" "m_readcount m + int (length ?f) \<le> m_cursize m" "m_cursize m < 268435456"
    using stream_bounds [of m ?f "[]"] m by simp_all
  have src: "copy_out (m_data m) (m_readcount m) (int (length ?f)) = Some ?f"
    using stream_copy_out [of m ?f "[]"] m by simp
  have guard: "\<not> (int (length ?f) < 0 \<or> i32 (m_readcount m + int (length ?f)) > m_cursize m \<or>
      u32 (n_fragmentLength (opened c q) + int (length ?f)) > 32768)"
    using sb le by (simp add: ro i32_simps)
  have buffer: "copy_in (n_fragmentBuffer (opened c q)) (n_fragmentLength (opened c q)) ?f =
      Some (n_fragmentBuffer (joined c q ?f))"
    using le ro by (simp add: copy_in_def joined_def nat_mult_distrib)
  have len: "i32 (n_fragmentLength (opened c q) + int (length ?f)) = n_fragmentLength (joined c q ?f)"
    using le by (simp add: ro joined_def i32_simps)
  have j: "(opened c q)\<lparr>n_fragmentBuffer := n_fragmentBuffer (joined c q ?f),
      n_fragmentLength := n_fragmentLength (joined c q ?f)\<rparr> = joined c q ?f"
    by (simp add: joined_def)
  have one: "int (length ?f) = 1300 \<longleftrightarrow> length ?f = 1300" by simp
  show ?thesis
    unfolding accept_fragment_def if_not_P [OF guard] src buffer len bind.bind_lunit Let_def j one
    by simp
qed

lemma accept_more:
  assumes r: "receiving c q data k" and m: "stream m (fragment data k)"
    and full: "\<not> length (fragment data k) < 1300"
  shows "\<exists>c'. accept_fragment (opened c q) m q (int (length (fragment data k))) = Some (c', m, False) \<and>
    receiving c' q data (Suc k) \<and> n_dropped c' = i32 (i32 (q - n_incomingSequence c) - 1) \<and>
    n_sock c' = n_sock c \<and> n_incomingSequence c' = n_incomingSequence c"
proof -
  let ?f = "fragment data k"
  have f: "length ?f = 1300" using full by (simp add: length_fragment)
  have le: "1300 * Suc k \<le> length data" using f by (auto simp: length_fragment)
  have "receiving (joined c q ?f) q data (Suc k)"
    using r joined_buffer [OF r] le f receiving_opened(4) [OF r]
    by (auto simp: receiving_def joined_def opened_def pending_def chan_ok_def add.commute)
  then show ?thesis
    using accept_step [OF r m] f by (auto simp: joined_def opened_def Let_def)
qed

text \<open>An accepted message: its bytes are unread, its sequence number stands at the head of the buffer.\<close>

definition received :: "msg_t \<Rightarrow> int \<Rightarrow> 8 word list \<Rightarrow> bool" where
  "received m q data \<longleftrightarrow> stream m data \<and> take 4 (m_data m) = le32 q"

lemma accept_last:
  assumes r: "receiving c q data k" and m: "stream m (fragment data k)"
    and last: "length (fragment data k) < 1300" and room: "room m (length data + 4)"
  shows "\<exists>c' m'. accept_fragment (opened c q) m q (int (length (fragment data k))) = Some (c', m', True) \<and>
    received m' q data \<and> n_incomingSequence c' = q \<and> chan_ok c' \<and>
    n_dropped c' = i32 (i32 (q - n_incomingSequence c) - 1) \<and> n_sock c' = n_sock c"
proof -
  let ?f = "fragment data k" and ?c1 = "joined c q (fragment data k)"
  have dl: "1300 * k \<le> length data" "length data \<le> 32768" "0 < q" "q < 2147483648"
    using r by (auto simp: receiving_def)
  have tot: "1300 * k + length ?f = length data"
    using last dl(1) by (auto simp: length_fragment)
  note jb = joined_buffer [OF r, unfolded tot]
  have n: "n_fragmentLength ?c1 = int (length data)"
    using tot by (simp add: joined_def receiving_opened(4) [OF r])
  have body: "copy_out (n_fragmentBuffer ?c1) 0 (int (length data)) = Some data"
    using jb dl(2) by (simp add: copy_out_def)
  obtain header where header: "copy_in (m_data m) 0 (le32 q) = Some header"
    using room by (simp add: copy_in_def room_def)
  have h4: "take 4 header = le32 q" "length header = length (m_data m)"
    using header copy_in_length [OF header] by (auto simp: copy_in_def split: if_splits)
  obtain data' where data': "copy_in header 4 data = Some data'"
    using room h4(2) by (simp add: copy_in_def room_def)
  have d': "take (length (le32 q @ data)) data' = le32 q @ data"
    using data' h4(1) by (auto simp: copy_in_def split: if_splits)
  let ?m1 = "m\<lparr>m_data := data', m_cursize := int (length data) + 4\<rparr>"
  have st: "stream (MSG_BeginReading ?m1) (le32 q @ data)"
    using stream_start [of "le32 q @ data" ?m1] d' dl(2) by simp
  have rl: "MSG_ReadLong (MSG_BeginReading ?m1) = Some (q, skip 4 (MSG_BeginReading ?m1))"
    using stream_ReadLong [OF st] dl(3,4) by (simp add: i32_simps)
  have sk: "stream (skip 4 (MSG_BeginReading ?m1)) data"
    using stream_skip [OF st] by simp
  have "accept_fragment (opened c q) m q (int (length ?f)) =
     Some (?c1\<lparr>n_fragmentLength := 0, n_incomingSequence := q\<rparr>, skip 4 (MSG_BeginReading ?m1), True)"
    using accept_step [OF r m] last room
    by (simp add: n body header data' rl Let_def room_def)
  moreover have "chan_ok (?c1\<lparr>n_fragmentLength := 0, n_incomingSequence := q\<rparr>)"
    using r jb(2) dl(3,4) by (simp add: chan_ok_def receiving_def joined_def opened_def int32_range_def)
  moreover have "received (skip 4 (MSG_BeginReading ?m1)) q data"
  proof -
    have "take 4 data' = take 4 (take (length (le32 q @ data)) data')" by simp
    also have "\<dots> = le32 q" unfolding d' by simp
    finally show ?thesis using sk by (simp add: received_def MSG_BeginReading_def)
  qed
  ultimately show ?thesis by (auto simp: joined_def opened_def)
qed

text \<open>
  What the original leaves out: a reassembled message of more than \<open>maxsize - 4\<close> bytes is
  stored behind its four sequence bytes without room for them.
\<close>

lemma accept_overflow:
  assumes r: "receiving c q data k" and m: "stream m (fragment data k)"
    and last: "length (fragment data k) < 1300"
    and tight: "m_maxsize m = int (length (m_data m))"
      "int (length data) \<le> m_maxsize m" "m_maxsize m < int (length data) + 4"
  shows "accept_fragment (opened c q) m q (int (length (fragment data k))) = None"
proof -
  let ?f = "fragment data k" and ?c1 = "joined c q (fragment data k)"
  have dl: "1300 * k \<le> length data" "length data \<le> 32768" using r by (auto simp: receiving_def)
  have tot: "1300 * k + length ?f = length data"
    using last dl(1) by (auto simp: length_fragment)
  have n: "n_fragmentLength ?c1 = int (length data)"
    using tot by (simp add: joined_def receiving_opened(4) [OF r])
  have body: "copy_out (n_fragmentBuffer ?c1) 0 (int (length data)) = Some data"
    using joined_buffer [OF r, unfolded tot] dl(2) by (simp add: copy_out_def)
  have "copy_in header 4 data = None" if "copy_in (m_data m) 0 (le32 q) = Some header" for header
    using copy_in_length [OF that] tight by (simp add: copy_in_def)
  then show ?thesis
    using accept_step [OF r m] last tight by (auto simp: n body Let_def split: bind_splits)
qed

lemma receiving_profile:
  "receiving c q data k \<Longrightarrow> profile_ok p \<Longrightarrow> receiving (c\<lparr>n_profile := p\<rparr>) q data k"
  by (auto simp: receiving_def chan_ok_def pending_def split: if_splits)

lemma length_fragment_packet: "length (fragment_packet env sock q data k) \<le> 1310"
  using length_qport_bytes [of env sock] by (simp add: fragment_packet_def length_fragment)

lemma load_packet_stream:
  assumes "room m (length p)"
  shows "\<exists>m1. load_packet m p = Some m1 \<and> stream (MSG_BeginReading m1) p \<and>
    m_maxsize m1 = m_maxsize m \<and> length (m_data m1) = length (m_data m)"
proof -
  obtain d where d: "copy_in (m_data m) 0 p = Some d"
    using assms by (simp add: copy_in_def room_def)
  let ?m1 = "m\<lparr>m_data := d, m_cursize := int (length p)\<rparr>"
  have "take (length p) d = p" using d by (auto simp: copy_in_def split: if_splits)
  then have "stream (MSG_BeginReading ?m1) p"
    using assms by (intro stream_start) (auto simp: room_def)
  with d assms copy_in_length [OF d] show ?thesis by (simp add: load_packet_def room_def)
qed

lemma i16_small: "n \<le> 32767 \<Longrightarrow> i16 (int n) = int n"
  by (simp add: i16_id)

lemma process_fragment:
  assumes r: "receiving c q data k" and env: "e_memory env" and sock: "n_sock c \<noteq> sock"
    and m: "stream (MSG_BeginReading m) (fragment_packet senv sock q data k)"
  obtains mode p h where "profile_ok p" "stream (skip h (MSG_BeginReading m)) (fragment data k)"
    "Netchan_Process env c m = checked (map_option (Pair (env\<lparr>e_activeMode := mode\<rparr>))
       (got p (accept_fragment (opened c q) (skip h (MSG_BeginReading m)) q (int (length (fragment data k))))))"
proof -
  let ?f = "fragment data k" and ?m0 = "MSG_BeginReading m"
  let ?t2 = "le16 (int (length ?f)) @ ?f" and ?q = "q - 2147483648"
  let ?t1 = "le16 (int (1300 * k)) @ ?t2" and ?qp = "qport_bytes senv sock"
  let ?h = "4 + int (length ?qp)"
  have q: "0 < q" "q < 2147483648" and new: "n_incomingSequence c < q" and kl: "1300 * k \<le> 32768"
    using r by (simp_all add: receiving_def)
  have kd: "1300 * k \<le> 32767" using div_le_mono [OF kl, of 1300] by simp
  have lf: "length ?f \<le> 1300" by (simp add: length_fragment)
  have s0: "stream ?m0 (le32 ?q @ ?qp @ ?t1)" using m by (simp add: fragment_packet_def)
  have r0: "MSG_ReadLong ?m0 = Some (?q, skip 4 ?m0)"
    using stream_ReadLong [OF s0] q by (simp add: i32_simps)
  have s1: "stream (skip 4 ?m0) (?qp @ ?t1)" using stream_skip [OF s0] by simp
  have s2: "stream (skip ?h ?m0) ?t1" using stream_skip [OF s1] by simp
  obtain z where r1: "(if n_sock c = NS_SERVER then MSG_ReadShort (skip 4 ?m0) else Some (0, skip 4 ?m0)) =
      Some (z, skip ?h ?m0)"
  proof (cases "n_sock c")
    case NS_CLIENT
    with sock have "sock = NS_SERVER" by (cases sock) auto
    with that show ?thesis by (simp add: NS_CLIENT qport_bytes_def)
  next
    case NS_SERVER
    with sock have "sock = NS_CLIENT" by (cases sock) auto
    with that s1 show ?thesis by (simp add: NS_SERVER qport_bytes_def stream_ReadShort)
  qed
  have r2: "MSG_ReadShort (skip ?h ?m0) = Some (int (1300 * k), skip (?h + 2) ?m0)"
    using stream_ReadShort [OF s2] i16_small [OF kd] by simp
  have s3: "stream (skip (?h + 2) ?m0) ?t2" using stream_skip [OF s2] by (simp add: algebra_simps)
  have r3: "MSG_ReadShort (skip (?h + 2) ?m0) = Some (int (length ?f), skip (?h + 4) ?m0)"
    using stream_ReadShort [OF s3] i16_small [of "length ?f"] lf by (simp add: algebra_simps)
  have s4: "stream (skip (?h + 4) ?m0) ?f" using stream_skip [OF s3] by (simp add: algebra_simps)
  have neg: "?q < 0" using q by simp
  have seq: "u32 ?q AND 0x7FFFFFFF = q"
    using q by (simp add: and_31 u32_def mod_mod_cancel)
  have ok: "profile_ok (n_profile c)" using r by (simp add: receiving_def chan_ok_def)
  have r2': "(if ?q < 0 then MSG_ReadShort (skip ?h ?m0) else Some (0, skip ?h ?m0)) =
      Some (int (1300 * k), skip (?h + 2) ?m0)" using neg r2 by simp
  have r3': "(if ?q < 0 then MSG_ReadShort (skip (?h + 2) ?m0) else Some (0, skip (?h + 2) ?m0)) =
      Some (int (length ?f), skip (?h + 4) ?m0)" using neg r3 by simp
  have rp: "receive_packet c (skip (?h + 4) ?m0) (if ?q < 0 then u32 ?q AND 0x7FFFFFFF else ?q) (?q < 0)
      (int (1300 * k)) (int (length ?f)) =
      accept_fragment (opened c q) (skip (?h + 4) ?m0) q (int (length ?f))"
    using receive_packet_fragment [OF new receiving_opened(4) [OF r, symmetric]] neg seq by simp
  show ?thesis
    by (rule Netchan_Process_header [OF ok env r0 r1 r2' r3', unfolded rp]) (rule that [OF _ s4])
qed

definition same_room :: "msg_t \<Rightarrow> msg_t \<Rightarrow> bool" where
  "same_room m m' \<longleftrightarrow> m_maxsize m' = m_maxsize m \<and> length (m_data m') = length (m_data m)"

lemma room_same: "same_room m m' \<Longrightarrow> room m' n = room m n"
  by (simp add: same_room_def room_def)

lemma room_mono: "room m n \<Longrightarrow> k \<le> n \<Longrightarrow> room m k"
  by (simp add: room_def)

lemma load_fragment:
  assumes "room m 1310"
  shows "\<exists>m1. load_packet m (fragment_packet senv sock q data k) = Some m1 \<and>
    stream (MSG_BeginReading m1) (fragment_packet senv sock q data k) \<and> same_room m m1"
  using load_packet_stream [OF room_mono [OF assms length_fragment_packet, where env1 = senv and sock1 = sock
      and q1 = q and data1 = data and k1 = k]] by (simp add: same_room_def)

lemma process_more:
  assumes r: "receiving c q data k" and env: "e_memory env" and sock: "n_sock c \<noteq> sock"
    and room: "room m 1310" and full: "\<not> length (fragment data k) < 1300"
  obtains mode c2 m2 where
    "process_packets env c m (fragment_packet senv sock q data k # ps) =
       run_bind (process_packets (env\<lparr>e_activeMode := mode\<rparr>) c2 m2 ps)
         (\<lambda>(env3, c3, m3, bs). Done (env3, c3, m3, False # bs))"
    "receiving c2 q data (Suc k)" "same_room m m2" "n_sock c2 = n_sock c"
    "n_incomingSequence c2 = n_incomingSequence c"
proof -
  obtain m1 where m1: "load_packet m (fragment_packet senv sock q data k) = Some m1"
      "stream (MSG_BeginReading m1) (fragment_packet senv sock q data k)" "same_room m m1"
    using load_fragment [OF room] by blast
  obtain mode p h where p: "profile_ok p" "stream (skip h (MSG_BeginReading m1)) (fragment data k)"
    "Netchan_Process env c m1 = checked (map_option (Pair (env\<lparr>e_activeMode := mode\<rparr>))
       (got p (accept_fragment (opened c q) (skip h (MSG_BeginReading m1)) q (int (length (fragment data k))))))"
    by (rule process_fragment [OF r env sock m1(2)])
  obtain c1 where c1: "accept_fragment (opened c q) (skip h (MSG_BeginReading m1)) q
      (int (length (fragment data k))) = Some (c1, skip h (MSG_BeginReading m1), False)"
      "receiving c1 q data (Suc k)" "n_sock c1 = n_sock c" "n_incomingSequence c1 = n_incomingSequence c"
    using accept_more [OF r p(2) full] by auto
  show ?thesis
  proof (rule that)
    show "process_packets env c m (fragment_packet senv sock q data k # ps) =
       run_bind (process_packets (env\<lparr>e_activeMode := mode\<rparr>) (c1\<lparr>n_profile := p\<rparr>)
         (skip h (MSG_BeginReading m1)) ps) (\<lambda>(env3, c3, m3, bs). Done (env3, c3, m3, False # bs))"
      by (simp add: m1(1) p(3) c1(1))
    show "receiving (c1\<lparr>n_profile := p\<rparr>) q data (Suc k)" by (rule receiving_profile [OF c1(2) p(1)])
    show "same_room m (skip h (MSG_BeginReading m1))"
      using m1(3) by (simp add: same_room_def MSG_BeginReading_def)
  qed (use c1(3,4) in simp_all)
qed

lemma process_rest:
  assumes "receiving c q data k" "e_memory env" "n_sock c \<noteq> sock"
    "room m 1310" "room m (length data + 4)"
  shows "\<exists>mode c' m'. process_packets env c m (packets_from senv sock q data k) =
      Done (env\<lparr>e_activeMode := mode\<rparr>, c', m', replicate (length data div 1300 - k) False @ [True]) \<and>
    received m' q data \<and> n_incomingSequence c' = q \<and> chan_ok c' \<and>
    n_dropped c' = i32 (i32 (q - n_incomingSequence c) - 1)"
  using assms
proof (induction "length data div 1300 - k" arbitrary: c env m k)
  case 0
  have k: "k \<le> length data div 1300"
    using "0.prems"(1) by (simp add: receiving_def less_eq_div_iff_mult_less_eq mult.commute)
  then have last: "length (fragment data k) < 1300" using 0(1) full_fragment [of data k] by simp
  have kk: "length data div 1300 = k" using k 0(1) by simp
  have one: "packets_from senv sock q data k = [fragment_packet senv sock q data k]"
    by (simp add: packets_from_def kk)
  obtain m1 where m1: "load_packet m (fragment_packet senv sock q data k) = Some m1"
      "stream (MSG_BeginReading m1) (fragment_packet senv sock q data k)" "same_room m m1"
    using load_fragment [OF "0.prems"(4)] by blast
  obtain mode p h where p: "profile_ok p" "stream (skip h (MSG_BeginReading m1)) (fragment data k)"
    "Netchan_Process env c m1 = checked (map_option (Pair (env\<lparr>e_activeMode := mode\<rparr>))
       (got p (accept_fragment (opened c q) (skip h (MSG_BeginReading m1)) q (int (length (fragment data k))))))"
    by (rule process_fragment [OF "0.prems"(1-3) m1(2)])
  have "room (skip h (MSG_BeginReading m1)) (length data + 4)"
    using "0.prems"(5) m1(3) by (simp add: room_def same_room_def MSG_BeginReading_def)
  from accept_last [OF "0.prems"(1) p(2) last this]
  obtain c1 m2 where c1: "accept_fragment (opened c q) (skip h (MSG_BeginReading m1)) q
      (int (length (fragment data k))) = Some (c1, m2, True)"
      "received m2 q data" "n_incomingSequence c1 = q" "chan_ok c1"
      "n_dropped c1 = i32 (i32 (q - n_incomingSequence c) - 1)" by blast
  have "process_packets env c m (packets_from senv sock q data k) =
      Done (env\<lparr>e_activeMode := mode\<rparr>, c1\<lparr>n_profile := p\<rparr>, m2, [True])"
    by (simp add: one m1(1) p(3) c1(1))
  with c1(2-5) p(1) kk show ?case by (auto simp: chan_ok_def)
next
  case (Suc n)
  then have k: "k < length data div 1300" by simp
  then have full: "\<not> length (fragment data k) < 1300" using full_fragment [of data k] by simp
  obtain mode c2 m2 where step: "process_packets env c m (fragment_packet senv sock q data k #
        packets_from senv sock q data (Suc k)) =
      run_bind (process_packets (env\<lparr>e_activeMode := mode\<rparr>) c2 m2 (packets_from senv sock q data (Suc k)))
         (\<lambda>(env3, c3, m3, bs). Done (env3, c3, m3, False # bs))"
    "receiving c2 q data (Suc k)" "same_room m m2" "n_sock c2 = n_sock c"
    "n_incomingSequence c2 = n_incomingSequence c"
    by (rule process_more [OF Suc.prems(1-4) full])
  have n: "n = length data div 1300 - Suc k" using Suc.hyps(2) by simp
  have prems: "e_memory (env\<lparr>e_activeMode := mode\<rparr>)" "n_sock c2 \<noteq> sock" "room m2 1310"
      "room m2 (length data + 4)"
    using Suc.prems(2-5) step(3,4) by (simp_all add: room_same)
  from Suc.hyps(1) [OF n step(2) prems] step(5)
  obtain mode2 c3 m3 where "process_packets (env\<lparr>e_activeMode := mode\<rparr>) c2 m2
      (packets_from senv sock q data (Suc k)) =
      Done (env\<lparr>e_activeMode := mode2\<rparr>, c3, m3, replicate n False @ [True])"
    "received m3 q data" "n_incomingSequence c3 = q" "chan_ok c3"
    "n_dropped c3 = i32 (i32 (q - n_incomingSequence c) - 1)"
    by (auto simp: n)
  with step(1) k Suc.hyps(2) show ?case
    by (auto simp: packets_from_step simp flip: Suc.hyps(2))
qed

lemma process_rest_overflow:
  assumes "receiving c q data k" "e_memory env" "n_sock c \<noteq> sock" "room m 1310"
    "m_maxsize m = int (length (m_data m))"
    "int (length data) \<le> m_maxsize m" "m_maxsize m < int (length data) + 4"
  shows "process_packets env c m (packets_from senv sock q data k) = Fault"
  using assms
proof (induction "length data div 1300 - k" arbitrary: c env m k)
  case 0
  have k: "k \<le> length data div 1300"
    using "0.prems"(1) by (simp add: receiving_def less_eq_div_iff_mult_less_eq mult.commute)
  then have last: "length (fragment data k) < 1300" using 0(1) full_fragment [of data k] by simp
  have one: "packets_from senv sock q data k = [fragment_packet senv sock q data k]"
    using k 0(1) by (simp add: packets_from_def)
  obtain m1 where m1: "load_packet m (fragment_packet senv sock q data k) = Some m1"
      "stream (MSG_BeginReading m1) (fragment_packet senv sock q data k)" "same_room m m1"
    using load_fragment [OF "0.prems"(4)] by blast
  obtain mode p h where p: "profile_ok p" "stream (skip h (MSG_BeginReading m1)) (fragment data k)"
    "Netchan_Process env c m1 = checked (map_option (Pair (env\<lparr>e_activeMode := mode\<rparr>))
       (got p (accept_fragment (opened c q) (skip h (MSG_BeginReading m1)) q (int (length (fragment data k))))))"
    by (rule process_fragment [OF "0.prems"(1-3) m1(2)])
  have "accept_fragment (opened c q) (skip h (MSG_BeginReading m1)) q (int (length (fragment data k))) = None"
    by (rule accept_overflow [OF "0.prems"(1) p(2) last])
      (use "0.prems"(5-7) m1(3) in \<open>simp_all add: same_room_def MSG_BeginReading_def\<close>)
  then show ?case by (simp add: one m1(1) p(3))
next
  case (Suc n)
  then have k: "k < length data div 1300" by simp
  then have full: "\<not> length (fragment data k) < 1300" using full_fragment [of data k] by simp
  obtain mode c2 m2 where step: "process_packets env c m (fragment_packet senv sock q data k #
        packets_from senv sock q data (Suc k)) =
      run_bind (process_packets (env\<lparr>e_activeMode := mode\<rparr>) c2 m2 (packets_from senv sock q data (Suc k)))
         (\<lambda>(env3, c3, m3, bs). Done (env3, c3, m3, False # bs))"
    "receiving c2 q data (Suc k)" "same_room m m2" "n_sock c2 = n_sock c"
    "n_incomingSequence c2 = n_incomingSequence c"
    by (rule process_more [OF Suc.prems(1-4) full])
  have n: "n = length data div 1300 - Suc k" using Suc.hyps(2) by simp
  have prems: "e_memory (env\<lparr>e_activeMode := mode\<rparr>)" "n_sock c2 \<noteq> sock" "room m2 1310"
      "m_maxsize m2 = int (length (m_data m2))" "int (length data) \<le> m_maxsize m2"
      "m_maxsize m2 < int (length data) + 4"
    using Suc.prems(2-7) step(4) room_same [OF step(3)] step(3)[unfolded same_room_def] by auto
  have "process_packets (env\<lparr>e_activeMode := mode\<rparr>) c2 m2 (packets_from senv sock q data (Suc k)) = Fault"
    by (rule Suc.hyps(1) [OF n step(2) prems])
  with step(1) k show ?case by (simp add: packets_from_step)
qed

lemma transmit_all_fragments:
  assumes s: "chan_ok s" and env: "e_memory env" and len: "1300 \<le> length data" "length data \<le> 32768"
    and q: "0 \<le> n_outgoingSequence s" "n_outgoingSequence s < 2147483647"
  shows "\<exists>mode s'. transmit_all env s data =
     Done (env\<lparr>e_activeMode := mode\<rparr>, s', packets_from env (n_sock s) (n_outgoingSequence s) data 0) \<and>
     \<not> n_unsentFragments s' \<and> n_outgoingSequence s' = n_outgoingSequence s + 1"
proof -
  obtain buffer where buffer: "copy_in (n_unsentBuffer s) 0 data = Some buffer"
    using s len by (simp add: copy_in_def chan_ok_def)
  let ?s0 = "s\<lparr>n_unsentFragmentStart := 0, n_unsentFragments := True, n_unsentLength := int (length data),
      n_unsentBuffer := buffer\<rparr>"
  have s0: "sending ?s0 data 0"
    using s buffer len q by (auto simp: sending_def chan_ok_def copy_in_def split: if_splits)
  have tr: "Netchan_Transmit env s (int (length data)) data = Netchan_TransmitNextFragment env ?s0"
    using len buffer by (simp add: Netchan_Transmit_def copy_out_def Let_def)
  have n: "length data div 1300 + 1 - 0 \<le> 27" using div_le_mono [OF len(2), of 1300] by simp
  have start: "transmit_rest 27 env ?s0 = transmit_all env s data"
    by (subst transmit_rest.simps) (simp add: transmit_all_def tr eval_nat_numeral)
  show ?thesis using transmit_rest_eq [OF s0 env n] start by auto
qed

lemma transmit_all_small:
  assumes s: "chan_ok s" "\<not> n_unsentFragments s" and env: "e_memory env" and len: "length data < 1300"
    and q: "0 \<le> n_outgoingSequence s" "n_outgoingSequence s < 2147483647"
  shows "\<exists>mode s'. transmit_all env s data =
     Done (env\<lparr>e_activeMode := mode\<rparr>, s',
       [le32 (n_outgoingSequence s) @ qport_bytes env (n_sock s) @ data]) \<and>
     \<not> n_unsentFragments s' \<and> n_outgoingSequence s' = n_outgoingSequence s + 1"
proof -
  have ok: "profile_ok (n_profile s)" using s by (simp add: chan_ok_def)
  obtain mode p1 where p1: "NetProf_PrepProfiling env (n_profile s) = Done (env\<lparr>e_activeMode := mode\<rparr>, p1)"
      "profile_ok p1" "mode = NET_PROFILE_OFF \<or> p1 \<noteq> None"
    using Prep_Done [OF ok env] by metis
  let ?env1 = "env\<lparr>e_activeMode := mode\<rparr>" and ?q = "n_outgoingSequence s"
  let ?s1 = "s\<lparr>n_unsentFragmentStart := 0, n_profile := p1, n_outgoingSequence := ?q + 1\<rparr>"
  define m0 where "m0 = MSG_Init (replicate 1400 0) 1400"
  have b0: "builds m0 []" and max: "m_maxsize m0 = 1400"
    unfolding m0_def by (rule builds_Init; simp) (simp add: MSG_Init_def)
  define m1 where "m1 = put_bytes (le32 ?q) m0"
  have w1: "MSG_WriteLong m0 ?q = Some m1"
    unfolding m1_def by (rule builds_WriteLong [OF b0]) (simp add: max)
  have b1: "builds m1 (le32 ?q)" "m_maxsize m1 = 1400"
    using builds_put [OF b0, of "le32 ?q"] max by (simp_all add: m1_def)
  obtain m2 where w2: "(if n_sock s = NS_CLIENT then MSG_WriteShort m1 (e_net_qport env) else Some m1) = Some m2"
      and b2: "builds m2 (le32 ?q @ qport_bytes env (n_sock s))" "m_maxsize m2 = 1400"
    using builds_qport [OF b1(1), where sock = "n_sock s" and env = env] b1(2) by auto
  note qb = length_qport_bytes [of env "n_sock s"]
  have w3: "MSG_WriteData m2 data (int (length data)) = Some (put_bytes data m2)"
    using builds_WriteData [OF b2(1), of "int (length data)" data] b2(2) qb len by simp
  have b3: "builds (put_bytes data m2) ((le32 ?q @ qport_bytes env (n_sock s)) @ data)"
    using builds_put [OF b2(1), of data] b2(2) qb len by simp
  have ready: "profile_ok (n_profile ?s1)" "e_activeMode ?env1 = NET_PROFILE_OFF \<or> n_profile ?s1 \<noteq> None"
    using p1(2,3) by simp_all
  obtain p where p: "NetProf_NewSendPacket ?env1 ?s1 (m_cursize (put_bytes data m2)) False = Some (?s1\<lparr>n_profile := p\<rparr>)"
    by (rule NewSend_Some [OF ready])
  have inc: "i32 (?q + 1) = ?q + 1" using q by (simp add: i32_simps)
  have "Netchan_Transmit env s (int (length data)) data =
      Done (?env1, ?s1\<lparr>n_profile := p\<rparr>, packet_bytes (put_bytes data m2))"
    using len w2 p
    by (cases "n_sock s = NS_CLIENT") (simp_all add: Netchan_Transmit_def p1(1) Let_def w1 w3 inc flip: m0_def)
  then have "transmit_all env s data =
      Done (?env1, ?s1\<lparr>n_profile := p\<rparr>, [packet_bytes (put_bytes data m2)])"
    using s(2) by (simp add: transmit_all_def transmit_rest.simps)
  then show ?thesis
    using builds_packet [OF b3] s(2) by (auto simp: packet_bytes_def)
qed

lemma process_small:
  assumes r: "chan_ok r" and env: "e_memory env" and sock: "n_sock r \<noteq> sock"
    and q: "0 < q" "q < 2147483648" "n_incomingSequence r < q"
    and room: "room m (length data + 6)"
  shows "\<exists>mode r' m'. process_packets env r m [le32 q @ qport_bytes senv sock @ data] =
      Done (env\<lparr>e_activeMode := mode\<rparr>, r', m', [True]) \<and> received m' q data \<and> n_incomingSequence r' = q \<and>
      chan_ok r' \<and> n_dropped r' = i32 (i32 (q - n_incomingSequence r) - 1)"
proof -
  let ?qp = "qport_bytes senv sock" and ?p = "le32 q @ qport_bytes senv sock @ data"
  have "length ?p \<le> length data + 6" using length_qport_bytes [of senv sock] by simp
  then obtain m1 where m1: "load_packet m ?p = Some m1" "stream (MSG_BeginReading m1) ?p"
    using load_packet_stream [OF room_mono [OF room]] by blast
  let ?m0 = "MSG_BeginReading m1"
  let ?h = "4 + int (length ?qp)"
  have r0: "MSG_ReadLong ?m0 = Some (q, skip 4 ?m0)"
    using stream_ReadLong [OF m1(2)] q by (simp add: i32_simps)
  have s1: "stream (skip 4 ?m0) (?qp @ data)" using stream_skip [OF m1(2)] by simp
  have s2: "stream (skip ?h ?m0) data" using stream_skip [OF s1] by simp
  obtain z where r1: "(if n_sock r = NS_SERVER then MSG_ReadShort (skip 4 ?m0) else Some (0, skip 4 ?m0)) =
      Some (z, skip ?h ?m0)"
  proof (cases "n_sock r")
    case NS_CLIENT
    with sock have "sock = NS_SERVER" by (cases sock) auto
    with that show ?thesis by (simp add: NS_CLIENT qport_bytes_def)
  next
    case NS_SERVER
    with sock have "sock = NS_CLIENT" by (cases sock) auto
    with that s1 show ?thesis by (simp add: NS_SERVER qport_bytes_def stream_ReadShort)
  qed
  have ok: "profile_ok (n_profile r)" using r by (simp add: chan_ok_def)
  have none: "(if q < 0 then MSG_ReadShort x else Some (0, x)) = Some (0, x)" for x using q by simp
  obtain mode p where p: "profile_ok p" "Netchan_Process env r m1 = checked (map_option (Pair (env\<lparr>e_activeMode := mode\<rparr>))
       (got p (receive_packet r (skip ?h ?m0) (if q < 0 then u32 q AND 0x7FFFFFFF else q) (q < 0) 0 0)))"
    by (rule Netchan_Process_header [OF ok env r0 r1 none none])
  have rp: "receive_packet r (skip ?h ?m0) (if q < 0 then u32 q AND 0x7FFFFFFF else q) (q < 0) 0 0 =
    Some (r\<lparr>n_dropped := i32 (i32 (q - n_incomingSequence r) - 1), n_incomingSequence := q\<rparr>, skip ?h ?m0, True)"
    using q by (simp add: receive_packet_def)
  have "process_packets env r m [?p] = Done (env\<lparr>e_activeMode := mode\<rparr>,
     r\<lparr>n_dropped := i32 (i32 (q - n_incomingSequence r) - 1), n_incomingSequence := q, n_profile := p\<rparr>,
     skip ?h ?m0, [True])"
    unfolding process_packets.simps m1(1) checked_simps run_bind.simps p(2) rp got_simps
    by simp
  moreover have "received (skip ?h ?m0) q data"
    using s2 stream_taken [of ?m0 "le32 q" "?qp @ data"] m1(2) by (simp add: received_def MSG_BeginReading_def)
  ultimately show ?thesis using r p(1) q by (auto simp: chan_ok_def int32_range_def)
qed

section \<open>What the channel promises\<close>

definition ready_to_send :: "netchan_t \<Rightarrow> bool" where
  "ready_to_send s \<longleftrightarrow> chan_ok s \<and> \<not> n_unsentFragments s \<and>
     0 < n_outgoingSequence s \<and> n_outgoingSequence s < 2147483647"

text \<open>The receiver is behind the sender and holds no fragment of the sequence about to be sent.\<close>

definition expects :: "netchan_t \<Rightarrow> netchan_t \<Rightarrow> bool" where
  "expects r s \<longleftrightarrow> chan_ok r \<and> n_sock r \<noteq> n_sock s \<and> n_incomingSequence r < n_outgoingSequence s \<and>
     pending r (n_outgoingSequence s) = 0"

definition fresh_chan :: "netsrc_t \<Rightarrow> netchan_t" where
  "fresh_chan sock = \<lparr>n_sock = sock, n_dropped = 0,
     n_remoteAddress = \<lparr>a_type = NA_LOOPBACK, a_ip = [], a_ipx = [], a_port = 0\<rparr>, n_qport = 0,
     n_incomingSequence = 0, n_outgoingSequence = 1, n_fragmentSequence = 0, n_fragmentLength = 0,
     n_fragmentBuffer = replicate 32768 0, n_unsentFragments = False, n_unsentFragmentStart = 0,
     n_unsentLength = 0, n_unsentBuffer = replicate 32768 0, n_profile = None\<rparr>"

definition plain_env :: net_env where
  "plain_env = \<lparr>e_net_profile = 0, e_sv_running = 1, e_cl_running = 1, e_net_qport = 4711,
     e_memory = True, e_milliseconds = 0, e_activeMode = NET_PROFILE_OFF\<rparr>"

lemma fresh_chan_ok: "chan_ok (fresh_chan sock)" "ready_to_send (fresh_chan sock)"
  "sock \<noteq> sock' \<Longrightarrow> expects (fresh_chan sock) (fresh_chan sock')"
  by (simp_all add: chan_ok_def fresh_chan_def ready_to_send_def expects_def pending_def int32_range_def)

lemma channel_delivers:
  assumes "ready_to_send s" "expects r s" "e_memory senv" "e_memory renv"
    and "length data \<le> 32768" "room m (max 1310 (length data + 6))"
  shows "\<exists>senv' s' ps renv' r' m'.
     transmit_all senv s data = Done (senv', s', ps) \<and>
     n_outgoingSequence s' = n_outgoingSequence s + 1 \<and> \<not> n_unsentFragments s' \<and>
     process_packets renv r m ps = Done (renv', r', m', replicate (length ps - 1) False @ [True]) \<and>
     received m' (n_outgoingSequence s) data \<and> n_incomingSequence r' = n_outgoingSequence s \<and> chan_ok r' \<and>
     n_dropped r' = i32 (i32 (n_outgoingSequence s - n_incomingSequence r) - 1)"
proof -
  let ?q = "n_outgoingSequence s"
  have s: "chan_ok s" "\<not> n_unsentFragments s" "0 < ?q" "?q < 2147483647"
    using assms(1) by (auto simp: ready_to_send_def)
  have r: "chan_ok r" "n_sock r \<noteq> n_sock s" "n_incomingSequence r < ?q" "pending r ?q = 0"
    using assms(2) by (auto simp: expects_def)
  have m: "room m 1310" "room m (length data + 4)" "room m (length data + 6)"
    using room_mono [OF assms(6)] by auto
  have q31: "?q < 2147483648" using s(4) by simp
  show ?thesis
  proof (cases "length data < 1300")
    case True
    obtain mode s' where "transmit_all senv s data = Done (senv\<lparr>e_activeMode := mode\<rparr>, s',
        [le32 ?q @ qport_bytes senv (n_sock s) @ data])" "\<not> n_unsentFragments s'" "n_outgoingSequence s' = ?q + 1"
      using transmit_all_small [OF s(1,2) assms(3) True] s(3,4) by auto
    moreover obtain mode2 r' m' where "process_packets renv r m [le32 ?q @ qport_bytes senv (n_sock s) @ data] =
        Done (renv\<lparr>e_activeMode := mode2\<rparr>, r', m', [True])" "received m' ?q data" "n_incomingSequence r' = ?q"
        "chan_ok r'" "n_dropped r' = i32 (i32 (?q - n_incomingSequence r) - 1)"
      using process_small [OF r(1) assms(4) r(2) s(3) q31 r(3) m(3)] by blast
    ultimately show ?thesis by auto
  next
    case False
    obtain mode s' where t: "transmit_all senv s data =
        Done (senv\<lparr>e_activeMode := mode\<rparr>, s', packets_from senv (n_sock s) ?q data 0)"
        "\<not> n_unsentFragments s'" "n_outgoingSequence s' = ?q + 1"
      using transmit_all_fragments [OF s(1) assms(3) _ assms(5)] False s(3,4) by auto
    have "receiving r ?q data 0"
      using r s assms(5) by (simp add: receiving_def)
    note rest = process_rest [OF this assms(4) r(2) m(1,2), where senv = senv, simplified minus_nat.diff_0]
    obtain mode2 r' m' where "process_packets renv r m (packets_from senv (n_sock s) ?q data 0) =
        Done (renv\<lparr>e_activeMode := mode2\<rparr>, r', m', replicate (length data div 1300) False @ [True])"
        "received m' ?q data" "n_incomingSequence r' = ?q" "chan_ok r'"
        "n_dropped r' = i32 (i32 (?q - n_incomingSequence r) - 1)" using rest by blast
    moreover have "length (packets_from senv (n_sock s) ?q data 0) - 1 = length data div 1300"
      by (simp add: packets_from_def)
    ultimately show ?thesis using t by auto
  qed
qed



text \<open>
  C10: whatever the bytes of a received packet, \<open>Netchan_Process\<close> stays inside the message buffer,
  the reassembly buffer and the profiling ring, provided the message buffer is four bytes
  larger than \<open>MAX_MSGLEN\<close>. It accepts a packet only with a sequence number above the last
  accepted one, which then becomes the last accepted one.
\<close>

theorem netchan_process_safe:
  assumes "chan_ok c" "e_memory env" "big_enough m"
  shows "\<exists>env' c' m' accepted. Netchan_Process env c m = Done (env', c', m', accepted) \<and>
     chan_ok c' \<and> big_enough m' \<and> e_memory env' \<and>
     n_incomingSequence c \<le> n_incomingSequence c' \<and>
     (accepted \<longleftrightarrow> n_incomingSequence c < n_incomingSequence c')"
  using Netchan_Process_ok [OF assms] assms(2) by (fastforce simp: received_ok_def)

lemma netchan_process_safe_witness:
  "\<exists>env' c' m' accepted. Netchan_Process plain_env (fresh_chan NS_SERVER) (MSG_Init (replicate 32772 255) 32772) =
     Done (env', c', m', accepted) \<and> chan_ok c'"
proof -
  have "big_enough (MSG_Init (replicate 32772 255) 32772)"
    by (simp add: big_enough_def read_inv_def MSG_Init_def)
  moreover have "e_memory plain_env" by (simp add: plain_env_def)
  ultimately show ?thesis using netchan_process_safe [OF fresh_chan_ok(1)] by blast
qed

text \<open>
  C15: the message buffers of the callers (\<open>Com_EventLoop\<close> and the server's and client's packet
  readers) have exactly \<open>MAX_MSGLEN\<close> bytes, and \<open>Netchan_Process\<close> tests the reassembled length
  against \<open>maxsize\<close> without the four sequence bytes it stores in front. So a message of 32765
  to 32768 bytes, which \<open>Netchan_Transmit\<close> accepts, makes the receiver write past the end of
  that buffer when its last fragment arrives.
\<close>

theorem netchan_reassembly_overflow:
  assumes "ready_to_send s" "expects r s" "e_memory senv" "e_memory renv"
    and "32764 < length data" "length data \<le> 32768"
    and "m_maxsize m = 32768" "length (m_data m) = 32768"
  shows "\<exists>senv' s' ps. transmit_all senv s data = Done (senv', s', ps) \<and> process_packets renv r m ps = Fault"
proof -
  let ?q = "n_outgoingSequence s"
  have s: "chan_ok s" "0 < ?q" "?q < 2147483647" using assms(1) by (auto simp: ready_to_send_def)
  have r: "chan_ok r" "n_sock r \<noteq> n_sock s" "n_incomingSequence r < ?q" "pending r ?q = 0"
    using assms(2) by (auto simp: expects_def)
  obtain mode s' where t: "transmit_all senv s data =
      Done (senv\<lparr>e_activeMode := mode\<rparr>, s', packets_from senv (n_sock s) ?q data 0)"
    using transmit_all_fragments [OF s(1) assms(3) _ assms(6)] assms(5) s(2,3) by auto
  have rec: "receiving r ?q data 0" using r s assms(6) by (simp add: receiving_def)
  have "process_packets renv r m (packets_from senv (n_sock s) ?q data 0) = Fault"
    by (rule process_rest_overflow [OF rec assms(4) r(2)])
      (use assms(5-8) in \<open>simp_all add: room_def\<close>)
  with t show ?thesis by blast
qed

lemma netchan_reassembly_overflow_witness:
  "\<exists>senv s' ps. transmit_all plain_env (fresh_chan NS_CLIENT) (replicate 32768 1) = Done (senv, s', ps) \<and>
     process_packets plain_env (fresh_chan NS_SERVER) (MSG_Init (replicate 32768 0) 32768) ps = Fault"
  by (rule netchan_reassembly_overflow [OF fresh_chan_ok(2) fresh_chan_ok(3)])
    (simp_all add: plain_env_def MSG_Init_def)

end
