(* ===== verification/Loopback_Correct.thy ===== *)
theory Loopback_Correct
  imports Loopback Netchan_Correct
begin

text \<open>
  The loopback queues implement the ring contract, so packets sent to the other end arrive in
  order and of a burst the last sixteen survive; address comparison is a preorder whose kernel
  is what \<open>NET_CompareAdr\<close> tests; the profiling counters stay consistent.
\<close>

section \<open>The queue\<close>

definition loop_inv :: "loopback_t \<Rightarrow> bool" where
  "loop_inv l \<longleftrightarrow> length (l_msgs l) = 16 \<and> 0 \<le> l_get l \<and> l_get l \<le> l_send l \<and> l_send l < 2147483648"

definition loop_model :: "loopback_t \<Rightarrow> loopmsg_t list" where
  "loop_model l = window (l_msgs l) (nat (max (l_get l) (l_send l - 16))) (nat (l_send l))"

definition loop_spare :: "loopback_t \<Rightarrow> nat" where
  "loop_spare l = nat (2147483647 - l_send l)"

lemma nat_mod_16: "0 \<le> i \<Longrightarrow> nat (i mod 16) = nat i mod 16"
  by (simp add: nat_mod_distrib)

lemma loop_put_model:
  assumes "loop_inv l" "0 < loop_spare l"
  shows "loop_model (loop_put x l) = drop (Suc (length (loop_model l)) - 16) (loop_model l @ [x])"
proof -
  let ?g = "nat (max (l_get l) (l_send l - 16))" and ?w = "nat (l_send l)"
  have l: "length (l_msgs l) = 16" "0 \<le> l_get l" "l_get l \<le> l_send l" "l_send l < 2147483647"
    using assms by (auto simp: loop_inv_def loop_spare_def)
  have put: "loop_put x l = l\<lparr>l_msgs := (l_msgs l)[?w mod length (l_msgs l) := x], l_send := l_send l + 1\<rparr>"
    using l by (simp add: loop_put_def nat_mod_16 i32_simps)
  have w: "nat (l_send l + 1) = Suc ?w" using l by simp
  have g: "?w \<le> ?g + 16" "?g \<le> ?w" using l by auto
  show ?thesis
  proof (cases "l_send l - l_get l < 16")
    case True
    then have "max (l_get l) (l_send l - 16) = l_get l" "max (l_get l) (l_send l + 1 - 16) = l_get l" by auto
    then show ?thesis
      using True l window_put [of ?w "nat (l_get l)" "l_msgs l" x] by (simp add: loop_model_def put w)
  next
    case False
    then have m: "max (l_get l) (l_send l - 16) = l_send l - 16"
      "max (l_get l) (l_send l - 15) = l_send l - 15" by auto
    then have n: "nat (l_send l - 15) = Suc ?g" "?w = ?g + length (l_msgs l)"
      using False l by auto
    have "window ((l_msgs l)[?w mod length (l_msgs l) := x]) (Suc ?g) (Suc ?w) =
        tl (window (l_msgs l) ?g ?w) @ [x]"
      by (rule window_put_full) (use l(1) n(2) in auto)
    then show ?thesis
      using n l(1) by (simp add: loop_model_def put w m drop_Suc)
  qed
qed

lemma loop_take_head:
  assumes "loop_inv l" "loop_model l = x # xs"
  shows "\<exists>l'. loop_take l = Some (x, l') \<and> loop_inv l' \<and> loop_model l' = xs \<and>
    loop_spare l' = loop_spare l \<and> l_msgs l' = l_msgs l"
proof -
  let ?g = "max (l_get l) (l_send l - 16)"
  have l: "length (l_msgs l) = 16" "0 \<le> l_get l" "l_get l \<le> l_send l" "l_send l < 2147483648"
    using assms(1) by (auto simp: loop_inv_def)
  have "length (loop_model l) \<noteq> 0" using assms(2) by simp
  then have lt: "?g < l_send l" using l by (auto simp: loop_model_def)
  have clamp: "loop_clamp l = l\<lparr>l_get := ?g\<rparr>"
    using l by (auto simp: loop_clamp_def i32_simps max_def)
  have tk: "loop_take l = Some (l_msgs l ! (nat ?g mod length (l_msgs l)), l\<lparr>l_get := ?g + 1\<rparr>)"
    using l lt by (simp add: loop_take_def clamp Let_def nat_mod_16 i32_simps del: max_less_iff_conj)
  have "window (l_msgs l) (nat ?g) (nat (l_send l)) =
      l_msgs l ! (nat ?g mod length (l_msgs l)) # window (l_msgs l) (Suc (nat ?g)) (nat (l_send l))"
    by (rule window_head) (use lt l in auto)
  moreover have "loop_model (l\<lparr>l_get := ?g + 1\<rparr>) = window (l_msgs l) (Suc (nat ?g)) (nat (l_send l))"
  proof -
    have "max (?g + 1) (l_send l - 16) = ?g + 1" "nat (?g + 1) = Suc (nat ?g)"
      using l by (auto simp: max_def)
    then show ?thesis unfolding loop_model_def by simp
  qed
  ultimately show ?thesis
    using assms(2) tk lt l by (auto simp: loop_model_def loop_inv_def loop_spare_def)
qed

interpretation loop: ring_queue loop_inv loop_model loop_put loop_take 16 loop_spare
proof unfold_locales
  fix l x assume "loop_inv l" "0 < loop_spare l"
  then show "loop_inv (loop_put x l) \<and> loop_spare (loop_put x l) = loop_spare l - 1"
    by (auto simp: loop_inv_def loop_put_def loop_spare_def i32_simps)
next
  fix l x assume "loop_inv l" "0 < loop_spare l"
  then show "loop_model (loop_put x l) = drop (Suc (length (loop_model l)) - 16) (loop_model l @ [x])"
    by (rule loop_put_model)
next
  fix l assume "loop_inv l"
  then show "length (loop_model l) \<le> 16" by (auto simp: loop_inv_def loop_model_def)
next
  fix l assume "loop_inv l" "loop_model l = []"
  then have "length (loop_model l) = 0" and l: "0 \<le> l_get l" "l_get l \<le> l_send l"
    by (auto simp: loop_inv_def)
  then have "l_get l = l_send l" by (auto simp: loop_model_def simp del: length_0_conv)
  then show "loop_take l = None"
    by (simp add: loop_take_def loop_clamp_def i32_simps)
next
  fix l x xs assume "loop_inv l" "loop_model l = x # xs"
  then show "\<exists>l'. loop_take l = Some (x, l') \<and> loop_inv l' \<and> loop_model l' = xs \<and> loop_spare l' = loop_spare l"
    using loop_take_head by blast
qed

section \<open>Sending and draining\<close>

definition payload :: "loopmsg_t \<Rightarrow> 8 word list" where
  "payload m = take (nat (l_datalen m)) (l_data m)"

definition loopmsg_ok :: "loopmsg_t \<Rightarrow> bool" where
  "loopmsg_ok m \<longleftrightarrow> length (l_data m) = 1400 \<and> 0 \<le> l_datalen m \<and> l_datalen m \<le> 1400"

definition slots_ok :: "loopback_t \<Rightarrow> bool" where
  "slots_ok l \<longleftrightarrow> (\<forall>m \<in> set (l_msgs l). loopmsg_ok m)"

lemma slots_ok_put: "slots_ok l \<Longrightarrow> loopmsg_ok m \<Longrightarrow> slots_ok (loop_put m l)"
  by (auto simp: slots_ok_def loop_put_def dest!: set_update_subset_insert [THEN subsetD])

lemma loop_slot_in:
  assumes "loop_inv l"
  shows "loop_slot l \<in> set (l_msgs l)"
proof -
  have "nat (l_send l mod 16) < length (l_msgs l)"
    using assms by (simp add: loop_inv_def)
  then show ?thesis by (simp add: loop_slot_def)
qed

lemma SendLoopPacket_put:
  assumes "loop_inv (loops (other_end src))" "slots_ok (loops (other_end src))" "length p \<le> 1400"
  shows "\<exists>m. NET_SendLoopPacket loops src (int (length p)) p =
      Some (loops(other_end src := loop_put m (loops (other_end src)))) \<and> payload m = p \<and> loopmsg_ok m"
proof -
  let ?l = "loops (other_end src)"
  have "length (l_data (loop_slot ?l)) = 1400"
    using loop_slot_in [OF assms(1)] assms(2) by (simp add: slots_ok_def loopmsg_ok_def)
  then obtain slot where slot: "copy_in (l_data (loop_slot ?l)) 0 p = Some slot" "length slot = 1400"
    using assms(3) by (auto simp: copy_in_def)
  have "take (length p) slot = p" using slot(1) by (auto simp: copy_in_def split: if_splits)
  with slot assms(3) show ?thesis
    by (intro exI [of _ "\<lparr>l_data = slot, l_datalen = int (length p)\<rparr>"])
      (simp add: NET_SendLoopPacket_def copy_out_def payload_def loopmsg_ok_def Let_def)
qed

fun send_loop :: "(netsrc_t \<Rightarrow> loopback_t) \<Rightarrow> netsrc_t \<Rightarrow> 8 word list list \<Rightarrow> (netsrc_t \<Rightarrow> loopback_t) option" where
  "send_loop loops src [] = Some loops"
| "send_loop loops src (p # ps) = do {
     loops1 \<leftarrow> NET_SendLoopPacket loops src (int (length p)) p;
     send_loop loops1 src ps }"

lemma send_loop_put_all:
  assumes "loop_inv (loops (other_end src))" "slots_ok (loops (other_end src))"
    "\<forall>p \<in> set ps. length p \<le> 1400" "length ps \<le> loop_spare (loops (other_end src))"
  shows "\<exists>ms. send_loop loops src ps = Some (loops(other_end src := loop.put_all ms (loops (other_end src)))) \<and>
    map payload ms = ps \<and> list_all loopmsg_ok ms"
  using assms
proof (induction ps arbitrary: loops)
  case Nil
  then show ?case by (intro exI [of _ "[]"]) simp
next
  case (Cons p ps)
  let ?o = "other_end src"
  obtain m where m: "NET_SendLoopPacket loops src (int (length p)) p =
      Some (loops(?o := loop_put m (loops ?o)))" "payload m = p" "loopmsg_ok m"
    using SendLoopPacket_put [of loops src p] Cons.prems by auto
  let ?loops1 = "loops(?o := loop_put m (loops ?o))"
  have inv1: "loop_inv (loop_put m (loops ?o))" "loop_spare (loop_put m (loops ?o)) = loop_spare (loops ?o) - 1"
    using loop.put_inv [of "loops ?o" m] Cons.prems by auto
  obtain ms where "send_loop ?loops1 src ps = Some (?loops1(?o := loop.put_all ms (?loops1 ?o)))"
      "map payload ms = ps" "list_all loopmsg_ok ms"
  proof -
    have "loop_inv (?loops1 ?o)" "slots_ok (?loops1 ?o)" "\<forall>p \<in> set ps. length p \<le> 1400"
        "length ps \<le> loop_spare (?loops1 ?o)"
      using inv1 Cons.prems slots_ok_put [of "loops ?o" m] m(3) by auto
    from Cons.IH [where loops = ?loops1, OF this] that show ?thesis by blast
  qed
  then show ?case using m by (intro exI [of _ "m # ms"]) (auto intro!: ext)
qed

lemma GetLoopPacket_pop:
  assumes "loop_inv (loops src)" "loop_model (loops src) = x # xs" "loopmsg_ok x" "room m 1400"
  shows "\<exists>l' adr m'. NET_GetLoopPacket loops src a m = Some (loops(src := l'), adr, m', True) \<and>
    loop_take (loops src) = Some (x, l') \<and> packet_bytes m' = payload x \<and> room m' 1400 \<and>
    a_type adr = NA_LOOPBACK"
proof -
  obtain l' where l': "loop_take (loops src) = Some (x, l')"
    using loop_take_head [OF assms(1,2)] by blast
  have src: "copy_out (l_data x) 0 (l_datalen x) = Some (payload x)" "int (length (payload x)) = l_datalen x"
    using assms(3) by (auto simp: copy_out_def loopmsg_ok_def payload_def)
  then obtain d where d: "copy_in (m_data m) 0 (payload x) = Some d"
    using assms(3,4) by (auto simp: copy_in_def room_def loopmsg_ok_def)
  have "take (length (payload x)) d = payload x" using d by (auto simp: copy_in_def split: if_splits)
  moreover have "nat (l_datalen x) = length (payload x)" using src(2) by simp
  ultimately show ?thesis
    using l' src d assms(3,4) copy_in_length [OF d]
    by (auto simp: NET_GetLoopPacket_def Let_def loopmsg_ok_def room_def packet_bytes_def)
qed

lemma drain_loop_pop_all:
  assumes "loop_inv (loops src)" "list_all loopmsg_ok (loop_model (loops src))" "room m 1400"
  shows "\<exists>loops'. drain_loop n loops src a m = Some (loops', map payload (fst (loop.pop_all n (loops src))))"
  using assms
proof (induction n arbitrary: loops a m)
  case 0
  then show ?case by simp
next
  case (Suc n)
  show ?case
  proof (cases "loop_model (loops src)")
    case Nil
    then have "loop_take (loops src) = None" using loop.pop_empty [OF Suc.prems(1)] by blast
    then show ?thesis by (simp add: NET_GetLoopPacket_def)
  next
    case (Cons x xs)
    obtain l' adr m' where g: "NET_GetLoopPacket loops src a m = Some (loops(src := l'), adr, m', True)"
        "loop_take (loops src) = Some (x, l')" "packet_bytes m' = payload x" "room m' 1400"
      using GetLoopPacket_pop [where loops = loops and src = src and a = a, OF Suc.prems(1) Cons _ Suc.prems(3)]
      Suc.prems(2) Cons by auto
    have l': "loop_inv l'" "loop_model l' = xs"
      using loop_take_head [OF Suc.prems(1) Cons] g(2) by auto
    obtain loops' where "drain_loop n (loops(src := l')) src adr m' =
        Some (loops', map payload (fst (loop.pop_all n l')))"
      using Suc.IH [of "loops(src := l')" m' adr] l' Suc.prems(2) g(4) Cons
      by (auto simp: fun_upd_def)
    then show ?thesis using g by (auto simp: split_def)
  qed
qed

definition empty_loop :: loopback_t where
  "empty_loop = \<lparr>l_msgs = replicate 16 \<lparr>l_data = replicate 1400 0, l_datalen = 0\<rparr>, l_get = 0, l_send = 0\<rparr>"

lemma empty_loop_ok: "loop_inv empty_loop" "slots_ok empty_loop" "loop_model empty_loop = []"
    "loop_spare empty_loop = 2147483647"
  by (simp_all add: empty_loop_def loop_inv_def slots_ok_def loopmsg_ok_def loop_model_def loop_spare_def)

text \<open>
  C16: packets of at most 1400 bytes sent through the loopback transport are what the other end's
  drain loop delivers, in the order they were sent; when more than sixteen were sent in between,
  the last sixteen. No copy leaves a slot or the message buffer.
\<close>

theorem loopback_delivery:
  assumes "loop_inv (loops (other_end src))" "slots_ok (loops (other_end src))"
    and "loop_model (loops (other_end src)) = []"
    and "length ps \<le> loop_spare (loops (other_end src))" "\<forall>p \<in> set ps. length p \<le> 1400"
    and "room m 1400" "16 \<le> n"
  shows "\<exists>loops1 loops2. send_loop loops src ps = Some loops1 \<and>
    drain_loop n loops1 (other_end src) a m = Some (loops2, drop (length ps - 16) ps)"
proof -
  let ?o = "other_end src"
  obtain ms where ms: "send_loop loops src ps = Some (loops(?o := loop.put_all ms (loops ?o)))"
      "map payload ms = ps" "list_all loopmsg_ok ms"
    using send_loop_put_all [where loops = loops and src = src, OF assms(1,2,5,4)] by blast
  have len: "length ms = length ps" using ms(2) by auto
  let ?l = "loop.put_all ms (loops ?o)"
  have l: "loop_inv ?l" "loop_model ?l = drop (length ms - 16) ms"
    using loop.put_all_model [OF assms(1), of ms] assms(3,4) len by simp_all
  have "list_all loopmsg_ok (loop_model ?l)"
    using ms(3) by (auto simp: l(2) list_all_iff dest: in_set_dropD)
  then obtain loops2 where d: "drain_loop n (loops(?o := ?l)) ?o a m =
      Some (loops2, map payload (fst (loop.pop_all n ?l)))"
    using drain_loop_pop_all [of "loops(?o := ?l)" ?o m n a] l(1) assms(6) by auto
  have f: "fst (loop.pop_all n ?l) = drop (length ms - 16) ms"
    by (rule loop.fifo [OF assms(1,3)]) (use assms(4,7) len in auto)
  have "map payload (drop (length ms - 16) ms) = drop (length ps - 16) ps"
    using ms(2) len drop_map [of "length ms - 16" payload ms] by simp
  with d f have "drain_loop n (loops(?o := ?l)) ?o a m = Some (loops2, drop (length ps - 16) ps)" by simp
  with ms(1) show ?thesis by blast
qed

lemma loopback_delivery_witness:
  "\<exists>loops1 loops2. send_loop (\<lambda>_. empty_loop) NS_CLIENT [[1, 2], [3]] = Some loops1 \<and>
    drain_loop 16 loops1 NS_SERVER (n_remoteAddress (fresh_chan NS_SERVER)) (MSG_Init (replicate 1400 0) 1400) =
      Some (loops2, [[1, 2], [3]])"
proof -
  define m where "m = MSG_Init (replicate 1400 0) 1400"
  have room: "room m 1400" by (simp add: m_def room_def MSG_Init_def)
  have "\<exists>loops1 loops2. send_loop (\<lambda>_. empty_loop) NS_CLIENT [[1, 2], [3]] = Some loops1 \<and>
    drain_loop 16 loops1 (other_end NS_CLIENT) (n_remoteAddress (fresh_chan NS_SERVER)) m =
      Some (loops2, drop (length [[1, 2], [3 :: 8 word]] - 16) [[1, 2], [3]])"
    by (rule loopback_delivery [OF _ _ _ _ _ room]) (simp_all add: empty_loop_ok)
  then show ?thesis by (simp add: m_def del: send_loop.simps drain_loop.simps)
qed

section \<open>Addresses\<close>

lemma compare_bytes_refl [simp]: "compare_bytes as as = 0"
  by (induction as) auto

lemma compare_bytes_sym: "compare_bytes bs as = - compare_bytes as bs"
  by (induction as bs rule: compare_bytes.induct) auto

lemma compare_bytes_zero: "length as = length bs \<Longrightarrow> compare_bytes as bs = 0 \<longleftrightarrow> as = bs"
  by (induction as bs rule: list_induct2) (auto simp: not_less_iff_gr_or_eq)

lemma adrtype_value_inj: "adrtype_value a = adrtype_value b \<longleftrightarrow> a = b"
  by (cases a; cases b) simp_all

definition adr_ok :: "netadr_t \<Rightarrow> bool" where
  "adr_ok a \<longleftrightarrow> length (a_ip a) = 4 \<and> length (a_ipx a) = 10 \<and> 0 \<le> a_port a \<and> a_port a < 65536"

text \<open>
  C17: \<open>NET_CompareAdr\<close> holds of two addresses exactly when they have the same type and, for the
  two routable types, the same port and the same host bytes; the signed comparison it tests
  changes its sign when the arguments are swapped, so it orders addresses consistently.
\<close>

theorem compare_adr_equal:
  assumes "adr_ok a" "adr_ok b"
  shows "(NET_CompareAdr a b \<longleftrightarrow> a_type a = a_type b \<and>
      (a_type a = NA_IP \<longrightarrow> a_port a = a_port b \<and> a_ip a = a_ip b) \<and>
      (a_type a = NA_IPX \<longrightarrow> a_port a = a_port b \<and> a_ipx a = a_ipx b)) \<and>
    NET_CompareAdrSigned b a = - NET_CompareAdrSigned a b \<and>
    NET_CompareBaseAdrSigned b a = - NET_CompareBaseAdrSigned a b"
  using assms compare_bytes_sym [of "a_ip b" "a_ip a"] compare_bytes_sym [of "a_ipx b" "a_ipx a"]
  by (auto simp: NET_CompareAdr_def NET_CompareAdrSigned_def NET_CompareBaseAdrSigned_def
      compare_bytes_zero adr_ok_def adrtype_value_inj)

lemma compare_adr_equal_witness:
  "\<not> NET_CompareAdr \<lparr>a_type = NA_IP, a_ip = [10, 0, 0, 1], a_ipx = replicate 10 0, a_port = 28960\<rparr>
      \<lparr>a_type = NA_IP, a_ip = [10, 0, 0, 1], a_ipx = replicate 10 0, a_port = 28961\<rparr>"
  by (subst compare_adr_equal [THEN conjunct1]) (simp_all add: adr_ok_def)

end
