(* ===== verification/EventQueue.thy ===== *)
theory EventQueue
  imports Netchan Ring
begin

text \<open>
  The event rings: \<open>src/qcommon/com_event_queue.c\<close> (pushed events and the journal) and the
  system event queue of the dedicated server
  (\<open>server/standalone/core_runtime/sys_event_runtime.c\<close>). An event's payload is an owned heap
  block, here its address and its bytes; \<open>Z_FreeInternal\<close> is the list of addresses an
  operation frees. The journal file is the list of its bytes, \<open>FS_Read\<close> takes at most the
  requested number off the front and \<open>FS_Write\<close> appends all it is given. What the platform
  reports (\<open>Sys_GetPacket\<close>, \<open>Sys_ConsoleInput\<close>, key events) is the list of events it queues.
\<close>

section \<open>Events\<close>

record sysEvent_t =
  ev_time :: int
  ev_type :: int
  ev_value :: int
  ev_value2 :: int
  ev_payloadLength :: int
  ev_payload :: "(nat \<times> 8 word list) option"

abbreviation SE_NONE :: int where "SE_NONE \<equiv> 0"
abbreviation SE_CONSOLE :: int where "SE_CONSOLE \<equiv> 5"
abbreviation SE_PACKET :: int where "SE_PACKET \<equiv> 6"
abbreviation SYS_EVENT_QUEUE_COUNT :: int where "SYS_EVENT_QUEUE_COUNT \<equiv> 4096"

definition zero_event :: sysEvent_t where
  "zero_event = \<lparr>ev_time = 0, ev_type = 0, ev_value = 0, ev_value2 = 0, ev_payloadLength = 0,
     ev_payload = None\<rparr>"

definition free_payload :: "sysEvent_t \<Rightarrow> nat list" where
  "free_payload event = (case ev_payload event of None \<Rightarrow> [] | Some (address, _) \<Rightarrow> [address])"

section \<open>Pushed events\<close>

record push_events =
  pe_events :: "sysEvent_t list"
  pe_head :: int
  pe_tail :: int
  pe_overflowed :: bool

definition Com_ClearPushEventsForStartup :: "push_events \<Rightarrow> push_events" where
  "Com_ClearPushEventsForStartup q = q\<lparr>pe_events := replicate 4096 zero_event, pe_head := 0, pe_tail := 0\<rparr>"

definition push_slot :: "push_events \<Rightarrow> sysEvent_t" where
  "push_slot q = pe_events q ! nat (pe_head q AND 4095)"

definition Com_PushEvent :: "sysEvent_t \<Rightarrow> push_events \<Rightarrow> push_events \<times> nat list" where
  "Com_PushEvent event q =
     (let full = i32 (pe_head q - pe_tail q) \<ge> SYS_EVENT_QUEUE_COUNT;
          freed = (if full then free_payload (push_slot q) else []);
          q1 = (if full then q\<lparr>pe_overflowed := True, pe_tail := i32 (pe_tail q + 1)\<rparr>
                else q\<lparr>pe_overflowed := False\<rparr>) in
      (q1\<lparr>pe_events := (pe_events q1)[nat (pe_head q1 AND 4095) := event],
          pe_head := i32 (pe_head q1 + 1)\<rparr>, freed))"

text \<open>The queue part of \<open>Com_GetEvent\<close>: \<open>None\<close> is where it goes on to \<open>Com_GetRealEvent\<close>.\<close>

definition Com_GetEvent :: "push_events \<Rightarrow> (sysEvent_t \<times> push_events) option" where
  "Com_GetEvent q =
     (if pe_head q > pe_tail q
      then Some (pe_events q ! nat (pe_tail q AND 4095), q\<lparr>pe_tail := i32 (pe_tail q + 1)\<rparr>)
      else None)"

function Com_InitPushEvent :: "push_events \<Rightarrow> push_events \<times> nat list" where
  "Com_InitPushEvent q =
     (if pe_tail q < pe_head q \<and> pe_head q < 2147483648 then
        case Com_InitPushEvent (q\<lparr>pe_tail := pe_tail q + 1\<rparr>) of
          (q', freed) \<Rightarrow> (q', free_payload (pe_events q ! nat (pe_tail q AND 4095)) @ freed)
      else (q, []))"
  by auto
termination by (relation "measure (\<lambda>q. nat (pe_head q - pe_tail q))") auto

declare Com_InitPushEvent.simps [simp del]

section \<open>The journal\<close>

text \<open>\<open>coduo_journal_event_record_t\<close> as the six words \<open>FS_Write\<close> stores.\<close>

definition coduo_event_to_journal_record :: "sysEvent_t \<Rightarrow> 8 word list" where
  "coduo_event_to_journal_record event =
     le32 (ev_time event) @ le32 (ev_type event) @ le32 (ev_value event) @ le32 (ev_value2 event) @
     le32 (ev_payloadLength event) @
     le32 (case ev_payload event of None \<Rightarrow> 0 | Some (address, _) \<Rightarrow> int address)"

definition word_at :: "8 word list \<Rightarrow> nat \<Rightarrow> int" where
  "word_at bs k = (case drop (4 * k) bs of
     b0 # b1 # b2 # b3 # _ \<Rightarrow>
       sint (ucast b0 OR push_bit 8 (ucast b1) OR push_bit 16 (ucast b2) OR push_bit 24 (ucast b3) :: 32 word)
   | _ \<Rightarrow> 0)"

definition coduo_event_from_journal_record :: "8 word list \<Rightarrow> sysEvent_t" where
  "coduo_event_from_journal_record record' =
     \<lparr>ev_time = word_at record' 0, ev_type = word_at record' 1, ev_value = word_at record' 2,
      ev_value2 = word_at record' 3, ev_payloadLength = word_at record' 4, ev_payload = None\<rparr>"

definition COM_JOURNAL_MAX_PAYLOAD_BYTES :: int where
  "COM_JOURNAL_MAX_PAYLOAD_BYTES = 32788"

definition journal_event_bad :: "sysEvent_t \<Rightarrow> bool" where
  "journal_event_bad event \<longleftrightarrow>
     ev_type event < SE_NONE \<or> ev_type event > SE_PACKET \<or> ev_payloadLength event < 0 \<or>
     ev_payloadLength event > COM_JOURNAL_MAX_PAYLOAD_BYTES \<or>
     (ev_type event = SE_CONSOLE \<and> ev_payloadLength event = 0) \<or>
     (ev_type event = SE_PACKET \<and> ev_payloadLength event < 20) \<or>
     (ev_type event \<noteq> SE_CONSOLE \<and> ev_type event \<noteq> SE_PACKET \<and> ev_payloadLength event \<noteq> 0)"

text \<open>
  The replay branch of \<open>Com_GetRealEvent\<close> on the rest of the file; \<open>address\<close> is what
  \<open>Z_MallocInternal\<close> returns.
\<close>

definition replay_event :: "nat \<Rightarrow> 8 word list \<Rightarrow> (sysEvent_t \<times> 8 word list) run" where
  "replay_event address file =
     (if length (take 24 file) \<noteq> 24 then Raise ERR_FATAL ''EXE_ERR_JOURNAL_FILE_READ''
      else let event = coduo_event_from_journal_record (take 24 file); rest = drop 24 file in
      if journal_event_bad event then Raise ERR_FATAL ''EXE_ERR_JOURNAL_FILE_READ''
      else if ev_payloadLength event \<noteq> 0 then
        let n = nat (ev_payloadLength event); block = take n rest in
        if length block \<noteq> n then Raise ERR_FATAL ''EXE_ERR_JOURNAL_FILE_READ''
        else if ev_type event = SE_CONSOLE \<and> block ! (n - 1) \<noteq> 0
        then Raise ERR_FATAL ''EXE_ERR_JOURNAL_FILE_READ''
        else Done (event\<lparr>ev_payload := Some (address, block)\<rparr>, drop n rest)
      else Done (event, rest))"

text \<open>The record branch: the bytes appended for an event of the platform. Reading more of the
  payload than its block holds is \<open>None\<close>.\<close>

definition record_event :: "sysEvent_t \<Rightarrow> 8 word list option" where
  "record_event event =
     (if ev_payloadLength event \<noteq> 0 then do {
        (_, block) \<leftarrow> ev_payload event;
        bytes \<leftarrow> copy_out block 0 (ev_payloadLength event);
        Some (coduo_event_to_journal_record event @ bytes) }
      else Some (coduo_event_to_journal_record event))"

section \<open>Draining the platform\<close>

text \<open>
  \<open>Com_PumpMessageLoop\<close> and \<open>Com_Milliseconds\<close> push every real event until the platform has
  none left (\<open>SE_NONE\<close>). The platform is a state and a step; the loop need not end, so it takes
  fuel.
\<close>

fun pump_events :: "('w \<Rightarrow> sysEvent_t \<times> 'w) \<Rightarrow> nat \<Rightarrow> 'w \<Rightarrow> push_events \<Rightarrow>
    (sysEvent_t \<times> 'w \<times> push_events \<times> nat list) option" where
  "pump_events getReal 0 w q = None"
| "pump_events getReal (Suc n) w q =
     (case getReal w of (event, w1) \<Rightarrow>
        if ev_type event = SE_NONE then Some (event, w1, q, [])
        else case Com_PushEvent event q of (q1, freed) \<Rightarrow> do {
          (last, w2, q2, freed2) \<leftarrow> pump_events getReal n w1 q1;
          Some (last, w2, q2, freed @ freed2) })"

definition Com_PumpMessageLoop ::
    "('w \<Rightarrow> sysEvent_t \<times> 'w) \<Rightarrow> nat \<Rightarrow> 'w \<Rightarrow> push_events \<Rightarrow> ('w \<times> push_events \<times> nat list) option" where
  "Com_PumpMessageLoop getReal n w q = do {
     (_, w1, q1, freed) \<leftarrow> pump_events getReal n w q;
     Some (w1, q1, freed) }"

definition Com_Milliseconds ::
    "('w \<Rightarrow> sysEvent_t \<times> 'w) \<Rightarrow> nat \<Rightarrow> 'w \<Rightarrow> push_events \<Rightarrow> (int \<times> 'w \<times> push_events \<times> nat list) option" where
  "Com_Milliseconds getReal n w q = do {
     (event, w1, q1, freed) \<leftarrow> pump_events getReal n w q;
     Some (ev_time event, w1, q1, freed) }"

section \<open>System events of the dedicated server\<close>

record sys_queue =
  sq_events :: "sysEvent_t list"
  sq_producer :: int
  sq_consumer :: int

definition coduomp_sys_pop_queued_event :: "sys_queue \<Rightarrow> (sysEvent_t \<times> sys_queue) option" where
  "coduomp_sys_pop_queued_event q =
     (if sq_consumer q \<ge> sq_producer q then None
      else Some (sq_events q ! nat (sq_consumer q AND 4095), q\<lparr>sq_consumer := i32 (sq_consumer q + 1)\<rparr>))"

text \<open>\<open>Sys_QueEvent\<close> on the event as it is stored, its time already filled in.\<close>

definition queue_event :: "sysEvent_t \<Rightarrow> sys_queue \<Rightarrow> sys_queue \<times> nat list" where
  "queue_event event q =
     (let index = nat (sq_producer q AND 4095);
          full = 4095 < i32 (sq_producer q - sq_consumer q);
          freed = (if full then free_payload (sq_events q ! index) else []);
          q1 = (if full then q\<lparr>sq_consumer := i32 (sq_consumer q + 1)\<rparr> else q) in
      (q1\<lparr>sq_producer := i32 (sq_producer q1 + 1), sq_events := (sq_events q1)[index := event]\<rparr>, freed))"

definition stamped :: "int \<Rightarrow> sysEvent_t \<Rightarrow> sysEvent_t" where
  "stamped milliseconds event =
     event\<lparr>ev_time := (if ev_time event = 0 then milliseconds else ev_time event)\<rparr>"

definition Sys_QueEvent :: "int \<Rightarrow> sysEvent_t \<Rightarrow> sys_queue \<Rightarrow> sys_queue \<times> nat list" where
  "Sys_QueEvent milliseconds event q = queue_event (stamped milliseconds event) q"

text \<open>
  \<open>Sys_GetEvent\<close>: a queued event; otherwise the events the platform queues now (the console
  line, then the packet), and the first of them or the empty event of the current time.
\<close>

fun queue_all :: "int \<Rightarrow> sysEvent_t list \<Rightarrow> sys_queue \<Rightarrow> sys_queue \<times> nat list" where
  "queue_all milliseconds [] q = (q, [])"
| "queue_all milliseconds (e # es) q =
     (case Sys_QueEvent milliseconds e q of (q1, freed) \<Rightarrow>
        case queue_all milliseconds es q1 of (q2, freed2) \<Rightarrow> (q2, freed @ freed2))"

definition Sys_GetEvent :: "int \<Rightarrow> sysEvent_t list \<Rightarrow> sys_queue \<Rightarrow> sysEvent_t \<times> sys_queue \<times> nat list" where
  "Sys_GetEvent milliseconds platform q =
     (case coduomp_sys_pop_queued_event q of
        Some (event, q1) \<Rightarrow> (event, q1, [])
      | None \<Rightarrow>
          (case queue_all milliseconds platform q of (q1, freed) \<Rightarrow>
             (case coduomp_sys_pop_queued_event q1 of
                Some (event, q2) \<Rightarrow> (event, q2, freed)
              | None \<Rightarrow> (zero_event\<lparr>ev_time := milliseconds\<rparr>, q1, freed))))"

end
