(* ===== verification/EventQueue_Correct.thy ===== *)
theory EventQueue_Correct
  imports EventQueue
begin

text \<open>
  Both event rings implement the owning ring: events leave in the order they came, the oldest
  gives way when 4096 are queued, and every payload is freed exactly once or handed out. An
  event the journal recorded is the event its replay returns.
\<close>

section \<open>Rings of 4096 slots\<close>

lemma nat_mod_4096: "0 \<le> i \<Longrightarrow> nat (i mod 4096) = nat i mod 4096"
  by (simp add: nat_mod_distrib)

text \<open>The arithmetic both rings share: \<open>t\<close> is the read cursor, \<open>h\<close> the write cursor.\<close>

definition cursors_ok :: "sysEvent_t list \<Rightarrow> int \<Rightarrow> int \<Rightarrow> bool" where
  "cursors_ok xs t h \<longleftrightarrow> length xs = 4096 \<and> 0 \<le> t \<and> t \<le> h \<and> h - t \<le> 4096 \<and> h < 2147483648"

definition events_between :: "sysEvent_t list \<Rightarrow> int \<Rightarrow> int \<Rightarrow> sysEvent_t list" where
  "events_between xs t h = window xs (nat t) (nat h)"

lemma events_between_length: "0 \<le> t \<Longrightarrow> t \<le> h \<Longrightarrow> length (events_between xs t h) = nat (h - t)"
  by (simp add: events_between_def nat_diff_distrib')

lemma events_between_put:
  assumes "cursors_ok xs t h" "h < 2147483647"
  shows "events_between (xs[nat (h mod 4096) := x]) (if h - t < 4096 then t else t + 1) (h + 1) =
     drop (Suc (length (events_between xs t h)) - 4096) (events_between xs t h @ [x])"
proof -
  have l: "length xs = 4096" "0 \<le> t" "t \<le> h" "h - t \<le> 4096" using assms by (auto simp: cursors_ok_def)
  have w: "nat (h + 1) = Suc (nat h)" "nat (h mod 4096) = nat h mod length xs"
    using l by (simp_all add: nat_mod_4096)
  show ?thesis
  proof (cases "h - t < 4096")
    case True
    then have "window (xs[nat h mod length xs := x]) (nat t) (Suc (nat h)) = window xs (nat t) (nat h) @ [x]"
      using l by (intro window_put) auto
    moreover have "Suc (nat h - nat t) - 4096 = 0" using True l by simp
    ultimately show ?thesis using True by (simp add: events_between_def w)
  next
    case False
    then have h: "nat h = nat t + length xs" "nat (t + 1) = Suc (nat t)" using l by auto
    have "window (xs[nat h mod length xs := x]) (Suc (nat t)) (Suc (nat h)) = tl (window xs (nat t) (nat h)) @ [x]"
      by (rule window_put_full) (use l h in auto)
    then show ?thesis using False h l(1) by (simp add: events_between_def w drop_Suc)
  qed
qed

lemma events_between_pop:
  assumes "cursors_ok xs t h" "t < h"
  shows "events_between xs t h = xs ! nat (t mod 4096) # events_between xs (t + 1) h"
proof -
  have "nat (t + 1) = Suc (nat t)" "nat (t mod 4096) = nat t mod length xs"
    using assms by (auto simp: cursors_ok_def nat_mod_4096)
  then show ?thesis
    using assms window_head [of "nat t" "nat h" xs] by (simp add: events_between_def cursors_ok_def)
qed

section \<open>Pushed events\<close>

definition push_inv :: "push_events \<Rightarrow> bool" where
  "push_inv q \<longleftrightarrow> cursors_ok (pe_events q) (pe_tail q) (pe_head q)"

definition push_model :: "push_events \<Rightarrow> sysEvent_t list" where
  "push_model q = events_between (pe_events q) (pe_tail q) (pe_head q)"

definition push_spare :: "push_events \<Rightarrow> nat" where
  "push_spare q = nat (2147483647 - pe_head q)"

abbreviation push :: "sysEvent_t \<Rightarrow> push_events \<Rightarrow> push_events" where
  "push e q \<equiv> fst (Com_PushEvent e q)"

abbreviation push_frees :: "sysEvent_t \<Rightarrow> push_events \<Rightarrow> nat list" where
  "push_frees e q \<equiv> snd (Com_PushEvent e q)"

lemma push_fields:
  assumes "push_inv q" "0 < push_spare q"
  shows "pe_events (push e q) = (pe_events q)[nat (pe_head q mod 4096) := e]"
    "pe_head (push e q) = pe_head q + 1"
    "pe_tail (push e q) = (if pe_head q - pe_tail q < 4096 then pe_tail q else pe_tail q + 1)"
    "push_frees e q = (if pe_head q - pe_tail q < 4096 then []
       else free_payload (pe_events q ! nat (pe_head q mod 4096)))"
  using assms
  by (auto simp: Com_PushEvent_def Let_def push_inv_def cursors_ok_def push_spare_def i32_simps push_slot_def)

interpretation pushed: owning_ring push_inv push_model push Com_GetEvent 4096 push_spare
  free_payload push_frees
proof unfold_locales
  fix q e assume q: "push_inv q" "0 < push_spare q"
  note f = push_fields [OF q]
  show "push_inv (push e q) \<and> push_spare (push e q) = push_spare q - 1"
    using q by (auto simp: push_inv_def push_spare_def cursors_ok_def f)
  have h: "pe_head q < 2147483647" using q(2) by (simp add: push_spare_def)
  show "push_model (push e q) = drop (Suc (length (push_model q)) - 4096) (push_model q @ [e])"
    unfolding push_model_def f
    by (rule events_between_put) (use q h in \<open>simp_all add: push_inv_def\<close>)
  have c: "0 \<le> pe_tail q" "pe_tail q \<le> pe_head q" "pe_head q - pe_tail q \<le> 4096"
    using q by (auto simp: push_inv_def cursors_ok_def)
  have len: "length (push_model q) < 4096 \<longleftrightarrow> pe_head q - pe_tail q < 4096"
    using c by (simp add: push_model_def events_between_length) linarith
  show "push_frees e q = (if length (push_model q) < 4096 then [] else free_payload (hd (push_model q)))"
  proof (cases "pe_head q - pe_tail q < 4096")
    case True
    then show ?thesis by (simp add: len f)
  next
    case False
    then have "pe_head q = pe_tail q + 4096" using c by simp
    moreover have "hd (push_model q) = pe_events q ! nat (pe_tail q mod 4096)"
      using events_between_pop [of "pe_events q" "pe_tail q" "pe_head q"] q False
      by (simp add: push_model_def push_inv_def)
    ultimately show ?thesis using False by (simp add: len f)
  qed
next
  fix q assume "push_inv q"
  then show "length (push_model q) \<le> 4096"
    using events_between_length [of "pe_tail q" "pe_head q" "pe_events q"]
    by (auto simp: push_inv_def push_model_def cursors_ok_def)
next
  fix q assume q: "push_inv q" "push_model q = []"
  then have "length (push_model q) = 0" by simp
  then have "\<not> pe_tail q < pe_head q"
    using q(1) by (simp add: push_model_def events_between_length push_inv_def cursors_ok_def del: length_0_conv)
  then show "Com_GetEvent q = None" by (simp add: Com_GetEvent_def)
next
  fix q x xs assume q: "push_inv q" "push_model q = x # xs"
  then have lt: "pe_tail q < pe_head q"
    using events_between_length [of "pe_tail q" "pe_head q" "pe_events q"]
    by (auto simp: push_model_def push_inv_def cursors_ok_def)
  have "push_model q = pe_events q ! nat (pe_tail q mod 4096) #
      events_between (pe_events q) (pe_tail q + 1) (pe_head q)"
    unfolding push_model_def by (rule events_between_pop) (use q lt in \<open>simp_all add: push_inv_def\<close>)
  with q lt show "\<exists>q'. Com_GetEvent q = Some (x, q') \<and> push_inv q' \<and> push_model q' = xs \<and> push_spare q' = push_spare q"
    by (auto simp: Com_GetEvent_def push_inv_def cursors_ok_def push_model_def push_spare_def i32_simps)
qed simp

primrec push_all :: "sysEvent_t list \<Rightarrow> push_events \<Rightarrow> push_events \<times> nat list" where
  "push_all [] q = (q, [])"
| "push_all (e # es) q = (case Com_PushEvent e q of (q1, freed) \<Rightarrow>
     case push_all es q1 of (q2, freed2) \<Rightarrow> (q2, freed @ freed2))"

lemma push_all_eq: "push_all es q = (pushed.put_all es q, pushed.freed_all es q)"
  by (induction es arbitrary: q) (simp_all add: split_def)

lemma InitPushEvent_eq:
  "push_inv q \<Longrightarrow> \<exists>q'. Com_InitPushEvent q = (q', pushed.owns (push_model q)) \<and> push_inv q' \<and> push_model q' = []"
proof (induction "length (push_model q)" arbitrary: q)
  case 0
  then have "\<not> pe_tail q < pe_head q"
    using events_between_length [of "pe_tail q" "pe_head q" "pe_events q"]
    by (auto simp: push_model_def push_inv_def cursors_ok_def)
  then show ?case using 0 by (subst Com_InitPushEvent.simps) auto
next
  case (Suc n)
  have c: "0 \<le> pe_tail q" "pe_tail q < pe_head q" "pe_head q < 2147483648"
    using Suc.hyps(2) Suc.prems events_between_length [of "pe_tail q" "pe_head q" "pe_events q"]
    by (auto simp: push_model_def push_inv_def cursors_ok_def)
  let ?q1 = "q\<lparr>pe_tail := pe_tail q + 1\<rparr>"
  have m: "push_model q = pe_events q ! nat (pe_tail q mod 4096) # push_model ?q1"
    unfolding push_model_def using events_between_pop [of "pe_events q" "pe_tail q" "pe_head q"] Suc.prems c
    by (simp add: push_inv_def)
  have "push_inv ?q1" using Suc.prems c by (auto simp: push_inv_def cursors_ok_def)
  then obtain q' where "Com_InitPushEvent ?q1 = (q', pushed.owns (push_model ?q1))" "push_inv q'" "push_model q' = []"
    using Suc.hyps m by auto
  then show ?case using c by (subst Com_InitPushEvent.simps) (simp add: m)
qed

text \<open>
  C18: events pushed into an empty queue are handed out by \<open>Com_GetEvent\<close> in the order they were
  pushed, the last 4096 of them when there were more. Pushing any events and then draining with
  \<open>Com_InitPushEvent\<close> frees the payload of each event once, in the order of the pushes, and
  nothing else.
\<close>

theorem push_events_fifo:
  assumes "push_inv q" "push_model q = []" "length es \<le> push_spare q"
  shows "fst (pushed.pop_all 4096 (fst (push_all es q))) = drop (length es - 4096) es \<and>
    snd (push_all es q) @ snd (Com_InitPushEvent (fst (push_all es q))) = concat (map free_payload es)"
proof -
  have "push_inv (pushed.put_all es q)"
    using pushed.put_all_model [OF assms(1,3)] by blast
  from InitPushEvent_eq [OF this]
  have "snd (Com_InitPushEvent (pushed.put_all es q)) = pushed.owns (push_model (pushed.put_all es q))"
    by auto
  moreover have "pushed.freed_all es q @ pushed.owns (push_model (pushed.put_all es q)) =
      pushed.owns (push_model q) @ pushed.owns es"
    by (rule pushed.all_conserved [OF assms(1,3)])
  moreover have "fst (pushed.pop_all 4096 (pushed.put_all es q)) = drop (length es - 4096) es"
    by (rule pushed.fifo [OF assms]) simp
  ultimately show ?thesis by (simp add: push_all_eq assms(2))
qed

definition empty_push :: push_events where
  "empty_push = Com_ClearPushEventsForStartup \<lparr>pe_events = [], pe_head = 0, pe_tail = 0, pe_overflowed = False\<rparr>"

lemma empty_push_ok: "push_inv empty_push" "push_model empty_push = []" "push_spare empty_push = 2147483647"
  by (simp_all add: empty_push_def Com_ClearPushEventsForStartup_def push_inv_def push_model_def
      push_spare_def cursors_ok_def events_between_def)

lemma push_events_fifo_witness:
  "snd (push_all [zero_event\<lparr>ev_payload := Some (7, [])\<rparr>] empty_push) @
   snd (Com_InitPushEvent (fst (push_all [zero_event\<lparr>ev_payload := Some (7, [])\<rparr>] empty_push))) = [7]"
  using push_events_fifo [OF empty_push_ok(1,2), of "[zero_event\<lparr>ev_payload := Some (7, [])\<rparr>]"]
  by (simp add: empty_push_ok free_payload_def del: push_all.simps)

text \<open>The platform delivers \<open>es\<close> and then the event \<open>last\<close> of type \<open>SE_NONE\<close>.\<close>

inductive delivers :: "('w \<Rightarrow> sysEvent_t \<times> 'w) \<Rightarrow> 'w \<Rightarrow> sysEvent_t list \<Rightarrow> sysEvent_t \<Rightarrow> 'w \<Rightarrow> bool"
  for getReal where
  none: "getReal w = (e, w') \<Longrightarrow> ev_type e = SE_NONE \<Longrightarrow> delivers getReal w [] e w'"
| more: "getReal w = (e, w1) \<Longrightarrow> ev_type e \<noteq> SE_NONE \<Longrightarrow> delivers getReal w1 es last' w' \<Longrightarrow>
    delivers getReal w (e # es) last' w'"

lemma pump_events_pushes:
  "delivers getReal w es last' w' \<Longrightarrow> length es < n \<Longrightarrow>
   pump_events getReal n w q = Some (last', w', pushed.put_all es q, pushed.freed_all es q)"
proof (induction arbitrary: n q rule: delivers.induct)
  case (none w e w')
  then show ?case by (cases n) simp_all
next
  case (more w e w1 es last' w')
  then obtain k where "n = Suc k" "length es < k" by (cases n) auto
  with more show ?case by (simp add: split_def)
qed

text \<open>
  C19: \<open>Com_PumpMessageLoop\<close> and \<open>Com_Milliseconds\<close> return as soon as the platform has no event
  left, having pushed exactly the delivered events in their order; \<open>Com_Milliseconds\<close> returns
  the time of the empty event. Any fuel above the number of delivered events is enough.
\<close>

theorem pump_pushes_delivered:
  assumes "delivers getReal w es last' w'" "length es < n"
  shows "Com_PumpMessageLoop getReal n w q = Some (w', push_all es q) \<and>
    Com_Milliseconds getReal n w q = Some (ev_time last', w', push_all es q)"
  using pump_events_pushes [OF assms]
  by (simp add: Com_PumpMessageLoop_def Com_Milliseconds_def push_all_eq)

definition two_events :: "nat \<Rightarrow> sysEvent_t \<times> nat" where
  "two_events w = (if w < 2 then (zero_event\<lparr>ev_type := 1, ev_value := int w\<rparr>, w + 1)
     else (zero_event\<lparr>ev_time := 50\<rparr>, w))"

lemma pump_pushes_delivered_witness:
  "\<exists>q. Com_Milliseconds two_events 3 0 empty_push = Some (50, 2, q)"
proof -
  have "delivers two_events 2 [] (zero_event\<lparr>ev_time := 50\<rparr>) 2"
    by (rule delivers.none) (simp_all add: two_events_def zero_event_def)
  then have "delivers two_events 1 [zero_event\<lparr>ev_type := 1, ev_value := 1\<rparr>] (zero_event\<lparr>ev_time := 50\<rparr>) 2"
    by (rule delivers.more [rotated 2]) (simp_all add: two_events_def zero_event_def)
  then have "delivers two_events 0 [zero_event\<lparr>ev_type := 1, ev_value := 0\<rparr>, zero_event\<lparr>ev_type := 1, ev_value := 1\<rparr>]
      (zero_event\<lparr>ev_time := 50\<rparr>) 2"
    by (rule delivers.more [rotated 2]) (simp_all add: two_events_def zero_event_def)
  from pump_pushes_delivered [OF this, of 3 empty_push] show ?thesis by (simp del: push_all.simps)
qed

section \<open>System events\<close>

definition sys_inv :: "sys_queue \<Rightarrow> bool" where
  "sys_inv q \<longleftrightarrow> cursors_ok (sq_events q) (sq_consumer q) (sq_producer q)"

definition sys_model :: "sys_queue \<Rightarrow> sysEvent_t list" where
  "sys_model q = events_between (sq_events q) (sq_consumer q) (sq_producer q)"

definition sys_spare :: "sys_queue \<Rightarrow> nat" where
  "sys_spare q = nat (2147483647 - sq_producer q)"

lemma queue_event_fields:
  assumes "sys_inv q" "0 < sys_spare q"
  shows "sq_events (fst (queue_event e q)) = (sq_events q)[nat (sq_producer q mod 4096) := e]"
    "sq_producer (fst (queue_event e q)) = sq_producer q + 1"
    "sq_consumer (fst (queue_event e q)) =
       (if sq_producer q - sq_consumer q < 4096 then sq_consumer q else sq_consumer q + 1)"
    "snd (queue_event e q) = (if sq_producer q - sq_consumer q < 4096 then []
       else free_payload (sq_events q ! nat (sq_producer q mod 4096)))"
  using assms
  by (auto simp: queue_event_def Let_def sys_inv_def cursors_ok_def sys_spare_def i32_simps)

interpretation queued: owning_ring sys_inv sys_model "\<lambda>e q. fst (queue_event e q)"
  coduomp_sys_pop_queued_event 4096 sys_spare free_payload "\<lambda>e q. snd (queue_event e q)"
proof unfold_locales
  fix q e assume q: "sys_inv q" "0 < sys_spare q"
  note f = queue_event_fields [OF q]
  show "sys_inv (fst (queue_event e q)) \<and> sys_spare (fst (queue_event e q)) = sys_spare q - 1"
    using q by (auto simp: sys_inv_def sys_spare_def cursors_ok_def f)
  have h: "sq_producer q < 2147483647" using q(2) by (simp add: sys_spare_def)
  show "sys_model (fst (queue_event e q)) = drop (Suc (length (sys_model q)) - 4096) (sys_model q @ [e])"
    unfolding sys_model_def f
    by (rule events_between_put) (use q h in \<open>simp_all add: sys_inv_def\<close>)
  have c: "0 \<le> sq_consumer q" "sq_consumer q \<le> sq_producer q" "sq_producer q - sq_consumer q \<le> 4096"
    using q by (auto simp: sys_inv_def cursors_ok_def)
  have len: "length (sys_model q) < 4096 \<longleftrightarrow> sq_producer q - sq_consumer q < 4096"
    using c by (simp add: sys_model_def events_between_length) linarith
  show "snd (queue_event e q) = (if length (sys_model q) < 4096 then [] else free_payload (hd (sys_model q)))"
  proof (cases "sq_producer q - sq_consumer q < 4096")
    case True
    then show ?thesis by (simp add: len f)
  next
    case False
    then have "sq_producer q = sq_consumer q + 4096" using c by simp
    moreover have "hd (sys_model q) = sq_events q ! nat (sq_consumer q mod 4096)"
      using events_between_pop [of "sq_events q" "sq_consumer q" "sq_producer q"] q False
      by (simp add: sys_model_def sys_inv_def)
    ultimately show ?thesis using False by (simp add: len f)
  qed
next
  fix q assume "sys_inv q"
  then show "length (sys_model q) \<le> 4096"
    using events_between_length [of "sq_consumer q" "sq_producer q" "sq_events q"]
    by (auto simp: sys_inv_def sys_model_def cursors_ok_def)
next
  fix q assume q: "sys_inv q" "sys_model q = []"
  then have "length (sys_model q) = 0" by simp
  then have "\<not> sq_consumer q < sq_producer q"
    using q(1) by (simp add: sys_model_def events_between_length sys_inv_def cursors_ok_def del: length_0_conv)
  then show "coduomp_sys_pop_queued_event q = None" by (simp add: coduomp_sys_pop_queued_event_def)
next
  fix q x xs assume q: "sys_inv q" "sys_model q = x # xs"
  then have lt: "sq_consumer q < sq_producer q"
    using events_between_length [of "sq_consumer q" "sq_producer q" "sq_events q"]
    by (auto simp: sys_model_def sys_inv_def cursors_ok_def)
  have "sys_model q = sq_events q ! nat (sq_consumer q mod 4096) #
      events_between (sq_events q) (sq_consumer q + 1) (sq_producer q)"
    unfolding sys_model_def by (rule events_between_pop) (use q lt in \<open>simp_all add: sys_inv_def\<close>)
  with q lt show "\<exists>q'. coduomp_sys_pop_queued_event q = Some (x, q') \<and> sys_inv q' \<and> sys_model q' = xs \<and> sys_spare q' = sys_spare q"
    by (auto simp: coduomp_sys_pop_queued_event_def sys_inv_def cursors_ok_def sys_model_def sys_spare_def i32_simps)
qed simp

lemma queue_all_eq:
  "queue_all ms es q = (queued.put_all (map (stamped ms) es) q, queued.freed_all (map (stamped ms) es) q)"
  by (induction es arbitrary: q) (simp_all add: split_def Sys_QueEvent_def)

text \<open>
  C20: \<open>Sys_GetEvent\<close> returns the oldest queued event if there is one; otherwise it queues what the
  platform reports, each event stamped with the current time where it has none, returns the
  first of those and keeps the rest in order, or returns the empty event of the current time.
\<close>

theorem sys_get_event_spec:
  assumes "sys_inv q" "length platform \<le> sys_spare q" "length platform \<le> 4096"
  shows "\<exists>event q' freed. Sys_GetEvent ms platform q = (event, q', freed) \<and> sys_inv q' \<and>
    (case sys_model q @ (if sys_model q = [] then map (stamped ms) platform else []) of
       [] \<Rightarrow> event = zero_event\<lparr>ev_time := ms\<rparr> \<and> sys_model q' = [] \<and> freed = []
     | e # es \<Rightarrow> event = e \<and> sys_model q' = es \<and> freed = [])"
proof (cases "sys_model q")
  case (Cons e es)
  from queued.pop_head [OF assms(1) Cons] Cons show ?thesis
    by (auto simp: Sys_GetEvent_def)
next
  case Nil
  let ?es = "map (stamped ms) platform" and ?q1 = "queued.put_all (map (stamped ms) platform) q"
  have none: "coduomp_sys_pop_queued_event q = None" by (rule queued.pop_empty [OF assms(1) Nil])
  have q1: "sys_inv ?q1" "sys_model ?q1 = ?es"
    using queued.put_all_model [OF assms(1), of ?es] assms(2,3) Nil by simp_all
  have "queued.freed_all ?es q @ queued.owns ?es = [] @ queued.owns ?es"
    using queued.all_conserved [OF assms(1), of ?es] assms(2) q1(2) Nil by simp
  then have fr: "queued.freed_all ?es q = []" by simp
  show ?thesis
  proof (cases ?es)
    case Nil': Nil
    then have "platform = []" by simp
    then show ?thesis using none Nil assms(1) by (simp add: Sys_GetEvent_def)
  next
    case (Cons e es)
    have "sys_model ?q1 = e # es" using q1(2) Cons by simp
    from queued.pop_head [OF q1(1) this] show ?thesis
      using none fr Nil Cons by (auto simp: Sys_GetEvent_def queue_all_eq)
  qed
qed

lemma sys_get_event_spec_witness:
  "fst (Sys_GetEvent 99 [] \<lparr>sq_events = replicate 4096 zero_event, sq_producer = 0, sq_consumer = 0\<rparr>) =
     zero_event\<lparr>ev_time := 99\<rparr>"
proof -
  define q where "q = \<lparr>sq_events = replicate 4096 zero_event, sq_producer = 0, sq_consumer = 0\<rparr>"
  have "sys_inv q" "sys_model q = []"
    by (simp_all add: q_def sys_inv_def cursors_ok_def sys_model_def events_between_def)
  with sys_get_event_spec [of q "[]" 99] show ?thesis by (auto simp flip: q_def)
qed

section \<open>The journal\<close>

lemma le32_word:
  obtains b0 b1 b2 b3 where "le32 v = [b0, b1, b2, b3]"
    "sint (ucast b0 OR push_bit 8 (ucast b1) OR push_bit 16 (ucast b2) OR push_bit 24 (ucast b3) :: 32 word) = i32 v"
proof -
  let ?st = "word_of_int v :: 32 word"
  show ?thesis
    by (rule that [of "ucast ?st" "ucast (drop_bit 8 ?st)" "ucast (drop_bit 16 ?st)" "ucast (drop_bit 24 ?st)"])
      (simp_all add: le32_def Let_def join_32 sint_word_of_int_32)
qed

lemma word_at_0: "word_at (le32 v @ bs) 0 = i32 v"
  by (rule le32_word [of v]) (simp add: word_at_def)

lemma word_at_Suc: "word_at (le32 v @ bs) (Suc k) = word_at bs k"
proof -
  have "4 * Suc k = Suc (Suc (Suc (Suc (4 * k))))" by simp
  then show ?thesis by (rule_tac le32_word [of v]) (simp only: word_at_def, simp)
qed

definition event_ok :: "sysEvent_t \<Rightarrow> bool" where
  "event_ok e \<longleftrightarrow> int32_range (ev_time e) \<and> int32_range (ev_value e) \<and> int32_range (ev_value2 e) \<and>
     \<not> journal_event_bad e \<and>
     (case ev_payload e of
        None \<Rightarrow> ev_payloadLength e = 0
      | Some (a, block) \<Rightarrow> ev_payloadLength e = int (length block) \<and> block \<noteq> [] \<and>
          (ev_type e = SE_CONSOLE \<longrightarrow> last block = 0))"

text \<open>
  C21: replaying the journal returns the recorded events: the bytes \<open>Com_GetRealEvent\<close> appends for
  an event are read back as the same event, with its payload in a block of its own, and leave the
  file positioned at the next record.
\<close>

theorem journal_roundtrip:
  assumes "event_ok e"
  shows "\<exists>bytes. record_event e = Some bytes \<and>
    replay_event address (bytes @ rest) =
      Done (e\<lparr>ev_payload := map_option (\<lambda>(_, block). (address, block)) (ev_payload e)\<rparr>, rest)"
proof -
  let ?rec = "coduo_event_to_journal_record e"
  have len: "length ?rec = 24" by (simp add: coduo_event_to_journal_record_def)
  have ranges: "i32 (ev_type e) = ev_type e" "i32 (ev_payloadLength e) = ev_payloadLength e"
    "i32 (ev_time e) = ev_time e" "i32 (ev_value e) = ev_value e" "i32 (ev_value2 e) = ev_value2 e"
    using assms by (auto simp: event_ok_def journal_event_bad_def COM_JOURNAL_MAX_PAYLOAD_BYTES_def
        int32_range_def intro!: i32_id)
  have same: "coduo_event_from_journal_record ?rec = e\<lparr>ev_payload := None\<rparr>"
    by (simp add: coduo_event_from_journal_record_def coduo_event_to_journal_record_def word_at_0
        word_at_Suc numeral_eq_Suc ranges)
  have bad: "\<not> journal_event_bad (e\<lparr>ev_payload := None\<rparr>)"
    using assms by (simp add: event_ok_def journal_event_bad_def)
  show ?thesis
  proof (cases "ev_payload e")
    case None
    then have z: "ev_payloadLength e = 0" using assms by (simp add: event_ok_def)
    have "e\<lparr>ev_payload := None\<rparr> = e" using None by simp
    with None z same bad len show ?thesis
      by (simp add: record_event_def replay_event_def Let_def)
  next
    case (Some p)
    obtain a block where p: "p = (a, block)" by (cases p)
    have b: "ev_payloadLength e = int (length block)" "block \<noteq> []"
      "ev_type e = SE_CONSOLE \<longrightarrow> block ! (length block - 1) = 0"
      using assms Some p by (auto simp: event_ok_def last_conv_nth)
    have "record_event e = Some (?rec @ block)"
      using Some p b(1,2) by (simp add: record_event_def copy_out_def)
    moreover have "replay_event address ((?rec @ block) @ rest) =
        Done (e\<lparr>ev_payload := Some (address, block)\<rparr>, rest)"
      using len same bad b by (simp add: replay_event_def Let_def)
    ultimately show ?thesis using Some p by auto
  qed
qed

lemma journal_roundtrip_witness:
  "\<exists>bytes. record_event (zero_event\<lparr>ev_type := 5, ev_payloadLength := 2, ev_payload := Some (1, [65, 0])\<rparr>) = Some bytes \<and>
    replay_event 9 (bytes @ []) =
      Done (zero_event\<lparr>ev_type := 5, ev_payloadLength := 2, ev_payload := Some (9, [65, 0])\<rparr>, [])"
proof -
  have "event_ok (zero_event\<lparr>ev_type := 5, ev_payloadLength := 2, ev_payload := Some (1, [65, 0])\<rparr>)"
    by (simp add: event_ok_def zero_event_def journal_event_bad_def int32_range_def
        COM_JOURNAL_MAX_PAYLOAD_BYTES_def)
  from journal_roundtrip [OF this, of 9 "[]"] show ?thesis by simp
qed

end
