(* ===== verification/SvCommands_Correct.thy ===== *)
theory SvCommands_Correct
  imports SvCommands Netchan_Correct
begin

text \<open>
  The ring of reliable commands is a queue: what has been sent is never changed, what waits is
  the list an abstract enqueue keeps, and a message receives a prefix of the unacknowledged
  commands that fits.
\<close>

section \<open>The queue view\<close>

definition rc_view :: "serverReliableCommand_t \<Rightarrow> serverReliableCommand_t" where
  "rc_view r = r\<lparr>rc_commandText := cstr_of (rc_commandText r)\<rparr>"

definition cmds :: "serverReliableCommand_t list \<Rightarrow> int \<Rightarrow> int \<Rightarrow> serverReliableCommand_t list" where
  "cmds cs a b = map (\<lambda>s. cs ! ring_slot s) [a + 1 .. b]"

definition slot_ok :: "serverReliableCommand_t \<Rightarrow> bool" where
  "slot_ok r \<longleftrightarrow> length (rc_commandText r) = 1024 \<and> length (cstr_of (rc_commandText r)) < 1024"

definition client_inv :: "client_t \<Rightarrow> bool" where
  "client_inv c \<longleftrightarrow> length (c_reliableCommands c) = 64 \<and>
     (\<forall>r \<in> set (c_reliableCommands c). slot_ok r) \<and>
     0 \<le> c_reliableAcknowledge c \<and> c_reliableAcknowledge c \<le> c_reliableSent c \<and>
     c_reliableSent c \<le> c_reliableSequence c \<and>
     c_reliableSequence c \<le> c_reliableAcknowledge c + 64 \<and> c_reliableSequence c < 2147483647"

definition sent_commands :: "client_t \<Rightarrow> serverReliableCommand_t list" where
  "sent_commands c = map rc_view (cmds (c_reliableCommands c) (c_reliableAcknowledge c) (c_reliableSent c))"

definition unsent_commands :: "client_t \<Rightarrow> serverReliableCommand_t list" where
  "unsent_commands c = map rc_view (cmds (c_reliableCommands c) (c_reliableSent c) (c_reliableSequence c))"

lemma length_cmds [simp]: "length (cmds cs a b) = nat (b - a)"
  by (simp add: cmds_def)

lemma cmds_empty [simp]: "b \<le> a \<Longrightarrow> cmds cs a b = []"
  by (simp add: cmds_def)

lemma cmds_Cons: "a < b \<Longrightarrow> cmds cs a b = cs ! ring_slot (a + 1) # cmds cs (a + 1) b"
  by (simp add: cmds_def upto_rec1)

lemma cmds_snoc: "a < b \<Longrightarrow> cmds cs a b = cmds cs a (b - 1) @ [cs ! ring_slot b]"
  by (simp add: cmds_def upto_rec2)

lemma cmds_cong: "(\<And>s. a < s \<Longrightarrow> s \<le> b \<Longrightarrow> cs ! ring_slot s = cs' ! ring_slot s) \<Longrightarrow> cmds cs a b = cmds cs' a b"
  by (simp add: cmds_def)

text \<open>Storing into the slot of one sequence number leaves the others of a window of 64 alone.\<close>

lemma slot_other:
  "a \<le> s \<Longrightarrow> s < a + 64 \<Longrightarrow> a \<le> q \<Longrightarrow> q < a + 64 \<Longrightarrow> s \<noteq> q \<Longrightarrow> cs[ring_slot q := x] ! ring_slot s = cs ! ring_slot s"
  using ring_slot_eq [of s q] ring_slot_eq [of q s] by (cases "s \<le> q") (auto simp: nth_list_update_neq)

lemma slot_same: "length cs = 64 \<Longrightarrow> cs[ring_slot q := x] ! ring_slot q = x"
  using ring_slot_less [of q] by simp

lemma cstr_of_idem [simp]: "cstr_of (cstr_of s) = cstr_of s"
  by (simp add: cstr_of_def takeWhile_idem)

lemma rc_view_fields [simp]:
  "rc_reliable (rc_view r) = rc_reliable r" "rc_enqueueTime (rc_view r) = rc_enqueueTime r"
  "rc_commandText (rc_view r) = cstr_of (rc_commandText r)"
  by (simp_all add: rc_view_def)

lemma replaces_view [simp]: "replaces command (rc_view r) = replaces command r"
  by (simp add: replaces_def)

section \<open>Culling\<close>

lemma cull_commands_spec:
  assumes "k \<le> r" "a \<le> k" "b < a + 64" "r \<le> b + 1" "length cs = 64"
    and "cull_commands [r .. b] cs k = (cs', k')"
  shows "cmds cs' (k - 1) (k' - 1) = filter rc_reliable (cmds cs (r - 1) b) \<and> k \<le> k' \<and> k' \<le> b + 1 \<and>
    length cs' = 64 \<and> set cs' \<subseteq> set cs \<and> (\<forall>s. a \<le> s \<and> s < k \<longrightarrow> cs' ! ring_slot s = cs ! ring_slot s)"
  using assms
proof (induction "nat (b + 1 - r)" arbitrary: r cs k)
  case 0
  then have "[r .. b] = []" by simp
  then show ?case using 0 by auto
next
  case (Suc n)
  then have rb: "r \<le> b" by simp
  have up: "[r .. b] = r # [r + 1 .. b]" by (rule upto_rec1 [OF rb])
  have filt: "cmds cs (r - 1) b = cs ! ring_slot r # cmds cs r b" using cmds_Cons [of "r - 1" b cs] rb by simp
  have n: "n = nat (b + 1 - (r + 1))" using Suc.hyps(2) by simp
  show ?case
  proof (cases "rc_reliable (cs ! ring_slot r)")
    case False
    have step: "cull_commands [r + 1 .. b] cs k = (cs', k')" using Suc.prems(6) False by (simp add: up)
    have pre: "k \<le> r + 1" "r + 1 \<le> b + 1" using Suc.prems(1) rb by simp_all
    from Suc.hyps(1) [OF n pre(1) Suc.prems(2,3) pre(2) Suc.prems(5) step] False show ?thesis
      by (simp add: filt)
  next
    case True
    let ?cs1 = "cs[ring_slot k := cs ! ring_slot r]"
    have step: "cull_commands [r + 1 .. b] ?cs1 (k + 1) = (cs', k')"
      using Suc.prems(6) True by (simp add: up Let_def)
    have pre: "k + 1 \<le> r + 1" "a \<le> k + 1" "r + 1 \<le> b + 1" "length ?cs1 = 64"
      using Suc.prems rb by simp_all
    note IH = Suc.hyps(1) [OF n pre(1,2) Suc.prems(3) pre(3,4) step]
    have rest: "cmds ?cs1 r b = cmds cs r b"
      by (rule cmds_cong, rule slot_other [of a]) (use Suc.prems(1-3) in auto)
    have k1: "cs' ! ring_slot k = cs ! ring_slot r"
      using IH slot_same [OF Suc.prems(5), of k] Suc.prems(2) by auto
    have "cmds cs' (k - 1) (k' - 1) = cs' ! ring_slot k # cmds cs' k (k' - 1)"
      using IH cmds_Cons [of "k - 1" "k' - 1" cs'] by simp
    moreover have "cs' ! ring_slot s = cs ! ring_slot s" if "a \<le> s" "s < k" for s
      using IH slot_other [of a s k cs] that Suc.prems(1-3) rb by auto
    moreover have "set ?cs1 \<subseteq> set cs"
      using Suc.prems(5) ring_slot_less [of r] by (auto dest!: set_update_subset_insert [THEN subsetD])
    ultimately show ?thesis using IH True k1 rest by (auto simp: filt)
  qed
qed

lemma filter_view: "filter rc_reliable (map rc_view xs) = map rc_view (filter rc_reliable xs)"
  by (simp add: filter_map comp_def)

lemma cull_spec:
  assumes "client_inv c"
  shows "client_inv (SV_CullIgnorableServerCommands c)"
    "unsent_commands (SV_CullIgnorableServerCommands c) = filter rc_reliable (unsent_commands c)"
    "sent_commands (SV_CullIgnorableServerCommands c) = sent_commands c"
proof -
  let ?cs = "c_reliableCommands c" and ?a = "c_reliableAcknowledge c" and ?s = "c_reliableSent c"
    and ?b = "c_reliableSequence c"
  have i: "length ?cs = 64" "0 \<le> ?a" "?a \<le> ?s" "?s \<le> ?b" "?b \<le> ?a + 64" "?b < 2147483647"
    "\<forall>r \<in> set ?cs. slot_ok r"
    using assms by (auto simp: client_inv_def)
  obtain cs' k' where ck: "cull_commands [?s + 1 .. ?b] ?cs (?s + 1) = (cs', k')" by fastforce
  have sp: "cmds cs' ?s (k' - 1) = filter rc_reliable (cmds ?cs ?s ?b)" "?s + 1 \<le> k'" "k' \<le> ?b + 1"
    "length cs' = 64" "set cs' \<subseteq> set ?cs" "\<forall>s. ?a + 1 \<le> s \<and> s < ?s + 1 \<longrightarrow> cs' ! ring_slot s = ?cs ! ring_slot s"
    using cull_commands_spec [of "?s + 1" "?s + 1" "?a + 1" ?b ?cs cs' k'] ck i(1-6) by simp_all
  have eq: "SV_CullIgnorableServerCommands c = c\<lparr>c_reliableCommands := cs', c_reliableSequence := k' - 1\<rparr>"
    by (simp add: SV_CullIgnorableServerCommands_def ck)
  show "client_inv (SV_CullIgnorableServerCommands c)"
    using i sp by (auto simp: client_inv_def eq)
  show "unsent_commands (SV_CullIgnorableServerCommands c) = filter rc_reliable (unsent_commands c)"
    by (simp add: unsent_commands_def eq sp(1) filter_view)
  have "cmds cs' ?a ?s = cmds ?cs ?a ?s"
    by (rule cmds_cong) (use sp(6) in auto)
  then show "sent_commands (SV_CullIgnorableServerCommands c) = sent_commands c"
    by (simp add: sent_commands_def eq)
qed

section \<open>Replacing and appending\<close>

text \<open>What an addition does to the list that waits: the first command it replaces leaves, it goes to the end.\<close>

fun enqueue_spec :: "serverReliableCommand_t \<Rightarrow> string \<Rightarrow> serverReliableCommand_t list \<Rightarrow>
    serverReliableCommand_t list option" where
  "enqueue_spec new command [] = Some [new]"
| "enqueue_spec new command (p # ps) = do {
     r \<leftarrow> replaces command p;
     if r then Some (ps @ [new]) else do {
       qs \<leftarrow> enqueue_spec new command ps;
       Some (p # qs) } }"

lemma find_replaceable_spec:
  "find_replaceable cs command [a + 1 .. b] = (if b \<le> a then Some (-1) else do {
     r \<leftarrow> replaces command (cs ! ring_slot (a + 1));
     if r then Some (a + 1) else find_replaceable cs command [a + 1 + 1 .. b] })"
proof (cases "b \<le> a")
  case False
  then have "[a + 1 .. b] = (a + 1) # [a + 1 + 1 .. b]" by (intro upto_rec1) simp
  then show ?thesis using False by (simp only: find_replaceable.simps if_False)
qed simp

text \<open>Shifting \<open>q + 1 .. b\<close> down by one removes the command \<open>q\<close>.\<close>

lemma shift_commands_spec:
  assumes "a \<le> q" "q \<le> b" "b < a + 64" "length cs = 64"
  shows "cmds (shift_commands [q + 1 .. b] cs) (q - 1) (b - 1) = cmds cs q b \<and>
    length (shift_commands [q + 1 .. b] cs) = 64 \<and> set (shift_commands [q + 1 .. b] cs) \<subseteq> set cs \<and>
    (\<forall>s. a \<le> s \<and> s < q \<longrightarrow> shift_commands [q + 1 .. b] cs ! ring_slot s = cs ! ring_slot s)"
  using assms
proof (induction "nat (b - q)" arbitrary: q cs)
  case 0
  then have "q = b" by simp
  then show ?case using 0 by simp
next
  case (Suc n)
  then have qb: "q < b" by simp
  have up: "[q + 1 .. b] = (q + 1) # [q + 1 + 1 .. b]" by (rule upto_rec1) (use qb in simp)
  let ?cs1 = "cs[ring_slot q := cs ! ring_slot (q + 1)]"
  have sh: "shift_commands [q + 1 .. b] cs = shift_commands [q + 1 + 1 .. b] ?cs1"
    by (simp add: up)
  have n: "n = nat (b - (q + 1))" using Suc.hyps(2) by simp
  have pre: "a \<le> q + 1" "q + 1 \<le> b" "length ?cs1 = 64" using Suc.prems qb by simp_all
  note IH = Suc.hyps(1) [OF n pre(1,2) Suc.prems(3) pre(3), folded sh]
  let ?out = "shift_commands [q + 1 .. b] cs"
  have rest: "cmds ?cs1 (q + 1) b = cmds cs (q + 1) b"
    by (rule cmds_cong, rule slot_other [of a]) (use Suc.prems(1-3) in auto)
  have hd: "?out ! ring_slot q = cs ! ring_slot (q + 1)"
    using IH slot_same [OF Suc.prems(4), of q] Suc.prems(1) by auto
  have "cmds ?out (q - 1) (b - 1) = ?out ! ring_slot q # cmds ?out q (b - 1)"
    using cmds_Cons [of "q - 1" "b - 1" ?out] qb by simp
  also have "\<dots> = cs ! ring_slot (q + 1) # cmds cs (q + 1) b" using IH hd rest by simp
  also have "\<dots> = cmds cs q b" using cmds_Cons [OF qb, of cs] by simp
  finally have "cmds ?out (q - 1) (b - 1) = cmds cs q b" .
  moreover have "?out ! ring_slot s = cs ! ring_slot s" if "a \<le> s" "s < q" for s
    using IH slot_other [of a s q cs] that Suc.prems(1-3) qb by auto
  moreover have "set ?cs1 \<subseteq> set cs"
    using Suc.prems(4) ring_slot_less [of "q + 1"] by (auto dest!: set_update_subset_insert [THEN subsetD])
  ultimately show ?case using IH by auto
qed

text \<open>
  The search and the shift together are the abstract enqueue on the window \<open>a < s \<le> b\<close>: with
  the new command stored behind, slots up to \<open>a\<close> untouched.
\<close>

lemma enqueue_window:
  assumes "low \<le> a + 1" "a \<le> b" "b < low + 64" "length cs = 64" "-1 \<le> a"
  shows "case find_replaceable cs command [a + 1 .. b] of
     None \<Rightarrow> enqueue_spec new command (map rc_view (cmds cs a b)) = None
   | Some q \<Rightarrow> (if q < 0 then enqueue_spec new command (map rc_view (cmds cs a b)) = Some (map rc_view (cmds cs a b) @ [new])
        else a < q \<and> q \<le> b \<and>
          enqueue_spec new command (map rc_view (cmds cs a b)) =
            Some (map rc_view (cmds (shift_commands [q + 1 .. b] cs) a (b - 1)) @ [new]))"
  using assms
proof (induction "nat (b - a)" arbitrary: a)
  case 0
  then have "b = a" by simp
  then show ?case by simp
next
  case (Suc n)
  then have ab: "a < b" by simp
  have n: "n = nat (b - (a + 1))" using Suc.hyps(2) by simp
  have IH: "case find_replaceable cs command [a + 1 + 1 .. b] of
     None \<Rightarrow> enqueue_spec new command (map rc_view (cmds cs (a + 1) b)) = None
   | Some q \<Rightarrow> (if q < 0 then enqueue_spec new command (map rc_view (cmds cs (a + 1) b)) =
          Some (map rc_view (cmds cs (a + 1) b) @ [new])
        else a + 1 < q \<and> q \<le> b \<and>
          enqueue_spec new command (map rc_view (cmds cs (a + 1) b)) =
            Some (map rc_view (cmds (shift_commands [q + 1 .. b] cs) (a + 1) (b - 1)) @ [new]))"
    by (rule Suc.hyps(1) [OF n]) (use Suc.prems ab in auto)
  note cons = cmds_Cons [OF ab, of cs]
  show ?case
  proof (cases "replaces command (cs ! ring_slot (a + 1))")
    case None
    then show ?thesis using ab by (simp add: find_replaceable_spec [of cs command a b] cons)
  next
    case (Some r)
    show ?thesis
    proof (cases r)
      case True
      have "cmds (shift_commands [a + 1 + 1 .. b] cs) a (b - 1) = cmds cs (a + 1) b"
        using shift_commands_spec [of low "a + 1" b cs] Suc.prems ab by simp
      then show ?thesis
        using Some True ab Suc.prems(5) by (simp add: find_replaceable_spec [of cs command a b] cons)
    next
      case False
      show ?thesis
      proof (cases "find_replaceable cs command [a + 1 + 1 .. b]")
        case None
        then show ?thesis using IH Some False ab by (simp add: find_replaceable_spec [of cs command a b] cons)
      next
        case q: (Some q)
        have "cmds (shift_commands [q + 1 .. b] cs) a (b - 1) =
            cs ! ring_slot (a + 1) # cmds (shift_commands [q + 1 .. b] cs) (a + 1) (b - 1)"
          if "a + 1 < q" "q \<le> b"
          using cmds_Cons [of a "b - 1" "shift_commands [q + 1 .. b] cs"] that
            shift_commands_spec [of low q b cs] Suc.prems by auto
        then show ?thesis using IH Some False ab q by (auto simp: find_replaceable_spec [of cs command a b] cons)
      qed
    qed
  qed
qed

section \<open>Storing the text\<close>

definition command_text :: "string \<Rightarrow> string" where
  "command_text command = map command_character (take 1023 command)"

lemma command_character_NUL: "command_character c = NUL \<longleftrightarrow> c = NUL"
proof -
  have u: "0 \<le> uint (byte_of c)" "uint (byte_of c) < 256"
    using uint_ge_0 [of "byte_of c"] uint_lt2p [of "byte_of c"] by simp_all
  have "char_of (n :: int) = NUL \<longleftrightarrow> n = 0" if "0 \<le> n" "n < 256" for n
    using that by (simp add: char_of_eq_iff take_bit_eq_mod)
  moreover have "uint (byte_of c) = 0 \<longleftrightarrow> c = NUL" by (simp add: uint_0_iff)
  ultimately show ?thesis using u by (auto simp: command_character_def Let_def)
qed

lemma WriteReliableCommand_text:
  assumes "length buf = 1024" "nulfree command"
  shows "\<exists>out. MSG_WriteReliableCommandToBuffer command buf 1024 = Some out \<and> length out = 1024 \<and>
    cstr_of out = command_text command"
proof -
  have free: "nulfree (map command_character xs)" if "nulfree xs" for xs
    using that by (induction xs) (auto simp: command_character_NUL)
  show ?thesis
  proof (cases "length command < 1024")
    case True
    then have tk: "take 1023 command = command" "take 1024 command = command" by simp_all
    let ?t = "map command_character command"
    obtain out where out: "copy_in buf 0 (?t @ [NUL]) = Some out"
      using assms True by (simp add: copy_in_def)
    moreover have "cstr_of out = ?t"
      using out cstr_of_append_NUL [OF free [OF assms(2)]] by (auto simp: copy_in_def split: if_splits)
    ultimately show ?thesis
      using True assms copy_in_length [OF out]
      by (simp add: MSG_WriteReliableCommandToBuffer_def Let_def tk command_text_def)
  next
    case False
    let ?t = "map command_character (take 1024 command)"
    have lt: "length ?t = 1024" using False by simp
    have ci: "copy_in buf 0 ?t = Some ?t" using assms lt by (simp add: copy_in_def)
    have "?t[1023 := NUL] = take 1023 ?t @ NUL # drop 1024 ?t"
      using lt upd_conv_take_nth_drop [of 1023 ?t NUL] by simp
    also have "\<dots> = command_text command @ [NUL]"
      using lt by (simp add: command_text_def take_map min_def)
    finally have "?t[1023 := NUL] = command_text command @ [NUL]" .
    moreover have "nulfree (command_text command)"
      unfolding command_text_def by (rule free) (simp add: assms(2))
    ultimately have "cstr_of (?t[1023 := NUL]) = command_text command"
      by (simp add: cstr_of_append_NUL)
    moreover have "poke ?t 1023 NUL = Some (?t[1023 := NUL])" using lt by (simp add: poke_def)
    ultimately show ?thesis
      using False lt ci by (simp add: MSG_WriteReliableCommandToBuffer_def Let_def)
  qed
qed

section \<open>Adding\<close>

definition busy :: "client_t \<Rightarrow> bool" where
  "busy c \<longleftrightarrow> c_reliableSequence c - c_reliableAcknowledge c \<ge> 32 \<or> c_state c \<noteq> CS_ACTIVE"

definition waiting :: "client_t \<Rightarrow> serverReliableCommand_t list" where
  "waiting c = (if busy c then filter rc_reliable (unsent_commands c) else unsent_commands c)"

lemma set_upd_subset: "set (cs[k := x]) \<subseteq> insert x (set cs)"
  by (rule set_update_subset_insert)

lemma add_store:
  assumes inv: "client_inv c" and len: "length cs = 64" and sub: "set cs \<subseteq> set (c_reliableCommands c)"
    and txl: "slot_ok new"
  shows "length (cs[k := new]) = 64 \<and> (\<forall>r \<in> set (cs[k := new]). slot_ok r)"
  using inv len sub txl set_upd_subset [of cs k new] by (auto simp: client_inv_def)

lemma add_after_cull:
  assumes inv: "client_inv c" and room: "length (unsent_commands c) + length (sent_commands c) < 64"
    and seq: "c_reliableSequence c < 2147483646"
    and q: "SV_CanReplaceServerCommand c command = Some q"
    and cs_def: "cs = (if q < 0 then c_reliableCommands c
      else shift_commands [q + 1 .. c_reliableSequence c] (c_reliableCommands c))"
    and b_def: "b = (if q < 0 then c_reliableSequence c + 1 else c_reliableSequence c)"
    and new: "slot_ok new" "rc_view new = v"
    and c'_def: "c' = c\<lparr>c_reliableCommands := cs[ring_slot b := new], c_reliableSequence := b\<rparr>"
  shows "client_inv c'" "sent_commands c' = sent_commands c"
    "enqueue_spec v command (unsent_commands c) = Some (unsent_commands c')"
proof -
  let ?a = "c_reliableAcknowledge c" and ?s = "c_reliableSent c" and ?e = "c_reliableSequence c"
  have i: "length (c_reliableCommands c) = 64" "0 \<le> ?a" "?a \<le> ?s" "?s \<le> ?e" "?e < ?a + 64"
    using inv room by (auto simp: client_inv_def unsent_commands_def sent_commands_def)
  have fr: "find_replaceable (c_reliableCommands c) command [?s + 1 .. ?e] = Some q"
    using q by (simp add: SV_CanReplaceServerCommand_def)
  have ew: "if q < 0 then enqueue_spec v command (unsent_commands c) = Some (unsent_commands c @ [v])
        else ?s < q \<and> q \<le> ?e \<and> enqueue_spec v command (unsent_commands c) =
            Some (map rc_view (cmds (shift_commands [q + 1 .. ?e] (c_reliableCommands c)) ?s (?e - 1)) @ [v])"
    using enqueue_window [of "?a + 1" ?s ?e "c_reliableCommands c" v command] i fr
    by (simp add: unsent_commands_def)
  have sh: "length cs = 64 \<and> set cs \<subseteq> set (c_reliableCommands c) \<and>
      (\<forall>s. ?a + 1 \<le> s \<and> s \<le> ?s \<longrightarrow> cs ! ring_slot s = c_reliableCommands c ! ring_slot s)"
    using shift_commands_spec [of "?a + 1" q ?e "c_reliableCommands c"] ew i by (auto simp: cs_def)
  have b: "?s < b" "b \<le> ?a + 64" "b < 2147483647" using ew i seq by (auto simp: b_def)
  have keep: "cs[ring_slot b := new] ! ring_slot s = cs ! ring_slot s" if "?a + 1 \<le> s" "s < b" for s
    using slot_other [of "?a + 1" s b cs new] that b by auto
  have top: "cs[ring_slot b := new] ! ring_slot b = new" using sh by (simp add: slot_same)
  show "client_inv c'"
    using inv add_store [OF inv, of cs new "ring_slot b"] sh new b i by (simp add: client_inv_def c'_def)
  have "cmds (cs[ring_slot b := new]) ?a ?s = cmds (c_reliableCommands c) ?a ?s"
    by (rule cmds_cong) (use sh keep b in auto)
  then show "sent_commands c' = sent_commands c" by (simp add: sent_commands_def c'_def)
  have "cmds (cs[ring_slot b := new]) ?s b = cmds (cs[ring_slot b := new]) ?s (b - 1) @ [new]"
    using cmds_snoc [OF b(1), of "cs[ring_slot b := new]"] top by simp
  moreover have "cmds (cs[ring_slot b := new]) ?s (b - 1) = cmds cs ?s (b - 1)"
    by (rule cmds_cong, rule keep) (use i in auto)
  ultimately have "unsent_commands c' = map rc_view (cmds cs ?s (b - 1)) @ [v]"
    using new(2) by (simp add: unsent_commands_def c'_def)
  then show "enqueue_spec v command (unsent_commands c) = Some (unsent_commands c')"
    using ew by (auto simp: cs_def b_def unsent_commands_def)
qed

definition culled :: "client_t \<Rightarrow> client_t" where
  "culled c = (if busy c then SV_CullIgnorableServerCommands c else c)"

lemma culled_spec:
  assumes "client_inv c"
  shows "client_inv (culled c)" "unsent_commands (culled c) = waiting c" "sent_commands (culled c) = sent_commands c"
  using cull_spec [OF assms] assms by (simp_all add: culled_def waiting_def)

lemma client_window:
  assumes "client_inv c"
  shows "c_reliableSequence c - c_reliableAcknowledge c = int (length (sent_commands c) + length (unsent_commands c))"
    "int (length (sent_commands c) + length (unsent_commands c)) \<le> 64"
  using assms by (auto simp: client_inv_def sent_commands_def unsent_commands_def)

lemma busy_i32:
  assumes "client_inv c"
  shows "(32 \<le> i32 (c_reliableSequence c - c_reliableAcknowledge c) \<or> c_state c \<noteq> CS_ACTIVE) \<longleftrightarrow> busy c"
proof -
  have "i32 (c_reliableSequence c - c_reliableAcknowledge c) = c_reliableSequence c - c_reliableAcknowledge c"
    using client_window [OF assms] by (intro i32_id) linarith+
  then show ?thesis by (simp add: busy_def)
qed

lemma culled_fields [simp]:
  "c_isTestClient (culled c) = c_isTestClient c" "c_state (culled c) = c_state c"
  "c_deferredDropReason (culled c) = c_deferredDropReason c"
  "c_reliableAcknowledge (culled c) = c_reliableAcknowledge c" "c_reliableSent (culled c) = c_reliableSent c"
  by (simp_all add: culled_def SV_CullIgnorableServerCommands_def split: prod.splits)

lemma culled_sequence:
  assumes "client_inv c"
  shows "c_reliableSequence (culled c) \<le> c_reliableSequence c"
proof -
  have i: "client_inv (culled c)" by (rule culled_spec [OF assms])
  have "length (waiting c) \<le> length (unsent_commands c)" by (simp add: waiting_def)
  then show ?thesis
    using client_window(1) [OF i] client_window(1) [OF assms] culled_spec [OF assms] by simp
qed

section \<open>What \<open>SV_AddServerCommand\<close> does\<close>

definition stored :: "int \<Rightarrow> bool \<Rightarrow> string \<Rightarrow> serverReliableCommand_t" where
  "stored realTime reliable command =
     \<lparr>rc_commandText = command_text command, rc_enqueueTime = realTime, rc_reliable = reliable\<rparr>"

lemma CanReplace_index:
  assumes "client_inv c" "SV_CanReplaceServerCommand c command = Some q" "\<not> q < 0"
    "length (sent_commands c) + length (unsent_commands c) < 64"
  shows "c_reliableSent c < q \<and> q \<le> c_reliableSequence c"
  using assms enqueue_window [of "c_reliableAcknowledge c + 1" "c_reliableSent c" "c_reliableSequence c"
      "c_reliableCommands c" undefined command] client_window [OF assms(1)]
  by (auto simp: SV_CanReplaceServerCommand_def client_inv_def split: if_splits)

lemma ring_buffer_ok:
  assumes "client_inv c" "length cs = 64" "set cs \<subseteq> set (c_reliableCommands c)"
  shows "slot_ok (cs ! ring_slot s)"
proof -
  have "cs ! ring_slot s \<in> set cs" using assms(2) ring_slot_less [of s] by simp
  then show ?thesis using assms by (auto simp: client_inv_def)
qed

lemma add_server_command_cases:
  assumes inv: "client_inv c" and live: "\<not> c_isTestClient c" and cmd: "nulfree command"
    and seq: "c_reliableSequence c < 2147483646"
    and room: "length (sent_commands c) + length (waiting c) < 64"
    and kept: "reliable \<or> \<not> busy c"
  shows "case SV_AddServerCommand realTime c reliable command of
      None \<Rightarrow> enqueue_spec (stored realTime reliable command) command (waiting c) = None
    | Some (c', dropped) \<Rightarrow> \<not> dropped \<and> client_inv c' \<and> sent_commands c' = sent_commands c \<and>
        c_deferredDropReason c' = c_deferredDropReason c \<and>
        enqueue_spec (stored realTime reliable command) command (waiting c) = Some (unsent_commands c')"
proof -
  let ?c = "culled c"
  note cs = culled_spec [OF inv]
  have room1: "length (sent_commands ?c) + length (unsent_commands ?c) < 64" using room cs by simp
  have seq1: "c_reliableSequence ?c < 2147483646" using seq culled_sequence [OF inv] by simp
  have add_unfold: "SV_AddServerCommand realTime c reliable command = do {
        sequence \<leftarrow> SV_CanReplaceServerCommand ?c command;
        store_command realTime reliable command (make_room ?c sequence) }"
    using live kept busy_i32 [OF inv] by (auto simp: SV_AddServerCommand_def culled_def Let_def)
  show ?thesis
  proof (cases "SV_CanReplaceServerCommand ?c command")
    case None
    then have "enqueue_spec v command (waiting c) = None" for v
      using enqueue_window [of "c_reliableAcknowledge ?c + 1" "c_reliableSent ?c" "c_reliableSequence ?c"
          "c_reliableCommands ?c" v command] cs client_window [OF cs(1)] room1
      by (auto simp: SV_CanReplaceServerCommand_def client_inv_def unsent_commands_def)
    then show ?thesis using add_unfold None by simp
  next
    case (Some q)
    define b where "b = (if q < 0 then c_reliableSequence ?c + 1 else c_reliableSequence ?c)"
    define cs' where "cs' = (if q < 0 then c_reliableCommands ?c
        else shift_commands [q + 1 .. c_reliableSequence ?c] (c_reliableCommands ?c))"
    have i: "0 \<le> c_reliableAcknowledge ?c" "c_reliableAcknowledge ?c \<le> c_reliableSent ?c"
      "c_reliableSent ?c \<le> c_reliableSequence ?c" "length (c_reliableCommands ?c) = 64"
      using cs(1) by (auto simp: client_inv_def)
    have w: "c_reliableSequence ?c < c_reliableAcknowledge ?c + 64"
      using client_window(1) [OF cs(1)] room1 by linarith
    have b: "c_reliableAcknowledge ?c \<le> b" "b \<le> c_reliableAcknowledge ?c + 64" "b < 2147483647"
      using i w seq1 by (auto simp: b_def)
    have noover: "i32 (b - c_reliableAcknowledge ?c) = b - c_reliableAcknowledge ?c"
      using b by (intro i32_id) linarith+
    have q: "c_reliableSent ?c < q \<and> q \<le> c_reliableSequence ?c" if "\<not> q < 0"
      using CanReplace_index [OF cs(1) Some that room1] .
    have cs': "length cs' = 64" "set cs' \<subseteq> set (c_reliableCommands ?c)"
      using shift_commands_spec [of "c_reliableAcknowledge ?c + 1" q "c_reliableSequence ?c" "c_reliableCommands ?c"]
        q i w by (auto simp: cs'_def)
    obtain out where out: "MSG_WriteReliableCommandToBuffer command (rc_commandText (cs' ! ring_slot b)) 1024 = Some out"
        "length out = 1024" "cstr_of out = command_text command"
      using WriteReliableCommand_text [OF _ cmd] ring_buffer_ok [OF cs(1) cs', of b] unfolding slot_ok_def by blast
    let ?new = "\<lparr>rc_commandText = out, rc_enqueueTime = realTime, rc_reliable = reliable\<rparr>"
    have seqb: "q < 0 \<Longrightarrow> i32 (c_reliableSequence ?c + 1) = b"
      using seq1 i by (simp add: b_def i32_id)
    have eq: "SV_AddServerCommand realTime c reliable command =
        Some (?c\<lparr>c_reliableCommands := cs'[ring_slot b := ?new], c_reliableSequence := b\<rparr>, False)"
      using add_unfold Some noover b out(1) seqb
      by (cases "q < 0") (simp_all add: Let_def b_def cs'_def store_command_def make_room_def)
    have new: "slot_ok ?new" "rc_view ?new = stored realTime reliable command"
      using out by (simp_all add: rc_view_def stored_def slot_ok_def command_text_def)
    from add_after_cull [OF cs(1) _ seq1 Some cs'_def b_def new refl] room1 show ?thesis
      by (simp add: eq cs)
  qed
qed

section \<open>What a message receives\<close>

definition command_packet :: "int \<times> string \<Rightarrow> 8 word list" where
  "command_packet p = 5 # le32 (fst p) @ clean_string (snd p) @ [0]"

definition numbered :: "client_t \<Rightarrow> int \<Rightarrow> (int \<times> string) list" where
  "numbered c a = map (\<lambda>s. (s, cstr_of (rc_commandText (c_reliableCommands c ! ring_slot s))))
     [a + 1 .. c_reliableSequence c]"

abbreviation unacknowledged :: "client_t \<Rightarrow> (int \<times> string) list" where
  "unacknowledged c \<equiv> numbered c (c_reliableAcknowledge c)"

abbreviation packets :: "(int \<times> string) list \<Rightarrow> 8 word list" where
  "packets ps \<equiv> concat (map command_packet ps)"

lemma numbered_Cons:
  "a < c_reliableSequence c \<Longrightarrow>
   numbered c a = (a + 1, cstr_of (rc_commandText (c_reliableCommands c ! ring_slot (a + 1)))) # numbered c (a + 1)"
  by (simp add: numbered_def upto_rec1)

lemma length_command_packet [simp]: "length (command_packet p) = length (snd p) + 6"
  by (simp add: command_packet_def clean_string_def)

lemma command_length:
  assumes "client_inv c"
  shows "length (cstr_of (rc_commandText (c_reliableCommands c ! ring_slot s))) < 1024"
proof -
  have "slot_ok (c_reliableCommands c ! ring_slot s)"
    by (rule ring_buffer_ok [OF assms]) (use assms in \<open>auto simp: client_inv_def\<close>)
  then show ?thesis by (simp add: slot_ok_def)
qed

lemma builds_WriteString:
  assumes "builds m bs" "int (length bs) + int (length s) + 1 \<le> m_maxsize m" "length s < 1024"
  shows "MSG_WriteString m (Some s) = Some (put_bytes (clean_string s @ [0]) m)"
  using assms by (simp add: WriteString_eq builds_append [of m bs] builds_def clean_string_def)

lemma put_bytes_put:
  assumes "builds m bs" "int (length bs) + int (length xs) + int (length ys) \<le> m_maxsize m"
  shows "put_bytes ys (put_bytes xs m) = put_bytes (xs @ ys) m"
proof -
  have w: "length bs \<le> length (m_data m)" "m_maxsize m \<le> int (length (m_data m))" "m_cursize m = int (length bs)"
    using assms(1) builds_cursize [OF assms(1)] by (auto simp: builds_def msg_wf_def)
  let ?d = "m_data m"
  let ?e = "take (length bs) ?d @ xs @ drop (length bs + length xs) ?d"
  have "take (length bs + length xs) ?e = take (length bs) ?d @ xs" using w by simp
  moreover have "drop (length bs + length xs + length ys) ?e = drop (length bs + length xs + length ys) ?d"
    using w by (simp add: drop_drop add.commute)
  moreover have "nat (int (length bs) + int (length xs)) = length bs + length xs" by simp
  ultimately show ?thesis using w(3) by (simp add: put_bytes_def add.assoc)
qed

lemma write_command_ok:
  assumes "builds m bs" "p = (s, cstr_of (rc_commandText (c_reliableCommands c ! ring_slot s)))"
    "length (snd p) < 1024" "int (length bs) + int (length (command_packet p)) \<le> m_maxsize m"
  shows "write_command c s m = Some (put_bytes (command_packet p) m)"
proof -
  have w: "0 \<le> m_maxsize m" using assms(1) by (auto simp: builds_def msg_wf_def)
  have m1: "builds (put_bytes [5] m) (bs @ [5])" by (rule builds_put) (use assms in auto)
  have m2: "builds (put_bytes (le32 s) (put_bytes [5] m)) ((bs @ [5]) @ le32 s)"
    by (rule builds_put [OF m1]) (use assms in auto)
  have "write_command c s m =
      Some (put_bytes (clean_string (snd p) @ [0]) (put_bytes (le32 s) (put_bytes [5] m)))"
    using builds_WriteByte [OF assms(1), of 5] builds_WriteLong [OF m1, of s] builds_WriteString [OF m2, of "snd p"] assms
    by (simp add: write_command_def)
  also have "\<dots> = Some (put_bytes (command_packet p) m)"
    using put_bytes_put [OF assms(1), of "[5]" "le32 s"] assms
      put_bytes_put [OF assms(1), of "5 # le32 s" "clean_string (snd p) @ [0]"]
    by (simp add: command_packet_def)
  finally show ?thesis .
qed

text \<open>The loop stops at the first command that does not fit.\<close>

lemma write_fitting_spec:
  assumes "client_inv c" "builds m bs" "maxBytes \<le> m_maxsize m" "0 \<le> a"
  shows "\<exists>k m'. write_fitting c maxBytes [a + 1 .. c_reliableSequence c] a m = Some (a + int k, m') \<and>
     k \<le> length (numbered c a) \<and> m_maxsize m' = m_maxsize m \<and>
     builds m' (bs @ packets (take k (numbered c a))) \<and>
     (k = 0 \<or> int (length (bs @ packets (take k (numbered c a)))) < maxBytes) \<and>
     (k = length (numbered c a) \<or> maxBytes \<le> int (length (bs @ packets (take (k + 1) (numbered c a)))))"
  using assms
proof (induction "nat (c_reliableSequence c - a)" arbitrary: a m bs)
  case 0
  then have "[a + 1 .. c_reliableSequence c] = []" "numbered c a = []" by (simp_all add: numbered_def)
  then show ?case using 0 by (intro exI [of _ 0]) simp
next
  case (Suc n)
  then have lt: "a < c_reliableSequence c" by simp
  let ?p = "(a + 1, cstr_of (rc_commandText (c_reliableCommands c ! ring_slot (a + 1))))"
  have up: "[a + 1 .. c_reliableSequence c] = (a + 1) # [a + 1 + 1 .. c_reliableSequence c]"
    by (rule upto_rec1) (use lt in simp)
  note num = numbered_Cons [OF lt]
  have cur: "m_cursize m = int (length bs)" by (rule builds_cursize [OF Suc.prems(2)])
  have mx: "m_maxsize m < 268435456" "m_cursize m \<le> m_maxsize m"
    using Suc.prems(2) by (auto simp: builds_def msg_wf_def)
  have tl: "length (snd ?p) < 1024" using command_length [OF Suc.prems(1)] by simp
  have i: "i32 (m_cursize m + (int (length (snd ?p)) + 6)) = int (length bs) + int (length (command_packet ?p))"
    using cur mx tl by (simp add: i32_id)
  show ?case
  proof (cases "maxBytes \<le> int (length bs) + int (length (command_packet ?p))")
    case True
    then show ?thesis
      using Suc.prems i by (intro exI [of _ 0]) (simp add: up num Let_def)
  next
    case False
    let ?m = "put_bytes (command_packet ?p) m"
    have fits: "int (length bs) + int (length (command_packet ?p)) \<le> m_maxsize m" using False Suc.prems(3) by simp
    have w: "write_command c (a + 1) m = Some ?m"
      by (rule write_command_ok [OF Suc.prems(2) refl tl fits])
    have n: "n = nat (c_reliableSequence c - (a + 1))" using Suc.hyps(2) by simp
    have b: "builds ?m (bs @ command_packet ?p)" by (rule builds_put [OF Suc.prems(2) fits])
    have "maxBytes \<le> m_maxsize ?m" "0 \<le> a + 1" using Suc.prems by simp_all
    from Suc.hyps(1) [OF n Suc.prems(1) b this] obtain k m' where IH:
      "write_fitting c maxBytes [a + 1 + 1 .. c_reliableSequence c] (a + 1) ?m = Some (a + 1 + int k, m')"
      "k \<le> length (numbered c (a + 1))" "m_maxsize m' = m_maxsize m"
      "builds m' ((bs @ command_packet ?p) @ packets (take k (numbered c (a + 1))))"
      "k = 0 \<or> int (length ((bs @ command_packet ?p) @ packets (take k (numbered c (a + 1))))) < maxBytes"
      "k = length (numbered c (a + 1)) \<or>
        maxBytes \<le> int (length ((bs @ command_packet ?p) @ packets (take (k + 1) (numbered c (a + 1)))))"
      by auto
    have "write_fitting c maxBytes [a + 1 .. c_reliableSequence c] a m = Some (a + int (k + 1), m')"
    proof -
      have "a + int (k + 1) = a + 1 + int k" by simp
      moreover have "\<not> maxBytes \<le> i32 (m_cursize m + (int (length (snd ?p)) + 6))" using False i by simp
      ultimately show ?thesis using IH(1) w unfolding up by (simp only: write_fitting.simps Let_def snd_conv if_False bind.bind_lunit)
    qed
    then show ?thesis using IH False
      by (intro exI [of _ "k + 1"] exI [of _ m']) (auto simp: num)
  qed
qed

section \<open>The properties\<close>

definition sample_client :: client_t where
  "sample_client = \<lparr>c_state = CS_ACTIVE, c_deferredDropReason = None,
     c_reliableCommands = replicate 64
       \<lparr>rc_commandText = ''d 1'' @ replicate 1021 NUL, rc_enqueueTime = 0, rc_reliable = True\<rparr>,
     c_reliableSequence = 0, c_reliableAcknowledge = 0, c_reliableSent = 0, c_messageAcknowledge = 0,
     c_challenge = 0, c_lastClientCommandString = replicate 1024 NUL,
     c_download = \<lparr>dl_fileName = [], dl_fileHandle = 0, dl_fileSize = 0, dl_bytesRead = 0,
       dl_nextAcknowledgmentBlock = 0, dl_nextBufferedBlock = 0, dl_nextTransmitBlock = 0,
       dl_blockData = replicate 8 None, dl_blockByteCounts = replicate 8 0, dl_eofBlockQueued = False,
       dl_lastBlockActivityTime = 0, dl_redirectAllowedByClient = False, dl_redirectUrl = [],
       dl_redirectActive = False, dl_redirectAcknowledged = False, dl_redirectFailed = False\<rparr>,
     c_lastPacketTime = 0, c_rate = 5000, c_snapshotMsec = 50, c_netchan = fresh_chan NS_SERVER,
     c_isTestClient = False, c_serverId = 0\<rparr>"

lemma cstr_of_sample: "cstr_of (''d 1'' @ replicate 1021 NUL) = ''d 1''"
  by (simp add: cstr_of_def)

lemma sample_client_ok: "client_inv sample_client" "sent_commands sample_client = []"
  "unsent_commands sample_client = []" "waiting sample_client = []" "\<not> busy sample_client"
  by (simp_all add: client_inv_def sample_client_def sent_commands_def unsent_commands_def waiting_def busy_def
      slot_ok_def cstr_of_def)

text \<open>
  C22: \<open>SV_AddServerCommand\<close> is the abstract enqueue of the waiting commands: with 32 or more
  unacknowledged ones, or before the client is active, the unreliable ones are dropped first
  and an unreliable command is not added at all; otherwise the first waiting command the new
  one replaces leaves, and the new one, with its time and cleaned text, goes to the end. What
  has been sent is untouched, and the client is not dropped as long as fewer than 64 commands
  remain. No store leaves the ring; only the comparison with a replaced command may leave a
  string (\<open>None\<close>), and then the abstract enqueue says so.
\<close>

theorem add_server_command_queue:
  assumes "client_inv c" "\<not> c_isTestClient c" "nulfree command" "c_reliableSequence c < 2147483646"
    and "length (sent_commands c) + length (waiting c) < 64"
  shows "case SV_AddServerCommand realTime c reliable command of
      None \<Rightarrow> enqueue_spec (stored realTime reliable command) command (waiting c) = None
    | Some (c', dropped) \<Rightarrow> \<not> dropped \<and> client_inv c' \<and> sent_commands c' = sent_commands c \<and>
        c_deferredDropReason c' = c_deferredDropReason c \<and>
        (if busy c \<and> \<not> reliable then unsent_commands c' = waiting c
         else enqueue_spec (stored realTime reliable command) command (waiting c) = Some (unsent_commands c'))"
proof (cases "busy c \<and> \<not> reliable")
  case True
  then have "SV_AddServerCommand realTime c reliable command = Some (culled c, False)"
    using assms(2) busy_i32 [OF assms(1)] by (auto simp: SV_AddServerCommand_def culled_def)
  then show ?thesis using True culled_spec [OF assms(1)] by simp
next
  case False
  then have "reliable \<or> \<not> busy c" by blast
  from add_server_command_cases [OF assms this, of realTime] False show ?thesis by (auto split: option.splits)
qed

lemma add_server_command_queue_witness:
  "\<exists>c'. SV_AddServerCommand 7 sample_client True ''p hi%'' = Some (c', False) \<and>
     unsent_commands c' = [\<lparr>rc_commandText = ''p hi.'', rc_enqueueTime = 7, rc_reliable = True\<rparr>]"
proof -
  have "enqueue_spec v w (waiting sample_client) = Some [v]" for v w by (simp add: sample_client_ok)
  moreover have "stored 7 True ''p hi%'' = \<lparr>rc_commandText = ''p hi.'', rc_enqueueTime = 7, rc_reliable = True\<rparr>"
    by (simp add: stored_def) code_simp
  moreover have "\<not> c_isTestClient sample_client" "c_reliableSequence sample_client < 2147483646"
    by (simp_all add: sample_client_def)
  ultimately show ?thesis
    using add_server_command_queue [OF sample_client_ok(1), of "''p hi%''" 7 True] sample_client_ok
    by (auto split: option.splits)
qed

text \<open>
  C23: with 64 unacknowledged commands left and nothing to replace, the 65th command drops the
  client: its reason is recorded, unless the client is a zombie or already has one, a
  \<open>disconnect\<close> packet goes out, and no memory behind the ring is touched.
\<close>

theorem add_server_command_overflow:
  assumes "client_inv c" "\<not> c_isTestClient c" "c_reliableSequence c < 2147483646"
    and "reliable \<or> \<not> busy c" and "length (sent_commands c) + length (waiting c) = 64"
    and "enqueue_spec v command (waiting c) = Some (waiting c @ [v])"
  shows "\<exists>c'. SV_AddServerCommand realTime c reliable command = Some (c', True) \<and>
     c_reliableSequence c' = c_reliableAcknowledge c + 65 \<and>
     (c_state c \<noteq> CS_ZOMBIE \<longrightarrow> c_deferredDropReason c' =
        Some (case c_deferredDropReason c of None \<Rightarrow> ''EXE_SERVERCOMMANDOVERFLOW'' | Some reason \<Rightarrow> reason))"
proof -
  let ?c = "culled c"
  note cs = culled_spec [OF assms(1)]
  have i: "0 \<le> c_reliableAcknowledge ?c" "c_reliableAcknowledge ?c \<le> c_reliableSent ?c"
    "c_reliableSent ?c \<le> c_reliableSequence ?c" "length (c_reliableCommands ?c) = 64"
    using cs(1) by (auto simp: client_inv_def)
  have w: "c_reliableSequence ?c = c_reliableAcknowledge ?c + 64"
    using client_window(1) [OF cs(1)] assms(5) cs(2,3) by simp
  have seq1: "c_reliableSequence ?c < 2147483646"
    using assms(3) culled_sequence [OF assms(1)] by simp
  have ew: "case SV_CanReplaceServerCommand ?c command of
     None \<Rightarrow> enqueue_spec v command (waiting c) = None
   | Some q \<Rightarrow> (if q < 0 then enqueue_spec v command (waiting c) = Some (waiting c @ [v])
        else c_reliableSent ?c < q \<and> q \<le> c_reliableSequence ?c \<and>
          enqueue_spec v command (waiting c) = Some (map rc_view (cmds (shift_commands [q + 1 .. c_reliableSequence ?c]
             (c_reliableCommands ?c)) (c_reliableSent ?c) (c_reliableSequence ?c - 1)) @ [v]))"
  proof -
    have pre: "c_reliableAcknowledge ?c + 1 \<le> c_reliableSent ?c + 1"
      "c_reliableSequence ?c < c_reliableAcknowledge ?c + 1 + 64" "- 1 \<le> c_reliableSent ?c"
      using i w by simp_all
    have u: "map rc_view (cmds (c_reliableCommands ?c) (c_reliableSent ?c) (c_reliableSequence ?c)) = waiting c"
      using cs(2) unfolding unsent_commands_def .
    show ?thesis
      using enqueue_window [OF pre(1) i(3) pre(2) i(4) pre(3), of v command]
      unfolding u SV_CanReplaceServerCommand_def .
  qed
  have len: "length (waiting c) = nat (c_reliableSequence ?c - c_reliableSent ?c)"
    using cs(2) by (metis length_cmds length_map unsent_commands_def)
  obtain q where q: "SV_CanReplaceServerCommand ?c command = Some q" "q < 0"
    using ew assms(6) len i
    by (cases "SV_CanReplaceServerCommand ?c command") (auto split: if_splits dest!: arg_cong [of _ _ length])
  let ?b = "c_reliableSequence ?c + 1"
  have over: "i32 (?b - c_reliableAcknowledge ?c) = 65" "i32 ?b = ?b"
    using w seq1 i by (simp_all add: i32_id)
  have "slot_ok (c_reliableCommands ?c ! ring_slot ?b)"
    by (rule ring_buffer_ok [OF cs(1) i(4) subset_refl])
  then obtain out where out: "MSG_WriteReliableCommandToBuffer ''w \"EXE_SERVERCOMMANDOVERFLOW\"''
      (rc_commandText (c_reliableCommands ?c ! ring_slot ?b)) 1024 = Some out"
    using WriteReliableCommand_text [of _ "''w \"EXE_SERVERCOMMANDOVERFLOW\"''"] by (auto simp: slot_ok_def)
  have "SV_AddServerCommand realTime c reliable command =
      store_command realTime reliable command (make_room ?c q)"
    using assms(2,4) busy_i32 [OF assms(1)] q(1) by (auto simp: SV_AddServerCommand_def culled_def)
  then show ?thesis
    using q(2) over out w by (auto simp: make_room_def store_command_def Let_def split: option.splits)
qed

definition full_client :: client_t where
  "full_client = sample_client\<lparr>c_reliableSequence := 64\<rparr>"

lemma full_client_ok: "client_inv full_client" "sent_commands full_client = []" "busy full_client"
  "length (waiting full_client) = 64"
  "enqueue_spec v ''p hi'' (waiting full_client) = Some (waiting full_client @ [v])"
proof -
  let ?r = "\<lparr>rc_commandText = ''d 1'', rc_enqueueTime = 0, rc_reliable = True\<rparr>"
  have "ring_slot s < 64" for s by (rule ring_slot_less)
  then have "map rc_view (cmds (c_reliableCommands full_client) 0 64) = map (\<lambda>s. ?r) [1 .. 64]"
    by (simp add: cmds_def full_client_def sample_client_def rc_view_def cstr_of_def)
  also have "\<dots> = replicate 64 ?r" by (simp add: map_replicate_const)
  finally have u: "unsent_commands full_client = replicate 64 ?r"
    by (simp add: unsent_commands_def full_client_def sample_client_def)
  show "busy full_client" by (simp add: busy_def full_client_def sample_client_def)
  then have w: "waiting full_client = replicate 64 ?r" using u by (simp add: waiting_def)
  show "client_inv full_client"
    using sample_client_ok(1) by (simp add: client_inv_def full_client_def sample_client_def)
  show "sent_commands full_client = []" by (simp add: sent_commands_def full_client_def sample_client_def)
  show "length (waiting full_client) = 64" using w by simp
  have "replaces ''p hi'' ?r = Some False" by (simp add: replaces_def first_char_def) code_simp
  then have "enqueue_spec v ''p hi'' (replicate n ?r) = Some (replicate n ?r @ [v])" for n by (induction n) simp_all
  then show "enqueue_spec v ''p hi'' (waiting full_client) = Some (waiting full_client @ [v])" by (simp only: w)
qed

lemma add_server_command_overflow_witness:
  "\<exists>c'. SV_AddServerCommand 7 full_client True ''p hi'' = Some (c', True) \<and>
     c_deferredDropReason c' = Some ''EXE_SERVERCOMMANDOVERFLOW''"
  using add_server_command_overflow [OF full_client_ok(1) _ _ _ _ full_client_ok(5), of True 7] full_client_ok
  by (auto simp: full_client_def sample_client_def)

text \<open>
  C24: \<open>SV_UpdateServerCommandsToClient_PreventOverflow\<close> writes the unacknowledged commands to the
  message in order, each whole and with its sequence number, up to the first one that would
  not leave it below \<open>maxBytes\<close>, never overflows the message, and raises \<open>reliableSent\<close> to the
  last one written.
\<close>

theorem server_commands_fit:
  assumes "client_inv c" "builds m bs" "maxBytes \<le> m_maxsize m"
  shows "\<exists>k m'. SV_UpdateServerCommandsToClient_PreventOverflow c m maxBytes =
       Some (c\<lparr>c_reliableSent := max (c_reliableSent c) (c_reliableAcknowledge c + int k)\<rparr>, m') \<and>
     k \<le> length (unacknowledged c) \<and>
     builds m' (bs @ packets (take k (unacknowledged c))) \<and>
     (k = 0 \<or> int (length (bs @ packets (take k (unacknowledged c)))) < maxBytes) \<and>
     (k = length (unacknowledged c) \<or>
       maxBytes \<le> int (length (bs @ packets (take (k + 1) (unacknowledged c)))))"
proof -
  have "0 \<le> c_reliableAcknowledge c" using assms(1) by (simp add: client_inv_def)
  from write_fitting_spec [OF assms this] obtain k m' where
    w: "write_fitting c maxBytes [c_reliableAcknowledge c + 1 .. c_reliableSequence c] (c_reliableAcknowledge c) m =
        Some (c_reliableAcknowledge c + int k, m')" and rest: "k \<le> length (unacknowledged c)"
    "builds m' (bs @ packets (take k (unacknowledged c)))"
    "k = 0 \<or> int (length (bs @ packets (take k (unacknowledged c)))) < maxBytes"
    "k = length (unacknowledged c) \<or> maxBytes \<le> int (length (bs @ packets (take (k + 1) (unacknowledged c))))"
    by blast
  have "SV_UpdateServerCommandsToClient_PreventOverflow c m maxBytes =
      Some (c\<lparr>c_reliableSent := max (c_reliableSent c) (c_reliableAcknowledge c + int k)\<rparr>, m')"
    using w by (simp add: SV_UpdateServerCommandsToClient_PreventOverflow_def max_def)
  then show ?thesis using rest by blast
qed

lemma server_commands_fit_witness:
  "\<exists>m'. SV_UpdateServerCommandsToClient_PreventOverflow full_client (MSG_Init (replicate 100 0) 100) 20 =
     Some (full_client\<lparr>c_reliableSent := 2\<rparr>, m') \<and>
     builds m' (packets [(1, ''d 1''), (2, ''d 1'')])"
proof -
  have num: "numbered full_client 0 = map (\<lambda>s. (s, ''d 1'')) [1 .. 64]"
    using ring_slot_less by (simp add: numbered_def full_client_def sample_client_def cstr_of_def)
  have pre: "builds (MSG_Init (replicate 100 0) 100) []" by (rule builds_Init) simp_all
  have f: "c_reliableAcknowledge full_client = 0" "c_reliableSent full_client = 0"
    by (simp_all add: full_client_def sample_client_def)
  obtain k m' where k:
    "SV_UpdateServerCommandsToClient_PreventOverflow full_client (MSG_Init (replicate 100 0) 100) 20 =
       Some (full_client\<lparr>c_reliableSent := int k\<rparr>, m')"
    "builds m' (packets (take k (numbered full_client 0)))" "k \<le> 64"
    "k = 0 \<or> int (length (packets (take k (numbered full_client 0)))) < 20"
    "k = 64 \<or> 20 \<le> int (length (packets (take (k + 1) (numbered full_client 0))))"
    using server_commands_fit [OF full_client_ok(1) pre, of 20] f by (auto simp: MSG_Init_def num)
  have len: "length (packets (take n (numbered full_client 0))) = 9 * min n 64" for n
    by (simp add: num take_map length_concat comp_def sum_list_triv)
  have "k = 2" using k(3-5) unfolding len by auto
  moreover have "take 2 (numbered full_client 0) = [(1, ''d 1''), (2, ''d 1'')]"
    by (simp add: num upto_rec1 numeral_2_eq_2)
  ultimately show ?thesis using k(1,2) by auto
qed

end
