(* ===== verification/Cipher_Correct.thy ===== *)
theory Cipher_Correct
  imports Cipher SvCommands_Correct
begin

text \<open>
  What one side ciphers the other reads back, in both directions and through the packet
  channel, as long as both hold the same nonempty command text and agree on the numbers that
  start the key. The locale \<open>cipher_pair\<close> is what the transport asks of a cipher; the two
  directions are its interpretations.
\<close>

section \<open>The key stream\<close>

lemma apply_key_length: "apply_key command i k n ds = Some out \<Longrightarrow> length out = length ds"
  by (induction ds arbitrary: i k n out) (auto simp: Let_def split: bind_splits)

lemma apply_key_inverse: "apply_key command i k n ds = Some out \<Longrightarrow> apply_key command i k n out = Some ds"
proof (induction ds arbitrary: i k n out)
  case (Cons d ds)
  obtain c kc rest where st: "peek command i = Some c" "peek command (if c = NUL then 0 else i) = Some kc"
    "apply_key command ((if c = NUL then 0 else i) + 1) (xor k (push_bit (n mod 2) (byte_of kc))) (Suc n) ds = Some rest"
    "out = xor d (xor k (push_bit (n mod 2) (byte_of kc))) # rest"
    using Cons.prems by (auto simp: Let_def bind_eq_Some_conv)
  have x: "xor (xor d z) z = d" for z by (simp add: xor.assoc)
  show ?case unfolding st(4) apply_key.simps st(1,2) bind.bind_lunit Let_def Cons.IH [OF st(3)] x by (rule refl)
qed simp

text \<open>An array whose last character is NUL keeps the index inside, even when its string is empty.\<close>

lemma apply_key_total:
  assumes "2 \<le> length command" "last command = NUL" "0 \<le> i" "i < int (length command)"
  shows "\<exists>out. apply_key command i k n ds = Some out"
  using assms(3,4)
proof (induction ds arbitrary: i k n)
  case (Cons d ds)
  obtain c where c: "peek command i = Some c" using Cons.prems by (simp add: peek_def)
  let ?s = "if c = NUL then 0 else i"
  have lastc: "command ! (length command - 1) = NUL"
    using assms(1,2) by (metis last_conv_nth list.size(3) not_numeral_le_zero)
  have "c \<noteq> NUL \<Longrightarrow> i \<noteq> int (length command) - 1"
    using c lastc Cons.prems by (auto simp: peek_def nat_diff_distrib split: if_splits)
  then have s: "0 \<le> ?s" "?s + 1 < int (length command)"
    using Cons.prems assms(1) by auto
  obtain kc where "peek command ?s = Some kc" using s by (simp add: peek_def)
  with Cons.IH [of "?s + 1" "xor k (push_bit (n mod 2) (byte_of kc))" "Suc n"] s c show ?case
    by (auto simp: Let_def)
qed simp

text \<open>Only the string counts when it is not empty, not what stands behind its NUL.\<close>

lemma cstr_peek:
  assumes "NUL \<in> set command" "i \<le> length (cstr_of command)"
  shows "peek command (int i) = Some (if i < length (cstr_of command) then cstr_of command ! i else NUL)"
proof -
  have len: "length (cstr_of command) < length command"
    using assms(1) by (induction command) (auto simp: cstr_of_def)
  have "i = length (cstr_of command) \<Longrightarrow> command ! i = NUL"
    using nth_length_takeWhile [of "\<lambda>c. c \<noteq> NUL" command] len by (simp add: cstr_of_def)
  moreover have "i < length (cstr_of command) \<Longrightarrow> command ! i = cstr_of command ! i"
    by (simp add: cstr_of_def takeWhile_nth)
  ultimately show ?thesis using assms(2) len by (auto simp: peek_def)
qed

lemma cstr_nonnul: "i < length (cstr_of s) \<Longrightarrow> cstr_of s ! i \<noteq> NUL"
  unfolding cstr_of_def using nth_mem set_takeWhileD by fastforce

lemma apply_key_same:
  assumes "cstr_of c1 = cstr_of c2" "cstr_of c1 \<noteq> []" "NUL \<in> set c1" "NUL \<in> set c2"
  shows "i \<le> length (cstr_of c1) \<Longrightarrow> apply_key c1 (int i) k n ds = apply_key c2 (int i) k n ds"
proof (induction ds arbitrary: i k n)
  case (Cons d ds)
  let ?l = "length (cstr_of c1)"
  have pk: "peek c1 (int j) = peek c2 (int j)" if "j \<le> ?l" for j
    using cstr_peek [of c1 j] cstr_peek [of c2 j] that assms by simp
  let ?c = "if i < ?l then cstr_of c1 ! i else NUL"
  have pi: "peek c1 (int i) = Some ?c" using cstr_peek [OF assms(3) Cons.prems] .
  define s where "s = (if ?c = NUL then 0 else i)"
  have s: "s < ?l" using Cons.prems assms(2) by (auto simp: s_def split: if_splits)
  have ix: "(if ?c = NUL then 0 else int i) = int s" by (simp add: s_def)
  have "apply_key c1 (int (Suc s)) k' n' ds = apply_key c2 (int (Suc s)) k' n' ds" for k' n'
    by (rule Cons.IH) (use s in simp)
  then have IH: "apply_key c1 (int s + 1) k' n' ds = apply_key c2 (int s + 1) k' n' ds" for k' n'
    by (simp add: add.commute)
  have p2: "peek c2 (int i) = Some ?c" using pi pk [OF Cons.prems] by simp
  show ?case
    unfolding apply_key.simps pi p2 bind.bind_lunit Let_def ix pk [OF less_imp_le [OF s]] IH by (rule refl)
qed simp

section \<open>Ciphering in place\<close>

lemma in_place_tail:
  assumes "f body = Some out" "length out = length body"
  shows "in_place f (head @ body) (int (length head)) (int (length body)) = Some (head @ out)"
  using assms by (cases body) (simp_all add: in_place_def copy_out_def copy_in_def)

lemma in_place_stream:
  assumes m: "stream m (head @ sealed)" and f: "f sealed = Some body" "length body = length sealed"
  shows "\<exists>data. in_place f (m_data m) (m_readcount m + int (length head)) (int (length sealed)) = Some data \<and>
    stream ((skip (int (length head)) m)\<lparr>m_data := data\<rparr>) body"
proof (cases "sealed = []")
  case True
  have "stream (skip (int (length head)) m) sealed" by (rule stream_skip [OF m])
  then show ?thesis using True f(2) by (simp add: in_place_def skip_def)
next
  case False
  let ?o = "m_readcount m + int (length head)" and ?s = "skip (int (length head)) m"
  have st: "stream ?s sealed" by (rule stream_skip [OF m])
  have ri: "read_inv ?s" "0 \<le> m_readcount m" using st m by (simp_all add: stream_def read_inv_def)
  have b: "0 \<le> ?o" "?o + int (length sealed) = m_cursize m" "m_cursize m \<le> int (length (m_data m))"
    using stream_length [OF st] ri by (simp_all add: read_inv_def)
  have out: "copy_out (m_data m) ?o (int (length sealed)) = Some sealed"
    using stream_copy_out [of ?s sealed "[]"] st by simp
  obtain data where data: "copy_in (m_data m) ?o body = Some data"
    using b f(2) by (simp add: copy_in_def)
  have "length data = length (m_data m)" by (rule copy_in_length [OF data])
  moreover have "take (length body) (drop (nat ?o) data) = body"
    using data b by (auto simp: copy_in_def split: if_splits)
  moreover have "nat (m_cursize m - ?o) = length body" using b f(2) by simp
  ultimately have "stream (?s\<lparr>m_data := data\<rparr>) body"
    using ri b by (simp add: stream_def unread_def read_inv_def)
  moreover have "in_place f (m_data m) ?o (int (length sealed)) = Some data"
    using False out data f(1) by (simp add: in_place_def)
  ultimately show ?thesis by blast
qed

section \<open>A cipher on the channel\<close>

text \<open>
  \<open>seal s\<close> ciphers a message body with the sender's state, \<open>unseal r\<close> reads it with the
  receiver's; \<open>agree\<close> is when both use the same key.
\<close>

locale cipher_pair =
  fixes seal :: "'s \<Rightarrow> 8 word list \<Rightarrow> 8 word list option"
    and unseal :: "'r \<Rightarrow> 8 word list \<Rightarrow> 8 word list option"
    and agree :: "'s \<Rightarrow> 'r \<Rightarrow> bool"
  assumes seal_total: "agree s r \<Longrightarrow> \<exists>out. seal s body = Some out \<and> length out = length body"
    and unseal_seal: "agree s r \<Longrightarrow> seal s body = Some out \<Longrightarrow> unseal r out = Some body"
begin

lemma sealed_in_place:
  assumes "agree s r"
  obtains sealed where "seal s body = Some sealed" "length sealed = length body"
    "in_place (seal s) (head @ body) (int (length head)) (int (length body)) = Some (head @ sealed)"
  using seal_total [OF assms, of body] in_place_tail [of "seal s" body _ head] by blast

text \<open>A sealed message that has been received is opened in place.\<close>

lemma opened_in_place:
  assumes "agree s r" "seal s body = Some sealed" "stream m (head @ sealed)"
  shows "\<exists>data. in_place (unseal r) (m_data m) (m_readcount m + int (length head)) (int (length body)) = Some data \<and>
    stream ((skip (int (length head)) m)\<lparr>m_data := data\<rparr>) body"
proof -
  have "length body = length sealed" using seal_total [OF assms(1), of body] assms(2) by auto
  then show ?thesis
    using in_place_stream [of m head sealed "unseal r", OF assms(3) unseal_seal [OF assms(1,2)]] by simp
qed

text \<open>Sealing, carrying the fragments over the channel and receiving them.\<close>

lemma sealed_delivered:
  assumes "agree s r" "ready_to_send ch" "expects rch ch" "e_memory senv" "e_memory renv"
    and "length head + length body \<le> 32768" "room m (max 1310 (length head + length body + 6))"
  shows "\<exists>sealed senv' ch' ps renv' rch' m'.
     seal s body = Some sealed \<and> length sealed = length body \<and>
     in_place (seal s) (head @ body) (int (length head)) (int (length body)) = Some (head @ sealed) \<and>
     transmit_all senv ch (head @ sealed) = Done (senv', ch', ps) \<and>
     process_packets renv rch m ps = Done (renv', rch', m', replicate (length ps - 1) False @ [True]) \<and>
     received m' (n_outgoingSequence ch) (head @ sealed)"
proof -
  obtain sealed where s: "seal s body = Some sealed" "length sealed = length body"
    "in_place (seal s) (head @ body) (int (length head)) (int (length body)) = Some (head @ sealed)"
    by (rule sealed_in_place [OF assms(1)])
  have "length (head @ sealed) \<le> 32768" "room m (max 1310 (length (head @ sealed) + 6))"
    using assms(6,7) s(2) by simp_all
  from channel_delivers [OF assms(2-5) this] s show ?thesis by blast
qed

end

section \<open>The two directions\<close>

text \<open>An array as every writer leaves it: 1024 characters, the last of them NUL.\<close>

definition command_array :: "string \<Rightarrow> bool" where
  "command_array s \<longleftrightarrow> length s = 1024 \<and> last s = NUL"

definition same_command :: "string \<Rightarrow> string \<Rightarrow> bool" where
  "same_command a b \<longleftrightarrow> command_array a \<and> command_array b \<and> cstr_of a = cstr_of b \<and> cstr_of a \<noteq> []"

lemma same_command_key:
  assumes "same_command a b"
  shows "\<exists>out. apply_key a 0 k 0 ds = Some out \<and> length out = length ds"
    "apply_key a 0 k 0 ds = apply_key b 0 k 0 ds"
proof -
  have a: "length a = 1024" "last a = NUL" "length b = 1024" "last b = NUL"
    using assms by (simp_all add: same_command_def command_array_def)
  then have "a \<noteq> []" "b \<noteq> []" by auto
  then have nul: "NUL \<in> set a" "NUL \<in> set b" using a last_in_set by metis+
  show "apply_key a 0 k 0 ds = apply_key b 0 k 0 ds"
    using apply_key_same [of a b 0 k 0 ds] assms nul unfolding same_command_def by auto
  show "\<exists>out. apply_key a 0 k 0 ds = Some out \<and> length out = length ds"
    using apply_key_total [of a 0 k 0 ds] apply_key_length a by fastforce
qed

definition server_seal :: "client_t \<Rightarrow> 8 word list \<Rightarrow> 8 word list option" where
  "server_seal c = apply_key (c_lastClientCommandString c) 0
     (xor (key_byte (n_outgoingSequence (c_netchan c))) (key_byte (c_challenge c))) 0"

definition client_unseal :: "clientConnection_t \<Rightarrow> 8 word list \<Rightarrow> 8 word list option" where
  "client_unseal k = apply_key (clc_reliableCommands k ! ring_slot (clc_reliableAcknowledge k)) 0
     (xor (key_byte (clc_challenge k)) (key_byte (clc_serverMessageSequence k))) 0"

definition to_client :: "client_t \<Rightarrow> clientConnection_t \<Rightarrow> bool" where
  "to_client c k \<longleftrightarrow> c_challenge c = clc_challenge k \<and>
     n_outgoingSequence (c_netchan c) = clc_serverMessageSequence k \<and>
     same_command (c_lastClientCommandString c) (clc_reliableCommands k ! ring_slot (clc_reliableAcknowledge k))"

definition client_seal :: "clientConnection_t \<Rightarrow> 8 word list \<Rightarrow> 8 word list option" where
  "client_seal k = apply_key (clc_serverCommands k ! ring_slot (clc_serverCommandSequence k)) 0
     (xor (xor (key_byte (cl_serverId k)) (key_byte (clc_challenge k))) (key_byte (clc_serverMessageSequence k))) 0"

definition server_unseal :: "client_t \<Rightarrow> 8 word list \<Rightarrow> 8 word list option" where
  "server_unseal c = apply_key (rc_commandText (c_reliableCommands c ! ring_slot (c_reliableAcknowledge c))) 0
     (xor (xor (key_byte (c_challenge c)) (key_byte (c_serverId c))) (key_byte (c_messageAcknowledge c))) 0"

definition to_server :: "clientConnection_t \<Rightarrow> client_t \<Rightarrow> bool" where
  "to_server k c \<longleftrightarrow> c_challenge c = clc_challenge k \<and> key_byte (c_serverId c) = key_byte (cl_serverId k) \<and>
     c_messageAcknowledge c = clc_serverMessageSequence k \<and>
     same_command (clc_serverCommands k ! ring_slot (clc_serverCommandSequence k))
       (rc_commandText (c_reliableCommands c ! ring_slot (c_reliableAcknowledge c)))"

lemma cipher_applies:
  "SV_Netchan_Encode c = in_place (server_seal c)" "CL_Netchan_Decode k = in_place (client_unseal k)"
  "CL_Netchan_Encode k = in_place (client_seal k)" "SV_Netchan_Decode c = in_place (server_unseal c)"
  by (intro ext, simp add: SV_Netchan_Encode_def CL_Netchan_Decode_def CL_Netchan_Encode_def
      SV_Netchan_Decode_def cipher_def server_seal_def client_unseal_def client_seal_def server_unseal_def)+

interpretation down: cipher_pair server_seal client_unseal to_client
proof
  fix c k body
  assume a: "to_client c k"
  then have s: "same_command (c_lastClientCommandString c)
      (clc_reliableCommands k ! ring_slot (clc_reliableAcknowledge k))"
    by (simp add: to_client_def)
  show "\<exists>out. server_seal c body = Some out \<and> length out = length body"
    using same_command_key(1) [OF s] by (simp add: server_seal_def)
  have key: "xor (key_byte (clc_challenge k)) (key_byte (clc_serverMessageSequence k)) =
      xor (key_byte (n_outgoingSequence (c_netchan c))) (key_byte (c_challenge c))"
    using a unfolding to_client_def by (metis xor.commute)
  have "client_unseal k ds = server_seal c ds" for ds
    unfolding client_unseal_def server_seal_def key by (rule same_command_key(2) [OF s, symmetric])
  then show "client_unseal k out = Some body" if "server_seal c body = Some out" for out
    using apply_key_inverse that unfolding server_seal_def by metis
qed

interpretation up: cipher_pair client_seal server_unseal to_server
proof
  fix k c body
  assume a: "to_server k c"
  then have s: "same_command (clc_serverCommands k ! ring_slot (clc_serverCommandSequence k))
      (rc_commandText (c_reliableCommands c ! ring_slot (c_reliableAcknowledge c)))"
    by (simp add: to_server_def)
  show "\<exists>out. client_seal k body = Some out \<and> length out = length body"
    using same_command_key(1) [OF s] by (simp add: client_seal_def)
  have key: "xor (xor (key_byte (c_challenge c)) (key_byte (c_serverId c))) (key_byte (c_messageAcknowledge c)) =
      xor (xor (key_byte (cl_serverId k)) (key_byte (clc_challenge k))) (key_byte (clc_serverMessageSequence k))"
    using a unfolding to_server_def by (metis xor.commute)
  have "server_unseal c ds = client_seal k ds" for ds
    unfolding server_unseal_def client_seal_def key by (rule same_command_key(2) [OF s, symmetric])
  then show "server_unseal c out = Some body" if "client_seal k body = Some out" for out
    using apply_key_inverse that unfolding client_seal_def by metis
qed

section \<open>What arrives\<close>

lemma transmit_all_split:
  assumes "transmit_all env s data = Done (env2, s2, ps)"
  obtains env1 s1 p ps1 where "Netchan_Transmit env s (int (length data)) data = Done (env1, s1, p)"
    "transmit_rest 26 env1 s1 = Done (env2, s2, ps1)" "ps = p # ps1"
  using assms by (auto simp: transmit_all_def run_bind_eq_Done)

lemma long_at_le32:
  assumes "take 4 d = le32 q" "-2147483648 \<le> q" "q < 2147483648"
  shows "long_at d = Some q"
proof -
  have d: "d = le32 q @ drop 4 d" using append_take_drop_id [of 4 d] assms(1) by simp
  show ?thesis
    unfolding long_at_def by (subst (1 2 3 4) d)
      (simp add: peek_def le32_def Let_def join_32 sint_word_of_int_32 i32_id assms(2,3) numeral_2_eq_2 numeral_3_eq_3)
qed

lemma receive_down:
  assumes "to_client c (k\<lparr>clc_serverMessageSequence := q, clc_reliableAcknowledge := ack\<rparr>)"
    and "server_seal c body = Some sealed" "received m q (le32 ack @ sealed)"
    and "0 \<le> q" "q < 2147483648" "-2147483648 \<le> ack" "ack < 2147483648"
    and "i32 (clc_reliableSequence k - 64) \<le> ack"
  shows "\<exists>k' out. CL_receive_message (k\<lparr>clc_netchan := r\<rparr>) m = Some (k', CL_Parse out) \<and> unread out = body \<and>
    clc_reliableAcknowledge k' = ack \<and> clc_serverMessageSequence k' = q"
proof -
  let ?k = "k\<lparr>clc_serverMessageSequence := q, clc_reliableAcknowledge := ack\<rparr>"
  let ?k' = "k\<lparr>clc_netchan := r, clc_serverMessageSequence := q, clc_reliableAcknowledge := ack\<rparr>"
  have st: "stream m (le32 ack @ sealed)" using assms(3) by (simp add: received_def)
  have long: "long_at (m_data m) = Some q"
    using assms(3-5) by (intro long_at_le32) (simp_all add: received_def)
  have rd: "MSG_ReadLong m = Some (ack, skip 4 m)"
    using stream_ReadLong [OF st] assms(6,7) by (simp add: i32_id)
  have len: "length sealed = length body"
    using down.seal_total [OF assms(1), of body] assms(2) by auto
  have size: "i32 (m_cursize m - (m_readcount m + 4)) = int (length body)"
    using stream_length [OF st] stream_bounds [of m "le32 ack" sealed] st len by (simp add: i32_id)
  have same: "client_unseal ?k' = client_unseal ?k" by (simp add: client_unseal_def fun_eq_iff)
  obtain data where d: "in_place (client_unseal ?k) (m_data m) (m_readcount m + 4) (int (length body)) = Some data"
      "stream ((skip 4 m)\<lparr>m_data := data\<rparr>) body"
    using down.opened_in_place [OF assms(1,2) st] by auto
  have "CL_receive_message (k\<lparr>clc_netchan := r\<rparr>) m = Some (?k', CL_Parse ((skip 4 m)\<lparr>m_data := data\<rparr>))"
    using long rd assms(8) d(1) same size
    by (simp add: CL_receive_message_def cipher_applies Let_def)
  then show ?thesis using d(2) by (auto simp: stream_def)
qed

section \<open>A server client and its connection\<close>

definition sample_text :: string where
  "sample_text = ''d 1'' @ replicate 1021 NUL"

definition sample_server_end :: client_t where
  "sample_server_end = sample_client\<lparr>c_lastClientCommandString := sample_text\<rparr>"

definition sample_connection :: clientConnection_t where
  "sample_connection = \<lparr>cl_serverId = 3, clc_challenge = 0, clc_reliableSequence = 0, clc_reliableAcknowledge = 0,
     clc_reliableCommands = replicate 64 sample_text, clc_serverMessageSequence = 0,
     clc_serverCommandSequence = 0, clc_serverCommands = replicate 64 sample_text,
     clc_lastPacketTime = 0, clc_netchan = fresh_chan NS_CLIENT\<rparr>"

lemma sample_same: "same_command sample_text sample_text"
  by (simp add: same_command_def command_array_def sample_text_def cstr_of_def)

lemma sample_ends:
  "c_netchan sample_server_end = fresh_chan NS_SERVER" "clc_netchan sample_connection = fresh_chan NS_CLIENT"
  "c_challenge sample_server_end = clc_challenge sample_connection" "clc_challenge sample_connection = 0"
  "c_lastClientCommandString sample_server_end = sample_text"
  "clc_reliableCommands sample_connection ! ring_slot s = sample_text"
  "clc_serverCommands sample_connection ! ring_slot s = sample_text"
  "rc_commandText (c_reliableCommands sample_server_end ! ring_slot s) = sample_text"
  using ring_slot_less [of s]
  by (simp_all add: sample_server_end_def sample_client_def sample_connection_def sample_text_def)

lemma sample_room: "n \<le> 32766 \<Longrightarrow> room (MSG_Init (replicate 32772 0) 32772) (max 1310 (n + 6))"
  by (simp add: room_def MSG_Init_def)

text \<open>
  C25: what the server sends to a client is what the client parses: \<open>SV_Netchan_Transmit\<close> ciphers
  everything behind the four bytes of the acknowledgement, the channel carries it in as many
  fragments as needed, and \<open>CL_PacketEvent\<close>'s receiver recovers the message body, provided both
  hold the same challenge and the same last client command, and the acknowledgement is not
  older than the ring.
\<close>

theorem server_message_decoded:
  assumes "ready_to_send (c_netchan c)" "expects (clc_netchan k) (c_netchan c)" "e_memory senv" "e_memory renv"
    and "c_challenge c = clc_challenge k"
    and "same_command (c_lastClientCommandString c) (clc_reliableCommands k ! ring_slot ack)"
    and "i32 (clc_reliableSequence k - 64) \<le> ack" "-2147483648 \<le> ack" "ack < 2147483648"
    and "4 + length body \<le> 32768" "room m (max 1310 (length body + 10))"
  shows "\<exists>senv1 c1 p senv2 s2 ps renv' r m' k' out.
     SV_Netchan_Transmit senv c (le32 ack @ body) (4 + int (length body)) = Done (senv1, c1, p) \<and>
     transmit_rest 26 senv1 (c_netchan c1) = Done (senv2, s2, ps) \<and>
     process_packets renv (clc_netchan k) m (p # ps) = Done (renv', r, m', replicate (length ps) False @ [True]) \<and>
     CL_receive_message (k\<lparr>clc_netchan := r\<rparr>) m' = Some (k', CL_Parse out) \<and> unread out = body \<and>
     clc_reliableAcknowledge k' = ack \<and> clc_serverMessageSequence k' = n_outgoingSequence (c_netchan c)"
proof -
  let ?q = "n_outgoingSequence (c_netchan c)"
  let ?k = "k\<lparr>clc_serverMessageSequence := ?q, clc_reliableAcknowledge := ack\<rparr>"
  have q: "0 \<le> ?q" "?q < 2147483648" using assms(1) by (simp_all add: ready_to_send_def)
  have agree: "to_client c ?k" using assms(5,6) by (simp add: to_client_def)
  have sz: "length (le32 ack) + length body \<le> 32768" "room m (max 1310 (length (le32 ack) + length body + 6))"
    using assms(10,11) by (simp_all add: add.commute)
  obtain sealed senv2 s2 qs renv' r m' where
    sealed: "server_seal c body = Some sealed" "length sealed = length body"
      "in_place (server_seal c) (le32 ack @ body) (int (length (le32 ack))) (int (length body)) = Some (le32 ack @ sealed)"
    and tr: "transmit_all senv (c_netchan c) (le32 ack @ sealed) = Done (senv2, s2, qs)"
    and pr: "process_packets renv (clc_netchan k) m qs = Done (renv', r, m', replicate (length qs - 1) False @ [True])"
    and rc: "received m' ?q (le32 ack @ sealed)"
    using down.sealed_delivered [OF agree assms(1-4) sz] by blast
  obtain senv1 s1 p ps where t: "Netchan_Transmit senv (c_netchan c) (int (length (le32 ack @ sealed))) (le32 ack @ sealed) =
      Done (senv1, s1, p)" "transmit_rest 26 senv1 s1 = Done (senv2, s2, ps)" "qs = p # ps"
    by (rule transmit_all_split [OF tr])
  have "i32 (4 + int (length body) - 4) = int (length body)" using assms(10) by (simp add: i32_id)
  then have enc: "SV_Netchan_Encode c (le32 ack @ body) 4 (i32 (4 + int (length body) - 4)) = Some (le32 ack @ sealed)"
    using sealed(3) by (simp add: cipher_applies)
  have "int (length (le32 ack @ sealed)) = 4 + int (length body)" using sealed(2) by simp
  then have "SV_Netchan_Transmit senv c (le32 ack @ body) (4 + int (length body)) = Done (senv1, c\<lparr>c_netchan := s1\<rparr>, p)"
    using t(1) enc by (simp add: SV_Netchan_Transmit_def)
  moreover obtain k' out where "CL_receive_message (k\<lparr>clc_netchan := r\<rparr>) m' = Some (k', CL_Parse out)" "unread out = body"
      "clc_reliableAcknowledge k' = ack" "clc_serverMessageSequence k' = ?q"
    using receive_down [OF agree sealed(1) rc q assms(8,9,7)] by blast
  moreover have "transmit_rest 26 senv1 (c_netchan (c\<lparr>c_netchan := s1\<rparr>)) = Done (senv2, s2, ps)" using t(2) by simp
  moreover have "process_packets renv (clc_netchan k) m (p # ps) = Done (renv', r, m', replicate (length ps) False @ [True])"
    using pr t(3) by simp
  ultimately show ?thesis by blast
qed

lemma server_message_decoded_witness:
  "\<exists>senv1 c1 p senv2 s2 ps renv' r m' k' out.
     SV_Netchan_Transmit plain_env sample_server_end (le32 0 @ replicate 4000 7) 4004 = Done (senv1, c1, p) \<and>
     transmit_rest 26 senv1 (c_netchan c1) = Done (senv2, s2, ps) \<and>
     process_packets plain_env (fresh_chan NS_CLIENT) (MSG_Init (replicate 32772 0) 32772) (p # ps) =
       Done (renv', r, m', replicate (length ps) False @ [True]) \<and>
     CL_receive_message (sample_connection\<lparr>clc_netchan := r\<rparr>) m' = Some (k', CL_Parse out) \<and>
     unread out = replicate 4000 7"
proof -
  have same: "same_command (c_lastClientCommandString sample_server_end)
      (clc_reliableCommands sample_connection ! ring_slot 0)"
    using sample_same by (simp add: sample_ends)
  have room: "room (MSG_Init (replicate 32772 0) 32772) (max 1310 (length (replicate 4000 (7 :: 8 word)) + 10))"
    using sample_room [of 4004] by simp
  have mem: "e_memory plain_env" by (simp add: plain_env_def)
  have ch: "ready_to_send (c_netchan sample_server_end)"
    "expects (clc_netchan sample_connection) (c_netchan sample_server_end)"
    using fresh_chan_ok by (simp_all add: sample_ends)
  have "i32 (clc_reliableSequence sample_connection - 64) \<le> 0" by (simp add: sample_connection_def i32_id)
  from server_message_decoded [OF ch mem mem sample_ends(3) same this _ _ _ room]
  show ?thesis by (auto simp: sample_ends)
qed

text \<open>The nine bytes in front of a client message.\<close>

definition client_head :: "clientConnection_t \<Rightarrow> 8 word list" where
  "client_head k = [word_of_int (cl_serverId k)] @ le32 (clc_serverMessageSequence k) @ le32 (clc_serverCommandSequence k)"

lemma length_client_head [simp]: "length (client_head k) = 9"
  by (simp add: client_head_def)

lemma receive_up:
  assumes "c_challenge c = clc_challenge k" "client_seal k body = Some sealed"
    and "same_command (clc_serverCommands k ! ring_slot (clc_serverCommandSequence k))
       (rc_commandText (c_reliableCommands c ! ring_slot (clc_serverCommandSequence k)))"
    and "stream m (client_head k @ sealed)"
    and "0 \<le> clc_serverMessageSequence k" "clc_serverMessageSequence k < 2147483648"
    and "-2147483648 \<le> clc_serverCommandSequence k" "clc_serverCommandSequence k < 2147483648"
    and "i32 (c_reliableSequence c - clc_serverCommandSequence k) < 64" "c_state c \<noteq> CS_ZOMBIE"
  shows "\<exists>c' out. SV_receive_message realTime (c\<lparr>c_netchan := ch\<rparr>) m = Some (c', Some out) \<and> unread out = body \<and>
    c_reliableAcknowledge c' = clc_serverCommandSequence k \<and>
    c_messageAcknowledge c' = clc_serverMessageSequence k \<and> c_lastPacketTime c' = realTime"
proof -
  let ?b = "word_of_int (cl_serverId k) :: 8 word"
  let ?f = "\<lambda>c. c\<lparr>c_serverId := uint ?b, c_messageAcknowledge := clc_serverMessageSequence k,
      c_reliableAcknowledge := clc_serverCommandSequence k\<rparr>"
  have agree: "to_server k (?f c)" using assms(1,3) by (simp add: to_server_def)
  have s0: "stream m (?b # le32 (clc_serverMessageSequence k) @ le32 (clc_serverCommandSequence k) @ sealed)"
    using assms(4) by (simp add: client_head_def)
  have r0: "MSG_ReadByte m = Some (uint ?b, skip 1 m)" by (rule stream_ReadByte [OF s0])
  have s1: "stream (skip 1 m) (le32 (clc_serverMessageSequence k) @ le32 (clc_serverCommandSequence k) @ sealed)"
    using stream_skip [of m "[?b]"] s0 by simp
  have r1: "MSG_ReadLong (skip 1 m) = Some (clc_serverMessageSequence k, skip 5 m)"
    using stream_ReadLong [OF s1] assms(5,6) by (simp add: i32_id)
  have s2: "stream (skip 5 m) (le32 (clc_serverCommandSequence k) @ sealed)"
    using stream_skip [OF s1] by simp
  have r2: "MSG_ReadLong (skip 5 m) = Some (clc_serverCommandSequence k, skip 9 m)"
    using stream_ReadLong [OF s2] assms(7,8) by (simp add: i32_id)
  have len: "length sealed = length body"
    using up.seal_total [OF agree, of body] assms(2) by auto
  have size: "i32 (m_cursize m - (m_readcount m + 9)) = int (length body)"
    using stream_length [OF assms(4)] stream_bounds [of m "client_head k" sealed] assms(4) len by (simp add: i32_id)
  have same: "server_unseal (?f (c\<lparr>c_netchan := ch\<rparr>)) = server_unseal (?f c)"
    by (simp add: server_unseal_def fun_eq_iff)
  obtain data where d: "in_place (server_unseal (?f c)) (m_data m) (m_readcount m + 9) (int (length body)) = Some data"
      "stream ((skip 9 m)\<lparr>m_data := data\<rparr>) body"
    using up.opened_in_place [OF agree assms(2,4)] by auto
  have "SV_receive_message realTime (c\<lparr>c_netchan := ch\<rparr>) m =
      Some ((?f (c\<lparr>c_netchan := ch\<rparr>))\<lparr>c_lastPacketTime := realTime\<rparr>, Some ((skip 9 m)\<lparr>m_data := data\<rparr>))"
    using assms(5,9,10) d(1) same size
    by (simp add: SV_receive_message_def cipher_applies Let_def r0 r1 r2)
  then show ?thesis using d(2) by (auto simp: stream_def)
qed

text \<open>
  C26: what a client sends to the server is what the server hands to \<open>SV_ExecuteClientMessage\<close>:
  \<open>CL_Netchan_Transmit\<close> leaves the nine header bytes in clear and ciphers the rest,
  \<open>SV_PacketEvent\<close>'s receiver takes the key from the header and from the command the client
  acknowledges, and recovers the body. Both must hold the same challenge and the same text of
  that command, less than 64 commands behind the newest.
\<close>

theorem client_message_decoded:
  assumes "ready_to_send (clc_netchan k)" "expects (c_netchan c) (clc_netchan k)" "e_memory senv" "e_memory renv"
    and "c_challenge c = clc_challenge k" "c_state c \<noteq> CS_ZOMBIE"
    and "same_command (clc_serverCommands k ! ring_slot (clc_serverCommandSequence k))
       (rc_commandText (c_reliableCommands c ! ring_slot (clc_serverCommandSequence k)))"
    and "0 \<le> clc_serverMessageSequence k" "clc_serverMessageSequence k < 2147483648"
    and "-2147483648 \<le> clc_serverCommandSequence k" "clc_serverCommandSequence k < 2147483648"
    and "i32 (c_reliableSequence c - clc_serverCommandSequence k) < 64"
    and "9 + length body \<le> 32768" "room m (max 1310 (length body + 15))"
  shows "\<exists>senv1 k1 p senv2 s2 ps renv' r m' c' out.
     CL_Netchan_Transmit senv k (client_head k @ body) (9 + int (length body)) = Done (senv1, k1, p) \<and>
     transmit_rest 26 senv1 (clc_netchan k1) = Done (senv2, s2, ps) \<and>
     process_packets renv (c_netchan c) m (p # ps) = Done (renv', r, m', replicate (length ps) False @ [True]) \<and>
     SV_receive_message realTime (c\<lparr>c_netchan := r\<rparr>) m' = Some (c', Some out) \<and> unread out = body \<and>
     c_reliableAcknowledge c' = clc_serverCommandSequence k \<and>
     c_messageAcknowledge c' = clc_serverMessageSequence k"
proof -
  let ?c = "c\<lparr>c_serverId := uint (word_of_int (cl_serverId k) :: 8 word),
      c_messageAcknowledge := clc_serverMessageSequence k, c_reliableAcknowledge := clc_serverCommandSequence k\<rparr>"
  have agree: "to_server k ?c" using assms(5,7) by (simp add: to_server_def)
  have sz: "length (client_head k) + length body \<le> 32768" "room m (max 1310 (length (client_head k) + length body + 6))"
    using assms(13,14) by (simp_all add: add.commute)
  obtain sealed senv2 s2 qs renv' r m' where
    sealed: "client_seal k body = Some sealed" "length sealed = length body"
      "in_place (client_seal k) (client_head k @ body) (int (length (client_head k))) (int (length body)) =
        Some (client_head k @ sealed)"
    and tr: "transmit_all senv (clc_netchan k) (client_head k @ sealed) = Done (senv2, s2, qs)"
    and pr: "process_packets renv (c_netchan c) m qs = Done (renv', r, m', replicate (length qs - 1) False @ [True])"
    and rc: "received m' (n_outgoingSequence (clc_netchan k)) (client_head k @ sealed)"
    using up.sealed_delivered [OF agree assms(1-4) sz] by blast
  obtain senv1 s1 p ps where t:
    "Netchan_Transmit senv (clc_netchan k) (int (length (client_head k @ sealed))) (client_head k @ sealed) =
      Done (senv1, s1, p)" "transmit_rest 26 senv1 s1 = Done (senv2, s2, ps)" "qs = p # ps"
    by (rule transmit_all_split [OF tr])
  have "i32 (9 + int (length body) - 9) = int (length body)" using assms(13) by (simp add: i32_id)
  then have enc: "CL_Netchan_Encode k (client_head k @ body) 9 (i32 (9 + int (length body) - 9)) =
      Some (client_head k @ sealed)"
    using sealed(3) by (simp add: cipher_applies)
  have "int (length (client_head k @ sealed)) = 9 + int (length body)" using sealed(2) by simp
  then have "CL_Netchan_Transmit senv k (client_head k @ body) (9 + int (length body)) =
      Done (senv1, k\<lparr>clc_netchan := s1\<rparr>, p)"
    using t(1) enc by (simp add: CL_Netchan_Transmit_def)
  moreover have st: "stream m' (client_head k @ sealed)" using rc by (simp add: received_def)
  obtain c' out where "SV_receive_message realTime (c\<lparr>c_netchan := r\<rparr>) m' = Some (c', Some out)" "unread out = body"
      "c_reliableAcknowledge c' = clc_serverCommandSequence k" "c_messageAcknowledge c' = clc_serverMessageSequence k"
    using receive_up [OF assms(5) sealed(1) assms(7) st assms(8-12,6)] by blast
  moreover have "transmit_rest 26 senv1 (clc_netchan (k\<lparr>clc_netchan := s1\<rparr>)) = Done (senv2, s2, ps)" using t(2) by simp
  moreover have "process_packets renv (c_netchan c) m (p # ps) = Done (renv', r, m', replicate (length ps) False @ [True])"
    using pr t(3) by simp
  ultimately show ?thesis by blast
qed

lemma client_message_decoded_witness:
  "\<exists>senv1 k1 p senv2 s2 ps renv' r m' c' out.
     CL_Netchan_Transmit plain_env sample_connection (client_head sample_connection @ replicate 4000 7) 4009 =
       Done (senv1, k1, p) \<and>
     transmit_rest 26 senv1 (clc_netchan k1) = Done (senv2, s2, ps) \<and>
     process_packets plain_env (fresh_chan NS_SERVER) (MSG_Init (replicate 32772 0) 32772) (p # ps) =
       Done (renv', r, m', replicate (length ps) False @ [True]) \<and>
     SV_receive_message 20 (sample_server_end\<lparr>c_netchan := r\<rparr>) m' = Some (c', Some out) \<and>
     unread out = replicate 4000 7"
proof -
  have same: "same_command (clc_serverCommands sample_connection ! ring_slot (clc_serverCommandSequence sample_connection))
      (rc_commandText (c_reliableCommands sample_server_end ! ring_slot (clc_serverCommandSequence sample_connection)))"
    using sample_same by (simp add: sample_ends)
  have room: "room (MSG_Init (replicate 32772 0) 32772) (max 1310 (length (replicate 4000 (7 :: 8 word)) + 15))"
    using sample_room [of 4009] by simp
  have mem: "e_memory plain_env" by (simp add: plain_env_def)
  have ch: "ready_to_send (clc_netchan sample_connection)"
    "expects (c_netchan sample_server_end) (clc_netchan sample_connection)"
    using fresh_chan_ok by (simp_all add: sample_ends)
  have k: "clc_serverMessageSequence sample_connection = 0" "clc_serverCommandSequence sample_connection = 0"
    "c_state sample_server_end \<noteq> CS_ZOMBIE" "c_reliableSequence sample_server_end = 0"
    by (simp_all add: sample_connection_def sample_server_end_def sample_client_def)
  from client_message_decoded [OF ch mem mem sample_ends(3) k(3) same _ _ _ _ _ _ room, of 20]
  show ?thesis using k by (auto simp: sample_ends i32_id)
qed

section \<open>One packet, one client\<close>

lemma find_client_Some:
  assumes "find_client from qport cs = Some n"
  shows "n < length cs \<and> c_state (cs ! n) \<noteq> CS_FREE \<and>
    NET_CompareBaseAdr from (n_remoteAddress (c_netchan (cs ! n))) \<and> n_qport (c_netchan (cs ! n)) = qport"
  using assms by (induction cs arbitrary: n) (auto split: if_splits)

lemma client_packet_result:
  assumes "SV_client_packet env sv from n m = Done (env', sv', actions)"
  shows "\<exists>client parsed. sv_clients sv' = (sv_clients sv)[n := client] \<and>
    actions = (case parsed of None \<Rightarrow> [] | Some p \<Rightarrow> [Parse n p]) @ [Clear_temp]"
proof -
  obtain x where x: "Netchan_Process env (c_netchan (fix_port from (sv_clients sv ! n))) m = Done x"
    using assms unfolding SV_client_packet_def Let_def by (cases "Netchan_Process env (c_netchan (fix_port from (sv_clients sv ! n))) m") auto
  obtain env1 channel m1 acc where x': "x = (env1, channel, m1, acc)" by (cases x)
  show ?thesis
  proof (cases acc)
    case False
    then have "actions = [Clear_temp]" "\<exists>client. sv_clients sv' = (sv_clients sv)[n := client]"
      using assms by (auto simp: SV_client_packet_def Let_def x x')
    then show ?thesis by (auto intro!: exI [of _ None])
  next
    case True
    then show ?thesis using assms by (auto simp: SV_client_packet_def Let_def x x' run_bind_eq_Done)
  qed
qed

lemma packet_event_cases:
  assumes "SV_PacketEvent env sv from m = Done (env', sv', actions)"
  obtains "sv' = sv" "actions = [Connectionless]"
  | "sv_clients sv' = sv_clients sv" "actions = [Disconnect, Clear_temp]"
  | qport n sv1 m2 where "find_client from qport (sv_clients sv) = Some n" "sv_clients sv1 = sv_clients sv"
      "SV_client_packet env sv1 from n m2 = Done (env', sv', actions)"
proof -
  obtain marker where mk: "checked (if m_cursize m \<ge> 4 then map_option Some (long_at (m_data m)) else Some None) = Done marker"
    using assms by (auto simp: SV_PacketEvent_def run_bind_eq_Done)
  show ?thesis
  proof (cases "marker = Some (-1)")
    case True
    then show ?thesis using assms mk that(1) by (simp add: SV_PacketEvent_def)
  next
    case False
    let ?m1 = "m\<lparr>m_bit := 0, m_readcount := (if m_cursize m \<ge> 4 then 4 else 0)\<rparr>"
    let ?sv = "sv\<lparr>sv_skelCacheKey := next_skel_key (sv_skelCacheKey sv)\<rparr>"
    obtain short m2 where "checked (MSG_ReadShort ?m1) = Done (short, m2)"
      using assms mk False by (auto simp: SV_PacketEvent_def run_bind_eq_Done Let_def)
    then have "(case find_client from (u16 short) (sv_clients sv) of
         None \<Rightarrow> Done (env, ?sv, [Disconnect, Clear_temp])
       | Some n \<Rightarrow> SV_client_packet env ?sv from n m2) = Done (env', sv', actions)"
      using assms mk False by (simp add: SV_PacketEvent_def Let_def)
    then show ?thesis using that(2) that(3) [of "u16 short" _ ?sv m2] by (auto split: option.splits)
  qed
qed

text \<open>
  a packet changes at most one client: the first one that is not free and has the packet's
  base address and qport. Only that client's message can be executed, and nobody is
  disconnected by it. A packet of nobody changes no client and is answered by a disconnect.
\<close>

theorem packet_event_isolated:
  assumes "SV_PacketEvent env sv from m = Done (env', sv', actions)"
  shows "sv_clients sv' = sv_clients sv \<and> (actions = [Connectionless] \<or> actions = [Disconnect, Clear_temp]) \<or>
    (\<exists>n qport. find_client from qport (sv_clients sv) = Some n \<and>
       c_state (sv_clients sv ! n) \<noteq> CS_FREE \<and>
       NET_CompareBaseAdr from (n_remoteAddress (c_netchan (sv_clients sv ! n))) \<and>
       length (sv_clients sv') = length (sv_clients sv) \<and>
       (\<forall>i < length (sv_clients sv). i \<noteq> n \<longrightarrow> sv_clients sv' ! i = sv_clients sv ! i) \<and>
       (\<forall>i p. Parse i p \<in> set actions \<longrightarrow> i = n) \<and> Disconnect \<notin> set actions)"
proof (cases rule: packet_event_cases [OF assms])
  case (3 qport n sv1 m2)
  obtain client parsed where r: "sv_clients sv' = (sv_clients sv)[n := client]"
    "actions = (case parsed of None \<Rightarrow> [] | Some p \<Rightarrow> [Parse n p]) @ [Clear_temp]"
    using client_packet_result [OF 3(3)] 3(2) by auto
  then have "\<forall>i p. Parse i p \<in> set actions \<longrightarrow> i = n" "Disconnect \<notin> set actions"
    by (auto split: option.splits)
  then show ?thesis using find_client_Some [OF 3(1)] 3(1) r(1) by auto
qed simp_all

definition old_packet :: msg_t where
  "old_packet = (MSG_Init [0, 0, 0, 0, 0, 0] 6)\<lparr>m_cursize := 6\<rparr>"

definition sample_server :: server_state where
  "sample_server = \<lparr>sv_clients = [sample_server_end], sv_skelCacheKey = 5, sv_realTime = 20\<rparr>"

lemma packet_event_isolated_witness:
  "\<exists>env' sv'. SV_PacketEvent plain_env sample_server (n_remoteAddress (fresh_chan NS_CLIENT)) old_packet =
     Done (env', sv', [Clear_temp]) \<and> length (sv_clients sv') = 1"
proof -
  have short: "MSG_ReadShort (old_packet\<lparr>m_bit := 0, m_readcount := 4\<rparr>) = Some (0, old_packet\<lparr>m_bit := 0, m_readcount := 6\<rparr>)"
    by (simp add: old_packet_def MSG_Init_def MSG_ReadShort_def i32_id peek_def)
  have find: "find_client (n_remoteAddress (fresh_chan NS_CLIENT)) 0 (sv_clients sample_server) = Some 0"
    by (simp add: sample_server_def sample_server_end_def sample_client_def fresh_chan_def
        NET_CompareBaseAdr_def NET_CompareBaseAdrSigned_def)
  have marker: "long_at (m_data old_packet) = Some 0"
    by (simp add: long_at_def old_packet_def MSG_Init_def peek_def)
  have proc: "\<exists>env1 c1 m1. Netchan_Process plain_env (fresh_chan NS_SERVER)
      (old_packet\<lparr>m_bit := 0, m_readcount := 6\<rparr>) = Done (env1, c1, m1, False)"
    by (simp add: Netchan_Process_def plain_env_def fresh_chan_def NetProf_PrepProfiling_def old_packet_def
        MSG_Init_def MSG_BeginReading_def MSG_ReadLong_def MSG_ReadShort_def i32_id peek_def
        NetProf_NewRecievePacket_def receive_packet_def Let_def)
  have fixed: "c_netchan (fix_port (n_remoteAddress (fresh_chan NS_CLIENT)) sample_server_end) = fresh_chan NS_SERVER"
    by (simp add: fix_port_def sample_ends(1)) (simp add: fresh_chan_def)
  let ?sv = "sample_server\<lparr>sv_skelCacheKey := next_skel_key (sv_skelCacheKey sample_server)\<rparr>"
  obtain env1 c1 m1 where "Netchan_Process plain_env (fresh_chan NS_SERVER)
      (old_packet\<lparr>m_bit := 0, m_readcount := 6\<rparr>) = Done (env1, c1, m1, False)"
    using proc by blast
  then have "\<exists>env' sv'. SV_client_packet plain_env ?sv (n_remoteAddress (fresh_chan NS_CLIENT)) 0
      (old_packet\<lparr>m_bit := 0, m_readcount := 6\<rparr>) = Done (env', sv', [Clear_temp])"
    using fixed by (simp add: SV_client_packet_def Let_def sample_server_def)
  then obtain env' sv' where "SV_PacketEvent plain_env sample_server (n_remoteAddress (fresh_chan NS_CLIENT)) old_packet =
      Done (env', sv', [Clear_temp])"
    using short find marker by (auto simp: SV_PacketEvent_def Let_def old_packet_def MSG_Init_def u16_id)
  from this packet_event_isolated [OF this] show ?thesis
    by (auto simp: sample_server_def)
qed

section \<open>The client's command ring\<close>

definition connection_inv :: "clientConnection_t \<Rightarrow> bool" where
  "connection_inv k \<longleftrightarrow> length (clc_reliableCommands k) = 64 \<and>
     (\<forall>s \<in> set (clc_reliableCommands k). length s = 1024) \<and>
     0 \<le> clc_reliableAcknowledge k \<and> clc_reliableAcknowledge k \<le> clc_reliableSequence k \<and>
     clc_reliableSequence k < 2147483647"

definition client_pending :: "clientConnection_t \<Rightarrow> string list" where
  "client_pending k = map (\<lambda>s. cstr_of (clc_reliableCommands k ! ring_slot s))
     [clc_reliableAcknowledge k + 1 .. clc_reliableSequence k]"

lemma ring_slot_add: "ring_slot (s + 64) = ring_slot s"
  by (simp add: ring_slot_def)

lemma AddReliableCommand_store:
  assumes "connection_inv k" "nulfree command" "clc_reliableSequence k - clc_reliableAcknowledge k \<le> 64"
  shows "\<exists>buffer. CL_AddReliableCommand k command = Done (k\<lparr>clc_reliableSequence := clc_reliableSequence k + 1,
      clc_reliableCommands := (clc_reliableCommands k)[ring_slot (clc_reliableSequence k + 1) := buffer]\<rparr>) \<and>
    cstr_of buffer = command_text command \<and> length buffer = 1024"
proof -
  have i: "i32 (clc_reliableSequence k + 1) = clc_reliableSequence k + 1"
    "i32 (clc_reliableSequence k - clc_reliableAcknowledge k) = clc_reliableSequence k - clc_reliableAcknowledge k"
    using assms by (simp_all add: connection_inv_def i32_id)
  have "length (clc_reliableCommands k ! ring_slot (clc_reliableSequence k + 1)) = 1024"
    using assms(1) ring_slot_less by (simp add: connection_inv_def)
  from WriteReliableCommand_text [OF this assms(2)] obtain buffer where
    "MSG_WriteReliableCommandToBuffer command (clc_reliableCommands k ! ring_slot (clc_reliableSequence k + 1)) 1024 =
       Some buffer" "length buffer = 1024" "cstr_of buffer = command_text command" by blast
  then show ?thesis using assms(3) by (auto simp: CL_AddReliableCommand_def Let_def i)
qed

text \<open>
  C27: with fewer than 64 commands outstanding, \<open>CL_AddReliableCommand\<close> appends the cleaned text
  to the commands the client still has to get acknowledged and changes none of them.
\<close>

theorem client_command_appended:
  assumes "connection_inv k" "nulfree command" "clc_reliableSequence k - clc_reliableAcknowledge k < 64"
  shows "\<exists>k'. CL_AddReliableCommand k command = Done k' \<and>
     client_pending k' = client_pending k @ [command_text command] \<and>
     clc_reliableAcknowledge k' = clc_reliableAcknowledge k"
proof -
  let ?a = "clc_reliableAcknowledge k" and ?s = "clc_reliableSequence k"
  obtain buffer where b: "CL_AddReliableCommand k command = Done (k\<lparr>clc_reliableSequence := ?s + 1,
      clc_reliableCommands := (clc_reliableCommands k)[ring_slot (?s + 1) := buffer]\<rparr>)"
    "cstr_of buffer = command_text command"
    using AddReliableCommand_store [OF assms(1,2)] assms(3) by auto
  have up: "[?a + 1 .. ?s + 1] = [?a + 1 .. ?s] @ [?s + 1]"
    using assms(1) upto_rec2 [of "?a + 1" "?s + 1"] by (simp add: connection_inv_def)
  have "(clc_reliableCommands k)[ring_slot (?s + 1) := buffer] ! ring_slot i = clc_reliableCommands k ! ring_slot i"
    if "?a + 1 \<le> i" "i \<le> ?s" for i
    using slot_other [of "?a + 1" i "?s + 1"] that assms(3) by auto
  moreover have "(clc_reliableCommands k)[ring_slot (?s + 1) := buffer] ! ring_slot (?s + 1) = buffer"
    by (rule slot_same) (use assms(1) in \<open>simp add: connection_inv_def\<close>)
  ultimately show ?thesis using b up by (simp add: client_pending_def)
qed

lemma client_command_appended_witness:
  "\<exists>k'. CL_AddReliableCommand sample_connection ''say hi%'' = Done k' \<and> client_pending k' = [''say hi.'']"
proof -
  have inv: "connection_inv sample_connection" "client_pending sample_connection = []"
    by (simp_all add: connection_inv_def client_pending_def sample_connection_def sample_text_def)
  have "command_text ''say hi%'' = ''say hi.''" by code_simp
  moreover have "clc_reliableSequence sample_connection - clc_reliableAcknowledge sample_connection < 64"
    by (simp add: sample_connection_def)
  ultimately show ?thesis using client_command_appended [OF inv(1), of "''say hi%''"] inv(2) by (auto simp: nulfree_def)
qed

text \<open>
  the overflow test of \<open>CL_AddReliableCommand\<close> comes one command late. With exactly 64
  outstanding commands it accepts another one, which is stored over the oldest command the
  server has not acknowledged: that one is lost and the new text goes out under both numbers.
\<close>

theorem client_command_overwrites:
  assumes "connection_inv k" "nulfree command" "clc_reliableSequence k - clc_reliableAcknowledge k = 64"
  shows "\<exists>k'. CL_AddReliableCommand k command = Done k' \<and> length (client_pending k') = 65 \<and>
     hd (client_pending k') = command_text command \<and> last (client_pending k') = command_text command"
proof -
  let ?a = "clc_reliableAcknowledge k" and ?s = "clc_reliableSequence k"
  obtain buffer where b: "CL_AddReliableCommand k command = Done (k\<lparr>clc_reliableSequence := ?s + 1,
      clc_reliableCommands := (clc_reliableCommands k)[ring_slot (?s + 1) := buffer]\<rparr>)"
    "cstr_of buffer = command_text command"
    using AddReliableCommand_store [OF assms(1,2)] assms(3) by auto
  have up: "[?a + 1 .. ?s + 1] = (?a + 1) # [?a + 1 + 1 .. ?s + 1]" "[?a + 1 .. ?s + 1] = [?a + 1 .. ?s] @ [?s + 1]"
    using assms(3) upto_rec2 [of "?a + 1" "?s + 1"] by (simp_all add: upto_rec1)
  have "?s + 1 = ?a + 1 + 64" using assms(3) by simp
  then have slot: "ring_slot (?s + 1) = ring_slot (?a + 1)" by (simp only: ring_slot_add)
  have top: "(clc_reliableCommands k)[ring_slot (?s + 1) := buffer] ! ring_slot (?s + 1) = buffer"
    by (rule slot_same) (use assms(1) in \<open>simp add: connection_inv_def\<close>)
  let ?f = "\<lambda>i. cstr_of ((clc_reliableCommands k)[ring_slot (?s + 1) := buffer] ! ring_slot i)"
  have "hd (map ?f [?a + 1 .. ?s + 1]) = command_text command" using top slot b(2) by (simp only: up(1) list.map list.sel)
  moreover have "last (map ?f [?a + 1 .. ?s + 1]) = command_text command" using top b(2) by (simp add: up(2))
  moreover have "length [?a + 1 .. ?s + 1] = 65" using assms(3) by simp
  ultimately show ?thesis using b(1) by (simp add: client_pending_def)
qed

lemma client_command_overwrites_witness:
  "\<exists>k'. CL_AddReliableCommand (sample_connection\<lparr>clc_reliableSequence := 64\<rparr>) ''say hi'' = Done k' \<and>
     length (client_pending k') = 65 \<and> hd (client_pending k') = ''say hi''"
proof -
  let ?k = "sample_connection\<lparr>clc_reliableSequence := 64\<rparr>"
  have inv: "connection_inv ?k" "clc_reliableSequence ?k - clc_reliableAcknowledge ?k = 64"
    by (simp_all add: connection_inv_def sample_connection_def sample_text_def)
  have "command_text ''say hi'' = ''say hi''" by code_simp
  then show ?thesis using client_command_overwrites [OF inv(1) _ inv(2), of "''say hi''"] by (auto simp: nulfree_def)
qed

section \<open>An acknowledgement out of nowhere\<close>

definition short_message :: "int \<Rightarrow> msg_t" where
  "short_message r = (MSG_Init ([0] @ le32 0 @ le32 r) 9)\<lparr>m_cursize := 9\<rparr>"

text \<open>
  C28: the server does not check that a client acknowledges a command it was sent. The backlog
  \<open>reliableSequence - reliableAcknowledge\<close> is computed modulo \<open>2 ^ 32\<close>, so an acknowledgement
  \<open>2 ^ 31\<close> below the newest command makes it negative and passes the test for a backlog below
  64. The next \<open>SV_UpdateServerCommandsToClient\<close> then has \<open>2 ^ 31\<close> commands to write.
\<close>

theorem acknowledge_unchecked:
  assumes "c_state c \<noteq> CS_ZOMBIE" "0 \<le> c_reliableSequence c" "c_reliableSequence c < 2147483648"
  shows "\<exists>c' out. SV_receive_message realTime c (short_message (c_reliableSequence c - 2147483648)) =
     Some (c', Some out) \<and> length (unacknowledged c') = 2147483648"
proof -
  let ?r = "c_reliableSequence c - 2147483648" and ?m = "short_message (c_reliableSequence c - 2147483648)"
  have st: "stream (MSG_BeginReading ?m) ([0] @ le32 0 @ le32 ?r)"
    by (rule stream_start) (simp_all add: short_message_def MSG_Init_def)
  have bm: "MSG_BeginReading ?m = ?m"
    by (simp add: MSG_BeginReading_def short_message_def MSG_Init_def)
  have st0: "stream ?m (0 # le32 0 @ le32 ?r)" using st bm by simp
  have r0: "MSG_ReadByte ?m = Some (0, skip 1 ?m)" using stream_ReadByte [OF st0] by simp
  have s1: "stream (skip 1 ?m) (le32 0 @ le32 ?r)" using stream_skip [of ?m "[0]"] st0 by simp
  have r1: "MSG_ReadLong (skip 1 ?m) = Some (0, skip 5 ?m)" using stream_ReadLong [OF s1] by (simp add: i32_id)
  have s2: "stream (skip 5 ?m) (le32 ?r @ [])" using stream_skip [OF s1] by simp
  have r2: "MSG_ReadLong (skip 5 ?m) = Some (?r, skip 9 ?m)" using stream_ReadLong [OF s2] assms(2,3) by (simp add: i32_id)
  have backlog: "i32 2147483648 = - 2147483648" by (simp add: i32_def)
  have len: "i32 (m_cursize ?m - (m_readcount ?m + 9)) = 0" by (simp add: short_message_def MSG_Init_def i32_id)
  let ?c = "c\<lparr>c_serverId := 0, c_messageAcknowledge := 0, c_reliableAcknowledge := ?r\<rparr>"
  have "SV_receive_message realTime c ?m =
      Some (?c\<lparr>c_lastPacketTime := realTime\<rparr>, Some ((skip 9 ?m)\<lparr>m_data := m_data ?m\<rparr>))"
    using assms(1) by (simp add: SV_receive_message_def Let_def r0 r1 r2 backlog SV_Netchan_Decode_def cipher_def in_place_def len)
  moreover have "length (unacknowledged (?c\<lparr>c_lastPacketTime := realTime\<rparr>)) = 2147483648"
    by (simp add: numbered_def)
  ultimately show ?thesis by blast
qed

lemma acknowledge_unchecked_witness:
  "\<exists>c' out. SV_receive_message 20 sample_client (short_message (- 2147483648)) = Some (c', Some out) \<and>
     length (unacknowledged c') = 2147483648"
  using acknowledge_unchecked [of sample_client 20] by (simp add: sample_client_def)

text \<open>
  On the client's side the oldest acknowledgement that passes, 64 below the newest command,
  selects the key text of the newest one: its own has been overwritten.
\<close>

lemma oldest_acknowledge_key:
  "CL_Netchan_Decode (k\<lparr>clc_reliableAcknowledge := clc_reliableSequence k - 64\<rparr>) =
   CL_Netchan_Decode (k\<lparr>clc_reliableAcknowledge := clc_reliableSequence k\<rparr>)"
  using ring_slot_add [of "clc_reliableSequence k - 64"] by (simp add: CL_Netchan_Decode_def fun_eq_iff)

end
