(* ===== verification/Info_Correct.thy ===== *)
theory Info_Correct
  imports Info
begin

text \<open>
  An info string that the code builds is the printed form of a list of pairs; lookup, removal
  and setting are the list's, up to the case of keys that lookup ignores and removal does not.
\<close>

section \<open>Keys up to case\<close>

definition upper :: "string \<Rightarrow> int list" where
  "upper s = map (\<lambda>c. fold_lower (schar c)) s"

definition same_key :: "string \<Rightarrow> string \<Rightarrow> bool" where
  "same_key a b \<longleftrightarrow> upper a = upper b"

lemma schar_0 [simp]: "schar c = 0 \<longleftrightarrow> c = NUL"
proof -
  have "(of_char c :: int) = 0 \<longleftrightarrow> c = NUL"
    using byte_of_eq_0_iff [of c] by (auto simp: byte_of_def)
  then show ?thesis using of_char_bounds [of c] by (auto simp: schar_def Let_def)
qed

lemma fold_lower_0 [simp]: "fold_lower x = 0 \<longleftrightarrow> x = 0"
  by (auto simp: fold_lower_def)

lemma stricmpn_loop_0:
  assumes "nulfree l" "nulfree r"
  shows "Q_stricmpn_loop n l r = 0 \<longleftrightarrow> upper (take n l) = upper (take n r)"
  using assms
proof (induction n arbitrary: l r)
  case 0
  then show ?case by (simp add: Q_stricmpn_loop.simps [of 0] upper_def)
next
  case (Suc n)
  show ?case
  proof (cases l; cases r)
    assume "l = []" "r = []"
    then show ?thesis by (simp add: Q_stricmpn_loop.simps [of "Suc n"] first_char_def upper_def)
  next
    fix b r' assume "l = []" "r = b # r'"
    then show ?thesis using Suc.prems
      by (simp add: Q_stricmpn_loop.simps [of "Suc n"] first_char_def upper_def Let_def)
        (simp add: fold_lower_def)
  next
    fix a l' assume "l = a # l'" "r = []"
    then show ?thesis using Suc.prems
      by (simp add: Q_stricmpn_loop.simps [of "Suc n"] first_char_def upper_def Let_def)
        (simp add: fold_lower_def)
  next
    fix a l' b r' assume lr: "l = a # l'" "r = b # r'"
    have IH: "Q_stricmpn_loop n l' r' = 0 \<longleftrightarrow> upper (take n l') = upper (take n r')"
      using Suc.IH Suc.prems lr by simp
    show ?thesis using Suc.prems lr IH
      by (simp add: Q_stricmpn_loop.simps [of "Suc n"] first_char_def upper_def Let_def)
  qed
qed

lemma stricmpn_same_key:
  assumes "nulfree l" "nulfree r" "length l \<le> 99999" "length r \<le> 99999"
  shows "Q_stricmpn l r 99999 = 0 \<longleftrightarrow> same_key l r"
  using stricmpn_loop_0 [OF assms(1,2), of 99999] assms(3,4) by (simp add: Q_stricmpn_def same_key_def u32_id)

section \<open>Pairs and their text\<close>

type_synonym pair = "string \<times> string"

definition show_info :: "pair list \<Rightarrow> string" where
  "show_info ps = concat (map (\<lambda>(k, v). backslash # k @ backslash # v) ps)"

definition pairs_ok :: "pair list \<Rightarrow> bool" where
  "pairs_ok ps \<longleftrightarrow> (\<forall>(k, v) \<in> set ps. backslash \<notin> set k \<and> backslash \<notin> set v \<and> nulfree k \<and> nulfree v)"

lemma show_info_simps [simp]:
  "show_info [] = []" "show_info ((k, v) # ps) = backslash # k @ backslash # v @ show_info ps"
  "show_info (ps @ qs) = show_info ps @ show_info qs"
  by (simp_all add: show_info_def)

lemma pairs_ok_simps [simp]:
  "pairs_ok []" "pairs_ok ((k, v) # ps) \<longleftrightarrow> backslash \<notin> set k \<and> backslash \<notin> set v \<and> nulfree k \<and> nulfree v \<and> pairs_ok ps"
  "pairs_ok (ps @ qs) \<longleftrightarrow> pairs_ok ps \<and> pairs_ok qs"
  by (auto simp: pairs_ok_def)

lemma token_cut [simp]: "backslash \<notin> set t \<Longrightarrow> token (t @ backslash # r) = t"
  "backslash \<notin> set t \<Longrightarrow> behind_token (t @ backslash # r) = backslash # r"
  by (induction t) (auto simp: token_def behind_token_def)

lemma token_last [simp]: "backslash \<notin> set t \<Longrightarrow> token t = t" "backslash \<notin> set t \<Longrightarrow> behind_token t = []"
  by (induction t) (auto simp: token_def behind_token_def)

lemma token_show [simp]:
  "backslash \<notin> set t \<Longrightarrow> token (t @ show_info ps) = t"
  "backslash \<notin> set t \<Longrightarrow> behind_token (t @ show_info ps) = show_info ps"
  by (cases ps; force)+

lemma skip_backslash_simps [simp]:
  "skip_backslash (backslash # s) = s" "skip_backslash [] = []"
  by (simp_all add: skip_backslash_def)

section \<open>Lookup\<close>

fun lookup :: "string \<Rightarrow> pair list \<Rightarrow> string option" where
  "lookup key [] = None"
| "lookup key ((k, v) # ps) = (if same_key k key then Some v else lookup key ps)"

lemma find_value_show:
  assumes "pairs_ok ((k, v) # ps)" "nulfree key" "length key \<le> 99999" "length (show_info ((k, v) # ps)) \<le> 99999"
  shows "find_value (k @ backslash # v @ show_info ps) key old =
    (case lookup key ((k, v) # ps) of Some x \<Rightarrow> (x, True) | None \<Rightarrow> (snd (last ((k, v) # ps)), False))"
  using assms
proof (induction ps arbitrary: k v old)
  case Nil
  then show ?case by (simp add: find_value.simps [of "k @ _"] stricmpn_same_key)
next
  case (Cons p ps)
  obtain k' v' where p: "p = (k', v')" by (cases p)
  have IH: "find_value (k' @ backslash # v' @ show_info ps) key v =
    (case lookup key ((k', v') # ps) of Some x \<Rightarrow> (x, True) | None \<Rightarrow> (snd (last ((k', v') # ps)), False))"
    by (rule Cons.IH) (use Cons.prems p in auto)
  have tv: "token (v @ show_info (p # ps)) = v" "behind_token (v @ show_info (p # ps)) = show_info (p # ps)"
    using Cons.prems by simp_all
  have "find_value (k @ backslash # v @ show_info (p # ps)) key old =
      (if same_key k key then (v, True) else find_value (k' @ backslash # v' @ show_info ps) key v)"
    using Cons.prems tv p by (simp add: find_value.simps [of "k @ _"] stricmpn_same_key)
  then show ?case using IH p by (simp split: option.splits)
qed

lemma ValueForKey_lookup:
  assumes "pairs_ok ps" "nulfree key" "length key \<le> 99999" "length (show_info ps) < 8192"
    and "length (infoValueBuffers st) = 2"
  shows "\<exists>st' p. Info_ValueForKey st (Some (show_info ps)) (Some key) = Done (st', p) \<and>
    length (infoValueBuffers st') = 2 \<and>
    pointed st' p = (case lookup key ps of Some v \<Rightarrow> v | None \<Rightarrow> [])"
proof (cases ps)
  case Nil
  then show ?thesis
    using assms(5) by (simp add: Info_ValueForKey_def find_value.simps [of "[]"] pointed_def Let_def behind_token_def)
next
  case (Cons p qs)
  obtain k v where p: "p = (k, v)" by (cases p)
  let ?n = "if infoValueBufferIndex st = 0 then 1 else 0 :: nat"
  have "find_value (skip_backslash (show_info ps)) key (infoValueBuffers st ! ?n) =
     (case lookup key ps of Some x \<Rightarrow> (x, True) | None \<Rightarrow> (snd (last ps), False))"
    using find_value_show [of k v qs key "infoValueBuffers st ! ?n"] assms Cons p by (simp split: option.splits)
  then show ?thesis
    using assms(4,5) by (auto simp: Info_ValueForKey_def pointed_def Let_def split: option.splits)
qed

section \<open>Removal\<close>

fun remove_pair :: "string \<Rightarrow> pair list \<Rightarrow> pair list" where
  "remove_pair key [] = []"
| "remove_pair key ((k, v) # ps) = (if key = k then ps else (k, v) # remove_pair key ps)"

lemma pairs_ok_remove: "pairs_ok ps \<Longrightarrow> pairs_ok (remove_pair key ps)"
  by (induction ps rule: remove_pair.induct) auto

lemma show_info_empty [simp]: "show_info ps = [] \<longleftrightarrow> ps = []"
  by (cases ps) auto

lemma remove_key_show:
  assumes "pairs_ok ps"
  shows "remove_key key (show_info ps) = show_info (remove_pair key ps)"
  using assms
proof (induction ps)
  case Nil
  then show ?case by (simp add: remove_key.simps [of key "[]"] behind_token_def)
next
  case (Cons p ps)
  obtain k v where p: "p = (k, v)" by (cases p)
  let ?t = "show_info (p # ps)"
  have sk: "skip_backslash ?t = k @ backslash # v @ show_info ps" by (simp add: p)
  have cut: "take (length ?t - length (show_info ps)) ?t = backslash # k @ backslash # v" by (simp add: p)
  have tk: "token (k @ backslash # v @ show_info ps) = k"
    "behind_token (k @ backslash # v @ show_info ps) = backslash # v @ show_info ps"
    "behind_token (v @ show_info ps) = show_info ps" using Cons.prems p by simp_all
  have IH: "remove_key key (show_info ps) = show_info (remove_pair key ps)" using Cons p by simp
  show ?case
    unfolding remove_key.simps [of key ?t] sk Let_def tk list.case cut IH
    by (auto simp: p)
qed

text \<open>Removing a key never lengthens any text, whether it is a list of pairs or not.\<close>

lemma length_remove_key: "length (remove_key key s) \<le> length s"
proof (induction key s rule: remove_key.induct)
  case (1 key s)
  show ?case
  proof (cases "behind_token (skip_backslash s)")
    case Nil
    then show ?thesis by (simp add: remove_key.simps [of key s])
  next
    case (Cons a rest)
    let ?n = "behind_token rest"
    have le: "length ?n \<le> length s"
      using Cons length_behind_token [of "skip_backslash s"] length_skip_backslash [of s] length_behind_token [of rest]
      by simp
    show ?thesis
    proof (cases "key = token (skip_backslash s) \<or> ?n = []")
      case True
      then show ?thesis using Cons le by (auto simp: remove_key.simps [of key s] Let_def)
    next
      case False
      have IH: "length (remove_key key ?n) \<le> length ?n"
        by (rule "1.IH" [OF refl Cons refl]) (use False in auto)
      then show ?thesis using Cons False le by (simp add: remove_key.simps [of key s] Let_def)
    qed
  qed
qed

section \<open>Setting\<close>

lemma length_cleaned: "length (cleaned_value limit v) \<le> limit - 1"
  unfolding cleaned_value_def by (rule order_trans [OF length_filter_le]) simp

lemma set_value_length:
  assumes "set_value limit (remove_sized limit msg) info key v = Done info'" "length info < limit"
  shows "length info' < limit"
proof -
  have "length (remove_key key info) < limit"
    using length_remove_key [of key info] assms(2) by simp
  then show ?thesis
    using assms by (auto simp: set_value_def remove_sized_def Let_def split: if_splits prod.splits)
qed

lemma set_value_total:
  "\<exists>info'. set_value limit (remove_sized limit msg) info key v = Done info'"
  by (auto simp: set_value_def remove_sized_def Let_def split: prod.splits)

lemma set_value_pairs:
  fixes v :: string
  assumes "pairs_ok ps" "length (show_info ps) < limit" "set key \<inter> info_special = {}"
  defines "ps1 \<equiv> remove_pair key ps" and "c \<equiv> cleaned_value limit v"
  shows "c = [] \<Longrightarrow> set_value limit (remove_sized limit msg) (show_info ps) key v = Done (show_info ps1)"
    and "c \<noteq> [] \<Longrightarrow> length (show_info (ps1 @ [(key, c)])) < limit \<Longrightarrow>
      set_value limit (remove_sized limit msg) (show_info ps) key v = Done (show_info (ps1 @ [(key, c)]))"
    and "length (show_info (ps1 @ [(key, c)])) > limit \<Longrightarrow>
      set_value limit (remove_sized limit msg) (show_info ps) key v = Done (show_info ps1)"
proof -
  have k: "backslash \<notin> set key" "\<not> (\<exists>x \<in> set key. x \<in> info_special)"
    using assms(3) by (auto simp: info_special_def)
  have rm: "remove_sized limit msg (show_info ps) key = Done (show_info ps1)"
    using k assms(1,2) by (simp add: remove_sized_def remove_key_show ps1_def)
  have eq: "set_value limit (remove_sized limit msg) (show_info ps) key v =
      (if c = [] then Done (show_info ps1)
       else let (pair, result) = format_pair limit key c in
          if result \<le> 0 then Done (show_info ps1)
          else if length (show_info ps1) + length pair \<ge> limit then Done (show_info ps1)
          else Done (show_info ps1 @ pair))"
    using assms(2) k(2) by (simp add: set_value_def rm c_def)
  show "c = [] \<Longrightarrow> set_value limit (remove_sized limit msg) (show_info ps) key v = Done (show_info ps1)"
    by (simp add: eq)
  show "c \<noteq> [] \<Longrightarrow> length (show_info (ps1 @ [(key, c)])) < limit \<Longrightarrow>
      set_value limit (remove_sized limit msg) (show_info ps) key v = Done (show_info (ps1 @ [(key, c)]))"
    by (simp add: eq format_pair_def Let_def)
  show "length (show_info (ps1 @ [(key, c)])) > limit \<Longrightarrow>
      set_value limit (remove_sized limit msg) (show_info ps) key v = Done (show_info ps1)"
    by (auto simp: eq format_pair_def Let_def)
qed

lemma lookup_append: "lookup key (ps @ qs) = (case lookup key ps of None \<Rightarrow> lookup key qs | Some v \<Rightarrow> Some v)"
  by (induction ps rule: lookup.induct) auto

lemma lookup_remove_other:
  assumes "\<not> same_key k key"
  shows "lookup k (remove_pair key ps) = lookup k ps"
  using assms by (induction ps rule: remove_pair.induct) (auto simp: same_key_def)

lemma cleaned_value_ok: "nulfree v \<Longrightarrow> backslash \<notin> set (cleaned_value limit v) \<and> nulfree (cleaned_value limit v)"
  by (auto simp: cleaned_value_def info_special_def nulfree_def dest: in_set_takeD)

lemma show_pair_length: "length (show_info (ps @ [(key, c)])) = length (show_info ps) + length key + length c + 2"
  by simp

section \<open>The properties\<close>

definition info_ready :: "pair list \<Rightarrow> string \<Rightarrow> bool" where
  "info_ready ps key \<longleftrightarrow> pairs_ok ps \<and> length (show_info ps) < 1024 \<and> set key \<inter> info_special = {} \<and> nulfree key"

lemma set_then_get:
  assumes "info_ready ps key" "nulfree v" "cleaned_value 1024 v \<noteq> []"
    and "length (show_info (remove_pair key ps)) + length key + length (cleaned_value 1024 v) + 2 < 1024"
    and "length (infoValueBuffers st) = 2" "nulfree k" "length k \<le> 99999"
  shows "\<exists>info' st' p. Info_SetValueForKey (show_info ps) key v = Done info' \<and>
     Info_ValueForKey st (Some info') (Some k) = Done (st', p) \<and>
     pointed st' p = (case lookup k (remove_pair key ps @ [(key, cleaned_value 1024 v)]) of Some x \<Rightarrow> x | None \<Rightarrow> [])"
proof -
  let ?c = "cleaned_value 1024 v" and ?r = "remove_pair key ps"
  have i: "pairs_ok ps" "length (show_info ps) < 1024" "set key \<inter> info_special = {}" "nulfree key"
    using assms(1) by (simp_all add: info_ready_def)
  have len: "length (show_info (?r @ [(key, ?c)])) < 1024" using assms(4) by (simp only: show_pair_length)
  have "Info_SetValueForKey (show_info ps) key v = Done (show_info (?r @ [(key, ?c)]))"
    unfolding Info_SetValueForKey_def Info_RemoveKey_def
    by (rule set_value_pairs(2) [OF i(1-3) assms(3) len])
  moreover have ok: "pairs_ok (?r @ [(key, ?c)])"
    using i cleaned_value_ok [OF assms(2)] pairs_ok_remove [OF i(1)] by (auto simp: info_special_def)
  moreover have "length (show_info (?r @ [(key, ?c)])) < 8192" using len by simp
  ultimately show ?thesis using ValueForKey_lookup [OF ok assms(6,7) _ assms(5)] by blast
qed

text \<open>
  C29: setting a key that fits removes the first pair with exactly that key and appends the key
  with the cleaned value; then the lookup of every other key, up to case, is what it was, and
  the lookup of this one is the new value unless a pair whose key differs only in case, or a
  second pair with the key, stood in the string.
\<close>

theorem info_set_get:
  assumes "info_ready ps key" "nulfree v" "cleaned_value 1024 v \<noteq> []"
    and "length (show_info (remove_pair key ps)) + length key + length (cleaned_value 1024 v) + 2 < 1024"
    and "length (infoValueBuffers st) = 2" "nulfree k" "length k \<le> 99999"
  shows "\<exists>info' st' p. Info_SetValueForKey (show_info ps) key v = Done info' \<and>
     Info_ValueForKey st (Some info') (Some k) = Done (st', p) \<and>
     pointed st' p = (case lookup k (if same_key k key then remove_pair key ps else ps) of
        Some old \<Rightarrow> old
      | None \<Rightarrow> if same_key k key then cleaned_value 1024 v else [])"
proof -
  have "same_key key k \<longleftrightarrow> same_key k key" by (auto simp: same_key_def)
  then show ?thesis
    using set_then_get [OF assms] lookup_remove_other [of k key ps]
    by (auto simp: lookup_append split: option.splits)
qed

definition sample_info :: info_state where
  "sample_info = \<lparr>infoValueBuffers = [[], []], infoValueBufferIndex = 0\<rparr>"

lemma info_set_get_witness:
  "\<exists>info' st' p. Info_SetValueForKey (show_info [(''name'', ''a''), (''rate'', ''1'')]) ''name'' ''b;c'' = Done info' \<and>
     Info_ValueForKey sample_info (Some info') (Some ''NAME'') = Done (st', p) \<and> pointed st' p = ''bc''"
proof -
  let ?ps = "[(''name'', ''a''), (''rate'', ''1'')]"
  have ready: "info_ready ?ps ''name''" by (simp add: info_ready_def info_special_def)
  have c: "cleaned_value 1024 ''b;c'' = ''bc''" by code_simp
  have r: "remove_pair ''name'' ?ps = [(''rate'', ''1'')]" by simp
  have k: "same_key ''NAME'' ''name''" "lookup ''NAME'' [(''rate'', ''1'')] = None" by code_simp+
  from info_set_get [OF ready, of "''b;c''" sample_info "''NAME''"] show ?thesis
    unfolding c r using k by (simp add: sample_info_def)
qed

text \<open>
  lookup ignores case but removal does not. When the string already holds the key in another
  case, a successful \<open>Info_SetValueForKey\<close> has no effect on what \<open>Info_ValueForKey\<close> returns:
  the new pair goes behind the old one.
\<close>

theorem info_set_shadowed:
  assumes "info_ready ps key" "nulfree v" "cleaned_value 1024 v \<noteq> []"
    and "length (show_info (remove_pair key ps)) + length key + length (cleaned_value 1024 v) + 2 < 1024"
    and "length (infoValueBuffers st) = 2" "length key \<le> 99999" "lookup key (remove_pair key ps) = Some old"
  shows "\<exists>info' st' p. Info_SetValueForKey (show_info ps) key v = Done info' \<and>
     Info_ValueForKey st (Some info') (Some key) = Done (st', p) \<and> pointed st' p = old"
  using set_then_get [OF assms(1-5) _ assms(6)] assms(1,7) by (simp add: lookup_append info_ready_def)

lemma info_set_shadowed_witness:
  "\<exists>info' st' p. Info_SetValueForKey (show_info [(''Name'', ''a'')]) ''name'' ''b'' = Done info' \<and>
     Info_ValueForKey sample_info (Some info') (Some ''name'') = Done (st', p) \<and> pointed st' p = ''a''"
proof -
  have ready: "info_ready [(''Name'', ''a'')] ''name''" by (simp add: info_ready_def info_special_def)
  have c: "cleaned_value 1024 ''b'' = ''b''" by code_simp
  have r: "remove_pair ''name'' [(''Name'', ''a'')] = [(''Name'', ''a'')]" by simp
  have k: "lookup ''name'' [(''Name'', ''a'')] = Some ''a''" by code_simp
  from info_set_shadowed [OF ready, of "''b''" sample_info "''a''"] show ?thesis
    unfolding c r using k by (simp add: sample_info_def)
qed

text \<open>
  whatever the strings, setting a key returns (no fatal error) and never makes an info string
  overflow its array: below the limit before, below it after, in both sizes.
\<close>

theorem info_set_bounded:
  "(\<exists>info'. Info_SetValueForKey info key v = Done info' \<and> (length info < 1024 \<longrightarrow> length info' < 1024)) \<and>
   (\<exists>info'. Info_SetValueForKey_Big info key v = Done info' \<and> (length info < 8192 \<longrightarrow> length info' < 8192))"
  unfolding Info_SetValueForKey_def Info_SetValueForKey_Big_def Info_RemoveKey_def Info_RemoveKey_Big_def
  using set_value_total set_value_length by metis

lemma info_set_bounded_witness:
  "\<exists>info'. Info_SetValueForKey (replicate 1000 CHR ''x'') ''key'' ''v'' = Done info' \<and> length info' < 1024"
  using info_set_bounded [of "replicate 1000 CHR ''x''" "''key''" "''v''"] by simp

text \<open>
  \<open>Com_sprintf\<close> returns the size itself, not -1, for a text that fills the array exactly, and
  has cut its last character by then. So a pair of exactly 1024 characters set into an empty
  string is not refused as too long: it is stored without the last character of its value.
\<close>

theorem info_set_truncates:
  assumes "set key \<inter> info_special = {}" "length key + length (cleaned_value 1024 v) = 1022"
    and "cleaned_value 1024 v \<noteq> []"
  shows "Info_SetValueForKey [] key v = Done ([backslash] @ key @ [backslash] @ butlast (cleaned_value 1024 v))"
proof -
  have k: "backslash \<notin> set key" "\<not> (\<exists>x \<in> set key. x \<in> info_special)"
    using assms(1) by (auto simp: info_special_def)
  have rm: "remove_key key [] = []" by (simp add: remove_key.simps [of key "[]"] behind_token_def)
  let ?c = "cleaned_value 1024 v"
  let ?text = "[backslash] @ key @ [backslash] @ ?c"
  have "take 1023 ?text = butlast ?text"
    unfolding butlast_conv_take by (rule arg_cong [of _ _ "\<lambda>n. take n _"]) (use assms(2) in simp)
  then have t: "take 1023 ?text = [backslash] @ key @ [backslash] @ butlast ?c"
    using assms(3) by (simp add: butlast_append)
  show ?thesis
    unfolding Info_SetValueForKey_def Info_RemoveKey_def set_value_def remove_sized_def
    using k assms(2,3) t by (simp add: rm format_pair_def Let_def)
qed

lemma info_set_truncates_witness:
  "Info_SetValueForKey [] ''k'' (replicate 1021 CHR ''x'') =
     Done ([backslash] @ ''k'' @ [backslash] @ replicate 1020 CHR ''x'')"
proof -
  have c: "cleaned_value 1024 (replicate 1021 CHR ''x'') = replicate 1021 CHR ''x''"
    by (simp add: cleaned_value_def info_special_def)
  have "butlast (replicate 1021 CHR ''x'') = replicate 1020 CHR ''x''" by (simp add: butlast_conv_take)
  then show ?thesis
    using info_set_truncates [of "''k''" "replicate 1021 CHR ''x''"] unfolding c by (simp add: info_special_def)
qed

text \<open>
  the two static buffers make the result of a lookup survive the next lookup: a value read
  through the earlier pointer afterwards is still the earlier value.
\<close>

theorem info_value_survives:
  assumes "Info_ValueForKey st info key = Done (st1, p1)" "Info_ValueForKey st1 info2 key2 = Done (st2, p2)"
    and "length (infoValueBuffers st) = 2" "infoValueBufferIndex st < 2"
  shows "pointed st2 p1 = pointed st1 p1"
proof -
  have one: "(st1 = st \<and> p1 = Literal_empty) \<or> (infoValueBufferIndex st1 = (if infoValueBufferIndex st = 0 then 1 else 0) \<and>
      (p1 = Literal_empty \<or> p1 = Value_buffer (infoValueBufferIndex st1)) \<and> length (infoValueBuffers st1) = 2)"
    using assms(1,3) by (auto simp: Info_ValueForKey_def Let_def split: option.splits if_splits prod.splits)
  have two: "st2 = st1 \<or> (\<exists>x. infoValueBuffers st2 =
      (infoValueBuffers st1)[(if infoValueBufferIndex st1 = 0 then 1 else 0) := x])"
    using assms(2) by (auto simp: Info_ValueForKey_def Let_def split: option.splits if_splits prod.splits)
  show ?thesis using one two assms(4) by (auto simp: pointed_def split: if_splits)
qed

lemma info_value_survives_witness:
  "\<exists>st1 p1 st2 p2. Info_ValueForKey sample_info (Some (show_info [(''a'', ''1'')])) (Some ''a'') = Done (st1, p1) \<and>
     Info_ValueForKey st1 (Some (show_info [(''b'', ''2'')])) (Some ''b'') = Done (st2, p2) \<and> pointed st2 p1 = ''1''"
proof -
  obtain st1 p1 where 1: "Info_ValueForKey sample_info (Some (show_info [(''a'', ''1'')])) (Some ''a'') = Done (st1, p1)"
    "length (infoValueBuffers st1) = 2" "pointed st1 p1 = ''1''"
    using ValueForKey_lookup [of "[(''a'', ''1'')]" "''a''" sample_info]
    by (auto simp: sample_info_def same_key_def)
  obtain st2 p2 where 2: "Info_ValueForKey st1 (Some (show_info [(''b'', ''2'')])) (Some ''b'') = Done (st2, p2)"
    using ValueForKey_lookup [of "[(''b'', ''2'')]" "''b''" st1] 1(2) by auto
  have "pointed st2 p1 = pointed st1 p1"
    by (rule info_value_survives [OF 1(1) 2]) (simp_all add: sample_info_def)
  then show ?thesis using 1 2 by auto
qed

text \<open>\<open>Info_NextPair\<close> walks the pairs, \<open>Info_Validate\<close> is kept by setting a valid key.\<close>

lemma NextPair_show:
  "pairs_ok ((k, v) # ps) \<Longrightarrow> Info_NextPair (show_info ((k, v) # ps)) = (show_info ps, k, v)"
  by (simp add: Info_NextPair_def Let_def)

end
