(* ===== verification/Oob.thy ===== *)
theory Oob
  imports Huffman Loopback
begin

text \<open>
  The connectionless packets of \<open>src/qcommon/net_oob.c\<close>: four marker bytes, then a text, a
  message compressed behind its twelfth byte, or raw data. Each sender builds the packet in an
  array on its stack, whose previous content is the argument \<open>packet\<close>, and hands it to
  \<open>NET_SendPacket\<close>. The profile counters are left out, and so is the formatting of
  \<open>NET_OutOfBandPrint\<close>: its argument is the formatted text.
\<close>

type_synonym net_out = "(netsrc_t \<Rightarrow> loopback_t) \<times> (8 word list \<times> netadr_t) list"

abbreviation NET_OOB_MARKER_BYTES :: int where "NET_OOB_MARKER_BYTES \<equiv> 4"
abbreviation NET_OOB_COMPRESS_SKIP_BYTES :: int where "NET_OOB_COMPRESS_SKIP_BYTES \<equiv> 12"
abbreviation NET_OOB_PRINT_BUFFER_SIZE :: int where "NET_OOB_PRINT_BUFFER_SIZE \<equiv> 32768"
abbreviation NET_OOB_DATA_PAYLOAD_CAPACITY :: int where "NET_OOB_DATA_PAYLOAD_CAPACITY \<equiv> 65532"

text \<open>The marker and the payload behind it.\<close>

definition oob_packet :: "8 word list \<Rightarrow> 8 word list \<Rightarrow> 8 word list option" where
  "oob_packet packet payload = do {
     marked \<leftarrow> copy_in packet 0 (replicate 4 255);
     copy_in marked NET_OOB_MARKER_BYTES payload }"

definition NET_OutOfBandPrint ::
    "8 word list \<Rightarrow> net_out \<Rightarrow> netsrc_t \<Rightarrow> netadr_t \<Rightarrow> string \<Rightarrow> net_out option" where
  "NET_OutOfBandPrint packet net source address text =
     (if int (length text) \<ge> NET_OOB_PRINT_BUFFER_SIZE - NET_OOB_MARKER_BYTES then Some net
      else do {
        p \<leftarrow> oob_packet packet (map byte_of text @ [0]);
        NET_SendPacket (fst net) (snd net) source (int (length text) + NET_OOB_MARKER_BYTES) p address })"

definition NET_OutOfBandData ::
    "8 word list \<Rightarrow> 8 word list \<Rightarrow> net_out \<Rightarrow> netsrc_t \<Rightarrow> netadr_t \<Rightarrow> 8 word list \<Rightarrow> int \<Rightarrow> net_out option" where
  "NET_OutOfBandData packet scratch net source address data len =
     (if len < 0 \<or> len > NET_OOB_DATA_PAYLOAD_CAPACITY then Some net
      else do {
        payload \<leftarrow> copy_out data 0 len;
        p \<leftarrow> oob_packet packet payload;
        message \<leftarrow> Huff_Compress scratch
          \<lparr>m_overflowed = False, m_data = p, m_maxsize = 0, m_cursize = len + NET_OOB_MARKER_BYTES,
           m_readcount = 0, m_bit = 0\<rparr> NET_OOB_COMPRESS_SKIP_BYTES;
        NET_SendPacket (fst net) (snd net) source (m_cursize message) (m_data message) address })"

definition NET_OutOfBandPbPacket ::
    "8 word list \<Rightarrow> net_out \<Rightarrow> netsrc_t \<Rightarrow> netadr_t \<Rightarrow> 8 word list \<Rightarrow> int \<Rightarrow> net_out option" where
  "NET_OutOfBandPbPacket packet net source address data len =
     (if len < 0 \<or> len > NET_OOB_DATA_PAYLOAD_CAPACITY then Some net
      else do {
        payload \<leftarrow> copy_out data 0 len;
        p \<leftarrow> oob_packet packet payload;
        NET_SendPacket (fst net) (snd net) source (len + NET_OOB_MARKER_BYTES) p address })"

text \<open>
  The first steps of \<open>SV_ConnectionlessPacket\<close>: a packet that starts with \<open>connect\<close> is expanded
  in place, or dropped when that fails. The result is the message to read the command from.
  PunkBuster packets leave for a library before this point and are not considered.
\<close>

definition starts_with_connect :: "msg_t \<Rightarrow> bool option" where
  "starts_with_connect message =
     (if m_cursize message - 4 < 7 then Some False
      else map_option (\<lambda>bs. bs = map byte_of ''connect'') (copy_out (m_data message) 4 7))"

definition SV_expand_connect :: "msg_t \<Rightarrow> msg_t option option" where
  "SV_expand_connect message = (
     let m1 = message\<lparr>m_readcount := (if m_cursize message \<ge> 4 then 4 else 0), m_bit := 0\<rparr> in do {
       connect \<leftarrow> starts_with_connect m1;
       if connect then do {
         (ok, m2) \<leftarrow> Huff_Decompress m1 NET_OOB_COMPRESS_SKIP_BYTES;
         Some (if ok then Some m2 else None) }
       else Some (Some m1) })"

end
