(* ===== verification/Huffman_Tree.thy ===== *)
theory Huffman_Tree
  imports Huffman
begin

text \<open>
  The links of the adaptive tree, in every state the coder of \<open>Huffman\<close> reaches: a node with a
  parent is one of the parent's two children, the node without a parent is the root, and
  \<open>loc\<close> leads to a node that carries the symbol (\<open>tree_ok\<close>). The list and its leader slots
  only decide which nodes are swapped, so it is enough that they name nodes in use
  (\<open>in_pool\<close>). The rules \<open>post_rules\<close> compute what holds of an operation's result.
\<close>

lemma bind_eq_SomeE:
  assumes "m \<bind> f = Some y"
  obtains x where "m = Some x" "f x = Some y"
  using assms by (auto simp: bind_eq_Some_conv)

section \<open>Results of fallible operations\<close>

definition post :: "'a option \<Rightarrow> ('a \<Rightarrow> bool) \<Rightarrow> bool" where
  "post m P \<longleftrightarrow> (\<forall>x. m = Some x \<longrightarrow> P x)"

named_theorems post_rules \<open>what holds of the result of an operation, if it has one\<close>

lemma postD: "post m P \<Longrightarrow> m = Some x \<Longrightarrow> P x"
  by (simp add: post_def)

lemma post_mono: "post m P \<Longrightarrow> (\<And>x. P x \<Longrightarrow> Q x) \<Longrightarrow> post m Q"
  by (simp add: post_def)

lemma post_Some [post_rules]: "P x \<Longrightarrow> post (Some x) P"
  by (simp add: post_def)

lemma post_None [post_rules]: "post None P"
  by (simp add: post_def)

lemma post_bind [post_rules]: "post m (\<lambda>x. post (f x) P) \<Longrightarrow> post (m \<bind> f) P"
  by (cases m) (simp_all add: post_def)

lemma post_if [post_rules]: "(b \<Longrightarrow> post m P) \<Longrightarrow> (\<not> b \<Longrightarrow> post m' P) \<Longrightarrow> post (if b then m else m') P"
  by simp

lemma post_pair [post_rules]: "(\<And>x y. p = (x, y) \<Longrightarrow> post (f x y) P) \<Longrightarrow> post (case p of (x, y) \<Rightarrow> f x y) P"
  by (cases p) simp

section \<open>Pointers stay among the nodes in use\<close>

definition below :: "nat \<Rightarrow> nat option \<Rightarrow> bool" where
  "below b p \<longleftrightarrow> (\<forall>n. p = Some n \<longrightarrow> n < b)"

definition node_below :: "nat \<Rightarrow> node_t \<Rightarrow> bool" where
  "node_below b a \<longleftrightarrow> below b (nd_left a) \<and> below b (nd_right a) \<and> below b (nd_parent a) \<and>
     below b (nd_next a) \<and> below b (nd_prev a)"

definition in_pool :: "nat \<Rightarrow> huff_t \<Rightarrow> bool" where
  "in_pool b st \<longleftrightarrow> (\<forall>a \<in> set (hf_nodeList st). node_below b a) \<and>
     (\<forall>n. Slot_node n \<in> set (hf_nodePtrs st) \<longrightarrow> n < b) \<and>
     below b (hf_tree st) \<and> below b (hf_lhead st) \<and> (\<forall>p \<in> set (hf_loc st). below b p)"

lemma below_simps [simp]: "below b None" "below b (Some n) \<longleftrightarrow> n < b"
  by (simp_all add: below_def)

lemma below_mono: "below b p \<Longrightarrow> b \<le> c \<Longrightarrow> below c p"
  by (auto simp: below_def)

lemma in_pool_mono: "in_pool b st \<Longrightarrow> b \<le> c \<Longrightarrow> in_pool c st"
  unfolding in_pool_def node_below_def by (meson below_mono order_less_le_trans)

text \<open>The state without what the list, its leader slots and the weights contribute.\<close>

definition bare_node :: "node_t \<Rightarrow> node_t" where
  "bare_node a = a\<lparr>nd_next := None, nd_prev := None, nd_head := None, nd_weight := 0\<rparr>"

definition bare :: "huff_t \<Rightarrow> huff_t" where
  "bare st = st\<lparr>hf_blocPtrs := 0, hf_ltail := None, hf_freelist := None,
     hf_nodeList := map bare_node (hf_nodeList st), hf_nodePtrs := []\<rparr>"

definition good :: "nat \<Rightarrow> huff_t \<Rightarrow> huff_t \<Rightarrow> bool" where
  "good b s st \<longleftrightarrow> in_pool b st \<and> bare st = s"

lemma set_node_eq_Some:
  "set_node st p f = Some st' \<longleftrightarrow> (\<exists>n. p = Some n \<and> n < length (hf_nodeList st) \<and>
     st' = st\<lparr>hf_nodeList := (hf_nodeList st)[n := f (hf_nodeList st ! n)]\<rparr>)"
  by (auto simp: set_node_def peek_def poke_def split: option.splits)

lemma set_slot_eq_Some:
  "set_slot st h v = Some st' \<longleftrightarrow> (\<exists>i. h = Some i \<and> i < length (hf_nodePtrs st) \<and>
     st' = st\<lparr>hf_nodePtrs := (hf_nodePtrs st)[i := v]\<rparr>)"
  by (auto simp: set_slot_def poke_def split: option.splits)

lemma deref_eq_Some:
  "deref st p = Some a \<longleftrightarrow> (\<exists>n. p = Some n \<and> n < length (hf_nodeList st) \<and> a = hf_nodeList st ! n)"
  by (auto simp: deref_def peek_def split: option.splits)

lemma get_slot_eq_Some:
  "get_slot st h = Some v \<longleftrightarrow> (\<exists>i. h = Some i \<and> i < length (hf_nodePtrs st) \<and> v = hf_nodePtrs st ! i)"
  by (auto simp: get_slot_def peek_def split: option.splits)

lemma bare_simps [simp]:
  "hf_blocNode (bare st) = hf_blocNode st" "hf_tree (bare st) = hf_tree st" "hf_lhead (bare st) = hf_lhead st"
  "hf_loc (bare st) = hf_loc st" "hf_nodeList (bare st) = map bare_node (hf_nodeList st)"
  by (simp_all add: bare_def)

lemma bare_node_simps [simp]:
  "nd_left (bare_node a) = nd_left a" "nd_right (bare_node a) = nd_right a"
  "nd_parent (bare_node a) = nd_parent a" "nd_symbol (bare_node a) = nd_symbol a"
  by (simp_all add: bare_node_def)

lemma post_deref [post_rules]:
  assumes "good b s st" "\<And>a. node_below b a \<Longrightarrow> P a"
  shows "post (deref st p) P"
  using assms by (auto simp: post_def deref_eq_Some good_def in_pool_def)

lemma post_set_node_bare:
  assumes "good b s st" "\<And>a. node_below b a \<Longrightarrow> node_below b (f a)"
    "\<And>n st'. p = Some n \<Longrightarrow> n < length (hf_nodeList s) \<Longrightarrow>
       good b (s\<lparr>hf_nodeList := (hf_nodeList s)[n := bare_node (f (hf_nodeList st ! n))]\<rparr>) st' \<Longrightarrow> P st'"
  shows "post (set_node st p f) P"
proof -
  have "P st'" if upd: "set_node st p f = Some st'" for st'
  proof -
    obtain n where n: "p = Some n" "n < length (hf_nodeList st)"
      and st': "st' = st\<lparr>hf_nodeList := (hf_nodeList st)[n := f (hf_nodeList st ! n)]\<rparr>"
      using set_node_eq_Some [THEN iffD1, OF upd] by blast
    have "in_pool b st'"
      using assms(1,2) n unfolding good_def in_pool_def st'
      by (auto dest!: set_update_subset_insert [THEN subsetD])
    moreover have "bare st' = s\<lparr>hf_nodeList := (hf_nodeList s)[n := bare_node (f (hf_nodeList st ! n))]\<rparr>"
      using assms(1) by (auto simp: good_def st' bare_def map_update)
    ultimately show ?thesis
      using assms(1) n by (intro assms(3) [OF n(1)]) (auto simp: good_def)
  qed
  then show ?thesis
    by (simp add: post_def)
qed

lemma post_set_node [post_rules]:
  assumes "good b s st" "\<And>a. node_below b a \<Longrightarrow> node_below b (f a)" "\<And>a. bare_node (f a) = bare_node a"
    "\<And>st'. good b s st' \<Longrightarrow> P st'"
  shows "post (set_node st p f) P"
proof (rule post_set_node_bare [OF assms(1,2)])
  fix n st'
  assume n: "n < length (hf_nodeList s)"
    and *: "good b (s\<lparr>hf_nodeList := (hf_nodeList s)[n := bare_node (f (hf_nodeList st ! n))]\<rparr>) st'"
  have "s = bare st"
    using assms(1) by (simp add: good_def)
  then have "(hf_nodeList s)[n := bare_node (f (hf_nodeList st ! n))] = hf_nodeList s"
    using n by (auto simp: assms(3) list_update_same_conv)
  then show "P st'"
    using * by (intro assms(4)) simp
qed

lemma post_set_slot [post_rules]:
  assumes "good b s st" "\<And>n. v = Slot_node n \<Longrightarrow> n < b" "\<And>st'. good b s st' \<Longrightarrow> P st'"
  shows "post (set_slot st h v) P"
proof -
  have "P st'" if upd: "set_slot st h v = Some st'" for st'
  proof -
    obtain i where st': "st' = st\<lparr>hf_nodePtrs := (hf_nodePtrs st)[i := v]\<rparr>"
      using set_slot_eq_Some [THEN iffD1, OF upd] by blast
    have "good b s st'"
      using assms(1,2) unfolding good_def in_pool_def st'
      by (auto simp: bare_def dest!: set_update_subset_insert [THEN subsetD])
    then show ?thesis
      by (rule assms(3))
  qed
  then show ?thesis
    by (simp add: post_def)
qed

lemma post_get_slot [post_rules]:
  assumes "good b s st" "\<And>v. (\<forall>n. v = Slot_node n \<longrightarrow> n < b) \<Longrightarrow> P v"
  shows "post (get_slot st h) P"
  using assms by (auto simp: post_def get_slot_eq_Some good_def in_pool_def) (metis nth_mem)

lemma post_as_node [post_rules]:
  assumes "\<forall>n. v = Slot_node n \<longrightarrow> n < b" "\<And>p. below b p \<Longrightarrow> P p"
  shows "post (as_node v) P"
  using assms by (cases v) (auto simp: post_def)

lemma node_slot_eq [simp]: "node_slot p = Slot_node n \<longleftrightarrow> p = Some n"
  by (cases p) auto

lemma link_slot_neq [simp]: "link_slot p \<noteq> Slot_node n"
  by (cases p) auto

lemma post_get_ppnode [post_rules]:
  assumes "good b s st" "\<And>h st'. good b s st' \<Longrightarrow> P (h, st')"
  shows "post (get_ppnode st) P"
proof -
  have "good b s (st\<lparr>hf_freelist := l\<rparr>)" "good b s (st\<lparr>hf_blocPtrs := n\<rparr>)" for l n
    using assms(1) by (auto simp: good_def in_pool_def bare_def)
  then show ?thesis
    using assms(2) by (auto simp: post_def get_ppnode_def bind_eq_Some_conv)
qed

lemma post_free_ppnode [post_rules]:
  assumes "good b s st" "\<And>st'. good b s st' \<Longrightarrow> P st'"
  shows "post (free_ppnode st h) P"
proof -
  have "good b s st' \<Longrightarrow> good b s (st'\<lparr>hf_freelist := l\<rparr>)" for st' l
    by (auto simp: good_def in_pool_def bare_def)
  then show ?thesis
    unfolding free_ppnode_def using assms(1)
    by (auto intro!: post_rules assms(2))
qed

lemma post_set_if [post_rules]:
  assumes "good b s st" "\<And>a. node_below b a \<Longrightarrow> node_below b (f a)" "\<And>a. bare_node (f a) = bare_node a"
    "\<And>st'. good b s st' \<Longrightarrow> P st'"
  shows "post (set_if st p f) P"
  unfolding set_if_def using assms by (auto intro!: post_rules)

lemma post_same_weight [post_rules]:
  assumes "good b s st" "\<And>t. P t"
  shows "post (same_weight st p w) P"
  using assms by (simp add: post_def)

lemma node_below_updates:
  "node_below b a \<Longrightarrow> below b p \<Longrightarrow> node_below b (a\<lparr>nd_next := p\<rparr>)"
  "node_below b a \<Longrightarrow> below b p \<Longrightarrow> node_below b (a\<lparr>nd_prev := p\<rparr>)"
  "node_below b a \<Longrightarrow> below b p \<Longrightarrow> node_below b (a\<lparr>nd_parent := p\<rparr>)"
  "node_below b a \<Longrightarrow> below b p \<Longrightarrow> node_below b (a\<lparr>nd_left := p\<rparr>)"
  "node_below b a \<Longrightarrow> below b p \<Longrightarrow> node_below b (a\<lparr>nd_right := p\<rparr>)"
  "node_below b (a\<lparr>nd_head := p\<rparr>) = node_below b a"
  "node_below b (a\<lparr>nd_weight := w\<rparr>) = node_below b a"
  "node_below b (a\<lparr>nd_symbol := w\<rparr>) = node_below b a"
  by (auto simp: node_below_def)

lemma node_below_links:
  "node_below b a \<Longrightarrow> below b (nd_next a)" "node_below b a \<Longrightarrow> below b (nd_prev a)"
  "node_below b a \<Longrightarrow> below b (nd_parent a)" "node_below b a \<Longrightarrow> below b (nd_left a)"
  "node_below b a \<Longrightarrow> below b (nd_right a)"
  by (auto simp: node_below_def)

lemma bare_node_updates:
  "bare_node (a\<lparr>nd_next := p\<rparr>) = bare_node a" "bare_node (a\<lparr>nd_prev := p\<rparr>) = bare_node a"
  "bare_node (a\<lparr>nd_head := p\<rparr>) = bare_node a" "bare_node (a\<lparr>nd_weight := w\<rparr>) = bare_node a"
  by (simp_all add: bare_node_def)

lemmas link_facts = node_below_updates node_below_links bare_node_updates

text \<open>The operations that do not touch the tree.\<close>

lemma post_swaplist [post_rules]:
  assumes "good b s st" "below b p" "below b q" "\<And>st'. good b s st' \<Longrightarrow> P st'"
  shows "post (swaplist st p q) P"
  unfolding swaplist_def using assms by (auto intro!: post_rules simp: link_facts)

lemma post_leave_block [post_rules]:
  assumes "good b s st" "\<And>st'. good b s st' \<Longrightarrow> P st'"
  shows "post (leave_block st p) P"
  unfolding leave_block_def using assms by (auto intro!: post_rules simp: link_facts dest: node_below_links)

lemma post_enter_block [post_rules]:
  assumes "good b s st" "below b p" "\<And>st'. good b s st' \<Longrightarrow> P st'"
  shows "post (enter_block st p) P"
  unfolding enter_block_def using assms by (auto intro!: post_rules simp: link_facts)

lemma post_behind_parent [post_rules]:
  assumes "good b s st" "below b p" "\<And>st'. good b s st' \<Longrightarrow> P st'"
  shows "post (behind_parent st p) P"
  unfolding behind_parent_def using assms by (auto intro!: post_rules simp: link_facts dest: node_below_links)

section \<open>The links of the tree\<close>

definition tree_ok :: "nat \<Rightarrow> huff_t \<Rightarrow> bool" where
  "tree_ok b st \<longleftrightarrow> b \<le> length (hf_nodeList st) \<and> length (hf_loc st) = 257 \<and>
     (\<forall>n < b. case nd_parent (hf_nodeList st ! n) of
        None \<Rightarrow> hf_tree st = Some n
      | Some p \<Rightarrow> p < b \<and> nd_symbol (hf_nodeList st ! p) = INTERNAL_NODE \<and>
          (nd_left (hf_nodeList st ! p) = Some n \<or> nd_right (hf_nodeList st ! p) = Some n)) \<and>
     (\<forall>s < 257. \<forall>n. hf_loc st ! s = Some n \<longrightarrow> n < b \<and> nd_symbol (hf_nodeList st ! n) = int s)"

definition linked :: "nat \<Rightarrow> huff_t \<Rightarrow> bool" where
  "linked b st \<longleftrightarrow> in_pool b st \<and> tree_ok b st \<and> hf_blocNode st = b"

lemma tree_ok_bare [simp]: "b \<le> length (hf_nodeList st) \<Longrightarrow> tree_ok b (bare st) = tree_ok b st"
  by (auto simp: tree_ok_def split: option.splits cong: conj_cong)

lemma linked_good: "linked b st \<Longrightarrow> good b (bare st) st"
  by (simp add: linked_def good_def)

lemma good_linked: "linked b st \<Longrightarrow> good b (bare st) st' \<Longrightarrow> linked b st'"
  unfolding linked_def good_def
  by (metis bare_simps(1) bare_simps(5) length_map tree_ok_bare tree_ok_def)

lemma tree_ok_parent:
  "tree_ok b st \<Longrightarrow> n < b \<Longrightarrow> nd_parent (hf_nodeList st ! n) = Some p \<Longrightarrow>
     p < b \<and> nd_symbol (hf_nodeList st ! p) = INTERNAL_NODE \<and>
     (nd_left (hf_nodeList st ! p) = Some n \<or> nd_right (hf_nodeList st ! p) = Some n)"
  by (auto simp: tree_ok_def split: option.splits)

lemma tree_ok_loc:
  "tree_ok b st \<Longrightarrow> s < 257 \<Longrightarrow> hf_loc st ! s = Some n \<Longrightarrow> n < b \<and> nd_symbol (hf_nodeList st ! n) = int s"
  by (auto simp: tree_ok_def)

lemma tree_ok_lengths: "tree_ok b st \<Longrightarrow> b \<le> length (hf_nodeList st) \<and> length (hf_loc st) = 257"
  by (simp add: tree_ok_def)

lemma tree_okI:
  assumes "b \<le> length (hf_nodeList st)" "length (hf_loc st) = 257"
    "\<And>n p. n < b \<Longrightarrow> nd_parent (hf_nodeList st ! n) = Some p \<Longrightarrow> p < b \<and> nd_symbol (hf_nodeList st ! p) = INTERNAL_NODE"
    "\<And>n p. n < b \<Longrightarrow> nd_parent (hf_nodeList st ! n) = Some p \<Longrightarrow>
       nd_left (hf_nodeList st ! p) = Some n \<or> nd_right (hf_nodeList st ! p) = Some n"
    "\<And>n. n < b \<Longrightarrow> nd_parent (hf_nodeList st ! n) = None \<Longrightarrow> hf_tree st = Some n"
    "\<And>s n. s < 257 \<Longrightarrow> hf_loc st ! s = Some n \<Longrightarrow> n < b \<and> nd_symbol (hf_nodeList st ! n) = int s"
  shows "tree_ok b st"
  using assms unfolding tree_ok_def by (auto split: option.splits)

lemma tree_ok_root:
  "tree_ok b st \<Longrightarrow> n < b \<Longrightarrow> nd_parent (hf_nodeList st ! n) = None \<Longrightarrow> hf_tree st = Some n"
  by (auto simp: tree_ok_def split: option.splits)

text \<open>A swap exchanges two subtrees; two children of one parent keep their parent, whatever
  their order becomes.\<close>

definition child :: "node_t \<Rightarrow> nat \<Rightarrow> bool" where
  "child a n \<longleftrightarrow> nd_left a = Some n \<or> nd_right a = Some n"

definition subst_child :: "nat option \<Rightarrow> nat option \<Rightarrow> node_t \<Rightarrow> node_t" where
  "subst_child old new a = (if nd_left a = old then a\<lparr>nd_left := new\<rparr> else a\<lparr>nd_right := new\<rparr>)"

lemma subst_child_fields [simp]:
  "nd_parent (subst_child old new a) = nd_parent a" "nd_symbol (subst_child old new a) = nd_symbol a"
  by (simp_all add: subst_child_def)

lemma child_subst_new: "child (subst_child old (Some n) a) n"
  by (simp add: subst_child_def child_def)

lemma child_subst_other: "child a m \<Longrightarrow> child a k \<Longrightarrow> m \<noteq> k \<Longrightarrow> child (subst_child (Some k) new a) m"
  by (auto simp: subst_child_def child_def)

lemma child_subst_both:
  "child a f \<Longrightarrow> child a s \<Longrightarrow> child (subst_child (Some s) (Some f) (subst_child (Some f) (Some s) a)) s"
  by (auto simp: subst_child_def child_def)

definition replaced :: "nat option \<Rightarrow> nat option \<Rightarrow> nat option \<Rightarrow> huff_t \<Rightarrow> huff_t" where
  "replaced parent old new st = (case parent of
     None \<Rightarrow> st\<lparr>hf_tree := new\<rparr>
   | Some p \<Rightarrow> st\<lparr>hf_nodeList := (hf_nodeList st)[p := subst_child old new (hf_nodeList st ! p)]\<rparr>)"

lemma replace_child_eq_Some:
  "replace_child st parent old new = Some st' \<longleftrightarrow>
     (\<forall>p. parent = Some p \<longrightarrow> p < length (hf_nodeList st)) \<and> st' = replaced parent old new st"
  by (cases parent)
    (auto simp: replace_child_def replaced_def bind_eq_Some_conv deref_eq_Some set_node_eq_Some subst_child_def)

lemma post_replace_child:
  assumes "in_pool b st" "below b new" "\<And>st'. in_pool b st' \<Longrightarrow> st' = replaced parent old new st \<Longrightarrow> P st'"
  shows "post (replace_child st parent old new) P"
proof -
  have "in_pool b (replaced parent old new st)"
    if "\<forall>p. parent = Some p \<longrightarrow> p < length (hf_nodeList st)"
    using assms(1,2) that unfolding in_pool_def replaced_def
    by (auto split: option.splits dest!: set_update_subset_insert [THEN subsetD]
        simp: subst_child_def node_below_updates)
  then show ?thesis
    using assms(3) by (auto simp: post_def replace_child_eq_Some)
qed

definition swapped :: "huff_t \<Rightarrow> nat \<Rightarrow> nat \<Rightarrow> huff_t" where
  "swapped st f s =
     (let N = hf_nodeList st; pf = nd_parent (N ! f); ps = nd_parent (N ! s);
          st2 = replaced ps (Some s) (Some f) (replaced pf (Some f) (Some s) st); M = hf_nodeList st2;
          K = M[f := (M ! f)\<lparr>nd_parent := ps\<rparr>] in
      st2\<lparr>hf_nodeList := K[s := (K ! s)\<lparr>nd_parent := pf\<rparr>]\<rparr>)"

lemma replaced_length [simp]: "length (hf_nodeList (replaced p old new st)) = length (hf_nodeList st)"
  by (simp add: replaced_def split: option.splits)

lemma huff_swap_eq:
  assumes "huff_swap st (Some f) (Some s) = Some st'"
  shows "st' = swapped st f s"
  using assms
  by (auto simp: huff_swap_def bind_eq_Some_conv deref_eq_Some set_node_eq_Some replace_child_eq_Some
      swapped_def Let_def)

lemma replaced_fields [simp]:
  "hf_loc (replaced p old new st) = hf_loc st" "hf_blocNode (replaced p old new st) = hf_blocNode st"
  "hf_lhead (replaced p old new st) = hf_lhead st" "hf_nodePtrs (replaced p old new st) = hf_nodePtrs st"
  by (simp_all add: replaced_def split: option.splits)

lemma swapped_fields [simp]:
  "hf_loc (swapped st f s) = hf_loc st" "hf_blocNode (swapped st f s) = hf_blocNode st"
  "hf_lhead (swapped st f s) = hf_lhead st" "length (hf_nodeList (swapped st f s)) = length (hf_nodeList st)"
  by (simp_all add: swapped_def Let_def)

lemma swapped_tree:
  "hf_tree (swapped st f s) = (if nd_parent (hf_nodeList st ! s) = None then Some f
     else if nd_parent (hf_nodeList st ! f) = None then Some s else hf_tree st)"
  by (auto simp: swapped_def Let_def replaced_def split: option.splits)

lemma replaced_nth:
  "n < length (hf_nodeList st) \<Longrightarrow> hf_nodeList (replaced parent old new st) ! n =
     (if parent = Some n then subst_child old new (hf_nodeList st ! n)
      else hf_nodeList st ! n)"
  by (auto simp: replaced_def nth_list_update split: option.splits)

lemma swapped_nth:
  assumes "n < length (hf_nodeList st)" "f < length (hf_nodeList st)" "s < length (hf_nodeList st)"
  shows "nd_symbol (hf_nodeList (swapped st f s) ! n) = nd_symbol (hf_nodeList st ! n)"
    "nd_parent (hf_nodeList (swapped st f s) ! n) =
       (if n = s then nd_parent (hf_nodeList st ! f) else if n = f then nd_parent (hf_nodeList st ! s)
        else nd_parent (hf_nodeList st ! n))"
  using assms by (auto simp: swapped_def Let_def nth_list_update replaced_nth)

lemma child_parent_update [simp]: "child (a\<lparr>nd_parent := p\<rparr>) n = child a n"
  by (simp add: child_def)

lemma swapped_child:
  assumes "n < length (hf_nodeList st)" "f < length (hf_nodeList st)" "s < length (hf_nodeList st)"
  shows "child (hf_nodeList (swapped st f s) ! n) m \<longleftrightarrow>
    child (let a = hf_nodeList st ! n;
               b = (if nd_parent (hf_nodeList st ! f) = Some n then subst_child (Some f) (Some s) a else a) in
           if nd_parent (hf_nodeList st ! s) = Some n then subst_child (Some s) (Some f) b else b) m"
  using assms by (auto simp: swapped_def Let_def nth_list_update replaced_nth)

lemma tree_ok_swapped:
  assumes ok: "tree_ok b st" and f: "f < b" and s: "s < b"
  shows "tree_ok b (swapped st f s)"
proof -
  let ?N = "hf_nodeList st" and ?M = "hf_nodeList (swapped st f s)"
  have b: "b \<le> length ?N"
    using tree_ok_lengths [OF ok] by simp
  have up: "p < b" "nd_symbol (?N ! p) = INTERNAL_NODE" "child (?N ! p) n"
    if "n < b" "nd_parent (?N ! n) = Some p" for n p
    using tree_ok_parent [OF ok that] by (simp_all add: child_def)
  have root: "hf_tree st = Some n" if "n < b" "nd_parent (?N ! n) = None" for n
    using tree_ok_root [OF ok that] .
  show ?thesis
  proof (rule tree_okI)
    fix n p
    assume n: "n < b" "nd_parent (?M ! n) = Some p"
    have "p < b"
      using n f s b by (auto simp: swapped_nth split: if_splits dest: up)
    then show p: "p < b \<and> nd_symbol (?M ! p) = INTERNAL_NODE"
      using n f s b by (auto simp: swapped_nth split: if_splits dest: up(2))
    have "child (?M ! p) n"
      using n p f s b
      by (auto simp: swapped_nth swapped_child Let_def up child_subst_new child_subst_other child_subst_both
          split: if_splits)
    then show "nd_left (?M ! p) = Some n \<or> nd_right (?M ! p) = Some n"
      by (simp add: child_def)
  next
    fix n
    assume "n < b" "nd_parent (?M ! n) = None"
    then show "hf_tree (swapped st f s) = Some n"
      using root [OF f] root [OF s] root [of n] b f s by (auto simp: swapped_nth swapped_tree split: if_splits)
  next
    fix t n
    assume t: "t < 257" "hf_loc (swapped st f s) ! t = Some n"
    then show "n < b \<and> nd_symbol (?M ! n) = int t"
      using tree_ok_loc [OF ok t(1)] b f s by (auto simp: swapped_nth)
  qed (use tree_ok_lengths [OF ok] in auto)
qed

lemma good_self: "in_pool b st \<Longrightarrow> good b (bare st) st"
  by (simp add: good_def)

lemma post_set_node_pool:
  assumes "in_pool b st" "\<And>a. node_below b a \<Longrightarrow> node_below b (f a)" "\<And>st'. in_pool b st' \<Longrightarrow> P st'"
  shows "post (set_node st p f) P"
  using good_self [OF assms(1)] assms(2)
  by (rule post_set_node_bare) (auto simp: good_def intro: assms(3))

lemma post_deref_pool:
  assumes "in_pool b st" "\<And>a. node_below b a \<Longrightarrow> P a"
  shows "post (deref st p) P"
  using good_self [OF assms(1)] assms(2) by (rule post_deref)

lemma set_node_in_pool:
  "in_pool b st \<Longrightarrow> (\<And>a. node_below b a \<Longrightarrow> node_below b (f a)) \<Longrightarrow> set_node st p f = Some st' \<Longrightarrow> in_pool b st'"
  by (rule postD [OF post_set_node_pool [where P = "in_pool b"]])

lemma deref_node_below: "in_pool b st \<Longrightarrow> deref st p = Some a \<Longrightarrow> node_below b a"
  by (rule postD [OF post_deref_pool [where P = "node_below b"]])

lemma swap_in_pool:
  assumes "in_pool b st" "below b p" "below b q"
  shows "post (huff_swap st p q) (in_pool b)"
  unfolding huff_swap_def using assms
  by (auto intro!: post_bind post_deref_pool post_set_node_pool post_replace_child simp: link_facts)

lemma post_huff_swap [post_rules]:
  assumes "linked b st" "below b p" "below b q" "\<And>st'. linked b st' \<Longrightarrow> P st'"
  shows "post (huff_swap st p q) P"
proof -
  have "P st'" if sw: "huff_swap st p q = Some st'" for st'
  proof -
    obtain f s where fs: "p = Some f" "q = Some s"
      using sw by (cases p; cases q) (auto simp: huff_swap_def deref_def)
    then have "st' = swapped st f s"
      using sw huff_swap_eq by simp
    moreover have "in_pool b st'"
      using postD [OF swap_in_pool sw] assms by (auto simp: linked_def)
    ultimately show ?thesis
      using assms fs by (auto simp: linked_def tree_ok_swapped)
  qed
  then show ?thesis
    by (simp add: post_def)
qed

text \<open>Counting keeps the links.\<close>

lemma linked_in_pool: "linked b st \<Longrightarrow> in_pool b st"
  by (simp add: linked_def)

lemma post_to_leader [post_rules]:
  assumes "linked b st" "below b p" "\<And>st'. linked b st' \<Longrightarrow> P st'"
  shows "post (to_leader st p) P"
  unfolding to_leader_def using assms
  by (auto intro!: post_rules intro: linked_good good_linked)

lemma post_increment [post_rules]:
  assumes "linked b st" "below b p" "\<And>st'. linked b st' \<Longrightarrow> P st'"
  shows "post (increment fuel st p) P"
  using assms
proof (induction fuel arbitrary: st p P)
  case 0
  then show ?case
    by (auto intro!: post_rules)
next
  case (Suc fuel)
  show ?case
    unfolding increment.simps using Suc.prems
    by (auto intro!: post_rules Suc.IH intro: linked_good good_linked dest: node_below_links)
qed

text \<open>A new node behind the NYT leaf in the list only gets its symbol.\<close>

lemma bare_node_named:
  "bare_node (a\<lparr>nd_symbol := symbol, nd_weight := w, nd_next := p\<rparr>) = (bare_node a)\<lparr>nd_symbol := symbol\<rparr>"
  by (cases a) (simp add: bare_node_def)

definition named :: "nat \<Rightarrow> int \<Rightarrow> huff_t \<Rightarrow> huff_t" where
  "named n symbol s = s\<lparr>hf_nodeList := (hf_nodeList s)[n := (hf_nodeList s ! n)\<lparr>nd_symbol := symbol\<rparr>]\<rparr>"

lemma post_new_head [post_rules]:
  assumes "good b s st" "below b p" "below b content" "below b alone" "\<And>st'. good b s st' \<Longrightarrow> P st'"
  shows "post (new_head st p following content alone) P"
  unfolding new_head_def using assms by (auto intro!: post_rules simp: link_facts)

lemma post_list_next [post_rules]:
  assumes "good b s st" "\<And>p. below b p \<Longrightarrow> P p"
  shows "post (list_next st) P"
  using assms by (auto simp: post_def list_next_def deref_eq_Some good_def in_pool_def node_below_def)

lemma post_push_front:
  assumes "good b s st" "n < b" "below b content" "below b alone"
    "\<And>st'. n < length (hf_nodeList s) \<Longrightarrow> good b (named n symbol s) st' \<Longrightarrow> P st'"
  shows "post (push_front st (Some n) symbol content alone) P"
proof -
  have set: "post (set_node st (Some n) (\<lambda>a. a\<lparr>nd_symbol := symbol, nd_weight := 1, nd_next := following\<rparr>)) Q"
    if "below b following" "\<And>st'. n < length (hf_nodeList s) \<Longrightarrow> good b (named n symbol s) st' \<Longrightarrow> Q st'"
    for following Q
  proof (rule post_set_node_bare [OF assms(1)])
    fix m st'
    assume m: "Some n = Some m" "m < length (hf_nodeList s)"
      and "good b (s\<lparr>hf_nodeList := (hf_nodeList s)
        [m := bare_node ((hf_nodeList st ! m)\<lparr>nd_symbol := symbol, nd_weight := 1, nd_next := following\<rparr>)]\<rparr>) st'"
    moreover have "s = bare st"
      using assms(1) by (simp add: good_def)
    ultimately show "Q st'"
      by (intro that(2)) (simp_all add: named_def bare_node_named)
  qed (use that in \<open>simp add: link_facts\<close>)
  show ?thesis
    unfolding push_front_def using assms(1-4)
    by (auto intro!: post_rules set intro: assms(5) simp: link_facts good_def in_pool_def)
qed

text \<open>The leaf and the inner node that take the place of the NYT leaf.\<close>

definition attached :: "nat \<Rightarrow> nat \<Rightarrow> nat \<Rightarrow> huff_t \<Rightarrow> huff_t" where
  "attached b h symbol st =
     (let N = hf_nodeList st; up = nd_parent (N ! h);
          st3 = st\<lparr>hf_nodeList := N[b := (N ! b)\<lparr>nd_left := None, nd_right := None\<rparr>]\<rparr>;
          st4 = replaced up (Some h) (Some (b + 1)) st3; M = hf_nodeList st4;
          K = M[b + 1 := (M ! (b + 1))\<lparr>nd_right := Some b, nd_left := Some h, nd_parent := up\<rparr>];
          L = K[b := (K ! b)\<lparr>nd_parent := Some (b + 1)\<rparr>] in
      st4\<lparr>hf_nodeList := L[h := (L ! h)\<lparr>nd_parent := Some (b + 1)\<rparr>], hf_loc := (hf_loc st)[symbol := Some b]\<rparr>)"

lemma attached_fields [simp]:
  "hf_blocNode (attached b h symbol st) = hf_blocNode st"
  "length (hf_nodeList (attached b h symbol st)) = length (hf_nodeList st)"
  "hf_loc (attached b h symbol st) = (hf_loc st)[symbol := Some b]"
  by (simp_all add: attached_def Let_def)

lemma attached_tree:
  "hf_tree (attached b h symbol st) = (if nd_parent (hf_nodeList st ! h) = None then Some (b + 1) else hf_tree st)"
  by (simp add: attached_def Let_def replaced_def split: option.splits)

lemma attached_nth:
  assumes "h < b" "b + 1 < length (hf_nodeList st)"
    "\<forall>p. nd_parent (hf_nodeList st ! h) = Some p \<longrightarrow> p < b"
  shows "n < b \<Longrightarrow> nd_parent (hf_nodeList (attached b h symbol st) ! n) =
      (if n = h then Some (b + 1) else nd_parent (hf_nodeList st ! n))"
    "nd_parent (hf_nodeList (attached b h symbol st) ! b) = Some (b + 1)"
    "nd_parent (hf_nodeList (attached b h symbol st) ! Suc b) = nd_parent (hf_nodeList st ! h)"
    "n < length (hf_nodeList st) \<Longrightarrow>
      nd_symbol (hf_nodeList (attached b h symbol st) ! n) = nd_symbol (hf_nodeList st ! n)"
    "nd_left (hf_nodeList (attached b h symbol st) ! Suc b) = Some h"
    "nd_right (hf_nodeList (attached b h symbol st) ! Suc b) = Some b"
    "n < b \<Longrightarrow> child (hf_nodeList (attached b h symbol st) ! n) m \<longleftrightarrow>
      child (if nd_parent (hf_nodeList st ! h) = Some n
             then subst_child (Some h) (Some (b + 1)) (hf_nodeList st ! n) else hf_nodeList st ! n) m"
  using assms by (auto simp: attached_def Let_def nth_list_update replaced_nth)

lemma tree_ok_attached:
  assumes ok: "tree_ok b st" and h: "h < b" and b: "b + 1 < length (hf_nodeList st)"
    and symbol: "symbol < 256" "nd_symbol (hf_nodeList st ! b) = int symbol"
      "nd_symbol (hf_nodeList st ! (b + 1)) = INTERNAL_NODE"
  shows "tree_ok (b + 2) (attached b h symbol st)"
proof -
  let ?N = "hf_nodeList st" and ?M = "hf_nodeList (attached b h symbol st)"
  have up: "p < b" "nd_symbol (?N ! p) = INTERNAL_NODE" "child (?N ! p) n"
    if "n < b" "nd_parent (?N ! n) = Some p" for n p
    using tree_ok_parent [OF ok that] by (simp_all add: child_def)
  have "\<forall>p. nd_parent (?N ! h) = Some p \<longrightarrow> p < b"
    using up(1) [OF h] by blast
  note nth = attached_nth [OF h b this]
  have cases: "n < b \<or> n = b \<or> n = Suc b" if "n < b + 2" for n
    using that by auto
  show ?thesis
  proof (rule tree_okI)
    fix n p
    assume n: "n < b + 2" "nd_parent (?M ! n) = Some p"
    consider (old) "n < b" "n \<noteq> h" "nd_parent (?N ! n) = Some p"
      | (new) "n = h \<or> n = b" "p = Suc b" | (inner) "n = Suc b" "nd_parent (?N ! h) = Some p"
      using n cases [of n] h by (auto simp: nth split: if_splits)
    note parent = this
    from parent show "p < b + 2 \<and> nd_symbol (?M ! p) = INTERNAL_NODE"
    proof cases
      case old
      then show ?thesis
        using up(1,2) [OF old(1,3)] b by (auto simp: nth)
    next
      case new
      then show ?thesis
        using symbol(3) b by (auto simp: nth)
    next
      case inner
      then show ?thesis
        using up(1,2) [OF h inner(2)] b by (auto simp: nth)
    qed
    from parent have "child (?M ! p) n"
    proof cases
      case old
      then show ?thesis
        using up [OF old(1,3)] up(3) [OF h] by (auto simp: nth child_subst_other)
    next
      case new
      then show ?thesis
        by (auto simp: child_def nth)
    next
      case inner
      then show ?thesis
        using up(1) [OF h inner(2)] by (simp add: nth child_subst_new)
    qed
    then show "nd_left (?M ! p) = Some n \<or> nd_right (?M ! p) = Some n"
      by (simp add: child_def)
  next
    fix n
    assume "n < b + 2" "nd_parent (?M ! n) = None"
    then show "hf_tree (attached b h symbol st) = Some n"
      using cases [of n] tree_ok_root [OF ok, of n] tree_ok_root [OF ok h] by (auto simp: nth attached_tree split: if_splits)
  next
    fix t n
    assume t: "t < 257" "hf_loc (attached b h symbol st) ! t = Some n"
    show "n < b + 2 \<and> nd_symbol (?M ! n) = int t"
    proof (cases "t = symbol")
      case True
      then have "n = b"
        using t symbol tree_ok_lengths [OF ok] by simp
      moreover have "nd_symbol (?M ! b) = int t"
        using True symbol b nth(4) [of b] by simp
      ultimately show ?thesis
        by simp
    next
      case False
      then show ?thesis
        using t tree_ok_loc [OF ok t(1)] b by (simp add: nth)
    qed
  qed (use tree_ok_lengths [OF ok] b in auto)
qed

lemma tree_ok_cong:
  assumes "tree_ok b st" "\<forall>n < b. bare_node (hf_nodeList st' ! n) = bare_node (hf_nodeList st ! n)"
    "length (hf_nodeList st') = length (hf_nodeList st)" "hf_tree st' = hf_tree st" "hf_loc st' = hf_loc st"
  shows "tree_ok b st'"
proof (rule tree_okI)
  have eq: "nd_parent (hf_nodeList st' ! n) = nd_parent (hf_nodeList st ! n)"
    "nd_symbol (hf_nodeList st' ! n) = nd_symbol (hf_nodeList st ! n)"
    "nd_left (hf_nodeList st' ! n) = nd_left (hf_nodeList st ! n)"
    "nd_right (hf_nodeList st' ! n) = nd_right (hf_nodeList st ! n)" if "n < b" for n
    using assms(2) that by (metis bare_node_simps)+
  {
    fix n p
    assume n: "n < b" "nd_parent (hf_nodeList st' ! n) = Some p"
    then show "p < b \<and> nd_symbol (hf_nodeList st' ! p) = INTERNAL_NODE"
      "nd_left (hf_nodeList st' ! p) = Some n \<or> nd_right (hf_nodeList st' ! p) = Some n"
      using tree_ok_parent [OF assms(1) n(1)] eq by auto
  }
  show "hf_tree st' = Some n" if "n < b" "nd_parent (hf_nodeList st' ! n) = None" for n
    using tree_ok_root [OF assms(1) that(1)] that eq assms(4) by simp
  show "n < b \<and> nd_symbol (hf_nodeList st' ! n) = int s" if "s < 257" "hf_loc st' ! s = Some n" for s n
    using tree_ok_loc [OF assms(1) that(1)] that eq assms(5) by simp
qed (use tree_ok_lengths [OF assms(1)] assms(3,5) in auto)

lemma attach_in_pool:
  assumes "in_pool c st" "below c up" "leaf < c" "inner < c"
  shows "post (do {
      st4 \<leftarrow> replace_child st up (hf_lhead st) (Some inner);
      st5 \<leftarrow> set_node st4 (Some inner) (\<lambda>a. a\<lparr>nd_right := Some leaf, nd_left := hf_lhead st4, nd_parent := up\<rparr>);
      st6 \<leftarrow> set_node st5 (Some leaf) (\<lambda>a. a\<lparr>nd_parent := Some inner\<rparr>);
      st7 \<leftarrow> set_node st6 (hf_lhead st6) (\<lambda>a. a\<lparr>nd_parent := Some inner\<rparr>);
      loc \<leftarrow> poke (hf_loc st7) i (Some leaf);
      Some (st7\<lparr>hf_loc := loc\<rparr>) }) (in_pool c)"
proof -
  have poke: "post (poke (hf_loc st7) i (Some leaf)) (\<lambda>loc. post (Some (st7\<lparr>hf_loc := loc\<rparr>)) (in_pool c))"
    if "in_pool c st7" for st7
    using that assms(3)
    by (auto simp: post_def in_pool_def poke_eq_Some dest!: set_update_subset_insert [THEN subsetD])
  have lhead: "in_pool c st4 \<Longrightarrow> below c (hf_lhead st4)" for st4
    by (simp add: in_pool_def)
  show ?thesis
    using assms
    by (auto intro!: post_bind post_set_node_pool post_replace_child poke node_below_updates(3-5) lhead)
qed

lemma addRef_new:
  assumes st2: "good (b + 2) s2 st2" and h: "hf_lhead st2 = Some h" "h < b" and symbol: "symbol < 256"
    and st3: "set_node st2 (Some b) (\<lambda>a. a\<lparr>nd_left := None, nd_right := None\<rparr>) = Some st3"
    and nyt: "deref st3 (hf_lhead st3) = Some nyt"
    and st4: "replace_child st3 (nd_parent nyt) (hf_lhead st3) (Some (b + 1)) = Some st4"
    and st5: "set_node st4 (Some (b + 1))
        (\<lambda>a. a\<lparr>nd_right := Some b, nd_left := hf_lhead st4, nd_parent := nd_parent nyt\<rparr>) = Some st5"
    and st6: "set_node st5 (Some b) (\<lambda>a. a\<lparr>nd_parent := Some (b + 1)\<rparr>) = Some st6"
    and st7: "set_node st6 (hf_lhead st6) (\<lambda>a. a\<lparr>nd_parent := Some (b + 1)\<rparr>) = Some st7"
    and loc: "poke (hf_loc st7) (int symbol) (Some b) = Some loc"
  shows "st7\<lparr>hf_loc := loc\<rparr> = attached b h symbol st2" "in_pool (b + 2) (st7\<lparr>hf_loc := loc\<rparr>)"
    "below (b + 2) (nd_parent nyt)" "b + 1 < length (hf_nodeList st2)"
proof -
  have "in_pool (b + 2) st3"
    by (rule set_node_in_pool [OF _ _ st3]) (use st2 in \<open>auto simp: good_def intro!: node_below_updates(4,5)\<close>)
  moreover from this show "below (b + 2) (nd_parent nyt)"
    by (rule node_below_links(3) [OF deref_node_below [OF _ nyt]])
  ultimately show "in_pool (b + 2) (st7\<lparr>hf_loc := loc\<rparr>)"
    using postD [OF attach_in_pool [of "b + 2" st3 "nd_parent nyt" b "b + 1" "int symbol"]] st4 st5 st6 st7 loc
    by simp
  have e3: "st3 = st2\<lparr>hf_nodeList := (hf_nodeList st2)[b := (hf_nodeList st2 ! b)\<lparr>nd_left := None, nd_right := None\<rparr>]\<rparr>"
    using st3 by (simp add: set_node_eq_Some)
  have n: "nyt = hf_nodeList st2 ! h"
    using nyt h e3 by (simp add: deref_eq_Some)
  have e4: "st4 = replaced (nd_parent nyt) (Some h) (Some (b + 1)) st3"
    using st4 h e3 by (simp add: replace_child_eq_Some)
  have e5: "b + 1 < length (hf_nodeList st4)" "st5 = st4\<lparr>hf_nodeList := (hf_nodeList st4)[b + 1 :=
      (hf_nodeList st4 ! (b + 1))\<lparr>nd_right := Some b, nd_left := Some h, nd_parent := nd_parent nyt\<rparr>]\<rparr>"
    using st5 h by (simp_all add: set_node_eq_Some e4 e3)
  show "b + 1 < length (hf_nodeList st2)"
    using e5(1) by (simp add: e4 e3)
  have e6: "st6 = st5\<lparr>hf_nodeList := (hf_nodeList st5)[b := (hf_nodeList st5 ! b)\<lparr>nd_parent := Some (b + 1)\<rparr>]\<rparr>"
    using st6 by (simp add: set_node_eq_Some)
  have e7: "st7 = st6\<lparr>hf_nodeList := (hf_nodeList st6)[h := (hf_nodeList st6 ! h)\<lparr>nd_parent := Some (b + 1)\<rparr>]\<rparr>"
    using st7 h by (simp add: set_node_eq_Some e6 e5(2) e4 e3)
  have "loc = (hf_loc st2)[symbol := Some b]"
    using loc by (simp add: poke_eq_Some e7 e6 e5(2) e4 e3)
  then show "st7\<lparr>hf_loc := loc\<rparr> = attached b h symbol st2"
    unfolding attached_def Let_def e7 e6 e5(2) e4 e3 n by simp
qed

lemma linked_addRef:
  assumes ok: "linked b st" and add: "Huff_addRef st symbol = Some st'"
  obtains c where "linked c st'"
proof -
  have len: "length (hf_loc st) = 257" and b: "hf_blocNode st = b" and pool: "in_pool b st"
    using ok tree_ok_lengths by (auto simp: linked_def)
  have u: "uint symbol < 256" "0 \<le> uint symbol"
    using uint_lt2p [of symbol] by simp_all
  then have un: "unat symbol < 256"
    by (simp add: unat_eq_nat_uint nat_less_iff del: nat_uint_eq)
  have known: "peek (hf_loc st) (uint symbol) = Some (hf_loc st ! unat symbol)"
    using u len by (simp add: peek_def)
  show ?thesis
  proof (cases "hf_loc st ! unat symbol = None")
    case False
    have "below b (hf_loc st ! unat symbol)"
      using pool un len by (simp add: in_pool_def)
    moreover have "increment HUFFMAN_NODE_POOL_COUNT st (hf_loc st ! unat symbol) = Some st'"
      using add False known unfolding Huff_addRef_def by simp
    ultimately have "linked b st'"
      using postD [OF post_increment [OF ok, where P = "linked b"]] by blast
    then show ?thesis
      by (rule that)
  next
    case True
    define st0 where "st0 = st\<lparr>hf_blocNode := b + 2\<rparr>"
    have uint_nat: "uint symbol = int (unat symbol)"
      by simp
    have unknown: "peek (hf_loc st) (int (unat symbol)) = Some None"
      using known True by simp
    obtain st1 st2 st3 nyt st4 st5 st6 st7 loc where
      steps: "push_front st0 (Some (b + 1)) INTERNAL_NODE (Some (b + 1)) (Some (b + 1)) = Some st1"
        "push_front st1 (Some b) (int (unat symbol)) (Some (b + 1)) (Some b) = Some st2"
      and rest: "set_node st2 (Some b) (\<lambda>a. a\<lparr>nd_left := None, nd_right := None\<rparr>) = Some st3"
        "deref st3 (hf_lhead st3) = Some nyt"
        "replace_child st3 (nd_parent nyt) (hf_lhead st3) (Some (b + 1)) = Some st4"
        "set_node st4 (Some (b + 1))
           (\<lambda>a. a\<lparr>nd_right := Some b, nd_left := hf_lhead st4, nd_parent := nd_parent nyt\<rparr>) = Some st5"
        "set_node st5 (Some b) (\<lambda>a. a\<lparr>nd_parent := Some (b + 1)\<rparr>) = Some st6"
        "set_node st6 (hf_lhead st6) (\<lambda>a. a\<lparr>nd_parent := Some (b + 1)\<rparr>) = Some st7"
        "poke (hf_loc st7) (int (unat symbol)) (Some b) = Some loc"
      and inc: "increment HUFFMAN_NODE_POOL_COUNT (st7\<lparr>hf_loc := loc\<rparr>) (nd_parent nyt) = Some st'"
      using add unfolding Huff_addRef_def uint_nat unknown Option.bind.bind_lunit Let_def b st0_def [symmetric]
        simp_thms(6) not_True_eq_False if_False
      by (elim bind_eq_SomeE) (rule that)
    define s0 where "s0 = bare st0"
    have "in_pool (b + 2) st0"
      using in_pool_mono [OF pool, of "b + 2"] by (simp add: st0_def in_pool_def)
    then have "good (b + 2) s0 st0"
      by (simp add: s0_def good_def)
    note push1 = postD [OF post_push_front [OF this, of "b + 1"] steps(1)]
    have st1: "good (b + 2) (named (b + 1) INTERNAL_NODE s0) st1" and b1: "b + 1 < length (hf_nodeList s0)"
      using push1 by simp_all
    define s2 where "s2 = named b (int (unat symbol)) (named (b + 1) INTERNAL_NODE s0)"
    have st2: "good (b + 2) s2 st2"
      unfolding s2_def using postD [OF post_push_front [OF st1, of b] steps(2)] by simp
    have "hf_lhead st \<noteq> None"
    proof
      assume "hf_lhead st = None"
      then have "list_next st0 = None"
        by (simp add: list_next_def deref_def st0_def)
      then show False
        using steps(1) by (simp add: push_front_def)
    qed
    then obtain h where h1: "hf_lhead st = Some h"
      by blast
    with pool have h: "h < b"
      by (simp add: in_pool_def)
    have s2: "bare st2 = s2"
      using st2 by (simp add: good_def)
    then have nodes: "map bare_node (hf_nodeList st2) = hf_nodeList s2"
      and fields: "hf_lhead st2 = hf_lhead s2" "hf_tree st2 = hf_tree s2" "hf_loc st2 = hf_loc s2"
        "hf_blocNode st2 = hf_blocNode s2"
      by (metis bare_simps)+
    have s2_fields: "hf_lhead s2 = hf_lhead st" "hf_tree s2 = hf_tree st" "hf_loc s2 = hf_loc st"
        "hf_blocNode s2 = b + 2" "length (hf_nodeList s2) = length (hf_nodeList st)"
      by (simp_all add: s2_def named_def s0_def st0_def)
    have length2: "length (hf_nodeList st2) = length (hf_nodeList st)"
      using arg_cong [OF nodes, of length] s2_fields(5) by simp
    have node2: "bare_node (hf_nodeList st2 ! n) = hf_nodeList s2 ! n" if "n < length (hf_nodeList st)" for n
      using arg_cong [OF nodes, of "\<lambda>N. N ! n"] that length2 by simp
    have "hf_lhead st2 = Some h"
      using fields(1) s2_fields(1) h1 by simp
    note new = addRef_new [OF st2 this h un rest]
    have long: "b + 1 < length (hf_nodeList st)"
      using new(4) length2 by simp
    have "tree_ok b st2"
    proof (rule tree_ok_cong)
      show "tree_ok b st"
        using ok by (simp add: linked_def)
      show "\<forall>n < b. bare_node (hf_nodeList st2 ! n) = bare_node (hf_nodeList st ! n)"
        using long by (simp add: node2 s2_def named_def s0_def st0_def)
    qed (simp_all add: fields s2_fields length2)
    moreover have "nd_symbol (hf_nodeList st2 ! b) = int (unat symbol)"
      "nd_symbol (hf_nodeList st2 ! (b + 1)) = INTERNAL_NODE"
      using arg_cong [OF node2, of b nd_symbol] arg_cong [OF node2, of "b + 1" nd_symbol] long
      by (simp_all add: s2_def named_def s0_def st0_def)
    ultimately have "tree_ok (b + 2) (attached b h (unat symbol) st2)"
      using h long length2 un by (intro tree_ok_attached) simp_all
    then have "linked (b + 2) (st7\<lparr>hf_loc := loc\<rparr>)"
      using new(1,2) fields(4) s2_fields(4) by (simp add: linked_def)
    then show ?thesis
      using postD [OF post_increment [where P = "linked (b + 2)"] inc] new(3) that by blast
  qed
qed

text \<open>The states of the coder: what any sequence of bytes makes of the NYT leaf.\<close>

inductive coder :: "huff_t \<Rightarrow> bool" where
  coder_init: "coder (initial_huff ltail)"
| coder_addRef: "coder st \<Longrightarrow> Huff_addRef st symbol = Some st' \<Longrightarrow> coder st'"

lemma linked_initial: "linked 1 (initial_huff ltail)"
  by (auto simp: linked_def in_pool_def tree_ok_def initial_huff_def zero_huff_def zero_node_def node_below_def
      nth_list_update dest!: set_update_subset_insert [THEN subsetD])

theorem coder_linked: "coder st \<Longrightarrow> \<exists>b. linked b st"
proof (induction rule: coder.induct)
  case (coder_init ltail)
  show ?case
    using linked_initial by blast
next
  case (coder_addRef st symbol st')
  then show ?case
    using linked_addRef by blast
qed

end
