(* ===== verification/Huffman_Correct.thy ===== *)
theory Huffman_Correct
  imports Huffman_Tree
begin

text \<open>
  The decoders invert the encoders of \<open>Huffman\<close>. Compressor and decompressor make the same
  updates although their states differ in \<open>ltail\<close>. What the encoder puts behind its cursor
  (\<open>emits\<close>) is what a bit source gives back (\<open>supplies\<close>), and it leads a decoder from the
  root to the leaf the encoder climbed from (\<open>leads\<close>), by the links of \<open>Huffman_Tree\<close>.
\<close>

section \<open>Compressor and decompressor\<close>

text \<open>The two states differ in \<open>ltail\<close>, which no update reads.\<close>

definition retail :: "nat option \<Rightarrow> huff_t \<Rightarrow> huff_t" where
  "retail t st = st\<lparr>hf_ltail := t\<rparr>"

named_theorems retail_simps \<open>operations on a state with another tail\<close>

lemma retail_fields [retail_simps]:
  "hf_blocNode (retail t st) = hf_blocNode st" "hf_blocPtrs (retail t st) = hf_blocPtrs st"
  "hf_tree (retail t st) = hf_tree st" "hf_lhead (retail t st) = hf_lhead st"
  "hf_loc (retail t st) = hf_loc st" "hf_freelist (retail t st) = hf_freelist st"
  "hf_nodeList (retail t st) = hf_nodeList st" "hf_nodePtrs (retail t st) = hf_nodePtrs st"
  "(retail t st)\<lparr>hf_blocNode := n\<rparr> = retail t (st\<lparr>hf_blocNode := n\<rparr>)"
  "(retail t st)\<lparr>hf_blocPtrs := n\<rparr> = retail t (st\<lparr>hf_blocPtrs := n\<rparr>)"
  "(retail t st)\<lparr>hf_tree := p\<rparr> = retail t (st\<lparr>hf_tree := p\<rparr>)"
  "(retail t st)\<lparr>hf_loc := ps\<rparr> = retail t (st\<lparr>hf_loc := ps\<rparr>)"
  "(retail t st)\<lparr>hf_freelist := p\<rparr> = retail t (st\<lparr>hf_freelist := p\<rparr>)"
  "(retail t st)\<lparr>hf_nodeList := ns\<rparr> = retail t (st\<lparr>hf_nodeList := ns\<rparr>)"
  "(retail t st)\<lparr>hf_nodePtrs := ss\<rparr> = retail t (st\<lparr>hf_nodePtrs := ss\<rparr>)"
  by (simp_all add: retail_def)

lemma map_option_bind [retail_simps]:
  "map_option g m \<bind> f = m \<bind> (\<lambda>x. f (g x))" for m :: "'a option"
  by (cases m) simp_all

lemma map_option_of_bind [retail_simps]:
  "map_option g (m \<bind> f) = m \<bind> (\<lambda>x. map_option g (f x))" for m :: "'a option"
  by (cases m) simp_all

lemma map_option_if [retail_simps]: "map_option g (if b then x else y) = (if b then map_option g x else map_option g y)"
  by simp

lemma map_option_pair [retail_simps]: "map_option g (case p of (x, y) \<Rightarrow> f x y) = (case p of (x, y) \<Rightarrow> map_option g (f x y))"
  by (cases p) simp

lemma retail_access [retail_simps]:
  "deref (retail t st) p = deref st p" "get_slot (retail t st) h = get_slot st h"
  "same_weight (retail t st) p w = same_weight st p w" "list_next (retail t st) = list_next st"
  by (simp_all add: deref_def get_slot_def same_weight_def list_next_def retail_fields cong: if_cong option.case_cong)

lemma retail_set_node [retail_simps]: "set_node (retail t st) p f = map_option (retail t) (set_node st p f)"
  by (simp add: set_node_def retail_simps split: option.split)

lemma retail_set_slot [retail_simps]: "set_slot (retail t st) h v = map_option (retail t) (set_slot st h v)"
  by (simp add: set_slot_def retail_simps split: option.split)

lemma retail_set_if [retail_simps]: "set_if (retail t st) p f = map_option (retail t) (set_if st p f)"
  by (simp add: set_if_def retail_simps cong: if_cong)

lemma retail_replace_child [retail_simps]:
  "replace_child (retail t st) p old new = map_option (retail t) (replace_child st p old new)"
  by (simp add: replace_child_def retail_simps if_distrib cong: if_cong)

lemma retail_get_ppnode [retail_simps]:
  "get_ppnode (retail t st) = map_option (map_prod id (retail t)) (get_ppnode st)"
  by (simp add: get_ppnode_def retail_simps cong: if_cong)

lemma retail_free_ppnode [retail_simps]: "free_ppnode (retail t st) h = map_option (retail t) (free_ppnode st h)"
  by (simp add: free_ppnode_def retail_simps cong: if_cong)

lemma retail_huff_swap [retail_simps]: "huff_swap (retail t st) p q = map_option (retail t) (huff_swap st p q)"
  by (simp add: huff_swap_def retail_simps cong: if_cong)

lemma bind_if_retail [retail_simps]:
  "((if b then map_option g x else map_option g y) \<bind> f) = (if b then x else y) \<bind> (\<lambda>z. f (g z))"
  for x :: "'a option"
  by (simp add: retail_simps cong: if_cong)

lemma bind_if_Some_retail [retail_simps]:
  "((if b then map_option g x else Some (g y)) \<bind> f) = (if b then x else Some y) \<bind> (\<lambda>z. f (g z))"
  for x :: "'a option"
  by (simp add: retail_simps cong: if_cong)

lemma retail_swaplist [retail_simps]: "swaplist (retail t st) p q = map_option (retail t) (swaplist st p q)"
  unfolding swaplist_def by (simp only: retail_simps cong: if_cong)

lemma retail_to_leader [retail_simps]: "to_leader (retail t st) p = map_option (retail t) (to_leader st p)"
  unfolding to_leader_def by (simp add: retail_simps cong: if_cong)

lemma retail_leave_block [retail_simps]: "leave_block (retail t st) p = map_option (retail t) (leave_block st p)"
  unfolding leave_block_def by (simp add: retail_simps cong: if_cong)

lemma retail_enter_block [retail_simps]: "enter_block (retail t st) p = map_option (retail t) (enter_block st p)"
  unfolding enter_block_def by (simp add: retail_simps case_prod_beta cong: if_cong)

lemma retail_behind_parent [retail_simps]: "behind_parent (retail t st) p = map_option (retail t) (behind_parent st p)"
  unfolding behind_parent_def by (simp add: retail_simps cong: if_cong)

lemma retail_increment [retail_simps]: "increment n (retail t st) p = map_option (retail t) (increment n st p)"
  by (induction n arbitrary: st p) (simp_all add: retail_simps cong: if_cong)

lemma retail_new_head [retail_simps]:
  "new_head (retail t st) n p c a = map_option (retail t) (new_head st n p c a)"
  unfolding new_head_def by (simp add: retail_simps case_prod_beta cong: if_cong)

lemma retail_push_front [retail_simps]:
  "push_front (retail t st) n s c a = map_option (retail t) (push_front st n s c a)"
  unfolding push_front_def by (simp add: retail_simps cong: if_cong)

lemma retail_addRef: "Huff_addRef (retail t st) symbol = map_option (retail t) (Huff_addRef st symbol)"
  unfolding Huff_addRef_def Let_def by (simp add: retail_simps cong: if_cong)

section \<open>Bits written and read\<close>

definition bit_at :: "8 word list \<Rightarrow> int \<Rightarrow> bool" where
  "bit_at data i = bit (data ! nat (i div 8)) (nat (i mod 8))"

text \<open>A cursor inside a byte finds zero bits from there on: \<open>add_bit\<close> only sets bits.\<close>

definition cursor_ok :: "bit_cursor \<Rightarrow> bool" where
  "cursor_ok c \<longleftrightarrow> 0 \<le> fst c \<and> fst c \<le> 8 * int (length (snd c)) \<and> 8 * int (length (snd c)) < 2147483648 \<and>
     (\<forall>k. fst c mod 8 \<noteq> 0 \<longrightarrow> fst c mod 8 \<le> int k \<longrightarrow> k < 8 \<longrightarrow> \<not> bit (snd c ! nat (fst c div 8)) k)"

definition emits :: "bit_cursor \<Rightarrow> bool list \<Rightarrow> bit_cursor \<Rightarrow> bool" where
  "emits c bs c' \<longleftrightarrow> fst c' = fst c + int (length bs) \<and> length (snd c') = length (snd c) \<and> cursor_ok c' \<and>
     (\<forall>i. 0 \<le> i \<longrightarrow> i < fst c \<longrightarrow> bit_at (snd c') i = bit_at (snd c) i) \<and>
     (\<forall>j < length bs. bit_at (snd c') (fst c + int j) = bs ! j)"

lemma emits_Nil: "cursor_ok c \<Longrightarrow> emits c [] c"
  by (simp add: emits_def)

lemma emits_append:
  assumes "cursor_ok c" "emits c bs c'" "emits c' cs c''"
  shows "emits c (bs @ cs) c''"
proof -
  have "bit_at (snd c'') (fst c + int j) = (bs @ cs) ! j" if j: "j < length (bs @ cs)" for j
  proof (cases "j < length bs")
    case True
    then show ?thesis
      using assms by (simp add: emits_def nth_append cursor_ok_def)
  next
    case False
    then have "bit_at (snd c'') (fst c' + int (j - length bs)) = cs ! (j - length bs)"
      using assms(3) j unfolding emits_def by (simp del: of_nat_diff)
    then show ?thesis
      using False assms(2) by (simp add: emits_def nth_append of_nat_diff)
  qed
  then show ?thesis
    using assms by (auto simp: emits_def)
qed

lemma add_bit_emits:
  assumes ok: "cursor_ok c" and add: "add_bit (of_bool v) c = Some c'"
  shows "emits c [v] c'"
proof -
  obtain b data where c: "c = (b, data)"
    by force
  have b: "0 \<le> b" "b div 8 < int (length data)"
    using ok add by (auto simp: c cursor_ok_def add_bit_def bind_eq_Some_conv poke_eq_Some peek_eq_Some split: if_splits)
  define byte where "byte = (if b mod 8 = 0 then 0 else data ! nat (b div 8))"
  let ?new = "byte OR push_bit (nat (b mod 8)) (of_bool v)"
  have i: "i32 (b + 1) = b + 1"
    using b ok by (intro i32_id) (auto simp: c cursor_ok_def)
  have c': "c' = (b + 1, data[nat (b div 8) := ?new])"
    using add b by (auto simp: c add_bit_def byte_def poke_def peek_def i nat_less_iff split: if_splits)
  have bits: "bit ?new k \<longleftrightarrow> (if int k < b mod 8 then bit (data ! nat (b div 8)) k else int k = b mod 8 \<and> v)"
    if "k < 8" for k
  proof -
    have "\<not> bit byte k" if "\<not> int k < b mod 8"
      using ok that \<open>k < 8\<close> by (auto simp: c cursor_ok_def byte_def)
    moreover have "bit byte k = bit (data ! nat (b div 8)) k" if "int k < b mod 8"
      using that by (auto simp: byte_def)
    moreover have "bit (push_bit (nat (b mod 8)) (of_bool v :: 8 word)) k \<longleftrightarrow> int k = b mod 8 \<and> v"
      using \<open>k < 8\<close> by (cases v) (auto simp: bit_exp_iff)
    ultimately show ?thesis
      by (auto simp: bit_or_iff)
  qed
  have div: "nat (i div 8) = nat (b div 8) \<longleftrightarrow> i div 8 = b div 8" if "0 \<le> i" for i
    using that b(1) by (simp add: eq_nat_nat_iff pos_imp_zdiv_nonneg_iff)
  have "bit_at (snd c') i = (if i < b then bit_at data i else v)" if "0 \<le> i" "i < b + 1" for i
  proof (cases "i div 8 = b div 8")
    case True
    have "nat (i mod 8) < 8"
      by (simp add: nat_less_iff)
    moreover have "int (nat (i mod 8)) < b mod 8 \<longleftrightarrow> i < b"
      using True by simp presburger
    moreover have "int (nat (i mod 8)) = b mod 8 \<longleftrightarrow> i = b"
      using True by simp presburger
    ultimately show ?thesis
      using bits [of "nat (i mod 8)"] b that True by (auto simp: bit_at_def c' nat_less_iff)
  next
    case False
    then show ?thesis
      using that b div [OF that(1)] by (auto simp: bit_at_def c')
  qed
  moreover have "cursor_ok c'"
  proof -
    have "\<not> bit (data[nat (b div 8) := ?new] ! nat ((b + 1) div 8)) k"
      if k: "(b + 1) mod 8 \<noteq> 0" "(b + 1) mod 8 \<le> int k" "k < 8" for k
    proof -
      have b8: "b = 8 * (b div 8) + b mod 8" "0 \<le> b mod 8" "b mod 8 < 8"
        by simp_all
      moreover have "b mod 8 \<noteq> 7"
      proof
        assume "b mod 8 = 7"
        then show False
          using k(1) mod_add_left_eq [of b 8 1] by simp
      qed
      ultimately have eq: "b + 1 = 8 * (b div 8) + (b mod 8 + 1)" and small: "b mod 8 + 1 < 8"
        by linarith+ 
      have same: "(b + 1) div 8 = b div 8" "(b + 1) mod 8 = b mod 8 + 1"
        using int_div_pos_eq [OF eq _ small] int_mod_pos_eq [OF eq _ small] b8(2) by simp_all
      have "nat (b div 8) < length data"
        using b by (simp add: nat_less_iff)
      moreover have "\<not> bit ?new k"
        unfolding bits [OF k(3)] using k(2) same(2) by simp
      ultimately show ?thesis
        unfolding same(1) by simp
    qed
    then show ?thesis
      using ok b by (simp add: c c' cursor_ok_def)
  qed
  ultimately show ?thesis
    using b by (auto simp: emits_def c c')
qed

text \<open>A bit source that yields the bits \<open>bs\<close> from position \<open>b\<close> on.\<close>

definition supplies :: "(int \<Rightarrow> (int \<times> int) option) \<Rightarrow> int \<Rightarrow> bool list \<Rightarrow> bool" where
  "supplies source b bs \<longleftrightarrow>
     (\<forall>j < length bs. source (b + int j) = Some (of_bool (bs ! j), b + int j + 1))"

lemma supplies_Cons:
  "supplies source b (v # bs) \<longleftrightarrow> source b = Some (of_bool v, b + 1) \<and> supplies source (b + 1) bs"
proof -
  have "(\<forall>j < Suc (length bs). P j) \<longleftrightarrow> P 0 \<and> (\<forall>j < length bs. P (Suc j))" for P
    by (auto simp: less_Suc_eq_0_disj)
  then show ?thesis
    by (simp add: supplies_def algebra_simps)
qed

lemma supplies_append:
  "supplies source b (bs @ cs) \<longleftrightarrow> supplies source b bs \<and> supplies source (b + int (length bs)) cs"
  by (induction bs arbitrary: b) (simp_all add: supplies_Cons algebra_simps, simp add: supplies_def)

lemma get_bit_at:
  assumes "0 \<le> i" "i div 8 < int (length data)" "i < 2147483647"
  shows "get_bit data i = Some (of_bool (bit_at data i), i + 1)"
proof -
  have "drop_bit k (w :: 8 word) AND 1 = of_bool (bit w k)" for w k
    by (simp add: and_one_eq mod_2_eq_odd bit_iff_odd_drop_bit)
  then show ?thesis
    using assms by (simp add: get_bit_def peek_def bit_at_def i32_id)
qed

section \<open>Codes\<close>

text \<open>Following \<open>bs\<close> down the tree.\<close>

fun leads :: "huff_t \<Rightarrow> nat \<Rightarrow> bool list \<Rightarrow> nat \<Rightarrow> bool" where
  "leads st n [] m \<longleftrightarrow> n = m"
| "leads st n (b # bs) m \<longleftrightarrow> n < length (hf_nodeList st) \<and> nd_symbol (hf_nodeList st ! n) = INTERNAL_NODE \<and>
     (\<exists>k. (if b then nd_right (hf_nodeList st ! n) else nd_left (hf_nodeList st ! n)) = Some k \<and> leads st k bs m)"

lemma leads_append: "leads st n (bs @ cs) m \<longleftrightarrow> (\<exists>k. leads st n bs k \<and> leads st k cs m)"
  by (induction bs arbitrary: n) auto

lemma walk_down_leads:
  assumes "leads st n bs m" "supplies source b bs" "length bs \<le> fuel" "m < length (hf_nodeList st)"
    "nd_symbol (hf_nodeList st ! m) \<noteq> INTERNAL_NODE"
  shows "walk_down fuel st source (Some n) b = Some (At_leaf m, b + int (length bs))"
  using assms
proof (induction bs arbitrary: n b fuel)
  case Nil
  then show ?case
    by (simp add: deref_def peek_def)
next
  case (Cons v bs)
  obtain f where fuel: "fuel = Suc f" "length bs \<le> f"
    using Cons.prems(3) by (cases fuel) auto
  obtain k where k: "(if v then nd_right (hf_nodeList st ! n) else nd_left (hf_nodeList st ! n)) = Some k"
    and rest: "leads st k bs m"
    using Cons.prems(1) by auto
  have "source b = Some (of_bool v, b + 1)" "supplies source (b + 1) bs"
    using Cons.prems(2) by (simp_all add: supplies_Cons)
  then show ?case
    using Cons.IH [OF rest _ fuel(2) Cons.prems(4,5)] Cons.prems(1) k
    by (cases v) (simp_all add: fuel deref_def peek_def)
qed

lemma edge_leads:
  assumes ok: "linked b st" and n: "n < b" "nd_parent (hf_nodeList st ! n) = Some p"
    and c: "cursor_ok c" "emits c bs c1" "leads st r bs p"
    and add: "add_bit (if nd_right (hf_nodeList st ! p) = Some n then 1 else 0) c1 = Some c'"
  shows "\<exists>v. emits c (bs @ [v]) c' \<and> leads st r (bs @ [v]) n"
proof -
  let ?v = "nd_right (hf_nodeList st ! p) = Some n"
  have t: "tree_ok b st"
    using ok by (simp add: linked_def)
  have "p < length (hf_nodeList st)"
    using tree_ok_parent [OF t n] tree_ok_lengths [OF t] by simp
  then have "leads st p [?v] n"
    using tree_ok_parent [OF t n] by auto
  moreover have "emits c1 [?v] c'"
    using add c(2) by (intro add_bit_emits) (auto simp: emits_def of_bool_def)
  ultimately show ?thesis
    using c emits_append leads_append by blast
qed

lemma huffman_send_leads:
  assumes ok: "linked b st" and "n < b" "nd_parent (hf_nodeList st ! n) = Some p"
    and "cursor_ok c" "huffman_send k st (Some p) (Some n) c = Some c'"
  shows "\<exists>bs r. emits c bs c' \<and> length bs \<le> Suc k \<and> hf_tree st = Some r \<and> leads st r bs n"
  using assms(2-5)
proof (induction k arbitrary: n p c')
  case (0 n p c')
  have p: "p < b"
    using tree_ok_parent ok 0(1,2) by (auto simp: linked_def)
  have "nd_parent (hf_nodeList st ! p) = None"
    and add: "add_bit (if nd_right (hf_nodeList st ! p) = Some n then 1 else 0) c = Some c'"
    using 0(4) by (auto simp: huffman_send.simps bind_eq_Some_conv deref_eq_Some split: if_splits)
  then have "hf_tree st = Some p"
    using tree_ok_root ok p by (auto simp: linked_def)
  then show ?case
    using edge_leads [OF ok 0(1-3) emits_Nil [OF 0(3)] _ add, of p] by auto
next
  case (Suc k n p c')
  have p: "p < b"
    using tree_ok_parent ok Suc.prems(1,2) by (auto simp: linked_def)
  obtain c1 where up: "(if nd_parent (hf_nodeList st ! p) \<noteq> None
      then huffman_send k st (nd_parent (hf_nodeList st ! p)) (Some p) c else Some c) = Some c1"
    and add: "add_bit (if nd_right (hf_nodeList st ! p) = Some n then 1 else 0) c1 = Some c'"
    using Suc.prems(4) by (auto simp: huffman_send.simps bind_eq_Some_conv deref_eq_Some cong: if_cong)
  have "\<exists>bs r. emits c bs c1 \<and> length bs \<le> Suc k \<and> hf_tree st = Some r \<and> leads st r bs p"
  proof (cases "nd_parent (hf_nodeList st ! p)")
    case None
    then show ?thesis
      using up tree_ok_root [of b st p] ok p emits_Nil [OF Suc.prems(3)] by (intro exI [of _ "[]"]) (auto simp: linked_def)
  next
    case (Some q)
    then show ?thesis
      using up by (intro Suc.IH [OF p Some Suc.prems(3)]) simp
  qed
  then show ?case
    using edge_leads [OF ok Suc.prems(1-3) _ _ add] by force
qed

lemma send_code_leads:
  assumes ok: "linked b st" and n: "n < b" and c: "cursor_ok c" "send_code st (Some n) c = Some c'"
  shows "\<exists>bs r. emits c bs c' \<and> length bs \<le> HUFFMAN_NODE_POOL_COUNT \<and> hf_tree st = Some r \<and> leads st r bs n"
proof (cases "nd_parent (hf_nodeList st ! n)")
  case None
  then have "c' = c"
    using c(2) by (auto simp: send_code_def bind_eq_Some_conv deref_eq_Some)
  then show ?thesis
    using tree_ok_root [OF _ n None] ok emits_Nil [OF c(1)] by (intro exI [of _ "[]"]) (auto simp: linked_def)
next
  case (Some p)
  then have "huffman_send (HUFFMAN_NODE_POOL_COUNT - 1) st (Some p) (Some n) c = Some c'"
    using c(2) by (auto simp: send_code_def bind_eq_Some_conv deref_eq_Some)
  from huffman_send_leads [OF ok n Some c(1) this] show ?thesis
    by simp
qed

text \<open>The literal byte behind an NYT code, most significant bit first.\<close>

fun literal_bits :: "nat \<Rightarrow> int \<Rightarrow> bool list" where
  "literal_bits 0 s = []"
| "literal_bits (Suc n) s = odd (s div 2 ^ n) # literal_bits n s"

lemma length_literal_bits [simp]: "length (literal_bits n s) = n"
  by (induction n) simp_all

lemma add_literal_emits:
  "cursor_ok c \<Longrightarrow> add_literal n s c = Some c' \<Longrightarrow> emits c (literal_bits n s) c'"
proof (induction n arbitrary: c)
  case 0
  then show ?case
    by (simp add: emits_Nil)
next
  case (Suc n)
  obtain c1 where c1: "add_bit (of_bool (odd (s div 2 ^ n))) c = Some c1" and rest: "add_literal n s c1 = Some c'"
    using Suc.prems(2) by (auto simp: bind_eq_Some_conv mod_2_eq_odd)
  have "emits c [odd (s div 2 ^ n)] c1"
    using add_bit_emits [OF Suc.prems(1) c1] .
  moreover from this have "cursor_ok c1"
    by (simp add: emits_def)
  ultimately show ?case
    using emits_append [OF Suc.prems(1)] Suc.IH [OF _ rest] by fastforce
qed

lemma read_literal_bits:
  "supplies (Huff_getBit input) b (literal_bits n s) \<Longrightarrow>
   read_literal input n a b = Some (a * 2 ^ n + s mod 2 ^ n, b + int n)"
proof (induction n arbitrary: a b)
  case (Suc n)
  have "s mod (2 ^ n * 2) = 2 ^ n * (s div 2 ^ n mod 2) + s mod 2 ^ n"
    by (rule zmod_zmult2_eq) simp
  then show ?case
    using Suc by (simp add: supplies_Cons mod_2_eq_odd algebra_simps)
qed simp

lemma bounded_supplies:
  assumes "supplies (Huff_getBit input) b bs" "b + int (length bs) \<le> count"
  shows "supplies (bounded_bit input count) b bs"
  using assms by (auto simp: supplies_def bounded_bit_def)

text \<open>What \<open>Huff_transmit\<close> writes, one round of the decompressor reads.\<close>

lemma transmit_received:
  assumes ok: "linked b st" and c: "cursor_ok c" and send: "Huff_transmit st (uint s) c = Some c'"
  shows "\<exists>bs. emits c bs c' \<and> (\<forall>input count n out.
     supplies (Huff_getBit input) (fst c) bs \<longrightarrow> fst c' \<le> count \<longrightarrow>
     decompress_bytes (Suc n) st input count (fst c) out =
     (do { st1 \<leftarrow> Huff_addRef st s; decompress_bytes n st1 input count (fst c') (out @ [s]) }))"
proof -
  have t: "tree_ok b st"
    using ok by (simp add: linked_def)
  note len = tree_ok_lengths [OF t]
  have s: "uint s < 256" "0 \<le> uint s"
    using uint_lt2p [of s] by simp_all
  then have us: "unat s < 256"
    by (simp add: unat_eq_nat_uint nat_less_iff del: nat_uint_eq)
  have known: "peek (hf_loc st) (uint s) = Some (hf_loc st ! unat s)" "peek (hf_loc st) NYT = Some (hf_loc st ! 256)"
    using s len by (simp_all add: peek_def)
  have coded: "\<exists>bs. emits c bs c1 \<and> (\<forall>input count n out.
      supplies (Huff_getBit input) (fst c) bs \<longrightarrow> fst c1 \<le> count \<longrightarrow>
      walk_down HUFFMAN_NODE_POOL_COUNT st (bounded_bit input count) (hf_tree st) (fst c) =
        Some (At_leaf m, fst c1)) \<and> deref st (Some m) = Some (hf_nodeList st ! m) \<and>
      nd_symbol (hf_nodeList st ! m) = int i"
    if m: "hf_loc st ! i = Some m" "i < 257" "send_code st (Some m) c = Some c1" for m i c1
  proof -
    have mb: "m < b" "nd_symbol (hf_nodeList st ! m) = int i"
      using tree_ok_loc [OF t m(2,1)] by simp_all
    obtain bs r where bs: "emits c bs c1" "length bs \<le> HUFFMAN_NODE_POOL_COUNT" "hf_tree st = Some r" "leads st r bs m"
      using send_code_leads [OF ok mb(1) c m(3)] by blast
    have "walk_down HUFFMAN_NODE_POOL_COUNT st (bounded_bit input count) (hf_tree st) (fst c) = Some (At_leaf m, fst c1)"
      if "supplies (Huff_getBit input) (fst c) bs" "fst c1 \<le> count" for input count
    proof -
      have eq: "fst c1 = fst c + int (length bs)"
        using bs(1) by (simp add: emits_def)
      have "supplies (bounded_bit input count) (fst c) bs"
        by (rule bounded_supplies [OF that(1)]) (use that(2) eq in simp)
      then show ?thesis
        unfolding bs(3) eq using bs(2,4) m(2) mb len by (intro walk_down_leads) simp_all
    qed
    then show ?thesis
      using bs(1) mb len by (intro exI [of _ bs]) (simp add: deref_def peek_def)
  qed
  show ?thesis
  proof (cases "hf_loc st ! unat s")
    case (Some m)
    then have "send_code st (Some m) c = Some c'"
      using send known by (simp add: Huff_transmit_def)
    with coded [OF Some] us obtain bs where bs: "emits c bs c'"
      and walk: "\<And>input count. supplies (Huff_getBit input) (fst c) bs \<Longrightarrow> fst c' \<le> count \<Longrightarrow>
        walk_down HUFFMAN_NODE_POOL_COUNT st (bounded_bit input count) (hf_tree st) (fst c) = Some (At_leaf m, fst c')"
      and leaf: "deref st (Some m) = Some (hf_nodeList st ! m)" "nd_symbol (hf_nodeList st ! m) = int (unat s)"
      by auto
    have "int (unat s) \<noteq> NYT" "word_of_int (int (unat s)) = s"
      using s by simp_all
    then show ?thesis
      using bs walk leaf by (intro exI [of _ bs]) simp
  next
    case None
    obtain m where m: "hf_loc st ! 256 = Some m"
      using send known None by (auto simp: Huff_transmit_def split: if_splits)
    then obtain c1 where c1: "send_code st (Some m) c = Some c1" and lit: "add_literal 8 (uint s) c1 = Some c'"
      using send known None by (auto simp: Huff_transmit_def bind_eq_Some_conv)
    from coded [OF m _ c1] obtain bs where bs: "emits c bs c1"
      and walk: "\<And>input count. supplies (Huff_getBit input) (fst c) bs \<Longrightarrow> fst c1 \<le> count \<Longrightarrow>
        walk_down HUFFMAN_NODE_POOL_COUNT st (bounded_bit input count) (hf_tree st) (fst c) = Some (At_leaf m, fst c1)"
      and leaf: "deref st (Some m) = Some (hf_nodeList st ! m)" "nd_symbol (hf_nodeList st ! m) = NYT"
      by auto
    have "cursor_ok c1"
      using bs by (simp add: emits_def)
    then have lits: "emits c1 (literal_bits 8 (uint s)) c'"
      using add_literal_emits lit by blast
    then have c': "fst c' = fst c1 + 8"
      by (simp add: emits_def)
    have c1': "fst c1 = fst c + int (length bs)"
      using bs by (simp add: emits_def)
    have "decompress_bytes (Suc n) st input count (fst c) out =
        (do { st1 \<leftarrow> Huff_addRef st s; decompress_bytes n st1 input count (fst c') (out @ [s]) })"
      if sup: "supplies (Huff_getBit input) (fst c) (bs @ literal_bits 8 (uint s))" and le: "fst c' \<le> count"
      for input count n out
    proof -
      have "read_literal input 8 0 (fst c1) = Some (uint s, fst c')"
        using read_literal_bits [of input "fst c1" 8 "uint s" 0] sup s c' by (simp add: supplies_append c1')
      moreover have "\<not> count - fst c1 < 8"
        using le c' by simp
      ultimately show ?thesis
        using walk [of input count] sup le leaf c' by (simp add: supplies_append)
    qed
    then show ?thesis
      using emits_append [OF c bs lits] by blast
  qed
qed

lemma retail_deref [simp]: "deref (retail t st) p = deref st p"
  by (rule retail_access)

lemma retail_walk_down [simp]: "walk_down n (retail t st) source p b = walk_down n st source p b"
  by (induction n st source p b rule: walk_down.induct)
    (auto split: nat.split option.split intro!: Option.bind_cong)

lemma retail_decompress [simp]:
  "decompress_bytes n (retail t st) input count b out = decompress_bytes n st input count b out"
proof (induction n arbitrary: st b out)
  case (Suc n)
  have tree: "hf_tree (retail t st) = hf_tree st"
    by (simp add: retail_fields)
  show ?case
    unfolding decompress_bytes.simps tree retail_walk_down retail_deref retail_addRef map_option_bind
    by (simp only: Suc.IH)
qed simp

lemma compress_decompressed:
  "coder st \<Longrightarrow> cursor_ok c \<Longrightarrow> compress_bytes st bytes c = Some c' \<Longrightarrow>
   \<exists>bs. emits c bs c' \<and> (\<forall>input count out. supplies (Huff_getBit input) (fst c) bs \<longrightarrow> fst c' \<le> count \<longrightarrow>
     decompress_bytes (length bytes) st input count (fst c) out = Some (Some (out @ bytes)))"
proof (induction bytes arbitrary: st c)
  case Nil
  then show ?case
    by (auto intro!: exI [of _ "[]"] emits_Nil)
next
  case (Cons s bytes)
  obtain c1 st1 where send: "Huff_transmit st (uint s) c = Some c1" and add: "Huff_addRef st s = Some st1"
    and rest: "compress_bytes st1 bytes c1 = Some c'"
    using Cons.prems(3) by (auto simp: bind_eq_Some_conv)
  obtain b where b: "linked b st"
    using coder_linked [OF Cons.prems(1)] by blast
  obtain bs where bs: "emits c bs c1"
    and step: "\<And>input count n out. supplies (Huff_getBit input) (fst c) bs \<Longrightarrow> fst c1 \<le> count \<Longrightarrow>
      decompress_bytes (Suc n) st input count (fst c) out =
      decompress_bytes n st1 input count (fst c1) (out @ [s])"
    using transmit_received [OF b Cons.prems(2) send] add by auto
  have "cursor_ok c1"
    using bs by (simp add: emits_def)
  then obtain cs where cs: "emits c1 cs c'"
    and IH: "\<And>input count out. supplies (Huff_getBit input) (fst c1) cs \<Longrightarrow> fst c' \<le> count \<Longrightarrow>
     decompress_bytes (length bytes) st1 input count (fst c1) out = Some (Some (out @ bytes))"
    using Cons.IH [OF coder_addRef [OF Cons.prems(1) add] _ rest] by blast
  have pos: "fst c1 = fst c + int (length bs)" "fst c1 \<le> fst c'"
    using bs cs by (simp_all add: emits_def)
  have "decompress_bytes (length (s # bytes)) st input count (fst c) out = Some (Some (out @ s # bytes))"
    if "supplies (Huff_getBit input) (fst c) (bs @ cs)" "fst c' \<le> count" for input count out
    using that step [of input count "length bytes" out] IH [of input count "out @ [s]"] pos
    by (simp add: supplies_append)
  then show ?case
    using emits_append [OF Cons.prems(2) bs cs] by blast
qed

lemma emitted_supplies:
  assumes e: "emits (b, data) bs (b', data')" and b: "0 \<le> b"
    and input: "take n input = take n data'" "b' \<le> 8 * int n" "n \<le> length input" "n \<le> length data'"
  shows "supplies (Huff_getBit input) b bs"
  unfolding supplies_def
proof (intro allI impI)
  fix j
  assume j: "j < length bs"
  have "b + int j < 8 * int n" "b + int j < 2147483647"
    using e j input(2) by (auto simp: emits_def cursor_ok_def)
  then have pos: "0 \<le> b + int j" "(b + int j) div 8 < int n" "b + int j < 2147483647"
    using b by auto
  then have i: "nat ((b + int j) div 8) < n"
    by (simp add: nat_less_iff)
  have "bit_at data' (b + int j) = bs ! j"
    using e j by (simp add: emits_def)
  moreover have "bit_at input (b + int j) = bit_at data' (b + int j)"
    unfolding bit_at_def using i input(1) nth_take [of "nat ((b + int j) div 8)" n]
    by (metis nth_take)
  moreover have "get_bit input (b + int j) = Some (of_bool (bit_at input (b + int j)), b + int j + 1)"
    using pos input(3) by (intro get_bit_at) auto
  ultimately show "Huff_getBit input (b + int j) = Some (of_bool (bs ! j), b + int j + 1)"
    by (simp add: Huff_getBit_def)
qed

lemma compressed_message:
  assumes pack: "Huff_Compress scratch m off = Some m'" and scratch: "length scratch \<le> 65536"
    and window: "0 \<le> off" "off < m_cursize m" "m_cursize m - off < 65536"
  obtains bytes packed where
    "copy_out (m_data m) off (m_cursize m - off) = Some bytes"
    "m_cursize m' = off + int (length packed)" "3 \<le> length packed"
    "take (nat (m_cursize m')) (m_data m') = take (nat off) (m_data m) @ packed"
    "\<And>rest. peek (packed @ rest) 0 = Some (word_of_int ((m_cursize m - off) div 256))"
    "\<And>rest. peek (packed @ rest) 1 = Some (word_of_int (m_cursize m - off))"
    "\<And>rest. decompress_bytes (nat (m_cursize m - off)) (initial_huff (Some 0)) (packed @ rest)
       (int (length packed) * 8) 16 [] = Some (Some bytes)"
    "m' = m\<lparr>m_cursize := m_cursize m', m_data := m_data m'\<rparr>"
proof -
  define len where "len = m_cursize m - off"
  have len: "0 < len" "len < 65536" "i32 len = len"
    using window by (simp_all add: len_def i32_id)
  obtain bytes o1 o2 bloc out packed data where
    bytes: "copy_out (m_data m) off len = Some bytes"
    and o1: "poke scratch 0 (word_of_int (len div 256)) = Some o1"
    and o2: "poke o1 1 (word_of_int len) = Some o2"
    and comp: "compress_bytes (initial_huff None) bytes (16, o2) = Some (bloc, out)"
    and packed: "copy_out out 0 (i32 (bloc + 8) div 8) = Some packed"
    and data: "copy_in (m_data m) off packed = Some data"
    and m': "m' = m\<lparr>m_cursize := off + i32 (bloc + 8) div 8, m_data := data\<rparr>"
    using pack len unfolding Huff_Compress_def len_def [symmetric] Let_def
    by (auto simp: bind_eq_Some_conv)
  have o2_eq: "o2 = scratch[0 := word_of_int (len div 256), Suc 0 := word_of_int len]"
    using o1 o2 by (auto simp: poke_eq_Some)
  have "cursor_ok (16, o2)"
    using scratch o1 o2 by (auto simp: cursor_ok_def o2_eq poke_eq_Some)
  then obtain bs where bs: "emits (16, o2) bs (bloc, out)"
    and dec: "\<And>input count. supplies (Huff_getBit input) 16 bs \<Longrightarrow> bloc \<le> count \<Longrightarrow>
      decompress_bytes (length bytes) (initial_huff None) input count 16 [] = Some (Some bytes)"
    using compress_decompressed [OF coder_init _ comp] by auto
  have long: "1 < length scratch" "scratch \<noteq> []"
    using o1 o2 by (auto simp: poke_eq_Some)
  have bloc: "16 \<le> bloc" "bloc \<le> 524288" and out: "length out = length scratch"
    using bs scratch by (auto simp: emits_def cursor_ok_def o2_eq)
  then have i: "i32 (bloc + 8) = bloc + 8"
    by (simp add: i32_id)
  define size where "size = (bloc + 8) div 8"
  have size: "3 \<le> size" "bloc \<le> 8 * size" "size \<le> 65536" "size \<le> int (length out)"
    using bloc packed out scratch by (auto simp: size_def i copy_out_def split: if_splits)
  have packed_eq: "packed = take (nat size) out"
    using packed size by (simp add: i size_def [symmetric] copy_out_def split: if_splits)
  then have plen: "length packed = nat size"
    using size by simp
  have data_eq: "data = take (nat off) (m_data m) @ packed @ drop (nat off + nat size) (m_data m)"
    and room: "off + size \<le> int (length (m_data m))"
    using data size by (auto simp: copy_in_def plen split: if_splits)
  have byte: "out ! n = o2 ! n" if "n < 2" for n
  proof (rule bit_word_eqI)
    fix k
    assume k: "k < LENGTH(8)"
    have "bit_at out (8 * int n + int k) = bit_at o2 (8 * int n + int k)"
      using bs that k by (simp add: emits_def)
    then show "bit (out ! n) k \<longleftrightarrow> bit (o2 ! n) k"
      using k by (simp add: bit_at_def)
  qed
  have head: "peek (packed @ rest) 0 = Some (word_of_int (len div 256))" "peek (packed @ rest) 1 = Some (word_of_int len)" for rest
    using size out long byte [of 0] byte [of 1] by (simp_all add: peek_def packed_eq nth_append o2_eq)
  have "supplies (Huff_getBit (packed @ rest)) 16 bs" for rest
    using bs by (rule emitted_supplies [of 16 o2 bs bloc out "nat size"]) (use size out in \<open>auto simp: packed_eq\<close>)
  moreover have "initial_huff (Some 0) = retail (Some 0) (initial_huff None)"
    by (simp add: initial_huff_def retail_def)
  moreover have "length bytes = nat len"
    using copy_out_length [OF bytes] .
  ultimately have dec': "decompress_bytes (nat len) (initial_huff (Some 0)) (packed @ rest) (int (length packed) * 8) 16 [] =
      Some (Some bytes)" for rest
    using dec [of "packed @ rest" "size * 8"] size plen by simp
  have cur: "m_cursize m' = off + int (length packed)"
    using size by (simp add: m' i size_def [symmetric] plen)
  have "nat (m_cursize m') = nat off + length packed"
    using window(1) by (simp add: cur nat_add_distrib)
  then have "take (nat (m_cursize m')) (m_data m') = take (nat off) (m_data m) @ packed"
    using room window(1) size(1) by (simp add: m' data_eq)
  with head dec' show ?thesis
    using bytes size plen cur unfolding len_def by (intro that [of bytes packed]) (simp_all add: m')
qed

text \<open>A receiver of the compressed bytes restores the message they were made of.\<close>

lemma huffman_received:
  assumes pack: "Huff_Compress scratch m off = Some m'" and scratch: "length scratch \<le> 65536"
    and window: "0 \<le> off" "off \<le> m_cursize m" "m_cursize m - off < 65536"
    and r: "m_cursize r = m_cursize m'" "take (nat (m_cursize m')) (m_data r) = take (nat (m_cursize m')) (m_data m')"
    and fits: "m_cursize m' \<le> m_maxsize r" "m_cursize m \<le> m_maxsize r" "m_cursize m \<le> int (length (m_data r))"
  shows "\<exists>data. Huff_Decompress r off = Some (True, r\<lparr>m_cursize := m_cursize m, m_data := data\<rparr>) \<and>
    take (nat (m_cursize m)) data = take (nat (m_cursize m)) (m_data m)"
proof (cases "m_cursize m = off")
  case True
  then have "m' = m"
    using pack by (simp add: Huff_Compress_def i32_id)
  then show ?thesis
    using True window r fits by (intro exI [of _ "m_data r"]) (simp add: Huff_Decompress_def)
next
  case False
  define len where "len = m_cursize m - off"
  have len: "0 < len" "len < 65536"
    using window False by (simp_all add: len_def)
  have off: "off < m_cursize m"
    using window(2) False by simp
  obtain bytes packed where bytes: "copy_out (m_data m) off len = Some bytes"
    and cur: "m_cursize m' = off + int (length packed)" and plen: "3 \<le> length packed"
    and data: "take (nat (m_cursize m')) (m_data m') = take (nat off) (m_data m) @ packed"
    and head: "\<And>rest. peek (packed @ rest) 0 = Some (word_of_int (len div 256))"
      "\<And>rest. peek (packed @ rest) 1 = Some (word_of_int len)"
    and dec: "\<And>rest. decompress_bytes (nat len) (initial_huff (Some 0)) (packed @ rest)
       (int (length packed) * 8) 16 [] = Some (Some bytes)"
    by (rule compressed_message [OF pack scratch window(1) off window(3), folded len_def]) (rule that)
  have bytes_eq: "bytes = take (nat len) (drop (nat off) (m_data m))" and le: "off + len \<le> int (length (m_data m))"
    and lb: "length bytes = nat len"
    using bytes copy_out_length [OF bytes] by (auto simp: copy_out_def split: if_splits)
  have ncur: "nat (m_cursize m') = nat off + length packed"
    using window(1) by (simp add: cur nat_add_distrib)
  have pre: "take (nat off + length packed) (m_data r) = take (nat off) (m_data m) @ packed"
    using r(2) data ncur by simp
  have lo: "length (take (nat off) (m_data m)) = nat off"
    using le len(1) by simp
  define rest where "rest = drop (nat off + length packed) (m_data r)"
  have r_eq: "m_data r = take (nat off) (m_data m) @ packed @ rest"
    using append_take_drop_id [of "nat off + length packed" "m_data r"] pre by (simp add: rest_def)
  have from_off: "from_offset (m_data r) off = Some (packed @ rest)"
    using window(1) lo unfolding from_offset_def r_eq by simp
  have stored: "uint (word_of_int (len div 256) :: 8 word) * 256 + uint (word_of_int len :: 8 word) = len"
    using len by (simp add: uint_word_of_int)
  have total: "off + len = m_cursize m" "nat (m_cursize m) = nat off + nat len"
    using window(1) len(1) by (simp_all add: len_def)
  have "copy_in (m_data r) off bytes = Some (take (nat off) (m_data r) @ bytes @ drop (nat off + length bytes) (m_data r))"
    using window(1) fits(3) total lb len(1) by (simp add: copy_in_def)
  moreover have "take (nat off) (m_data r) = take (nat off) (m_data m)"
    unfolding r_eq using lo by simp
  moreover have "take (nat off + nat len) (m_data m) = take (nat off) (m_data m) @ bytes"
    by (simp add: take_add bytes_eq)
  moreover have "length (take (nat off) (m_data m) @ bytes) = nat off + nat len"
    using lo lb by simp
  ultimately have "\<exists>restored. copy_in (m_data r) off bytes = Some restored \<and>
      take (nat (m_cursize m)) restored = take (nat (m_cursize m)) (m_data m)"
    unfolding total(2) by (metis append.assoc append_eq_conv_conj)
  then show ?thesis
    using window len plen fits dec [of rest] cur r(1) total(1)
    by (auto simp: Huff_Decompress_def from_off head stored Let_def min_def)
qed

lemma huffman_messages_inverse:
  assumes pack: "Huff_Compress scratch m off = Some m'" and scratch: "length scratch \<le> 65536"
    and window: "0 \<le> off" "off \<le> m_cursize m" "m_cursize m \<le> m_maxsize m" "m_cursize m - off < 65536"
    and fits: "m_cursize m' \<le> m_maxsize m"
  shows "\<exists>data. Huff_Decompress m' off = Some (True, m\<lparr>m_data := data\<rparr>) \<and>
    take (nat (m_cursize m)) data = take (nat (m_cursize m)) (m_data m)"
proof (cases "m_cursize m = off")
  case True
  then have "m' = m"
    using pack by (simp add: Huff_Compress_def i32_id)
  then show ?thesis
    using True window by (intro exI [of _ "m_data m"]) (simp add: Huff_Decompress_def)
next
  case False
  then have off: "off < m_cursize m"
    using window by simp
  obtain bytes where bytes: "copy_out (m_data m) off (m_cursize m - off) = Some bytes"
    and m': "m' = m\<lparr>m_cursize := m_cursize m', m_data := m_data m'\<rparr>"
    by (rule compressed_message [OF pack scratch window(1) off window(4)]) (rule that)
  have long: "m_cursize m \<le> int (length (m_data m))"
    using bytes by (auto simp: copy_out_def split: if_splits)
  have "length (m_data m') = length (m_data m)"
    using pack by (auto simp: Huff_Compress_def Let_def bind_eq_Some_conv split: if_splits dest: copy_in_length)
  with huffman_received [OF pack scratch window(1,2,4) refl refl] window(3) fits long
  have "\<exists>data. Huff_Decompress m' off = Some (True, m'\<lparr>m_cursize := m_cursize m, m_data := data\<rparr>) \<and>
    take (nat (m_cursize m)) data = take (nat (m_cursize m)) (m_data m)"
    by (metis m' msg_t.select_convs(3) msg_t.surjective msg_t.update_convs(2) msg_t.update_convs(4))
  moreover have "m'\<lparr>m_cursize := m_cursize m, m_data := data\<rparr> = m\<lparr>m_data := data\<rparr>" for data
    by (subst m') simp
  ultimately show ?thesis
    by simp
qed

section \<open>The fixed tree\<close>

definition trained :: "huffman_t \<Rightarrow> bool" where
  "trained h \<longleftrightarrow> coder (hm_compressor h) \<and> hm_decompressor h = retail (Some 0) (hm_compressor h)"

lemma train_trained: "trained h \<Longrightarrow> train h bytes = Some h' \<Longrightarrow> trained h'"
proof (induction h bytes rule: train.induct)
  case (2 h symbol rest)
  obtain c d where c: "Huff_addRef (hm_compressor h) symbol = Some c" and d: "Huff_addRef (hm_decompressor h) symbol = Some d"
    and rest: "train \<lparr>hm_compressor = c, hm_decompressor = d\<rparr> rest = Some h'"
    using "2.prems"(2) by (auto simp: bind_eq_Some_conv)
  have "trained \<lparr>hm_compressor = c, hm_decompressor = d\<rparr>"
    using "2.prems"(1) c d by (auto simp: trained_def retail_addRef intro: coder_addRef)
  then show ?case
    using "2.IH" c d rest by blast
qed simp

lemma trained_init: "trained Huff_Init"
  unfolding trained_def Huff_Init_def by (simp add: coder_init) (simp add: initial_huff_def retail_def)

text \<open>The root of a tree that has a byte in it branches.\<close>

definition root_branches :: "huff_t \<Rightarrow> bool" where
  "root_branches st \<longleftrightarrow> (case hf_tree st of None \<Rightarrow> False
     | Some r \<Rightarrow> r < length (hf_nodeList st) \<and> nd_symbol (hf_nodeList st ! r) = INTERNAL_NODE)"

lemma byte_code:
  assumes ok: "linked b st" and root: "root_branches st" and c: "cursor_ok c"
    and send: "Huff_offsetTransmit st (uint (s :: 8 word)) (snd c) (fst c) = Some (o1, b1)"
  shows "\<exists>bs m. emits c bs (b1, o1) \<and> bs \<noteq> [] \<and> nd_symbol (hf_nodeList st ! m) = uint s \<and>
    deref st (Some m) = Some (hf_nodeList st ! m) \<and>
    (\<forall>source. supplies source (fst c) bs \<longrightarrow>
      walk_down HUFFMAN_NODE_POOL_COUNT st source (hf_tree st) (fst c) = Some (At_leaf m, b1))"
proof -
  have t: "tree_ok b st"
    using ok by (simp add: linked_def)
  note len = tree_ok_lengths [OF t]
  have s: "uint s < 256"
    using uint_lt2p [of s] by simp
  then have us: "unat s < 257"
    by (simp add: unat_eq_nat_uint nat_less_iff del: nat_uint_eq)
  have "peek (hf_loc st) (uint s) = Some (hf_loc st ! unat s)"
    using s len by (simp add: peek_def)
  then have code: "send_code st (hf_loc st ! unat s) c = Some (b1, o1)"
    using send by (auto simp: Huff_offsetTransmit_def bind_eq_Some_conv)
  then obtain m where m: "hf_loc st ! unat s = Some m"
    by (cases "hf_loc st ! unat s") (auto simp: send_code_def deref_def)
  have mb: "m < b" "nd_symbol (hf_nodeList st ! m) = uint s"
    using tree_ok_loc [OF t us m] by simp_all
  obtain bs r where bs: "emits c bs (b1, o1)" "length bs \<le> HUFFMAN_NODE_POOL_COUNT" "hf_tree st = Some r" "leads st r bs m"
    using send_code_leads [OF ok mb(1) c] code m by fastforce
  have "bs \<noteq> []"
    using root bs(3,4) mb(2) s by (auto simp: root_branches_def)
  moreover have "walk_down HUFFMAN_NODE_POOL_COUNT st source (hf_tree st) (fst c) = Some (At_leaf m, b1)"
    if "supplies source (fst c) bs" for source
    using walk_down_leads [OF bs(4) that bs(2)] mb len s bs(1,3) by (simp add: emits_def)
  ultimately show ?thesis
    using bs(1) mb len by (intro exI [of _ bs] exI [of _ m]) (simp add: deref_def peek_def)
qed

lemma write_compressed_read:
  assumes ok: "linked b st" and root: "root_branches st"
  shows "cursor_ok (pos, data) \<Longrightarrow> write_compressed st bytes data pos = Some (data', pos') \<Longrightarrow>
    \<exists>bs. emits (pos, data) bs (pos', data') \<and>
      (\<forall>source bits room buf n. supplies source pos bs \<longrightarrow> pos' \<le> bits \<longrightarrow> length bytes \<le> room \<longrightarrow>
        n + length bytes \<le> length buf \<longrightarrow>
        read_compressed room st source bits buf (int n) pos =
        read_compressed (room - length bytes) st source bits
          (take n buf @ bytes @ drop (n + length bytes) buf) (int (n + length bytes)) pos')"
proof (induction bytes arbitrary: pos data)
  case Nil
  then show ?case
    by (auto intro!: exI [of _ "[]"] emits_Nil)
next
  case (Cons s bytes)
  obtain o1 b1 where send: "Huff_offsetTransmit st (uint s) data pos = Some (o1, b1)"
    and rest: "write_compressed st bytes o1 b1 = Some (data', pos')"
    using Cons.prems(2) by (auto simp: bind_eq_Some_conv)
  obtain bs m where bs: "emits (pos, data) bs (b1, o1)" "bs \<noteq> []" "nd_symbol (hf_nodeList st ! m) = uint s"
      "deref st (Some m) = Some (hf_nodeList st ! m)"
    and walk: "\<And>source. supplies source pos bs \<Longrightarrow>
      walk_down HUFFMAN_NODE_POOL_COUNT st source (hf_tree st) pos = Some (At_leaf m, b1)"
    using byte_code [OF ok root Cons.prems(1), of s o1 b1] send by auto
  have "cursor_ok (b1, o1)"
    using bs(1) by (auto simp: emits_def)
  then obtain cs where cs: "emits (b1, o1) cs (pos', data')"
    and IH: "\<And>source bits room buf n. supplies source b1 cs \<Longrightarrow> pos' \<le> bits \<Longrightarrow> length bytes \<le> room \<Longrightarrow>
        n + length bytes \<le> length buf \<Longrightarrow>
        read_compressed room st source bits buf (int n) b1 =
        read_compressed (room - length bytes) st source bits
          (take n buf @ bytes @ drop (n + length bytes) buf) (int (n + length bytes)) pos'"
    using Cons.IH [OF _ rest] by blast
  have pos: "b1 = pos + int (length bs)" "pos < b1" "b1 \<le> pos'"
    using bs(1,2) cs by (simp_all add: emits_def)
  have "read_compressed room st source bits buf (int n) pos =
      read_compressed (room - length (s # bytes)) st source bits
        (take n buf @ (s # bytes) @ drop (n + length (s # bytes)) buf) (int (n + length (s # bytes))) pos'"
    if sup: "supplies source pos (bs @ cs)" and le: "pos' \<le> bits" "length (s # bytes) \<le> room" "n + length (s # bytes) \<le> length buf"
    for source bits room buf n
  proof -
    obtain r where r: "room = Suc r" "length bytes \<le> r"
      using le(2) by (cases room) auto
    have buf: "take (Suc n) (buf[n := s]) = take n buf @ [s]" "drop (Suc (n + length bytes)) (buf[n := s]) = drop (Suc (n + length bytes)) buf"
      using le(3) by (simp_all add: take_Suc_conv_app_nth)
    have "read_compressed room st source bits buf (int n) pos = read_compressed r st source bits (buf[n := s]) (int (Suc n)) b1"
      using walk [of source] sup le pos(2,3) bs(3,4)
      by (subst read_compressed.simps) (simp add: supplies_append r poke_def algebra_simps)
    also have "\<dots> = read_compressed (r - length bytes) st source bits
        (take (Suc n) (buf[n := s]) @ bytes @ drop (Suc n + length bytes) (buf[n := s])) (int (Suc n + length bytes)) pos'"
      using sup pos(1) le r(2) by (intro IH) (simp_all add: supplies_append)
    finally show ?thesis
      by (simp add: buf r)
  qed
  then show ?case
    using emits_append [OF Cons.prems(1) bs(1) cs] by blast
qed

lemma padded_supplies:
  assumes "supplies (Huff_getBit data) b bs" "b + int (length bs) \<le> bits"
  shows "supplies (padded_bit data bits) b bs"
  using assms by (auto simp: supplies_def padded_bit_def)

lemma retail_read_compressed [simp]:
  "read_compressed room (retail t st) source bits buf n b = read_compressed room st source bits buf n b"
proof (induction room arbitrary: buf n b)
  case 0
  have tree: "hf_tree (retail t st) = hf_tree st"
    by (simp add: retail_fields)
  show ?case
    by (simp add: read_compressed.simps [of 0] tree cong: walk.case_cong)
next
  case (Suc room)
  have tree: "hf_tree (retail t st) = hf_tree st"
    by (simp add: retail_fields)
  show ?case
    by (simp add: read_compressed.simps [of "Suc room"] tree Suc.IH cong: walk.case_cong)
qed

lemma round_up_8:
  assumes a: "b \<le> j" "j < (b + 7) div 8 * (8 :: int)"
  shows "j div 8 = b div 8" "b mod 8 \<noteq> 0" "b mod 8 \<le> j mod 8"
proof -
  define q where "q = b div 8"
  have "(b + 7) div 8 \<le> (b + 8) div 8"
    by (rule zdiv_mono1) simp_all
  then have "(b + 7) div 8 \<le> q + 1"
    by (simp add: q_def)
  then have "(b + 7) div 8 * 8 \<le> (q + 1) * 8"
    by (rule mult_right_mono) simp
  with a(2) have "j \<le> 8 * q + 7"
    by simp
  then have "j div 8 \<le> (8 * q + 7) div 8"
    by (rule zdiv_mono1) simp
  moreover have "b div 8 \<le> j div 8"
    using a(1) by (simp add: zdiv_mono1)
  ultimately show d: "j div 8 = b div 8"
    by (simp add: q_def)
  have "b - b div 8 * 8 \<le> j - j div 8 * 8"
    using a(1) unfolding d by simp
  then show "b mod 8 \<le> j mod 8"
    by (simp add: minus_div_mult_eq_mod)
  show "b mod 8 \<noteq> 0"
  proof
    assume "b mod 8 = 0"
    then obtain k where "b = 8 * k"
      by (metis mod_0_imp_dvd dvdE)
    then show False
      using a by simp
  qed
qed
lemma fixed_tree_inverse:
  assumes h: "train Huff_Init training = Some h" and root: "root_branches (hm_compressor h)"
    and wrote: "MSG_WriteBitsCompress h input buf len = Some (size', packed)"
    and small: "8 * int (length buf) < 2147483640"
    and room: "len \<le> capacity" "capacity \<le> int (length out)"
  shows "\<exists>b. b \<le> size' * 8 \<and> size' * 8 < b + 8 \<and> (\<forall>i. b \<le> i \<longrightarrow> i < size' * 8 \<longrightarrow> \<not> bit_at packed i) \<and>
    MSG_ReadBitsCompress h packed out size' capacity =
    read_compressed (nat (capacity - len)) (hm_decompressor h) (padded_bit packed (size' * 8)) (size' * 8)
      (take (nat len) input @ drop (nat len) out) len b"
proof -
  have tr: "trained h"
    using train_trained [OF trained_init h] .
  then obtain c where ok: "linked c (hm_compressor h)"
    using coder_linked by (auto simp: trained_def)
  obtain bytes b where bytes: "copy_out input 0 len = Some bytes"
    and wr: "write_compressed (hm_compressor h) bytes buf 0 = Some (packed, b)"
    and sz: "size' = i32 (b + 7) div 8"
    using wrote by (auto simp: MSG_WriteBitsCompress_def bind_eq_Some_conv)
  have bytes_eq: "bytes = take (nat len) input" and lb: "length bytes = nat len" and len: "0 \<le> len"
    using bytes by (auto simp: copy_out_def split: if_splits)
  obtain bs where bs: "emits (0, buf) bs (b, packed)"
    and read: "\<And>source bits room buf n. supplies source 0 bs \<Longrightarrow> b \<le> bits \<Longrightarrow> length bytes \<le> room \<Longrightarrow>
        n + length bytes \<le> length buf \<Longrightarrow>
        read_compressed room (hm_compressor h) source bits buf (int n) 0 =
        read_compressed (room - length bytes) (hm_compressor h) source bits
          (take n buf @ bytes @ drop (n + length bytes) buf) (int (n + length bytes)) b"
    using write_compressed_read [OF ok root _ wr] small by (auto simp: cursor_ok_def)
  have b: "0 \<le> b" "b \<le> 8 * int (length packed)" "length packed = length buf" and clean: "cursor_ok (b, packed)"
    using bs by (auto simp: emits_def cursor_ok_def)
  have i: "i32 (b + 7) = b + 7"
    using b small by (simp add: i32_id)
  have size8: "b \<le> size' * 8" "size' * 8 < b + 8" "0 \<le> size'" "size' \<le> int (length packed)"
    using b unfolding sz i by auto
  have "\<not> bit_at packed j" if "b \<le> j" "j < size' * 8" for j
  proof -
    have "j < (b + 7) div 8 * 8"
      using that(2) unfolding sz i .
    note d = round_up_8 [OF that(1) this]
    have "nat (j mod 8) < 8" "b mod 8 \<le> int (nat (j mod 8))"
      using d(3) by (simp_all add: nat_less_iff)
    then show ?thesis
      using clean d(2) unfolding bit_at_def d(1) by (simp add: cursor_ok_def)
  qed
  moreover have "MSG_ReadBitsCompress h packed out size' capacity =
    read_compressed (nat (capacity - len)) (hm_decompressor h) (padded_bit packed (size' * 8)) (size' * 8)
      (take (nat len) input @ drop (nat len) out) len b"
  proof -
    have "supplies (Huff_getBit packed) 0 bs"
      using bs b by (intro emitted_supplies [of 0 buf bs b packed "length packed"]) simp_all
    then have "supplies (padded_bit packed (size' * 8)) 0 bs"
      using bs size8(1) by (intro padded_supplies) (simp_all add: emits_def)
    from read [OF this size8(1), of "nat capacity" 0 out] room len lb
    have "read_compressed (nat capacity) (hm_compressor h) (padded_bit packed (size' * 8)) (size' * 8) out 0 0 =
      read_compressed (nat (capacity - len)) (hm_compressor h) (padded_bit packed (size' * 8)) (size' * 8)
        (take (nat len) input @ drop (nat len) out) len b"
      by (simp add: bytes_eq nat_diff_distrib)
    moreover have "hm_decompressor h = retail (Some 0) (hm_compressor h)"
      using tr by (simp add: trained_def)
    moreover have "\<not> (size' < 0 \<or> capacity < 0 \<or> 2147483647 div 8 < size')"
      using size8 b small len room by simp
    ultimately show ?thesis
      by (simp add: MSG_ReadBitsCompress_def)
  qed
  ultimately show ?thesis
    using size8 by blast
qed

section \<open>Properties\<close>



text \<open>
  in every state the coder reaches, what \<open>Huff_offsetTransmit\<close> writes for a symbol at a bit
  offset, \<open>Huff_offsetReceive\<close> reads back from there, ending behind the code. The cursor must
  be at a byte boundary or have zero bits above it in its byte, which every write ensures.
\<close>
theorem huffman_symbol_roundtrip:
  assumes "coder st" "cursor_ok (offset, data)" "0 \<le> symbol" "symbol \<le> NYT"
    and "Huff_offsetTransmit st symbol data offset = Some (data', offset')"
  shows "Huff_offsetReceive st (hf_tree st) data' offset = Some (symbol, offset')"
proof -
  obtain b where ok: "linked b st"
    using coder_linked [OF assms(1)] by blast
  then have t: "tree_ok b st"
    by (simp add: linked_def)
  have "peek (hf_loc st) symbol = Some (hf_loc st ! nat symbol)"
    using assms(3,4) tree_ok_lengths [OF t] by (simp add: peek_def)
  then have code: "send_code st (hf_loc st ! nat symbol) (offset, data) = Some (offset', data')"
    using assms(5) by (auto simp: Huff_offsetTransmit_def bind_eq_Some_conv)
  then obtain m where m: "hf_loc st ! nat symbol = Some m"
    by (cases "hf_loc st ! nat symbol") (auto simp: send_code_def deref_def)
  then have mb: "m < b" "nd_symbol (hf_nodeList st ! m) = symbol"
    using tree_ok_loc [OF t _ m] assms(3,4) by simp_all
  obtain bs r where bs: "emits (offset, data) bs (offset', data')" "length bs \<le> HUFFMAN_NODE_POOL_COUNT"
      "hf_tree st = Some r" "leads st r bs m"
    using send_code_leads [OF ok mb(1) assms(2)] code m by fastforce
  have "0 \<le> offset" "offset' \<le> 8 * int (length data')"
    using assms(2) bs(1) by (auto simp: cursor_ok_def emits_def)
  then have "supplies (get_bit data') offset bs"
    using emitted_supplies [OF bs(1), of "length data'" data'] by (simp add: supplies_def Huff_getBit_def)
  then have "walk_down HUFFMAN_NODE_POOL_COUNT st (get_bit data') (Some r) offset = Some (At_leaf m, offset')"
    using walk_down_leads [OF bs(4) _ bs(2)] mb tree_ok_lengths [OF t] assms(4) bs(1) by (simp add: emits_def)
  then show ?thesis
    using mb tree_ok_lengths [OF t] by (simp add: Huff_offsetReceive_def bs(3) deref_def peek_def)
qed

lemma huffman_symbol_roundtrip_witness:
  "Huff_offsetReceive (initial_huff None) (hf_tree (initial_huff None)) [0] 0 = Some (NYT, 0)"
proof (rule huffman_symbol_roundtrip [OF coder_init])
  show "Huff_offsetTransmit (initial_huff None) NYT [0] 0 = Some ([0], 0)"
    by (simp add: Huff_offsetTransmit_def peek_def initial_huff_def zero_huff_def send_code_def deref_def zero_node_def)
qed (simp_all add: cursor_ok_def)


definition sample_message :: msg_t where
  "sample_message = \<lparr>m_overflowed = False, m_data = [1, 2, 7, 0, 0, 0, 0, 0], m_maxsize = 8, m_cursize = 3,
     m_readcount = 0, m_bit = 0\<rparr>"

lemma sample_message_packed:
  "map_option (\<lambda>m. (m_cursize m, take 6 (m_data m))) (Huff_Compress (replicate 8 0) sample_message 2) =
   Some (6, [1, 2, 0, 1, 224, 0])"
  by code_simp


text \<open>
  with the fixed tree, after any training, what \<open>MSG_WriteBitsCompress\<close> makes of a message
  \<open>MSG_ReadBitsCompress\<close> expands to it: the reader's loop stands behind the last byte of the
  original, all of it stored, with less than a byte of zero padding left to decode (a code
  of zero bits in there makes it store further bytes, or fail for want of room).
\<close>
theorem huffman_fixed_tree_roundtrip:
  assumes "train Huff_Init training = Some h" "root_branches (hm_compressor h)"
    and "MSG_WriteBitsCompress h input buf len = Some (size', packed)"
    and "8 * int (length buf) < 2147483640"
    and "len \<le> capacity" "capacity \<le> int (length out)"
  shows "\<exists>b. b \<le> size' * 8 \<and> size' * 8 < b + 8 \<and> (\<forall>i. b \<le> i \<longrightarrow> i < size' * 8 \<longrightarrow> \<not> bit_at packed i) \<and>
    MSG_ReadBitsCompress h packed out size' capacity =
    read_compressed (nat (capacity - len)) (hm_decompressor h) (padded_bit packed (size' * 8)) (size' * 8)
      (take (nat len) input @ drop (nat len) out) len b"
  using assms by (rule fixed_tree_inverse)

lemma sample_training:
  "case train Huff_Init [7] of None \<Rightarrow> False
   | Some h \<Rightarrow> root_branches (hm_compressor h) \<and> MSG_WriteBitsCompress h [7, 7] [0] 2 = Some (1, [3])"
  by code_simp

lemma huffman_fixed_tree_roundtrip_witness:
  "\<exists>h b. train Huff_Init [7] = Some h \<and> 0 < b \<and> b \<le> 8 \<and> MSG_ReadBitsCompress h [3] [0, 0, 0] 1 3 =
     read_compressed 1 (hm_decompressor h) (padded_bit [3] 8) 8 [7, 7, 0] 2 b"
proof -
  obtain h where h: "train Huff_Init [7] = Some h" "root_branches (hm_compressor h)"
      "MSG_WriteBitsCompress h [7, 7] [0] 2 = Some (1, [3])"
    using sample_training by (auto split: option.splits)
  obtain b where "b \<le> 8" "8 < b + 8" "MSG_ReadBitsCompress h [3] [0, 0, 0] 1 3 =
     read_compressed 1 (hm_decompressor h) (padded_bit [3] 8) 8 [7, 7, 0] 2 b"
    using huffman_fixed_tree_roundtrip [OF h, of 3 "[0, 0, 0]"] by (auto simp: numeral_2_eq_2)
  then show ?thesis
    using h(1) by auto
qed

end
