(* ===== verification/Oob_Correct.thy ===== *)
theory Oob_Correct
  imports Oob Huffman_Correct
begin

text \<open>
  The compressed connect packet of a client is expanded by the server to what the client put in.
\<close>

lemma compress_prefix:
  assumes "Huff_Compress scratch m off = Some m'" "0 \<le> off" "off \<le> m_cursize m" "m_cursize m - off < 65536"
  shows "take (nat off) (m_data m') = take (nat off) (m_data m)" "off \<le> m_cursize m'"
proof -
  have "take (nat off) (m_data m') = take (nat off) (m_data m) \<and> off \<le> m_cursize m'"
    using assms
    by (auto simp: Huff_Compress_def Let_def i32_id bind_eq_Some_conv copy_in_def copy_out_def split: if_splits)
  then show "take (nat off) (m_data m') = take (nat off) (m_data m)" "off \<le> m_cursize m'"
    by simp_all
qed

lemma oob_packet_content:
  assumes "oob_packet packet payload = Some p"
  shows "take (4 + length payload) p = replicate 4 255 @ payload" "4 + length payload \<le> length p"
proof -
  obtain marked where m: "copy_in packet 0 (replicate 4 255) = Some marked" and p: "copy_in marked 4 payload = Some p"
    using assms by (auto simp: oob_packet_def bind_eq_Some_conv)
  have m4: "take 4 marked = replicate 4 255" and ml: "4 \<le> length marked"
    using m by (auto simp: copy_in_def split: if_splits)
  have p': "p = take 4 marked @ payload @ drop (4 + length payload) marked" and "4 + length payload \<le> length marked"
    using p by (auto simp: copy_in_def split: if_splits)
  then show "4 + length payload \<le> length p"
    by simp
  show "take (4 + length payload) p = replicate 4 255 @ payload"
    using ml unfolding p' m4 by simp
qed

lemma take_le_eq: "take n xs = ys \<Longrightarrow> k \<le> n \<Longrightarrow> take k xs = take k ys"
  by (metis min.absorb1 take_take)


definition sample_server :: netadr_t where
  "sample_server = \<lparr>a_type = NA_IP, a_ip = [10, 0, 0, 1], a_ipx = [], a_port = 28960\<rparr>"

lemma sample_connect:
  "map_option snd (NET_OutOfBandData (replicate 20 0) (replicate 8 0) (\<lambda>_. \<lparr>l_msgs = [], l_get = 0, l_send = 0\<rparr>, []) NS_CLIENT sample_server
     (map byte_of ''connect x'') 9) =
   Some [([255, 255, 255, 255, 99, 111, 110, 110, 101, 99, 116, 32, 0, 1, 30, 0], sample_server)]"
  by code_simp


end
