(* ===== verification/DeltaPlayer_Correct.thy ===== *)
theory DeltaPlayer_Correct
  imports DeltaPlayer Delta_Correct
begin

text \<open>
  The player state on the wire: what a state, its counters, its objectives and its display write,
  and that the receiver, who starts from the same older state, arrives at the state that was
  sent, for every change the descriptors can express; and that it survives every message.
\<close>

section \<open>Members\<close>

definition ps_value :: "playerState_t \<Rightarrow> netField_t \<Rightarrow> int" where
  "ps_value ps f = (if nf_offset f = DELTA_TIME_OFFSET then ps_deltaTime ps else ps_head ps ! place f)"

definition ps_put :: "playerState_t \<Rightarrow> netField_t \<Rightarrow> int \<Rightarrow> playerState_t" where
  "ps_put ps f v = (if nf_offset f = DELTA_TIME_OFFSET then ps\<lparr>ps_deltaTime := v\<rparr>
     else ps\<lparr>ps_head := (ps_head ps)[place f := v]\<rparr>)"

definition ps_table_ok :: "netField_t list \<Rightarrow> bool" where
  "ps_table_ok fs \<longleftrightarrow> list_all (\<lambda>f. (nf_offset f = DELTA_TIME_OFFSET \<or> 0 \<le> nf_offset f \<and> nf_offset f div 4 < 398) \<and>
     (\<bar>nf_bits f\<bar> \<le> 32 \<or> nf_bits f = -100)) fs"

lemma ps_table_ok_simps [simp]:
  "ps_table_ok []"
  "ps_table_ok (f # fs) \<longleftrightarrow> (nf_offset f = DELTA_TIME_OFFSET \<or> 0 \<le> nf_offset f \<and> nf_offset f div 4 < 398) \<and>
     (\<bar>nf_bits f\<bar> \<le> 32 \<or> nf_bits f = -100) \<and> ps_table_ok fs"
  "ps_table_ok (fs @ gs) \<longleftrightarrow> ps_table_ok fs \<and> ps_table_ok gs"
  by (simp_all add: ps_table_ok_def)

lemma ps_table_ok_take [simp]: "ps_table_ok fs \<Longrightarrow> ps_table_ok (take k fs)"
  by (metis append_take_drop_id ps_table_ok_simps(3))

lemma player_tables:
  "ps_table_ok msg_playerStateNetFields" "table_ok 7 msg_objectiveNetFields" "table_ok 31 msg_hudElemNetFields"
  "length msg_playerStateNetFields = 114" "length msg_objectiveNetFields = 6" "length msg_hudElemNetFields = 30"
  by code_simp+

lemma ps_member_Some:
  "ps_table_ok [f] \<Longrightarrow> length (ps_head ps) = 398 \<Longrightarrow> ps_member ps f = Some (ps_value ps f)"
  "ps_table_ok [f] \<Longrightarrow> length (ps_head ps) = 398 \<Longrightarrow> set_ps_member ps f v = Some (ps_put ps f v)"
  by (auto simp: ps_member_def ps_value_def set_ps_member_def ps_put_def member_simps)

lemma ps_put_frame [simp]:
  "length (ps_head (ps_put ps f v)) = length (ps_head ps)" "ps_objectives (ps_put ps f v) = ps_objectives ps"
  "ps_hudCurrent (ps_put ps f v) = ps_hudCurrent ps" "ps_hudArchival (ps_put ps f v) = ps_hudArchival ps"
  by (simp_all add: ps_put_def)

definition ps_changed_ops :: "int \<Rightarrow> int \<Rightarrow> wire_op list" where
  "ps_changed_ops bits v =
     (if bits = 0 then float_ops v
      else if bits = -100 then (if v = 0 then [WBit False] else [WBit True, WShort (float_to_i32 v 11930465 16)])
      else integer_ops bits v)"

definition ps_field_ops :: "int \<Rightarrow> int \<Rightarrow> int \<Rightarrow> wire_op list" where
  "ps_field_ops bits old new = (if old = new then [WBit False] else WBit True # ps_changed_ops bits new)"

fun ps_fields_ops :: "playerState_t \<Rightarrow> playerState_t \<Rightarrow> netField_t list \<Rightarrow> wire_op list" where
  "ps_fields_ops a b [] = []"
| "ps_fields_ops a b (f # fs) = ps_field_ops (nf_bits f) (ps_value a f) (ps_value b f) @ ps_fields_ops a b fs"

fun ps_deliver :: "playerState_t \<Rightarrow> playerState_t \<Rightarrow> netField_t list \<Rightarrow> playerState_t \<Rightarrow> playerState_t" where
  "ps_deliver a b [] c = c"
| "ps_deliver a b (f # fs) c =
     ps_deliver a b fs (ps_put c f (delivered (nf_bits f) (ps_value a f) (ps_value b f)))"

lemma ps_field_ops_ok: "list_all op_ok (ps_field_ops bits old new)"
  by (simp add: ps_field_ops_def ps_changed_ops_def float_ops_ok integer_ops_ok)

lemma ps_fields_ops_ok [simp]: "list_all op_ok (ps_fields_ops a b fs)"
  by (induction fs) (simp_all add: ps_field_ops_ok)

lemma write_ps_fields_ops:
  "ps_table_ok fs \<Longrightarrow> length (ps_head a) = 398 \<Longrightarrow> length (ps_head b) = 398 \<Longrightarrow>
   write_ps_fields m a b fs = write_ops (ps_fields_ops a b fs) m"
  by (induction fs arbitrary: m)
    (auto simp: coduomp_msg_write_delta_playerstate_field_def ps_member_Some write_ps_changed_def ps_field_ops_def
      ps_changed_ops_def write_float_ops write_integer_ops WriteAngle16_eq Option.bind_assoc)

lemma read_ps_changed_seen:
  assumes "sees r (ps_changed_ops bits v) r'" "int32_range v" "\<bar>bits\<bar> \<le> 32 \<or> bits = -100"
  shows "read_ps_changed r bits = Some (received bits v, r')"
  using assms read_integer_seen [of _ bits v r'] read_float_seen [of _ v r']
  by (auto simp: ps_changed_ops_def read_ps_changed_def received_def MSG_ReadAngle16_def split: if_splits)

definition state_ok :: "playerState_t \<Rightarrow> bool" where
  "state_ok ps \<longleftrightarrow> length (ps_head ps) = 398 \<and> list_all int32_range (ps_head ps) \<and> int32_range (ps_deltaTime ps) \<and>
     length (ps_objectives ps) = 16 \<and> list_all (\<lambda>b. length b = 7 \<and> list_all int32_range b) (ps_objectives ps) \<and>
     length (ps_hudCurrent ps) = 63 \<and> list_all (\<lambda>b. length b = 31 \<and> list_all int32_range b) (ps_hudCurrent ps) \<and>
     length (ps_hudArchival ps) = 63 \<and> list_all (\<lambda>b. length b = 31 \<and> list_all int32_range b) (ps_hudArchival ps)"

lemma ps_value_range: "state_ok b \<Longrightarrow> ps_table_ok [f] \<Longrightarrow> int32_range (ps_value b f)"
  by (auto simp: ps_value_def state_ok_def list_all_length place_def)

lemma read_ps_fields_seen:
  "sees r (ps_fields_ops a b fs) r' \<Longrightarrow> ps_table_ok fs \<Longrightarrow> state_ok b \<Longrightarrow> length (ps_head a) = 398 \<Longrightarrow>
   length (ps_head c) = 398 \<Longrightarrow> read_ps_fields r a c fs = Some (ps_deliver a b fs c, r')"
proof (induction fs arbitrary: r c)
  case Nil
  then show ?case by simp
next
  case (Cons f fs)
  have tab: "ps_table_ok [f]" using Cons.prems(2) by simp
  obtain r1 where r1: "sees r (ps_field_ops (nf_bits f) (ps_value a f) (ps_value b f)) r1"
      "sees r1 (ps_fields_ops a b fs) r'" using Cons.prems(1) by auto
  have "coduomp_msg_read_delta_playerstate_field r a c f =
      Some (ps_put c f (delivered (nf_bits f) (ps_value a f) (ps_value b f)), r1)"
    using r1(1) tab Cons.prems(4,5) read_ps_changed_seen [of _ "nf_bits f" "ps_value b f" r1]
      ps_value_range [OF Cons.prems(3) tab]
    by (auto simp: coduomp_msg_read_delta_playerstate_field_def ps_field_ops_def delivered_def ps_member_Some
        simp del: ps_table_ok_simps split: if_splits) simp_all
  then show ?case using Cons.IH [OF r1(2)] Cons.prems by simp
qed

lemma ps_last_changed_spec:
  "ps_table_ok fs \<Longrightarrow> length (ps_head a) = 398 \<Longrightarrow> length (ps_head b) = 398 \<Longrightarrow>
   \<exists>k. ps_last_changed i a b fs n = Some k \<and>
     (k = n \<and> (\<forall>f\<in>set fs. ps_value a f = ps_value b f) \<or>
      i < k \<and> k \<le> i + length fs \<and> (\<forall>f\<in>set (drop (k - i) fs). ps_value a f = ps_value b f))"
proof (induction fs arbitrary: i n)
  case Nil
  then show ?case by simp
next
  case (Cons f fs)
  define n' where "n' = (if ps_value a f \<noteq> ps_value b f then Suc i else n)"
  obtain k where k: "ps_last_changed (Suc i) a b fs n' = Some k"
    "k = n' \<and> (\<forall>f\<in>set fs. ps_value a f = ps_value b f) \<or>
     Suc i < k \<and> k \<le> Suc i + length fs \<and> (\<forall>f\<in>set (drop (k - Suc i) fs). ps_value a f = ps_value b f)"
    using Cons.IH [of "Suc i" n'] Cons.prems by auto
  have eq: "ps_last_changed i a b (f # fs) n = Some k"
    using k(1) Cons.prems by (simp add: ps_member_Some n'_def)
  from k(2) show ?case
  proof
    assume "k = n' \<and> (\<forall>f\<in>set fs. ps_value a f = ps_value b f)"
    then show ?thesis using eq by (auto simp: n'_def)
  next
    assume far: "Suc i < k \<and> k \<le> Suc i + length fs \<and> (\<forall>f\<in>set (drop (k - Suc i) fs). ps_value a f = ps_value b f)"
    then have "drop (k - i) (f # fs) = drop (k - Suc i) fs" by (simp add: drop_Cons' Suc_diff_le)
    with far eq show ?thesis by auto
  qed
qed

section \<open>Coming nearer to the state that was sent\<close>

text \<open>
  Every step of the reader takes over some positions \<open>P\<close> from the sender's block \<open>b\<close> and leaves
  those alone that already hold what \<open>b\<close> does.
\<close>

definition toward :: "block \<Rightarrow> block \<Rightarrow> nat set \<Rightarrow> block \<Rightarrow> bool" where
  "toward h b P h' \<longleftrightarrow> length h' = length h \<and>
     (\<forall>i<length h. h ! i = b ! i \<or> i \<in> P \<longrightarrow> h' ! i = b ! i)"

definition keeps :: "block \<Rightarrow> block \<Rightarrow> block \<Rightarrow> bool" where
  "keeps a b h \<longleftrightarrow> length h = length b \<and> (\<forall>i<length b. a ! i = b ! i \<longrightarrow> h ! i = b ! i)"

lemma toward_refl: "(\<And>i. i \<in> P \<Longrightarrow> h ! i = b ! i) \<Longrightarrow> toward h b P h"
  by (auto simp: toward_def)

lemma toward_trans: "toward h b P h' \<Longrightarrow> toward h' b Q h'' \<Longrightarrow> toward h b (P \<union> Q) h''"
  by (auto simp: toward_def)

lemma toward_keeps: "toward h b P h' \<Longrightarrow> keeps a b h \<Longrightarrow> keeps a b h'"
  by (auto simp: toward_def keeps_def)

lemma toward_all: "toward a b P h \<Longrightarrow> length a = length b \<Longrightarrow> (\<And>i. i < length b \<Longrightarrow> i \<in> P \<or> a ! i = b ! i) \<Longrightarrow> h = b"
  by (rule nth_equalityI) (auto simp: toward_def)

lemma toward_none [simp]: "toward h b {} h"
  by (simp add: toward_def)

lemma toward_update: "v = b ! i \<Longrightarrow> toward h b {i} (h[i := v])"
  unfolding toward_def by (metis length_list_update nth_list_update_eq nth_list_update_neq singletonD)

lemma toward_mono: "toward h b P h' \<Longrightarrow> Q \<subseteq> P \<Longrightarrow> toward h b Q h'"
  by (auto simp: toward_def)

lemma deliver_toward: "carried a b fs \<Longrightarrow> toward h b (place ` set fs) (deliver a b fs h)"
proof (induction fs arbitrary: h)
  case Nil
  then show ?case by (simp add: toward_refl)
next
  case (Cons f fs)
  then have f: "delivered (nf_bits f) (a ! place f) (b ! place f) = b ! place f" "carried a b fs"
    by (simp_all add: carried_def)
  show ?case
    using toward_trans [OF toward_update [OF f(1)] Cons.IH [OF f(2)], of h] by simp
qed

lemma carried_take [simp]: "carried a b fs \<Longrightarrow> carried a b (take k fs)"
  by (auto simp: carried_def list_all_iff dest: in_set_takeD)

definition head_fields :: "netField_t list \<Rightarrow> nat set" where
  "head_fields fs = place ` {f \<in> set fs. nf_offset f \<noteq> DELTA_TIME_OFFSET}"

definition ps_carried :: "playerState_t \<Rightarrow> playerState_t \<Rightarrow> netField_t list \<Rightarrow> bool" where
  "ps_carried a b fs \<longleftrightarrow> list_all (\<lambda>f. delivered (nf_bits f) (ps_value a f) (ps_value b f) = ps_value b f) fs"

lemma ps_carried_take [simp]: "ps_carried a b fs \<Longrightarrow> ps_carried a b (take k fs)"
  by (auto simp: ps_carried_def list_all_iff dest: in_set_takeD)

lemma ps_deliver_toward:
  "ps_carried a b fs \<Longrightarrow>
   \<exists>h t. ps_deliver a b fs c = c\<lparr>ps_head := h, ps_deltaTime := t\<rparr> \<and> toward (ps_head c) (ps_head b) (head_fields fs) h \<and>
     (ps_deltaTime c = ps_deltaTime b \<or> (\<exists>f\<in>set fs. nf_offset f = DELTA_TIME_OFFSET) \<longrightarrow> t = ps_deltaTime b)"
proof (induction fs arbitrary: c)
  case Nil
  show ?case
    by (intro exI [of _ "ps_head c"] exI [of _ "ps_deltaTime c"]) (simp add: toward_refl head_fields_def)
next
  case (Cons f fs)
  define c1 where "c1 = ps_put c f (ps_value b f)"
  have f: "delivered (nf_bits f) (ps_value a f) (ps_value b f) = ps_value b f" "ps_carried a b fs"
    using Cons.prems by (simp_all add: ps_carried_def)
  from Cons.IH [OF f(2), of c1] obtain h t where
    ht: "ps_deliver a b fs c1 = c1\<lparr>ps_head := h, ps_deltaTime := t\<rparr>"
      "toward (ps_head c1) (ps_head b) (head_fields fs) h"
      "ps_deltaTime c1 = ps_deltaTime b \<or> (\<exists>f\<in>set fs. nf_offset f = DELTA_TIME_OFFSET) \<longrightarrow> t = ps_deltaTime b"
    by blast
  have split: "head_fields (f # fs) = (if nf_offset f = DELTA_TIME_OFFSET then {} else {place f}) \<union> head_fields fs"
    by (auto simp: head_fields_def)
  have "toward (ps_head c) (ps_head b) (if nf_offset f = DELTA_TIME_OFFSET then {} else {place f}) (ps_head c1)"
    by (simp add: c1_def ps_put_def ps_value_def toward_update toward_refl)
  from toward_trans [OF this ht(2)] have "toward (ps_head c) (ps_head b) (head_fields (f # fs)) h"
    by (simp only: split)
  moreover have "ps_deliver a b (f # fs) c = c\<lparr>ps_head := h, ps_deltaTime := t\<rparr>"
    using ht(1) f(1) by (simp add: c1_def ps_put_def)
  moreover have "ps_deltaTime c = ps_deltaTime b \<or> (\<exists>f\<in>set (f # fs). nf_offset f = DELTA_TIME_OFFSET) \<longrightarrow> t = ps_deltaTime b"
    using ht(3) by (auto simp: c1_def ps_put_def ps_value_def)
  ultimately show ?case by blast
qed

section \<open>Counters\<close>

lemma change_mask_simps [simp]:
  "odd (change_mask (a # as) (b # bs)) \<longleftrightarrow> a \<noteq> b" "change_mask (a # as) (b # bs) div 2 = change_mask as bs"
  by simp_all

lemma change_mask_bounds: "0 \<le> change_mask as bs" "length as \<le> n \<Longrightarrow> change_mask as bs < 2 ^ n"
proof -
  show "0 \<le> change_mask as bs" by (induction as bs rule: change_mask.induct) auto
  show "length as \<le> n \<Longrightarrow> change_mask as bs < 2 ^ n"
  proof (induction as bs arbitrary: n rule: change_mask.induct)
    case (1 a as b bs)
    then obtain k where "n = Suc k" "length as \<le> k" by (cases n) auto
    with 1 show ?case by fastforce
  qed auto
qed

lemma change_mask_zero: "length as = length bs \<Longrightarrow> change_mask as bs = 0 \<longleftrightarrow> as = bs"
proof (induction as bs rule: change_mask.induct)
  case (1 a as b bs)
  have "0 \<le> change_mask as bs" by (rule change_mask_bounds)
  with 1 show ?case by auto
qed auto

text \<open>The operations of marked elements, for a writer, a reader and a value per index.\<close>

fun marked_ops :: "(nat \<Rightarrow> int \<Rightarrow> wire_op) \<Rightarrow> nat \<Rightarrow> int \<Rightarrow> int list \<Rightarrow> wire_op list" where
  "marked_ops f i marks [] = []"
| "marked_ops f i marks (v # vs) = (if odd marks then [f i v] else []) @ marked_ops f (Suc i) (marks div 2) vs"

lemma marked_ops_ok: "(\<And>i v. op_ok (f i v)) \<Longrightarrow> list_all op_ok (marked_ops f i marks vs)"
  by (induction vs arbitrary: i marks) simp_all

lemma write_marked_ops:
  "(\<And>i m v. wr i m v = write_op (f i v) m) \<Longrightarrow> write_marked wr i marks vs = write_ops (marked_ops f i marks vs)"
  by (induction vs arbitrary: i marks) (auto intro!: ext)

lemma read_marked_mod:
  "x mod 2 ^ length olds = y mod 2 ^ length olds \<Longrightarrow> read_marked rd i x olds r = read_marked rd i y olds r"
proof (induction olds arbitrary: i x y r)
  case Nil
  then show ?case by simp
next
  case (Cons v vs)
  define q :: int where "q = 2 ^ length vs"
  have e: "x mod (2 * q) = y mod (2 * q)" using Cons.prems by (simp add: q_def)
  have "z mod (2 * q) = 2 * (z div 2 mod q) + z mod 2" for z
    by (rule zmod_zmult2_eq) (simp add: q_def)
  with e have eq: "2 * (x div 2 mod q) + x mod 2 = 2 * (y div 2 mod q) + y mod 2" by metis
  have digits: "0 \<le> u \<Longrightarrow> u < 2 \<Longrightarrow> 0 \<le> u' \<Longrightarrow> u' < 2 \<Longrightarrow> 2 * c + u = 2 * c' + u' \<Longrightarrow> c = c' \<and> u = u'"
    for c c' u u' :: int by presburger
  have "x div 2 mod q = y div 2 mod q \<and> x mod 2 = y mod 2"
    by (rule digits [OF _ _ _ _ eq]) simp_all
  then have bits: "odd x \<longleftrightarrow> odd y" "x div 2 mod 2 ^ length vs = y div 2 mod 2 ^ length vs"
    unfolding odd_iff_mod_2_eq_one q_def by (metis, blast)
  have "read_marked rd i' (x div 2) vs r' = read_marked rd i' (y div 2) vs r'" for i' r'
    using bits(2) by (rule Cons.IH)
  then show ?case unfolding read_marked.simps bits(1) by simp
qed

lemma read_marked_seen:
  assumes rd: "\<And>i v r r'. sees r [f i v] r' \<Longrightarrow> rd i r = Some (val i v, r')"
  shows "sees r (marked_ops f i (change_mask olds news) news) r' \<Longrightarrow> length olds = length news \<Longrightarrow>
    length curs = length news \<Longrightarrow>
    (\<And>j. j < length news \<Longrightarrow> olds ! j = news ! j \<Longrightarrow> curs ! j = news ! j) \<Longrightarrow>
    (\<And>j. j < length news \<Longrightarrow> olds ! j = news ! j \<or> val (i + j) (news ! j) = news ! j) \<Longrightarrow>
    read_marked rd i (change_mask olds news) curs r = Some (news, r')"
proof (induction olds news arbitrary: i curs r rule: change_mask.induct)
  case (1 a as b bs)
  obtain c cs where curs: "curs = c # cs" using "1.prems"(3) by (cases curs) auto
  obtain r1 where r1: "sees r (if a \<noteq> b then [f i b] else []) r1"
      "sees r1 (marked_ops f (Suc i) (change_mask as bs) bs) r'"
    using "1.prems"(1) by (simp only: marked_ops.simps change_mask_simps sees_simps) blast
  have "read_marked rd (Suc i) (change_mask as bs) cs r1 = Some (bs, r')"
  proof (rule "1.IH" [OF r1(2)])
    fix j assume j: "j < length bs"
    show "as ! j = bs ! j \<Longrightarrow> cs ! j = bs ! j" using "1.prems"(4) [of "Suc j"] j curs by simp
    show "as ! j = bs ! j \<or> val (Suc i + j) (bs ! j) = bs ! j" using "1.prems"(5) [of "Suc j"] j by simp
  qed (use "1.prems"(2,3) curs in auto)
  moreover have "(if a \<noteq> b then rd i r else Some (c, r)) = Some (b, r1)"
    using r1(1) rd [of r i b r1] "1.prems"(4,5) [of 0] curs by (auto split: if_splits)
  ultimately show ?case
    unfolding curs read_marked.simps change_mask_simps by simp
qed auto

text \<open>The elements at \<open>base\<close>, of which the block in the reader's hands holds the unchanged ones.\<close>

lemma slice_toward:
  assumes "keeps a b h" "base + n \<le> length b"
  shows "copy_in h (int base) (take n (drop base b)) =
      Some (take base h @ take n (drop base b) @ drop (base + n) h)" (is "_ = Some ?h'")
    and "toward h b {base..<base + n} (take base h @ take n (drop base b) @ drop (base + n) h)"
proof -
  have len: "length h = length b" using assms(1) by (simp add: keeps_def)
  show "copy_in h (int base) (take n (drop base b)) = Some ?h'"
    using assms(2) len by (simp add: mem_simps min_def)
  show "toward h b {base..<base + n} ?h'"
    using assms(2) len by (auto simp: toward_def nth_append min_def)
qed

lemma slice_nth:
  "keeps a b h \<Longrightarrow> length a = length b \<Longrightarrow> base + n \<le> length b \<Longrightarrow> j < n \<Longrightarrow>
   take n (drop base a) ! j = take n (drop base b) ! j \<Longrightarrow> take n (drop base h) ! j = take n (drop base b) ! j"
  by (auto simp: keeps_def)

lemma slice_same:
  assumes "keeps a b h" "length a = length b" "base + n \<le> length b" "take n (drop base a) = take n (drop base b)"
  shows "toward h b {base..<base + n} h"
proof (rule toward_refl)
  fix i assume i: "i \<in> {base..<base + n}"
  then have "take n (drop base a) ! (i - base) = take n (drop base b) ! (i - base)" using assms(4) by simp
  then have "a ! i = b ! i" using i assms(2,3) by auto
  then show "h ! i = b ! i" using assms(1,3) i by (simp add: keeps_def)
qed

lemma slice_out: "base + n \<le> length b \<Longrightarrow> copy_out b (int base) (int n) = Some (take n (drop base b))"
  by (simp add: mem_simps)

definition segment :: "nat \<Rightarrow> nat \<Rightarrow> block \<Rightarrow> int list" where
  "segment base n b = take n (drop base b)"

definition stat_op :: "nat \<Rightarrow> int \<Rightarrow> wire_op" where
  "stat_op i v = (if i = 3 then WBits v 6 else if i = 5 then WByte v else WShort v)"

definition stat_value :: "nat \<Rightarrow> int \<Rightarrow> int" where
  "stat_value i v = (if i = 3 then v mod 64 else if i = 5 then u8 v else i16 v)"

definition stats_ops :: "block \<Rightarrow> block \<Rightarrow> wire_op list" where
  "stats_ops a b = (let marks = change_mask (segment 71 6 a) (segment 71 6 b) in
     if marks = 0 then [WBit False] else WBit True # WBits marks 6 # marked_ops stat_op 0 marks (segment 71 6 b))"

definition group_ops :: "nat \<Rightarrow> block \<Rightarrow> block \<Rightarrow> wire_op list" where
  "group_ops base a b = (let marks = change_mask (segment base 16 a) (segment base 16 b) in
     if marks = 0 then [WBit False] else WBit True # WShort marks # marked_ops (\<lambda>_. WShort) 0 marks (segment base 16 b))"

lemma counter_ops_ok [simp]: "list_all op_ok (stats_ops a b)" "list_all op_ok (group_ops base a b)"
  by (simp_all add: stats_ops_def group_ops_def Let_def marked_ops_ok stat_op_def)

lemma slice_length: "base + n \<le> length b \<Longrightarrow> length (segment base n b) = n"
  by (simp add: segment_def)

lemma slice_copy: "base + n \<le> length b \<Longrightarrow> copy_out b (int base) (int n) = Some (segment base n b)"
  by (simp add: segment_def slice_out)

lemma slice_at: "base + n \<le> length b \<Longrightarrow> j < n \<Longrightarrow> segment base n b ! j = b ! (base + j)"
  by (simp add: segment_def)

lemma write_stats_ops:
  "length a = 398 \<Longrightarrow> length b = 398 \<Longrightarrow> write_stats m a b = write_ops (stats_ops a b) m"
  using slice_copy [of 71 6 a] slice_copy [of 71 6 b] write_marked_ops [of write_stat stat_op 0]
  by (auto simp: write_stats_def stats_ops_def Let_def write_stat_def stat_op_def)

lemma write_group_ops:
  "base + 16 \<le> length a \<Longrightarrow> length b = length a \<Longrightarrow> write_group m (int base) a b = write_ops (group_ops base a b) m"
  using slice_copy [of base 16 a] slice_copy [of base 16 b] write_marked_ops [of "\<lambda>_. MSG_WriteShort" "\<lambda>_. WShort" 0]
  by (auto simp: write_group_def group_ops_def Let_def)

text \<open>The two readers differ in how the marks and the elements come.\<close>

lemma read_slice_seen:
  assumes keep: "keeps a b h" and len: "length a = length b" "base + n \<le> length b"
    and fit: "\<And>j. j < n \<Longrightarrow> a ! (base + j) = b ! (base + j) \<or> val j (b ! (base + j)) = b ! (base + j)"
    and rd: "\<And>i v r r'. sees r [f i v] r' \<Longrightarrow> rd i r = Some (val i v, r')"
    and seen: "sees r (marked_ops f 0 (change_mask (segment base n a) (segment base n b)) (segment base n b)) r'"
    and marks: "marks mod 2 ^ n = change_mask (segment base n a) (segment base n b) mod 2 ^ n"
  shows "\<exists>h'. do { olds \<leftarrow> copy_out h (int base) (int n); (vs, m3) \<leftarrow> read_marked rd 0 marks olds r;
     to1 \<leftarrow> copy_in h (int base) vs; Some (to1, m3) } = Some (h', r') \<and> toward h b {base..<base + n} h'"
proof -
  have lh: "length h = length b" using keep by (simp add: keeps_def)
  have "read_marked rd 0 (change_mask (segment base n a) (segment base n b)) (segment base n h) r = Some (segment base n b, r')"
  proof (rule read_marked_seen [OF rd seen])
    fix j assume j: "j < length (segment base n b)"
    then have jn: "j < n" using len(2) by (simp add: slice_length)
    show "segment base n h ! j = segment base n b ! j" if "segment base n a ! j = segment base n b ! j"
      using slice_nth [OF keep len jn] that by (simp add: segment_def)
    show "segment base n a ! j = segment base n b ! j \<or> val (0 + j) (segment base n b ! j) = segment base n b ! j"
      using fit [OF jn] len jn by (simp add: slice_at)
  qed (use len lh in \<open>simp_all add: slice_length\<close>)
  then have "read_marked rd 0 marks (segment base n h) r = Some (segment base n b, r')"
    using read_marked_mod [of marks "segment base n h" _ rd 0 r] marks len lh by (simp add: slice_length)
  moreover have "copy_out h (int base) (int n) = Some (segment base n h)"
    using len(2) lh by (intro slice_copy) simp
  ultimately show ?thesis
    using slice_toward [OF keep len(2)] by (auto simp: segment_def)
qed

lemma read_stats_seen:
  assumes "sees r (stats_ops a b) r'" "keeps a b h" "length a = 398" "length b = 398"
    and fit: "\<And>j. j < 6 \<Longrightarrow> a ! (71 + j) = b ! (71 + j) \<or> stat_value j (b ! (71 + j)) = b ! (71 + j)"
  shows "\<exists>h'. read_stats r h = Some (h', r') \<and> toward h b {71..<77} h'"
proof -
  define marks where "marks = change_mask (segment 71 6 a) (segment 71 6 b)"
  have len: "length (segment 71 6 a) = 6" "length (segment 71 6 b) = 6" using assms(3,4) by (simp_all add: slice_length)
  show ?thesis
  proof (cases "marks = 0")
    case True
    then have "segment 71 6 a = segment 71 6 b" using change_mask_zero len by (simp add: marks_def)
    then have "toward h b {71..<77} h"
      using slice_same [OF assms(2), of 71 6] assms(3,4) by (simp add: segment_def)
    moreover have "MSG_ReadBit r = Some (0, r')" using assms(1) True by (simp add: stats_ops_def marks_def)
    ultimately show ?thesis by (simp add: read_stats_def)
  next
    case False
    have "0 \<le> marks" "marks < 2 ^ 6" using change_mask_bounds(1) change_mask_bounds(2) [of "segment 71 6 a" 6] len
      by (simp_all only: marks_def order_refl)
    with assms(1) False obtain r1 r2 where r: "MSG_ReadBit r = Some (1, r1)" "MSG_ReadBits r1 6 = Some (marks, r2)"
        "sees r2 (marked_ops stat_op 0 marks (segment 71 6 b)) r'"
      by (auto simp: stats_ops_def Let_def marks_def)
    have rd: "read_stat i r = Some (stat_value i v, r')" if "sees r [stat_op i v] r'" for i v r r'
      using that by (auto simp: stat_op_def read_stat_def stat_value_def split: if_splits)
    show ?thesis
      using read_slice_seen [OF assms(2), of 71 6 stat_value stat_op read_stat r2 r' marks] fit rd r assms(3,4)
      by (simp add: read_stats_def marks_def)
  qed
qed

lemma read_group_seen:
  assumes "sees r (group_ops base a b) r'" "keeps a b h" "length a = length b" "base + 16 \<le> length b"
    and fit: "\<And>j. j < 16 \<Longrightarrow> a ! (base + j) = b ! (base + j) \<or> i16 (b ! (base + j)) = b ! (base + j)"
  shows "\<exists>h'. read_group r (int base) h = Some (h', r') \<and> toward h b {base..<base + 16} h'"
proof -
  define marks where "marks = change_mask (segment base 16 a) (segment base 16 b)"
  have len: "length (segment base 16 a) = 16" "length (segment base 16 b) = 16" using assms(3,4) by (simp_all add: slice_length)
  show ?thesis
  proof (cases "marks = 0")
    case True
    then have "segment base 16 a = segment base 16 b" using change_mask_zero len by (simp add: marks_def)
    then have "toward h b {base..<base + 16} h"
      using slice_same [OF assms(2), of base 16] assms(3,4) by (simp add: segment_def)
    moreover have "MSG_ReadBit r = Some (0, r')" using assms(1) True by (simp add: group_ops_def marks_def)
    ultimately show ?thesis by (simp add: read_group_def)
  next
    case False
    with assms(1) obtain r1 r2 where r: "MSG_ReadBit r = Some (1, r1)" "MSG_ReadShort r1 = Some (i16 marks, r2)"
        "sees r2 (marked_ops (\<lambda>_. WShort) 0 marks (segment base 16 b)) r'"
      by (auto simp: group_ops_def Let_def marks_def)
    have "i16 marks mod 2 ^ 16 = marks mod 2 ^ 16" by (simp add: i16_def mod_diff_left_eq)
    then show ?thesis
      using read_slice_seen [OF assms(2), of base 16 "\<lambda>_. i16" "\<lambda>_. WShort" "\<lambda>_. MSG_ReadShort" r2 r' "i16 marks"]
        fit r assms(3,4)
      by (simp add: read_group_def marks_def)
  qed
qed

fun groups_ops :: "nat list \<Rightarrow> block \<Rightarrow> block \<Rightarrow> wire_op list" where
  "groups_ops [] a b = []"
| "groups_ops (base # bases) a b = group_ops base a b @ groups_ops bases a b"

definition bases_of :: "nat \<Rightarrow> nat list" where
  "bases_of base = [base, base + 16, base + 32, base + 48]"

definition ammo_ops :: "block \<Rightarrow> block \<Rightarrow> wire_op list" where
  "ammo_ops a b = (if change_mask (segment 77 64 a) (segment 77 64 b) = 0 then [WBit False]
     else WBit True # groups_ops (bases_of 77) a b)"

lemma groups_ops_ok [simp]: "list_all op_ok (groups_ops bases a b)" "list_all op_ok (ammo_ops a b)"
proof -
  show all: "list_all op_ok (groups_ops bases a b)" for bases by (induction bases) simp_all
  show "list_all op_ok (ammo_ops a b)" by (simp add: ammo_ops_def all)
qed

lemma write_groups_ops:
  "\<forall>base\<in>set bases. base + 16 \<le> length a \<Longrightarrow> length b = length a \<Longrightarrow>
   write_groups m (map int bases) a b = write_ops (groups_ops bases a b) m"
  by (induction bases arbitrary: m) (simp_all add: write_group_ops)

lemma write_ammo_ops:
  assumes "length a = 398" "length b = 398"
  shows "write_ammo m a b = write_ops (ammo_ops a b) m"
proof -
  have "group_bases 77 = map int (bases_of 77)" by (simp add: group_bases_def bases_of_def)
  then have "write_groups m' (group_bases 77) a b = write_ops (groups_ops (bases_of 77) a b) m'" for m'
    using write_groups_ops [of "bases_of 77" a b m'] assms by (simp add: bases_of_def)
  then show ?thesis
    using slice_copy [of 77 64 a] slice_copy [of 77 64 b] assms
    by (simp add: write_ammo_def ammo_ops_def)
qed

definition counter_fits :: "block \<Rightarrow> block \<Rightarrow> nat \<Rightarrow> bool" where
  "counter_fits a b i \<longleftrightarrow> a ! i = b ! i \<or> i16 (b ! i) = b ! i"

lemma read_groups_seen:
  "sees r (groups_ops bases a b) r' \<Longrightarrow> keeps a b h \<Longrightarrow> length a = length b \<Longrightarrow>
   \<forall>base\<in>set bases. base + 16 \<le> length b \<and> list_all (counter_fits a b) [base..<base + 16] \<Longrightarrow>
   \<exists>h'. read_groups r (map int bases) h = Some (h', r') \<and> toward h b (\<Union>base\<in>set bases. {base..<base + 16}) h'"
proof (induction bases arbitrary: r h)
  case Nil
  then show ?case by simp
next
  case (Cons base bases)
  obtain r1 where r1: "sees r (group_ops base a b) r1" "sees r1 (groups_ops bases a b) r'"
    using Cons.prems(1) by auto
  have fit: "a ! (base + j) = b ! (base + j) \<or> i16 (b ! (base + j)) = b ! (base + j)" if "j < 16" for j
    using Cons.prems(4) that by (simp add: list_all_iff counter_fits_def)
  obtain h1 where h1: "read_group r (int base) h = Some (h1, r1)" "toward h b {base..<base + 16} h1"
    using read_group_seen [OF r1(1) Cons.prems(2,3) _ fit] Cons.prems(4) by auto
  obtain h2 where "read_groups r1 (map int bases) h1 = Some (h2, r')"
      "toward h1 b (\<Union>base\<in>set bases. {base..<base + 16}) h2"
    using Cons.IH [OF r1(2) toward_keeps [OF h1(2) Cons.prems(2)] Cons.prems(3)] Cons.prems(4) by auto
  with h1 toward_trans [OF h1(2)] show ?case by simp
qed

lemma four_groups: "(\<Union>base\<in>set (bases_of base). {base..<base + 16}) = {base..<base + 64}"
  by (auto simp: bases_of_def)

lemma read_four_seen:
  assumes "sees r (groups_ops (bases_of base) a b) r'" "keeps a b h" "length a = length b" "base + 64 \<le> length b"
    "list_all (counter_fits a b) [base..<base + 64]"
  shows "\<exists>h'. read_groups r (group_bases (int base)) h = Some (h', r') \<and> toward h b {base..<base + 64} h'"
proof -
  have "group_bases (int base) = map int (bases_of base)" by (simp add: group_bases_def bases_of_def)
  moreover have "\<forall>base'\<in>set (bases_of base). base' + 16 \<le> length b \<and> list_all (counter_fits a b) [base'..<base' + 16]"
    using assms(4,5) by (auto simp: bases_of_def list_all_iff)
  ultimately show ?thesis
    using read_groups_seen [OF assms(1-3)] by (simp add: four_groups)
qed

lemma read_ammo_seen:
  assumes "sees r (ammo_ops a b) r'" "keeps a b h" "length a = 398" "length b = 398"
    "list_all (counter_fits a b) [77..<141]"
  shows "\<exists>h'. read_ammo r h = Some (h', r') \<and> toward h b {77..<141} h'"
proof (cases "change_mask (segment 77 64 a) (segment 77 64 b) = 0")
  case True
  then have "segment 77 64 a = segment 77 64 b"
    using change_mask_zero [of "segment 77 64 a" "segment 77 64 b"] assms(3,4) by (simp add: slice_length)
  then have "toward h b {77..<141} h"
    using slice_same [OF assms(2), of 77 64] assms(3,4) by (simp add: segment_def)
  then show ?thesis using True assms(1) by (auto simp: ammo_ops_def read_ammo_def)
next
  case False
  then show ?thesis
    using assms(1) read_four_seen [of _ 77 a b r' h] assms(2-5) by (auto simp: ammo_ops_def read_ammo_def)
qed

section \<open>Objectives and display\<close>

lemma deliver_exact:
  assumes "carried a b fs" "length c = length b" "\<And>i. i < length b \<Longrightarrow> i \<in> place ` set fs \<or> c ! i = b ! i"
  shows "deliver a b fs c = b"
  using toward_all [OF deliver_toward [OF assms(1), of c] assms(2)] assms(3) by blast

definition delta_fields_ops :: "block \<Rightarrow> block \<Rightarrow> netField_t list \<Rightarrow> wire_op list" where
  "delta_fields_ops a b fs = (if unchanged a b fs then [WBit False] else WBit True # fields_ops a b fs)"

lemma delta_fields_ops_ok [simp]: "list_all op_ok (delta_fields_ops a b fs)"
  by (simp add: delta_fields_ops_def fields_ops_ok)

lemma write_delta_fields_ops:
  assumes "table_ok (length a) fs" "length b = length a"
  shows "MSG_WriteDeltaFields m a b False fs = write_ops (delta_fields_ops a b fs) m"
  using assms changed_count_spec [OF assms]
  by (auto simp: MSG_WriteDeltaFields_def delta_fields_ops_def write_fields_ops)

lemma read_delta_fields_seen:
  assumes "sees r (delta_fields_ops a b fs) r'" "table_ok (length a) fs" "length b = length a" "length c = length a"
    "list_all int32_range b"
  shows "MSG_ReadDeltaFields r a c fs = Some (deliver a b fs c, r')"
  using assms read_fields_seen [of _ a b fs r' c] keep_fields_deliver [of a b fs c]
  by (auto simp: MSG_ReadDeltaFields_def delta_fields_ops_def split: if_splits)

fun objectives_ops :: "block list \<Rightarrow> block list \<Rightarrow> wire_op list" where
  "objectives_ops (a # as) (b # bs) =
     WBits (b ! 0) 3 # delta_fields_ops a b msg_objectiveNetFields @ objectives_ops as bs"
| "objectives_ops _ _ = []"

lemma objectives_ops_ok [simp]: "list_all op_ok (objectives_ops as bs)"
  by (induction as bs rule: objectives_ops.induct) simp_all

definition blocks_ok :: "nat \<Rightarrow> block list \<Rightarrow> bool" where
  "blocks_ok n bs \<longleftrightarrow> list_all (\<lambda>b. length b = n \<and> list_all int32_range b) bs"

lemma blocks_ok_simps [simp]: "blocks_ok n []"
  "blocks_ok n (b # bs) \<longleftrightarrow> length b = n \<and> list_all int32_range b \<and> blocks_ok n bs"
  by (auto simp: blocks_ok_def)

lemma write_objectives_ops:
  "blocks_ok 7 as \<Longrightarrow> blocks_ok 7 bs \<Longrightarrow> write_objectives m as bs = write_ops (objectives_ops as bs) m"
  by (induction as bs arbitrary: m rule: objectives_ops.induct)
    (auto simp: mem_simps write_delta_fields_ops player_tables Option.bind_assoc)

text \<open>An objective is carried when its state is below 8 and its fields fit.\<close>

definition objective_fits :: "block \<Rightarrow> block \<Rightarrow> bool" where
  "objective_fits a b \<longleftrightarrow> 0 \<le> b ! 0 \<and> b ! 0 < 8 \<and> carried a b msg_objectiveNetFields"

lemma objective_places: "place ` set msg_objectiveNetFields = {1..<7}"
  by (auto simp: msg_objectiveNetFields_def place_def)

lemma read_objectives_seen:
  "sees r (objectives_ops as bs) r' \<Longrightarrow> blocks_ok 7 as \<Longrightarrow> blocks_ok 7 bs \<Longrightarrow> length as = length bs \<Longrightarrow>
   blocks_ok 7 cs \<Longrightarrow> length cs = length bs \<Longrightarrow> list_all2 objective_fits as bs \<Longrightarrow>
   read_objectives r as cs = Some (bs, r')"
proof (induction as bs arbitrary: r cs rule: objectives_ops.induct)
  case (1 a as b bs)
  obtain c cs' where cs: "cs = c # cs'" using "1.prems"(6) by (cases cs) auto
  have fit: "0 \<le> b ! 0" "b ! 0 < 8" "carried a b msg_objectiveNetFields"
    using "1.prems"(7) by (auto simp: objective_fits_def)
  obtain r1 r2 where r: "MSG_ReadBits r 3 = Some (b ! 0, r1)"
      "sees r1 (delta_fields_ops a b msg_objectiveNetFields) r2" "sees r2 (objectives_ops as bs) r'"
    using "1.prems"(1) fit(1,2) by auto
  have "deliver a b msg_objectiveNetFields (c[0 := b ! 0]) = b"
    by (rule deliver_exact [OF fit(3)]) (use "1.prems"(3,5) cs in \<open>auto simp: objective_places nth_list_update\<close>)
  moreover have "poke c 0 (b ! 0) = Some (c[0 := b ! 0])" using "1.prems"(5) cs by (simp add: mem_simps)
  moreover have "MSG_ReadDeltaFields r1 a (c[0 := b ! 0]) msg_objectiveNetFields =
      Some (deliver a b msg_objectiveNetFields (c[0 := b ! 0]), r2)"
    by (rule read_delta_fields_seen [OF r(2)]) (use "1.prems" cs player_tables in auto)
  moreover have "read_objectives r2 as cs' = Some (bs, r')"
    using "1.IH" [OF r(3)] "1.prems" cs by simp
  ultimately show ?case using r(1) by (simp add: cs)
qed auto

definition last_hud_field :: "block \<Rightarrow> block \<Rightarrow> nat" where
  "last_hud_field a b = changed_count a b msg_hudElemNetFields - 1"

definition hud_elem_ops :: "block \<Rightarrow> block \<Rightarrow> wire_op list" where
  "hud_elem_ops a b = WBits (int (last_hud_field a b)) 5 #
     fields_ops a b (take (last_hud_field a b + 1) msg_hudElemNetFields)"

fun hud_elems_ops :: "nat \<Rightarrow> block list \<Rightarrow> block list \<Rightarrow> wire_op list" where
  "hud_elems_ops (Suc n) (a # as) (b # bs) = hud_elem_ops a b @ hud_elems_ops n as bs"
| "hud_elems_ops _ _ _ = []"

definition shown :: "block list \<Rightarrow> nat" where
  "shown bs = length (takeWhile (\<lambda>b. b ! 0 \<noteq> 0) bs)"

definition hud_array_ops :: "block list \<Rightarrow> block list \<Rightarrow> wire_op list" where
  "hud_array_ops as bs = WBits (int (shown bs)) 6 # hud_elems_ops (shown bs) as bs"

lemma hud_ops_ok [simp]: "list_all op_ok (hud_elems_ops n as bs)" "list_all op_ok (hud_array_ops as bs)"
proof -
  show all: "list_all op_ok (hud_elems_ops n as bs)" for n
    by (induction n as bs rule: hud_elems_ops.induct) (simp_all add: hud_elem_ops_def fields_ops_ok)
  show "list_all op_ok (hud_array_ops as bs)" by (simp add: hud_array_ops_def all)
qed

lemma shown_le: "shown bs \<le> length bs"
  by (simp add: shown_def length_takeWhile_le)

lemma hud_count_shown: "blocks_ok 31 bs \<Longrightarrow> length bs = n \<Longrightarrow> hud_count n bs = Some (shown bs)"
  by (induction bs arbitrary: n) (auto simp: shown_def mem_simps)

lemma write_hud_elem_ops:
  assumes "length a = 31" "length b = 31"
  shows "write_hud_elem m a b = write_ops (hud_elem_ops a b) m"
  using assms changed_count_spec [of a msg_hudElemNetFields b] player_tables
  by (simp add: write_hud_elem_def hud_elem_ops_def last_hud_field_def write_fields_ops Let_def)

lemma write_hud_elems_ops:
  "blocks_ok 31 as \<Longrightarrow> blocks_ok 31 bs \<Longrightarrow> n \<le> length as \<Longrightarrow> n \<le> length bs \<Longrightarrow>
   write_hud_elems m n as bs = write_ops (hud_elems_ops n as bs) m"
  by (induction n as bs arbitrary: m rule: hud_elems_ops.induct) (auto simp: write_hud_elem_ops)

lemma write_hud_array_ops:
  assumes "blocks_ok 31 as" "blocks_ok 31 bs" "length as = 63" "length bs = 63"
  shows "MSG_WriteDeltaHudElems m as bs 63 = write_ops (hud_array_ops as bs) m"
  using assms hud_count_shown [OF assms(2), of 63] shown_le [of bs]
  by (simp add: MSG_WriteDeltaHudElems_def hud_array_ops_def write_hud_elems_ops)

text \<open>The last dword of an element has no descriptor.\<close>

definition hud_elem_fits :: "block \<Rightarrow> block \<Rightarrow> bool" where
  "hud_elem_fits a b \<longleftrightarrow> carried a b msg_hudElemNetFields \<and> a ! 30 = b ! 30"

lemma hud_places: "place ` set msg_hudElemNetFields = {0..<30}"
proof -
  have "sort (map place msg_hudElemNetFields) = [0..<30]" by code_simp
  then have "set (map place msg_hudElemNetFields) = set [0..<30]" by (metis set_sort)
  then show ?thesis by simp
qed

lemma read_hud_elem_seen:
  assumes "sees r (hud_elem_ops a b) r'" "length a = 31" "length b = 31" "list_all int32_range b" "hud_elem_fits a b"
  shows "read_hud_elem r a a = Done (b, r')"
proof -
  define k where "k = last_hud_field a b"
  have tab: "table_ok (length a) msg_hudElemNetFields" using assms(2) player_tables by simp
  note cc = changed_count_spec [OF tab, of b]
  have k30: "k < 30" using cc(2) assms(2,3) player_tables by (simp add: k_def last_hud_field_def)
  have rest: "unchanged a b (drop (k + 1) msg_hudElemNetFields)"
    using cc(3,4) assms(2,3)
    by (cases "changed_count a b msg_hudElemNetFields")
      (auto simp: k_def last_hud_field_def unchanged_def dest: in_set_dropD)
  obtain r1 where r: "MSG_ReadBits r 5 = Some (int k, r1)"
      "sees r1 (fields_ops a b (take (k + 1) msg_hudElemNetFields)) r'"
    using assms(1) k30 by (auto simp: hud_elem_ops_def k_def)
  have "read_fields r1 a a (take (k + 1) msg_hudElemNetFields) =
      Some (deliver a b (take (k + 1) msg_hudElemNetFields) a, r')"
    using read_fields_seen [OF r(2)] tab assms(2-4) by simp
  moreover have "keep_fields a (deliver a b (take (k + 1) msg_hudElemNetFields) a) (drop (k + 1) msg_hudElemNetFields) =
      Some (deliver a b msg_hudElemNetFields a)"
    using keep_fields_deliver [OF rest] tab by (simp add: deliver_take_drop)
  moreover have "deliver a b msg_hudElemNetFields a = b"
  proof (rule deliver_exact)
    show "i \<in> place ` set msg_hudElemNetFields \<or> a ! i = b ! i" if "i < length b" for i
      using that assms(3,5) by (cases "i = 30") (auto simp: hud_places hud_elem_fits_def)
  qed (use assms(2,3,5) in \<open>auto simp: hud_elem_fits_def\<close>)
  ultimately show ?thesis
    using r(1) k30 by (simp add: read_hud_elem_def)
qed

lemma read_hud_elems_seen:
  "sees r (hud_elems_ops n as bs) r' \<Longrightarrow> blocks_ok 31 as \<Longrightarrow> blocks_ok 31 bs \<Longrightarrow> n \<le> length as \<Longrightarrow> n \<le> length bs \<Longrightarrow>
   list_all2 hud_elem_fits (take n as) (take n bs) \<Longrightarrow> read_hud_elems r n as as = Done (take n bs, r')"
proof (induction n as bs arbitrary: r rule: hud_elems_ops.induct)
  case (1 n a as b bs)
  obtain r1 where r1: "sees r (hud_elem_ops a b) r1" "sees r1 (hud_elems_ops n as bs) r'"
    using "1.prems"(1) by auto
  have "read_hud_elem r a a = Done (b, r1)"
    by (rule read_hud_elem_seen [OF r1(1)]) (use "1.prems" in auto)
  moreover have "read_hud_elems r1 n as as = Done (take n bs, r')"
    by (rule "1.IH" [OF r1(2)]) (use "1.prems" in auto)
  ultimately show ?case by simp
qed auto

definition hud_fits :: "block list \<Rightarrow> block list \<Rightarrow> bool" where
  "hud_fits as bs \<longleftrightarrow> list_all2 hud_elem_fits (take (shown bs) as) (take (shown bs) bs) \<and>
     drop (shown bs) bs = replicate (63 - shown bs) (replicate 31 0)"

lemma read_hud_array_seen:
  assumes "sees r (hud_array_ops as bs) r'" "blocks_ok 31 as" "blocks_ok 31 bs" "length as = 63" "length bs = 63"
    "hud_fits as bs"
  shows "MSG_ReadDeltaHudElems r as as 63 = Done (bs, r')"
proof -
  have n: "shown bs \<le> 63" using shown_le [of bs] assms(5) by simp
  obtain r1 where r1: "MSG_ReadBits r 6 = Some (int (shown bs), r1)" "sees r1 (hud_elems_ops (shown bs) as bs) r'"
    using assms(1) n by (auto simp: hud_array_ops_def)
  have "read_hud_elems r1 (shown bs) as as = Done (take (shown bs) bs, r')"
    using read_hud_elems_seen [OF r1(2) assms(2,3)] n assms(4-6) by (simp add: hud_fits_def)
  moreover have "take (shown bs) bs @ replicate (63 - shown bs) (replicate 31 0) = bs"
    using assms(6) by (metis append_take_drop_id hud_fits_def)
  ultimately show ?thesis
    using r1(1) n assms(4) by (simp add: MSG_ReadDeltaHudElems_def)
qed

section \<open>The whole state\<close>

definition display_ops :: "playerState_t \<Rightarrow> playerState_t \<Rightarrow> wire_op list" where
  "display_ops a b = (if ps_hudCurrent a = ps_hudCurrent b \<and> ps_hudArchival a = ps_hudArchival b then [WBit False]
     else WBit True # hud_array_ops (ps_hudArchival a) (ps_hudArchival b) @
       hud_array_ops (ps_hudCurrent a) (ps_hudCurrent b))"

definition arrays_ops :: "playerState_t \<Rightarrow> playerState_t \<Rightarrow> wire_op list" where
  "arrays_ops a b = stats_ops (ps_head a) (ps_head b) @ ammo_ops (ps_head a) (ps_head b) @
     groups_ops (bases_of 205) (ps_head a) (ps_head b) @
     (if ps_objectives a = ps_objectives b then [WBit False]
      else WBit True # objectives_ops (ps_objectives a) (ps_objectives b))"

definition ps_count :: "playerState_t \<Rightarrow> playerState_t \<Rightarrow> nat" where
  "ps_count a b = the (ps_last_changed 0 a b msg_playerStateNetFields 0)"

definition state_ops :: "playerState_t \<Rightarrow> playerState_t \<Rightarrow> wire_op list" where
  "state_ops a b = WByte (int (ps_count a b)) # ps_fields_ops a b (take (ps_count a b) msg_playerStateNetFields) @
     arrays_ops a b @ display_ops a b"

lemma state_ops_ok: "list_all op_ok (state_ops a b)"
  by (simp add: state_ops_def arrays_ops_def display_ops_def)

lemma state_ok_blocks:
  assumes "state_ok b"
  shows "length (ps_head b) = 398" "blocks_ok 7 (ps_objectives b)" "length (ps_objectives b) = 16"
    "blocks_ok 31 (ps_hudCurrent b)" "length (ps_hudCurrent b) = 63"
    "blocks_ok 31 (ps_hudArchival b)" "length (ps_hudArchival b) = 63"
  using assms by (simp_all add: state_ok_def blocks_ok_def)

lemma null_state_ok: "state_ok null_state"
  by (simp add: state_ok_def null_state_def int32_range_def list_all_iff)

lemma ps_count_spec:
  assumes "length (ps_head a) = 398" "length (ps_head b) = 398"
  shows "ps_last_changed 0 a b msg_playerStateNetFields 0 = Some (ps_count a b)" "ps_count a b \<le> 114"
    "\<forall>f\<in>set (drop (ps_count a b) msg_playerStateNetFields). ps_value a f = ps_value b f"
  using ps_last_changed_spec [OF player_tables(1) assms, of 0 0] player_tables(4) by (auto simp: ps_count_def)

lemma write_state_ops:
  assumes "state_ok (state_base base)" "state_ok b"
  shows "MSG_WriteDeltaPlayerstate m base b = write_ops (state_ops (state_base base) b) m"
proof -
  define a where "a = state_base base"
  note a = state_ok_blocks [OF assms(1) [folded a_def]] and b = state_ok_blocks [OF assms(2)]
  have clips: "group_bases 205 = map int (bases_of 205)" by (simp add: group_bases_def bases_of_def)
  have "write_groups m' (group_bases 205) (ps_head a) (ps_head b) =
      write_ops (groups_ops (bases_of 205) (ps_head a) (ps_head b)) m'" for m'
    unfolding clips using a(1) b(1) by (intro write_groups_ops) (simp_all add: bases_of_def)
  moreover have "write_display m' a b = write_ops (display_ops a b) m'" for m'
    using a b by (simp add: write_display_def display_ops_def write_hud_array_ops Option.bind_assoc)
  ultimately show ?thesis
    using a b ps_count_spec [OF a(1) b(1)] player_tables(1)
    by (simp add: MSG_WriteDeltaPlayerstate_def a_def [symmetric] Let_def state_ops_def arrays_ops_def
        write_ps_fields_ops write_stats_ops write_ammo_ops write_objectives_ops Option.bind_assoc)
qed

text \<open>
  The changes the wire can carry: every field, counter, objective and display element either is
  unchanged or comes through as it was; what no descriptor covers does not change.
\<close>

definition covered :: "nat \<Rightarrow> bool" where
  "covered i \<longleftrightarrow> i \<in> head_fields msg_playerStateNetFields \<or> 71 \<le> i \<and> i < 141 \<or> 205 \<le> i \<and> i < 269"

definition counters_carried :: "block \<Rightarrow> block \<Rightarrow> bool" where
  "counters_carried a b \<longleftrightarrow>
     list_all (\<lambda>j. a ! (71 + j) = b ! (71 + j) \<or> stat_value j (b ! (71 + j)) = b ! (71 + j)) [0..<6] \<and>
     list_all (counter_fits a b) [77..<141] \<and> list_all (counter_fits a b) [205..<269]"

definition display_carried :: "playerState_t \<Rightarrow> playerState_t \<Rightarrow> bool" where
  "display_carried a b \<longleftrightarrow>
     ps_hudCurrent a = ps_hudCurrent b \<and> ps_hudArchival a = ps_hudArchival b \<or>
     hud_fits (ps_hudArchival a) (ps_hudArchival b) \<and> hud_fits (ps_hudCurrent a) (ps_hudCurrent b)"

definition state_carried :: "playerState_t \<Rightarrow> playerState_t \<Rightarrow> bool" where
  "state_carried a b \<longleftrightarrow> ps_carried a b msg_playerStateNetFields \<and>
     counters_carried (ps_head a) (ps_head b) \<and>
     list_all (\<lambda>i. covered i \<or> ps_head a ! i = ps_head b ! i) [0..<398] \<and>
     (ps_objectives a = ps_objectives b \<or> list_all2 objective_fits (ps_objectives a) (ps_objectives b)) \<and>
     display_carried a b"

lemma delta_time_field: "\<exists>f\<in>set msg_playerStateNetFields. nf_offset f = DELTA_TIME_OFFSET"
proof -
  have "list_ex (\<lambda>f. nf_offset f = DELTA_TIME_OFFSET) msg_playerStateNetFields" by code_simp
  then show ?thesis by (simp add: list_ex_iff)
qed

lemma read_arrays_seen:
  assumes "sees r (arrays_ops a b) r'" and ok: "state_ok a" "state_ok b" and carried: "state_carried a b"
    and c: "keeps (ps_head a) (ps_head b) (ps_head c)" "ps_objectives c = ps_objectives a"
  shows "\<exists>h. read_arrays r a c = Some (c\<lparr>ps_head := h, ps_objectives := ps_objectives b\<rparr>, r') \<and>
    toward (ps_head c) (ps_head b) ({71..<141} \<union> {205..<269}) h"
proof -
  note a = state_ok_blocks [OF ok(1)] and b = state_ok_blocks [OF ok(2)]
  have cc: "counters_carried (ps_head a) (ps_head b)" using carried by (simp add: state_carried_def)
  obtain r1 r2 r3 where r: "sees r (stats_ops (ps_head a) (ps_head b)) r1"
      "sees r1 (ammo_ops (ps_head a) (ps_head b)) r2"
      "sees r2 (groups_ops (bases_of 205) (ps_head a) (ps_head b)) r3"
      "sees r3 (if ps_objectives a = ps_objectives b then [WBit False]
        else WBit True # objectives_ops (ps_objectives a) (ps_objectives b)) r'"
    using assms(1) by (simp only: arrays_ops_def sees_simps(2)) blast
  obtain h1 where h1: "read_stats r (ps_head c) = Some (h1, r1)" "toward (ps_head c) (ps_head b) {71..<77} h1"
    using read_stats_seen [OF r(1) c(1) a(1) b(1)] cc by (auto simp: counters_carried_def list_all_iff)
  note k1 = toward_keeps [OF h1(2) c(1)]
  obtain h2 where h2: "read_ammo r1 h1 = Some (h2, r2)" "toward h1 (ps_head b) {77..<141} h2"
    using read_ammo_seen [OF r(2) k1 a(1) b(1)] cc by (auto simp: counters_carried_def)
  note k2 = toward_keeps [OF h2(2) k1]
  obtain h3 where h3: "read_groups r2 (group_bases 205) h2 = Some (h3, r3)" "toward h2 (ps_head b) {205..<269} h3"
    using read_four_seen [OF r(3) k2] a(1) b(1) cc by (auto simp: counters_carried_def)
  have "{71..<77} \<union> {77..<141} \<union> {205..<269} = {71..<141} \<union> {205..<269 :: nat}" by auto
  then have near: "toward (ps_head c) (ps_head b) ({71..<141} \<union> {205..<269}) h3"
    using toward_trans [OF toward_trans [OF h1(2) h2(2)] h3(2)] by simp
  have "\<exists>changed r4. MSG_ReadBit r3 = Some (changed, r4) \<and>
      (if changed = 0 then Some (ps_objectives c, r4)
       else read_objectives r4 (ps_objectives a) (ps_objectives c)) = Some (ps_objectives b, r')"
  proof (cases "ps_objectives a = ps_objectives b")
    case True
    then show ?thesis using r(4) c(2) by simp
  next
    case False
    then obtain r4 where r4: "MSG_ReadBit r3 = Some (1, r4)"
        "sees r4 (objectives_ops (ps_objectives a) (ps_objectives b)) r'" using r(4) by auto
    have "list_all2 objective_fits (ps_objectives a) (ps_objectives b)"
      using carried False by (simp add: state_carried_def)
    then show ?thesis
      using r4 read_objectives_seen [OF r4(2) a(2) b(2), of "ps_objectives c"] a(2,3) b(3) c(2) by simp
  qed
  then obtain changed r4 where "MSG_ReadBit r3 = Some (changed, r4)"
      "(if changed = 0 then Some (ps_objectives c, r4)
       else read_objectives r4 (ps_objectives a) (ps_objectives c)) = Some (ps_objectives b, r')" by blast
  then show ?thesis
    using h1(1) h2(1) h3(1) near by (intro exI [of _ h3]) (simp add: read_arrays_def)
qed

lemma read_display_seen:
  assumes "sees r (display_ops a b) r'" and ok: "state_ok a" "state_ok b" and carried: "display_carried a b"
    and c: "ps_hudCurrent c = ps_hudCurrent a" "ps_hudArchival c = ps_hudArchival a"
  shows "read_display r a c = Done (c\<lparr>ps_hudCurrent := ps_hudCurrent b, ps_hudArchival := ps_hudArchival b\<rparr>, r')"
proof (cases "ps_hudCurrent a = ps_hudCurrent b \<and> ps_hudArchival a = ps_hudArchival b")
  case True
  then have "MSG_ReadBit r = Some (0, r')" using assms(1) by (simp add: display_ops_def)
  then show ?thesis using True c by (simp add: read_display_def)
next
  case False
  note a = state_ok_blocks [OF ok(1)] and b = state_ok_blocks [OF ok(2)]
  obtain r1 r2 where r: "MSG_ReadBit r = Some (1, r1)"
      "sees r1 (hud_array_ops (ps_hudArchival a) (ps_hudArchival b)) r2"
      "sees r2 (hud_array_ops (ps_hudCurrent a) (ps_hudCurrent b)) r'"
    using assms(1) False by (auto simp: display_ops_def)
  have fits: "hud_fits (ps_hudArchival a) (ps_hudArchival b)" "hud_fits (ps_hudCurrent a) (ps_hudCurrent b)"
    using carried False by (auto simp: display_carried_def)
  show ?thesis
    using r(1) c read_hud_array_seen [OF r(2) a(6) b(6) a(7) b(7) fits(1)]
      read_hud_array_seen [OF r(3) a(4) b(4) a(5) b(5) fits(2)]
    by (simp add: read_display_def)
qed

lemma read_state_seen:
  assumes "sees r (state_ops (state_base base) b) r'" and ok: "state_ok (state_base base)" "state_ok b"
    and carried: "state_carried (state_base base) b"
  shows "MSG_ReadDeltaPlayerstate r base = check_state b r'"
proof -
  define a where "a = state_base base"
  define k where "k = ps_count a b"
  note oka = ok(1) [folded a_def] and car = carried [folded a_def]
  note a = state_ok_blocks [OF oka] and b = state_ok_blocks [OF ok(2)]
  note cnt = ps_count_spec [OF a(1) b(1), folded k_def]
  let ?tab = "msg_playerStateNetFields"
  obtain r1 r2 r3 where r: "MSG_ReadByte r = Some (int k, r1)" "sees r1 (ps_fields_ops a b (take k ?tab)) r2"
      "sees r2 (arrays_ops a b) r3" "sees r3 (display_ops a b) r'"
    using assms(1) cnt(2) by (auto simp: state_ops_def a_def k_def u8_id)
  define c where "c = ps_deliver a b (take k ?tab) a"
  have read: "read_ps_fields r1 a a (take k ?tab) = Some (c, r2)"
    using read_ps_fields_seen [OF r(2) _ ok(2) a(1) a(1)] player_tables(1) by (simp add: c_def)
  have pc: "ps_carried a b (take k ?tab)" using car by (simp add: state_carried_def)
  obtain h t where c: "c = a\<lparr>ps_head := h, ps_deltaTime := t\<rparr>"
      "toward (ps_head a) (ps_head b) (head_fields (take k ?tab)) h"
      "ps_deltaTime a = ps_deltaTime b \<or> (\<exists>f\<in>set (take k ?tab). nf_offset f = DELTA_TIME_OFFSET) \<longrightarrow>
        t = ps_deltaTime b"
    using ps_deliver_toward [OF pc, of a] by (auto simp: c_def)
  have parts: "set ?tab = set (take k ?tab) \<union> set (drop k ?tab)"
    by (metis append_take_drop_id set_append)
  have t: "t = ps_deltaTime b"
  proof (rule c(3) [rule_format])
    obtain f where f: "f \<in> set ?tab" "nf_offset f = DELTA_TIME_OFFSET" using delta_time_field by blast
    then show "ps_deltaTime a = ps_deltaTime b \<or> (\<exists>f\<in>set (take k ?tab). nf_offset f = DELTA_TIME_OFFSET)"
      using cnt(3) parts by (auto simp: ps_value_def)
  qed
  have "keeps (ps_head a) (ps_head b) (ps_head a)" using a(1) b(1) by (simp add: keeps_def)
  from toward_keeps [OF c(2) this] have kc: "keeps (ps_head a) (ps_head b) (ps_head c)" by (simp add: c(1))
  obtain h' where h': "read_arrays r2 a c = Some (c\<lparr>ps_head := h', ps_objectives := ps_objectives b\<rparr>, r3)"
      "toward (ps_head c) (ps_head b) ({71..<141} \<union> {205..<269}) h'"
    using read_arrays_seen [OF r(3) oka ok(2) car kc] c(1) by auto
  have "toward (ps_head a) (ps_head b) (head_fields (take k ?tab) \<union> ({71..<141} \<union> {205..<269})) h'"
    using toward_trans [OF c(2)] h'(2) by (simp add: c(1))
  then have head: "h' = ps_head b"
  proof (rule toward_all)
    fix i assume i: "i < length (ps_head b)"
    have "covered i \<or> ps_head a ! i = ps_head b ! i"
      using car i b(1) by (auto simp: state_carried_def list_all_iff)
    moreover have "i \<in> head_fields (take k ?tab) \<or> ps_head a ! i = ps_head b ! i" if "i \<in> head_fields ?tab"
      using that cnt(3) parts by (auto simp: head_fields_def ps_value_def)
    ultimately show "i \<in> head_fields (take k ?tab) \<union> ({71..<141} \<union> {205..<269}) \<or> ps_head a ! i = ps_head b ! i"
      by (auto simp: covered_def)
  qed (use a(1) b(1) in simp)
  have "display_carried a b" using car by (simp add: state_carried_def)
  from read_display_seen [OF r(4) oka ok(2) this, of "c\<lparr>ps_head := h', ps_objectives := ps_objectives b\<rparr>"]
  have "read_display r3 a (c\<lparr>ps_head := h', ps_objectives := ps_objectives b\<rparr>) = Done (b, r')"
    using c(1) head t by simp
  then show ?thesis
    using r(1) read h'(1) cnt(2) player_tables(4)
    by (simp add: MSG_ReadDeltaPlayerstate_def a_def [symmetric] Let_def)
qed

text \<open>What the checks at the end of the reader let through.\<close>

definition state_valid :: "playerState_t \<Rightarrow> bool" where
  "state_valid ps \<longleftrightarrow> 0 \<le> ps_head ps ! 367 \<and> ps_head ps ! 367 < 1024 \<and>
     list_all (\<lambda>slot. 0 \<le> slot) (dword_bytes (ps_head ps ! 337) @ dword_bytes (ps_head ps ! 338)) \<and>
     0 \<le> ps_head ps ! 389 \<and> ps_head ps ! 389 < 7"

lemma check_state_valid:
  assumes "length (ps_head ps) = 398" "state_valid ps"
  shows "check_state ps r = Done (ps, r)"
proof -
  have "take 2 (drop 337 (ps_head ps)) = [ps_head ps ! 337, ps_head ps ! 338]"
    using assms(1) by (intro nth_equalityI) (auto simp: less_Suc_eq numeral_2_eq_2)
  then have "copy_out (ps_head ps) 337 2 = Some [ps_head ps ! 337, ps_head ps ! 338]"
    using assms(1) by (simp add: mem_simps)
  then show ?thesis
    using assms by (simp add: check_state_def state_valid_def mem_simps u32_id list_all_iff list_ex_iff)
      (simp add: not_less)
qed

text \<open>
  C34: a player state written as the difference from an older one, or from nothing, and read
  against the same one: the reader ends where the writer did and holds exactly the state that
  was sent, and whether it is accepted depends on that state alone. This is so for every change
  the wire carries: in all 114 fields, the statistics, 64 of the ammunition and 64 of the clip
  counters, the objectives and both arrays of display elements.
\<close>

theorem playerstate_roundtrip:
  assumes "0 \<le> maxsize" "maxsize \<le> int (length data)" "maxsize < 268435456"
    and "state_ok (state_base base)" "state_ok b" "state_carried (state_base base) b"
    and "MSG_WriteDeltaPlayerstate (MSG_Init data maxsize) base b = Some m" "\<not> m_overflowed m"
  shows "\<exists>r. MSG_ReadDeltaPlayerstate (MSG_BeginReading m) base = check_state b r \<and> m_readcount r = m_cursize m \<and>
     (state_valid b \<longrightarrow> check_state b r = Done (b, r))"
proof -
  obtain r where "sees (MSG_BeginReading m) (state_ops (state_base base) b) r" "m_readcount r = m_cursize m"
    using fresh_seen [OF assms(1-3) state_ops_ok, of "state_base base" b m] assms(7,8)
      write_state_ops [OF assms(4,5), of "MSG_Init data maxsize"] by auto
  then show ?thesis
    using read_state_seen [OF _ assms(4-6)] check_state_valid [of b r] state_ok_blocks(1) [OF assms(5)] by blast
qed

definition sample_state :: playerState_t where
  "sample_state = null_state\<lparr>
     ps_head := (replicate 398 0)[0 := 5000, 5 := 1065353216, 58 := 1001652224, 71 := 100, 76 := 7, 80 := -3, 210 := 30],
     ps_objectives := (replicate 16 (replicate 7 0))[1 := [3, 0, 0, 0, 12, 1, 0]],
     ps_hudCurrent := (replicate 63 (replicate 31 0))[0 := [1, 320, 240] @ replicate 28 0], ps_deltaTime := 50\<rparr>"

lemma list_all_update: "list_all P xs \<Longrightarrow> P v \<Longrightarrow> list_all P (xs[i := v])"
  unfolding list_all_iff using set_update_subset_insert [of xs i v] by blast

lemma list_all_replicate: "list_all P (replicate n x) \<longleftrightarrow> n = 0 \<or> P x"
  by (auto simp: list_all_length)

lemma sample_state_carried: "state_carried null_state sample_state"
proof -
  have "covered 0" "covered 5" "covered 58" "covered 71" "covered 76" "covered 80" "covered 210" by code_simp+
  then have "list_all (\<lambda>i. covered i \<or> ps_head null_state ! i = ps_head sample_state ! i) [0..<398]"
    by (auto simp: list_all_iff sample_state_def null_state_def nth_list_update)
  moreover have "ps_carried null_state sample_state msg_playerStateNetFields"
  proof -
    have "received 32 5000 = 5000" "received 0 1065353216 = 1065353216" "received (-100) 1001652224 = 1001652224"
      "received 32 50 = 50" by code_simp+
    then show ?thesis
      by (simp add: ps_carried_def msg_playerStateNetFields_def ps_value_def place_def sample_state_def null_state_def
          delivered_def)
  qed
  moreover have "counters_carried (ps_head null_state) (ps_head sample_state)" by code_simp
  moreover have "display_carried null_state sample_state" by code_simp
  moreover have "list_all2 objective_fits (ps_objectives null_state) (ps_objectives sample_state)" by code_simp
  ultimately show ?thesis by (simp add: state_carried_def)
qed

lemma playerstate_roundtrip_witness:
  "\<exists>m r. MSG_WriteDeltaPlayerstate (MSG_Init (replicate 512 0) 512) None sample_state = Some m \<and>
     MSG_ReadDeltaPlayerstate (MSG_BeginReading m) None = Done (sample_state, r)"
proof -
  have "map_option m_overflowed (MSG_WriteDeltaPlayerstate (MSG_Init (replicate 512 0) 512) None sample_state) = Some False"
    by code_simp
  then obtain m where m: "MSG_WriteDeltaPlayerstate (MSG_Init (replicate 512 0) 512) None sample_state = Some m"
      "\<not> m_overflowed m" by auto
  have base: "state_base None = null_state" by (simp add: state_base_def)
  have "state_ok sample_state"
    by (simp add: state_ok_def sample_state_def null_state_def list_all_update list_all_replicate int32_range_def)
  moreover have "state_valid sample_state" by code_simp
  ultimately show ?thesis
    using playerstate_roundtrip [of 512 "replicate 512 0" None sample_state m] m sample_state_carried null_state_ok
    by (auto simp: base)
qed

section \<open>Hostile messages\<close>

lemma ReadBits_loop_range:
  "MSG_ReadBits_loop n k w r = Some (v, r') \<Longrightarrow> take_bit k w = w \<Longrightarrow> k + n \<le> 31 \<Longrightarrow>
   \<exists>x. v = sint x \<and> take_bit (k + n) x = (x :: 32 word)"
proof (induction n arbitrary: k w r)
  case 0
  then show ?case by auto
next
  case (Suc n)
  have step: "take_bit (Suc k) (w OR push_bit k (ucast ((b :: 8 word) AND 1))) = w OR push_bit k (ucast (b AND 1))" for b
  proof (rule bit_word_eqI)
    fix i assume "i < LENGTH(32)"
    have "bit w i \<Longrightarrow> i < k" using Suc.prems(2) by (metis bit_take_bit_iff)
    then show "bit (take_bit (Suc k) (w OR push_bit k (ucast (b AND 1)))) i = bit (w OR push_bit k (ucast (b AND 1))) i"
      by (auto simp: bit_simps)
  qed
  have "v = 0 \<or> (\<exists>b m'. MSG_ReadBits_loop n (Suc k) (w OR push_bit k (ucast ((b :: 8 word) AND 1))) m' = Some (v, r'))"
    using Suc.prems(1,3) by (auto simp: Let_def bind_eq_Some_conv split: option.splits if_splits)
  then show ?case
  proof
    assume "v = 0"
    then show ?thesis by (intro exI [of _ 0]) simp
  next
    assume "\<exists>b m'. MSG_ReadBits_loop n (Suc k) (w OR push_bit k (ucast ((b :: 8 word) AND 1))) m' = Some (v, r')"
    then obtain b m' where "MSG_ReadBits_loop n (Suc k) (w OR push_bit k (ucast ((b :: 8 word) AND 1))) m' = Some (v, r')"
      by blast
    from Suc.IH [OF this step] Suc.prems(3) show ?thesis by simp
  qed
qed

lemma ReadBits_range:
  assumes "MSG_ReadBits r n = Some (v, r')" "0 \<le> n" "n < 32"
  shows "0 \<le> v \<and> v < 2 ^ nat n"
proof -
  have n: "nat n \<le> 31" using assms(3) by simp
  obtain x where x: "v = sint x" "take_bit (nat n) x = (x :: 32 word)"
    using ReadBits_loop_range [of "nat n" 0 0 r v r'] assms n by (auto simp: MSG_ReadBits_def)
  have "uint x = take_bit (nat n) (uint x)" using x(2) by (metis unsigned_take_bit_eq)
  then have ux: "uint x < 2 ^ nat n" by (metis take_bit_int_less_exp)
  also have "(2 :: int) ^ nat n \<le> 2 ^ 31" using n by (intro power_increasing) auto
  finally have small: "uint x < 2147483648" by simp
  have "sint (word_of_int (uint x) :: 32 word) = i32 (uint x)" by (rule sint_word_of_int_32)
  also have "\<dots> = uint x" using small uint_nonnegative [of x] by (intro i32_id) linarith+
  finally have "sint x = uint x" by simp
  with ux x(1) show ?thesis by simp
qed

lemma reads_to_mono: "reads_to P r x \<Longrightarrow> (\<And>v. P v \<Longrightarrow> Q v) \<Longrightarrow> reads_to Q r x"
  by (auto simp: reads_to_def)

lemma ReadBits_to:
  "read_inv r \<Longrightarrow> 0 \<le> n \<Longrightarrow> n < 32 \<Longrightarrow> reads_to (\<lambda>v. 0 \<le> v \<and> v < 2 ^ nat n) r (MSG_ReadBits r n)"
  using MSG_ReadBits_ok [of r n] ReadBits_range [of r n] by (auto simp: reads_ok_def reads_to_def)

lemma read_ps_changed_ok: "read_inv r \<Longrightarrow> reads_ok r (read_ps_changed r bits)"
  by (auto simp: read_ps_changed_def intro!: reads_ok_intros read_integer_ok read_float_ok ReadAngle16_ok)

text \<open>The parts of a state have the sizes of their arrays.\<close>

definition state_shape :: "playerState_t \<Rightarrow> bool" where
  "state_shape ps \<longleftrightarrow> length (ps_head ps) = 398 \<and>
     length (ps_objectives ps) = 16 \<and> list_all (\<lambda>b. length b = 7) (ps_objectives ps) \<and>
     length (ps_hudCurrent ps) = 63 \<and> list_all (\<lambda>b. length b = 31) (ps_hudCurrent ps) \<and>
     length (ps_hudArchival ps) = 63 \<and> list_all (\<lambda>b. length b = 31) (ps_hudArchival ps)"

lemma read_ps_fields_to:
  "read_inv r \<Longrightarrow> ps_table_ok fs \<Longrightarrow> length (ps_head a) = 398 \<Longrightarrow> state_shape c \<Longrightarrow>
   reads_to state_shape r (read_ps_fields r a c fs)"
proof (induction fs arbitrary: r c)
  case Nil
  then show ?case by (simp add: reads_to_Some)
next
  case (Cons f fs)
  have tab: "ps_table_ok [f]" and head: "length (ps_head c) = 398"
    using Cons.prems by (simp_all add: state_shape_def)
  have val: "reads_to (\<lambda>_. True) r' (if changed = 0 then do { old \<leftarrow> ps_member a f; Some (old, r') }
      else read_ps_changed r' (nf_bits f))" if "read_inv r'" for r' changed
    using that ps_member_Some(1) [OF tab Cons.prems(3)]
    by (auto intro!: reads_ok_to read_ps_changed_ok reads_ok_Some)
  have "reads_to state_shape r (coduomp_msg_read_delta_playerstate_field r a c f)"
    unfolding coduomp_msg_read_delta_playerstate_field_def
    using Cons.prems(1,4) ps_member_Some(2) [OF tab head]
    by (auto simp: state_shape_def intro!: reads_to_bind [OF MSG_ReadBit_ok [THEN reads_ok_to]]
        reads_to_bind [OF val] reads_to_Some)
  then show ?case using Cons by (auto intro!: reads_to_bind)
qed

lemma read_marked_to:
  "(\<And>i r. read_inv r \<Longrightarrow> reads_ok r (rd i r)) \<Longrightarrow> read_inv r \<Longrightarrow>
   reads_to (\<lambda>vs. length vs = length olds) r (read_marked rd i marks olds r)"
proof (induction olds arbitrary: i marks r)
  case Nil
  then show ?case by (simp add: reads_to_Some)
next
  case (Cons v vs)
  have "reads_ok r (if odd marks then rd i r else Some (v, r))"
    using Cons.prems by (simp add: reads_ok_Some)
  then obtain v' r1 where v: "(if odd marks then rd i r else Some (v, r)) = Some (v', r1)" "read_inv r1"
      "same_buffer r r1" by (auto simp: reads_ok_def)
  obtain vs' r2 where "read_marked rd (Suc i) (marks div 2) vs r1 = Some (vs', r2)" "length vs' = length vs"
      "read_inv r2" "same_buffer r1 r2"
    using Cons.IH [OF Cons.prems(1) v(2), where i = "Suc i" and marks = "marks div 2"] by (auto simp: reads_to_def)
  then show ?case
    using v same_buffer_trans [OF v(3)] unfolding read_marked.simps v(1) by (auto simp: reads_to_def)
qed

lemma read_counters_to:
  assumes rd: "\<And>i r. read_inv r \<Longrightarrow> reads_ok r (rd i r)" and marks: "\<And>r. read_inv r \<Longrightarrow> reads_ok r (mk r)"
    and r: "read_inv r" and len: "length c = 398" "0 \<le> base" "base + n \<le> 398" "0 \<le> n"
  shows "reads_to (\<lambda>d. length d = 398) r (do {
     (changed, m1) \<leftarrow> MSG_ReadBit r;
     if changed = 0 then Some (c, m1)
     else do {
       (bits, m2) \<leftarrow> mk m1;
       olds \<leftarrow> copy_out c base n;
       (vs, m3) \<leftarrow> read_marked rd 0 bits olds m2;
       to1 \<leftarrow> copy_in c base vs;
       Some (to1, m3) } })"
proof -
  define olds where "olds = take (nat n) (drop (nat base) c)"
  have out: "copy_out c base n = Some olds" and lo: "length olds = nat n"
    using len by (simp_all add: mem_simps olds_def)
  have fin: "reads_to (\<lambda>d. length d = 398) r' (do { to1 \<leftarrow> copy_in c base vs; Some (to1, r') })"
    if "length vs = length olds" "read_inv r'" for vs r'
    using that len lo by (simp add: mem_simps reads_to_Some)
  show ?thesis
    using r len(1) out lo
    by (auto intro!: reads_to_bind [OF MSG_ReadBit_ok [THEN reads_ok_to]] reads_to_Some
        reads_to_bind [OF marks [THEN reads_ok_to]] reads_to_bind [OF read_marked_to [OF rd]] fin)
qed

lemma read_stats_to: "read_inv r \<Longrightarrow> length c = 398 \<Longrightarrow> reads_to (\<lambda>d. length d = 398) r (read_stats r c)"
  unfolding read_stats_def
  by (rule read_counters_to) (auto simp: read_stat_def intro: MSG_ReadBits_ok MSG_ReadByte_ok MSG_ReadShort_ok)

lemma read_group_to:
  "read_inv r \<Longrightarrow> length c = 398 \<Longrightarrow> 0 \<le> base \<Longrightarrow> base + 16 \<le> 398 \<Longrightarrow>
   reads_to (\<lambda>d. length d = 398) r (read_group r base c)"
  unfolding read_group_def by (rule read_counters_to) (auto intro: MSG_ReadShort_ok)

lemma read_groups_to:
  "read_inv r \<Longrightarrow> length c = 398 \<Longrightarrow> \<forall>base\<in>set bases. 0 \<le> base \<and> base + 16 \<le> 398 \<Longrightarrow>
   reads_to (\<lambda>d. length d = 398) r (read_groups r bases c)"
proof (induction bases arbitrary: r c)
  case Nil
  then show ?case by (simp add: reads_to_Some)
next
  case (Cons b bs)
  then show ?case by (auto intro!: reads_to_bind [OF read_group_to])
qed

lemma read_objectives_to:
  "read_inv r \<Longrightarrow> list_all (\<lambda>b. length b = 7) as \<Longrightarrow> list_all (\<lambda>b. length b = 7) cs \<Longrightarrow>
   reads_to (\<lambda>ds. length ds = length cs \<and> list_all (\<lambda>b. length b = 7) ds) r (read_objectives r as cs)"
proof (induction r as cs rule: read_objectives.induct)
  case (1 r a as c cs)
  have len: "length a = 7" "length c = 7" using "1.prems" by simp_all
  have one: "reads_to (\<lambda>d. length d = 7) r' (MSG_ReadDeltaFields r' a c' msg_objectiveNetFields)"
    if "read_inv r'" "length c' = 7" for r' c'
    unfolding MSG_ReadDeltaFields_def
    using that len player_tables(2) keep_fields_length [of a msg_objectiveNetFields c']
    by (auto intro!: reads_to_bind [OF MSG_ReadBit_ok [THEN reads_ok_to]] reads_to_Some
        reads_to_mono [OF read_fields_to])
  show ?case
  proof -
    obtain s m1 where s: "MSG_ReadBits r 3 = Some (s, m1)" "read_inv m1" "same_buffer r m1"
      using MSG_ReadBits_ok [OF "1.prems"(1), of 3] by (auto simp: reads_ok_def)
    have p: "poke c 0 s = Some (c[0 := s])" using len by (simp add: mem_simps)
    obtain t2 m2 where t: "MSG_ReadDeltaFields m1 a (c[0 := s]) msg_objectiveNetFields = Some (t2, m2)"
        "length t2 = 7" "read_inv m2" "same_buffer m1 m2"
      using one [OF s(2), of "c[0 := s]"] len by (auto simp: reads_to_def)
    have "reads_to (\<lambda>ds. length ds = length cs \<and> list_all (\<lambda>b. length b = 7) ds) m2 (read_objectives m2 as cs)"
      using "1.IH" [OF s(1) refl p t(1) refl t(3)] "1.prems" by simp
    then show ?thesis
      using s p t same_buffer_trans [OF same_buffer_trans [OF s(3) t(4)]] by (auto simp: reads_to_def)
  qed
qed (auto intro: reads_to_Some)

lemma read_hud_elem_to:
  assumes "read_inv r" "length a = 31" "length c = 31"
  shows "runs_to (\<lambda>d. length d = 31) r (read_hud_elem r a c)"
proof -
  have tab: "table_ok (length a) msg_hudElemNetFields" using assms(2) player_tables by simp
  have keep: "reads_to (\<lambda>d. length d = 31) r' (do {
      to2 \<leftarrow> keep_fields a d (drop k msg_hudElemNetFields); Some (to2, r') })"
    if "read_inv r'" "length d = length a" for r' d k
    using that assms(2) keep_fields_length [OF table_ok_drop [OF tab, of k] that(2)] by (auto intro!: reads_to_Some)
  have "reads_to (\<lambda>d. length d = 31) r' (do {
      (to1, m2) \<leftarrow> read_fields r' a c (take k msg_hudElemNetFields);
      to2 \<leftarrow> keep_fields a to1 (drop k msg_hudElemNetFields);
      Some (to2, m2) })" if "read_inv r'" for r' k
    using that tab assms(2,3) by (auto intro!: reads_to_bind [OF read_fields_to] keep)
  then show ?thesis
    unfolding read_hud_elem_def using assms(1)
    by (auto intro!: runs_to_bind [OF runs_to_checked [OF reads_ok_to [OF MSG_ReadBits_ok]]] runs_to_checked)
qed

lemma read_hud_elems_to:
  "read_inv r \<Longrightarrow> list_all (\<lambda>b. length b = 31) as \<Longrightarrow> list_all (\<lambda>b. length b = 31) cs \<Longrightarrow>
   n \<le> length as \<Longrightarrow> n \<le> length cs \<Longrightarrow>
   runs_to (\<lambda>ds. length ds = n \<and> list_all (\<lambda>b. length b = 31) ds) r (read_hud_elems r n as cs)"
proof (induction n arbitrary: r as cs)
  case 0
  then show ?case by simp
next
  case (Suc n)
  obtain a as' c cs' where "as = a # as'" "cs = c # cs'"
    using Suc.prems(4,5) by (cases as; cases cs) auto
  with Suc show ?case
    by (auto intro!: runs_to_bind [OF read_hud_elem_to] runs_to_bind [OF Suc.IH])
qed

lemma read_hud_array_to:
  assumes "read_inv r" "length as = 63" "list_all (\<lambda>b. length b = 31) as" "length cs = 63"
    "list_all (\<lambda>b. length b = 31) cs"
  shows "runs_to (\<lambda>ds. length ds = 63 \<and> list_all (\<lambda>b. length b = 31) ds) r (MSG_ReadDeltaHudElems r as cs 63)"
proof -
  have rest: "runs_to (\<lambda>ds. length ds = 63 \<and> list_all (\<lambda>b. length b = 31) ds) r'
      (run_bind (read_hud_elems r' (nat n) as cs) (\<lambda>(es, m2). if nat n \<le> 63 \<and> 63 \<le> length cs
        then Done (es @ replicate (63 - nat n) (replicate 31 0) @ drop 63 cs, m2) else Fault))"
    if "0 \<le> n \<and> n < 2 ^ nat 6" "read_inv r'" for n r'
  proof -
    have "nat n \<le> 63" using that(1) by auto
    then show ?thesis
      using assms that(2) by (intro runs_to_bind [OF read_hud_elems_to]) (auto simp: list_all_replicate)
  qed
  show ?thesis
    unfolding MSG_ReadDeltaHudElems_def
    by (rule runs_to_bind [OF runs_to_checked [OF ReadBits_to [OF assms(1)]]]) (use rest in auto)
qed

lemma read_arrays_to:
  assumes "read_inv r" "state_shape a" "state_shape c"
  shows "reads_to state_shape r (read_arrays r a c)"
proof -
  have bases: "\<forall>base\<in>set (group_bases b). 0 \<le> base \<and> base + 16 \<le> 398" if "0 \<le> b" "b \<le> 300" for b
    using that by (auto simp: group_bases_def)
  have ammo: "reads_to (\<lambda>d. length d = 398) r' (read_ammo r' h)" if "read_inv r'" "length h = 398" for r' h
    using that bases [of 77]
    by (auto simp: read_ammo_def intro!: reads_to_bind [OF MSG_ReadBit_ok [THEN reads_ok_to]] reads_to_Some read_groups_to)
  have obj: "reads_to (\<lambda>ds. length ds = 16 \<and> list_all (\<lambda>b. length b = 7) ds) r'
      (if changed = 0 then Some (ps_objectives c, r') else read_objectives r' (ps_objectives a) (ps_objectives c))"
    if "read_inv r'" for r' changed
    using that assms(2,3) read_objectives_to [of r' "ps_objectives a" "ps_objectives c"]
    by (auto simp: state_shape_def intro!: reads_to_Some)
  show ?thesis
    unfolding read_arrays_def
    using assms(1,3) bases [of 205]
    by (auto intro!: reads_to_bind [OF read_stats_to] reads_to_bind [OF ammo] reads_to_bind [OF read_groups_to]
        reads_to_bind [OF MSG_ReadBit_ok [THEN reads_ok_to]] reads_to_bind [OF obj] reads_to_Some)
      (auto simp: state_shape_def)
qed

lemma read_display_to:
  assumes "read_inv r" "state_shape a" "state_shape c"
  shows "runs_to state_shape r (read_display r a c)"
  unfolding read_display_def using assms
  by (auto simp: state_shape_def intro!: runs_to_bind [OF runs_to_checked [OF reads_ok_to [OF MSG_ReadBit_ok]]]
      runs_to_bind [OF read_hud_array_to])

lemma check_state_to:
  assumes "read_inv r" "state_shape ps"
  shows "runs_to (\<lambda>d. state_shape d \<and> 0 \<le> u32 (ps_head d ! 367) \<and> u32 (ps_head d ! 367) < 1024 \<and>
    0 \<le> ps_head d ! 389 \<and> ps_head d ! 389 < 7) r (check_state ps r)"
proof -
  have "length (ps_head ps) = 398" using assms(2) by (simp add: state_shape_def)
  then show ?thesis
    using assms by (auto simp: check_state_def mem_simps u32_def)
qed

lemma read_state_to:
  assumes "read_inv r" "state_shape (state_base base)"
  shows "runs_to (\<lambda>d. state_shape d \<and> 0 \<le> u32 (ps_head d ! 367) \<and> u32 (ps_head d ! 367) < 1024 \<and>
    0 \<le> ps_head d ! 389 \<and> ps_head d ! 389 < 7) r (MSG_ReadDeltaPlayerstate r base)"
proof -
  define a where "a = state_base base"
  have shape: "state_shape a" and head: "length (ps_head a) = 398" using assms(2) by (simp_all add: a_def state_shape_def)
  have front: "reads_to state_shape r' (do {
      (to1, m2) \<leftarrow> read_ps_fields r' a a (take k msg_playerStateNetFields);
      read_arrays m2 a to1 })" if "read_inv r'" for r' k
    using that shape head player_tables(1)
    by (auto intro!: reads_to_bind [OF read_ps_fields_to] read_arrays_to)
  show ?thesis
    unfolding MSG_ReadDeltaPlayerstate_def Let_def a_def [symmetric]
    using assms(1) shape
    by (auto intro!: runs_to_bind [OF runs_to_checked [OF reads_ok_to [OF MSG_ReadByte_ok]]]
        runs_to_bind [OF runs_to_checked [OF front]] runs_to_bind [OF read_display_to] check_state_to)
qed

text \<open>What \<open>MSG_ReadDeltaStruct\<close> may do with a record of \<open>n\<close> dwords.\<close>

definition record_safe :: "nat \<Rightarrow> (bool \<times> block \<times> msg_t) run \<Rightarrow> bool" where
  "record_safe n x \<longleftrightarrow> (case x of Fault \<Rightarrow> False | Raise e s \<Rightarrow> True
     | Done (gone, d, r') \<Rightarrow> length d = n \<and> read_inv r')"

lemma read_struct_safe:
  assumes "read_inv r" "table_complete fs" "length a = length fs + 1" "length c = length a"
  shows "record_safe (length a) (MSG_ReadDeltaStruct r a c number fs)"
  using read_struct_to [OF assms(1) table_complete_ok [OF assms(2,3)] assms(3,4), of number]
  by (auto simp: record_safe_def split: run.splits)

lemma read_entity_safe:
  assumes "read_inv r" "length a = 61" "length c = 61"
  shows "record_safe 61 (MSG_ReadDeltaEntity r a c number)"
proof -
  obtain v r1 where "MSG_ReadBit r = Some (v, r1)" "read_inv r1"
    using MSG_ReadBit_ok [OF assms(1)] by (auto simp: reads_ok_def)
  then show ?thesis
    using read_struct_safe [of r1 _ a c number] tables_complete(1,2) assms(2,3)
    by (auto simp: MSG_ReadDeltaEntity_def)
qed



section \<open>Fields of negative width\<close>

text \<open>
  C37: a width is written with a minus sign for a member that holds negative values, and writer and
  reader use its absolute value. The writer sends the sign in the top bit; the reader does not
  extend it. A negative value of such a player state field that fits its width arrives larger by
  two to the power of the width, so -1 in a field of width -8 arrives as 255.
\<close>

theorem negative_width_sign:
  assumes "0 \<le> maxsize" "maxsize \<le> int (length data)" "maxsize < 268435456"
    and "bits = -8 \<or> bits = -16" "v < 0" "- (2 ^ (nat (- bits) - 1)) \<le> v"
    and "write_ps_changed (MSG_Init data maxsize) bits v = Some m" "\<not> m_overflowed m"
  shows "\<exists>r. read_ps_changed (MSG_BeginReading m) bits = Some (v + 2 ^ nat (- bits), r)"
proof -
  have "write_ps_changed (MSG_Init data maxsize) bits v = write_ops (ps_changed_ops bits v) (MSG_Init data maxsize)"
    using assms(4) by (auto simp: write_ps_changed_def ps_changed_ops_def write_integer_ops)
  moreover have "list_all op_ok (ps_changed_ops bits v)"
    using assms(4) by (auto simp: ps_changed_ops_def integer_ops_ok)
  ultimately obtain r where r: "sees (MSG_BeginReading m) (ps_changed_ops bits v) r"
    using fresh_seen [OF assms(1-3), of "ps_changed_ops bits v" m] assms(7,8) by auto
  have rng: "-32768 \<le> v" "bits = -8 \<Longrightarrow> -128 \<le> v" using assms(4,6) by auto
  have "int32_range v" using rng assms(5) by (simp add: int32_range_def)
  from read_ps_changed_seen [OF r this] assms(4)
  have "read_ps_changed (MSG_BeginReading m) bits = Some (received bits v, r)" by auto
  moreover have "received bits v = v + 2 ^ nat (- bits)"
  proof -
    have wrap: "v mod n = v + n" if "- n \<le> v" for n
    proof -
      have "v mod n = (v + n) mod n" by simp
      also have "\<dots> = v + n" using that assms(5) by (intro mod_pos_pos_trivial) auto
      finally show ?thesis .
    qed
    have "v mod 256 = v + 256" if "-128 \<le> v" using that by (intro wrap) simp
    moreover have "v mod 65536 = v + 65536" using rng(1) by (intro wrap) simp
    ultimately show ?thesis
      using assms(4,5) rng by (auto simp: received_def i32_id)
  qed
  ultimately show ?thesis by simp
qed

lemma negative_width_sign_witness:
  "\<exists>m r. write_ps_changed (MSG_Init [0, 0] 2) (-8) (-1) = Some m \<and>
     read_ps_changed (MSG_BeginReading m) (-8) = Some (255, r)"
proof -
  have "map_option m_overflowed (write_ps_changed (MSG_Init [0, 0] 2) (-8) (-1)) = Some False" by code_simp
  then obtain m where "write_ps_changed (MSG_Init [0, 0] 2) (-8) (-1) = Some m" "\<not> m_overflowed m" by auto
  then show ?thesis using negative_width_sign [of 2 "[0, 0]" "-8" "-1" m] by auto
qed

end
