(* ===== verification/FsPath_Correct.thy ===== *)
theory FsPath_Correct
  imports FsPath "HOL-Library.List_Lexorder" "HOL-Library.Multiset"
begin

text \<open>
  Host paths built from accepted names stay below their root; the orders on names are the
  lexicographic order of one key, so the list of files is sorted and the comparator of the paks
  is one \<open>qsort\<close> may use; the test for the game's own paks never meets a name with its suffix.
\<close>

section \<open>Confinement\<close>

text \<open>The pieces between separators, and where a walk along them ends; \<open>..\<close> leaves a directory.\<close>

fun split_on :: "(char \<Rightarrow> bool) \<Rightarrow> string \<Rightarrow> string list" where
  "split_on P [] = [[]]"
| "split_on P (c # cs) =
     (if P c then [] # split_on P cs else (c # hd (split_on P cs)) # tl (split_on P cs))"

fun walk :: "string list \<Rightarrow> string list \<Rightarrow> string list" where
  "walk dir [] = dir"
| "walk dir (p # ps) =
     walk (if p = [] \<or> p = ''.'' then dir else if p = ''..'' then butlast dir else dir @ [p]) ps"

lemma split_on_nonempty [simp]: "split_on P s \<noteq> []"
  by (induction s) auto

lemma split_on_append: "\<forall>c \<in> set p. \<not> P c \<Longrightarrow> P c \<Longrightarrow> split_on P (p @ c # s) = p # split_on P s"
  by (induction p) auto

lemma split_on_free: "\<forall>c \<in> set p. \<not> P c \<Longrightarrow> split_on P p = [p]"
  by (induction p) auto

lemma split_on_join:
  "P c \<Longrightarrow> split_on P (s @ c # t) = split_on P s @ split_on P t"
  by (induction s) auto

lemma split_on_cong: "(\<And>c. c \<in> set s \<Longrightarrow> P c = Q c) \<Longrightarrow> split_on P s = split_on Q s"
  by (induction s) auto

lemma walk_append: "walk dir (ps @ qs) = walk (walk dir ps) qs"
  by (induction dir ps rule: walk.induct) simp_all

lemma walk_plain: "\<forall>p \<in> set ps. \<not> dot_component p \<Longrightarrow> walk dir ps = dir @ filter (\<lambda>p. p \<noteq> []) ps"
  by (induction dir ps rule: walk.induct) (auto simp: dot_component_def)

abbreviation parts :: "string \<Rightarrow> string list" where
  "parts \<equiv> split_on coduo_compat_is_path_separator"

lemma safe_components_iff:
  assumes "\<forall>c \<in> set component. \<not> coduo_compat_is_path_separator c"
  shows "safe_components component rest \<longleftrightarrow>
     CHR '':'' \<notin> set rest \<and>
     (\<forall>p \<in> set (butlast (parts (component @ rest))). p \<noteq> [] \<and> \<not> dot_component p) \<and>
     \<not> dot_component (last (parts (component @ rest)))"
  using assms
proof (induction component rest rule: safe_components.induct)
  case (1 component)
  then show ?case by (auto simp: split_on_free dot_component_def)
next
  case (2 component character rest)
  then show ?case
    by (cases "coduo_compat_is_path_separator character")
       (auto simp: split_on_append coduo_compat_is_path_separator_def)
qed

lemma safe_relative_iff:
  "coduo_compat_path_is_safe_relative (Some path) \<longleftrightarrow>
     path \<noteq> [] \<and> CHR '':'' \<notin> set path \<and>
     (\<forall>p \<in> set (butlast (parts path)). p \<noteq> [] \<and> \<not> dot_component p) \<and>
     \<not> dot_component (last (parts path)) \<and> hd path \<noteq> slash \<and> hd path \<noteq> back_slash"
proof -
  have "coduo_compat_path_is_safe_relative (Some path) \<longleftrightarrow>
     path \<noteq> [] \<and> \<not> coduo_compat_is_path_separator (hd path) \<and> safe_components [] path"
    by (cases path) (simp_all add: coduo_compat_path_is_safe_relative_def del: safe_components.simps)
  then show ?thesis
    using safe_components_iff [of "[]" path] by (auto simp: coduo_compat_is_path_separator_def)
qed

lemma safe_parts:
  assumes "coduo_compat_path_is_safe_relative (Some path)"
  shows "\<forall>p \<in> set (parts path). \<not> dot_component p" "\<exists>p \<in> set (parts path). p \<noteq> []"
proof -
  have "set (parts path) = set (butlast (parts path)) \<union> {last (parts path)}"
    by (metis Un_insert_right append_butlast_last_id list.simps(15) set_append split_on_nonempty
        sup_bot.right_neutral list.set(1))
  then show "\<forall>p \<in> set (parts path). \<not> dot_component p" using assms by (auto simp: safe_relative_iff)
  show "\<exists>p \<in> set (parts path). p \<noteq> []"
    using assms by (cases path) (auto simp: safe_relative_iff coduo_compat_is_path_separator_def)
qed

lemma split_on_replaced:
  assumes "hs = slash \<or> hs = back_slash"
  shows "split_on (\<lambda>c. c = hs) (FS_ReplaceSeparators hs path) = parts path"
  using assms
  by (induction path) (auto simp: FS_ReplaceSeparators_def coduo_compat_is_path_separator_def)

text \<open>
  C13: the host path built from a base directory and names that
  \<open>coduo_compat_path_is_safe_relative\<close> accepts (one below a game directory, or as every
  \<open>FS_SV_\<close> function has it, the name in the place of the game and an empty rest) stays below the
  base: whatever directory the base denotes, walking the rest of the path only descends from it,
  and by at least one step. The path has fewer than \<open>MAX_OSPATH\<close> characters.
\<close>

theorem host_path_confined:
  assumes "coduo_compat_path_is_safe_relative (Some game)"
    and "qpath = [] \<or> coduo_compat_path_is_safe_relative (Some qpath)"
    and "hostSeparator = slash \<or> hostSeparator = back_slash"
    and "length base + length game + length qpath < 2147483646"
    and "FS_BuildOSPath_Internal hostSeparator currentGameDir base (Some game) qpath quiet = Done osPath"
    and "osPath \<noteq> []"
  shows "\<exists>rest names. osPath = base @ hostSeparator # rest \<and> names \<noteq> [] \<and>
     (\<forall>directory. walk directory (split_on (\<lambda>c. c = hostSeparator) rest) = directory @ names) \<and>
     int (length osPath) < MAX_OSPATH"
proof -
  let ?rest = "FS_ReplaceSeparators hostSeparator (game @ slash # qpath)"
  have game: "game \<noteq> []" using assms(1) by (auto simp: safe_relative_iff)
  have short: "int (length base) + int (length game) + int (length qpath) + 2 < MAX_OSPATH"
    and os: "osPath = base @ FS_ReplaceSeparators hostSeparator (slash # game @ slash # qpath)"
    using assms(4-6) game
    by (auto simp: FS_BuildOSPath_Internal_def Let_def i32_simps split: list.splits if_splits)
  have split: "split_on (\<lambda>c. c = hostSeparator) ?rest = parts game @ parts qpath"
    using split_on_replaced [OF assms(3)] by (simp add: split_on_join coduo_compat_is_path_separator_def)
  have "\<forall>p \<in> set (parts game @ parts qpath). \<not> dot_component p"
    using safe_parts(1) [OF assms(1)] safe_parts(1) [of qpath] assms(2) by (auto simp: dot_component_def)
  note walks = walk_plain [OF this]
  have "filter (\<lambda>p. p \<noteq> []) (parts game @ parts qpath) \<noteq> []"
    using safe_parts(2) [OF assms(1)] by (auto simp: filter_empty_conv)
  moreover have "osPath = base @ hostSeparator # ?rest"
    using os assms(3) by (auto simp: FS_ReplaceSeparators_def)
  moreover have "int (length osPath) < MAX_OSPATH"
    using short os by (simp add: FS_ReplaceSeparators_def)
  ultimately show ?thesis using walks split by metis
qed

lemma host_path_confined_witness:
  "walk [''home''] (split_on (\<lambda>c. c = slash) ''main/maps/a..b.pk3'') = [''home'', ''main'', ''maps'', ''a..b.pk3'']
   \<and> (\<exists>rest names. ''/home/uo/main/maps/a..b.pk3'' = ''/home/uo'' @ slash # rest \<and> names \<noteq> [] \<and>
     (\<forall>directory. walk directory (split_on (\<lambda>c. c = slash) rest) = directory @ names) \<and>
     int (length ''/home/uo/main/maps/a..b.pk3'') < MAX_OSPATH)"
proof
  show "walk [''home''] (split_on (\<lambda>c. c = slash) ''main/maps/a..b.pk3'') = [''home'', ''main'', ''maps'', ''a..b.pk3'']"
    by code_simp
  show "\<exists>rest names. ''/home/uo/main/maps/a..b.pk3'' = ''/home/uo'' @ slash # rest \<and> names \<noteq> [] \<and>
     (\<forall>directory. walk directory (split_on (\<lambda>c. c = slash) rest) = directory @ names) \<and>
     int (length ''/home/uo/main/maps/a..b.pk3'') < MAX_OSPATH"
  proof (rule host_path_confined [of "''main''" "''maps/a..b.pk3''" slash "''/home/uo''" "''''" False])
    show "coduo_compat_path_is_safe_relative (Some ''main'')" by code_simp
    show "''maps/a..b.pk3'' = [] \<or> coduo_compat_path_is_safe_relative (Some ''maps/a..b.pk3'')" by code_simp
    show "FS_BuildOSPath_Internal slash '''' ''/home/uo'' (Some ''main'') ''maps/a..b.pk3'' False =
      Done ''/home/uo/main/maps/a..b.pk3''" by code_simp
  qed simp_all
qed

section \<open>The order on names\<close>

text \<open>A name as its folded characters and its terminator; characters above 127 are negative.\<close>

definition path_key :: "string \<Rightarrow> int list" where
  "path_key s = map path_character s @ [0]"

lemma schar_inject: "schar c = schar d \<longleftrightarrow> c = d"
proof
  assume "schar c = schar d"
  then have "(of_char c :: int) = of_char d"
    using of_char_bounds [of c] of_char_bounds [of d] by (auto simp: schar_def Let_def split: if_splits)
  then show "c = d" by simp
qed simp

lemma path_character_0: "path_character c = 0 \<longleftrightarrow> c = NUL"
  using schar_inject [of c NUL] by (auto simp: path_character_def Let_def schar_def [of NUL])

lemma path_key_simps: "path_key [] = [0]" "path_key (c # cs) = path_character c # path_key cs"
  by (simp_all add: path_key_def)

lemma path_key_nonempty [simp]: "path_key s \<noteq> []"
  by (simp add: path_key_def)

lemma FS_FilenameCompare_key:
  assumes "nulfree left" "nulfree right"
  shows "FS_FilenameCompare left right = (if path_key left = path_key right then 0 else -1)"
  using assms
proof (induction left right rule: FS_FilenameCompare.induct)
  case (1 left right)
  then show ?case
    by (subst FS_FilenameCompare.simps, cases left; cases right)
       (auto simp: path_head_def path_key_simps path_character_0)
qed

lemma FS_PathCmp_key:
  assumes "nulfree left" "nulfree right"
  shows "FS_PathCmp left right =
     (if path_key right < path_key left then -1 else if path_key left < path_key right then 1 else 0)"
  using assms
proof (induction left right rule: FS_PathCmp.induct)
  case (1 left right)
  then show ?case
    by (subst FS_PathCmp.simps, cases left; cases right)
       (auto simp: path_head_def path_key_simps path_character_0)
qed

lemma insert_index_le: "insert_index ss path \<le> length ss"
  by (induction ss) auto

text \<open>Insertion behind the equal ones: it keeps the order, and the order of equal names.\<close>

lemma insert_sorted_simps:
  "insert_sorted path [] = [path]"
  "insert_sorted path (s # ss) =
     (if FS_PathCmp s path \<ge> 0 then s # insert_sorted path ss else path # s # ss)"
  by (simp_all add: insert_sorted_def Let_def)

lemma mset_insert_sorted: "mset (insert_sorted path ss) = add_mset path (mset ss)"
  by (induction ss) (simp_all add: insert_sorted_simps)

lemma set_insert_sorted [simp]: "set (insert_sorted path ss) = insert path (set ss)"
  by (metis mset_insert_sorted set_mset_add_mset_insert set_mset_mset)

lemma insert_sorted_sorted:
  assumes "sorted (map path_key ss)" "nulfree path" "\<forall>s \<in> set ss. nulfree s"
  shows "sorted (map path_key (insert_sorted path ss)) \<and>
     (\<forall>k. filter (\<lambda>s. path_key s = k) (insert_sorted path ss) =
       filter (\<lambda>s. path_key s = k) ss @ (if path_key path = k then [path] else []))"
  using assms
proof (induction ss)
  case (Cons s ss)
  show ?case
  proof (cases "path_key s \<le> path_key path")
    case True
    then have "FS_PathCmp s path \<ge> 0" using Cons.prems by (simp add: FS_PathCmp_key not_less)
    then show ?thesis using Cons True by (auto simp: insert_sorted_simps)
  next
    case False
    then have lt: "path_key path < path_key s" by simp
    have "filter (\<lambda>s. path_key s = path_key path) (s # ss) = []"
      using lt Cons.prems(1) by (auto simp: filter_empty_conv)
    moreover have "\<not> FS_PathCmp s path \<ge> 0" using lt Cons.prems by (simp add: FS_PathCmp_key)
    ultimately show ?thesis using lt Cons.prems(1) by (auto simp: insert_sorted_simps)
  qed
qed (simp add: insert_sorted_simps)

lemma fold_insert_sorted:
  assumes "\<forall>s \<in> set list \<union> set acc. nulfree s" "sorted (map path_key acc)"
  shows "mset (fold insert_sorted list acc) = mset acc + mset list \<and>
     sorted (map path_key (fold insert_sorted list acc)) \<and>
     (\<forall>k. filter (\<lambda>s. path_key s = k) (fold insert_sorted list acc) =
          filter (\<lambda>s. path_key s = k) (acc @ list))"
  using assms
proof (induction list arbitrary: acc)
  case (Cons s list)
  have acc: "nulfree s" "\<forall>t \<in> set acc. nulfree t" "sorted (map path_key acc)" using Cons.prems by auto
  note step = insert_sorted_sorted [OF acc(3,1,2)]
  have "\<forall>t \<in> set list \<union> set (insert_sorted s acc). nulfree t" using Cons.prems by auto
  from Cons.IH [OF this] step show ?case
    by (simp add: mset_insert_sorted)
qed simp

text \<open>The comparator's key: behind the ten spaces of a localized pak, English comes first.\<close>

definition pak_key :: "string \<Rightarrow> int list" where
  "pak_key s =
     (if take 10 s = localized_prefix
      then replicate 10 32 @ (if Q_stricmp (Some (PakFileLanguage s)) (Some ''english'') = 0 then 0 else 1) #
           path_key (drop 10 s)
      else path_key s)"

lemma path_character_space: "path_character c = 32 \<longleftrightarrow> c = CHR '' ''"
  using schar_inject [of c "CHR '' ''"] by (auto simp: path_character_def Let_def schar_def [of "CHR '' ''"])

text \<open>A name that does not begin with \<open>n\<close> spaces compares the same with everything that does.\<close>

lemma unprefixed_less:
  assumes "take n s \<noteq> replicate n (CHR '' '')"
  shows "(path_key s < replicate n 32 @ xs) = (path_key s < replicate n 32 @ ys) \<and>
    (replicate n 32 @ xs < path_key s) = (replicate n 32 @ ys < path_key s) \<and>
    path_key s \<noteq> replicate n 32 @ xs"
  using assms
proof (induction n arbitrary: s)
  case (Suc n)
  show ?case
  proof (cases s)
    case Nil
    then show ?thesis by (simp add: path_key_simps)
  next
    case (Cons c cs)
    show ?thesis
    proof (cases "c = CHR '' ''")
      case True
      then have "path_character c = 32" by (simp add: path_character_space)
      moreover have "take n cs \<noteq> replicate n (CHR '' '')" using Suc.prems Cons True by simp
      ultimately show ?thesis using Suc.IH [of cs] Cons by (simp add: path_key_simps)
    next
      case False
      then show ?thesis using Cons by (simp add: path_key_simps path_character_space)
    qed
  qed
qed simp

lemma prefixed_less [simp]: "(replicate n (k :: int) @ xs < replicate n k @ ys) = (xs < ys)"
  by (induction n) simp_all

lemma localized_key:
  assumes "take 10 s = localized_prefix"
  shows "path_key s = replicate 10 32 @ path_key (drop 10 s)"
proof -
  have "map path_character s = map path_character (take 10 s) @ map path_character (drop 10 s)"
    by (metis append_take_drop_id map_append)
  also have "map path_character (take 10 s) = replicate 10 32"
    unfolding assms by (simp add: localized_prefix_def path_character_space)
  finally show ?thesis by (simp add: path_key_def)
qed

text \<open>The comparator that orders the paks is the comparison of one key, hence a total preorder.\<close>

lemma paksort_key:
  assumes "nulfree left" "nulfree right"
  shows "paksort left right =
     (if pak_key left < pak_key right then -1 else if pak_key right < pak_key left then 1 else 0)"
proof -
  let ?l = "take 10 left = localized_prefix" and ?r = "take 10 right = localized_prefix"
  note defs = paksort_def Let_def FS_PathCmp_key [OF assms(2,1)] pak_key_def
  consider "?l" "?r" | "?l" "\<not> ?r" | "\<not> ?l" "?r" | "\<not> ?l" "\<not> ?r" by blast
  then show ?thesis
  proof cases
    case 1
    then show ?thesis by (auto simp: defs localized_key)
  next
    case 2
    have "take 10 right \<noteq> replicate 10 (CHR '' '')" using 2 by (simp add: localized_prefix_def)
    note less = unprefixed_less [OF this, of "path_key (drop 10 left)"
        "(if Q_stricmp (Some (PakFileLanguage left)) (Some ''english'') = 0 then 0 else 1) # path_key (drop 10 left)"]
    show ?thesis using 2 less by (simp add: defs localized_key)
  next
    case 3
    have "take 10 left \<noteq> replicate 10 (CHR '' '')" using 3 by (simp add: localized_prefix_def)
    note less = unprefixed_less [OF this, of "path_key (drop 10 right)"
        "(if Q_stricmp (Some (PakFileLanguage right)) (Some ''english'') = 0 then 0 else 1) # path_key (drop 10 right)"]
    show ?thesis using 3 less by (simp add: defs localized_key)
  next
    case 4
    then show ?thesis by (simp add: defs)
  qed
qed

text \<open>
  C39: \<open>FS_SortFileList\<close> returns the names it was given, in the order of \<open>FS_PathCmp\<close>, and keeps
  equal names in the order they came: it is the stable sort by the folded characters of a name.
\<close>

theorem file_list_sorted:
  assumes "\<forall>name \<in> set list. nulfree name"
  shows "FS_SortFileList list = sort_key path_key list"
proof -
  have "mset (FS_SortFileList list) = mset list \<and> sorted (map path_key (FS_SortFileList list)) \<and>
    (\<forall>k. filter (\<lambda>s. path_key s = k) (FS_SortFileList list) = filter (\<lambda>s. path_key s = k) list)"
    using fold_insert_sorted [of list "[]"] assms by (simp add: FS_SortFileList_def)
  then have "sort_key path_key list = FS_SortFileList list"
    by (intro properties_for_sort_key) (simp_all add: eq_commute)
  then show ?thesis by simp
qed

lemma file_list_sorted_witness:
  "FS_SortFileList [''pak1.PK3'', ''Maps'', ''pak0.pk3'', ''maps''] = [''Maps'', ''maps'', ''pak0.pk3'', ''pak1.PK3''] \<and>
   FS_SortFileList [''pak1.PK3'', ''Maps'', ''pak0.pk3'', ''maps''] =
     sort_key path_key [''pak1.PK3'', ''Maps'', ''pak0.pk3'', ''maps'']"
proof
  show "FS_SortFileList [''pak1.PK3'', ''Maps'', ''pak0.pk3'', ''maps''] = [''Maps'', ''maps'', ''pak0.pk3'', ''pak1.PK3'']"
    by code_simp
  show "FS_SortFileList [''pak1.PK3'', ''Maps'', ''pak0.pk3'', ''maps''] =
     sort_key path_key [''pak1.PK3'', ''Maps'', ''pak0.pk3'', ''maps'']"
    by (rule file_list_sorted) simp
qed

section \<open>The game's own paks\<close>

lemma compare_rev:
  assumes "nulfree path" "nulfree name" "FS_FilenameCompare path name = 0"
  shows "map path_character (rev path) = map path_character (rev name)"
  using assms by (simp add: FS_FilenameCompare_key path_key_def rev_map [symmetric] split: if_splits)

lemma pk3_ending:
  assumes "coduo_compat_path_is_pk3 (Some path)"
  shows "take 4 (map path_character (rev path)) = [51, 75, 80, 46]"
proof -
  define e where "e = drop (length path - 4) path"
  have "length e = 4" and e: "e ! 0 = CHR ''.''" "e ! 1 \<in> {CHR ''p'', CHR ''P''}"
    "e ! 2 \<in> {CHR ''k'', CHR ''K''}" "e ! 3 = CHR ''3''"
    using assms by (auto simp: e_def coduo_compat_path_is_pk3_def Let_def split: if_splits)
  then obtain a b c d where abcd: "e = [a, b, c, d]"
    by (auto simp: length_Suc_conv numeral_eq_Suc)
  have "take 4 (rev path) = rev e" by (simp add: take_rev e_def)
  then have "take 4 (rev path) = [d, c, b, a]" by (simp add: abcd)
  then show ?thesis
    using e by (auto simp: abcd take_map path_character_def schar_def)
qed

text \<open>No name of the tables ends in the folded suffix.\<close>

lemma game_pak_endings:
  assumes "pakIndex < 24" "name \<in> set (game_pak_names mainGame baseGame pakIndex)"
  shows "take 4 (map path_character (rev name)) \<noteq> [51, 75, 80, 46]"
proof -
  have "pakIndex \<in> {0..<24}" using assms(1) by simp
  also have "{0..<24 :: nat} = {0,1,2,3,4,5,6,7,8,9,10,11,12,13,14,15,16,17,18,19,20,21,22,23}" by code_simp
  finally show ?thesis
    using assms(2)
    by (elim insertE emptyE) (auto simp: game_pak_names_def hex_text_def hex_digit_def path_character_def schar_def)
qed

lemma game_pak_nulfree:
  assumes "nulfree mainGame" "nulfree baseGame" "pakIndex < 24" "name \<in> set (game_pak_names mainGame baseGame pakIndex)"
  shows "nulfree name"
proof -
  have "nulfree (hex_text n)" if "n < 24" for n
  proof -
    have "list_all (\<lambda>n. nulfree (hex_text n)) [0..<24]" by code_simp
    then show ?thesis using that by (simp add: list_all_iff)
  qed
  then show ?thesis using assms by (auto simp: game_pak_names_def)
qed

text \<open>
  C40: the test that keeps the game's own paks from being downloaded never applies to them. A name
  that \<open>SV_BeginDownload_f\<close> accepts ends in \<open>.pk3\<close>, \<open>FS_idPak\<close> compares the whole name with
  spellings that lack that suffix, so of all accepted names only those containing \<open>localized_\<close>
  can be refused; \<open>main/pak0.pk3\<close> is served.
\<close>

theorem game_pak_not_recognised:
  assumes "coduo_compat_path_is_pk3 (Some path)" "nulfree path" "nulfree mainGame" "nulfree baseGame"
    and "strstr path ''localized_'' = None"
  shows "\<not> FS_idPak path mainGame baseGame"
proof -
  have ending: "FS_FilenameCompare path name \<noteq> 0"
    if "nulfree name" "take 4 (map path_character (rev name)) \<noteq> [51, 75, 80, 46]" for name
    using compare_rev [OF assms(2) that(1)] pk3_ending [OF assms(1)] that(2) by auto
  have "FS_FilenameCompare path (mainGame @ ''/mp_bin'') \<noteq> 0"
    using assms(3) by (intro ending) (auto simp: path_character_def schar_def)
  moreover have "FS_FilenameCompare path name \<noteq> 0"
    if "pakIndex < 24" "name \<in> set (game_pak_names mainGame baseGame pakIndex)" for pakIndex name
    using ending game_pak_nulfree [OF assms(3,4) that] game_pak_endings [OF that] by blast
  ultimately show ?thesis
    using assms(5) by (auto simp: FS_idPak_def list_ex_iff)
qed

lemma game_pak_not_recognised_witness:
  "coduo_compat_path_is_safe_relative (Some ''main/pak0.pk3'') \<and>
   coduo_compat_path_is_pk3 (Some ''main/pak0.pk3'') \<and> FS_idPak ''main/pak0'' ''main'' ''uo'' \<and>
   \<not> FS_idPak ''main/pak0.pk3'' ''main'' ''uo''"
proof (intro conjI)
  show "coduo_compat_path_is_safe_relative (Some ''main/pak0.pk3'')" by code_simp
  show pk3: "coduo_compat_path_is_pk3 (Some ''main/pak0.pk3'')" by code_simp
  show "FS_idPak ''main/pak0'' ''main'' ''uo''" by code_simp
  show "\<not> FS_idPak ''main/pak0.pk3'' ''main'' ''uo''"
    by (rule game_pak_not_recognised [OF pk3]) (simp_all, code_simp)
qed

end
