(* ===== verification/Checksum_Correct.thy ===== *)
theory Checksum_Correct
  imports Checksum
begin

text \<open>
  The incremental MD4 computes the digest of RFC 1320 for whatever pieces its input comes in, so
  the two block checksums are functions of the bytes alone.
\<close>

section \<open>The reference\<close>

function md4_fold :: "32 word list \<Rightarrow> 8 word list \<Rightarrow> 32 word list" where
  "md4_fold state bytes =
     (if length bytes < 64 then state else md4_fold (compress state (take 64 bytes)) (drop 64 bytes))"
  by pat_completeness auto
termination by (relation "measure (length \<circ> snd)") auto

declare md4_fold.simps [simp del]

definition md4_pad :: "8 word list \<Rightarrow> 8 word list" where
  "md4_pad bytes =
     (let bits = 8 * int (length bytes) in
      bytes @ 0x80 # replicate (nat ((55 - int (length bytes)) mod 64)) 0 @
        Encode [word_of_int bits, word_of_int (bits div 4294967296)])"

definition md4 :: "8 word list \<Rightarrow> 8 word list" where
  "md4 bytes = Encode (md4_fold md4_start (md4_pad bytes))"

lemma md4_fold_short: "length bytes < 64 \<Longrightarrow> md4_fold s bytes = s"
  by (simp add: md4_fold.simps)

lemma md4_fold_block: "length block = 64 \<Longrightarrow> md4_fold s (block @ bytes) = md4_fold (compress s block) bytes"
  by (subst md4_fold.simps) simp

lemma md4_fold_append:
  "length xs mod 64 = 0 \<Longrightarrow> md4_fold s (xs @ ys) = md4_fold (md4_fold s xs) ys"
proof (induction s xs rule: md4_fold.induct)
  case (1 s xs)
  show ?case
  proof (cases "length xs < 64")
    case True
    then have "xs = []" using 1(2) by simp
    then show ?thesis by (simp add: md4_fold_short)
  next
    case False
    then have "length (drop 64 xs) mod 64 = 0"
      using 1(2) by (simp add: mod_nat_eqI [of 0] le_mod_geq)
    from 1(1) [OF False this]
    have IH: "md4_fold (compress s (take 64 xs)) (drop 64 xs @ ys) =
      md4_fold (md4_fold (compress s (take 64 xs)) (drop 64 xs)) ys" .
    have "md4_fold s (xs @ ys) = md4_fold (compress s (take 64 xs)) (drop 64 xs @ ys)"
      using False by (subst md4_fold.simps) simp
    moreover have "md4_fold s xs = md4_fold (compress s (take 64 xs)) (drop 64 xs)"
      using False by (subst md4_fold.simps) simp
    ultimately show ?thesis using IH by simp
  qed
qed

section \<open>What a context has absorbed\<close>

definition full_blocks :: "8 word list \<Rightarrow> 8 word list" where
  "full_blocks bytes = take (length bytes - length bytes mod 64) bytes"

definition open_block :: "8 word list \<Rightarrow> 8 word list" where
  "open_block bytes = drop (length bytes - length bytes mod 64) bytes"

lemma blocks_split: "full_blocks bytes @ open_block bytes = bytes"
  by (simp add: full_blocks_def open_block_def)

lemma length_open_block: "length (open_block bytes) = length bytes mod 64"
  by (simp add: open_block_def)

lemma length_full_blocks: "length (full_blocks bytes) mod 64 = 0"
  by (simp add: full_blocks_def minus_mod_eq_mult_div)

lemma open_block_unique:
  assumes "length xs mod 64 = 0" "length ys < 64"
  shows "open_block (xs @ ys) = ys" "full_blocks (xs @ ys) = xs"
proof -
  have "length (xs @ ys) mod 64 = length ys" using assms by (simp add: mod_add_left_eq [symmetric])
  then show "open_block (xs @ ys) = ys" "full_blocks (xs @ ys) = xs"
    by (simp_all add: open_block_def full_blocks_def)
qed

lemma md4_fold_full: "md4_fold s bytes = md4_fold s (full_blocks bytes)"
proof -
  have "md4_fold s (full_blocks bytes @ open_block bytes) = md4_fold s (full_blocks bytes)"
    by (simp add: md4_fold_append length_full_blocks md4_fold_short length_open_block)
  then show ?thesis by (simp add: blocks_split)
qed

definition absorbed :: "MD4_CTX \<Rightarrow> 8 word list \<Rightarrow> bool" where
  "absorbed context' bytes \<longleftrightarrow>
     length (md_buffer context') = 64 \<and>
     take (length bytes mod 64) (md_buffer context') = open_block bytes \<and>
     md_state context' = md4_fold md4_start bytes \<and>
     md_count0 context' = word_of_int (8 * int (length bytes)) \<and>
     md_count1 context' = word_of_int (8 * int (length bytes) div 4294967296)"

lemma absorbed_Init: "length (md_buffer context') = 64 \<Longrightarrow> absorbed (MD4Init context') []"
  by (simp add: absorbed_def MD4Init_def open_block_def md4_fold_short)

lemma and_63_word: "uint ((w :: 32 word) AND 63) = uint w mod 64"
  using take_bit_eq_mask [of 6 "uint w"] by (simp add: uint_and mask_eq_exp_minus_1 take_bit_eq_mod)

lemma uint_shifted: "uint (drop_bit k (word_of_int x :: 32 word)) = x mod 4294967296 div 2 ^ k" for x :: int
  by (simp only: unsigned_drop_bit_eq) (simp add: drop_bit_eq_div uint_word_of_int take_bit_eq_mod)

lemma word_of_int_less:
  "(word_of_int x :: 32 word) < word_of_int y \<longleftrightarrow> x mod 4294967296 < y mod 4294967296" for x y :: int
  by (simp add: word_less_def uint_word_of_int)

lemma input_index_absorbed:
  assumes "absorbed context' bytes"
  shows "input_index context' = int (length bytes mod 64)"
proof -
  have "uint (drop_bit 3 (word_of_int (8 * int (length bytes)) :: 32 word)) =
      (8 * int (length bytes)) mod 4294967296 div 8"
    by (rule uint_shifted [of 3, simplified])
  also have "\<dots> = int (length bytes) mod 536870912"
    using mult_mod_right [of 8 "int (length bytes)" 536870912] by simp
  finally have "input_index context' = int (length bytes) mod 536870912 mod 64"
    using assms by (simp add: input_index_def absorbed_def and_63_word)
  also have "\<dots> = int (length bytes) mod 64" by (simp add: mod_mod_cancel)
  finally show ?thesis by (simp add: zmod_int)
qed

lemma carry_small:
  fixes r t m :: int
  assumes "0 \<le> r" "r < m" "0 \<le> t" "t < m"
  shows "(r + t) div m = (if (r + t) mod m < t then 1 else 0)"
proof (cases "r + t < m")
  case True
  then show ?thesis using assms by (simp add: div_pos_pos_trivial mod_pos_pos_trivial)
next
  case False
  have "(r + t) div m = 1" using assms False by (intro int_div_pos_eq [where r = "r + t - m"]) auto
  moreover have "(r + t) mod m = r + t - m" using assms False by (intro int_mod_pos_eq [where q = 1]) auto
  ultimately show ?thesis using assms by simp
qed

lemma carry_arith:
  fixes a b m :: int
  assumes "0 < m"
  shows "(a + b) div m = a div m + b div m + (if (a + b) mod m < b mod m then 1 else 0)"
proof -
  have "(a + b) mod m = (a mod m + b mod m) mod m" by (rule mod_add_eq [symmetric])
  then show ?thesis
    using carry_small [OF pos_mod_sign pos_mod_bound pos_mod_sign pos_mod_bound, OF assms assms assms assms, of a b]
    by (simp only: div_add1_eq [of a b m])
qed

lemma count_bytes_absorbed:
  assumes "absorbed context' bytes" "n < 4294967296"
  shows "md_count0 (count_bytes context' (int n)) = word_of_int (8 * int (length bytes + n))"
    "md_count1 (count_bytes context' (int n)) = word_of_int (8 * int (length bytes + n) div 4294967296)"
proof -
  let ?a = "8 * int (length bytes)" and ?b = "8 * int n"
  have c: "md_count0 context' = word_of_int ?a" "md_count1 context' = word_of_int (?a div 4294967296)"
    using assms(1) by (simp_all add: absorbed_def)
  have bits: "(push_bit 3 (word_of_int (int n)) :: 32 word) = word_of_int ?b"
    by (simp add: push_bit_eq_mult)
  have sum: "(word_of_int ?a + word_of_int ?b :: 32 word) = word_of_int (?a + ?b)" by simp
  have n: "?b div 4294967296 = int n div 536870912"
    using div_mult_mult1 [of 8 "int n" 536870912] by simp
  have high: "(drop_bit 29 (word_of_int (int n)) :: 32 word) = word_of_int (?b div 4294967296)"
  proof -
    have "uint (drop_bit 29 (word_of_int (int n)) :: 32 word) = int n div 536870912"
      using assms(2) uint_shifted [of 29 "int n"] by simp
    then show ?thesis unfolding n by (metis word_of_int_uint)
  qed
  have less: "(word_of_int (?a + ?b) :: 32 word) < word_of_int ?b \<longleftrightarrow>
      (?a + ?b) mod 4294967296 < ?b mod 4294967296"
    by (rule word_of_int_less)
  show "md_count0 (count_bytes context' (int n)) = word_of_int (8 * int (length bytes + n))"
    unfolding count_bytes_def Let_def c bits sum by simp
  have "md_count1 (count_bytes context' (int n)) =
      word_of_int (?a div 4294967296 + ?b div 4294967296 +
        (if (?a + ?b) mod 4294967296 < ?b mod 4294967296 then 1 else 0))"
    unfolding count_bytes_def Let_def c bits sum less high by simp
  also have "\<dots> = word_of_int ((?a + ?b) div 4294967296)"
    using carry_arith [of 4294967296 ?a ?b] by simp
  finally show "md_count1 (count_bytes context' (int n)) = word_of_int (8 * int (length bytes + n) div 4294967296)"
    by (simp add: algebra_simps)
qed

lemma count_bytes_fields [simp]:
  "md_state (count_bytes c n) = md_state c" "md_buffer (count_bytes c n) = md_buffer c"
  by (simp_all add: count_bytes_def Let_def)

section \<open>Absorbing more\<close>

lemma md4_blocks_absorb:
  assumes "0 \<le> copyIndex" "copyIndex \<le> int (length input)"
  shows "\<exists>i. md4_blocks input (int (length input)) copyIndex context' =
      Some (i, context'\<lparr>md_state := md4_fold (md_state context') (drop (nat copyIndex) input)\<rparr>) \<and>
    copyIndex \<le> i \<and> i \<le> int (length input) \<and> drop (nat i) input = open_block (drop (nat copyIndex) input)"
  using assms
proof (induction input "int (length input)" copyIndex context' rule: md4_blocks.induct)
  case (1 input copyIndex context')
  show ?case
  proof (cases "copyIndex + MD4_BLOCK_SIZE - 1 < int (length input)")
    case True
    then have len: "copyIndex + 64 \<le> int (length input)" by (simp add: MD4_BLOCK_SIZE_def)
    let ?block = "take 64 (drop (nat copyIndex) input)"
    have block: "copy_out input copyIndex MD4_BLOCK_SIZE = Some ?block"
      using len 1(2) by (simp add: MD4_BLOCK_SIZE_def copy_out_Some)
    have drop: "drop (nat (copyIndex + MD4_BLOCK_SIZE)) input = drop 64 (drop (nat copyIndex) input)"
      using 1(2) by (simp add: MD4_BLOCK_SIZE_def nat_add_distrib add.commute)
    have split: "drop (nat copyIndex) input = ?block @ drop 64 (drop (nat copyIndex) input)"
      by (simp only: append_take_drop_id)
    have lb: "length ?block = 64" using len 1(2) by simp
    have fold: "md4_fold (compress s ?block) (drop 64 (drop (nat copyIndex) input)) = md4_fold s (drop (nat copyIndex) input)" for s
      by (subst (2) split) (simp only: md4_fold_block [OF lb])
    have open': "open_block (drop 64 (drop (nat copyIndex) input)) = open_block (drop (nat copyIndex) input)"
    proof -
      let ?d = "drop 64 (drop (nat copyIndex) input)"
      have "drop (nat copyIndex) input = (?block @ full_blocks ?d) @ open_block ?d"
        using split blocks_split [of ?d] by (metis append.assoc)
      moreover have "length (?block @ full_blocks ?d) mod 64 = 0"
        using lb length_full_blocks [of ?d] by (simp add: mod_add_left_eq [symmetric])
      ultimately show ?thesis
        using open_block_unique(1) [of "?block @ full_blocks ?d" "open_block ?d"]
        by (simp add: length_open_block)
    qed
    have "0 \<le> copyIndex + MD4_BLOCK_SIZE" "copyIndex + MD4_BLOCK_SIZE \<le> int (length input)"
      using 1(2) len by (simp_all add: MD4_BLOCK_SIZE_def)
    from 1(1) [OF True block this] obtain i where i:
      "md4_blocks input (int (length input)) (copyIndex + MD4_BLOCK_SIZE) (MD4Transform context' ?block) =
        Some (i, (MD4Transform context' ?block)\<lparr>md_state :=
          md4_fold (md_state (MD4Transform context' ?block)) (drop (nat (copyIndex + MD4_BLOCK_SIZE)) input)\<rparr>)"
      "copyIndex + MD4_BLOCK_SIZE \<le> i" "i \<le> int (length input)"
      "drop (nat i) input = open_block (drop (nat (copyIndex + MD4_BLOCK_SIZE)) input)"
      by blast
    have "md4_blocks input (int (length input)) copyIndex context' =
        md4_blocks input (int (length input)) (copyIndex + MD4_BLOCK_SIZE) (MD4Transform context' ?block)"
      by (subst md4_blocks.simps) (simp add: True block)
    then show ?thesis
      using i unfolding drop open' by (simp add: MD4Transform_def fold [simplified] MD4_BLOCK_SIZE_def)
  next
    case False
    then have "length (drop (nat copyIndex) input) < 64"
      using 1(2,3) by (simp add: MD4_BLOCK_SIZE_def)
    moreover from this have "open_block (drop (nat copyIndex) input) = drop (nat copyIndex) input"
      using open_block_unique(1) [of "[]" "drop (nat copyIndex) input"] by simp
    ultimately show ?thesis
      using 1(3) False by (subst md4_blocks.simps) (simp add: md4_fold_short)
  qed
qed

lemma copy_out_prefix: "n \<le> length xs \<Longrightarrow> copy_out xs 0 (int n) = Some (take n xs)"
  by (simp add: copy_out_Some)

lemma MD4Update_absorb:
  assumes ctx: "absorbed context' bytes" and n: "length xs < 4294967296"
  shows "\<exists>context''. MD4Update context' xs (int (length xs)) = Some context'' \<and> absorbed context'' (bytes @ xs)"
proof -
  let ?r = "length bytes mod 64" and ?c = "count_bytes context' (int (length xs))"
  have r: "?r < 64" and i: "input_index context' = int ?r" by (simp_all add: input_index_absorbed [OF ctx])
  have buffer: "length (md_buffer context') = 64" "take ?r (md_buffer context') = open_block bytes"
    and state: "md_state context' = md4_fold md4_start (full_blocks bytes)"
    using ctx md4_fold_full [of md4_start bytes] by (simp_all add: absorbed_def)
  note counts = count_bytes_absorbed [OF ctx n]
  have all: "bytes @ xs = full_blocks bytes @ (open_block bytes @ xs)"
    by (metis append.assoc blocks_split)
  have fold: "md4_fold md4_start (bytes @ xs) = md4_fold (md_state context') (open_block bytes @ xs)"
    unfolding all state by (rule md4_fold_append [OF length_full_blocks])
  show ?thesis
  proof (cases "int (length xs) < MD4_BLOCK_SIZE - int ?r")
    case True
    then have short: "length (open_block bytes @ xs) < 64" by (simp add: MD4_BLOCK_SIZE_def length_open_block)
    define buf where "buf = take ?r (md_buffer context') @ xs @ drop (?r + length xs) (md_buffer context')"
    have copy: "copy_in (md_buffer ?c) (int ?r) xs = Some buf"
      using short buffer(1) by (simp add: buf_def copy_in_Some length_open_block nat_add_distrib)
    have upd: "MD4Update context' xs (int (length xs)) = Some (?c\<lparr>md_buffer := buf\<rparr>)"
      using True copy by (simp add: MD4Update_def i copy_out_Some)
    have "open_block (bytes @ xs) = open_block bytes @ xs"
      unfolding all by (rule open_block_unique(1) [OF length_full_blocks short])
    moreover from this have "length (bytes @ xs) mod 64 = ?r + length xs"
      using length_open_block [of "bytes @ xs"] by (simp add: length_open_block)
    moreover have "length buf = 64" using short buffer(1) r by (simp add: buf_def length_open_block)
    moreover have "take (?r + length xs) buf = open_block bytes @ xs"
      using buffer r by (simp add: buf_def length_open_block)
    ultimately have "absorbed (?c\<lparr>md_buffer := buf\<rparr>) (bytes @ xs)"
      using counts fold md4_fold_short [OF short] by (simp add: absorbed_def)
    with upd show ?thesis by blast
  next
    case False
    let ?p = "64 - ?r"
    have p: "?p \<le> length xs" and pi: "MD4_BLOCK_SIZE - int ?r = int ?p" and np: "nat (MD4_BLOCK_SIZE - int ?r) = ?p"
      using False r by (simp_all add: MD4_BLOCK_SIZE_def)
    let ?full = "open_block bytes @ take ?p xs"
    have lf: "length ?full = 64" using p r by (simp add: length_open_block)
    have copy: "copy_in (md_buffer ?c) (int ?r) (take ?p xs) = Some ?full"
      using p r buffer by (simp add: copy_in_Some)
    let ?t = "MD4Transform (?c\<lparr>md_buffer := ?full\<rparr>) ?full"
    have pp: "0 \<le> int ?p" "int ?p \<le> int (length xs)" using p by (simp_all only: of_nat_0_le_iff of_nat_le_iff)
    obtain j where j: "md4_blocks xs (int (length xs)) (int ?p) ?t =
        Some (j, ?t\<lparr>md_state := md4_fold (md_state ?t) (drop ?p xs)\<rparr>)"
      "int ?p \<le> j" "j \<le> int (length xs)" "drop (nat j) xs = open_block (drop ?p xs)"
      using md4_blocks_absorb [OF pp, of ?t, unfolded nat_int] by (elim exE conjE) (rule that)
    let ?rest = "open_block (drop ?p xs)"
    have out: "copy_out xs j (int (length xs) - j) = Some ?rest"
      using j(2-4) p length_drop [of "nat j" xs] by (simp add: copy_out_Some nat_diff_distrib)
    have lr: "length ?rest < 64" by (simp add: length_open_block)
    have in': "copy_in ?full 0 ?rest = Some (?rest @ drop (length ?rest) ?full)"
      using lr lf by (simp add: copy_in_Some del: length_append drop_append)
    have outp: "copy_out xs 0 (int ?p) = Some (take ?p xs)" by (rule copy_out_prefix [OF p])
    let ?after = "?t\<lparr>md_state := md4_fold (md_state ?t) (drop ?p xs), md_buffer := ?rest @ drop (length ?rest) ?full\<rparr>"
    have upd: "MD4Update context' xs (int (length xs)) = Some ?after"
      using False copy j(1) out in' outp
      by (simp add: MD4Update_def i pi MD4Transform_def)
    have split: "bytes @ xs = (full_blocks bytes @ ?full @ full_blocks (drop ?p xs)) @ ?rest"
    proof -
      have "xs = take ?p xs @ full_blocks (drop ?p xs) @ ?rest"
        by (simp add: blocks_split)
      then show ?thesis using all by (metis append.assoc)
    qed
    have m: "length (full_blocks bytes @ ?full @ full_blocks (drop ?p xs)) mod 64 = 0"
    proof -
      have "64 dvd length (full_blocks bytes)" "64 dvd length (full_blocks (drop ?p xs))"
        by (rule mod_0_imp_dvd [OF length_full_blocks])+
      then have "64 dvd length (full_blocks bytes) + (length ?full + length (full_blocks (drop ?p xs)))"
        unfolding lf by (intro dvd_add) simp_all
      then show ?thesis by (simp only: length_append mod_eq_0_iff_dvd)
    qed
    have ob: "open_block (bytes @ xs) = ?rest" unfolding split by (rule open_block_unique(1) [OF m lr])
    have st: "md4_fold md4_start (bytes @ xs) = md4_fold (md_state ?t) (drop ?p xs)"
    proof -
      have e: "open_block bytes @ xs = ?full @ drop ?p xs" by simp
      show ?thesis unfolding fold e md4_fold_block [OF lf] by (simp add: MD4Transform_def)
    qed
    have "length (bytes @ xs) mod 64 = length ?rest" using length_open_block [of "bytes @ xs"] ob by simp
    moreover have "length (?rest @ drop (length ?rest) ?full) = 64"
      unfolding length_append [of ?rest] length_drop lf using lr by simp
    ultimately have "absorbed ?after (bytes @ xs)"
      using counts st ob by (simp add: absorbed_def MD4Transform_def)
    with upd show ?thesis by blast
  qed
qed

section \<open>Padding and the digest\<close>

lemma copy_out_take:
  assumes "0 \<le> off" "0 \<le> n" "off + n \<le> int m" "m \<le> length xs"
  shows "copy_out (take m xs) off n = copy_out xs off n"
proof -
  have "nat n \<le> m - nat off" using assms by simp
  then show ?thesis using assms by (simp add: copy_out_def drop_take min_absorb1)
qed

lemma md4_blocks_take:
  assumes "0 \<le> copyIndex" "m \<le> length input"
  shows "md4_blocks (take m input) (int m) copyIndex context' = md4_blocks input (int m) copyIndex context'"
  using assms
proof (induction input "int m" copyIndex context' rule: md4_blocks.induct)
  case (1 input copyIndex context')
  show ?case
  proof (cases "copyIndex + MD4_BLOCK_SIZE - 1 < int m")
    case True
    then have out: "copy_out (take m input) copyIndex MD4_BLOCK_SIZE = copy_out input copyIndex MD4_BLOCK_SIZE"
      using 1(2,3) by (intro copy_out_take) (simp_all add: MD4_BLOCK_SIZE_def)
    have "0 \<le> copyIndex + MD4_BLOCK_SIZE" using 1(2) by (simp add: MD4_BLOCK_SIZE_def)
    with 1(1) [OF True _ this 1(3)] show ?thesis
      by (subst (1 2) md4_blocks.simps) (simp add: True out split: option.split)
  next
    case False
    then show ?thesis by (subst (1 2) md4_blocks.simps) simp
  qed
qed

lemma md4_blocks_index:
  assumes "md4_blocks input len copyIndex context' = Some (j, context'')" "0 \<le> copyIndex" "copyIndex \<le> len"
  shows "0 \<le> j \<and> j \<le> len"
  using assms
proof (induction input len copyIndex context' rule: md4_blocks.induct)
  case (1 input len copyIndex context')
  show ?case
  proof (cases "copyIndex + MD4_BLOCK_SIZE - 1 < len")
    case True
    then obtain block where block: "copy_out input copyIndex MD4_BLOCK_SIZE = Some block"
      using 1(2) by (subst (asm) md4_blocks.simps) (auto split: option.splits)
    have "md4_blocks input len (copyIndex + MD4_BLOCK_SIZE) (MD4Transform context' block) = Some (j, context'')"
      using 1(2) True block by (subst (asm) md4_blocks.simps) simp
    from 1(1) [OF True block this] show ?thesis using 1(3) True by (simp add: MD4_BLOCK_SIZE_def)
  next
    case False
    then have "j = copyIndex" using 1(2) by (subst (asm) md4_blocks.simps) simp
    then show ?thesis using 1(3,4) by simp
  qed
qed

lemma MD4Update_take:
  assumes "m \<le> length xs" "0 \<le> input_index context'" "input_index context' < 64"
  shows "MD4Update context' xs (int m) = MD4Update context' (take m xs) (int m)"
proof (cases "int m < MD4_BLOCK_SIZE - input_index context'")
  case True
  then show ?thesis using assms by (simp add: MD4Update_def copy_out_take)
next
  case False
  then have part: "copy_out (take m xs) 0 (MD4_BLOCK_SIZE - input_index context') =
      copy_out xs 0 (MD4_BLOCK_SIZE - input_index context')"
    using assms by (intro copy_out_take) (simp_all add: MD4_BLOCK_SIZE_def)
  have blocks: "md4_blocks (take m xs) (int m) (MD4_BLOCK_SIZE - input_index context') c =
      md4_blocks xs (int m) (MD4_BLOCK_SIZE - input_index context') c" for c
    using assms by (intro md4_blocks_take) (simp_all add: MD4_BLOCK_SIZE_def)
  have rest: "copy_out (take m xs) j (int m - j) = copy_out xs j (int m - j)"
    if "md4_blocks xs (int m) (MD4_BLOCK_SIZE - input_index context') c = Some (j, c')" for j c c'
    using md4_blocks_index [OF that] assms False by (intro copy_out_take) (simp_all add: MD4_BLOCK_SIZE_def)
  show ?thesis
    using False part blocks rest
    by (auto simp: MD4Update_def Let_def intro!: Option.bind_cong)
qed

lemma pad_length:
  fixes n :: nat
  shows "(if n mod 64 < 56 then 56 - int (n mod 64) else 120 - int (n mod 64)) = (55 - int n) mod 64 + 1"
proof -
  define i where "i = int n mod 64"
  have i: "0 \<le> i" "i < 64" "int (n mod 64) = i" by (simp_all add: i_def zmod_int)
  have "(55 - int n) mod 64 = (55 - i) mod 64" by (simp add: i_def mod_diff_right_eq)
  also have "\<dots> = (if i < 56 then 55 - i else 119 - i)"
    using i(1,2) by (auto intro: int_mod_pos_eq [where q = 0] int_mod_pos_eq [where q = "-1"])
  finally show ?thesis using i by auto
qed

lemma MD4Final_md4:
  assumes "absorbed context' bytes"
  shows "MD4Final context' = Some (md4 bytes)"
proof -
  let ?z = "nat ((55 - int (length bytes)) mod 64)"
  let ?pad = "0x80 # replicate ?z 0" and ?bits = "Encode [md_count0 context', md_count1 context']"
  have i: "input_index context' = int (length bytes mod 64)" by (rule input_index_absorbed [OF assms])
  have z: "?z < 64" by (simp add: nat_less_iff)
  have pl: "(if input_index context' < 56 then 56 - input_index context' else 120 - input_index context') = int (Suc ?z)"
    unfolding i using pad_length [of "length bytes"] by (simp split del: if_split)
  have take: "take (Suc ?z) md4_padding = ?pad"
    using z by (simp add: md4_padding_def)
  have "MD4Update context' md4_padding (int (Suc ?z)) = MD4Update context' ?pad (int (Suc ?z))"
    unfolding take [symmetric] using z by (intro MD4Update_take) (simp_all add: md4_padding_def i)
  moreover obtain c1 where c1: "MD4Update context' ?pad (int (length ?pad)) = Some c1" "absorbed c1 (bytes @ ?pad)"
    using MD4Update_absorb [OF assms, of ?pad] z by auto
  moreover obtain c2 where c2: "MD4Update c1 ?bits (int (length ?bits)) = Some c2" "absorbed c2 ((bytes @ ?pad) @ ?bits)"
    using MD4Update_absorb [OF c1(2), of ?bits] by auto
  ultimately have "MD4Final context' = Some (Encode (md_state c2))"
    by (simp add: MD4Final_def Let_def pl del: Encode.simps of_nat_Suc) simp
  moreover have "(bytes @ ?pad) @ ?bits = md4_pad bytes"
    using assms by (simp add: md4_pad_def Let_def absorbed_def)
  ultimately show ?thesis using c2(2) by (simp add: absorbed_def md4_def)
qed

lemma Com_BlockChecksum_md4:
  assumes "length (md_buffer uninitialized) = 64" "length bytes < 2147483648"
  shows "Com_BlockChecksum uninitialized bytes (int (length bytes)) = Some (fold_digest (md4 bytes))"
proof -
  have len: "u32 (int (length bytes)) = int (length bytes)" and short: "length bytes < 4294967296"
    using assms(2) by (simp_all add: u32_def)
  obtain c where "MD4Update (MD4Init uninitialized) bytes (int (length bytes)) = Some c" "absorbed c bytes"
    using MD4Update_absorb [OF absorbed_Init [OF assms(1)] short] by auto
  then show ?thesis by (simp add: Com_BlockChecksum_def len MD4Final_md4)
qed

lemma Com_BlockChecksumKey_md4:
  assumes "length (md_buffer uninitialized) = 64" "length bytes < 2147483648"
  shows "Com_BlockChecksumKey uninitialized bytes (int (length bytes)) key =
    Some (fold_digest (md4 (Encode [word_of_int key] @ bytes)))"
proof -
  let ?key = "Encode [word_of_int key]"
  have len: "u32 (int (length bytes)) = int (length bytes)" and short: "length bytes < 4294967296"
    using assms(2) by (simp_all add: u32_def)
  obtain c1 where c1: "MD4Update (MD4Init uninitialized) ?key (int (length ?key)) = Some c1" "absorbed c1 ?key"
    using MD4Update_absorb [OF absorbed_Init [OF assms(1)], of ?key] by auto
  obtain c2 where c2: "MD4Update c1 bytes (int (length bytes)) = Some c2" "absorbed c2 (?key @ bytes)"
    using MD4Update_absorb [OF c1(2) short] by blast
  have "MD4Update (MD4Init uninitialized) ?key 4 = Some c1" using c1(1) by simp
  then show ?thesis
    using c2 by (simp add: Com_BlockChecksumKey_def Let_def len MD4Final_md4 del: Encode.simps)
qed

text \<open>
  C38: the checksum of a block is the exclusive or of the four words of its MD4 digest, and the
  keyed checksum that of the digest of the key's four bytes followed by the block, for every
  block of up to 2^31 - 1 bytes and whatever the stack held; the pieces in which the incremental
  code absorbs its input, the carry between the two words of the bit count and the two forms of
  the padding make no difference, and no step reads or writes outside a buffer.
\<close>

theorem block_checksum_md4:
  assumes "length (md_buffer uninitialized) = 64" "length bytes < 2147483648"
  shows "Com_BlockChecksum uninitialized bytes (int (length bytes)) = Some (fold_digest (md4 bytes)) \<and>
    Com_BlockChecksumKey uninitialized bytes (int (length bytes)) key =
      Some (fold_digest (md4 (Encode [word_of_int key] @ bytes)))"
  using Com_BlockChecksum_md4 [OF assms] Com_BlockChecksumKey_md4 [OF assms] by blast

lemma block_checksum_md4_witness:
  "md4 (map byte_of ''abc'') =
     [0xa4, 0x48, 0x01, 0x7a, 0xaf, 0x21, 0xd8, 0x52, 0x5f, 0xc1, 0x0a, 0xe8, 0x7a, 0xa6, 0x72, 0x9d] \<and>
   Com_BlockChecksum \<lparr>md_state = [], md_count0 = 0, md_count1 = 0, md_buffer = replicate 64 7\<rparr>
     (map byte_of ''abc'') (int (length (map byte_of ''abc''))) = Some (fold_digest (md4 (map byte_of ''abc'')))"
proof
  show "md4 (map byte_of ''abc'') =
     [0xa4, 0x48, 0x01, 0x7a, 0xaf, 0x21, 0xd8, 0x52, 0x5f, 0xc1, 0x0a, 0xe8, 0x7a, 0xa6, 0x72, 0x9d]"
    by code_simp
  show "Com_BlockChecksum \<lparr>md_state = [], md_count0 = 0, md_count1 = 0, md_buffer = replicate 64 7\<rparr>
     (map byte_of ''abc'') (int (length (map byte_of ''abc''))) = Some (fold_digest (md4 (map byte_of ''abc'')))"
    by (rule block_checksum_md4 [THEN conjunct1]) simp_all
qed

end
