(* ===== verification/FsPack_Correct.thy ===== *)
theory FsPack_Correct
  imports FsPack FsPath_Correct Checksum_Correct
begin

text \<open>
  The hash table of a mounted pak finds what a search of its whole list finds, and the pool of
  names is never overrun, whatever the archive returns in its second pass.
\<close>

section \<open>Names that compare equal hash alike\<close>

definition hash_character :: "char \<Rightarrow> int" where
  "hash_character c = (let character = tolower (schar c) in if character = 92 then 47 else character)"

lemma schar_bounds: "-128 \<le> schar c" "schar c < 128"
  using of_char_bounds [of c] by (auto simp: schar_def Let_def)

lemma path_hash_character:
  assumes "path_character c = path_character d" "c \<noteq> CHR '':''" "d \<noteq> CHR '':''"
  shows "hash_character c = hash_character d" "tolower (schar c) = 46 \<longleftrightarrow> tolower (schar d) = 46"
proof -
  have colon: "schar c \<noteq> 58" "schar d \<noteq> 58"
    using assms(2,3) schar_inject [of _ "CHR '':''"] by (auto simp: schar_def [of "CHR '':''"])
  show "hash_character c = hash_character d" "tolower (schar c) = 46 \<longleftrightarrow> tolower (schar d) = 46"
    using assms(1) colon schar_bounds [of c] schar_bounds [of d]
    by (auto simp: path_character_def hash_character_def tolower_def Let_def split: if_splits)
qed

lemma hash_characters_key:
  assumes "path_key a = path_key b" "CHR '':'' \<notin> set a" "CHR '':'' \<notin> set b"
  shows "hash_characters i a h = hash_characters i b h"
proof -
  have "map path_character a = map path_character b" using assms(1) by (simp add: path_key_def)
  then have "length a = length b" by (metis length_map)
  then show ?thesis
    using \<open>map path_character a = map path_character b\<close> assms(2,3)
  proof (induction a b arbitrary: i h rule: list_induct2)
    case (Cons c a d b)
    have cd: "path_character c = path_character d" "c \<noteq> CHR '':''" "d \<noteq> CHR '':''" using Cons.prems by auto
    from path_hash_character [OF cd] have "tolower (schar c) = 46 \<longleftrightarrow> tolower (schar d) = 46"
      "(if tolower (schar c) = 92 then 47 else tolower (schar c)) = (if tolower (schar d) = 92 then 47 else tolower (schar d))"
      by (simp_all add: hash_character_def Let_def)
    then show ?case
      using Cons.IH Cons.prems by (simp add: Let_def del: if_split)
  qed simp
qed

lemma FS_HashFileName_key:
  assumes "path_key a = path_key b" "CHR '':'' \<notin> set a" "CHR '':'' \<notin> set b"
  shows "FS_HashFileName a n = FS_HashFileName b n"
  using hash_characters_key [OF assms] by (simp add: FS_HashFileName_def)

lemma pack_hash_bits_le: "2 ^ k \<le> (2048 :: nat) \<Longrightarrow> 2 ^ pack_hash_bits n k \<le> (2048 :: nat)"
proof (induction n k rule: pack_hash_bits.induct)
  case (1 n k)
  show ?case
  proof (cases "2 ^ k \<le> n \<and> 2 ^ k < (2048 :: nat)")
    case True
    have "k < 11" by (rule power_less_imp_less_exp [of "2 :: nat"]) (use True in simp_all)
    then have "Suc k \<le> 11" by simp
    then have "2 ^ Suc k \<le> (2 :: nat) ^ 11" by (rule power_increasing) simp
    then show ?thesis using 1 True by (subst pack_hash_bits.simps) simp
  next
    case False
    then have "pack_hash_bits n k = k" by (simp only: pack_hash_bits.simps [of n k] if_False)
    then show ?thesis using 1(2) by simp
  qed
qed

lemma FS_HashFileName_less: "k < 32 \<Longrightarrow> FS_HashFileName name (2 ^ k) < 2 ^ k"
proof -
  assume k: "k < 32"
  have "word_of_int (2 ^ k) - 1 = (mask k :: 32 word)" by (simp add: mask_eq_exp_minus_1)
  then have "FS_HashFileName name (2 ^ k) = unat (take_bit k (xor (xor (signed_drop_bit 20 (hash_characters 0 name 0))
      (signed_drop_bit 10 (hash_characters 0 name 0))) (hash_characters 0 name 0)))"
    by (simp add: FS_HashFileName_def Let_def take_bit_eq_mask)
  moreover have "unat (take_bit k (w :: 32 word)) < 2 ^ k" for w
    by (simp add: unsigned_take_bit_eq)
  ultimately show ?thesis by metis
qed

section \<open>The catalog\<close>

text \<open>Every chain holds, newest first, the published entries of its hash value.\<close>

definition catalog_ok :: "int \<Rightarrow> fileInPack_t list list \<Rightarrow> fileInPack_t list \<Rightarrow> bool" where
  "catalog_ok hashSize hashTable packFiles \<longleftrightarrow>
     (\<forall>h < length hashTable. hashTable ! h = filter (\<lambda>f. FS_HashFileName (fp_name f) hashSize = h) (rev packFiles)) \<and>
     (\<forall>f \<in> set packFiles. nulfree (fp_name f) \<and> CHR '':'' \<notin> set (fp_name f))"

definition lower :: "char \<Rightarrow> char" where
  "lower c = (if 65 \<le> schar c \<and> schar c \<le> 90 then char_of (schar c + 32) else c)"

lemma strlwr_plain:
  assumes "nulfree s" "CHR '':'' \<notin> set s"
  shows "nulfree (Q_strlwr s)" "CHR '':'' \<notin> set (Q_strlwr s)"
proof -
  have low: "lower c \<noteq> NUL \<and> lower c \<noteq> CHR '':''" if "c \<in> set s" for c
  proof (cases "65 \<le> schar c \<and> schar c \<le> 90")
    case True
    have "schar c + 32 = of_char (char_of (schar c + 32) :: char)" using True by simp
    then have "of_char (char_of (schar c + 32) :: char) \<ge> (97 :: int)" using True by linarith
    then have "char_of (schar c + 32) \<noteq> d" if "of_char d < (97 :: int)" for d :: char
      using that by (metis not_le)
    then show ?thesis using True by (simp add: lower_def)
  next
    case False
    then show ?thesis using that assms by (auto simp: lower_def nulfree_def)
  qed
  have "set (Q_strlwr s) = lower ` set s" by (simp add: Q_strlwr_def lower_def)
  then show "nulfree (Q_strlwr s)" "CHR '':'' \<notin> set (Q_strlwr s)"
    using low by (fastforce simp: nulfree_def)+
qed

lemma catalog_push:
  assumes "catalog_ok hashSize hashTable packFiles" "nulfree (fp_name f)" "CHR '':'' \<notin> set (fp_name f)"
    "FS_HashFileName (fp_name f) hashSize < length hashTable"
  shows "catalog_ok hashSize (push_entry hashSize f hashTable) (packFiles @ [f])"
  using assms by (auto simp: catalog_ok_def push_entry_def Let_def nth_list_update)

lemma publish_rows_ok:
  assumes "publish_rows n rows hashSize names (checksums, hashTable, packFiles) = Some (checksums', hashTable', packFiles')"
    and "catalog_ok hashSize hashTable packFiles" "\<forall>name. FS_HashFileName name hashSize < length hashTable"
    and "\<forall>row. Some row \<in> set rows \<longrightarrow> nulfree (ar_filename row)"
  shows "catalog_ok hashSize hashTable' packFiles' \<and> length hashTable' = length hashTable \<and>
    packFiles' = packFiles @ map (pack_entry \<circ> the) (take n rows) \<and> n \<le> length rows \<and> length checksums' \<le> length checksums + n"
  using assms
proof (induction n rows hashSize names "(checksums, hashTable, packFiles)"
    arbitrary: checksums hashTable packFiles rule: publish_rows.induct)
  case (2 n row rows hashSize names checksums hashTable packFiles)
  let ?e = "pack_entry row"
  let ?cs = "if ar_uncompressedSize row \<noteq> 0 then checksums @ [ar_crc row] else checksums"
  have step: "row_accepted row" "publish_rows n rows hashSize (names - (int (length (ar_filename row)) + 1))
      (?cs, push_entry hashSize ?e hashTable, packFiles @ [?e]) = Some (checksums', hashTable', packFiles')"
    and guard: "\<not> (\<not> row_accepted row \<or> int (length (ar_filename row)) + 1 > names \<or> ar_position row < 0)"
    using 2(2) by (simp_all add: Let_def split: if_split_asm)
  have name: "nulfree (fp_name ?e)" "CHR '':'' \<notin> set (fp_name ?e)"
    using strlwr_plain [of "ar_filename row"] step(1) 2(5)
    by (auto simp: pack_entry_def Let_def row_accepted_def safe_relative_iff)
  have "catalog_ok hashSize (push_entry hashSize ?e hashTable) (packFiles @ [?e])"
    using 2(3,4) name by (intro catalog_push) auto
  moreover have "\<forall>name. FS_HashFileName name hashSize < length (push_entry hashSize ?e hashTable)"
    using 2(4) by (simp add: push_entry_def Let_def)
  ultimately have "catalog_ok hashSize hashTable' packFiles' \<and>
      length hashTable' = length (push_entry hashSize ?e hashTable) \<and>
      packFiles' = (packFiles @ [?e]) @ map (pack_entry \<circ> the) (take n rows) \<and> n \<le> length rows \<and>
      length checksums' \<le> length ?cs + n"
    using 2(5) by (intro 2(1) [OF refl guard step(2)]) auto
  then show ?case by (auto simp: push_entry_def Let_def split: if_splits)
qed auto

lemma Encode_length: "length (Encode ws) = 4 * length ws"
  by (induction ws) simp_all

text \<open>Whatever the second pass returns, an accepted row leaves the pool of names nonnegative.\<close>

lemma publish_rows_pool:
  "publish_rows n rows hashSize names state = Some state' \<Longrightarrow> 0 \<le> names \<Longrightarrow>
   (\<Sum>row\<leftarrow>take n rows. int (length (ar_filename (the row))) + 1) \<le> names"
proof (induction n rows hashSize names state rule: publish_rows.induct)
  case (2 n row rows hashSize names checksums hashTable packFiles)
  let ?cs = "if ar_uncompressedSize row \<noteq> 0 then checksums @ [ar_crc row] else checksums"
  have guard: "\<not> (\<not> row_accepted row \<or> int (length (ar_filename row)) + 1 > names \<or> ar_position row < 0)"
    and step: "publish_rows n rows hashSize (names - (int (length (ar_filename row)) + 1))
      (?cs, push_entry hashSize (pack_entry row) hashTable, packFiles @ [pack_entry row]) = Some state'"
    using 2(2) by (simp_all add: Let_def split: if_split_asm)
  have "0 \<le> names - (int (length (ar_filename row)) + 1)" using guard by simp
  from 2(1) [OF refl guard step this] show ?case by simp
qed auto

definition loaded_pak :: "pack_t \<Rightarrow> bool" where
  "loaded_pak pack \<longleftrightarrow>
     catalog_ok (pk_hashSize pack) (pk_hashTable pack) (pk_fileList pack) \<and>
     (\<exists>k < 32. pk_hashSize pack = 2 ^ k \<and> length (pk_hashTable pack) = 2 ^ k)"

lemma FS_LoadZipFile_loaded:
  assumes "FS_LoadZipFile uninitialized feed packFiles archiveSize catalog zipFile basename = Some (pack, packFiles')"
    and "\<forall>n first second row. catalog = Some (n, first, second) \<longrightarrow> Some row \<in> set second \<longrightarrow> nulfree (ar_filename row)"
  shows "loaded_pak pack"
proof -
  obtain n first second names checksums hashTable packFiles where
    cat: "catalog = Some (n, first, second)" and
    pub: "publish_rows n second (2 ^ pack_hash_bits n 0) names ([], replicate (2 ^ pack_hash_bits n 0) [], []) =
      Some (checksums, hashTable, packFiles)" and
    pack: "pk_hashSize pack = 2 ^ pack_hash_bits n 0" "pk_hashTable pack = hashTable" "pk_fileList pack = packFiles"
    using assms(1)
    by (auto simp: FS_LoadZipFile_def Let_def bind_eq_Some_conv split: if_splits)
  have "(2 :: nat) ^ pack_hash_bits n 0 < 2 ^ 32"
    using pack_hash_bits_le [of 0 n] by simp
  then have k: "pack_hash_bits n 0 < 32" by (rule power_less_imp_less_exp [rotated]) simp
  have "catalog_ok (2 ^ pack_hash_bits n 0) hashTable packFiles \<and>
      length hashTable = length (replicate (2 ^ pack_hash_bits n 0) ([] :: fileInPack_t list))"
    using publish_rows_ok [OF pub] FS_HashFileName_less [OF k] assms(2) cat
    by (auto simp: catalog_ok_def)
  then show ?thesis using k pack by (auto simp: loaded_pak_def)
qed

lemma pack_chain_loaded:
  assumes "loaded_pak pack" "CHR '':'' \<notin> set path" "nulfree path"
  shows "\<exists>chain. pack_chain pack path = Some chain \<and>
     (list_ex (\<lambda>f. FS_FilenameCompare path (fp_name f) = 0) chain \<longleftrightarrow>
      (\<exists>file \<in> set (pk_fileList pack). FS_FilenameCompare path (fp_name file) = 0))"
proof -
  obtain k where k: "k < 32" "pk_hashSize pack = 2 ^ k" "length (pk_hashTable pack) = 2 ^ k"
    and cat: "catalog_ok (pk_hashSize pack) (pk_hashTable pack) (pk_fileList pack)"
    using assms(1) by (auto simp: loaded_pak_def)
  let ?h = "FS_HashFileName path (pk_hashSize pack)"
  have h: "?h < length (pk_hashTable pack)" using FS_HashFileName_less [OF k(1)] k(2,3) by simp
  have chain: "pk_hashTable pack ! ?h =
      filter (\<lambda>f. FS_HashFileName (fp_name f) (pk_hashSize pack) = ?h) (rev (pk_fileList pack))"
    using cat h by (simp add: catalog_ok_def)
  have hash: "FS_HashFileName (fp_name f) (pk_hashSize pack) = ?h"
    if "f \<in> set (pk_fileList pack)" "FS_FilenameCompare path (fp_name f) = 0" for f
  proof -
    have "nulfree (fp_name f)" "CHR '':'' \<notin> set (fp_name f)" using cat that(1) by (auto simp: catalog_ok_def)
    then show ?thesis
      using that(2) assms(2,3) by (intro FS_HashFileName_key) (auto simp: FS_FilenameCompare_key split: if_splits)
  qed
  have "pack_chain pack path = Some (pk_hashTable pack ! ?h)"
    using h by (simp add: pack_chain_def peek_Some)
  then show ?thesis
    unfolding chain using hash by (auto simp: list_ex_iff)
qed

lemma find_in_paks_search:
  assumes "\<forall>search \<in> set searchpaths. \<forall>pack. sp_pack search = Some pack \<longrightarrow> loaded_pak pack"
    and "nulfree path" "CHR '':'' \<notin> set path"
  shows "find_in_paks in_scope serverPaks path searchpaths =
     Some (map_option (\<lambda>search. pk_pureChecksum (the (sp_pack search)))
       (find (\<lambda>search. in_scope search \<and> (\<exists>pack. sp_pack search = Some pack \<and>
                (sp_localized search \<or> FS_PakIsPure serverPaks pack) \<and>
                (\<exists>file \<in> set (pk_fileList pack). FS_FilenameCompare path (fp_name file) = 0)))
          searchpaths))"
  using assms(1)
proof (induction searchpaths)
  case (Cons search rest)
  show ?case
  proof (cases "in_scope search \<and> sp_pack search \<noteq> None")
    case True
    then obtain pack where pack: "sp_pack search = Some pack" "loaded_pak pack" using Cons.prems by auto
    obtain chain where chain: "pack_chain pack path = Some chain"
      "list_ex (\<lambda>f. FS_FilenameCompare path (fp_name f) = 0) chain \<longleftrightarrow>
        (\<exists>file \<in> set (pk_fileList pack). FS_FilenameCompare path (fp_name file) = 0)"
      using pack_chain_loaded [OF pack(2) assms(3,2)] by blast
    then show ?thesis using Cons True pack chain by (auto simp: list_ex_iff)
  next
    case False
    then show ?thesis using Cons by (auto split: option.splits)
  qed
qed simp

lemma strstr_characters: "strstr s t = Some u \<Longrightarrow> set t \<subseteq> set s"
proof (induction s t rule: strstr.induct)
  case (1 s t)
  show ?case
  proof (cases "take (length t) s = t")
    case True
    then show ?thesis by (metis set_take_subset)
  next
    case False
    then show ?thesis using 1 by (subst (asm) (2) strstr.simps) (auto split: list.splits if_splits)
  qed
qed

text \<open>A pak the loader has returned; an archive's names are C strings.\<close>

definition mounted :: "pack_t \<Rightarrow> bool" where
  "mounted pack \<longleftrightarrow> (\<exists>uninitialized feed packFiles archiveSize n first second zipFile basename packFiles'.
     FS_LoadZipFile uninitialized feed packFiles archiveSize (Some (n, first, second)) zipFile basename =
       Some (pack, packFiles') \<and> (\<forall>row. Some row \<in> set second \<longrightarrow> nulfree (ar_filename row)))"

text \<open>
  C14: looking a name up through the hash tables of the mounted paks is the search of their whole
  lists: for a name without a colon, \<open>FS_FileIsInPAK\<close> answers with the checksum of the first
  usable pak in search order one of whose entries compares equal, and with nothing if there is
  none, although names that differ in case and separators are spelt differently in the table.
\<close>

theorem file_in_pak_search:
  assumes "\<forall>search \<in> set searchpaths. \<forall>pack. sp_pack search = Some pack \<longrightarrow> mounted pack"
    and "nulfree path" "coduo_compat_path_is_safe_relative (Some path)" "strstr path ''..'' = None"
  shows "FS_FileIsInPAK in_scope serverPaks searchpaths path =
     Some (map_option (\<lambda>search. pk_pureChecksum (the (sp_pack search)))
       (find (\<lambda>search. in_scope search \<and> (\<exists>pack. sp_pack search = Some pack \<and>
                (sp_localized search \<or> FS_PakIsPure serverPaks pack) \<and>
                (\<exists>file \<in> set (pk_fileList pack). FS_FilenameCompare path (fp_name file) = 0)))
          searchpaths))"
proof -
  have path: "path \<noteq> []" "hd path \<noteq> slash" "hd path \<noteq> back_slash" "CHR '':'' \<notin> set path"
    using assms(3) by (auto simp: safe_relative_iff)
  have "strstr path ''::'' = None" using path(4) strstr_characters [of path "''::''"] by fastforce
  then have "FS_FileIsInPAK in_scope serverPaks searchpaths path = find_in_paks in_scope serverPaks path searchpaths"
    using path(1-3) assms(4) by (cases path) (simp_all add: FS_FileIsInPAK_def)
  moreover have "\<forall>search \<in> set searchpaths. \<forall>pack. sp_pack search = Some pack \<longrightarrow> loaded_pak pack"
    using assms(1) by (fastforce simp: mounted_def intro: FS_LoadZipFile_loaded)
  ultimately show ?thesis using find_in_paks_search [OF _ assms(2) path(4)] by simp
qed

definition sample_rows :: "archive_row option list" where
  "sample_rows =
     [Some \<lparr>ar_filename = ''Maps/MP.x'', ar_filenameLength = 9, ar_uncompressedSize = 4, ar_crc = 77, ar_position = 0\<rparr>,
      Some \<lparr>ar_filename = ''b'', ar_filenameLength = 1, ar_uncompressedSize = 0, ar_crc = 0, ar_position = 60\<rparr>]"

definition sample_pak :: "(pack_t \<times> int) option" where
  "sample_pak = FS_LoadZipFile \<lparr>md_state = [], md_count0 = 0, md_count1 = 0, md_buffer = replicate 64 7\<rparr> 5 0 (Some 900)
     (Some (2, sample_rows, sample_rows)) ''main/a.pk3'' ''a.PK3''"

lemma sample_pak_list:
  "map_option (map fp_name \<circ> pk_fileList \<circ> fst) sample_pak = Some [''maps/mp.x'', ''b'']"
proof -
  have names: "measure_names 2 sample_rows = Some 12" by code_simp
  have bits: "pack_hash_bits 2 0 = 2" by code_simp
  have "map_option (\<lambda>(c, t, f). (length c, map fp_name f)) (publish_rows 2 sample_rows 4 12 ([], replicate 4 [], [])) =
      Some (1, [''maps/mp.x'', ''b''])" by code_simp
  then obtain c t f where pub: "publish_rows 2 sample_rows 4 12 ([], replicate 4 [], []) = Some (c, t, f)"
    and f: "map fp_name f = [''maps/mp.x'', ''b'']" and c: "length c = 1"
    by auto
  have len: "int (length (Encode c)) = 4" using c by (simp add: Encode_length)
  let ?u = "\<lparr>md_state = [], md_count0 = 0, md_count1 = 0, md_buffer = replicate 64 7\<rparr>"
  have "\<exists>x. Com_BlockChecksum ?u (Encode c) 4 = Some x" "\<exists>y. Com_BlockChecksumKey ?u (Encode c) 4 5 = Some y"
    using Com_BlockChecksum_md4 [of ?u "Encode c"] Com_BlockChecksumKey_md4 [of ?u "Encode c" 5] len
    by (simp_all add: Encode_length c)
  then show ?thesis
    using names bits pub f c by (auto simp: sample_pak_def FS_LoadZipFile_def Let_def)
qed

lemma file_in_pak_search_witness:
  "\<exists>pack. map_option fst sample_pak = Some pack \<and>
     FS_FileIsInPAK (\<lambda>_. True) [] [\<lparr>sp_pack = Some pack, sp_dir = None, sp_localized = False, sp_language = 0\<rparr>]
       ''mAPS/Mp.X'' = Some (Some (pk_pureChecksum pack))"
proof -
  obtain pack files where pack: "sample_pak = Some (pack, files)" "map fp_name (pk_fileList pack) = [''maps/mp.x'', ''b'']"
    using sample_pak_list by (cases sample_pak) auto
  have "mounted pack"
    unfolding mounted_def
    by (intro exI conjI, rule pack(1) [unfolded sample_pak_def]) (auto simp: sample_rows_def nulfree_def)
  moreover have "\<exists>file \<in> set (pk_fileList pack). FS_FilenameCompare ''mAPS/Mp.X'' (fp_name file) = 0"
  proof -
    have "FS_FilenameCompare ''mAPS/Mp.X'' ''maps/mp.x'' = 0" by code_simp
    moreover have "''maps/mp.x'' \<in> fp_name ` set (pk_fileList pack)"
      using pack(2) by (metis image_set list.set_intros(1))
    ultimately show ?thesis by auto
  qed
  moreover have "coduo_compat_path_is_safe_relative (Some ''mAPS/Mp.X'')" "strstr ''mAPS/Mp.X'' ''..'' = None"
    by code_simp+
  ultimately have "FS_FileIsInPAK (\<lambda>_. True) [] [\<lparr>sp_pack = Some pack, sp_dir = None, sp_localized = False, sp_language = 0\<rparr>]
       ''mAPS/Mp.X'' = Some (Some (pk_pureChecksum pack))"
    by (subst file_in_pak_search) (auto simp: FS_PakIsPure_def)
  then show ?thesis using pack(1) by auto
qed

end
