(* ===== verification/SvDownload_Window.thy ===== *)
theory SvDownload_Window
  imports SvDownload ClDownload
begin

text \<open>
  The server's side of a download: the file is read block by block, the window of eight slots always
  holds the bytes of the blocks it announces, and one message carries consecutive blocks. What a
  session over a lossy connection comes to is theory \<open>SvDownload_Correct\<close>.
\<close>

section \<open>The blocks of a file\<close>

definition block :: "8 word list \<Rightarrow> nat \<Rightarrow> 8 word list" where
  "block data i = take 2048 (drop (2048 * i) data)"

definition nblocks :: "8 word list \<Rightarrow> nat" where
  "nblocks data = (length data + 2047) div 2048"

lemma block_nonempty: "block data i \<noteq> [] \<longleftrightarrow> i < nblocks data"
  by (auto simp: block_def nblocks_def)

lemma length_block: "length (block data i) = min 2048 (length data - 2048 * i)"
  by (simp add: block_def)

lemma take_block: "take (2048 * i) data @ block data i = take (2048 * Suc i) data"
proof -
  have "2048 * Suc i = 2048 * i + 2048" by simp
  then show ?thesis unfolding block_def by (metis take_add)
qed

lemma length_upto_block: "min (2048 * i) (length data) + length (block data i) = min (2048 * Suc i) (length data)"
  by (auto simp: length_block min_def)

section \<open>Numbers as text\<close>

lemma digit_code: "d < 10 \<Longrightarrow> (of_char (char_of (48 + d) :: char) :: int) = 48 + int d" for d :: nat
proof -
  assume "d < 10"
  then have "(of_char (char_of (48 + d) :: char) :: nat) = 48 + d" by simp
  then show ?thesis by (metis of_nat_of_char of_nat_add of_nat_numeral)
qed

lemma digit_value_digit: "d < 10 \<Longrightarrow> digit_value (char_of (48 + d)) = Some (int d)" for d :: nat
  by (simp add: digit_value_def Let_def digit_code)

lemma magnitude_digits:
  "n < 4294967296 \<Longrightarrow> magnitude (digits n @ s) 0 = magnitude s (int n)"
proof (induction n arbitrary: s rule: digits.induct)
  case (1 n)
  show ?case
  proof (cases "n < 10")
    case True
    then show ?thesis
      by (subst digits.simps) (simp add: digit_value_digit u32_id)
  next
    case False
    have step: "digits n @ s = digits (n div 10) @ char_of (48 + n mod 10) # s"
      using False by (subst digits.simps) simp
    have less: "n div 10 < 4294967296" using 1(2) by simp
    have "magnitude (digits n @ s) 0 = magnitude (char_of (48 + n mod 10) # s) (int (n div 10))"
      unfolding step by (rule 1(1) [OF False less])
    also have "\<dots> = magnitude s (u32 (int (n div 10) * 10 + int (n mod 10)))"
      by (simp add: digit_value_digit)
    also have "int (n div 10) * 10 + int (n mod 10) = int n"
      by (metis div_mult_mod_eq of_nat_add of_nat_mult of_nat_numeral)
    also have "u32 (int n) = int n" using 1(2) by (simp add: u32_id)
    finally show ?thesis .
  qed
qed

lemma digits_head: "\<exists>d < (10 :: nat). \<exists>s. digits n = char_of (48 + d) # s"
proof (induction n rule: digits.induct)
  case (1 n)
  show ?case
  proof (cases "n < 10")
    case False
    then show ?thesis using 1 by (subst digits.simps) auto
  qed (subst digits.simps, auto)
qed

lemma parse_decimal: "0 \<le> v \<Longrightarrow> v < 2147483648 \<Longrightarrow> parse_int (decimal v) = v"
proof -
  assume v: "0 \<le> v" "v < 2147483648"
  obtain d s where d: "d < (10 :: nat)" "digits (nat v) = char_of (48 + d) # s" using digits_head by blast
  have "(of_char (char_of (48 + d) :: char) :: int) = 48 + int d" by (rule digit_code [OF d(1)])
  then have "\<not> atoi_space (char_of (48 + d))" "char_of (48 + d) \<noteq> CHR ''-''" "char_of (48 + d) \<noteq> CHR ''+''"
    using d(1) by (auto simp: atoi_space_def)
  then have "parse_int (decimal v) = i32 (magnitude (digits (nat v)) 0)"
    using v d by (simp add: parse_int_def decimal_def)
  also have "\<dots> = v" using magnitude_digits [of "nat v" "[]"] v by (simp add: i32_id)
  finally show ?thesis .
qed

lemma space_free: "\<forall>c \<in> set (digits n). c \<noteq> CHR '' ''"
proof (induction n rule: digits.induct)
  case (1 n)
  have "char_of (48 + d) \<noteq> CHR '' ''" if "d < 10" for d :: nat
  proof -
    have "(of_char (char_of (48 + d) :: char) :: int) = 48 + int d" by (rule digit_code [OF that])
    then show ?thesis by auto
  qed
  then show ?case using 1 by (subst digits.simps) auto
qed

section \<open>Reading the file\<close>

definition reading :: "'z fs_state \<Rightarrow> int \<Rightarrow> 8 word list \<Rightarrow> nat \<Rightarrow> bool" where
  "reading fs h data pos \<longleftrightarrow>
     0 < h \<and> (\<exists>fd file. handle_at fs h = Some fd \<and> fh_zipArchive fd = None \<and> fh_ioObject fd = Some (Stream file) \<and>
       \<not> f_writing file \<and> h_files fs (f_path file) = Some data \<and> f_position file = int pos)"

lemma read_stream_end:
  assumes "fread fs file remaining = ([], file)"
  shows "read_stream fs file saw remaining offset buffer = Some (remaining, file, buffer)"
proof -
  have sees: "read_stream fs file True remaining offset buffer = Some (remaining, file, buffer)"
    using assms by (subst read_stream.simps) simp
  then show ?thesis using assms by (cases saw) (simp_all add: read_stream.simps [of _ _ False])
qed

lemma fread_at:
  assumes "h_files fs (f_path file) = Some data" "\<not> f_writing file" "f_position file = int pos"
  shows "fread fs file n = (take n (drop pos data), file\<lparr>f_position := int (pos + length (take n (drop pos data)))\<rparr>)"
  using assms by (simp add: fread_def Let_def contents_def)

lemma read_stream_file:
  assumes stream: "h_files fs (f_path file) = Some data" "\<not> f_writing file" "f_position file = int pos"
    and room: "n \<le> length buffer"
  shows "read_stream fs file False n 0 buffer =
    (let bs = take n (drop pos data) in
     Some (n - length bs, file\<lparr>f_position := int (pos + length bs)\<rparr>, bs @ drop (length bs) buffer))"
proof (cases "n = 0 \<or> take n (drop pos data) = []")
  case True
  have stay: "file\<lparr>f_position := int pos\<rparr> = file" using stream(3) by (cases "file") simp
  then show ?thesis
  proof (cases "n = 0")
    case True
    then show ?thesis using stay by (simp add: read_stream.simps)
  next
    case False
    then have none: "take n (drop pos data) = []" using True by simp
    then have "fread fs file n = ([], file)" unfolding fread_at [OF stream, of n] none by (simp add: stay)
    then show ?thesis using none stay by (simp only: read_stream_end) (simp add: Let_def)
  qed
next
  case False
  define bs where "bs = take n (drop pos data)"
  have bs: "bs \<noteq> []" "n \<noteq> 0" using False by (auto simp: bs_def)
  define file1 where "file1 = file\<lparr>f_position := int (pos + length bs)\<rparr>"
  have first: "fread fs file n = (bs, file1)" using fread_at [OF stream] by (simp add: bs_def file1_def)
  have room': "length bs \<le> length buffer" using room by (simp add: bs_def)
  have "copy_in buffer 0 bs = Some (bs @ drop (length bs) buffer)" using room' by (simp add: mem_simps)
  then have step: "read_stream fs file False n 0 buffer =
      read_stream fs file1 False (n - length bs) (int (length bs)) (bs @ drop (length bs) buffer)"
    using first bs by (subst read_stream.simps) simp
  have file1: "h_files fs (f_path file1) = Some data" "\<not> f_writing file1" "f_position file1 = int (pos + length bs)"
    using stream by (simp_all add: file1_def)
  have none: "take (n - length bs) (drop (pos + length bs) data) = []"
    by (auto simp: bs_def min_def)
  have "fread fs file1 (n - length bs) = ([], file1)"
    unfolding fread_at [OF file1] none by (simp add: file1_def)
  then show ?thesis unfolding step by (simp add: read_stream_end Let_def flip: bs_def) (simp add: file1_def)
qed

lemma FS_Read_at:
  assumes "reading fs h data pos" "length buffer = 2048"
  shows "\<exists>fs'. FS_Read services fs buffer 2048 h =
      Done (int (length (take 2048 (drop pos data))),
            take 2048 (drop pos data) @ drop (length (take 2048 (drop pos data))) buffer, fs') \<and>
      reading fs' h data (pos + length (take 2048 (drop pos data)))"
proof -
  define bs where "bs = take 2048 (drop pos data)"
  obtain fd f where fd: "0 < h" "handle_at fs h = Some fd" "fh_zipArchive fd = None"
      "fh_ioObject fd = Some (Stream f)" "\<not> f_writing f" "h_files fs (f_path f) = Some data"
      "f_position f = int pos"
    using assms(1) by (auto simp: reading_def)
  have opened: "FS_FileForHandle fs h = Some f" using fd by (simp add: FS_FileForHandle_def)
  have "read_stream fs f False 2048 0 buffer =
      Some (2048 - length bs, f\<lparr>f_position := int (pos + length bs)\<rparr>, bs @ drop (length bs) buffer)"
    using read_stream_file [OF fd(6,5,7), of 2048 buffer] assms(2) by (simp add: bs_def Let_def)
  moreover have "length bs \<le> 2048" by (simp add: bs_def)
  ultimately have "FS_Read services fs buffer 2048 h = Done (int (length bs), bs @ drop (length bs) buffer,
      set_handle fs h (fd\<lparr>fh_ioObject := Some (Stream (f\<lparr>f_position := int (pos + length bs)\<rparr>))\<rparr>))"
    using fd opened by (simp add: FS_Read_def of_nat_diff)
  moreover have "reading (set_handle fs h (fd\<lparr>fh_ioObject := Some (Stream (f\<lparr>f_position := int (pos + length bs)\<rparr>))\<rparr>))
      h data (pos + length bs)"
    using fd by (auto simp: reading_def set_handle_def peek_eq_Some)
  ultimately show ?thesis unfolding bs_def by blast
qed

section \<open>The window\<close>

definition slot_holds :: "8 word list \<Rightarrow> serverClientDownload_t \<Rightarrow> nat \<Rightarrow> bool" where
  "slot_holds data dl i \<longleftrightarrow> dl_blockByteCounts dl ! (i mod 8) = int (length (block data i)) \<and>
     (i < nblocks data \<longrightarrow> (\<exists>rest. dl_blockData dl ! (i mod 8) = Some (block data i @ rest)))"

definition buffers_wf :: "serverClientDownload_t \<Rightarrow> bool" where
  "buffers_wf dl \<longleftrightarrow> length (dl_blockByteCounts dl) = 8 \<and> length (dl_blockData dl) = 8 \<and>
     (\<forall>b. Some b \<in> set (dl_blockData dl) \<longrightarrow> length b = 2048)"

text \<open>
  A download under way: \<open>a\<close> blocks are acknowledged, block \<open>t\<close> is the next to transmit and \<open>b\<close>
  blocks have been read; block number \<open>nblocks data\<close> is the empty one.
\<close>

definition window :: "8 word list \<Rightarrow> nat \<Rightarrow> nat \<Rightarrow> nat \<Rightarrow> 'z fs_state \<Rightarrow> serverClientDownload_t \<Rightarrow> bool" where
  "window data a t b fs dl \<longleftrightarrow>
     dl_fileName dl \<noteq> [] \<and> \<not> dl_redirectAcknowledged dl \<and> dl_fileSize dl = int (length data) \<and>
     dl_nextAcknowledgmentBlock dl = int a \<and> dl_nextTransmitBlock dl = int t \<and> dl_nextBufferedBlock dl = int b \<and>
     a \<le> nblocks data \<and> a \<le> t \<and> t \<le> b \<and> b \<le> a + 8 \<and> b \<le> Suc (nblocks data) \<and>
     dl_bytesRead dl = int (min (2048 * b) (length data)) \<and>
     (dl_eofBlockQueued dl \<longleftrightarrow> b = Suc (nblocks data)) \<and>
     buffers_wf dl \<and> (\<forall>i. a \<le> i \<and> i < b \<longrightarrow> slot_holds data dl i) \<and>
     reading fs (dl_fileHandle dl) data (min (2048 * b) (length data))"

lemma block_slot_nat: "block_slot (int i) = int (i mod 8)"
  by (simp add: block_slot_def smod_pos zmod_int)

lemma all_read: "nblocks data \<le> b \<longleftrightarrow> length data \<le> 2048 * b"
proof -
  have "nblocks data < Suc b \<longleftrightarrow> length data + 2047 < Suc b * 2048"
    unfolding nblocks_def by (rule div_less_iff_less_mult) simp
  then show ?thesis by auto
qed

lemma slot_update:
  assumes "slot_holds data dl i" "i mod 8 \<noteq> j mod 8"
    "dl_blockByteCounts dl' = (dl_blockByteCounts dl)[j mod 8 := n]"
    "dl_blockData dl' = (dl_blockData dl)[j mod 8 := x] \<or> dl_blockData dl' = dl_blockData dl"
  shows "slot_holds data dl' i"
  using assms by (auto simp: slot_holds_def)

lemma slots_apart: "i < j \<Longrightarrow> j < i + 8 \<Longrightarrow> i mod 8 \<noteq> j mod 8" for i j :: nat
proof
  assume "i < j" "j < i + 8" "i mod 8 = j mod 8"
  then have "8 dvd j - i" by (metis less_imp_le_nat mod_eq_dvd_iff_nat)
  then show False using \<open>i < j\<close> \<open>j < i + 8\<close> by (auto dest: dvd_imp_le)
qed

lemma buffer_block_step:
  assumes w: "window data a t b fs dl" and small: "nblocks data < 1000000"
    and room: "b < a + 8" and left: "b < nblocks data"
  shows "\<exists>fs' dl'. buffer_block services fs dl = Done (fs', dl', False) \<and> window data a t (Suc b) fs' dl' \<and>
    dl_lastBlockActivityTime dl' = dl_lastBlockActivityTime dl"
proof -
  define slot where "slot = b mod 8"
  have slot: "slot < 8" by (simp add: slot_def)
  have wf: "buffers_wf dl" and next_b: "dl_nextBufferedBlock dl = int b" using w by (simp_all add: window_def)
  have len: "length (dl_blockByteCounts dl) = 8" "length (dl_blockData dl) = 8" using wf by (simp_all add: buffers_wf_def)
  define buf where "buf = (case dl_blockData dl ! slot of None \<Rightarrow> replicate 2048 (0 :: 8 word) | Some c \<Rightarrow> c)"
  have buf: "length buf = 2048"
  proof (cases "dl_blockData dl ! slot")
    case (Some c)
    then have "Some c \<in> set (dl_blockData dl)" using slot len(2) by (metis nth_mem)
    then show ?thesis using wf Some by (simp add: buf_def buffers_wf_def)
  qed (simp add: buf_def)
  have more: "2048 * b < length data" using left by (metis all_read not_le)
  have at: "reading fs (dl_fileHandle dl) data (2048 * b)"
    using w more by (simp add: window_def min_def)
  define bs where "bs = block data b"
  have bs: "bs = take 2048 (drop (2048 * b) data)" by (simp add: bs_def block_def)
  have upto: "2048 * b + length bs = min (2048 * Suc b) (length data)"
    using length_upto_block [of b data] more by (simp add: bs_def min_def)
  obtain fs' where read: "FS_Read services fs buf 2048 (dl_fileHandle dl) =
      Done (int (length bs), bs @ drop (length bs) buf, fs')"
    and fs': "reading fs' (dl_fileHandle dl) data (min (2048 * Suc b) (length data))"
    using FS_Read_at [OF at buf, of services] unfolding upto [symmetric] bs by blast
  define dl' where "dl' = dl\<lparr>dl_blockData := (dl_blockData dl)[slot := Some (bs @ drop (length bs) buf)],
      dl_blockByteCounts := (dl_blockByteCounts dl)[slot := int (length bs)],
      dl_bytesRead := int (min (2048 * Suc b) (length data)), dl_nextBufferedBlock := int (Suc b)\<rparr>"
  have bytes: "dl_bytesRead dl = int (2048 * b)" using w more by (simp add: window_def min_def)
  have total: "i32 (int (2048 * b) + int (length bs)) = int (min (2048 * Suc b) (length data))"
    unfolding of_nat_add [symmetric] upto using small left by (intro i32_id) auto
  have nxt: "i32 (int b + 1) = int (Suc b)" using small left by (subst i32_id) auto
  have slot_int: "block_slot (int b) = int slot" by (simp add: block_slot_nat slot_def)
  have "buffer_block services fs dl = Done (fs', dl', False)"
    unfolding buffer_block_def Let_def next_b slot_int
    using slot len bytes total nxt next_b read
    by (simp add: mem_simps run_bind_eq_Done buf_def [symmetric] dl'_def)
  moreover have "slot_holds data dl' i" if "a \<le> i" "i < Suc b" for i
  proof (cases "i = b")
    case True
    then show ?thesis using slot len by (simp add: slot_holds_def dl'_def bs_def flip: slot_def)
  next
    case False
    have apart: "i mod 8 \<noteq> b mod 8" using that False room by (intro slots_apart) auto
    show ?thesis
      by (rule slot_update [OF _ apart]) (use w that False in \<open>auto simp: window_def dl'_def slot_def\<close>)
  qed
  moreover have "buffers_wf dl'"
  proof -
    have "length (bs @ drop (length bs) buf) = 2048" using buf by (simp add: bs)
    then show ?thesis using wf slot by (auto simp: buffers_wf_def dl'_def dest: set_update_subset_insert [THEN subsetD])
  qed
  ultimately have "window data a t (Suc b) fs' dl'"
    using w fs' left room by (auto simp: window_def dl'_def)
  with \<open>buffer_block services fs dl = Done (fs', dl', False)\<close> show ?thesis by (auto simp: dl'_def)
qed

lemma window_openI:
  assumes "window data a t b fs dl" "nblocks data < 1000000"
  shows "window_open dl \<longleftrightarrow> b < a + 8"
proof -
  have "dl_nextBufferedBlock dl = int b" "dl_nextAcknowledgmentBlock dl = int a" "a \<le> b" "b \<le> a + 8"
    using assms(1) by (auto simp: window_def)
  then show ?thesis by (simp add: window_open_def i32_id) auto
qed

lemma all_bytes: "window data a t b fs dl \<Longrightarrow> dl_fileSize dl = dl_bytesRead dl \<longleftrightarrow> nblocks data \<le> b"
  unfolding all_read by (auto simp: window_def)

lemma fill_window_fills:
  assumes "window data a t b fs dl" "nblocks data < 1000000"
  shows "\<exists>fs' dl'. fill_window services fs dl = Done (fs', dl') \<and>
    window data a t (max b (min (a + 8) (nblocks data))) fs' dl' \<and>
    dl_lastBlockActivityTime dl' = dl_lastBlockActivityTime dl"
  using assms
proof (induction "a + 8 - b" arbitrary: b fs dl)
  case 0
  then have "\<not> window_open dl" by (simp add: window_openI)
  moreover have "b \<le> a + 8" using 0(2) by (simp add: window_def)
  moreover have "max b (min (a + 8) (nblocks data)) = b" using 0(1) by simp
  ultimately show ?case using 0(2) by (simp add: fill_window.simps [of _ _ dl])
next
  case (Suc k)
  have room: "b < a + 8" using Suc(2) by simp
  then have opn: "window_open dl" using Suc(3,4) by (simp add: window_openI)
  show ?case
  proof (cases "nblocks data \<le> b")
    case True
    then have "max b (min (a + 8) (nblocks data)) = b" by simp
    then show ?thesis using True Suc(3) all_bytes [OF Suc(3)] by (simp add: fill_window.simps [of _ _ dl])
  next
    case False
    then obtain fs1 dl1 where step: "buffer_block services fs dl = Done (fs1, dl1, False)"
        "window data a t (Suc b) fs1 dl1" "dl_lastBlockActivityTime dl1 = dl_lastBlockActivityTime dl"
      using buffer_block_step [OF Suc(3,4) room, of services] by auto
    have "fill_window services fs dl = fill_window services fs1 dl1"
      using step opn False all_bytes [OF Suc(3)] by (subst fill_window.simps) simp
    moreover have "max (Suc b) (min (a + 8) (nblocks data)) = max b (min (a + 8) (nblocks data))"
      using False room by simp
    moreover have "k = a + 8 - Suc b" using Suc(2) by simp
    ultimately show ?thesis using Suc(1) [OF _ step(2) Suc(4)] step(3) by simp
  qed
qed

lemma queue_eof_queues:
  assumes w: "window data a t b fs dl" and small: "nblocks data < 1000000" and filled: "min (a + 8) (nblocks data) \<le> b"
  shows "\<exists>dl'. queue_eof dl = Some dl' \<and> window data a t (min (a + 8) (Suc (nblocks data))) fs dl' \<and>
    dl_lastBlockActivityTime dl' = dl_lastBlockActivityTime dl"
proof (cases "b = nblocks data \<and> b < a + 8")
  case False
  have "b \<le> a + 8" "b \<le> Suc (nblocks data)" "dl_eofBlockQueued dl \<longleftrightarrow> b = Suc (nblocks data)" "a \<le> nblocks data"
    using w by (auto simp: window_def)
  then have same: "min (a + 8) (Suc (nblocks data)) = b"
    and none: "(dl_bytesRead dl = dl_fileSize dl \<and> \<not> dl_eofBlockQueued dl \<and> window_open dl) = False"
    using False filled all_bytes [OF w] window_openI [OF w small] by auto
  have "queue_eof dl = Some dl" by (simp only: queue_eof_def none if_False)
  then show ?thesis using w same by simp
next
  case True
  have wf: "buffers_wf dl" "dl_nextBufferedBlock dl = int b" using w by (simp_all add: window_def)
  define dl' where "dl' = dl\<lparr>dl_blockByteCounts := (dl_blockByteCounts dl)[b mod 8 := 0],
      dl_nextBufferedBlock := int (Suc b), dl_eofBlockQueued := True\<rparr>"
  have "\<not> dl_eofBlockQueued dl" "dl_bytesRead dl = dl_fileSize dl" "window_open dl"
    using w True all_bytes [OF w] window_openI [OF w small] by (auto simp: window_def)
  moreover have "poke (dl_blockByteCounts dl) (int (b mod 8)) 0 = Some ((dl_blockByteCounts dl)[b mod 8 := 0])"
    using wf(1) by (simp add: poke_eq_Some buffers_wf_def flip: of_nat_mod)
  moreover have "i32 (int b + 1) = int (Suc b)" using small True by (subst i32_id) auto
  ultimately have "queue_eof dl = Some dl'"
    using wf(2) by (simp add: queue_eof_def block_slot_nat dl'_def del: of_nat_mod)
  moreover have "slot_holds data dl' i" if "a \<le> i" "i < Suc b" for i
  proof (cases "i = b")
    case True
    then show ?thesis using wf(1) \<open>b = nblocks data \<and> b < a + 8\<close> block_nonempty [of data b]
      by (simp add: slot_holds_def dl'_def buffers_wf_def)
  next
    case False
    have apart: "i mod 8 \<noteq> b mod 8" using that False True by (intro slots_apart) auto
    show ?thesis
      by (rule slot_update [OF _ apart]) (use w that False in \<open>auto simp: window_def dl'_def\<close>)
  qed
  then have "window data a t (Suc b) fs dl'"
    using w wf(1) True all_read [of data b] by (auto simp: window_def dl'_def buffers_wf_def)
  moreover have "min (a + 8) (Suc (nblocks data)) = Suc b" using True by simp
  moreover have "dl_lastBlockActivityTime dl' = dl_lastBlockActivityTime dl" by (simp add: dl'_def)
  ultimately show ?thesis by auto
qed

section \<open>Sending\<close>

definition wire :: "8 word list \<Rightarrow> nat \<Rightarrow> 8 word list" where
  "wire data i = 6 # le16 (int i) @ (if i = 0 then le32 (int (length data)) else []) @
     le16 (int (length (block data i))) @ block data i"

lemma length_wire: "length (wire data i) \<le> 2057"
  by (simp add: wire_def length_block length_le min_le_iff_disj)

lemma write_block_wire:
  assumes w: "window data a t b fs dl" and t: "t < b"
    and m: "builds m bs" "int (length bs) + 2057 \<le> m_maxsize m" and small: "nblocks data < 1000000"
  shows "\<exists>m'. write_block now dl m = Some (dl\<lparr>dl_nextTransmitBlock := int (Suc t), dl_lastBlockActivityTime := now\<rparr>, m') \<and>
    builds m' (bs @ wire data t) \<and> m_maxsize m' = m_maxsize m"
proof -
  have t_eq: "dl_nextTransmitBlock dl = int t" "dl_fileSize dl = int (length data)" and slot: "slot_holds data dl t"
    and wf: "buffers_wf dl" and bound: "t \<le> nblocks data"
    using w t by (auto simp: window_def)
  define len where "len = length (block data t)"
  have len: "len \<le> 2048" by (simp add: len_def length_block)
  have count: "peek (dl_blockByteCounts dl) (int (t mod 8)) = Some (int len)"
    using wf slot by (simp add: peek_eq_Some buffers_wf_def slot_holds_def len_def flip: of_nat_mod)
  have "t < nblocks data \<longleftrightarrow> len \<noteq> 0" using block_nonempty [of data t] by (simp add: len_def)
  then obtain rest where held: "len \<noteq> 0 \<longrightarrow> peek (dl_blockData dl) (int (t mod 8)) = Some (Some (block data t @ rest))"
    using wf slot by (auto simp: peek_eq_Some buffers_wf_def slot_holds_def simp flip: of_nat_mod)
  have nxt: "i32 (int t + 1) = int (Suc t)" using bound small by (subst i32_id) auto
  define m1 where "m1 = put_bytes [6] m"
  define m2 where "m2 = put_bytes (le16 (int t)) m1"
  define m3 where "m3 = (if t = 0 then put_bytes (le32 (int (length data))) m2 else m2)"
  define m4 where "m4 = put_bytes (le16 (int len)) m3"
  define m5 where "m5 = (if len \<noteq> 0 then put_bytes (block data t) m4 else m4)"
  have sizes: "m_maxsize m1 = m_maxsize m" "m_maxsize m2 = m_maxsize m" "m_maxsize m3 = m_maxsize m"
      "m_maxsize m4 = m_maxsize m" "m_maxsize m5 = m_maxsize m"
    by (simp_all add: m1_def m2_def m3_def m4_def m5_def)
  define h3 where "h3 = (if t = 0 then le32 (int (length data)) else [])"
  have h3: "length h3 \<le> 4" by (simp add: h3_def length_le)
  have b1: "builds m1 (bs @ [6])" unfolding m1_def by (rule builds_put [OF m(1)]) (use m(2) in simp)
  have b2: "builds m2 ((bs @ [6]) @ le16 (int t))"
    unfolding m2_def using m sizes by (intro builds_put b1) (simp_all add: length_le)
  have b3: "builds m3 (((bs @ [6]) @ le16 (int t)) @ h3)"
  proof (cases "t = 0")
    case True
    then show ?thesis using builds_put [OF b2, of "le32 (int (length data))"] m(2) sizes
      by (simp add: m3_def h3_def length_le)
  qed (use b2 in \<open>simp add: m3_def h3_def\<close>)
  have b4: "builds m4 ((((bs @ [6]) @ le16 (int t)) @ h3) @ le16 (int len))"
    unfolding m4_def using m sizes h3 by (intro builds_put b3) (simp_all add: length_le)
  have b5: "builds m5 (((((bs @ [6]) @ le16 (int t)) @ h3) @ le16 (int len)) @ block data t)"
  proof (cases "len = 0")
    case True
    then show ?thesis using b4 by (simp add: m5_def len_def)
  next
    case False
    then show ?thesis
      using builds_put [OF b4, of "block data t"] m sizes h3 len by (simp add: m5_def length_le flip: len_def)
  qed
  have w1: "MSG_WriteByte m 6 = Some m1" unfolding m1_def using builds_WriteByte [OF m(1)] m(2) by simp
  have w2: "MSG_WriteShort m1 (int t) = Some m2"
    unfolding m2_def using m sizes by (intro builds_WriteShort [OF b1]) simp
  have w3: "(if int t = 0 then MSG_WriteLong m2 (int (length data)) else Some m2) = Some m3"
    using m sizes builds_WriteLong [OF b2, of "int (length data)"] by (simp add: m3_def length_le)
  have w4: "MSG_WriteShort m3 (int len) = Some m4"
    unfolding m4_def using m sizes h3 by (intro builds_WriteShort [OF b3]) (simp add: length_le)
  have w5: "MSG_WriteData m4 (block data t @ rest) (int len) = Some (put_bytes (block data t) m4)"
    using builds_WriteData [OF b4, of "int len" "block data t @ rest"] m sizes h3 len
    by (simp add: length_le len_def)
  have "write_block now dl m = Some (dl\<lparr>dl_nextTransmitBlock := int (Suc t), dl_lastBlockActivityTime := now\<rparr>, m5)"
    unfolding write_block_def Let_def t_eq block_slot_nat
    using w1 w2 w3 w4 w5 count held nxt by (auto simp: m5_def simp del: of_nat_mod of_nat_Suc)
  moreover have "((((bs @ [6]) @ le16 (int t)) @ h3) @ le16 (int len)) @ block data t = bs @ wire data t"
    by (simp add: wire_def h3_def len_def)
  ultimately show ?thesis using b5 sizes by auto
qed

definition burst :: "8 word list \<Rightarrow> nat \<Rightarrow> nat \<Rightarrow> 8 word list" where
  "burst data t n = concat (map (wire data) [t..<t + n])"

lemma burst_simps: "burst data t 0 = []" "burst data t (Suc n) = wire data t @ burst data (Suc t) n"
  by (simp_all add: burst_def upt_rec [of t] del: upt_Suc)

lemma window_transmit:
  "window data a t b fs dl \<Longrightarrow> a \<le> s \<Longrightarrow> s \<le> b \<Longrightarrow>
   window data a s b fs (dl\<lparr>dl_nextTransmitBlock := int s\<rparr>)"
  "window data a t b fs (dl\<lparr>dl_lastBlockActivityTime := now\<rparr>) = window data a t b fs dl"
  by (auto simp: window_def buffers_wf_def slot_holds_def)

lemma transmit_onwards:
  assumes "window data a t b fs dl" "nblocks data < 1000000" "a < b"
    "t < b \<or> i32 (now - dl_lastBlockActivityTime dl) \<le> 1000"
    "builds m bs" "int (length bs) + 2057 * int (b - t) \<le> m_maxsize m"
  shows "\<exists>dl' m'. transmit_blocks k now dl m = Some (dl', m') \<and> window data a (t + min k (b - t)) b fs dl' \<and>
    builds m' (bs @ burst data t (min k (b - t))) \<and> m_maxsize m' = m_maxsize m \<and>
    dl_lastBlockActivityTime dl' = (if min k (b - t) = 0 then dl_lastBlockActivityTime dl else now)"
  using assms
proof (induction k arbitrary: t dl m bs)
  case 0
  then show ?case by (simp add: burst_simps)
next
  case (Suc k)
  note w = Suc(2) and small = Suc(3) and builds = Suc(6) and room = Suc(7)
  have eqs: "dl_nextAcknowledgmentBlock dl = int a" "dl_nextTransmitBlock dl = int t" "dl_nextBufferedBlock dl = int b"
      "a \<le> t" "t \<le> b" using w by (simp_all add: window_def)
  show ?case
  proof (cases "t < b")
    case False
    then have "t = b" using eqs by simp
    moreover have "transmit_blocks (Suc k) now dl m = Some (dl, m)"
      using eqs Suc(4,5) \<open>t = b\<close> by simp
    ultimately show ?thesis using w builds by (simp add: burst_simps)
  next
    case True
    define dl1 where "dl1 = dl\<lparr>dl_nextTransmitBlock := int (Suc t), dl_lastBlockActivityTime := now\<rparr>"
    obtain m1 where m1: "write_block now dl m = Some (dl1, m1)" "builds m1 (bs @ wire data t)" "m_maxsize m1 = m_maxsize m"
      using write_block_wire [OF w True builds _ small, of now] room True
      by (auto simp: dl1_def)
    have w1: "window data a (Suc t) b fs dl1"
      using window_transmit(1) [OF w, of "Suc t"] eqs True by (simp add: dl1_def window_transmit(2) del: of_nat_Suc)
    have len: "int (length (wire data t)) \<le> 2057" using length_wire [of data t] by simp
    have split: "2057 * int (b - t) = 2057 + 2057 * int (b - Suc t)" using True by simp
    have room1: "int (length (bs @ wire data t)) + 2057 * int (b - Suc t) \<le> m_maxsize m1"
      using room len m1(3) unfolding split length_append of_nat_add by linarith
    have "transmit_blocks (Suc k) now dl m = transmit_blocks k now dl1 m1"
      using eqs Suc(4) True m1(1) by simp
    moreover obtain dl' m' where
        "transmit_blocks k now dl1 m1 = Some (dl', m')" "window data a (Suc t + min k (b - Suc t)) b fs dl'"
        "builds m' ((bs @ wire data t) @ burst data (Suc t) (min k (b - Suc t)))" "m_maxsize m' = m_maxsize m1"
        "dl_lastBlockActivityTime dl' = (if min k (b - Suc t) = 0 then dl_lastBlockActivityTime dl1 else now)"
      using Suc(1) [OF w1 small Suc(4) _ m1(2) room1] by (auto simp: dl1_def i32_id)
    moreover have "min (Suc k) (b - t) = Suc (min k (b - Suc t))" using True by simp
    ultimately show ?thesis using m1(3) by (simp add: burst_simps dl1_def)
  qed
qed

lemma transmit_restart:
  assumes "window data a b b fs dl" "a < b" "1000 < i32 (now - dl_lastBlockActivityTime dl)" "0 < k"
  shows "transmit_blocks k now dl m = transmit_blocks k now (dl\<lparr>dl_nextTransmitBlock := int a\<rparr>) m"
  using assms by (cases k) (simp_all add: window_def)

lemma transmit_window:
  assumes w: "window data a t b fs dl" and small: "nblocks data < 1000000" and pending: "a < b"
    and k: "0 < k" and m: "builds m []" "16456 \<le> m_maxsize m"
  shows "\<exists>dl' m' s n. transmit_blocks k now dl m = Some (dl', m') \<and> window data a (s + n) b fs dl' \<and>
    builds m' (burst data s n) \<and> m_maxsize m' = m_maxsize m \<and> n \<le> 8 \<and>
    (n = 0 \<longrightarrow> s = t \<and> dl_lastBlockActivityTime dl' = dl_lastBlockActivityTime dl \<and>
       t = b \<and> i32 (now - dl_lastBlockActivityTime dl) \<le> 1000) \<and>
    (0 < n \<longrightarrow> dl_lastBlockActivityTime dl' = now \<and> s = (if t = b then a else t))"
proof -
  have le: "a \<le> t" "t \<le> b" "b \<le> a + 8" using w by (simp_all add: window_def)
  show ?thesis
  proof (cases "t = b \<and> 1000 < i32 (now - dl_lastBlockActivityTime dl)")
    case True
    define dl1 where "dl1 = dl\<lparr>dl_nextTransmitBlock := int a\<rparr>"
    have w1: "window data a a b fs dl1" using window_transmit(1) [OF w, of a] le by (simp add: dl1_def)
    have "int (length []) + 2057 * int (b - a) \<le> m_maxsize m" using m(2) le by simp
    from transmit_onwards [OF w1 small pending _ m(1) this, of now k]
    obtain dl' m' where "transmit_blocks k now dl1 m = Some (dl', m')" "window data a (a + min k (b - a)) b fs dl'"
      "builds m' (burst data a (min k (b - a)))" "m_maxsize m' = m_maxsize m"
      "dl_lastBlockActivityTime dl' = (if min k (b - a) = 0 then dl_lastBlockActivityTime dl1 else now)"
      using pending by auto
    moreover have "transmit_blocks k now dl m = transmit_blocks k now dl1 m"
      using transmit_restart [of data a b fs dl now k m] w True pending k by (simp add: dl1_def)
    moreover have "0 < min k (b - a)" "min k (b - a) \<le> 8" using k pending le by auto
    ultimately show ?thesis using True
      by (intro exI [of _ dl'] exI [of _ m'] exI [of _ a] exI [of _ "min k (b - a)"]) simp
  next
    case False
    then have fresh: "t < b \<or> i32 (now - dl_lastBlockActivityTime dl) \<le> 1000" using le by auto
    have "int (length []) + 2057 * int (b - t) \<le> m_maxsize m" using m(2) le by simp
    from transmit_onwards [OF w small pending fresh m(1) this, of k]
    obtain dl' m' where "transmit_blocks k now dl m = Some (dl', m')" "window data a (t + min k (b - t)) b fs dl'"
      "builds m' (burst data t (min k (b - t)))" "m_maxsize m' = m_maxsize m"
      "dl_lastBlockActivityTime dl' = (if min k (b - t) = 0 then dl_lastBlockActivityTime dl else now)"
      by auto
    moreover have "min k (b - t) \<le> 8" "min k (b - t) = 0 \<longrightarrow> t = b" "0 < min k (b - t) \<longrightarrow> t \<noteq> b" using k le by auto
    ultimately show ?thesis using fresh
      by (intro exI [of _ dl'] exI [of _ m'] exI [of _ t] exI [of _ "min k (b - t)"]) auto
  qed
qed

end
