(* ===== verification/SvDownload_Correct.thy ===== *)
theory SvDownload_Correct
  imports SvDownload_Window SvCommands_Correct
begin

text \<open>
  A download over a connection that loses messages: the client's file is always a prefix of the
  file, and the transfer ends as soon as the connection has delivered often enough.
\<close>

section \<open>A session\<close>

text \<open>
  The records of a message that carries blocks only, as the loop of \<open>CL_ParseServerMessage\<close> takes
  them: 6 is a block, 8 the end.
\<close>

fun parse_replies :: "nat \<Rightarrow> cl_services \<Rightarrow> 8 word list \<Rightarrow> cl_download \<Rightarrow> msg_t \<Rightarrow> cl_download run" where
  "parse_replies 0 services blockData cd message = Done cd"
| "parse_replies (Suc n) services blockData cd message =
     run_bind (checked (MSG_ReadByte message)) (\<lambda>(command, m1).
       if command = 8 then Done cd
       else if command = 6 then
         run_bind (CL_ParseDownload services blockData cd m1) (\<lambda>(cd1, m2). parse_replies n services blockData cd1 m2)
       else Raise ERR_DROP ''CL_ParseServerMessage: Illegible server message %d'')"

text \<open>The two words of a command, as \<open>Cmd_TokenizeString\<close> splits it at the space.\<close>

definition command_words :: "string \<Rightarrow> string \<times> string" where
  "command_words text = (takeWhile (\<lambda>c. c \<noteq> CHR '' '') text, drop 1 (dropWhile (\<lambda>c. c \<noteq> CHR '' '') text))"

definition execute_command ::
    "int \<Rightarrow> string \<Rightarrow> 'z fs_state \<times> serverClientDownload_t \<Rightarrow> ('z fs_state \<times> serverClientDownload_t \<times> handler_end) option" where
  "execute_command realTime text = (\<lambda>(fs, dl).
     case command_words text of (name, argument) \<Rightarrow>
       if name = ''nextdl'' then SV_NextDownload_f realTime fs argument dl
       else if name = ''retransdl'' then Some (fs, SV_RetransmitDownload_f argument dl, Handled)
       else if name = ''stopdl'' then map_option (\<lambda>(fs1, dl1). (fs1, dl1, Handled)) (SV_StopDownload_f fs dl)
       else Some (fs, dl, Handled))"

text \<open>The client's commands in order; a client that is dropped ends the session with \<open>Fault\<close>.\<close>

fun execute_commands ::
    "int \<Rightarrow> string list \<Rightarrow> 'z fs_state \<times> serverClientDownload_t \<Rightarrow> ('z fs_state \<times> serverClientDownload_t) run" where
  "execute_commands realTime [] state = Done state"
| "execute_commands realTime (text # texts) state =
     (case execute_command realTime text state of
        Some (fs, dl, Handled) \<Rightarrow> execute_commands realTime texts (fs, dl)
      | _ \<Rightarrow> Fault)"

type_synonym 'z session = "download_vars \<times> 'z fs_state \<times> client_t \<times> cl_download"

text \<open>
  One message of the server at a given time: lost, or parsed by the client, whose commands the
  server then executes. \<open>buffer\<close> and \<open>blockData\<close> are stack arrays of 32768 bytes.
\<close>

definition download_round ::
    "'z archive_services \<Rightarrow> cl_services \<Rightarrow> 8 word list \<Rightarrow> 8 word list \<Rightarrow> int \<times> bool \<Rightarrow> 'z session \<Rightarrow> 'z session run" where
  "download_round services clsv buffer blockData = (\<lambda>(time, delivered) (vars, fs, client, cd).
     run_bind (SV_WriteDownloadToClient (vars\<lparr>dv_realTime := time\<rparr>) services fs client (MSG_Init buffer 32768))
       (\<lambda>(client1, m1, fs1, vars1).
     if \<not> delivered then Done (vars1, fs1, client1, cd)
     else run_bind (checked (MSG_WriteByte m1 8)) (\<lambda>m2.
     run_bind (parse_replies (Suc (nat (m_cursize m2))) clsv blockData (cd\<lparr>cd_commands := []\<rparr>) (MSG_BeginReading m2))
       (\<lambda>cd1.
     run_bind (execute_commands time (cd_commands cd1) (fs1, c_download client1)) (\<lambda>(fs2, dl).
       Done (vars1, fs2, client1\<lparr>c_download := dl\<rparr>, cd1))))))"

fun download_rounds ::
    "'z archive_services \<Rightarrow> cl_services \<Rightarrow> 8 word list \<Rightarrow> 8 word list \<Rightarrow> (int \<times> bool) list \<Rightarrow> 'z session \<Rightarrow> 'z session run" where
  "download_rounds services clsv buffer blockData [] state = Done state"
| "download_rounds services clsv buffer blockData (r # rs) state =
     run_bind (download_round services clsv buffer blockData r state) (download_rounds services clsv buffer blockData rs)"

lemma command_words_nextdl: "command_words (''nextdl '' @ s) = (''nextdl'', s)"
  "command_words (''retransdl '' @ s) = (''retransdl'', s)"
  by (simp_all add: command_words_def)

lemma run_bind_assoc: "run_bind (run_bind m f) g = run_bind m (\<lambda>x. run_bind (f x) g)"
  by (cases m) simp_all

section \<open>The client\<close>

definition receiving :: "8 word list \<Rightarrow> string \<Rightarrow> string \<Rightarrow> nat \<Rightarrow> cl_download \<Rightarrow> bool" where
  "receiving data name temp j cd \<longleftrightarrow>
     cd_downloadBlock cd = int j \<and> cd_downloadName cd = name \<and> cd_downloadTempName cd = temp \<and> temp \<noteq> [] \<and>
     cd_downloadList cd = [] \<and> cd_requests cd = [] \<and>
     (cd_downloadFile cd = Some (take (2048 * j) data) \<or> j = 0 \<and> cd_downloadFile cd = None)"

definition received_all :: "8 word list \<Rightarrow> string \<Rightarrow> string \<Rightarrow> cl_download \<Rightarrow> bool" where
  "received_all data name temp cd \<longleftrightarrow> cd_downloadFile cd = None \<and> cd_downloadName cd = [] \<and>
     cd_requests cd = [RenameDownload temp name data, DownloadsComplete]"

definition nextdl :: "nat \<Rightarrow> string" where
  "nextdl i = ''nextdl '' @ decimal (int i)"

definition retransdl :: "nat \<Rightarrow> string" where
  "retransdl i = ''retransdl '' @ decimal (int i)"

lemma accept_next_block:
  assumes r: "receiving data name temp j cd" and made: "sv_create services temp"
    and more: "j < nblocks data" and small: "nblocks data < 1000000"
  shows "\<exists>cd'. store_block services cd (int j) (block data j) = Done cd' \<and> receiving data name temp (Suc j) cd' \<and>
    cd_commands cd' = cd_commands cd @ [nextdl j]"
proof -
  define cd0 where "cd0 = cd\<lparr>cd_downloadFile := Some (take (2048 * j) data)\<rparr>"
  have j: "cd_downloadBlock cd = int j" "cd_downloadTempName cd = temp" "temp \<noteq> []" using r by (simp_all add: receiving_def)
  have "store_block services cd (int j) (block data j) = accept_block services cd0 (block data j)"
  proof (cases "cd_downloadFile cd")
    case None
    then have "cd0 = cd\<lparr>cd_downloadFile := Some []\<rparr>" using r by (simp add: cd0_def receiving_def)
    then show ?thesis using None j made by (simp add: store_block_def)
  next
    case (Some f)
    then have "cd0 = cd" using r by (simp add: cd0_def receiving_def)
    then show ?thesis using Some j by (simp add: store_block_def)
  qed
  moreover have "block data j \<noteq> []" using more by (simp add: block_nonempty)
  moreover have "i32 (int j + 1) = int (Suc j)" using small more by (subst i32_id) auto
  ultimately show ?thesis
    using r j take_block [of j data]
    by (simp add: accept_block_def Let_def add_command_def receiving_def nextdl_def cd0_def)
qed

lemma accept_final_block:
  assumes r: "receiving data name temp (nblocks data) cd" and some: "0 < nblocks data"
  shows "\<exists>cd'. store_block services cd (int (nblocks data)) (block data (nblocks data)) = Done cd' \<and>
    received_all data name temp cd' \<and> cd_commands cd' = cd_commands cd @ [nextdl (nblocks data)]"
proof -
  have whole: "cd_downloadFile cd = Some data"
    using r some all_read [of data "nblocks data"] by (auto simp: receiving_def)
  have "block data (nblocks data) = []" using block_nonempty by auto
  then show ?thesis
    using r whole
    by (simp add: store_block_def accept_block_def Let_def add_command_def finish_download_def CL_NextDownload_def
        strchr_split_def add_request_def received_all_def receiving_def nextdl_def)
qed

lemma refuse_later:
  assumes "receiving data name temp j cd" "j < i"
  shows "store_block services cd (int i) bs = Done (cd\<lparr>cd_commands := cd_commands cd @ [retransdl j]\<rparr>)"
  using assms by (simp add: store_block_def receiving_def add_command_def retransdl_def)

text \<open>The blocks of a message, one after the other.\<close>

fun take_blocks :: "cl_services \<Rightarrow> 8 word list \<Rightarrow> cl_download \<Rightarrow> nat list \<Rightarrow> cl_download run" where
  "take_blocks services data cd [] = Done cd"
| "take_blocks services data cd (i # js) =
     run_bind (store_block services (if i = 0 then cd\<lparr>cd_downloadSize := int (length data)\<rparr> else cd) (int i) (block data i))
       (\<lambda>cd1. take_blocks services data cd1 js)"

lemma receiving_size: "receiving data name temp j (cd\<lparr>cd_downloadSize := n\<rparr>) = receiving data name temp j cd"
  by (simp add: receiving_def)

lemma take_blocks_accepts:
  assumes "receiving data name temp j cd" "sv_create services temp" "j + n \<le> nblocks data" "nblocks data < 1000000"
  shows "\<exists>cd'. take_blocks services data cd [j..<j + n] = Done cd' \<and> receiving data name temp (j + n) cd' \<and>
    cd_commands cd' = cd_commands cd @ map nextdl [j..<j + n]"
  using assms
proof (induction n arbitrary: j cd)
  case (Suc n)
  define cd0 where "cd0 = (if j = 0 then cd\<lparr>cd_downloadSize := int (length data)\<rparr> else cd)"
  have "receiving data name temp j cd0" using Suc(2) by (auto simp: cd0_def receiving_size)
  then obtain cd1 where first: "store_block services cd0 (int j) (block data j) = Done cd1"
      "receiving data name temp (Suc j) cd1" "cd_commands cd1 = cd_commands cd0 @ [nextdl j]"
    using accept_next_block [of data name temp j cd0 services] Suc(3-5) by auto
  obtain cd' where rest: "take_blocks services data cd1 [Suc j..<Suc j + n] = Done cd'"
      "receiving data name temp (Suc j + n) cd'" "cd_commands cd' = cd_commands cd1 @ map nextdl [Suc j..<Suc j + n]"
    using Suc(1) [OF first(2) Suc(3)] Suc(4,5) by auto
  have "[j..<j + Suc n] = j # [Suc j..<Suc j + n]" by (simp add: upt_rec [of j] del: upt_Suc)
  then show ?case using first rest by (simp add: cd0_def [symmetric] del: upt_Suc) (simp add: cd0_def)
qed simp

lemma take_blocks_completes:
  assumes "receiving data name temp j cd" "sv_create services temp" "j \<le> nblocks data"
    "0 < nblocks data" "nblocks data < 1000000"
  shows "\<exists>cd'. take_blocks services data cd [j..<Suc (nblocks data)] = Done cd' \<and> received_all data name temp cd' \<and>
    cd_commands cd' = cd_commands cd @ map nextdl [j..<Suc (nblocks data)]"
proof -
  have split: "take_blocks services data c (xs @ ys) =
      run_bind (take_blocks services data c xs) (\<lambda>c1. take_blocks services data c1 ys)" for c xs ys
    by (induction xs arbitrary: c) (simp_all add: run_bind_assoc)
  obtain cd1 where before: "take_blocks services data cd [j..<nblocks data] = Done cd1"
      "receiving data name temp (nblocks data) cd1" "cd_commands cd1 = cd_commands cd @ map nextdl [j..<nblocks data]"
    using take_blocks_accepts [OF assms(1,2), of "nblocks data - j"] assms(3,5) by auto
  obtain cd' where "store_block services cd1 (int (nblocks data)) (block data (nblocks data)) = Done cd'"
      "received_all data name temp cd'" "cd_commands cd' = cd_commands cd1 @ [nextdl (nblocks data)]"
    using accept_final_block [OF before(2) assms(4)] by blast
  then show ?thesis using before assms(3,4) by (simp add: upt_Suc_append split)
qed

lemma take_blocks_ignores:
  assumes "receiving data name temp j cd" "j < s"
  shows "\<exists>cd'. take_blocks services data cd [s..<s + n] = Done cd' \<and> receiving data name temp j cd' \<and>
    cd_commands cd' = cd_commands cd @ replicate n (retransdl j)"
  using assms
proof (induction n arbitrary: s cd)
  case (Suc n)
  define cd1 where "cd1 = cd\<lparr>cd_commands := cd_commands cd @ [retransdl j]\<rparr>"
  have first: "store_block services cd (int s) (block data s) = Done cd1"
    using refuse_later [OF Suc(2,3)] by (simp add: cd1_def)
  have "receiving data name temp j cd1" using Suc(2) by (simp add: cd1_def receiving_def)
  then obtain cd' where "take_blocks services data cd1 [Suc s..<Suc s + n] = Done cd'" "receiving data name temp j cd'"
      "cd_commands cd' = cd_commands cd1 @ replicate n (retransdl j)"
    using Suc(1) [of cd1 "Suc s"] Suc(3) by auto
  moreover have "[s..<s + Suc n] = s # [Suc s..<Suc s + n]" by (simp add: upt_rec [of s] del: upt_Suc)
  ultimately show ?case using first Suc(3) by (simp add: cd1_def del: upt_Suc)
qed simp

section \<open>Parsing a message\<close>

lemma read_block_stream:
  assumes r: "stream r (le16 (int (length bs)) @ bs @ rest)" and bs: "length bs \<le> 2048" and room: "2048 \<le> length blockData"
  shows "\<exists>r'. stream r' rest \<and>
    read_block services blockData cd i r = run_bind (store_block services cd i bs) (\<lambda>cd1. Done (cd1, r'))"
proof -
  define r1 where "r1 = skip 2 r"
  have short: "MSG_ReadShort r = Some (int (length bs), r1)"
    using stream_ReadShort [OF r] bs by (simp add: i16_id r1_def)
  have r1: "stream r1 (bs @ rest)" using stream_skip [OF r] by (simp add: r1_def length_le)
  define r2 where "r2 = skip (int (length bs)) r1"
  have r2: "stream r2 rest" using stream_skip [OF r1] by (simp add: r2_def)
  have "\<exists>blockData1. (if int (length bs) > 0 then MSG_ReadData r1 blockData (int (length bs)) else Some (blockData, r1)) =
      Some (blockData1, r2) \<and> take (length bs) blockData1 = bs"
  proof (cases "bs = []")
    case True
    then show ?thesis by (simp add: r2_def skip_def)
  next
    case False
    have "m_readcount r1 + int (length bs) \<le> m_cursize r1" "0 \<le> m_readcount r1" "m_cursize r1 < 268435456"
      using stream_bounds [OF r1] by simp_all
    then have "MSG_ReadData r1 blockData (int (length bs)) = Some (bs @ drop (length bs) blockData, r2)"
      using stream_copy_out [OF r1] bs room
      by (simp add: MSG_ReadData_def Let_def i32_id mem_simps r2_def skip_def)
    then show ?thesis using False by simp
  qed
  then show ?thesis using short r2 by (auto simp: read_block_def)
qed

lemma parse_wire:
  assumes r: "stream r (drop 1 (wire data i) @ rest)" and room: "2048 \<le> length blockData"
    and i: "i \<le> nblocks data" "nblocks data \<le> 32767"
  shows "\<exists>r'. stream r' rest \<and>
    CL_ParseDownload services blockData cd r =
      run_bind (store_block services (if i = 0 then cd\<lparr>cd_downloadSize := int (length data)\<rparr> else cd) (int i) (block data i))
        (\<lambda>cd1. Done (cd1, r'))"
proof -
  define tail where "tail = le16 (int (length (block data i))) @ block data i @ rest"
  have len: "length data < 2147483648" using all_read [of data "32767"] i(2) by simp
  have r: "stream r (le16 (int i) @ (if i = 0 then le32 (int (length data)) else []) @ tail)"
    using r by (simp add: wire_def tail_def)
  have short: "MSG_ReadShort r = Some (int i, skip 2 r)"
    using stream_ReadShort [OF r] i by (simp add: i16_id)
  have r1: "stream (skip 2 r) ((if i = 0 then le32 (int (length data)) else []) @ tail)"
    using stream_skip [OF r] by (simp add: length_le)
  have bs: "length (block data i) \<le> 2048" by (simp add: length_block)
  show ?thesis
  proof (cases "i = 0")
    case True
    then have r1: "stream (skip 2 r) (le32 (int (length data)) @ tail)" using r1 by simp
    have "MSG_ReadLong (skip 2 r) = Some (int (length data), skip 4 (skip 2 r))"
      using stream_ReadLong [OF r1] len by (simp add: i32_id)
    moreover have "stream (skip 4 (skip 2 r)) tail" using stream_skip [OF r1] by (simp add: length_le)
    ultimately show ?thesis
      using read_block_stream [OF _ bs room, of "skip 4 (skip 2 r)" rest services "cd\<lparr>cd_downloadSize := int (length data)\<rparr>" 0]
        short True
      by (simp add: CL_ParseDownload_def tail_def)
  next
    case False
    then have "stream (skip 2 r) tail" using r1 by simp
    then show ?thesis
      using read_block_stream [OF _ bs room, of "skip 2 r" rest services cd "int i"] short False
      by (simp add: CL_ParseDownload_def tail_def)
  qed
qed

lemma parse_burst:
  assumes "stream r (burst data s n @ [8])" "2048 \<le> length blockData" "s + n \<le> Suc (nblocks data)"
    "nblocks data \<le> 32767" "n < fuel"
  shows "parse_replies fuel services blockData cd r = take_blocks services data cd [s..<s + n]"
  using assms
proof (induction n arbitrary: s fuel r cd)
  case 0
  then obtain f where f: "fuel = Suc f" by (cases fuel) auto
  have "MSG_ReadByte r = Some (8, skip 1 r)" using stream_ReadByte [of r 8 "[]"] 0(1) by (simp add: burst_simps)
  then show ?case using f by simp
next
  case (Suc n)
  then obtain f where f: "fuel = Suc f" "n < f" by (cases fuel) auto
  define rest where "rest = burst data (Suc s) n @ [8]"
  have cut: "wire data s = 6 # drop 1 (wire data s)" by (simp add: wire_def)
  have "burst data s (Suc n) @ [8] = 6 # drop 1 (wire data s) @ rest"
    by (simp only: burst_simps(2) rest_def append.assoc append_Cons [symmetric] cut [symmetric])
  then have r: "stream r (6 # drop 1 (wire data s) @ rest)" using Suc(2) by simp
  then have byte: "MSG_ReadByte r = Some (6, skip 1 r)" using stream_ReadByte [OF r] by simp
  have r1: "stream (skip 1 r) (drop 1 (wire data s) @ rest)" using stream_skip [of r "[6]"] r by simp
  have s: "s \<le> nblocks data" using Suc(4) by simp
  obtain r' where r': "stream r' rest" and
    parse: "CL_ParseDownload services blockData cd (skip 1 r) =
      run_bind (store_block services (if s = 0 then cd\<lparr>cd_downloadSize := int (length data)\<rparr> else cd) (int s) (block data s))
        (\<lambda>cd1. Done (cd1, r'))"
    using parse_wire [OF r1 Suc(3) s Suc(5), of services cd] by blast
  have "parse_replies f services blockData cd1 r' = take_blocks services data cd1 [Suc s..<Suc s + n]" for cd1
    using Suc(1) [of r' "Suc s" f cd1] r' Suc(3-5) f(2) by (simp add: rest_def)
  moreover have "[s..<s + Suc n] = s # [Suc s..<Suc s + n]" by (simp add: upt_rec [of s] del: upt_Suc)
  ultimately show ?case
    using byte parse f(1) by (simp add: run_bind_assoc del: upt_Suc)
qed

section \<open>The commands\<close>

lemma words_of_command:
  "command_words (nextdl i) = (''nextdl'', decimal (int i))"
  "command_words (retransdl i) = (''retransdl'', decimal (int i))"
  unfolding nextdl_def retransdl_def by (rule command_words_nextdl)+

lemma command_nextdl:
  assumes "window data a t b fs dl" "a < t" "nblocks data < 1000000"
  shows "execute_command now (nextdl a) (fs, dl) =
    (if a = nblocks data then map_option (\<lambda>(fs1, dl1). (fs1, dl1, Handled)) (SV_CloseDownload fs dl)
     else Some (fs, dl\<lparr>dl_lastBlockActivityTime := now, dl_nextAcknowledgmentBlock := int (Suc a)\<rparr>, Handled))"
proof -
  have a: "dl_nextAcknowledgmentBlock dl = int a" "a \<le> nblocks data" "slot_holds data dl a" "buffers_wf dl"
    using assms by (auto simp: window_def)
  then have count: "peek (dl_blockByteCounts dl) (int (a mod 8)) = Some (int (length (block data a)))"
    by (simp add: peek_eq_Some buffers_wf_def slot_holds_def flip: of_nat_mod)
  have number: "parse_int (decimal (int a)) = int a" using a(2) assms(3) by (intro parse_decimal) auto
  have empty: "length (block data a) = 0 \<longleftrightarrow> a = nblocks data" using block_nonempty [of data a] a(2) by auto
  have nxt: "i32 (int a + 1) = int (Suc a)" using a(2) assms(3) by (subst i32_id) auto
  have "execute_command now (nextdl a) (fs, dl) = SV_NextDownload_f now fs (decimal (int a)) dl"
    by (simp add: execute_command_def words_of_command)
  also have "\<dots> = (if a = nblocks data then do { (fs1, dl1) \<leftarrow> SV_CloseDownload fs dl; Some (fs1, dl1, Handled) }
     else Some (fs, dl\<lparr>dl_lastBlockActivityTime := now, dl_nextAcknowledgmentBlock := int (Suc a)\<rparr>, Handled))"
    using a(1) count number empty nxt by (simp add: SV_NextDownload_f_def block_slot_nat del: of_nat_mod of_nat_Suc)
  also have "(do { (fs1, dl1) \<leftarrow> SV_CloseDownload fs dl; Some (fs1, dl1, Handled) }) =
      map_option (\<lambda>(fs1, dl1). (fs1, dl1, Handled)) (SV_CloseDownload fs dl)"
    by (cases "SV_CloseDownload fs dl") auto
  finally show ?thesis .
qed

lemma window_acknowledge:
  assumes "window data a t b fs dl" "a < t" "a < nblocks data"
  shows "window data (Suc a) t b fs (dl\<lparr>dl_lastBlockActivityTime := now, dl_nextAcknowledgmentBlock := int (Suc a)\<rparr>)"
  using assms by (auto simp: window_def buffers_wf_def slot_holds_def)

lemma commands_acknowledge:
  assumes "window data a t b fs dl" "a + n \<le> t" "a + n \<le> nblocks data" "nblocks data < 1000000"
  shows "\<exists>dl'. execute_commands now (map nextdl [a..<a + n] @ rest) (fs, dl) = execute_commands now rest (fs, dl') \<and>
    window data (a + n) t b fs dl' \<and>
    dl_lastBlockActivityTime dl' = (if n = 0 then dl_lastBlockActivityTime dl else now)"
  using assms
proof (induction n arbitrary: a dl)
  case (Suc n)
  define dl1 where "dl1 = dl\<lparr>dl_lastBlockActivityTime := now, dl_nextAcknowledgmentBlock := int (Suc a)\<rparr>"
  have w: "window data (Suc a) t b fs dl1"
    using window_acknowledge [OF Suc(2)] Suc(3,4) by (simp add: dl1_def)
  have "execute_command now (nextdl a) (fs, dl) = Some (fs, dl1, Handled)"
    using command_nextdl [OF Suc(2) _ Suc(5)] Suc(3,4) by (simp add: dl1_def)
  moreover obtain dl' where
      "execute_commands now (map nextdl [Suc a..<Suc a + n] @ rest) (fs, dl1) = execute_commands now rest (fs, dl')"
      "window data (Suc a + n) t b fs dl'"
      "dl_lastBlockActivityTime dl' = (if n = 0 then dl_lastBlockActivityTime dl1 else now)"
    using Suc(1) [OF w] Suc(3-5) by auto
  moreover have "[a..<a + Suc n] = a # [Suc a..<Suc a + n]" by (simp add: upt_rec [of a] del: upt_Suc)
  moreover have "dl_lastBlockActivityTime dl1 = now" by (simp add: dl1_def)
  ultimately show ?case by (intro exI [of _ dl']) (simp del: upt_Suc)
qed auto

lemma commands_close:
  assumes w: "window data a t b fs dl" and t: "t = Suc (nblocks data)" and small: "nblocks data < 1000000"
  shows "\<exists>fs' dl'. execute_commands now (map nextdl [a..<Suc (nblocks data)]) (fs, dl) = Done (fs', dl') \<and>
    dl_fileName dl' = [] \<and> dl_fileHandle dl' = 0"
proof -
  have a: "a \<le> nblocks data" using w by (simp add: window_def)
  obtain dl1 where before: "execute_commands now (map nextdl [a..<nblocks data] @ [nextdl (nblocks data)]) (fs, dl) =
      execute_commands now [nextdl (nblocks data)] (fs, dl1)" and w1: "window data (nblocks data) t b fs dl1"
    using commands_acknowledge [OF w _ _ small, of "nblocks data - a" now "[nextdl (nblocks data)]"] a t by auto
  have "\<exists>fd. handle_at fs (dl_fileHandle dl1) = Some fd"
    using w1 by (auto simp: window_def reading_def)
  then obtain fs' dl' where close: "SV_CloseDownload fs dl1 = Some (fs', dl')" "dl_fileName dl' = []" "dl_fileHandle dl' = 0"
    by (cases "dl_fileHandle dl1 = 0") (auto simp: SV_CloseDownload_def FS_FCloseFile_def)
  have "execute_commands now [nextdl (nblocks data)] (fs, dl1) = Done (fs', dl')"
    using command_nextdl [OF w1 _ small, of now] t close(1) by simp
  then show ?thesis using before close a by (simp add: upt_Suc_append)
qed

lemma commands_retransmit:
  assumes "window data a t b fs dl" "nblocks data < 1000000" "0 < n"
  shows "\<exists>dl'. execute_commands now (replicate n (retransdl a)) (fs, dl) = Done (fs, dl') \<and> window data a a b fs dl' \<and>
    dl_lastBlockActivityTime dl' = dl_lastBlockActivityTime dl"
  using assms
proof (induction n arbitrary: t dl)
  case (Suc n)
  define dl1 where "dl1 = dl\<lparr>dl_nextTransmitBlock := int a\<rparr>"
  have a: "dl_nextAcknowledgmentBlock dl = int a" "a \<le> nblocks data" "a \<le> b" using Suc(2) by (auto simp: window_def)
  have "parse_int (decimal (int a)) = int a" using a(2) Suc(3) by (intro parse_decimal) auto
  then have step: "execute_command now (retransdl a) (fs, dl) = Some (fs, dl1, Handled)"
    using a(1) by (simp add: execute_command_def words_of_command SV_RetransmitDownload_f_def dl1_def)
  have w1: "window data a a b fs dl1" using window_transmit(1) [OF Suc(2), of a] a(3) by (simp add: dl1_def)
  show ?case
  proof (cases "n = 0")
    case True
    then show ?thesis using step w1 by (simp add: dl1_def)
  next
    case False
    then show ?thesis using Suc(1) [OF w1 Suc(3)] step by (auto simp: dl1_def)
  qed
qed simp

section \<open>The rate\<close>

lemma block_budget_pos:
  assumes "0 \<le> rate" "0 \<le> snapshotMsec" "rate * snapshotMsec < 2147483648"
  shows "1 \<le> block_budget rate snapshotMsec"
proof (cases "rate = 0")
  case False
  have "i32 (rate * snapshotMsec) = rate * snapshotMsec"
    using assms mult_nonneg_nonneg [of rate snapshotMsec] by (intro i32_id) linarith+
  then have per: "i32 (rate * snapshotMsec) sdiv 1000 = rate * snapshotMsec div 1000" using assms by (simp add: sdiv_pos)
  define p where "p = rate * snapshotMsec div 1000"
  have nonneg: "0 \<le> rate * snapshotMsec" using assms by simp
  have "p \<le> 2147483647 div 1000" using zdiv_mono1 [of "rate * snapshotMsec" 2147483647 1000] assms by (simp add: p_def)
  then have p: "0 \<le> p" "p \<le> 2147483" using pos_imp_zdiv_nonneg_iff [of 1000] nonneg by (simp_all add: p_def)
  then have "block_budget rate snapshotMsec = (p + 2048) div 2048"
    using False per by (simp add: block_budget_def Let_def i32_id sdiv_pos flip: p_def)
  then show ?thesis using p by simp
qed (simp add: block_budget_def)

lemma download_rate_le:
  "0 \<le> rate \<Longrightarrow> 0 \<le> fst (download_rate vars rate) \<and> fst (download_rate vars rate) \<le> rate"
  by (auto simp: download_rate_def Let_def)

definition client_ok :: "client_t \<Rightarrow> bool" where
  "client_ok client \<longleftrightarrow> 0 \<le> c_rate client \<and> 0 \<le> c_snapshotMsec client \<and> c_rate client * c_snapshotMsec client < 2147483648"

lemma budget_pos: "client_ok client \<Longrightarrow> 1 \<le> block_budget (fst (download_rate vars (c_rate client))) (c_snapshotMsec client)"
  using download_rate_le [of "c_rate client" vars]
    mult_right_mono [of "fst (download_rate vars (c_rate client))" "c_rate client" "c_snapshotMsec client"]
  by (auto simp: client_ok_def intro!: block_budget_pos)

section \<open>A message\<close>

lemma length_burst: "n \<le> length (burst data s n) \<and> length (burst data s n) \<le> 2057 * n"
proof (induction n arbitrary: s)
  case (Suc n)
  have "1 \<le> length (wire data s)" by (simp add: wire_def)
  moreover note Suc [of "Suc s"] length_wire [of data s]
  ultimately show ?case by (simp add: burst_simps)
qed (simp add: burst_simps)

lemma send_window_sends:
  assumes w: "window data a t b fs dl" and ok: "client_ok client" and small: "nblocks data < 1000000"
    and m: "builds m []" "16456 \<le> m_maxsize m"
  shows "\<exists>client' m' fs' vars' s n b'. send_window vars services client fs dl m = Done (client', m', fs', vars') \<and>
    client_ok client' \<and> window data a (s + n) b' fs' (c_download client') \<and>
    builds m' (burst data s n) \<and> m_maxsize m' = m_maxsize m \<and> n \<le> 8 \<and> a \<le> s \<and>
    (n = 0 \<longrightarrow> s = t \<and> t \<noteq> a \<and> dl_lastBlockActivityTime (c_download client') = dl_lastBlockActivityTime dl \<and>
       i32 (dv_realTime vars - dl_lastBlockActivityTime dl) \<le> 1000) \<and>
    (0 < n \<longrightarrow> dl_lastBlockActivityTime (c_download client') = dv_realTime vars \<and> (s = a \<or> s = t))"
proof -
  obtain fs1 dl1 where filled: "fill_window services fs dl = Done (fs1, dl1)"
      "window data a t (max b (min (a + 8) (nblocks data))) fs1 dl1"
      "dl_lastBlockActivityTime dl1 = dl_lastBlockActivityTime dl"
    using fill_window_fills [OF w small, of services] by blast
  define b' where "b' = min (a + 8) (Suc (nblocks data))"
  obtain dl2 where queued: "queue_eof dl1 = Some dl2" "window data a t b' fs1 dl2"
      "dl_lastBlockActivityTime dl2 = dl_lastBlockActivityTime dl1"
    using queue_eof_queues [OF filled(2) small] unfolding b'_def by auto
  have a: "a \<le> nblocks data" "a \<le> t" using w by (simp_all add: window_def)
  then have pending: "a < b'" by (simp add: b'_def)
  obtain rate vars1 where rate: "download_rate vars (c_rate client) = (rate, vars1)" by fastforce
  define k where "k = nat (block_budget rate (c_snapshotMsec client))"
  have k: "0 < k" using budget_pos [OF ok, of vars] rate by (simp add: k_def)
  obtain dl3 m' s n where sent: "transmit_blocks k (dv_realTime vars) dl2 m = Some (dl3, m')"
      "window data a (s + n) b' fs1 dl3" "builds m' (burst data s n)" "m_maxsize m' = m_maxsize m" "n \<le> 8"
      "n = 0 \<longrightarrow> s = t \<and> dl_lastBlockActivityTime dl3 = dl_lastBlockActivityTime dl2 \<and>
         t = b' \<and> i32 (dv_realTime vars - dl_lastBlockActivityTime dl2) \<le> 1000"
      "0 < n \<longrightarrow> dl_lastBlockActivityTime dl3 = dv_realTime vars \<and> s = (if t = b' then a else t)"
    using transmit_window [OF queued(2) small pending k m, of "dv_realTime vars"] by blast
  have "send_window vars services client fs dl m = Done (client\<lparr>c_download := dl3\<rparr>, m', fs1, vars1)"
    using filled(1) queued(1) sent(1) rate by (simp add: send_window_def k_def)
  moreover have "client_ok (client\<lparr>c_download := dl3\<rparr>)" using ok by (simp add: client_ok_def)
  moreover have "a \<le> s" using sent(6,7) a by (cases "n = 0") (auto split: if_splits)
  ultimately show ?thesis
    using sent pending queued(3) filled(3)
    by (intro exI [of _ "client\<lparr>c_download := dl3\<rparr>"] exI [of _ m'] exI [of _ fs1] exI [of _ vars1] exI [of _ s]
        exI [of _ n] exI [of _ b']) auto
qed

section \<open>A round\<close>

text \<open>
  A download under way at the server and at the client: \<open>a\<close> blocks acknowledged, all of them in the
  client's file. The server's next message comes from \<open>send_window\<close>, with the file open.
\<close>

definition underway ::
    "'z archive_services \<Rightarrow> 8 word list \<Rightarrow> string \<Rightarrow> string \<Rightarrow> nat \<Rightarrow> nat \<Rightarrow> int \<Rightarrow> 'z session \<Rightarrow> bool" where
  "underway services data name temp a t since = (\<lambda>(vars, fs, client, cd).
     client_ok client \<and> receiving data name temp a cd \<and>
     (\<exists>b fs1 dl1. window data a t b fs1 dl1 \<and> dl_lastBlockActivityTime dl1 = since \<and>
        (\<forall>now m. SV_WriteDownloadToClient (vars\<lparr>dv_realTime := now\<rparr>) services fs client m =
                 send_window (vars\<lparr>dv_realTime := now\<rparr>) services client fs1 dl1 m)))"

definition arrived :: "8 word list \<Rightarrow> string \<Rightarrow> string \<Rightarrow> 'z session \<Rightarrow> bool" where
  "arrived data name temp = (\<lambda>(vars, fs, client, cd).
     dl_fileName (c_download client) = [] \<and> dl_fileHandle (c_download client) = 0 \<and> received_all data name temp cd)"

lemma underwayI:
  assumes "window data a t b fs (c_download client)" "client_ok client" "receiving data name temp a cd"
  shows "underway services data name temp a t (dl_lastBlockActivityTime (c_download client)) (vars, fs, client, cd)"
proof -
  have "dl_fileName (c_download client) \<noteq> []" "\<not> dl_redirectAcknowledged (c_download client)"
      "dl_fileHandle (c_download client) \<noteq> 0"
    using assms(1) by (auto simp: window_def reading_def)
  then show ?thesis unfolding underway_def
    using assms by (auto simp: SV_WriteDownloadToClient_def Let_def intro!: exI [of _ b] exI [of _ fs])
qed

lemma round_sends:
  assumes u: "underway services data name temp a t since (vars, fs, client, cd)" and small: "nblocks data < 1000000"
    and buffer: "32768 \<le> length buffer"
  shows "\<exists>client' m' fs' vars' s n b'.
    SV_WriteDownloadToClient (vars\<lparr>dv_realTime := now\<rparr>) services fs client (MSG_Init buffer 32768) =
      Done (client', m', fs', vars') \<and>
    client_ok client' \<and> window data a (s + n) b' fs' (c_download client') \<and>
    builds m' (burst data s n) \<and> m_maxsize m' = 32768 \<and> n \<le> 8 \<and> a \<le> s \<and>
    (n = 0 \<longrightarrow> s = t \<and> t \<noteq> a \<and> dl_lastBlockActivityTime (c_download client') = since \<and> i32 (now - since) \<le> 1000) \<and>
    (0 < n \<longrightarrow> dl_lastBlockActivityTime (c_download client') = now \<and> (s = a \<or> s = t))"
proof -
  obtain b fs1 dl1 where w: "window data a t b fs1 dl1" "dl_lastBlockActivityTime dl1 = since" "client_ok client"
    and sends: "\<And>now m. SV_WriteDownloadToClient (vars\<lparr>dv_realTime := now\<rparr>) services fs client m =
                 send_window (vars\<lparr>dv_realTime := now\<rparr>) services client fs1 dl1 m"
    using u by (auto simp: underway_def)
  have init: "builds (MSG_Init buffer 32768) []" "16456 \<le> m_maxsize (MSG_Init buffer 32768)"
      "m_maxsize (MSG_Init buffer 32768) = 32768"
    using builds_Init [of 32768 buffer] buffer by (simp_all add: MSG_Init_def)
  show ?thesis
    using send_window_sends [OF w(1,3) small init(1,2), of "vars\<lparr>dv_realTime := now\<rparr>" services]
    unfolding sends w(2) init(3) by simp
qed

lemma round_lost:
  assumes "underway services data name temp a t since st" "nblocks data < 1000000" "32768 \<le> length buffer"
  shows "\<exists>st' t' since'. download_round services clsv buffer blockData (now, False) st = Done st' \<and>
    underway services data name temp a t' since' st' \<and> (since' = since \<or> since' = now)"
proof -
  obtain vars fs client cd where st: "st = (vars, fs, client, cd)" by (cases st) auto
  have r: "receiving data name temp a cd" using assms(1) by (simp add: st underway_def)
  obtain client' m' fs' vars' s n b' where sent:
    "SV_WriteDownloadToClient (vars\<lparr>dv_realTime := now\<rparr>) services fs client (MSG_Init buffer 32768) =
      Done (client', m', fs', vars')"
    "client_ok client'" "window data a (s + n) b' fs' (c_download client')"
    "n = 0 \<longrightarrow> dl_lastBlockActivityTime (c_download client') = since"
    "0 < n \<longrightarrow> dl_lastBlockActivityTime (c_download client') = now"
    using round_sends [OF assms(1) [unfolded st] assms(2,3), of now] by blast
  have "underway services data name temp a (s + n) (dl_lastBlockActivityTime (c_download client')) (vars', fs', client', cd)"
    by (rule underwayI [OF sent(3,2) r])
  moreover have "download_round services clsv buffer blockData (now, False) st = Done (vars', fs', client', cd)"
    using sent(1) by (simp add: st download_round_def)
  ultimately show ?thesis using sent(4,5) by (cases "n = 0") auto
qed

lemma receiving_commands: "receiving data name temp j (cd\<lparr>cd_commands := cs\<rparr>) = receiving data name temp j cd"
  by (simp add: receiving_def)

lemma round_parses:
  assumes sent: "builds m (burst data s n)" "m_maxsize m = 32768" "n \<le> 8" "s + n \<le> Suc (nblocks data)"
    and room: "2048 \<le> length blockData" and small: "nblocks data \<le> 32767"
  shows "\<exists>m2. MSG_WriteByte m 8 = Some m2 \<and>
    parse_replies (Suc (nat (m_cursize m2))) clsv blockData cd (MSG_BeginReading m2) = take_blocks clsv data cd [s..<s + n]"
proof -
  define m2 where "m2 = put_bytes [8] m"
  have len: "n \<le> length (burst data s n)" "length (burst data s n) \<le> 16456"
    using length_burst [where n = n and data = data and s = s] sent(3) by auto
  have fits: "int (length (burst data s n)) + 1 \<le> m_maxsize m" using len(2) sent(2) by simp
  have byte: "MSG_WriteByte m 8 = Some m2" using builds_WriteByte [OF sent(1) fits, of 8] by (simp add: m2_def)
  have b2: "builds m2 (burst data s n @ [8])" unfolding m2_def by (rule builds_put [OF sent(1)]) (use fits in simp)
  have "stream (MSG_BeginReading m2) (burst data s n @ [8])"
    using builds_packet [OF b2] builds_cursize [OF b2] len(2) by (intro stream_start) (simp_all add: nat_add_distrib)
  moreover have "n < Suc (nat (m_cursize m2))" using builds_cursize [OF b2] len(1) by simp
  ultimately show ?thesis using byte parse_burst [OF _ room sent(4) small] by blast
qed

lemma round_delivered:
  assumes u: "underway services data name temp a t since st" and small: "nblocks data \<le> 32767"
    and some: "0 < nblocks data" and buffers: "32768 \<le> length buffer" "2048 \<le> length blockData"
    and made: "sv_create clsv temp"
  shows "\<exists>st'. download_round services clsv buffer blockData (now, True) st = Done st' \<and>
    (arrived data name temp st' \<or>
     (\<exists>a' t' since'. underway services data name temp a' t' since' st' \<and> (since' = since \<or> since' = now) \<and> a \<le> a' \<and>
        (t = a \<longrightarrow> a < a') \<and> (1000 < i32 (now - since) \<longrightarrow> a < a' \<or> t' = a')))"
proof -
  have small': "nblocks data < 1000000" using small by simp
  obtain vars fs client cd where st: "st = (vars, fs, client, cd)" by (cases st) auto
  define cd0 where "cd0 = cd\<lparr>cd_commands := []\<rparr>"
  have r: "receiving data name temp a cd0" using u by (simp add: st underway_def cd0_def receiving_commands)
  obtain client1 m fs1 vars1 s n b where sent:
    "SV_WriteDownloadToClient (vars\<lparr>dv_realTime := now\<rparr>) services fs client (MSG_Init buffer 32768) =
      Done (client1, m, fs1, vars1)"
    "client_ok client1" and w: "window data a (s + n) b fs1 (c_download client1)"
    and m: "builds m (burst data s n)" "m_maxsize m = 32768" "n \<le> 8" and s: "a \<le> s"
    and idle: "n = 0 \<longrightarrow> s = t \<and> t \<noteq> a \<and> dl_lastBlockActivityTime (c_download client1) = since \<and> i32 (now - since) \<le> 1000"
    and busy: "0 < n \<longrightarrow> dl_lastBlockActivityTime (c_download client1) = now \<and> (s = a \<or> s = t)"
    using round_sends [OF u [unfolded st] small' buffers(1), of now] by blast
  have bound: "s + n \<le> Suc (nblocks data)" using w by (simp add: window_def)
  obtain m2 where m2: "MSG_WriteByte m 8 = Some m2"
      "parse_replies (Suc (nat (m_cursize m2))) clsv blockData cd0 (MSG_BeginReading m2) = take_blocks clsv data cd0 [s..<s + n]"
    using round_parses [OF m bound buffers(2) small] by blast
  have round: "download_round services clsv buffer blockData (now, True) st = Done (vars1, fs2, client1\<lparr>c_download := dl\<rparr>, cd1)"
    if "take_blocks clsv data cd0 [s..<s + n] = Done cd1"
      "execute_commands now (cd_commands cd1) (fs1, c_download client1) = Done (fs2, dl)" for cd1 fs2 dl
    using sent(1) m2 that by (simp add: st download_round_def cd0_def)
  have ok: "client_ok (client1\<lparr>c_download := dl\<rparr>)" for dl using sent(2) by (simp add: client_ok_def)
  show ?thesis
  proof (cases "s = a")
    case True
    then have n: "0 < n" using idle by (cases n) auto
    show ?thesis
    proof (cases "a + n \<le> nblocks data")
      case True
      obtain cd1 where cd1: "take_blocks clsv data cd0 [s..<s + n] = Done cd1" "receiving data name temp (a + n) cd1"
          "cd_commands cd1 = map nextdl [a..<a + n]"
        using take_blocks_accepts [OF r made True small'] \<open>s = a\<close> by (auto simp: cd0_def)
      obtain dl where dl: "execute_commands now (map nextdl [a..<a + n] @ []) (fs1, c_download client1) = execute_commands now [] (fs1, dl)"
          "window data (a + n) (s + n) b fs1 dl" "dl_lastBlockActivityTime dl = now"
        using commands_acknowledge [OF w _ True small', of now "[]"] \<open>s = a\<close> n by auto
      have "underway services data name temp (a + n) (s + n) (dl_lastBlockActivityTime (c_download (client1\<lparr>c_download := dl\<rparr>)))
          (vars1, fs1, client1\<lparr>c_download := dl\<rparr>, cd1)"
        by (rule underwayI) (use dl(2) ok cd1(2) in auto)
      moreover have "download_round services clsv buffer blockData (now, True) st = Done (vars1, fs1, client1\<lparr>c_download := dl\<rparr>, cd1)"
        using round [OF cd1(1)] dl(1) cd1(3) by simp
      ultimately show ?thesis using dl(3) n
        by (intro exI [of _ "(vars1, fs1, client1\<lparr>c_download := dl\<rparr>, cd1)"] conjI disjI2 exI [of _ "a + n"]
            exI [of _ "s + n"] exI [of _ now]) auto
    next
      case False
      then have all: "s + n = Suc (nblocks data)" using bound \<open>s = a\<close> by simp
      have "a \<le> nblocks data" using w by (simp add: window_def)
      then obtain cd1 where cd1: "take_blocks clsv data cd0 [s..<s + n] = Done cd1" "received_all data name temp cd1"
          "cd_commands cd1 = map nextdl [a..<Suc (nblocks data)]"
        using take_blocks_completes [OF r made _ some small'] \<open>s = a\<close> unfolding all by (auto simp: cd0_def)
      obtain fs2 dl where dl: "execute_commands now (map nextdl [a..<Suc (nblocks data)]) (fs1, c_download client1) = Done (fs2, dl)"
          "dl_fileName dl = []" "dl_fileHandle dl = 0"
        using commands_close [OF w all small'] by blast
      have "download_round services clsv buffer blockData (now, True) st = Done (vars1, fs2, client1\<lparr>c_download := dl\<rparr>, cd1)"
        by (rule round [OF cd1(1)]) (use dl(1) cd1(3) in simp)
      then show ?thesis using dl cd1(2) by (auto simp: arrived_def)
    qed
  next
    case False
    then have later: "a < s" "t \<noteq> a" using s busy idle by (cases n; auto)+
    obtain cd1 where cd1: "take_blocks clsv data cd0 [s..<s + n] = Done cd1" "receiving data name temp a cd1"
        "cd_commands cd1 = replicate n (retransdl a)"
      using take_blocks_ignores [OF r later(1)] by (auto simp: cd0_def)
    have "\<exists>dl t'. execute_commands now (replicate n (retransdl a)) (fs1, c_download client1) = Done (fs1, dl) \<and>
        window data a t' b fs1 dl \<and> dl_lastBlockActivityTime dl = dl_lastBlockActivityTime (c_download client1) \<and> (0 < n \<longrightarrow> t' = a)"
    proof (cases "n = 0")
      case False
      then show ?thesis using commands_retransmit [OF w small', of n now] by auto
    qed (use w in auto)
    then obtain dl t' where dl: "execute_commands now (replicate n (retransdl a)) (fs1, c_download client1) = Done (fs1, dl)"
        "window data a t' b fs1 dl" "dl_lastBlockActivityTime dl = dl_lastBlockActivityTime (c_download client1)" "0 < n \<longrightarrow> t' = a"
      by blast
    have "underway services data name temp a t' (dl_lastBlockActivityTime (c_download (client1\<lparr>c_download := dl\<rparr>)))
        (vars1, fs1, client1\<lparr>c_download := dl\<rparr>, cd1)"
      by (rule underwayI) (use dl(2) ok cd1(2) in auto)
    moreover have "download_round services clsv buffer blockData (now, True) st = Done (vars1, fs1, client1\<lparr>c_download := dl\<rparr>, cd1)"
      by (rule round [OF cd1(1)]) (use dl(1) cd1(3) in simp)
    ultimately show ?thesis using dl(3,4) idle busy later(2) by (cases "n = 0") auto
  qed
qed

section \<open>A session over a lossy connection\<close>

text \<open>
  How often the connection gives the download a chance: two messages in a row that arrive, the first
  more than a second after its predecessor.
\<close>

fun chances :: "int \<Rightarrow> (int \<times> bool) list \<Rightarrow> nat" where
  "chances before [] = 0"
| "chances before [r] = 0"
| "chances before ((now, d) # (later, e) # rs) =
     (if d \<and> e \<and> 1000 < now - before then Suc (chances later rs) else chances now ((later, e) # rs))"

fun clock_runs :: "int \<Rightarrow> (int \<times> bool) list \<Rightarrow> bool" where
  "clock_runs before [] \<longleftrightarrow> True"
| "clock_runs before ((now, d) # rs) \<longleftrightarrow> before \<le> now \<and> now < 2147483648 \<and> clock_runs now rs"

lemma round_arrived:
  assumes "arrived data name temp st" "32768 \<le> length buffer"
  shows "\<exists>st'. download_round services clsv buffer blockData r st = Done st' \<and> arrived data name temp st'"
proof -
  obtain vars fs client cd now d where st: "st = (vars, fs, client, cd)" "r = (now, d)" by (cases st, cases r) auto
  have gone: "dl_fileName (c_download client) = []" using assms(1) by (simp add: st arrived_def)
  have sent: "SV_WriteDownloadToClient (vars\<lparr>dv_realTime := now\<rparr>) services fs client (MSG_Init buffer 32768) =
      Done (client, MSG_Init buffer 32768, fs, vars\<lparr>dv_realTime := now\<rparr>)"
    using gone by (simp add: SV_WriteDownloadToClient_def)
  show ?thesis
  proof (cases d)
    case False
    then show ?thesis using sent assms(1) by (simp add: st download_round_def arrived_def)
  next
    case True
    define m where "m = put_bytes [8] (MSG_Init buffer 32768)"
    have init: "builds (MSG_Init buffer 32768) []" "m_maxsize (MSG_Init buffer 32768) = 32768"
      using builds_Init [of 32768 buffer] assms(2) by (simp_all add: MSG_Init_def)
    have byte: "MSG_WriteByte (MSG_Init buffer 32768) 8 = Some m"
      using builds_WriteByte [OF init(1), of 8] init(2) by (simp add: m_def)
    have m: "builds m [8]" unfolding m_def using builds_put [OF init(1), of "[8]"] init(2) by simp
    have "stream (MSG_BeginReading m) [8]"
      using builds_packet [OF m] builds_cursize [OF m] by (intro stream_start) simp_all
    then have "MSG_ReadByte (MSG_BeginReading m) = Some (8, skip 1 (MSG_BeginReading m))"
      using stream_ReadByte [of "MSG_BeginReading m" 8 "[]"] by simp
    then have "parse_replies (Suc (nat (m_cursize m))) clsv blockData (cd\<lparr>cd_commands := []\<rparr>) (MSG_BeginReading m) =
        Done (cd\<lparr>cd_commands := []\<rparr>)" by simp
    then show ?thesis using sent byte True assms(1)
      by (simp add: st download_round_def arrived_def received_all_def)
  qed
qed

lemma rounds_arrived:
  assumes "arrived data name temp st" "32768 \<le> length buffer"
  shows "\<exists>st'. download_rounds services clsv buffer blockData rs st = Done st' \<and> arrived data name temp st'"
  using assms(1)
proof (induction rs arbitrary: st)
  case (Cons r rs)
  then show ?case using round_arrived [OF Cons(2) assms(2), of services clsv blockData r] by auto
qed simp

lemma clock_i32:
  "0 \<le> since \<Longrightarrow> since \<le> before \<Longrightarrow> before \<le> now \<Longrightarrow> now < 2147483648 \<Longrightarrow> i32 (now - since) = now - since"
  by (intro i32_id) auto

text \<open>What any session comes to: each chance brings at least one block more, or the end.\<close>

lemma session_progress:
  assumes "underway services data name temp a t since st" "0 \<le> since" "since \<le> before" "clock_runs before rs"
    and small: "nblocks data \<le> 32767" and some: "0 < nblocks data"
    and buffers: "32768 \<le> length buffer" "2048 \<le> length blockData" and made: "sv_create clsv temp"
  shows "\<exists>st'. download_rounds services clsv buffer blockData rs st = Done st' \<and>
    (arrived data name temp st' \<or>
     (\<exists>a' t' since'. underway services data name temp a' t' since' st' \<and> a + chances before rs \<le> a'))"
  using assms(1-4)
proof (induction before rs arbitrary: a t since st rule: chances.induct)
  case (3 before now d later e rs)
  have small': "nblocks data < 1000000" using small by simp
  let ?done = "\<lambda>n. \<exists>st'. download_rounds services clsv buffer blockData ((now, d) # (later, e) # rs) st = Done st' \<and>
    (arrived data name temp st' \<or> (\<exists>a' t' since'. underway services data name temp a' t' since' st' \<and> n \<le> a'))"
  have clock: "before \<le> now" "now < 2147483648" "now \<le> later" "later < 2147483648" "clock_runs later rs"
      "clock_runs now ((later, e) # rs)"
    using 3(6) by auto
  have first: "\<exists>st1. download_round services clsv buffer blockData (now, d) st = Done st1 \<and>
    (arrived data name temp st1 \<or>
     (\<exists>a1 t1 since1. underway services data name temp a1 t1 since1 st1 \<and> 0 \<le> since1 \<and> since1 \<le> now \<and> a \<le> a1 \<and>
        (d \<and> 1000 < now - before \<longrightarrow> a < a1 \<or> t1 = a1)))"
  proof (cases d)
    case True
    have "i32 (now - since) = now - since" using clock_i32 [OF 3(4,5)] clock(1,2) by simp
    then show ?thesis
      using round_delivered [OF 3(3) small some buffers made, of now] True 3(4,5) clock(1) by fastforce
  next
    case False
    then show ?thesis using round_lost [OF 3(3) small' buffers(1), of clsv blockData now] 3(4,5) clock(1) by fastforce
  qed
  then obtain st1 where st1: "download_round services clsv buffer blockData (now, d) st = Done st1" and
    alt: "arrived data name temp st1 \<or>
     (\<exists>a1 t1 since1. underway services data name temp a1 t1 since1 st1 \<and> 0 \<le> since1 \<and> since1 \<le> now \<and> a \<le> a1 \<and>
        (d \<and> 1000 < now - before \<longrightarrow> a < a1 \<or> t1 = a1))" by blast
  from alt show ?case
  proof
    assume "arrived data name temp st1"
    then show ?thesis using rounds_arrived [OF _ buffers(1), of data name temp st1 services clsv blockData "(later, e) # rs"] st1
      by auto
  next
    assume "\<exists>a1 t1 since1. underway services data name temp a1 t1 since1 st1 \<and> 0 \<le> since1 \<and> since1 \<le> now \<and> a \<le> a1 \<and>
        (d \<and> 1000 < now - before \<longrightarrow> a < a1 \<or> t1 = a1)"
    then obtain a1 t1 since1 where u1: "underway services data name temp a1 t1 since1 st1" "0 \<le> since1" "since1 \<le> now" "a \<le> a1"
        "d \<and> 1000 < now - before \<longrightarrow> a < a1 \<or> t1 = a1" by blast
    show ?thesis
    proof (cases "d \<and> e \<and> 1000 < now - before")
      case False
      then show ?thesis using 3(2) [OF False u1(1-3) clock(6)] st1 u1(4) by fastforce
    next
      case True
      obtain st2 where st2: "download_round services clsv buffer blockData (later, True) st1 = Done st2" and
        alt2: "arrived data name temp st2 \<or>
         (\<exists>a2 t2 since2. underway services data name temp a2 t2 since2 st2 \<and> (since2 = since1 \<or> since2 = later) \<and> a1 \<le> a2 \<and>
           (t1 = a1 \<longrightarrow> a1 < a2))"
        using round_delivered [OF u1(1) small some buffers made, of later] by blast
      from alt2 show ?thesis
      proof
        assume "arrived data name temp st2"
        then show ?thesis using rounds_arrived [OF _ buffers(1), of data name temp st2 services clsv blockData rs] st1 st2 True
          by auto
      next
        assume "\<exists>a2 t2 since2. underway services data name temp a2 t2 since2 st2 \<and> (since2 = since1 \<or> since2 = later) \<and> a1 \<le> a2 \<and>
           (t1 = a1 \<longrightarrow> a1 < a2)"
        then obtain a2 t2 since2 where u2: "underway services data name temp a2 t2 since2 st2" "0 \<le> since2" "since2 \<le> later"
            "Suc a \<le> a2"
          using u1 True clock(3) by fastforce
        show ?thesis using 3(1) [OF True u2(1-3) clock(5)] st1 st2 True u2(4) by fastforce
      qed
    qed
  qed
next
  case (1 before)
  then show ?case by auto
next
  case (2 before r)
  obtain now d where r: "r = (now, d)" by (cases r)
  have small': "nblocks data < 1000000" using small by simp
  show ?case
  proof (cases d)
    case True
    then show ?thesis using round_delivered [OF 2(1) small some buffers made, of now] r by fastforce
  next
    case False
    then show ?thesis using round_lost [OF 2(1) small' buffers(1), of clsv blockData now] r by fastforce
  qed
qed

section \<open>The start\<close>

lemma handle_found: "FS_HandleForFile fs False = Done h \<Longrightarrow> 1 \<le> h \<and> h \<le> 50"
proof -
  assume "FS_HandleForFile fs False = Done h"
  then have "h \<in> set [1..50]"
    by (auto simp: FS_HandleForFile_def Let_def find_Some_iff in_set_conv_nth simp del: upto.simps set_upto split: option.splits)
  then show ?thesis by simp
qed

lemma open_read_found:
  assumes safe: "coduo_compat_path_is_safe_relative (Some name)" and h: "FS_HandleForFile fs False = Done h"
    and handles: "length (fs_handleFiles fs) = 64" and path: "root_path fs (fs_homepath fs) name = Done path"
    and found: "h_files fs path = Some data" and len: "length data < 2147483648"
  shows "\<exists>fs1. FS_SV_FOpenFileRead services fs name = Done (int (length data), h, fs1) \<and> reading fs1 h data 0"
proof -
  have range: "1 \<le> h" "h \<le> 50" using handle_found [OF h] by auto
  define fd where "fd = (fs_handleFiles fs ! nat h)\<lparr>fh_zipArchive := None, fh_name := take 255 name\<rparr>"
  define fs1 where "fs1 = set_handle fs h fd"
  define f where "f = \<lparr>f_path = path, f_position = 0, f_writing = False\<rparr>"
  define fs2 where "fs2 = set_handle fs1 h (fd\<lparr>fh_ioObject := Some (Stream f), fh_sync := False\<rparr>)"
  have at1: "fs_handleFiles fs1 ! nat h = fd" and same: "fs_homepath fs1 = fs_homepath fs" "h_files fs1 = h_files fs"
      "fs_currentGameDir fs1 = fs_currentGameDir fs" "length (fs_handleFiles fs1) = 64"
    using range handles by (simp_all add: fs1_def set_handle_def)
  have path1: "root_path fs1 (fs_homepath fs1) name = Done path" using path same by (simp add: root_path_def)
  have "fopen_read fs1 path = Some f" using found same by (simp add: fopen_read_def f_def)
  then have tried: "try_root fs1 h (fs_homepath fs1) name = Done fs2"
    using path1 at1 by (simp add: try_root_def fs2_def)
  have at2: "fs_handleFiles fs2 ! nat h = fd\<lparr>fh_ioObject := Some (Stream f), fh_sync := False\<rparr>" "length (fs_handleFiles fs2) = 64"
      "h_files fs2 = h_files fs"
    using range same by (simp_all add: fs2_def set_handle_def)
  then have peek: "handle_at fs2 h = Some (fd\<lparr>fh_ioObject := Some (Stream f), fh_sync := False\<rparr>)"
    using range by (simp add: peek_eq_Some)
  then have "FS_filelength services fs2 h = Some (int (length data))"
    using found at2(3) len by (simp add: FS_filelength_def fd_def FS_FileForHandle_def contents_def f_def i32_id)
  then have "FS_SV_FOpenFileRead services fs name = Done (int (length data), h, fs2)"
    using safe h tried at2(1) by (simp add: FS_SV_FOpenFileRead_def Let_def flip: fd_def fs1_def)
  moreover have "reading fs2 h data 0"
    using peek range found at2(3) by (auto simp: reading_def fd_def f_def)
  ultimately show ?thesis by blast
qed

lemma open_download_found:
  assumes fresh: "dl_fileHandle dl = 0" "\<not> dl_redirectAcknowledged dl" "buffers_wf dl" "dl_fileName dl \<noteq> []"
    and allowed: "dv_allowDownload vars \<noteq> 0" "\<not> FS_idPak (dl_fileName dl) ''main'' (dv_fs_basegame vars)" "dv_wwwDownload vars = 0"
    and opened: "FS_SV_FOpenFileRead services fs (dl_fileName dl) = Done (int (length data), h, fs1)" "reading fs1 h data 0"
    and data: "data \<noteq> []"
  shows "\<exists>dl1. window data 0 0 0 fs1 dl1 \<and> dl_lastBlockActivityTime dl1 = dl_lastBlockActivityTime dl \<and>
    (\<forall>m. open_download vars services fs dl m = Done (Opened dl1 m fs1))"
proof -
  define dl1 where "dl1 = dl\<lparr>dl_redirectActive := False, dl_fileSize := int (length data), dl_fileHandle := h,
      dl_nextTransmitBlock := 0, dl_nextAcknowledgmentBlock := 0, dl_nextBufferedBlock := 0, dl_bytesRead := 0,
      dl_eofBlockQueued := False\<rparr>"
  have "open_download vars services fs dl m = Done (Opened dl1 m fs1)" for m
    using allowed opened data by (simp add: open_download_def open_direct_def dl1_def Let_def)
  moreover have "window data 0 0 0 fs1 dl1"
    using fresh opened by (auto simp: window_def dl1_def buffers_wf_def)
  ultimately show ?thesis by (auto simp: dl1_def)
qed

lemma download_starts:
  assumes begin_server: "SV_BeginDownload_f fs0 remoteName dl0 = Some (fs, c_download client, Handled)"
    and begin_client: "CL_BeginDownload clsv cd0 localName remoteName = Done cd"
    and fresh: "\<not> dl_redirectAcknowledged dl0" "length (dl_blockByteCounts dl0) = 8"
      "cd_downloadFile cd0 = None" "cd_downloadList cd0 = []" "cd_requests cd0 = []"
    and allowed: "dv_allowDownload vars \<noteq> 0" "\<not> FS_idPak (take 63 remoteName) ''main'' (dv_fs_basegame vars)" "dv_wwwDownload vars = 0"
    and disk: "FS_HandleForFile fs False = Done h" "length (fs_handleFiles fs) = 64"
      "coduo_compat_path_is_safe_relative (Some (take 63 remoteName))"
      "root_path fs (fs_homepath fs) (take 63 remoteName) = Done path" "h_files fs path = Some data"
    and data: "data \<noteq> []" "length data < 2147483648" and ok: "client_ok client"
  shows "underway services data (take 255 localName) (take 255 (localName @ ''.tmp'')) 0 0
    (dl_lastBlockActivityTime dl0) (vars, fs, client, cd)"
proof -
  obtain fs1 where opened: "FS_SV_FOpenFileRead services fs (take 63 remoteName) = Done (int (length data), h, fs1)" "reading fs1 h data 0"
    using open_read_found [OF disk(3,1,2,4,5) data(2)] by blast
  have safe: "coduo_compat_path_is_safe_relative (Some remoteName)"
    using begin_server by (auto simp: SV_BeginDownload_f_def bind_eq_Some_conv split: if_splits)
  then have nonempty: "remoteName \<noteq> []" by (auto simp: coduo_compat_path_is_safe_relative_def)
  define dl where "dl = c_download client"
  have dl_eq: "dl = dl0\<lparr>dl_fileHandle := 0, dl_blockData := replicate 8 None, dl_fileName := take 63 remoteName\<rparr>"
    using begin_server
    by (auto simp: SV_BeginDownload_f_def SV_CloseDownload_def bind_eq_Some_conv dl_def split: if_splits)
  have dl: "dl_fileHandle dl = 0" "\<not> dl_redirectAcknowledged dl" "buffers_wf dl" "dl_fileName dl = take 63 remoteName"
      "dl_lastBlockActivityTime dl = dl_lastBlockActivityTime dl0"
    using fresh(1,2) by (auto simp: dl_eq buffers_wf_def)
  obtain dl1 where dl1: "window data 0 0 0 fs1 dl1" "dl_lastBlockActivityTime dl1 = dl_lastBlockActivityTime dl0"
    and opens: "\<And>now m. open_download (vars\<lparr>dv_realTime := now\<rparr>) services fs dl m = Done (Opened dl1 m fs1)"
    using open_download_found [OF dl(1-3), of vars services fs data h fs1] allowed opened data(1) dl(4,5) nonempty
    by (auto simp: open_download_def)
  have "SV_WriteDownloadToClient (vars\<lparr>dv_realTime := now\<rparr>) services fs client m =
      send_window (vars\<lparr>dv_realTime := now\<rparr>) services client fs1 dl1 m" for now m
    using dl opens nonempty by (simp add: SV_WriteDownloadToClient_def Let_def flip: dl_def)
  moreover have "receiving data (take 255 localName) (take 255 (localName @ ''.tmp'')) 0 cd"
    using begin_client fresh(3-5) by (auto simp: CL_BeginDownload_def receiving_def add_command_def split: if_splits)
  ultimately show ?thesis using dl1 ok by (auto simp: underway_def)
qed

text \<open>A file of three bytes, and a session in which one message in between is lost.\<close>

definition sample_disk :: "unit fs_state" where
  "sample_disk = \<lparr>h_files = [''/home/main/z.pk3'' \<mapsto> [1, 2, 3]], h_writable = (\<lambda>p. True),
     fs_handleFiles = replicate 64 zero_handle, fs_homepath = ''/home'', fs_basepath = ''/home'', fs_cdpath = [],
     fs_currentGameDir = ''main''\<rparr>"

definition sample_download :: serverClientDownload_t where
  "sample_download = \<lparr>dl_fileName = [], dl_fileHandle = 0, dl_fileSize = 0, dl_bytesRead = 0, dl_nextAcknowledgmentBlock = 0,
     dl_nextBufferedBlock = 0, dl_nextTransmitBlock = 0, dl_blockData = replicate 8 None, dl_blockByteCounts = replicate 8 0,
     dl_eofBlockQueued = False, dl_lastBlockActivityTime = 0, dl_redirectAllowedByClient = False, dl_redirectUrl = [],
     dl_redirectActive = False, dl_redirectAcknowledged = False, dl_redirectFailed = False\<rparr>"

definition sample_vars :: download_vars where
  "sample_vars = \<lparr>dv_allowDownload = 1, dv_maxRate = 0, dv_pure = 1, dv_wwwDownload = 0, dv_wwwDlDisconnected = 0,
     dv_wwwBaseURL = [], dv_fs_basegame = [], dv_realTime = 0\<rparr>"

definition sample_receiver :: cl_download where
  "sample_receiver = \<lparr>cd_downloadFile = None, cd_downloadBlock = 0, cd_downloadCount = 0, cd_downloadSize = 0,
     cd_downloadFlags = 0, cd_downloadList = [], cd_wwwDownloadActive = False, cd_wwwDownloadAborting = False,
     cd_redirectedList = [], cd_badChecksumList = [], cd_downloadName = [], cd_downloadTempName = [],
     cd_originalDownloadName = [], cd_downloadRestart = False, cd_wwwDownloadDisconnected = False,
     cd_commands = [], cd_requests = []\<rparr>"

definition sample_services :: cl_services where
  "sample_services = \<lparr>sv_is_update = False, sv_build_path = (\<lambda>p. Some p), sv_begin_www = (\<lambda>p u. False), sv_create = (\<lambda>p. True)\<rparr>"

definition sample_archives :: "unit archive_services" where
  "sample_archives = \<lparr>as_tell = (\<lambda>_. 0), as_length = (\<lambda>_. 0), as_read = (\<lambda>_ _. (0, [], ()))\<rparr>"

definition sample_schedule :: "(int \<times> bool) list" where
  "sample_schedule = [(2000, True), (2050, True), (5000, False), (7000, True), (7050, True)]"

definition sample_asker :: client_t where
  "sample_asker = sample_client\<lparr>c_download := sample_download\<lparr>dl_fileName := ''main/z.pk3''\<rparr>, c_rate := 25000, c_snapshotMsec := 50\<rparr>"

lemma sample_asks:
  "SV_BeginDownload_f sample_disk ''main/z.pk3'' sample_download = Some (sample_disk, c_download sample_asker, Handled)"
  by (simp add: SV_BeginDownload_f_def SV_CloseDownload_def sample_download_def sample_asker_def) code_simp

lemma sample_begins:
  "CL_BeginDownload sample_services sample_receiver ''main/z.pk3'' ''main/z.pk3'' = Done (sample_receiver
    \<lparr>cd_downloadName := ''main/z.pk3'', cd_downloadTempName := ''main/z.pk3.tmp'', cd_commands := [''download main/z.pk3'']\<rparr>)"
  by code_simp

lemma sample_pak_allowed: "\<not> FS_idPak (take 63 ''main/z.pk3'') ''main'' (dv_fs_basegame sample_vars)"
  by code_simp

lemma sample_found:
  "FS_HandleForFile sample_disk False = Done 1" "length (fs_handleFiles sample_disk) = 64"
  "coduo_compat_path_is_safe_relative (Some (take 63 ''main/z.pk3''))"
  "root_path sample_disk (fs_homepath sample_disk) (take 63 ''main/z.pk3'') = Done ''/home/main/z.pk3''"
  "h_files sample_disk ''/home/main/z.pk3'' = Some [1, 2, 3]"
  subgoal by code_simp
  subgoal by (simp add: sample_disk_def)
  subgoal by code_simp
  subgoal by code_simp
  subgoal by (simp add: sample_disk_def)
  done

lemma sample_state:
  "\<not> dl_redirectAcknowledged sample_download" "length (dl_blockByteCounts sample_download) = 8"
  "cd_downloadFile sample_receiver = None" "cd_downloadList sample_receiver = []" "cd_requests sample_receiver = []"
  "dv_allowDownload sample_vars \<noteq> 0" "dv_wwwDownload sample_vars = 0"
  "[1, 2, 3 :: 8 word] \<noteq> []" "nblocks [1, 2, 3] \<le> 32767" "client_ok sample_asker"
  "32768 \<le> length (replicate 32768 (0 :: 8 word))" "2048 \<le> length (replicate 2048 (0 :: 8 word))"
  "sv_create sample_services (take 255 (''main/z.pk3'' @ ''.tmp''))"
  "0 \<le> dl_lastBlockActivityTime sample_download" "dl_lastBlockActivityTime sample_download \<le> 0"
  by (simp_all add: sample_download_def sample_receiver_def sample_vars_def nblocks_def client_ok_def sample_asker_def
      sample_services_def)

lemma sample_names:
  "take 255 (''main/z.pk3'' @ ''.tmp'') = ''main/z.pk3.tmp''" "take 255 ''main/z.pk3'' = ''main/z.pk3''"
  by simp_all

lemma sample_chances: "clock_runs 0 sample_schedule" "chances 0 sample_schedule = 2" "nblocks [1, 2, 3] = 1"
  by (simp_all add: sample_schedule_def nblocks_def)



text \<open>
  C11: A download that the connection gives enough chances completes: one more than the file has
  blocks suffice, for a file of at most 32767 blocks. The client then holds the whole file and asks
  to rename it, and the server's handle is closed.
\<close>

theorem download_completes:
  assumes "SV_BeginDownload_f fs0 remoteName dl0 = Some (fs, c_download client, Handled)"
    and "CL_BeginDownload clsv cd0 localName remoteName = Done cd"
    and "\<not> dl_redirectAcknowledged dl0" "length (dl_blockByteCounts dl0) = 8"
      "cd_downloadFile cd0 = None" "cd_downloadList cd0 = []" "cd_requests cd0 = []"
    and "dv_allowDownload vars \<noteq> 0" "\<not> FS_idPak (take 63 remoteName) ''main'' (dv_fs_basegame vars)" "dv_wwwDownload vars = 0"
    and "FS_HandleForFile fs False = Done h" "length (fs_handleFiles fs) = 64"
      "coduo_compat_path_is_safe_relative (Some (take 63 remoteName))"
      "root_path fs (fs_homepath fs) (take 63 remoteName) = Done path" "h_files fs path = Some data"
    and "data \<noteq> []" "nblocks data \<le> 32767" "client_ok client"
    and "32768 \<le> length buffer" "2048 \<le> length blockData" "sv_create clsv (take 255 (localName @ ''.tmp''))"
    and "0 \<le> dl_lastBlockActivityTime dl0" "dl_lastBlockActivityTime dl0 \<le> before" "clock_runs before rs"
    and enough: "nblocks data < chances before rs"
  shows "\<exists>vars' fs' client' cd'. download_rounds services clsv buffer blockData rs (vars, fs, client, cd) =
      Done (vars', fs', client', cd') \<and>
    cd_requests cd' = [RenameDownload (take 255 (localName @ ''.tmp'')) (take 255 localName) data, DownloadsComplete] \<and>
    dl_fileName (c_download client') = [] \<and> dl_fileHandle (c_download client') = 0"
proof -
  have len: "length data < 2147483648" using all_read [of data 32767] assms(17) by simp
  have "0 < nblocks data" using all_read [of data 0] assms(16) by auto
  then obtain st' where st': "download_rounds services clsv buffer blockData rs (vars, fs, client, cd) = Done st'"
    and alt: "arrived data (take 255 localName) (take 255 (localName @ ''.tmp'')) st' \<or>
     (\<exists>a t since. underway services data (take 255 localName) (take 255 (localName @ ''.tmp'')) a t since st' \<and>
        0 + chances before rs \<le> a)"
    using session_progress [OF download_starts [OF assms(1-16) len assms(18)] assms(22-24,17) _ assms(19-21)] by blast
  have "a \<le> nblocks data" if "underway services data name temp a t since st'" for name temp a t since
    using that by (auto simp: underway_def window_def)
  then have "arrived data (take 255 localName) (take 255 (localName @ ''.tmp'')) st'"
    using alt enough by fastforce
  then show ?thesis using st' by (cases st') (auto simp: arrived_def received_all_def)
qed

lemma download_completes_witness:
  "\<exists>vars' fs' client' cd'. download_rounds sample_archives sample_services (replicate 32768 0) (replicate 2048 0)
      sample_schedule (sample_vars, sample_disk, sample_asker, sample_receiver
        \<lparr>cd_downloadName := ''main/z.pk3'', cd_downloadTempName := ''main/z.pk3.tmp'', cd_commands := [''download main/z.pk3'']\<rparr>) =
      Done (vars', fs', client', cd') \<and>
    cd_requests cd' = [RenameDownload ''main/z.pk3.tmp'' ''main/z.pk3'' [1, 2, 3], DownloadsComplete]"
proof -
  have "nblocks [1, 2, 3] < chances 0 sample_schedule" by (simp add: sample_chances)
  from download_completes [OF sample_asks sample_begins sample_state(1-6) sample_pak_allowed sample_state(7) sample_found
      sample_state(8-15) sample_chances(1) this, of sample_archives]
  show ?thesis unfolding sample_names by blast
qed

end
