(* ===== verification/Snapshot_Stream.thy ===== *)
theory Snapshot_Stream
  imports SvSnapshot ClSnapshot DeltaPlayer_Correct
begin

text \<open>
  What the packets of a snapshot are on the wire. \<open>packet_ops\<close> is the merge of two sorted lists of
  records as wire operations; the server's loop writes it, and the client's loop, given an old
  window that holds the one list, ends with a new window that holds the other. Both are proved once
  for the two kinds of record, in the locale \<open>packet_channel\<close>.
\<close>

section \<open>Reading on\<close>

fun plain_op :: "wire_op \<Rightarrow> bool" where
  "plain_op (WBits v n) = True"
| "plain_op (WBit b) = True"
| "plain_op (WByte v) = True"
| "plain_op (WShort v) = True"
| "plain_op (WLong v) = True"
| "plain_op _ = False"

lemma v_int_reads_ok: "reads_ok r x \<Longrightarrow> v_int x = Some (v, r') \<Longrightarrow> read_inv r' \<and> same_buffer r r'"
  by (auto simp: reads_ok_def v_int_Some)

lemma read_op_forward:
  assumes "read_op x r = Some (v, r')" "plain_op x" "read_inv r"
  shows "read_inv r' \<and> same_buffer r r'"
proof (cases x)
  case (WBits k n)
  then show ?thesis using v_int_reads_ok [OF MSG_ReadBits_ok [OF assms(3)], of n v r'] assms(1) by simp
next
  case (WBit b)
  then show ?thesis using v_int_reads_ok [OF MSG_ReadBit_ok [OF assms(3)], of v r'] assms(1) by simp
next
  case (WByte k)
  then show ?thesis using v_int_reads_ok [OF MSG_ReadByte_ok [OF assms(3)], of v r'] assms(1) by simp
next
  case (WShort k)
  then show ?thesis using v_int_reads_ok [OF MSG_ReadShort_ok [OF assms(3)], of v r'] assms(1) by simp
next
  case (WLong k)
  then show ?thesis using v_int_reads_ok [OF MSG_ReadLong_ok [OF assms(3)], of v r'] assms(1) by simp
qed (use assms(2) in simp_all)

lemma sees_forward: "sees r xs r' \<Longrightarrow> list_all plain_op xs \<Longrightarrow> read_inv r \<Longrightarrow> read_inv r' \<and> same_buffer r r'"
proof (induction xs arbitrary: r)
  case Nil
  then show ?case by simp
next
  case (Cons x xs)
  then obtain r1 where r1: "read_op x r = Some (wire_value x, r1)" "sees r1 xs r'" by (auto simp: sees_Cons)
  have "read_inv r1" "same_buffer r r1" using read_op_forward [OF r1(1)] Cons.prems by auto
  then show ?case using Cons.IH [OF r1(2)] Cons.prems(2) same_buffer_trans by auto
qed

lemma plain_byte_ops: "list_all plain_op (byte_ops n v)"
  by (induction n arbitrary: v) simp_all

lemma plain_changed_ops: "list_all plain_op (changed_ops bits v)"
  by (simp add: changed_ops_def float_ops_def integer_ops_def Let_def plain_byte_ops)

lemma plain_fields_ops: "list_all plain_op (fields_ops a b fs)"
  by (induction fs) (simp_all add: field_ops_def plain_changed_ops)

lemma plain_record_ops [simp]: "list_all plain_op (record_ops a b fs)"
  by (simp add: record_ops_def plain_fields_ops)

lemma bits_left_bounds: "read_inv r \<Longrightarrow> 0 \<le> bits_left r \<and> bits_left r < 8 * m_cursize r + 16"
proof -
  assume r: "read_inv r"
  define k where "k = (- m_bit r) mod 8"
  have "k < 8" "0 \<le> k" by (simp_all add: k_def)
  moreover have "bits_left r = 8 * (m_cursize r + 1 - m_readcount r) + k" by (simp add: bits_left_def k_def)
  ultimately show ?thesis using r by (simp add: read_inv_def)
qed

lemma ReadBits_loop_progress:
  "MSG_ReadBits_loop (Suc n) k w r = Some (v, r') \<Longrightarrow> read_inv r \<Longrightarrow> m_readcount r' \<le> m_cursize r' \<Longrightarrow>
   bits_left r' < bits_left r"
proof -
  assume read: "MSG_ReadBits_loop (Suc n) k w r = Some (v, r')" and r: "read_inv r" and in_: "m_readcount r' \<le> m_cursize r'"
  have over: "\<not> m_readcount (read_overflow x) \<le> m_cursize (read_overflow x)" if "read_inv x" for x
    using that by (simp add: read_overflow_def read_inv_def i32_simps)
  show ?thesis
  proof (cases "if m_bit r mod 8 = 0 then next_read_byte r else Some r")
    case None
    then have "r' = read_overflow r" using read by simp
    then show ?thesis using over [OF r] in_ by simp
  next
    case (Some r1)
    have r1: "read_inv r1" using Some next_read_byte_ok [of r r1] r by (auto split: if_splits)
    show ?thesis
    proof (cases "m_bit r1 < 0 \<or> m_bit r1 div 8 \<ge> m_cursize r1")
      case True
      then have "r' = read_overflow r1" using read Some by simp
      then show ?thesis using over [OF r1] in_ by simp
    next
      case False
      note taken = bit_taken [OF Some r]
      from False read Some peek_bit_ok [OF r1] obtain k' w'
        where "MSG_ReadBits_loop n k' w' (r1\<lparr>m_bit := i32 (m_bit r1 + 1)\<rparr>) = Some (v, r')" by auto
      then have "bits_left r' \<le> bits_left (r1\<lparr>m_bit := i32 (m_bit r1 + 1)\<rparr>)"
        using MSG_ReadBits_loop_ok [OF taken(1), of n k' w'] by (simp add: reads_ok_def same_buffer_def)
      then show ?thesis using taken(3) by simp
    qed
  qed
qed

lemma ReadBits_progress:
  "MSG_ReadBits r n = Some (v, r') \<Longrightarrow> 0 < n \<Longrightarrow> read_inv r \<Longrightarrow> m_readcount r' \<le> m_cursize r' \<Longrightarrow>
   bits_left r' < bits_left r"
  using ReadBits_loop_progress [of "nat n - 1" 0 0 r v r'] by (simp add: MSG_ReadBits_def)

section \<open>The server's loop\<close>

text \<open>
  The wire form of a packet: the number that announces a record, the rest of a record given the one
  it is a difference from, what says that a record is gone, and what ends the packet; \<open>wp_same\<close> are
  the pairs that are not sent, and \<open>wp_base\<close> is what a new record is a difference from.
\<close>

record wire_packet =
  wp_head :: "int \<Rightarrow> wire_op list"
  wp_body :: "block \<Rightarrow> block \<Rightarrow> wire_op list"
  wp_gone :: "wire_op list"
  wp_end :: "wire_op list"
  wp_same :: "block \<Rightarrow> block \<Rightarrow> bool"
  wp_base :: "block \<Rightarrow> block"

fun packet_ops :: "wire_packet \<Rightarrow> block list \<Rightarrow> block list \<Rightarrow> wire_op list" where
  "packet_ops P [] [] = []"
| "packet_ops P (a # as) [] = wp_head P (a ! 0) @ wp_gone P @ packet_ops P as []"
| "packet_ops P [] (b # bs) = wp_head P (b ! 0) @ wp_body P (wp_base P b) b @ packet_ops P [] bs"
| "packet_ops P (a # as) (b # bs) =
     (if b ! 0 = a ! 0
      then (if wp_same P a b then [] else wp_head P (b ! 0) @ wp_body P a b) @ packet_ops P as bs
      else if b ! 0 < a ! 0
      then wp_head P (b ! 0) @ wp_body P (wp_base P b) b @ packet_ops P (a # as) bs
      else wp_head P (a ! 0) @ wp_gone P @ packet_ops P as (b # bs))"

text \<open>What the writers of a packet do, for the records of two given lists.\<close>

definition writes_packet :: "wire_packet \<Rightarrow> record_writers \<Rightarrow> block list \<Rightarrow> block list \<Rightarrow> bool" where
  "writes_packet P writers as bs \<longleftrightarrow>
     (\<forall>a\<in>set as. \<forall>b\<in>set bs. \<forall>m. a ! 0 = b ! 0 \<longrightarrow> rw_changed writers (Some a) (Some b) m =
        write_ops (if wp_same P a b then [] else wp_head P (b ! 0) @ wp_body P a b) m) \<and>
     (\<forall>b\<in>set bs. \<forall>m. rw_new writers (b ! 0) (Some b) m =
        write_ops (wp_head P (b ! 0) @ wp_body P (wp_base P b) b) m) \<and>
     (\<forall>a\<in>set as. \<forall>m. rw_gone writers (Some a) m = write_ops (wp_head P (a ! 0) @ wp_gone P) m)"

definition reads_list :: "(int \<Rightarrow> block option option) \<Rightarrow> block list \<Rightarrow> bool" where
  "reads_list at as \<longleftrightarrow> (\<forall>i<length as. at (int i) = Some (Some (as ! i))) \<and> at (int (length as)) = Some None"

definition keyed :: "block list \<Rightarrow> bool" where
  "keyed as \<longleftrightarrow> list_all (\<lambda>a. a \<noteq> [] \<and> 0 \<le> a ! 0 \<and> a ! 0 < 9999) as"

lemma reads_list_key:
  "reads_list at as \<Longrightarrow> keyed as \<Longrightarrow> i \<le> length as \<Longrightarrow>
   at (int i) = Some (if i < length as then Some (as ! i) else None) \<and>
   sort_key (if i < length as then Some (as ! i) else None) = Some (if i < length as then as ! i ! 0 else 9999)"
  by (auto simp: reads_list_def keyed_def list_all_length sort_key_def peek_eq_Some)

lemma emit_records_ops:
  assumes at: "reads_list oldAt as" "reads_list newAt bs" and keys: "keyed as" "keyed bs"
    and writers: "writes_packet P writers as bs"
  shows "i \<le> length as \<Longrightarrow> j \<le> length bs \<Longrightarrow>
    emit_records writers oldAt (int (length as)) newAt (int (length bs)) (int i) (int j) m =
    write_ops (packet_ops P (drop i as) (drop j bs)) m"
proof (induction "length as - i + (length bs - j)" arbitrary: i j m rule: less_induct)
  case less
  note old_at = reads_list_key [OF at(1) keys(1) less.prems(1)]
  note new_at = reads_list_key [OF at(2) keys(2) less.prems(2)]
  have bound: "as ! i ! 0 < 9999" if "i < length as" for i using keys(1) that by (simp add: keyed_def list_all_length)
  have bound': "bs ! j ! 0 < 9999" if "j < length bs" for j using keys(2) that by (simp add: keyed_def list_all_length)
  have suc: "int n + 1 = int (Suc n)" for n by simp
  note step = emit_records.simps [of writers oldAt "int (length as)" newAt "int (length bs)" "int i" "int j"]
  consider (done') "i = length as" "j = length bs" | (old) "i < length as" "j = length bs"
    | (new) "i = length as" "j < length bs" | (both) "i < length as" "j < length bs"
    using less.prems by linarith
  then show ?case
  proof cases
    case done'
    then show ?thesis by (subst step) simp
  next
    case old
    have "emit_records writers oldAt (int (length as)) newAt (int (length bs)) (int (Suc i)) (int j) =
        write_ops (packet_ops P (drop (Suc i) as) (drop j bs))"
      using old by (intro ext less.hyps) auto
    moreover have "rw_gone writers (Some (as ! i)) m = write_ops (wp_head P (as ! i ! 0) @ wp_gone P) m"
      using writers old by (simp add: writes_packet_def)
    ultimately show ?thesis
      using old old_at new_at bound [of i] 
      by (subst step) (simp add: suc Cons_nth_drop_Suc [symmetric] Option.bind_assoc del: of_nat_Suc)
  next
    case new
    have "emit_records writers oldAt (int (length as)) newAt (int (length bs)) (int i) (int (Suc j)) =
        write_ops (packet_ops P (drop i as) (drop (Suc j) bs))"
      using new by (intro ext less.hyps) auto
    moreover have "rw_new writers (bs ! j ! 0) (Some (bs ! j)) m =
        write_ops (wp_head P (bs ! j ! 0) @ wp_body P (wp_base P (bs ! j)) (bs ! j)) m"
      using writers new by (simp add: writes_packet_def)
    ultimately show ?thesis
      using new old_at new_at bound' [of j]
      by (subst step) (simp add: suc Cons_nth_drop_Suc [symmetric] Option.bind_assoc del: of_nat_Suc)
  next
    case both
    have IH: "emit_records writers oldAt (int (length as)) newAt (int (length bs)) (int (Suc i)) (int (Suc j)) =
        write_ops (packet_ops P (drop (Suc i) as) (drop (Suc j) bs))"
      "emit_records writers oldAt (int (length as)) newAt (int (length bs)) (int i) (int (Suc j)) =
        write_ops (packet_ops P (drop i as) (drop (Suc j) bs))"
      "emit_records writers oldAt (int (length as)) newAt (int (length bs)) (int (Suc i)) (int j) =
        write_ops (packet_ops P (drop (Suc i) as) (drop j bs))"
      by ((rule ext, rule less.hyps; use both in simp)+)
    have w: "as ! i ! 0 = bs ! j ! 0 \<Longrightarrow> rw_changed writers (Some (as ! i)) (Some (bs ! j)) m =
        write_ops (if wp_same P (as ! i) (bs ! j) then []
          else wp_head P (bs ! j ! 0) @ wp_body P (as ! i) (bs ! j)) m"
      "rw_new writers (bs ! j ! 0) (Some (bs ! j)) m =
        write_ops (wp_head P (bs ! j ! 0) @ wp_body P (wp_base P (bs ! j)) (bs ! j)) m"
      "rw_gone writers (Some (as ! i)) m = write_ops (wp_head P (as ! i ! 0) @ wp_gone P) m"
      using writers both by (auto simp: writes_packet_def)
    have "drop i as = as ! i # drop (Suc i) as" "drop j bs = bs ! j # drop (Suc j) bs"
      using both by (simp_all add: Cons_nth_drop_Suc)
    then show ?thesis
      using both old_at new_at IH w
      by (subst step) (simp add: suc Option.bind_assoc del: of_nat_Suc)
  qed
qed

section \<open>The client's loop\<close>

text \<open>The number the parser has cached for an old record.\<close>

definition cached :: "block list \<Rightarrow> nat \<Rightarrow> int" where
  "cached as i = (if i < length as then as ! i ! 0 else CL_PARSE_OLD_NUMBER_END)"

definition increasing :: "block list \<Rightarrow> bool" where
  "increasing as \<longleftrightarrow> sorted_wrt (\<lambda>a b. a ! 0 < b ! 0) as"

lemma increasing_nth: "increasing as \<Longrightarrow> j < i \<Longrightarrow> i < length as \<Longrightarrow> as ! j ! 0 < as ! i ! 0"
  by (simp add: increasing_def sorted_wrt_iff_nth_less)

lemma cached_simps [simp]: "i < length as \<Longrightarrow> cached as i = as ! i ! 0" "cached as (length as) = CL_PARSE_OLD_NUMBER_END"
  by (simp_all add: cached_def)

text \<open>Every record of the new list is one of the old list, changed or not, or it is new and fits.\<close>

definition sendable :: "wire_packet \<Rightarrow> (block \<Rightarrow> block \<Rightarrow> bool) \<Rightarrow> int \<Rightarrow> block list \<Rightarrow> block list \<Rightarrow> bool" where
  "sendable P fits limit as bs \<longleftrightarrow> list_all (\<lambda>b. 0 \<le> b ! 0 \<and> b ! 0 < limit \<and>
     list_all (\<lambda>a. a ! 0 = b ! 0 \<longrightarrow> fits a b) as \<and> (b ! 0 \<notin> set (map (\<lambda>a. a ! 0) as) \<longrightarrow> fits (wp_base P b) b)) bs"

text \<open>
  \<open>holds e as n out r st\<close> says that the state \<open>st\<close> of a parse is at \<open>r\<close> in its message, that its old
  window is the list \<open>as\<close>, and that what it has stored so far is \<open>out\<close>, of at most \<open>n\<close> records.
\<close>

locale packet_channel =
  fixes parser :: "'e \<Rightarrow> packet_parser"
    and wire :: "'e \<Rightarrow> wire_packet"
    and holds :: "'e \<Rightarrow> block list \<Rightarrow> nat \<Rightarrow> block list \<Rightarrow> msg_t \<Rightarrow> parse_state \<Rightarrow> bool"
    and fits :: "block \<Rightarrow> block \<Rightarrow> bool"
    and limit :: int
  assumes limit: "limit \<le> 9999"
    and plain: "list_all plain_op (wp_head (wire e) k @ wp_body (wire e) a b @ wp_gone (wire e) @ wp_end (wire e))"
    and count: "holds e as n out r st \<Longrightarrow> pp_count (parser e) = int (length as)"
    and same: "wp_same (wire e) a b \<Longrightarrow> fits a b \<Longrightarrow> a ! 0 = b ! 0 \<Longrightarrow> a = b"
    and cursor: "holds e as n out r st \<Longrightarrow> read_inv r"
    and number: "holds e as n out r st \<Longrightarrow> i < length as \<Longrightarrow>
      pp_number (parser e) st (int i) = Done (as ! i ! 0)"
    and next_number: "holds e as n out r st \<Longrightarrow> sees r (wp_head (wire e) k @ xs) r' \<Longrightarrow> 0 \<le> k \<Longrightarrow> k < limit \<Longrightarrow>
      list_all plain_op xs \<Longrightarrow> m_readcount r' \<le> m_cursize r' \<Longrightarrow>
      \<exists>r1 st1. pp_next (parser e) st = Done (Some k, st1) \<and> holds e as n out r1 st1 \<and> sees r1 xs r' \<and>
        bits_left r1 < bits_left r"
    and next_end: "holds e as n out r st \<Longrightarrow> sees r (wp_end (wire e)) r' \<Longrightarrow>
      \<exists>st1. pp_next (parser e) st = Done (None, st1) \<and> holds e as n out r' st1"
    and keep: "holds e as n out r st \<Longrightarrow> i < length as \<Longrightarrow> length out < n \<Longrightarrow>
      \<exists>st1. pp_delta (parser e) k (Some (int i)) True st = Done st1 \<and> holds e as n (out @ [as ! i]) r st1"
    and change: "holds e as n out r st \<Longrightarrow> i < length as \<Longrightarrow> length out < n \<Longrightarrow> as ! i ! 0 = b ! 0 \<Longrightarrow>
      sees r (wp_body (wire e) (as ! i) b) r' \<Longrightarrow> fits (as ! i) b \<Longrightarrow>
      \<exists>st1. pp_delta (parser e) (b ! 0) (Some (int i)) False st = Done st1 \<and> holds e as n (out @ [b]) r' st1"
    and create: "holds e as n out r st \<Longrightarrow> length out < n \<Longrightarrow> 0 \<le> b ! 0 \<Longrightarrow> b ! 0 < limit \<Longrightarrow>
      sees r (wp_body (wire e) (wp_base (wire e) b) b) r' \<Longrightarrow> fits (wp_base (wire e) b) b \<Longrightarrow>
      \<exists>st1. pp_delta (parser e) (b ! 0) None False st = Done st1 \<and> holds e as n (out @ [b]) r' st1"
    and gone: "holds e as n out r st \<Longrightarrow> i < length as \<Longrightarrow> sees r (wp_gone (wire e)) r' \<Longrightarrow>
      \<exists>st1. pp_delta (parser e) k (Some (int i)) False st = Done st1 \<and> holds e as n out r' st1"
begin

lemma next_cached: "holds e as n out r st \<Longrightarrow> old_number (parser e) st (int i) = Done (cached as i)"
  using count [of e as n out r st] number [of e as n out r st i] by (auto simp: old_number_def cached_def)

lemma copy_pending:
  "holds e as n out r st \<Longrightarrow> c \<le> i \<Longrightarrow> i \<le> length as \<Longrightarrow> length out + (i - c) \<le> n \<Longrightarrow>
   (\<And>j. c \<le> j \<Longrightarrow> j < i \<Longrightarrow> going (as ! j ! 0)) \<Longrightarrow> \<not> going (cached as i) \<Longrightarrow>
   \<exists>st1. copy_old (parser e) going (int c) (cached as c) st = Done (int i, cached as i, st1) \<and>
     holds e as n (out @ take (i - c) (drop c as)) r st1"
proof (induction "i - c" arbitrary: c out st)
  case 0
  then show ?case by (subst copy_old.simps) simp
next
  case (Suc k)
  then have c: "c < i" "c < length as" by auto
  obtain st1 where st1: "pp_delta (parser e) (cached as c) (Some (int c)) True st = Done st1"
      "holds e as n (out @ [as ! c]) r st1"
    using keep [OF Suc.prems(1) c(2)] Suc.prems(4) c(1) by fastforce
  have nxt: "old_number (parser e) st1 (int c + 1) = Done (cached as (Suc c))"
    using next_cached [OF st1(2), of "Suc c"] by (simp add: add.commute)
  have hyps: "k = i - Suc c" "Suc c \<le> i" "length (out @ [as ! c]) + (i - Suc c) \<le> n"
    using Suc.hyps(2) Suc.prems(4) c by auto
  have going: "\<And>j. Suc c \<le> j \<Longrightarrow> j < i \<Longrightarrow> going (as ! j ! 0)" using Suc.prems(5) by simp
  obtain st2 where st2: "copy_old (parser e) going (int (Suc c)) (cached as (Suc c)) st1 = Done (int i, cached as i, st2)"
      "holds e as n ((out @ [as ! c]) @ take (i - Suc c) (drop (Suc c) as)) r st2"
    using Suc.hyps(1) [OF hyps(1) st1(2) hyps(2) Suc.prems(3) hyps(3) going Suc.prems(6)] by blast
  have "going (cached as c)" using Suc.prems(5) [of c] c by (simp add: cached_def)
  moreover have "(out @ [as ! c]) @ take (i - Suc c) (drop (Suc c) as) = out @ take (i - c) (drop c as)"
    using c by (simp add: Cons_nth_drop_Suc [symmetric] take_Cons' Suc_diff_Suc)
  ultimately show ?case
    using st1(1) st2 nxt count [OF Suc.prems(1)] c(2)
    by (subst copy_old.simps) (auto simp: add.commute)
qed

lemma plain_packet: "list_all plain_op (packet_ops (wire e) as bs)"
  by (induction "wire e" as bs rule: packet_ops.induct) (use plain [of e] in auto)

lemma announced:
  assumes "holds e as n out r st" "sees r (wp_head (wire e) k @ xs) r'" "0 \<le> k" "k < limit"
    "list_all plain_op xs" "m_readcount r' \<le> m_cursize r'"
    and c: "c \<le> i" "i \<le> length as" "length out + (i - c) \<le> n"
    and pend: "\<And>j. c \<le> j \<Longrightarrow> j < i \<Longrightarrow> as ! j ! 0 < k" "k \<le> cached as i"
  shows "\<exists>r1 st1 st2. pp_next (parser e) st = Done (Some k, st1) \<and>
    copy_old (parser e) (\<lambda>x. x < k) (int c) (cached as c) st1 = Done (int i, cached as i, st2) \<and>
    holds e as n (out @ take (i - c) (drop c as)) r1 st2 \<and> sees r1 xs r' \<and> bits_left r1 < bits_left r"
proof -
  obtain r1 st1 where 1: "pp_next (parser e) st = Done (Some k, st1)" "holds e as n out r1 st1" "sees r1 xs r'"
      "bits_left r1 < bits_left r"
    using next_number [OF assms(1-6)] by blast
  show ?thesis
    using 1 copy_pending [OF 1(2) c, of "\<lambda>x. x < k"] pend by fastforce
qed

lemma sendable_drop:
  assumes "sendable (wire e) fits limit (drop i as) bs" "i < length as" "\<And>b. b \<in> set bs \<Longrightarrow> as ! i ! 0 < b ! 0"
  shows "sendable (wire e) fits limit (drop (Suc i) as) bs"
proof -
  have "drop i as = as ! i # drop (Suc i) as" using assms(2) by (simp add: Cons_nth_drop_Suc)
  then show ?thesis using assms(1,3) by (fastforce simp: sendable_def list_all_iff)
qed

lemma read_on:
  assumes "holds e as n out r st" "sees r xs r1" "list_all plain_op xs"
  shows "bits_left r1 \<le> bits_left r"
  using sees_forward [OF assms(2,3) cursor [OF assms(1)]] by (simp add: same_buffer_def)

lemma packet_parsed_from:
  assumes as: "increasing as" "\<And>a. a \<in> set as \<Longrightarrow> 0 \<le> a ! 0 \<and> a ! 0 < limit"
  shows "holds e as n out r st \<Longrightarrow> c \<le> i \<Longrightarrow> i \<le> length as \<Longrightarrow>
    sees r (packet_ops (wire e) (drop i as) bs @ wp_end (wire e)) r' \<Longrightarrow> m_readcount r' \<le> m_cursize r' \<Longrightarrow>
    length out + (i - c) + length bs \<le> n \<Longrightarrow> increasing bs \<Longrightarrow> sendable (wire e) fits limit (drop i as) bs \<Longrightarrow>
    (\<And>j b. c \<le> j \<Longrightarrow> j < i \<Longrightarrow> b \<in> set bs \<Longrightarrow> as ! j ! 0 < b ! 0) \<Longrightarrow> bits_left r < int fuel \<Longrightarrow>
    \<exists>st1. parse_records fuel (parser e) (int c) (cached as c) st = Done st1 \<and>
      holds e as n (out @ take (i - c) (drop c as) @ bs) r' st1"
proof (induction "length as - i + length bs" arbitrary: out r st c i bs fuel rule: less_induct)
  case less
  note h = less.prems(1) and ci = less.prems(2,3)
  have "0 \<le> bits_left r" using bits_left_bounds [OF cursor [OF h]] by simp
  then obtain f where f: "fuel = Suc f" using less.prems(10) by (cases fuel) auto
  let ?pend = "take (i - c) (drop c as)"
  have lp: "length out + (i - c) \<le> n" using less.prems(6) by simp
  have plains: "list_all plain_op (wp_gone (wire e))" "list_all plain_op (wp_end (wire e))"
    "list_all plain_op (wp_body (wire e) a b)" for a b
    using plain [of e 0 a b] by auto
  have lt9: "x < limit \<Longrightarrow> x < CL_PARSE_OLD_NUMBER_END" for x using limit by simp
  consider (stop) "i = length as" "bs = []"
    | (lost) "i < length as" "\<And>b. b \<in> set bs \<Longrightarrow> as ! i ! 0 < b ! 0"
    | (new) b bs' where "bs = b # bs'" "b ! 0 < cached as i"
    | (old) b bs' where "bs = b # bs'" "i < length as" "b ! 0 = as ! i ! 0"
  proof (cases bs)
    case Nil
    then show ?thesis using that(1,2) ci by (cases "i = length as") auto
  next
    case (Cons b bs')
    have rest: "x \<in> set bs' \<Longrightarrow> b ! 0 < x ! 0" for x using less.prems(7) Cons by (simp add: increasing_def)
    have "b ! 0 < limit" using less.prems(8) Cons by (simp add: sendable_def list_all_iff)
    then show ?thesis using that(2-4) Cons ci rest lt9 [of "b ! 0"] less_trans
      by (cases "i = length as"; cases "b ! 0" "as ! i ! 0" rule: linorder_cases) fastforce+
  qed
  then show ?case
  proof cases
    case stop
    have "sees r (wp_end (wire e)) r'" using less.prems(4) stop by simp
    from next_end [OF h this] obtain st1
      where st1: "pp_next (parser e) st = Done (None, st1)" "holds e as n out r' st1" by blast
    have "as ! j ! 0 \<noteq> CL_PARSE_OLD_NUMBER_END" if "j < i" for j
      using as(2) [of "as ! j"] that stop lt9 by fastforce
    then show ?thesis
      using st1 copy_pending [OF st1(2) ci lp, of "\<lambda>x. x \<noteq> CL_PARSE_OLD_NUMBER_END"] stop f by fastforce
  next
    case lost
    let ?k = "as ! i ! 0" and ?rest = "packet_ops (wire e) (drop (Suc i) as) bs @ wp_end (wire e)"
    have ops: "packet_ops (wire e) (drop i as) bs @ wp_end (wire e) = wp_head (wire e) ?k @ wp_gone (wire e) @ ?rest"
    proof (cases bs)
      case (Cons b bs')
      then show ?thesis using lost(1) lost(2) [of b] by (simp add: Cons_nth_drop_Suc [symmetric])
    qed (use lost(1) in \<open>simp add: Cons_nth_drop_Suc [symmetric]\<close>)
    have k: "0 \<le> ?k" "?k < limit" using as(2) [of "as ! i"] lost(1) by auto
    obtain r1 st1 st2 where 1: "pp_next (parser e) st = Done (Some ?k, st1)"
        "copy_old (parser e) (\<lambda>x. x < ?k) (int c) (cached as c) st1 = Done (int i, cached as i, st2)"
        "holds e as n (out @ ?pend) r1 st2" "sees r1 (wp_gone (wire e) @ ?rest) r'" "bits_left r1 < bits_left r"
      using announced [OF h less.prems(4) [unfolded ops] k _ less.prems(5) ci lp] lost(1) plains plain_packet
        increasing_nth [OF as(1)] by fastforce
    obtain r2 where r2: "sees r1 (wp_gone (wire e)) r2" "sees r2 ?rest r'" using 1(4) by auto
    obtain st3 where st3: "pp_delta (parser e) ?k (Some (int i)) False st2 = Done st3" "holds e as n (out @ ?pend) r2 st3"
      using gone [OF 1(3) lost(1) r2(1)] by blast
    have left: "bits_left r2 < int f" using read_on [OF 1(3) r2(1) plains(1)] 1(5) less.prems(10) f by simp
    have dec: "length as - Suc i + length bs < length as - i + length bs" using lost(1) by simp
    have room: "length (out @ ?pend) + (Suc i - Suc i) + length bs \<le> n" using less.prems(6) ci by simp
    obtain st4 where st4: "parse_records f (parser e) (int (Suc i)) (cached as (Suc i)) st3 = Done st4"
        "holds e as n ((out @ ?pend) @ take (Suc i - Suc i) (drop (Suc i) as) @ bs) r' st4"
      using less.hyps [OF dec st3(2) le_refl _ r2(2) less.prems(5) room less.prems(7) _ _ left] lost
        sendable_drop [OF less.prems(8) lost] by fastforce
    show ?thesis
      using 1(1,2) st3(1) st4 next_cached [OF st3(2), of "Suc i"] lost(1) f by (simp add: add.commute)
  next
    case new
    let ?body = "wp_body (wire e) (wp_base (wire e) b) b" and ?rest = "packet_ops (wire e) (drop i as) bs' @ wp_end (wire e)"
    have ops: "packet_ops (wire e) (drop i as) bs @ wp_end (wire e) = wp_head (wire e) (b ! 0) @ ?body @ ?rest"
      using new(2) ci(2) by (cases "i = length as") (simp_all add: new(1) Cons_nth_drop_Suc [symmetric])
    have k: "0 \<le> b ! 0" "b ! 0 < limit" using less.prems(8) by (simp_all add: sendable_def list_all_iff new(1))
    have "b ! 0 \<notin> (\<lambda>a. a ! 0) ` set (drop i as)"
    proof
      assume "b ! 0 \<in> (\<lambda>a. a ! 0) ` set (drop i as)"
      then obtain a where "a \<in> set (drop i as)" "b ! 0 = a ! 0" by auto
      moreover from this obtain j where "j < length as - i" "a = as ! (i + j)"
        using ci(2) by (metis in_set_conv_nth length_drop nth_drop)
      ultimately have "i + j < length as" "b ! 0 = as ! (i + j) ! 0" by auto
      then show False using increasing_nth [OF as(1), of i "i + j"] new(2) by (cases "j = 0") auto
    qed
    then have fit: "fits (wp_base (wire e) b) b" using less.prems(8) by (simp add: sendable_def list_all_iff new(1))
    have pend: "as ! j ! 0 < b ! 0" if "c \<le> j" "j < i" for j using less.prems(9) [OF that] new(1) by simp
    obtain r1 st1 st2 where 1: "pp_next (parser e) st = Done (Some (b ! 0), st1)"
        "copy_old (parser e) (\<lambda>x. x < b ! 0) (int c) (cached as c) st1 = Done (int i, cached as i, st2)"
        "holds e as n (out @ ?pend) r1 st2" "sees r1 (?body @ ?rest) r'" "bits_left r1 < bits_left r"
      using announced [OF h less.prems(4) [unfolded ops] k _ less.prems(5) ci lp pend] new(2) plains plain_packet
      by fastforce
    obtain r2 where r2: "sees r1 ?body r2" "sees r2 ?rest r'" using 1(4) by auto
    have "length (out @ ?pend) < n" using less.prems(6) ci by (simp add: new(1))
    from create [OF 1(3) this k r2(1) fit] obtain st3 where st3:
        "pp_delta (parser e) (b ! 0) None False st2 = Done st3" "holds e as n ((out @ ?pend) @ [b]) r2 st3" by blast
    have left: "bits_left r2 < int f" using read_on [OF 1(3) r2(1) plains(3)] 1(5) less.prems(10) f by simp
    have dec: "length as - i + length bs' < length as - i + length bs" by (simp add: new(1))
    have room: "length ((out @ ?pend) @ [b]) + (i - i) + length bs' \<le> n" using less.prems(6) ci by (simp add: new(1))
    have tail: "increasing bs'" "sendable (wire e) fits limit (drop i as) bs'"
      using less.prems(7,8) by (simp_all add: new(1) increasing_def sendable_def list_all_iff)
    obtain st4 where st4: "parse_records f (parser e) (int i) (cached as i) st3 = Done st4"
        "holds e as n (((out @ ?pend) @ [b]) @ take (i - i) (drop i as) @ bs') r' st4"
      using less.hyps [OF dec st3(2) le_refl ci(2) r2(2) less.prems(5) room tail _ left] by fastforce
    have "cached as i \<noteq> b ! 0" using new(2) by simp
    then show ?thesis using 1(1,2) st3(1) st4 f by (simp add: new(1))
  next
    case old
    let ?body = "wp_body (wire e) (as ! i) b" and ?rest = "packet_ops (wire e) (drop (Suc i) as) bs' @ wp_end (wire e)"
    have ops: "packet_ops (wire e) (drop i as) bs @ wp_end (wire e) =
        (if wp_same (wire e) (as ! i) b then [] else wp_head (wire e) (b ! 0) @ ?body) @ ?rest"
      using old(2,3) by (simp add: old(1) Cons_nth_drop_Suc [symmetric])
    have k: "0 \<le> b ! 0" "b ! 0 < limit" using less.prems(8) by (simp_all add: sendable_def list_all_iff old(1))
    have "as ! i \<in> set (drop i as)" using old(2) by (metis Cons_nth_drop_Suc list.set_intros(1))
    then have fit: "fits (as ! i) b" using less.prems(8) old(3) by (simp add: sendable_def list_all_iff old(1))
    have pend: "as ! j ! 0 < b ! 0" if "c \<le> j" "j < i" for j using less.prems(9) [OF that] old(1) by simp
    have dec: "length as - Suc i + length bs' < length as - i + length bs" by (simp add: old(1))
    have above: "as ! i ! 0 < x ! 0" if "x \<in> set bs'" for x
      using less.prems(7) that by (simp add: old increasing_def)
    have tail: "increasing bs'" "sendable (wire e) fits limit (drop i as) bs'"
      using less.prems(7,8) by (simp_all add: old(1) increasing_def sendable_def list_all_iff)
    have tail': "sendable (wire e) fits limit (drop (Suc i) as) bs'" using sendable_drop [OF tail(2) old(2) above] .
    show ?thesis
    proof (cases "wp_same (wire e) (as ! i) b")
      case True
      then have eq: "b = as ! i" using same [OF True fit] old(3) by simp
      have room: "length out + (Suc i - c) + length bs' \<le> n" using less.prems(6) ci by (simp add: old(1))
      have rest: "sees r ?rest r'" using less.prems(4) [unfolded ops] True by simp
      have pend': "as ! j ! 0 < x ! 0" if "c \<le> j" "j < Suc i" "x \<in> set bs'" for j x
        using that above [of x] less.prems(9) [of j x] by (cases "j = i") (auto simp: old(1))
      have "take (Suc i - c) (drop c as) @ bs' = ?pend @ b # bs'"
        using ci old(2) by (simp add: Suc_diff_le take_Suc_conv_app_nth eq)
      then show ?thesis
        using less.hyps [OF dec h _ _ rest less.prems(5) room tail(1) tail' pend' less.prems(10)] ci old(2)
        by (fastforce simp: old(1))
    next
      case False
      obtain r1 st1 st2 where 1: "pp_next (parser e) st = Done (Some (b ! 0), st1)"
          "copy_old (parser e) (\<lambda>x. x < b ! 0) (int c) (cached as c) st1 = Done (int i, cached as i, st2)"
          "holds e as n (out @ ?pend) r1 st2" "sees r1 (?body @ ?rest) r'" "bits_left r1 < bits_left r"
        using announced [OF h _ k _ less.prems(5) ci lp pend, of "?body @ ?rest"] less.prems(4) [unfolded ops] False
          old(2,3) plains plain_packet by fastforce
      obtain r2 where r2: "sees r1 ?body r2" "sees r2 ?rest r'" using 1(4) by auto
      have "length (out @ ?pend) < n" using less.prems(6) ci by (simp add: old(1))
      from change [OF 1(3) old(2) this old(3) [symmetric] r2(1) fit] obtain st3 where st3:
          "pp_delta (parser e) (b ! 0) (Some (int i)) False st2 = Done st3" "holds e as n ((out @ ?pend) @ [b]) r2 st3"
        by blast
      have left: "bits_left r2 < int f" using read_on [OF 1(3) r2(1) plains(3)] 1(5) less.prems(10) f by simp
      have room: "length ((out @ ?pend) @ [b]) + (Suc i - Suc i) + length bs' \<le> n"
        using less.prems(6) ci by (simp add: old(1))
      obtain st4 where st4: "parse_records f (parser e) (int (Suc i)) (cached as (Suc i)) st3 = Done st4"
          "holds e as n (((out @ ?pend) @ [b]) @ take (Suc i - Suc i) (drop (Suc i) as) @ bs') r' st4"
        using less.hyps [OF dec st3(2) le_refl _ r2(2) less.prems(5) room tail(1) tail' _ left] old(2) by fastforce
      show ?thesis
        using 1(1,2) st3(1) st4 next_cached [OF st3(2), of "Suc i"] old f by (simp add: add.commute)
    qed
  qed
qed

lemma packet_parsed:
  assumes "holds e as n [] r (cl, frame, r)" "increasing as" "\<And>a. a \<in> set as \<Longrightarrow> 0 \<le> a ! 0 \<and> a ! 0 < limit"
    and "sees r (packet_ops (wire e) as bs @ wp_end (wire e)) r'" "m_readcount r' \<le> m_cursize r'"
    and "length bs \<le> n" "increasing bs" "sendable (wire e) fits limit as bs"
  shows "\<exists>st1. parse_packet (parser e) (cl, frame, r) = Done st1 \<and> holds e as n bs r' st1"
proof -
  have "bits_left r < int (nat (8 * m_cursize r + 16))"
    using bits_left_bounds [OF cursor [OF assms(1)]] by simp
  then show ?thesis
    using packet_parsed_from [OF assms(2,3,1), of 0 0 bs r'] assms(4-8) next_cached [OF assms(1), of 0]
    by (auto simp: parse_packet_def)
qed

end

end
