(* ===== verification/Snapshot_Channels.thy ===== *)
theory Snapshot_Channels
  imports Snapshot_Stream
begin

text \<open>
  The two packets of a snapshot as channels: entity states and client states, from the rings of
  the server to the rings of the client. What a parse has stored is stated as the exact contents
  of the ring, so nothing else in it has changed.
\<close>

section \<open>Storing into a ring\<close>

fun ring_store :: "'a list \<Rightarrow> nat \<Rightarrow> 'a list \<Rightarrow> 'a list" where
  "ring_store ring s [] = ring"
| "ring_store ring s (b # bs) = ring_store (ring[s mod length ring := b]) (Suc s) bs"

lemma length_ring_store [simp]: "length (ring_store ring s out) = length ring"
  by (induction out arbitrary: ring s) simp_all

lemma ring_store_snoc:
  "ring_store ring s (out @ [b]) = (ring_store ring s out)[(s + length out) mod length ring := b]"
  by (induction out arbitrary: ring s) simp_all

lemma ring_store_window:
  "length out \<le> length ring \<Longrightarrow> window (ring_store ring s out) s (s + length out) = out"
proof (induction out rule: rev_induct)
  case (snoc b out)
  then have "window (ring_store ring s (out @ [b])) s (Suc (s + length out)) =
      window (ring_store ring s out) s (s + length out) @ [b]"
    unfolding ring_store_snoc length_ring_store [symmetric, of ring s out]
    by (intro window_put) auto
  then show ?case using snoc by simp
qed simp

lemma window_other:
  assumes "r \<le> w" "w \<le> s" "s < r + length ring"
  shows "window (ring[s mod length ring := b]) r w = window ring r w"
proof -
  have "ring[s mod length ring := b] ! (i mod length ring) = ring ! (i mod length ring)" if "i \<in> set [r..<w]" for i
    using that mod_distinct [of r i s "length ring"] assms by auto
  then show ?thesis by (simp add: window_def)
qed

lemma ring_store_other:
  "r \<le> w \<Longrightarrow> w \<le> s \<Longrightarrow> s + length out \<le> r + length ring \<Longrightarrow> window (ring_store ring s out) r w = window ring r w"
  by (induction out rule: rev_induct) (simp_all add: ring_store_snoc window_other [where ring = "ring_store ring s _", simplified])

lemma window_nth: "i < w - r \<Longrightarrow> window slots r w ! i = slots ! ((r + i) mod length slots)"
  by (simp add: window_def)

lemma ring_store_all:
  "list_all P ring \<Longrightarrow> list_all P out \<Longrightarrow> list_all P (ring_store ring s out)"
  by (induction out arbitrary: ring s) (auto simp: list_all_update)

lemma parse_slot_eq: "parse_slot x = x mod 2048"
proof -
  have "u32 x AND 2047 = u32 x mod 2048"
    using take_bit_eq_mask [of 11 "u32 x"] by (simp add: mask_eq_exp_minus_1 take_bit_eq_mod)
  then show ?thesis by (simp add: parse_slot_def u32_def mod_mod_cancel)
qed

text \<open>
  A parse has stored \<open>out\<close> from \<open>seq\<close> on, and the old window \<open>(first, count)\<close> still is \<open>as\<close>: the new
  records end before the ring comes round to it.
\<close>

definition stored_from :: "nat \<Rightarrow> block list \<Rightarrow> int \<Rightarrow> (int \<times> int) option \<Rightarrow> block list \<Rightarrow> nat \<Rightarrow> block list \<Rightarrow> bool" where
  "stored_from dim ring seq win as n out \<longleftrightarrow>
     length ring = 2048 \<and> list_all (\<lambda>b. length b = dim) ring \<and> list_all (\<lambda>b. length b = dim) out \<and>
     length out \<le> n \<and> n \<le> 2048 \<and> 0 \<le> seq \<and> seq + int n < 2147483648 \<and>
     (case win of None \<Rightarrow> as = []
      | Some (first, number) \<Rightarrow> number = int (length as) \<and> 0 \<le> first \<and> first + int (length as) \<le> seq \<and>
          seq + int n \<le> first + 2048 \<and> window ring (nat first) (nat first + length as) = as)"

lemma stored_old:
  assumes "stored_from dim ring seq (Some (first, number)) as n out" "i < length as"
  shows "old_record (ring_store ring (nat seq) out) first (int i) = Some (as ! i)"
proof -
  have h: "length ring = 2048" "0 \<le> first" "first + int (length as) \<le> seq" "seq + int n \<le> first + 2048"
      "length out \<le> n" "window ring (nat first) (nat first + length as) = as" "0 \<le> seq" "seq + int n < 2147483648"
    using assms(1) by (auto simp: stored_from_def)
  have win: "window (ring_store ring (nat seq) out) (nat first) (nat first + length as) = as"
    using ring_store_other [of "nat first" "nat first + length as" "nat seq" out ring] h by simp
  have "as ! i = window (ring_store ring (nat seq) out) (nat first) (nat first + length as) ! i" by (simp only: win)
  also have "\<dots> = ring_store ring (nat seq) out ! ((nat first + i) mod 2048)"
    using assms(2) by (simp add: window_nth h(1))
  finally have nth: "ring_store ring (nat seq) out ! ((nat first + i) mod 2048) = as ! i" by simp
  have "parse_slot (u32 first + u32 (int i)) = (first + int i) mod 2048"
    using h assms(2) by (simp add: parse_slot_eq u32_id)
  moreover have "nat ((first + int i) mod 2048) = (nat first + i) mod 2048"
    using h(2) by (simp add: nat_mod_distrib nat_add_distrib)
  ultimately show ?thesis using nth h(1) by (simp add: old_record_def peek_eq_Some)
qed

lemma stored_records:
  assumes "stored_from dim ring seq win as n out" "a \<in> set as"
  shows "length a = dim"
proof -
  obtain first number where win: "win = Some (first, number)" using assms by (auto simp: stored_from_def split: option.splits)
  then have "window ring (nat first) (nat first + length as) = as" "length ring = 2048" "\<forall>b\<in>set ring. length b = dim"
    using assms(1) by (auto simp: stored_from_def list_all_iff)
  then have "a \<in> set ring" using assms(2)
    by (metis (no_types, lifting) in_set_conv_nth length_greater_0_conv list.size(3) mod_less_divisor
        window_nth length_window zero_neq_numeral)
  then show ?thesis using \<open>\<forall>b\<in>set ring. length b = dim\<close> by blast
qed

lemma stored_put:
  assumes "stored_from dim ring seq win as n out" "length out < n" "length b = dim"
  shows "stored_from dim ring seq win as n (out @ [b])"
  using assms by (auto simp: stored_from_def split: option.splits)

text \<open>The slot a new record goes to.\<close>

lemma stored_slot:
  assumes "stored_from dim ring seq win as n out" "length out < n"
  shows "nat (parse_slot (seq + int (length out))) = (nat seq + length out) mod 2048"
    "peek (ring_store ring (nat seq) out) (parse_slot (seq + int (length out))) =
      Some (ring_store ring (nat seq) out ! ((nat seq + length out) mod 2048))"
    "poke (ring_store ring (nat seq) out) (parse_slot (seq + int (length out))) b = Some (ring_store ring (nat seq) (out @ [b]))"
    "length (ring_store ring (nat seq) out ! ((nat seq + length out) mod 2048)) = dim"
proof -
  have h: "length ring = 2048" "0 \<le> seq" "list_all (\<lambda>b. length b = dim) (ring_store ring (nat seq) out)"
    using assms by (auto simp: stored_from_def ring_store_all)
  show slot: "nat (parse_slot (seq + int (length out))) = (nat seq + length out) mod 2048"
    using h(2) by (simp add: parse_slot_eq nat_mod_distrib nat_add_distrib)
  then show "peek (ring_store ring (nat seq) out) (parse_slot (seq + int (length out))) =
      Some (ring_store ring (nat seq) out ! ((nat seq + length out) mod 2048))"
    "poke (ring_store ring (nat seq) out) (parse_slot (seq + int (length out))) b = Some (ring_store ring (nat seq) (out @ [b]))"
    by (simp_all add: peek_eq_Some poke_eq_Some parse_slot_eq h(1) ring_store_snoc)
  show "length (ring_store ring (nat seq) out ! ((nat seq + length out) mod 2048)) = dim"
    using h(1,3) by (simp add: list_all_length)
qed

lemma stored_count: "stored_from dim ring seq win as n out \<Longrightarrow> length out < n \<Longrightarrow>
    i32 (seq + int (length out) + 1) = seq + int (length out) + 1 \<and> i32 (int (length out) + 1) = int (length out) + 1"
  by (auto simp: stored_from_def intro!: i32_id)

section \<open>Entities\<close>

definition entity_allowed :: "block \<Rightarrow> bool" where
  "entity_allowed b \<longleftrightarrow> length b = 61 \<and> invalid_entity b = Some False"

text \<open>A change of an entity state that the wire carries and the client accepts.\<close>

definition entity_fits :: "block \<Rightarrow> block \<Rightarrow> bool" where
  "entity_fits a b \<longleftrightarrow> length a = 61 \<and> entity_allowed b \<and> list_all int32_range b \<and>
     carried a b (entity_table b) \<and> (unchanged a b (entity_table b) \<longrightarrow> a ! 0 = b ! 0)"

definition entity_packet :: "block list \<Rightarrow> wire_packet" where
  "entity_packet baselines = \<lparr>
     wp_head = (\<lambda>k. [WBits k 10]),
     wp_body = (\<lambda>a b. WBit (b ! 1 = ET_VEHICLE) # WBit False # record_ops a b (entity_table b)),
     wp_gone = [WBit False, WBit True], wp_end = [WBits 1023 10],
     wp_same = (\<lambda>a b. unchanged a b (entity_table b)), wp_base = (\<lambda>b. baselines ! nat (b ! 0))\<rparr>"

type_synonym entity_env = "(clientActive_t \<Rightarrow> block \<Rightarrow> bool) \<times> clSnapshot_t option \<times> clientActive_t \<times> clSnapshot_t"

definition entity_window :: "clSnapshot_t option \<Rightarrow> (int \<times> int) option" where
  "entity_window old = map_option (\<lambda>f. (cf_firstEntitySequence f, cf_numEntities f)) old"

definition entity_env_parser :: "entity_env \<Rightarrow> packet_parser" where
  "entity_env_parser e = (case e of (visible, old, cl, frame) \<Rightarrow> entity_parser visible old)"

definition entity_env_wire :: "entity_env \<Rightarrow> wire_packet" where
  "entity_env_wire e = (case e of (visible, old, cl, frame) \<Rightarrow> entity_packet (ca_entityBaselines cl))"

definition entity_state :: "clientActive_t \<Rightarrow> clSnapshot_t \<Rightarrow> block list \<Rightarrow> msg_t \<Rightarrow> parse_state" where
  "entity_state cl frame out r =
     (cl\<lparr>ca_parseEntities := ring_store (ca_parseEntities cl) (nat (ca_parseEntitySequence cl)) out,
         ca_parseEntitySequence := ca_parseEntitySequence cl + int (length out)\<rparr>,
      frame\<lparr>cf_numEntities := int (length out)\<rparr>, r)"

definition entity_holds :: "entity_env \<Rightarrow> block list \<Rightarrow> nat \<Rightarrow> block list \<Rightarrow> msg_t \<Rightarrow> parse_state \<Rightarrow> bool" where
  "entity_holds e as n out r st \<longleftrightarrow> (case e of (visible, old, cl, frame) \<Rightarrow>
     read_inv r \<and> \<not> ca_onlyVisibleClients cl \<and> list_all entity_allowed as \<and> length (ca_entityBaselines cl) = 1024 \<and>
     stored_from 61 (ca_parseEntities cl) (ca_parseEntitySequence cl) (entity_window old) as n out \<and>
     st = entity_state cl frame out r)"

lemma invalid_entity_put: "entity_allowed b \<Longrightarrow> invalid_entity b = Some False" "entity_allowed b \<Longrightarrow> length b = 61"
  by (simp_all add: entity_allowed_def)

text \<open>What \<open>CL_DeltaEntity\<close> does with a record that arrived.\<close>

lemma DeltaEntity_put:
  assumes h: "entity_holds (visible, old, cl, frame) as n out r st" and room: "length out < n"
    and read: "(if unchanged' then Done (False, a, r)
        else MSG_ReadDeltaEntity r a (ring_store (ca_parseEntities cl) (nat (ca_parseEntitySequence cl)) out !
          ((nat (ca_parseEntitySequence cl) + length out) mod 2048)) k) = Done (False, b, r')"
    and b: "entity_allowed b" and r': "read_inv r'"
  shows "\<exists>st1. CL_DeltaEntity visible k a unchanged' st = Done st1 \<and>
    entity_holds (visible, old, cl, frame) as n (out @ [b]) r' st1"
proof -
  have st: "stored_from 61 (ca_parseEntities cl) (ca_parseEntitySequence cl) (entity_window old) as n out"
    and eq: "st = entity_state cl frame out r" and nv: "\<not> ca_onlyVisibleClients cl"
    using h by (simp_all add: entity_holds_def)
  note slot = stored_slot [OF st room]
  note cnt = stored_count [OF st room]
  have len: "length b = 61" using b by (simp add: entity_allowed_def)
  have vis: "filter_visible visible t cl' b = Some (b, ca_entityLastVisibleTime cl')"
    if "\<not> ca_onlyVisibleClients cl'" for t cl'
    using that len by (simp add: filter_visible_def mem_simps)
  define ring2 where "ring2 = ring_store (ca_parseEntities cl) (nat (ca_parseEntitySequence cl)) (out @ [b])"
  have poke2: "poke ring2 (parse_slot (ca_parseEntitySequence cl + int (length out))) b = Some ring2"
    unfolding ring2_def ring_store_snoc using slot(1) st
    by (simp add: poke_eq_Some parse_slot_eq stored_from_def)
  have "CL_DeltaEntity visible k a unchanged' st = Done (entity_state cl frame (out @ [b]) r')"
    unfolding CL_DeltaEntity_def eq entity_state_def
    using slot(2) slot(3) [of b, folded ring2_def] poke2 read invalid_entity_put(1) [OF b] vis nv cnt
    by (simp add: Let_def ring2_def [symmetric])
  then show ?thesis
    using h r' stored_put [OF st room len] by (auto simp: entity_holds_def)
qed

lemma entity_holds_state: "entity_holds (visible, old, cl, frame) as n out r st \<Longrightarrow> st = entity_state cl frame out r"
  by (simp add: entity_holds_def)

lemma entity_old:
  assumes "entity_holds (visible, old, cl, frame) as n out r st" "i < length as"
  shows "CL_OldPacketEntity old (fst st) (int i) = Some (as ! i)"
proof -
  have st: "stored_from 61 (ca_parseEntities cl) (ca_parseEntitySequence cl) (entity_window old) as n out"
    and eq: "st = entity_state cl frame out r" using assms(1) by (simp_all add: entity_holds_def)
  obtain f where f: "old = Some f" using st assms(2) by (cases old) (auto simp: stored_from_def entity_window_def)
  then have st': "stored_from 61 (ca_parseEntities cl) (ca_parseEntitySequence cl)
      (Some (cf_firstEntitySequence f, cf_numEntities f)) as n out" using st by (simp add: entity_window_def)
  then have "cf_numEntities f = int (length as)" by (simp add: stored_from_def)
  then show ?thesis
    using stored_old [OF st' assms(2)] assms(2) by (simp add: CL_OldPacketEntity_def f eq entity_state_def)
qed

lemma entity_next:
  assumes "entity_holds (visible, old, cl, frame) as n out r st" "sees r (WBits k 10 # xs) r'" "0 \<le> k" "k < 1024"
    "list_all plain_op xs" "m_readcount r' \<le> m_cursize r'"
  shows "\<exists>r1. next_entity st = Done (if k = 1023 then None else Some k, entity_state cl frame out r1) \<and>
    entity_holds (visible, old, cl, frame) as n out r1 (entity_state cl frame out r1) \<and> sees r1 xs r' \<and>
    bits_left r1 < bits_left r"
proof -
  have eq: "st = entity_state cl frame out r" and r: "read_inv r" using assms(1) by (simp_all add: entity_holds_def)
  obtain r1 where r1: "MSG_ReadBits r 10 = Some (k, r1)" "sees r1 xs r'"
    using number_seen [OF assms(2,3)] assms(4) by auto
  have "read_inv r1" using MSG_ReadBits_ok [OF r, of 10] r1(1) by (simp add: reads_ok_def)
  moreover from sees_forward [OF r1(2) assms(5) this] have "m_readcount r1 \<le> m_cursize r1"
    using assms(6) by (simp add: same_buffer_def)
  moreover from this have "bits_left r1 < bits_left r" using ReadBits_progress [OF r1(1) _ r] by simp
  ultimately show ?thesis
    using r1 assms(1) eq by (auto simp: next_entity_def entity_state_def entity_holds_def)
qed

lemma entity_body:
  assumes "sees r (WBit (b ! 1 = ET_VEHICLE) # WBit False # record_ops a b (entity_table b)) r'" "entity_fits a b" "length c = 61"
  shows "MSG_ReadDeltaEntity r a c (b ! 0) = Done (False, b, r')"
proof -
  have len: "length a = 61" "length b = 61" using assms(2) by (simp_all add: entity_fits_def entity_allowed_def)
  note res = struct_result_members [OF entity_table_complete, of a b b c "b ! 0"]
  have "struct_result a b (entity_table b) c (b ! 0) = b"
    using res(2,4) assms(2,3) len by (auto simp: entity_fits_def)
  then show ?thesis
    using read_entity_seen [OF assms(1) len assms(3)] assms(2) by (simp add: entity_fits_def)
qed

lemma entity_same: "unchanged a b (entity_table b) \<Longrightarrow> entity_fits a b \<Longrightarrow> a ! 0 = b ! 0 \<Longrightarrow> a = b"
  using struct_result_members(4) [OF entity_table_complete, of a b b a "b ! 0"]
  by (simp add: entity_fits_def entity_allowed_def struct_result_def)

lemma entity_put:
  assumes h: "entity_holds e as n out r st" and room: "length out < n"
    and seen: "sees r (WBit (b ! 1 = ET_VEHICLE) # WBit False # record_ops a b (entity_table b)) r'"
    and fit: "entity_fits a b"
  shows "\<exists>st1. CL_DeltaEntity (fst e) (b ! 0) a False st = Done st1 \<and> entity_holds e as n (out @ [b]) r' st1"
proof -
  obtain visible old cl frame where e: "e = (visible, old, cl, frame)" by (cases e)
  have st: "stored_from 61 (ca_parseEntities cl) (ca_parseEntitySequence cl) (entity_window old) as n out" "read_inv r"
    using h by (simp_all add: entity_holds_def e)
  have "read_inv r'" using sees_forward [OF seen _ st(2)] by simp
  moreover have "entity_allowed b" using fit by (simp add: entity_fits_def)
  ultimately show ?thesis
    using DeltaEntity_put [OF h [unfolded e] room, of False a "b ! 0" b r']
      entity_body [OF seen fit stored_slot(4) [OF st(1) room]] by (simp add: e)
qed

lemma entity_gone:
  assumes h: "entity_holds e as n out r st" and seen: "sees r [WBit False, WBit True] r'"
  shows "\<exists>st1. CL_DeltaEntity (fst e) k a False st = Done st1 \<and> entity_holds e as n out r' st1"
proof -
  obtain visible old cl frame where e: "e = (visible, old, cl, frame)" by (cases e)
  have st: "st = entity_state cl frame out r" "read_inv r" "length (ca_parseEntities cl) = 2048"
    using h by (simp_all add: entity_holds_def stored_from_def e)
  have "read_inv r'" using sees_forward [OF seen _ st(2)] by simp
  moreover obtain c where "peek (ring_store (ca_parseEntities cl) (nat (ca_parseEntitySequence cl)) out)
      (parse_slot (ca_parseEntitySequence cl + int (length out))) = Some c"
    by (simp add: peek_def parse_slot_eq st(3))
  moreover obtain r1 where "MSG_ReadBit r = Some (0, r1)" "MSG_ReadBit r1 = Some (1, r')" using seen by auto
  ultimately have "CL_DeltaEntity visible k a False st = Done (entity_state cl frame out r')"
    by (simp add: CL_DeltaEntity_def Let_def entity_state_def MSG_ReadDeltaEntity_def MSG_ReadDeltaStruct_def st(1))
  then show ?thesis using h \<open>read_inv r'\<close> by (simp add: entity_holds_def e)
qed

interpretation entities: packet_channel entity_env_parser entity_env_wire entity_holds entity_fits 1023
proof
  fix e :: entity_env and as n out r st r' a b k i
  obtain visible old cl frame where e: "e = (visible, old, cl, frame)" by (cases e)
  note defs = e entity_env_parser_def entity_env_wire_def entity_packet_def entity_parser_def
  show "(1023 :: int) \<le> 9999" by simp
  show "list_all plain_op (wp_head (entity_env_wire e) k @ wp_body (entity_env_wire e) a b @
      wp_gone (entity_env_wire e) @ wp_end (entity_env_wire e))"
    by (simp add: defs)
  show "wp_same (entity_env_wire e) a b \<Longrightarrow> entity_fits a b \<Longrightarrow> a ! 0 = b ! 0 \<Longrightarrow> a = b"
    by (simp add: defs entity_same)
  assume h: "entity_holds e as n out r st"
  then show "read_inv r" by (simp add: entity_holds_def e)
  have st: "stored_from 61 (ca_parseEntities cl) (ca_parseEntitySequence cl) (entity_window old) as n out"
    and ok: "list_all entity_allowed as"
    using h by (simp_all add: entity_holds_def e)
  show "pp_count (entity_env_parser e) = int (length as)"
    using st by (cases old) (auto simp: defs stored_from_def entity_window_def)
  show "\<exists>st1. pp_next (entity_env_parser e) st = Done (None, st1) \<and> entity_holds e as n out r' st1"
    if "sees r (wp_end (entity_env_wire e)) r'"
  proof -
    have "MSG_ReadBits r 10 = Some (1023, r')" using that by (auto simp: defs)
    moreover have "read_inv r'" using sees_forward [OF that] \<open>read_inv r\<close> by (simp add: defs)
    ultimately show ?thesis
      using h entity_holds_state [OF h [unfolded e]] by (auto simp: defs next_entity_def entity_state_def entity_holds_def)
  qed
  show "\<exists>r1 st1. pp_next (entity_env_parser e) st = Done (Some k, st1) \<and> entity_holds e as n out r1 st1 \<and>
      sees r1 xs r' \<and> bits_left r1 < bits_left r"
    if "sees r (wp_head (entity_env_wire e) k @ xs) r'" "0 \<le> k" "k < 1023" "list_all plain_op xs" "m_readcount r' \<le> m_cursize r'" for xs
    using entity_next [OF h [unfolded e], of k xs r'] that by (fastforce simp: defs)
  show "\<exists>st1. pp_delta (entity_env_parser e) (b ! 0) None False st = Done st1 \<and> entity_holds e as n (out @ [b]) r' st1"
    if room: "length out < n" "0 \<le> b ! 0" "b ! 0 < 1023"
      and seen: "sees r (wp_body (entity_env_wire e) (wp_base (entity_env_wire e) b) b) r'"
      and fit: "entity_fits (wp_base (entity_env_wire e) b) b"
  proof -
    have "peek (ca_entityBaselines cl) (b ! 0) = Some (ca_entityBaselines cl ! nat (b ! 0))"
      using h room(2,3) by (simp add: entity_holds_def e peek_eq_Some)
    then show ?thesis
      using entity_put [OF h room(1), of b "ca_entityBaselines cl ! nat (b ! 0)" r'] seen fit
        entity_holds_state [OF h [unfolded e]]
      by (simp add: defs entity_state_def)
  qed
  assume i: "i < length as"
  obtain cl1 frame1 m1 where tuple: "st = (cl1, frame1, m1)" by (cases st)
  note old = entity_old [OF h [unfolded e] i, unfolded tuple fst_conv]
  have as_i: "length (as ! i) = 61" using stored_records [OF st nth_mem [OF i]] .
  show "pp_number (entity_env_parser e) st (int i) = Done (as ! i ! 0)"
    using old as_i by (simp add: defs mem_simps tuple)
  show "\<exists>st1. pp_delta (entity_env_parser e) k (Some (int i)) True st = Done st1 \<and> entity_holds e as n (out @ [as ! i]) r st1"
    if room: "length out < n"
    using DeltaEntity_put [OF h [unfolded e] room, of True "as ! i" k "as ! i" r] ok i \<open>read_inv r\<close> old
    by (simp add: defs list_all_length tuple)
  show "\<exists>st1. pp_delta (entity_env_parser e) (b ! 0) (Some (int i)) False st = Done st1 \<and> entity_holds e as n (out @ [b]) r' st1"
    if "length out < n" "as ! i ! 0 = b ! 0" "sees r (wp_body (entity_env_wire e) (as ! i) b) r'" "entity_fits (as ! i) b"
    using entity_put [OF h that(1), of b "as ! i" r'] that(3,4) old
    by (simp add: defs tuple)
  show "\<exists>st1. pp_delta (entity_env_parser e) k (Some (int i)) False st = Done st1 \<and> entity_holds e as n out r' st1"
    if "sees r (wp_gone (entity_env_wire e)) r'"
    using entity_gone [OF h, of r' k "as ! i"] that old by (simp add: defs tuple)
qed

section \<open>Clients\<close>

definition client_fits :: "block \<Rightarrow> block \<Rightarrow> bool" where
  "client_fits a b \<longleftrightarrow> length a = 23 \<and> length b = 23 \<and> list_all int32_range b \<and>
     carried a b msg_clientNetFields \<and> (unchanged a b msg_clientNetFields \<longrightarrow> a ! 0 = b ! 0)"

definition client_packet :: wire_packet where
  "client_packet = \<lparr>
     wp_head = (\<lambda>k. [WBit True, WBits k 6]),
     wp_body = (\<lambda>a b. WBit False # record_ops a b msg_clientNetFields),
     wp_gone = [WBit True], wp_end = [WBit False],
     wp_same = (\<lambda>a b. unchanged a b msg_clientNetFields), wp_base = (\<lambda>b. replicate 23 0)\<rparr>"

type_synonym client_env = "clSnapshot_t option \<times> clientActive_t \<times> clSnapshot_t"

definition client_window :: "clSnapshot_t option \<Rightarrow> (int \<times> int) option" where
  "client_window old = map_option (\<lambda>f. (cf_firstClientSequence f, cf_numClients f)) old"

definition client_env_parser :: "client_env \<Rightarrow> packet_parser" where
  "client_env_parser e = client_parser (fst e)"

definition client_env_wire :: "client_env \<Rightarrow> wire_packet" where
  "client_env_wire e = client_packet"

definition client_state :: "clientActive_t \<Rightarrow> clSnapshot_t \<Rightarrow> block list \<Rightarrow> msg_t \<Rightarrow> parse_state" where
  "client_state cl frame out r =
     (cl\<lparr>ca_parseClients := ring_store (ca_parseClients cl) (nat (ca_parseClientSequence cl)) out,
         ca_parseClientSequence := ca_parseClientSequence cl + int (length out)\<rparr>,
      frame\<lparr>cf_numClients := int (length out)\<rparr>, r)"

definition client_holds :: "client_env \<Rightarrow> block list \<Rightarrow> nat \<Rightarrow> block list \<Rightarrow> msg_t \<Rightarrow> parse_state \<Rightarrow> bool" where
  "client_holds e as n out r st \<longleftrightarrow> (case e of (old, cl, frame) \<Rightarrow>
     read_inv r \<and> stored_from 23 (ca_parseClients cl) (ca_parseClientSequence cl) (client_window old) as n out \<and>
     st = client_state cl frame out r)"

lemma DeltaClient_put:
  assumes h: "client_holds (old, cl, frame) as n out r st" and room: "length out < n"
    and read: "(if unchanged' then Done (False, a, r)
        else MSG_ReadDeltaClient r (Some a) (ring_store (ca_parseClients cl) (nat (ca_parseClientSequence cl)) out !
          ((nat (ca_parseClientSequence cl) + length out) mod 2048)) k) = Done (False, b, r')"
    and b: "length b = 23" and r': "read_inv r'"
  shows "\<exists>st1. CL_DeltaClient k a unchanged' st = Done st1 \<and> client_holds (old, cl, frame) as n (out @ [b]) r' st1"
proof -
  have st: "stored_from 23 (ca_parseClients cl) (ca_parseClientSequence cl) (client_window old) as n out"
    and eq: "st = client_state cl frame out r"
    using h by (simp_all add: client_holds_def)
  have "CL_DeltaClient k a unchanged' st = Done (client_state cl frame (out @ [b]) r')"
    unfolding CL_DeltaClient_def eq client_state_def
    using stored_slot(2,3) [OF st room] read stored_count [OF st room] by (simp add: Let_def)
  then show ?thesis
    using h r' stored_put [OF st room b] by (auto simp: client_holds_def)
qed

lemma client_old:
  assumes "client_holds (old, cl, frame) as n out r st" "i < length as"
  shows "CL_OldPacketClient old (fst st) (int i) = Some (as ! i)"
proof -
  have st: "stored_from 23 (ca_parseClients cl) (ca_parseClientSequence cl) (client_window old) as n out"
    and eq: "st = client_state cl frame out r" using assms(1) by (simp_all add: client_holds_def)
  obtain f where f: "old = Some f" using st assms(2) by (cases old) (auto simp: stored_from_def client_window_def)
  then have st': "stored_from 23 (ca_parseClients cl) (ca_parseClientSequence cl)
      (Some (cf_firstClientSequence f, cf_numClients f)) as n out" using st by (simp add: client_window_def)
  then have "cf_numClients f = int (length as)" by (simp add: stored_from_def)
  then show ?thesis
    using stored_old [OF st' assms(2)] assms(2) by (simp add: CL_OldPacketClient_def f eq client_state_def)
qed

lemma client_next:
  assumes "client_holds (old, cl, frame) as n out r st" "sees r (WBit True # WBits k 6 # xs) r'" "0 \<le> k" "k < 64"
    "list_all plain_op xs" "m_readcount r' \<le> m_cursize r'"
  shows "\<exists>r1. next_client st = Done (Some k, client_state cl frame out r1) \<and>
    client_holds (old, cl, frame) as n out r1 (client_state cl frame out r1) \<and> sees r1 xs r' \<and>
    bits_left r1 < bits_left r"
proof -
  have eq: "st = client_state cl frame out r" and r: "read_inv r" using assms(1) by (simp_all add: client_holds_def)
  obtain r0 where r0: "MSG_ReadBit r = Some (1, r0)" "sees r0 (WBits k 6 # xs) r'" using assms(2) by auto
  have i0: "read_inv r0" "bits_left r0 \<le> bits_left r" using MSG_ReadBit_ok [OF r] r0(1)
    by (simp_all add: reads_ok_def same_buffer_def)
  obtain r1 where r1: "MSG_ReadBits r0 6 = Some (k, r1)" "sees r1 xs r'"
    using number_seen [OF r0(2) assms(3)] assms(4) by auto
  have "read_inv r1" using MSG_ReadBits_ok [OF i0(1), of 6] r1(1) by (simp add: reads_ok_def)
  moreover from sees_forward [OF r1(2) assms(5) this] have "m_readcount r1 \<le> m_cursize r1"
    using assms(6) by (simp add: same_buffer_def)
  moreover from this have "bits_left r1 < bits_left r" using ReadBits_progress [OF r1(1) _ i0(1)] i0(2) by simp
  ultimately show ?thesis
    using r0(1) r1 assms(1) eq by (auto simp: next_client_def client_state_def client_holds_def)
qed

lemma client_table_complete: "table_complete msg_clientNetFields"
  by (rule tables_complete(4))

lemma client_body:
  assumes "sees r (WBit False # record_ops a b msg_clientNetFields) r'" "client_fits a b" "length c = 23"
  shows "MSG_ReadDeltaClient r (Some a) c (b ! 0) = Done (False, b, r')"
proof -
  have len: "length a = 23" "length b = 23" "list_all int32_range b" using assms(2) by (simp_all add: client_fits_def)
  note res = struct_result_members [OF client_table_complete, of a b c "b ! 0"]
  have "struct_result a b msg_clientNetFields c (b ! 0) = b"
    using res(2,4) assms(2,3) len by (auto simp: client_fits_def)
  then show ?thesis
    using read_struct_seen [OF assms(1), of c "b ! 0"] len assms(3) table_complete_ok [OF client_table_complete, of a]
    by (simp add: MSG_ReadDeltaClient_def client_base_def)
qed

lemma client_same: "unchanged a b msg_clientNetFields \<Longrightarrow> client_fits a b \<Longrightarrow> a ! 0 = b ! 0 \<Longrightarrow> a = b"
  using struct_result_members(4) [OF client_table_complete, of a b a "b ! 0"]
  by (simp add: client_fits_def struct_result_def)

lemma client_put:
  assumes h: "client_holds e as n out r st" and room: "length out < n"
    and seen: "sees r (WBit False # record_ops a b msg_clientNetFields) r'" and fit: "client_fits a b"
  shows "\<exists>st1. CL_DeltaClient (b ! 0) a False st = Done st1 \<and> client_holds e as n (out @ [b]) r' st1"
proof -
  obtain old cl frame where e: "e = (old, cl, frame)" by (cases e)
  have st: "stored_from 23 (ca_parseClients cl) (ca_parseClientSequence cl) (client_window old) as n out" "read_inv r"
    using h by (simp_all add: client_holds_def e)
  have "read_inv r'" using sees_forward [OF seen _ st(2)] by simp
  moreover have "length b = 23" using fit by (simp add: client_fits_def)
  ultimately show ?thesis
    using DeltaClient_put [OF h [unfolded e] room, of False a "b ! 0" b r']
      client_body [OF seen fit stored_slot(4) [OF st(1) room]] by (simp add: e)
qed

lemma client_gone:
  assumes h: "client_holds e as n out r st" and seen: "sees r [WBit True] r'"
  shows "\<exists>st1. CL_DeltaClient k a False st = Done st1 \<and> client_holds e as n out r' st1"
proof -
  obtain old cl frame where e: "e = (old, cl, frame)" by (cases e)
  have st: "st = client_state cl frame out r" "read_inv r" "length (ca_parseClients cl) = 2048"
    using h by (simp_all add: client_holds_def stored_from_def e)
  have "read_inv r'" using sees_forward [OF seen _ st(2)] by simp
  moreover obtain c where "peek (ring_store (ca_parseClients cl) (nat (ca_parseClientSequence cl)) out)
      (parse_slot (ca_parseClientSequence cl + int (length out))) = Some c"
    by (simp add: peek_def parse_slot_eq st(3))
  moreover have "MSG_ReadBit r = Some (1, r')" using seen by auto
  ultimately have "CL_DeltaClient k a False st = Done (client_state cl frame out r')"
    by (simp add: CL_DeltaClient_def Let_def client_state_def MSG_ReadDeltaClient_def MSG_ReadDeltaStruct_def st(1))
  then show ?thesis using h \<open>read_inv r'\<close> by (simp add: client_holds_def e)
qed

interpretation clients: packet_channel client_env_parser client_env_wire client_holds client_fits 64
proof
  fix e :: client_env and as n out r st r' a b k i
  obtain old cl frame where e: "e = (old, cl, frame)" by (cases e)
  note defs = e client_env_parser_def client_env_wire_def client_packet_def client_parser_def
  show "(64 :: int) \<le> 9999" by simp
  show "list_all plain_op (wp_head (client_env_wire e) k @ wp_body (client_env_wire e) a b @
      wp_gone (client_env_wire e) @ wp_end (client_env_wire e))"
    by (simp add: defs)
  show "wp_same (client_env_wire e) a b \<Longrightarrow> client_fits a b \<Longrightarrow> a ! 0 = b ! 0 \<Longrightarrow> a = b"
    by (simp add: defs client_same)
  assume h: "client_holds e as n out r st"
  then show "read_inv r" by (simp add: client_holds_def e)
  have st: "stored_from 23 (ca_parseClients cl) (ca_parseClientSequence cl) (client_window old) as n out"
    and eq: "st = client_state cl frame out r"
    using h by (simp_all add: client_holds_def e)
  show "pp_count (client_env_parser e) = int (length as)"
    using st by (cases old) (auto simp: defs stored_from_def client_window_def)
  show "\<exists>st1. pp_next (client_env_parser e) st = Done (None, st1) \<and> client_holds e as n out r' st1"
    if "sees r (wp_end (client_env_wire e)) r'"
  proof -
    have "MSG_ReadBit r = Some (0, r')" using that by (auto simp: defs)
    moreover have "read_inv r'" using sees_forward [OF that] \<open>read_inv r\<close> by (simp add: defs)
    ultimately show ?thesis using h eq by (auto simp: defs next_client_def client_state_def client_holds_def)
  qed
  show "\<exists>r1 st1. pp_next (client_env_parser e) st = Done (Some k, st1) \<and> client_holds e as n out r1 st1 \<and>
      sees r1 xs r' \<and> bits_left r1 < bits_left r"
    if "sees r (wp_head (client_env_wire e) k @ xs) r'" "0 \<le> k" "k < 64" "list_all plain_op xs" "m_readcount r' \<le> m_cursize r'" for xs
    using client_next [OF h [unfolded e], of k xs r'] that by (fastforce simp: defs)
  show "\<exists>st1. pp_delta (client_env_parser e) (b ! 0) None False st = Done st1 \<and> client_holds e as n (out @ [b]) r' st1"
    if "length out < n" "sees r (wp_body (client_env_wire e) (wp_base (client_env_wire e) b) b) r'"
      "client_fits (wp_base (client_env_wire e) b) b"
    using client_put [OF h that(1), of "replicate 23 0" b r'] that(2,3) by (simp add: defs eq client_state_def)
  assume i: "i < length as"
  obtain cl1 frame1 m1 where tuple: "st = (cl1, frame1, m1)" by (cases st)
  note old = client_old [OF h [unfolded e] i, unfolded tuple fst_conv]
  have as_i: "length (as ! i) = 23" using stored_records [OF st nth_mem [OF i]] .
  show "pp_number (client_env_parser e) st (int i) = Done (as ! i ! 0)"
    using old as_i by (simp add: defs mem_simps tuple)
  show "\<exists>st1. pp_delta (client_env_parser e) k (Some (int i)) True st = Done st1 \<and> client_holds e as n (out @ [as ! i]) r st1"
    if room: "length out < n"
    using DeltaClient_put [OF h [unfolded e] room, of True "as ! i" k "as ! i" r] as_i \<open>read_inv r\<close> old
    by (simp add: defs tuple)
  show "\<exists>st1. pp_delta (client_env_parser e) (b ! 0) (Some (int i)) False st = Done st1 \<and> client_holds e as n (out @ [b]) r' st1"
    if "length out < n" "as ! i ! 0 = b ! 0" "sees r (wp_body (client_env_wire e) (as ! i) b) r'" "client_fits (as ! i) b"
    using client_put [OF h that(1), of "as ! i" b r'] that(3,4) old by (simp add: defs tuple)
  show "\<exists>st1. pp_delta (client_env_parser e) k (Some (int i)) False st = Done st1 \<and> client_holds e as n out r' st1"
    if "sees r (wp_gone (client_env_wire e)) r'"
    using client_gone [OF h, of r' k "as ! i"] that old by (simp add: defs tuple)
qed

end
