(* ===== verification/Snapshot_Correct.thy ===== *)
theory Snapshot_Correct
  imports Snapshot_Channels SvCommands_Correct
begin

text \<open>
  Snapshots end to end: what the server writes for a frame is a sequence of wire operations that
  depends only on the contents of the two frames, and the client turns it into the new frame when
  it holds the old one.
\<close>

section \<open>The server's windows\<close>

definition server_window :: "block list \<Rightarrow> int \<Rightarrow> int \<Rightarrow> int \<Rightarrow> block list \<Rightarrow> bool" where
  "server_window ring size' first number as \<longleftrightarrow>
     size' = int (length ring) \<and> number = int (length as) \<and> 0 \<le> first \<and> first + number < 2147483648 \<and>
     (as \<noteq> [] \<longrightarrow> ring \<noteq> []) \<and> window ring (nat first) (nat first + length as) = as"

lemma server_window_reads:
  assumes "server_window ring size' first number as"
  shows "reads_list (window_record ring size' number first) as"
proof -
  have h: "size' = int (length ring)" "number = int (length as)" "0 \<le> first" "first + number < 2147483648"
      "as \<noteq> [] \<longrightarrow> ring \<noteq> []" "window ring (nat first) (nat first + length as) = as"
    using assms by (simp_all add: server_window_def)
  have "ring_at ring size' (i32 (int i + first)) = Some (as ! i)" if i: "i < length as" for i
  proof -
    have ne: "ring \<noteq> []" using h(5) i by auto
    have "i32 (int i + first) = int i + first" using h i by (intro i32_id) auto
    moreover have "(int i + first) smod size' = (int i + first) mod int (length ring)"
      using ne h(1,3) by (simp add: smod_pos)
    moreover have "nat ((int i + first) mod int (length ring)) = (nat first + i) mod length ring"
      using h(3) by (simp add: nat_mod_distrib nat_add_distrib add.commute)
    moreover have "as ! i = ring ! ((nat first + i) mod length ring)"
      using window_nth [of i "nat first + length as" "nat first" ring] i h(6) by simp
    ultimately show ?thesis using ne h(1) by (simp add: ring_at_def peek_eq_Some)
  qed
  then show ?thesis by (simp add: reads_list_def window_record_def h(2))
qed

lemma empty_window: "server_window ring (int (length ring)) 0 0 []"
  by (simp add: server_window_def)

section \<open>The server's writers\<close>

lemma unchanged_written:
  assumes "table_ok (length a) fs" "length b = length a" "unchanged a b fs"
  shows "MSG_WriteDeltaStruct m a (Some b) False nb fs extra fb = Some m"
  using changed_count_spec [OF assms(1,2)] assms(3) by (simp add: MSG_WriteDeltaStruct_def Let_def)

lemma entity_changed_written:
  assumes "length a = 61" "length b = 61"
  shows "MSG_WriteDeltaEntity m a (Some b) False =
    write_ops (if unchanged a b (entity_table b) then []
      else [WBits (b ! 0) 10] @ WBit (b ! 1 = ET_VEHICLE) # WBit False # record_ops a b (entity_table b)) m"
proof (cases "unchanged a b (entity_table b)")
  case True
  have "is_vehicle (Some b) = Some (b ! 1 = ET_VEHICLE)" using assms(2) by (simp add: is_vehicle_def mem_simps)
  then show ?thesis
    using True unchanged_written [of a "entity_table b" b] table_complete_ok [OF entity_table_complete, of a b] assms
    by (simp add: MSG_WriteDeltaEntity_def entity_table_def)
next
  case False
  then show ?thesis using write_entity_ops [OF assms, of False m] by (simp add: entity_ops_def)
qed

lemma entity_gone_written:
  assumes "length a = 61"
  shows "MSG_WriteDeltaEntity m a None True = write_ops [WBits (a ! 0) 10, WBit False, WBit True] m"
proof -
  have "(case Some MSG_WriteDeltaEntity_ChangedCallback of None \<Rightarrow> Some m' | Some w \<Rightarrow> w m' None) = write_ops [WBit False] m'" for m'
    by (simp add: MSG_WriteDeltaEntity_ChangedCallback_def is_vehicle_def)
  from write_removed_ops [OF _ this, of a m True 10 msg_defaultEntityNetFields False] assms
  show ?thesis by (simp add: MSG_WriteDeltaEntity_def is_vehicle_def)
qed

lemma entities_written:
  assumes "list_all (\<lambda>a. length a = 61) (as @ bs)" "length baselines = 1024" "list_all (\<lambda>a. length a = 61) baselines"
    and "list_all (\<lambda>b. 0 \<le> b ! 0 \<and> b ! 0 < 1023) bs"
  shows "writes_packet (entity_packet baselines) (entity_writers baselines) as bs"
proof -
  have "rw_new (entity_writers baselines) (b ! 0) (Some b) m =
      write_ops ([WBits (b ! 0) 10] @ WBit (b ! 1 = ET_VEHICLE) # WBit False #
        record_ops (baselines ! nat (b ! 0)) b (entity_table b)) m" if "b \<in> set bs" for b m
  proof -
    have b: "length b = 61" "0 \<le> b ! 0" "b ! 0 < 1023" using assms(1,4) that by (auto simp: list_all_iff)
    then have "peek baselines (b ! 0) = Some (baselines ! nat (b ! 0))" "length (baselines ! nat (b ! 0)) = 61"
      using assms(2,3) by (simp_all add: peek_eq_Some list_all_length)
    then show ?thesis
      using write_entity_ops [of "baselines ! nat (b ! 0)" b True m] b(1)
      by (simp add: entity_writers_def entity_ops_def)
  qed
  then show ?thesis
    using assms(1) entity_changed_written entity_gone_written
    by (auto simp: writes_packet_def entity_packet_def entity_writers_def list_all_iff)
qed

lemma clients_written:
  assumes "list_all (\<lambda>a. length a = 23) (as @ bs)"
  shows "writes_packet client_packet client_writers as bs"
proof -
  have ok: "table_ok (length a) msg_clientNetFields" if "length a = 23" for a
    using table_complete_ok [OF client_table_complete, of a] that by simp
  have changed: "MSG_WriteDeltaClient m (Some a) (Some b) False =
      write_ops (if unchanged a b msg_clientNetFields then []
        else [WBit True, WBits (b ! 0) 6] @ WBit False # record_ops a b msg_clientNetFields) m"
    if "length a = 23" "length b = 23" for a b m
    using unchanged_written [OF ok [OF that(1)], of b m 6 None True]
      write_struct_ops [OF ok [OF that(1)], of b False None "[]" m 6 True] that
    by (auto simp: MSG_WriteDeltaClient_def client_base_def)
  have new: "MSG_WriteDeltaClient m None (Some b) True =
      write_ops ([WBit True, WBits (b ! 0) 6] @ WBit False # record_ops (replicate 23 0) b msg_clientNetFields) m"
    if "length b = 23" for b m
    using write_struct_ops [OF ok, of "replicate 23 0" b True None "[]" m 6 True] that
    by (simp add: MSG_WriteDeltaClient_def client_base_def)
  have gone: "MSG_WriteDeltaClient m (Some a) None True = write_ops [WBit True, WBits (a ! 0) 6, WBit True] m"
    if "length a = 23" for a m
    using write_removed_ops [of a None "[]" m True 6 msg_clientNetFields True] that
    by (simp add: MSG_WriteDeltaClient_def client_base_def)
  show ?thesis
    using assms changed new gone
    by (auto simp: writes_packet_def client_packet_def client_writers_def list_all_iff)
qed

section \<open>Frames\<close>

text \<open>What a frame stands for, on either side.\<close>

record frame_view =
  fv_state :: playerState_t
  fv_entities :: "block list"
  fv_clients :: "block list"

definition empty_view :: frame_view where
  "empty_view = \<lparr>fv_state = null_state, fv_entities = [], fv_clients = []\<rparr>"

definition numbered :: "nat \<Rightarrow> int \<Rightarrow> block list \<Rightarrow> bool" where
  "numbered dim limit as \<longleftrightarrow> list_all (\<lambda>a. length a = dim \<and> 0 \<le> a ! 0 \<and> a ! 0 < limit) as \<and> increasing as"

definition view_ok :: "frame_view \<Rightarrow> bool" where
  "view_ok v \<longleftrightarrow> state_ok (fv_state v) \<and> numbered 61 1023 (fv_entities v) \<and> numbered 23 64 (fv_clients v)"

definition server_frame :: "serverStatic_t \<Rightarrow> clientSnapshot_t \<Rightarrow> frame_view \<Rightarrow> bool" where
  "server_frame svs f v \<longleftrightarrow> sf_playerState f = fv_state v \<and>
     server_window (svs_entityStateSnapshots svs) (svs_numEntityStateSnapshots svs) (sf_firstEntity f)
       (sf_numEntities f) (fv_entities v) \<and>
     server_window (svs_clientSnapshots svs) (svs_numClientSnapshots svs) (sf_firstClient f)
       (sf_numClients f) (fv_clients v)"

definition baselines_ok :: "block list \<Rightarrow> bool" where
  "baselines_ok bl \<longleftrightarrow> length bl = 1024 \<and> list_all (\<lambda>b. length b = 61) bl"

definition frame_ops :: "block list \<Rightarrow> frame_view \<Rightarrow> frame_view \<Rightarrow> wire_op list" where
  "frame_ops baselines base v = state_ops (fv_state base) (fv_state v) @
     (packet_ops (entity_packet baselines) (fv_entities base) (fv_entities v) @ [WBits 1023 10]) @
     (packet_ops client_packet (fv_clients base) (fv_clients v) @ [WBit False])"

lemma numbered_keyed: "numbered dim limit as \<Longrightarrow> limit \<le> 9999 \<Longrightarrow> 0 < dim \<Longrightarrow> keyed as"
  by (auto simp: numbered_def keyed_def list_all_iff)

lemma emit_entities_ops:
  assumes "server_window (svs_entityStateSnapshots svs) (svs_numEntityStateSnapshots svs) f1 n1 as"
    "server_window (svs_entityStateSnapshots svs) (svs_numEntityStateSnapshots svs) f2 n2 bs"
    "numbered 61 1023 as" "numbered 61 1023 bs" "baselines_ok (sv_baselines svs)"
  shows "SV_EmitPacketEntities svs n1 f1 n2 f2 m =
    write_ops (packet_ops (entity_packet (sv_baselines svs)) as bs @ [WBits 1023 10]) m"
proof -
  have n: "n1 = int (length as)" "n2 = int (length bs)" using assms(1,2) by (simp_all add: server_window_def)
  have "writes_packet (entity_packet (sv_baselines svs)) (entity_writers (sv_baselines svs)) as bs"
    using assms(3-5) by (intro entities_written) (auto simp: numbered_def baselines_ok_def list_all_iff)
  from emit_records_ops [OF server_window_reads [OF assms(1)] server_window_reads [OF assms(2)]
      numbered_keyed [OF assms(3)] numbered_keyed [OF assms(4)] this, of 0 0]
  show ?thesis by (simp add: SV_EmitPacketEntities_def Let_def n)
qed

lemma emit_clients_ops:
  assumes "server_window (svs_clientSnapshots svs) (svs_numClientSnapshots svs) f1 n1 as"
    "server_window (svs_clientSnapshots svs) (svs_numClientSnapshots svs) f2 n2 bs"
    "numbered 23 64 as" "numbered 23 64 bs"
  shows "SV_EmitPacketClients svs n1 f1 n2 f2 m = write_ops (packet_ops client_packet as bs @ [WBit False]) m"
proof -
  have n: "n1 = int (length as)" "n2 = int (length bs)" using assms(1,2) by (simp_all add: server_window_def)
  have "writes_packet client_packet client_writers as bs"
    using assms(3,4) by (intro clients_written) (auto simp: numbered_def list_all_iff)
  from emit_records_ops [OF server_window_reads [OF assms(1)] server_window_reads [OF assms(2)]
      numbered_keyed [OF assms(3)] numbered_keyed [OF assms(4)] this, of 0 0]
  show ?thesis by (simp add: SV_EmitPacketClients_def Let_def n)
qed

text \<open>The frame a snapshot is a difference from, or nothing.\<close>

definition server_base :: "serverStatic_t \<Rightarrow> clientSnapshot_t option \<Rightarrow> frame_view \<Rightarrow> bool" where
  "server_base svs old base \<longleftrightarrow> (case old of None \<Rightarrow> base = empty_view | Some f \<Rightarrow> server_frame svs f base)"

lemma empty_view_ok: "view_ok empty_view"
  by (simp add: view_ok_def empty_view_def null_state_ok numbered_def increasing_def)

lemma write_frame_ops:
  assumes "server_base svs old base" "server_frame svs f v" "view_ok base" "view_ok v" "baselines_ok (sv_baselines svs)"
  shows "write_frame svs old f m = write_ops (frame_ops (sv_baselines svs) base v) m"
proof -
  have ok: "state_ok (fv_state base)" "state_ok (fv_state v)" using assms(3,4) by (simp_all add: view_ok_def)
  have ps: "state_base (map_option sf_playerState old) = fv_state base"
    using assms(1) by (auto simp: server_base_def server_frame_def state_base_def empty_view_def split: option.splits)
  have st: "MSG_WriteDeltaPlayerstate m (map_option sf_playerState old) (sf_playerState f) =
      write_ops (state_ops (fv_state base) (fv_state v)) m"
    using write_state_ops [of "map_option sf_playerState old" "fv_state v" m] ok assms(2)
    by (simp add: ps server_frame_def)
  define n1 f1 n2 f2 where "n1 = (case old of None \<Rightarrow> 0 | Some g \<Rightarrow> sf_numEntities g)"
    and "f1 = (case old of None \<Rightarrow> 0 | Some g \<Rightarrow> sf_firstEntity g)"
    and "n2 = (case old of None \<Rightarrow> 0 | Some g \<Rightarrow> sf_numClients g)"
    and "f2 = (case old of None \<Rightarrow> 0 | Some g \<Rightarrow> sf_firstClient g)"
  have win: "server_window (svs_entityStateSnapshots svs) (svs_numEntityStateSnapshots svs) f1 n1 (fv_entities base)"
      "server_window (svs_clientSnapshots svs) (svs_numClientSnapshots svs) f2 n2 (fv_clients base)"
    using assms(1,2) empty_window
    by (auto simp: server_base_def n1_def f1_def n2_def f2_def server_frame_def server_window_def empty_view_def
        split: option.splits)
  have "write_frame svs old f m = do {
     m1 \<leftarrow> MSG_WriteDeltaPlayerstate m (map_option sf_playerState old) (sf_playerState f);
     m2 \<leftarrow> SV_EmitPacketEntities svs n1 f1 (sf_numEntities f) (sf_firstEntity f) m1;
     SV_EmitPacketClients svs n2 f2 (sf_numClients f) (sf_firstClient f) m2 }"
    by (cases old) (simp_all add: write_frame_def n1_def f1_def n2_def f2_def)
  also have "\<dots> = write_ops (frame_ops (sv_baselines svs) base v) m"
  proof -
    have "SV_EmitPacketEntities svs n1 f1 (sf_numEntities f) (sf_firstEntity f) =
        write_ops (packet_ops (entity_packet (sv_baselines svs)) (fv_entities base) (fv_entities v) @ [WBits 1023 10])"
      using emit_entities_ops [OF win(1)] assms(2-5) by (intro ext) (simp add: server_frame_def view_ok_def)
    moreover have "SV_EmitPacketClients svs n2 f2 (sf_numClients f) (sf_firstClient f) =
        write_ops (packet_ops client_packet (fv_clients base) (fv_clients v) @ [WBit False])"
      using emit_clients_ops [OF win(2)] assms(2-4) by (intro ext) (simp add: server_frame_def view_ok_def)
    ultimately show ?thesis by (simp add: st frame_ops_def Option.bind_assoc)
  qed
  finally show ?thesis .
qed

text \<open>A whole snapshot, behind its command byte.\<close>

definition snapshot_ops :: "serverStatic_t \<Rightarrow> snapshot_client \<Rightarrow> int \<Rightarrow> frame_view \<Rightarrow> frame_view \<Rightarrow> wire_op list" where
  "snapshot_ops svs client deltaFrame base v =
     [WLong (svs_time svs), WByte deltaFrame,
      WByte (snapshot_flags svs (client\<lparr>sn_sendAsActive := send_as_active client\<rparr>))] @ frame_ops (sv_baselines svs) base v"

lemma pad_ops: "pad_packets n = write_ops (replicate n (WByte 1))"
  by (induction n) (auto intro!: ext)

lemma WriteSnapshot_ops:
  assumes "peek (sn_snapshotFrames client) (frame_slot (n_outgoingSequence (c_netchan (sn_client client)))) = Some f"
    and "delta_base svs client = Some (old, deltaFrame)" "server_base svs old base" "server_frame svs f v"
    and "view_ok base" "view_ok v" "baselines_ok (sv_baselines svs)"
  shows "SV_WriteSnapshotToClient svs client m = map_option (Pair (client\<lparr>sn_sendAsActive := send_as_active client\<rparr>))
    (write_ops (WByte 7 # snapshot_ops svs client deltaFrame base v @ replicate (nat (sv_padPackets svs)) (WByte 1)) m)"
  using assms(1,2) write_frame_ops [OF assms(3-7)]
  by (simp add: SV_WriteSnapshotToClient_def snapshot_ops_def pad_ops Option.bind_assoc Let_def map_conv_bind_option
      comp_def)

section \<open>The client's frames\<close>

definition client_wf :: "clientActive_t \<Rightarrow> bool" where
  "client_wf cl \<longleftrightarrow>
     length (ca_parseEntities cl) = 2048 \<and> list_all (\<lambda>b. length b = 61) (ca_parseEntities cl) \<and>
     length (ca_parseClients cl) = 2048 \<and> list_all (\<lambda>b. length b = 23) (ca_parseClients cl) \<and>
     baselines_ok (ca_entityBaselines cl) \<and> length (ca_snapshots cl) = 32 \<and> length (ca_outPackets cl) = 32 \<and>
     0 \<le> ca_parseEntitySequence cl \<and> 0 \<le> ca_parseClientSequence cl \<and> \<not> ca_onlyVisibleClients cl"

text \<open>The window \<open>(first, number)\<close> of a ring whose next sequence is \<open>next\<close> holds \<open>as\<close>.\<close>

definition ring_window :: "block list \<Rightarrow> int \<Rightarrow> int \<Rightarrow> int \<Rightarrow> block list \<Rightarrow> bool" where
  "ring_window ring next' first number as \<longleftrightarrow> number = int (length as) \<and> 0 \<le> first \<and> first + number \<le> next' \<and>
     window ring (nat first) (nat first + length as) = as"

definition client_frame :: "clientActive_t \<Rightarrow> clSnapshot_t \<Rightarrow> frame_view \<Rightarrow> bool" where
  "client_frame cl f v \<longleftrightarrow> cf_ps f = fv_state v \<and>
     ring_window (ca_parseEntities cl) (ca_parseEntitySequence cl) (cf_firstEntitySequence f) (cf_numEntities f)
       (fv_entities v) \<and>
     ring_window (ca_parseClients cl) (ca_parseClientSequence cl) (cf_firstClientSequence f) (cf_numClients f)
       (fv_clients v)"

definition client_base_view :: "clientActive_t \<Rightarrow> clSnapshot_t option \<Rightarrow> frame_view \<Rightarrow> bool" where
  "client_base_view cl old base \<longleftrightarrow> (case old of None \<Rightarrow> base = empty_view | Some f \<Rightarrow> client_frame cl f base)"

text \<open>Neither ring comes round to the old frame while the new one is stored.\<close>

definition rings_free :: "clientActive_t \<Rightarrow> clSnapshot_t option \<Rightarrow> frame_view \<Rightarrow> bool" where
  "rings_free cl old v \<longleftrightarrow>
     ca_parseEntitySequence cl + int (length (fv_entities v)) < 2147483648 \<and>
     ca_parseClientSequence cl + int (length (fv_clients v)) < 2147483648 \<and>
     (case old of None \<Rightarrow> True
      | Some f \<Rightarrow> ca_parseEntitySequence cl + int (length (fv_entities v)) \<le> cf_firstEntitySequence f + 2048 \<and>
          ca_parseClientSequence cl + int (length (fv_clients v)) \<le> cf_firstClientSequence f + 2048)"

text \<open>The changes between two frames are ones the wire carries and the client accepts.\<close>

definition view_carried :: "block list \<Rightarrow> frame_view \<Rightarrow> frame_view \<Rightarrow> bool" where
  "view_carried baselines base v \<longleftrightarrow>
     state_carried (fv_state base) (fv_state v) \<and> state_valid (fv_state v) \<and>
     0 \<le> ps_head (fv_state v) ! 53 \<and> ps_head (fv_state v) ! 53 < 64 \<and>
     list_all entity_allowed (fv_entities base) \<and>
     sendable (entity_packet baselines) entity_fits 1023 (fv_entities base) (fv_entities v) \<and>
     sendable client_packet client_fits 64 (fv_clients base) (fv_clients v)"

definition with_view :: "clientActive_t \<Rightarrow> frame_view \<Rightarrow> clientActive_t" where
  "with_view cl v = cl\<lparr>
     ca_parseEntities := ring_store (ca_parseEntities cl) (nat (ca_parseEntitySequence cl)) (fv_entities v),
     ca_parseEntitySequence := ca_parseEntitySequence cl + int (length (fv_entities v)),
     ca_parseClients := ring_store (ca_parseClients cl) (nat (ca_parseClientSequence cl)) (fv_clients v),
     ca_parseClientSequence := ca_parseClientSequence cl + int (length (fv_clients v))\<rparr>"

definition frame_with :: "clientActive_t \<Rightarrow> clSnapshot_t \<Rightarrow> frame_view \<Rightarrow> clSnapshot_t" where
  "frame_with cl frame v = frame\<lparr>
     cf_firstEntitySequence := ca_parseEntitySequence cl, cf_numEntities := int (length (fv_entities v)),
     cf_firstClientSequence := ca_parseClientSequence cl, cf_numClients := int (length (fv_clients v))\<rparr>"

lemma numbered_length: "numbered dim limit as \<Longrightarrow> int (length as) \<le> limit \<or> as = []"
proof -
  assume h: "numbered dim limit as"
  have "int i \<le> as ! i ! 0" if "i < length as" for i using that
  proof (induction i)
    case 0
    then show ?case using h by (simp add: numbered_def list_all_length)
  next
    case (Suc i)
    then show ?case using increasing_nth [of as i "Suc i"] h by (simp add: numbered_def)
  qed
  from this [of "length as - 1"] show ?thesis using h
    by (cases "as = []") (auto simp: numbered_def list_all_length dest!: spec [of _ "length as - 1"])
qed

lemma entities_parsed:
  assumes "client_wf cl" "client_base_view cl old base" "rings_free cl old v" "view_ok base" "view_ok v"
    and "view_carried (ca_entityBaselines cl) base v" "read_inv r" "m_readcount r' \<le> m_cursize r'"
    and "sees r (packet_ops (entity_packet (ca_entityBaselines cl)) (fv_entities base) (fv_entities v) @ [WBits 1023 10]) r'"
  shows "CL_ParsePacketEntities visible old (cl, frame, r) =
    Done (entity_state cl (frame\<lparr>cf_firstEntitySequence := ca_parseEntitySequence cl\<rparr>) (fv_entities v) r')"
proof -
  define frame' where "frame' = frame\<lparr>cf_firstEntitySequence := ca_parseEntitySequence cl, cf_numEntities := 0\<rparr>"
  define e where "e = (visible, old, cl, frame')"
  let ?as = "fv_entities base" and ?bs = "fv_entities v"
  have num: "numbered 61 1023 ?as" "numbered 61 1023 ?bs" using assms(4,5) by (simp_all add: view_ok_def)
  have "length ?bs \<le> 2048" using numbered_length [OF num(2)] by auto
  then have "stored_from 61 (ca_parseEntities cl) (ca_parseEntitySequence cl) (entity_window old) ?as (length ?bs) []"
    using assms(1-3)
    by (auto simp: stored_from_def client_wf_def client_base_view_def rings_free_def client_frame_def ring_window_def
        entity_window_def empty_view_def split: option.splits)
  then have h: "entity_holds e ?as (length ?bs) [] r (cl, frame', r)"
    using assms(1,6,7) by (simp add: entity_holds_def e_def client_wf_def view_carried_def baselines_ok_def
        entity_state_def frame'_def)
  have wire: "entity_env_wire e = entity_packet (ca_entityBaselines cl)" "wp_end (entity_env_wire e) = [WBits 1023 10]"
    by (simp_all add: entity_env_wire_def e_def entity_packet_def)
  have nums: "increasing ?as" "increasing ?bs" "\<And>a. a \<in> set ?as \<Longrightarrow> 0 \<le> a ! 0 \<and> a ! 0 < 1023"
    using num by (auto simp: numbered_def list_all_iff)
  have seen: "sees r (packet_ops (entity_env_wire e) ?as ?bs @ wp_end (entity_env_wire e)) r'"
    unfolding wire(2) unfolding wire(1) by (rule assms(9))
  have send: "sendable (entity_env_wire e) entity_fits 1023 ?as ?bs"
    using assms(6) by (simp add: wire(1) view_carried_def)
  from entities.packet_parsed [OF h nums(1,3) seen assms(8) le_refl nums(2) send] obtain st1
    where st1: "parse_packet (entity_env_parser e) (cl, frame', r) = Done st1" "entity_holds e ?as (length ?bs) ?bs r' st1"
    by blast
  have "st1 = entity_state cl frame' ?bs r'" using st1(2) by (simp add: entity_holds_def e_def)
  then show ?thesis
    using st1(1) by (simp add: CL_ParsePacketEntities_def entity_env_parser_def e_def frame'_def entity_state_def)
qed

lemma clients_parsed:
  assumes "client_wf cl" "client_base_view cl old base" "rings_free cl old v" "view_ok base" "view_ok v"
    and "view_carried baselines base v" "read_inv r" "m_readcount r' \<le> m_cursize r'"
    and same: "ca_parseClients cl2 = ca_parseClients cl" "ca_parseClientSequence cl2 = ca_parseClientSequence cl"
    and seen': "sees r (packet_ops client_packet (fv_clients base) (fv_clients v) @ [WBit False]) r'"
  shows "CL_ParsePacketClients old (cl2, frame, r) =
    Done (client_state cl2 (frame\<lparr>cf_firstClientSequence := ca_parseClientSequence cl\<rparr>) (fv_clients v) r')"
proof -
  define frame' where "frame' = frame\<lparr>cf_firstClientSequence := ca_parseClientSequence cl, cf_numClients := 0\<rparr>"
  define e where "e = (old, cl2, frame')"
  let ?as = "fv_clients base" and ?bs = "fv_clients v"
  have num: "numbered 23 64 ?as" "numbered 23 64 ?bs" using assms(4,5) by (simp_all add: view_ok_def)
  have "length ?bs \<le> 2048" using numbered_length [OF num(2)] by auto
  then have "stored_from 23 (ca_parseClients cl) (ca_parseClientSequence cl) (client_window old) ?as (length ?bs) []"
    using assms(1-3)
    by (auto simp: stored_from_def client_wf_def client_base_view_def rings_free_def client_frame_def ring_window_def
        client_window_def empty_view_def split: option.splits)
  then have h: "client_holds e ?as (length ?bs) [] r (cl2, frame', r)"
    using assms(7) by (simp add: client_holds_def e_def client_state_def frame'_def same)
  have wire: "client_env_wire e = client_packet" "wp_end (client_env_wire e) = [WBit False]"
    by (simp_all add: client_env_wire_def e_def client_packet_def)
  have nums: "increasing ?as" "increasing ?bs" "\<And>a. a \<in> set ?as \<Longrightarrow> 0 \<le> a ! 0 \<and> a ! 0 < 64"
    using num by (auto simp: numbered_def list_all_iff)
  have seen: "sees r (packet_ops (client_env_wire e) ?as ?bs @ wp_end (client_env_wire e)) r'"
    unfolding wire(2) unfolding wire(1) by (rule seen')
  have send: "sendable (client_env_wire e) client_fits 64 ?as ?bs"
    using assms(6) by (simp add: wire(1) view_carried_def)
  from clients.packet_parsed [OF h nums(1,3) seen assms(8) le_refl nums(2) send] obtain st1
    where st1: "parse_packet (client_env_parser e) (cl2, frame', r) = Done st1" "client_holds e ?as (length ?bs) ?bs r' st1"
    by blast
  have "st1 = client_state cl2 frame' ?bs r'" using st1(2) by (simp add: client_holds_def e_def)
  then show ?thesis
    using st1(1) by (simp add: CL_ParsePacketClients_def client_env_parser_def e_def frame'_def client_state_def same)
qed

section \<open>A snapshot arrives\<close>

lemma snapshot_slot_eq: "snapshot_slot x = x mod 32"
proof -
  have "u32 x AND 31 = u32 x mod 32"
    using take_bit_eq_mask [of 5 "u32 x"] by (simp add: mask_eq_exp_minus_1 take_bit_eq_mod)
  then show ?thesis by (simp add: snapshot_slot_def u32_def mod_mod_cancel)
qed

text \<open>The frames numbered from \<open>a\<close> to \<open>b\<close>, exclusively, are marked as lost.\<close>

definition marked_lost :: "int \<Rightarrow> int \<Rightarrow> clSnapshot_t list \<Rightarrow> clSnapshot_t list \<Rightarrow> bool" where
  "marked_lost a b snaps snaps' \<longleftrightarrow> length snaps' = length snaps \<and>
     (\<forall>i<length snaps. snaps' ! i =
        (if \<exists>k. a \<le> k \<and> k < b \<and> k mod 32 = int i then (snaps ! i)\<lparr>cf_valid := False\<rparr> else snaps ! i))"

lemma marked_lost_step:
  assumes "a < b" "length snaps = 32" "marked_lost (a + 1) b (snaps[i := (snaps ! i)\<lparr>cf_valid := False\<rparr>]) snaps'" "int i = a mod 32"
  shows "marked_lost a b snaps snaps'"
proof -
  have "(\<exists>k. a \<le> k \<and> k < b \<and> k mod 32 = int j) \<longleftrightarrow> j = i \<or> (\<exists>k. a + 1 \<le> k \<and> k < b \<and> k mod 32 = int j)" for j
  proof -
    have "a \<le> k \<and> k < b \<longleftrightarrow> k = a \<or> a + 1 \<le> k \<and> k < b" for k using assms(1) by auto
    then have "(\<exists>k. (a \<le> k \<and> k < b) \<and> k mod 32 = int j) \<longleftrightarrow>
        a mod 32 = int j \<or> (\<exists>k. (a + 1 \<le> k \<and> k < b) \<and> k mod 32 = int j)" by auto
    then show ?thesis using assms(4) by auto
  qed
  moreover have "(snaps[i := (snaps ! i)\<lparr>cf_valid := False\<rparr>] ! j)\<lparr>cf_valid := False\<rparr> = (snaps ! j)\<lparr>cf_valid := False\<rparr>"
    if "j < 32" for j
    using that assms(2) by (cases "i = j") simp_all
  ultimately show ?thesis using assms(2,3) by (auto simp: marked_lost_def nth_list_update)
qed

lemma invalidate_frames_marks:
  "length snaps = 32 \<Longrightarrow> \<exists>snaps'. invalidate_frames a b snaps = Some snaps' \<and> marked_lost a b snaps snaps'"
proof (induction a b snaps rule: invalidate_frames.induct)
  case (1 a b snaps)
  show ?case
  proof (cases "a < b")
    case True
    let ?i = "nat (a mod 32)"
    have i: "?i < 32" "int ?i = a mod 32" by (simp_all add: nat_less_iff)
    have pk: "peek snaps (snapshot_slot a) = Some (snaps ! ?i)"
      "poke snaps (snapshot_slot a) x = Some (snaps[?i := x])" for x
      using 1(2) by (simp_all add: snapshot_slot_eq peek_eq_Some poke_eq_Some)
    obtain snaps' where s: "invalidate_frames (a + 1) b (snaps[?i := (snaps ! ?i)\<lparr>cf_valid := False\<rparr>]) = Some snaps'"
        "marked_lost (a + 1) b (snaps[?i := (snaps ! ?i)\<lparr>cf_valid := False\<rparr>]) snaps'"
      using 1(1) [OF True pk(1) pk(2)] 1(2) by auto
    have "invalidate_frames a b snaps = Some snaps'"
      by (subst invalidate_frames.simps) (simp add: True pk s(1))
    then show ?thesis using marked_lost_step [OF True 1(2) s(2) i(2)] by blast
  next
    case False
    then have "invalidate_frames a b snaps = Some snaps" by (subst invalidate_frames.simps) simp
    then show ?thesis using False by (auto simp: marked_lost_def)
  qed
qed

lemma find_ping_total: "length (ca_outPackets cl) = 32 \<Longrightarrow> \<exists>ping. find_ping n k t cl = Some ping"
  by (induction n arbitrary: k) (auto simp: snapshot_slot_eq mem_simps)

text \<open>The client after it has kept a frame.\<close>

definition kept_frame :: "clientActive_t \<Rightarrow> clSnapshot_t \<Rightarrow> clientActive_t \<Rightarrow> bool" where
  "kept_frame cl frame cl' \<longleftrightarrow> (\<exists>ping snaps.
     marked_lost (first_lost (cf_messageNum (ca_snap cl)) (cf_messageNum frame)) (cf_messageNum frame) (ca_snapshots cl) snaps \<and>
     cl' = cl\<lparr>ca_previousSnapshotServerTime := cf_serverTime (ca_snap cl), ca_snap := frame\<lparr>cf_ping := ping\<rparr>,
       ca_snapshots := snaps[nat (cf_messageNum frame mod 32) := frame\<lparr>cf_ping := ping\<rparr>], ca_newSnapshots := True\<rparr>)"

lemma keep_snapshot_total:
  assumes "length (ca_snapshots cl) = 32" "length (ca_outPackets cl) = 32" "length (ps_head (cf_ps frame)) = 398" "cf_valid frame"
  shows "\<exists>cl'. keep_snapshot cl frame = Some cl' \<and> kept_frame cl frame cl'"
proof -
  obtain snaps where s: "invalidate_frames (first_lost (cf_messageNum (ca_snap cl)) (cf_messageNum frame))
      (cf_messageNum frame) (ca_snapshots cl) = Some snaps"
    "marked_lost (first_lost (cf_messageNum (ca_snap cl)) (cf_messageNum frame)) (cf_messageNum frame) (ca_snapshots cl) snaps"
    using invalidate_frames_marks [OF assms(1)] by blast
  then have "length snaps = 32" using assms(1) by (simp add: marked_lost_def)
  then have pk: "poke snaps (snapshot_slot (cf_messageNum frame)) x = Some (snaps[nat (cf_messageNum frame mod 32) := x])" for x
    by (simp add: snapshot_slot_eq poke_eq_Some)
  obtain ping where "find_ping 32 (i32 (ca_outgoingSequence cl - 1)) (ps_head (cf_ps frame) ! 0) cl = Some ping"
    using find_ping_total [OF assms(2)] by blast
  then show ?thesis using s pk assms(3,4) by (auto simp: keep_snapshot_def kept_frame_def mem_simps Let_def)
qed

text \<open>The header, and the frame the client begins with.\<close>

definition header_frame :: "clientActive_t \<Rightarrow> int \<Rightarrow> int \<Rightarrow> int \<Rightarrow> clSnapshot_t" where
  "header_frame cl time deltaFrame flags = zero_snapshot\<lparr>
     cf_serverCommandSequence := ca_serverCommandSequence cl, cf_serverTime := i32 time,
     cf_messageNum := ca_serverMessageSequence cl,
     cf_deltaNum := (if deltaFrame = 0 then -1 else ca_serverMessageSequence cl - deltaFrame),
     cf_snapFlags := u8 flags, cf_valid := True\<rparr>"

text \<open>The frame the client takes as the parent is the one the server wrote against.\<close>

definition parent_held :: "clientActive_t \<Rightarrow> int \<Rightarrow> clSnapshot_t option \<Rightarrow> bool" where
  "parent_held cl deltaFrame old \<longleftrightarrow> 0 \<le> deltaFrame \<and> deltaFrame < 256 \<and> deltaFrame < ca_serverMessageSequence cl \<and>
     ca_serverMessageSequence cl < 2147483648 \<and>
     (if deltaFrame = 0 then old = None
      else let number = ca_serverMessageSequence cl - deltaFrame; f = ca_snapshots cl ! nat (number mod 32) in
        old = Some f \<and> parent_usable cl f number)"

lemma header_read:
  assumes "sees r ([WLong time, WByte deltaFrame, WByte flags] @ xs) r'" "parent_held cl deltaFrame old" "length (ca_snapshots cl) = 32" "read_inv r"
  shows "\<exists>r1 frame0 cl1. read_inv r1 \<and> read_header cl r = Some (frame0, r1) \<and> sees r1 xs r' \<and>
    choose_parent cl frame0 = Some (old, cl1, header_frame cl time deltaFrame flags) \<and>
    (cl1 = cl \<or> cl1 = cl\<lparr>ca_demoWaiting := False\<rparr>)"
proof -
  let ?n = "ca_serverMessageSequence cl"
  have d: "0 \<le> deltaFrame" "deltaFrame < 256" "deltaFrame < ?n" "?n < 2147483648"
    using assms(2) by (simp_all add: parent_held_def)
  have u: "u8 deltaFrame = deltaFrame" "i32 (u32 ?n - u32 deltaFrame) = ?n - deltaFrame" "u32 (u8 flags) = u8 flags"
    using d by (simp_all add: u8_id u32_id i32_id u8_def [of flags])
  obtain r1 where "MSG_ReadLong r = Some (i32 time, r1)" "sees r1 ([WByte deltaFrame, WByte flags] @ xs) r'"
    using assms(1) by auto
  then obtain r2 r3 where r: "MSG_ReadLong r = Some (i32 time, r1)" "MSG_ReadByte r1 = Some (deltaFrame, r2)"
      "MSG_ReadByte r2 = Some (u8 flags, r3)" "sees r3 xs r'" by (auto simp: u(1))
  have "read_inv r3"
    using MSG_ReadLong_ok [OF assms(4)] MSG_ReadByte_ok [of r1] MSG_ReadByte_ok [of r2] r by (auto simp: reads_ok_def)
  show ?thesis
  proof (cases "deltaFrame = 0")
    case True
    then show ?thesis using r \<open>read_inv r3\<close> assms(2) u
      by (auto simp: read_header_def choose_parent_def header_frame_def parent_held_def Let_def)
  next
    case False
    have "peek (ca_snapshots cl) (snapshot_slot (?n - deltaFrame)) = Some (ca_snapshots cl ! nat ((?n - deltaFrame) mod 32))"
      using assms(3) by (simp add: snapshot_slot_eq peek_eq_Some)
    then show ?thesis using False r \<open>read_inv r3\<close> assms(2) u d
      by (auto simp: read_header_def choose_parent_def header_frame_def parent_held_def Let_def)
  qed
qed

lemma ring_window_store:
  assumes "ring_window ring next' first number as" "length ring = 2048" "next' + int (length out) \<le> first + 2048"
  shows "ring_window (ring_store ring (nat next') out) (next' + int (length out)) first number as"
  using assms ring_store_other [of "nat first" "nat first + length as" "nat next'" out ring]
  by (auto simp: ring_window_def)

lemma ring_window_new:
  assumes "length ring = 2048" "length out \<le> 2048" "0 \<le> next'"
  shows "ring_window (ring_store ring (nat next') out) (next' + int (length out)) next' (int (length out)) out"
  using assms ring_store_window [of out ring "nat next'"] by (simp add: ring_window_def)

lemma view_lengths: "view_ok v \<Longrightarrow> length (fv_entities v) \<le> 2048 \<and> length (fv_clients v) \<le> 2048"
  using numbered_length [of 61 1023 "fv_entities v"] numbered_length [of 23 64 "fv_clients v"]
  by (auto simp: view_ok_def)

text \<open>A frame the rings do not come round to is kept, and the new one is stored.\<close>

definition rings_reach :: "clientActive_t \<Rightarrow> clSnapshot_t \<Rightarrow> frame_view \<Rightarrow> bool" where
  "rings_reach cl f v \<longleftrightarrow>
     ca_parseEntitySequence cl + int (length (fv_entities v)) \<le> cf_firstEntitySequence f + 2048 \<and>
     ca_parseClientSequence cl + int (length (fv_clients v)) \<le> cf_firstClientSequence f + 2048"

lemma client_frame_kept:
  "client_wf cl \<Longrightarrow> client_frame cl f u \<Longrightarrow> rings_reach cl f v \<Longrightarrow> client_frame (with_view cl v) f u"
  by (simp add: client_frame_def with_view_def rings_reach_def client_wf_def ring_window_store)

lemma client_frame_new:
  "client_wf cl \<Longrightarrow> view_ok v \<Longrightarrow> client_frame (with_view cl v) (frame_with cl (f\<lparr>cf_ps := fv_state v\<rparr>) v) v"
  using view_lengths [of v]
  by (simp add: client_frame_def with_view_def frame_with_def client_wf_def ring_window_new)

lemma view_dims: "view_ok v \<Longrightarrow> list_all (\<lambda>b. length b = 61) (fv_entities v) \<and> list_all (\<lambda>b. length b = 23) (fv_clients v)"
  by (auto simp: view_ok_def numbered_def list_all_iff)

lemma client_wf_with_view: "client_wf cl \<Longrightarrow> view_ok v \<Longrightarrow> client_wf (with_view cl v)"
  using view_dims [of v] by (simp add: client_wf_def with_view_def ring_store_all)

lemma state_ok_shape: "state_ok b \<Longrightarrow> state_shape b"
  using state_ok_blocks [of b] by (auto simp: state_shape_def blocks_ok_def list_all_iff)

lemma state_read:
  assumes "sees r (state_ops (fv_state base) (fv_state v)) r'" "view_ok base" "view_ok v" "read_inv r"
    and "view_carried baselines base v" "state_base old = fv_state base"
  shows "MSG_ReadDeltaPlayerstate r old = Done (fv_state v, r') \<and> read_inv r'"
proof -
  have ok: "state_ok (state_base old)" "state_ok (fv_state v)" using assms(2,3,6) by (simp_all add: view_ok_def)
  have eq: "MSG_ReadDeltaPlayerstate r old = check_state (fv_state v) r'"
    using read_state_seen [of r old "fv_state v" r'] assms(1,5,6) ok by (simp add: view_carried_def)
  also have "\<dots> = Done (fv_state v, r')"
    using check_state_valid [OF state_ok_blocks(1) [OF ok(2)]] assms(5) by (simp add: view_carried_def)
  finally have "MSG_ReadDeltaPlayerstate r old = Done (fv_state v, r')" .
  moreover from this have "read_inv r'"
    using read_state_to [OF assms(4) state_ok_shape [OF ok(1)]] by (simp add: runs_to_def)
  ultimately show ?thesis by simp
qed

lemma plain_packets:
  "list_all plain_op (packet_ops (entity_packet bl) as bs @ [WBits 1023 10])"
  "list_all plain_op (packet_ops client_packet as bs @ [WBit False])"
proof -
  have "list_all plain_op (packet_ops (entity_packet bl) as bs)"
    by (induction "entity_packet bl" as bs rule: packet_ops.induct) (auto simp: entity_packet_def)
  then show "list_all plain_op (packet_ops (entity_packet bl) as bs @ [WBits 1023 10])" by simp
  have "list_all plain_op (packet_ops client_packet as bs)"
    by (induction client_packet as bs rule: packet_ops.induct) (auto simp: client_packet_def)
  then show "list_all plain_op (packet_ops client_packet as bs @ [WBit False])" by simp
qed

lemma snapshot_parsed:
  assumes wf: "client_wf cl" and held: "parent_held cl deltaFrame old" and base: "client_base_view cl old base"
    and free: "rings_free cl old v" and ok: "view_ok base" "view_ok v"
    and carried: "view_carried (ca_entityBaselines cl) base v"
    and r: "read_inv r" "m_readcount r' \<le> m_cursize r'"
    and seen: "sees r ([WLong time, WByte deltaFrame, WByte flags] @ frame_ops (ca_entityBaselines cl) base v) r'"
  shows "\<exists>cl1 cl'. (cl1 = cl \<or> cl1 = cl\<lparr>ca_demoWaiting := False\<rparr>) \<and> CL_ParseSnapshot visible cl r = Done (cl', r') \<and>
    kept_frame (with_view cl1 v) (frame_with cl ((header_frame cl time deltaFrame flags)\<lparr>cf_ps := fv_state v\<rparr>) v) cl'"
proof -
  let ?E = "packet_ops (entity_packet (ca_entityBaselines cl)) (fv_entities base) (fv_entities v) @ [WBits 1023 10]"
  let ?C = "packet_ops client_packet (fv_clients base) (fv_clients v) @ [WBit False]"
  define H where "H = header_frame cl time deltaFrame flags"
  obtain r1 frame0 cl1 where 1: "read_inv r1" "read_header cl r = Some (frame0, r1)"
      "sees r1 (frame_ops (ca_entityBaselines cl) base v) r'"
      "choose_parent cl frame0 = Some (old, cl1, H)" "cl1 = cl \<or> cl1 = cl\<lparr>ca_demoWaiting := False\<rparr>"
    using header_read [OF seen held _ r(1)] wf by (auto simp: client_wf_def H_def)
  have cl1: "client_wf cl1" "client_base_view cl1 old base" "rings_free cl1 old v"
      "ca_entityBaselines cl1 = ca_entityBaselines cl"
    using 1(5) wf base free by (auto simp: client_wf_def client_base_view_def client_frame_def rings_free_def
        split: option.splits)
  have fw: "frame_with cl1 g u = frame_with cl g u" for g u using 1(5) by (auto simp: frame_with_def)
  obtain r2 r3 where 2: "sees r1 (state_ops (fv_state base) (fv_state v)) r2" "sees r2 ?E r3" "sees r3 ?C r'"
    using 1(3) unfolding frame_ops_def sees_simps(2) by blast
  have "state_base (map_option cf_ps old) = fv_state base"
    using base by (auto simp: client_base_view_def client_frame_def state_base_def empty_view_def split: option.splits)
  from state_read [OF 2(1) ok 1(1) carried this]
  have st: "MSG_ReadDeltaPlayerstate r1 (map_option cf_ps old) = Done (fv_state v, r2)" "read_inv r2" by simp_all
  have r3: "read_inv r3" using sees_forward [OF 2(2) plain_packets(1) st(2)] by simp
  have le: "m_readcount r3 \<le> m_cursize r3"
    using sees_forward [OF 2(3) plain_packets(2) r3] r(2) by (simp add: same_buffer_def)
  define frame1 where "frame1 = (H\<lparr>cf_ps := fv_state v\<rparr>)\<lparr>cf_firstEntitySequence := ca_parseEntitySequence cl1\<rparr>"
  have E: "CL_ParsePacketEntities visible old (cl1, H\<lparr>cf_ps := fv_state v\<rparr>, r2) = Done (entity_state cl1 frame1 (fv_entities v) r3)"
    unfolding frame1_def using entities_parsed [OF cl1(1-3) ok _ st(2) le] carried 2(2) cl1(4) by simp
  define cl2 where "cl2 = cl1\<lparr>ca_parseEntities := ring_store (ca_parseEntities cl1) (nat (ca_parseEntitySequence cl1)) (fv_entities v),
      ca_parseEntitySequence := ca_parseEntitySequence cl1 + int (length (fv_entities v))\<rparr>"
  define frame2 where "frame2 = frame1\<lparr>cf_numEntities := int (length (fv_entities v))\<rparr>"
  have 3: "entity_state cl1 frame1 (fv_entities v) r3 = (cl2, frame2, r3)"
    by (simp add: entity_state_def cl2_def frame2_def)
  have C: "CL_ParsePacketClients old (cl2, frame2, r3) =
      Done (client_state cl2 (frame2\<lparr>cf_firstClientSequence := ca_parseClientSequence cl1\<rparr>) (fv_clients v) r')"
    using clients_parsed [OF cl1(1-3) ok carried r3 r(2) _ _ 2(3)] by (simp add: cl2_def)
  define frame where "frame = frame_with cl1 (H\<lparr>cf_ps := fv_state v\<rparr>) v"
  have state: "client_state cl2 (frame2\<lparr>cf_firstClientSequence := ca_parseClientSequence cl1\<rparr>) (fv_clients v) r' =
      (with_view cl1 v, frame, r')"
    by (simp add: client_state_def cl2_def with_view_def frame_def frame_with_def frame2_def frame1_def)
  have "client_wf (with_view cl1 v)" using cl1(1) ok(2) by (rule client_wf_with_view)
  moreover have head: "length (ps_head (fv_state v)) = 398"
    using state_ok_blocks(1) ok(2) by (auto simp: view_ok_def)
  ultimately obtain cl' where kept: "keep_snapshot (with_view cl1 v) frame = Some cl'" "kept_frame (with_view cl1 v) frame cl'"
    using keep_snapshot_total [of "with_view cl1 v" frame]
    by (auto simp: client_wf_def frame_def frame_with_def H_def header_frame_def)
  have "peek (ps_head (fv_state v)) 53 = Some (ps_head (fv_state v) ! 53)" "u32 (ps_head (fv_state v) ! 53) < u32 64"
    using head carried by (simp_all add: mem_simps view_carried_def u32_id)
  then have "CL_ParseSnapshot visible cl r = Done (cl', r')"
    using 1(2,4) st(1) E [unfolded 3] C [unfolded state] kept(1) by (simp add: CL_ParseSnapshot_def)
  then show ?thesis using 1(5) kept(2) by (auto simp: frame_def fw H_def)
qed

section \<open>From the server to the client\<close>

lemma packet_ops_ok:
  "list_all op_ok (packet_ops (entity_packet bl) as bs)" "list_all op_ok (packet_ops client_packet as bs)"
proof -
  show "list_all op_ok (packet_ops (entity_packet bl) as bs)"
    by (induction "entity_packet bl" as bs rule: packet_ops.induct) (auto simp: entity_packet_def)
  show "list_all op_ok (packet_ops client_packet as bs)"
    by (induction client_packet as bs rule: packet_ops.induct) (auto simp: client_packet_def)
qed

lemma snapshot_ops_ok: "list_all op_ok (snapshot_ops svs client d base v)"
  by (simp add: snapshot_ops_def frame_ops_def state_ops_ok packet_ops_ok)

lemma pads_seen:
  "sees r (replicate n (WByte 1)) r' \<Longrightarrow> m_cursize r' = m_cursize r \<and> m_readcount r' = m_readcount r + int n"
proof (induction n arbitrary: r)
  case (Suc n)
  then obtain r1 where "MSG_ReadByte r = Some (1, r1)" "sees r1 (replicate n (WByte 1)) r'" by (auto simp: u8_id)
  moreover from this(1) have "m_cursize r1 = m_cursize r" "m_readcount r1 = m_readcount r + 1"
    by (auto simp: MSG_ReadByte_def bind_eq_Some_conv split: if_splits)
  ultimately show ?case using Suc.IH [of r1] by auto
qed simp

lemma written_from_start:
  assumes "0 \<le> maxsize" "maxsize \<le> int (length data)" "maxsize < 268435456" "list_all op_ok xs"
    and "write_ops xs (MSG_Init data maxsize) = Some m" "\<not> m_overflowed m"
  shows "msg_inv m \<and> sees (MSG_BeginReading m) xs (at_cursor m m)"
proof -
  have inv: "msg_inv (MSG_Init data maxsize)" using assms(1-3) by (rule MSG_Init_inv)
  have m: "msg_inv m" using write_ops_step [OF inv assms(4)] assms(5) by auto
  then have "sees (at_cursor (MSG_Init data maxsize) m) xs (at_cursor m m)"
    using written_seen [OF inv assms(4-6), of m] agree_self [of m] readable_self [of m]
    by (simp add: msg_inv_def)
  moreover have "at_cursor (MSG_Init data maxsize) m = MSG_BeginReading m"
    by (simp add: at_cursor_def MSG_BeginReading_def MSG_Init_def)
  ultimately show ?thesis using m by simp
qed

text \<open>What both ends know of the frame the snapshot is a difference from.\<close>

definition parent_of :: "clientActive_t \<Rightarrow> int \<Rightarrow> clSnapshot_t option" where
  "parent_of cl deltaFrame = (if deltaFrame = 0 then None
     else Some (ca_snapshots cl ! nat ((ca_serverMessageSequence cl - deltaFrame) mod 32)))"

definition in_step :: "serverStatic_t \<Rightarrow> snapshot_client \<Rightarrow> clientActive_t \<Rightarrow> frame_view \<Rightarrow> frame_view \<Rightarrow> bool" where
  "in_step svs client cl base v \<longleftrightarrow> (case delta_base svs client of None \<Rightarrow> False
     | Some (old, deltaFrame) \<Rightarrow> server_base svs old base \<and> parent_held cl deltaFrame (parent_of cl deltaFrame) \<and>
         client_base_view cl (parent_of cl deltaFrame) base \<and> rings_free cl (parent_of cl deltaFrame) v)"

definition new_frame :: "serverStatic_t \<Rightarrow> snapshot_client \<Rightarrow> frame_view \<Rightarrow> bool" where
  "new_frame svs client v \<longleftrightarrow>
     (case peek (sn_snapshotFrames client) (frame_slot (n_outgoingSequence (c_netchan (sn_client client)))) of
        None \<Rightarrow> False | Some f \<Rightarrow> server_frame svs f v)"

text \<open>The client holds the frame \<open>v\<close> as its current snapshot, and by its number.\<close>

definition received_frame :: "clientActive_t \<Rightarrow> int \<Rightarrow> frame_view \<Rightarrow> bool" where
  "received_frame cl number v \<longleftrightarrow> cf_valid (ca_snap cl) \<and> cf_messageNum (ca_snap cl) = number \<and>
     client_frame cl (ca_snap cl) v \<and> ca_snapshots cl ! nat (number mod 32) = ca_snap cl"

lemma kept_received:
  assumes "kept_frame (with_view cl1 v) (frame_with cl (f\<lparr>cf_ps := fv_state v\<rparr>) v) cl'"
    and "cl1 = cl \<or> cl1 = cl\<lparr>ca_demoWaiting := False\<rparr>" "client_wf cl" "view_ok v" "cf_valid f" "cf_messageNum f = k"
  shows "received_frame cl' k v \<and> cf_serverTime (ca_snap cl') = cf_serverTime f \<and> cf_snapFlags (ca_snap cl') = cf_snapFlags f \<and>
    client_wf cl' \<and> ca_newSnapshots cl'"
proof -
  obtain ping snaps where k: "marked_lost (first_lost (cf_messageNum (ca_snap cl)) k) k (ca_snapshots cl) snaps"
      "cl' = (with_view cl1 v)\<lparr>ca_previousSnapshotServerTime := cf_serverTime (ca_snap (with_view cl1 v)),
        ca_snap := (frame_with cl (f\<lparr>cf_ps := fv_state v\<rparr>) v)\<lparr>cf_ping := ping\<rparr>,
        ca_snapshots := snaps[nat (k mod 32) := (frame_with cl (f\<lparr>cf_ps := fv_state v\<rparr>) v)\<lparr>cf_ping := ping\<rparr>],
        ca_newSnapshots := True\<rparr>"
    using assms(1,2,6) by (auto simp: kept_frame_def frame_with_def with_view_def)
  have len: "length snaps = 32" using k(1) assms(3) by (simp add: marked_lost_def client_wf_def)
  have new: "client_frame (with_view cl1 v) (frame_with cl1 (f\<lparr>cf_ps := fv_state v\<rparr>) v) v"
    using assms(2-4) by (intro client_frame_new) (auto simp: client_wf_def)
  have "frame_with cl1 g v = frame_with cl g v" for g using assms(2) by (auto simp: frame_with_def)
  with new have "client_frame cl' (ca_snap cl') v" by (simp add: k(2) client_frame_def)
  moreover have "client_wf (with_view cl1 v)" using client_wf_with_view [of cl1 v] assms(2-4) by (auto simp: client_wf_def)
  then have "client_wf cl'" using len by (simp add: k(2) client_wf_def)
  ultimately show ?thesis using len assms(5,6) by (simp add: received_frame_def k(2) frame_with_def)
qed


section \<open>Room\<close>

text \<open>A message that has room for its operations does not overflow.\<close>

fun op_room :: "wire_op \<Rightarrow> nat" where
  "op_room (WBits v n) = 4 + nat (u32 n)"
| "op_room _ = 4"

definition roomy :: "nat \<Rightarrow> msg_t \<Rightarrow> msg_t \<Rightarrow> bool" where
  "roomy n m m' \<longleftrightarrow> m_overflowed m' = m_overflowed m \<and> m_maxsize m' = m_maxsize m \<and> m_cursize m' \<le> m_cursize m + int n"

lemma open_byte_roomy: "open_byte m = Some m' \<Longrightarrow> roomy 1 m m'"
  by (auto simp: open_byte_def roomy_def bind_eq_Some_conv)

lemma set_bit_roomy: "set_bit_at m k = Some m' \<Longrightarrow> roomy 0 m m'"
  by (auto simp: set_bit_at_def roomy_def bind_eq_Some_conv)

lemma roomy_trans: "roomy i m m1 \<Longrightarrow> roomy j m1 m2 \<Longrightarrow> roomy (i + j) m m2"
  by (auto simp: roomy_def)

lemma roomy_bit [simp]: "roomy n m (m'\<lparr>m_bit := k\<rparr>) = roomy n m m'" "roomy n (m\<lparr>m_bit := k\<rparr>) m' = roomy n m m'"
  by (simp_all add: roomy_def)

lemma roomy_self [simp]: "roomy n m m"
  by (simp add: roomy_def)

lemma roomy_mono: "roomy i m m' \<Longrightarrow> i \<le> j \<Longrightarrow> roomy j m m'"
  by (auto simp: roomy_def)

lemma WriteBits_loop_roomy: "MSG_WriteBits_loop n w m = Some m' \<Longrightarrow> roomy n m m'"
proof (induction n arbitrary: w m)
  case 0
  then show ?case by simp
next
  case (Suc n)
  then obtain m1 m2 where 1: "(if m_bit m AND 7 = 0 then open_byte m else Some m) = Some m1"
      "(if w AND 1 \<noteq> 0 then set_bit_at m1 (m_bit m AND 7) else Some m1) = Some m2"
      "MSG_WriteBits_loop n (drop_bit 1 w OR (w AND 0x80000000)) (m2\<lparr>m_bit := i32 (m_bit m2 + 1)\<rparr>) = Some m'"
    by (auto simp: Let_def bind_eq_Some_conv simp del: and_7)
  have "roomy 1 m m1" "roomy 0 m1 m2" using 1(1,2) open_byte_roomy set_bit_roomy by (auto split: if_splits)
  then show ?case using roomy_trans [of 1 m m1 0 m2] roomy_trans [of 1 m m2 n m'] Suc.IH [OF 1(3)] by simp
qed

lemma write_op_roomy:
  assumes "write_op x m = Some m'" "plain_op x" "m_cursize m + int (op_room x) \<le> m_maxsize m" "msg_inv m"
  shows "roomy (op_room x) m m'"
proof -
  have i: "i32 (m_maxsize m - m_cursize m) = m_maxsize m - m_cursize m"
    using assms(4) by (intro i32_id) (auto simp: msg_inv_def msg_wf_def)
  show ?thesis
  proof (cases x)
    case (WBits v n)
    then have "MSG_WriteBits_loop (nat (u32 n)) (word_of_int v) m = Some m'"
      using assms(1,3) i by (simp add: MSG_WriteBits_def split: if_splits)
    from WriteBits_loop_roomy [OF this] show ?thesis using WBits by (auto intro: roomy_mono)
  next
    case (WBit b)
    then show ?thesis
      using assms(1,3)
      by (auto simp: MSG_WriteBit0_def MSG_WriteBit1_def Let_def bind_eq_Some_conv roomy_def split: if_splits
          dest!: open_byte_roomy set_bit_roomy)
  next
    case (WByte v)
    then show ?thesis using assms(1,3)
      by (auto simp: MSG_WriteByte_def roomy_def bind_eq_Some_conv)
  next
    case (WShort v)
    then show ?thesis using assms(1,3,4) WriteShort_eq [of m v]
      by (auto simp: append_or_overflow_def put_bytes_def roomy_def msg_inv_def)
  next
    case (WLong v)
    then show ?thesis using assms(1,3,4) WriteLong_eq [of m v]
      by (auto simp: append_or_overflow_def put_bytes_def roomy_def msg_inv_def)
  qed (use assms(2) in simp_all)
qed

lemma write_ops_room:
  "list_all op_ok xs \<Longrightarrow> list_all plain_op xs \<Longrightarrow> msg_inv m \<Longrightarrow>
   m_cursize m + int (sum_list (map op_room xs)) \<le> m_maxsize m \<Longrightarrow>
   \<exists>m'. write_ops xs m = Some m' \<and> m_overflowed m' = m_overflowed m"
proof (induction xs arbitrary: m)
  case Nil
  then show ?case by simp
next
  case (Cons x xs)
  have "list_all op_ok [x]" using Cons.prems(1) by simp
  from write_ops_step [OF Cons.prems(3) this] obtain m1 where m1: "write_op x m = Some m1" "msg_inv m1" by auto
  have r: "roomy (op_room x) m m1" using write_op_roomy [OF m1(1) _ _ Cons.prems(3)] Cons.prems(2,4) by simp
  then have "m_cursize m1 + int (sum_list (map op_room xs)) \<le> m_maxsize m1"
    using Cons.prems(4) by (simp add: roomy_def)
  from Cons.IH [OF _ _ m1(2) this] show ?case using Cons.prems(1,2) m1(1) r by (auto simp: roomy_def)
qed

section \<open>An instance\<close>

text \<open>
  Frame 2 of a connection as the difference from frame 1: one entity changes and one is new, one
  client stays, one goes and one comes.
\<close>

definition sample_thing :: "int \<Rightarrow> int \<Rightarrow> block" where
  "sample_thing n x = [n, 0, x] @ replicate 58 0"

definition sample_player :: "int \<Rightarrow> block" where
  "sample_player n = [n, 1] @ replicate 21 0"

definition sample_view1 :: frame_view where
  "sample_view1 = \<lparr>fv_state = null_state, fv_entities = [sample_thing 7 0], fv_clients = [sample_player 2, sample_player 3]\<rparr>"

definition sample_view2 :: frame_view where
  "sample_view2 = \<lparr>fv_state = sample_state, fv_entities = [sample_thing 7 5, sample_thing 9 4],
     fv_clients = [sample_player 1, sample_player 3]\<rparr>"

definition sample_server_frame :: "int \<Rightarrow> int \<Rightarrow> frame_view \<Rightarrow> clientSnapshot_t" where
  "sample_server_frame e c v = \<lparr>sf_playerState = fv_state v, sf_numEntities = int (length (fv_entities v)),
     sf_numClients = int (length (fv_clients v)), sf_firstEntity = e, sf_firstClient = c,
     sf_messageSentTime = 0, sf_messageAcknowledgedTime = 0, sf_messageSize = 0\<rparr>"

definition sample_svs :: serverStatic_t where
  "sample_svs = \<lparr>svs_time = 5000, svs_realTime = 5000, svs_snapFlagServerBit = 0,
     svs_numEntityStateSnapshots = 3, svs_numClientSnapshots = 4,
     svs_nextEntityStateSnapshot = 3, svs_nextClientSnapshot = 4,
     svs_entityStateSnapshots = fv_entities sample_view1 @ fv_entities sample_view2,
     svs_clientSnapshots = fv_clients sample_view1 @ fv_clients sample_view2,
     sv_baselines = replicate 1024 (replicate 61 0), sv_padPackets = 0, sv_maxRate = 0\<rparr>"

definition sample_snapshot_client :: snapshot_client where
  "sample_snapshot_client = \<lparr>sn_client = sample_client\<lparr>c_netchan := (fresh_chan NS_SERVER)\<lparr>n_outgoingSequence := 2\<rparr>\<rparr>,
     sn_sendAsActive = False, sn_lastClientCommand = 0, sn_deltaMessage = 1, sn_nextSnapshotTime = 0,
     sn_rateDelayed = False,
     sn_snapshotFrames = (replicate 32 (sample_server_frame 0 0 empty_view))
       [1 := sample_server_frame 0 0 sample_view1, 2 := sample_server_frame 1 2 sample_view2]\<rparr>"

definition sample_snapshot :: clSnapshot_t where
  "sample_snapshot = zero_snapshot\<lparr>cf_valid := True, cf_messageNum := 1, cf_ps := null_state,
     cf_numEntities := 1, cf_numClients := 2\<rparr>"

definition sample_receiving :: clientActive_t where
  "sample_receiving = \<lparr>ca_parseEntities = (replicate 2048 (replicate 61 0))[0 := sample_thing 7 0], ca_parseEntitySequence = 1,
     ca_parseClients = (replicate 2048 (replicate 23 0))[0 := sample_player 2, 1 := sample_player 3], ca_parseClientSequence = 2,
     ca_entityBaselines = replicate 1024 (replicate 61 0), ca_entityLastVisibleTime = replicate 64 0,
     ca_snapshots = (replicate 32 zero_snapshot)[1 := sample_snapshot], ca_snap = sample_snapshot,
     ca_previousSnapshotServerTime = 0,
     ca_outPackets = replicate 32 \<lparr>op_lastCommandNumber = 0, op_lastCommandTime = 0, op_sendRealTime = 0\<rparr>,
     ca_newSnapshots = False, ca_onlyVisibleClients = False, ca_demoWaiting = False, ca_serverMessageSequence = 2,
     ca_serverCommandSequence = 0, ca_outgoingSequence = 2, ca_realTime = 0\<rparr>"

lemma sample_lengths [simp]: "length (sample_thing n x) = 61" "length (sample_player n) = 23"
  by (simp_all add: sample_thing_def sample_player_def)

lemma sample_numbers [simp]: "sample_thing n x ! 0 = n" "sample_player n ! 0 = n"
  by (simp_all add: sample_thing_def sample_player_def)

lemma sample_views_ok: "view_ok sample_view1" "view_ok sample_view2"
proof -
  have "state_ok sample_state"
    by (simp add: state_ok_def sample_state_def null_state_def list_all_update list_all_replicate int32_range_def)
  then show "view_ok sample_view1" "view_ok sample_view2"
    by (simp_all add: view_ok_def sample_view1_def sample_view2_def null_state_ok numbered_def increasing_def)
qed

lemma sample_carried: "view_carried (sv_baselines sample_svs) sample_view1 sample_view2"
proof -
  have "entity_fits (sample_thing 7 0) (sample_thing 7 5)" "entity_fits (replicate 61 0) (sample_thing 9 4)"
      "client_fits (sample_player 3) (sample_player 3)" "client_fits (replicate 23 0) (sample_player 1)"
      "entity_allowed (sample_thing 7 0)" "state_valid sample_state" "ps_head sample_state ! 53 = 0" by code_simp+
  then show ?thesis
    using sample_state_carried
    by (simp add: view_carried_def sample_view1_def sample_view2_def sample_svs_def sendable_def entity_packet_def
        client_packet_def)
qed

lemma sample_delta_base: "delta_base sample_svs sample_snapshot_client = Some (Some (sample_server_frame 0 0 sample_view1), 1)"
  by (simp add: delta_base_def sample_svs_def sample_snapshot_client_def frame_slot_def sample_client_def peek_def
      sample_server_frame_def i32_simps)

lemma sample_frames:
  "server_frame sample_svs (sample_server_frame 0 0 sample_view1) sample_view1"
  "server_frame sample_svs (sample_server_frame 1 2 sample_view2) sample_view2"
  by (simp_all add: server_frame_def server_window_def sample_server_frame_def sample_svs_def sample_view1_def
      sample_view2_def window_def upt_rec)

lemma sample_in_step: "in_step sample_svs sample_snapshot_client sample_receiving sample_view1 sample_view2"
proof -
  have "parent_of sample_receiving 1 = Some sample_snapshot"
    by (simp add: parent_of_def sample_receiving_def)
  moreover have "parent_usable sample_receiving sample_snapshot 1"
    by (simp add: parent_usable_def sample_receiving_def sample_snapshot_def zero_snapshot_def u32_id i32_id)
  then have "parent_held sample_receiving 1 (Some sample_snapshot)"
    by (simp add: parent_held_def sample_receiving_def)
  moreover have "client_frame sample_receiving sample_snapshot sample_view1"
    by (simp add: client_frame_def ring_window_def window_def sample_receiving_def sample_snapshot_def zero_snapshot_def
        sample_view1_def upt_rec)
  moreover have "rings_free sample_receiving (Some sample_snapshot) sample_view2"
    by (simp add: rings_free_def sample_receiving_def sample_snapshot_def zero_snapshot_def sample_view2_def)
  ultimately show ?thesis
    using sample_frames(1) by (simp add: in_step_def sample_delta_base server_base_def client_base_view_def)
qed

lemma sample_client_wf: "client_wf sample_receiving"
  by (simp add: client_wf_def sample_receiving_def baselines_ok_def list_all_update list_all_replicate)

lemma sample_new_frame: "new_frame sample_svs sample_snapshot_client sample_view2"
  using sample_frames(2) by (simp add: new_frame_def sample_snapshot_client_def frame_slot_def peek_def)

lemma sample_ops:
  "snapshot_ops sample_svs sample_snapshot_client 1 sample_view1 sample_view2 =
     [WLong 5000, WByte 1, WByte 0] @ frame_ops (replicate 10 (replicate 61 0)) sample_view1 sample_view2"
  by (simp add: snapshot_ops_def frame_ops_def snapshot_flags_def send_as_active_def sample_svs_def
      sample_snapshot_client_def sample_client_def sample_view1_def sample_view2_def entity_packet_def)

lemma sample_plain: "list_all plain_op (snapshot_ops sample_svs sample_snapshot_client 1 sample_view1 sample_view2)"
  unfolding sample_ops by code_simp


end
