(* ===== verification/Snapshot_Safe.thy ===== *)
theory Snapshot_Safe
  imports Snapshot_Correct
begin

text \<open>
  What \<open>CL_ParseSnapshot\<close> does with a message from a hostile server: it stays inside the two rings,
  the baselines and the frames, its loops end, and the client it leaves can parse the next one. The
  packet loop is proved once, in the locale \<open>safe_parser\<close>.
\<close>

section \<open>Runs that do not fault\<close>

definition safe :: "('a \<Rightarrow> bool) \<Rightarrow> 'a run \<Rightarrow> bool" where
  "safe P x \<longleftrightarrow> (case x of Fault \<Rightarrow> False | Raise e s \<Rightarrow> True | Done y \<Rightarrow> P y)"

lemma safe_simps [simp]: "safe P (Done y) = P y" "safe P (Raise e s)" "\<not> safe P Fault"
  by (simp_all add: safe_def)

lemma safe_bind: "safe P x \<Longrightarrow> (\<And>y. P y \<Longrightarrow> safe Q (f y)) \<Longrightarrow> safe Q (run_bind x f)"
  by (cases x) simp_all

lemma safe_mono: "safe P x \<Longrightarrow> (\<And>y. P y \<Longrightarrow> Q y) \<Longrightarrow> safe Q x"
  by (cases x) simp_all

lemma safe_runs_to: "runs_to P r x \<longleftrightarrow> safe (\<lambda>(v, r'). P v \<and> read_inv r' \<and> same_buffer r r') x"
  by (cases x) (auto simp: runs_to_def)

lemma safe_reads_ok: "reads_ok r x \<Longrightarrow> safe (\<lambda>(v, r'). x = Some (v, r') \<and> read_inv r' \<and> same_buffer r r') (checked x)"
  by (auto simp: reads_ok_def)

section \<open>The state of the client\<close>

text \<open>
  An entity in the ring has a client number that later code may index with; a frame has a player
  state whose client, view-lock entity and vehicle seat are indices, too.
\<close>

definition entity_sound :: "block \<Rightarrow> bool" where
  "entity_sound b \<longleftrightarrow> entity_allowed b \<and> 0 \<le> b ! 0"

definition state_sound :: "playerState_t \<Rightarrow> bool" where
  "state_sound ps \<longleftrightarrow> state_shape ps \<and> u32 (ps_head ps ! 53) < 64 \<and> u32 (ps_head ps ! 367) < 1024 \<and>
     0 \<le> ps_head ps ! 389 \<and> ps_head ps ! 389 < 7"

definition client_safe :: "clientActive_t \<Rightarrow> bool" where
  "client_safe cl \<longleftrightarrow>
     length (ca_parseEntities cl) = 2048 \<and> list_all entity_sound (ca_parseEntities cl) \<and>
     length (ca_parseClients cl) = 2048 \<and> list_all (\<lambda>b. length b = 23) (ca_parseClients cl) \<and>
     length (ca_entityBaselines cl) = 1024 \<and> list_all (\<lambda>b. length b = 61 \<and> 0 \<le> b ! 0) (ca_entityBaselines cl) \<and>
     length (ca_entityLastVisibleTime cl) = 64 \<and> length (ca_outPackets cl) = 32 \<and>
     length (ca_snapshots cl) = 32 \<and> list_all (\<lambda>f. state_sound (cf_ps f)) (ca_snapshots cl) \<and>
     state_sound (cf_ps (ca_snap cl))"

definition state_safe :: "msg_t \<Rightarrow> parse_state \<Rightarrow> bool" where
  "state_safe r st \<longleftrightarrow> (case st of (cl, frame, m) \<Rightarrow> client_safe cl \<and> state_sound (cf_ps frame) \<and> read_inv m \<and> same_buffer r m)"

definition left :: "parse_state \<Rightarrow> int" where
  "left st = bits_left (snd (snd st))"

lemma state_safe_step: "same_buffer r r' \<Longrightarrow> state_safe r' st \<Longrightarrow> state_safe r st"
  by (auto simp: state_safe_def intro: same_buffer_trans)

lemma slots [simp]: "0 \<le> parse_slot x" "parse_slot x < 2048" "0 \<le> snapshot_slot x" "snapshot_slot x < 32"
proof -
  have "u32 x AND 31 = u32 x mod 32"
    using take_bit_eq_mask [of 5 "u32 x"] by (simp add: mask_eq_exp_minus_1 take_bit_eq_mod)
  then show "0 \<le> snapshot_slot x" "snapshot_slot x < 32" by (simp_all add: snapshot_slot_def)
qed (simp_all add: parse_slot_eq)

lemma peek_sound: "list_all P xs \<Longrightarrow> peek xs i = Some x \<Longrightarrow> P x"
  by (auto simp: peek_eq_Some list_all_length)

lemma peek_in: "0 \<le> i \<Longrightarrow> i < int (length xs) \<Longrightarrow> \<exists>x. peek xs i = Some x"
  by (simp add: peek_eq_Some)

lemma poke_in: "0 \<le> i \<Longrightarrow> i < int (length xs) \<Longrightarrow> poke xs i v = Some (xs[nat i := v])"
  by (simp add: poke_eq_Some)

section \<open>One record\<close>

text \<open>The number of a record that was read is the one that announced it, or that of its base.\<close>

lemma read_fields_number:
  "read_fields r a c fs = Some (d, r') \<Longrightarrow> list_all (\<lambda>f. 4 \<le> nf_offset f) fs \<Longrightarrow> d ! 0 = c ! 0"
proof (induction fs arbitrary: r c)
  case Nil
  then show ?case by simp
next
  case (Cons f fs)
  then show ?case
    by (auto simp: MSG_ReadDeltaField_def set_member_def bind_eq_Some_conv poke_eq_Some)
qed

lemma keep_fields_number: "keep_fields a c fs = Some d \<Longrightarrow> list_all (\<lambda>f. 4 \<le> nf_offset f) fs \<Longrightarrow> d ! 0 = c ! 0"
  by (induction fs arbitrary: c) (auto simp: set_member_def bind_eq_Some_conv poke_eq_Some)

lemma tables_past_number:
  "list_all (\<lambda>f. 4 \<le> nf_offset f) msg_defaultEntityNetFields"
  "list_all (\<lambda>f. 4 \<le> nf_offset f) msg_vehicleEntityNetFields"
  by code_simp+

lemma list_all_take_drop: "list_all P xs \<Longrightarrow> list_all P (take n xs)" "list_all P xs \<Longrightarrow> list_all P (drop n xs)"
  by (auto simp: list_all_iff dest: in_set_takeD in_set_dropD)

lemma read_struct_number:
  assumes r: "read_inv r" and tab: "table_ok (length a) fs" "length a = length fs + 1" and len: "length c = length a"
    and past: "list_all (\<lambda>f. 4 \<le> nf_offset f) fs" and read: "MSG_ReadDeltaStruct r a c number fs = Done (False, d, r')"
  shows "d ! 0 = a ! 0 \<or> d ! 0 = number"
proof -
  obtain gone m1 where 1: "MSG_ReadBit r = Some (gone, m1)" "read_inv m1"
    using MSG_ReadBit_ok [OF r] by (auto simp: reads_ok_def)
  obtain changed m2 where 2: "MSG_ReadBit m1 = Some (changed, m2)" "read_inv m2"
    using MSG_ReadBit_ok [OF 1(2)] by (auto simp: reads_ok_def)
  obtain count m3 where 3: "MSG_ReadByte m2 = Some (count, m3)" "read_inv m3"
    using MSG_ReadByte_ok [OF 2(2)] by (auto simp: reads_ok_def)
  have copy: "copy_out a 0 (int (length fs) + 1) = Some a" "copy_in c 0 a = Some a"
      "poke c 0 number = Some (c[0 := number])"
    using tab(2) len by (simp_all add: mem_simps nat_add_distrib poke_eq_Some)
  obtain d1 m4 where 4: "read_fields m3 a (c[0 := number]) (take (nat count) fs) = Some (d1, m4)" "length d1 = length a"
    using read_fields_to [OF 3(2), of a "take (nat count) fs" "c[0 := number]"] tab(1) len
    by (auto simp: reads_to_def)
  obtain e where e: "keep_fields a d1 (drop (nat count) fs) = Some e"
    using keep_fields_length [of a "drop (nat count) fs" d1] tab(1) 4(2) by auto
  have "e ! 0 = number"
    using read_fields_number [OF 4(1)] keep_fields_number [OF e] list_all_take_drop [OF past] tab(2) len by auto
  moreover have "d = a \<or> d = e"
    using read 1(1) 2(1) 3(1) 4(1) e copy by (auto simp: MSG_ReadDeltaStruct_def split: if_splits)
  ultimately show ?thesis by auto
qed

lemma read_entity_to:
  assumes "read_inv r" "length a = 61" "length c = 61" "0 \<le> a ! 0" "0 \<le> number"
  shows "safe (\<lambda>(gone, d, r'). length d = 61 \<and> (\<not> gone \<longrightarrow> 0 \<le> d ! 0) \<and> read_inv r' \<and> same_buffer r r') (MSG_ReadDeltaEntity r a c number)"
proof -
  obtain v r1 where v: "MSG_ReadBit r = Some (v, r1)" "read_inv r1" "same_buffer r r1"
    using MSG_ReadBit_ok [OF assms(1)] by (auto simp: reads_ok_def)
  define fs where "fs = (if v \<noteq> 0 then msg_vehicleEntityNetFields else msg_defaultEntityNetFields)"
  have fs: "length a = length fs + 1" "table_ok (length a) fs" "list_all (\<lambda>f. 4 \<le> nf_offset f) fs"
    using assms(2) tables_past_number table_complete_ok [OF tables_complete(1), of a] table_complete_ok [OF tables_complete(2), of a]
    by (auto simp: fs_def)
  have "MSG_ReadDeltaEntity r a c number = MSG_ReadDeltaStruct r1 a c number fs"
    using v(1) by (simp add: MSG_ReadDeltaEntity_def fs_def)
  moreover have "0 \<le> d ! 0" if "MSG_ReadDeltaStruct r1 a c number fs = Done (False, d, r')" for d r'
    using read_struct_number [OF v(2) fs(2,1) _ fs(3) that] assms by auto
  ultimately show ?thesis
    using read_struct_to [OF v(2) fs(2,1), of c number] assms(2,3) same_buffer_trans [OF v(3)]
    by (cases "MSG_ReadDeltaStruct r1 a c number fs") auto
qed

lemma entity_sound_flags: "entity_sound b \<Longrightarrow> entity_sound (b[2 := x])"
  by (auto simp: entity_sound_def entity_allowed_def invalid_entity_def peek_def)

lemma filter_visible_sound:
  assumes "entity_sound b" "length (ca_entityLastVisibleTime cl) = 64"
  shows "\<exists>b' times. filter_visible visible t cl b = Some (b', times) \<and> entity_sound b' \<and> length times = 64"
proof -
  have b: "length b = 61" "0 \<le> b ! 0" using assms(1) by (simp_all add: entity_sound_def entity_allowed_def)
  then have p: "peek b 0 = Some (b ! 0)" "peek b 2 = Some (b ! 2)" "poke b 2 x = Some (b[2 := x])" for x
    by (simp_all add: peek_eq_Some poke_eq_Some)
  have "\<exists>x. peek (ca_entityLastVisibleTime cl) (b ! 0) = Some x"
    "\<exists>x. poke (ca_entityLastVisibleTime cl) (b ! 0) t = Some x \<and> length x = 64" if "b ! 0 < 64"
    using b that assms(2) by (auto simp: peek_eq_Some poke_eq_Some)
  then show ?thesis
    using assms entity_sound_flags by (fastforce simp: filter_visible_def p)
qed

lemma DeltaEntity_safe:
  assumes "state_safe r st" "length old = 61" "0 \<le> old ! 0" "unchanged' \<longrightarrow> entity_sound old" "unchanged' \<or> 0 \<le> number"
  shows "safe (\<lambda>st'. state_safe r st' \<and> left st' \<le> left st) (CL_DeltaEntity visible number old unchanged' st)"
proof -
  obtain cl frame m where st: "st = (cl, frame, m)" by (cases st)
  have h: "client_safe cl" "read_inv m" "same_buffer r m" "state_sound (cf_ps frame)" using assms(1) by (simp_all add: state_safe_def st)
  then have ring: "length (ca_parseEntities cl) = 2048" "list_all entity_sound (ca_parseEntities cl)"
    by (simp_all add: client_safe_def)
  define slot where "slot = parse_slot (ca_parseEntitySequence cl)"
  have slot: "0 \<le> slot" "slot < 2048" by (simp_all add: slot_def)
  obtain e where e: "peek (ca_parseEntities cl) slot = Some e" using slot ring(1) by (metis peek_in of_nat_numeral)
  then have "length e = 61" using peek_sound [OF ring(2)] by (auto simp: entity_sound_def entity_allowed_def)
  then have read: "safe (\<lambda>(gone, d, m1). length d = 61 \<and> (\<not> gone \<longrightarrow> 0 \<le> d ! 0) \<and> read_inv m1 \<and> same_buffer m m1)
      (if unchanged' then Done (False, old, m) else MSG_ReadDeltaEntity m old e number)"
    using assms(2,3,5) h(2) read_entity_to [of m old e number] by auto
  have keep: "safe (\<lambda>st'. state_safe r st' \<and> left st' \<le> left st) (checked (do {
            ring1 \<leftarrow> poke (ca_parseEntities cl) slot d;
            (entity2, times) \<leftarrow> filter_visible visible (cf_serverTime frame) (cl\<lparr>ca_parseEntities := ring1\<rparr>) d;
            ring2 \<leftarrow> poke ring1 slot entity2;
            Some (cl\<lparr>ca_parseEntities := ring2, ca_entityLastVisibleTime := times,
                     ca_parseEntitySequence := i32 (ca_parseEntitySequence cl + 1)\<rparr>,
                  frame\<lparr>cf_numEntities := i32 (cf_numEntities frame + 1)\<rparr>, m1) }))"
    if d: "entity_sound d" and m1: "read_inv m1" "same_buffer m m1" for d m1
  proof -
    have "length (ca_entityLastVisibleTime (cl\<lparr>ca_parseEntities := (ca_parseEntities cl)[nat slot := d]\<rparr>)) = 64"
      using h(1) by (simp add: client_safe_def)
    from filter_visible_sound [OF d this, of visible "cf_serverTime frame"] obtain b times
      where f: "filter_visible visible (cf_serverTime frame) (cl\<lparr>ca_parseEntities := (ca_parseEntities cl)[nat slot := d]\<rparr>) d =
          Some (b, times)" "entity_sound b" "length times = 64" by blast
    show ?thesis
      using slot ring f m1 h same_buffer_trans [OF h(3) m1(2)]
      by (auto simp: poke_in state_safe_def client_safe_def left_def st same_buffer_def list_all_update)
  qed
  have inv: "\<exists>x. invalid_entity d = Some x" if "length d = 61" for d
    using that by (simp add: invalid_entity_def peek_eq_Some peek_def)
  show ?thesis
    unfolding st CL_DeltaEntity_def prod.case Let_def slot_def [symmetric] e checked_simps run_bind.simps
  proof (rule safe_bind [OF read], clarify)
    fix gone and d :: block and m1
    assume d: "length d = 61" "\<not> gone \<longrightarrow> 0 \<le> d ! 0" and m1: "read_inv m1" "same_buffer m m1"
    have gone: "state_safe r (cl, frame, m1) \<and> left (cl, frame, m1) \<le> left (cl, frame, m)"
      using h m1 same_buffer_trans [OF h(3) m1(2)] by (simp add: state_safe_def left_def same_buffer_def)
    obtain x where x: "invalid_entity d = Some x" using inv d(1) by blast
    have "entity_sound d" if "\<not> gone" "\<not> x" using d x that by (simp add: entity_sound_def entity_allowed_def)
    from keep [OF this m1]
    show "safe (\<lambda>st'. state_safe r st' \<and> left st' \<le> left (cl, frame, m))
       (if gone then Done (cl, frame, m1)
        else run_bind (checked (invalid_entity d)) (\<lambda>invalid.
          if invalid then Raise ERR_DROP ''CL_DeltaEntity: invalid client number %i''
          else checked (do {
            ring1 \<leftarrow> poke (ca_parseEntities cl) slot d;
            (entity2, times) \<leftarrow> filter_visible visible (cf_serverTime frame) (cl\<lparr>ca_parseEntities := ring1\<rparr>) d;
            ring2 \<leftarrow> poke ring1 slot entity2;
            Some (cl\<lparr>ca_parseEntities := ring2, ca_entityLastVisibleTime := times,
                     ca_parseEntitySequence := i32 (ca_parseEntitySequence cl + 1)\<rparr>,
                  frame\<lparr>cf_numEntities := i32 (cf_numEntities frame + 1)\<rparr>, m1) })))"
      using gone x by (auto simp: st)
  qed
qed

lemma DeltaClient_safe:
  assumes "state_safe r st" "length old = 23"
  shows "safe (\<lambda>st'. state_safe r st' \<and> left st' \<le> left st) (CL_DeltaClient number old unchanged' st)"
proof -
  obtain cl frame m where st: "st = (cl, frame, m)" by (cases st)
  have h: "client_safe cl" "read_inv m" "same_buffer r m" "state_sound (cf_ps frame)" using assms(1) by (simp_all add: state_safe_def st)
  then have ring: "length (ca_parseClients cl) = 2048" "list_all (\<lambda>b. length b = 23) (ca_parseClients cl)"
    by (simp_all add: client_safe_def)
  define slot where "slot = parse_slot (ca_parseClientSequence cl)"
  have slot: "0 \<le> slot" "slot < 2048" by (simp_all add: slot_def)
  obtain e where e: "peek (ca_parseClients cl) slot = Some e" using slot ring(1) by (metis peek_in of_nat_numeral)
  then have "length e = 23" using peek_sound [OF ring(2)] by auto
  then have read: "safe (\<lambda>(gone, d, m1). length d = 23 \<and> read_inv m1 \<and> same_buffer m m1)
      (if unchanged' then Done (False, old, m) else MSG_ReadDeltaClient m (Some old) e number)"
    using assms(2) h(2) read_struct_to [of m old msg_clientNetFields e number]
      table_complete_ok [OF tables_complete(4), of old]
    by (auto simp: MSG_ReadDeltaClient_def client_base_def safe_def split: run.splits)
  show ?thesis
    unfolding st CL_DeltaClient_def prod.case Let_def slot_def [symmetric] e checked_simps run_bind.simps
  proof (rule safe_bind [OF read], clarify)
    fix gone and d :: block and m1
    assume d: "length d = 23" and m1: "read_inv m1" "same_buffer m m1"
    have b: "same_buffer r m1" using same_buffer_trans [OF h(3) m1(2)] .
    show "safe (\<lambda>st'. state_safe r st' \<and> left st' \<le> left (cl, frame, m))
       (if gone then Done (cl, frame, m1)
        else checked (do {
          ring1 \<leftarrow> poke (ca_parseClients cl) slot d;
          Some (cl\<lparr>ca_parseClients := ring1, ca_parseClientSequence := i32 (ca_parseClientSequence cl + 1)\<rparr>,
                frame\<lparr>cf_numClients := i32 (cf_numClients frame + 1)\<rparr>, m1) }))"
      using slot ring h(1,4) d m1 b
      by (auto simp: poke_in state_safe_def client_safe_def left_def same_buffer_def list_all_update)
  qed
qed

section \<open>The packet loop\<close>

text \<open>
  The laws of a parser: the next number is read from the message and lies below 1024, an old record
  inside the window has a number, and a record can be built from each of the two sources.
\<close>

locale safe_parser =
  fixes parser :: packet_parser
  assumes next_safe: "state_safe r st \<Longrightarrow> safe (\<lambda>(n, st'). state_safe r st' \<and> left st' \<le> left st \<and>
      (case n of None \<Rightarrow> True | Some k \<Rightarrow> 0 \<le> k \<and> k < 1024 \<and> left st' < left st)) (pp_next parser st)"
    and number_safe: "state_safe r st \<Longrightarrow> 0 \<le> i \<Longrightarrow> i < pp_count parser \<Longrightarrow> safe (\<lambda>_. True) (pp_number parser st i)"
    and kept_safe: "state_safe r st \<Longrightarrow> 0 \<le> i \<Longrightarrow> i < pp_count parser \<Longrightarrow>
      safe (\<lambda>st'. state_safe r st' \<and> left st' \<le> left st) (pp_delta parser k (Some i) True st)"
    and changed_safe: "state_safe r st \<Longrightarrow> (case source of None \<Rightarrow> True | Some i \<Rightarrow> 0 \<le> i \<and> i < pp_count parser) \<Longrightarrow> 0 \<le> k \<Longrightarrow> k < 1024 \<Longrightarrow>
      safe (\<lambda>st'. state_safe r st' \<and> left st' \<le> left st) (pp_delta parser k source False st)"
begin

definition at_record :: "int \<Rightarrow> int \<Rightarrow> bool" where
  "at_record i number \<longleftrightarrow> 0 \<le> i \<and> (i \<ge> pp_count parser \<longrightarrow> number = CL_PARSE_OLD_NUMBER_END)"

lemma old_number_safe:
  "state_safe r st \<Longrightarrow> 0 \<le> i \<Longrightarrow> safe (at_record i) (old_number parser st i)"
  using safe_mono [OF number_safe] by (auto simp: old_number_def at_record_def [abs_def])

lemma copy_old_safe:
  assumes "\<not> going CL_PARSE_OLD_NUMBER_END"
  shows "state_safe r st \<Longrightarrow> at_record i number \<Longrightarrow>
   safe (\<lambda>(j, n, st'). state_safe r st' \<and> left st' \<le> left st \<and> at_record j n)
     (copy_old parser going i number st)"
proof (induction "nat (pp_count parser - i)" arbitrary: i number st rule: less_induct)
  case less
  show ?case
  proof (cases "going number")
    case False
    then show ?thesis using less.prems by (simp add: copy_old.simps)
  next
    case True
    then have i: "0 \<le> i" "i < pp_count parser" using assms less.prems(2) by (auto simp: at_record_def not_le [symmetric])
    have rest: "safe (\<lambda>(j, n, st'). state_safe r st' \<and> left st' \<le> left st \<and> at_record j n)
        (run_bind (old_number parser st1 (i + 1)) (\<lambda>number1. copy_old parser going (i + 1) number1 st1))"
      if "state_safe r st1 \<and> left st1 \<le> left st" for st1
    proof (rule safe_bind [OF old_number_safe])
      fix n assume "at_record (i + 1) n"
      with less.hyps [of "i + 1" st1 n] i that
      show "safe (\<lambda>(j, n, st'). state_safe r st' \<and> left st' \<le> left st \<and> at_record j n)
          (copy_old parser going (i + 1) n st1)"
        by (intro safe_mono [OF less.hyps [of "i + 1" st1 n]]) auto
    qed (use that i in auto)
    show ?thesis
      unfolding copy_old.simps [of parser going i number st]
      using True i safe_bind [OF kept_safe [OF less.prems(1) i, of number] rest] by simp
  qed
qed

lemma records_safe:
  "state_safe r st \<Longrightarrow> at_record i number \<Longrightarrow> left st < int fuel \<Longrightarrow>
   safe (state_safe r) (parse_records fuel parser i number st)"
proof (induction fuel arbitrary: i number st)
  case 0
  then obtain cl frame m where "st = (cl, frame, m)" "read_inv m" by (auto simp: state_safe_def)
  then show ?case using 0 bits_left_bounds [of m] by (simp add: left_def)
next
  case (Suc fuel)
  have ended: "safe (state_safe r) (run_bind (copy_old parser (\<lambda>n. n \<noteq> CL_PARSE_OLD_NUMBER_END) i number st1) (\<lambda>(_, _, st2). Done st2))"
    if "state_safe r st1" for st1
    by (rule safe_bind [OF copy_old_safe [OF _ that Suc.prems(2)]]) auto
  have built: "safe (state_safe r) (if number1 = k
           then run_bind (pp_delta parser k (Some j) False st2) (\<lambda>st3.
                run_bind (old_number parser st3 (j + 1)) (\<lambda>number2. parse_records fuel parser (j + 1) number2 st3))
           else run_bind (pp_delta parser k None False st2) (\<lambda>st3. parse_records fuel parser j number1 st3))"
    if st2: "state_safe r st2" "left st2 < left st" and j: "at_record j number1"
      and k: "0 \<le> k" "k < 1024" for st2 j number1 k
  proof (cases "number1 = k")
    case True
    then have jn: "0 \<le> j" "j < pp_count parser" using j k by (auto simp: at_record_def not_le [symmetric])
    have step: "safe (\<lambda>st'. state_safe r st' \<and> left st' \<le> left st2) (pp_delta parser k (Some j) False st2)"
      using changed_safe [OF st2(1), of "Some j" k] k jn by simp
    have "safe (state_safe r) (run_bind (old_number parser st3 (j + 1)) (\<lambda>number2. parse_records fuel parser (j + 1) number2 st3))"
      if "state_safe r st3 \<and> left st3 \<le> left st2" for st3
      using that st2(2) Suc.prems(3) jn by (intro safe_bind [OF old_number_safe] Suc.IH) auto
    from safe_bind [OF step this] True show ?thesis by simp
  next
    case False
    have "safe (state_safe r) (parse_records fuel parser j number1 st3)"
      if "state_safe r st3 \<and> left st3 \<le> left st2" for st3
      using that st2(2) Suc.prems(3) j by (intro Suc.IH) auto
    from safe_bind [OF changed_safe [OF st2(1) _ k, of None] this] False show ?thesis by simp
  qed
  have "safe (state_safe r) (case x of (next', st1) \<Rightarrow> (case next' of
       None \<Rightarrow> run_bind (copy_old parser (\<lambda>n. n \<noteq> CL_PARSE_OLD_NUMBER_END) i number st1) (\<lambda>(_, _, st2). Done st2)
     | Some newNumber \<Rightarrow>
         run_bind (copy_old parser (\<lambda>n. n < newNumber) i number st1) (\<lambda>(index, number, st2).
           if number = newNumber
           then run_bind (pp_delta parser newNumber (Some index) False st2) (\<lambda>st3.
                run_bind (old_number parser st3 (index + 1)) (\<lambda>number1.
                  parse_records fuel parser (index + 1) number1 st3))
           else run_bind (pp_delta parser newNumber None False st2) (\<lambda>st3.
                  parse_records fuel parser index number st3))))"
    if x: "case x of (n, st') \<Rightarrow> state_safe r st' \<and> left st' \<le> left st \<and>
      (case n of None \<Rightarrow> True | Some k \<Rightarrow> 0 \<le> k \<and> k < 1024 \<and> left st' < left st)" for x
  proof -
    obtain n st1 where Pair: "x = (n, st1)" by (cases x)
    show ?thesis
    proof (cases n)
      case None
      then show ?thesis using x Pair ended by simp
    next
      case (Some k)
      then have st1: "state_safe r st1" "0 \<le> k" "k < 1024" "left st1 < left st" using x Pair by auto
      from copy_old_safe [OF _ st1(1) Suc.prems(2), of "\<lambda>n. n < k"] st1(3)
      have "safe (\<lambda>(j, n, st'). state_safe r st' \<and> left st' \<le> left st1 \<and> at_record j n)
          (copy_old parser (\<lambda>n. n < k) i number st1)" by simp
      then show ?thesis
        unfolding Pair Some prod.case option.case
        by (rule safe_bind) (use built st1 in auto)
    qed
  qed
  from safe_bind [OF next_safe [OF Suc.prems(1)] this] show ?case by simp
qed

lemma packet_safe:
  assumes "state_safe r st"
  shows "safe (state_safe r) (parse_packet parser st)"
proof -
  obtain cl frame m where st: "st = (cl, frame, m)" by (cases st)
  then have m: "read_inv m" using assms by (simp add: state_safe_def)
  have "left st < int (nat (8 * m_cursize m + 16))" using bits_left_bounds [OF m] by (simp add: left_def st)
  with assms show ?thesis
    unfolding parse_packet_def st prod.case
    by (intro safe_bind [OF old_number_safe] records_safe) (auto simp: st)
qed

end

section \<open>The two parsers\<close>

lemma old_record_safe: "length ring = 2048 \<Longrightarrow> list_all P ring \<Longrightarrow> \<exists>b. old_record ring first i = Some b \<and> P b"
  using peek_in [of "parse_slot (u32 first + u32 i)" ring] peek_sound by (fastforce simp: old_record_def)

lemma safe_checked: "x = Some y \<Longrightarrow> P y \<Longrightarrow> safe P (checked x)"
  by simp

lemma next_entity_safe:
  assumes "state_safe r st"
  shows "safe (\<lambda>(n, st'). state_safe r st' \<and> left st' \<le> left st \<and>
      (case n of None \<Rightarrow> True | Some k \<Rightarrow> 0 \<le> k \<and> k < 1024 \<and> left st' < left st)) (next_entity st)"
proof -
  obtain cl frame m where st: "st = (cl, frame, m)" by (cases st)
  have h: "client_safe cl" "read_inv m" "same_buffer r m" "state_sound (cf_ps frame)" using assms by (simp_all add: state_safe_def st)
  obtain k m1 where k: "MSG_ReadBits m 10 = Some (k, m1)" "read_inv m1" "same_buffer m m1"
    using MSG_ReadBits_ok [OF h(2), of 10] by (auto simp: reads_ok_def)
  have "0 \<le> k" "k < 1024" using ReadBits_range [OF k(1)] by simp_all
  moreover have "bits_left m1 < bits_left m" if "m_readcount m1 \<le> m_cursize m1"
    using ReadBits_progress [OF k(1) _ h(2) that] by simp
  ultimately show ?thesis
    using h k same_buffer_trans [OF h(3) k(3)]
    by (auto simp: next_entity_def st state_safe_def left_def same_buffer_def)
qed

lemma next_client_safe:
  assumes "state_safe r st"
  shows "safe (\<lambda>(n, st'). state_safe r st' \<and> left st' \<le> left st \<and>
      (case n of None \<Rightarrow> True | Some k \<Rightarrow> 0 \<le> k \<and> k < 1024 \<and> left st' < left st)) (next_client st)"
proof -
  obtain cl frame m where st: "st = (cl, frame, m)" by (cases st)
  have h: "client_safe cl" "read_inv m" "same_buffer r m" "state_sound (cf_ps frame)" using assms by (simp_all add: state_safe_def st)
  obtain g m1 where g: "MSG_ReadBit m = Some (g, m1)" "read_inv m1" "same_buffer m m1"
    using MSG_ReadBit_ok [OF h(2)] by (auto simp: reads_ok_def)
  obtain k m2 where k: "MSG_ReadBits m1 6 = Some (k, m2)" "read_inv m2" "same_buffer m1 m2"
    using MSG_ReadBits_ok [OF g(2), of 6] by (auto simp: reads_ok_def)
  have "0 \<le> k" "k < 1024" using ReadBits_range [OF k(1)] by simp_all
  moreover have "bits_left m2 < bits_left m" if "m_readcount m2 \<le> m_cursize m2"
    using ReadBits_progress [OF k(1) _ g(2) that] g(3) by (simp add: same_buffer_def)
  ultimately show ?thesis
    using h g k same_buffer_trans [OF h(3) g(3)] same_buffer_trans [OF same_buffer_trans [OF h(3) g(3)] k(3)]
    by (auto simp: next_client_def st state_safe_def left_def same_buffer_def)
qed

lemma old_entity_safe:
  assumes "client_safe cl" "i < (case old of None \<Rightarrow> 0 | Some f \<Rightarrow> cf_numEntities f)" "0 \<le> i"
  shows "\<exists>b. CL_OldPacketEntity old cl i = Some b \<and> entity_sound b"
  using assms old_record_safe [of "ca_parseEntities cl" entity_sound]
  by (auto simp: CL_OldPacketEntity_def client_safe_def split: option.splits)

lemma old_client_safe:
  assumes "client_safe cl" "i < (case old of None \<Rightarrow> 0 | Some f \<Rightarrow> cf_numClients f)" "0 \<le> i"
  shows "\<exists>b. CL_OldPacketClient old cl i = Some b \<and> length b = 23"
  using assms old_record_safe [of "ca_parseClients cl" "\<lambda>b. length b = 23"]
  by (auto simp: CL_OldPacketClient_def client_safe_def split: option.splits)

lemma baseline_safe: "client_safe cl \<Longrightarrow> 0 \<le> k \<Longrightarrow> k < 1024 \<Longrightarrow>
    \<exists>b. peek (ca_entityBaselines cl) k = Some b \<and> length b = 61 \<and> 0 \<le> b ! 0"
  using peek_in [of k "ca_entityBaselines cl"] peek_sound [of _ "ca_entityBaselines cl" k]
  by (fastforce simp: client_safe_def)

interpretation entity_loop: safe_parser "entity_parser visible old" for visible old
proof (unfold_locales, goal_cases)
  case (1 r st)
  then show ?case using next_entity_safe by (simp add: entity_parser_def)
next
  case (2 r st i)
  obtain cl frame m where st: "st = (cl, frame, m)" by (cases st)
  then obtain b where b: "CL_OldPacketEntity old cl i = Some b" "entity_sound b"
    using 2 old_entity_safe [of cl i old] by (auto simp: state_safe_def entity_parser_def)
  then have "\<exists>x. peek b 0 = Some x" using peek_in [of 0 b] by (simp add: entity_sound_def entity_allowed_def)
  then show ?case using b(1) by (auto simp: entity_parser_def st)
next
  case (3 r st i k)
  obtain cl frame m where st: "st = (cl, frame, m)" by (cases st)
  then obtain b where b: "CL_OldPacketEntity old cl i = Some b" "entity_sound b"
    using 3 old_entity_safe [of cl i old] by (auto simp: state_safe_def entity_parser_def)
  then have "length b = 61" "0 \<le> b ! 0" by (simp_all add: entity_sound_def entity_allowed_def)
  then show ?case
    using b DeltaEntity_safe [OF 3(1), of b True k visible] by (simp add: entity_parser_def st)
next
  case (4 r st source k)
  obtain cl frame m where st: "st = (cl, frame, m)" by (cases st)
  then have cl: "client_safe cl" using 4(1) by (simp add: state_safe_def)
  have "\<exists>b. (case source of None \<Rightarrow> peek (ca_entityBaselines cl) k | Some index \<Rightarrow> CL_OldPacketEntity old cl index) = Some b \<and>
      length b = 61 \<and> 0 \<le> b ! 0"
  proof (cases source)
    case None
    then show ?thesis using baseline_safe [OF cl 4(3,4)] by simp
  next
    case (Some i)
    then obtain b where "CL_OldPacketEntity old cl i = Some b" "entity_sound b"
      using 4(2) old_entity_safe [OF cl, of i old] by (auto simp: entity_parser_def)
    then show ?thesis using Some by (simp add: entity_sound_def entity_allowed_def)
  qed
  then obtain b where b: "(case source of None \<Rightarrow> peek (ca_entityBaselines cl) k | Some index \<Rightarrow> CL_OldPacketEntity old cl index) = Some b"
      "length b = 61" "0 \<le> b ! 0" by blast
  then show ?case using DeltaEntity_safe [OF 4(1), of b False k visible] 4(3) by (simp add: entity_parser_def st)
qed

interpretation client_loop: safe_parser "client_parser old" for old
proof (unfold_locales, goal_cases)
  case (1 r st)
  then show ?case using next_client_safe by (simp add: client_parser_def)
next
  case (2 r st i)
  obtain cl frame m where st: "st = (cl, frame, m)" by (cases st)
  then obtain b where b: "CL_OldPacketClient old cl i = Some b" "length b = 23"
    using 2 old_client_safe [of cl i old] by (auto simp: state_safe_def client_parser_def)
  then have "\<exists>x. peek b 0 = Some x" using peek_in [of 0 b] by simp
  then show ?case using b(1) by (auto simp: client_parser_def st)
next
  case (3 r st i k)
  obtain cl frame m where st: "st = (cl, frame, m)" by (cases st)
  then obtain b where b: "CL_OldPacketClient old cl i = Some b" "length b = 23"
    using 3 old_client_safe [of cl i old] by (auto simp: state_safe_def client_parser_def)
  then show ?case using DeltaClient_safe [OF 3(1), of b k True] by (simp add: client_parser_def st)
next
  case (4 r st source k)
  obtain cl frame m where st: "st = (cl, frame, m)" by (cases st)
  then have cl: "client_safe cl" using 4(1) by (simp add: state_safe_def)
  have "\<exists>b. (case source of None \<Rightarrow> Some (replicate 23 0) | Some index \<Rightarrow> CL_OldPacketClient old cl index) = Some b \<and> length b = 23"
    using 4(2) old_client_safe [OF cl, of _ old] by (auto simp: client_parser_def split: option.splits)
  then obtain b where "(case source of None \<Rightarrow> Some (replicate 23 0) | Some index \<Rightarrow> CL_OldPacketClient old cl index) = Some b"
      "length b = 23" by blast
  then show ?case using DeltaClient_safe [OF 4(1), of b k False] by (simp add: client_parser_def st)
qed

section \<open>A snapshot\<close>

lemma packets_safe:
  assumes "state_safe r st"
  shows "safe (state_safe r) (CL_ParsePacketEntities visible old st)" "safe (state_safe r) (CL_ParsePacketClients old st)"
  using assms entity_loop.packet_safe client_loop.packet_safe
  by (auto simp: CL_ParsePacketEntities_def CL_ParsePacketClients_def state_safe_def split: prod.splits)

lemma header_safe:
  assumes "client_safe cl" "read_inv r"
  shows "\<exists>frame m. read_header cl r = Some (frame, m) \<and> read_inv m \<and> same_buffer r m"
proof -
  obtain a m1 where a: "MSG_ReadLong r = Some (a, m1)" "read_inv m1" "same_buffer r m1"
    using MSG_ReadLong_ok [OF assms(2)] by (auto simp: reads_ok_def)
  obtain b m2 where b: "MSG_ReadByte m1 = Some (b, m2)" "read_inv m2" "same_buffer m1 m2"
    using MSG_ReadByte_ok [OF a(2)] by (auto simp: reads_ok_def)
  obtain c m3 where c: "MSG_ReadByte m2 = Some (c, m3)" "read_inv m3" "same_buffer m2 m3"
    using MSG_ReadByte_ok [OF b(2)] by (auto simp: reads_ok_def)
  show ?thesis
    using a(1) b(1) c(1,2) same_buffer_trans [OF same_buffer_trans [OF a(3) b(3)] c(3)]
    by (auto simp: read_header_def Let_def)
qed

lemma parent_safe:
  assumes "client_safe cl"
  shows "\<exists>old cl1 frame1. choose_parent cl frame = Some (old, cl1, frame1) \<and> client_safe cl1 \<and>
    state_shape (state_base (map_option cf_ps old))"
proof (cases "cf_deltaNum frame \<le> 0")
  case True
  have "state_shape null_state" by (simp add: state_shape_def null_state_def list_all_replicate)
  then show ?thesis using assms True by (simp add: choose_parent_def client_safe_def state_base_def)
next
  case False
  have snaps: "length (ca_snapshots cl) = 32" "list_all (\<lambda>f. state_sound (cf_ps f)) (ca_snapshots cl)"
    using assms by (simp_all add: client_safe_def)
  obtain f where f: "peek (ca_snapshots cl) (snapshot_slot (cf_deltaNum frame)) = Some f"
    using peek_in [of "snapshot_slot (cf_deltaNum frame)" "ca_snapshots cl"] snaps(1) by auto
  with peek_sound [OF snaps(2)] have "state_sound (cf_ps f)" by simp
  then show ?thesis using False f assms by (simp add: choose_parent_def state_sound_def state_base_def)
qed

lemma invalidate_safe:
  "length snaps = 32 \<Longrightarrow> list_all (\<lambda>f. state_sound (cf_ps f)) snaps \<Longrightarrow>
   \<exists>snaps'. invalidate_frames k n snaps = Some snaps' \<and> length snaps' = 32 \<and> list_all (\<lambda>f. state_sound (cf_ps f)) snaps'"
proof (induction k n snaps rule: invalidate_frames.induct)
  case (1 k n snaps)
  obtain f where f: "peek snaps (snapshot_slot k) = Some f" "state_sound (cf_ps f)"
    using peek_in [of "snapshot_slot k" snaps] peek_sound [OF "1.prems"(2), of "snapshot_slot k"] "1.prems"(1) by auto
  have p: "poke snaps (snapshot_slot k) x = Some (snaps[nat (snapshot_slot k) := x])" for x
    using "1.prems"(1) by (simp add: poke_in)
  show ?case
  proof (cases "k < n")
    case True
    have "\<exists>snaps'. invalidate_frames (k + 1) n (snaps[nat (snapshot_slot k) := f\<lparr>cf_valid := False\<rparr>]) = Some snaps' \<and>
        length snaps' = 32 \<and> list_all (\<lambda>f. state_sound (cf_ps f)) snaps'"
      using "1.IH" [OF True f(1) p] "1.prems" f(2) by (simp add: list_all_update)
    then show ?thesis unfolding invalidate_frames.simps [of k n snaps] using True f(1) p by simp
  next
    case False
    then show ?thesis using "1.prems" by (simp add: invalidate_frames.simps [of k n snaps])
  qed
qed

lemma find_ping_safe: "length (ca_outPackets cl) = 32 \<Longrightarrow> \<exists>p. find_ping n k t cl = Some p"
proof (induction n arbitrary: k)
  case (Suc n)
  then show ?case using peek_in [of "snapshot_slot k" "ca_outPackets cl"] by auto
qed simp

lemma keep_safe:
  assumes "client_safe cl" "state_sound (cf_ps frame)"
  shows "\<exists>cl'. keep_snapshot cl frame = Some cl' \<and> client_safe cl'"
proof (cases "cf_valid frame")
  case True
  have h: "length (ca_snapshots cl) = 32" "list_all (\<lambda>f. state_sound (cf_ps f)) (ca_snapshots cl)"
      "length (ca_outPackets cl) = 32"
    using assms(1) by (simp_all add: client_safe_def)
  obtain snaps where s: "invalidate_frames (first_lost (cf_messageNum (ca_snap cl)) (cf_messageNum frame))
                       (cf_messageNum frame) (ca_snapshots cl) = Some snaps" "length snaps = 32"
      "list_all (\<lambda>f. state_sound (cf_ps f)) snaps" using invalidate_safe [OF h(1,2)] by blast
  have "length (ps_head (cf_ps frame)) = 398" using assms(2) by (simp add: state_sound_def state_shape_def)
  then obtain t where t: "peek (ps_head (cf_ps frame)) 0 = Some t" using peek_in [of 0 "ps_head (cf_ps frame)"] by auto
  obtain p where p: "find_ping (nat CODUO_SNAPSHOT_BACKUP_COUNT) (i32 (ca_outgoingSequence cl - 1)) t cl = Some p"
    using find_ping_safe [OF h(3)] by blast
  have "poke snaps (snapshot_slot k) x = Some (snaps[nat (snapshot_slot k) := x])" for k x using s(2) by (simp add: poke_in)
  then show ?thesis
    using True s t p assms by (auto simp: keep_snapshot_def client_safe_def Let_def list_all_update)
qed (use assms in \<open>simp add: keep_snapshot_def\<close>)

text \<open>
  C2: no server can make the snapshot parser leave its memory. On any bytes, from any state of the
  client that is well formed, \<open>CL_ParseSnapshot\<close> ends, never indexes outside the rings, the
  baselines, the frames or the visibility times, and either raises an error or leaves a well-formed
  client and a cursor for the next command. A well-formed client has only entities whose client
  number is below 64 if they are players, and only frames whose client, view-lock entity and vehicle
  seat are in range. Every message ends the packet loops: a record takes at least one bit.
\<close>

theorem snapshot_parser_safe:
  assumes "client_safe cl" "read_inv r"
  shows "safe (\<lambda>(cl', r'). client_safe cl' \<and> read_inv r' \<and> same_buffer r r') (CL_ParseSnapshot visible cl r)"
proof -
  obtain frame m where 1: "read_header cl r = Some (frame, m)" "read_inv m" "same_buffer r m"
    using header_safe [OF assms] by blast
  obtain old cl1 frame1 where 2: "choose_parent cl frame = Some (old, cl1, frame1)" "client_safe cl1"
      "state_shape (state_base (map_option cf_ps old))" using parent_safe [OF assms(1)] by blast
  have last: "safe (\<lambda>(cl', r'). client_safe cl' \<and> read_inv r' \<and> same_buffer r r')
      (case st of (cl2, frame2, m3) \<Rightarrow> run_bind (checked (keep_snapshot cl2 frame2)) (\<lambda>cl3. Done (cl3, m3)))"
    if "state_safe r st" for st
    using that keep_safe by (fastforce simp: state_safe_def split: prod.splits)
  have body: "safe (\<lambda>(cl', r'). client_safe cl' \<and> read_inv r' \<and> same_buffer r r')
      (run_bind (checked (peek (ps_head ps) 53)) (\<lambda>psClientNum.
       if u32 psClientNum \<ge> u32 MAX_CLIENTS
       then Raise ERR_DROP ''CL_ParseSnapshot: invalid player client number %i''
       else run_bind (CL_ParsePacketEntities visible old (cl1, frame1\<lparr>cf_ps := ps\<rparr>, m2)) (\<lambda>st1.
            run_bind (CL_ParsePacketClients old st1) (\<lambda>(cl2, frame2, m3).
            run_bind (checked (keep_snapshot cl2 frame2)) (\<lambda>cl3. Done (cl3, m3))))))"
    if ps: "state_shape ps \<and> 0 \<le> u32 (ps_head ps ! 367) \<and> u32 (ps_head ps ! 367) < 1024 \<and>
        0 \<le> ps_head ps ! 389 \<and> ps_head ps ! 389 < 7" and m2: "read_inv m2" "same_buffer m m2" for ps m2
  proof -
    have p: "peek (ps_head ps) 53 = Some (ps_head ps ! 53)"
      using ps by (simp add: peek_eq_Some state_shape_def)
    have st: "state_safe r (cl1, frame1\<lparr>cf_ps := ps\<rparr>, m2)" if "u32 (ps_head ps ! 53) < 64"
      using that ps m2 2(2) same_buffer_trans [OF 1(3) m2(2)] by (simp add: state_safe_def state_sound_def)
    have rest: "safe (\<lambda>(cl', r'). client_safe cl' \<and> read_inv r' \<and> same_buffer r r') (run_bind (CL_ParsePacketClients old st1)
        (\<lambda>(cl2, frame2, m3). run_bind (checked (keep_snapshot cl2 frame2)) (\<lambda>cl3. Done (cl3, m3))))"
      if "state_safe r st1" for st1 by (rule safe_bind [OF packets_safe(2) [OF that] last])
    show ?thesis
      using safe_bind [OF packets_safe(1) [OF st] rest] by (simp add: p u32_id not_le [symmetric])
  qed
  have player: "safe (\<lambda>(ps, m2). (state_shape ps \<and> 0 \<le> u32 (ps_head ps ! 367) \<and> u32 (ps_head ps ! 367) < 1024 \<and>
        0 \<le> ps_head ps ! 389 \<and> ps_head ps ! 389 < 7) \<and> read_inv m2 \<and> same_buffer m m2)
      (MSG_ReadDeltaPlayerstate m (map_option cf_ps old))"
    using read_state_to [OF 1(2) 2(3)] by (simp add: safe_runs_to)
  show ?thesis
    unfolding CL_ParseSnapshot_def 1(1) 2(1) checked_simps run_bind.simps prod.case
    by (rule safe_bind [OF player]) (use body in auto)
qed

lemma sample_receiving_safe: "client_safe sample_receiving"
proof -
  have "entity_sound (replicate 61 0)" "entity_sound (sample_thing 7 0)" "state_sound null_state" by code_simp+
  then show ?thesis
    by (simp add: client_safe_def sample_receiving_def list_all_update list_all_replicate sample_snapshot_def
        zero_snapshot_def)
qed

lemma snapshot_parser_safe_witness:
  "safe (\<lambda>(cl', r'). client_safe cl' \<and> read_inv r')
     (CL_ParseSnapshot (\<lambda>_ _. True) sample_receiving (MSG_Init (replicate 64 255) 64))"
proof -
  have "read_inv (MSG_Init (replicate 64 255) 64)" by (simp add: read_inv_def MSG_Init_def)
  from snapshot_parser_safe [OF sample_receiving_safe this, of "\<lambda>_ _. True"] show ?thesis
    by (rule safe_mono) auto
qed

end
