(* ===== verification/Command_Correct.thy ===== *)
theory Command_Correct
  imports Command Info_Correct "HOL-Library.Multiset"
begin

text \<open>
  The tokenizer against the list of tokens it stands for, the command buffer as a queue of
  commands, and the list of commands that moves what it finds to its front.
\<close>

section \<open>The tokens of a text\<close>

fun taken :: "(string \<Rightarrow> bool) \<Rightarrow> string \<Rightarrow> string" where
  "taken going [] = []"
| "taken going (c # cs) = (if going (c # cs) then c # taken going cs else [])"

definition rest_of :: "(string \<Rightarrow> bool) \<Rightarrow> string \<Rightarrow> string" where
  "rest_of going s = drop (length (taken going s)) s"

definition token_end :: "string \<Rightarrow> string \<Rightarrow> bool" where
  "token_end t = (if hd t = QUOTE then in_quotes else in_word)"

definition token_body :: "string \<Rightarrow> string" where
  "token_body t = (if hd t = QUOTE then tl t else t)"

definition past_token :: "string \<Rightarrow> string" where
  "past_token t = (let r = rest_of (token_end t) (token_body t) in skip_blank (if hd t = QUOTE then tl r else r))"

text \<open>
  At most \<open>n\<close> tokens; \<open>m\<close> counts down to the token that is the rest of the text.
\<close>

fun tokens :: "nat \<Rightarrow> int \<Rightarrow> string \<Rightarrow> string list" where
  "tokens 0 m s = []"
| "tokens (Suc n) m s =
     (let m1 = i32 (m - 1) in
      if m1 = 0 then (if s = [] then [] else [s])
      else case next_token s of
        None \<Rightarrow> []
      | Some t \<Rightarrow> taken (token_end t) (token_body t) #
          (if rest_of (token_end t) (token_body t) = [] then [] else tokens n m1 (past_token t)))"

lemma taken_rest [simp]: "taken going s @ rest_of going s = s"
  unfolding rest_of_def by (induction s) auto

lemma length_taken_rest: "length (taken going s) + length (rest_of going s) = length s"
  by (metis length_append taken_rest)

lemma taken_all [simp]: "taken (\<lambda>t. True) s = s" "rest_of (\<lambda>t. True) s = []"
  unfolding rest_of_def by (induction s) auto

lemma rest_of_stops: "rest_of going s \<noteq> [] \<Longrightarrow> \<not> going (rest_of going s)"
  unfolding rest_of_def by (induction s) (auto split: if_splits)

lemma taken_set: "set (taken going s) \<subseteq> set s" "set (rest_of going s) \<subseteq> set s"
  by (metis taken_rest set_append sup_ge1, metis taken_rest set_append sup_ge2)

lemma put_while_taken:
  "0 \<le> tok \<Longrightarrow> nat tok + length (taken going s) \<le> length buffer \<Longrightarrow>
   put_while going s buffer tok = Some (rest_of going s,
     take (nat tok) buffer @ taken going s @ drop (nat tok + length (taken going s)) buffer, tok + int (length (taken going s)))"
proof (induction s arbitrary: buffer tok)
  case Nil
  then show ?case by (simp add: rest_of_def)
next
  case (Cons c cs)
  show ?case
  proof (cases "going (c # cs)")
    case True
    then have lt: "nat tok < length buffer" using Cons.prems(2) by simp
    then have p: "poke buffer tok c = Some (buffer[nat tok := c])" using Cons.prems(1) by (simp add: poke_eq_Some nat_less_iff)
    have n: "nat (tok + 1) = Suc (nat tok)" using Cons.prems(1) by simp
    have "put_while going cs (buffer[nat tok := c]) (tok + 1) = Some (rest_of going cs,
        take (nat (tok + 1)) (buffer[nat tok := c]) @ taken going cs @
          drop (nat (tok + 1) + length (taken going cs)) (buffer[nat tok := c]), tok + 1 + int (length (taken going cs)))"
      using True Cons.prems by (intro Cons.IH) (auto simp: n)
    moreover have "take (Suc (nat tok)) (buffer[nat tok := c]) = take (nat tok) buffer @ [c]"
      using lt by (simp add: take_Suc_conv_app_nth)
    ultimately show ?thesis using True p by (simp add: rest_of_def n)
  next
    case False
    then show ?thesis by (simp add: rest_of_def)
  qed
qed

lemma put_token_taken:
  assumes "0 \<le> tok" "nat tok + length (taken going s) < length buffer"
  shows "put_token going s buffer tok = Some (rest_of going s,
     take (nat tok) buffer @ taken going s @ NUL # drop (nat tok + length (taken going s) + 1) buffer,
     tok + int (length (taken going s)) + 1)"
proof -
  let ?b = "take (nat tok) buffer @ taken going s @ drop (nat tok + length (taken going s)) buffer"
  have w: "put_while going s buffer tok = Some (rest_of going s, ?b, tok + int (length (taken going s)))"
    using assms by (intro put_while_taken) auto
  have n: "nat (tok + int (length (taken going s))) = nat tok + length (taken going s)" using assms(1) by simp
  have "poke ?b (tok + int (length (taken going s))) NUL = Some (?b[nat tok + length (taken going s) := NUL])"
    using assms by (simp add: poke_eq_Some n)
  moreover have "?b[nat tok + length (taken going s) := NUL] =
      take (nat tok) buffer @ taken going s @ NUL # drop (nat tok + length (taken going s) + 1) buffer"
    using assms(2) by (simp add: list_update_append min_def Cons_nth_drop_Suc [symmetric])
  ultimately show ?thesis using w by (simp add: put_token_def)
qed

text \<open>Where a token starts.\<close>

definition at_token :: "string \<Rightarrow> bool" where
  "at_token t \<longleftrightarrow> t \<noteq> [] \<and> \<not> blank (hd t) \<and> \<not> starts ''//'' t \<and> \<not> starts ''/*'' t"

lemma dropWhile_hd: "dropWhile P s = t \<Longrightarrow> t \<noteq> [] \<Longrightarrow> \<not> P (hd t)"
  using hd_dropWhile by blast

lemma in_set_tl: "x \<in> set (tl s) \<Longrightarrow> x \<in> set s"
  by (cases s) auto

lemma skip_comment_set: "skip_comment s = Some rest \<Longrightarrow> set rest \<subseteq> set s"
  by (induction s) (auto split: if_splits dest: in_set_tl)

lemma next_token_start:
  "next_token s = Some t \<Longrightarrow> at_token t \<and> length t \<le> length s \<and> set t \<subseteq> set s"
proof (induction s rule: next_token.induct)
  case (1 s)
  define u where "u = dropWhile blank s"
  have u: "length u \<le> length s" "set u \<subseteq> set s"
    by (auto simp: u_def length_dropWhile_le dest: set_dropWhileD)
  have r: "next_token s = (if u = [] \<or> starts ''//'' u then None else if \<not> starts ''/*'' u then Some u
      else case skip_comment u of None \<Rightarrow> None | Some rest \<Rightarrow> next_token rest)"
    unfolding next_token.simps [of s] Let_def u_def by (rule refl)
  then have ne: "u \<noteq> []" "\<not> starts ''//'' u" using "1.prems" by (auto split: if_splits)
  show ?case
  proof (cases "starts ''/*'' u")
    case False
    then have "t = u" using r ne "1.prems" by simp
    then show ?thesis using ne False u dropWhile_hd [OF u_def [symmetric] ne(1)] by (simp add: at_token_def)
  next
    case True
    then obtain rest where rest: "skip_comment u = Some rest" "next_token rest = Some t"
      using r ne "1.prems" by (auto split: option.splits)
    have "at_token t \<and> length t \<le> length rest \<and> set t \<subseteq> set rest"
      using "1.IH" [OF u_def] ne True rest by simp
    then show ?thesis using skip_comment_shorter [OF rest(1)] skip_comment_set [OF rest(1)] u by auto
  qed
qed

lemma not_blank_special [simp]: "\<not> blank QUOTE" "\<not> blank (CHR ''/'')"
  by (simp_all add: blank_def schar_def)

lemma next_token_special:
  assumes "next_token s = Some t" "s \<noteq> []" "hd s = QUOTE \<or> starts ''//'' s \<or> starts ''/*'' s"
  shows "t = s \<and> hd t = QUOTE \<or> length t < length s"
proof -
  have "hd s = CHR ''/''" if "starts ''//'' s \<or> starts ''/*'' s" using that assms(2) by (cases s) (auto simp: starts_def)
  then have "\<not> blank (hd s)" using assms(3) by auto
  then have d: "dropWhile blank s = s" using assms(2) by (cases s) auto
  have r: "next_token s = (if s = [] \<or> starts ''//'' s then None else if \<not> starts ''/*'' s then Some s
      else case skip_comment s of None \<Rightarrow> None | Some rest \<Rightarrow> next_token rest)"
    by (simp add: next_token.simps [of s] d)
  show ?thesis
  proof (cases "starts ''/*'' s")
    case True
    then obtain rest where "skip_comment s = Some rest" "next_token rest = Some t"
      using r assms(1) by (auto split: if_splits option.splits)
    then show ?thesis using skip_comment_shorter [of s rest] next_token_start [of rest t] by auto
  next
    case False
    then show ?thesis using r assms by (auto split: if_splits)
  qed
qed

section \<open>The token buffer\<close>

text \<open>The arguments \<open>as\<close> lie in the token buffer below \<open>tok\<close>, each with its NUL.\<close>

definition argument_at :: "command_state \<Rightarrow> int \<Rightarrow> int \<Rightarrow> string \<Rightarrow> bool" where
  "argument_at st tok off a \<longleftrightarrow> 0 \<le> off \<and> off + int (length a) < tok \<and> nulfree a \<and>
     take (length a + 1) (drop (nat off) (cmd_tokenBuffer st)) = a @ [NUL]"

definition arguments :: "command_state \<Rightarrow> int \<Rightarrow> string list \<Rightarrow> bool" where
  "arguments st tok as \<longleftrightarrow> cmd_argc st = int (length as) \<and> length (cmd_argv st) = 512 \<and>
     length (cmd_tokenBuffer st) = 8704 \<and> length as \<le> 512 \<and> 0 \<le> tok \<and> tok \<le> 8704 \<and>
     (\<forall>i < length as. argument_at st tok (cmd_argv st ! i) (as ! i))"

lemma argument_at_later:
  assumes "argument_at st tok off a" "tok \<le> tok'" "tok \<le> 8704" "length (cmd_tokenBuffer st) = 8704"
    and "take (nat tok) (cmd_tokenBuffer st') = take (nat tok) (cmd_tokenBuffer st)"
  shows "argument_at st' tok' off a"
proof -
  have h: "0 \<le> off" "off + int (length a) < tok" using assms(1) by (simp_all add: argument_at_def)
  then have n: "nat off + (length a + 1) \<le> nat tok" by simp
  have cut: "take (length a + 1) (drop (nat off) b) = take (length a + 1) (drop (nat off) (take (nat tok) b))" for b :: string
    using n h(1) by (auto simp: drop_take min_def)
  show ?thesis
    using assms(1,2) cut [of "cmd_tokenBuffer st"] cut [of "cmd_tokenBuffer st'"] assms(5)
    by (simp add: argument_at_def)
qed

definition same_rest :: "command_state \<Rightarrow> command_state \<Rightarrow> bool" where
  "same_rest st st' \<longleftrightarrow> cmd_text st' = cmd_text st \<and> cmd_wait st' = cmd_wait st \<and> cmd_args st' = cmd_args st \<and>
     cmd_functions st' = cmd_functions st"

lemma one_argument:
  assumes st: "arguments st tok as" "length as < 512" and a: "nulfree (taken going s)"
    and room: "tok + int (length (taken going s)) < 8704"
  shows "\<exists>st1 buffer. add_argument st tok = Some st1 \<and>
     put_token going s (cmd_tokenBuffer st1) tok = Some (rest_of going s, buffer, tok + int (length (taken going s)) + 1) \<and>
     arguments (st1\<lparr>cmd_tokenBuffer := buffer\<rparr>) (tok + int (length (taken going s)) + 1) (as @ [taken going s]) \<and>
     same_rest st (st1\<lparr>cmd_tokenBuffer := buffer\<rparr>)"
proof -
  let ?a = "taken going s"
  have h: "cmd_argc st = int (length as)" "length (cmd_argv st) = 512" "length (cmd_tokenBuffer st) = 8704"
      "0 \<le> tok" "tok \<le> 8704" "\<And>i. i < length as \<Longrightarrow> argument_at st tok (cmd_argv st ! i) (as ! i)"
    using st(1) by (simp_all add: arguments_def)
  let ?b = "take (nat tok) (cmd_tokenBuffer st) @ ?a @ NUL # drop (nat tok + length ?a + 1) (cmd_tokenBuffer st)"
  define st1 where "st1 = st\<lparr>cmd_argv := (cmd_argv st)[length as := tok], cmd_argc := int (length as) + 1\<rparr>"
  have n: "nat tok + length ?a < 8704" using room h(4) by simp
  have add: "add_argument st tok = Some st1"
    using st(2) by (simp add: add_argument_def h(1,2) mem_simps st1_def)
  have put: "put_token going s (cmd_tokenBuffer st1) tok = Some (rest_of going s, ?b, tok + int (length ?a) + 1)"
    using put_token_taken [of tok going s "cmd_tokenBuffer st1"] h(3,4) n by (simp add: st1_def)
  have "argument_at (st1\<lparr>cmd_tokenBuffer := ?b\<rparr>) (tok + int (length ?a) + 1) (cmd_argv st ! i) (as ! i)"
    if "i < length as" for i
    by (rule argument_at_later [OF h(6) [OF that]]) (use h n in auto)
  moreover have "argument_at (st1\<lparr>cmd_tokenBuffer := ?b\<rparr>) (tok + int (length ?a) + 1) tok ?a"
    using a h(3,4) n by (simp add: argument_at_def min_def)
  ultimately have "arguments (st1\<lparr>cmd_tokenBuffer := ?b\<rparr>) (tok + int (length ?a) + 1) (as @ [?a])"
    using st(2) h n by (auto simp: arguments_def st1_def nth_append less_Suc_eq)
  then show ?thesis using add put by (auto simp: st1_def same_rest_def)
qed

text \<open>
  How much the rest of the text may take. A token that ends at a quote or a comment has used one
  byte more than the text it was read from; the quote or the comment gives it back.
\<close>

definition room :: "int \<Rightarrow> string \<Rightarrow> int \<Rightarrow> bool" where
  "room B s tok \<longleftrightarrow> tok + int (length s) \<le> B \<or>
     tok + int (length s) \<le> B + 1 \<and> (s = [] \<or> hd s = QUOTE \<or> starts ''//'' s \<or> starts ''/*'' s)"

lemma room_token:
  assumes "room B s tok" "next_token s = Some t"
  shows "tok + int (length t) \<le> B \<or> tok + int (length t) \<le> B + 1 \<and> hd t = QUOTE"
proof (cases "s = []")
  case True
  have "next_token [] = None" by (simp add: next_token.simps [of "[]"])
  then show ?thesis using assms(2) True by simp
next
  case False
  then show ?thesis
    using assms next_token_start [OF assms(2)] next_token_special [OF assms(2)] by (auto simp: room_def)
qed

lemma room_past:
  assumes t: "at_token t" "tok + int (length t) \<le> B \<or> tok + int (length t) \<le> B + 1 \<and> hd t = QUOTE"
    and r: "rest_of (token_end t) (token_body t) \<noteq> []"
  shows "room B (past_token t) (tok + int (length (taken (token_end t) (token_body t))) + 1)"
proof -
  let ?a = "taken (token_end t) (token_body t)" and ?r = "rest_of (token_end t) (token_body t)"
  note len = length_taken_rest [of "token_end t" "token_body t"]
  show ?thesis
  proof (cases "hd t = QUOTE")
    case True
    then have "length (token_body t) + 1 = length t" using t(1) by (cases t) (simp_all add: token_body_def at_token_def)
    moreover have "length (past_token t) \<le> length ?r - 1" using True by (auto simp: past_token_def Let_def skip_blank_def)
    ultimately show ?thesis using t(2) len r by (cases ?r) (auto simp: room_def)
  next
    case False
    have "\<not> in_word ?r" using rest_of_stops [OF r] False by (simp add: token_end_def)
    then have "blank (hd ?r) \<or> hd ?r = QUOTE \<or> starts ''//'' ?r \<or> starts ''/*'' ?r"
      by (auto simp: in_word_def blank_def)
    moreover have "length t = length ?a + length ?r" using len False by (simp add: token_body_def)
    ultimately show ?thesis
      using t(2) False r by (cases ?r) (auto simp: past_token_def Let_def skip_blank_def room_def)
  qed
qed

lemma nulfree_subset: "nulfree s \<Longrightarrow> set t \<subseteq> set s \<Longrightarrow> nulfree t"
  by (auto simp: nulfree_def)

lemma token_body_set: "set (token_body t) \<subseteq> set t"
  by (auto simp: token_body_def dest: in_set_tl)

lemma past_token_set: "set (past_token t) \<subseteq> set t"
proof -
  have "set (rest_of (token_end t) (token_body t)) \<subseteq> set t" using taken_set(2) token_body_set by blast
  then show ?thesis by (auto simp: past_token_def Let_def skip_blank_def dest!: in_set_tl split: if_splits)
qed

lemma tokenize_tokens:
  "arguments st tok as \<Longrightarrow> length as + n = 512 \<Longrightarrow> room B s tok \<Longrightarrow> nulfree s \<Longrightarrow>
   B = 8702 \<or> B = 8703 \<and> m = int n - 512 \<Longrightarrow>
   \<exists>st' tok'. tokenize_loop n m s tok st = Some st' \<and> arguments st' tok' (as @ tokens n m s) \<and> same_rest st st'"
proof (induction n arbitrary: m s tok st as)
  case 0
  then show ?case by (auto simp: same_rest_def)
next
  case (Suc n)
  define m1 where "m1 = i32 (m - 1)"
  have less: "length as < 512" using Suc.prems(2) by simp
  have tok: "0 \<le> tok" using Suc.prems(1) by (simp add: arguments_def)
  have limit: "B = 8702 \<or> B = 8703 \<and> m1 = int n - 512 \<and> m1 \<noteq> 0"
  proof -
    have "m1 = int n - 512" if "m = int (Suc n) - 512"
      using that Suc.prems(2) by (simp add: m1_def) (intro i32_id; simp)
    then show ?thesis using Suc.prems(2,5) by auto
  qed
  show ?case
  proof (cases "m1 = 0")
    case True
    show ?thesis
    proof (cases "s = []")
      case True
      then show ?thesis using \<open>m1 = 0\<close> Suc.prems(1) by (auto simp: m1_def [symmetric] Let_def same_rest_def)
    next
      case False
      have "tok + int (length (taken (\<lambda>t. True) s)) < 8704" using Suc.prems(3) limit True by (auto simp: room_def)
      from one_argument [OF Suc.prems(1) less _ this] Suc.prems(4) obtain st1 buffer
        where 1: "add_argument st tok = Some st1"
          "put_token (\<lambda>t. True) s (cmd_tokenBuffer st1) tok = Some ([], buffer, tok + int (length s) + 1)"
          "arguments (st1\<lparr>cmd_tokenBuffer := buffer\<rparr>) (tok + int (length s) + 1) (as @ [s])"
          "same_rest st (st1\<lparr>cmd_tokenBuffer := buffer\<rparr>)" by auto
      then show ?thesis using True False by (auto simp: m1_def [symmetric] Let_def)
    qed
  next
    case False
    show ?thesis
    proof (cases "next_token s")
      case None
      then show ?thesis using False Suc.prems(1) by (auto simp: m1_def [symmetric] Let_def same_rest_def)
    next
      case (Some t)
      define a r where "a = taken (token_end t) (token_body t)" and "r = rest_of (token_end t) (token_body t)"
      note start = next_token_start [OF Some] and fits = room_token [OF Suc.prems(3) Some]
      have nul: "nulfree t" using nulfree_subset [OF Suc.prems(4)] start by simp
      have "length a + length r = length (token_body t)" using length_taken_rest by (simp add: a_def r_def)
      moreover have "length (token_body t) < length t \<or> hd t \<noteq> QUOTE \<and> length (token_body t) = length t"
        using start by (cases t) (auto simp: token_body_def at_token_def)
      ultimately have "tok + int (length a) < 8704" using fits limit by auto
      moreover have "nulfree a" using nulfree_subset [OF nul] token_body_set taken_set(1) by (metis a_def subset_trans)
      ultimately obtain st1 buffer where 1: "add_argument st tok = Some st1"
          "put_token (token_end t) (token_body t) (cmd_tokenBuffer st1) tok = Some (r, buffer, tok + int (length a) + 1)"
          "arguments (st1\<lparr>cmd_tokenBuffer := buffer\<rparr>) (tok + int (length a) + 1) (as @ [a])"
          "same_rest st (st1\<lparr>cmd_tokenBuffer := buffer\<rparr>)"
        using one_argument [OF Suc.prems(1) less, of "token_end t" "token_body t"] by (auto simp: a_def r_def)
      have put: "(if hd t = QUOTE then put_token in_quotes (tl t) (cmd_tokenBuffer st1) tok
             else put_token in_word t (cmd_tokenBuffer st1) tok) = Some (r, buffer, tok + int (length a) + 1)"
        using 1(2) by (simp add: token_end_def token_body_def split: if_splits)
      show ?thesis
      proof (cases "r = []")
        case True
        then show ?thesis
          using 1 put False Some by (auto simp: m1_def [symmetric] Let_def a_def [symmetric] r_def [symmetric])
      next
        case rest: False
        have "room B (past_token t) (tok + int (length a) + 1)"
          using room_past [OF _ fits] start rest by (simp add: a_def r_def)
        moreover have "nulfree (past_token t)" using nulfree_subset [OF nul past_token_set] .
        ultimately obtain st' tok' where 2: "tokenize_loop n m1 (past_token t) (tok + int (length a) + 1)
              (st1\<lparr>cmd_tokenBuffer := buffer\<rparr>) = Some st'"
            "arguments st' tok' ((as @ [a]) @ tokens n m1 (past_token t))"
            "same_rest (st1\<lparr>cmd_tokenBuffer := buffer\<rparr>) st'"
          using Suc.IH [OF 1(3), of "past_token t" m1] Suc.prems(2) limit by auto
        have past: "skip_blank (if hd t = QUOTE then tl r else r) = past_token t"
          by (simp add: past_token_def r_def Let_def)
        have "tokenize_loop (Suc n) m s tok st = Some st'"
          using 1(1) put False Some rest 2(1) past by (simp add: m1_def [symmetric] Let_def)
        moreover have "tokens (Suc n) m s = a # tokens n m1 (past_token t)"
          using False Some rest by (simp add: m1_def [symmetric] Let_def a_def r_def)
        ultimately show ?thesis using 2(2,3) 1(4) by (auto simp: same_rest_def)
      qed
    qed
  qed
qed

lemma arguments_argv:
  assumes "arguments st tok as"
  shows "Cmd_Argc st = int (length as)" "i < length as \<Longrightarrow> Cmd_Argv st (int i) = Some (as ! i)"
proof -
  show "Cmd_Argc st = int (length as)" using assms by (simp add: Cmd_Argc_def arguments_def)
  assume i: "i < length as"
  have h: "cmd_argc st = int (length as)" "length (cmd_argv st) = 512" "length as \<le> 512"
      "length (cmd_tokenBuffer st) = 8704" "tok \<le> 8704" "argument_at st tok (cmd_argv st ! i) (as ! i)"
    using assms i by (simp_all add: arguments_def)
  let ?off = "cmd_argv st ! i" and ?d = "drop (nat (cmd_argv st ! i)) (cmd_tokenBuffer st)"
  have off: "0 \<le> ?off" "?off \<le> 8704" and a: "nulfree (as ! i)" "take (length (as ! i) + 1) ?d = as ! i @ [NUL]"
    using h by (auto simp: argument_at_def)
  have d: "?d = as ! i @ NUL # drop (length (as ! i) + 1) ?d"
    using append_take_drop_id [of "length (as ! i) + 1" ?d] unfolding a(2) by simp
  have "NUL \<in> set ?d" by (subst d) simp
  moreover have "cstr_of ?d = as ! i" by (subst d) (rule cstr_of_append_NUL [OF a(1)])
  ultimately have "token_at st (int i) = Some (as ! i)"
    using h i off by (simp add: token_at_def peek_eq_Some mem_simps peek_def)
  then show "Cmd_Argv st (int i) = Some (as ! i)"
    using h(1,3) i by (simp add: Cmd_Argv_def u32_id)
qed

definition tokenizer_ok :: "command_state \<Rightarrow> bool" where
  "tokenizer_ok st \<longleftrightarrow> length (cmd_argv st) = 512 \<and> length (cmd_tokenBuffer st) = 8704"

lemma tokenize_text:
  assumes "tokenizer_ok st" "nulfree s" "length s < 8704" "maxTokens = 0 \<or> length s < 8703"
  shows "\<exists>st' tok'. Cmd_TokenizeString2 st (Some s) maxTokens = Some st' \<and>
     arguments st' tok' (tokens 512 maxTokens s) \<and> same_rest st st'"
proof -
  have st: "arguments (st\<lparr>cmd_argc := 0\<rparr>) 0 []" using assms(1) by (simp add: arguments_def tokenizer_ok_def)
  define B :: int where "B = (if maxTokens = 0 then 8703 else 8702)"
  have B: "B = 8702 \<or> B = 8703 \<and> maxTokens = int 512 - 512" "room B s 0"
    using assms(3,4) by (auto simp: B_def room_def)
  from tokenize_tokens [OF st _ B(2) assms(2) B(1)] assms(3) show ?thesis
    by (auto simp: Cmd_TokenizeString2_def same_rest_def)
qed


section \<open>Quoting\<close>

text \<open>A list of arguments as a command line: each one in quotes, or bare if it is a plain word.\<close>

definition plain_word :: "string \<Rightarrow> bool" where
  "plain_word a \<longleftrightarrow> a \<noteq> [] \<and> list_all (\<lambda>c. 32 < schar c \<and> c \<noteq> QUOTE \<and> c \<noteq> CHR ''/'') a"

definition show_argument :: "bool \<times> string \<Rightarrow> string" where
  "show_argument qa = (case qa of (quoted, a) \<Rightarrow>
     if quoted \<or> \<not> plain_word a then QUOTE # a @ [QUOTE, CHR '' ''] else a @ [CHR '' ''])"

lemma taken_quoted: "QUOTE \<notin> set a \<Longrightarrow> taken in_quotes (a @ QUOTE # s) = a"
  by (induction a) (auto simp: in_quotes_def)

lemma taken_word:
  "list_all (\<lambda>c. 32 < schar c \<and> c \<noteq> QUOTE \<and> c \<noteq> CHR ''/'') a \<Longrightarrow> taken in_word (a @ CHR '' '' # s) = a"
proof (induction a)
  case Nil
  have "schar (CHR '' '') = 32" by (simp add: schar_def)
  then show ?case by (simp add: in_word_def)
next
  case (Cons c a)
  then show ?case by (simp add: in_word_def starts_def)
qed

lemma next_token_here: "s \<noteq> [] \<Longrightarrow> \<not> blank (hd s) \<Longrightarrow> hd s \<noteq> CHR ''/'' \<Longrightarrow> next_token s = Some s"
  by (cases s) (simp_all add: next_token.simps [of "c # cs" for c cs] Let_def starts_def)

lemma tokens_argument:
  assumes "QUOTE \<notin> set a" "i32 (m - 1) \<noteq> 0"
  shows "tokens (Suc n) m (show_argument (q, a) @ s) = a # tokens n (i32 (m - 1)) s"
proof -
  have sp: "blank (CHR '' '')" by (simp add: blank_def schar_def)
  show ?thesis
  proof (cases "q \<or> \<not> plain_word a")
    case True
    let ?t = "QUOTE # a @ QUOTE # CHR '' '' # s"
    have t: "next_token ?t = Some ?t" by (rule next_token_here) simp_all
    have "taken (token_end ?t) (token_body ?t) = a" using taken_quoted [OF assms(1)] by (simp add: token_end_def token_body_def)
    moreover from this have "rest_of (token_end ?t) (token_body ?t) = QUOTE # CHR '' '' # s"
      by (simp add: rest_of_def token_body_def)
    moreover from this have "past_token ?t = s" using sp by (simp add: past_token_def skip_blank_def)
    ultimately show ?thesis using True assms(2) t by (simp add: show_argument_def)
  next
    case False
    let ?t = "a @ CHR '' '' # s"
    have a: "a \<noteq> []" "list_all (\<lambda>c. 32 < schar c \<and> c \<noteq> QUOTE \<and> c \<noteq> CHR ''/'') a"
      using False by (simp_all add: plain_word_def)
    then have hd: "hd ?t = hd a" "32 < schar (hd a)" "hd a \<noteq> QUOTE" "hd a \<noteq> CHR ''/''"
      by (cases a; simp)+
    have t: "next_token ?t = Some ?t" by (rule next_token_here) (use hd in \<open>auto simp: blank_def\<close>)
    have "taken (token_end ?t) (token_body ?t) = a" using taken_word [OF a(2)] hd by (simp add: token_end_def token_body_def)
    moreover from this have "rest_of (token_end ?t) (token_body ?t) = CHR '' '' # s"
      using hd by (simp add: rest_of_def token_body_def)
    moreover from this have "past_token ?t = s" using sp hd by (simp add: past_token_def skip_blank_def)
    ultimately show ?thesis using False assms(2) t a(1) by (simp add: show_argument_def)
  qed
qed

lemma tokens_arguments:
  "\<forall>a\<in>snd ` set qas. QUOTE \<notin> set a \<Longrightarrow> length qas \<le> n \<Longrightarrow> m \<le> 0 \<Longrightarrow> - 1000000 \<le> m - int n \<Longrightarrow>
   tokens n m (concat (map show_argument qas)) = map snd qas"
proof (induction qas arbitrary: n m)
  case Nil
  then show ?case by (cases n) (simp_all add: next_token.simps [of "[]"] Let_def)
next
  case (Cons qa qas)
  obtain k where k: "n = Suc k" using Cons.prems(2) by (cases n) auto
  have m: "i32 (m - 1) = m - 1" using Cons.prems(3,4) by (intro i32_id) auto
  obtain q a where qa: "qa = (q, a)" by (cases qa)
  have "tokens (Suc k) m (show_argument (q, a) @ concat (map show_argument qas)) = a # map snd qas"
    using tokens_argument [of a m k q "concat (map show_argument qas)"] Cons.IH [of k "m - 1"] Cons.prems k qa m by simp
  then show ?case using k qa by simp
qed


definition sample_commands :: command_state where
  "sample_commands = \<lparr>cmd_text = \<lparr>cb_data = replicate 65536 NUL, cb_maxsize = 65536, cb_cursize = 0\<rparr>,
     cmd_wait = 0, cmd_argc = 0, cmd_argv = replicate 512 0, cmd_tokenBuffer = replicate 8704 NUL,
     cmd_args = replicate 8704 NUL, cmd_functions = []\<rparr>"

lemma sample_tokenizer_ok: "tokenizer_ok sample_commands"
  by (simp add: tokenizer_ok_def sample_commands_def)


definition sample_arguments :: "(bool \<times> string) list" where
  "sample_arguments = [(False, ''tell''), (True, ''2; // x''), (True, [])]"


section \<open>The command buffer\<close>

definition live :: "cbuf_t \<Rightarrow> string" where
  "live b = take (nat (cb_cursize b)) (cb_data b)"

definition cbuf_ok :: "cbuf_t \<Rightarrow> bool" where
  "cbuf_ok b \<longleftrightarrow> 0 \<le> cb_cursize b \<and> cb_cursize b \<le> cb_maxsize b \<and> cb_maxsize b = int (length (cb_data b)) \<and>
     cb_maxsize b < 2147483648"

lemma length_live [simp]: "cbuf_ok b \<Longrightarrow> int (length (live b)) = cb_cursize b"
  by (auto simp: live_def cbuf_ok_def min_def)

lemma AddText_live:
  assumes "cbuf_ok (cmd_text st)" "int (length s) < cb_maxsize (cmd_text st) - cb_cursize (cmd_text st)"
  shows "\<exists>b. Cbuf_AddText st s = Some (st\<lparr>cmd_text := b\<rparr>) \<and> cbuf_ok b \<and> live b = live (cmd_text st) @ s \<and>
     cb_maxsize b = cb_maxsize (cmd_text st)"
proof -
  let ?b = "cmd_text st"
  obtain n where n: "cb_cursize ?b = int n" using assms(1) by (auto simp: cbuf_ok_def elim: nonneg_int_cases)
  have room: "n + length s < length (cb_data ?b)" using assms by (simp add: cbuf_ok_def n)
  have "text_fits ?b s" using assms by (simp add: text_fits_def cbuf_ok_def)
  then show ?thesis
    using room assms(1)
    by (intro exI [of _ "?b\<lparr>cb_data := take n (cb_data ?b) @ s @ drop (n + length s) (cb_data ?b),
          cb_cursize := int (n + length s)\<rparr>"])
      (auto simp: Cbuf_AddText_def Let_def n mem_simps cbuf_ok_def live_def nat_add_distrib)
qed

lemma move_up_spec:
  "k + n \<le> length data \<Longrightarrow> 0 < k \<Longrightarrow>
   \<exists>data'. move_up n (int k) data = Some data' \<and> length data' = length data \<and>
     take n (drop k data') = take n data \<and> drop (k + n) data' = drop (k + n) data"
proof (induction n arbitrary: data)
  case 0
  then show ?case by simp
next
  case (Suc n)
  define d where "d = data[k + n := data ! n]"
  have "move_up (Suc n) (int k) data = move_up n (int k) d"
    using Suc.prems by (simp add: d_def peek_def poke_def nat_add_distrib)
  moreover obtain data' where d': "move_up n (int k) d = Some data'" "length data' = length d"
      "take n (drop k data') = take n d" "drop (k + n) data' = drop (k + n) d"
    using Suc.IH [of d] Suc.prems by (auto simp: d_def)
  moreover have "take n d = take n data" using Suc.prems by (simp add: d_def)
  moreover have "data' ! (k + n) = data ! n"
  proof -
    have "data' ! (k + n) = drop (k + n) data' ! 0" using d'(2) Suc.prems by (simp add: d_def)
    also have "\<dots> = data ! n" using Suc.prems by (simp add: d'(4)) (simp add: d_def)
    finally show ?thesis .
  qed
  then have "take (Suc n) (drop k data') = take (Suc n) data"
    using d'(2,3) Suc.prems \<open>take n d = take n data\<close> by (simp add: take_Suc_conv_app_nth d_def)
  moreover have "drop (k + Suc n) data' = drop (k + Suc n) data"
  proof -
    have "drop (k + Suc n) data' = drop 1 (drop (k + n) data')" by simp
    also have "\<dots> = drop (k + Suc n) data" unfolding d'(4) by (simp add: d_def)
    finally show ?thesis .
  qed
  ultimately show ?case by (simp add: d_def)
qed

lemma InsertText_live:
  assumes "cbuf_ok (cmd_text st)" "int (length s) < cb_maxsize (cmd_text st) - cb_cursize (cmd_text st)"
  shows "\<exists>b. Cbuf_InsertText st s = Some (st\<lparr>cmd_text := b\<rparr>) \<and> cbuf_ok b \<and> live b = s @ NEWLINE # live (cmd_text st) \<and>
     cb_maxsize b = cb_maxsize (cmd_text st)"
proof -
  let ?b = "cmd_text st" and ?k = "Suc (length s)"
  obtain n where n: "cb_cursize ?b = int n" using assms(1) by (auto simp: cbuf_ok_def elim: nonneg_int_cases)
  have room: "?k + n \<le> length (cb_data ?b)" using assms by (simp add: cbuf_ok_def n)
  obtain d where d: "move_up n (int ?k) (cb_data ?b) = Some d" "length d = length (cb_data ?b)"
      "take n (drop ?k d) = take n (cb_data ?b)"
    using move_up_spec [OF room] by auto
  have "text_fits ?b s" using assms by (simp add: text_fits_def cbuf_ok_def)
  moreover have "copy_in d 0 s = Some (s @ drop (length s) d)" using room d(2) by (simp add: mem_simps)
  moreover have "poke (s @ drop (length s) d) (int (length s)) NEWLINE = Some (s @ NEWLINE # drop ?k d)"
    using room d(2) by (simp add: mem_simps list_update_append) (simp add: Cons_nth_drop_Suc [symmetric])
  ultimately show ?thesis
    using room assms(1) d
    by (intro exI [of _ "?b\<lparr>cb_data := s @ NEWLINE # drop ?k d, cb_cursize := int (n + ?k)\<rparr>"])
      (auto simp: Cbuf_InsertText_def Let_def n cbuf_ok_def live_def nat_add_distrib add.commute)
qed

text \<open>
  A command that stands on a line of its own: the line has no end of line in it, and its semicolons
  are in quotes.
\<close>

definition one_command :: "string \<Rightarrow> bool" where
  "one_command c \<longleftrightarrow> nulfree c \<and> length c \<le> 4094 \<and>
     (\<forall>i < length c. c ! i \<noteq> NEWLINE \<and> c ! i \<noteq> RETURN \<and> (c ! i = CHR '';'' \<longrightarrow> odd (count_list (take i c) QUOTE)))"

lemma command_length_line:
  "\<forall>i < length c. c ! i \<noteq> NEWLINE \<and> c ! i \<noteq> RETURN \<and> (c ! i = CHR '';'' \<longrightarrow> odd (q + int (count_list (take i c) QUOTE))) \<Longrightarrow>
   command_length (c @ NEWLINE # s) q = length c"
proof (induction c arbitrary: q)
  case Nil
  then show ?case by simp
next
  case (Cons x c)
  define q1 where "q1 = (if x = QUOTE then q + 1 else q)"
  have "command_length (c @ NEWLINE # s) q1 = length c"
  proof (rule Cons.IH, intro allI impI)
    fix i assume "i < length c"
    then show "c ! i \<noteq> NEWLINE \<and> c ! i \<noteq> RETURN \<and> (c ! i = CHR '';'' \<longrightarrow> odd (q1 + int (count_list (take i c) QUOTE)))"
      using Cons.prems [rule_format, of "Suc i"] by (auto simp: q1_def)
  qed
  moreover have "x \<noteq> NEWLINE" "x \<noteq> RETURN" "x = CHR '';'' \<Longrightarrow> odd q1"
    using Cons.prems [rule_format, of 0] by (auto simp: q1_def)
  ultimately show ?case by (auto simp: q1_def [symmetric] Let_def and_one_eq)
qed

lemma take_command_line:
  assumes "cbuf_ok b" "one_command c" "live b = c @ NEWLINE # s"
  shows "\<exists>b'. take_command b = Some (c, b') \<and> cbuf_ok b' \<and> live b' = s \<and> cb_maxsize b' = cb_maxsize b"
proof -
  obtain n where n: "cb_cursize b = int n" using assms(1) by (auto simp: cbuf_ok_def elim: nonneg_int_cases)
  have data: "n \<le> length (cb_data b)" "take n (cb_data b) = c @ NEWLINE # s" "n = length c + 1 + length s"
    using assms(1,3) n length_live [OF assms(1)] by (auto simp: cbuf_ok_def live_def)
  have len: "command_length (c @ NEWLINE # s) 0 = length c" "length c \<le> 4094" "cstr_of c = c"
    using assms(2) command_length_line [of c 0 s] by (auto simp: one_command_def nulfree_def cstr_of_def takeWhile_eq_all_conv)
  have pre: "take (length c) (cb_data b) = c"
    using arg_cong [OF data(2), of "take (length c)"] data(3) by (simp add: min_def)
  have post: "take (length s) (drop (length c + 1) (cb_data b)) = s"
    using arg_cong [OF data(2), of "drop (length c + 1)"] data(3) by (simp add: drop_take)
  have "copy_out (cb_data b) 0 (int n) = Some (c @ NEWLINE # s)" "copy_out (cb_data b) 0 (int (length c)) = Some c"
      "copy_out (cb_data b) (int (length c) + 1) (int (length s)) = Some s"
      "copy_in (cb_data b) 0 s = Some (s @ drop (length s) (cb_data b))"
    using data pre post by (simp_all add: mem_simps nat_add_distrib)
  moreover have "int n - (int (length c) + 1) = int (length s)" "int (length c) \<noteq> int n" using data(3) by simp_all
  ultimately show ?thesis
    using len assms(1) data(1,3) by (simp add: take_command_def Let_def n cbuf_ok_def live_def)
qed

section \<open>The buffer as a queue\<close>

text \<open>What callers do with the buffer, and the queue of commands it stands for.\<close>

datatype buffer_call = Added string | Inserted string

fun call_buffer :: "buffer_call list \<Rightarrow> command_state \<Rightarrow> command_state option" where
  "call_buffer [] st = Some st"
| "call_buffer (Added c # calls) st = do { st1 \<leftarrow> Cbuf_AddText st (c @ [NEWLINE]); call_buffer calls st1 }"
| "call_buffer (Inserted c # calls) st = do { st1 \<leftarrow> Cbuf_InsertText st c; call_buffer calls st1 }"

fun queued :: "buffer_call list \<Rightarrow> string list \<Rightarrow> string list" where
  "queued [] q = q"
| "queued (Added c # calls) q = queued calls (q @ [c])"
| "queued (Inserted c # calls) q = queued calls (c # q)"

fun call_text :: "buffer_call \<Rightarrow> string" where
  "call_text (Added c) = c"
| "call_text (Inserted c) = c"

definition lines_of :: "string list \<Rightarrow> string" where
  "lines_of q = concat (map (\<lambda>c. c @ [NEWLINE]) q)"

lemma set_queued: "set (queued calls q) = set q \<union> call_text ` set calls"
  by (induction calls q rule: queued.induct) auto

lemma call_buffer_live:
  "cbuf_ok (cmd_text st) \<Longrightarrow> live (cmd_text st) = lines_of q \<Longrightarrow>
   int (length (lines_of q) + length (lines_of (map call_text calls))) < cb_maxsize (cmd_text st) \<Longrightarrow>
   \<exists>b. call_buffer calls st = Some (st\<lparr>cmd_text := b\<rparr>) \<and> cbuf_ok b \<and> live b = lines_of (queued calls q)"
proof (induction calls q arbitrary: st rule: queued.induct)
  case (1 q)
  then show ?case by (intro exI [of _ "cmd_text st"]) simp
next
  case (2 c calls q)
  have "int (length (c @ [NEWLINE])) < cb_maxsize (cmd_text st) - cb_cursize (cmd_text st)"
    using "2.prems" length_live [OF "2.prems"(1)] by (simp add: lines_of_def)
  from AddText_live [OF "2.prems"(1) this] obtain b where b: "Cbuf_AddText st (c @ [NEWLINE]) = Some (st\<lparr>cmd_text := b\<rparr>)"
      "cbuf_ok b" "live b = lines_of (q @ [c])" "cb_maxsize b = cb_maxsize (cmd_text st)"
    using "2.prems"(2) by (auto simp: lines_of_def)
  from "2.IH" [of "st\<lparr>cmd_text := b\<rparr>"] show ?case using b "2.prems"(3) by (simp add: lines_of_def)
next
  case (3 c calls q)
  have "int (length c) < cb_maxsize (cmd_text st) - cb_cursize (cmd_text st)"
    using "3.prems" length_live [OF "3.prems"(1)] by (simp add: lines_of_def)
  from InsertText_live [OF "3.prems"(1) this] obtain b where b: "Cbuf_InsertText st c = Some (st\<lparr>cmd_text := b\<rparr>)"
      "cbuf_ok b" "live b = lines_of (c # q)" "cb_maxsize b = cb_maxsize (cmd_text st)"
    using "3.prems"(2) by (auto simp: lines_of_def)
  from "3.IH" [of "st\<lparr>cmd_text := b\<rparr>"] show ?case using b "3.prems"(3) by (simp add: lines_of_def)
qed

text \<open>
  Commands that leave the buffer and the wait counter alone, with the effect \<open>f\<close> on the world; the
  rest of the command state they may change.
\<close>

definition quiet :: "'w command_host \<Rightarrow> (string \<Rightarrow> 'w \<Rightarrow> 'w) \<Rightarrow> string list \<Rightarrow> bool" where
  "quiet host f q \<longleftrightarrow> (\<forall>c\<in>set q. \<forall>st w. tokenizer_ok st \<and> cmd_wait st = 0 \<longrightarrow>
     (\<exists>st'. Cmd_ExecuteString host c (st, w) = Some (st', f c w) \<and> tokenizer_ok st' \<and> cmd_wait st' = 0 \<and>
        cmd_text st' = cmd_text st))"

lemma execute_lines:
  "cbuf_ok (cmd_text st) \<Longrightarrow> live (cmd_text st) = lines_of q \<Longrightarrow> list_all one_command q \<Longrightarrow> cmd_wait st = 0 \<Longrightarrow>
   tokenizer_ok st \<Longrightarrow> quiet host f q \<Longrightarrow>
   \<exists>st'. Cbuf_Execute host (st, w) = Some (st', fold f q w) \<and> cb_cursize (cmd_text st') = 0"
proof (induction q arbitrary: st w)
  case Nil
  then have "cb_cursize (cmd_text st) = 0" using length_live [OF Nil.prems(1)] by (simp add: lines_of_def)
  then show ?case by (simp add: Cbuf_Execute.simps)
next
  case (Cons c q)
  have l: "live (cmd_text st) = c @ NEWLINE # lines_of q" using Cons.prems(2) by (simp add: lines_of_def)
  then have ne: "cb_cursize (cmd_text st) \<noteq> 0" using length_live [OF Cons.prems(1)] by auto
  obtain b where b: "take_command (cmd_text st) = Some (c, b)" "cbuf_ok b" "live b = lines_of q"
    using take_command_line [OF Cons.prems(1) _ l] Cons.prems(3) by auto
  have "tokenizer_ok (st\<lparr>cmd_text := b\<rparr>)" "cmd_wait (st\<lparr>cmd_text := b\<rparr>) = 0"
    using Cons.prems(4,5) by (simp_all add: tokenizer_ok_def)
  then obtain st1 where 1: "Cmd_ExecuteString host c (st\<lparr>cmd_text := b\<rparr>, w) = Some (st1, f c w)" "tokenizer_ok st1"
      "cmd_wait st1 = 0" "cmd_text st1 = b"
    using Cons.prems(6) by (fastforce simp: quiet_def)
  have "quiet host f q" using Cons.prems(6) by (simp add: quiet_def)
  then obtain st' where "Cbuf_Execute host (st1, f c w) = Some (st', fold f q (f c w))" "cb_cursize (cmd_text st') = 0"
    using Cons.IH [of st1 "f c w"] 1 b Cons.prems(3) by auto
  then show ?case
    using ne b(1) 1(1) Cons.prems(4) by (simp add: Cbuf_Execute.simps [of host "(st, w)"])
qed


definition logging_host :: "string list command_host" where
  "logging_host = \<lparr>ho_client_trap = (\<lambda>s m. (True, (fst m, snd m @ [s]))), ho_function = (\<lambda>n m. m),
     ho_cvar_string = (\<lambda>s w. []), ho_punkbuster = (\<lambda>b s m. m), ho_cvar_command = (\<lambda>m. (False, m)),
     ho_cl_running = (\<lambda>w. False), ho_sv_running = (\<lambda>w. False), ho_cl_game = (\<lambda>m. (False, m)),
     ho_sv_game = (\<lambda>m. (False, m)), ho_ui_game = (\<lambda>m. (False, m)), ho_forward = (\<lambda>s m. m)\<rparr>"


section \<open>The list of commands\<close>

lemma Q_stricmp_eq: "nulfree a \<Longrightarrow> nulfree b \<Longrightarrow> Q_stricmp (Some a) (Some b) = 0 \<longleftrightarrow> upper (take 99999 a) = upper (take 99999 b)"
  using stricmpn_loop_0 [of a b 99999] by (simp add: Q_stricmp_def Q_stricmpn_def u32_id)

text \<open>
  The list of commands may reorganise itself. \<open>Cmd_ExecuteString\<close> moves the command it found to
  the front of the list; whatever the list and the name, every later lookup still finds the same
  function, also where two registered names differ in case only.
\<close>

theorem found_command_moves:
  assumes "nulfree name" "nulfree other" "list_all (\<lambda>f. nulfree (fn_name f)) fs" "take_function name fs = Some (f, rest)"
  shows "map_option fst (take_function other (f # rest)) = map_option fst (take_function other fs) \<and>
    mset (f # rest) = mset fs"
proof -
  have found: "upper (take 99999 name) = upper (take 99999 (fn_name f)) \<and> nulfree (fn_name f)"
    if "list_all (\<lambda>f. nulfree (fn_name f)) fs" "take_function name fs = Some (f, rest)" for fs rest
    using that by (induction fs arbitrary: rest) (auto simp: Q_stricmp_eq assms(1) split: if_splits)
  show ?thesis
    using assms(3,4)
  proof (induction fs arbitrary: rest)
    case Nil
    then show ?case by simp
  next
    case (Cons g fs)
    show ?case
    proof (cases "Q_stricmp (Some name) (Some (fn_name g)) = 0")
      case True
      then show ?thesis using Cons.prems by simp
    next
      case False
      then obtain rest' where r: "take_function name fs = Some (f, rest')" "rest = g # rest'" using Cons.prems(2) by auto
      have "map_option fst (take_function other (f # rest')) = map_option fst (take_function other fs)"
          "mset (f # rest') = mset fs"
        using Cons.IH [OF _ r(1)] Cons.prems(1) by auto
      moreover have "Q_stricmp (Some other) (Some (fn_name f)) \<noteq> 0 \<or> Q_stricmp (Some other) (Some (fn_name g)) \<noteq> 0"
        using found [OF _ r(1)] False Cons.prems(1) by (auto simp: Q_stricmp_eq assms(1,2))
      ultimately show ?thesis using r(2) by (auto simp: option.map_comp comp_def split: if_splits)
    qed
  qed
qed

lemma found_command_moves_witness:
  "map_option fst (take_function ''MAP'' [\<lparr>fn_name = ''Quit'', fn_function = None\<rparr>, \<lparr>fn_name = ''map'', fn_function = Some Cmd_Wait\<rparr>]) =
   Some \<lparr>fn_name = ''map'', fn_function = Some Cmd_Wait\<rparr>"
proof -
  let ?quit = "\<lparr>fn_name = ''Quit'', fn_function = None\<rparr>" and ?map = "\<lparr>fn_name = ''map'', fn_function = Some Cmd_Wait\<rparr>"
  have "take_function ''quit'' [?map, ?quit] = Some (?quit, [?map])" "take_function ''MAP'' [?map, ?quit] = Some (?map, [?quit])"
    by (simp_all add: Q_stricmp_eq nulfree_def upper_def fold_lower_def schar_def)
  then show ?thesis
    using found_command_moves [of "''quit''" "''MAP''" "[?map, ?quit]" ?quit "[?map]"] by (simp add: nulfree_def)
qed

end
