(* ===== verification/Spec2Isabelle.thy ===== *)
theory Spec2Isabelle
  imports SvMessage ClPacket Usercmd_Chain Msg_Shift Loopback_Correct EventQueue_Correct Cipher_Correct Info_Correct Oob_Correct DeltaPlayer_Correct
    FsPack_Correct SvDownload_Correct Snapshot_Safe Command_Correct
begin

text \<open>
  A verification library for the engine core of \<open>src/\<close>: the reconstructed multiplayer engine
  whose common code (\<open>src/qcommon\<close>), server (\<open>src/server/engine\<close>) and client
  (\<open>src/client/engine\<close>) are built into the listen-server client and the dedicated server.

  \<^bold>\<open>What the program does here.\<close> A frame of either side takes packets from the event queue,
  passes them to the packet handler, which finds the channel of the sender, reassembles fragments,
  removes the cipher whose key is the text of a reliable command, expands the message with the
  fixed Huffman tree and parses it with the bit reader and the delta codec. The other
  direction is the mirror image. Each layer below is one group of theories; a theory
  \<open>X\<close> holds definitions only, \<open>X_Correct\<close> what is proved of them.

  \<^item> \<open>Prelude\<close>: C integers with their wrap-around, checked memory access, C strings, the result
    type of operations that may end in \<open>Com_Error\<close>. \<open>FloatBits\<close>: binary32 patterns, for the codecs.
  \<^item> \<open>QString\<close> (\<open>q_string.c\<close>), \<open>Info\<close> (\<open>info.c\<close>): strings, info strings. Setting a key is the
    update of a list of pairs; the shadowing by case and the truncation are theorems.
  \<^item> \<open>Msg\<close> (\<open>msg_base.c\<close>), \<open>Msg_Stream\<close>: the message cursor. Every program of writers is
    read back by the same program of readers; no operation leaves its buffer.
  \<^item> \<open>Netchan\<close> (\<open>netchan.c\<close>): fragmentation and reassembly. \<open>Ring\<close> is the interface (a locale) of the
    engine's ring buffers; \<open>Loopback\<close> (\<open>net_loopback.c\<close>, \<open>net_compare.c\<close>) and \<open>EventQueue\<close>
    (\<open>com_event_queue.c\<close>, \<open>sys_event_runtime.c\<close>) provide it.
  \<^item> \<open>ServerTypes\<close>, \<open>SvCommands\<close> (\<open>server_commands.c\<close>): the reliable command ring against an
    abstract queue.
  \<^item> \<open>Cipher\<close>: \<open>server_netchan.c\<close>, \<open>client_netchan.c\<close>, the packet handlers of both sides and the
    client's reliable commands; the locale \<open>cipher_pair\<close> is what a transport asks of a cipher.
  \<^item> \<open>Huffman\<close> (\<open>huffman.c\<close>, \<open>msg_huffman.c\<close>), \<open>Huffman_Tree\<close>: the adaptive coder and the fixed
    tree; \<open>Oob\<close> (\<open>net_oob.c\<close>): connectionless packets, the compressed connect request.
  \<^item> \<open>Delta\<close>, \<open>DeltaPlayer\<close> (\<open>msg_delta.c\<close>): entities, user commands, display elements and
    player states, as descriptor tables over blocks of dwords.
  \<^item> \<open>FsPath\<close> (\<open>filesystem_path_security.c\<close>, \<open>filesystem_path_build.c\<close>, \<open>filesystem_path_order.c\<close>,
    \<open>filesystem_compare.c\<close>, \<open>filesystem_lookup.c\<close> and the names of \<open>filesystem_pure.c\<close>): accepted
    names stay below their root. \<open>Checksum\<close> (\<open>q_checksum.c\<close>): MD4 against RFC 1320. \<open>FsPack\<close>
    (\<open>filesystem_pack.c\<close>): the catalog of a pak, whose hashed lookup is a search of its entries.
    \<open>FsHandles\<close>: the handle table over a host of named contents.
  \<^item> \<open>SvDownload\<close> (\<open>server_download.c\<close>), \<open>ClDownload\<close> (\<open>CL_ParseDownload\<close>, \<open>download_protocol.c\<close>):
    file transfer in numbered blocks. \<open>SvDownload_Window\<close> has the window's invariant,
    \<open>SvDownload_Correct\<close> the transfer over a connection that loses messages: the client's file
    is always a prefix of the server's, and enough delivered messages complete it.
  \<^item> \<open>SvSnapshot\<close> (\<open>server_snapshot_send.c\<close>), \<open>ClSnapshot\<close> (\<open>CL_ParseSnapshot\<close> and what it calls): a frame
    of the game as the difference from an earlier one. \<open>Snapshot_Stream\<close> has the merge of two sorted
    lists of records as wire operations, once for both kinds of record, in the locale
    \<open>packet_channel\<close>; \<open>Snapshot_Channels\<close> interprets it for entities and clients, and
    \<open>Snapshot_Correct\<close> is the whole snapshot from the server's frame to the client's, and
    \<open>Snapshot_Safe\<close> the parser on the messages of a hostile server.
  \<^item> \<open>Command\<close> (\<open>q_command.c\<close>): the command buffer as a queue, the tokenizer as the list of tokens of a
    text, and the command list that moves what it finds to its front.

  \<^bold>\<open>Conventions.\<close> \<open>None\<close> is an access outside a block, so that an operation returns \<open>Some\<close> is its
  memory safety; \<open>Raise\<close> is \<open>Com_Error\<close>. Diagnostics and console prints are left out. A pointer to
  a node of a pool is its index, an owned heap block a number or its bytes. Loops are structural
  recursions or functions with a measure; the two event loops that drain a queue take fuel, and
  their theorems say how much is enough (the number of queued events plus one).

  \<^bold>\<open>Not modelled.\<close> The renderer, sound, the client game, the user interface and the dynamic loader
  are platform and floating-point code. The game logic (\<open>src/server/game\<close>) and the script engine
  run behind the virtual-machine interface. The archive library, sockets and the clock are parameters, the host's
  directories a map from paths to contents.
  Printing, cvar registration and demo files are left out of the operations they occur in.
\<close>

end
